(* ===== verification/Prelude.thy ===== *)
theory Prelude
  imports Main "HOL-Library.Word"
begin

text \<open>
  Shared vocabulary of the development: the machine types of the C sources, the kernel's
  error codes, C strings as byte lists, network byte order, kernel bitmaps, and generic
  facts on lists that several components use. Nothing here models code of the repository
  by itself; the components import it.
\<close>

unbundle bit_operations_syntax

section \<open>Machine types\<close>

type_synonym byte = "8 word"
type_synonym u32 = "32 word"
type_synonym bitmap = "64 word"

text \<open>
  Where only the size of an unsigned 32 bit value matters it is a \<open>nat\<close>, with the
  wrap-around of C written out by \<open>wrap32\<close>.
\<close>

definition wrap32 :: "nat \<Rightarrow> nat" where
  "wrap32 n = n mod 2 ^ 32"

lemma wrap32_id [simp]: "n < 2 ^ 32 \<Longrightarrow> wrap32 n = n"
  by (simp add: wrap32_def)

section \<open>Kernel error codes\<close>

abbreviation (input) EPERM :: int where "EPERM \<equiv> 1"
abbreviation (input) ENOENT :: int where "ENOENT \<equiv> 2"
abbreviation (input) ENOEXEC :: int where "ENOEXEC \<equiv> 8"
abbreviation (input) EAGAIN :: int where "EAGAIN \<equiv> 11"
abbreviation (input) ENOMEM :: int where "ENOMEM \<equiv> 12"
abbreviation (input) EACCES :: int where "EACCES \<equiv> 13"
abbreviation (input) EFAULT :: int where "EFAULT \<equiv> 14"
abbreviation (input) EEXIST :: int where "EEXIST \<equiv> 17"
abbreviation (input) ENODEV :: int where "ENODEV \<equiv> 19"
abbreviation (input) EINVAL :: int where "EINVAL \<equiv> 22"
abbreviation (input) ENOTTY :: int where "ENOTTY \<equiv> 25"
abbreviation (input) ERESTARTSYS :: int where "ERESTARTSYS \<equiv> 512"

section \<open>Collections of rewrite rules\<close>

named_theorems ring_simps \<open>the ring buffer over its list abstraction\<close>
named_theorems table_simps \<open>bucket tables over their set abstraction\<close>
named_theorems engine_simps \<open>the decision functions of the measurement engine\<close>

section \<open>C strings and buffers\<close>

text \<open>
  A C string in a buffer is the prefix before the first zero byte; the end of a list also
  ends the string, so a byte list without zeros stands for itself.
\<close>

definition cstr :: "byte list \<Rightarrow> byte list" where
  "cstr b = takeWhile (\<lambda>x. x \<noteq> 0) b"

definition strlen :: "byte list \<Rightarrow> nat" where
  "strlen b = length (cstr b)"

definition no_nul :: "byte list \<Rightarrow> bool" where
  "no_nul b \<longleftrightarrow> 0 \<notin> set b"

text \<open>The bytes of a string literal.\<close>

definition bytes_of :: "string \<Rightarrow> byte list" where
  "bytes_of s = map of_char s"

text \<open>\<open>strncmp\<close> of the C library: stops at the first difference, at a zero byte or after n bytes.\<close>

fun strncmp :: "byte list \<Rightarrow> byte list \<Rightarrow> nat \<Rightarrow> int" where
  "strncmp xs ys 0 = 0"
| "strncmp xs ys (Suc n) =
     (let c1 = (case xs of [] \<Rightarrow> 0 | x # _ \<Rightarrow> x);
          c2 = (case ys of [] \<Rightarrow> 0 | y # _ \<Rightarrow> y)
      in if c1 \<noteq> c2 then (if c1 < c2 then -1 else 1)
         else if c1 = 0 then 0
         else strncmp (tl xs) (tl ys) n)"

definition strcmp :: "byte list \<Rightarrow> byte list \<Rightarrow> int" where
  "strcmp xs ys = strncmp xs ys (Suc (max (strlen xs) (strlen ys)))"

text \<open>\<open>memcmp\<close> over equal numbers of bytes, as a test for equality.\<close>

definition memeq :: "byte list \<Rightarrow> byte list \<Rightarrow> nat \<Rightarrow> bool" where
  "memeq xs ys n \<longleftrightarrow> take n xs = take n ys"

text \<open>\<open>memcpy (dst + off, src, length src)\<close> inside the bounds of the destination.\<close>

definition memcpy_at :: "byte list \<Rightarrow> nat \<Rightarrow> byte list \<Rightarrow> byte list" where
  "memcpy_at dst off src = take off dst @ src @ drop (off + length src) dst"

lemma cstr_no_nul: "no_nul b \<Longrightarrow> cstr b = b"
  by (auto simp: cstr_def no_nul_def)

lemma cstr_append_nul: "no_nul b \<Longrightarrow> cstr (b @ 0 # r) = b"
  by (simp add: cstr_def no_nul_def takeWhile_append)

lemma no_nul_cstr [simp]: "no_nul (cstr b)"
  by (auto simp: cstr_def no_nul_def dest: set_takeWhileD)

lemma cstr_cstr [simp]: "cstr (cstr b) = cstr b"
  by (simp add: cstr_no_nul)

lemma cstr_Nil [simp]: "cstr [] = []"
  by (simp add: cstr_def)

lemma cstr_Cons: "cstr (x # xs) = (if x = 0 then [] else x # cstr xs)"
  by (simp add: cstr_def)

lemma strncmp_eq_0_iff:
  "strncmp xs ys n = 0 \<longleftrightarrow> take n (cstr xs) = take n (cstr ys)"
proof (induction xs ys n rule: strncmp.induct)
  case (1 xs ys)
  show ?case by simp
next
  case (2 xs ys n)
  show ?case
    using "2.IH" [OF refl refl]
    by (cases xs; cases ys) (auto simp: cstr_Cons Let_def)
qed

lemma strcmp_eq_0_iff: "strcmp xs ys = 0 \<longleftrightarrow> cstr xs = cstr ys"
  by (simp add: strcmp_def strncmp_eq_0_iff strlen_def del: strncmp.simps)

lemma length_memcpy_at [simp]:
  "off + length src \<le> length dst \<Longrightarrow> length (memcpy_at dst off src) = length dst"
  by (simp add: memcpy_at_def)

section \<open>Network byte order\<close>

definition be16 :: "byte \<Rightarrow> byte \<Rightarrow> nat" where
  "be16 hi lo = 256 * unat hi + unat lo"

definition le32_bytes :: "nat \<Rightarrow> byte list" where
  "le32_bytes n =
     [of_nat (n mod 256), of_nat (n div 256 mod 256),
      of_nat (n div 2 ^ 16 mod 256), of_nat (n div 2 ^ 24 mod 256)]"

lemma length_le32_bytes [simp]: "length (le32_bytes n) = 4"
  by (simp add: le32_bytes_def)

lemma be16_less: "be16 hi lo < 2 ^ 16"
proof -
  have "unat hi < 256" "unat lo < 256"
    using unsigned_less [of hi] unsigned_less [of lo] by auto
  then show ?thesis by (simp add: be16_def)
qed

section \<open>Kernel bitmaps\<close>

text \<open>
  The bitmaps of the notification queue have \<open>MAX_CONCURR_PROCESS = 32\<close> bits and occupy one
  \<open>unsigned long\<close>: \<open>test_bit\<close>, \<open>set_bit\<close> and \<open>clear_bit\<close> act on one bit,
  \<open>bitmap_empty\<close>, \<open>bitmap_weight\<close> and \<open>for_each_set_bit\<close> look at the first n.
\<close>

definition test_bit :: "nat \<Rightarrow> bitmap \<Rightarrow> bool" where
  "test_bit n b = bit b n"

definition set_bitmap :: "nat \<Rightarrow> bitmap \<Rightarrow> bitmap" where
  "set_bitmap n b = set_bit n b"

definition clear_bit :: "nat \<Rightarrow> bitmap \<Rightarrow> bitmap" where
  "clear_bit n b = unset_bit n b"

definition set_bits :: "bitmap \<Rightarrow> nat \<Rightarrow> nat list" where
  "set_bits b n = filter (\<lambda>i. test_bit i b) [0..<n]"

definition bitmap_weight :: "bitmap \<Rightarrow> nat \<Rightarrow> nat" where
  "bitmap_weight b n = length (set_bits b n)"

definition bitmap_empty :: "bitmap \<Rightarrow> nat \<Rightarrow> bool" where
  "bitmap_empty b n \<longleftrightarrow> set_bits b n = []"

lemma test_bit_zero [simp]: "\<not> test_bit n 0"
  by (simp add: test_bit_def)

lemma test_bit_set [simp]:
  "test_bit m (set_bitmap n b) \<longleftrightarrow> (m = n \<and> n < 64) \<or> test_bit m b"
  by (auto simp: test_bit_def set_bitmap_def bit_set_bit_iff)

lemma test_bit_clear [simp]: "test_bit m (clear_bit n b) \<longleftrightarrow> m \<noteq> n \<and> test_bit m b"
  by (auto simp: test_bit_def clear_bit_def bit_unset_bit_iff)

lemma set_set_bits [simp]: "set (set_bits b n) = {i. i < n \<and> test_bit i b}"
  by (auto simp: set_bits_def)

lemma distinct_set_bits [simp]: "distinct (set_bits b n)"
  by (simp add: set_bits_def)

lemma bitmap_empty_iff: "bitmap_empty b n \<longleftrightarrow> (\<forall>i<n. \<not> test_bit i b)"
  by (auto simp: bitmap_empty_def set_bits_def filter_empty_conv)

lemma bitmap_weight_0_iff: "bitmap_weight b n = 0 \<longleftrightarrow> (\<forall>i<n. \<not> test_bit i b)"
  by (auto simp: bitmap_weight_def set_bits_def filter_empty_conv)

section \<open>Lists\<close>

text \<open>The last n elements of a list: what a bounded buffer that drops its oldest entry keeps.\<close>

definition take_last :: "nat \<Rightarrow> 'a list \<Rightarrow> 'a list" where
  "take_last n xs = drop (length xs - n) xs"

lemma take_last_id [simp]: "length xs \<le> n \<Longrightarrow> take_last n xs = xs"
  by (simp add: take_last_def)

lemma length_take_last [simp]: "length (take_last n xs) = min (length xs) n"
  by (simp add: take_last_def)

lemma take_last_snoc:
  "0 < n \<Longrightarrow> length xs = n \<Longrightarrow> take_last n (xs @ [x]) = tl xs @ [x]"
  by (cases xs) (simp_all add: take_last_def)

lemma take_last_append:
  "take_last n (take_last n xs @ ys) = take_last n (xs @ ys)"
proof (cases "length xs \<le> n")
  case False
  then have eq: "length ys + (length xs - n) = length xs + length ys - n"
    and "length xs - n + n = length xs"
    by auto
  then show ?thesis
    by (simp add: take_last_def drop_append eq)
qed simp

text \<open>A predicate that holds on a suffix of a list: once it holds, it holds to the end.\<close>

fun suffix_closed :: "('a \<Rightarrow> bool) \<Rightarrow> 'a list \<Rightarrow> bool" where
  "suffix_closed P [] = True"
| "suffix_closed P (x # xs) = ((P x \<longrightarrow> list_all P xs) \<and> suffix_closed P xs)"

lemma suffix_closed_tl: "suffix_closed P xs \<Longrightarrow> suffix_closed P (tl xs)"
  by (cases xs) auto

lemma suffix_closed_drop: "suffix_closed P xs \<Longrightarrow> suffix_closed P (drop n xs)"
proof (induction n arbitrary: xs)
  case (Suc n)
  then show ?case by (cases xs) auto
qed simp

lemma suffix_closed_snoc:
  "suffix_closed P (xs @ [x]) \<longleftrightarrow> suffix_closed P xs \<and> ((\<exists>y\<in>set xs. P y) \<longrightarrow> P x)"
  by (induction xs) (auto simp: list_all_iff)

lemma suffix_closed_none: "\<forall>x\<in>set xs. \<not> P x \<Longrightarrow> suffix_closed P xs"
  by (induction xs) auto

lemma suffix_closed_all: "\<forall>x\<in>set xs. P x \<Longrightarrow> suffix_closed P xs"
  by (induction xs) (auto simp: list_all_iff)

lemma suffix_closed_map: "suffix_closed P (map f xs) \<longleftrightarrow> suffix_closed (P \<circ> f) xs"
  by (induction xs) (auto simp: list_all_iff)

lemma suffix_closed_mono_cong:
  "(\<And>x. x \<in> set xs \<Longrightarrow> P x = Q x) \<Longrightarrow> suffix_closed P xs = suffix_closed Q xs"
  by (induction xs) (auto simp: list_all_iff)

lemma suffix_closed_split:
  assumes "suffix_closed P xs"
  obtains as bs where "xs = as @ bs" "\<forall>x\<in>set as. \<not> P x" "\<forall>x\<in>set bs. P x"
  using assms
proof (induction xs arbitrary: thesis)
  case Nil
  then show ?case by simp
next
  case (Cons x xs)
  show ?case
  proof (cases "P x")
    case True
    with Cons.prems(2) show ?thesis
      by (intro Cons.prems(1) [of "[]" "x # xs"]) (auto simp: list_all_iff)
  next
    case False
    from Cons.IH obtain as bs where "xs = as @ bs" "\<forall>x\<in>set as. \<not> P x" "\<forall>x\<in>set bs. P x"
      using Cons.prems(2) by auto
    with False show ?thesis
      by (intro Cons.prems(1) [of "x # as" bs]) auto
  qed
qed

lemma filter_take_last:
  assumes "suffix_closed P xs"
  shows "filter P (take_last n xs) = take_last n (filter P xs)"
proof -
  obtain as bs where xs: "xs = as @ bs" and P: "\<forall>x\<in>set as. \<not> P x" "\<forall>x\<in>set bs. P x"
    using suffix_closed_split [OF assms] .
  have "filter P as = []" "filter P bs = bs" "filter P (drop i as) = []" "filter P (drop i bs) = drop i bs" for i
    using P by (auto simp: filter_empty_conv filter_id_conv dest: in_set_dropD)
  then show ?thesis
    by (auto simp: xs take_last_def drop_append)
qed

lemma suffix_closed_append:
  assumes "suffix_closed P (xs @ ys)"
  shows "suffix_closed P ys"
  using suffix_closed_drop [OF assms, of "length xs"] by simp

lemma suffix_closed_index:
  assumes "suffix_closed P xs" "i < j" "j < length xs" "\<not> P (xs ! j)"
  shows "\<not> P (xs ! i)"
  using assms
proof (induction xs arbitrary: i j)
  case (Cons x xs)
  then show ?case
    by (cases i; cases j) (auto simp: list_all_iff)
qed simp

end
