(* ===== verification/Sm3.thy ===== *)
theory Sm3
  imports Prelude
begin

text \<open>
  The SM3 hash of the kernel modules: tsb/kernel/encryption/sm3/sm3.c. A context is fed in pieces of
  any length (\<open>sm3_update\<close>) and finished once (\<open>sm3_finish\<close>). The reference
  \<open>gb_sm3\<close> follows the standard GB/T 32905: padding of the whole message, the message
  schedule as a recurrence, one round function with a case distinction on the round number. The
  lemmas show that the code computes it, however the message is cut into pieces and whatever the
  context's buffer holds at the start.
\<close>

unbundle bit_operations_syntax

section \<open>The code\<close>

record sm3_context =
  total_bytes_High :: u32
  total_bytes_Low :: u32
  vector :: "u32 list"
  buffer :: "byte list"

definition rol :: "u32 \<Rightarrow> u32 \<Rightarrow> u32" where
  "rol x n = push_bit (unat (n AND 0x1F)) x OR drop_bit (unat ((32 - n) AND 0x1F)) x"

definition P0 :: "u32 \<Rightarrow> u32" where
  "P0 x = x XOR rol x 9 XOR rol x 17"

definition P1 :: "u32 \<Rightarrow> u32" where
  "P1 x = x XOR rol x 15 XOR rol x 23"

definition CONCAT_4_BYTES :: "byte list \<Rightarrow> nat \<Rightarrow> u32" where
  "CONCAT_4_BYTES w8 i = push_bit 24 (ucast (w8 ! i)) OR push_bit 16 (ucast (w8 ! (i + 1)))
     OR push_bit 8 (ucast (w8 ! (i + 2))) OR ucast (w8 ! (i + 3))"

text \<open>The four bytes that \<open>SPLIT_INTO_4_BYTES\<close> and \<open>PUT_ULONG_BE\<close> store.\<close>

definition PUT_ULONG_BE :: "u32 \<Rightarrow> byte list" where
  "PUT_ULONG_BE n = [ucast (drop_bit 24 n), ucast (drop_bit 16 n), ucast (drop_bit 8 n), ucast n]"

text \<open>A word in network byte order.\<close>

definition be32 :: "byte list \<Rightarrow> u32" where
  "be32 p = CONCAT_4_BYTES p 0"

definition SM3_padding :: "byte list" where
  "SM3_padding = 0x80 # replicate 63 0"

definition sm3_vector0 :: "u32 list" where
  "sm3_vector0 = [0x7380166f, 0x4914b2b9, 0x172442d7, 0xda8a0600,
     0xa96f30bc, 0x163138aa, 0xe38dee4d, 0xb0fb0e4e]"

text \<open>\<open>None\<close> is a NULL context.\<close>

definition sm3_starts :: "sm3_context option \<Rightarrow> int \<times> sm3_context option" where
  "sm3_starts index = (case index of None \<Rightarrow> (-1, None) | Some c \<Rightarrow>
     (0, Some (c\<lparr>total_bytes_High := 0, total_bytes_Low := 0, vector := sm3_vector0\<rparr>)))"

definition sm3_init :: "sm3_context option \<Rightarrow> int \<times> sm3_context option" where
  "sm3_init index = (case index of None \<Rightarrow> (-1, None) | Some c \<Rightarrow>
     (0, Some (c\<lparr>total_bytes_High := 0, total_bytes_Low := 0, vector := sm3_vector0\<rparr>)))"

text \<open>The context that vmalloc returns, or \<open>None\<close>; its contents are arbitrary.\<close>

definition sm3_alloc_init :: "sm3_context option \<Rightarrow> sm3_context option" where
  "sm3_alloc_init mem = (case mem of None \<Rightarrow> None | Some c \<Rightarrow> snd (sm3_init (Some c)))"

definition sm3_expand_step :: "nat \<Rightarrow> u32 list \<Rightarrow> u32 list" where
  "sm3_expand_step j W =
     (let temp = W ! (j - 16) XOR W ! (j - 9) XOR rol (W ! (j - 3)) 15
      in W @ [P1 temp XOR rol (W ! (j - 13)) 7 XOR W ! (j - 6)])"

definition sm3_expand :: "byte list \<Rightarrow> u32 list" where
  "sm3_expand block =
     fold sm3_expand_step [16..<68] (map (\<lambda>k. CONCAT_4_BYTES block (4 * k)) [0..<16])"

type_synonym sm3_regs = "u32 \<times> u32 \<times> u32 \<times> u32 \<times> u32 \<times> u32 \<times> u32 \<times> u32"

definition sm3_round ::
  "u32 \<Rightarrow> (u32 \<Rightarrow> u32 \<Rightarrow> u32 \<Rightarrow> u32) \<Rightarrow> (u32 \<Rightarrow> u32 \<Rightarrow> u32 \<Rightarrow> u32) \<Rightarrow> u32 list \<Rightarrow> nat \<Rightarrow> sm3_regs \<Rightarrow> sm3_regs" where
  "sm3_round T FF GG W j = (\<lambda>(A, B, C, D, E, F, G, H).
     let SS1 = rol (rol A 12 + E + rol T (of_nat j)) 7;
         SS2 = SS1 XOR rol A 12;
         TT1 = FF A B C + D + SS2 + (W ! j XOR W ! (j + 4));
         TT2 = GG E F G + H + SS1 + W ! j
     in (TT1, A, rol B 9, C, P0 TT2, E, rol F 19, G))"

definition SM3_CF :: "sm3_context \<Rightarrow> byte list \<Rightarrow> sm3_context" where
  "SM3_CF index block =
     (let W = sm3_expand block;
          v = vector index;
          r0 = (v ! 0, v ! 1, v ! 2, v ! 3, v ! 4, v ! 5, v ! 6, v ! 7);
          r1 = fold (sm3_round 0x79cc4519 (\<lambda>X Y Z. X XOR Y XOR Z) (\<lambda>X Y Z. X XOR Y XOR Z) W) [0..<16] r0;
          (A, B, C, D, E, F, G, H) =
            fold (sm3_round 0x7a879d8a (\<lambda>X Y Z. (X AND Y) OR (X AND Z) OR (Y AND Z))
                    (\<lambda>X Y Z. (X AND Y) OR (NOT X AND Z)) W) [16..<64] r1
      in index\<lparr>vector := [v ! 0 XOR A, v ! 1 XOR B, v ! 2 XOR C, v ! 3 XOR D,
                         v ! 4 XOR E, v ! 5 XOR F, v ! 6 XOR G, v ! 7 XOR H]\<rparr>)"

text \<open>The while loop of \<open>sm3_update\<close>: whole blocks straight from the caller's data.\<close>

function sm3_blocks :: "sm3_context \<Rightarrow> byte list \<Rightarrow> sm3_context \<times> byte list" where
  "sm3_blocks index data =
     (if length data \<ge> 64 then sm3_blocks (SM3_CF index (take 64 data)) (drop 64 data) else (index, data))"
  by pat_completeness auto

termination sm3_blocks
  by (relation "measure (length \<circ> snd)") auto

declare sm3_blocks.simps [simp del]

definition sm3_update :: "sm3_context option \<Rightarrow> byte list option \<Rightarrow> int \<times> sm3_context option" where
  "sm3_update index chunk_data = (case (index, chunk_data) of
      (Some c, Some d) \<Rightarrow>
        if length d < 1 then (-1, index)
        else let left = unat (total_bytes_Low c AND 0x3F);
                 fill = 64 - left;
                 c1 = c\<lparr>total_bytes_Low := total_bytes_Low c + of_nat (length d)\<rparr>;
                 c2 = (if total_bytes_Low c1 < of_nat (length d)
                       then c1\<lparr>total_bytes_High := total_bytes_High c1 + 1\<rparr> else c1);
                 (c3, d3, left3) =
                   (if left > 0 \<and> length d \<ge> fill
                    then let b = c2\<lparr>buffer := memcpy_at (buffer c2) left (take fill d)\<rparr>
                         in (SM3_CF b (buffer b), drop fill d, 0)
                    else (c2, d, left));
                 (c4, d4) = sm3_blocks c3 d3
             in (0, Some (c4\<lparr>buffer := memcpy_at (buffer c4) left3 d4\<rparr>))
    | _ \<Rightarrow> (-1, index))"

definition sm3_finish :: "sm3_context option \<Rightarrow> byte list \<Rightarrow> int \<times> byte list \<times> sm3_context option" where
  "sm3_finish index out = (case index of None \<Rightarrow> (-1, out[0 := 0], None) | Some c \<Rightarrow>
     let high = drop_bit 29 (total_bytes_Low c) OR push_bit 3 (total_bytes_High c);
         low = push_bit 3 (total_bytes_Low c);
         msglen = PUT_ULONG_BE high @ PUT_ULONG_BE low;
         last = unat (total_bytes_Low c AND 0x3F);
         padn = (if last < 56 then 56 - last else 120 - last);
         (r1, i1) = sm3_update index (Some (take padn SM3_padding))
     in if r1 \<noteq> 0 then (r1, out, i1)
        else let (r2, i2) = sm3_update i1 (Some msglen)
        in if r2 \<noteq> 0 then (r2, out, i2)
           else (case i2 of None \<Rightarrow> (0, out, None)
             | Some c2 \<Rightarrow> (0, memcpy_at out 0 (concat (map PUT_ULONG_BE (vector c2))), i2)))"

text \<open>\<open>ctx\<close> is the uninitialised context on the stack.\<close>

definition sm3 :: "sm3_context \<Rightarrow> byte list \<Rightarrow> byte list \<Rightarrow> byte list" where
  "sm3 ctx input out =
     (let i1 = snd (sm3_init (Some ctx));
          i2 = snd (sm3_update i1 (Some input))
      in fst (snd (sm3_finish i2 out)))"

section \<open>The standard\<close>

text \<open>Numbers as big-endian byte strings.\<close>

definition be_val :: "byte list \<Rightarrow> nat" where
  "be_val bs = foldl (\<lambda>a b. a * 256 + unat b) 0 bs"

definition be_bytes :: "nat \<Rightarrow> nat \<Rightarrow> byte list" where
  "be_bytes k n = map (\<lambda>i. of_nat (n div 256 ^ i)) (rev [0..<k])"

function gb_W :: "byte list \<Rightarrow> nat \<Rightarrow> u32" where
  "gb_W B j = (if j < 16 then of_nat (be_val (map (\<lambda>k. B ! (4 * j + k)) [0..<4]))
     else P1 (gb_W B (j - 16) XOR gb_W B (j - 9) XOR word_rotl 15 (gb_W B (j - 3)))
          XOR word_rotl 7 (gb_W B (j - 13)) XOR gb_W B (j - 6))"
  by pat_completeness auto

termination gb_W
  by (relation "measure snd") auto

declare gb_W.simps [simp del]

definition gb_round :: "byte list \<Rightarrow> nat \<Rightarrow> sm3_regs \<Rightarrow> sm3_regs" where
  "gb_round B j = (\<lambda>(a, b, c, d, e, f, g, h).
     let T = (if j < 16 then 0x79cc4519 else 0x7a879d8a);
         FF = (if j < 16 then a XOR b XOR c else (a AND b) OR (a AND c) OR (b AND c));
         GG = (if j < 16 then e XOR f XOR g else (e AND f) OR (NOT e AND g));
         SS1 = word_rotl 7 (word_rotl 12 a + e + word_rotl (j mod 32) T);
         SS2 = SS1 XOR word_rotl 12 a;
         TT1 = FF + d + SS2 + (gb_W B j XOR gb_W B (j + 4));
         TT2 = GG + h + SS1 + gb_W B j
     in (TT1, a, word_rotl 9 b, c, P0 TT2, e, word_rotl 19 f, g))"

definition gb_CF :: "u32 list \<Rightarrow> byte list \<Rightarrow> u32 list" where
  "gb_CF v B =
     (case fold (gb_round B) [0..<64] (v ! 0, v ! 1, v ! 2, v ! 3, v ! 4, v ! 5, v ! 6, v ! 7) of
        (a, b, c, d, e, f, g, h) \<Rightarrow>
          map2 (\<lambda>x y. x XOR y) [v ! 0, v ! 1, v ! 2, v ! 3, v ! 4, v ! 5, v ! 6, v ! 7] [a, b, c, d, e, f, g, h])"

text \<open>A message of \<open>l\<close> bytes gets the bit 1, then the fewest zero bits, then its length in bits
  as 64-bit number, so that the whole has a multiple of 64 bytes.\<close>

definition gb_pad :: "byte list \<Rightarrow> byte list" where
  "gb_pad m = m @ 0x80 # replicate ((119 - length m mod 64) mod 64) 0
     @ be_bytes 8 (8 * length m)"

function gb_iterate :: "u32 list \<Rightarrow> byte list \<Rightarrow> u32 list" where
  "gb_iterate v m = (if length m \<ge> 64 then gb_iterate (gb_CF v (take 64 m)) (drop 64 m) else v)"
  by pat_completeness auto

termination gb_iterate
  by (relation "measure (length \<circ> snd)") auto

declare gb_iterate.simps [simp del]

definition gb_sm3 :: "byte list \<Rightarrow> byte list" where
  "gb_sm3 m = concat (map (be_bytes 4 \<circ> unat) (gb_iterate sm3_vector0 (gb_pad m)))"

section \<open>Words and bytes\<close>

lemma mask5: "unat (n AND 0x1F :: u32) = unat n mod 32"
proof -
  have "(n AND 0x1F :: u32) = take_bit 5 n"
    by (simp add: take_bit_eq_mask mask_eq_exp_minus_1)
  then show ?thesis
    by (simp add: take_bit_eq_mod unat_mod)
qed

lemma mask6: "unat (n AND 0x3F :: u32) = unat n mod 64"
proof -
  have "(n AND 0x3F :: u32) = take_bit 6 n"
    by (simp add: take_bit_eq_mask mask_eq_exp_minus_1)
  then show ?thesis
    by (simp add: take_bit_eq_mod unat_mod)
qed

lemma unat_32_minus: "unat (32 - n :: u32) mod 32 = (32 - unat n mod 32) mod 32"
proof -
  have "int (unat (32 - n) mod 32) = (32 - uint n) mod 2 ^ 32 mod 32"
    by (simp add: uint_word_ariths zmod_int flip: uint_nat)
  also have "\<dots> = (32 - uint n) mod 32"
    by (simp add: mod_mod_cancel)
  also have "\<dots> = (32 - uint n mod 32) mod 32"
    by (rule mod_diff_right_eq [symmetric])
  also have "\<dots> = int ((32 - unat n mod 32) mod 32)"
    by (simp add: zmod_int of_nat_diff less_imp_le_nat flip: uint_nat)
  finally show ?thesis by linarith
qed

lemma rol_eq: "rol x n = word_rotl (unat n mod 32) x"
proof (rule bit_word_eqI)
  fix i assume i: "i < LENGTH(32)"
  define k where "k = unat n mod 32"
  have k: "k < 32" by (simp add: k_def)
  have "bit (rol x n) i \<longleftrightarrow> (k \<le> i \<and> bit x (i - k)) \<or> bit x ((32 - k) mod 32 + i)"
    using i by (simp add: rol_def mask5 unat_32_minus bit_or_iff bit_push_bit_iff bit_drop_bit_eq flip: k_def)
  also have "\<dots> \<longleftrightarrow> bit x ((i + (32 - k)) mod 32)"
  proof (cases "k = 0")
    case True
    then show ?thesis using i by simp
  next
    case False
    then have m: "(32 - k) mod 32 = 32 - k" using k by simp
    show ?thesis
    proof (cases "k \<le> i")
      case True
      then have "(i + (32 - k)) mod 32 = i - k" "\<not> bit x (32 - k + i)"
        using i k by (auto simp: mod_if dest: bit_imp_le_length)
      then show ?thesis using True m by (auto simp: add.commute)
    next
      case ge: False
      then have "(i + (32 - k)) mod 32 = 32 - k + i" using k by simp
      then show ?thesis using ge m by auto
    qed
  qed
  finally show "bit (rol x n) i \<longleftrightarrow> bit (word_rotl (unat n mod 32) x) i"
    using i k by (simp add: bit_word_rotl_iff k_def)
qed

lemma upt4: "[0..<4] = [0, 1, 2, 3]"
  by (simp add: upt_rec)

lemma CONCAT_4_BYTES_eq: "CONCAT_4_BYTES b i = of_nat (be_val (map (\<lambda>k. b ! (i + k)) [0..<4]))"
proof -
  have *: "ucast (w :: byte) = (of_nat (unat w) :: u32)" for w
    by simp
  have d: "push_bit 24 (ucast w :: u32) + (push_bit 16 (ucast x) + (push_bit 8 (ucast y) + ucast z))
     = push_bit 24 (ucast w) OR push_bit 16 (ucast x) OR push_bit 8 (ucast y) OR ucast z" for w x y z :: byte
  proof -
    have e3: "push_bit 8 (ucast y :: u32) + ucast z = push_bit 8 (ucast y) OR ucast z"
      by (rule disjunctive_add_eq_or, rule bit_word_eqI)
        (use bit_imp_le_length in \<open>fastforce simp: bit_and_iff bit_push_bit_iff bit_ucast_iff\<close>)
    have e2: "push_bit 16 (ucast x :: u32) + (push_bit 8 (ucast y) OR ucast z)
        = push_bit 16 (ucast x) OR (push_bit 8 (ucast y) OR ucast z)"
      by (rule disjunctive_add_eq_or, rule bit_word_eqI)
        (use bit_imp_le_length in \<open>fastforce simp: bit_and_iff bit_or_iff bit_push_bit_iff bit_ucast_iff\<close>)
    have e1: "push_bit 24 (ucast w :: u32) + (push_bit 16 (ucast x) OR (push_bit 8 (ucast y) OR ucast z))
        = push_bit 24 (ucast w) OR (push_bit 16 (ucast x) OR (push_bit 8 (ucast y) OR ucast z))"
      by (rule disjunctive_add_eq_or, rule bit_word_eqI)
        (use bit_imp_le_length in \<open>fastforce simp: bit_and_iff bit_or_iff bit_push_bit_iff bit_ucast_iff\<close>)
    show ?thesis
      by (simp add: e3 e2 e1 or.assoc)
  qed
  have "CONCAT_4_BYTES b i = push_bit 24 (ucast (b ! i)) + (push_bit 16 (ucast (b ! (i + 1)))
     + (push_bit 8 (ucast (b ! (i + 2))) + ucast (b ! (i + 3))))"
    by (simp only: CONCAT_4_BYTES_def d)
  also have "\<dots> = of_nat (be_val [b ! i, b ! (i + 1), b ! (i + 2), b ! (i + 3)])"
    by (simp add: be_val_def push_bit_eq_mult algebra_simps)
  finally show ?thesis
    by (simp add: upt4)
qed

lemma ucast_drop_bit: "ucast (drop_bit k (n :: u32)) = (of_nat (unat n div 2 ^ k) :: byte)"
proof -
  have "take_bit 32 (unat n) = unat n"
    by (rule take_bit_nat_eq_self) (rule order_less_le_trans [OF unsigned_less], simp)
  then have "unat (drop_bit k n) = unat n div 2 ^ k"
    by (simp add: unsigned_drop_bit_eq flip: drop_bit_eq_div)
  then show ?thesis
    by (metis of_nat_unat)
qed

lemma PUT_ULONG_BE_eq: "PUT_ULONG_BE n = be_bytes 4 (unat n)"
proof -
  have "ucast n = (of_nat (unat n div 256 ^ 0) :: byte)"
    using ucast_drop_bit [of 0 n] by simp
  then show ?thesis
    by (simp add: PUT_ULONG_BE_def be_bytes_def ucast_drop_bit upt4)
qed

section \<open>The compression function\<close>

lemma sm3_expand_upto:
  "fold sm3_expand_step [16..<16 + n] (map (\<lambda>k. CONCAT_4_BYTES B (4 * k)) [0..<16]) = map (gb_W B) [0..<16 + n]"
proof (induction n)
  case 0
  have "CONCAT_4_BYTES B (4 * k) = gb_W B k" if "k < 16" for k
    using that by (simp add: gb_W.simps CONCAT_4_BYTES_eq)
  then show ?case by simp
next
  case (Suc n)
  have "[16..<16 + Suc n] = [16..<16 + n] @ [16 + n]" "[0..<16 + Suc n] = [0..<16 + n] @ [16 + n]"
    unfolding add_Suc_right by (simp_all only: upt_Suc) simp_all
  then show ?case
    using Suc by (simp add: sm3_expand_step_def gb_W.simps [of B "16 + n"] rol_eq del: upt_rec_numeral)
qed

lemma sm3_expand_eq: "sm3_expand B = map (gb_W B) [0..<68]"
  using sm3_expand_upto [where n = 52] by (simp add: sm3_expand_def del: upt_rec_numeral)

lemma sm3_expand_nth: "j < 68 \<Longrightarrow> sm3_expand B ! j = gb_W B j"
  by (simp add: sm3_expand_eq del: upt_rec_numeral)

lemma unat_round: "j < 64 \<Longrightarrow> unat (of_nat j :: u32) mod 32 = j mod 32"
  by (simp add: unat_of_nat)

lemma sm3_round_lo:
  "j < 16 \<Longrightarrow> sm3_round 0x79cc4519 (\<lambda>X Y Z. X XOR Y XOR Z) (\<lambda>X Y Z. X XOR Y XOR Z) (sm3_expand B) j
     = gb_round B j"
  by (simp add: sm3_round_def gb_round_def sm3_expand_nth rol_eq unat_round fun_eq_iff Let_def)

lemma sm3_round_hi:
  "16 \<le> j \<Longrightarrow> j < 64 \<Longrightarrow> sm3_round 0x7a879d8a (\<lambda>X Y Z. (X AND Y) OR (X AND Z) OR (Y AND Z))
        (\<lambda>X Y Z. (X AND Y) OR (NOT X AND Z)) (sm3_expand B) j = gb_round B j"
  by (simp add: sm3_round_def gb_round_def sm3_expand_nth rol_eq unat_round fun_eq_iff Let_def)

lemma SM3_CF_eq: "SM3_CF c B = c\<lparr>vector := gb_CF (vector c) B\<rparr>"
proof -
  have lo: "fold (sm3_round 0x79cc4519 (\<lambda>X Y Z. X XOR Y XOR Z) (\<lambda>X Y Z. X XOR Y XOR Z) (sm3_expand B)) [0..<16] r
      = fold (gb_round B) [0..<16] r" for r
    by (rule fold_cong) (simp_all add: sm3_round_lo del: upt_rec_numeral)
  have hi: "fold (sm3_round 0x7a879d8a (\<lambda>X Y Z. (X AND Y) OR (X AND Z) OR (Y AND Z))
        (\<lambda>X Y Z. (X AND Y) OR (NOT X AND Z)) (sm3_expand B)) [16..<64] r
      = fold (gb_round B) [16..<64] r" for r
    by (rule fold_cong) (simp_all add: sm3_round_hi del: upt_rec_numeral)
  have "[0..<64] = [0..<16] @ [16..<64]"
    using upt_add_eq_append [of 0 16 48] by (simp del: upt_rec_numeral)
  then have "fold (gb_round B) [0..<64] r = fold (gb_round B) [16..<64] (fold (gb_round B) [0..<16] r)" for r
    by simp
  then show ?thesis
    by (simp add: SM3_CF_def gb_CF_def Let_def lo hi split: prod.split del: upt_rec_numeral)
qed

section \<open>Feeding a message in pieces\<close>

definition rem64 :: "byte list \<Rightarrow> byte list" where
  "rem64 m = drop (64 * (length m div 64)) m"

lemma length_rem64 [simp]: "length (rem64 m) = length m mod 64"
  by (simp add: rem64_def minus_mult_div_eq_mod)

lemma rem64_append: "64 dvd length a \<Longrightarrow> rem64 (a @ b) = rem64 b"
  by (auto simp: rem64_def elim!: dvdE)

lemma rem64_short: "length b < 64 \<Longrightarrow> rem64 b = b"
  by (simp add: rem64_def)

lemma split64: "\<exists>a. m = a @ rem64 m \<and> 64 dvd length a"
  by (rule exI [of _ "take (64 * (length m div 64)) m"]) (simp add: rem64_def min_absorb2)

lemma gb_iterate_short: "length b < 64 \<Longrightarrow> gb_iterate v b = v"
  by (simp add: gb_iterate.simps)

lemma gb_iterate_append:
  "64 dvd length a \<Longrightarrow> gb_iterate v (a @ b) = gb_iterate (gb_iterate v a) b"
proof (induction v a rule: gb_iterate.induct)
  case (1 v a)
  show ?case
  proof (cases "64 \<le> length a")
    case True
    moreover have "64 dvd length (drop 64 a)"
      using 1(2) True by (simp add: dvd_minus_self)
    ultimately show ?thesis
      using 1(1) by (simp add: gb_iterate.simps [of v] )
  next
    case False
    with 1(2) have "a = []"
      by (auto dest!: dvd_imp_le)
    then show ?thesis
      by (simp add: gb_iterate_short)
  qed
qed

lemma gb_iterate_block:
  "length a = 64 \<Longrightarrow> gb_iterate v (a @ b) = gb_iterate (gb_CF v a) b"
  by (simp add: gb_iterate.simps [of v])

lemma sm3_blocks_eq: "sm3_blocks c d = (c\<lparr>vector := gb_iterate (vector c) d\<rparr>, rem64 d)"
proof (induction c d rule: sm3_blocks.induct)
  case (1 c d)
  show ?case
  proof (cases "64 \<le> length d")
    case True
    then have "rem64 (drop 64 d) = rem64 d"
      using rem64_append [of "take 64 d" "drop 64 d"] by simp
    then show ?thesis
      using True 1 by (simp add: sm3_blocks.simps [of c] gb_iterate.simps [of "vector c"] SM3_CF_eq)
  next
    case False
    then show ?thesis
      by (simp add: sm3_blocks.simps [of c] gb_iterate_short rem64_short)
  qed
qed

text \<open>A context that has been fed the message \<open>m\<close>.\<close>

definition sm3_fed :: "byte list \<Rightarrow> sm3_context \<Rightarrow> bool" where
  "sm3_fed m c \<longleftrightarrow>
     total_bytes_Low c = of_nat (length m) \<and> total_bytes_High c = of_nat (length m div 2 ^ 32) \<and>
     vector c = gb_iterate sm3_vector0 m \<and> length (buffer c) = 64 \<and>
     take (length m mod 64) (buffer c) = rem64 m"

lemma sm3_init_fed:
  "length (buffer c) = 64 \<Longrightarrow> \<exists>c'. sm3_init (Some c) = (0, Some c') \<and> sm3_fed [] c'"
  by (simp add: sm3_init_def sm3_fed_def gb_iterate_short rem64_def)

lemma mod_carry:
  fixes M :: nat
  assumes "b < M"
  shows "(a mod M + b) mod M < b \<longleftrightarrow> M \<le> a mod M + b"
proof -
  have r: "a mod M < M" using assms by simp
  show ?thesis
  proof (cases "M \<le> a mod M + b")
    case True
    moreover have "a mod M + b - M < M"
      using assms r by linarith
    ultimately have "(a mod M + b) mod M = a mod M + b - M"
      by (simp add: le_mod_geq)
    then show ?thesis using True r assms by linarith
  qed simp
qed

lemma of_nat_u32_carry:
  assumes "b < 2 ^ 32"
  shows "(of_nat a + of_nat b :: u32) < of_nat b \<longleftrightarrow> 2 ^ 32 \<le> a mod 2 ^ 32 + b"
proof -
  have "(of_nat a + of_nat b :: u32) < of_nat b \<longleftrightarrow> (a + b) mod 2 ^ 32 < b"
    using assms by (simp add: word_less_nat_alt unat_of_nat flip: of_nat_add)
  also have "(a + b) mod 2 ^ 32 = (a mod 2 ^ 32 + b) mod 2 ^ 32"
    by (simp add: mod_simps)
  also have "(a mod 2 ^ 32 + b) mod 2 ^ 32 < b \<longleftrightarrow> 2 ^ 32 \<le> a mod 2 ^ 32 + b"
    using assms by (rule mod_carry)
  finally show ?thesis .
qed

lemma div_carry:
  fixes M :: nat
  assumes "b < M"
  shows "(a + b) div M = a div M + (if M \<le> a mod M + b then 1 else 0)"
proof -
  have M: "0 < M" using assms by simp
  then have "a mod M + b < M + M"
    using assms mod_less_divisor [of M a] by linarith
  then have "(a mod M + b) div M = (if M \<le> a mod M + b then 1 else 0)"
    using M by (simp add: le_div_geq)
  then show ?thesis
    using assms by (simp add: div_add1_eq [of a b])
qed

lemma sm3_update_len:
  assumes "sm3_fed m c" "length d < 2 ^ 32"
  shows "total_bytes_Low c + of_nat (length d) = of_nat (length (m @ d))"
    "(if total_bytes_Low c + of_nat (length d) < of_nat (length d) then total_bytes_High c + 1
      else total_bytes_High c) = of_nat (length (m @ d) div 2 ^ 32)"
    "unat (total_bytes_Low c AND 0x3F) = length m mod 64"
proof -
  show "unat (total_bytes_Low c AND 0x3F) = length m mod 64"
    using assms(1) by (simp add: sm3_fed_def mask6 unat_of_nat mod_mod_cancel)
qed (use assms of_nat_u32_carry [OF assms(2), of "length m"] in \<open>simp_all add: sm3_fed_def div_carry\<close>)

lemma sm3_fed_append:
  assumes "sm3_fed m c" "length d < 2 ^ 32"
    "total_bytes_Low c' = total_bytes_Low c + of_nat (length d)"
    "total_bytes_High c' = (if total_bytes_Low c + of_nat (length d) < of_nat (length d)
       then total_bytes_High c + 1 else total_bytes_High c)"
    "vector c' = gb_iterate sm3_vector0 (m @ d)" "length (buffer c') = 64"
    "take (length (m @ d) mod 64) (buffer c') = rem64 (m @ d)"
  shows "sm3_fed (m @ d) c'"
  using assms(3-7) sm3_update_len(1,2) [OF assms(1,2)] by (simp only: sm3_fed_def)

lemma sm3_update_ok:
  assumes fed: "sm3_fed m c" and len: "d \<noteq> []" "length d < 2 ^ 32"
  obtains c' where "sm3_update (Some c) (Some d) = (0, Some c')" "sm3_fed (m @ d) c'"
proof -
  define left where "left = length m mod 64"
  obtain a where a: "m = a @ rem64 m" "64 dvd length a"
    using split64 by blast
  have vec: "vector c = gb_iterate sm3_vector0 a"
    using fed a gb_iterate_append [OF a(2), of sm3_vector0 "rem64 m"]
    by (metis gb_iterate_short length_rem64 mod_less_divisor sm3_fed_def zero_less_numeral)
  have it: "gb_iterate sm3_vector0 (m @ d) = gb_iterate (vector c) (rem64 m @ d)"
    using gb_iterate_append [OF a(2), of sm3_vector0 "rem64 m @ d"] a(1) vec by (metis append_assoc)
  have rm: "rem64 (m @ d) = rem64 (rem64 m @ d)"
    using rem64_append [OF a(2), of "rem64 m @ d"] a(1) by (metis append_assoc)
  have buf: "length (buffer c) = 64" "take left (buffer c) = rem64 m"
    using fed by (simp_all add: sm3_fed_def left_def)
  have left: "left < 64" "length (rem64 m) = left" by (simp_all add: left_def)
  have lmd: "length (m @ d) mod 64 = (left + length d) mod 64"
    by (simp add: left_def mod_simps)
  note L = sm3_update_len [OF fed len(2)]
  show ?thesis
  proof (cases "0 < left \<and> 64 - left \<le> length d")
    case True
    let ?b = "rem64 m @ take (64 - left) d" and ?d = "drop (64 - left) d"
    have b: "memcpy_at (buffer c) left (take (64 - left) d) = ?b" "length ?b = 64"
      using True buf left by (auto simp: memcpy_at_def min_def)
    have bd: "rem64 m @ d = ?b @ ?d" by simp
    have rd: "rem64 ?d = rem64 (m @ d)"
      unfolding rm bd by (rule rem64_append [symmetric]) (simp only: b dvd_refl)
    define c' where "c' = c\<lparr>total_bytes_Low := total_bytes_Low c + of_nat (length d),
       total_bytes_High := (if total_bytes_Low c + of_nat (length d) < of_nat (length d)
         then total_bytes_High c + 1 else total_bytes_High c), buffer := memcpy_at ?b 0 (rem64 ?d),
       vector := gb_iterate (gb_CF (vector c) ?b) ?d\<rparr>"
    show ?thesis
    proof (rule that)
      show "sm3_update (Some c) (Some d) = (0, Some c')"
        using True len
        by (auto simp: sm3_update_def L(3) b Let_def sm3_blocks_eq SM3_CF_eq c'_def simp flip: left_def
              intro!: sm3_context.equality)
      show "sm3_fed (m @ d) c'"
      proof (rule sm3_fed_append [OF fed len(2)])
        show "vector c' = gb_iterate sm3_vector0 (m @ d)"
          unfolding it bd gb_iterate_block [OF b(2)] by (simp add: c'_def)
        have "length (rem64 ?d) \<le> 64" by (simp add: less_imp_le)
        then show "length (buffer c') = 64"
          using length_memcpy_at [of 0 "rem64 ?d" ?b] b(2) by (simp add: c'_def)
        show "take (length (m @ d) mod 64) (buffer c') = rem64 (m @ d)"
          unfolding rd [symmetric] length_rem64 [of "m @ d", symmetric] by (simp add: c'_def memcpy_at_def)
      qed (simp_all add: c'_def)
    qed
  next
    case False
    define c' where "c' = c\<lparr>total_bytes_Low := total_bytes_Low c + of_nat (length d),
       total_bytes_High := (if total_bytes_Low c + of_nat (length d) < of_nat (length d)
         then total_bytes_High c + 1 else total_bytes_High c), buffer := memcpy_at (buffer c) left (rem64 d),
       vector := gb_iterate (vector c) d\<rparr>"
    show ?thesis
    proof (rule that)
      show "sm3_update (Some c) (Some d) = (0, Some c')"
        using False len
        by (auto simp: sm3_update_def L(3) Let_def sm3_blocks_eq SM3_CF_eq c'_def simp flip: left_def
              intro!: sm3_context.equality)
      show "sm3_fed (m @ d) c'"
      proof (cases "left = 0")
        case True
        then have "(length m + length d) mod 64 = length d mod 64"
          using lmd by simp
        with True show ?thesis
          using buf left rm it
          by (intro sm3_fed_append [OF fed len(2)]) (simp_all add: c'_def memcpy_at_def lmd min_def less_imp_le)
      next
        case nz: False
        with False left have "left + length d < 64" by linarith
        then show ?thesis
          using buf left rm it lmd
          by (intro sm3_fed_append [OF fed len(2)]) (simp_all add: c'_def memcpy_at_def gb_iterate_short rem64_short)
      qed
    qed
  qed
qed

section \<open>Finishing\<close>

lemma be_bytes_u32: "be_bytes 4 (unat (of_nat n :: u32)) = be_bytes 4 n"
proof -
  have "(of_nat (n mod 2 ^ 32 div 256 ^ i) :: byte) = of_nat (n div 256 ^ i)" if "i < 4" for i
  proof -
    have e: "(2 :: nat) ^ 32 = 256 ^ i * 256 ^ (4 - i)"
      using that by (simp flip: power_add)
    have "n mod 2 ^ 32 div 256 ^ i = n div 256 ^ i mod 256 ^ (4 - i)"
      unfolding e by (simp add: mod_mult2_eq)
    moreover have "(256 :: nat) dvd 256 ^ (4 - i)"
      using that by (intro dvd_power) simp
    ultimately have "(n mod 2 ^ 32 div 256 ^ i) mod 256 = n div 256 ^ i mod 256"
      by (simp add: mod_mod_cancel)
    then show ?thesis
      by (simp add: word_of_nat_eq_iff take_bit_eq_mod)
  qed
  then show ?thesis
    by (simp add: be_bytes_def unat_of_nat)
qed

lemma be_bytes_8: "be_bytes 8 n = be_bytes 4 (n div 2 ^ 32) @ be_bytes 4 n"
proof -
  have "[0..<8] = [0..<4] @ map (\<lambda>i. i + 4) [0..<4]"
    by (simp add: upt_rec)
  moreover have "n div 256 ^ (i + 4) = n div 2 ^ 32 div 256 ^ i" for i
    by (simp add: power_add mult.commute flip: div_mult2_eq)
  ultimately show ?thesis
    by (simp add: be_bytes_def rev_map comp_def)
qed

lemma sm3_high:
  "drop_bit 29 (of_nat n :: u32) OR push_bit 3 (of_nat (n div 2 ^ 32)) = of_nat (8 * n div 2 ^ 32)"
proof -
  have "drop_bit 29 (of_nat n :: u32) = of_nat (n mod 2 ^ 32 div 2 ^ 29)"
    by (rule word_unat_eq_iff [THEN iffD2]) (simp add: unat_div unat_of_nat drop_bit_eq_div)
  moreover have "push_bit 3 (of_nat (n div 2 ^ 32) :: u32) = of_nat (8 * (n div 2 ^ 32))"
    by (simp add: push_bit_eq_mult)
  moreover have "drop_bit 29 (of_nat n :: u32) + push_bit 3 (of_nat (n div 2 ^ 32))
      = drop_bit 29 (of_nat n) OR push_bit 3 (of_nat (n div 2 ^ 32))"
    by (rule disjunctive_add_eq_or, rule bit_word_eqI)
      (use bit_imp_le_length in \<open>fastforce simp: bit_and_iff bit_push_bit_iff bit_drop_bit_eq\<close>)
  moreover have "8 * n div 2 ^ 32 = n mod 2 ^ 32 div 2 ^ 29 + 8 * (n div 2 ^ 32)"
  proof -
    have "8 * n div 2 ^ 32 = (n mod 2 ^ 32 + 8 * (n div 2 ^ 32) * 2 ^ 29) div 2 ^ 29"
      using mod_mult_div_eq [of n "2 ^ 32"] by (simp add: algebra_simps)
    also have "\<dots> = 8 * (n div 2 ^ 32) + n mod 2 ^ 32 div 2 ^ 29"
      by (rule div_mult_self1) simp
    finally show ?thesis by simp
  qed
  ultimately show ?thesis
    by (metis of_nat_add)
qed

lemma sm3_msglen:
  assumes "sm3_fed m c"
  shows "PUT_ULONG_BE (drop_bit 29 (total_bytes_Low c) OR push_bit 3 (total_bytes_High c))
    @ PUT_ULONG_BE (push_bit 3 (total_bytes_Low c)) = be_bytes 8 (8 * length m)"
proof -
  have "push_bit 3 (of_nat (length m) :: u32) = of_nat (8 * length m)"
    by (simp add: push_bit_eq_mult)
  moreover have "total_bytes_Low c = of_nat (length m)" "total_bytes_High c = of_nat (length m div 2 ^ 32)"
    using assms by (simp_all add: sm3_fed_def)
  ultimately show ?thesis
    by (simp only: PUT_ULONG_BE_eq sm3_high be_bytes_8 be_bytes_u32)
qed

lemma sm3_padding_eq:
  assumes "n < 64"
  shows "take (if n < 56 then 56 - n else 120 - n) SM3_padding = 0x80 # replicate ((119 - n) mod 64) 0"
proof (cases "n < 56")
  case True
  then have "(119 - n) mod 64 = 55 - n" "56 - n = Suc (55 - n)"
    by (simp_all add: le_mod_geq)
  then show ?thesis using True by (simp add: SM3_padding_def min_def)
next
  case False
  then have "(119 - n) mod 64 = 119 - n" "120 - n = Suc (119 - n)"
    using assms by simp_all
  then show ?thesis using False assms by (simp add: SM3_padding_def min_def)
qed

lemma length_gb_CF: "length (gb_CF v B) = 8"
  by (auto simp: gb_CF_def split: prod.split)

lemma length_gb_iterate: "length v = 8 \<Longrightarrow> length (gb_iterate v m) = 8"
  by (induction v m rule: gb_iterate.induct) (subst gb_iterate.simps, simp add: length_gb_CF)

lemma length_be_bytes [simp]: "length (be_bytes k n) = k"
  by (simp add: be_bytes_def)

lemma length_concat_const: "(\<And>x. x \<in> set xs \<Longrightarrow> length (f x) = k) \<Longrightarrow> length (concat (map f xs)) = k * length xs"
  by (induction xs) auto

lemma length_gb_sm3: "length (gb_sm3 m) = 32"
proof -
  have "length sm3_vector0 = 8" by (simp add: sm3_vector0_def)
  then show ?thesis
    by (simp add: gb_sm3_def length_concat_const [where k = 4] length_gb_iterate)
qed

lemma sm3_finish_ok:
  assumes fed: "sm3_fed m c" and out: "length out = 32"
  obtains c' where "sm3_finish (Some c) out = (0, gb_sm3 m, Some c')"
proof -
  let ?n = "length m mod 64"
  let ?pad = "0x80 # replicate ((119 - ?n) mod 64) 0 :: byte list"
  have pad: "take (if ?n < 56 then 56 - ?n else 120 - ?n) SM3_padding = ?pad"
    by (rule sm3_padding_eq) simp
  have small: "length ?pad < 2 ^ 32" "length (be_bytes 8 (8 * length m)) < 2 ^ 32"
    using mod_less_divisor [of 64 "119 - ?n"] by simp_all
  have n: "unat (total_bytes_Low c AND 0x3F) = ?n"
    using fed by (simp add: sm3_fed_def mask6 unat_of_nat mod_mod_cancel)
  obtain c1 where c1: "sm3_update (Some c) (Some ?pad) = (0, Some c1)" "sm3_fed (m @ ?pad) c1"
    by (rule sm3_update_ok [OF fed _ small(1)]) auto
  have ne: "be_bytes 8 (8 * length m) \<noteq> []"
    by (simp add: be_bytes_def)
  obtain c2 where c2: "sm3_update (Some c1) (Some (be_bytes 8 (8 * length m))) = (0, Some c2)"
      "sm3_fed ((m @ ?pad) @ be_bytes 8 (8 * length m)) c2"
    by (rule sm3_update_ok [OF c1(2) ne small(2)])
  then have "vector c2 = gb_iterate sm3_vector0 (gb_pad m)"
    by (simp add: sm3_fed_def gb_pad_def)
  then have "concat (map PUT_ULONG_BE (vector c2)) = gb_sm3 m"
    by (simp add: gb_sm3_def PUT_ULONG_BE_eq [abs_def] comp_def)
  moreover have "memcpy_at out 0 (gb_sm3 m) = gb_sm3 m"
    using out by (simp add: memcpy_at_def length_gb_sm3)
  ultimately show ?thesis
    using that [of c2] c1(1) c2(1) sm3_msglen [OF fed] pad by (simp add: sm3_finish_def n Let_def)
qed

section \<open>Properties\<close>

text \<open>Feeding a context: a non-empty piece is accepted, and the context is then the one of the
  message so far followed by the piece, whatever pieces came before; the 64-bit byte counter is
  carried over its two halves.\<close>

theorem sm3_update_streams:
  assumes "sm3_fed m c" "d \<noteq> []" "length d < 2 ^ 32"
  shows "\<exists>c'. sm3_update (Some c) (Some d) = (0, Some c') \<and> sm3_fed (m @ d) c'"
  by (rule sm3_update_ok [OF assms]) simp

theorem sm3_update_streams_witness:
  "\<exists>c c'. sm3_init (Some \<lparr>total_bytes_High = 5, total_bytes_Low = 9, vector = [], buffer = replicate 64 7\<rparr>) = (0, Some c)
     \<and> sm3_update (Some c) (Some [97, 98, 99]) = (0, Some c') \<and> sm3_fed [97, 98, 99] c'"
proof -
  have "length (buffer \<lparr>total_bytes_High = 5, total_bytes_Low = 9, vector = [], buffer = replicate 64 7\<rparr>) = 64"
    by simp
  from sm3_init_fed [OF this] obtain c where
    "sm3_init (Some \<lparr>total_bytes_High = 5, total_bytes_Low = 9, vector = [], buffer = replicate 64 7\<rparr>) = (0, Some c)"
    "sm3_fed [] c" by blast
  with sm3_update_streams [of "[]" c "[97, 98, 99]"] show ?thesis by auto
qed

lemma sm3_digest:
  assumes "length (buffer ctx) = 64" "length input < 2 ^ 31" "length out = 32"
  shows "sm3 ctx input out = gb_sm3 input"
proof -
  obtain c1 where c1: "sm3_init (Some ctx) = (0, Some c1)" "sm3_fed [] c1"
    using sm3_init_fed [OF assms(1)] by blast
  obtain c2 where c2: "snd (sm3_update (Some c1) (Some input)) = Some c2" "sm3_fed input c2"
  proof (cases "input = []")
    case True
    then show ?thesis using that [of c1] c1(2) by (simp add: sm3_update_def)
  next
    case False
    from sm3_update_ok [OF c1(2) False, of thesis] assms(2) that show ?thesis by fastforce
  qed
  obtain c3 where "sm3_finish (Some c2) out = (0, gb_sm3 input, Some c3)"
    by (rule sm3_finish_ok [OF c2(2) assms(3)])
  with c1 c2 show ?thesis by (simp add: sm3_def)
qed

text \<open>C17. The digest of a buffer is the SM3 hash of its bytes as the standard defines it, for every
  input, the empty one included, and whatever the uninitialised context held.\<close>

theorem sm3_is_gb_sm3:
  assumes "length (buffer ctx) = 64" "length input < 2 ^ 31" "length out = 32"
  shows "sm3 ctx input out = gb_sm3 input"
  by (rule sm3_digest [OF assms])

theorem sm3_is_gb_sm3_witness:
  "sm3 \<lparr>total_bytes_High = 1, total_bytes_Low = 2, vector = [], buffer = replicate 64 7\<rparr> [97, 98, 99] (replicate 32 0)
     = gb_sm3 [97, 98, 99]"
  by (rule sm3_is_gb_sm3) simp_all

lemma be32_bytes: "be32 (PUT_ULONG_BE n @ r) = n"
proof (rule bit_word_eqI)
  fix k
  assume "k < LENGTH(32)"
  then consider "k < 8" | "8 \<le> k" "k < 16" | "16 \<le> k" "k < 24" | "24 \<le> k" "k < 32" by fastforce
  then show "bit (be32 (PUT_ULONG_BE n @ r)) k = bit n k"
    by cases (auto simp: be32_def CONCAT_4_BYTES_def PUT_ULONG_BE_def bit_simps)
qed

end
