(* ===== verification/File_Digest.thy ===== *)
theory File_Digest
  imports Sm3
begin

text \<open>
  The digest of a file: \<open>digest_cal\<close> (tsb/kernel/smeasure/policy/hash_whitelist.c) and
  \<open>digest_cal_critical_confile\<close> (tsb/kernel/smeasure/policy/hash_critical_confile.c). Both read the
  file page by page with kernel_read and feed the pages to SM3.

  The kernel's file layer is a parameter: a file is its size and a read function, which gets an
  offset and a count and returns a negative error (\<open>Inl\<close>) or the bytes it read (\<open>Inr\<close>).
  \<open>kfile_reads f c\<close> is what kernel_read documents: it returns no more than asked for, and the bytes
  are those of the contents \<open>c\<close> at the offset.
\<close>

section \<open>Files\<close>

record kfile =
  i_size :: nat
  kernel_read :: "nat \<Rightarrow> nat \<Rightarrow> int + byte list"

definition kfile_reads :: "kfile \<Rightarrow> byte list \<Rightarrow> bool" where
  "kfile_reads f c \<longleftrightarrow> (\<forall>off cnt. case kernel_read f off cnt of Inl e \<Rightarrow> e < 0
     | Inr d \<Rightarrow> length d \<le> cnt \<and> d = take (length d) (drop off c))"

text \<open>No read before the recorded size fails or comes back empty.\<close>

definition kfile_progress :: "kfile \<Rightarrow> bool" where
  "kfile_progress f \<longleftrightarrow> (\<forall>off cnt. off < i_size f \<longrightarrow> 0 < cnt \<longrightarrow>
     (case kernel_read f off cnt of Inl e \<Rightarrow> False | Inr d \<Rightarrow> d \<noteq> []))"

text \<open>A file of the given contents whose reads return at most \<open>k\<close> bytes.\<close>

definition short_file :: "nat \<Rightarrow> byte list \<Rightarrow> kfile" where
  "short_file k c = \<lparr>i_size = length c, kernel_read = (\<lambda>off cnt. Inr (take (min k cnt) (drop off c)))\<rparr>"

lemma kfile_readsD:
  assumes "kfile_reads f c" "kernel_read f off cnt = Inr d"
  shows "length d \<le> cnt" "d = take (length d) (drop off c)"
  using assms by (auto simp: kfile_reads_def split: sum.splits dest: spec2 [of _ off cnt])

lemma kfile_reads_neg: "kfile_reads f c \<Longrightarrow> kernel_read f off cnt = Inl e \<Longrightarrow> e < 0"
  by (auto simp: kfile_reads_def split: sum.splits dest: spec2 [of _ off cnt])

lemma kfile_progressD:
  assumes "kfile_progress f" "off < i_size f" "0 < cnt"
  obtains d where "kernel_read f off cnt = Inr d" "d \<noteq> []"
proof -
  have "case kernel_read f off cnt of Inl e \<Rightarrow> False | Inr d \<Rightarrow> d \<noteq> []"
    using assms by (simp add: kfile_progress_def)
  then show thesis
    using that by (simp split: sum.splits)
qed

lemma short_file_reads [simp]: "kfile_reads (short_file k c) c"
  by (simp add: kfile_reads_def short_file_def min_def)

lemma short_file_progress: "0 < k \<Longrightarrow> kfile_progress (short_file k c)"
  by (auto simp: kfile_progress_def short_file_def)

lemma kfile_reads_bound:
  assumes "kfile_reads f c" "kernel_read f off cnt = Inr d" "off \<le> length c"
  shows "off + length d \<le> length c"
  using kfile_readsD(2) [OF assms(1,2)] assms(3) by (metis diff_le_mono2 length_drop length_take
    le_diff_conv2 min.cobounded1 add.commute)

section \<open>The code\<close>

definition PAGE_SIZE :: nat where "PAGE_SIZE = 4096"

text \<open>What the callee finds: the uninitialised SM3 context on its stack and whether kzalloc succeeds.\<close>

record digest_env =
  stack_ctx :: sm3_context
  kzalloc :: bool

function digest_loop :: "kfile \<Rightarrow> int \<Rightarrow> nat \<Rightarrow> sm3_context option \<Rightarrow> int \<times> nat \<times> sm3_context option" where
  "digest_loop f ret offset ctx =
     (if offset < i_size f
      then (case kernel_read f offset PAGE_SIZE of
              Inl e \<Rightarrow> (e, offset, ctx)
            | Inr d \<Rightarrow> if d = [] then (ret, offset, ctx)
                       else digest_loop f ret (offset + length d) (snd (sm3_update ctx (Some d))))
      else (ret, offset, ctx))"
  by pat_completeness auto

termination digest_loop
  by (relation "measure (\<lambda>(f, ret, offset, ctx). i_size f - offset)") (auto intro!: diff_less_mono2)

declare digest_loop.simps [simp del]

definition digest_cal_from :: "int \<Rightarrow> nat \<Rightarrow> digest_env \<Rightarrow> kfile \<Rightarrow> byte list \<Rightarrow> int \<times> byte list" where
  "digest_cal_from ret offset env f digest =
     (let ctx = snd (sm3_init (Some (stack_ctx env)))
      in if \<not> kzalloc env then (- ENOMEM, digest)
         else let (ret', offset', ctx') = digest_loop f ret offset ctx
              in if offset' = i_size f then (0, fst (snd (sm3_finish ctx' digest)))
                 else (ret', digest))"

text \<open>The two routines differ in the initial result and in the first offset.\<close>

definition digest_cal :: "digest_env \<Rightarrow> kfile \<Rightarrow> byte list \<Rightarrow> int \<times> byte list" where
  "digest_cal = digest_cal_from 0 0"

definition digest_cal_critical_confile :: "digest_env \<Rightarrow> kfile \<Rightarrow> byte list \<Rightarrow> int \<times> byte list" where
  "digest_cal_critical_confile = digest_cal_from (-1) 4"

section \<open>What the loop computes\<close>

definition env_ok :: "digest_env \<Rightarrow> bool" where
  "env_ok env \<longleftrightarrow> length (buffer (stack_ctx env)) = 64 \<and> kzalloc env"

lemma digest_loop_step:
  assumes reads: "kfile_reads f c" and fed: "sm3_fed (drop s (take off c)) ctx" and s: "s \<le> off"
    and off: "off \<le> length c" and rd: "kernel_read f off PAGE_SIZE = Inr d" and d: "d \<noteq> []"
  obtains ctx' where "sm3_update (Some ctx) (Some d) = (0, Some ctx')"
    "sm3_fed (drop s (take (off + length d) c)) ctx'"
proof -
  note r = kfile_readsD [OF reads rd]
  have "length d < 2 ^ 32"
    using r(1) by (simp add: PAGE_SIZE_def)
  moreover have "drop s (take (off + length d) c) = drop s (take off c) @ d"
    using r(2) s off by (simp add: take_add)
  ultimately show ?thesis
    using sm3_update_ok [OF fed d] that by metis
qed

lemmas digest_loop_eqs = digest_loop.simps [of f ret off] for f ret off

lemma digest_loop_end: "\<not> off < i_size f \<Longrightarrow> digest_loop f ret off ctx = (ret, off, ctx)"
  by (simp add: digest_loop_eqs)

lemma digest_loop_more:
  assumes "off < i_size f" "kernel_read f off PAGE_SIZE = Inr d" "d \<noteq> []"
  shows "digest_loop f ret off ctx = digest_loop f ret (off + length d) (snd (sm3_update ctx (Some d)))"
  using assms by (simp add: digest_loop_eqs [of f ret off])

lemma digest_loop_stop:
  assumes "off < i_size f" "\<not> (\<exists>d. kernel_read f off PAGE_SIZE = Inr d \<and> d \<noteq> [])"
  shows "digest_loop f ret off ctx =
    ((case kernel_read f off PAGE_SIZE of Inl e \<Rightarrow> e | Inr d \<Rightarrow> ret), off, ctx)"
  using assms by (auto simp: digest_loop_eqs [of f ret off] split: sum.splits)

lemma digest_loop_run:
  assumes reads: "kfile_reads f c" and size: "i_size f = length c"
    and "sm3_fed (drop s (take off c)) ctx" "s \<le> off" "off \<le> length c"
  obtains (complete) x where "digest_loop f ret off (Some ctx) = (ret, length c, Some x)" "sm3_fed (drop s c) x"
  | (stopped) off' x where "off' < i_size f" "\<not> (\<exists>d. kernel_read f off' PAGE_SIZE = Inr d \<and> d \<noteq> [])"
    "digest_loop f ret off (Some ctx) =
       ((case kernel_read f off' PAGE_SIZE of Inl e \<Rightarrow> e | Inr d \<Rightarrow> ret), off', Some x)"
  using assms(3-)
proof (induction "length c - off" arbitrary: off ctx thesis rule: less_induct)
  case less
  show ?case
  proof (cases "off < i_size f")
    case False
    then show ?thesis
      using less.prems size by (intro less.prems(1) [of ctx]) (simp_all add: digest_loop_end)
  next
    case lt: True
    show ?thesis
    proof (cases "\<exists>d. kernel_read f off PAGE_SIZE = Inr d \<and> d \<noteq> []")
      case False
      then show ?thesis
        using lt digest_loop_stop [OF lt False] by (intro less.prems(2) [of off ctx]) simp_all
    next
      case True
      then obtain d where d: "kernel_read f off PAGE_SIZE = Inr d" "d \<noteq> []" by blast
      obtain ctx' where ctx': "sm3_update (Some ctx) (Some d) = (0, Some ctx')"
        "sm3_fed (drop s (take (off + length d) c)) ctx'"
        by (rule digest_loop_step [OF reads less.prems(3-5) d])
      have le: "off + length d \<le> length c"
        by (rule kfile_reads_bound [OF reads d(1) less.prems(5)])
      have eq: "digest_loop f ret off (Some ctx) = digest_loop f ret (off + length d) (Some ctx')"
        using digest_loop_more [OF lt d] ctx'(1) by simp
      show ?thesis
        by (rule less.hyps [OF _ _ _ ctx'(2)])
          (use less.prems lt d le size in \<open>auto simp: eq intro!: diff_less_mono2\<close>)
    qed
  qed
qed

lemma digest_cal_from_cases:
  assumes env: "env_ok env" and f: "kfile_reads f c" "i_size f = length c" "s \<le> length c"
    and digest: "length digest = 32"
  obtains (complete) "digest_cal_from ret s env f digest = (0, gb_sm3 (drop s c))"
  | (failed) off e where "off < i_size f" "kernel_read f off PAGE_SIZE = Inl e" "e < 0"
      "digest_cal_from ret s env f digest = (e, digest)"
  | (empty) off where "off < i_size f" "kernel_read f off PAGE_SIZE = Inr []"
      "digest_cal_from ret s env f digest = (ret, digest)"
proof -
  obtain ctx where ctx: "sm3_init (Some (stack_ctx env)) = (0, Some ctx)" "sm3_fed [] ctx"
    using sm3_init_fed env unfolding env_ok_def by blast
  then have "sm3_fed (drop s (take s c)) ctx" by simp
  from f(1,2) this order_refl f(3) show thesis
  proof (cases rule: digest_loop_run [where ret = ret])
    case (complete x)
    moreover obtain x' where "sm3_finish (Some x) digest = (0, gb_sm3 (drop s c), Some x')"
      by (rule sm3_finish_ok [OF complete(2) digest])
    ultimately show ?thesis
      using that(1) env ctx(1) f by (simp add: digest_cal_from_def env_ok_def)
  next
    case (stopped off' x)
    then have eq: "digest_cal_from ret s env f digest =
        ((case kernel_read f off' PAGE_SIZE of Inl e \<Rightarrow> e | Inr d \<Rightarrow> ret), digest)"
      using env ctx(1) by (simp add: digest_cal_from_def env_ok_def)
    show ?thesis
    proof (cases "kernel_read f off' PAGE_SIZE")
      case (Inl e)
      then show ?thesis
        using that(2) [of off' e] stopped(1) eq kfile_reads_neg [OF f(1)] by simp
    next
      case (Inr d)
      then show ?thesis
        using that(3) [of off'] stopped(1,2) eq by simp
    qed
  qed
qed

lemma digest_cal_sm3:
  assumes "env_ok env" "kfile_reads f c" "i_size f = length c" "kfile_progress f" "length digest = 32"
  shows "digest_cal env f digest = (0, gb_sm3 c)"
  using assms(1-3) le0 [of "length c"] assms(5)
proof (cases rule: digest_cal_from_cases [where ret = 0])
  case complete
  then show ?thesis by (simp add: digest_cal_def)
next
  case (failed off e)
  then show ?thesis
    using kfile_progressD [OF assms(4) failed(1), of PAGE_SIZE] by (auto simp: PAGE_SIZE_def)
next
  case (empty off)
  then show ?thesis
    using kfile_progressD [OF assms(4) empty(1), of PAGE_SIZE] by (auto simp: PAGE_SIZE_def)
qed

section \<open>Properties\<close>

text \<open>Whatever lengths the reads return, as long as they make progress the digest of a file is the
  SM3 hash of its contents, and the result is 0.\<close>

theorem digest_cal_is_sm3:
  assumes "env_ok env" "kfile_reads f c" "i_size f = length c" "kfile_progress f" "length digest = 32"
  shows "digest_cal env f digest = (0, gb_sm3 c)"
  by (rule digest_cal_sm3 [OF assms])

theorem digest_cal_is_sm3_witness:
  "digest_cal \<lparr>stack_ctx = \<lparr>total_bytes_High = 1, total_bytes_Low = 2, vector = [], buffer = replicate 64 7\<rparr>, kzalloc = True\<rparr>
     (short_file 2 [1, 2, 3, 4, 5]) (replicate 32 0) = (0, gb_sm3 [1, 2, 3, 4, 5])"
  by (rule digest_cal_is_sm3) (simp_all add: env_ok_def short_file_progress, simp add: short_file_def)

text \<open>The digest of the configuration file skips its four leading bytes, and an incomplete read
  never counts as success there: the result is 0 only with the hash of all the bytes after the
  header, otherwise it is negative and the buffer is unchanged.\<close>

theorem digest_cal_critical_confile_strict:
  assumes "env_ok env" "kfile_reads f c" "i_size f = length c" "4 \<le> length c" "length digest = 32"
    "digest_cal_critical_confile env f digest = (ret, out)"
  shows "ret < 0 \<and> out = digest \<or> ret = 0 \<and> out = gb_sm3 (drop 4 c)"
  using assms(1-5)
  by (cases rule: digest_cal_from_cases [where ret = "-1"])
    (use assms(6) in \<open>auto simp: digest_cal_critical_confile_def\<close>)

theorem digest_cal_critical_confile_strict_witness:
  "\<exists>ret out. digest_cal_critical_confile \<lparr>stack_ctx = \<lparr>total_bytes_High = 1, total_bytes_Low = 2, vector = [], buffer = replicate 64 7\<rparr>, kzalloc = True\<rparr>
     (short_file 2 [1, 2, 3, 4, 5]) (replicate 32 0) = (ret, out) \<and>
     (ret < 0 \<and> out = replicate 32 0 \<or> ret = 0 \<and> out = gb_sm3 [5])"
proof -
  let ?env = "\<lparr>stack_ctx = \<lparr>total_bytes_High = 1, total_bytes_Low = 2, vector = [], buffer = replicate 64 7\<rparr>, kzalloc = True\<rparr>"
  obtain ret out where r: "digest_cal_critical_confile ?env (short_file 2 [1, 2, 3, 4, 5]) (replicate 32 0) = (ret, out)"
    by (cases "digest_cal_critical_confile ?env (short_file 2 [1, 2, 3, 4, 5]) (replicate 32 0)")
  have "ret < 0 \<and> out = replicate 32 0 \<or> ret = 0 \<and> out = gb_sm3 (drop 4 [1, 2, 3, 4, 5])"
    by (rule digest_cal_critical_confile_strict [OF _ short_file_reads _ _ _ r])
      (simp_all add: env_ok_def short_file_def)
  with r show ?thesis by auto
qed

text \<open>The file digest reports success without a digest when a read comes back empty before the
  recorded size: the result is 0 and the caller's buffer is returned as it was.\<close>

theorem digest_cal_short_read_success:
  "\<exists>f. kfile_reads f [] \<and> i_size f = 1 \<and>
     (\<forall>ctx digest. digest_cal \<lparr>stack_ctx = ctx, kzalloc = True\<rparr> f digest = (0, digest))"
  by (rule exI [of _ "\<lparr>i_size = 1, kernel_read = (\<lambda>_ _. Inr [])\<rparr>"])
    (simp add: kfile_reads_def digest_cal_def digest_cal_from_def digest_loop.simps)

end
