(* ===== verification/Digest_Table.thy ===== *)
theory Digest_Table
  imports File_Digest
begin

text \<open>
  What the two digest policies of the static measurement share
  (tsb/kernel/smeasure/policy/hash_whitelist.c and hash_critical_confile.c): the bucket tables of
  digests with their paths, and the binary policy items they are filled from.

  A table is a function from bucket numbers to lists, newest entry first, together with the
  counter of its objects. The bucket function is a parameter of the table operations; the locale
  \<open>keyed_table\<close> states what it must satisfy, and each policy interprets it with its own function.
  The abstraction of a table is the set of its pairs of digest and path.
\<close>

unbundle bit_operations_syntax

definition LEN_HASH :: nat where "LEN_HASH = 32"
definition HASH_TAB_SIZE :: nat where "HASH_TAB_SIZE = 2 ^ 16"

text \<open>jhash of the kernel, masked with \<open>HASH_TAB_MASK\<close>; the hash function is a parameter.\<close>

type_synonym jhash_fun = "byte list \<Rightarrow> u32 \<Rightarrow> u32"

definition string_hash_key :: "jhash_fun \<Rightarrow> u32 \<Rightarrow> byte list \<Rightarrow> nat" where
  "string_hash_key jhash random p = unat (jhash p random AND 0xFFFF)"

section \<open>Tables\<close>

record whitelist_digest =
  wd_digest :: "byte list"
  wd_len_name :: nat
  wd_name :: "byte list"

type_synonym hash_key = "byte list \<Rightarrow> byte list \<Rightarrow> nat"
type_synonym buckets = "nat \<Rightarrow> whitelist_digest list"

record digest_table =
  hashtable :: buckets
  obj_count :: int

definition new_digest :: "byte list \<Rightarrow> byte list \<Rightarrow> whitelist_digest" where
  "new_digest path hash = \<lparr>wd_digest = take LEN_HASH hash, wd_len_name = strlen path, wd_name = cstr path\<rparr>"

definition hash_cmp :: "whitelist_digest \<Rightarrow> byte list \<Rightarrow> byte list \<Rightarrow> int" where
  "hash_cmp u hash path =
     (if strncmp (wd_digest u) hash LEN_HASH = 0 \<and> strcmp (wd_name u) path = 0 then 0 else -1)"

definition bucket_has :: "whitelist_digest list \<Rightarrow> byte list \<Rightarrow> byte list \<Rightarrow> bool" where
  "bucket_has b hash path = list_ex (\<lambda>u. hash_cmp u hash path = 0) b"

text \<open>Unlinking the first entry that satisfies the test, if there is one.\<close>

fun hlist_del_first :: "('a \<Rightarrow> bool) \<Rightarrow> 'a list \<Rightarrow> 'a list option" where
  "hlist_del_first P [] = None"
| "hlist_del_first P (x # xs) = (if P x then Some xs else map_option ((#) x) (hlist_del_first P xs))"

definition tab_init :: digest_table where
  "tab_init = \<lparr>hashtable = (\<lambda>_. []), obj_count = 0\<rparr>"

definition tab_link :: "hash_key \<Rightarrow> byte list \<Rightarrow> byte list \<Rightarrow> digest_table \<Rightarrow> digest_table" where
  "tab_link key path hash t =
     (let i = key hash path
      in t\<lparr>hashtable := (hashtable t)(i := new_digest path hash # hashtable t i), obj_count := obj_count t + 1\<rparr>)"

text \<open>Filling a fresh table: the entry is allocated first, then looked for. \<open>kz u\<close>: kzalloc succeeds
  for the entry \<open>u\<close>.\<close>

definition tab_tmp_add ::
  "hash_key \<Rightarrow> (whitelist_digest \<Rightarrow> bool) \<Rightarrow> byte list \<Rightarrow> byte list \<Rightarrow> digest_table \<Rightarrow> int \<times> digest_table" where
  "tab_tmp_add key kz path hash t =
     (if \<not> kz (new_digest path hash) then (- ENOMEM, t)
      else if bucket_has (hashtable t (key hash path)) hash path then (- EEXIST, t)
      else (0, tab_link key path hash t))"

definition tab_del :: "hash_key \<Rightarrow> byte list \<Rightarrow> byte list \<Rightarrow> digest_table \<Rightarrow> int \<times> digest_table" where
  "tab_del key path hash t =
     (let i = key hash path
      in case hlist_del_first (\<lambda>u. hash_cmp u hash path = 0) (hashtable t i) of
           Some b \<Rightarrow> (0, t\<lparr>hashtable := (hashtable t)(i := b), obj_count := obj_count t - 1\<rparr>)
         | None \<Rightarrow> (- EINVAL, t))"

text \<open>One pass over all buckets frees every entry; the pass is repeated until the counter that came
  in with the table is zero.\<close>

definition bucket_sum :: "(nat \<Rightarrow> 'a list) \<Rightarrow> int" where
  "bucket_sum b = sum_list (map (\<lambda>i. int (length (b i))) [0..<HASH_TAB_SIZE])"

definition free_buckets :: "(nat \<Rightarrow> 'a list) \<Rightarrow> nat \<Rightarrow> 'a list" where
  "free_buckets b = (\<lambda>i. if i < HASH_TAB_SIZE then [] else b i)"

partial_function (option) flush_buckets :: "(nat \<Rightarrow> 'a list) \<Rightarrow> int \<Rightarrow> (nat \<Rightarrow> 'a list) option" where
  "flush_buckets b n =
     (let n' = n - bucket_sum b; b' = free_buckets b
      in if n' \<noteq> 0 then flush_buckets b' n' else Some b')"

section \<open>Policy items\<close>

text \<open>
  A file_integrity_item: flags, the size of the extension, the length of the path in network byte
  order, then the digest, the extension and the path, padded to a multiple of four bytes. Reading
  one copies the path into a buffer of 512 bytes; \<open>path_fits\<close> says that the copy stays inside and
  leaves a terminated string.
\<close>

definition BYTE4_ALIGNMENT :: "nat \<Rightarrow> nat" where
  "BYTE4_ALIGNMENT len = (if len mod 4 \<noteq> 0 then len + (4 - len mod 4) else len)"

definition item_extend_size :: "byte list \<Rightarrow> nat" where
  "item_extend_size p = unat (p ! 1)"

definition item_path_length :: "byte list \<Rightarrow> nat" where
  "item_path_length p = be16 (p ! 2) (p ! 3)"

definition item_len :: "byte list \<Rightarrow> nat" where
  "item_len p = 4 + BYTE4_ALIGNMENT (LEN_HASH + item_extend_size p + item_path_length p)"

definition item_digest :: "byte list \<Rightarrow> byte list" where
  "item_digest p = take LEN_HASH (drop 4 p)"

definition item_path :: "byte list \<Rightarrow> byte list" where
  "item_path p = memcpy_at (replicate 512 0) 0
     (take (item_path_length p) (drop (4 + LEN_HASH + item_extend_size p) p))"

definition path_fits :: "byte list \<Rightarrow> bool" where
  "path_fits p \<longleftrightarrow> item_path_length p \<le> 512 \<and> 0 \<in> set (item_path p)"

lemma BYTE4_ALIGNMENT_ge: "n \<le> BYTE4_ALIGNMENT n"
  by (simp only: BYTE4_ALIGNMENT_def le_add1 order_refl if_split simp_thms)

lemma item_fields_len: "4 + LEN_HASH + item_extend_size p + item_path_length p \<le> item_len p"
  using BYTE4_ALIGNMENT_ge [of "LEN_HASH + item_extend_size p + item_path_length p"] by (simp add: item_len_def)

lemma item_len_ge: "36 \<le> item_len p"
  using item_fields_len [of p] by (simp add: LEN_HASH_def)

lemma drop_item_less: "4 < length p \<Longrightarrow> length (drop (item_len p) p) < length p"
  using item_len_ge [of p] by simp

text \<open>
  The loop over a buffer of items, with what is done with each path and digest. It stops where no
  whole item is left; the rest and the final state are its result. \<open>None\<close>: a path is copied past
  the end of the path buffer. Fewer than five bytes never hold an item, whatever follows them in
  memory, since every item has at least 36 bytes.
\<close>

function item_loop :: "(byte list \<Rightarrow> byte list \<Rightarrow> 's \<Rightarrow> 's) \<Rightarrow> byte list \<Rightarrow> 's \<Rightarrow> (byte list \<times> 's) option" where
  "item_loop act p s =
     (if length p \<le> 4 \<or> length p < item_len p then Some (p, s)
      else if item_digest p = replicate LEN_HASH 0 then item_loop act (drop (item_len p) p) s
      else if \<not> path_fits p then None
      else item_loop act (drop (item_len p) p) (act (item_path p) (item_digest p) s))"
  by pat_completeness auto

termination item_loop
  by (relation "measure (\<lambda>(act, p, s). length p)") (use drop_item_less in auto)

declare item_loop.simps [simp del]

text \<open>The reload of a policy file: reads fill a buffer of 1024 bytes behind what is left of the last
  round, and the items in it are consumed.\<close>

function load_loop ::
  "kfile \<Rightarrow> (byte list \<Rightarrow> byte list \<Rightarrow> 's \<Rightarrow> 's) \<Rightarrow> nat \<Rightarrow> byte list \<Rightarrow> 's \<Rightarrow> (nat \<times> byte list \<times> 's) option" where
  "load_loop f act offset buff s =
     (if offset < i_size f
      then (case kernel_read f offset (1024 - length buff) of
              Inl e \<Rightarrow> Some (offset, buff, s)
            | Inr d \<Rightarrow> if d = [] then Some (offset, buff, s)
                else (case item_loop act (buff @ d) s of None \<Rightarrow> None
                      | Some (rest, s') \<Rightarrow> load_loop f act (offset + length d) rest s'))
      else Some (offset, buff, s))"
  by pat_completeness auto

termination load_loop
  by (relation "measure (\<lambda>(f, act, offset, buff, s). i_size f - offset)") (auto intro!: diff_less_mono2)

declare load_loop.simps [simp del]

section \<open>Looking up, linking and unlinking\<close>

definition tab_entries :: "buckets \<Rightarrow> (byte list \<times> byte list) set" where
  "tab_entries b = {(wd_digest u, wd_name u) | u i. u \<in> set (b i)}"

text \<open>Two entries that the comparison of the code takes for the same.\<close>

definition same_entry :: "whitelist_digest \<Rightarrow> whitelist_digest \<Rightarrow> bool" where
  "same_entry u v \<longleftrightarrow> cstr (wd_digest u) = cstr (wd_digest v) \<and> wd_name u = wd_name v"

definition entry_wf :: "whitelist_digest \<Rightarrow> bool" where
  "entry_wf u \<longleftrightarrow> length (wd_digest u) = LEN_HASH \<and> no_nul (wd_name u) \<and> wd_len_name u = length (wd_name u)"

definition tab_wf :: "hash_key \<Rightarrow> digest_table \<Rightarrow> bool" where
  "tab_wf key t \<longleftrightarrow>
     (\<forall>i u. u \<in> set (hashtable t i) \<longrightarrow> entry_wf u \<and> key (wd_digest u) (wd_name u) = i) \<and>
     (\<forall>i. sorted_wrt (\<lambda>u v. \<not> same_entry u v) (hashtable t i)) \<and>
     obj_count t = bucket_sum (hashtable t)"

lemma take_cstr_le: "length h \<le> n \<Longrightarrow> take n (cstr h) = cstr h"
  by (metis cstr_def length_takeWhile_le order_trans take_all)

lemma cstr_full: "length (cstr h) = length h \<Longrightarrow> cstr h = h"
  unfolding cstr_def by (metis takeWhile_eq_take take_all order_refl)

lemma hash_cmp_iff:
  assumes "length (wd_digest u) = LEN_HASH" "length hash = LEN_HASH"
  shows "hash_cmp u hash path = 0 \<longleftrightarrow> cstr (wd_digest u) = cstr hash \<and> cstr (wd_name u) = cstr path"
  using assms by (simp add: hash_cmp_def strncmp_eq_0_iff strcmp_eq_0_iff take_cstr_le)

lemma string_hash_key_less: "string_hash_key jhash random p < HASH_TAB_SIZE"
proof -
  have "(w AND 0xFFFF :: u32) = take_bit 16 w" for w
    by (simp add: take_bit_eq_mask mask_eq_exp_minus_1)
  then show ?thesis
    by (simp add: string_hash_key_def HASH_TAB_SIZE_def take_bit_eq_mod unat_mod)
qed

lemma hlist_del_first_None: "hlist_del_first P xs = None \<longleftrightarrow> \<not> list_ex P xs"
  by (induction xs) auto

lemma hlist_del_first_Some:
  "hlist_del_first P xs = Some ys \<Longrightarrow> \<exists>as x bs. xs = as @ x # bs \<and> ys = as @ bs \<and> P x \<and> \<not> list_ex P as"
proof (induction xs arbitrary: ys)
  case (Cons x xs)
  show ?case
  proof (cases "P x")
    case True
    with Cons.prems show ?thesis by (intro exI [of _ "[]"]) auto
  next
    case False
    with Cons.prems obtain zs where zs: "hlist_del_first P xs = Some zs" "ys = x # zs" by auto
    with Cons.IH [OF zs(1)] obtain as y bs where
      "xs = as @ y # bs" "zs = as @ bs" "P y" "\<not> list_ex P as" by blast
    with False zs show ?thesis by (intro exI [of _ "x # as"]) auto
  qed
qed simp

lemma new_digest_cstr [simp]: "new_digest (cstr path) hash = new_digest path hash"
  by (simp add: new_digest_def strlen_def)

lemma bucket_has_cstr [simp]: "bucket_has b hash (cstr path) = bucket_has b hash path"
  by (simp add: bucket_has_def hash_cmp_def strcmp_eq_0_iff)

lemma sum_list_upd:
  "i < n \<Longrightarrow> sum_list (map (\<lambda>k. int (length ((b(i := x)) k))) [0..<n])
     = sum_list (map (\<lambda>k. int (length (b k))) [0..<n]) + (int (length x) - int (length (b i)))"
proof (induction n)
  case (Suc n)
  show ?case
  proof (cases "i = n")
    case True
    then have "map (\<lambda>k. int (length ((b(i := x)) k))) [0..<n] = map (\<lambda>k. int (length (b k))) [0..<n]"
      by auto
    then have "sum_list (map (\<lambda>k. int (length ((b(i := x)) k))) [0..<n])
        = sum_list (map (\<lambda>k. int (length (b k))) [0..<n])" by (rule arg_cong)
    then show ?thesis using True by (simp del: fun_upd_apply) simp
  next
    case False
    then show ?thesis using Suc by simp
  qed
qed simp

lemma bucket_sum_upd:
  "i < HASH_TAB_SIZE \<Longrightarrow> bucket_sum (b(i := x)) = bucket_sum b + (int (length x) - int (length (b i)))"
  unfolding bucket_sum_def by (rule sum_list_upd)

lemma tab_entries_upd:
  "tab_entries (b(i := x)) = {(wd_digest u, wd_name u) | u k. k \<noteq> i \<and> u \<in> set (b k)}
     \<union> (\<lambda>u. (wd_digest u, wd_name u)) ` set x"
  by (auto simp: tab_entries_def split: if_splits)

lemma tab_entries_split:
  "tab_entries b = {(wd_digest u, wd_name u) | u k. k \<noteq> i \<and> u \<in> set (b k)}
     \<union> (\<lambda>u. (wd_digest u, wd_name u)) ` set (b i)"
  using tab_entries_upd [of b i "b i"] by simp

text \<open>
  The interface of a bucket function: it stays below the table size and sees of the path only the
  string before its terminator.
\<close>

locale keyed_table =
  fixes key :: "byte list \<Rightarrow> byte list \<Rightarrow> nat"
  assumes key_less: "key hash path < HASH_TAB_SIZE"
    and key_cstr: "key hash (cstr path) = key hash path"
begin

lemma init_wf: "tab_wf key tab_init"
proof -
  have "sum_list (map (\<lambda>_. 0 :: int) xs) = 0" for xs :: "nat list"
    by (induction xs) simp_all
  then show ?thesis
    by (simp add: tab_wf_def tab_init_def bucket_sum_def)
qed

lemma bucket_has_iff:
  assumes "tab_wf key t" "length hash = LEN_HASH"
  shows "bucket_has (hashtable t (key hash path)) hash path \<longleftrightarrow>
    (\<exists>h. (h, cstr path) \<in> tab_entries (hashtable t) \<and> cstr h = cstr hash \<and>
      key h path = key hash path)"
proof -
  have wf: "entry_wf u" "key (wd_digest u) (wd_name u) = i" if "u \<in> set (hashtable t i)" for u i
    using assms(1) that by (auto simp: tab_wf_def)
  have cmp: "hash_cmp u hash path = 0 \<longleftrightarrow> cstr (wd_digest u) = cstr hash \<and> wd_name u = cstr path"
    if "u \<in> set (hashtable t i)" for u i
    using wf(1) [OF that] assms(2) by (simp add: hash_cmp_iff entry_wf_def cstr_no_nul)
  show ?thesis
  proof
    assume "bucket_has (hashtable t (key hash path)) hash path"
    then obtain u where u: "u \<in> set (hashtable t (key hash path))" "hash_cmp u hash path = 0"
      by (auto simp: bucket_has_def list_ex_iff)
    then show "\<exists>h. (h, cstr path) \<in> tab_entries (hashtable t) \<and> cstr h = cstr hash \<and> key h path = key hash path"
      using cmp [OF u(1)] wf(2) [OF u(1)] key_cstr [of "wd_digest u" path]
      by (intro exI [of _ "wd_digest u"]) (auto simp: tab_entries_def)
  next
    assume "\<exists>h. (h, cstr path) \<in> tab_entries (hashtable t) \<and> cstr h = cstr hash \<and> key h path = key hash path"
    then obtain u i where u: "u \<in> set (hashtable t i)" "wd_name u = cstr path" "cstr (wd_digest u) = cstr hash"
      "key (wd_digest u) path = key hash path"
      by (auto simp: tab_entries_def)
    then have "i = key hash path"
      using wf(2) [OF u(1)] key_cstr by metis
    then show "bucket_has (hashtable t (key hash path)) hash path"
      using u cmp [OF u(1)] by (auto simp: bucket_has_def list_ex_iff)
  qed
qed

lemma bucket_has_exact:
  assumes "tab_wf key t" "length hash = LEN_HASH" "no_nul hash"
  shows "bucket_has (hashtable t (key hash path)) hash path \<longleftrightarrow> (hash, cstr path) \<in> tab_entries (hashtable t)"
proof -
  have len: "length h = LEN_HASH" if "(h, p) \<in> tab_entries (hashtable t)" for h p
    using assms(1) that by (auto simp: tab_entries_def tab_wf_def entry_wf_def)
  have "h = hash" if "cstr h = cstr hash" "length h = LEN_HASH" for h
    using that assms(2) cstr_full [of h] by (simp add: cstr_no_nul [OF assms(3)])
  then show ?thesis
    using bucket_has_iff [OF assms(1,2), of path] len by blast
qed

lemma link_wf:
  assumes "tab_wf key t" "length hash = LEN_HASH" "\<not> bucket_has (hashtable t (key hash path)) hash path"
  shows "tab_wf key (tab_link key path hash t)"
    "tab_entries (hashtable (tab_link key path hash t)) = insert (hash, cstr path) (tab_entries (hashtable t))"
proof -
  let ?i = "key hash path" and ?u = "new_digest path hash"
  have wf: "entry_wf u" "key (wd_digest u) (wd_name u) = i" if "u \<in> set (hashtable t i)" for u i
    using assms(1) that by (auto simp: tab_wf_def)
  have u: "entry_wf ?u" "wd_digest ?u = hash" "wd_name ?u = cstr path"
    using assms(2) by (simp_all add: entry_wf_def new_digest_def strlen_def)
  have fresh: "\<not> same_entry ?u v" if "v \<in> set (hashtable t ?i)" for v
    using assms(3) that wf(1) [OF that] hash_cmp_iff [of v hash path] assms(2) u
    by (auto simp: bucket_has_def list_ex_iff same_entry_def entry_wf_def cstr_no_nul)
  show "tab_wf key (tab_link key path hash t)"
    using assms(1) u fresh key_cstr [of hash path] bucket_sum_upd [OF key_less [of hash path], of "hashtable t" "?u # hashtable t ?i"]
    by (auto simp: tab_wf_def tab_link_def Let_def)
  show "tab_entries (hashtable (tab_link key path hash t)) = insert (hash, cstr path) (tab_entries (hashtable t))"
    using u tab_entries_split [of "hashtable t" ?i] by (auto simp: tab_link_def Let_def tab_entries_upd)
qed

lemma del_cases:
  assumes "tab_wf key t" "length hash = LEN_HASH"
  obtains (absent) "\<not> bucket_has (hashtable t (key hash path)) hash path"
      "tab_del key path hash t = (- EINVAL, t)"
  | (present) t' h where "bucket_has (hashtable t (key hash path)) hash path"
      "tab_del key path hash t = (0, t')" "tab_wf key t'" "cstr h = cstr hash" "key h path = key hash path"
      "(h, cstr path) \<in> tab_entries (hashtable t)"
      "tab_entries (hashtable t') = tab_entries (hashtable t) - {(h, cstr path)}"
proof (cases "hlist_del_first (\<lambda>u. hash_cmp u hash path = 0) (hashtable t (key hash path))")
  case None
  show ?thesis
  proof (rule absent)
    show "\<not> bucket_has (hashtable t (key hash path)) hash path"
      using None by (simp add: bucket_has_def hlist_del_first_None)
    show "tab_del key path hash t = (- EINVAL, t)"
      using None by (simp add: tab_del_def Let_def)
  qed
next
  case (Some b)
  let ?i = "key hash path" and ?P = "\<lambda>u. hash_cmp u hash path = 0"
  obtain as u bs where b: "hashtable t ?i = as @ u # bs" "b = as @ bs" "?P u" "\<not> list_ex ?P as"
    using hlist_del_first_Some [OF Some] by blast
  have wf: "entry_wf u" "key (wd_digest u) (wd_name u) = i" if "u \<in> set (hashtable t i)" for u i
    using assms(1) that by (auto simp: tab_wf_def)
  have srt: "sorted_wrt (\<lambda>u v. \<not> same_entry u v) (as @ u # bs)"
    using assms(1) b(1) by (metis tab_wf_def)
  define t' where "t' = t\<lparr>hashtable := (hashtable t)(?i := b), obj_count := obj_count t - 1\<rparr>"
  have u: "cstr (wd_digest u) = cstr hash" "wd_name u = cstr path" "key (wd_digest u) path = key hash path"
    using b(1,3) wf [of u ?i] assms(2) key_cstr [of "wd_digest u" path]
    by (auto simp: hash_cmp_iff entry_wf_def cstr_no_nul)
  have "entry_wf v \<and> key (wd_digest v) (wd_name v) = ?i" if "v \<in> set as \<union> set bs" for v
    using wf [of v ?i] b(1) that by auto
  then have "tab_wf key t'"
    using assms(1) b(1,2) srt bucket_sum_upd [OF key_less [of hash path], of "hashtable t" b]
    by (auto simp: tab_wf_def t'_def sorted_wrt_append)
  moreover have d1: False if "v \<in> set as \<or> v \<in> set bs" "wd_digest v = wd_digest u" "wd_name v = wd_name u" for v
    using that srt by (auto simp: sorted_wrt_append same_entry_def)
  moreover have d2: False if "v \<in> set (hashtable t k)" "k \<noteq> ?i" "wd_digest v = wd_digest u" "wd_name v = wd_name u" for v k
    using that wf(2) [OF that(1)] wf(2) [of u ?i] b(1) by auto
  moreover have "(wd_digest u, cstr path) \<in> tab_entries (hashtable t)"
    unfolding tab_entries_split [of "hashtable t" ?i] using b u by (auto simp: image_iff)
  ultimately show ?thesis
  proof (intro present [of t' "wd_digest u"])
    show "tab_entries (hashtable t') = tab_entries (hashtable t) - {(wd_digest u, cstr path)}"
      unfolding tab_entries_split [of "hashtable t" ?i] t'_def
      using b u by (auto simp: tab_entries_upd dest: d1 [OF disjI1] d1 [OF disjI2] d2)
  qed (use Some b u in \<open>auto simp: bucket_has_def list_ex_iff tab_del_def t'_def tab_entries_def\<close>)
qed

lemma bucket_has_link:
  assumes "bucket_has (hashtable t (key h p)) h p"
  shows "bucket_has (hashtable (tab_link key path hash t) (key h p)) h p"
  using assms by (auto simp: tab_link_def Let_def bucket_has_def)

lemma link_has: "length hash = LEN_HASH \<Longrightarrow> bucket_has (hashtable (tab_link key path hash t) (key hash path)) hash path"
  by (simp add: tab_link_def Let_def bucket_has_def hash_cmp_iff new_digest_def)

text \<open>Adding one entry to a fresh table, and a sequence of them.\<close>

lemma tmp_add_ok:
  assumes "tab_wf key t" "length hash = LEN_HASH" "kz (new_digest path hash)"
  shows "tab_wf key (snd (tab_tmp_add key kz path hash t))"
    "bucket_has (hashtable (snd (tab_tmp_add key kz path hash t)) (key hash path)) hash path"
    "tab_entries (hashtable (snd (tab_tmp_add key kz path hash t))) \<subseteq> insert (hash, cstr path) (tab_entries (hashtable t))"
    "bucket_has (hashtable t (key h p)) h p \<Longrightarrow> bucket_has (hashtable (snd (tab_tmp_add key kz path hash t)) (key h p)) h p"
  using assms link_wf [OF assms(1,2)] link_has [OF assms(2)]
  by (auto simp: tab_tmp_add_def intro: bucket_has_link)

lemma tmp_add_fold:
  assumes "tab_wf key t" "list_all (\<lambda>(p, h). length h = LEN_HASH) xs"
    "t' = fold (\<lambda>(p, h) t. snd (tab_tmp_add key (\<lambda>_. True) p h t)) xs t"
  shows "tab_wf key t' \<and> (\<forall>(p, h)\<in>set xs. bucket_has (hashtable t' (key h p)) h p) \<and>
    tab_entries (hashtable t') \<subseteq> tab_entries (hashtable t) \<union> (\<lambda>(p, h). (h, cstr p)) ` set xs \<and>
    (\<forall>p h. bucket_has (hashtable t (key h p)) h p \<longrightarrow> bucket_has (hashtable t' (key h p)) h p)"
  using assms
proof (induction xs arbitrary: t)
  case (Cons x xs)
  obtain p0 h0 where x: "x = (p0, h0)" by (cases x)
  define u where "u = snd (tab_tmp_add key (\<lambda>_. True) p0 h0 t)"
  have l: "length h0 = LEN_HASH" "list_all (\<lambda>(p, h). length h = LEN_HASH) xs"
    using Cons.prems(2) x by auto
  note u = tmp_add_ok [OF Cons.prems(1) l(1), of "\<lambda>_. True" p0, OF TrueI, folded u_def]
  have t': "t' = fold (\<lambda>(p, h) t. snd (tab_tmp_add key (\<lambda>_. True) p h t)) xs u"
    using Cons.prems(3) by (simp add: x u_def)
  note IH = Cons.IH [OF u(1) l(2) t']
  show ?case
    using IH u(2-4) by (auto simp: x)
qed simp

text \<open>The cleaning loop ends after one pass when the counter is the number of entries.\<close>

lemma flush_wf:
  assumes "tab_wf key t"
  shows "flush_buckets (hashtable t) (obj_count t) = Some (\<lambda>_. [])"
proof -
  have "hashtable t i = []" if "\<not> i < HASH_TAB_SIZE" for i
    using assms that key_less unfolding tab_wf_def by (metis list.set_intros(1) neq_Nil_conv)
  then have "free_buckets (hashtable t) = (\<lambda>_. [])"
    by (auto simp: free_buckets_def)
  then show ?thesis
    using assms by (simp add: tab_wf_def flush_buckets.simps)
qed

end

text \<open>With any other counter the loop never ends.\<close>

lemma bucket_sum_free [simp]: "bucket_sum (free_buckets b) = 0"
proof -
  have "map (\<lambda>i. int (length (free_buckets b i))) [0..<HASH_TAB_SIZE] = map (\<lambda>_. 0) [0..<HASH_TAB_SIZE]"
    by (simp add: free_buckets_def)
  then show ?thesis
    unfolding bucket_sum_def by (simp only: sum_list_0 map_replicate_const sum_list_replicate mult_zero_right)
qed

lemma flush_buckets_result:
  "flush_buckets b n = Some b' \<Longrightarrow> n = bucket_sum b"
  by (rule flush_buckets.raw_induct [where P = "\<lambda>b n y. n = bucket_sum b"])
    (force simp: Let_def split: if_splits)+

section \<open>Items in a buffer\<close>

lemma item_len_append: "4 \<le> length a \<Longrightarrow> item_len (a @ b) = item_len a"
  by (simp add: item_len_def item_extend_size_def item_path_length_def nth_append)

lemma item_digest_append: "item_len a \<le> length a \<Longrightarrow> item_digest (a @ b) = item_digest a"
  using item_len_ge [of a] by (simp add: item_digest_def LEN_HASH_def)

lemma item_path_append:
  assumes "item_len a \<le> length a"
  shows "item_path (a @ b) = item_path a" "path_fits (a @ b) = path_fits a"
proof -
  have "4 \<le> length a" using assms item_len_ge [of a] by simp
  then have f: "item_extend_size (a @ b) = item_extend_size a" "item_path_length (a @ b) = item_path_length a"
    by (simp_all add: item_extend_size_def item_path_length_def nth_append)
  then show "item_path (a @ b) = item_path a"
    using item_fields_len [of a] assms by (simp add: item_path_def)
  then show "path_fits (a @ b) = path_fits a"
    by (simp add: path_fits_def f)
qed

lemmas item_append = item_len_append item_digest_append item_path_append

lemma item_loop_stuck: "length p \<le> 4 \<or> length p < item_len p \<Longrightarrow> item_loop act p s = Some (p, s)"
  by (simp add: item_loop.simps)

lemma item_loop_item:
  assumes "4 < length p" "item_len p \<le> length p"
  shows "item_loop act p s =
    (if item_digest p = replicate LEN_HASH 0 then item_loop act (drop (item_len p) p) s
     else if \<not> path_fits p then None
     else item_loop act (drop (item_len p) p) (act (item_path p) (item_digest p) s))"
  using assms by (simp add: item_loop.simps [of act p])

text \<open>A buffer may be consumed piecewise.\<close>

lemma item_loop_append:
  "item_loop act (a @ b) s =
     (case item_loop act a s of None \<Rightarrow> None | Some (r, s') \<Rightarrow> item_loop act (r @ b) s')"
proof (induction act a s rule: item_loop.induct)
  case (1 act a s)
  show ?case
  proof (cases "length a \<le> 4 \<or> length a < item_len a")
    case True
    then show ?thesis by (simp add: item_loop_stuck)
  next
    case False
    then have a: "4 < length a" "item_len a \<le> length a" by auto
    then have ab: "4 < length (a @ b)" "item_len (a @ b) \<le> length (a @ b)" by (simp_all add: item_append)
    from a have "drop (item_len a) (a @ b) = drop (item_len a) a @ b" by simp
    then show ?thesis
      using 1 False a unfolding item_loop_item [OF a] item_loop_item [OF ab] by (simp add: item_append)
  qed
qed

lemma item_loop_rest:
  "item_loop act p s = Some (r, s') \<Longrightarrow> length r \<le> 4 \<or> length r < item_len r"
proof (induction act p s rule: item_loop.induct)
  case (1 act p s)
  show ?case
  proof (cases "length p \<le> 4 \<or> length p < item_len p")
    case True
    with 1(3) show ?thesis by (simp add: item_loop_stuck)
  next
    case False
    then show ?thesis
      using 1 item_loop_item [of p act s] by (auto split: if_splits)
  qed
qed

text \<open>What every act on a digest of the right length keeps, the loops keep.\<close>

lemma item_loop_inv:
  assumes act: "\<And>path h s. I s \<Longrightarrow> length h = LEN_HASH \<Longrightarrow> I (act path h s)"
    and "I s" "item_loop act p s = Some (r, s')"
  shows "I s'"
  using assms(2,3)
proof (induction p arbitrary: s rule: measure_induct_rule [of length])
  case (less p)
  show ?case
  proof (cases "length p \<le> 4 \<or> length p < item_len p")
    case True
    with less.prems show ?thesis by (simp add: item_loop_stuck)
  next
    case False
    then have p: "4 < length p" "item_len p \<le> length p" by auto
    then have "length (item_digest p) = LEN_HASH"
      using item_len_ge [of p] by (auto simp: item_digest_def LEN_HASH_def)
    then show ?thesis
      using less.IH [OF drop_item_less [OF p(1)]] less.prems act item_loop_item [OF p, of act s]
      by (auto split: if_splits)
  qed
qed

lemma load_loop_inv:
  assumes act: "\<And>path h s. I s \<Longrightarrow> length h = LEN_HASH \<Longrightarrow> I (act path h s)"
    and "I s" "load_loop f act off buff s = Some (off', r, s')"
  shows "I s'"
  using assms(2,3)
proof (induction "i_size f - off" arbitrary: off buff s rule: less_induct)
  case less
  show ?case
  proof (cases "\<exists>d rest u. off < i_size f \<and> kernel_read f off (1024 - length buff) = Inr d \<and> d \<noteq> [] \<and>
      item_loop act (buff @ d) s = Some (rest, u)")
    case True
    then obtain d rest u where d: "off < i_size f" "kernel_read f off (1024 - length buff) = Inr d" "d \<noteq> []"
      "item_loop act (buff @ d) s = Some (rest, u)" by blast
    have "I u" by (rule item_loop_inv [OF act less.prems(1) d(4)])
    moreover have "load_loop f act (off + length d) rest u = Some (off', r, s')"
      using less.prems(2) d by (simp add: load_loop.simps [of f act off])
    moreover have "i_size f - (off + length d) < i_size f - off"
      using d by (auto intro!: diff_less_mono2)
    ultimately show ?thesis using less.hyps by blast
  next
    case False
    then show ?thesis
      using less.prems by (auto simp: load_loop.simps [of f act off] split: sum.splits option.splits if_splits)
  qed
qed

section \<open>Reloading a policy file\<close>

text \<open>Every item that starts in the stream has at most \<open>N\<close> bytes.\<close>

function stream_ok :: "nat \<Rightarrow> byte list \<Rightarrow> bool" where
  "stream_ok N p \<longleftrightarrow> (if length p \<le> 4 then True else
     item_len p \<le> N \<and> (if length p < item_len p then True else stream_ok N (drop (item_len p) p)))"
  by pat_completeness auto

termination stream_ok
  by (relation "measure (\<lambda>(N, p). length p)") (use drop_item_less in auto)

declare stream_ok.simps [simp del]

lemma item_loop_stream:
  "stream_ok N (a @ b) \<Longrightarrow> item_loop act a s = Some (r, s') \<Longrightarrow> stream_ok N (r @ b)"
proof (induction act a s rule: item_loop.induct)
  case (1 act a s)
  show ?case
  proof (cases "length a \<le> 4 \<or> length a < item_len a")
    case True
    with 1 show ?thesis by (simp add: item_loop_stuck)
  next
    case False
    then have a: "4 < length a" "item_len a \<le> length a" by auto
    have "stream_ok N (drop (item_len a) a @ b)"
      using 1(3) a by (auto simp: stream_ok.simps [of N "a @ b"] item_append)
    then show ?thesis
      using 1 False item_loop_item [OF a, of act s] by (auto split: if_splits)
  qed
qed

lemma item_loop_rest_less:
  assumes "stream_ok N (p @ b)" "item_loop act p s = Some (r, s')" "4 < N"
  shows "length r < N"
proof -
  have "stream_ok N (r @ b)"
    using item_loop_stream [OF assms(1,2)] .
  then show ?thesis
    using item_loop_rest [OF assms(2)] assms(3)
    by (cases "length r \<le> 4") (auto simp: stream_ok.simps [of N "r @ b"] item_append)
qed

text \<open>However the file is cut into reads, the reload acts on the items of the whole file in order.\<close>

lemma load_loop_complete:
  assumes reads: "kfile_reads f c" and prog: "kfile_progress f" and size: "i_size f = length c"
    and "off \<le> length c" "length buff < 1024" "stream_ok 1024 (buff @ drop off c)"
  shows "load_loop f act off buff s =
    map_option (\<lambda>(r, s'). (length c, r, s')) (if off < length c then item_loop act (buff @ drop off c) s
      else Some (buff, s))"
  using assms(4-)
proof (induction "length c - off" arbitrary: off buff s rule: less_induct)
  case less
  show ?case
  proof (cases "off < length c")
    case False
    then show ?thesis
      using less.prems size by (simp add: load_loop.simps)
  next
    case lt: True
    obtain d where d: "kernel_read f off (1024 - length buff) = Inr d" "d \<noteq> []"
      using kfile_progressD [OF prog, of off "1024 - length buff"] lt size less.prems(2) by auto
    have eq: "drop off c = d @ drop (off + length d) c"
      using kfile_readsD(2) [OF reads d(1)] by (metis append_take_drop_id drop_drop add.commute)
    have le: "off + length d \<le> length c"
      by (rule kfile_reads_bound [OF reads d(1) less.prems(1)])
    show ?thesis
    proof (cases "item_loop act (buff @ d) s")
      case None
      then show ?thesis
        using lt d size item_loop_append [of act "buff @ d" "drop (off + length d) c" s]
        by (simp add: load_loop.simps [of f act off] eq)
    next
      case (Some rs)
      obtain r s' where rs: "rs = (r, s')" by (cases rs)
      have st: "stream_ok 1024 ((buff @ d) @ drop (off + length d) c)"
        using less.prems(3) eq by simp
      have r: "length r < 1024" "stream_ok 1024 (r @ drop (off + length d) c)"
        using item_loop_rest_less [OF st] item_loop_stream [OF st] Some rs by auto
      have "load_loop f act off buff s = load_loop f act (off + length d) r s'"
        using lt d size Some rs by (simp add: load_loop.simps [of f act off])
      also have "\<dots> = map_option (\<lambda>(r, s'). (length c, r, s'))
          (if off + length d < length c then item_loop act (r @ drop (off + length d) c) s' else Some (r, s'))"
        using less.hyps [of "off + length d" r s'] d(2) lt le r by (auto simp: diff_less_mono2)
      also have "(if off + length d < length c then item_loop act (r @ drop (off + length d) c) s' else Some (r, s'))
          = item_loop act (buff @ drop off c) s"
        using item_loop_append [of act "buff @ d" "drop (off + length d) c" s] Some rs
          item_loop_stuck [OF item_loop_rest, of act "buff @ d" s r s' act s']
        by (auto simp: eq)
      finally show ?thesis using lt by simp
    qed
  qed
qed

section \<open>Encoded items\<close>

record policy_item =
  pi_flags :: byte
  pi_extend :: "byte list"
  pi_hash :: "byte list"
  pi_path :: "byte list"

definition item_valid :: "policy_item \<Rightarrow> bool" where
  "item_valid x \<longleftrightarrow> length (pi_hash x) = LEN_HASH \<and> length (pi_extend x) < 256 \<and>
     length (pi_path x) < 512 \<and> no_nul (pi_path x)"

definition encode_item :: "policy_item \<Rightarrow> byte list" where
  "encode_item x =
     (let n = LEN_HASH + length (pi_extend x) + length (pi_path x)
      in [pi_flags x, of_nat (length (pi_extend x)),
          of_nat (length (pi_path x) div 256), of_nat (length (pi_path x))]
         @ pi_hash x @ pi_extend x @ pi_path x @ replicate (BYTE4_ALIGNMENT n - n) 0)"

definition encode_items :: "policy_item list \<Rightarrow> byte list" where
  "encode_items xs = concat (map encode_item xs)"

lemma encode_item_fields:
  assumes "item_valid x"
  shows "item_extend_size (encode_item x @ b) = length (pi_extend x)"
    "item_path_length (encode_item x @ b) = length (pi_path x)"
    "item_len (encode_item x @ b) = length (encode_item x)"
    "item_digest (encode_item x @ b) = pi_hash x"
    "cstr (item_path (encode_item x @ b)) = pi_path x"
    "path_fits (encode_item x @ b)"
proof -
  have v: "length (pi_hash x) = LEN_HASH" "length (pi_extend x) < 256" "length (pi_path x) < 512" "no_nul (pi_path x)"
    using assms by (simp_all add: item_valid_def)
  show e: "item_extend_size (encode_item x @ b) = length (pi_extend x)"
    using v by (simp add: item_extend_size_def encode_item_def Let_def unat_of_nat)
  show p: "item_path_length (encode_item x @ b) = length (pi_path x)"
    using v by (simp add: item_path_length_def encode_item_def Let_def unat_of_nat be16_def)
  show "item_len (encode_item x @ b) = length (encode_item x)"
    using v BYTE4_ALIGNMENT_ge [of "LEN_HASH + length (pi_extend x) + length (pi_path x)"]
    unfolding item_len_def e p by (simp add: encode_item_def Let_def)
  show "item_digest (encode_item x @ b) = pi_hash x"
    using v by (simp add: item_digest_def encode_item_def Let_def)
  define z where "z = replicate (BYTE4_ALIGNMENT (LEN_HASH + length (pi_extend x) + length (pi_path x))
      - (LEN_HASH + length (pi_extend x) + length (pi_path x))) (0 :: byte)"
  have "drop LEN_HASH (drop 4 (encode_item x @ b)) = pi_extend x @ pi_path x @ z @ b"
    using v by (simp add: encode_item_def Let_def z_def)
  then have "drop (length (pi_extend x)) (drop LEN_HASH (drop 4 (encode_item x @ b))) = pi_path x @ z @ b"
    by simp
  then have "drop (4 + LEN_HASH + length (pi_extend x)) (encode_item x @ b) = pi_path x @ z @ b"
    unfolding drop_drop by (simp only: ac_simps)
  then have ip: "item_path (encode_item x @ b) = pi_path x @ replicate (512 - length (pi_path x)) 0"
    unfolding item_path_def e p using v by (simp add: memcpy_at_def)
  show "path_fits (encode_item x @ b)"
    using v(3) by (simp add: path_fits_def ip p)
  have "512 - length (pi_path x) = Suc (511 - length (pi_path x))"
    using v(3) by linarith
  then show "cstr (item_path (encode_item x @ b)) = pi_path x"
    using v(4) by (simp add: ip cstr_append_nul)
qed

lemma encode_item_len: "36 \<le> length (encode_item x)" if "item_valid x"
  using encode_item_fields(3) [OF that, of "[]"] item_len_ge [of "encode_item x"] by simp

text \<open>An act that looks at the path only as a string.\<close>

definition string_act :: "(byte list \<Rightarrow> byte list \<Rightarrow> 's \<Rightarrow> 's) \<Rightarrow> bool" where
  "string_act act \<longleftrightarrow> (\<forall>path. act (cstr path) = act path)"

definition live_items :: "policy_item list \<Rightarrow> policy_item list" where
  "live_items = filter (\<lambda>x. pi_hash x \<noteq> replicate LEN_HASH 0)"

lemma item_loop_encode:
  assumes "list_all item_valid xs" "string_act act"
  shows "item_loop act (encode_items xs) s = Some ([], fold (\<lambda>x. act (pi_path x) (pi_hash x)) (live_items xs) s)"
  using assms(1)
proof (induction xs arbitrary: s)
  case Nil
  show ?case by (simp add: encode_items_def live_items_def item_loop_stuck)
next
  case (Cons x xs)
  then have x: "item_valid x" by simp
  let ?p = "encode_item x @ encode_items xs"
  note fs = encode_item_fields [OF x, of "encode_items xs"]
  have len: "4 < length ?p" "item_len ?p \<le> length ?p"
    using encode_item_len [OF x] fs by simp_all
  have act: "act (item_path ?p) = act (pi_path x)"
    using assms(2) fs(5) by (metis string_act_def)
  have "item_loop act (encode_items (x # xs)) s = item_loop act ?p s"
    by (simp add: encode_items_def)
  then show ?case
    using Cons fs act by (simp add: item_loop_item [OF len] live_items_def)
qed

lemma stream_ok_encode:
  assumes "list_all item_valid xs" "list_all (\<lambda>x. length (encode_item x) \<le> N) xs"
  shows "stream_ok N (encode_items xs)"
  using assms
proof (induction xs)
  case Nil
  show ?case by (simp add: encode_items_def stream_ok.simps)
next
  case (Cons x xs)
  then have x: "item_valid x" by simp
  have "stream_ok N (encode_item x @ encode_items xs)"
    using Cons encode_item_fields(3) [OF x, of "encode_items xs"]
    by (simp add: stream_ok.simps [of N "encode_item x @ encode_items xs"])
  then show ?case by (simp add: encode_items_def)
qed

definition item_pairs :: "policy_item list \<Rightarrow> (byte list \<times> byte list) set" where
  "item_pairs xs = (\<lambda>x. (pi_hash x, pi_path x)) ` set xs"

lemma live_items_valid: "list_all item_valid xs \<Longrightarrow> x \<in> set (live_items xs) \<Longrightarrow> item_valid x"
  by (auto simp: live_items_def list_all_iff)

text \<open>The whole reload of an encoded file, from the offset where its items start.\<close>

lemma load_loop_encoded:
  assumes "kfile_reads f (hdr @ encode_items xs)" "kfile_progress f" "i_size f = length (hdr @ encode_items xs)"
    "list_all item_valid xs" "list_all (\<lambda>x. length (encode_item x) \<le> 1024) xs" "string_act act"
  shows "load_loop f act (length hdr) [] s =
    Some (length (hdr @ encode_items xs), [], fold (\<lambda>x. act (pi_path x) (pi_hash x)) (live_items xs) s)"
  using load_loop_complete [OF assms(1-3), of "length hdr" "[]" act s] stream_ok_encode [OF assms(4,5)]
    item_loop_encode [OF assms(4,6), of s] item_loop_stuck [of "[]" act s]
  by (cases "encode_items xs = []") auto

context keyed_table
begin

lemma load_items:
  assumes "list_all item_valid xs"
    "t = fold (\<lambda>x t. snd (tab_tmp_add key (\<lambda>_. True) (pi_path x) (pi_hash x) t)) (live_items xs) tab_init"
  shows "tab_wf key t"
    "\<And>x. x \<in> set (live_items xs) \<Longrightarrow> bucket_has (hashtable t (key (pi_hash x) (pi_path x))) (pi_hash x) (pi_path x)"
    "tab_entries (hashtable t) \<subseteq> item_pairs (live_items xs)"
proof -
  define ys where "ys = map (\<lambda>x. (pi_path x, pi_hash x)) (live_items xs)"
  have ys: "list_all (\<lambda>(p, h). length h = LEN_HASH) ys"
    using live_items_valid [OF assms(1)] by (auto simp: ys_def list_all_iff item_valid_def)
  have t: "t = fold (\<lambda>(p, h) t. snd (tab_tmp_add key (\<lambda>_. True) p h t)) ys tab_init"
    unfolding assms(2) ys_def by (simp add: fold_map comp_def)
  note r = tmp_add_fold [OF init_wf ys t]
  have e: "(\<lambda>(p, h). (h, cstr p)) ` set ys = item_pairs (live_items xs)"
    using live_items_valid [OF assms(1)]
    by (auto simp: ys_def item_pairs_def image_image item_valid_def cstr_no_nul intro!: image_cong)
  show "tab_wf key t" using r by blast
  show "bucket_has (hashtable t (key (pi_hash x) (pi_path x))) (pi_hash x) (pi_path x)"
    if "x \<in> set (live_items xs)" for x
    using r that by (fastforce simp: ys_def)
  show "tab_entries (hashtable t) \<subseteq> item_pairs (live_items xs)"
    using r by (simp add: e) (simp add: tab_entries_def tab_init_def)
qed

lemma load_items_exact:
  assumes "list_all item_valid xs"
    "t = fold (\<lambda>x t. snd (tab_tmp_add key (\<lambda>_. True) (pi_path x) (pi_hash x) t)) (live_items xs) tab_init"
    "\<forall>x\<in>set (live_items xs). no_nul (pi_hash x)"
  shows "tab_entries (hashtable t) = item_pairs (live_items xs)"
proof
  show "item_pairs (live_items xs) \<subseteq> tab_entries (hashtable t)"
  proof
    fix e assume "e \<in> item_pairs (live_items xs)"
    then obtain x where x: "x \<in> set (live_items xs)" "e = (pi_hash x, pi_path x)"
      by (auto simp: item_pairs_def)
    have v: "length (pi_hash x) = LEN_HASH" "cstr (pi_path x) = pi_path x"
      using live_items_valid [OF assms(1) x(1)] by (simp_all add: item_valid_def cstr_no_nul)
    then show "e \<in> tab_entries (hashtable t)"
      using bucket_has_exact [OF load_items(1) [OF assms(1,2)] v(1)] load_items(2) [OF assms(1,2) x(1)]
        assms(3) x by metis
  qed
qed (rule load_items(3) [OF assms(1,2)])

end

end
