(* ===== verification/Whitelist_Cache.thy ===== *)
theory Whitelist_Cache
  imports Digest_Table
begin

text \<open>
  The cache of measured files: tsb/kernel/smeasure/policy/policy_whitelist_cache.c. One slot per
  hash value of path, modification time and size; a slot remembers the path and the digest of the
  last file stored in it. The time and the size choose the slot but are not compared (the
  comparison is commented out in the code).

  Every slot has its own lock. \<open>None\<close> is the result of a run that unlocks a lock it does not hold:
  both operations jump to their unlocking exit when the key buffer cannot be allocated.
\<close>

definition PATH_LEN :: nat where "PATH_LEN = 512"
definition MAX_CACHE_NUMBER :: nat where "MAX_CACHE_NUMBER = 8192"

record whitelist_cache =
  wc_path :: "byte list"
  wc_digest :: "byte list"
  wc_path_len :: nat
  wc_flag :: int

text \<open>The bytes of the inode's modification time and size.\<close>

record file_attr =
  fa_mtime :: "byte list"
  fa_size :: "byte list"

record cache_array =
  wc :: "nat \<Rightarrow> whitelist_cache option"
  wc_random :: u32

definition zero_cache :: whitelist_cache where
  "zero_cache = \<lparr>wc_path = replicate PATH_LEN 0, wc_digest = replicate LEN_HASH 0, wc_path_len = 0, wc_flag = 0\<rparr>"

section \<open>Operations\<close>

definition cache_hash_key :: "jhash_fun \<Rightarrow> u32 \<Rightarrow> byte list \<Rightarrow> nat" where
  "cache_hash_key jhash random p = unat (jhash p random AND of_nat (MAX_CACHE_NUMBER - 1))"

definition check_whitelist_cache ::
  "jhash_fun \<Rightarrow> bool \<Rightarrow> file_attr \<Rightarrow> byte list \<Rightarrow> byte list \<Rightarrow> cache_array \<Rightarrow> (int \<times> byte list) option" where
  "check_whitelist_cache jhash kz fa path digest w =
     (let len = (if strlen path > PATH_LEN then PATH_LEN else strlen path)
      in if \<not> kz then None
         else let hash = cache_hash_key jhash (wc_random w) (take len path @ fa_mtime fa @ fa_size fa)
         in case wc w hash of None \<Rightarrow> Some (- EINVAL, digest)
            | Some e \<Rightarrow> if wc_flag e = 0 \<or> wc_path_len e \<noteq> len \<or> \<not> memeq (wc_path e) path len
                        then Some (- EINVAL, digest) else Some (0, take LEN_HASH (wc_digest e)))"

definition set_whitelist_cache ::
  "jhash_fun \<Rightarrow> bool \<Rightarrow> file_attr \<Rightarrow> byte list \<Rightarrow> byte list \<Rightarrow> cache_array \<Rightarrow> (int \<times> cache_array) option" where
  "set_whitelist_cache jhash kz fa path digest w =
     (let len = strlen path
      in if \<not> kz then None
         else let hash = cache_hash_key jhash (wc_random w) (take len path @ fa_mtime fa @ fa_size fa)
         in case wc w hash of None \<Rightarrow> Some (- EINVAL, w)
            | Some e \<Rightarrow>
                let e1 = (if wc_flag e \<noteq> 0 then zero_cache else e);
                    e2 = (if len < PATH_LEN
                          then e1\<lparr>wc_path := memcpy_at (wc_path e1) 0 (take len path), wc_path_len := len\<rparr>
                          else e1\<lparr>wc_path := memcpy_at (wc_path e1) 0 (take PATH_LEN path), wc_path_len := PATH_LEN\<rparr>);
                    e3 = e2\<lparr>wc_digest := memcpy_at (wc_digest e2) 0 (take LEN_HASH digest), wc_flag := 1\<rparr>
                in Some (0, w\<lparr>wc := (wc w)(hash \<mapsto> e3)\<rparr>))"

definition policy_whitelist_cache_clean :: "cache_array \<Rightarrow> cache_array" where
  "policy_whitelist_cache_clean w =
     w\<lparr>wc := (\<lambda>i. if i < MAX_CACHE_NUMBER then map_option (\<lambda>_. zero_cache) (wc w i) else wc w i)\<rparr>"

definition whitelist_cache_free :: "cache_array \<Rightarrow> cache_array" where
  "whitelist_cache_free w = w\<lparr>wc := (\<lambda>i. if i < MAX_CACHE_NUMBER then None else wc w i)\<rparr>"

text \<open>\<open>alloc i\<close>: the i-th allocation succeeds; \<open>rnd\<close>: the random seed.\<close>

definition policy_whitelist_cache_init :: "(nat \<Rightarrow> bool) \<Rightarrow> u32 \<Rightarrow> cache_array \<Rightarrow> int \<times> cache_array" where
  "policy_whitelist_cache_init alloc rnd w =
     (case find (\<lambda>i. \<not> alloc i) [0..<MAX_CACHE_NUMBER] of
        Some k \<Rightarrow> (- ENOMEM, whitelist_cache_free w)
      | None \<Rightarrow> (0, \<lparr>wc = (\<lambda>i. if i < MAX_CACHE_NUMBER then Some zero_cache else None), wc_random = rnd\<rparr>))"

definition policy_whitelist_cache_exit :: "cache_array \<Rightarrow> cache_array" where
  "policy_whitelist_cache_exit w = w\<lparr>wc := (\<lambda>i. if i < MAX_CACHE_NUMBER then None else wc w i)\<rparr>"

section \<open>Slots\<close>

lemma cache_hash_key_less: "cache_hash_key jhash random p < MAX_CACHE_NUMBER"
proof -
  have "(w AND 0x1FFF :: u32) = take_bit 13 w" for w
    by (simp add: take_bit_eq_mask mask_eq_exp_minus_1)
  then show ?thesis
    by (simp add: cache_hash_key_def MAX_CACHE_NUMBER_def take_bit_eq_mod unat_mod)
qed

definition cache_slot :: "jhash_fun \<Rightarrow> file_attr \<Rightarrow> byte list \<Rightarrow> cache_array \<Rightarrow> nat" where
  "cache_slot jhash fa path w =
     cache_hash_key jhash (wc_random w) (cstr path @ fa_mtime fa @ fa_size fa)"

definition cache_wf :: "cache_array \<Rightarrow> bool" where
  "cache_wf w \<longleftrightarrow> (\<forall>i<MAX_CACHE_NUMBER. case wc w i of None \<Rightarrow> False | Some e \<Rightarrow>
     length (wc_path e) = PATH_LEN \<and> length (wc_digest e) = LEN_HASH)"

text \<open>What the slot of a file holds, for paths that fit.\<close>

definition cached :: "jhash_fun \<Rightarrow> file_attr \<Rightarrow> byte list \<Rightarrow> cache_array \<Rightarrow> byte list option" where
  "cached jhash fa path w = (case wc w (cache_slot jhash fa path w) of None \<Rightarrow> None
     | Some e \<Rightarrow> if wc_flag e \<noteq> 0 \<and> wc_path_len e = strlen path \<and> take (strlen path) (wc_path e) = cstr path
                 then Some (wc_digest e) else None)"

lemma take_strlen [simp]: "take (strlen path) path = cstr path"
  by (metis strlen_def cstr_def takeWhile_eq_take)

lemma cache_wfD:
  assumes "cache_wf w"
  obtains e where "wc w (cache_hash_key jhash rnd p) = Some e" "length (wc_path e) = PATH_LEN"
    "length (wc_digest e) = LEN_HASH"
  using assms cache_hash_key_less [of jhash rnd p] by (fastforce simp: cache_wf_def split: option.splits)

lemma check_cache_eq:
  assumes "cache_wf w" "strlen path \<le> PATH_LEN"
  shows "check_whitelist_cache jhash True fa path digest w =
    (case cached jhash fa path w of None \<Rightarrow> Some (- EINVAL, digest) | Some d \<Rightarrow> Some (0, d))"
proof -
  obtain e where "wc w (cache_slot jhash fa path w) = Some e" "length (wc_digest e) = LEN_HASH"
    unfolding cache_slot_def by (rule cache_wfD [OF assms(1)])
  then show ?thesis
    using assms(2) by (auto simp: check_whitelist_cache_def cached_def cache_slot_def memeq_def Let_def)
qed

lemma set_cache_ok:
  assumes "cache_wf w" "strlen path < PATH_LEN" "length digest = LEN_HASH"
  obtains w' where "set_whitelist_cache jhash True fa path digest w = Some (0, w')" "cache_wf w'"
    "wc_random w' = wc_random w" "cached jhash fa path w' = Some digest"
    "\<And>fa' path'. cache_slot jhash fa' path' w \<noteq> cache_slot jhash fa path w \<Longrightarrow>
       cached jhash fa' path' w' = cached jhash fa' path' w"
    "\<And>fa' path'. cstr path' \<noteq> cstr path \<Longrightarrow>
       cached jhash fa' path' w' = None \<or> cached jhash fa' path' w' = cached jhash fa' path' w"
proof -
  let ?h = "cache_slot jhash fa path w"
  obtain e where e: "wc w ?h = Some e" "length (wc_path e) = PATH_LEN" "length (wc_digest e) = LEN_HASH"
    unfolding cache_slot_def by (rule cache_wfD [OF assms(1)])
  define e1 where "e1 = (if wc_flag e \<noteq> 0 then zero_cache else e)"
  have e1: "length (wc_path e1) = PATH_LEN" "length (wc_digest e1) = LEN_HASH"
    using e by (simp_all add: e1_def zero_cache_def)
  define e3 where "e3 = e1\<lparr>wc_path := memcpy_at (wc_path e1) 0 (cstr path), wc_path_len := strlen path,
     wc_digest := digest, wc_flag := 1\<rparr>"
  define w' where "w' = w\<lparr>wc := (wc w)(?h \<mapsto> e3)\<rparr>"
  have len: "length (wc_path e3) = PATH_LEN" "length (wc_digest e3) = LEN_HASH"
    using e1 assms(2,3) by (simp_all add: e3_def strlen_def)
  have "set_whitelist_cache jhash True fa path digest w = Some (0, w')"
    using e(1) e1 assms(2,3)
    by (simp add: set_whitelist_cache_def Let_def w'_def e3_def e1_def memcpy_at_def cache_slot_def)
  moreover have "cache_wf w'"
    using assms(1) len by (auto simp: cache_wf_def w'_def)
  moreover have "take (strlen path) (wc_path e3) = cstr path"
    by (simp add: e3_def memcpy_at_def strlen_def)
  then have "cached jhash fa path w' = Some digest"
    by (simp add: cached_def w'_def cache_slot_def e3_def)
  moreover have "cached jhash fa' path' w' = cached jhash fa' path' w"
    if "cache_slot jhash fa' path' w \<noteq> ?h" for fa' path'
    using that by (simp add: cached_def w'_def cache_slot_def)
  moreover have "cached jhash fa' path' w' = None \<or> cached jhash fa' path' w' = cached jhash fa' path' w"
    if "cstr path' \<noteq> cstr path" for fa' path'
    using that by (auto simp: cached_def w'_def cache_slot_def e3_def memcpy_at_def strlen_def)
  ultimately show ?thesis
    using that [of w'] by (simp add: w'_def)
qed

lemma clean_cache:
  "cached jhash fa path (policy_whitelist_cache_clean w) = None" "cache_wf w \<Longrightarrow> cache_wf (policy_whitelist_cache_clean w)"
proof -
  show "cached jhash fa path (policy_whitelist_cache_clean w) = None"
    using cache_hash_key_less by (simp add: cached_def policy_whitelist_cache_clean_def cache_slot_def zero_cache_def split: option.split)
  show "cache_wf w \<Longrightarrow> cache_wf (policy_whitelist_cache_clean w)"
    by (auto simp: cache_wf_def policy_whitelist_cache_clean_def zero_cache_def split: option.splits)
qed

lemma init_cache:
  assumes "policy_whitelist_cache_init alloc rnd w = (0, w')"
  shows "cache_wf w'" "cached jhash fa path w' = None"
  using assms
  by (auto simp: policy_whitelist_cache_init_def cache_wf_def cached_def zero_cache_def split: option.splits if_splits)

section \<open>What a hit means\<close>

text \<open>
  The contract of a cache whose users store results and flush it: a lookup answers what was stored
  under the same name, and nothing survives a flush. Storing may displace other entries.
\<close>

datatype ('f, 'p, 'd) cache_op = Store 'f 'p 'd | Flush

definition since_flush :: "('f, 'p, 'd) cache_op list \<Rightarrow> ('f, 'p, 'd) cache_op list" where
  "since_flush ops = rev (takeWhile (\<lambda>x. x \<noteq> Flush) (rev ops))"

locale digest_cache =
  fixes inv :: "'c \<Rightarrow> bool"
    and ok :: "'p \<Rightarrow> 'd \<Rightarrow> bool"
    and nm :: "'p \<Rightarrow> 'n"
    and lookup :: "'f \<Rightarrow> 'p \<Rightarrow> 'c \<Rightarrow> 'd option"
    and store :: "'f \<Rightarrow> 'p \<Rightarrow> 'd \<Rightarrow> 'c \<Rightarrow> 'c"
    and flush :: "'c \<Rightarrow> 'c"
  assumes store_inv: "inv c \<Longrightarrow> ok p d \<Longrightarrow> inv (store f p d c)"
    and flush_inv: "inv c \<Longrightarrow> inv (flush c)"
    and store_hit: "inv c \<Longrightarrow> ok p d \<Longrightarrow> lookup f p (store f p d c) = Some d"
    and store_only: "inv c \<Longrightarrow> ok p d \<Longrightarrow> lookup g q (store f p d c) = Some e \<Longrightarrow>
      nm q = nm p \<and> e = d \<or> lookup g q c = Some e"
    and flush_none: "lookup g q (flush c) = None"
begin

fun exec :: "('f, 'p, 'd) cache_op \<Rightarrow> 'c \<Rightarrow> 'c" where
  "exec (Store f p d) c = store f p d c"
| "exec Flush c = flush c"

fun op_ok :: "('f, 'p, 'd) cache_op \<Rightarrow> bool" where
  "op_ok (Store f p d) = ok p d"
| "op_ok Flush = True"

lemma exec_inv: "inv c \<Longrightarrow> list_all op_ok ops \<Longrightarrow> inv (fold exec ops c)"
proof (induction ops arbitrary: c)
  case (Cons x ops)
  then show ?case by (cases x) (auto simp: store_inv flush_inv)
qed simp

lemma since_flush_snoc:
  "since_flush (ops @ [x]) = (if x = Flush then [] else since_flush ops @ [x])"
  by (simp add: since_flush_def)

lemma hit_stored:
  assumes "inv c" "\<And>g q. lookup g q c = None" "list_all op_ok ops" "lookup g q (fold exec ops c) = Some e"
  shows "\<exists>f p. Store f p e \<in> set (since_flush ops) \<and> nm p = nm q"
  using assms(3,4)
proof (induction ops rule: rev_induct)
  case Nil
  then show ?case using assms(2) by simp
next
  case (snoc x ops)
  have inv: "inv (fold exec ops c)"
    using exec_inv [OF assms(1)] snoc.prems(1) by simp
  show ?case
  proof (cases x)
    case (Store f p d)
    then have "nm q = nm p \<and> e = d \<or> lookup g q (fold exec ops c) = Some e"
      using store_only [OF inv] snoc.prems by simp
    then show ?thesis
    proof
      assume "nm q = nm p \<and> e = d"
      then show ?thesis using Store by (auto simp: since_flush_snoc)
    next
      assume "lookup g q (fold exec ops c) = Some e"
      then obtain f' p' where "Store f' p' e \<in> set (since_flush ops)" "nm p' = nm q"
        using snoc by auto
      then show ?thesis using Store by (auto simp: since_flush_snoc)
    qed
  next
    case Flush
    then show ?thesis using snoc.prems(2) by (simp add: flush_none)
  qed
qed

end

definition cache_path_ok :: "byte list \<Rightarrow> byte list \<Rightarrow> bool" where
  "cache_path_ok path digest \<longleftrightarrow> strlen path < PATH_LEN \<and> length digest = LEN_HASH"

definition cache_store :: "jhash_fun \<Rightarrow> file_attr \<Rightarrow> byte list \<Rightarrow> byte list \<Rightarrow> cache_array \<Rightarrow> cache_array" where
  "cache_store jhash fa path digest w = snd (the (set_whitelist_cache jhash True fa path digest w))"

lemma cache_store_ok:
  assumes "cache_wf w" "cache_path_ok path digest"
  shows "cache_wf (cache_store jhash fa path digest w)"
    "cached jhash fa path (cache_store jhash fa path digest w) = Some digest"
    "cached jhash fa' path' (cache_store jhash fa path digest w) = Some e \<Longrightarrow>
       cstr path' = cstr path \<and> e = digest \<or> cached jhash fa' path' w = Some e"
proof -
  obtain w' where w': "set_whitelist_cache jhash True fa path digest w = Some (0, w')" "cache_wf w'"
    "wc_random w' = wc_random w" "cached jhash fa path w' = Some digest"
    "\<And>fa' path'. cache_slot jhash fa' path' w \<noteq> cache_slot jhash fa path w \<Longrightarrow>
       cached jhash fa' path' w' = cached jhash fa' path' w"
    "\<And>fa' path'. cstr path' \<noteq> cstr path \<Longrightarrow>
       cached jhash fa' path' w' = None \<or> cached jhash fa' path' w' = cached jhash fa' path' w"
    using set_cache_ok [OF assms(1), where path = path and digest = digest and jhash = jhash and fa = fa]
      assms(2) unfolding cache_path_ok_def by metis
  then show "cache_wf (cache_store jhash fa path digest w)"
    "cached jhash fa path (cache_store jhash fa path digest w) = Some digest"
    by (simp_all add: cache_store_def)
  assume e: "cached jhash fa' path' (cache_store jhash fa path digest w) = Some e"
  then have e': "cached jhash fa' path' w' = Some e"
    using w'(1) by (simp add: cache_store_def)
  show "cstr path' = cstr path \<and> e = digest \<or> cached jhash fa' path' w = Some e"
  proof (cases "cstr path' = cstr path \<and> cache_slot jhash fa' path' w = cache_slot jhash fa path w")
    case True
    then have "cache_slot jhash fa' path' w' = cache_slot jhash fa path w'" "strlen path' = strlen path"
      "cstr path' = cstr path"
      using w'(3) by (auto simp: cache_slot_def strlen_def)
    then have "cached jhash fa' path' w' = cached jhash fa path w'"
      by (simp add: cached_def split: option.split)
    then show ?thesis using e' w'(4) True by simp
  next
    case False
    then show ?thesis using e' w'(5,6) by (metis option.simps(3))
  qed
qed

interpretation wcache: digest_cache cache_wf cache_path_ok cstr "cached jhash" "cache_store jhash"
  policy_whitelist_cache_clean for jhash
proof unfold_locales
  show "cached jhash g q (cache_store jhash f p d c) = Some e \<Longrightarrow>
      cstr q = cstr p \<and> e = d \<or> cached jhash g q c = Some e"
    if "cache_wf c" "cache_path_ok p d" for c p d g q f e
    by (rule cache_store_ok(3) [OF that])
qed (simp_all add: cache_store_ok clean_cache)

fun cache_step :: "jhash_fun \<Rightarrow> (file_attr, byte list, byte list) cache_op \<Rightarrow> cache_array \<Rightarrow> cache_array" where
  "cache_step jhash (Store fa path digest) w = cache_store jhash fa path digest w"
| "cache_step jhash Flush w = policy_whitelist_cache_clean w"

fun cache_op_ok :: "(file_attr, byte list, byte list) cache_op \<Rightarrow> bool" where
  "cache_op_ok (Store fa path digest) = cache_path_ok path digest"
| "cache_op_ok Flush = True"

lemma cache_step_exec: "cache_step jhash = wcache.exec jhash"
proof (rule ext)+
  show "cache_step jhash x w = wcache.exec jhash x w" for x w
    by (cases x) (simp_all add: wcache.exec.simps)
qed

lemma cache_op_ok_eq: "cache_op_ok = wcache.op_ok"
proof (rule ext)
  show "cache_op_ok x = wcache.op_ok x" for x
    by (cases x) (simp_all add: wcache.op_ok.simps)
qed

section \<open>Properties\<close>

text \<open>After any sequence of stores and cleanings of an initialised cache, a hit returns a digest
  that was stored under the same path since the last cleaning.\<close>

theorem cache_hit_was_stored:
  assumes "policy_whitelist_cache_init alloc rnd w0 = (0, w)" "list_all cache_op_ok ops" "strlen path \<le> PATH_LEN"
    "check_whitelist_cache jhash True fa path buf (fold (cache_step jhash) ops w) = Some (0, d)"
  shows "\<exists>g p. Store g p d \<in> set (since_flush ops) \<and> cstr p = cstr path"
proof -
  note init = init_cache [OF assms(1)]
  have wf: "cache_wf (fold (cache_step jhash) ops w)"
    unfolding cache_step_exec using wcache.exec_inv [OF init(1)] assms(2) by (simp add: cache_op_ok_eq)
  then have "cached jhash fa path (fold (cache_step jhash) ops w) = Some d"
    using assms(4) check_cache_eq [OF wf assms(3)] by (simp split: option.splits)
  then show ?thesis
    using wcache.hit_stored [OF init assms(2) [unfolded cache_op_ok_eq]] unfolding cache_step_exec by metis
qed

theorem cache_hit_was_stored_witness:
  "\<exists>w d. policy_whitelist_cache_init (\<lambda>_. True) 7 \<lparr>wc = (\<lambda>_. None), wc_random = 0\<rparr> = (0, w) \<and>
     check_whitelist_cache (\<lambda>_ _. 5) True \<lparr>fa_mtime = [1], fa_size = [2]\<rparr> [47, 97, 0] (replicate 32 0)
       (fold (cache_step (\<lambda>_ _. 5)) [Store \<lparr>fa_mtime = [1], fa_size = [2]\<rparr> [47, 97, 0] (replicate 32 9)] w) = Some (0, d) \<and>
     d = replicate 32 9"
proof -
  define w where "w = \<lparr>wc = (\<lambda>i. if i < MAX_CACHE_NUMBER then Some zero_cache else None), wc_random = 7\<rparr>"
  define op where "op = Store \<lparr>fa_mtime = [1], fa_size = [2]\<rparr> [47, 97, 0 :: byte] (replicate 32 (9 :: byte))"
  have init: "policy_whitelist_cache_init (\<lambda>_. True) 7 \<lparr>wc = (\<lambda>_. None), wc_random = 0\<rparr> = (0, w)"
    by (simp add: policy_whitelist_cache_init_def w_def find_None_iff [THEN iffD2])
  have ok: "list_all cache_op_ok [op]" "strlen [47, 97, 0 :: byte] \<le> PATH_LEN"
    by (simp_all add: op_def cache_path_ok_def strlen_def cstr_def PATH_LEN_def LEN_HASH_def)
  have wf: "cache_wf w" "cache_wf (fold (cache_step (\<lambda>_ _. 5)) [op] w)"
    using init_cache(1) [OF init] cache_store_ok(1) ok(1) by (simp_all add: op_def)
  have hit: "check_whitelist_cache (\<lambda>_ _. 5) True \<lparr>fa_mtime = [1], fa_size = [2]\<rparr> [47, 97, 0] (replicate 32 0)
     (fold (cache_step (\<lambda>_ _. 5)) [op] w) = Some (0, replicate 32 9)"
    using cache_store_ok(2) [OF wf(1)] ok(1) check_cache_eq [OF wf(2) ok(2)] by (simp add: op_def)
  have "\<exists>g p. Store g p (replicate 32 9) \<in> set (since_flush [op]) \<and> cstr p = cstr [47, 97, 0]"
    by (rule cache_hit_was_stored [OF init ok hit])
  with init hit show ?thesis by (auto simp: op_def)
qed

text \<open>A stored digest is found again for the same file attributes, until the slot is overwritten;
  after a cleaning nothing is found.\<close>

theorem cache_set_then_check:
  assumes "cache_wf w" "strlen path < PATH_LEN" "length digest = LEN_HASH"
    "set_whitelist_cache jhash True fa path digest w = Some (r, w')"
  shows "r = 0 \<and> check_whitelist_cache jhash True fa path buf w' = Some (0, digest) \<and>
    check_whitelist_cache jhash True fa path buf (policy_whitelist_cache_clean w') = Some (- EINVAL, buf)"
proof -
  obtain w2 where w2: "set_whitelist_cache jhash True fa path digest w = Some (0, w2)" "cache_wf w2"
    "cached jhash fa path w2 = Some digest"
    using set_cache_ok [OF assms(1-3), where jhash = jhash and fa = fa] by metis
  have "strlen path \<le> PATH_LEN" using assms(2) by simp
  then show ?thesis
    using w2 assms(4) check_cache_eq [OF w2(2)] check_cache_eq [OF clean_cache(2) [OF w2(2)]]
    by (simp add: clean_cache(1))
qed

theorem cache_set_then_check_witness:
  "\<exists>w r w'. cache_wf w \<and> set_whitelist_cache (\<lambda>_ _. 5) True \<lparr>fa_mtime = [1], fa_size = [2]\<rparr> [47, 97, 0] (replicate 32 9) w
       = Some (r, w') \<and> check_whitelist_cache (\<lambda>_ _. 5) True \<lparr>fa_mtime = [1], fa_size = [2]\<rparr> [47, 97, 0] [] w'
       = Some (0, replicate 32 9)"
proof -
  define w where "w = \<lparr>wc = (\<lambda>i. if i < MAX_CACHE_NUMBER then Some zero_cache else None), wc_random = 7\<rparr>"
  have wf: "cache_wf w"
    by (simp add: w_def cache_wf_def zero_cache_def)
  have ok: "strlen [47, 97, 0 :: byte] < PATH_LEN" "length (replicate 32 (9 :: byte)) = LEN_HASH"
    by (simp_all add: strlen_def cstr_def PATH_LEN_def LEN_HASH_def)
  obtain w' where "set_whitelist_cache (\<lambda>_ _. 5) True \<lparr>fa_mtime = [1], fa_size = [2]\<rparr> [47, 97, 0] (replicate 32 9) w = Some (0, w')"
    using set_cache_ok [OF wf ok] by metis
  with cache_set_then_check [OF wf ok this] wf show ?thesis by auto
qed

text \<open>A hit does not mean that the file is unchanged: when two modification times fall into the same
  slot, the digest stored before a modification is returned after it.\<close>

theorem cache_stale_hit:
  "\<exists>jhash w path digest w'. cache_wf w \<and>
     set_whitelist_cache jhash True \<lparr>fa_mtime = [1], fa_size = [2]\<rparr> path digest w = Some (0, w') \<and>
     check_whitelist_cache jhash True \<lparr>fa_mtime = [3], fa_size = [4]\<rparr> path [] w' = Some (0, digest)"
proof -
  define w where "w = \<lparr>wc = (\<lambda>i. if i < MAX_CACHE_NUMBER then Some zero_cache else None), wc_random = 7\<rparr>"
  let ?j = "(\<lambda>_ _. 5) :: jhash_fun"
  have wf: "cache_wf w"
    by (simp add: w_def cache_wf_def zero_cache_def)
  have ok: "strlen [47 :: byte] < PATH_LEN" "length (replicate 32 (9 :: byte)) = LEN_HASH"
    by (simp_all add: strlen_def cstr_def PATH_LEN_def LEN_HASH_def)
  obtain w' where w': "set_whitelist_cache ?j True \<lparr>fa_mtime = [1], fa_size = [2]\<rparr> [47] (replicate 32 9) w = Some (0, w')"
    "cache_wf w'" "cached ?j \<lparr>fa_mtime = [1], fa_size = [2]\<rparr> [47] w' = Some (replicate 32 9)"
    using set_cache_ok [OF wf ok, where jhash = ?j and fa = "\<lparr>fa_mtime = [1], fa_size = [2]\<rparr>"] by metis
  have "cached ?j \<lparr>fa_mtime = [3], fa_size = [4]\<rparr> [47] w' = Some (replicate 32 9)"
    using w'(3) by (simp add: cached_def cache_slot_def cache_hash_key_def)
  then show ?thesis
    using wf w'(1) check_cache_eq [OF w'(2) less_imp_le [OF ok(1)], of ?j] by (metis option.simps(5))
qed

end
