(* ===== verification/Whitelist.thy ===== *)
theory Whitelist
  imports Whitelist_Cache
begin

text \<open>
  The program whitelist: tsb/kernel/smeasure/policy/hash_whitelist.c. A table of the digests of the
  files that may run, keyed by the digest, filled from the policy file and by ioctls, and asked by
  the execution hooks.

  Parameters: the kernel's jhash, the results of allocations, the files that filp_open returns,
  the user's buffers, and the trusted platform module behind \<open>measure_digest_by_tpcm\<close> and
  \<open>get_file_integrity_digest\<close>. A result \<open>None\<close> is a run that writes or reads outside a buffer or
  does not end.
\<close>

section \<open>State\<close>

record whitelist_feature_conf =
  is_enabled :: nat
  control_mode :: nat
  measure_mode :: nat
  cache_mode :: nat
  match_mode :: nat

record sec_domain =
  sub_name :: "byte list"
  obj_name :: "byte list"
  sub_len :: int
  obj_len :: int
  sd_result :: int
  sub_hash :: "byte list"

definition LEN_NAME_MAX :: nat where "LEN_NAME_MAX = 512"

definition zero_sec_domain :: sec_domain where
  "zero_sec_domain = \<lparr>sub_name = replicate LEN_NAME_MAX 0, obj_name = replicate LEN_NAME_MAX 0, sub_len = 0,
     obj_len = 0, sd_result = 0, sub_hash = replicate LEN_HASH 0\<rparr>"

text \<open>The name of the subject as a string: a full field runs on into the name of the object.\<close>

definition sub_string :: "sec_domain \<Rightarrow> byte list" where
  "sub_string d = cstr (sub_name d @ obj_name d)"

text \<open>
  The names are cut to 512 bytes; a longer one fills its field without a zero byte. The field of the
  object is followed by \<open>sub_len\<close> in memory: its bytes are listed after it, so that a reader of the
  string sees what the code sees.
\<close>

definition name_field :: "byte list \<Rightarrow> byte list" where
  "name_field p = memcpy_at (replicate LEN_NAME_MAX 0) 0 (take LEN_NAME_MAX (cstr p))"

record whitelist_state =
  wl_table :: digest_table
  whitelist_hash_random :: u32
  file_integrity_valid :: int
  wl_cache :: cache_array
  wl_warnings :: nat

abbreviation (input) PROCESS_MEASURE_MATCH_HASH_ONLY :: nat where "PROCESS_MEASURE_MATCH_HASH_ONLY \<equiv> 0"
abbreviation (input) DC_PASS :: int where "DC_PASS \<equiv> 0"
abbreviation (input) DC_FORBID :: int where "DC_FORBID \<equiv> 1"
abbreviation (input) DC_ERROR_PASS :: int where "DC_ERROR_PASS \<equiv> 2"
abbreviation (input) DC_EAUDIT_PASS :: int where "DC_EAUDIT_PASS \<equiv> 3"
abbreviation (input) TPCM_SUCCESS :: u32 where "TPCM_SUCCESS \<equiv> 0"
abbreviation (input) TPCM_LICENSE_INVALID :: u32 where "TPCM_LICENSE_INVALID \<equiv> 146"
abbreviation (input) TPCM_LICENSE_EXPIRED :: u32 where "TPCM_LICENSE_EXPIRED \<equiv> 147"
abbreviation (input) TPCM_ERROR_NO_SPACE :: int where "TPCM_ERROR_NO_SPACE \<equiv> 259"
abbreviation (input) TPCM_ERROR_TIMEOUT :: int where "TPCM_ERROR_TIMEOUT \<equiv> 512"
abbreviation (input) TSB_MEASURE_FAILE :: int where "TSB_MEASURE_FAILE \<equiv> 1"
abbreviation (input) TSB_ERROR_CALC_HASH :: int where "TSB_ERROR_CALC_HASH \<equiv> 2"
abbreviation (input) TSB_ERROR_SYSTEM :: int where "TSB_ERROR_SYSTEM \<equiv> 3"
abbreviation (input) TSB_ERROR_FILE :: int where "TSB_ERROR_FILE \<equiv> 100"
abbreviation (input) EXEC_CTL :: int where "EXEC_CTL \<equiv> 1"
abbreviation (input) DYN_CTL :: int where "DYN_CTL \<equiv> 2"
abbreviation (input) MODULE_CTL :: int where "MODULE_CTL \<equiv> 3"
abbreviation (input) SCRIPT_CTL :: int where "SCRIPT_CTL \<equiv> 4"

section \<open>Lookups\<close>

definition whitelist_hash_key :: "jhash_fun \<Rightarrow> u32 \<Rightarrow> byte list \<Rightarrow> byte list \<Rightarrow> nat" where
  "whitelist_hash_key jhash random hash path = string_hash_key jhash random (take LEN_HASH hash)"

definition whitelist_hash_cmp_extension ::
  "whitelist_feature_conf \<Rightarrow> whitelist_digest \<Rightarrow> byte list \<Rightarrow> byte list \<Rightarrow> int" where
  "whitelist_hash_cmp_extension feature u hash path =
     (if match_mode feature = PROCESS_MEASURE_MATCH_HASH_ONLY then strncmp (wd_digest u) hash LEN_HASH
      else if strncmp (wd_digest u) hash LEN_HASH = 0 \<and> strcmp (wd_name u) path = 0 then 0 else -1)"

definition whitelist_bucket :: "jhash_fun \<Rightarrow> whitelist_state \<Rightarrow> byte list \<Rightarrow> whitelist_digest list" where
  "whitelist_bucket jhash s hash =
     hashtable (wl_table s) (whitelist_hash_key jhash (whitelist_hash_random s) hash [])"

definition get_digest ::
  "jhash_fun \<Rightarrow> whitelist_feature_conf \<Rightarrow> whitelist_state \<Rightarrow> byte list \<Rightarrow> byte list \<Rightarrow> int" where
  "get_digest jhash feature s hash path =
     (if list_ex (\<lambda>u. whitelist_hash_cmp_extension feature u hash path = 0) (whitelist_bucket jhash s hash)
      then 0 else -1)"

definition get_digest_no_path :: "jhash_fun \<Rightarrow> whitelist_state \<Rightarrow> byte list \<Rightarrow> int" where
  "get_digest_no_path jhash s hash =
     (if list_ex (\<lambda>u. strncmp (wd_digest u) hash LEN_HASH = 0) (whitelist_bucket jhash s hash) then 0 else -1)"

definition query_hash :: "jhash_fun \<Rightarrow> whitelist_state \<Rightarrow> byte list \<Rightarrow> int" where
  "query_hash jhash s hash =
     (if list_ex (\<lambda>u. strncmp (wd_digest u) hash LEN_HASH = 0) (whitelist_bucket jhash s hash) then 0 else -1)"

definition query_hash_and_path :: "jhash_fun \<Rightarrow> whitelist_state \<Rightarrow> byte list \<Rightarrow> byte list \<Rightarrow> int" where
  "query_hash_and_path jhash s hash path =
     (if list_ex (\<lambda>u. strncmp (wd_digest u) hash LEN_HASH = 0 \<and> strcmp (wd_name u) path = 0)
           (whitelist_bucket jhash s hash) then 0 else -1)"

definition query_process_identity_lib_hash :: "jhash_fun \<Rightarrow> whitelist_state \<Rightarrow> byte list \<Rightarrow> int" where
  "query_process_identity_lib_hash = query_hash"

section \<open>Deciding on a file\<close>

definition check_module_digest ::
  "jhash_fun \<Rightarrow> digest_env \<Rightarrow> whitelist_state \<Rightarrow> byte list \<Rightarrow> byte list \<Rightarrow> int \<times> byte list" where
  "check_module_digest jhash env s buf digest =
     (let c0 = snd (sm3_init (Some (stack_ctx env)));
          c1 = snd (sm3_update c0 (Some buf));
          d = fst (snd (sm3_finish c1 digest))
      in (get_digest_no_path jhash s d, d))"

definition digest_check ::
  "jhash_fun \<Rightarrow> digest_env \<Rightarrow> whitelist_feature_conf \<Rightarrow> whitelist_state \<Rightarrow> kfile \<Rightarrow> sec_domain \<Rightarrow> int \<times> sec_domain" where
  "digest_check jhash env feature s f sec_d =
     (let (ret, file_digest) = digest_cal env f (replicate LEN_HASH 0)
      in if ret < 0 then (DC_ERROR_PASS, sec_d)
         else let sec_d' = sec_d\<lparr>sub_hash := file_digest\<rparr>
              in if get_digest jhash feature s file_digest (obj_name sec_d') < 0 then (DC_FORBID, sec_d')
                 else (DC_PASS, sec_d'))"

definition convert_intercept_type_for_tpcm :: "int \<Rightarrow> int" where
  "convert_intercept_type_for_tpcm type =
     (if type = EXEC_CTL \<or> type = SCRIPT_CTL then 1
      else if type = DYN_CTL then 2 else if type = MODULE_CTL then 3 else 0)"

text \<open>An answer of the trusted module: the call's result, the module's verdict and its digest.\<close>

record tpcm_reply =
  tr_ret :: int
  tr_res :: u32
  tr_digest :: "byte list"

text \<open>How the module's verdict is read: the upper half tells whether control is on, the lower half is
  the error code.\<close>

definition tpcm_verdict :: "u32 \<Rightarrow> int" where
  "tpcm_verdict tpcmRes =
     (if tpcmRes = TPCM_SUCCESS then DC_PASS
      else if tpcmRes AND 0xffff0000 = 0 then DC_EAUDIT_PASS
      else if tpcmRes AND 0x0000ffff = TPCM_LICENSE_INVALID \<or> tpcmRes AND 0x0000ffff = TPCM_LICENSE_EXPIRED
      then DC_EAUDIT_PASS else DC_FORBID)"

definition digest_check_tpcm_simple ::
  "(sec_domain \<Rightarrow> int \<Rightarrow> byte list \<Rightarrow> tpcm_reply) \<Rightarrow> digest_env \<Rightarrow> kfile \<Rightarrow> sec_domain \<Rightarrow> int \<Rightarrow> int \<times> sec_domain" where
  "digest_check_tpcm_simple measure_simple env f sec_d type =
     (let (ret, file_digest) = digest_cal env f (replicate LEN_HASH 0)
      in if ret < 0 then (DC_ERROR_PASS, sec_d)
         else let sec_d' = sec_d\<lparr>sub_hash := file_digest\<rparr>;
                  rep = measure_simple sec_d' (convert_intercept_type_for_tpcm type) file_digest
              in if tr_ret rep = TPCM_ERROR_TIMEOUT \<or> tr_ret rep = TPCM_ERROR_NO_SPACE then (tr_ret rep, sec_d')
                 else if tr_ret rep \<noteq> 0 then (DC_FORBID, sec_d')
                 else (tpcm_verdict (tr_res rep), sec_d'))"

text \<open>Collecting the file in blocks of sixteen pages. The block arrays have \<open>pages_sum\<close> entries;
  \<open>PageOverflow\<close> is a block stored behind them.\<close>

datatype page_result = Pages nat "byte list list" | PageFail | PageOverflow

function page_loop :: "(nat \<Rightarrow> bool) \<Rightarrow> kfile \<Rightarrow> nat \<Rightarrow> nat \<Rightarrow> byte list list \<Rightarrow> page_result" where
  "page_loop kz f pages_sum offset bs =
     (if offset < i_size f
      then if \<not> kz (length bs) then PageFail
           else if length bs \<ge> pages_sum then PageOverflow
           else (case kernel_read f offset (PAGE_SIZE * 16) of Inl e \<Rightarrow> PageFail
                 | Inr d \<Rightarrow> if d = [] then Pages offset bs
                            else page_loop kz f pages_sum (offset + length d) (bs @ [d]))
      else Pages offset bs)"
  by pat_completeness auto

termination page_loop
  by (relation "measure (\<lambda>(kz, f, n, offset, bs). i_size f - offset)") (auto intro!: diff_less_mono2)

declare page_loop.simps [simp del]

text \<open>The call is repeated while the module times out or has no space; the k-th call gets the k-th
  reply.\<close>

partial_function (option) tpcm_again :: "(nat \<Rightarrow> tpcm_reply) \<Rightarrow> nat \<Rightarrow> tpcm_reply option" where
  "tpcm_again replies k =
     (if tr_ret (replies k) = TPCM_ERROR_TIMEOUT \<or> tr_ret (replies k) = TPCM_ERROR_NO_SPACE
      then tpcm_again replies (Suc k) else Some (replies k))"

definition tpcm_pages :: "kfile \<Rightarrow> nat" where
  "tpcm_pages f = i_size f div (PAGE_SIZE * 16) + (if i_size f mod (PAGE_SIZE * 16) \<noteq> 0 then 1 else 0)"

definition digest_check_tpcm ::
  "(sec_domain \<Rightarrow> int \<Rightarrow> byte list list \<Rightarrow> nat \<Rightarrow> tpcm_reply) \<Rightarrow> (sec_domain \<Rightarrow> int \<Rightarrow> byte list \<Rightarrow> tpcm_reply)
    \<Rightarrow> digest_env \<Rightarrow> bool \<times> bool \<Rightarrow> (nat \<Rightarrow> bool) \<Rightarrow> kfile \<Rightarrow> sec_domain \<Rightarrow> int \<Rightarrow> (int \<times> sec_domain) option" where
  "digest_check_tpcm measure_tpcm measure_simple env arrays kz f sec_d type0 =
     (let type = convert_intercept_type_for_tpcm type0;
          pages_sum = tpcm_pages f
      in if \<not> fst arrays \<or> \<not> snd arrays then Some (DC_ERROR_PASS, sec_d)
         else (case page_loop kz f pages_sum 0 [] of PageOverflow \<Rightarrow> None
           | PageFail \<Rightarrow> Some (DC_ERROR_PASS, sec_d)
           | Pages offset bs \<Rightarrow>
               if offset \<noteq> i_size f then Some (DC_ERROR_PASS, sec_d)
               else (case tpcm_again (measure_tpcm sec_d type (bs @ replicate (pages_sum - length bs) [])) 0 of
                   None \<Rightarrow> None
                 | Some rep \<Rightarrow>
                     if tr_ret rep = 516 then Some (digest_check_tpcm_simple measure_simple env f sec_d type)
                     else if tr_ret rep \<noteq> 0 then Some (DC_FORBID, sec_d)
                     else Some (tpcm_verdict (tr_res rep), sec_d\<lparr>sub_hash := tr_digest rep\<rparr>))))"

section \<open>Changing the table\<close>

definition whitelist_del :: "jhash_fun \<Rightarrow> byte list \<Rightarrow> byte list \<Rightarrow> whitelist_state \<Rightarrow> int \<times> whitelist_state" where
  "whitelist_del jhash path hash s =
     (let (r, t) = tab_del (whitelist_hash_key jhash (whitelist_hash_random s)) path hash (wl_table s)
      in (r, s\<lparr>wl_table := t\<rparr>))"

text \<open>\<open>kz u\<close>: kzalloc succeeds for the entry \<open>u\<close>.\<close>

definition whitelist_add ::
  "jhash_fun \<Rightarrow> (whitelist_digest \<Rightarrow> bool) \<Rightarrow> byte list \<Rightarrow> byte list \<Rightarrow> whitelist_state \<Rightarrow> int \<times> whitelist_state" where
  "whitelist_add jhash kz path hash s =
     (let key = whitelist_hash_key jhash (whitelist_hash_random s)
      in if bucket_has (hashtable (wl_table s) (key hash path)) hash path then (- EEXIST, s)
         else if \<not> kz (new_digest path hash) then (- ENOMEM, s)
         else (0, s\<lparr>wl_table := tab_link key path hash (wl_table s)\<rparr>))"

text \<open>The user's argument: the announced length and the bytes, each \<open>None\<close> if copy_from_user fails.
  A negative length is a huge size for vmalloc, which fails.\<close>

record general_policy =
  gp_length :: int
  gp_data :: "byte list option"

definition whitelist_add_del_policy ::
  "jhash_fun \<Rightarrow> (whitelist_digest \<Rightarrow> bool) \<Rightarrow> bool \<Rightarrow> int \<Rightarrow> general_policy option \<Rightarrow> whitelist_state
    \<Rightarrow> (int \<times> whitelist_state) option" where
  "whitelist_add_del_policy jhash kz valloc operate param s = (case param of None \<Rightarrow> Some (-1, s)
     | Some gp \<Rightarrow>
         if gp_length gp = 0 then Some (-1, s)
         else if \<not> valloc \<or> gp_length gp < 0 then Some (-1, s)
         else (case gp_data gp of None \<Rightarrow> Some (-1, s)
           | Some data \<Rightarrow>
               map_option (\<lambda>(rest, s'). (0, s'))
                 (item_loop (\<lambda>path digest s.
                    if operate = 1 then snd (whitelist_add jhash kz path digest s)
                    else snd (whitelist_del jhash path digest s)) (take (nat (gp_length gp)) data) s)))"

definition ioctl_whitelist_del_policy ::
  "jhash_fun \<Rightarrow> bool \<Rightarrow> general_policy option \<Rightarrow> whitelist_state \<Rightarrow> (int \<times> whitelist_state) option" where
  "ioctl_whitelist_del_policy jhash valloc param s =
     map_option (\<lambda>(r, s'). (0, s'))
       (whitelist_add_del_policy jhash (\<lambda>_. True) valloc 2 param
          (s\<lparr>wl_cache := policy_whitelist_cache_clean (wl_cache s)\<rparr>))"

definition ioctl_whitelist_add_policy ::
  "jhash_fun \<Rightarrow> (whitelist_digest \<Rightarrow> bool) \<Rightarrow> bool \<Rightarrow> general_policy option \<Rightarrow> whitelist_state \<Rightarrow> (int \<times> whitelist_state) option" where
  "ioctl_whitelist_add_policy jhash kz valloc param s =
     map_option (\<lambda>(r, s'). (0, s')) (whitelist_add_del_policy jhash kz valloc 1 param s)"

definition whitelist_init :: "bool \<Rightarrow> u32 \<Rightarrow> whitelist_state \<Rightarrow> int \<times> whitelist_state" where
  "whitelist_init valloc rnd s =
     (if \<not> valloc then (- ENOMEM, s) else (0, s\<lparr>wl_table := tab_init, whitelist_hash_random := rnd\<rparr>))"

definition whitelist_exit :: "whitelist_state \<Rightarrow> whitelist_state option" where
  "whitelist_exit s =
     map_option (\<lambda>b. s\<lparr>wl_table := \<lparr>hashtable = b, obj_count = 0\<rparr>\<rparr>)
       (flush_buckets (hashtable (wl_table s)) (obj_count (wl_table s)))"

section \<open>The policy file\<close>

text \<open>\<open>tpcm\<close> is the answer of \<open>get_file_integrity_digest\<close>: result, digest and its length; \<open>f\<close> the
  opened policy file; \<open>file_hash\<close> what the stack buffer holds.\<close>

definition file_integrity_check ::
  "digest_env \<Rightarrow> int \<times> byte list \<times> nat \<Rightarrow> kfile option \<Rightarrow> byte list \<Rightarrow> int" where
  "file_integrity_check env tpcm f file_hash =
     (case tpcm of (ret, tpcm_hash, hash_len) \<Rightarrow>
        if ret = 123456 then 0
        else if ret \<noteq> 0 \<or> hash_len \<noteq> LEN_HASH then 1
        else (case f of None \<Rightarrow> 1
          | Some g \<Rightarrow>
              let (r, h) = digest_cal env g file_hash
              in if r \<noteq> 0 then -1 else if \<not> memeq h tpcm_hash LEN_HASH then -1 else r))"

definition whitelist_tmp_add ::
  "jhash_fun \<Rightarrow> u32 \<Rightarrow> (whitelist_digest \<Rightarrow> bool) \<Rightarrow> byte list \<Rightarrow> byte list \<Rightarrow> digest_table \<Rightarrow> int \<times> digest_table" where
  "whitelist_tmp_add jhash rnd = tab_tmp_add (whitelist_hash_key jhash rnd)"

definition whitelist_tmp_clean :: "buckets \<Rightarrow> int \<Rightarrow> buckets option" where
  "whitelist_tmp_clean = flush_buckets"

text \<open>The end of a reload: the new table is swapped in and the old one freed, with the number of its
  objects that was read before the policy file.\<close>

definition whitelist_swap :: "digest_table \<Rightarrow> int \<Rightarrow> whitelist_state \<Rightarrow> whitelist_state option" where
  "whitelist_swap t num_tmp s =
     map_option (\<lambda>_. s\<lparr>wl_table := t\<rparr>) (whitelist_tmp_clean (hashtable (wl_table s)) num_tmp)"

text \<open>The policy file is opened twice: \<open>f1\<close> is checked, \<open>f2\<close> is loaded.\<close>

definition load_whitelist ::
  "jhash_fun \<Rightarrow> (whitelist_digest \<Rightarrow> bool) \<Rightarrow> digest_env \<Rightarrow> bool \<times> bool \<Rightarrow> int \<times> byte list \<times> nat \<Rightarrow> byte list
    \<Rightarrow> kfile option \<Rightarrow> kfile option \<Rightarrow> whitelist_state \<Rightarrow> (int \<times> whitelist_state) option" where
  "load_whitelist jhash kz env vallocs tpcm file_hash f1 f2 s =
     (let ret = file_integrity_check env tpcm f1 file_hash
      in if ret = 1 then Some (-1, s)
         else if ret \<noteq> 0 then Some (ret, s\<lparr>file_integrity_valid := 0, wl_warnings := wl_warnings s + 1\<rparr>)
         else (case f2 of None \<Rightarrow> Some (ret, s)
           | Some f \<Rightarrow>
               if \<not> fst vallocs \<or> \<not> snd vallocs then Some (- ENOMEM, s)
               else (case load_loop f (\<lambda>path digest t.
                         snd (whitelist_tmp_add jhash (whitelist_hash_random s) kz path digest t)) 0 [] tab_init of
                       None \<Rightarrow> None
                     | Some (offset, rest, t) \<Rightarrow>
                         map_option (\<lambda>s'. (0, s')) (whitelist_swap t (obj_count (wl_table s)) s))))"

definition ioctl_whitelist_reload_policy ::
  "jhash_fun \<Rightarrow> (whitelist_digest \<Rightarrow> bool) \<Rightarrow> digest_env \<Rightarrow> bool \<times> bool \<Rightarrow> int \<times> byte list \<times> nat \<Rightarrow> byte list
    \<Rightarrow> kfile option \<Rightarrow> kfile option \<Rightarrow> whitelist_state \<Rightarrow> (int \<times> whitelist_state) option" where
  "ioctl_whitelist_reload_policy jhash kz env vallocs tpcm file_hash f1 f2 s =
     map_option (\<lambda>(r, s'). (0, s'))
       (load_whitelist jhash kz env vallocs tpcm file_hash f1 f2
          (s\<lparr>wl_cache := policy_whitelist_cache_clean (wl_cache s)\<rparr>))"

section \<open>The measurement interface\<close>

definition tsb_measure_file_filp :: "jhash_fun \<Rightarrow> digest_env \<Rightarrow> whitelist_state \<Rightarrow> kfile \<Rightarrow> int" where
  "tsb_measure_file_filp jhash env s f =
     (let (ret, d) = digest_cal env f (replicate LEN_HASH 0)
      in if ret < 0 then TSB_ERROR_CALC_HASH
         else if query_hash jhash s d \<noteq> 0 then TSB_MEASURE_FAILE else 0)"

definition tsb_measure_file :: "jhash_fun \<Rightarrow> digest_env \<Rightarrow> whitelist_state \<Rightarrow> kfile option \<Rightarrow> int" where
  "tsb_measure_file jhash env s f = (case f of None \<Rightarrow> TSB_ERROR_FILE | Some g \<Rightarrow> tsb_measure_file_filp jhash env s g)"

definition tsb_measure_file_specific_path_filp ::
  "jhash_fun \<Rightarrow> digest_env \<Rightarrow> whitelist_state \<Rightarrow> byte list \<Rightarrow> kfile \<Rightarrow> int" where
  "tsb_measure_file_specific_path_filp jhash env s path f =
     (let (ret, d) = digest_cal env f (replicate LEN_HASH 0)
      in if ret < 0 then TSB_ERROR_CALC_HASH
         else if query_hash_and_path jhash s d path \<noteq> 0 then TSB_MEASURE_FAILE else 0)"

definition tsb_measure_file_path :: "jhash_fun \<Rightarrow> digest_env \<Rightarrow> whitelist_state \<Rightarrow> byte list \<Rightarrow> kfile option \<Rightarrow> int" where
  "tsb_measure_file_path jhash env s path f = (case f of None \<Rightarrow> TSB_ERROR_FILE
     | Some g \<Rightarrow>
         let (ret, d) = digest_cal env g (replicate LEN_HASH 0)
         in if ret < 0 then TSB_ERROR_CALC_HASH
            else if query_hash_and_path jhash s d path \<noteq> 0 then TSB_MEASURE_FAILE else 0)"

text \<open>\<open>d_path\<close>: the path of the file, \<open>None\<close> if it cannot be built.\<close>

definition tsb_measure_file_path_filp ::
  "jhash_fun \<Rightarrow> bool \<Rightarrow> digest_env \<Rightarrow> whitelist_state \<Rightarrow> byte list option \<Rightarrow> kfile \<Rightarrow> int" where
  "tsb_measure_file_path_filp jhash kz env s d_path f =
     (if \<not> kz then TSB_ERROR_SYSTEM
      else case d_path of None \<Rightarrow> TSB_ERROR_SYSTEM
        | Some path \<Rightarrow>
            let (ret, d) = digest_cal env f (replicate LEN_HASH 0)
            in if ret < 0 then TSB_ERROR_CALC_HASH
               else if query_hash_and_path jhash s d path \<noteq> 0 then TSB_MEASURE_FAILE else 0)"

definition tsb_match_file_integrity :: "jhash_fun \<Rightarrow> whitelist_state \<Rightarrow> byte list \<Rightarrow> int" where
  "tsb_match_file_integrity jhash s hash = (if query_hash jhash s hash \<noteq> 0 then TSB_MEASURE_FAILE else 0)"

definition tsb_match_file_integrity_by_path :: "jhash_fun \<Rightarrow> whitelist_state \<Rightarrow> byte list \<Rightarrow> byte list \<Rightarrow> int" where
  "tsb_match_file_integrity_by_path jhash s hash path =
     (if query_hash_and_path jhash s hash path \<noteq> 0 then TSB_MEASURE_FAILE else 0)"

text \<open>The user interface: \<open>ui_data\<close> are the user's bytes, \<open>None\<close> if they cannot be copied; \<open>files\<close>
  opens a path. The source bounds none of the lengths; a path that does not fit its buffer with a
  terminator, or a length that leaves a buffer, gives \<open>None\<close>.\<close>

record user_parameter =
  ui_type :: int
  ui_length :: int
  ui_data :: "byte list option"

definition le32_int :: "byte list \<Rightarrow> int" where
  "le32_int b = (let n = int (unat (b ! 0) + 2 ^ 8 * unat (b ! 1) + 2 ^ 16 * unat (b ! 2) + 2 ^ 24 * unat (b ! 3))
     in if n \<ge> 2 ^ 31 then n - 2 ^ 32 else n)"

definition user_path :: "int \<Rightarrow> byte list \<Rightarrow> byte list option" where
  "user_path len data =
     (if len < 0 \<or> len > 512 \<or> int (length data) < len then None
      else let buf = memcpy_at (replicate 512 0) 0 (take (nat len) data)
           in if 0 \<in> set buf then Some (cstr buf) else None)"

definition match_file_path ::
  "jhash_fun \<Rightarrow> whitelist_state \<Rightarrow> byte list \<Rightarrow> int option" where
  "match_file_path jhash s p =
     (if length p < 4 then None
      else let hash_len = le32_int p
      in if hash_len < 0 \<or> hash_len > 32 \<or> int (length p) < 8 + hash_len then None
         else let hash = memcpy_at (replicate 32 0) 0 (take (nat hash_len) (drop 4 p));
                  q = drop (4 + nat hash_len) p;
                  path_len = le32_int q
              in map_option (tsb_match_file_integrity_by_path jhash s hash) (user_path path_len (drop 4 q)))"

definition ioctl_whitelist_user_interface ::
  "jhash_fun \<Rightarrow> bool \<Rightarrow> digest_env \<Rightarrow> (byte list \<Rightarrow> kfile option) \<Rightarrow> whitelist_state \<Rightarrow> user_parameter option \<Rightarrow> int option" where
  "ioctl_whitelist_user_interface jhash valloc env files s param = (case param of None \<Rightarrow> Some (-1)
     | Some u \<Rightarrow>
         if ui_type u = 1 then
           (case ui_data u of None \<Rightarrow> Some TSB_ERROR_SYSTEM
            | Some data \<Rightarrow> map_option (\<lambda>path. tsb_measure_file jhash env s (files path)) (user_path (ui_length u) data))
         else if ui_type u = 2 then
           (case ui_data u of None \<Rightarrow> Some TSB_ERROR_SYSTEM
            | Some data \<Rightarrow> map_option (\<lambda>path. tsb_measure_file_path jhash env s path (files path)) (user_path (ui_length u) data))
         else if ui_type u = 3 then
           (case ui_data u of None \<Rightarrow> Some TSB_ERROR_SYSTEM
            | Some data \<Rightarrow> Some (tsb_match_file_integrity jhash s (take LEN_HASH data)))
         else if ui_type u = 4 then
           (if \<not> valloc \<or> ui_length u < 0 then Some TSB_ERROR_SYSTEM
            else case ui_data u of None \<Rightarrow> Some TSB_ERROR_SYSTEM
              | Some data \<Rightarrow> match_file_path jhash s (take (nat (ui_length u)) data))
         else Some TSB_MEASURE_FAILE)"

section \<open>The table as a set\<close>

interpretation wl: keyed_table "whitelist_hash_key jhash rnd" for jhash rnd
  by unfold_locales (simp_all add: whitelist_hash_key_def string_hash_key_less)

definition wl_inv :: "jhash_fun \<Rightarrow> whitelist_state \<Rightarrow> bool" where
  "wl_inv jhash s \<longleftrightarrow> tab_wf (whitelist_hash_key jhash (whitelist_hash_random s)) (wl_table s) \<and> cache_wf (wl_cache s)"

definition wl_entries :: "whitelist_state \<Rightarrow> (byte list \<times> byte list) set" where
  "wl_entries s = tab_entries (hashtable (wl_table s))"

lemma cstr_name_field:
  assumes "strlen p < LEN_NAME_MAX"
  shows "cstr (name_field p @ r) = cstr p"
proof -
  have len: "length (cstr p) < LEN_NAME_MAX" using assms by (simp add: strlen_def)
  then obtain k where "LEN_NAME_MAX - length (cstr p) = Suc k" by (metis Suc_diff_Suc)
  then have "name_field p @ r = cstr p @ 0 # (replicate k 0 @ r)"
    using len by (simp add: name_field_def memcpy_at_def)
  then show ?thesis by (simp add: cstr_append_nul)
qed

lemma whitelist_key_path: "whitelist_hash_key jhash rnd hash path = whitelist_hash_key jhash rnd hash []"
  by (simp add: whitelist_hash_key_def)

lemma wl_entry_length: "wl_inv jhash s \<Longrightarrow> (h, p) \<in> wl_entries s \<Longrightarrow> length h = LEN_HASH \<and> no_nul p"
  by (auto simp: wl_inv_def wl_entries_def tab_entries_def tab_wf_def entry_wf_def)

lemma query_hash_iff:
  assumes "wl_inv jhash s" "length hash = LEN_HASH" "no_nul hash"
  shows "query_hash jhash s hash = 0 \<longleftrightarrow> (\<exists>p. (hash, p) \<in> wl_entries s)"
proof -
  let ?key = "whitelist_hash_key jhash (whitelist_hash_random s)"
  let ?b = "hashtable (wl_table s) (?key hash [])"
  have wf: "tab_wf ?key (wl_table s)" using assms(1) by (simp add: wl_inv_def)
  have "list_ex (\<lambda>u. strncmp (wd_digest u) hash LEN_HASH = 0) ?b
      \<longleftrightarrow> (\<exists>p. no_nul p \<and> bucket_has (hashtable (wl_table s) (?key hash p)) hash p)" (is "?l = ?r")
  proof
    assume ?l
    then obtain u where u: "u \<in> set ?b" "strncmp (wd_digest u) hash LEN_HASH = 0"
      by (auto simp: list_ex_iff)
    then have "no_nul (wd_name u)"
      using wf by (auto simp: tab_wf_def entry_wf_def)
    moreover have "hash_cmp u hash (wd_name u) = 0"
      using u(2) by (simp add: hash_cmp_def strcmp_eq_0_iff)
    ultimately show ?r
      using u(1) by (auto simp: bucket_has_def list_ex_iff whitelist_key_path [of _ _ _ "wd_name u"] intro!: exI [of _ "wd_name u"])
  next
    assume ?r
    then obtain p where "bucket_has (hashtable (wl_table s) (?key hash p)) hash p" by blast
    then show ?l
      by (auto simp: bucket_has_def hash_cmp_def list_ex_iff whitelist_key_path [of _ _ _ p] split: if_splits)
  qed
  also have "\<dots> \<longleftrightarrow> (\<exists>p. (hash, p) \<in> wl_entries s)"
    using wl.bucket_has_exact [OF wf assms(2,3)] wl_entry_length [OF assms(1)]
    unfolding wl_entries_def by (metis cstr_no_nul)
  finally show ?thesis
    by (simp add: query_hash_def whitelist_bucket_def)
qed

lemma query_hash_and_path_has:
  "query_hash_and_path jhash s hash path = 0 \<longleftrightarrow>
     bucket_has (hashtable (wl_table s) (whitelist_hash_key jhash (whitelist_hash_random s) hash path)) hash path"
  by (simp add: query_hash_and_path_def whitelist_bucket_def bucket_has_def hash_cmp_def whitelist_key_path [of _ _ _ path])

lemma query_hash_and_path_iff:
  assumes "wl_inv jhash s" "length hash = LEN_HASH" "no_nul hash"
  shows "query_hash_and_path jhash s hash path = 0 \<longleftrightarrow> (hash, cstr path) \<in> wl_entries s"
  using wl.bucket_has_exact [OF _ assms(2,3)] assms(1)
  by (simp add: query_hash_and_path_has wl_inv_def wl_entries_def)

lemma get_digest_eq:
  "get_digest jhash feature s hash path =
     (if match_mode feature = PROCESS_MEASURE_MATCH_HASH_ONLY then query_hash jhash s hash
      else query_hash_and_path jhash s hash path)"
  by (simp add: get_digest_def query_hash_def query_hash_and_path_def whitelist_hash_cmp_extension_def)

lemma get_digest_no_path_eq: "get_digest_no_path = query_hash"
  by (simp add: get_digest_no_path_def query_hash_def fun_eq_iff)

text \<open>The comparison of digests in the code: equal up to a zero byte, and in the same bucket.\<close>

definition digest_like :: "jhash_fun \<Rightarrow> whitelist_state \<Rightarrow> byte list \<Rightarrow> byte list \<Rightarrow> bool" where
  "digest_like jhash s h hash \<longleftrightarrow> cstr h = cstr hash \<and>
     whitelist_hash_key jhash (whitelist_hash_random s) h [] = whitelist_hash_key jhash (whitelist_hash_random s) hash []"

text \<open>What is asked for is on the list: in the mode that matches the digest alone, or with the path.\<close>

definition listed :: "jhash_fun \<Rightarrow> whitelist_feature_conf \<Rightarrow> whitelist_state \<Rightarrow> byte list \<Rightarrow> byte list \<Rightarrow> bool" where
  "listed jhash feature s hash path \<longleftrightarrow>
     (\<exists>(h, p) \<in> wl_entries s. digest_like jhash s h hash \<and>
       (match_mode feature = PROCESS_MEASURE_MATCH_HASH_ONLY \<or> p = cstr path))"

lemma bucket_member_iff:
  assumes "wl_inv jhash s" "length hash = LEN_HASH"
  shows "(\<exists>u\<in>set (whitelist_bucket jhash s hash). strncmp (wd_digest u) hash LEN_HASH = 0 \<and> P (wd_name u)) \<longleftrightarrow>
    (\<exists>(h, p) \<in> wl_entries s. digest_like jhash s h hash \<and> P p)" (is "?l = ?r")
proof -
  let ?key = "whitelist_hash_key jhash (whitelist_hash_random s)"
  have wf: "length (wd_digest u) = LEN_HASH" "?key (wd_digest u) [] = i"
    if "u \<in> set (hashtable (wl_table s) i)" for u i
  proof -
    have "length (wd_digest u) = LEN_HASH \<and> ?key (wd_digest u) (wd_name u) = i"
      using assms(1) that by (simp add: wl_inv_def tab_wf_def entry_wf_def)
    then show "length (wd_digest u) = LEN_HASH" "?key (wd_digest u) [] = i"
      by (auto simp: whitelist_hash_key_def)
  qed
  have cmp: "strncmp (wd_digest u) hash LEN_HASH = 0 \<longleftrightarrow> cstr (wd_digest u) = cstr hash"
    if "u \<in> set (hashtable (wl_table s) i)" for u i
    using wf(1) [OF that] assms(2) by (simp add: strncmp_eq_0_iff take_cstr_le)
  show ?thesis
  proof
    assume ?l
    then obtain u where "u \<in> set (hashtable (wl_table s) (?key hash []))" "strncmp (wd_digest u) hash LEN_HASH = 0" "P (wd_name u)"
      by (auto simp: whitelist_bucket_def)
    then show ?r
      using wf(2) cmp by (auto simp: wl_entries_def tab_entries_def digest_like_def intro!: bexI [of _ "(wd_digest u, wd_name u)"])
  next
    assume ?r
    then obtain u i where u: "u \<in> set (hashtable (wl_table s) i)" "digest_like jhash s (wd_digest u) hash" "P (wd_name u)"
      by (auto simp: wl_entries_def tab_entries_def)
    then have "i = ?key hash []" using wf(2) [OF u(1)] by (simp add: digest_like_def)
    then show ?l
      using u cmp [OF u(1)] by (auto simp: whitelist_bucket_def digest_like_def)
  qed
qed

lemma get_digest_iff:
  assumes "wl_inv jhash s" "length hash = LEN_HASH"
  shows "get_digest jhash feature s hash path = (if listed jhash feature s hash path then 0 else -1)"
proof -
  have nn: "cstr (wd_name u) = wd_name u" if "u \<in> set (whitelist_bucket jhash s hash)" for u
    using assms(1) that by (auto simp: wl_inv_def tab_wf_def entry_wf_def whitelist_bucket_def cstr_no_nul)
  have "list_ex (\<lambda>u. whitelist_hash_cmp_extension feature u hash path = 0) (whitelist_bucket jhash s hash) \<longleftrightarrow>
    (\<exists>u\<in>set (whitelist_bucket jhash s hash). strncmp (wd_digest u) hash LEN_HASH = 0 \<and>
      (match_mode feature = PROCESS_MEASURE_MATCH_HASH_ONLY \<or> wd_name u = cstr path))"
    using nn by (auto simp: list_ex_iff whitelist_hash_cmp_extension_def strcmp_eq_0_iff)
  then show ?thesis
    using bucket_member_iff [OF assms, where P = "\<lambda>p. match_mode feature = PROCESS_MEASURE_MATCH_HASH_ONLY \<or> p = cstr path"]
    by (simp add: get_digest_def listed_def)
qed

lemma digest_like_exact:
  assumes "wl_inv jhash s" "(h, p) \<in> wl_entries s" "length hash = LEN_HASH" "no_nul hash"
  shows "digest_like jhash s h hash \<longleftrightarrow> h = hash"
  using assms wl_entry_length [OF assms(1,2)] cstr_full [of h] by (auto simp: digest_like_def cstr_no_nul)

lemma listed_exact:
  assumes "wl_inv jhash s" "length hash = LEN_HASH" "no_nul hash"
  shows "listed jhash feature s hash path \<longleftrightarrow> (\<exists>p. (hash, p) \<in> wl_entries s \<and>
    (match_mode feature = PROCESS_MEASURE_MATCH_HASH_ONLY \<or> p = cstr path))"
  using digest_like_exact [OF assms(1) _ assms(2,3)] by (fastforce simp: listed_def)

section \<open>Adding and removing\<close>

lemma whitelist_add_cases:
  assumes "wl_inv jhash s" "length hash = LEN_HASH"
  obtains (exists) "query_hash_and_path jhash s hash path = 0" "whitelist_add jhash kz path hash s = (- EEXIST, s)"
  | (nomem) "query_hash_and_path jhash s hash path \<noteq> 0" "\<not> kz (new_digest path hash)"
      "whitelist_add jhash kz path hash s = (- ENOMEM, s)"
  | (added) s' where "query_hash_and_path jhash s hash path \<noteq> 0" "kz (new_digest path hash)"
      "whitelist_add jhash kz path hash s = (0, s')" "wl_inv jhash s'"
      "wl_entries s' = insert (hash, cstr path) (wl_entries s)"
      "whitelist_hash_random s' = whitelist_hash_random s" "wl_cache s' = wl_cache s"
proof -
  let ?key = "whitelist_hash_key jhash (whitelist_hash_random s)"
  have wf: "tab_wf ?key (wl_table s)" "cache_wf (wl_cache s)" using assms(1) by (simp_all add: wl_inv_def)
  show ?thesis
  proof (cases "bucket_has (hashtable (wl_table s) (?key hash path)) hash path")
    case True
    then show ?thesis
      using exists by (simp add: whitelist_add_def Let_def query_hash_and_path_has)
  next
    case False
    show ?thesis
    proof (cases "kz (new_digest path hash)")
      case True
      then show ?thesis
        using added [of "s\<lparr>wl_table := tab_link ?key path hash (wl_table s)\<rparr>"] False wf
          wl.link_wf [OF wf(1) assms(2) False]
        by (simp add: whitelist_add_def Let_def query_hash_and_path_has wl_inv_def wl_entries_def)
    next
      case nk: False
      then show ?thesis
        using nomem False by (simp add: whitelist_add_def Let_def query_hash_and_path_has)
    qed
  qed
qed

lemma whitelist_del_cases:
  assumes "wl_inv jhash s" "length hash = LEN_HASH"
  obtains (absent) "query_hash_and_path jhash s hash path \<noteq> 0" "whitelist_del jhash path hash s = (- EINVAL, s)"
  | (deleted) s' h where "query_hash_and_path jhash s hash path = 0" "whitelist_del jhash path hash s = (0, s')"
      "wl_inv jhash s'" "cstr h = cstr hash" "(h, cstr path) \<in> wl_entries s"
      "wl_entries s' = wl_entries s - {(h, cstr path)}"
      "whitelist_hash_random s' = whitelist_hash_random s" "wl_cache s' = wl_cache s"
proof -
  let ?key = "whitelist_hash_key jhash (whitelist_hash_random s)"
  have wf: "tab_wf ?key (wl_table s)" "cache_wf (wl_cache s)" using assms(1) by (simp_all add: wl_inv_def)
  from wf(1) assms(2) show ?thesis
  proof (cases rule: wl.del_cases [where path = path])
    case absent
    then show ?thesis
      using that(1) by (simp add: whitelist_del_def query_hash_and_path_has)
  next
    case (present t' h)
    then show ?thesis
      using that(2) [of "s\<lparr>wl_table := t'\<rparr>" h] wf
      by (simp add: whitelist_del_def query_hash_and_path_has wl_inv_def wl_entries_def)
  qed
qed

lemma digest_eq_no_nul: "cstr h = cstr hash \<Longrightarrow> no_nul hash \<Longrightarrow> length h = length hash \<Longrightarrow> h = hash"
  using cstr_full [of h] by (simp add: cstr_no_nul)

section \<open>Policies\<close>

lemma string_act_add: "string_act (\<lambda>path digest s. snd (whitelist_add jhash kz path digest s))"
  by (simp add: string_act_def whitelist_add_def Let_def fun_eq_iff whitelist_hash_key_def tab_link_def)

lemma string_act_tmp_add: "string_act (\<lambda>path digest t. snd (whitelist_tmp_add jhash rnd kz path digest t))"
  by (simp add: string_act_def whitelist_tmp_add_def tab_tmp_add_def Let_def fun_eq_iff whitelist_hash_key_def tab_link_def)

lemma string_act_del: "string_act (\<lambda>path digest s. snd (whitelist_del jhash path digest s))"
  by (simp add: string_act_def whitelist_del_def tab_del_def Let_def fun_eq_iff whitelist_hash_key_def hash_cmp_def strcmp_eq_0_iff)

lemma whitelist_add_preserves:
  assumes "wl_inv jhash s" "length hash = LEN_HASH"
  shows "wl_inv jhash (snd (whitelist_add jhash kz path hash s))"
    "wl_entries (snd (whitelist_add jhash kz path hash s)) \<subseteq> insert (hash, cstr path) (wl_entries s)"
    "wl_entries s \<subseteq> wl_entries (snd (whitelist_add jhash kz path hash s))"
    "whitelist_hash_random (snd (whitelist_add jhash kz path hash s)) = whitelist_hash_random s"
    "no_nul hash \<Longrightarrow> kz (new_digest path hash) \<Longrightarrow> (hash, cstr path) \<in> wl_entries (snd (whitelist_add jhash kz path hash s))"
  by (use assms in \<open>cases rule: whitelist_add_cases [where kz = kz and path = path]\<close>,
      auto simp: assms query_hash_and_path_iff)+

lemma whitelist_del_preserves:
  assumes "wl_inv jhash s" "length hash = LEN_HASH"
  shows "wl_inv jhash (snd (whitelist_del jhash path hash s))"
    "whitelist_hash_random (snd (whitelist_del jhash path hash s)) = whitelist_hash_random s"
    "wl_entries (snd (whitelist_del jhash path hash s)) \<subseteq> wl_entries s"
  by (use assms in \<open>cases rule: whitelist_del_cases [where path = path]\<close>, auto simp: assms)+

lemma whitelist_add_fold:
  assumes "wl_inv jhash s" "list_all item_valid xs" "\<forall>x\<in>set xs. no_nul (pi_hash x)"
    "s' = fold (\<lambda>x s. snd (whitelist_add jhash (\<lambda>_. True) (pi_path x) (pi_hash x) s)) xs s"
  shows "wl_inv jhash s' \<and> wl_entries s' = wl_entries s \<union> item_pairs xs"
  using assms
proof (induction xs arbitrary: s)
  case Nil
  then show ?case by (simp add: item_pairs_def)
next
  case (Cons x xs)
  have x: "length (pi_hash x) = LEN_HASH" "cstr (pi_path x) = pi_path x"
    using Cons.prems(2) by (simp_all add: item_valid_def cstr_no_nul)
  let ?s = "snd (whitelist_add jhash (\<lambda>_. True) (pi_path x) (pi_hash x) s)"
  note p = whitelist_add_preserves [OF Cons.prems(1) x(1), where kz = "\<lambda>_. True" and path = "pi_path x"]
  have e: "wl_entries ?s = insert (pi_hash x, pi_path x) (wl_entries s)"
    using p x Cons.prems(3) by auto
  have "wl_inv jhash s' \<and> wl_entries s' = wl_entries ?s \<union> item_pairs xs"
    using Cons.prems p(1) by (intro Cons.IH) simp_all
  with e show ?case by (auto simp: item_pairs_def)
qed

lemma whitelist_swap_ok:
  assumes "wl_inv jhash s"
  shows "whitelist_swap t (obj_count (wl_table s)) s = Some (s\<lparr>wl_table := t\<rparr>)"
  using wl.flush_wf [of jhash "whitelist_hash_random s" "wl_table s"] assms
  by (simp add: whitelist_swap_def whitelist_tmp_clean_def wl_inv_def)

section \<open>The trusted module's measurement\<close>

lemma page_loop_ok:
  assumes reads: "kfile_reads f c" and size: "i_size f = length c"
    and "concat bs = take off c" "off \<le> length c"
    "page_loop kz f n off bs = Pages off' bs'" "off' = i_size f"
  shows "concat bs' = c"
  using assms(3-5)
proof (induction "length c - off" arbitrary: off bs rule: less_induct)
  case less
  show ?case
  proof (cases "off < i_size f")
    case False
    then show ?thesis
      using less.prems size assms(6) by (simp add: page_loop.simps)
  next
    case lt: True
    have kz: "kz (length bs)" "\<not> n \<le> length bs"
      using less.prems(3) lt by (auto simp: page_loop.simps [of kz f n off] split: if_splits)
    then obtain d where d: "kernel_read f off (PAGE_SIZE * 16) = Inr d"
      using less.prems(3) lt by (cases "kernel_read f off (PAGE_SIZE * 16)") (auto simp: page_loop.simps [of kz f n off])
    have ne: "d \<noteq> []"
      using less.prems(3) lt kz d assms(6) by (auto simp: page_loop.simps [of kz f n off])
    have le: "off + length d \<le> length c"
      by (rule kfile_reads_bound [OF reads d less.prems(2)])
    have "concat (bs @ [d]) = take (off + length d) c"
      using less.prems(1) kfile_readsD(2) [OF reads d] by (simp add: take_add)
    then show ?thesis
      using less.prems(3) lt kz d ne le size
      by (intro less.hyps [of "off + length d" "bs @ [d]"])
        (auto simp: page_loop.simps [of kz f n off] intro!: diff_less_mono2)
  qed
qed

lemma tpcm_again_result:
  "tpcm_again replies k = Some r \<Longrightarrow>
     tr_ret r \<noteq> TPCM_ERROR_TIMEOUT \<and> tr_ret r \<noteq> TPCM_ERROR_NO_SPACE \<and> (\<exists>j\<ge>k. r = replies j)"
proof (rule tpcm_again.raw_induct [where P = "\<lambda>replies k r. tr_ret r \<noteq> TPCM_ERROR_TIMEOUT \<and>
      tr_ret r \<noteq> TPCM_ERROR_NO_SPACE \<and> (\<exists>j\<ge>k. r = replies j)"])
  fix again replies k r
  assume IH: "\<And>replies k r. again replies k = Some r \<Longrightarrow> tr_ret r \<noteq> TPCM_ERROR_TIMEOUT \<and>
      tr_ret r \<noteq> TPCM_ERROR_NO_SPACE \<and> (\<exists>j\<ge>k. r = replies j)"
    and eq: "(if tr_ret (replies k) = TPCM_ERROR_TIMEOUT \<or> tr_ret (replies k) = TPCM_ERROR_NO_SPACE
      then again replies (Suc k) else Some (replies k)) = Some r"
  show "tr_ret r \<noteq> TPCM_ERROR_TIMEOUT \<and> tr_ret r \<noteq> TPCM_ERROR_NO_SPACE \<and> (\<exists>j\<ge>k. r = replies j)"
  proof (cases "tr_ret (replies k) = TPCM_ERROR_TIMEOUT \<or> tr_ret (replies k) = TPCM_ERROR_NO_SPACE")
    case True
    then show ?thesis using IH [of replies "Suc k" r] eq by (auto intro: Suc_leD)
  qed (use eq in auto)
qed

lemma tpcm_again_ends:
  assumes "tr_ret (replies (k + n)) \<noteq> TPCM_ERROR_TIMEOUT" "tr_ret (replies (k + n)) \<noteq> TPCM_ERROR_NO_SPACE"
  shows "\<exists>r. tpcm_again replies k = Some r"
  using assms
proof (induction n arbitrary: k)
  case 0
  then show ?case by (simp add: tpcm_again.simps [of replies k])
next
  case (Suc n)
  then have "\<exists>r. tpcm_again replies (Suc k) = Some r" by simp
  then show ?case by (simp add: tpcm_again.simps [of replies k])
qed

section \<open>Every reachable whitelist\<close>

text \<open>The calls that change the whitelist or its cache, in any order and with any arguments; a call
  that does not return a state is no step.\<close>

inductive whitelist_step :: "jhash_fun \<Rightarrow> whitelist_state \<Rightarrow> whitelist_state \<Rightarrow> bool" for jhash where
  step_add: "length hash = LEN_HASH \<Longrightarrow> whitelist_add jhash kz path hash s = (r, s') \<Longrightarrow> whitelist_step jhash s s'"
| step_del: "length hash = LEN_HASH \<Longrightarrow> whitelist_del jhash path hash s = (r, s') \<Longrightarrow> whitelist_step jhash s s'"
| step_add_policy: "ioctl_whitelist_add_policy jhash kz valloc param s = Some (r, s') \<Longrightarrow> whitelist_step jhash s s'"
| step_del_policy: "ioctl_whitelist_del_policy jhash valloc param s = Some (r, s') \<Longrightarrow> whitelist_step jhash s s'"
| step_reload: "ioctl_whitelist_reload_policy jhash kz env vallocs tpcm file_hash f1 f2 s = Some (r, s') \<Longrightarrow> whitelist_step jhash s s'"
| step_cache: "strlen path < PATH_LEN \<Longrightarrow> length digest = LEN_HASH \<Longrightarrow>
    set_whitelist_cache jhash True fa path digest (wl_cache s) = Some (r, w) \<Longrightarrow> whitelist_step jhash s (s\<lparr>wl_cache := w\<rparr>)"

inductive whitelist_reachable :: "jhash_fun \<Rightarrow> whitelist_state \<Rightarrow> bool" for jhash where
  reach_init: "policy_whitelist_cache_init alloc rnd w0 = (0, wl_cache s) \<Longrightarrow>
    whitelist_init True rnd' s = (0, s') \<Longrightarrow> whitelist_reachable jhash s'"
| reach_step: "whitelist_reachable jhash s \<Longrightarrow> whitelist_step jhash s s' \<Longrightarrow> whitelist_reachable jhash s'"

lemma add_del_policy_keeps:
  assumes add: "\<And>path h u. I u \<Longrightarrow> length h = LEN_HASH \<Longrightarrow> I (snd (whitelist_add jhash kz path h u))"
    and del: "\<And>path h u. I u \<Longrightarrow> length h = LEN_HASH \<Longrightarrow> I (snd (whitelist_del jhash path h u))"
    and "I s" "whitelist_add_del_policy jhash kz valloc operate param s = Some (r, s')"
  shows "I s'"
proof (cases "\<exists>gp data. param = Some gp \<and> gp_length gp > 0 \<and> valloc \<and> gp_data gp = Some data")
  case False
  then show ?thesis
    using assms(3,4) by (auto simp: whitelist_add_del_policy_def split: option.splits if_splits)
next
  case True
  then obtain gp data where gp: "param = Some gp" "gp_length gp > 0" "valloc" "gp_data gp = Some data" by blast
  define act where "act = (\<lambda>path digest s. if operate = 1 then snd (whitelist_add jhash kz path digest s)
    else snd (whitelist_del jhash path digest s))"
  obtain rest where "item_loop act (take (nat (gp_length gp)) data) s = Some (rest, s')"
    using assms(4) gp by (auto simp: whitelist_add_del_policy_def act_def)
  moreover have "I (act path h u)" if "I u" "length h = LEN_HASH" for path h u
    using add [OF that] del [OF that] by (simp add: act_def)
  ultimately show ?thesis
    using item_loop_inv [where I = I] assms(3) by blast
qed

lemma add_del_policy_inv:
  assumes "wl_inv jhash s" "whitelist_add_del_policy jhash kz valloc operate param s = Some (r, s')"
  shows "wl_inv jhash s'"
  by (rule add_del_policy_keeps [where I = "wl_inv jhash", OF whitelist_add_preserves(1) whitelist_del_preserves(1) assms])

lemma add_del_policy_flag:
  assumes "whitelist_add_del_policy jhash kz valloc operate param s = Some (r, s')"
  shows "file_integrity_valid s' = file_integrity_valid s"
proof (rule add_del_policy_keeps [where I = "\<lambda>u. file_integrity_valid u = file_integrity_valid s", OF _ _ refl assms])
  show "file_integrity_valid (snd (whitelist_add jhash kz path h u)) = file_integrity_valid s"
    "file_integrity_valid (snd (whitelist_del jhash path h u)) = file_integrity_valid s"
    if "file_integrity_valid u = file_integrity_valid s" for path h u
    using that by (simp_all add: whitelist_add_def whitelist_del_def Let_def split: prod.split)
qed

lemma load_cases:
  assumes "load_whitelist jhash kz env vallocs tpcm file_hash f1 f2 s = Some (r, s')"
  obtains (kept) "s' = s"
  | (tampered) "s' = s\<lparr>file_integrity_valid := 0, wl_warnings := wl_warnings s + 1\<rparr>"
  | (loaded) f off rest t where "f2 = Some f" "r = 0" "s' = s\<lparr>wl_table := t\<rparr>"
      "load_loop f (\<lambda>path digest t. snd (whitelist_tmp_add jhash (whitelist_hash_random s) kz path digest t)) 0 [] tab_init
         = Some (off, rest, t)"
proof -
  define ret where "ret = file_integrity_check env tpcm f1 file_hash"
  consider "ret = 1" | "ret \<noteq> 1" "ret \<noteq> 0" | "ret = 0" "f2 = None" | f where "ret = 0" "f2 = Some f"
    by (cases f2) auto
  then show thesis
  proof cases
    case (4 f)
    show thesis
    proof (cases "fst vallocs \<and> snd vallocs")
      case False
      then show thesis
        using assms 4 kept by (simp add: load_whitelist_def flip: ret_def)
    next
      case True
      then show thesis
        using assms 4 loaded
        by (auto simp: load_whitelist_def whitelist_swap_def simp flip: ret_def split: option.splits)
    qed
  qed (use assms kept tampered in \<open>simp_all add: load_whitelist_def flip: ret_def\<close>)
qed

lemma load_inv:
  assumes "wl_inv jhash s" "load_whitelist jhash kz env vallocs tpcm file_hash f1 f2 s = Some (r, s')"
  shows "wl_inv jhash s'"
  using assms(2)
proof (cases rule: load_cases)
  case (loaded f off rest t)
  let ?key = "whitelist_hash_key jhash (whitelist_hash_random s)"
  have "tab_wf ?key (snd (whitelist_tmp_add jhash (whitelist_hash_random s) kz path h u))"
    if "tab_wf ?key u" "length h = LEN_HASH" for path h u
    using that wl.link_wf(1) [OF that] by (auto simp: whitelist_tmp_add_def tab_tmp_add_def)
  then have "tab_wf ?key t"
    using load_loop_inv [where I = "tab_wf ?key", OF _ wl.init_wf loaded(4)] by blast
  then show ?thesis
    using assms(1) loaded(3) by (simp add: wl_inv_def)
qed (use assms(1) in \<open>simp_all add: wl_inv_def\<close>)

lemma load_flag:
  assumes "load_whitelist jhash kz env vallocs tpcm file_hash f1 f2 s = Some (r, s')"
  shows "file_integrity_valid s' = file_integrity_valid s \<or> file_integrity_valid s' = 0"
  using assms by (cases rule: load_cases) simp_all

lemma whitelist_step_inv: "whitelist_step jhash s s' \<Longrightarrow> wl_inv jhash s \<Longrightarrow> wl_inv jhash s'"
proof (induction rule: whitelist_step.induct)
  case (step_add hash kz path s r s')
  then show ?case using whitelist_add_preserves(1) by (metis snd_conv)
next
  case (step_del hash path s r s')
  then show ?case using whitelist_del_preserves(1) by (metis snd_conv)
next
  case (step_add_policy kz valloc param s r s')
  then show ?case
    using add_del_policy_inv by (auto simp: ioctl_whitelist_add_policy_def)
next
  case (step_del_policy valloc param s r s')
  have "wl_inv jhash (s\<lparr>wl_cache := policy_whitelist_cache_clean (wl_cache s)\<rparr>)"
    using step_del_policy.prems clean_cache(2) by (simp add: wl_inv_def)
  then show ?case
    using step_del_policy.hyps add_del_policy_inv by (auto simp: ioctl_whitelist_del_policy_def)
next
  case (step_reload kz env vallocs tpcm file_hash f1 f2 s r s')
  have "wl_inv jhash (s\<lparr>wl_cache := policy_whitelist_cache_clean (wl_cache s)\<rparr>)"
    using step_reload.prems clean_cache(2) by (simp add: wl_inv_def)
  moreover obtain r' where "load_whitelist jhash kz env vallocs tpcm file_hash f1 f2
      (s\<lparr>wl_cache := policy_whitelist_cache_clean (wl_cache s)\<rparr>) = Some (r', s')"
    using step_reload.hyps by (auto simp: ioctl_whitelist_reload_policy_def)
  ultimately show ?case
    using load_inv by blast
next
  case (step_cache path digest fa s r w)
  then have "cache_wf (wl_cache s)" by (simp add: wl_inv_def)
  then have "cache_wf w"
    using cache_store_ok(1) [of "wl_cache s" path digest jhash fa] step_cache.hyps
    by (simp add: cache_path_ok_def cache_store_def)
  then show ?case using step_cache.prems by (simp add: wl_inv_def)
qed

lemma reachable_wl_inv: "whitelist_reachable jhash s \<Longrightarrow> wl_inv jhash s"
proof (induction rule: whitelist_reachable.induct)
  case (reach_init alloc rnd w0 s rnd' s')
  then show ?case
    using wl.init_wf init_cache(1) by (auto simp: whitelist_init_def wl_inv_def)
next
  case (reach_step s s')
  then show ?case using whitelist_step_inv by blast
qed

section \<open>Properties\<close>

definition wl_empty :: whitelist_state where
  "wl_empty = \<lparr>wl_table = tab_init, whitelist_hash_random = 0, file_integrity_valid = 1,
     wl_cache = \<lparr>wc = (\<lambda>i. if i < MAX_CACHE_NUMBER then Some zero_cache else None), wc_random = 7\<rparr>, wl_warnings = 0\<rparr>"

definition wl_feature :: "nat \<Rightarrow> whitelist_feature_conf" where
  "wl_feature m = \<lparr>is_enabled = 1, control_mode = 1, measure_mode = 0, cache_mode = 1, match_mode = m\<rparr>"

definition stack_env :: digest_env where
  "stack_env = \<lparr>stack_ctx = \<lparr>total_bytes_High = 1, total_bytes_Low = 2, vector = [], buffer = replicate 64 7\<rparr>, kzalloc = True\<rparr>"

lemma wl_empty_ok: "wl_inv jhash wl_empty" "wl_entries wl_empty = {}"
  using wl.init_wf [of jhash 0]
  by (simp_all add: wl_empty_def wl_inv_def cache_wf_def zero_cache_def wl_entries_def tab_init_def tab_entries_def)

lemma wl_empty_query: "query_hash_and_path jhash wl_empty hash path = -1"
  by (simp add: query_hash_and_path_def whitelist_bucket_def wl_empty_def tab_init_def)

lemma stack_env_ok: "env_ok stack_env"
  by (simp add: stack_env_def env_ok_def)

text \<open>C3. The decision on a file: when the file can be read, its digest is the SM3 hash of its contents
  and is stored in the security domain, and the file passes exactly when that digest is on the
  list, with its path if the match mode asks for it; otherwise it is forbidden. For a digest
  without a zero byte being on the list means that this very digest was listed.\<close>

theorem digest_check_decides:
  assumes "wl_inv jhash s" "env_ok env" "kfile_reads f c" "kfile_progress f" "i_size f = length c"
  shows "digest_check jhash env feature s f sec_d =
      (if listed jhash feature s (gb_sm3 c) (obj_name sec_d) then DC_PASS else DC_FORBID, sec_d\<lparr>sub_hash := gb_sm3 c\<rparr>) \<and>
    (no_nul (gb_sm3 c) \<longrightarrow> (listed jhash feature s (gb_sm3 c) (obj_name sec_d) \<longleftrightarrow>
      (\<exists>p. (gb_sm3 c, p) \<in> wl_entries s \<and> (match_mode feature = PROCESS_MEASURE_MATCH_HASH_ONLY \<or> p = cstr (obj_name sec_d)))))"
proof -
  have len: "length (gb_sm3 c) = LEN_HASH" by (simp add: length_gb_sm3 LEN_HASH_def)
  have "digest_cal env f (replicate LEN_HASH 0) = (0, gb_sm3 c)"
    using assms(2-5) by (intro digest_cal_sm3) (simp_all add: LEN_HASH_def)
  then show ?thesis
    using get_digest_iff [OF assms(1) len] listed_exact [OF assms(1) len] by (simp add: digest_check_def Let_def)
qed

theorem digest_check_decides_witness:
  "digest_check (\<lambda>_ _. 5) stack_env (wl_feature 1)
     (snd (whitelist_add (\<lambda>_ _. 5) (\<lambda>_. True) [47, 97] (gb_sm3 [1, 2, 3]) wl_empty)) (short_file 2 [1, 2, 3])
     \<lparr>sub_name = [], obj_name = [47, 97, 0], sub_len = 0, obj_len = 2, sd_result = 0, sub_hash = []\<rparr>
   = (DC_PASS, \<lparr>sub_name = [], obj_name = [47, 97, 0], sub_len = 0, obj_len = 2, sd_result = 0, sub_hash = gb_sm3 [1, 2, 3]\<rparr>)"
proof -
  let ?j = "(\<lambda>_ _. 5) :: jhash_fun"
  let ?s = "snd (whitelist_add ?j (\<lambda>_. True) [47, 97] (gb_sm3 [1, 2, 3]) wl_empty)"
  have len: "length (gb_sm3 [1, 2, 3]) = LEN_HASH" by (simp add: length_gb_sm3 LEN_HASH_def)
  have inv: "wl_inv ?j ?s" by (rule whitelist_add_preserves(1) [OF wl_empty_ok(1) len])
  have "(gb_sm3 [1, 2, 3], [47, 97]) \<in> wl_entries ?s"
    by (rule whitelist_add_cases [OF wl_empty_ok(1) len, where kz = "\<lambda>_. True" and path = "[47, 97]" and jhash = ?j])
      (auto simp: cstr_def wl_empty_query wl_empty_ok(2))
  then have "listed ?j (wl_feature 1) ?s (gb_sm3 [1, 2, 3]) [47, 97, 0]"
    by (auto simp: listed_def digest_like_def wl_feature_def cstr_def intro!: bexI [of _ "(gb_sm3 [1, 2, 3], [47, 97])"])
  then show ?thesis
    using digest_check_decides [OF inv stack_env_ok short_file_reads short_file_progress, of 2 "[1, 2, 3]"]
    by (simp add: short_file_def)
qed

text \<open>Adding to the whitelist is insertion into a set of pairs of digest and path: a pair already on
  the list is refused, a failed allocation changes nothing, otherwise exactly the pair is added; the
  invariant is kept.\<close>

theorem whitelist_add_refines:
  assumes "wl_inv jhash s" "length hash = LEN_HASH" "no_nul hash"
  shows "\<exists>r s'. whitelist_add jhash kz path hash s = (r, s') \<and> wl_inv jhash s' \<and>
    (if (hash, cstr path) \<in> wl_entries s then r = - EEXIST \<and> s' = s
     else if \<not> kz (new_digest path hash) then r = - ENOMEM \<and> s' = s
     else r = 0 \<and> wl_entries s' = insert (hash, cstr path) (wl_entries s))"
  using assms(1,2)
  by (cases rule: whitelist_add_cases [where kz = kz and path = path])
    (use assms in \<open>auto simp: query_hash_and_path_iff\<close>)

theorem whitelist_add_refines_witness:
  "\<exists>s'. whitelist_add (\<lambda>_ _. 5) (\<lambda>_. True) [47, 97, 0] (replicate 32 9) wl_empty = (0, s') \<and>
     wl_entries s' = {(replicate 32 9, [47, 97])}"
proof -
  have h: "length (replicate 32 (9 :: byte)) = LEN_HASH" "no_nul (replicate 32 (9 :: byte))"
    by (simp_all add: LEN_HASH_def no_nul_def)
  from whitelist_add_refines [OF wl_empty_ok(1) h, of "\<lambda>_ _. 5" "\<lambda>_. True" "[47, 97, 0]"] show ?thesis
    by (auto simp: wl_empty_ok(2) cstr_def)
qed

text \<open>Removing from the whitelist is deletion of the pair, with an error when it is not there; what
  was added is gone afterwards and every other pair stays.\<close>

theorem whitelist_del_refines:
  assumes "wl_inv jhash s" "length hash = LEN_HASH" "no_nul hash"
  shows "\<exists>r s'. whitelist_del jhash path hash s = (r, s') \<and> wl_inv jhash s' \<and>
    wl_entries s' = wl_entries s - {(hash, cstr path)} \<and>
    r = (if (hash, cstr path) \<in> wl_entries s then 0 else - EINVAL)"
  using assms(1,2)
proof (cases rule: whitelist_del_cases [where path = path])
  case absent
  then show ?thesis using assms by (simp add: query_hash_and_path_iff)
next
  case (deleted s' h)
  have "h = hash"
    by (rule digest_eq_no_nul [OF deleted(4) assms(3)])
      (use wl_entry_length [OF assms(1) deleted(5)] assms(2) in simp)
  then show ?thesis
    using deleted by (intro exI [of _ 0] exI [of _ s']) simp
qed

theorem whitelist_del_refines_witness:
  "\<exists>s1 s2. whitelist_add (\<lambda>_ _. 5) (\<lambda>_. True) [47, 97, 0] (replicate 32 9) wl_empty = (0, s1) \<and>
     whitelist_del (\<lambda>_ _. 5) [47, 97] (replicate 32 9) s1 = (0, s2) \<and> wl_entries s2 = {}"
proof -
  let ?j = "(\<lambda>_ _. 5) :: jhash_fun"
  have h: "length (replicate 32 (9 :: byte)) = LEN_HASH" "no_nul (replicate 32 (9 :: byte))"
    by (simp_all add: LEN_HASH_def no_nul_def)
  obtain s1 where s1: "whitelist_add ?j (\<lambda>_. True) [47, 97, 0] (replicate 32 9) wl_empty = (0, s1)"
    "wl_inv ?j s1" "wl_entries s1 = {(replicate 32 9, [47, 97])}"
    by (rule whitelist_add_cases [OF wl_empty_ok(1) h(1), where kz = "\<lambda>_. True" and path = "[47, 97, 0]" and jhash = ?j])
      (auto simp: wl_empty_ok(2) wl_empty_query cstr_def)
  from whitelist_del_refines [OF s1(2) h, of "[47, 97]"] s1 show ?thesis by (auto simp: cstr_def)
qed

text \<open>C19. Loading the policy file: for a file that encodes a list of items and whose digest is the one
  the trusted module holds, the load succeeds however the reads are cut, every item with a digest
  is found afterwards, and nothing else is on the list.\<close>

theorem load_whitelist_roundtrip:
  assumes "wl_inv jhash s" "env_ok env" "kfile_reads f (encode_items xs)" "kfile_progress f"
    "i_size f = length (encode_items xs)" "list_all item_valid xs"
    "list_all (\<lambda>x. length (encode_item x) \<le> 1024) xs" "length file_hash = LEN_HASH"
  shows "\<exists>s'. load_whitelist jhash (\<lambda>_. True) env (True, True) (0, gb_sm3 (encode_items xs), LEN_HASH) file_hash
      (Some f) (Some f) s = Some (0, s') \<and> wl_inv jhash s' \<and>
    wl_entries s' \<subseteq> item_pairs (live_items xs) \<and>
    (\<forall>x\<in>set (live_items xs). query_hash_and_path jhash s' (pi_hash x) (pi_path x) = 0)"
proof -
  let ?rnd = "whitelist_hash_random s"
  define t where "t = fold (\<lambda>x t. snd (whitelist_tmp_add jhash ?rnd (\<lambda>_. True) (pi_path x) (pi_hash x) t)) (live_items xs) tab_init"
  have "digest_cal env f file_hash = (0, gb_sm3 (encode_items xs))"
    using assms by (intro digest_cal_sm3) (simp_all add: LEN_HASH_def)
  then have chk: "file_integrity_check env (0, gb_sm3 (encode_items xs), LEN_HASH) (Some f) file_hash = 0"
    by (simp add: file_integrity_check_def memeq_def)
  have "load_loop f (\<lambda>path digest t. snd (whitelist_tmp_add jhash ?rnd (\<lambda>_. True) path digest t)) 0 [] tab_init
      = Some (length (encode_items xs), [], t)"
    using load_loop_encoded [where hdr = "[]", simplified, OF assms(3-7) string_act_tmp_add] by (simp add: t_def)
  then have "load_whitelist jhash (\<lambda>_. True) env (True, True) (0, gb_sm3 (encode_items xs), LEN_HASH) file_hash
      (Some f) (Some f) s = Some (0, s\<lparr>wl_table := t\<rparr>)"
    using whitelist_swap_ok [OF assms(1)] by (simp add: load_whitelist_def chk)
  moreover note tab = wl.load_items [OF assms(6) t_def [unfolded whitelist_tmp_add_def]]
  ultimately show ?thesis
    using assms(1) by (auto simp: wl_inv_def wl_entries_def query_hash_and_path_has)
qed

text \<open>The policy file of one entry.\<close>

definition one_item :: policy_item where
  "one_item = \<lparr>pi_flags = 0, pi_extend = [], pi_hash = replicate 32 9, pi_path = [47, 97]\<rparr>"

lemma one_item_ok: "list_all item_valid [one_item]" "list_all (\<lambda>x. length (encode_item x) \<le> 1024) [one_item]"
  "live_items [one_item] = [one_item]"
  by (simp_all add: one_item_def item_valid_def no_nul_def LEN_HASH_def encode_item_def BYTE4_ALIGNMENT_def live_items_def)

theorem load_whitelist_roundtrip_witness:
  "\<exists>s'. load_whitelist (\<lambda>_ _. 5) (\<lambda>_. True) stack_env (True, True) (0, gb_sm3 (encode_items [one_item]), LEN_HASH)
      (replicate 32 0) (Some (short_file 10 (encode_items [one_item]))) (Some (short_file 10 (encode_items [one_item]))) wl_empty
      = Some (0, s') \<and> query_hash_and_path (\<lambda>_ _. 5) s' (replicate 32 9) [47, 97] = 0"
proof -
  let ?f = "short_file 10 (encode_items [one_item])"
  have f: "kfile_progress ?f" "i_size ?f = length (encode_items [one_item])" "length (replicate 32 (0 :: byte)) = LEN_HASH"
    by (simp add: short_file_progress, simp_all add: short_file_def LEN_HASH_def)
  from load_whitelist_roundtrip [OF wl_empty_ok(1) stack_env_ok short_file_reads f(1,2) one_item_ok(1,2) f(3), of "\<lambda>_ _. 5"]
  show ?thesis by (auto simp: one_item_ok) (simp add: one_item_def)
qed

text \<open>A policy sent by an ioctl: adding a buffer of items adds exactly their pairs, the ones with an
  all-zero digest excepted.\<close>

theorem whitelist_add_policy_items:
  assumes "wl_inv jhash s" "list_all item_valid xs" "\<forall>x\<in>set (live_items xs). no_nul (pi_hash x)" "xs \<noteq> []"
  shows "\<exists>s'. ioctl_whitelist_add_policy jhash (\<lambda>_. True) True
      (Some \<lparr>gp_length = int (length (encode_items xs)), gp_data = Some (encode_items xs)\<rparr>) s = Some (0, s') \<and>
    wl_inv jhash s' \<and> wl_entries s' = wl_entries s \<union> item_pairs (live_items xs)"
proof -
  define s' where "s' = fold (\<lambda>x s. snd (whitelist_add jhash (\<lambda>_. True) (pi_path x) (pi_hash x) s)) (live_items xs) s"
  have "encode_items xs \<noteq> []"
    using assms(2,4) encode_item_len by (cases xs) (fastforce simp: encode_items_def)+
  then have "ioctl_whitelist_add_policy jhash (\<lambda>_. True) True
      (Some \<lparr>gp_length = int (length (encode_items xs)), gp_data = Some (encode_items xs)\<rparr>) s = Some (0, s')"
    using item_loop_encode [OF assms(2) string_act_add, where s = s]
    by (simp add: ioctl_whitelist_add_policy_def whitelist_add_del_policy_def s'_def)
  moreover have "list_all item_valid (live_items xs)"
    using live_items_valid [OF assms(2)] by (simp add: list_all_iff)
  then have "wl_inv jhash s' \<and> wl_entries s' = wl_entries s \<union> item_pairs (live_items xs)"
    using whitelist_add_fold [OF assms(1) _ assms(3) s'_def] by blast
  ultimately show ?thesis by blast
qed

theorem whitelist_add_policy_items_witness:
  "\<exists>s'. ioctl_whitelist_add_policy (\<lambda>_ _. 5) (\<lambda>_. True) True
      (Some \<lparr>gp_length = int (length (encode_items [one_item])), gp_data = Some (encode_items [one_item])\<rparr>) wl_empty = Some (0, s') \<and>
    wl_entries s' = {(replicate 32 9, [47, 97])}"
proof -
  have "\<forall>x\<in>set (live_items [one_item]). no_nul (pi_hash x)"
    by (simp add: one_item_ok) (simp add: one_item_def no_nul_def)
  from whitelist_add_policy_items [OF wl_empty_ok(1) one_item_ok(1) this, of "\<lambda>_ _. 5"] show ?thesis
    by (auto simp: wl_empty_ok(2) one_item_ok item_pairs_def) (simp_all add: one_item_def)
qed



text \<open>A pass from the trusted module is never made up: when a file passes (also when it passes with
  an audit record), the module answered a call without error and with that verdict, either for the
  blocks of the whole file or for the digest computed here.\<close>

theorem digest_check_tpcm_sound:
  assumes "kfile_reads f c" "i_size f = length c"
    "digest_check_tpcm M MS env arrays kz f sec_d type = Some (r, sec_d')" "r = DC_PASS \<or> r = DC_EAUDIT_PASS"
  shows "(\<exists>bs k n. concat bs = c \<and> tr_ret (M sec_d (convert_intercept_type_for_tpcm type) (bs @ replicate n []) k) = 0 \<and>
      tpcm_verdict (tr_res (M sec_d (convert_intercept_type_for_tpcm type) (bs @ replicate n []) k)) = r) \<or>
    (\<exists>d t. snd (digest_cal env f (replicate LEN_HASH 0)) = d \<and> tr_ret (MS (sec_d\<lparr>sub_hash := d\<rparr>) t d) = 0 \<and>
      tpcm_verdict (tr_res (MS (sec_d\<lparr>sub_hash := d\<rparr>) t d)) = r)"
proof -
  define n where "n = tpcm_pages f"
  obtain off bs where pg: "page_loop kz f n 0 [] = Pages off bs" "off = i_size f"
    using assms(3,4) by (auto simp: digest_check_tpcm_def Let_def n_def split: page_result.splits if_splits)
  let ?M = "M sec_d (convert_intercept_type_for_tpcm type) (bs @ replicate (n - length bs) [])"
  have arr: "fst arrays" "snd arrays"
    using assms(3,4) by (auto simp: digest_check_tpcm_def Let_def split: if_splits)
  obtain rep where rep: "tpcm_again ?M 0 = Some rep"
    using assms(3) pg arr by (auto simp: digest_check_tpcm_def Let_def simp flip: n_def split: option.splits)
  have c: "concat bs = c"
    using page_loop_ok [OF assms(1,2) _ _ pg(1,2)] by simp
  have res: "(if tr_ret rep = 516 then Some (digest_check_tpcm_simple MS env f sec_d (convert_intercept_type_for_tpcm type))
      else if tr_ret rep \<noteq> 0 then Some (DC_FORBID, sec_d)
      else Some (tpcm_verdict (tr_res rep), sec_d\<lparr>sub_hash := tr_digest rep\<rparr>)) = Some (r, sec_d')"
    using assms(3) pg arr rep by (simp add: digest_check_tpcm_def Let_def flip: n_def)
  show ?thesis
  proof (cases "tr_ret rep = 516")
    case True
    then have "digest_check_tpcm_simple MS env f sec_d (convert_intercept_type_for_tpcm type) = (r, sec_d')"
      using res by simp
    then have "\<exists>d t. snd (digest_cal env f (replicate LEN_HASH 0)) = d \<and> tr_ret (MS (sec_d\<lparr>sub_hash := d\<rparr>) t d) = 0 \<and>
        tpcm_verdict (tr_res (MS (sec_d\<lparr>sub_hash := d\<rparr>) t d)) = r"
      using assms(4) by (auto simp: digest_check_tpcm_simple_def Let_def split: prod.splits if_splits)
    then show ?thesis by blast
  next
    case False
    then have "tr_ret rep = 0" "tpcm_verdict (tr_res rep) = r"
      using res assms(4) by (auto split: if_splits)
    moreover obtain k where "rep = ?M k"
      using tpcm_again_result [OF rep] by blast
    ultimately show ?thesis using c by blast
  qed
qed

theorem digest_check_tpcm_sound_witness:
  "\<exists>r sd. digest_check_tpcm (\<lambda>_ _ _ k. \<lparr>tr_ret = (if k = 0 then 512 else 0), tr_res = 0, tr_digest = []\<rparr>)
      (\<lambda>_ _ _. \<lparr>tr_ret = 1, tr_res = 0, tr_digest = []\<rparr>) stack_env (True, True) (\<lambda>_. True) (short_file 2 [])
      \<lparr>sub_name = [], obj_name = [], sub_len = 0, obj_len = 0, sd_result = 0, sub_hash = []\<rparr> EXEC_CTL = Some (r, sd) \<and> r = DC_PASS \<and>
    tpcm_verdict 0 = r"
proof -
  let ?M = "(\<lambda>_ _ _ k. \<lparr>tr_ret = (if k = 0 then 512 else 0), tr_res = 0, tr_digest = []\<rparr>)
     :: sec_domain \<Rightarrow> int \<Rightarrow> byte list list \<Rightarrow> nat \<Rightarrow> tpcm_reply"
  let ?MS = "(\<lambda>_ _ _. \<lparr>tr_ret = 1, tr_res = 0, tr_digest = []\<rparr>) :: sec_domain \<Rightarrow> int \<Rightarrow> byte list \<Rightarrow> tpcm_reply"
  let ?sd = "\<lparr>sub_name = [], obj_name = [], sub_len = 0, obj_len = 0, sd_result = 0, sub_hash = []\<rparr> :: sec_domain"
  have run: "digest_check_tpcm ?M ?MS stack_env (True, True) (\<lambda>_. True) (short_file 2 []) ?sd EXEC_CTL = Some (DC_PASS, ?sd)"
    by (simp add: digest_check_tpcm_def short_file_def page_loop.simps tpcm_again.simps Let_def tpcm_verdict_def)
  have "i_size (short_file 2 []) = length []" by (simp add: short_file_def)
  from digest_check_tpcm_sound [OF short_file_reads this run] run show ?thesis
    by (simp add: tpcm_verdict_def)
qed

text \<open>A digest that was never listed can pass: the digests are compared as strings, so two digests
  that agree up to a zero byte and fall into one bucket are the same to the whitelist.\<close>

theorem digest_with_zero_byte_collides:
  "\<exists>jhash s listed_hash other. wl_inv jhash s \<and> wl_entries s = {(listed_hash, [47, 97])} \<and>
     length other = LEN_HASH \<and> other \<noteq> listed_hash \<and>
     get_digest jhash (wl_feature 1) s other [47, 97] = 0"
proof -
  let ?j = "(\<lambda>_ _. 5) :: jhash_fun" and ?h = "1 # 0 # replicate 30 (7 :: byte)" and ?o = "1 # 0 # replicate 30 (9 :: byte)"
  have h: "length ?h = LEN_HASH" "length ?o = LEN_HASH" by (simp_all add: LEN_HASH_def)
  obtain s where s: "wl_inv ?j s" "wl_entries s = {(?h, [47, 97])}"
    by (rule whitelist_add_cases [OF wl_empty_ok(1) h(1), where kz = "\<lambda>_. True" and path = "[47, 97]" and jhash = ?j])
      (auto simp: wl_empty_query wl_empty_ok(2) cstr_def)
  have "listed ?j (wl_feature 1) s ?o [47, 97]"
    using s(2) by (simp add: listed_def digest_like_def whitelist_hash_key_def string_hash_key_def cstr_def)
  then have "get_digest ?j (wl_feature 1) s ?o [47, 97] = 0"
    using get_digest_iff [OF s(1) h(2)] by simp
  moreover have "?o \<noteq> ?h" by simp
  ultimately show ?thesis using s h(2) by blast
qed

text \<open>An entry added between the moment a reload reads the object counter and the moment it swaps
  the tables makes the reload loop forever: the freeing loop waits for a counter that no longer
  matches.\<close>

theorem reload_add_race_diverges:
  assumes "wl_inv jhash s" "length hash = LEN_HASH" "whitelist_add jhash kz path hash s = (0, s')"
  shows "whitelist_swap t (obj_count (wl_table s)) s' = None"
proof -
  have inv: "wl_inv jhash s'"
    using whitelist_add_preserves(1) [OF assms(1,2)] assms(3) by (metis snd_conv)
  have "obj_count (wl_table s') = obj_count (wl_table s) + 1"
    using assms(3) by (auto simp: whitelist_add_def tab_link_def Let_def split: if_splits)
  then have "obj_count (wl_table s) \<noteq> bucket_sum (hashtable (wl_table s'))"
    using inv by (simp add: wl_inv_def tab_wf_def)
  then have "flush_buckets (hashtable (wl_table s')) (obj_count (wl_table s)) = None"
    using flush_buckets_result by (metis not_None_eq)
  then show ?thesis by (simp add: whitelist_swap_def whitelist_tmp_clean_def)
qed

theorem reload_add_race_diverges_witness:
  "\<exists>s'. whitelist_add (\<lambda>_ _. 5) (\<lambda>_. True) [47, 97] (replicate 32 9) wl_empty = (0, s') \<and>
     whitelist_swap tab_init (obj_count (wl_table wl_empty)) s' = None"
proof -
  let ?j = "(\<lambda>_ _. 5) :: jhash_fun"
  have h: "length (replicate 32 (9 :: byte)) = LEN_HASH" by (simp add: LEN_HASH_def)
  obtain s' where s: "whitelist_add ?j (\<lambda>_. True) [47, 97] (replicate 32 9) wl_empty = (0, s')"
    by (rule whitelist_add_cases [OF wl_empty_ok(1) h, where kz = "\<lambda>_. True" and path = "[47, 97]" and jhash = ?j])
      (auto simp: wl_empty_query)
  from reload_add_race_diverges [OF wl_empty_ok(1) h s] s show ?thesis by blast
qed

text \<open>A policy file that fails its check leaves the table as it is and marks the policy invalid; no
  later call, not even the reload of a correct policy file, takes the mark back.\<close>

theorem integrity_flag_sticky:
  assumes "whitelist_step jhash s s'" "file_integrity_valid s = 0"
  shows "file_integrity_valid s' = 0"
  using assms
proof (induction rule: whitelist_step.induct)
  case (step_add_policy kz valloc param s r s')
  then show ?case using add_del_policy_flag by (fastforce simp: ioctl_whitelist_add_policy_def)
next
  case (step_del_policy valloc param s r s')
  then obtain r' where "whitelist_add_del_policy jhash (\<lambda>_. True) valloc 2 param
      (s\<lparr>wl_cache := policy_whitelist_cache_clean (wl_cache s)\<rparr>) = Some (r', s')"
    by (auto simp: ioctl_whitelist_del_policy_def)
  from add_del_policy_flag [OF this] step_del_policy.prems show ?case by simp
next
  case (step_reload kz env vallocs tpcm file_hash f1 f2 s r s')
  then obtain r' where "load_whitelist jhash kz env vallocs tpcm file_hash f1 f2
      (s\<lparr>wl_cache := policy_whitelist_cache_clean (wl_cache s)\<rparr>) = Some (r', s')"
    by (auto simp: ioctl_whitelist_reload_policy_def)
  from load_flag [OF this] step_reload.prems show ?case by auto
qed (auto simp: whitelist_add_def whitelist_del_def Let_def split: if_splits prod.splits)

theorem integrity_flag_sticky_witness:
  "\<exists>s1 s2. load_whitelist (\<lambda>_ _. 5) (\<lambda>_. True) stack_env (True, True) (0, [], LEN_HASH) (replicate 32 0)
      (Some (short_file 2 [])) (Some (short_file 2 [])) wl_empty = Some (-1, s1) \<and> file_integrity_valid s1 = 0 \<and>
    ioctl_whitelist_reload_policy (\<lambda>_ _. 5) (\<lambda>_. True) stack_env (True, True) (123456, [], 0) (replicate 32 0)
      None (Some (short_file 2 [])) s1 = Some (0, s2) \<and> file_integrity_valid s2 = 0"
proof -
  let ?s1 = "wl_empty\<lparr>file_integrity_valid := 0, wl_warnings := 1\<rparr>"
  have f: "kfile_progress (short_file 2 [])" "i_size (short_file 2 []) = length []"
    by (simp add: short_file_progress, simp add: short_file_def)
  have "digest_cal stack_env (short_file 2 []) (replicate 32 0) = (0, gb_sm3 [])"
    by (rule digest_cal_sm3 [OF stack_env_ok short_file_reads f(2,1)]) simp
  moreover have "gb_sm3 [] \<noteq> []"
    using length_gb_sm3 [of "[]"] by auto
  ultimately have l1: "load_whitelist (\<lambda>_ _. 5) (\<lambda>_. True) stack_env (True, True) (0, [], LEN_HASH) (replicate 32 0)
      (Some (short_file 2 [])) (Some (short_file 2 [])) wl_empty = Some (-1, ?s1)"
    by (simp add: load_whitelist_def file_integrity_check_def memeq_def length_gb_sm3 LEN_HASH_def wl_empty_def)
  have "wl_inv (\<lambda>_ _. 5) (?s1\<lparr>wl_cache := policy_whitelist_cache_clean (wl_cache ?s1)\<rparr>)"
    using wl_empty_ok(1) clean_cache(2) by (simp add: wl_inv_def)
  from whitelist_swap_ok [OF this, of tab_init] obtain s2 where
    l2: "ioctl_whitelist_reload_policy (\<lambda>_ _. 5) (\<lambda>_. True) stack_env (True, True) (123456, [], 0) (replicate 32 0)
      None (Some (short_file 2 [])) ?s1 = Some (0, s2)"
    by (simp add: ioctl_whitelist_reload_policy_def load_whitelist_def file_integrity_check_def load_loop.simps short_file_def)
  from integrity_flag_sticky [OF whitelist_step.step_reload [OF l2]] l1 l2 show ?thesis by auto
qed

end
