(* ===== verification/Critical_Confile.thy ===== *)
theory Critical_Confile
  imports Whitelist
begin

text \<open>
  The reference digests of critical configuration files:
  tsb/kernel/smeasure/policy/hash_critical_confile.c. The table is keyed by the path; it is only
  filled by loading the policy file, whose first four bytes are a header. A failed integrity check
  of that file is reported and the file is loaded all the same.
\<close>

section \<open>State and operations\<close>

record confile_state =
  cc_table :: digest_table
  critical_confile_hash_random :: u32
  cc_warnings :: nat

definition critical_confile_path_hash_key :: "jhash_fun \<Rightarrow> u32 \<Rightarrow> byte list \<Rightarrow> byte list \<Rightarrow> nat" where
  "critical_confile_path_hash_key jhash random hash path = string_hash_key jhash random (cstr path)"

text \<open>The digests of the bucket of a path, as many as fit the caller's buffer of \<open>len\<close> bytes; the
  result is the number of bytes and the bytes.\<close>

fun copy_digests :: "nat \<Rightarrow> nat \<Rightarrow> whitelist_digest list \<Rightarrow> byte list" where
  "copy_digests len copy_len [] = []"
| "copy_digests len copy_len (u # us) =
     (if copy_len + LEN_HASH > len then []
      else take LEN_HASH (wd_digest u) @ copy_digests len (copy_len + LEN_HASH) us)"

definition get_critical_confile_digest ::
  "jhash_fun \<Rightarrow> confile_state \<Rightarrow> byte list \<Rightarrow> nat \<Rightarrow> nat \<times> byte list" where
  "get_critical_confile_digest jhash s path len =
     (let out = copy_digests len 0 (hashtable (cc_table s)
            (critical_confile_path_hash_key jhash (critical_confile_hash_random s) [] path))
      in (length out, out))"

definition critical_confile_init :: "bool \<Rightarrow> u32 \<Rightarrow> confile_state \<Rightarrow> int \<times> confile_state" where
  "critical_confile_init valloc rnd s =
     (if \<not> valloc then (- ENOMEM, s)
      else (0, s\<lparr>cc_table := tab_init, critical_confile_hash_random := rnd\<rparr>))"

definition critical_confile_exit :: "confile_state \<Rightarrow> confile_state option" where
  "critical_confile_exit s =
     map_option (\<lambda>b. s\<lparr>cc_table := \<lparr>hashtable = b, obj_count = 0\<rparr>\<rparr>)
       (flush_buckets (hashtable (cc_table s)) (obj_count (cc_table s)))"

text \<open>As for the whitelist, \<open>tpcm\<close> is the module's answer; here an error of the module skips the check.\<close>

definition critical_confile_integrity_check ::
  "digest_env \<Rightarrow> int \<times> byte list \<times> nat \<Rightarrow> kfile option \<Rightarrow> byte list \<Rightarrow> int" where
  "critical_confile_integrity_check env tpcm f file_hash =
     (case tpcm of (ret, tpcm_hash, hash_len) \<Rightarrow>
        if ret = 123456 then 0
        else if ret \<noteq> 0 \<or> hash_len \<noteq> LEN_HASH then 0
        else (case f of None \<Rightarrow> -1
          | Some g \<Rightarrow>
              let (r, h) = digest_cal_critical_confile env g file_hash
              in if r \<noteq> 0 then -1 else if \<not> memeq h tpcm_hash LEN_HASH then -1 else r))"

definition critical_confile_tmp_add ::
  "jhash_fun \<Rightarrow> u32 \<Rightarrow> (whitelist_digest \<Rightarrow> bool) \<Rightarrow> byte list \<Rightarrow> byte list \<Rightarrow> digest_table \<Rightarrow> int \<times> digest_table" where
  "critical_confile_tmp_add jhash rnd = tab_tmp_add (critical_confile_path_hash_key jhash rnd)"

definition critical_confile_tmp_clean :: "buckets \<Rightarrow> int \<Rightarrow> buckets option" where
  "critical_confile_tmp_clean = flush_buckets"

definition load_critical_confile ::
  "jhash_fun \<Rightarrow> (whitelist_digest \<Rightarrow> bool) \<Rightarrow> digest_env \<Rightarrow> bool \<times> bool \<Rightarrow> int \<times> byte list \<times> nat \<Rightarrow> byte list
    \<Rightarrow> kfile option \<Rightarrow> kfile option \<Rightarrow> confile_state \<Rightarrow> (int \<times> confile_state) option" where
  "load_critical_confile jhash kz env vallocs tpcm file_hash f1 f2 s0 =
     (let s = (if critical_confile_integrity_check env tpcm f1 file_hash \<noteq> 0
               then s0\<lparr>cc_warnings := cc_warnings s0 + 1\<rparr> else s0)
      in case f2 of None \<Rightarrow> Some (-1, s)
         | Some f \<Rightarrow>
             if \<not> fst vallocs \<or> \<not> snd vallocs then Some (- ENOMEM, s)
             else (case load_loop f (\<lambda>path digest t.
                       snd (critical_confile_tmp_add jhash (critical_confile_hash_random s) kz path digest t)) 4 [] tab_init of
                     None \<Rightarrow> None
                   | Some (offset, rest, t) \<Rightarrow>
                       map_option (\<lambda>_. (0, s\<lparr>cc_table := t\<rparr>))
                         (critical_confile_tmp_clean (hashtable (cc_table s)) (obj_count (cc_table s)))))"

definition ioctl_critical_confile_reload_policy ::
  "jhash_fun \<Rightarrow> (whitelist_digest \<Rightarrow> bool) \<Rightarrow> digest_env \<Rightarrow> bool \<times> bool \<Rightarrow> int \<times> byte list \<times> nat \<Rightarrow> byte list
    \<Rightarrow> kfile option \<Rightarrow> kfile option \<Rightarrow> confile_state \<Rightarrow> (int \<times> confile_state) option" where
  "ioctl_critical_confile_reload_policy jhash kz env vallocs tpcm file_hash f1 f2 s =
     map_option (\<lambda>(r, s'). (0, s')) (load_critical_confile jhash kz env vallocs tpcm file_hash f1 f2 s)"

section \<open>The table keyed by paths\<close>

interpretation cc: keyed_table "critical_confile_path_hash_key jhash rnd" for jhash rnd
  by unfold_locales (simp_all add: critical_confile_path_hash_key_def string_hash_key_less)

definition cc_inv :: "jhash_fun \<Rightarrow> confile_state \<Rightarrow> bool" where
  "cc_inv jhash s \<longleftrightarrow> tab_wf (critical_confile_path_hash_key jhash (critical_confile_hash_random s)) (cc_table s)"

definition cc_entries :: "confile_state \<Rightarrow> (byte list \<times> byte list) set" where
  "cc_entries s = tab_entries (hashtable (cc_table s))"

lemma string_act_cc: "string_act (\<lambda>path digest t. snd (critical_confile_tmp_add jhash rnd kz path digest t))"
  by (simp add: string_act_def critical_confile_tmp_add_def tab_tmp_add_def Let_def fun_eq_iff
      critical_confile_path_hash_key_def tab_link_def)

lemma copy_digests_all:
  "(\<forall>u\<in>set us. length (wd_digest u) = LEN_HASH) \<Longrightarrow> copy_len + LEN_HASH * length us \<le> len \<Longrightarrow>
     copy_digests len copy_len us = concat (map wd_digest us)"
  by (induction us arbitrary: copy_len) auto

lemma load_cases_cc:
  assumes "load_critical_confile jhash kz env vallocs tpcm file_hash f1 f2 s = Some (r, s')"
  obtains (kept) "cc_table s' = cc_table s" "critical_confile_hash_random s' = critical_confile_hash_random s"
  | (loaded) f off rest where "f2 = Some f" "r = 0" "critical_confile_hash_random s' = critical_confile_hash_random s"
      "load_loop f (\<lambda>path digest t. snd (critical_confile_tmp_add jhash (critical_confile_hash_random s) kz path digest t)) 4 [] tab_init
         = Some (off, rest, cc_table s')"
  using assms
  by (cases f2; cases vallocs) (auto simp: load_critical_confile_def Let_def split: option.splits if_splits prod.splits)

section \<open>Properties\<close>

text \<open>Loading the policy of critical files: behind the four-byte header the file is read item by
  item, every item with a digest is in the table afterwards under its path and nothing else is;
  whether the integrity check passed only changes the number of warnings.\<close>

theorem load_critical_confile_roundtrip:
  assumes "cc_inv jhash s" "kfile_reads f (hdr @ encode_items xs)" "kfile_progress f"
    "i_size f = length (hdr @ encode_items xs)" "length hdr = 4" "list_all item_valid xs"
    "list_all (\<lambda>x. length (encode_item x) \<le> 1024) xs" "\<forall>x\<in>set (live_items xs). no_nul (pi_hash x)"
  shows "\<exists>s'. load_critical_confile jhash (\<lambda>_. True) env (True, True) tpcm file_hash f1 (Some f) s = Some (0, s') \<and>
    cc_inv jhash s' \<and> cc_entries s' = item_pairs (live_items xs) \<and>
    cc_warnings s' = cc_warnings s + (if critical_confile_integrity_check env tpcm f1 file_hash = 0 then 0 else 1)"
proof -
  define s0 where "s0 = (if critical_confile_integrity_check env tpcm f1 file_hash \<noteq> 0
    then s\<lparr>cc_warnings := cc_warnings s + 1\<rparr> else s)"
  have s0: "cc_table s0 = cc_table s" "critical_confile_hash_random s0 = critical_confile_hash_random s"
    by (simp_all add: s0_def)
  let ?key = "critical_confile_path_hash_key jhash (critical_confile_hash_random s)"
  define t where "t = fold (\<lambda>x t. snd (tab_tmp_add ?key (\<lambda>_. True) (pi_path x) (pi_hash x) t)) (live_items xs) tab_init"
  have "load_loop f (\<lambda>path digest t. snd (critical_confile_tmp_add jhash (critical_confile_hash_random s) (\<lambda>_. True) path digest t)) 4 [] tab_init
      = Some (length (hdr @ encode_items xs), [], t)"
    using load_loop_encoded [OF assms(2-4,6,7) string_act_cc] assms(5) by (simp add: t_def critical_confile_tmp_add_def)
  moreover have "flush_buckets (hashtable (cc_table s)) (obj_count (cc_table s)) = Some (\<lambda>_. [])"
    using cc.flush_wf assms(1) by (simp add: cc_inv_def)
  ultimately have "load_critical_confile jhash (\<lambda>_. True) env (True, True) tpcm file_hash f1 (Some f) s
      = Some (0, s0\<lparr>cc_table := t\<rparr>)"
    using s0 by (simp add: load_critical_confile_def critical_confile_tmp_clean_def flip: s0_def)
  moreover have "cc_inv jhash (s0\<lparr>cc_table := t\<rparr>)"
    using cc.load_items(1) [OF assms(6) t_def] by (simp add: cc_inv_def s0)
  moreover have "cc_entries (s0\<lparr>cc_table := t\<rparr>) = item_pairs (live_items xs)"
    using cc.load_items_exact [OF assms(6) t_def assms(8)] by (simp add: cc_entries_def)
  ultimately show ?thesis by (auto simp: s0_def)
qed

definition cc_empty :: confile_state where
  "cc_empty = \<lparr>cc_table = tab_init, critical_confile_hash_random = 0, cc_warnings = 0\<rparr>"

lemma cc_empty_inv: "cc_inv jhash cc_empty"
  using cc.init_wf [of jhash 0] by (simp add: cc_empty_def cc_inv_def)

theorem load_critical_confile_roundtrip_witness:
  "\<exists>s'. load_critical_confile (\<lambda>_ _. 5) (\<lambda>_. True) stack_env (True, True) (5, [], 0) (replicate 32 0) None
      (Some (short_file 10 ([0, 0, 0, 1] @ encode_items [one_item]))) cc_empty = Some (0, s') \<and>
    cc_entries s' = {(replicate 32 9, [47, 97])} \<and> cc_warnings s' = 0"
proof -
  let ?f = "short_file 10 ([0, 0, 0, 1] @ encode_items [one_item])"
  have f: "kfile_progress ?f" "i_size ?f = length ([0, 0, 0, 1] @ encode_items [one_item])"
    "length [0, 0, 0, 1 :: byte] = 4"
    by (simp add: short_file_progress, simp_all add: short_file_def)
  have "\<forall>x\<in>set (live_items [one_item]). no_nul (pi_hash x)"
    by (simp add: one_item_ok) (simp add: one_item_def no_nul_def)
  from load_critical_confile_roundtrip [OF cc_empty_inv short_file_reads f one_item_ok(1,2) this,
      where env = stack_env and tpcm = "(5, [], 0)" and jhash = "\<lambda>_ _. 5" and ?f1.0 = None and file_hash = "replicate 32 0"]
  obtain s' where "load_critical_confile (\<lambda>_ _. 5) (\<lambda>_. True) stack_env (True, True) (5, [], 0) (replicate 32 0) None (Some ?f) cc_empty = Some (0, s')"
    "cc_entries s' = item_pairs [one_item]" "cc_warnings s' = 0"
    by (auto simp: one_item_ok critical_confile_integrity_check_def cc_empty_def)
  then show ?thesis by (auto simp: item_pairs_def) (simp_all add: one_item_def)
qed

text \<open>The digests handed out for a path are those of its bucket: each digest stored for the path is
  among them when the buffer is large enough, but so are the digests of any other path that falls
  into the same bucket.\<close>

theorem get_critical_confile_digest_bucket:
  assumes "cc_inv jhash s" "(h, cstr path) \<in> cc_entries s"
  shows "\<exists>us. get_critical_confile_digest jhash s path (LEN_HASH * length us) =
      (LEN_HASH * length us, concat (map wd_digest us)) \<and> h \<in> wd_digest ` set us \<and>
    us = hashtable (cc_table s) (critical_confile_path_hash_key jhash (critical_confile_hash_random s) [] path)"
proof -
  let ?key = "critical_confile_path_hash_key jhash (critical_confile_hash_random s)"
  let ?us = "hashtable (cc_table s) (?key [] path)"
  have wf: "entry_wf u \<and> ?key (wd_digest u) (wd_name u) = i" if "u \<in> set (hashtable (cc_table s) i)" for u i
    using assms(1) that by (auto simp: cc_inv_def tab_wf_def)
  have k: "?key h' (cstr path) = ?key [] path" for h'
    by (simp add: critical_confile_path_hash_key_def)
  obtain u i where u: "u \<in> set (hashtable (cc_table s) i)" "wd_digest u = h" "wd_name u = cstr path"
    using assms(2) by (auto simp: cc_entries_def tab_entries_def)
  have "i = ?key [] path" using wf [OF u(1)] u(3) k by metis
  then have "h \<in> wd_digest ` set ?us" using u by auto
  moreover have len: "\<forall>u\<in>set ?us. length (wd_digest u) = LEN_HASH"
    using wf by (auto simp: entry_wf_def)
  then have "copy_digests (LEN_HASH * length ?us) 0 ?us = concat (map wd_digest ?us)"
    by (rule copy_digests_all) simp
  moreover have "length (concat (map wd_digest ?us)) = LEN_HASH * length ?us"
    using len by (simp add: length_concat_const [where k = LEN_HASH])
  ultimately show ?thesis
    by (intro exI [of _ ?us]) (simp add: get_critical_confile_digest_def)
qed

theorem get_critical_confile_digest_bucket_witness:
  "\<exists>s (us :: whitelist_digest list). cc_entries s = {(replicate 32 9, [47, 97])} \<and>
     get_critical_confile_digest (\<lambda>_ _. 5) s [47, 97, 0] (LEN_HASH * length us) = (LEN_HASH * length us, concat (map wd_digest us)) \<and>
     replicate 32 9 \<in> wd_digest ` set us"
proof -
  let ?j = "(\<lambda>_ _. 5) :: jhash_fun" and ?h = "replicate 32 (9 :: byte)"
  let ?key = "critical_confile_path_hash_key ?j 0"
  have len: "length ?h = LEN_HASH" by (simp add: LEN_HASH_def)
  define s where "s = cc_empty\<lparr>cc_table := tab_link ?key [47, 97] ?h tab_init\<rparr>"
  have fresh: "\<not> bucket_has (hashtable tab_init (?key ?h [47, 97])) ?h [47, 97]"
    by (simp add: tab_init_def bucket_has_def)
  note l = cc.link_wf [OF cc.init_wf len fresh]
  have inv: "cc_inv ?j s"
    using l(1) by (simp add: s_def cc_inv_def cc_empty_def)
  have "tab_entries (hashtable tab_init) = {}"
    by (simp add: tab_init_def tab_entries_def)
  then have e: "cc_entries s = {(?h, [47, 97])}"
    using l(2) by (simp add: s_def cc_entries_def cstr_def)
  then have "(?h, cstr [47, 97, 0]) \<in> cc_entries s" by (simp add: cstr_def)
  from get_critical_confile_digest_bucket [OF inv this] obtain us :: "whitelist_digest list" where
    "get_critical_confile_digest ?j s [47, 97, 0] (LEN_HASH * length us) = (LEN_HASH * length us, concat (map wd_digest us))"
    "?h \<in> wd_digest ` set us" by blast
  with e show ?thesis by (intro exI [of _ s] exI [of _ us]) simp
qed

end
