(* ===== verification/Command_Table.thy ===== *)
theory Command_Table
  imports Prelude
begin

text \<open>
  The ioctl command table of the misc device (tsb/kernel/platform/msg/ioctl.c): components
  register one handler per command number and the device dispatches on the number. A function
  pointer is the handler's name. The reference counters only delay an unregistration until the
  running handlers are done and are left out; each operation is one critical section.
\<close>

section \<open>Definitions\<close>

type_synonym fptr = string
type_synonym cmd_table = "nat \<Rightarrow> fptr option"

definition MAX_COMMAND_NR :: nat where "MAX_COMMAND_NR = 256"
definition HTTCSEC_MISC_DEVICE_TYPE :: u32 where "HTTCSEC_MISC_DEVICE_TYPE = 0xAF"

abbreviation (input) COMMAND_SWITCH_LOG_FILE :: int where "COMMAND_SWITCH_LOG_FILE \<equiv> 1"
abbreviation (input) COMMAND_UPDATE_GLOBAL_POLICY :: int where "COMMAND_UPDATE_GLOBAL_POLICY \<equiv> 2"
abbreviation (input) COMMAND_RELOAD_GLOBAL_POLICY :: int where "COMMAND_RELOAD_GLOBAL_POLICY \<equiv> 3"
abbreviation (input) COMMAND_ADD_WHITELIST_POLICY :: int where "COMMAND_ADD_WHITELIST_POLICY \<equiv> 4"
abbreviation (input) COMMAND_DELETE_WHITELIST_POLICY :: int where "COMMAND_DELETE_WHITELIST_POLICY \<equiv> 5"
abbreviation (input) COMMAND_RELOAD_WHITELIST_POLICY :: int where "COMMAND_RELOAD_WHITELIST_POLICY \<equiv> 6"
abbreviation (input) COMMAND_UPDATE_DMEASURE_POLICY :: int where "COMMAND_UPDATE_DMEASURE_POLICY \<equiv> 7"
abbreviation (input) COMMAND_RELOAD_DMEASURE_POLICY :: int where "COMMAND_RELOAD_DMEASURE_POLICY \<equiv> 8"
abbreviation (input) COMMAND_UPDATE_LOG_CONFIG_POLICY :: int where "COMMAND_UPDATE_LOG_CONFIG_POLICY \<equiv> 13"
abbreviation (input) COMMAND_RELOAD_LOG_CONFIG_POLICY :: int where "COMMAND_RELOAD_LOG_CONFIG_POLICY \<equiv> 14"
abbreviation (input) COMMAND_SET_PROCESS_IDS_POLICY :: int where "COMMAND_SET_PROCESS_IDS_POLICY \<equiv> 15"
abbreviation (input) COMMAND_RELOAD_PROCESS_IDS_POLICY :: int where "COMMAND_RELOAD_PROCESS_IDS_POLICY \<equiv> 16"
abbreviation (input) COMMAND_SET_PROCESS_ROLES_POLICY :: int where "COMMAND_SET_PROCESS_ROLES_POLICY \<equiv> 17"
abbreviation (input) COMMAND_RELOAD_PROCESS_ROLES_POLICY :: int where "COMMAND_RELOAD_PROCESS_ROLES_POLICY \<equiv> 18"
abbreviation (input) COMMAND_ADD_DMEASURE_PROCESS_POLICY :: int where "COMMAND_ADD_DMEASURE_PROCESS_POLICY \<equiv> 19"
abbreviation (input) COMMAND_DELETE_DMEASURE_PROCESS_POLICY :: int where "COMMAND_DELETE_DMEASURE_PROCESS_POLICY \<equiv> 20"
abbreviation (input) COMMAND_RELOAD_DMEASURE_PROCESS_POLICY :: int where "COMMAND_RELOAD_DMEASURE_PROCESS_POLICY \<equiv> 21"
abbreviation (input) COMMAND_GET_NOTIFY_INFO_BLOCK :: int where "COMMAND_GET_NOTIFY_INFO_BLOCK \<equiv> 24"
abbreviation (input) COMMAND_GET_NOTIFY_INFO_NOBLOCK :: int where "COMMAND_GET_NOTIFY_INFO_NOBLOCK \<equiv> 25"
abbreviation (input) COMMAND_SEND_NOTIFY_PKG :: int where "COMMAND_SEND_NOTIFY_PKG \<equiv> 26"
abbreviation (input) COMMAND_CREATE_NOTIFY_QUEUE :: int where "COMMAND_CREATE_NOTIFY_QUEUE \<equiv> 27"
abbreviation (input) COMMAND_SET_NOTIFY_QUEUE_NUM :: int where "COMMAND_SET_NOTIFY_QUEUE_NUM \<equiv> 28"
abbreviation (input) COMMAND_PROCESS_PROTECT_REQ :: int where "COMMAND_PROCESS_PROTECT_REQ \<equiv> 29"
abbreviation (input) COMMAND_PROCESS_UNPROTECT_REQ :: int where "COMMAND_PROCESS_UNPROTECT_REQ \<equiv> 30"
abbreviation (input) COMMAND_RELOAD_CRITICAL_CONFILE_POLICY :: int where "COMMAND_RELOAD_CRITICAL_CONFILE_POLICY \<equiv> 38"
abbreviation (input) COMMAND_WRITE_USER_LOG :: int where "COMMAND_WRITE_USER_LOG \<equiv> 39"
abbreviation (input) COMMAND_READ_MEM_LOG :: int where "COMMAND_READ_MEM_LOG \<equiv> 40"
abbreviation (input) COMMAND_READ_MEM_LOG_NONBLOCK :: int where "COMMAND_READ_MEM_LOG_NONBLOCK \<equiv> 41"
abbreviation (input) COMMAND_RELOAD_FILE_PROTECT_POLICY :: int where "COMMAND_RELOAD_FILE_PROTECT_POLICY \<equiv> 42"
abbreviation (input) COMMAND_ADD_FAC_WHITELIST_PATH_POLICY :: int where "COMMAND_ADD_FAC_WHITELIST_PATH_POLICY \<equiv> 43"
abbreviation (input) COMMAND_DELETE_FAC_WHITELIST_PATH_POLICY :: int where "COMMAND_DELETE_FAC_WHITELIST_PATH_POLICY \<equiv> 44"
abbreviation (input) COMMAND_RELOAD_FAC_WHITELIST_PATH_POLICY :: int where "COMMAND_RELOAD_FAC_WHITELIST_PATH_POLICY \<equiv> 45"
abbreviation (input) COMMAND_WRITE_USER_INFO_LOG :: int where "COMMAND_WRITE_USER_INFO_LOG \<equiv> 46"
abbreviation (input) COMMAND_WHITELIST_USER_INTERFACE :: int where "COMMAND_WHITELIST_USER_INTERFACE \<equiv> 100"
abbreviation (input) COMMAND_DMEASURE_USER_INTERFACE :: int where "COMMAND_DMEASURE_USER_INTERFACE \<equiv> 101"
abbreviation (input) COMMAND_PROCESS_IDENTITY_USER_INTERFACE :: int where "COMMAND_PROCESS_IDENTITY_USER_INTERFACE \<equiv> 102"
abbreviation (input) COMMAND_SET_TRUST_SCORE :: int where "COMMAND_SET_TRUST_SCORE \<equiv> 103"
abbreviation (input) COMMAND_SET_LOG_MODE :: int where "COMMAND_SET_LOG_MODE \<equiv> 104"
abbreviation (input) COMMAND_GET_LOG_MODE :: int where "COMMAND_GET_LOG_MODE \<equiv> 105"

definition httcsec_io_command_register :: "int \<Rightarrow> fptr \<Rightarrow> cmd_table \<Rightarrow> int \<times> cmd_table" where
  "httcsec_io_command_register nr func cmds =
     (if nr < 0 \<or> nr \<ge> int MAX_COMMAND_NR \<or> cmds (nat nr) \<noteq> None then (- EPERM, cmds)
      else (0, cmds(nat nr \<mapsto> func)))"

text \<open>
  The unregistration does not test its number; the callers pass the constants above, so the
  model reads the table at \<open>nat nr\<close>.
\<close>

definition httcsec_io_command_unregister :: "int \<Rightarrow> fptr \<Rightarrow> cmd_table \<Rightarrow> int \<times> cmd_table" where
  "httcsec_io_command_unregister nr func cmds =
     (if cmds (nat nr) = Some func then (0, cmds(nat nr := None)) else (- EPERM, cmds))"

definition IOC_NR :: "u32 \<Rightarrow> nat" where
  "IOC_NR cmd = unat (cmd AND 0xFF)"

definition IOC_TYPE :: "u32 \<Rightarrow> u32" where
  "IOC_TYPE cmd = drop_bit 8 cmd AND 0xFF"

text \<open>\<open>call\<close> runs the handler behind a pointer; it returns its result and the new state.\<close>

definition httcsec_miscdev_ioctl ::
  "(fptr \<Rightarrow> 's \<Rightarrow> int \<times> 's) \<Rightarrow> cmd_table \<Rightarrow> u32 \<Rightarrow> 's \<Rightarrow> int \<times> 's" where
  "httcsec_miscdev_ioctl call cmds cmd s =
     (if IOC_TYPE cmd = HTTCSEC_MISC_DEVICE_TYPE \<and> IOC_NR cmd < MAX_COMMAND_NR
      then (case cmds (IOC_NR cmd) of Some func \<Rightarrow> call func s | None \<Rightarrow> (- ENOTTY, s))
      else (- ENOTTY, s))"

text \<open>Registering a list of commands in turn, up to the first one that is refused.\<close>

fun register_all :: "(int \<times> fptr) list \<Rightarrow> cmd_table \<Rightarrow> bool \<times> cmd_table" where
  "register_all [] c = (True, c)"
| "register_all ((nr, f) # xs) c =
     (case httcsec_io_command_register nr f c of (r, c1) \<Rightarrow> if r \<noteq> 0 then (False, c1) else register_all xs c1)"

text \<open>Withdrawing a list of commands; each caller ignores the results.\<close>

definition unregister_all :: "(int \<times> fptr) list \<Rightarrow> cmd_table \<Rightarrow> cmd_table" where
  "unregister_all xs c = fold (\<lambda>(nr, f) c. snd (httcsec_io_command_unregister nr f c)) xs c"

section \<open>Properties\<close>

lemma register_fresh:
  assumes "0 \<le> nr" "nr < int MAX_COMMAND_NR" "cmds (nat nr) = None"
  shows "httcsec_io_command_register nr f cmds = (0, cmds(nat nr \<mapsto> f))"
  using assms by (simp add: httcsec_io_command_register_def)

lemma register_taken:
  assumes "cmds (nat nr) = Some g"
  shows "httcsec_io_command_register nr f cmds = (- EPERM, cmds)"
  using assms by (simp add: httcsec_io_command_register_def)

lemma unregister_own:
  assumes "cmds (nat nr) = Some f"
  shows "httcsec_io_command_unregister nr f cmds = (0, cmds(nat nr := None))"
  using assms by (simp add: httcsec_io_command_unregister_def)

lemma IOC_NR_less: "IOC_NR cmd < MAX_COMMAND_NR"
proof -
  have "unat (cmd AND 0xFF) \<le> unat (0xFF :: u32)"
    by (rule word_and_le1 [THEN word_le_nat_alt [THEN iffD1]])
  then show ?thesis by (simp add: IOC_NR_def MAX_COMMAND_NR_def)
qed

end
