(* ===== verification/Process_Protect.thy ===== *)
theory Process_Protect
  imports Command_Table
begin

text \<open>
  The list of processes that must not be killed (tsb/kernel/smeasure/protection/process_protect.c):
  a fixed array of sixteen slots, a switch set from the global policy, two ioctl requests that a
  process makes for itself, and a notifier that removes a task when it exits. Each request takes
  the mutex several times: the sections under the mutex are the functions below, the requests
  are their compositions, and \<open>protect_step\<close> interleaves the sections of many threads.
\<close>

section \<open>State and operations\<close>

abbreviation (input) NODE_ITEM_USED :: int where "NODE_ITEM_USED \<equiv> 1"
abbreviation (input) NODE_ITEM_FREE :: int where "NODE_ITEM_FREE \<equiv> 0"

definition HTTC_PROCESS_PROTECT_ON :: u32 where "HTTC_PROCESS_PROTECT_ON = 2"
definition HTTC_PROCESS_PROTECT_OFF :: u32 where "HTTC_PROCESS_PROTECT_OFF = 0"
definition PROCESS_MAX_NUM :: nat where "PROCESS_MAX_NUM = 16"

record process_node =
  pn_pid :: int
  pn_inuse :: int

record protect_state =
  g_protect_process_switch :: int
  protect_list :: "process_node list"
  exit_notifier :: bool
  pp_commands :: cmd_table

definition zero_node :: process_node where
  "zero_node = \<lparr>pn_pid = 0, pn_inuse = NODE_ITEM_FREE\<rparr>"

definition protect_initial :: "cmd_table \<Rightarrow> protect_state" where
  "protect_initial cmds = \<lparr>g_protect_process_switch = 0, protect_list = replicate PROCESS_MAX_NUM zero_node,
     exit_notifier = False, pp_commands = cmds\<rparr>"

text \<open>The loops of the two searches: the index of the first slot that satisfies the test.\<close>

fun first_slot :: "(process_node \<Rightarrow> bool) \<Rightarrow> nat \<Rightarrow> process_node list \<Rightarrow> nat option" where
  "first_slot P loop [] = None"
| "first_slot P loop (n # ns) = (if P n then Some loop else first_slot P (Suc loop) ns)"

definition is_exist_list :: "int \<Rightarrow> process_node list \<Rightarrow> int" where
  "is_exist_list pid ns = (case first_slot (\<lambda>n. pn_pid n = pid) 0 ns of Some k \<Rightarrow> int k | None \<Rightarrow> -1)"

definition get_free_item :: "process_node list \<Rightarrow> nat option" where
  "get_free_item ns = first_slot (\<lambda>n. pn_inuse n = NODE_ITEM_FREE) 0 ns"

definition use_node :: "nat \<Rightarrow> int \<Rightarrow> process_node list \<Rightarrow> process_node list" where
  "use_node k pid ns = ns[k := \<lparr>pn_pid = pid, pn_inuse = NODE_ITEM_USED\<rparr>]"

definition clear_node :: "nat \<Rightarrow> process_node list \<Rightarrow> process_node list" where
  "clear_node k ns = ns[k := zero_node]"

definition process_protection_conf_notify_func :: "u32 \<Rightarrow> protect_state \<Rightarrow> protect_state" where
  "process_protection_conf_notify_func status s =
     (let s1 = (if status AND HTTC_PROCESS_PROTECT_ON = HTTC_PROCESS_PROTECT_ON
                then s\<lparr>g_protect_process_switch := 1\<rparr> else s)
      in if status AND HTTC_PROCESS_PROTECT_ON = HTTC_PROCESS_PROTECT_OFF
         then s1\<lparr>g_protect_process_switch := 0\<rparr> else s1)"

text \<open>The requests act on the calling thread: \<open>pid\<close> is \<open>current->pid\<close>.\<close>

definition ioctl_user_protect_request :: "int \<Rightarrow> protect_state \<Rightarrow> int \<times> protect_state" where
  "ioctl_user_protect_request pid s =
     (if is_exist_list pid (protect_list s) \<ge> 0 then (- EEXIST, s)
      else (case get_free_item (protect_list s) of
          None \<Rightarrow> (-1, s)
        | Some k \<Rightarrow> (0, s\<lparr>protect_list := use_node k pid (protect_list s)\<rparr>)))"

definition ioctl_user_unprotect_request :: "int \<Rightarrow> protect_state \<Rightarrow> int \<times> protect_state" where
  "ioctl_user_unprotect_request pid s =
     (let ret = is_exist_list pid (protect_list s)
      in if ret < 0 then (- EEXIST, s)
         else (0, s\<lparr>protect_list := clear_node (nat ret) (protect_list s)\<rparr>))"

definition unprotect_request :: "int \<Rightarrow> protect_state \<Rightarrow> protect_state" where
  "unprotect_request pid s =
     (let ret = is_exist_list pid (protect_list s)
      in if ret < 0 then s else s\<lparr>protect_list := clear_node (nat ret) (protect_list s)\<rparr>)"

definition is_protect_task :: "protect_state \<Rightarrow> int \<Rightarrow> int" where
  "is_protect_task s pid =
     (if g_protect_process_switch s = 0 then 0
      else if is_exist_list pid (protect_list s) \<ge> 0 then 1 else 0)"

text \<open>\<open>data\<close> is the pid of the exiting task, \<open>None\<close> for a null pointer.\<close>

definition task_exit_handler :: "int option \<Rightarrow> protect_state \<Rightarrow> int \<times> protect_state" where
  "task_exit_handler data s = (0, (case data of None \<Rightarrow> s | Some pid \<Rightarrow> unprotect_request pid s))"

text \<open>\<open>reg\<close> is the result of \<open>profile_event_register\<close>. A command number that is taken is only logged.\<close>

definition httc_process_protect_init :: "int \<Rightarrow> protect_state \<Rightarrow> int \<times> protect_state" where
  "httc_process_protect_init reg s =
     (if reg \<noteq> 0 then (- EINVAL, s)
      else let (r1, c1) = httcsec_io_command_register COMMAND_PROCESS_PROTECT_REQ
                 ''ioctl_user_protect_request'' (pp_commands s);
               (r2, c2) = httcsec_io_command_register COMMAND_PROCESS_UNPROTECT_REQ
                 ''ioctl_user_unprotect_request'' c1
           in (0, s\<lparr>exit_notifier := True, pp_commands := c2\<rparr>))"

definition httc_process_protect_exit :: "protect_state \<Rightarrow> protect_state" where
  "httc_process_protect_exit s =
     (let (r1, c1) = httcsec_io_command_unregister COMMAND_PROCESS_PROTECT_REQ
            ''ioctl_user_protect_request'' (pp_commands s);
          (r2, c2) = httcsec_io_command_unregister COMMAND_PROCESS_UNPROTECT_REQ
            ''ioctl_user_unprotect_request'' c1
      in s\<lparr>exit_notifier := False, pp_commands := c2\<rparr>)"

text \<open>
  Interleaving: where a thread stands inside a request, after its last section under the mutex.
  An event is what a request returns to its caller.
\<close>

datatype protect_pc =
    Idle
  | Searched
  | Got_Slot nat
  | Found_Slot nat

datatype protect_event =
    Tau
  | Protect_Returns int int
  | Unprotect_Returns int int

record protect_system =
  ps_list :: "process_node list"
  ps_pc :: "int \<Rightarrow> protect_pc"

inductive protect_step :: "protect_system \<Rightarrow> protect_event \<Rightarrow> protect_system \<Rightarrow> bool" where
  protect_exists:
    "\<lbrakk>pid \<noteq> 0; ps_pc s pid = Idle; is_exist_list pid (ps_list s) \<ge> 0\<rbrakk>
     \<Longrightarrow> protect_step s (Protect_Returns pid (- EEXIST)) s"
| protect_search:
    "\<lbrakk>pid \<noteq> 0; ps_pc s pid = Idle; is_exist_list pid (ps_list s) < 0\<rbrakk>
     \<Longrightarrow> protect_step s Tau (s\<lparr>ps_pc := (ps_pc s)(pid := Searched)\<rparr>)"
| protect_full:
    "\<lbrakk>ps_pc s pid = Searched; get_free_item (ps_list s) = None\<rbrakk>
     \<Longrightarrow> protect_step s (Protect_Returns pid (-1)) (s\<lparr>ps_pc := (ps_pc s)(pid := Idle)\<rparr>)"
| protect_slot:
    "\<lbrakk>ps_pc s pid = Searched; get_free_item (ps_list s) = Some k\<rbrakk>
     \<Longrightarrow> protect_step s Tau (s\<lparr>ps_pc := (ps_pc s)(pid := Got_Slot k)\<rparr>)"
| protect_write:
    "ps_pc s pid = Got_Slot k
     \<Longrightarrow> protect_step s (Protect_Returns pid 0)
           (s\<lparr>ps_list := use_node k pid (ps_list s), ps_pc := (ps_pc s)(pid := Idle)\<rparr>)"
| unprotect_missing:
    "\<lbrakk>pid \<noteq> 0; ps_pc s pid = Idle; is_exist_list pid (ps_list s) < 0\<rbrakk>
     \<Longrightarrow> protect_step s (Unprotect_Returns pid (- EEXIST)) s"
| unprotect_search:
    "\<lbrakk>pid \<noteq> 0; ps_pc s pid = Idle; is_exist_list pid (ps_list s) = int k\<rbrakk>
     \<Longrightarrow> protect_step s Tau (s\<lparr>ps_pc := (ps_pc s)(pid := Found_Slot k)\<rparr>)"
| unprotect_clear:
    "ps_pc s pid = Found_Slot k
     \<Longrightarrow> protect_step s (Unprotect_Returns pid 0)
           (s\<lparr>ps_list := clear_node k (ps_list s), ps_pc := (ps_pc s)(pid := Idle)\<rparr>)"

inductive protect_run :: "protect_system \<Rightarrow> protect_event list \<Rightarrow> protect_system \<Rightarrow> bool" where
  run_refl: "protect_run s [] s"
| run_tau: "\<lbrakk>protect_step s Tau t; protect_run t evs u\<rbrakk> \<Longrightarrow> protect_run s evs u"
| run_event: "\<lbrakk>protect_step s e t; e \<noteq> Tau; protect_run t evs u\<rbrakk> \<Longrightarrow> protect_run s (e # evs) u"

definition protect_system_init :: protect_system where
  "protect_system_init = \<lparr>ps_list = replicate PROCESS_MAX_NUM zero_node, ps_pc = (\<lambda>_. Idle)\<rparr>"

text \<open>The abstract state: the set of protected processes, and the well-formedness of the array.\<close>

definition protected :: "process_node list \<Rightarrow> int set" where
  "protected ns = {pn_pid n |n. n \<in> set ns \<and> pn_inuse n \<noteq> NODE_ITEM_FREE}"

definition protect_wf :: "process_node list \<Rightarrow> bool" where
  "protect_wf ns \<longleftrightarrow> length ns = PROCESS_MAX_NUM
     \<and> (\<forall>n\<in>set ns. pn_inuse n = NODE_ITEM_FREE \<longleftrightarrow> pn_pid n = 0)
     \<and> (\<forall>i<length ns. \<forall>j<length ns. pn_pid (ns ! i) = pn_pid (ns ! j) \<and> pn_pid (ns ! i) \<noteq> 0 \<longrightarrow> i = j)"

definition system_inv :: "protect_system \<Rightarrow> bool" where
  "system_inv s \<longleftrightarrow> protect_wf (ps_list s)
     \<and> (\<forall>pid. (ps_pc s pid = Searched \<or> (\<exists>k. ps_pc s pid = Got_Slot k))
              \<longrightarrow> pid \<noteq> 0 \<and> pid \<notin> protected (ps_list s))
     \<and> (\<forall>pid k. ps_pc s pid = Got_Slot k \<or> ps_pc s pid = Found_Slot k \<longrightarrow> k < PROCESS_MAX_NUM)"

section \<open>The searches\<close>

lemma first_slot_Some:
  assumes "first_slot P loop ns = Some k"
  shows "loop \<le> k \<and> k - loop < length ns \<and> P (ns ! (k - loop))"
  using assms
proof (induction P loop ns rule: first_slot.induct)
  case (2 P loop n ns)
  then show ?case
    by (cases "P n") (auto simp: nth_Cons' Suc_le_eq)
qed simp

lemma first_slot_None: "first_slot P loop ns = None \<longleftrightarrow> (\<forall>n\<in>set ns. \<not> P n)"
  by (induction P loop ns rule: first_slot.induct) auto

lemma first_slot_ex: "(\<exists>k. first_slot P loop ns = Some k) \<longleftrightarrow> (\<exists>n\<in>set ns. P n)"
  by (induction P loop ns rule: first_slot.induct) auto

lemma is_exist_list_neg: "is_exist_list pid ns < 0 \<longleftrightarrow> pid \<notin> pn_pid ` set ns"
proof (cases "first_slot (\<lambda>n. pn_pid n = pid) 0 ns")
  case None
  then have "is_exist_list pid ns = -1" "\<forall>n\<in>set ns. pn_pid n \<noteq> pid"
    using first_slot_None [of "\<lambda>n. pn_pid n = pid" 0 ns] by (simp_all add: is_exist_list_def)
  then show ?thesis by auto
next
  case (Some k)
  then have "\<exists>n\<in>set ns. pn_pid n = pid" using first_slot_ex by blast
  with Some show ?thesis by (auto simp: is_exist_list_def)
qed

lemma is_exist_list_nth:
  assumes "is_exist_list pid ns = int k"
  shows "k < length ns \<and> pn_pid (ns ! k) = pid"
  using assms by (auto simp: is_exist_list_def dest!: first_slot_Some split: option.splits)

lemma protected_wf: "protect_wf ns \<Longrightarrow> protected ns = pn_pid ` set ns - {0}"
  by (auto simp: protected_def protect_wf_def)

lemma is_exist_list_iff:
  assumes "protect_wf ns" "pid \<noteq> 0"
  shows "is_exist_list pid ns \<ge> 0 \<longleftrightarrow> pid \<in> protected ns"
  using assms is_exist_list_neg [of pid ns] by (auto simp: protected_wf linorder_not_less [symmetric])

lemma get_free_item_Some:
  assumes "get_free_item ns = Some k"
  shows "k < length ns \<and> pn_inuse (ns ! k) = NODE_ITEM_FREE"
  using first_slot_Some [OF assms [unfolded get_free_item_def]] by simp

lemma get_free_item_None:
  assumes "protect_wf ns"
  shows "get_free_item ns = None \<longleftrightarrow> card (protected ns) = PROCESS_MAX_NUM"
proof
  have len: "length ns = PROCESS_MAX_NUM"
    and dist: "\<And>i j. i < length ns \<Longrightarrow> j < length ns \<Longrightarrow> pn_pid (ns ! i) = pn_pid (ns ! j) \<Longrightarrow>
      pn_pid (ns ! i) \<noteq> 0 \<Longrightarrow> i = j"
    using assms by (auto simp: protect_wf_def)
  assume "get_free_item ns = None"
  with assms have nz: "\<forall>n\<in>set ns. pn_pid n \<noteq> 0"
    by (auto simp: get_free_item_def first_slot_None protect_wf_def)
  then have "protected ns = set (map pn_pid ns)"
    using assms by (auto simp: protected_wf)
  moreover have "distinct (map pn_pid ns)"
    using dist nz by (fastforce simp: distinct_conv_nth)
  ultimately show "card (protected ns) = PROCESS_MAX_NUM"
    by (simp add: distinct_card len del: set_map)
next
  assume card: "card (protected ns) = PROCESS_MAX_NUM"
  show "get_free_item ns = None"
  proof (rule ccontr)
    assume "get_free_item ns \<noteq> None"
    then obtain n where n: "n \<in> set ns" "pn_inuse n = NODE_ITEM_FREE"
      by (auto simp: get_free_item_def first_slot_None)
    with assms have "pn_pid n = 0" by (auto simp: protect_wf_def)
    with n have "0 \<in> pn_pid ` set ns" by force
    then have "card (pn_pid ` set ns - {0}) < card (pn_pid ` set ns)"
      by (intro psubset_card_mono) auto
    also have "\<dots> \<le> length ns"
      by (meson card_image_le card_length finite_set le_trans)
    finally show False
      using assms card by (simp add: protected_wf) (simp add: protect_wf_def)
  qed
qed

section \<open>The updates\<close>

lemma wf_use_node:
  assumes "protect_wf ns" "k < PROCESS_MAX_NUM" "pid \<noteq> 0" "pid \<notin> protected ns"
  shows "protect_wf (use_node k pid ns)"
proof -
  have other: "i < length ns \<Longrightarrow> pn_pid (ns ! i) \<noteq> pid" for i
    using assms by (auto simp: protected_wf)
  show ?thesis
    using assms(1-3) other
    by (auto simp: protect_wf_def use_node_def nth_list_update dest!: subsetD [OF set_update_subset_insert])
qed

lemma wf_clear_node:
  assumes "protect_wf ns"
  shows "protect_wf (clear_node k ns)"
proof (cases "k < length ns")
  case True
  with assms show ?thesis
    by (auto simp: protect_wf_def clear_node_def nth_list_update zero_node_def
             dest!: subsetD [OF set_update_subset_insert])
qed (use assms in \<open>simp add: clear_node_def list_update_beyond\<close>)

lemma protected_use_node:
  assumes "protect_wf ns" "k < PROCESS_MAX_NUM" "pid \<noteq> 0"
  shows "protected (use_node k pid ns) = insert pid (protected ns - {pn_pid (ns ! k)})"
proof -
  have len: "k < length ns" using assms by (simp add: protect_wf_def)
  have iff: "q \<in> protected ms \<longleftrightarrow> (\<exists>i<length ms. pn_pid (ms ! i) = q \<and> pn_inuse (ms ! i) \<noteq> NODE_ITEM_FREE)" for q ms
    by (auto simp: protected_def in_set_conv_nth)
  show ?thesis
    using assms len
    by (intro set_eqI) (auto simp: iff use_node_def nth_list_update protect_wf_def)
qed

lemma protected_clear_node:
  assumes "protect_wf ns" "k < PROCESS_MAX_NUM"
  shows "protected (clear_node k ns) = protected ns - {pn_pid (ns ! k)}"
proof -
  have len: "k < length ns" using assms by (simp add: protect_wf_def)
  have iff: "q \<in> protected ms \<longleftrightarrow> (\<exists>i<length ms. pn_pid (ms ! i) = q \<and> pn_inuse (ms ! i) \<noteq> NODE_ITEM_FREE)" for q ms
    by (auto simp: protected_def in_set_conv_nth)
  show ?thesis
    using assms len
    by (intro set_eqI) (auto simp: iff clear_node_def nth_list_update protect_wf_def zero_node_def)
qed

lemma not_pid_slot:
  assumes "protect_wf ns" "k < PROCESS_MAX_NUM" "pn_inuse (ns ! k) = NODE_ITEM_FREE"
  shows "pn_pid (ns ! k) = 0" "0 \<notin> protected ns"
  using assms by (auto simp: protect_wf_def protected_def)

section \<open>The requests on the set of protected processes\<close>

lemma protect_request_cases:
  assumes "protect_wf (protect_list s)" "pid \<noteq> 0"
    and "ioctl_user_protect_request pid s = (r, s')"
  shows "protect_wf (protect_list s') \<and>
    (pid \<in> protected (protect_list s) \<and> r = - EEXIST \<and> s' = s
     \<or> pid \<notin> protected (protect_list s) \<and> card (protected (protect_list s)) = PROCESS_MAX_NUM \<and> r = -1 \<and> s' = s
     \<or> pid \<notin> protected (protect_list s) \<and> card (protected (protect_list s)) \<noteq> PROCESS_MAX_NUM \<and> r = 0
       \<and> protected (protect_list s') = insert pid (protected (protect_list s)))"
proof (cases "pid \<in> protected (protect_list s)")
  case True
  with assms show ?thesis
    by (simp add: ioctl_user_protect_request_def is_exist_list_iff)
next
  case new: False
  show ?thesis
  proof (cases "get_free_item (protect_list s)")
    case None
    with new assms get_free_item_None [OF assms(1)] show ?thesis
      by (simp add: ioctl_user_protect_request_def is_exist_list_iff)
  next
    case (Some k)
    from get_free_item_Some [OF Some] assms(1)
    have k: "k < PROCESS_MAX_NUM" "pn_inuse (protect_list s ! k) = NODE_ITEM_FREE"
      by (auto simp: protect_wf_def)
    have full: "card (protected (protect_list s)) \<noteq> PROCESS_MAX_NUM"
      using Some get_free_item_None [OF assms(1)] by simp
    have s': "r = 0" "s' = s\<lparr>protect_list := use_node k pid (protect_list s)\<rparr>"
      using Some new assms by (simp_all add: ioctl_user_protect_request_def is_exist_list_iff)
    have "protected (protect_list s') = insert pid (protected (protect_list s))"
      using not_pid_slot [OF assms(1) k] protected_use_node [OF assms(1) k(1) assms(2)] by (simp add: s')
    with full new s' wf_use_node [OF assms(1) k(1) assms(2) new] show ?thesis by simp
  qed
qed

lemma unprotect_request_cases:
  assumes "protect_wf (protect_list s)" "pid \<noteq> 0"
  shows "protect_wf (protect_list (unprotect_request pid s))
    \<and> protected (protect_list (unprotect_request pid s)) = protected (protect_list s) - {pid}
    \<and> ioctl_user_unprotect_request pid s =
        (if pid \<in> protected (protect_list s) then 0 else - EEXIST, unprotect_request pid s)"
proof (cases "pid \<in> protected (protect_list s)")
  case True
  then have "is_exist_list pid (protect_list s) \<ge> 0"
    using assms by (simp add: is_exist_list_iff)
  then obtain k where k: "is_exist_list pid (protect_list s) = int k"
    using nonneg_eq_int by blast
  from is_exist_list_nth [OF k] assms(1)
  have "k < PROCESS_MAX_NUM" "pn_pid (protect_list s ! k) = pid"
    by (auto simp: protect_wf_def)
  with True k assms show ?thesis
    by (simp add: unprotect_request_def ioctl_user_unprotect_request_def wf_clear_node protected_clear_node)
next
  case False
  then have "is_exist_list pid (protect_list s) < 0"
    using assms by (simp add: is_exist_list_iff linorder_not_le [symmetric])
  with False assms show ?thesis
    by (simp add: unprotect_request_def ioctl_user_unprotect_request_def)
qed

text \<open>C22. The protection list is a set of at most sixteen processes: a request that is not
  interrupted adds the caller (or reports that it is already listed, or that sixteen are), the
  withdrawal and the exit of the task remove it, every request keeps the array well formed, and a
  process is reported as protected exactly when the switch is on and it is in the set.\<close>

theorem protect_list_refines_set:
  assumes wf: "protect_wf (protect_list s)" and pid: "pid \<noteq> 0"
  shows "let P = protected (protect_list s) in
     (case ioctl_user_protect_request pid s of (r, s') \<Rightarrow>
        protect_wf (protect_list s')
        \<and> (r, protected (protect_list s')) =
            (if pid \<in> P then (- EEXIST, P)
             else if card P = PROCESS_MAX_NUM then (-1, P) else (0, insert pid P)))
   \<and> (case ioctl_user_unprotect_request pid s of (r, s') \<Rightarrow>
        protect_wf (protect_list s')
        \<and> (r, protected (protect_list s')) = (if pid \<in> P then 0 else - EEXIST, P - {pid}))
   \<and> (case task_exit_handler (Some pid) s of (r, s') \<Rightarrow>
        r = 0 \<and> protect_wf (protect_list s') \<and> protected (protect_list s') = P - {pid})
   \<and> is_protect_task s pid = (if g_protect_process_switch s \<noteq> 0 \<and> pid \<in> P then 1 else 0)"
proof -
  obtain r s' where eq: "ioctl_user_protect_request pid s = (r, s')" by force
  show ?thesis
    unfolding Let_def
    apply (intro conjI)
    subgoal using protect_request_cases [OF wf pid eq] by (auto simp: eq)
    subgoal using unprotect_request_cases [OF wf pid] by simp
    subgoal using unprotect_request_cases [OF wf pid] by (simp add: task_exit_handler_def)
    subgoal using is_exist_list_iff [OF wf pid] by (simp add: is_protect_task_def)
    done
qed

lemma initial_wf: "protect_wf (replicate PROCESS_MAX_NUM zero_node)"
  by (simp add: protect_wf_def zero_node_def)

lemma protected_initial: "protected (replicate PROCESS_MAX_NUM zero_node) = {}"
  by (simp add: protected_def zero_node_def)

lemma protect_initial_list: "protect_list (protect_initial cmds) = replicate PROCESS_MAX_NUM zero_node"
  by (simp add: protect_initial_def)

theorem protect_list_refines_set_witness:
  "is_protect_task (protect_initial Map.empty) 7 = 0
   \<and> fst (ioctl_user_protect_request 7 (protect_initial Map.empty)) = 0
   \<and> protected (protect_list (snd (ioctl_user_protect_request 7 (protect_initial Map.empty)))) = {7}"
proof -
  have "(0 :: nat) \<noteq> PROCESS_MAX_NUM" by (simp add: PROCESS_MAX_NUM_def)
  then show ?thesis
    using protect_list_refines_set [of "protect_initial Map.empty" 7]
    unfolding protect_initial_list Let_def by (simp add: initial_wf protected_initial split_beta)
qed

section \<open>Interleaved requests\<close>

lemma system_invD:
  assumes "system_inv s"
  shows "protect_wf (ps_list s)"
    and "ps_pc s pid = Searched \<Longrightarrow> pid \<noteq> 0 \<and> pid \<notin> protected (ps_list s)"
    and "ps_pc s pid = Got_Slot k \<Longrightarrow> pid \<noteq> 0 \<and> pid \<notin> protected (ps_list s) \<and> k < PROCESS_MAX_NUM"
    and "ps_pc s pid = Found_Slot k \<Longrightarrow> k < PROCESS_MAX_NUM"
  using assms by (auto simp: system_inv_def)

lemma system_inv_init: "system_inv protect_system_init"
  by (simp add: system_inv_def protect_system_init_def initial_wf)

lemma system_inv_step:
  assumes "protect_step s e s'" "system_inv s"
  shows "system_inv s'"
  using assms
proof (induction rule: protect_step.induct)
  case (protect_search pid s)
  then show ?case
    using is_exist_list_iff [OF system_invD(1) [OF protect_search.prems] protect_search.hyps(1)]
    by (auto simp: system_inv_def)
next
  case (protect_slot s pid k)
  have "k < PROCESS_MAX_NUM"
    using get_free_item_Some [OF protect_slot.hyps(2)] system_invD(1) [OF protect_slot.prems]
    by (simp add: protect_wf_def)
  with protect_slot show ?case by (auto simp: system_inv_def)
next
  case (protect_write s pid k)
  note pid = system_invD(3) [OF protect_write.prems protect_write.hyps]
  with protect_write show ?case
    using wf_use_node [OF system_invD(1) [OF protect_write.prems], of k pid]
      protected_use_node [OF system_invD(1) [OF protect_write.prems], of k pid]
    by (auto simp: system_inv_def)
next
  case (unprotect_search pid s k)
  then show ?case
    using is_exist_list_nth [OF unprotect_search.hyps(3)]
    by (auto simp: system_inv_def protect_wf_def)
next
  case (unprotect_clear s pid k)
  then show ?case
    using wf_clear_node [OF system_invD(1) [OF unprotect_clear.prems]]
      protected_clear_node [OF system_invD(1) [OF unprotect_clear.prems]]
    by (auto simp: system_inv_def)
qed (auto simp: system_inv_def)

lemma protect_run_inv:
  assumes "protect_run s evs s'" "system_inv s"
  shows "system_inv s'"
  using assms by (induction rule: protect_run.induct) (auto dest: system_inv_step)

text \<open>A request whose sections run one after the other without interruption is the request as
  a function.\<close>

lemma protect_request_run:
  assumes "ps_pc s pid = Idle" "pid \<noteq> 0" "ps_list s = protect_list t"
    and "ioctl_user_protect_request pid t = (r, t')"
  shows "protect_run s [Protect_Returns pid r] (s\<lparr>ps_list := protect_list t'\<rparr>)"
proof (cases "is_exist_list pid (protect_list t) \<ge> 0")
  case True
  then have "protect_step s (Protect_Returns pid (- EEXIST)) s"
    using assms by (simp add: protect_exists)
  then have run: "protect_run s [Protect_Returns pid (- EEXIST)] s"
    by (rule run_event) (simp_all add: run_refl)
  have "r = - EEXIST" "t' = t"
    using True assms(4) by (simp_all add: ioctl_user_protect_request_def)
  with run show ?thesis by (simp flip: assms(3))
next
  case new: False
  let ?s1 = "s\<lparr>ps_pc := (ps_pc s)(pid := Searched)\<rparr>"
  have 1: "protect_step s Tau ?s1"
    using assms new by (simp add: protect_search)
  show ?thesis
  proof (cases "get_free_item (protect_list t)")
    case None
    have 2: "protect_step ?s1 (Protect_Returns pid (-1)) s"
      using protect_full [of ?s1 pid] None assms by (simp add: fun_upd_idem)
    have "protect_run s [Protect_Returns pid (-1)] s"
      by (rule run_tau [OF 1 run_event [OF 2 _ run_refl]]) simp
    moreover have "r = -1" "t' = t"
      using None new assms(4) by (simp_all add: ioctl_user_protect_request_def)
    ultimately show ?thesis by (simp flip: assms(3))
  next
    case (Some k)
    let ?s2 = "s\<lparr>ps_pc := (ps_pc s)(pid := Got_Slot k)\<rparr>"
    have 2: "protect_step ?s1 Tau ?s2"
      using protect_slot [of ?s1 pid k] Some assms by simp
    have 3: "protect_step ?s2 (Protect_Returns pid 0) (s\<lparr>ps_list := use_node k pid (ps_list s)\<rparr>)"
      using protect_write [of ?s2 pid k] assms by (simp add: fun_upd_idem)
    have "protect_run s [Protect_Returns pid 0] (s\<lparr>ps_list := use_node k pid (ps_list s)\<rparr>)"
      by (rule run_tau [OF 1 run_tau [OF 2 run_event [OF 3 _ run_refl]]]) simp
    with Some new assms show ?thesis by (auto simp: ioctl_user_protect_request_def)
  qed
qed

lemma unprotect_request_run:
  assumes "ps_pc s pid = Idle" "pid \<noteq> 0" "ps_list s = protect_list t"
    and "ioctl_user_unprotect_request pid t = (r, t')"
  shows "protect_run s [Unprotect_Returns pid r] (s\<lparr>ps_list := protect_list t'\<rparr>)"
proof (cases "is_exist_list pid (protect_list t) < 0")
  case True
  then have "protect_step s (Unprotect_Returns pid (- EEXIST)) s"
    using assms by (simp add: unprotect_missing)
  then have run: "protect_run s [Unprotect_Returns pid (- EEXIST)] s"
    by (rule run_event) (simp_all add: run_refl)
  have "r = - EEXIST" "t' = t"
    using True assms(4) by (simp_all add: ioctl_user_unprotect_request_def)
  with run show ?thesis by (simp flip: assms(3))
next
  case False
  then obtain k where k: "is_exist_list pid (protect_list t) = int k"
    using nonneg_eq_int by (metis linorder_not_less)
  let ?s1 = "s\<lparr>ps_pc := (ps_pc s)(pid := Found_Slot k)\<rparr>"
  have 1: "protect_step s Tau ?s1"
    using assms k by (simp add: unprotect_search)
  have 2: "protect_step ?s1 (Unprotect_Returns pid 0) (s\<lparr>ps_list := clear_node k (ps_list s)\<rparr>)"
    using unprotect_clear [of ?s1 pid k] assms by (simp add: fun_upd_idem)
  have "protect_run s [Unprotect_Returns pid 0] (s\<lparr>ps_list := clear_node k (ps_list s)\<rparr>)"
    by (rule run_tau [OF 1 run_event [OF 2 _ run_refl]]) simp
  with k assms show ?thesis by (auto simp: ioctl_user_unprotect_request_def)
qed

lemma step_protected:
  assumes "protect_step s e s'" "system_inv s" "pid \<in> protected (ps_list s')"
  shows "pid \<in> protected (ps_list s) \<or> e = Protect_Returns pid 0"
  using assms
proof (induction rule: protect_step.induct)
  case (protect_write s q k)
  then show ?case
    using system_invD(1,3) [OF protect_write.prems(1)] by (auto simp: protected_use_node)
next
  case (unprotect_clear s q k)
  then show ?case
    using system_invD(1,4) [OF unprotect_clear.prems(1)] by (auto simp: protected_clear_node)
qed auto

lemma run_protected:
  assumes "protect_run s evs s'" "system_inv s" "pid \<in> protected (ps_list s')"
  shows "pid \<in> protected (ps_list s) \<or> Protect_Returns pid 0 \<in> set evs"
  using assms
  by (induction rule: protect_run.induct) (auto dest: step_protected system_inv_step)

lemma card_protected_le:
  assumes "protect_wf ns"
  shows "card (protected ns) \<le> PROCESS_MAX_NUM"
proof -
  have "card (protected ns) \<le> card (pn_pid ` set ns)"
    using assms by (simp add: protected_wf card_mono)
  also have "\<dots> \<le> length ns"
    by (meson card_image_le card_length finite_set le_trans)
  finally show ?thesis using assms by (simp add: protect_wf_def)
qed

text \<open>However the sections of concurrent requests interleave, the array stays well formed (a
  slot is free exactly when its pid is zero, no process occupies two slots, at most sixteen are
  listed), no request writes outside the array, and a listed process has asked for protection
  and was told that it has it.\<close>

theorem protect_interleaved_inv:
  assumes "protect_run protect_system_init evs s"
  shows "protect_wf (ps_list s) \<and> card (protected (ps_list s)) \<le> PROCESS_MAX_NUM
    \<and> (\<forall>pid k. ps_pc s pid = Got_Slot k \<or> ps_pc s pid = Found_Slot k \<longrightarrow> k < length (ps_list s))
    \<and> (\<forall>pid. pid \<in> protected (ps_list s) \<longrightarrow> Protect_Returns pid 0 \<in> set evs)"
proof -
  have inv: "system_inv s"
    using protect_run_inv [OF assms system_inv_init] .
  have "protected (ps_list protect_system_init) = {}"
    by (simp add: protect_system_init_def protected_initial)
  with run_protected [OF assms system_inv_init] inv card_protected_le show ?thesis
    by (auto simp: system_inv_def protect_wf_def)
qed

text \<open>The schedule of two first requests in which both find slot 0 free before either writes it.\<close>

lemma initial_searches:
  assumes "pid \<noteq> 0"
  shows "is_exist_list pid (replicate PROCESS_MAX_NUM zero_node) < 0"
    and "get_free_item (replicate PROCESS_MAX_NUM zero_node) = Some 0"
proof -
  show "is_exist_list pid (replicate PROCESS_MAX_NUM zero_node) < 0"
    using assms by (auto simp: is_exist_list_neg zero_node_def)
  show "get_free_item (replicate PROCESS_MAX_NUM zero_node) = Some 0"
    by (simp add: get_free_item_def PROCESS_MAX_NUM_def zero_node_def numeral_eq_Suc)
qed

lemma both_got_slot:
  assumes "p \<noteq> q" "p \<noteq> 0" "q \<noteq> 0"
  shows "protect_run protect_system_init [Protect_Returns p 0, Protect_Returns q 0]
    \<lparr>ps_list = (replicate PROCESS_MAX_NUM zero_node)[0 := \<lparr>pn_pid = q, pn_inuse = NODE_ITEM_USED\<rparr>],
     ps_pc = \<lambda>_. Idle\<rparr>"
proof -
  let ?ns = "replicate PROCESS_MAX_NUM zero_node"
  let ?st = "\<lambda>ns a b. \<lparr>ps_list = ns, ps_pc = (\<lambda>_. Idle)(p := a, q := b)\<rparr>"
  let ?p = "\<lparr>pn_pid = p, pn_inuse = NODE_ITEM_USED\<rparr>" and ?q = "\<lparr>pn_pid = q, pn_inuse = NODE_ITEM_USED\<rparr>"
  note searches = initial_searches [OF assms(2)] initial_searches [OF assms(3)]
  have 1: "protect_step (?st ?ns Idle Idle) Tau (?st ?ns Searched Idle)"
    using protect_search [of p "?st ?ns Idle Idle"] assms searches by (simp add: fun_upd_twist)
  have 2: "protect_step (?st ?ns Searched Idle) Tau (?st ?ns Searched Searched)"
    using protect_search [of q "?st ?ns Searched Idle"] assms searches by simp
  have 3: "protect_step (?st ?ns Searched Searched) Tau (?st ?ns (Got_Slot 0) Searched)"
    using protect_slot [of "?st ?ns Searched Searched" p 0] assms searches by (simp add: fun_upd_twist)
  have 4: "protect_step (?st ?ns (Got_Slot 0) Searched) Tau (?st ?ns (Got_Slot 0) (Got_Slot 0))"
    using protect_slot [of "?st ?ns (Got_Slot 0) Searched" q 0] assms searches by simp
  have 5: "protect_step (?st ?ns (Got_Slot 0) (Got_Slot 0)) (Protect_Returns p 0) (?st (?ns[0 := ?p]) Idle (Got_Slot 0))"
    using protect_write [of "?st ?ns (Got_Slot 0) (Got_Slot 0)" p 0] assms
    by (simp add: fun_upd_twist use_node_def)
  have 6: "protect_step (?st (?ns[0 := ?p]) Idle (Got_Slot 0)) (Protect_Returns q 0) (?st (?ns[0 := ?q]) Idle Idle)"
    using protect_write [of "?st (?ns[0 := ?p]) Idle (Got_Slot 0)" q 0] assms by (simp add: use_node_def)
  have start: "protect_system_init = ?st ?ns Idle Idle"
    by (simp add: protect_system_init_def fun_upd_idem)
  have "protect_run protect_system_init [Protect_Returns p 0, Protect_Returns q 0] (?st (?ns[0 := ?q]) Idle Idle)"
    unfolding start
    by (rule run_tau [OF 1], rule run_tau [OF 2], rule run_tau [OF 3], rule run_tau [OF 4],
        rule run_event [OF 5], simp, rule run_event [OF 6], simp, rule run_refl)
  then show ?thesis by (simp add: fun_upd_idem)
qed

text \<open>The slot is searched and written under different holds of the mutex, so for any two
  processes there is a schedule of their first requests in which both are told that they are
  protected and the first is not.\<close>

theorem protect_request_lost:
  assumes "p \<noteq> q" "p \<noteq> 0" "q \<noteq> 0"
  shows "\<exists>s. protect_run protect_system_init [Protect_Returns p 0, Protect_Returns q 0] s
    \<and> p \<notin> protected (ps_list s) \<and> is_exist_list p (ps_list s) < 0"
proof -
  have "p \<notin> pn_pid ` set ((replicate PROCESS_MAX_NUM zero_node)[0 := \<lparr>pn_pid = q, pn_inuse = NODE_ITEM_USED\<rparr>])"
    using assms by (auto simp: zero_node_def dest!: subsetD [OF set_update_subset_insert])
  then show ?thesis
    using both_got_slot [OF assms] by (intro exI conjI) (auto simp: is_exist_list_neg protected_def)
qed

theorem protect_request_lost_witness:
  "\<exists>s. protect_run protect_system_init [Protect_Returns 5 0, Protect_Returns 7 0] s
    \<and> 5 \<notin> protected (ps_list s) \<and> is_exist_list 5 (ps_list s) < 0"
  by (rule protect_request_lost) simp_all

theorem protect_interleaved_inv_witness:
  "let s = \<lparr>ps_list = (replicate PROCESS_MAX_NUM zero_node)[0 := \<lparr>pn_pid = 7, pn_inuse = NODE_ITEM_USED\<rparr>],
     ps_pc = \<lambda>_. Idle\<rparr> in protect_wf (ps_list s) \<and> card (protected (ps_list s)) \<le> PROCESS_MAX_NUM"
  using protect_interleaved_inv [OF both_got_slot [of 5 7]] by (simp add: Let_def)

end
