(* ===== verification/Wqueue.thy ===== *)
theory Wqueue
  imports Prelude "HOL-Library.Tree" "HOL-Library.Sublist"
begin

text \<open>
  Sharing of measurements in progress: tsb/kernel/smeasure/engine/smeasure_wqueue.c and the search
  tree below it, smeasure_rbtree.c. The first thread that asks for a file puts a node for it into
  the tree and measures; threads that ask for the same file meanwhile wait at the node and take
  over the result. Nodes live in a heap, counted by \<open>refer\<close>; an access to a freed
  node is the value \<open>None\<close>. The red-black tree library of the kernel is a
  parameter: \<open>rb_insert_color\<close> and \<open>rb_erase\<close>.
\<close>

section \<open>Search tree\<close>

type_synonym addr = nat
type_synonym key_compare = "byte list \<Rightarrow> byte list \<Rightarrow> int"

text \<open>The root holds nodes of the heap; \<open>key_of\<close> reads the key of a node there.\<close>

record smeasure_rbroot =
  rb_root :: "addr tree"
  rb_compare :: "key_compare option"

text \<open>The default comparison takes the first four bytes of the keys as integers.\<close>

definition key_int :: "byte list \<Rightarrow> int" where
  "key_int k = sint (word_rcat (rev (take 4 k)) :: u32)"

definition smeasure_rbtree_compare :: key_compare where
  "smeasure_rbtree_compare k1 k2 = sint (of_int (key_int k1 - key_int k2) :: u32)"

definition smeasure_rbtree_init :: "key_compare option \<Rightarrow> smeasure_rbroot" where
  "smeasure_rbtree_init compare =
     \<lparr>rb_root = Leaf,
      rb_compare = Some (case compare of Some c \<Rightarrow> c | None \<Rightarrow> smeasure_rbtree_compare)\<rparr>"

fun rbtree_search_loop :: "key_compare \<Rightarrow> (addr \<Rightarrow> byte list) \<Rightarrow> byte list \<Rightarrow> addr tree \<Rightarrow> addr option" where
  "rbtree_search_loop compare key_of key Leaf = None"
| "rbtree_search_loop compare key_of key (Node l data r) =
     (let result = compare key (key_of data)
      in if result = 0 then Some data
         else if result < 0 then rbtree_search_loop compare key_of key l
         else rbtree_search_loop compare key_of key r)"

definition smeasure_rbtree_search :: "(addr \<Rightarrow> byte list) \<Rightarrow> smeasure_rbroot \<Rightarrow> byte list \<Rightarrow> addr option" where
  "smeasure_rbtree_search key_of tree key =
     (case rb_compare tree of None \<Rightarrow> None
      | Some compare \<Rightarrow> rbtree_search_loop compare key_of key (rb_root tree))"

text \<open>The descent to the place of a new node and its linking there; the result of the last
  comparison is returned.\<close>

fun rbtree_link :: "key_compare \<Rightarrow> (addr \<Rightarrow> byte list) \<Rightarrow> addr \<Rightarrow> int \<Rightarrow> addr tree \<Rightarrow> int \<times> addr tree" where
  "rbtree_link compare key_of data result Leaf = (result, Node Leaf data Leaf)"
| "rbtree_link compare key_of data result (Node l this r) =
     (let res = compare (key_of data) (key_of this)
      in if res < 0 then (let (k, l') = rbtree_link compare key_of data res l in (k, Node l' this r))
         else (let (k, r') = rbtree_link compare key_of data res r in (k, Node l this r')))"

definition smeasure_rbtree_push ::
  "(addr \<Rightarrow> addr tree \<Rightarrow> addr tree) \<Rightarrow> (addr \<Rightarrow> byte list) \<Rightarrow> smeasure_rbroot \<Rightarrow> addr \<Rightarrow> int \<times> smeasure_rbroot" where
  "smeasure_rbtree_push rb_insert_color key_of tree data =
     (case rb_compare tree of None \<Rightarrow> (-12334, tree)
      | Some compare \<Rightarrow>
          let (result, root) = rbtree_link compare key_of data (-12334) (rb_root tree)
          in (result, tree\<lparr>rb_root := rb_insert_color data root\<rparr>))"

definition smeasure_rbtree_pop :: "(addr \<Rightarrow> addr tree \<Rightarrow> addr tree) \<Rightarrow> smeasure_rbroot \<Rightarrow> addr \<Rightarrow> smeasure_rbroot" where
  "smeasure_rbtree_pop rb_erase tree data = tree\<lparr>rb_root := rb_erase data (rb_root tree)\<rparr>"

text \<open>What the kernel's library promises: recolouring and rotating keep the order of the nodes,
  erasing removes one node and keeps the order of the others.\<close>

definition rb_lib_ok :: "(addr \<Rightarrow> addr tree \<Rightarrow> addr tree) \<Rightarrow> (addr \<Rightarrow> addr tree \<Rightarrow> addr tree) \<Rightarrow> bool" where
  "rb_lib_ok rb_insert_color rb_erase \<longleftrightarrow>
     (\<forall>a t. inorder (rb_insert_color a t) = inorder t)
     \<and> (\<forall>a t. inorder (rb_erase a t) = filter (\<lambda>b. b \<noteq> a) (inorder t))"

section \<open>Nodes and their operations\<close>

record smeasure_wqueue =
  wq_key :: "byte list"
  wq_refer :: nat
  wq_condition :: nat
  wq_result :: int

record wqueue_mem =
  wq_tree :: smeasure_rbroot
  wq_heap :: "addr \<Rightarrow> smeasure_wqueue option"

definition wq_key_of :: "wqueue_mem \<Rightarrow> addr \<Rightarrow> byte list" where
  "wq_key_of m a = (case wq_heap m a of Some n \<Rightarrow> wq_key n | None \<Rightarrow> [])"

fun memcmp :: "byte list \<Rightarrow> byte list \<Rightarrow> nat \<Rightarrow> int" where
  "memcmp (x # xs) (y # ys) (Suc n) = (if x < y then -1 else if y < x then 1 else memcmp xs ys n)"
| "memcmp xs ys n = 0"

definition smeasure_wqueue_tree_compare :: key_compare where
  "smeasure_wqueue_tree_compare k1 k2 =
     memcmp k1 k2 (if strlen k1 > strlen k2 then strlen k2 else strlen k1)"

text \<open>\<open>snprintf\<close> of a string into the 32 bytes of the key.\<close>

definition KEY_SIZE :: nat where "KEY_SIZE = 32"

definition snprintf_key :: "byte list \<Rightarrow> byte list" where
  "snprintf_key key = take (KEY_SIZE - 1) (cstr key)"

text \<open>\<open>alloc\<close> is the address \<open>kzalloc\<close> returns, or \<open>None\<close>.\<close>

definition smeasure_wqueue_node_create :: "addr option \<Rightarrow> byte list \<Rightarrow> wqueue_mem \<Rightarrow> addr option \<times> wqueue_mem" where
  "smeasure_wqueue_node_create alloc key m =
     (case alloc of None \<Rightarrow> (None, m)
      | Some a \<Rightarrow> (Some a, m\<lparr>wq_heap := (wq_heap m)(a \<mapsto>
            \<lparr>wq_key = snprintf_key key, wq_refer = 1, wq_condition = 0, wq_result = 0\<rparr>)\<rparr>))"

definition smeasure_wqueue_node_search ::
  "(addr \<Rightarrow> addr tree \<Rightarrow> addr tree) \<Rightarrow> addr option \<Rightarrow> byte list \<Rightarrow> wqueue_mem \<Rightarrow> addr option \<times> nat \<times> wqueue_mem" where
  "smeasure_wqueue_node_search rb_insert_color alloc key m =
     (case smeasure_rbtree_search (wq_key_of m) (wq_tree m) key of
        Some q \<Rightarrow> (Some q, 1, m\<lparr>wq_heap := (wq_heap m)(q := map_option (\<lambda>n. n\<lparr>wq_refer := wrap32 (wq_refer n + 1)\<rparr>) (wq_heap m q))\<rparr>)
      | None \<Rightarrow>
          (case smeasure_wqueue_node_create alloc key m of
             (None, m1) \<Rightarrow> (None, 2, m1)
           | (Some q, m1) \<Rightarrow>
               (Some q, 3, m1\<lparr>wq_tree := snd (smeasure_rbtree_push rb_insert_color (wq_key_of m1) (wq_tree m1) q)\<rparr>)))"

text \<open>\<open>refer\<close> is an unsigned integer: its decrement wraps.\<close>

definition dec32 :: "nat \<Rightarrow> nat" where
  "dec32 n = wrap32 (n + (2 ^ 32 - 1))"

text \<open>
  The wake-up in its three parts: under the lock of the tree, under the lock of the nodes, and the
  call of \<open>wake_up\<close> after both locks are released. The second part says whether the third follows.
\<close>

definition wake_up_pop :: "(addr \<Rightarrow> addr tree \<Rightarrow> addr tree) \<Rightarrow> addr \<Rightarrow> wqueue_mem \<Rightarrow> wqueue_mem" where
  "wake_up_pop rb_erase q m = m\<lparr>wq_tree := smeasure_rbtree_pop rb_erase (wq_tree m) q\<rparr>"

definition wake_up_mark :: "addr \<Rightarrow> int \<Rightarrow> wqueue_mem \<Rightarrow> (bool \<times> wqueue_mem) option" where
  "wake_up_mark q ret m =
     (case wq_heap m q of None \<Rightarrow> None
      | Some n \<Rightarrow>
          let n' = n\<lparr>wq_condition := 1, wq_refer := dec32 (wq_refer n), wq_result := ret\<rparr>
          in if wq_refer n' = 0 then Some (False, m\<lparr>wq_heap := (wq_heap m)(q := None)\<rparr>)
             else Some (True, m\<lparr>wq_heap := (wq_heap m)(q \<mapsto> n')\<rparr>))"

definition wake_up_wait :: "addr \<Rightarrow> wqueue_mem \<Rightarrow> wqueue_mem option" where
  "wake_up_wait q m = (if wq_heap m q = None then None else Some m)"

definition smeasure_wqueue_wake_up ::
  "(addr \<Rightarrow> addr tree \<Rightarrow> addr tree) \<Rightarrow> addr \<Rightarrow> int \<Rightarrow> wqueue_mem \<Rightarrow> wqueue_mem option" where
  "smeasure_wqueue_wake_up rb_erase q ret m =
     (case wake_up_mark q ret (wake_up_pop rb_erase q m) of None \<Rightarrow> None
      | Some (waiters, m1) \<Rightarrow> if waiters then wake_up_wait q m1 else Some m1)"

definition smeasure_wqueue_node_clean :: "addr \<Rightarrow> wqueue_mem \<Rightarrow> (int \<times> wqueue_mem) option" where
  "smeasure_wqueue_node_clean q m =
     (case wq_heap m q of None \<Rightarrow> None
      | Some n \<Rightarrow>
          let n' = n\<lparr>wq_refer := dec32 (wq_refer n)\<rparr>
          in Some (wq_result n, m\<lparr>wq_heap := (wq_heap m)(q := if wq_refer n' = 0 then None else Some n')\<rparr>))"

definition smeasure_wqueue_init :: "wqueue_mem \<Rightarrow> wqueue_mem" where
  "smeasure_wqueue_init m = m\<lparr>wq_tree := smeasure_rbtree_init (Some smeasure_wqueue_tree_compare)\<rparr>"

text \<open>
  \<open>wait\<close> is what the other threads do to the memory until the condition of the node is set.
  The caller's variables \<open>ret\<close> and \<open>t\<close> keep their values where the code does not write them.
\<close>

definition smeasure_wqueue_handle ::
  "(addr \<Rightarrow> addr tree \<Rightarrow> addr tree) \<Rightarrow> addr option \<Rightarrow> (addr \<Rightarrow> wqueue_mem \<Rightarrow> wqueue_mem)
   \<Rightarrow> byte list \<Rightarrow> int \<Rightarrow> int \<Rightarrow> wqueue_mem \<Rightarrow> (addr option \<times> int \<times> int \<times> wqueue_mem) option" where
  "smeasure_wqueue_handle rb_insert_color alloc wait path ret t m =
     (case smeasure_wqueue_node_search rb_insert_color alloc path m of (queue, flag, m1) \<Rightarrow>
        case queue of
          None \<Rightarrow> if flag = 2 then Some (None, ret, 2, m1) else Some (None, ret, t, m1)
        | Some q \<Rightarrow>
            if flag = 3 then Some (Some q, ret, t, m1)
            else if flag = 1 then
              (case smeasure_wqueue_node_clean q (wait q m1) of None \<Rightarrow> None
               | Some (r, m2) \<Rightarrow> Some (None, r, 3, m2))
            else Some (None, ret, t, m1))"

section \<open>Ordered keys\<close>

text \<open>
  What the tree needs of a comparison: swapping the arguments swaps the sign, and \<open>less\<close>
  is transitive. Being equal need not be transitive.
\<close>

locale key_order =
  fixes cmp :: key_compare
  assumes cmp_swap: "cmp a b = - cmp b a"
    and cmp_trans: "cmp a b < 0 \<Longrightarrow> cmp b c < 0 \<Longrightarrow> cmp a c < 0"
begin

lemma cmp_refl: "cmp a a = 0"
  using cmp_swap [of a a] by simp

definition ordered :: "(addr \<Rightarrow> byte list) \<Rightarrow> addr list \<Rightarrow> bool" where
  "ordered key_of xs \<longleftrightarrow> sorted_wrt (\<lambda>a b. cmp (key_of a) (key_of b) < 0) xs"

lemma search_sound:
  "rbtree_search_loop cmp key_of key t = Some a \<Longrightarrow> a \<in> set (inorder t) \<and> cmp key (key_of a) = 0"
  by (induction t) (auto simp: Let_def split: if_splits)

lemma search_complete:
  assumes "ordered key_of (inorder t)" "rbtree_search_loop cmp key_of key t = None" "a \<in> set (inorder t)"
  shows "cmp key (key_of a) \<noteq> 0"
  using assms
proof (induction t)
  case (Node l x r)
  show ?case
  proof
    assume eq: "cmp key (key_of a) = 0"
    with Node.prems Node.IH have nz: "cmp key (key_of x) \<noteq> 0" "a \<noteq> x"
      by (auto simp: Let_def split: if_splits)
    show False
    proof (cases "cmp key (key_of x) < 0")
      case True
      with Node.prems eq Node.IH(1) have "a \<in> set (inorder r)"
        using nz by (auto simp: ordered_def sorted_wrt_append)
      then have "cmp (key_of x) (key_of a) < 0"
        using Node.prems by (auto simp: ordered_def sorted_wrt_append)
      with True eq cmp_trans show False by fastforce
    next
      case False
      with Node.prems eq Node.IH(2) have "a \<in> set (inorder l)"
        using nz by (auto simp: ordered_def sorted_wrt_append)
      then have "cmp (key_of a) (key_of x) < 0"
        using Node.prems by (auto simp: ordered_def sorted_wrt_append)
      moreover have "cmp (key_of x) key < 0"
        using False nz cmp_swap [of key "key_of x"] by linarith
      ultimately have "cmp (key_of a) key < 0" by (rule cmp_trans)
      with eq cmp_swap [of key "key_of a"] show False by simp
    qed
  qed
qed simp

lemma link_set: "set (inorder (snd (rbtree_link cmp key_of a k t))) = insert a (set (inorder t))"
  by (induction t arbitrary: k) (auto simp: Let_def split_beta)

lemma link_ordered:
  assumes "ordered key_of (inorder t)" "\<forall>b\<in>set (inorder t). cmp (key_of a) (key_of b) \<noteq> 0"
  shows "ordered key_of (inorder (snd (rbtree_link cmp key_of a k t)))"
  using assms
proof (induction t arbitrary: k)
  case (Node l x r)
  let ?res = "cmp (key_of a) (key_of x)"
  have parts: "ordered key_of (inorder l)" "ordered key_of (inorder r)"
    using Node.prems by (auto simp: ordered_def sorted_wrt_append)
  note IH = Node.IH(1) [OF parts(1), of ?res] Node.IH(2) [OF parts(2), of ?res]
  show ?case
  proof (cases "?res < 0")
    case True
    then have "\<forall>b\<in>set (inorder r). cmp (key_of a) (key_of b) < 0"
      using Node.prems cmp_trans by (fastforce simp: ordered_def sorted_wrt_append)
    with True IH(1) Node.prems show ?thesis
      using link_set [of key_of a ?res l]
      by (auto simp: Let_def ordered_def sorted_wrt_append split_beta)
  next
    case False
    then have "cmp (key_of x) (key_of a) < 0"
      using Node.prems cmp_swap [of "key_of a" "key_of x"] by auto
    moreover have "\<forall>b\<in>set (inorder l). cmp (key_of b) (key_of x) < 0"
      using Node.prems by (auto simp: ordered_def sorted_wrt_append)
    ultimately have "cmp (key_of x) (key_of a) < 0" "\<forall>b\<in>set (inorder l). cmp (key_of b) (key_of a) < 0"
      using cmp_trans by blast+
    with False IH(2) Node.prems show ?thesis
      using link_set [of key_of a ?res r]
      by (auto simp: Let_def ordered_def sorted_wrt_append split_beta)
  qed
qed (simp add: ordered_def)

lemma ordered_filter: "ordered key_of xs \<Longrightarrow> ordered key_of (filter P xs)"
  by (simp add: ordered_def sorted_wrt_filter)

lemma ordered_distinct: "ordered key_of xs \<Longrightarrow> distinct xs"
  by (induction xs) (auto simp: ordered_def cmp_refl)

lemma ordered_cmp:
  "ordered key_of xs \<Longrightarrow> a \<in> set xs \<Longrightarrow> b \<in> set xs \<Longrightarrow> a \<noteq> b \<Longrightarrow> cmp (key_of a) (key_of b) \<noteq> 0"
proof (induction xs)
  case (Cons x xs)
  then show ?case
    using cmp_swap [of "key_of a" "key_of b"] by (auto simp: ordered_def)
qed simp

lemma ordered_cong:
  "ordered key_of xs \<Longrightarrow> (\<forall>a\<in>set xs. key_of' a = key_of a) \<Longrightarrow> ordered key_of' xs"
  by (induction xs) (auto simp: ordered_def)

end

text \<open>The comparison of the queue is the comparison of strings up to the end of the shorter one:
  a string is equal to each of its prefixes.\<close>

fun prefix_cmp :: key_compare where
  "prefix_cmp (x # xs) (y # ys) = (if x < y then -1 else if y < x then 1 else prefix_cmp xs ys)"
| "prefix_cmp xs ys = 0"

lemma prefix_cmp_Nil: "min (length a) (length b) = 0 \<Longrightarrow> prefix_cmp a b = 0"
  by (cases a; cases b) auto

lemma memcmp_prefix_cmp:
  "n = min (length (cstr xs)) (length (cstr ys)) \<Longrightarrow> memcmp xs ys n = prefix_cmp (cstr xs) (cstr ys)"
proof (induction xs ys n rule: memcmp.induct)
  case (1 x xs y ys n)
  then have nz: "x \<noteq> 0" "y \<noteq> 0" by (auto simp: cstr_Cons split: if_splits)
  with "1.prems" have "n = min (length (cstr xs)) (length (cstr ys))" by (simp add: cstr_Cons)
  with 1 nz show ?case by (auto simp: cstr_Cons)
qed (auto simp: cstr_Cons prefix_cmp_Nil split: if_splits)

lemma tree_compare_prefix_cmp: "smeasure_wqueue_tree_compare k1 k2 = prefix_cmp (cstr k1) (cstr k2)"
  unfolding smeasure_wqueue_tree_compare_def strlen_def by (rule memcmp_prefix_cmp) simp

lemma prefix_cmp_swap: "prefix_cmp a b = - prefix_cmp b a"
  by (induction a b rule: prefix_cmp.induct) auto

lemma prefix_cmp_trans: "prefix_cmp a b < 0 \<Longrightarrow> prefix_cmp b c < 0 \<Longrightarrow> prefix_cmp a c < 0"
proof (induction a b arbitrary: c rule: prefix_cmp.induct)
  case (1 x xs y ys)
  then show ?case by (cases c) (auto split: if_splits)
qed auto

lemma prefix_cmp_0: "prefix_cmp a b = 0 \<longleftrightarrow> prefix a b \<or> prefix b a"
  by (induction a b rule: prefix_cmp.induct) auto

lemma prefix_cmp_extend:
  "prefix_cmp t u \<noteq> 0 \<Longrightarrow> prefix_cmp (t @ k) u = prefix_cmp t u"
  by (induction t u rule: prefix_cmp.induct) auto

interpretation wqo: key_order smeasure_wqueue_tree_compare
  by unfold_locales (unfold tree_compare_prefix_cmp, rule prefix_cmp_swap, rule prefix_cmp_trans)

definition same_key :: "byte list \<Rightarrow> byte list \<Rightarrow> bool" where
  "same_key a b \<longleftrightarrow> prefix (cstr a) (cstr b) \<or> prefix (cstr b) (cstr a)"

lemma compare_0: "smeasure_wqueue_tree_compare a b = 0 \<longleftrightarrow> same_key a b"
  by (simp add: tree_compare_prefix_cmp prefix_cmp_0 same_key_def)

lemma cstr_snprintf_key: "cstr (snprintf_key key) = take (KEY_SIZE - 1) (cstr key)"
  unfolding snprintf_key_def
  by (rule cstr_no_nul) (auto simp: no_nul_def cstr_def dest!: in_set_takeD set_takeWhileD)

text \<open>Against the keys of the tree, which are at most 31 bytes long, the shortened key of a file
  compares as its whole path does.\<close>

lemma same_key_snprintf:
  assumes "length (cstr t) < KEY_SIZE" "same_key (snprintf_key k) t"
  shows "same_key k t"
proof (cases "length (cstr k) < KEY_SIZE - 1")
  case True
  with assms(2) show ?thesis by (simp add: same_key_def cstr_snprintf_key)
next
  case False
  let ?k = "take (KEY_SIZE - 1) (cstr k)"
  from False have "length ?k = KEY_SIZE - 1" by simp
  with assms(1) have "prefix ?k (cstr t) \<Longrightarrow> ?k = cstr t"
    by (auto simp: prefix_def KEY_SIZE_def)
  with assms(2) have "prefix (cstr t) ?k"
    by (auto simp: same_key_def cstr_snprintf_key)
  then show ?thesis
    using take_is_prefix prefix_order.trans by (fastforce simp: same_key_def)
qed

section \<open>Interleaved threads\<close>

text \<open>
  Where a thread stands: measuring a file as the owner of its node, having taken the node out of
  the tree with the result of the measurement, about to call \<open>wake_up\<close>, waiting at a node, or
  past the wait. The memory of the nodes is shared. An event is a result posted for a path, a
  result a waiting thread returned with, or a failed allocation.
\<close>

datatype wq_pc =
    Wq_Idle
  | Measuring addr "byte list"
  | Popped addr "byte list" int
  | Waking addr
  | Waiting addr "byte list"
  | Woken addr "byte list"

datatype wq_event =
    Wq_Tau
  | Posted "byte list" int
  | Shared "byte list" int
  | No_Memory

record wq_system =
  wq_mem :: wqueue_mem
  wq_pcs :: "wq_pc list"

inductive wq_step ::
  "(addr \<Rightarrow> addr tree \<Rightarrow> addr tree) \<Rightarrow> (addr \<Rightarrow> addr tree \<Rightarrow> addr tree) \<Rightarrow> wq_system \<Rightarrow> wq_event \<Rightarrow> wq_system \<Rightarrow> bool"
  for rbi rbe where
  wq_first:
    "\<lbrakk>i < length (wq_pcs s); wq_pcs s ! i = Wq_Idle; wq_heap (wq_mem s) a = None;
      smeasure_wqueue_node_search rbi (Some a) path (wq_mem s) = (Some q, 3, m)\<rbrakk>
     \<Longrightarrow> wq_step rbi rbe s Wq_Tau \<lparr>wq_mem = m, wq_pcs = (wq_pcs s)[i := Measuring q path]\<rparr>"
| wq_nomem:
    "\<lbrakk>i < length (wq_pcs s); wq_pcs s ! i = Wq_Idle;
      smeasure_wqueue_node_search rbi None path (wq_mem s) = (None, 2, m)\<rbrakk>
     \<Longrightarrow> wq_step rbi rbe s No_Memory \<lparr>wq_mem = m, wq_pcs = wq_pcs s\<rparr>"
| wq_wait:
    "\<lbrakk>i < length (wq_pcs s); wq_pcs s ! i = Wq_Idle;
      smeasure_wqueue_node_search rbi alloc path (wq_mem s) = (Some q, 1, m)\<rbrakk>
     \<Longrightarrow> wq_step rbi rbe s Wq_Tau \<lparr>wq_mem = m, wq_pcs = (wq_pcs s)[i := Waiting q path]\<rparr>"
| wq_pop:
    "\<lbrakk>i < length (wq_pcs s); wq_pcs s ! i = Measuring q path\<rbrakk>
     \<Longrightarrow> wq_step rbi rbe s Wq_Tau
           \<lparr>wq_mem = wake_up_pop rbe q (wq_mem s), wq_pcs = (wq_pcs s)[i := Popped q path ret]\<rparr>"
| wq_mark:
    "\<lbrakk>i < length (wq_pcs s); wq_pcs s ! i = Popped q path ret; wake_up_mark q ret (wq_mem s) = Some (w, m)\<rbrakk>
     \<Longrightarrow> wq_step rbi rbe s (Posted path ret)
           \<lparr>wq_mem = m, wq_pcs = (wq_pcs s)[i := if w then Waking q else Wq_Idle]\<rparr>"
| wq_wake:
    "\<lbrakk>i < length (wq_pcs s); wq_pcs s ! i = Waking q\<rbrakk>
     \<Longrightarrow> wq_step rbi rbe s Wq_Tau \<lparr>wq_mem = wq_mem s, wq_pcs = (wq_pcs s)[i := Wq_Idle]\<rparr>"
| wq_woken:
    "\<lbrakk>i < length (wq_pcs s); wq_pcs s ! i = Waiting q path;
      wq_heap (wq_mem s) q = Some n; wq_condition n \<noteq> 0\<rbrakk>
     \<Longrightarrow> wq_step rbi rbe s Wq_Tau \<lparr>wq_mem = wq_mem s, wq_pcs = (wq_pcs s)[i := Woken q path]\<rparr>"
| wq_clean:
    "\<lbrakk>i < length (wq_pcs s); wq_pcs s ! i = Woken q path;
      smeasure_wqueue_node_clean q (wq_mem s) = Some (r, m)\<rbrakk>
     \<Longrightarrow> wq_step rbi rbe s (Shared path r) \<lparr>wq_mem = m, wq_pcs = (wq_pcs s)[i := Wq_Idle]\<rparr>"

inductive wq_run ::
  "(addr \<Rightarrow> addr tree \<Rightarrow> addr tree) \<Rightarrow> (addr \<Rightarrow> addr tree \<Rightarrow> addr tree) \<Rightarrow> nat \<Rightarrow> wq_event list \<Rightarrow> wq_system \<Rightarrow> bool"
  for rbi rbe threads where
  wq_start: "wq_run rbi rbe threads []
    \<lparr>wq_mem = smeasure_wqueue_init \<lparr>wq_tree = tr, wq_heap = Map.empty\<rparr>, wq_pcs = replicate threads Wq_Idle\<rparr>"
| wq_next: "\<lbrakk>wq_run rbi rbe threads evs s; wq_step rbi rbe s e s'\<rbrakk> \<Longrightarrow> wq_run rbi rbe threads (evs @ [e]) s'"

text \<open>The threads that own a node and the threads that wait at it hold a reference.\<close>

fun owns :: "addr \<Rightarrow> wq_pc \<Rightarrow> bool" where
  "owns a (Measuring b p) = (a = b)"
| "owns a (Popped b p r) = (a = b)"
| "owns a _ = False"

fun waits :: "addr \<Rightarrow> wq_pc \<Rightarrow> bool" where
  "waits a (Waiting b p) = (a = b)"
| "waits a (Woken b p) = (a = b)"
| "waits a _ = False"

definition count_pc :: "(wq_pc \<Rightarrow> bool) \<Rightarrow> wq_pc list \<Rightarrow> nat" where
  "count_pc P pcs = length (filter P pcs)"

definition node_ok :: "wq_pc list \<Rightarrow> addr \<Rightarrow> smeasure_wqueue option \<Rightarrow> bool" where
  "node_ok pcs a x \<longleftrightarrow> (case x of
     None \<Rightarrow> count_pc (owns a) pcs = 0 \<and> count_pc (waits a) pcs = 0
   | Some n \<Rightarrow> wq_refer n = count_pc (owns a) pcs + count_pc (waits a) pcs
       \<and> wq_refer n > 0 \<and> length (cstr (wq_key n)) < KEY_SIZE
       \<and> count_pc (owns a) pcs = (if wq_condition n = 0 then 1 else 0))"

abbreviation tree_nodes :: "wqueue_mem \<Rightarrow> addr list" where
  "tree_nodes m \<equiv> inorder (rb_root (wq_tree m))"

definition pc_ok :: "wqueue_mem \<Rightarrow> wq_pc \<Rightarrow> bool" where
  "pc_ok m pc \<longleftrightarrow> (case pc of
     Measuring a p \<Rightarrow> wq_key_of m a = snprintf_key p
   | Popped a p r \<Rightarrow> wq_key_of m a = snprintf_key p
   | Waiting a p \<Rightarrow> same_key p (wq_key_of m a)
   | Woken a p \<Rightarrow> same_key p (wq_key_of m a) \<and> (\<exists>n. wq_heap m a = Some n \<and> wq_condition n \<noteq> 0)
   | _ \<Rightarrow> True)"

text \<open>The counts of the nodes, the order of the tree, and what the threads know.\<close>

definition counts_ok :: "wqueue_mem \<Rightarrow> wq_pc list \<Rightarrow> bool" where
  "counts_ok m pcs \<longleftrightarrow> length pcs < 2 ^ 32 \<and> (\<forall>a. node_ok pcs a (wq_heap m a))"

definition tree_ok :: "wqueue_mem \<Rightarrow> wq_pc list \<Rightarrow> bool" where
  "tree_ok m pcs \<longleftrightarrow> rb_compare (wq_tree m) = Some smeasure_wqueue_tree_compare
     \<and> wqo.ordered (wq_key_of m) (tree_nodes m)
     \<and> (\<forall>a. a \<in> set (tree_nodes m) \<longleftrightarrow> (\<exists>p. Measuring a p \<in> set pcs))"

definition results_ok :: "wq_event list \<Rightarrow> wqueue_mem \<Rightarrow> bool" where
  "results_ok evs m \<longleftrightarrow> (\<forall>a n. wq_heap m a = Some n \<and> wq_condition n \<noteq> 0 \<longrightarrow>
     (\<exists>q. Posted q (wq_result n) \<in> set evs \<and> wq_key n = snprintf_key q))"

definition wq_inv :: "wq_event list \<Rightarrow> wq_system \<Rightarrow> bool" where
  "wq_inv evs s \<longleftrightarrow> counts_ok (wq_mem s) (wq_pcs s) \<and> tree_ok (wq_mem s) (wq_pcs s)
     \<and> (\<forall>pc\<in>set (wq_pcs s). pc_ok (wq_mem s) pc) \<and> results_ok evs (wq_mem s)"

section \<open>Counting threads\<close>

lemma count_pc_upd:
  assumes "i < length pcs"
  shows "count_pc P (pcs[i := pc]) + of_bool (P (pcs ! i)) = count_pc P pcs + of_bool (P pc)"
  using assms
proof (induction pcs arbitrary: i)
  case (Cons x xs)
  then show ?case by (cases i) (auto simp: count_pc_def)
qed simp

lemma count_pc_0: "count_pc P pcs = 0 \<longleftrightarrow> (\<forall>pc\<in>set pcs. \<not> P pc)"
  by (simp add: count_pc_def filter_empty_conv)

lemma count_owns_waits: "count_pc (owns a) pcs + count_pc (waits a) pcs \<le> length pcs"
proof (induction pcs)
  case (Cons pc pcs)
  then show ?case by (cases pc) (auto simp: count_pc_def)
qed (simp add: count_pc_def)

lemma count_pc_two:
  assumes "i < length pcs" "j < length pcs" "i \<noteq> j" "P (pcs ! i)" "P (pcs ! j)"
  shows "2 \<le> count_pc P pcs"
proof -
  have "card {i, j} \<le> card {k. k < length pcs \<and> P (pcs ! k)}"
    using assms by (intro card_mono) auto
  with assms(3) show ?thesis by (simp add: count_pc_def length_filter_conv_card)
qed

lemma dec32_pos: "0 < n \<Longrightarrow> n < 2 ^ 32 \<Longrightarrow> dec32 n = n - 1"
  by (cases n) (simp_all add: dec32_def wrap32_def)

lemma counts_okD:
  assumes "counts_ok m pcs" "wq_heap m a = Some n"
  shows "wq_refer n = count_pc (owns a) pcs + count_pc (waits a) pcs" "0 < wq_refer n" "wq_refer n < 2 ^ 32"
    "length (cstr (wq_key n)) < KEY_SIZE" "count_pc (owns a) pcs = (if wq_condition n = 0 then 1 else 0)"
proof -
  have "node_ok pcs a (Some n)" "length pcs < 2 ^ 32"
    using assms by (auto simp: counts_ok_def dest: spec [of _ a])
  then have ok: "wq_refer n = count_pc (owns a) pcs + count_pc (waits a) pcs" "0 < wq_refer n"
      "length (cstr (wq_key n)) < KEY_SIZE" "count_pc (owns a) pcs = (if wq_condition n = 0 then 1 else 0)"
    and len: "length pcs < 2 ^ 32"
    unfolding node_ok_def option.case by blast+
  from ok show "wq_refer n = count_pc (owns a) pcs + count_pc (waits a) pcs" "0 < wq_refer n"
    "length (cstr (wq_key n)) < KEY_SIZE" "count_pc (owns a) pcs = (if wq_condition n = 0 then 1 else 0)" .
  show "wq_refer n < 2 ^ 32"
    unfolding ok(1) using count_owns_waits len by (rule le_less_trans)
qed

lemma live_node:
  assumes "counts_ok m pcs" "pc \<in> set pcs" "owns a pc \<or> waits a pc"
  obtains n where "wq_heap m a = Some n"
proof (cases "wq_heap m a")
  case None
  then have "node_ok pcs a None" using assms(1) by (auto simp: counts_ok_def dest: spec [of _ a])
  with assms(2,3) show ?thesis by (auto simp: node_ok_def count_pc_0)
qed

lemma one_owner:
  assumes "counts_ok m pcs" "i < length pcs" "j < length pcs" "owns a (pcs ! i)" "owns a (pcs ! j)"
  shows "i = j"
proof (rule ccontr)
  assume "i \<noteq> j"
  then have "2 \<le> count_pc (owns a) pcs" using assms by (intro count_pc_two [of i pcs j]) auto
  moreover obtain n where "wq_heap m a = Some n"
    by (rule live_node [OF assms(1) nth_mem [OF assms(2)], of a]) (use assms in auto)
  ultimately show False using counts_okD(5) [OF assms(1)] by (auto split: if_splits)
qed

section \<open>The sections under the locks\<close>

lemma tree_node_live:
  assumes "counts_ok m pcs" "tree_ok m pcs" "a \<in> set (tree_nodes m)"
  obtains n where "wq_heap m a = Some n" "wq_condition n = 0"
proof -
  from assms obtain p where p: "Measuring a p \<in> set pcs" by (auto simp: tree_ok_def)
  then obtain n where n: "wq_heap m a = Some n"
    by (rule live_node [OF assms(1), where a = a]) simp
  have "count_pc (owns a) pcs \<noteq> 0" using p by (auto simp: count_pc_0 intro!: bexI [of _ "Measuring a p"])
  with counts_okD(5) [OF assms(1) n] have "wq_condition n = 0" by (simp split: if_splits)
  with n that show ?thesis by blast
qed

lemma search_hit:
  assumes "tree_ok m pcs" "smeasure_wqueue_node_search rbi alloc path m = (Some q, 1, m')"
  shows "q \<in> set (tree_nodes m)" "same_key path (wq_key_of m q)"
    "m' = m\<lparr>wq_heap := (wq_heap m)(q := map_option (\<lambda>n. n\<lparr>wq_refer := wrap32 (wq_refer n + 1)\<rparr>) (wq_heap m q))\<rparr>"
proof -
  have "rbtree_search_loop smeasure_wqueue_tree_compare (wq_key_of m) path (rb_root (wq_tree m)) = Some q
    \<and> m' = m\<lparr>wq_heap := (wq_heap m)(q := map_option (\<lambda>n. n\<lparr>wq_refer := wrap32 (wq_refer n + 1)\<rparr>) (wq_heap m q))\<rparr>"
    using assms
    by (auto simp: smeasure_wqueue_node_search_def smeasure_rbtree_search_def tree_ok_def
             split: option.splits prod.splits)
  with wqo.search_sound [of "wq_key_of m" path "rb_root (wq_tree m)" q]
  show "q \<in> set (tree_nodes m)" "same_key path (wq_key_of m q)"
    "m' = m\<lparr>wq_heap := (wq_heap m)(q := map_option (\<lambda>n. n\<lparr>wq_refer := wrap32 (wq_refer n + 1)\<rparr>) (wq_heap m q))\<rparr>"
    by (auto simp: compare_0)
qed

definition new_node :: "byte list \<Rightarrow> smeasure_wqueue" where
  "new_node path = \<lparr>wq_key = snprintf_key path, wq_refer = 1, wq_condition = 0, wq_result = 0\<rparr>"

lemma search_miss:
  assumes "tree_ok m pcs" "counts_ok m pcs" "rb_lib_ok rbi rbe" "wq_heap m a = None"
    and "smeasure_wqueue_node_search rbi (Some a) path m = (Some q, 3, m')"
  shows "q = a" "wq_heap m' = (wq_heap m)(a \<mapsto> new_node path)"
    "set (tree_nodes m') = insert a (set (tree_nodes m))"
    "rb_compare (wq_tree m') = Some smeasure_wqueue_tree_compare"
    "wqo.ordered (wq_key_of m') (tree_nodes m')"
proof -
  let ?cmp = smeasure_wqueue_tree_compare
  have cmp: "rb_compare (wq_tree m) = Some ?cmp" using assms(1) by (simp add: tree_ok_def)
  let ?m1 = "m\<lparr>wq_heap := (wq_heap m)(a \<mapsto> new_node path)\<rparr>"
  have none: "rbtree_search_loop ?cmp (wq_key_of m) path (rb_root (wq_tree m)) = None"
    and m': "q = a" "m' = ?m1\<lparr>wq_tree := snd (smeasure_rbtree_push rbi (wq_key_of ?m1) (wq_tree m) a)\<rparr>"
    using assms(5) cmp
    by (auto simp: smeasure_wqueue_node_search_def smeasure_rbtree_search_def smeasure_wqueue_node_create_def
                   new_node_def split: option.splits prod.splits)
  let ?root = "snd (rbtree_link ?cmp (wq_key_of ?m1) a (-12334) (rb_root (wq_tree m)))"
  have root: "tree_nodes m' = inorder ?root"
    using assms(3) cmp by (simp add: m' smeasure_rbtree_push_def split_beta Let_def rb_lib_ok_def)
  have key': "wq_key_of m' = wq_key_of ?m1" by (simp add: m' wq_key_of_def fun_eq_iff)
  have keys: "wq_key_of ?m1 b = wq_key_of m b" "\<not> same_key (snprintf_key path) (wq_key_of m b)"
    if b: "b \<in> set (tree_nodes m)" for b
  proof -
    obtain n where n: "wq_heap m b = Some n" "wq_condition n = 0"
      by (rule tree_node_live [OF assms(2,1) b])
    with assms(4) show "wq_key_of ?m1 b = wq_key_of m b" by (auto simp: wq_key_of_def)
    have "\<not> same_key path (wq_key_of m b)"
      using wqo.search_complete [OF _ none b] assms(1) by (simp add: tree_ok_def compare_0)
    with counts_okD(4) [OF assms(2) n(1)] n show "\<not> same_key (snprintf_key path) (wq_key_of m b)"
      using same_key_snprintf [of "wq_key n" path] by (auto simp: wq_key_of_def)
  qed
  have new: "wq_key_of ?m1 a = snprintf_key path" by (simp add: wq_key_of_def new_node_def)
  have "wqo.ordered (wq_key_of ?m1) (tree_nodes m)"
    by (rule wqo.ordered_cong [of "wq_key_of m"]) (use assms(1) in \<open>simp add: tree_ok_def\<close>, intro ballI keys(1))
  then show "wqo.ordered (wq_key_of m') (tree_nodes m')"
    unfolding root key' by (rule wqo.link_ordered) (use keys new in \<open>auto simp: compare_0\<close>)
  show "q = a" "wq_heap m' = (wq_heap m)(a \<mapsto> new_node path)"
    by (simp_all add: m')
  show "set (tree_nodes m') = insert a (set (tree_nodes m))"
    unfolding root by (rule wqo.link_set)
  show "rb_compare (wq_tree m') = Some ?cmp"
    using cmp by (simp add: m' smeasure_rbtree_push_def split_beta Let_def)
qed

section \<open>Invariant\<close>

lemma node_ok_other:
  assumes "i < length pcs" "owns b (pcs ! i) = owns b pc" "waits b (pcs ! i) = waits b pc"
  shows "node_ok (pcs[i := pc]) b x = node_ok pcs b x"
  using assms count_pc_upd [OF assms(1), of "owns b" pc] count_pc_upd [OF assms(1), of "waits b" pc]
  by (cases x) (simp_all add: node_ok_def)

lemma counts_ok_upd:
  assumes "counts_ok m pcs" "i < length pcs"
    and "\<forall>b. b \<noteq> q \<longrightarrow> wq_heap m' b = wq_heap m b"
    and "\<forall>b. b \<noteq> q \<longrightarrow> owns b (pcs ! i) = owns b pc \<and> waits b (pcs ! i) = waits b pc"
    and "node_ok (pcs[i := pc]) q (wq_heap m' q)"
  shows "counts_ok m' (pcs[i := pc])"
proof -
  have "node_ok (pcs[i := pc]) b (wq_heap m' b)" for b
    using assms node_ok_other [OF assms(2), of b pc] by (cases "b = q") (auto simp: counts_ok_def)
  with assms(1) show ?thesis by (simp add: counts_ok_def)
qed

lemma counts_ok_same:
  assumes "counts_ok m pcs" "i < length pcs" "wq_heap m' = wq_heap m"
    and "\<forall>b. owns b (pcs ! i) = owns b pc \<and> waits b (pcs ! i) = waits b pc"
  shows "counts_ok m' (pcs[i := pc])"
  using assms by (auto simp: counts_ok_def node_ok_other)

text \<open>What a step keeps of a node that lives before and after it.\<close>

definition nodes_kept :: "wqueue_mem \<Rightarrow> wqueue_mem \<Rightarrow> bool" where
  "nodes_kept m m' \<longleftrightarrow> (\<forall>a n n'. wq_heap m a = Some n \<and> wq_heap m' a = Some n' \<longrightarrow>
     wq_key n' = wq_key n \<and> (wq_condition n \<noteq> 0 \<longrightarrow> wq_condition n' \<noteq> 0))"

lemma nodes_keptD:
  assumes "nodes_kept m m'" "counts_ok m pcs" "counts_ok m' pcs'" "pc \<in> set pcs" "pc \<in> set pcs'"
    and "owns a pc \<or> waits a pc"
  shows "wq_key_of m' a = wq_key_of m a"
    and "\<exists>n. wq_heap m a = Some n \<and> wq_condition n \<noteq> 0 \<Longrightarrow> \<exists>n. wq_heap m' a = Some n \<and> wq_condition n \<noteq> 0"
proof -
  obtain n where n: "wq_heap m a = Some n" by (rule live_node [OF assms(2,4,6)])
  obtain n' where n': "wq_heap m' a = Some n'" by (rule live_node [OF assms(3,5,6)])
  show "wq_key_of m' a = wq_key_of m a"
    using assms(1) n n' by (simp add: nodes_kept_def wq_key_of_def)
  show "\<exists>n. wq_heap m a = Some n \<and> wq_condition n \<noteq> 0 \<Longrightarrow> \<exists>n. wq_heap m' a = Some n \<and> wq_condition n \<noteq> 0"
    using assms(1) n n' by (simp add: nodes_kept_def)
qed

lemma pc_ok_kept:
  assumes "nodes_kept m m'" "counts_ok m pcs" "counts_ok m' pcs'" "pc \<in> set pcs" "pc \<in> set pcs'" "pc_ok m pc"
  shows "pc_ok m' pc"
  using nodes_keptD [OF assms(1-5)] assms(6) by (cases pc) (simp_all add: pc_ok_def)

lemma pcs_ok_upd:
  assumes "nodes_kept m m'" "counts_ok m pcs" "counts_ok m' (pcs[i := pc])"
    and "\<forall>pc\<in>set pcs. pc_ok m pc" "pc_ok m' pc"
  shows "\<forall>pc'\<in>set (pcs[i := pc]). pc_ok m' pc'"
proof
  fix pc' assume pc': "pc' \<in> set (pcs[i := pc])"
  then have "pc' = pc \<or> pc' \<in> set pcs" using set_update_subset_insert by fastforce
  then show "pc_ok m' pc'"
    using assms(5) pc_ok_kept [OF assms(1-3) _ pc'] assms(4) by blast
qed

definition measures :: "wq_pc \<Rightarrow> bool" where
  "measures pc \<longleftrightarrow> (\<exists>a p. pc = Measuring a p)"

lemma measuring_upd:
  assumes "i < length pcs" "\<not> measures (pcs ! i)"
  shows "Measuring a p \<in> set (pcs[i := pc]) \<longleftrightarrow> Measuring a p \<in> set pcs \<or> pc = Measuring a p"
  using assms by (force simp: in_set_conv_nth nth_list_update measures_def)

lemma measuring_remove:
  assumes "i < length pcs" "pcs ! i = Measuring q path" "\<forall>j<length pcs. owns q (pcs ! j) \<longrightarrow> j = i"
    and "\<not> measures pc"
  shows "Measuring b p \<in> set (pcs[i := pc]) \<longleftrightarrow> Measuring b p \<in> set pcs \<and> b \<noteq> q"
proof
  assume "Measuring b p \<in> set (pcs[i := pc])"
  then obtain j where j: "j < length pcs" "pcs[i := pc] ! j = Measuring b p"
    by (auto simp: in_set_conv_nth)
  with assms(1,4) have "j \<noteq> i" by (auto simp: measures_def)
  with j have "pcs ! j = Measuring b p" by simp
  with \<open>j \<noteq> i\<close> j(1) assms(3) show "Measuring b p \<in> set pcs \<and> b \<noteq> q"
    using nth_mem [OF j(1)] by auto
next
  assume "Measuring b p \<in> set pcs \<and> b \<noteq> q"
  then obtain j where j: "j < length pcs" "pcs ! j = Measuring b p" "b \<noteq> q"
    by (auto simp: in_set_conv_nth)
  with assms(2) have "pcs[i := pc] ! j = Measuring b p" by (cases "j = i") auto
  with j(1) show "Measuring b p \<in> set (pcs[i := pc])" by (metis length_list_update nth_mem)
qed

lemma tree_ok_keep:
  assumes "tree_ok m pcs" "nodes_kept m m'" "counts_ok m pcs" "counts_ok m' (pcs[i := pc])"
    and "i < length pcs" "\<not> measures (pcs ! i)" "\<not> measures pc" "wq_tree m' = wq_tree m"
  shows "tree_ok m' (pcs[i := pc])"
proof -
  have eq: "Measuring a p \<in> set (pcs[i := pc]) \<longleftrightarrow> Measuring a p \<in> set pcs" for a p
    using measuring_upd [OF assms(5,6)] assms(7) by (auto simp: measures_def)
  have ord: "wqo.ordered (wq_key_of m) (tree_nodes m)"
    using assms(1) unfolding tree_ok_def by blast
  have keys: "wq_key_of m' a = wq_key_of m a" if a: "a \<in> set (tree_nodes m)" for a
  proof -
    from a assms(1) obtain p where p: "Measuring a p \<in> set pcs" by (auto simp: tree_ok_def)
    show ?thesis
      by (rule nodes_keptD(1) [OF assms(2-4) p]) (use eq p in simp_all)
  qed
  have "wqo.ordered (wq_key_of m') (tree_nodes m)"
    by (rule wqo.ordered_cong [OF ord]) (intro ballI keys)
  with assms(1,8) eq show ?thesis by (simp add: tree_ok_def)
qed

lemma wq_inv_upd:
  assumes "wq_inv evs s" "nodes_kept (wq_mem s) m'" "counts_ok m' ((wq_pcs s)[i := pc])"
    and "tree_ok m' ((wq_pcs s)[i := pc])" "pc_ok m' pc" "results_ok evs' m'"
  shows "wq_inv evs' \<lparr>wq_mem = m', wq_pcs = (wq_pcs s)[i := pc]\<rparr>"
  using assms pcs_ok_upd [OF assms(2) _ assms(3) _ assms(5)] by (simp add: wq_inv_def)

lemma results_ok_mono:
  assumes "results_ok evs m" "set evs \<subseteq> set evs'"
    and "\<forall>a n'. wq_heap m' a = Some n' \<and> wq_condition n' \<noteq> 0 \<longrightarrow>
      (\<exists>n. wq_heap m a = Some n \<and> wq_condition n \<noteq> 0 \<and> wq_result n = wq_result n' \<and> wq_key n = wq_key n')"
  shows "results_ok evs' m'"
  using assms by (fastforce simp: results_ok_def)

lemma wq_inv_first:
  assumes lib: "rb_lib_ok rbi rbe" and inv: "wq_inv evs s"
    and i: "i < length (wq_pcs s)" "wq_pcs s ! i = Wq_Idle" and a: "wq_heap (wq_mem s) a = None"
    and search: "smeasure_wqueue_node_search rbi (Some a) path (wq_mem s) = (Some q, 3, m)"
  shows "wq_inv evs \<lparr>wq_mem = m, wq_pcs = (wq_pcs s)[i := Measuring q path]\<rparr>"
proof -
  have inv': "counts_ok (wq_mem s) (wq_pcs s)" "tree_ok (wq_mem s) (wq_pcs s)" "results_ok evs (wq_mem s)"
    using inv by (auto simp: wq_inv_def)
  note new = search_miss [OF inv'(2,1) lib a search]
  have kept: "nodes_kept (wq_mem s) m" using a by (auto simp: nodes_kept_def new)
  have "node_ok (wq_pcs s) a None" using inv'(1) a by (auto simp: counts_ok_def dest: spec [of _ a])
  then have "count_pc (owns a) ((wq_pcs s)[i := Measuring a path]) = 1"
    "count_pc (waits a) ((wq_pcs s)[i := Measuring a path]) = 0"
    using count_pc_upd [OF i(1), of "owns a" "Measuring a path"]
      count_pc_upd [OF i(1), of "waits a" "Measuring a path"] i(2) by (auto simp: node_ok_def)
  then have counts: "counts_ok m ((wq_pcs s)[i := Measuring a path])"
    using i by (intro counts_ok_upd [OF inv'(1), where q = a])
      (auto simp: new node_ok_def new_node_def cstr_snprintf_key, auto simp: KEY_SIZE_def)
  have "Measuring b p \<in> set ((wq_pcs s)[i := Measuring a path]) \<longleftrightarrow>
      Measuring b p \<in> set (wq_pcs s) \<or> b = a \<and> p = path" for b p
    using measuring_upd [OF i(1)] i(2) by (auto simp: measures_def)
  moreover have "b \<in> set (tree_nodes (wq_mem s)) \<longleftrightarrow> (\<exists>p. Measuring b p \<in> set (wq_pcs s))" for b
    using inv'(2) unfolding tree_ok_def by blast
  ultimately have "tree_ok m ((wq_pcs s)[i := Measuring a path])"
    unfolding tree_ok_def using new(3,4,5) by auto
  moreover have "results_ok evs m"
    using inv'(3) by (rule results_ok_mono) (auto simp: new new_node_def)
  ultimately show ?thesis
    unfolding new(1) using counts
    by (intro wq_inv_upd [OF inv kept]) (simp_all add: pc_ok_def wq_key_of_def new new_node_def)
qed

lemma wq_inv_wait:
  assumes inv: "wq_inv evs s" and i: "i < length (wq_pcs s)" "wq_pcs s ! i = Wq_Idle"
    and search: "smeasure_wqueue_node_search rbi alloc path (wq_mem s) = (Some q, 1, m)"
  shows "wq_inv evs \<lparr>wq_mem = m, wq_pcs = (wq_pcs s)[i := Waiting q path]\<rparr>"
proof -
  have inv': "counts_ok (wq_mem s) (wq_pcs s)" "tree_ok (wq_mem s) (wq_pcs s)" "results_ok evs (wq_mem s)"
    using inv by (auto simp: wq_inv_def)
  note hit = search_hit [OF inv'(2) search]
  obtain n where n: "wq_heap (wq_mem s) q = Some n" "wq_condition n = 0"
    by (rule tree_node_live [OF inv'(1,2) hit(1)])
  have heap: "wq_heap m = (wq_heap (wq_mem s))(q \<mapsto> n\<lparr>wq_refer := wrap32 (wq_refer n + 1)\<rparr>)"
    and tree: "wq_tree m = wq_tree (wq_mem s)"
    by (simp_all add: hit(3) n)
  let ?pcs = "(wq_pcs s)[i := Waiting q path]"
  have c: "count_pc (owns q) ?pcs = count_pc (owns q) (wq_pcs s)"
    "count_pc (waits q) ?pcs = count_pc (waits q) (wq_pcs s) + 1"
    using count_pc_upd [OF i(1), of "owns q" "Waiting q path"]
      count_pc_upd [OF i(1), of "waits q" "Waiting q path"] i(2) by auto
  have "wq_refer n + 1 < 2 ^ 32"
    using count_owns_waits [of q ?pcs] inv'(1) c counts_okD(1) [OF inv'(1) n(1)]
    by (simp add: counts_ok_def)
  then have "node_ok ?pcs q (wq_heap m q)"
    using counts_okD [OF inv'(1) n(1)] n(2) c by (simp add: heap node_ok_def)
  then have counts: "counts_ok m ?pcs"
    using i by (intro counts_ok_upd [OF inv'(1), where q = q]) (auto simp: heap)
  have kept: "nodes_kept (wq_mem s) m" using n by (auto simp: nodes_kept_def heap)
  have "tree_ok m ?pcs"
    using tree_ok_keep [OF inv'(2) kept inv'(1) counts i(1)] i(2) tree by (simp add: measures_def)
  moreover have "results_ok evs m"
    using inv'(3) by (rule results_ok_mono) (use n in \<open>auto simp: heap split: if_splits\<close>)
  moreover have "pc_ok m (Waiting q path)"
    using hit(2) n by (simp add: pc_ok_def wq_key_of_def heap)
  ultimately show ?thesis using counts by (intro wq_inv_upd [OF inv kept])
qed

lemma wq_inv_pop:
  assumes lib: "rb_lib_ok rbi rbe" and inv: "wq_inv evs s"
    and i: "i < length (wq_pcs s)" "wq_pcs s ! i = Measuring q path"
  shows "wq_inv evs \<lparr>wq_mem = wake_up_pop rbe q (wq_mem s), wq_pcs = (wq_pcs s)[i := Popped q path ret]\<rparr>"
proof -
  let ?m = "wake_up_pop rbe q (wq_mem s)" and ?pcs = "(wq_pcs s)[i := Popped q path ret]"
  have inv': "counts_ok (wq_mem s) (wq_pcs s)" "tree_ok (wq_mem s) (wq_pcs s)" "results_ok evs (wq_mem s)"
    "pc_ok (wq_mem s) (Measuring q path)"
    using inv i nth_mem [OF i(1)] by (auto simp: wq_inv_def)
  have heap: "wq_heap ?m = wq_heap (wq_mem s)" by (simp add: wake_up_pop_def)
  then have key: "wq_key_of ?m = wq_key_of (wq_mem s)" by (simp add: wq_key_of_def fun_eq_iff)
  have nodes: "tree_nodes ?m = filter (\<lambda>b. b \<noteq> q) (tree_nodes (wq_mem s))"
    using lib by (simp add: wake_up_pop_def smeasure_rbtree_pop_def rb_lib_ok_def)
  have cmp: "rb_compare (wq_tree ?m) = rb_compare (wq_tree (wq_mem s))"
    by (simp add: wake_up_pop_def smeasure_rbtree_pop_def)
  have counts: "counts_ok ?m ?pcs"
    using i by (intro counts_ok_same [OF inv'(1)]) (auto simp: heap)
  have "Measuring b p \<in> set ?pcs \<longleftrightarrow> Measuring b p \<in> set (wq_pcs s) \<and> b \<noteq> q" for b p
    by (rule measuring_remove [OF i]) (use one_owner [OF inv'(1) _ i(1), of _ q] i in \<open>auto simp: measures_def\<close>)
  with inv'(2) have "tree_ok ?m ?pcs"
    unfolding tree_ok_def cmp nodes key by (auto intro: wqo.ordered_filter)
  moreover have "nodes_kept (wq_mem s) ?m" by (auto simp: nodes_kept_def heap)
  ultimately show ?thesis
    using counts inv' by (intro wq_inv_upd [OF inv]) (simp_all add: pc_ok_def key results_ok_def heap)
qed

lemma wq_inv_mark:
  assumes inv: "wq_inv evs s" and i: "i < length (wq_pcs s)" "wq_pcs s ! i = Popped q path ret"
    and mark: "wake_up_mark q ret (wq_mem s) = Some (w, m)"
  shows "wq_inv (evs @ [Posted path ret]) \<lparr>wq_mem = m, wq_pcs = (wq_pcs s)[i := if w then Waking q else Wq_Idle]\<rparr>"
proof -
  let ?pc = "if w then Waking q else Wq_Idle"
  let ?pcs = "(wq_pcs s)[i := ?pc]"
  have inv': "counts_ok (wq_mem s) (wq_pcs s)" "tree_ok (wq_mem s) (wq_pcs s)" "results_ok evs (wq_mem s)"
    "pc_ok (wq_mem s) (Popped q path ret)"
    using inv i nth_mem [OF i(1)] by (auto simp: wq_inv_def)
  from mark obtain n where n: "wq_heap (wq_mem s) q = Some n" by (auto simp: wake_up_mark_def split: option.splits)
  note ok = counts_okD [OF inv'(1) n]
  let ?n = "n\<lparr>wq_condition := 1, wq_refer := wq_refer n - 1, wq_result := ret\<rparr>"
  have heap: "wq_heap m = (wq_heap (wq_mem s))(q := if wq_refer n = 1 then None else Some ?n)"
    and tree: "wq_tree m = wq_tree (wq_mem s)"
    using mark n ok(2) by (auto simp: wake_up_mark_def Let_def dec32_pos [OF ok(2,3)] split: if_splits)
  have key: "wq_key n = snprintf_key path" using inv'(4) n by (simp add: pc_ok_def wq_key_of_def)
  have c: "count_pc (owns q) ?pcs + 1 = count_pc (owns q) (wq_pcs s)"
    "count_pc (waits q) ?pcs = count_pc (waits q) (wq_pcs s)"
    using count_pc_upd [OF i(1), of "owns q" ?pc] count_pc_upd [OF i(1), of "waits q" ?pc] i(2) by auto
  have "node_ok ?pcs q (wq_heap m q)"
    using ok c by (auto simp: heap node_ok_def split: if_splits)
  then have counts: "counts_ok m ?pcs"
    by (intro counts_ok_upd [OF inv'(1) i(1), where q = q]) (auto simp: heap i(2))
  have kept: "nodes_kept (wq_mem s) m" using n by (auto simp: nodes_kept_def heap split: if_splits)
  have "tree_ok m ?pcs"
    using tree_ok_keep [OF inv'(2) kept inv'(1) counts i(1)] i(2) tree by (simp add: measures_def)
  moreover have "results_ok (evs @ [Posted path ret]) m"
    using inv'(3) key unfolding results_ok_def heap by (fastforce split: if_splits)
  moreover have "pc_ok m ?pc" by (simp add: pc_ok_def)
  ultimately show ?thesis using counts by (intro wq_inv_upd [OF inv kept])
qed

lemma wq_inv_clean:
  assumes inv: "wq_inv evs s" and i: "i < length (wq_pcs s)" "wq_pcs s ! i = Woken q path"
    and clean: "smeasure_wqueue_node_clean q (wq_mem s) = Some (r, m)"
  shows "wq_inv (evs @ [Shared path r]) \<lparr>wq_mem = m, wq_pcs = (wq_pcs s)[i := Wq_Idle]\<rparr>"
    and "\<exists>p. Posted p r \<in> set evs \<and> same_key path (snprintf_key p)"
proof -
  let ?pcs = "(wq_pcs s)[i := Wq_Idle]"
  have inv': "counts_ok (wq_mem s) (wq_pcs s)" "tree_ok (wq_mem s) (wq_pcs s)" "results_ok evs (wq_mem s)"
    "pc_ok (wq_mem s) (Woken q path)"
    using inv i nth_mem [OF i(1)] by (auto simp: wq_inv_def)
  then obtain n where n: "wq_heap (wq_mem s) q = Some n" "wq_condition n \<noteq> 0" "same_key path (wq_key n)"
    by (auto simp: pc_ok_def wq_key_of_def)
  note ok = counts_okD [OF inv'(1) n(1)]
  have heap: "wq_heap m = (wq_heap (wq_mem s))(q := if wq_refer n = 1 then None
      else Some (n\<lparr>wq_refer := wq_refer n - 1\<rparr>))"
    and tree: "wq_tree m = wq_tree (wq_mem s)" and r: "r = wq_result n"
    using clean n ok(2) by (auto simp: smeasure_wqueue_node_clean_def Let_def dec32_pos [OF ok(2,3)])
  have c: "count_pc (owns q) ?pcs = count_pc (owns q) (wq_pcs s)"
    "count_pc (waits q) ?pcs + 1 = count_pc (waits q) (wq_pcs s)"
    using count_pc_upd [OF i(1), of "owns q" Wq_Idle] count_pc_upd [OF i(1), of "waits q" Wq_Idle] i(2) by auto
  have "node_ok ?pcs q (wq_heap m q)"
    using ok c n(2) by (auto simp: heap node_ok_def split: if_splits)
  then have counts: "counts_ok m ?pcs"
    by (intro counts_ok_upd [OF inv'(1) i(1), where q = q]) (auto simp: heap i(2))
  have kept: "nodes_kept (wq_mem s) m" using n by (auto simp: nodes_kept_def heap split: if_splits)
  have "tree_ok m ?pcs"
    using tree_ok_keep [OF inv'(2) kept inv'(1) counts i(1)] i(2) tree by (simp add: measures_def)
  moreover have "results_ok (evs @ [Shared path r]) m"
    using inv'(3) by (rule results_ok_mono) (use n in \<open>auto simp: heap split: if_splits\<close>)
  moreover have "pc_ok m Wq_Idle" by (simp add: pc_ok_def)
  ultimately show "wq_inv (evs @ [Shared path r]) \<lparr>wq_mem = m, wq_pcs = ?pcs\<rparr>"
    using counts by (intro wq_inv_upd [OF inv kept])
  show "\<exists>p. Posted p r \<in> set evs \<and> same_key path (snprintf_key p)"
    using inv'(3) n r unfolding results_ok_def by fastforce
qed

lemma wq_inv_pc_only:
  assumes inv: "wq_inv evs s" and i: "i < length (wq_pcs s)"
    and same: "\<forall>b. owns b (wq_pcs s ! i) = owns b pc \<and> waits b (wq_pcs s ! i) = waits b pc"
    and m: "\<not> measures (wq_pcs s ! i)" "\<not> measures pc" "pc_ok (wq_mem s) pc"
  shows "wq_inv evs \<lparr>wq_mem = wq_mem s, wq_pcs = (wq_pcs s)[i := pc]\<rparr>"
proof -
  have inv': "counts_ok (wq_mem s) (wq_pcs s)" "tree_ok (wq_mem s) (wq_pcs s)" "results_ok evs (wq_mem s)"
    using inv by (auto simp: wq_inv_def)
  have counts: "counts_ok (wq_mem s) ((wq_pcs s)[i := pc])"
    by (rule counts_ok_same [OF inv'(1) i refl same])
  have kept: "nodes_kept (wq_mem s) (wq_mem s)" by (auto simp: nodes_kept_def)
  show ?thesis
    by (rule wq_inv_upd [OF inv kept counts tree_ok_keep [OF inv'(2) kept inv'(1) counts i m(1,2) refl] m(3) inv'(3)])
qed

lemma wq_inv_evs: "wq_inv evs s \<Longrightarrow> set evs \<subseteq> set evs' \<Longrightarrow> wq_inv evs' s"
  by (auto simp: wq_inv_def intro: results_ok_mono)

lemma wq_inv_step:
  assumes "wq_step rbi rbe s e s'" "rb_lib_ok rbi rbe" "wq_inv evs s"
  shows "wq_inv (evs @ [e]) s'"
  using assms
proof (induction rule: wq_step.induct)
  case (wq_first i s a path q m)
  show ?case by (rule wq_inv_evs [OF wq_inv_first [OF wq_first.prems wq_first.hyps]]) auto
next
  case (wq_nomem i s path m)
  then have "m = wq_mem s"
    by (auto simp: smeasure_wqueue_node_search_def smeasure_wqueue_node_create_def split: option.splits)
  moreover have "wq_inv (evs @ [No_Memory]) s" by (rule wq_inv_evs [OF wq_nomem.prems(2)]) auto
  ultimately show ?case by (simp add: wq_inv_def)
next
  case (wq_wait i s alloc path q m)
  show ?case by (rule wq_inv_evs [OF wq_inv_wait [OF wq_wait.prems(2) wq_wait.hyps]]) auto
next
  case (wq_pop i s q path ret)
  show ?case by (rule wq_inv_evs [OF wq_inv_pop [OF wq_pop.prems wq_pop.hyps]]) auto
next
  case (wq_mark i s q path ret w m)
  then show ?case using wq_inv_mark [OF wq_mark.prems(2) wq_mark.hyps] by simp
next
  case (wq_wake i s q)
  have "wq_inv evs \<lparr>wq_mem = wq_mem s, wq_pcs = (wq_pcs s)[i := Wq_Idle]\<rparr>"
    by (rule wq_inv_pc_only [OF wq_wake.prems(2) wq_wake.hyps(1)])
       (use wq_wake.hyps(2) in \<open>simp_all add: measures_def pc_ok_def\<close>)
  then show ?case by (rule wq_inv_evs) auto
next
  case (wq_woken i s q path n)
  have "pc_ok (wq_mem s) (Waiting q path)"
    using wq_woken nth_mem [OF wq_woken.hyps(1)] by (auto simp: wq_inv_def)
  with wq_woken have "pc_ok (wq_mem s) (Woken q path)" by (auto simp: pc_ok_def)
  then have "wq_inv evs \<lparr>wq_mem = wq_mem s, wq_pcs = (wq_pcs s)[i := Woken q path]\<rparr>"
    by (intro wq_inv_pc_only [OF wq_woken.prems(2) wq_woken.hyps(1)])
       (use wq_woken.hyps(2) in \<open>simp_all add: measures_def\<close>)
  then show ?case by (rule wq_inv_evs) auto
next
  case (wq_clean i s q path r m)
  then show ?case using wq_inv_clean(1) [OF wq_clean.prems(2) wq_clean.hyps] by simp
qed

lemma wq_inv_start:
  assumes "threads < 2 ^ 32"
  shows "wq_inv [] \<lparr>wq_mem = smeasure_wqueue_init \<lparr>wq_tree = tr, wq_heap = Map.empty\<rparr>, wq_pcs = replicate threads Wq_Idle\<rparr>"
proof -
  have "count_pc (owns a) (replicate threads Wq_Idle) = 0" "count_pc (waits a) (replicate threads Wq_Idle) = 0" for a
    by (simp_all add: count_pc_0)
  with assms show ?thesis
    by (simp add: wq_inv_def counts_ok_def tree_ok_def results_ok_def node_ok_def pc_ok_def smeasure_wqueue_init_def
                  smeasure_rbtree_init_def wqo.ordered_def)
qed

lemma wq_run_inv:
  assumes "wq_run rbi rbe threads evs s" "rb_lib_ok rbi rbe" "threads < 2 ^ 32"
  shows "wq_inv evs s"
  using assms by (induction rule: wq_run.induct) (auto intro: wq_inv_start wq_inv_step)

inductive_cases wq_step_SharedE: "wq_step rbi rbe s (Shared path r) s'"

lemma wq_run_shared:
  assumes "wq_run rbi rbe threads evs s" "rb_lib_ok rbi rbe" "threads < 2 ^ 32" "Shared path r \<in> set evs"
  shows "\<exists>p. Posted p r \<in> set evs \<and> same_key path (snprintf_key p)"
  using assms
proof (induction rule: wq_run.induct)
  case (wq_next evs s e s')
  then have inv: "wq_inv evs s" by (intro wq_run_inv)
  show ?case
  proof (cases "Shared path r \<in> set evs")
    case True
    with wq_next show ?thesis by auto
  next
    case False
    with wq_next have "wq_step rbi rbe s (Shared path r) s'" by auto
    then obtain i q m where "i < length (wq_pcs s)" "wq_pcs s ! i = Woken q path"
      "smeasure_wqueue_node_clean q (wq_mem s) = Some (r, m)"
      by (rule wq_step_SharedE) blast
    from wq_inv_clean(2) [OF inv this] show ?thesis by auto
  qed
qed simp

section \<open>Properties\<close>

lemma measuring_distinct_keys:
  assumes "wq_inv evs s" "i < length (wq_pcs s)" "j < length (wq_pcs s)"
    and "wq_pcs s ! i = Measuring a p" "wq_pcs s ! j = Measuring b q" "i \<noteq> j"
  shows "\<not> same_key (snprintf_key p) (snprintf_key q)"
proof -
  let ?m = "wq_mem s"
  have inv: "counts_ok ?m (wq_pcs s)" "tree_ok ?m (wq_pcs s)" "\<forall>pc\<in>set (wq_pcs s). pc_ok ?m pc"
    using assms(1) by (auto simp: wq_inv_def)
  have pcs: "Measuring a p \<in> set (wq_pcs s)" "Measuring b q \<in> set (wq_pcs s)"
    using nth_mem [OF assms(2)] nth_mem [OF assms(3)] assms(4,5) by simp_all
  with inv(3) have keys: "wq_key_of ?m a = snprintf_key p" "wq_key_of ?m b = snprintf_key q"
    by (auto simp: pc_ok_def)
  have "a \<noteq> b" using one_owner [OF inv(1) assms(2,3), of a] assms(4-6) by auto
  moreover have "a \<in> set (tree_nodes ?m)" "b \<in> set (tree_nodes ?m)"
    using pcs inv(2) unfolding tree_ok_def by blast+
  moreover have "wqo.ordered (wq_key_of ?m) (tree_nodes ?m)"
    using inv(2) unfolding tree_ok_def by blast
  ultimately show ?thesis
    using wqo.ordered_cmp [of "wq_key_of ?m" "tree_nodes ?m" a b] by (simp add: keys compare_0)
qed

text \<open>C20. Sharing of measurements under every interleaving of threads: the node of a thread that
  measures, has taken its node out of the tree, waits, or is past the wait is allocated, so the wake-up
  section and the clean-up section never touch freed memory; \<open>refer\<close> is the number of these
  threads and no node outlives them; a thread that waits at an unfinished node waits
  for a thread that is still going to post; and the files measured at the same time have keys none of
  which is a prefix of another.\<close>

theorem wqueue_reachable_inv:
  assumes "wq_run rbi rbe threads evs s" "rb_lib_ok rbi rbe" "threads < 2 ^ 32"
  shows "(\<forall>a pc r. pc \<in> set (wq_pcs s) \<and> (owns a pc \<or> waits a pc) \<longrightarrow>
            wake_up_mark a r (wq_mem s) \<noteq> None \<and> smeasure_wqueue_node_clean a (wq_mem s) \<noteq> None)
    \<and> (\<forall>a n. wq_heap (wq_mem s) a = Some n \<longrightarrow>
            wq_refer n = count_pc (owns a) (wq_pcs s) + count_pc (waits a) (wq_pcs s) \<and> 0 < wq_refer n
            \<and> (wq_condition n = 0 \<longrightarrow> (\<exists>pc\<in>set (wq_pcs s). owns a pc)))
    \<and> (\<forall>i j a b p q. i < length (wq_pcs s) \<and> j < length (wq_pcs s) \<and> i \<noteq> j
            \<and> wq_pcs s ! i = Measuring a p \<and> wq_pcs s ! j = Measuring b q
            \<longrightarrow> \<not> same_key (snprintf_key p) (snprintf_key q))"
proof -
  have inv: "wq_inv evs s" by (rule wq_run_inv [OF assms])
  then have counts: "counts_ok (wq_mem s) (wq_pcs s)" by (simp add: wq_inv_def)
  have live: "\<exists>n. wq_heap (wq_mem s) a = Some n"
    if "pc \<in> set (wq_pcs s)" "owns a pc \<or> waits a pc" for a pc
    by (rule live_node [OF counts that]) blast
  have owner: "\<exists>pc\<in>set (wq_pcs s). owns a pc"
    if "wq_heap (wq_mem s) a = Some n" "wq_condition n = 0" for a n
    using counts_okD(5) [OF counts that(1)] that(2) count_pc_0 [of "owns a" "wq_pcs s"] by auto
  show ?thesis
  proof (intro conjI allI impI)
    fix a pc r assume "pc \<in> set (wq_pcs s) \<and> (owns a pc \<or> waits a pc)"
    with live obtain n where n: "wq_heap (wq_mem s) a = Some n" by blast
    then show "wake_up_mark a r (wq_mem s) \<noteq> None" by (auto simp: wake_up_mark_def Let_def)
    from n show "smeasure_wqueue_node_clean a (wq_mem s) \<noteq> None"
      by (simp add: smeasure_wqueue_node_clean_def Let_def)
  qed (use counts_okD(1,2) [OF counts] owner measuring_distinct_keys [OF inv] in blast)+
qed

text \<open>A thread that waited returns a result that was posted for a file with the same key: one of
  the two paths, cut to 31 bytes for the file that was measured, is a prefix of the other.\<close>

theorem wqueue_shared_result:
  assumes "wq_run rbi rbe threads evs s" "rb_lib_ok rbi rbe" "threads < 2 ^ 32" "Shared path r \<in> set evs"
  shows "\<exists>p. Posted p r \<in> set evs
    \<and> (prefix (cstr path) (take 31 (cstr p)) \<or> prefix (take 31 (cstr p)) (cstr path))"
  using wq_run_shared [OF assms] by (auto simp: same_key_def cstr_snprintf_key KEY_SIZE_def)

text \<open>While a file is measured, a request for any path whose first 31 bytes are the same waits
  for its result and never measures the other file.\<close>

theorem wqueue_same_prefix_shares:
  assumes "wq_run rbi rbe threads evs s" "rb_lib_ok rbi rbe" "threads < 2 ^ 32"
    and "Measuring a p \<in> set (wq_pcs s)" "take 31 (cstr q) = take 31 (cstr p)"
  shows "\<exists>b m. smeasure_wqueue_node_search rbi alloc q (wq_mem s) = (Some b, 1, m)"
proof -
  have inv: "tree_ok (wq_mem s) (wq_pcs s)" "pc_ok (wq_mem s) (Measuring a p)"
    using wq_run_inv [OF assms(1-3)] assms(4) by (auto simp: wq_inv_def)
  have "same_key q (wq_key_of (wq_mem s) a)"
    using inv(2) assms(5) take_is_prefix [of 31 "cstr q"]
    by (simp add: pc_ok_def same_key_def cstr_snprintf_key KEY_SIZE_def)
  moreover have a: "a \<in> set (tree_nodes (wq_mem s))" "wqo.ordered (wq_key_of (wq_mem s)) (tree_nodes (wq_mem s))"
    and cmp: "rb_compare (wq_tree (wq_mem s)) = Some smeasure_wqueue_tree_compare"
    using inv(1) assms(4) unfolding tree_ok_def by blast+
  ultimately have "rbtree_search_loop smeasure_wqueue_tree_compare (wq_key_of (wq_mem s)) q (rb_root (wq_tree (wq_mem s))) \<noteq> None"
    using wqo.search_complete [OF a(2) _ a(1), of q] by (auto simp: compare_0)
  then show ?thesis
    by (auto simp: smeasure_wqueue_node_search_def smeasure_rbtree_search_def cmp)
qed

section \<open>A schedule of two threads\<close>

text \<open>The memory after the steps of the schedule: the node with its counter, condition and result, and
  the tree with or without it.\<close>

definition sched_mem :: "bool \<Rightarrow> smeasure_wqueue option \<Rightarrow> wqueue_mem" where
  "sched_mem linked x = \<lparr>wq_tree = \<lparr>rb_root = if linked then Node Leaf 0 Leaf else Leaf,
     rb_compare = Some smeasure_wqueue_tree_compare\<rparr>, wq_heap = Map.empty(0 := x)\<rparr>"

lemma inorder_single: "inorder t = [a] \<Longrightarrow> t = Node Leaf a Leaf"
proof (cases t)
  case (Node l x r)
  assume "inorder t = [a]"
  then have "length (inorder l @ x # inorder r) = 1" using Node by simp
  then have "inorder l = []" "inorder r = []" by auto
  with \<open>inorder t = [a]\<close> Node show ?thesis by simp
qed simp

lemma rb_lib_single:
  assumes "rb_lib_ok rbi rbe"
  shows "rbi a (Node Leaf a Leaf) = Node Leaf a Leaf" "rbe a (Node Leaf a Leaf) = Leaf"
proof -
  show "rbi a (Node Leaf a Leaf) = Node Leaf a Leaf"
    using assms by (intro inorder_single) (simp add: rb_lib_ok_def)
  have "inorder (rbe a (Node Leaf a Leaf)) = []" using assms by (simp add: rb_lib_ok_def)
  then show "rbe a (Node Leaf a Leaf) = Leaf" by simp
qed

definition sched_node :: "byte list \<Rightarrow> nat \<Rightarrow> nat \<Rightarrow> int \<Rightarrow> smeasure_wqueue" where
  "sched_node p refer condition r =
     \<lparr>wq_key = snprintf_key p, wq_refer = refer, wq_condition = condition, wq_result = r\<rparr>"

lemma same_key_snprintf_self: "same_key p (snprintf_key p)"
  using take_is_prefix by (auto simp: same_key_def cstr_snprintf_key)

lemma sched_run:
  assumes lib: "rb_lib_ok rbi rbe"
  shows "wq_run rbi rbe 2 [Wq_Tau, Wq_Tau]
      \<lparr>wq_mem = sched_mem True (Some (sched_node p 2 0 0)), wq_pcs = [Measuring 0 p, Waiting 0 p]\<rparr>" (is "wq_run _ _ _ _ ?s2")
    and "wq_run rbi rbe 2 [Wq_Tau, Wq_Tau, Wq_Tau, Posted p r, Wq_Tau, Shared p r]
      \<lparr>wq_mem = sched_mem False None, wq_pcs = [Waking 0, Wq_Idle]\<rparr>" (is "wq_run _ _ _ _ ?s6")
proof -
  note single = rb_lib_single [OF lib]
  note steps = sched_mem_def sched_node_def smeasure_wqueue_node_search_def smeasure_rbtree_search_def
    smeasure_wqueue_node_create_def smeasure_rbtree_push_def single wq_key_of_def fun_eq_iff
  let ?s0 = "\<lparr>wq_mem = sched_mem False None, wq_pcs = [Wq_Idle, Wq_Idle]\<rparr>"
  let ?s1 = "\<lparr>wq_mem = sched_mem True (Some (sched_node p 1 0 0)), wq_pcs = [Measuring 0 p, Wq_Idle]\<rparr>"
  let ?s3 = "\<lparr>wq_mem = sched_mem False (Some (sched_node p 2 0 0)), wq_pcs = [Popped 0 p r, Waiting 0 p]\<rparr>"
  let ?s4 = "\<lparr>wq_mem = sched_mem False (Some (sched_node p 1 1 r)), wq_pcs = [Waking 0, Waiting 0 p]\<rparr>"
  let ?s5 = "\<lparr>wq_mem = sched_mem False (Some (sched_node p 1 1 r)), wq_pcs = [Waking 0, Woken 0 p]\<rparr>"
  have 0: "wq_run rbi rbe 2 [] ?s0"
    using wq_start [of rbi rbe 2 undefined]
    by (simp add: smeasure_wqueue_init_def smeasure_rbtree_init_def sched_mem_def numeral_2_eq_2 fun_upd_idem)
  have 1: "wq_step rbi rbe ?s0 Wq_Tau ?s1"
    using wq_first [of 0 ?s0 0 rbi p 0 "wq_mem ?s1" rbe] by (simp add: steps)
  have 2: "wq_step rbi rbe ?s1 Wq_Tau ?s2"
    using wq_wait [of 1 ?s1 rbi None p 0 "wq_mem ?s2" rbe] same_key_snprintf_self [of p]
    by (simp add: steps compare_0 [symmetric] wrap32_def)
  have 3: "wq_step rbi rbe ?s2 Wq_Tau ?s3"
    using wq_pop [of 0 ?s2 0 p rbi rbe r] by (simp add: sched_mem_def wake_up_pop_def smeasure_rbtree_pop_def single)
  have 4: "wq_step rbi rbe ?s3 (Posted p r) ?s4"
    using wq_mark [of 0 ?s3 0 p r True "wq_mem ?s4" rbi rbe]
    by (simp add: sched_mem_def wake_up_mark_def sched_node_def dec32_pos fun_eq_iff)
  have 5: "wq_step rbi rbe ?s4 Wq_Tau ?s5"
    using wq_woken [of 1 ?s4 0 p "sched_node p 1 1 r" rbi rbe] by (simp add: sched_mem_def sched_node_def)
  have 6: "wq_step rbi rbe ?s5 (Shared p r) ?s6"
    using wq_clean [of 1 ?s5 0 p r "wq_mem ?s6" rbi rbe]
    by (simp add: sched_mem_def smeasure_wqueue_node_clean_def sched_node_def dec32_pos fun_eq_iff)
  have run2: "wq_run rbi rbe 2 [Wq_Tau, Wq_Tau] ?s2"
    using wq_next [OF wq_next [OF 0 1] 2] by simp
  then show "wq_run rbi rbe 2 [Wq_Tau, Wq_Tau] ?s2" .
  show "wq_run rbi rbe 2 [Wq_Tau, Wq_Tau, Wq_Tau, Posted p r, Wq_Tau, Shared p r] ?s6"
    using wq_next [OF wq_next [OF wq_next [OF wq_next [OF run2 3] 4] 5] 6] by simp
qed

text \<open>The owner of a node calls \<open>wake_up\<close> on it after both locks are released. A thread that
  has not gone to sleep yet can see the condition, take the result and free the node before that:
  for every file and every result there is a schedule of two threads in which the wake-up touches
  freed memory.\<close>

theorem wqueue_wake_up_after_free:
  assumes "rb_lib_ok rbi rbe"
  shows "\<exists>s a. wq_run rbi rbe 2 [Wq_Tau, Wq_Tau, Wq_Tau, Posted p r, Wq_Tau, Shared p r] s
    \<and> Waking a \<in> set (wq_pcs s) \<and> wake_up_wait a (wq_mem s) = None"
  using sched_run(2) [OF assms, of p r] by (intro exI conjI) (auto simp: wake_up_wait_def sched_mem_def)

text \<open>A library instance for the concrete cases: no rebalancing, erasing by rebuilding.\<close>

fun chain :: "addr list \<Rightarrow> addr tree" where
  "chain [] = Leaf"
| "chain (x # xs) = Node Leaf x (chain xs)"

definition chain_erase :: "addr \<Rightarrow> addr tree \<Rightarrow> addr tree" where
  "chain_erase a t = chain (filter (\<lambda>b. b \<noteq> a) (inorder t))"

lemma chain_lib_ok: "rb_lib_ok (\<lambda>a t. t) chain_erase"
proof -
  have "inorder (chain xs) = xs" for xs by (induction xs) simp_all
  then show ?thesis by (simp add: rb_lib_ok_def chain_erase_def)
qed

theorem wqueue_reachable_inv_witness:
  "wake_up_mark 0 5 (sched_mem True (Some (sched_node [47] 2 0 0))) \<noteq> None"
proof -
  let ?s = "\<lparr>wq_mem = sched_mem True (Some (sched_node [47] 2 0 0)), wq_pcs = [Measuring 0 [47], Waiting 0 [47]]\<rparr>"
  have "Measuring 0 [47] \<in> set (wq_pcs ?s) \<and> (owns 0 (Measuring 0 [47]) \<or> waits 0 (Measuring 0 [47]))" by simp
  moreover have "(2 :: nat) < 2 ^ 32" by simp
  ultimately have "wake_up_mark 0 5 (wq_mem ?s) \<noteq> None"
    using wqueue_reachable_inv [OF sched_run(1) [OF chain_lib_ok, of "[47]"] chain_lib_ok] by blast
  then show ?thesis by simp
qed

theorem wqueue_shared_result_witness:
  "\<exists>p. Posted p 5 \<in> set [Wq_Tau, Wq_Tau, Wq_Tau, Posted [47] 5, Wq_Tau, Shared [47] 5]
    \<and> (prefix (cstr [47]) (take 31 (cstr p)) \<or> prefix (take 31 (cstr p)) (cstr [47]))"
  by (rule wqueue_shared_result [OF sched_run(2) [OF chain_lib_ok, of "[47]" 5] chain_lib_ok]) simp_all

theorem wqueue_same_prefix_shares_witness:
  "\<exists>b m. smeasure_wqueue_node_search (\<lambda>a t. t) None (replicate 40 47)
     (sched_mem True (Some (sched_node (replicate 32 47) 2 0 0))) = (Some b, 1, m)"
  using wqueue_same_prefix_shares [OF sched_run(1) [OF chain_lib_ok, of "replicate 32 47"] chain_lib_ok,
      where a = 0 and p = "replicate 32 47" and q = "replicate 40 47" and alloc = None]
  by (simp add: cstr_def)

theorem wqueue_wake_up_after_free_witness:
  "\<exists>s a. wq_run (\<lambda>a t. t) chain_erase 2 [Wq_Tau, Wq_Tau, Wq_Tau, Posted [47] 5, Wq_Tau, Shared [47] 5] s
    \<and> Waking a \<in> set (wq_pcs s) \<and> wake_up_wait a (wq_mem s) = None"
  by (rule wqueue_wake_up_after_free [OF chain_lib_ok])

end
