(* ===== verification/Script_Args.thy ===== *)
theory Script_Args
  imports File_Digest
begin

text \<open>
  Finding the script behind an interpreter: \<open>is_valid_args_name\<close> and
  \<open>valid_args_name_from_bprm\<close> of tsb/kernel/smeasure/engine/smeasure_engine.c. The arguments of a new
  program lie behind each other in the pages of its stack; the code copies the second one, page
  by page, and takes it for the name of the script.

  \<open>get_arg_page\<close> is a parameter: the contents of the page at an address, \<open>None\<close> if it cannot
  be obtained. \<open>Arg_Fault\<close> is a run that writes or reads outside a buffer.
\<close>

section \<open>The code\<close>

definition NAME_SIZE :: nat where "NAME_SIZE = 896"

text \<open>The kernel's \<open>isalnum\<close>, which counts the letters of Latin-1.\<close>

definition isalnum :: "byte \<Rightarrow> bool" where
  "isalnum c \<longleftrightarrow> 48 \<le> c \<and> c \<le> 57 \<or> 65 \<le> c \<and> c \<le> 90 \<or> 97 \<le> c \<and> c \<le> 122
     \<or> 192 \<le> c \<and> c \<noteq> 215 \<and> c \<noteq> 247"

definition is_valid_character :: "byte \<Rightarrow> int" where
  "is_valid_character c = (if c = 46 \<or> c = 47 \<or> c = 95 \<or> isalnum c then 1 else 0)"

text \<open>\<open>strncpy\<close> of n bytes: the string, filled up with zeros.\<close>

definition strncpy :: "byte list \<Rightarrow> nat \<Rightarrow> byte list" where
  "strncpy src n = take n (cstr src) @ replicate (n - length (cstr src)) 0"

fun strchr :: "byte list \<Rightarrow> byte \<Rightarrow> nat option" where
  "strchr [] c = None"
| "strchr (x # xs) c = (if x = c then Some 0 else if x = 0 then None else map_option Suc (strchr xs c))"

datatype arg_result =
    Arg int "byte list"
  | Arg_Fault

text \<open>
  The first loop of the code runs once: \<open>while (copy_base++)\<close> tests the old value, zero. The second loop
  only changes \<open>len\<close>, which is not used afterwards; it has no counterpart here. \<open>args\<close> is the caller's
  buffer; a string that is not terminated in it gives \<open>Arg_Fault\<close>, as does the last copy when it
  starts at the second byte of a buffer without zero.
\<close>

definition is_valid_args_name :: "byte list \<Rightarrow> byte list \<Rightarrow> arg_result" where
  "is_valid_args_name args name =
     (if 0 \<notin> set args then Arg_Fault
      else if args ! 0 = 45 then Arg 0 name
      else let buf = strncpy args NAME_SIZE;
               copy_base = (if is_valid_character (buf ! 0) = 1 then 0 else 1);
               found = Arg 1 (strncpy (drop copy_base buf) NAME_SIZE)
           in case strchr args 32 of
                Some k \<Rightarrow> if k \<ge> length name then Arg_Fault
                          else if copy_base = 1 \<and> 0 \<notin> set buf then Arg_Fault else found
              | None \<Rightarrow> if copy_base = 1 \<and> 0 \<notin> set buf then Arg_Fault else found)"

record linux_binprm =
  bp_argc :: nat
  bp_p :: nat
  bp_interp :: "byte list"
  bp_e_type :: nat

text \<open>
  The loop over one page, from its current byte on: \<open>offset\<close>, \<open>pos\<close>, \<open>i\<close> and \<open>count\<close> are the
  variables of the code. At a zero byte the code advances \<open>pos\<close> twice. \<open>Left\<close> is a regular end of the
  loop, \<open>Broke\<close> the jump out of it with the result for the second argument.
\<close>

datatype scan_result =
    Left nat nat nat "byte list"
  | Broke nat arg_result

fun arg_scan :: "nat \<Rightarrow> byte list \<Rightarrow> byte list \<Rightarrow> nat \<Rightarrow> nat \<Rightarrow> nat \<Rightarrow> nat \<Rightarrow> byte list \<Rightarrow> scan_result" where
  "arg_scan argc name [] offset pos i count argv = Left offset pos count argv"
| "arg_scan argc name (c # cs) offset pos i count argv =
     (if \<not> (offset < PAGE_SIZE \<and> count < argc \<and> i < PAGE_SIZE) then Left offset pos count argv
      else if c = 0 then
        (if count + 1 > 1 then Broke offset (is_valid_args_name argv name)
         else arg_scan argc name cs (offset + 1) (pos + 2) 0 (count + 1) (replicate PAGE_SIZE 0))
      else arg_scan argc name cs (offset + 1) (pos + 1) (i + 1) count (argv[i := c]))"

partial_function (option) arg_loop ::
  "(nat \<Rightarrow> byte list option) \<Rightarrow> nat \<Rightarrow> byte list \<Rightarrow> nat \<Rightarrow> nat \<Rightarrow> byte list \<Rightarrow> arg_result option" where
  "arg_loop get_arg_page argc name pos count argv =
     (case get_arg_page (pos div PAGE_SIZE) of
        None \<Rightarrow> Some (Arg (-1) name)
      | Some page \<Rightarrow>
          (case arg_scan argc name (drop (pos mod PAGE_SIZE) page) (pos mod PAGE_SIZE) pos 0 count argv of
             Broke offset r \<Rightarrow> Some r
           | Left offset pos' count' argv' \<Rightarrow>
               if offset = PAGE_SIZE then arg_loop get_arg_page argc name pos' count' argv'
               else Some (Arg 0 name)))"

text \<open>\<open>kz\<close>: the buffer can be allocated. A result \<open>None\<close> is a run that does not end.\<close>

definition valid_args_name_from_bprm ::
  "(nat \<Rightarrow> byte list option) \<Rightarrow> bool \<Rightarrow> linux_binprm option \<Rightarrow> byte list \<Rightarrow> arg_result option" where
  "valid_args_name_from_bprm get_arg_page kz bprm name =
     (case bprm of None \<Rightarrow> Some (Arg (-1) name)
      | Some b \<Rightarrow> if \<not> kz then Some (Arg (-1) name)
                  else arg_loop get_arg_page (bp_argc b) name (bp_p b) 0 (replicate PAGE_SIZE 0))"

section \<open>Strings in buffers\<close>

lemma no_nul_take_cstr: "no_nul (take n (cstr src))"
  using no_nul_cstr [of src] by (auto simp: no_nul_def dest: in_set_takeD)

lemma cstr_strncpy: "cstr (strncpy src n) = take n (cstr src)"
proof (cases "n - length (cstr src)")
  case 0
  then show ?thesis by (simp add: strncpy_def cstr_no_nul no_nul_take_cstr)
next
  case (Suc k)
  then show ?thesis
    unfolding strncpy_def by (simp add: cstr_append_nul no_nul_take_cstr del: take_eq_Nil)
qed

lemma length_strncpy [simp]: "length (strncpy src n) = n"
  by (simp add: strncpy_def)

lemma strchr_None: "c \<noteq> 0 \<Longrightarrow> strchr xs c = None \<longleftrightarrow> c \<notin> set (cstr xs)"
  by (induction xs) (auto simp: cstr_Cons)

lemma strchr_Some: "c \<noteq> 0 \<Longrightarrow> no_nul u \<Longrightarrow> c \<notin> set u \<Longrightarrow> strchr (u @ c # v) c = Some (length u)"
  by (induction u) (auto simp: no_nul_def)

lemma nth0_cstr: "xs \<noteq> [] \<Longrightarrow> xs ! 0 \<noteq> 0 \<Longrightarrow> cstr xs \<noteq> [] \<and> cstr xs ! 0 = xs ! 0"
  by (cases xs) (auto simp: cstr_Cons)

text \<open>A string that starts with a letter, is not an option and fits the buffers is copied as it is.\<close>

lemma is_valid_args_name_copy:
  assumes "0 \<in> set args" "cstr args \<noteq> []" "is_valid_character (hd (cstr args)) = 1"
    and "length (cstr args) \<le> NAME_SIZE" "32 \<notin> set (cstr args)"
  shows "is_valid_args_name args name = Arg 1 (strncpy args NAME_SIZE)"
proof -
  obtain x xs where x: "args = x # xs" "x \<noteq> 0"
    using assms(2) by (cases args) (auto simp: cstr_Cons split: if_splits)
  then have hd: "hd (cstr args) = x" by (simp add: cstr_Cons)
  have "(0 :: nat) < NAME_SIZE" by (simp add: NAME_SIZE_def)
  then have "strncpy args NAME_SIZE ! 0 = x"
    using x by (simp add: strncpy_def cstr_Cons nth_append)
  moreover have "x \<noteq> 45" using assms(3) hd by (auto simp: is_valid_character_def isalnum_def)
  moreover have "strchr args 32 = None" using assms(5) by (simp add: strchr_None)
  moreover have "strncpy (strncpy args NAME_SIZE) NAME_SIZE = strncpy args NAME_SIZE"
    using assms(4) by (simp add: strncpy_def [of "strncpy args NAME_SIZE"] cstr_strncpy) (simp add: strncpy_def)
  ultimately show ?thesis
    using assms(1,3) hd x by (simp add: is_valid_args_name_def Let_def)
qed

section \<open>The scan\<close>

lemma memcpy_at_upd:
  assumes "i < length argv"
  shows "memcpy_at (argv[i := c]) (Suc i) u = memcpy_at argv i (c # u)"
  using assms by (simp add: memcpy_at_def take_Suc_conv_app_nth)

lemma arg_scan_run:
  assumes "no_nul u" "count < argc" "offset + length u \<le> PAGE_SIZE" "i + length u \<le> PAGE_SIZE"
    and "length argv = PAGE_SIZE"
  shows "arg_scan argc name (u @ cs) offset pos i count argv =
    arg_scan argc name cs (offset + length u) (pos + length u) (i + length u) count (memcpy_at argv i u)"
  using assms
proof (induction u arbitrary: offset pos i argv)
  case Nil
  then show ?case by (simp add: memcpy_at_def)
next
  case (Cons c u)
  then have "no_nul u" "c \<noteq> 0" "i < length argv" by (auto simp: no_nul_def)
  with Cons.prems Cons.IH [of "Suc offset" "Suc i" "argv[i := c]" "Suc pos"] show ?case
    by (simp add: memcpy_at_upd)
qed

lemma arg_scan_first:
  assumes "no_nul u" "1 < argc" "offset + length u < PAGE_SIZE" "length argv = PAGE_SIZE"
  shows "arg_scan argc name (u @ 0 # cs) offset pos 0 0 argv =
    arg_scan argc name cs (offset + length u + 1) (pos + length u + 2) 0 1 (replicate PAGE_SIZE 0)"
  using assms by (simp add: arg_scan_run)

lemma arg_scan_second:
  assumes "no_nul u" "1 < argc" "offset + length u < PAGE_SIZE" "length argv = PAGE_SIZE"
  shows "arg_scan argc name (u @ 0 # cs) offset pos 0 1 argv =
    Broke (offset + length u) (is_valid_args_name (memcpy_at argv 0 u) name)"
  using assms by (simp add: arg_scan_run)

lemma cstr_memcpy_at:
  assumes "no_nul u" "length u < PAGE_SIZE"
  shows "cstr (memcpy_at (replicate PAGE_SIZE 0) 0 u) = u" "0 \<in> set (memcpy_at (replicate PAGE_SIZE 0) 0 u)"
proof -
  obtain k where "PAGE_SIZE - length u = Suc k" using assms(2) by (metis Suc_diff_Suc)
  then have "memcpy_at (replicate PAGE_SIZE (0 :: byte)) 0 u = u @ 0 # replicate k 0"
    by (simp add: memcpy_at_def)
  with assms(1) show "cstr (memcpy_at (replicate PAGE_SIZE 0) 0 u) = u" "0 \<in> set (memcpy_at (replicate PAGE_SIZE 0) 0 u)"
    by (simp_all add: cstr_append_nul)
qed

text \<open>What a name must be to be taken over unchanged.\<close>

definition plain_name :: "byte list \<Rightarrow> bool" where
  "plain_name u \<longleftrightarrow> no_nul u \<and> u \<noteq> [] \<and> is_valid_character (hd u) = 1 \<and> length u \<le> NAME_SIZE \<and> 32 \<notin> set u"

lemma plain_name_found:
  assumes "plain_name u"
  shows "is_valid_args_name (memcpy_at (replicate PAGE_SIZE 0) 0 u) name = Arg 1 (strncpy u NAME_SIZE)"
proof -
  have "NAME_SIZE < PAGE_SIZE" by (simp add: NAME_SIZE_def PAGE_SIZE_def)
  then have c: "cstr (memcpy_at (replicate PAGE_SIZE 0) 0 u) = u" "0 \<in> set (memcpy_at (replicate PAGE_SIZE 0) 0 u)"
    and "cstr u = u"
    using assms cstr_memcpy_at [of u] by (auto simp: plain_name_def cstr_no_nul)
  moreover have "is_valid_args_name (memcpy_at (replicate PAGE_SIZE 0) 0 u) name
      = Arg 1 (strncpy (memcpy_at (replicate PAGE_SIZE 0) 0 u) NAME_SIZE)"
    using assms c by (intro is_valid_args_name_copy) (auto simp: plain_name_def)
  ultimately show ?thesis by (simp add: strncpy_def)
qed

section \<open>Properties\<close>

text \<open>When the first two arguments of a program lie in one page, the script name that is found is
  the second argument, provided it starts with a letter, a digit, a dot, a slash or an
  underscore, has no space and at most 896 bytes.\<close>

theorem script_name_in_page:
  assumes "get_arg_page (bp_p b div PAGE_SIZE) = Some page" "length page = PAGE_SIZE"
    and "drop (bp_p b mod PAGE_SIZE) page = arg @ 0 # script @ 0 # rest"
    and "no_nul arg" "plain_name script" "1 < bp_argc b"
  shows "valid_args_name_from_bprm get_arg_page True (Some b) name = Some (Arg 1 (strncpy script NAME_SIZE))"
proof -
  let ?o = "bp_p b mod PAGE_SIZE"
  have script: "no_nul script" using assms(5) by (simp add: plain_name_def)
  have "length (drop ?o page) = PAGE_SIZE - ?o" using assms(2) by simp
  then have len: "?o + length arg + length script + 2 \<le> PAGE_SIZE"
    unfolding assms(3) by simp
  have "arg_scan (bp_argc b) name (drop ?o page) ?o (bp_p b) 0 0 (replicate PAGE_SIZE 0)
    = arg_scan (bp_argc b) name (script @ 0 # rest) (?o + length arg + 1) (bp_p b + length arg + 2) 0 1 (replicate PAGE_SIZE 0)"
    unfolding assms(3) using len assms(6) by (intro arg_scan_first [OF assms(4)]) auto
  also have "\<dots> = Broke (?o + length arg + 1 + length script) (Arg 1 (strncpy script NAME_SIZE))"
    using len assms(6) by (subst arg_scan_second [OF script]) (auto simp: plain_name_found [OF assms(5)])
  finally show ?thesis
    using assms(1) by (simp add: valid_args_name_from_bprm_def arg_loop.simps)
qed

text \<open>A second argument that continues on the next page is not put together again: the first byte on
  the new page is skipped and the rest is written over the beginning of what was collected on the
  first page. The name that is looked up is another one, and a file that does not exist is not
  measured.\<close>

theorem script_name_across_pages:
  assumes "get_arg_page (bp_p b div PAGE_SIZE) = Some page" "length page = PAGE_SIZE"
    and "drop (bp_p b mod PAGE_SIZE) page = arg @ 0 # u" "no_nul arg" "no_nul u" "u \<noteq> []"
    and "get_arg_page (bp_p b div PAGE_SIZE + 1) = Some (x # v @ 0 # rest)" "length (x # v @ 0 # rest) = PAGE_SIZE"
    and "no_nul v" "length v \<le> length u" "plain_name (v @ drop (length v) u)" "1 < bp_argc b"
  shows "valid_args_name_from_bprm get_arg_page True (Some b) name
    = Some (Arg 1 (strncpy (v @ drop (length v) u) NAME_SIZE))"
proof -
  let ?o = "bp_p b mod PAGE_SIZE" and ?z = "replicate PAGE_SIZE (0 :: byte)"
  have "length (drop ?o page) = PAGE_SIZE - ?o" using assms(2) by simp
  then have len: "?o + length arg + length u + 1 = PAGE_SIZE"
    unfolding assms(3) using mod_less_divisor [of PAGE_SIZE "bp_p b"] by (simp add: PAGE_SIZE_def)
  let ?pos = "bp_p b + length arg + 2 + length u"
  have "?pos = (bp_p b - ?o) + (PAGE_SIZE + 1)" using len by (simp add: algebra_simps)
  also have "\<dots> = bp_p b div PAGE_SIZE * PAGE_SIZE + (PAGE_SIZE + 1)" by (simp add: minus_mod_eq_div_mult)
  finally have pos: "?pos = (bp_p b div PAGE_SIZE + 1) * PAGE_SIZE + 1" by simp
  have pg: "?pos div PAGE_SIZE = bp_p b div PAGE_SIZE + 1" "?pos mod PAGE_SIZE = 1"
    unfolding pos using mod_mult_self3 [of "bp_p b div PAGE_SIZE + 1" PAGE_SIZE 1]
    by (simp_all add: PAGE_SIZE_def)
  have "arg_scan (bp_argc b) name (drop ?o page) ?o (bp_p b) 0 0 ?z
    = arg_scan (bp_argc b) name u (?o + length arg + 1) (bp_p b + length arg + 2) 0 1 ?z"
    unfolding assms(3) using len assms(6,12) by (intro arg_scan_first [OF assms(4)]) auto
  also have "\<dots> = arg_scan (bp_argc b) name [] PAGE_SIZE ?pos (length u) 1 (memcpy_at ?z 0 u)"
    using len assms(12) arg_scan_run [OF assms(5), of 1 "bp_argc b" "?o + length arg + 1" 0 ?z name "[]"]
    by (simp add: algebra_simps)
  finally have first: "arg_scan (bp_argc b) name (drop ?o page) ?o (bp_p b) 0 0 ?z
    = Left PAGE_SIZE ?pos 1 (memcpy_at ?z 0 u)" by simp
  have over: "memcpy_at (memcpy_at ?z 0 u) 0 v = memcpy_at ?z 0 (v @ drop (length v) u)"
    using assms(10) by (simp add: memcpy_at_def)
  have "arg_scan (bp_argc b) name (drop 1 (x # v @ 0 # rest)) 1 ?pos 0 1 (memcpy_at ?z 0 u)
    = Broke (1 + length v) (is_valid_args_name (memcpy_at ?z 0 (v @ drop (length v) u)) name)"
    using assms(8,12) len arg_scan_second [OF assms(9), of "bp_argc b" 1 "memcpy_at ?z 0 u" name rest ?pos]
    by (simp add: over)
  with first pg assms(1,7) show ?thesis
    by (simp add: valid_args_name_from_bprm_def arg_loop.simps plain_name_found [OF assms(11)])
qed

text \<open>The position of the first space of an argument is used as an index into the 896 bytes for
  the name without a test: a space behind them is a write outside the buffer.\<close>

theorem script_name_space_overflow:
  assumes "no_nul u" "32 \<notin> set u" "u \<noteq> []" "hd u \<noteq> 45" "NAME_SIZE \<le> length u" "length name = NAME_SIZE" "0 \<in> set v"
  shows "is_valid_args_name (u @ 32 # v) name = Arg_Fault"
  using assms strchr_Some [of 32 u v] by (cases u) (auto simp: is_valid_args_name_def Let_def)

section \<open>Concrete arguments\<close>

definition demo_page :: "byte list \<Rightarrow> byte list" where
  "demo_page b = b @ replicate (PAGE_SIZE - length b) 0"

text \<open>The argument list \<open>sh\<close>, \<open>/a\<close> at the beginning of a page.\<close>

theorem script_name_in_page_witness:
  "valid_args_name_from_bprm (\<lambda>n. if n = 0 then Some (demo_page [115, 104, 0, 47, 97, 0]) else None) True
     (Some \<lparr>bp_argc = 2, bp_p = 0, bp_interp = [], bp_e_type = 2\<rparr>) (replicate NAME_SIZE 0)
   = Some (Arg 1 (strncpy [47, 97] NAME_SIZE))"
  by (rule script_name_in_page [where arg = "[115, 104]" and rest = "replicate (PAGE_SIZE - 6) 0"])
     (simp_all add: demo_page_def PAGE_SIZE_def plain_name_def no_nul_def is_valid_character_def NAME_SIZE_def)

text \<open>The argument \<open>/tmp/x\<close> of \<open>sh\<close>, four bytes before the end of the page: \<open>xtmp\<close> is looked up.\<close>

theorem script_name_across_pages_witness:
  "valid_args_name_from_bprm
     (\<lambda>n. if n = 0 then Some (replicate (PAGE_SIZE - 7) 0 @ [115, 104, 0, 47, 116, 109, 112])
          else if n = 1 then Some (demo_page [47, 120, 0]) else None) True
     (Some \<lparr>bp_argc = 2, bp_p = PAGE_SIZE - 7, bp_interp = [], bp_e_type = 2\<rparr>) (replicate NAME_SIZE 0)
   = Some (Arg 1 (strncpy [120, 116, 109, 112] NAME_SIZE))"
  using script_name_across_pages [where b = "\<lparr>bp_argc = 2, bp_p = PAGE_SIZE - 7, bp_interp = [], bp_e_type = 2\<rparr>"
      and get_arg_page = "\<lambda>n. if n = 0 then Some (replicate (PAGE_SIZE - 7) 0 @ [115, 104, 0, 47, 116, 109, 112])
          else if n = 1 then Some (demo_page [47, 120, 0]) else None"
      and page = "replicate (PAGE_SIZE - 7) 0 @ [115, 104, 0, 47, 116, 109, 112]"
      and arg = "[115, 104]" and u = "[47, 116, 109, 112]" and x = 47 and v = "[120]"
      and rest = "replicate (PAGE_SIZE - 3) 0" and name = "replicate NAME_SIZE 0"]
  by (simp add: demo_page_def PAGE_SIZE_def plain_name_def no_nul_def is_valid_character_def isalnum_def NAME_SIZE_def)

theorem script_name_space_overflow_witness:
  "is_valid_args_name (replicate 900 47 @ [32, 0]) (replicate NAME_SIZE 0) = Arg_Fault"
  by (rule script_name_space_overflow) (simp_all add: no_nul_def NAME_SIZE_def)

end
