(* ===== verification/Ring_Queue.thy ===== *)
theory Ring_Queue
  imports Prelude
begin

text \<open>
  The ring buffer of pending notifications (tsb/kernel/platform/notify/ring_array.c). Slots
  are consumed by several readers at once: each slot carries a bitmap of the readers that
  have not fetched it yet. A pointer argument that the code tests against NULL is an
  \<open>option\<close>; the position walks are bounded by the queue length and yield \<open>None\<close>
  when they would not end, which the invariant excludes.

  The abstraction of a ring is the list of its occupied slots, oldest first. The lemmas show
  that each operation acts on that list as a bounded queue does, and a locale states that
  contract for the clients of the ring.
\<close>

section \<open>Data\<close>

definition MAX_CONCURR_PROCESS :: nat where "MAX_CONCURR_PROCESS = 32"
definition MAX_BUF_ITEMS_NUM :: nat where "MAX_BUF_ITEMS_NUM = 1000"
definition MIN_BUF_ITEMS_NUM :: nat where "MIN_BUF_ITEMS_NUM = 100"
definition DEFAULT_BUF_ITEMS_NUM :: nat where "DEFAULT_BUF_ITEMS_NUM = 500"

record notify =
  n_type :: int
  n_length :: int
  n_buf :: "byte list"

record httc_notify =
  queue_bitmaps :: bitmap
  notify_item :: notify

record ring_queue =
  queue_mask :: bitmap
  queue_length :: nat
  rq_head :: nat
  rq_tail :: nat
  notify_queue :: "httc_notify list"

text \<open>The zeroed slot that kzalloc leaves.\<close>

definition zero_notify :: httc_notify where
  "zero_notify = \<lparr>queue_bitmaps = 0, notify_item = \<lparr>n_type = 0, n_length = 0, n_buf = replicate 48 0\<rparr>\<rparr>"

section \<open>Operations\<close>

text \<open>
  The allocation of \<open>(queue_len + 16) * sizeof (struct httc_notify)\<close> bytes (64 bytes each)
  holds the 24 byte header and \<open>queue_len + 15\<close> whole slots. \<open>alloc\<close> tells whether
  kzalloc succeeds.
\<close>

definition create_queue :: "bool \<Rightarrow> nat \<Rightarrow> ring_queue option" where
  "create_queue alloc len =
     (let queue_len = (if len > MAX_BUF_ITEMS_NUM \<or> len < MIN_BUF_ITEMS_NUM
                       then DEFAULT_BUF_ITEMS_NUM else len)
      in if \<not> alloc then None
         else Some \<lparr>queue_mask = 0, queue_length = queue_len, rq_head = queue_len - 1,
                    rq_tail = queue_len - 1,
                    notify_queue = replicate (queue_len + 15) zero_notify\<rparr>)"

definition is_full_queue :: "ring_queue option \<Rightarrow> int" where
  "is_full_queue qp = (case qp of None \<Rightarrow> -1 | Some q \<Rightarrow>
     if wrap32 (rq_tail q + 1) mod queue_length q = rq_head q mod queue_length q then 1 else 0)"

definition is_empty_queue :: "ring_queue option \<Rightarrow> int" where
  "is_empty_queue qp = (case qp of None \<Rightarrow> -1 | Some q \<Rightarrow>
     if rq_head q mod queue_length q = rq_tail q mod queue_length q then 1 else 0)"

definition put_queue ::
  "ring_queue option \<Rightarrow> notify option \<Rightarrow> int \<times> ring_queue option" where
  "put_queue qp node = (case node of None \<Rightarrow> (-1, qp) | Some n \<Rightarrow>
     (case qp of None \<Rightarrow> (-1, qp) | Some q \<Rightarrow>
       if is_full_queue qp = 1 then (-1, qp)
       else let t = wrap32 (rq_tail q + 1) mod queue_length q
            in (0, Some (q\<lparr>rq_tail := t,
                  notify_queue := (notify_queue q)[t :=
                    \<lparr>queue_bitmaps = queue_mask q, notify_item = n\<rparr>]\<rparr>))))"

definition get_queue :: "ring_queue option \<Rightarrow> int \<times> ring_queue option" where
  "get_queue qp = (case qp of None \<Rightarrow> (-1, qp) | Some q \<Rightarrow>
     if is_empty_queue qp = 1 then (-1, qp)
     else (1, Some (q\<lparr>rq_head := wrap32 (rq_head q + 1) mod queue_length q\<rparr>)))"

text \<open>
  The loop \<open>h = head; while (h != tail) { h++; h = h % queue_length; ... }\<close> that four
  operations share, as the list of slots it visits. Every turn that is not the last moves to
  another slot of the ring, so \<open>queue_length\<close> turns are enough when head and tail are in
  range.
\<close>

fun ring_walk :: "nat \<Rightarrow> nat \<Rightarrow> nat \<Rightarrow> nat \<Rightarrow> nat list option" where
  "ring_walk 0 len t h = (if h = t then Some [] else None)"
| "ring_walk (Suc k) len t h =
     (if h = t then Some []
      else let h' = wrap32 (h + 1) mod len in map_option (\<lambda>ps. h' # ps) (ring_walk k len t h'))"

definition ring_positions :: "ring_queue \<Rightarrow> nat list option" where
  "ring_positions q = ring_walk (queue_length q) (queue_length q) (rq_tail q) (rq_head q)"

definition clear_slot_bit :: "nat \<Rightarrow> nat \<Rightarrow> httc_notify list \<Rightarrow> httc_notify list" where
  "clear_slot_bit n h slots =
     slots[h := (slots ! h)\<lparr>queue_bitmaps := clear_bit n (queue_bitmaps (slots ! h))\<rparr>]"

text \<open>
  The result of \<open>retrieve_queue\<close> is the slot whose address the code returns, \<open>None\<close>
  for NULL, with the ring after the call.
\<close>

definition retrieve_queue ::
  "ring_queue option \<Rightarrow> nat \<Rightarrow> (nat option \<times> ring_queue option) option" where
  "retrieve_queue qp ident = (case qp of None \<Rightarrow> Some (None, qp) | Some q \<Rightarrow>
     if is_empty_queue qp = 1 then Some (None, qp)
     else (case ring_positions q of None \<Rightarrow> None | Some ps \<Rightarrow>
       (case find (\<lambda>h. test_bit ident (queue_bitmaps (notify_queue q ! h))) ps of
          None \<Rightarrow> Some (None, qp)
        | Some h \<Rightarrow>
            let q1 = q\<lparr>notify_queue := clear_slot_bit ident h (notify_queue q)\<rparr>
            in Some (Some h,
                 if bitmap_empty (queue_bitmaps (notify_queue q1 ! h)) MAX_CONCURR_PROCESS
                 then snd (get_queue (Some q1)) else Some q1))))"

definition clear_queue_bit :: "ring_queue option \<Rightarrow> int \<Rightarrow> ring_queue option option" where
  "clear_queue_bit qp nr = (case qp of None \<Rightarrow> Some qp | Some q \<Rightarrow>
     if is_empty_queue qp = 1 then Some qp
     else if nr > int MAX_CONCURR_PROCESS \<or> nr < 0 then Some qp
     else (case ring_positions q of None \<Rightarrow> None | Some ps \<Rightarrow>
       Some (Some (q\<lparr>notify_queue :=
         fold (clear_slot_bit (nat nr)) ps (notify_queue q)\<rparr>))))"

text \<open>One turn of the loop of \<open>copy_queue\<close>: make room, append, restore the slot's own bitmap.\<close>

definition copy_slot :: "ring_queue \<Rightarrow> nat \<Rightarrow> ring_queue option \<Rightarrow> ring_queue option" where
  "copy_slot src h desp =
     (let des1 = (if is_full_queue desp \<noteq> 0 then snd (get_queue desp) else desp);
          item = notify_queue src ! h;
          des2 = snd (put_queue des1 (Some (notify_item item)))
      in map_option (\<lambda>d. d\<lparr>notify_queue := (notify_queue d)[rq_tail d :=
           (notify_queue d ! rq_tail d)\<lparr>queue_bitmaps := queue_bitmaps item\<rparr>]\<rparr>) des2)"

definition copy_queue ::
  "ring_queue option \<Rightarrow> ring_queue option \<Rightarrow> ring_queue option option" where
  "copy_queue srcp desp = (case (srcp, desp) of
     (Some src, Some des) \<Rightarrow>
       if is_empty_queue srcp = 1 then Some desp
       else map_option (\<lambda>ps. fold (copy_slot src) ps desp) (ring_positions src)
   | _ \<Rightarrow> Some desp)"

definition get_channel_num :: "ring_queue option \<Rightarrow> nat \<Rightarrow> int option" where
  "get_channel_num qp channel = (case qp of None \<Rightarrow> Some 0 | Some q \<Rightarrow>
     if is_empty_queue qp = 1 then Some 0
     else map_option (\<lambda>ps. int (length (filter (\<lambda>h. test_bit channel (queue_bitmaps (notify_queue q ! h))) ps)))
            (ring_positions q))"

section \<open>Invariant and abstraction\<close>

definition rq_wf :: "ring_queue \<Rightarrow> bool" where
  "rq_wf q \<longleftrightarrow>
     MIN_BUF_ITEMS_NUM \<le> queue_length q \<and> queue_length q \<le> MAX_BUF_ITEMS_NUM \<and>
     rq_head q < queue_length q \<and> rq_tail q < queue_length q \<and>
     length (notify_queue q) = queue_length q + 15"

definition rq_count :: "ring_queue \<Rightarrow> nat" where
  "rq_count q = (rq_tail q + queue_length q - rq_head q) mod queue_length q"

definition rq_slots :: "ring_queue \<Rightarrow> nat list" where
  "rq_slots q = map (\<lambda>i. (rq_head q + 1 + i) mod queue_length q) [0..<rq_count q]"

definition rq_items :: "ring_queue \<Rightarrow> httc_notify list" where
  "rq_items q = map ((!) (notify_queue q)) (rq_slots q)"

text \<open>What one reader has still to fetch.\<close>

definition pending :: "nat \<Rightarrow> httc_notify list \<Rightarrow> notify list" where
  "pending c items = map notify_item (filter (\<lambda>it. test_bit c (queue_bitmaps it)) items)"

section \<open>Ring arithmetic\<close>

lemmas rq_bounds = MAX_CONCURR_PROCESS_def MAX_BUF_ITEMS_NUM_def MIN_BUF_ITEMS_NUM_def
  DEFAULT_BUF_ITEMS_NUM_def

lemma rq_wf_facts:
  assumes "rq_wf q"
  shows "0 < queue_length q" "queue_length q < 2 ^ 32 - 1" "2 \<le> queue_length q"
    "rq_head q < queue_length q" "rq_tail q < queue_length q"
    "length (notify_queue q) = queue_length q + 15"
  using assms by (auto simp: rq_wf_def rq_bounds)

lemma wrap32_succ: "h < len \<Longrightarrow> len < 2 ^ 32 - 1 \<Longrightarrow> wrap32 (h + 1) = h + 1"
  by simp

lemma mod_diff_cases:
  fixes h t len :: nat
  assumes "h < len" "t < len"
  shows "(t + len - h) mod len = (if h \<le> t then t - h else t + len - h)"
  using assms by (auto simp: mod_if)

lemma mod_add_diff:
  fixes h n len :: nat
  assumes "h < len" "n < len"
  shows "((h + n) mod len + len - h) mod len = n"
  using assms by (auto simp: mod_if)

lemma rq_count_less: "rq_wf q \<Longrightarrow> rq_count q < queue_length q"
  by (simp add: rq_count_def rq_wf_facts)

lemma rq_tail_eq: "rq_wf q \<Longrightarrow> rq_tail q = (rq_head q + rq_count q) mod queue_length q"
  using rq_wf_facts [of q] by (auto simp: rq_count_def mod_diff_cases mod_if)

lemma rq_count_eqI:
  assumes "rq_wf q" "n < queue_length q" "rq_tail q = (rq_head q + n) mod queue_length q"
  shows "rq_count q = n"
  using assms rq_wf_facts [of q] by (simp add: rq_count_def mod_add_diff)

lemma ring_step_mod:
  fixes h i len :: nat
  shows "Suc (Suc h mod len + i) mod len = Suc (Suc (h + i)) mod len"
  using mod_add_left_eq [of "h + 1" len "1 + i"] by (simp add: ac_simps)

lemma ring_walk_eq:
  assumes "h < len" "t < len" "len < 2 ^ 32 - 1" "(t + len - h) mod len \<le> k"
  shows "ring_walk k len t h = Some (map (\<lambda>i. (h + 1 + i) mod len) [0..<(t + len - h) mod len])"
  using assms
proof (induction k arbitrary: h)
  case 0
  then show ?case by (auto simp: mod_diff_cases split: if_splits)
next
  case (Suc k)
  show ?case
  proof (cases "h = t")
    case True
    then show ?thesis using Suc.prems by simp
  next
    case False
    let ?h = "(h + 1) mod len"
    let ?n = "(t + len - h) mod len"
    have n: "?n = Suc ((t + len - ?h) mod len)"
      using False Suc.prems(1,2) by (auto simp: mod_diff_cases mod_if split: if_splits)
    have "ring_walk k len t ?h = Some (map (\<lambda>i. (?h + 1 + i) mod len) [0..<(t + len - ?h) mod len])"
      using Suc.prems n by (intro Suc.IH) auto
    moreover have "map (\<lambda>i. (h + 1 + i) mod len) [0..<?n]
        = ?h # map (\<lambda>i. (?h + 1 + i) mod len) [0..<(t + len - ?h) mod len]"
      unfolding n by (simp add: upt_conv_Cons map_Suc_upt [symmetric] ring_step_mod del: upt_Suc)
    ultimately show ?thesis
      using False Suc.prems wrap32_succ [of h len] by (simp add: Let_def)
  qed
qed

lemma ring_positions_eq [ring_simps]: "rq_wf q \<Longrightarrow> ring_positions q = Some (rq_slots q)"
  using rq_wf_facts [of q] rq_count_less [of q]
  by (simp add: ring_positions_def rq_slots_def rq_count_def ring_walk_eq)

lemma length_rq_slots [simp]: "length (rq_slots q) = rq_count q"
  by (simp add: rq_slots_def)

lemma length_rq_items [simp]: "length (rq_items q) = rq_count q"
  by (simp add: rq_items_def)

lemma rq_slots_less: "rq_wf q \<Longrightarrow> h \<in> set (rq_slots q) \<Longrightarrow> h < queue_length q"
  by (auto simp: rq_slots_def rq_wf_facts)

lemma mod_add_inj:
  fixes a i j len :: nat
  assumes "(a + i) mod len = (a + j) mod len" "i < len" "j < len"
  shows "i = j"
proof -
  have aux: "i = j" if "(a + i) mod len = (a + j) mod len" "i < len" "j \<le> i" for i j
  proof -
    have "len dvd i - j"
      using that mod_eq_dvd_iff_nat [of "a + j" "a + i" len] by simp
    then show ?thesis
      using that dvd_imp_le [of len "i - j"] by fastforce
  qed
  show ?thesis
    using aux [of i j] aux [of j i] assms by (cases "j \<le> i") auto
qed

lemma distinct_rq_slots: "rq_wf q \<Longrightarrow> distinct (rq_slots q)"
  using rq_count_less [of q]
  by (auto simp: rq_slots_def distinct_map inj_on_def
      dest: mod_add_inj [of "Suc (rq_head q)", simplified])

section \<open>The operations on the abstraction\<close>

lemma is_empty_queue_iff [ring_simps]:
  assumes "rq_wf q"
  shows "is_empty_queue (Some q) = (if rq_items q = [] then 1 else 0)"
proof -
  have "rq_items q = [] \<longleftrightarrow> rq_count q = 0"
    by (metis length_rq_items length_0_conv)
  moreover have "rq_count q = 0 \<longleftrightarrow> rq_head q = rq_tail q"
    using rq_wf_facts [OF assms] by (auto simp: rq_count_def mod_diff_cases split: if_splits)
  ultimately show ?thesis
    using rq_wf_facts [OF assms] by (simp add: is_empty_queue_def)
qed

lemma is_full_queue_iff [ring_simps]:
  assumes "rq_wf q"
  shows "is_full_queue (Some q) = (if length (rq_items q) = queue_length q - 1 then 1 else 0)"
proof -
  have "(rq_tail q + 1) mod queue_length q = rq_head q \<longleftrightarrow> rq_count q = queue_length q - 1"
    using rq_wf_facts [OF assms]
    by (auto simp: rq_count_def mod_diff_cases mod_if split: if_splits)
  then show ?thesis
    using rq_wf_facts [OF assms] by (simp add: is_full_queue_def wrap32_succ)
qed

lemma rq_items_notify_queue_cong:
  assumes "queue_length q' = queue_length q" "rq_head q' = rq_head q" "rq_tail q' = rq_tail q"
  shows "rq_slots q' = rq_slots q"
  using assms by (simp add: rq_slots_def rq_count_def)

lemma put_queue_ok [ring_simps]:
  assumes wf: "rq_wf q" and room: "length (rq_items q) < queue_length q - 1"
  obtains q' where "put_queue (Some q) (Some n) = (0, Some q')" "rq_wf q'"
    "rq_items q' = rq_items q @ [\<lparr>queue_bitmaps = queue_mask q, notify_item = n\<rparr>]"
    "queue_mask q' = queue_mask q" "queue_length q' = queue_length q"
    "notify_queue q' ! rq_tail q' = \<lparr>queue_bitmaps = queue_mask q, notify_item = n\<rparr>"
    "rq_head q' = rq_head q" "length (notify_queue q') = length (notify_queue q)"
    "rq_slots q' = rq_slots q @ [rq_tail q']"
proof -
  note b = rq_wf_facts [OF wf]
  let ?t = "(rq_tail q + 1) mod queue_length q"
  let ?it = "\<lparr>queue_bitmaps = queue_mask q, notify_item = n\<rparr>"
  define q' where "q' = q\<lparr>rq_tail := ?t, notify_queue := (notify_queue q)[?t := ?it]\<rparr>"
  have put: "put_queue (Some q) (Some n) = (0, Some q')"
    using room b by (simp add: put_queue_def is_full_queue_iff [OF wf] q'_def Let_def wrap32_succ)
  have wf': "rq_wf q'"
    using wf b by (simp add: rq_wf_def q'_def)
  have cnt: "rq_count q' = Suc (rq_count q)"
  proof (rule rq_count_eqI [OF wf'])
    show "Suc (rq_count q) < queue_length q'" using room by (simp add: q'_def)
    show "rq_tail q' = (rq_head q' + Suc (rq_count q)) mod queue_length q'"
      using rq_tail_eq [OF wf] by (simp add: q'_def mod_simps)
  qed
  have slots: "rq_slots q' = rq_slots q @ [?t]"
    using cnt rq_tail_eq [OF wf] by (simp add: rq_slots_def q'_def mod_simps)
  have "?t \<notin> set (rq_slots q)"
    using distinct_rq_slots [OF wf'] slots by simp
  moreover have "?t < length (notify_queue q)"
    using b by (simp add: trans_less_add1)
  ultimately have "rq_items q' = rq_items q @ [?it]" "?t < length (notify_queue q)"
    by (auto simp: rq_items_def slots) (auto simp: q'_def intro!: nth_list_update_neq)
  then show ?thesis
    using put wf' slots that [of q'] by (simp add: q'_def)
qed

lemma get_queue_ok [ring_simps]:
  assumes wf: "rq_wf q" and ne: "rq_items q \<noteq> []"
  obtains q' where "get_queue (Some q) = (1, Some q')" "rq_wf q'"
    "rq_items q' = tl (rq_items q)" "queue_mask q' = queue_mask q"
    "queue_length q' = queue_length q" "notify_queue q' = notify_queue q"
    "rq_slots q' = tl (rq_slots q)"
proof -
  note b = rq_wf_facts [OF wf]
  let ?h = "(rq_head q + 1) mod queue_length q"
  define q' where "q' = q\<lparr>rq_head := ?h\<rparr>"
  from ne obtain n where n: "rq_count q = Suc n"
    by (metis length_rq_items length_0_conv not0_implies_Suc)
  have "get_queue (Some q) = (1, Some q')"
    using ne b by (simp add: get_queue_def is_empty_queue_iff [OF wf] q'_def wrap32_succ)
  moreover have wf': "rq_wf q'"
    using wf b by (simp add: rq_wf_def q'_def)
  moreover have cnt: "rq_count q' = n"
  proof (rule rq_count_eqI [OF wf'])
    show "n < queue_length q'" using rq_count_less [OF wf] n by (simp add: q'_def)
    show "rq_tail q' = (rq_head q' + n) mod queue_length q'"
      using rq_tail_eq [OF wf] n by (simp add: q'_def mod_simps)
  qed
  moreover have slots: "rq_slots q' = tl (rq_slots q)"
    unfolding rq_slots_def cnt n
    by (simp add: q'_def upt_conv_Cons map_Suc_upt [symmetric] ring_step_mod del: upt_Suc)
  ultimately show ?thesis
    using that [of q'] by (simp add: q'_def rq_items_def map_tl)
qed

section \<open>The contract of a bounded queue\<close>

text \<open>
  What the clients of the ring rely on: an element is appended where there is room, the oldest
  one is dropped, the capacity stays. \<open>stamp\<close> is what a slot records of an appended
  notification (the ring adds the bitmap of the current readers). From these laws follows what
  both clients of the pair do, drop the oldest entry of a full queue and append: the queue keeps
  the most recent entries.
\<close>

locale bounded_queue =
  fixes invar :: "'q \<Rightarrow> bool"
    and items :: "'q \<Rightarrow> 'a list"
    and cap :: "'q \<Rightarrow> nat"
    and full :: "'q \<Rightarrow> bool"
    and enq :: "'n \<Rightarrow> 'q \<Rightarrow> 'q"
    and deq :: "'q \<Rightarrow> 'q"
    and stamp :: "'q \<Rightarrow> 'n \<Rightarrow> 'a"
  assumes cap_pos: "invar q \<Longrightarrow> 0 < cap q"
    and items_le: "invar q \<Longrightarrow> length (items q) \<le> cap q"
    and full_iff: "invar q \<Longrightarrow> full q \<longleftrightarrow> length (items q) = cap q"
    and enq_ok: "invar q \<Longrightarrow> length (items q) < cap q \<Longrightarrow>
      invar (enq n q) \<and> items (enq n q) = items q @ [stamp q n] \<and> cap (enq n q) = cap q"
    and deq_ok: "invar q \<Longrightarrow> items q \<noteq> [] \<Longrightarrow>
      invar (deq q) \<and> items (deq q) = tl (items q) \<and> cap (deq q) = cap q \<and> stamp (deq q) = stamp q"
begin

definition push :: "'n \<Rightarrow> 'q \<Rightarrow> 'q" where
  "push n q = enq n (if full q then deq q else q)"

lemma push_cases:
  assumes "invar q"
  shows "invar (push n q) \<and> items (push n q) = take_last (cap q) (items q @ [stamp q n])
    \<and> cap (push n q) = cap q"
proof (cases "length (items q) = cap q")
  case True
  moreover have "items q \<noteq> []"
    using cap_pos [OF assms] True by auto
  ultimately show ?thesis
    using deq_ok [OF assms] enq_ok [of "deq q" n] cap_pos [OF assms]
    by (simp add: push_def full_iff [OF assms] take_last_snoc)
next
  case False
  then have "length (items q) < cap q"
    using items_le [OF assms] by simp
  then show ?thesis
    using enq_ok [OF assms, of n] False by (simp add: push_def full_iff [OF assms])
qed

lemma push_length: "invar q \<Longrightarrow> length (items (push n q)) \<le> cap q"
  using push_cases by simp

end

interpretation rq: bounded_queue rq_wf rq_items "\<lambda>q. queue_length q - 1"
  "\<lambda>q. is_full_queue (Some q) = 1"
  "\<lambda>n q. the (snd (put_queue (Some q) (Some n)))"
  "\<lambda>q. the (snd (get_queue (Some q)))"
  "\<lambda>q n. \<lparr>queue_bitmaps = queue_mask q, notify_item = n\<rparr>"
proof
  fix q :: ring_queue and n
  assume wf: "rq_wf q"
  show "0 < queue_length q - 1" using rq_wf_facts [OF wf] by simp
  show "length (rq_items q) \<le> queue_length q - 1" using rq_count_less [OF wf] by simp
  show "(is_full_queue (Some q) = 1) = (length (rq_items q) = queue_length q - 1)"
    by (simp add: is_full_queue_iff [OF wf])
  show "rq_wf (the (snd (put_queue (Some q) (Some n)))) \<and>
      rq_items (the (snd (put_queue (Some q) (Some n))))
        = rq_items q @ [\<lparr>queue_bitmaps = queue_mask q, notify_item = n\<rparr>] \<and>
      queue_length (the (snd (put_queue (Some q) (Some n)))) - 1 = queue_length q - 1"
    if "length (rq_items q) < queue_length q - 1"
    by (rule put_queue_ok [OF wf that, where n = n]) simp
  show "rq_wf (the (snd (get_queue (Some q)))) \<and> rq_items (the (snd (get_queue (Some q)))) = tl (rq_items q) \<and>
      queue_length (the (snd (get_queue (Some q)))) - 1 = queue_length q - 1 \<and>
      (\<lambda>n. \<lparr>queue_bitmaps = queue_mask (the (snd (get_queue (Some q)))), notify_item = n\<rparr>)
        = (\<lambda>n. \<lparr>queue_bitmaps = queue_mask q, notify_item = n\<rparr>)"
    if "rq_items q \<noteq> []"
    by (rule get_queue_ok [OF wf that]) simp
qed

lemma put_get_frame:
  assumes "rq_wf q"
  shows "rq_items q \<noteq> [] \<Longrightarrow> queue_mask (the (snd (get_queue (Some q)))) = queue_mask q
      \<and> queue_length (the (snd (get_queue (Some q)))) = queue_length q
      \<and> snd (get_queue (Some q)) \<noteq> None"
    and "length (rq_items q) < queue_length q - 1 \<Longrightarrow>
      queue_mask (the (snd (put_queue (Some q) (Some n)))) = queue_mask q
      \<and> queue_length (the (snd (put_queue (Some q) (Some n)))) = queue_length q
      \<and> snd (put_queue (Some q) (Some n)) \<noteq> None"
  by (erule get_queue_ok [OF assms], simp) (erule put_queue_ok [OF assms, where n = n], simp)

section \<open>Readers\<close>

lemma create_queue_ok:
  assumes "create_queue al len = Some q"
  shows "rq_wf q" "rq_items q = []" "queue_mask q = 0"
    "queue_length q = (if MIN_BUF_ITEMS_NUM \<le> len \<and> len \<le> MAX_BUF_ITEMS_NUM then len
       else DEFAULT_BUF_ITEMS_NUM)"
  using assms
  by (auto simp: create_queue_def rq_wf_def rq_items_def rq_slots_def rq_count_def Let_def rq_bounds
      split: if_splits)

lemma rq_wf_set_slots:
  "rq_wf q \<Longrightarrow> length ss = length (notify_queue q) \<Longrightarrow> rq_wf (q\<lparr>notify_queue := ss\<rparr>)"
  by (simp add: rq_wf_def)

lemma rq_slots_set_slots [simp]: "rq_slots (q\<lparr>notify_queue := ss\<rparr>) = rq_slots q"
  by (simp add: rq_slots_def rq_count_def)

lemma rq_items_update:
  assumes "rq_wf q" "k < length (rq_items q)"
  shows "rq_items (q\<lparr>notify_queue := (notify_queue q)[rq_slots q ! k := x]\<rparr>) = (rq_items q)[k := x]"
proof (rule nth_equalityI)
  fix i
  assume "i < length (rq_items (q\<lparr>notify_queue := (notify_queue q)[rq_slots q ! k := x]\<rparr>))"
  then have i: "i < rq_count q"
    by (metis length_rq_items length_rq_slots rq_slots_set_slots)
  have "rq_slots q ! k < length (notify_queue q)"
    using assms rq_slots_less [OF assms(1), of "rq_slots q ! k"] rq_wf_facts [OF assms(1)]
    by simp
  moreover have "rq_slots q ! i = rq_slots q ! k \<longleftrightarrow> i = k"
    using i assms distinct_rq_slots [OF assms(1)] by (simp add: nth_eq_iff_index_eq)
  ultimately show "rq_items (q\<lparr>notify_queue := (notify_queue q)[rq_slots q ! k := x]\<rparr>) ! i
      = (rq_items q)[k := x] ! i"
    using i assms by (auto simp: rq_items_def nth_list_update)
qed (simp add: rq_items_def)

text \<open>The slot a reader gets, with its own bit cleared.\<close>

definition fetched :: "nat \<Rightarrow> httc_notify \<Rightarrow> httc_notify" where
  "fetched c it = it\<lparr>queue_bitmaps := clear_bit c (queue_bitmaps it)\<rparr>"

lemma fetched_simps [simp]:
  "notify_item (fetched c it) = notify_item it"
  "queue_bitmaps (fetched c it) = clear_bit c (queue_bitmaps it)"
  by (simp_all add: fetched_def)

lemma retrieve_queue_none:
  assumes "rq_wf q" "pending c (rq_items q) = []"
  shows "retrieve_queue (Some q) c = Some (None, Some q)"
proof -
  have "find (\<lambda>h. test_bit c (queue_bitmaps (notify_queue q ! h))) (rq_slots q) = None"
    using assms by (auto simp: find_None_iff pending_def rq_items_def filter_empty_conv)
  then show ?thesis
    using assms by (simp add: retrieve_queue_def ring_simps)
qed

lemma retrieve_queue_some:
  assumes wf: "rq_wf q" and k: "k < length (rq_items q)"
    and bit: "test_bit c (queue_bitmaps (rq_items q ! k))"
    and first: "\<forall>j<k. \<not> test_bit c (queue_bitmaps (rq_items q ! j))"
  obtains h q' where "retrieve_queue (Some q) c = Some (Some h, Some q')" "rq_wf q'"
    "h < length (notify_queue q')" "notify_item (notify_queue q' ! h) = notify_item (rq_items q ! k)"
    "queue_mask q' = queue_mask q" "queue_length q' = queue_length q"
    "rq_items q' = (let its = (rq_items q)[k := fetched c (rq_items q ! k)]
       in if bitmap_empty (queue_bitmaps (its ! k)) MAX_CONCURR_PROCESS then tl its else its)"
proof -
  let ?h = "rq_slots q ! k"
  define q1 where "q1 = q\<lparr>notify_queue := clear_slot_bit c ?h (notify_queue q)\<rparr>"
  have h: "?h < length (notify_queue q)"
    using k rq_slots_less [OF wf, of ?h] rq_wf_facts [OF wf] by simp
  have it: "notify_queue q ! ?h = rq_items q ! k"
    using k by (simp add: rq_items_def)
  have items1: "rq_items q1 = (rq_items q)[k := fetched c (rq_items q ! k)]"
    using rq_items_update [OF wf k] it by (simp add: q1_def clear_slot_bit_def fetched_def)
  have wf1: "rq_wf q1"
    using wf by (simp add: q1_def clear_slot_bit_def rq_wf_set_slots)
  have at: "notify_queue q1 ! ?h = fetched c (rq_items q ! k)"
    using h it by (simp add: q1_def clear_slot_bit_def fetched_def)
  have "rq_items q \<noteq> []" "rq_items q1 \<noteq> []"
    using k items1 by (auto simp del: length_rq_items)
  moreover have "find (\<lambda>h. test_bit c (queue_bitmaps (notify_queue q ! h))) (rq_slots q) = Some ?h"
    using k bit first by (auto simp: find_Some_iff rq_items_def intro!: exI [of _ k])
  ultimately have ret: "retrieve_queue (Some q) c = Some (Some ?h,
      if bitmap_empty (queue_bitmaps (fetched c (rq_items q ! k))) MAX_CONCURR_PROCESS
      then snd (get_queue (Some q1)) else Some q1)"
    using wf at by (simp add: retrieve_queue_def ring_simps q1_def Let_def del: fetched_simps)
  obtain q2 where q2: "get_queue (Some q1) = (1, Some q2)" "rq_wf q2" "rq_items q2 = tl (rq_items q1)"
    "queue_mask q2 = queue_mask q1" "queue_length q2 = queue_length q1"
    "notify_queue q2 = notify_queue q1"
    using get_queue_ok [OF wf1 \<open>rq_items q1 \<noteq> []\<close>] by metis
  define q' where "q' = (if bitmap_empty (queue_bitmaps (fetched c (rq_items q ! k)))
      MAX_CONCURR_PROCESS then q2 else q1)"
  have nq: "notify_queue q' = notify_queue q1" and "queue_mask q' = queue_mask q"
    "queue_length q' = queue_length q" "rq_wf q'"
    using q2 wf1 by (auto simp: q'_def q1_def)
  moreover have "retrieve_queue (Some q) c = Some (Some ?h, Some q')"
    using ret q2(1) by (simp add: q'_def)
  moreover have "?h < length (notify_queue q')"
    using h nq by (simp add: q1_def clear_slot_bit_def)
  moreover have "notify_item (notify_queue q' ! ?h) = notify_item (rq_items q ! k)"
    using nq at by simp
  moreover have "rq_items q' = (let its = (rq_items q)[k := fetched c (rq_items q ! k)]
       in if bitmap_empty (queue_bitmaps (its ! k)) MAX_CONCURR_PROCESS then tl its else its)"
    using k items1 q2(3) by (simp add: q'_def Let_def)
  ultimately show ?thesis
    using that [of ?h q'] by blast
qed

lemma get_channel_num_eq:
  assumes "rq_wf q"
  shows "get_channel_num (Some q) c = Some (int (length (pending c (rq_items q))))"
  using assms
  by (simp add: get_channel_num_def ring_simps pending_def rq_items_def filter_map comp_def)

lemma fold_clear_slot_bit:
  assumes "distinct ps" "\<forall>p\<in>set ps. p < length ss"
  shows "length (fold (clear_slot_bit n) ps ss) = length ss"
    "i < length ss \<Longrightarrow> fold (clear_slot_bit n) ps ss ! i = (if i \<in> set ps then fetched n (ss ! i) else ss ! i)"
  using assms
  by (induction ps arbitrary: ss) (auto simp: clear_slot_bit_def fetched_def nth_list_update)

lemma clear_queue_bit_ok:
  assumes wf: "rq_wf q" and n: "n < MAX_CONCURR_PROCESS"
  obtains q' where "clear_queue_bit (Some q) (int n) = Some (Some q')" "rq_wf q'"
    "rq_items q' = map (fetched n) (rq_items q)" "queue_mask q' = queue_mask q"
    "queue_length q' = queue_length q"
proof (cases "rq_items q = []")
  case True
  then show ?thesis
    using that [of q] wf by (simp add: clear_queue_bit_def ring_simps)
next
  case False
  define q' where "q' = q\<lparr>notify_queue := fold (clear_slot_bit n) (rq_slots q) (notify_queue q)\<rparr>"
  have len: "\<forall>p\<in>set (rq_slots q). p < length (notify_queue q)"
    using rq_slots_less [OF wf] rq_wf_facts [OF wf] by fastforce
  note f = fold_clear_slot_bit [OF distinct_rq_slots [OF wf] len]
  have "clear_queue_bit (Some q) (int n) = Some (Some q')"
    using wf n False by (simp add: clear_queue_bit_def ring_simps q'_def)
  moreover have "rq_wf q'"
    using wf by (simp add: q'_def rq_wf_set_slots f)
  moreover have "rq_items q' = map (fetched n) (rq_items q)"
    using len by (simp add: q'_def rq_items_def f)
  ultimately show ?thesis
    using that [of q'] by (simp add: q'_def)
qed

lemma httc_notify_eta [simp]:
  "\<lparr>queue_bitmaps = queue_bitmaps x, notify_item = notify_item x\<rparr> = x"
  by (cases x) simp

lemma copy_slot_ok:
  assumes wf: "rq_wf d"
  obtains d' where "copy_slot src h (Some d) = Some d'" "rq_wf d'"
    "rq_items d' = take_last (queue_length d - 1) (rq_items d @ [notify_queue src ! h])"
    "queue_mask d' = queue_mask d" "queue_length d' = queue_length d"
proof -
  note b = rq_wf_facts [OF wf]
  let ?cap = "queue_length d - 1"
  obtain d1 where d1: "(if is_full_queue (Some d) \<noteq> 0 then snd (get_queue (Some d)) else Some d) = Some d1"
    "rq_wf d1" "length (rq_items d1) < ?cap" "queue_mask d1 = queue_mask d"
    "queue_length d1 = queue_length d"
    "rq_items d1 @ [notify_queue src ! h] = take_last ?cap (rq_items d @ [notify_queue src ! h])"
  proof (cases "length (rq_items d) = ?cap")
    case True
    then have "rq_items d \<noteq> []" using b by (auto simp del: length_rq_items)
    from get_queue_ok [OF wf this] obtain d1 where "get_queue (Some d) = (1, Some d1)" "rq_wf d1"
      "rq_items d1 = tl (rq_items d)" "queue_mask d1 = queue_mask d"
      "queue_length d1 = queue_length d"
      by metis
    with True b show ?thesis
      using that [of d1]
      by (auto simp: is_full_queue_iff [OF wf] take_last_snoc simp del: length_rq_items)
  next
    case False
    then have "rq_count d < ?cap" using rq_count_less [OF wf] by simp
    then show ?thesis
      using that [of d] wf False by (simp add: is_full_queue_iff)
  qed
  let ?item = "notify_queue src ! h"
  obtain d2 where d2: "put_queue (Some d1) (Some (notify_item ?item)) = (0, Some d2)" "rq_wf d2"
    "rq_items d2 = rq_items d1 @ [\<lparr>queue_bitmaps = queue_mask d1, notify_item = notify_item ?item\<rparr>]"
    "queue_mask d2 = queue_mask d1" "queue_length d2 = queue_length d1"
    "notify_queue d2 ! rq_tail d2 = \<lparr>queue_bitmaps = queue_mask d1, notify_item = notify_item ?item\<rparr>"
    "rq_slots d2 = rq_slots d1 @ [rq_tail d2]"
    using put_queue_ok [OF d1(2), of "notify_item ?item"] d1(3,5) by metis
  define d' where "d' = d2\<lparr>notify_queue := (notify_queue d2)[rq_slots d2 ! length (rq_items d1) := ?item]\<rparr>"
  have "rq_slots d2 ! length (rq_items d1) = rq_tail d2"
    using d2(7) by (metis length_rq_items length_rq_slots nth_append_length)
  then have "copy_slot src h (Some d) = Some d'"
    using d1(1) d2(1,6) by (simp add: copy_slot_def Let_def d'_def del: length_rq_items)
  moreover have "rq_items d' = rq_items d1 @ [?item]"
    unfolding d'_def
    by (subst rq_items_update [OF d2(2)]) (simp_all add: d2(3) list_update_append del: length_rq_items)
  ultimately show ?thesis
    using that [of d'] d1 d2 by (simp add: d'_def rq_wf_set_slots)
qed

lemma fold_copy_slot_ok:
  assumes "rq_wf d"
  obtains d' where "fold (copy_slot src) ps (Some d) = Some d'" "rq_wf d'"
    "rq_items d' = take_last (queue_length d - 1) (rq_items d @ map ((!) (notify_queue src)) ps)"
    "queue_mask d' = queue_mask d" "queue_length d' = queue_length d"
  using assms
proof (induction ps arbitrary: d thesis)
  case Nil
  have "rq_count d \<le> queue_length d - 1"
    using rq_count_less [OF Nil(2)] by simp
  then show ?case
    by (intro Nil(1) [of d]) (simp_all add: Nil(2))
next
  case (Cons p ps)
  let ?cap = "queue_length d - 1"
  obtain d1 where d1: "copy_slot src p (Some d) = Some d1" "rq_wf d1"
    "rq_items d1 = take_last ?cap (rq_items d @ [notify_queue src ! p])"
    "queue_mask d1 = queue_mask d" "queue_length d1 = queue_length d"
    using copy_slot_ok [OF Cons.prems(2)] by metis
  obtain d' where d': "fold (copy_slot src) ps (Some d1) = Some d'" "rq_wf d'"
    "rq_items d' = take_last (queue_length d1 - 1) (rq_items d1 @ map ((!) (notify_queue src)) ps)"
    "queue_mask d' = queue_mask d1" "queue_length d' = queue_length d1"
    by (rule Cons.IH [OF _ d1(2)])
  show ?case
    using d1 d' by (intro Cons.prems(1) [of d']) (simp_all add: take_last_append)
qed

lemma copy_queue_ok:
  assumes s: "rq_wf s" and d: "rq_wf d"
  obtains d' where "copy_queue (Some s) (Some d) = Some (Some d')" "rq_wf d'"
    "rq_items d' = take_last (queue_length d - 1) (rq_items d @ rq_items s)"
    "queue_mask d' = queue_mask d" "queue_length d' = queue_length d"
proof (cases "rq_items s = []")
  case True
  moreover have "rq_count d \<le> queue_length d - 1"
    using rq_count_less [OF d] by simp
  ultimately show ?thesis
    using that [of d] s d by (simp add: copy_queue_def ring_simps)
next
  case False
  obtain d' where d': "fold (copy_slot s) (rq_slots s) (Some d) = Some d'" "rq_wf d'"
    "rq_items d' = take_last (queue_length d - 1) (rq_items d @ rq_items s)"
    "queue_mask d' = queue_mask d" "queue_length d' = queue_length d"
    unfolding rq_items_def [of s] using fold_copy_slot_ok [OF d] by metis
  with False show ?thesis
    using that [of d'] s by (simp add: copy_queue_def ring_simps)
qed

end
