(* ===== verification/Notify.thy ===== *)
theory Notify
  imports Ring_Queue Command_Table
begin

text \<open>
  The notification service of the platform module (tsb/kernel/platform/notify/notify.c): up to
  32 user processes open a channel on the misc device and fetch the notifications the kernel
  components put. One ring holds the notifications of all channels; each channel has a counter of
  what it has not fetched yet.

  The lemmas show that the shared ring with its bitmaps implements one bounded queue per
  subscriber, which keeps the most recent notifications, and that the counters are the lengths of
  those queues.
\<close>

section \<open>State\<close>

record notify_head =
  nh_ident :: nat
  nh_inuse :: int
  nh_curcount :: int
  notify_sum :: int

record notify_state =
  dev_list :: "notify_head list"
  queue :: "ring_queue option"

definition MAX_NOTICE_SIZE :: int where "MAX_NOTICE_SIZE = 48"

definition zero_head :: notify_head where
  "zero_head = \<lparr>nh_ident = 0, nh_inuse = 0, nh_curcount = 0, notify_sum = 0\<rparr>"

section \<open>Operations\<close>

text \<open>
  Every operation holds \<open>notify_lock\<close> around its accesses to the queue and is one step of the
  model. \<open>None\<close> is the result of a run that dereferences a NULL queue or does not end.
  The argument \<open>priv\<close> is the file's private pointer: \<open>None\<close> for NULL, otherwise the
  index of a slot of \<open>dev_list\<close> (an index past its end is a pointer to something else).
\<close>

definition bump_sum :: "nat \<Rightarrow> nat \<Rightarrow> notify_head list \<Rightarrow> notify_head list" where
  "bump_sum len pos hs =
     (if notify_sum (hs ! pos) mod 2 ^ 32 < int (len - 1)
      then hs[pos := (hs ! pos)\<lparr>notify_sum := notify_sum (hs ! pos) + 1\<rparr>] else hs)"

definition tsb_put_notify :: "notify \<Rightarrow> notify_state \<Rightarrow> (int \<times> notify_state) option" where
  "tsb_put_notify entry s =
     (if n_length entry > MAX_NOTICE_SIZE then Some (-1, s)
      else (case queue s of None \<Rightarrow> None | Some q \<Rightarrow>
        if bitmap_weight (queue_mask q) MAX_CONCURR_PROCESS \<noteq> 0
        then let qp1 = (if is_full_queue (Some q) = 1 then snd (get_queue (Some q)) else Some q);
                 qp2 = snd (put_queue qp1 (Some entry))
             in (case qp2 of None \<Rightarrow> None | Some q2 \<Rightarrow>
                  Some (0, s\<lparr>queue := qp2,
                    dev_list := fold (bump_sum (queue_length q2))
                      (set_bits (queue_mask q2) MAX_CONCURR_PROCESS) (dev_list s)\<rparr>))
        else Some (0, s)))"

text \<open>\<open>None\<close> as the user's argument: copy_from_user fails.\<close>

definition ioctl_tsb_send_notify :: "notify option \<Rightarrow> notify_state \<Rightarrow> (int \<times> notify_state) option" where
  "ioctl_tsb_send_notify param s = (case param of None \<Rightarrow> Some (-1, s) | Some entry \<Rightarrow>
     (case tsb_put_notify entry s of None \<Rightarrow> None
      | Some (ret, s') \<Rightarrow> if ret \<noteq> 0 then Some (ret, s') else Some (0, s')))"

definition exist_notify_head :: "nat option \<Rightarrow> int" where
  "exist_notify_head phead =
     (if \<exists>i \<in> set [0..<MAX_CONCURR_PROCESS]. phead = Some i then 1 else 0)"

definition ioctl_tsb_create_notify_queue ::
  "nat option \<Rightarrow> notify_state \<Rightarrow> int \<times> nat option \<times> notify_state" where
  "ioctl_tsb_create_notify_queue priv s = (case queue s of None \<Rightarrow> (-1, priv, s) | Some q \<Rightarrow>
     (case find (\<lambda>i. nh_inuse (dev_list s ! i) = 0) [0..<MAX_CONCURR_PROCESS] of
        None \<Rightarrow> (-1, priv, s)
      | Some i \<Rightarrow> (0, Some i, s\<lparr>
          dev_list := (dev_list s)[i := (dev_list s ! i)\<lparr>nh_ident := i, nh_inuse := 1, notify_sum := 0\<rparr>],
          queue := Some (q\<lparr>queue_mask := set_bitmap i (queue_mask q)\<rparr>)\<rparr>)))"

definition tsb_destroy_notify_read_queue ::
  "nat option \<Rightarrow> notify_state \<Rightarrow> (int \<times> notify_state) option" where
  "tsb_destroy_notify_read_queue priv s = (case priv of None \<Rightarrow> Some (-1, s) | Some p \<Rightarrow>
     if exist_notify_head priv = 0 then Some (-1, s)
     else (case queue s of None \<Rightarrow> Some (-1, s) | Some q \<Rightarrow>
       let ident = nh_ident (dev_list s ! p);
           q1 = q\<lparr>queue_mask := clear_bit ident (queue_mask q)\<rparr>
       in (case clear_queue_bit (Some q1) (int ident) of None \<Rightarrow> None | Some qp2 \<Rightarrow>
            Some (exist_notify_head priv, s\<lparr>queue := qp2,
              dev_list := (dev_list s)[p := (dev_list s ! p)\<lparr>nh_inuse := 0, notify_sum := 0\<rparr>]\<rparr>))))"

text \<open>
  The fetch loop shared by the two reading commands. \<open>cp k\<close> tells whether the k-th
  copy_to_user succeeds; the list collects what reached the user. The loop ends when the channel
  has nothing left, at the latest after one turn per slot of the ring, so the fuel is the queue
  length.
\<close>

fun notify_fetch ::
  "nat \<Rightarrow> (nat \<Rightarrow> bool) \<Rightarrow> nat \<Rightarrow> nat \<Rightarrow> notify_state \<Rightarrow> (int \<times> notify list \<times> notify_state) option" where
  "notify_fetch 0 cp p count s = None"
| "notify_fetch (Suc fuel) cp p count s =
     (case retrieve_queue (queue s) (nh_ident (dev_list s ! p)) of None \<Rightarrow> None
      | Some (None, qp) \<Rightarrow> Some (int count, [], s\<lparr>queue := qp\<rparr>)
      | Some (Some h, qp) \<Rightarrow>
          let sum = notify_sum (dev_list s ! p) - 1;
              s1 = s\<lparr>queue := qp, dev_list := (dev_list s)[p := (dev_list s ! p)
                     \<lparr>notify_sum := (if sum < 0 then 0 else sum)\<rparr>]\<rparr>
          in if \<not> cp count then Some (-1, [], s1)
             else (case qp of None \<Rightarrow> None | Some q \<Rightarrow>
               map_option (\<lambda>(r, out, s2). (r, notify_item (notify_queue q ! h) # out, s2))
                 (notify_fetch fuel cp p (Suc count) s1)))"

definition fetch_fuel :: "notify_state \<Rightarrow> nat" where
  "fetch_fuel s = (case queue s of None \<Rightarrow> 1 | Some q \<Rightarrow> queue_length q)"

definition ioctl_tsb_get_notify_noblock ::
  "(nat \<Rightarrow> bool) \<Rightarrow> nat option \<Rightarrow> notify_state \<Rightarrow> (int \<times> notify list \<times> notify_state) option" where
  "ioctl_tsb_get_notify_noblock cp priv s =
     (if exist_notify_head priv = 0 then Some (-1, [], s)
      else if notify_sum (dev_list s ! the priv) \<le> 0 then Some (0, [], s)
      else notify_fetch (fetch_fuel s) cp (the priv) 0 s)"

text \<open>
  The blocking command waits until its counter is positive. \<open>None\<close> is also the result
  of a caller that still waits; \<open>signal\<close> tells whether a signal ends the wait.
\<close>

definition ioctl_tsb_get_notify_block ::
  "bool \<Rightarrow> (nat \<Rightarrow> bool) \<Rightarrow> nat option \<Rightarrow> notify_state \<Rightarrow> (int \<times> notify list \<times> notify_state) option" where
  "ioctl_tsb_get_notify_block signal cp priv s =
     (if exist_notify_head priv = 0 then Some (-1, [], s)
      else if notify_sum (dev_list s ! the priv) > 0
      then notify_fetch (fetch_fuel s) cp (the priv) 0 s
      else if signal then Some (- ERESTARTSYS, [], s)
      else None)"

definition recount :: "ring_queue \<Rightarrow> nat \<Rightarrow> notify_head list \<Rightarrow> notify_head list option" where
  "recount q pos hs = map_option (\<lambda>n. hs[pos := (hs ! pos)\<lparr>notify_sum := n\<rparr>]) (get_channel_num (Some q) pos)"

definition ioctl_tsb_set_queue_num ::
  "bool \<Rightarrow> nat option \<Rightarrow> notify_state \<Rightarrow> (int \<times> notify_state) option" where
  "ioctl_tsb_set_queue_num alloc param s = (case param of None \<Rightarrow> Some (-1, s) | Some len \<Rightarrow>
     (case queue s of None \<Rightarrow> None | Some q \<Rightarrow>
       if len = queue_length q then Some (-1, s)
       else (case create_queue alloc (wrap32 len) of None \<Rightarrow> Some (-1, s) | Some nq \<Rightarrow>
         (case copy_queue (Some q) (Some (nq\<lparr>queue_mask := queue_mask q\<rparr>)) of
            Some (Some q') \<Rightarrow>
              map_option (\<lambda>hs. (0, s\<lparr>queue := Some q', dev_list := hs\<rparr>))
                (fold (\<lambda>pos hs. Option.bind hs (recount q' pos))
                   (set_bits (queue_mask q') MAX_CONCURR_PROCESS) (Some (dev_list s)))
          | _ \<Rightarrow> None))))"

text \<open>
  Initialisation, with the registration of the five commands. Only the last four failures undo
  what was registered; a failure of the first one is logged and the initialisation goes on. On
  those paths the queue is freed (the C pointer keeps its stale value; the model has \<open>None\<close>).
\<close>

definition tsb_notify_init :: "bool \<Rightarrow> cmd_table \<Rightarrow> int \<times> cmd_table \<times> notify_state" where
  "tsb_notify_init alloc cmds =
     (let s0 = \<lparr>dev_list = replicate MAX_CONCURR_PROCESS zero_head,
                queue = create_queue alloc DEFAULT_BUF_ITEMS_NUM\<rparr>;
          unreg = (\<lambda>nr f c. snd (httcsec_io_command_unregister nr f c))
      in if queue s0 = None then (-1, cmds, s0)
         else
           let (r1, c1) = httcsec_io_command_register COMMAND_SEND_NOTIFY_PKG ''ioctl_tsb_send_notify'' cmds;
               (r2, c2) = httcsec_io_command_register COMMAND_CREATE_NOTIFY_QUEUE ''ioctl_tsb_create_notify_queue'' c1;
               exit1 = unreg COMMAND_SEND_NOTIFY_PKG ''ioctl_tsb_send_notify'';
               exit2 = exit1 \<circ> unreg COMMAND_CREATE_NOTIFY_QUEUE ''ioctl_tsb_create_notify_queue'';
               exit3 = exit2 \<circ> unreg COMMAND_GET_NOTIFY_INFO_BLOCK ''ioctl_tsb_get_notify_block'';
               exit4 = exit3 \<circ> unreg COMMAND_GET_NOTIFY_INFO_NOBLOCK ''ioctl_tsb_get_notify_noblock''
           in if r2 \<noteq> 0 then (r2, exit1 c2, s0\<lparr>queue := None\<rparr>)
              else let (r3, c3) = httcsec_io_command_register COMMAND_GET_NOTIFY_INFO_BLOCK ''ioctl_tsb_get_notify_block'' c2
              in if r3 \<noteq> 0 then (r3, exit2 c3, s0\<lparr>queue := None\<rparr>)
              else let (r4, c4) = httcsec_io_command_register COMMAND_GET_NOTIFY_INFO_NOBLOCK ''ioctl_tsb_get_notify_noblock'' c3
              in if r4 \<noteq> 0 then (r4, exit3 c4, s0\<lparr>queue := None\<rparr>)
              else let (r5, c5) = httcsec_io_command_register COMMAND_SET_NOTIFY_QUEUE_NUM ''ioctl_tsb_set_queue_num'' c4
              in if r5 \<noteq> 0 then (r5, exit4 c5, s0\<lparr>queue := None\<rparr>)
              else (0, c5, s0))"

text \<open>The queue is freed; the C pointer keeps its stale value, the model has \<open>None\<close>.\<close>

definition tsb_free_notifylist :: "notify_state \<Rightarrow> notify_state" where
  "tsb_free_notifylist s = s\<lparr>queue := None\<rparr>"

definition tsb_notify_exit :: "cmd_table \<Rightarrow> notify_state \<Rightarrow> cmd_table \<times> notify_state" where
  "tsb_notify_exit cmds s =
     (let c1 = snd (httcsec_io_command_unregister COMMAND_SEND_NOTIFY_PKG ''ioctl_tsb_send_notify'' cmds);
          c2 = snd (httcsec_io_command_unregister COMMAND_CREATE_NOTIFY_QUEUE ''ioctl_tsb_create_notify_queue'' c1);
          c3 = snd (httcsec_io_command_unregister COMMAND_GET_NOTIFY_INFO_BLOCK ''ioctl_tsb_get_notify_block'' c2);
          c4 = snd (httcsec_io_command_unregister COMMAND_GET_NOTIFY_INFO_NOBLOCK ''ioctl_tsb_get_notify_noblock'' c3);
          c5 = snd (httcsec_io_command_unregister COMMAND_SET_NOTIFY_QUEUE_NUM ''ioctl_tsb_set_queue_num'' c4)
      in (c5, tsb_free_notifylist s))"

section \<open>The device with its open files\<close>

text \<open>
  Every open file of the device has a private pointer, set by the channel creation; closing the
  file closes the channel behind it (tsb/kernel/platform/msg/miscdev.c). A step is one call of a
  user process or one notification put by a kernel component.
\<close>

record notify_sys =
  ns :: notify_state
  httcsec_num_miscdev_opens :: int
  files :: "nat \<Rightarrow> nat option option"

definition httcsec_miscdev_open :: "bool \<Rightarrow> nat \<Rightarrow> notify_sys \<Rightarrow> int \<times> notify_sys" where
  "httcsec_miscdev_open module_get f y =
     (if \<not> module_get then (-5, y) else (0, y\<lparr>httcsec_num_miscdev_opens := httcsec_num_miscdev_opens y + 1, files := (files y)(f \<mapsto> None)\<rparr>))"

definition httcsec_miscdev_release :: "nat \<Rightarrow> notify_sys \<Rightarrow> (int \<times> notify_sys) option" where
  "httcsec_miscdev_release f y = (case files y f of None \<Rightarrow> None | Some priv \<Rightarrow>
     map_option (\<lambda>(r, s). (0, y\<lparr>httcsec_num_miscdev_opens := httcsec_num_miscdev_opens y - 1, ns := s,
         files := (files y)(f := None)\<rparr>))
       (tsb_destroy_notify_read_queue priv (ns y)))"

inductive notify_step :: "notify_sys \<Rightarrow> notify_sys \<Rightarrow> bool" where
  step_open: "files y f = None \<Longrightarrow> httcsec_miscdev_open True f y = (r, y') \<Longrightarrow> notify_step y y'"
| step_release: "httcsec_miscdev_release f y = Some (r, y') \<Longrightarrow> notify_step y y'"
| step_create: "files y f = Some priv \<Longrightarrow>
    ioctl_tsb_create_notify_queue priv (ns y) = (r, priv', s') \<Longrightarrow>
    notify_step y (y\<lparr>ns := s', files := (files y)(f \<mapsto> priv')\<rparr>)"
| step_put: "tsb_put_notify n (ns y) = Some (r, s') \<Longrightarrow> notify_step y (y\<lparr>ns := s'\<rparr>)"
| step_get: "files y f = Some priv \<Longrightarrow>
    ioctl_tsb_get_notify_noblock cp priv (ns y) = Some (r, out, s') \<Longrightarrow> notify_step y (y\<lparr>ns := s'\<rparr>)"
| step_resize: "ioctl_tsb_set_queue_num alloc param (ns y) = Some (r, s') \<Longrightarrow>
    notify_step y (y\<lparr>ns := s'\<rparr>)"

definition notify_start :: "notify_sys \<Rightarrow> bool" where
  "notify_start y \<longleftrightarrow> files y = Map.empty \<and> httcsec_num_miscdev_opens y = 0 \<and>
     dev_list (ns y) = replicate MAX_CONCURR_PROCESS zero_head \<and>
     queue (ns y) = create_queue True DEFAULT_BUF_ITEMS_NUM"

inductive notify_reachable :: "notify_sys \<Rightarrow> bool" where
  reach_start: "notify_start y \<Longrightarrow> notify_reachable y"
| reach_step: "notify_reachable y \<Longrightarrow> notify_step y y' \<Longrightarrow> notify_reachable y'"

section \<open>Invariant and specification\<close>

text \<open>
  One channel against the shared ring: its bit in the mask says whether it is open, a closed
  channel occurs in no slot, what it has not fetched is a suffix of the ring, and its counter is
  the number of those slots.
\<close>

definition has_bit :: "nat \<Rightarrow> httc_notify \<Rightarrow> bool" where
  "has_bit c it = test_bit c (queue_bitmaps it)"

definition chan_ok :: "bitmap \<Rightarrow> httc_notify list \<Rightarrow> nat \<Rightarrow> notify_head \<Rightarrow> bool" where
  "chan_ok msk items c h \<longleftrightarrow>
     (test_bit c msk \<longleftrightarrow> nh_inuse h \<noteq> 0) \<and>
     (nh_inuse h \<noteq> 0 \<longrightarrow> nh_ident h = c) \<and>
     (\<not> test_bit c msk \<longrightarrow> list_all (\<lambda>it. \<not> has_bit c it) items) \<and>
     suffix_closed (has_bit c) items \<and>
     notify_sum h = int (length (pending c items))"

definition notify_inv :: "notify_state \<Rightarrow> bool" where
  "notify_inv s \<longleftrightarrow> length (dev_list s) = MAX_CONCURR_PROCESS \<and>
     (case queue s of None \<Rightarrow> False | Some q \<Rightarrow> rq_wf q \<and>
       list_all (\<lambda>c. chan_ok (queue_mask q) (rq_items q) c (dev_list s ! c)) [0..<MAX_CONCURR_PROCESS])"

text \<open>The abstract state: for each open channel the notifications it has not fetched.\<close>

definition subscribers :: "notify_state \<Rightarrow> nat \<Rightarrow> notify list option" where
  "subscribers s c = (case queue s of None \<Rightarrow> None | Some q \<Rightarrow>
     if c < MAX_CONCURR_PROCESS \<and> test_bit c (queue_mask q)
     then Some (pending c (rq_items q)) else None)"

text \<open>How many notifications one channel can hold.\<close>

definition capacity :: "notify_state \<Rightarrow> nat" where
  "capacity s = (case queue s of None \<Rightarrow> 0 | Some q \<Rightarrow> queue_length q - 1)"

text \<open>Open files point to distinct open channels, and the device counts them.\<close>

definition files_inv :: "notify_sys \<Rightarrow> bool" where
  "files_inv y \<longleftrightarrow>
     (\<forall>f p. files y f = Some (Some p) \<longrightarrow> subscribers (ns y) p \<noteq> None) \<and>
     (\<forall>f g p. files y f = Some (Some p) \<longrightarrow> files y g = Some (Some p) \<longrightarrow> f = g) \<and>
     finite (dom (files y)) \<and> httcsec_num_miscdev_opens y = int (card (dom (files y)))"

section \<open>One channel against a list of slots\<close>

lemma pending_eq: "pending c items = map notify_item (filter (has_bit c) items)"
  by (simp add: pending_def has_bit_def [abs_def])

lemma pending_Nil_iff: "pending c items = [] \<longleftrightarrow> (\<forall>it\<in>set items. \<not> has_bit c it)"
  by (auto simp: pending_eq filter_empty_conv)

lemma map_take_last: "map f (take_last n xs) = take_last n (map f xs)"
  by (simp add: take_last_def drop_map)

lemma pending_take_last:
  "suffix_closed (has_bit c) items \<Longrightarrow> pending c (take_last n items) = take_last n (pending c items)"
  by (simp add: pending_eq filter_take_last map_take_last)

lemma suffix_closed_take_last: "suffix_closed P xs \<Longrightarrow> suffix_closed P (take_last n xs)"
  by (simp add: take_last_def suffix_closed_drop)

lemma notify_invD:
  assumes "notify_inv s"
  obtains q where "queue s = Some q" "rq_wf q" "length (dev_list s) = MAX_CONCURR_PROCESS"
    "\<And>c. c < MAX_CONCURR_PROCESS \<Longrightarrow> chan_ok (queue_mask q) (rq_items q) c (dev_list s ! c)"
  using assms by (auto simp: notify_inv_def list_all_iff split: option.splits)

lemma notify_invI:
  assumes "queue s = Some q" "rq_wf q" "length (dev_list s) = MAX_CONCURR_PROCESS"
    "\<And>c. c < MAX_CONCURR_PROCESS \<Longrightarrow> chan_ok (queue_mask q) (rq_items q) c (dev_list s ! c)"
  shows "notify_inv s"
  using assms by (auto simp: notify_inv_def list_all_iff)

lemma chan_ok_pending_le:
  assumes "rq_wf q" "chan_ok (queue_mask q) (rq_items q) c h"
  shows "0 \<le> notify_sum h" "notify_sum h \<le> int (queue_length q - 1)"
proof -
  have "length (pending c (rq_items q)) \<le> rq_count q"
    using length_filter_le [of "has_bit c" "rq_items q"] by (simp add: pending_eq)
  then show "0 \<le> notify_sum h" "notify_sum h \<le> int (queue_length q - 1)"
    using assms rq_count_less [OF assms(1)] by (auto simp: chan_ok_def)
qed

section \<open>Putting a notification\<close>

lemma fold_bump_sum:
  assumes "distinct ps" "\<forall>p\<in>set ps. p < length hs"
  shows "length (fold (bump_sum len) ps hs) = length hs"
    "i < length hs \<Longrightarrow> fold (bump_sum len) ps hs ! i =
       (if i \<in> set ps \<and> notify_sum (hs ! i) mod 2 ^ 32 < int (len - 1)
        then (hs ! i)\<lparr>notify_sum := notify_sum (hs ! i) + 1\<rparr> else hs ! i)"
  using assms
  by (induction ps arbitrary: hs) (auto simp: bump_sum_def nth_list_update)

lemma chan_ok_put:
  assumes ok: "chan_ok msk items c h" and len: "length items \<le> cap" "0 < cap" "cap < 2 ^ 31"
  shows "chan_ok msk (take_last cap (items @ [\<lparr>queue_bitmaps = msk, notify_item = n\<rparr>])) c
    (if test_bit c msk \<and> notify_sum h mod 2 ^ 32 < int cap
     then h\<lparr>notify_sum := notify_sum h + 1\<rparr> else h)"
proof -
  let ?it = "\<lparr>queue_bitmaps = msk, notify_item = n\<rparr>"
  have suf: "suffix_closed (has_bit c) (items @ [?it])"
    using ok by (auto simp: chan_ok_def suffix_closed_snoc has_bit_def list_all_iff)
  have pend: "pending c (items @ [?it]) = pending c items @ (if test_bit c msk then [n] else [])"
    by (simp add: pending_def)
  have le: "length (pending c items) \<le> cap"
    using le_trans [OF length_filter_le len(1)] by (simp add: pending_eq)
  have sum: "notify_sum h = int (length (pending c items))"
    using ok by (simp add: chan_ok_def)
  have "notify_sum h mod 2 ^ 32 = notify_sum h"
    using sum le len by (intro mod_pos_pos_trivial) auto
  moreover have "set (take_last cap (items @ [?it])) \<subseteq> insert ?it (set items)"
    by (auto simp: take_last_def simp del: drop_append dest: in_set_dropD)
  then have "list_all (\<lambda>it. \<not> has_bit c it) (take_last cap (items @ [?it]))" if "\<not> test_bit c msk"
    using ok that by (auto simp: chan_ok_def list_all_iff has_bit_def)
  moreover have "length (pending c (take_last cap (items @ [?it])))
      = min (length (pending c items) + (if test_bit c msk then 1 else 0)) cap"
    by (simp add: pending_take_last [OF suf] pend)
  ultimately show ?thesis
    using ok le sum suffix_closed_take_last [OF suf, of cap] by (simp add: chan_ok_def)
qed

text \<open>The two queue calls of \<open>tsb_put_notify\<close> are the \<open>push\<close> of the queue contract.\<close>

lemma put_notify_queue:
  assumes "rq_wf q"
  obtains q2 where
    "snd (put_queue (if is_full_queue (Some q) = 1 then snd (get_queue (Some q)) else Some q) (Some n)) = Some q2"
    "rq_wf q2" "queue_mask q2 = queue_mask q" "queue_length q2 = queue_length q"
    "rq_items q2 = take_last (queue_length q - 1)
       (rq_items q @ [\<lparr>queue_bitmaps = queue_mask q, notify_item = n\<rparr>])"
proof -
  define q1 where "q1 = (if is_full_queue (Some q) = 1 then the (snd (get_queue (Some q))) else q)"
  have ne: "rq_items q \<noteq> []" if "is_full_queue (Some q) = 1"
    using that rq.full_iff [OF assms] rq.cap_pos [OF assms] by (auto simp del: length_rq_items)
  have q1: "rq_wf q1" "queue_mask q1 = queue_mask q" "queue_length q1 = queue_length q"
    "length (rq_items q1) < queue_length q - 1"
    "(if is_full_queue (Some q) = 1 then snd (get_queue (Some q)) else Some q) = Some q1"
    using ne assms rq.deq_ok [OF assms] put_get_frame(1) [OF assms] rq.full_iff [OF assms]
      rq.items_le [OF assms] rq.cap_pos [OF assms]
    by (auto simp: q1_def simp del: length_rq_items)
  define q2 where "q2 = the (snd (put_queue (Some q1) (Some n)))"
  have "q2 = rq.push n q"
    by (simp add: q2_def q1_def rq.push_def)
  then show ?thesis
    using that [of q2] q1 rq.push_cases [OF assms, of n] put_get_frame(2) [OF q1(1), of n]
    by (auto simp: q2_def)
qed

lemma put_notify_ok:
  assumes inv: "notify_inv s" and len: "n_length n \<le> MAX_NOTICE_SIZE"
  obtains s' where "tsb_put_notify n s = Some (0, s')" "notify_inv s'"
    "subscribers s' = (\<lambda>c. map_option (\<lambda>xs. take_last (capacity s) (xs @ [n])) (subscribers s c))"
    "capacity s' = capacity s"
proof -
  obtain q where q: "queue s = Some q" and wf: "rq_wf q"
    and dl: "length (dev_list s) = MAX_CONCURR_PROCESS"
    and ok: "\<And>c. c < MAX_CONCURR_PROCESS \<Longrightarrow> chan_ok (queue_mask q) (rq_items q) c (dev_list s ! c)"
    using notify_invD [OF inv] by blast
  show ?thesis
  proof (cases "bitmap_weight (queue_mask q) MAX_CONCURR_PROCESS = 0")
    case True
    then have "subscribers s = (\<lambda>c. None)"
      by (auto simp: subscribers_def q bitmap_weight_0_iff)
    with True show ?thesis
      using that [of s] inv len q by (simp add: tsb_put_notify_def)
  next
    case False
    obtain q2 where put: "snd (put_queue (if is_full_queue (Some q) = 1
        then snd (get_queue (Some q)) else Some q) (Some n)) = Some q2"
      and wf2: "rq_wf q2" and m2: "queue_mask q2 = queue_mask q"
      and l2: "queue_length q2 = queue_length q"
      and i2: "rq_items q2 = take_last (queue_length q - 1)
        (rq_items q @ [\<lparr>queue_bitmaps = queue_mask q, notify_item = n\<rparr>])"
      using put_notify_queue [OF wf] by metis
    define s' where "s' = s\<lparr>queue := Some q2, dev_list := fold (bump_sum (queue_length q2))
      (set_bits (queue_mask q2) MAX_CONCURR_PROCESS) (dev_list s)\<rparr>"
    have bits: "distinct (set_bits (queue_mask q2) MAX_CONCURR_PROCESS)"
      "\<forall>p\<in>set (set_bits (queue_mask q2) MAX_CONCURR_PROCESS). p < length (dev_list s)"
      using dl by auto
    note bump = fold_bump_sum [OF bits]
    have caps: "length (rq_items q) \<le> queue_length q - 1" "0 < queue_length q - 1"
      "queue_length q - 1 < 2 ^ 31"
      using rq.items_le [OF wf] rq.cap_pos [OF wf] wf by (auto simp: rq_wf_def rq_bounds)
    have "tsb_put_notify n s = Some (0, s')"
      using len q False put by (simp add: tsb_put_notify_def s'_def Let_def)
    moreover have "notify_inv s'"
    proof (rule notify_invI)
      show "queue s' = Some q2" by (simp add: s'_def)
      show "rq_wf q2" by (fact wf2)
      show "length (dev_list s') = MAX_CONCURR_PROCESS" by (simp add: s'_def bump dl)
      show "chan_ok (queue_mask q2) (rq_items q2) c (dev_list s' ! c)" if "c < MAX_CONCURR_PROCESS" for c
        using chan_ok_put [OF ok [OF that] caps, of n] that dl
        by (simp add: s'_def bump [unfolded m2 l2] m2 i2 l2)
    qed
    moreover have "subscribers s' c = map_option (\<lambda>xs. take_last (capacity s) (xs @ [n])) (subscribers s c)" for c
    proof (cases "c < MAX_CONCURR_PROCESS \<and> test_bit c (queue_mask q)")
      case True
      then have "suffix_closed (has_bit c) (rq_items q @ [\<lparr>queue_bitmaps = queue_mask q, notify_item = n\<rparr>])"
        using ok [of c] by (auto simp: chan_ok_def suffix_closed_snoc has_bit_def)
      from pending_take_last [OF this, of "queue_length q - 1"] True show ?thesis
        by (simp add: subscribers_def s'_def q m2 i2 capacity_def) (simp add: pending_def)
    qed (auto simp: subscribers_def s'_def q m2)
    ultimately show ?thesis
      using that [of s'] l2 by (auto simp: capacity_def s'_def q)
  qed
qed

section \<open>Fetching\<close>

lemma has_bit_fetched [simp]: "has_bit d (fetched c it) \<longleftrightarrow> d \<noteq> c \<and> has_bit d it"
  by (simp add: has_bit_def)

lemma pending_Cons [simp]:
  "pending c (it # its) = (if has_bit c it then notify_item it # pending c its else pending c its)"
  by (simp add: pending_eq)

lemma pending_append [simp]: "pending c (xs @ ys) = pending c xs @ pending c ys"
  by (simp add: pending_eq)

lemma suffix_closed_replace:
  assumes "suffix_closed P (as @ x # bs)" "P y = P x"
  shows "suffix_closed P (as @ y # bs)"
  using assms by (induction as) (auto simp: list_all_iff)

text \<open>
  The slot a reader empties: everything before it is empty as well, because what any reader still
  has to fetch is a suffix of the ring. So dropping the oldest slot there loses nothing.
\<close>

lemma fetch_items:
  assumes suf: "\<And>d. d < MAX_CONCURR_PROCESS \<Longrightarrow> suffix_closed (has_bit d) items"
    and c: "c < MAX_CONCURR_PROCESS" and pend: "pending c items = n # rest"
  obtains k its where "k < length items" "test_bit c (queue_bitmaps (items ! k))"
    "\<forall>j<k. \<not> test_bit c (queue_bitmaps (items ! j))" "notify_item (items ! k) = n"
    "its = (let its = items[k := fetched c (items ! k)]
       in if bitmap_empty (queue_bitmaps (its ! k)) MAX_CONCURR_PROCESS then tl its else its)"
    "pending c its = rest"
    "\<And>d. d < MAX_CONCURR_PROCESS \<Longrightarrow> d \<noteq> c \<Longrightarrow> pending d its = pending d items"
    "\<And>d. d < MAX_CONCURR_PROCESS \<Longrightarrow> suffix_closed (has_bit d) its"
    "\<And>d. \<forall>it\<in>set items. \<not> has_bit d it \<Longrightarrow> \<forall>it\<in>set its. \<not> has_bit d it"
proof -
  obtain as bs where split: "items = as @ bs" and none: "\<forall>x\<in>set as. \<not> has_bit c x"
    and all: "\<forall>x\<in>set bs. has_bit c x"
    using suffix_closed_split [OF suf [OF c]] .
  then have "pending c as = []" by (simp add: pending_Nil_iff)
  with pend split obtain it bs' where bs: "bs = it # bs'"
    by (cases bs) auto
  let ?its = "as @ fetched c it # bs'"
  let ?e = "bitmap_empty (queue_bitmaps (fetched c it)) MAX_CONCURR_PROCESS"
  define its where "its = (if ?e then tl ?its else ?its)"
  have items: "items = as @ it # bs'" by (simp add: split bs)
  have suf1: "suffix_closed (has_bit d) ?its" if "d < MAX_CONCURR_PROCESS" for d
  proof (cases "d = c")
    case True
    then show ?thesis
      using none all bs by (induction as) (auto simp: list_all_iff intro: suffix_closed_all)
  next
    case False
    then show ?thesis
      using suf [OF that] suffix_closed_replace [of "has_bit d" as it bs' "fetched c it"]
      by (simp add: items)
  qed
  have pend1: "pending c ?its = rest" "d \<noteq> c \<Longrightarrow> pending d ?its = pending d items" for d
    using pend \<open>pending c as = []\<close> all bs by (auto simp: items)
  have hd1: "\<not> has_bit d (hd ?its)" if e: ?e and d: "d < MAX_CONCURR_PROCESS" for d
  proof (cases as)
    case Nil
    with e d show ?thesis by (simp add: bitmap_empty_iff has_bit_def)
  next
    case (Cons a as')
    have "\<not> has_bit d it" if "d \<noteq> c"
      using e d that by (auto simp: bitmap_empty_iff has_bit_def)
    then show ?thesis
      using suffix_closed_index [OF suf [OF d], of 0 "length as"] none Cons
      by (cases "d = c") (auto simp: items)
  qed
  have tl1: "pending d (tl ?its) = pending d ?its" if "\<not> has_bit d (hd ?its)" for d
    using that by (cases as) auto
  show ?thesis
  proof (rule that [of "length as" its])
    show "length as < length items" "test_bit c (queue_bitmaps (items ! length as))"
      using all by (auto simp: items bs has_bit_def)
    show "\<forall>j<length as. \<not> test_bit c (queue_bitmaps (items ! j))"
      using none by (auto simp: items nth_append has_bit_def)
    show "notify_item (items ! length as) = n"
      using pend \<open>pending c as = []\<close> all by (auto simp: items bs)
    show "its = (let its = items[length as := fetched c (items ! length as)]
       in if bitmap_empty (queue_bitmaps (its ! length as)) MAX_CONCURR_PROCESS then tl its else its)"
      by (simp add: items its_def Let_def)
    show "pending c its = rest"
      using pend1(1) tl1 [of c] hd1 [OF _ c] by (simp add: its_def)
    show "pending d its = pending d items" if "d < MAX_CONCURR_PROCESS" "d \<noteq> c" for d
      using pend1(2) [OF that(2)] tl1 [of d] hd1 [OF _ that(1)] by (simp add: its_def)
    show "suffix_closed (has_bit d) its" if "d < MAX_CONCURR_PROCESS" for d
      using suf1 [OF that] by (simp add: its_def suffix_closed_tl)
    show "\<forall>x\<in>set its. \<not> has_bit d x" if "\<forall>x\<in>set items. \<not> has_bit d x" for d
      using that by (cases as) (auto simp: its_def items)
  qed
qed

lemma fetch_step:
  assumes inv: "notify_inv s" and q: "queue s = Some q" and c: "c < MAX_CONCURR_PROCESS"
    and ident: "nh_ident (dev_list s ! c) = c" and pend: "pending c (rq_items q) = n # rest"
  obtains h q' where "retrieve_queue (queue s) c = Some (Some h, Some q')"
    "notify_item (notify_queue q' ! h) = n"
    "notify_inv (s\<lparr>queue := Some q', dev_list := (dev_list s)[c := (dev_list s ! c)
       \<lparr>notify_sum := (if notify_sum (dev_list s ! c) - 1 < 0 then 0 else notify_sum (dev_list s ! c) - 1)\<rparr>]\<rparr>)"
    "queue_mask q' = queue_mask q" "queue_length q' = queue_length q"
    "pending c (rq_items q') = rest"
    "\<And>d. d < MAX_CONCURR_PROCESS \<Longrightarrow> d \<noteq> c \<Longrightarrow> pending d (rq_items q') = pending d (rq_items q)"
proof -
  from notify_invD [OF inv] q have wf: "rq_wf q" and dl: "length (dev_list s) = MAX_CONCURR_PROCESS"
    and ok: "\<And>c. c < MAX_CONCURR_PROCESS \<Longrightarrow> chan_ok (queue_mask q) (rq_items q) c (dev_list s ! c)"
    by auto
  have suf: "d < MAX_CONCURR_PROCESS \<Longrightarrow> suffix_closed (has_bit d) (rq_items q)" for d
    using ok [of d] by (simp add: chan_ok_def)
  obtain k its where k: "k < length (rq_items q)" "test_bit c (queue_bitmaps (rq_items q ! k))"
      "\<forall>j<k. \<not> test_bit c (queue_bitmaps (rq_items q ! j))" "notify_item (rq_items q ! k) = n"
      "its = (let its = (rq_items q)[k := fetched c (rq_items q ! k)]
         in if bitmap_empty (queue_bitmaps (its ! k)) MAX_CONCURR_PROCESS then tl its else its)"
    and its: "pending c its = rest"
      "\<And>d. d < MAX_CONCURR_PROCESS \<Longrightarrow> d \<noteq> c \<Longrightarrow> pending d its = pending d (rq_items q)"
      "\<And>d. d < MAX_CONCURR_PROCESS \<Longrightarrow> suffix_closed (has_bit d) its"
      "\<And>d. \<forall>it\<in>set (rq_items q). \<not> has_bit d it \<Longrightarrow> \<forall>it\<in>set its. \<not> has_bit d it"
    using fetch_items [OF suf c pend] by blast
  obtain h q' where q': "retrieve_queue (Some q) c = Some (Some h, Some q')" "rq_wf q'"
    "notify_item (notify_queue q' ! h) = n" "queue_mask q' = queue_mask q"
    "queue_length q' = queue_length q" "rq_items q' = its"
    using retrieve_queue_some [OF wf k(1-3)] k(4,5) by metis
  show ?thesis
  proof (rule that [of h q'])
    show "notify_inv (s\<lparr>queue := Some q', dev_list := (dev_list s)[c := (dev_list s ! c)
       \<lparr>notify_sum := (if notify_sum (dev_list s ! c) - 1 < 0 then 0 else notify_sum (dev_list s ! c) - 1)\<rparr>]\<rparr>)"
    proof (rule notify_invI [of _ q'])
      fix d assume d: "d < MAX_CONCURR_PROCESS"
      show "chan_ok (queue_mask q') (rq_items q') d (dev_list (s\<lparr>queue := Some q',
          dev_list := (dev_list s)[c := (dev_list s ! c)\<lparr>notify_sum :=
            (if notify_sum (dev_list s ! c) - 1 < 0 then 0 else notify_sum (dev_list s ! c) - 1)\<rparr>]\<rparr>) ! d)"
        using ok [OF d] ok [OF c] its(1) its(2,3) [OF d] its(4) [of d] d dl pend
        by (cases "d = c") (auto simp: chan_ok_def list_all_iff q')
    qed (simp_all add: q' dl)
  qed (use q q' its in auto)
qed

lemma subscribersD:
  assumes "notify_inv s" "subscribers s c = Some xs"
  obtains q where "queue s = Some q" "c < MAX_CONCURR_PROCESS" "test_bit c (queue_mask q)"
    "xs = pending c (rq_items q)" "nh_ident (dev_list s ! c) = c"
    "notify_sum (dev_list s ! c) = int (length xs)" "length xs < queue_length q"
proof -
  obtain q where q: "queue s = Some q" "rq_wf q"
    and ok: "\<And>c. c < MAX_CONCURR_PROCESS \<Longrightarrow> chan_ok (queue_mask q) (rq_items q) c (dev_list s ! c)"
    using notify_invD [OF assms(1)] by blast
  have c: "c < MAX_CONCURR_PROCESS" "test_bit c (queue_mask q)" "xs = pending c (rq_items q)"
    using assms(2) q by (auto simp: subscribers_def split: if_splits)
  have "length xs \<le> rq_count q"
    using length_filter_le [of "has_bit c" "rq_items q"] by (simp add: c pending_eq)
  then show ?thesis
    using that [of q] q c ok [OF c(1)] rq_count_less [OF q(2)] by (auto simp: chan_ok_def)
qed

text \<open>One turn of the fetch loop takes the oldest pending notification off the channel.\<close>

lemma notify_fetch_Cons:
  assumes inv: "notify_inv s" and sub: "subscribers s c = Some (n # rest)"
  obtains s1 where "notify_inv s1" "subscribers s1 = (subscribers s)(c \<mapsto> rest)" "capacity s1 = capacity s"
    "\<forall>fuel cp count. notify_fetch (Suc fuel) cp c count s =
       (if cp count then map_option (\<lambda>(r, out, s2). (r, n # out, s2)) (notify_fetch fuel cp c (Suc count) s1)
        else Some (-1, [], s1))"
proof -
  obtain q where q: "queue s = Some q" and c: "c < MAX_CONCURR_PROCESS" "test_bit c (queue_mask q)"
    and pend: "pending c (rq_items q) = n # rest" and ident: "nh_ident (dev_list s ! c) = c"
    using subscribersD [OF inv sub] by metis
  define s1 where "s1 q' = s\<lparr>queue := Some q', dev_list := (dev_list s)[c := (dev_list s ! c)
     \<lparr>notify_sum := (if notify_sum (dev_list s ! c) - 1 < 0 then 0 else notify_sum (dev_list s ! c) - 1)\<rparr>]\<rparr>" for q'
  obtain h q' where ret: "retrieve_queue (queue s) c = Some (Some h, Some q')"
    and n: "notify_item (notify_queue q' ! h) = n" and inv1: "notify_inv (s1 q')"
    and m: "queue_mask q' = queue_mask q" "queue_length q' = queue_length q"
    and p: "pending c (rq_items q') = rest"
      "\<And>d. d < MAX_CONCURR_PROCESS \<Longrightarrow> d \<noteq> c \<Longrightarrow> pending d (rq_items q') = pending d (rq_items q)"
    using fetch_step [OF inv q c(1) ident pend] unfolding s1_def by metis
  show ?thesis
  proof (rule that [of "s1 q'"])
    show "subscribers (s1 q') = (subscribers s)(c \<mapsto> rest)"
      using c m p by (auto simp: subscribers_def s1_def q fun_eq_iff)
    show "capacity (s1 q') = capacity s"
      using m by (simp add: capacity_def s1_def q)
    show "\<forall>fuel cp count. notify_fetch (Suc fuel) cp c count s =
       (if cp count then map_option (\<lambda>(r, out, s2). (r, n # out, s2)) (notify_fetch fuel cp c (Suc count) (s1 q'))
        else Some (-1, [], s1 q'))"
      by (simp add: ident ret n Let_def s1_def)
  qed (rule inv1)
qed

lemma notify_fetch_Nil:
  assumes "notify_inv s" "subscribers s c = Some []"
  shows "notify_fetch (Suc fuel) cp c count s = Some (int count, [], s)"
proof -
  obtain q where q: "queue s = Some q" "[] = pending c (rq_items q)" "nh_ident (dev_list s ! c) = c"
    using subscribersD [OF assms] by metis
  moreover have "rq_wf q"
    using notify_invD [OF assms(1)] q(1) by force
  ultimately show ?thesis
    using retrieve_queue_none [of q c] by simp
qed

lemma notify_fetch_ok:
  assumes "notify_inv s" "subscribers s c = Some xs" "length xs < fuel" "\<And>k. cp k"
  obtains s' where "notify_fetch fuel cp c count s = Some (int (count + length xs), xs, s')"
    "notify_inv s'" "subscribers s' = (subscribers s)(c \<mapsto> [])" "capacity s' = capacity s"
  using assms
proof (induction xs arbitrary: s fuel count thesis)
  case Nil
  then obtain fuel' where "fuel = Suc fuel'" by (cases fuel) auto
  moreover have "(subscribers s)(c \<mapsto> []) = subscribers s"
    using Nil.prems(3) by auto
  ultimately show ?case
    using Nil.prems(2) notify_fetch_Nil [OF Nil.prems(2,3)] by (intro Nil.prems(1) [of s]) simp_all
next
  case (Cons n rest)
  from Cons.prems(4) obtain fuel' where fuel: "fuel = Suc fuel'" "length rest < fuel'"
    by (cases fuel) auto
  obtain s1 where s1: "notify_inv s1" "subscribers s1 = (subscribers s)(c \<mapsto> rest)" "capacity s1 = capacity s"
    "\<forall>fuel cp count. notify_fetch (Suc fuel) cp c count s =
       (if cp count then map_option (\<lambda>(r, out, s2). (r, n # out, s2)) (notify_fetch fuel cp c (Suc count) s1)
        else Some (-1, [], s1))"
    by (rule notify_fetch_Cons [OF Cons.prems(2,3)])
  have sub1: "subscribers s1 c = Some rest"
    by (simp add: s1)
  obtain s' where s': "notify_fetch fuel' cp c (Suc count) s1 = Some (int (Suc count + length rest), rest, s')"
    "notify_inv s'" "subscribers s' = (subscribers s1)(c \<mapsto> [])" "capacity s' = capacity s1"
    by (rule Cons.IH [OF _ s1(1) sub1 fuel(2) Cons.prems(5)])
  have "cp = (\<lambda>_. True)"
    using Cons.prems(5) by auto
  with s' show ?case
    by (intro Cons.prems(1) [of s']) (simp_all add: fuel s1 del: notify_fetch.simps)
qed

text \<open>Whatever copies fail, the loop ends and leaves a state in which only the reading channel has
  changed.\<close>

lemma notify_fetch_any:
  assumes "notify_inv s" "subscribers s c = Some xs" "length xs < fuel"
  obtains r out rest s' where "notify_fetch fuel cp c count s = Some (r, out, s')"
    "notify_inv s'" "subscribers s' = (subscribers s)(c \<mapsto> rest)" "capacity s' = capacity s"
  using assms
proof (induction xs arbitrary: s fuel count thesis)
  case Nil
  then obtain fuel' where "fuel = Suc fuel'" by (cases fuel) auto
  moreover have "(subscribers s)(c \<mapsto> []) = subscribers s"
    using Nil.prems(3) by auto
  ultimately show ?case
    using Nil.prems(2) notify_fetch_Nil [OF Nil.prems(2,3)]
    by (intro Nil.prems(1) [of "int count" "[]" s "[]"]) simp_all
next
  case (Cons n rest)
  from Cons.prems(4) obtain fuel' where fuel: "fuel = Suc fuel'" "length rest < fuel'"
    by (cases fuel) auto
  obtain s1 where s1: "notify_inv s1" "subscribers s1 = (subscribers s)(c \<mapsto> rest)" "capacity s1 = capacity s"
    "\<forall>fuel cp count. notify_fetch (Suc fuel) cp c count s =
       (if cp count then map_option (\<lambda>(r, out, s2). (r, n # out, s2)) (notify_fetch fuel cp c (Suc count) s1)
        else Some (-1, [], s1))"
    by (rule notify_fetch_Cons [OF Cons.prems(2,3)])
  have sub1: "subscribers s1 c = Some rest"
    by (simp add: s1)
  obtain r out rest' s' where s': "notify_fetch fuel' cp c (Suc count) s1 = Some (r, out, s')"
    "notify_inv s'" "subscribers s' = (subscribers s1)(c \<mapsto> rest')" "capacity s' = capacity s1"
    by (rule Cons.IH [OF _ s1(1) sub1 fuel(2)])
  show ?case
  proof (cases "cp count")
    case True
    then show ?thesis
      using s' by (intro Cons.prems(1) [of r "n # out" s' rest']) (simp_all add: fuel s1 del: notify_fetch.simps)
  next
    case False
    then show ?thesis
      using s1 by (intro Cons.prems(1) [of "-1" "[]" s1 rest]) (simp_all add: fuel del: notify_fetch.simps)
  qed
qed

section \<open>Opening and closing channels, resizing\<close>

lemma notify_inv_free_iff:
  assumes "notify_inv s" "c < MAX_CONCURR_PROCESS"
  shows "nh_inuse (dev_list s ! c) = 0 \<longleftrightarrow> subscribers s c = None"
proof -
  obtain q where "queue s = Some q" "chan_ok (queue_mask q) (rq_items q) c (dev_list s ! c)"
    using notify_invD [OF assms(1)] assms(2) by blast
  with assms(2) show ?thesis
    by (auto simp: subscribers_def chan_ok_def)
qed

lemma create_channel_ok:
  assumes inv: "notify_inv s" and c: "c < MAX_CONCURR_PROCESS" "subscribers s c = None"
    and first: "\<forall>d<c. subscribers s d \<noteq> None"
  obtains s' where "ioctl_tsb_create_notify_queue priv s = (0, Some c, s')" "notify_inv s'"
    "subscribers s' = (subscribers s)(c \<mapsto> [])" "capacity s' = capacity s"
proof -
  obtain q where q: "queue s = Some q" "rq_wf q" "length (dev_list s) = MAX_CONCURR_PROCESS"
    and ok: "\<And>c. c < MAX_CONCURR_PROCESS \<Longrightarrow> chan_ok (queue_mask q) (rq_items q) c (dev_list s ! c)"
    using notify_invD [OF inv] by blast
  let ?q = "q\<lparr>queue_mask := set_bitmap c (queue_mask q)\<rparr>"
  have items: "rq_items ?q = rq_items q" "rq_wf ?q"
    using q(2) by (simp_all add: rq_items_def rq_slots_def rq_count_def rq_wf_def)
  define s' where "s' = s\<lparr>dev_list := (dev_list s)[c := (dev_list s ! c)\<lparr>nh_ident := c, nh_inuse := 1,
    notify_sum := 0\<rparr>], queue := Some ?q\<rparr>"
  have "find (\<lambda>i. nh_inuse (dev_list s ! i) = 0) [0..<MAX_CONCURR_PROCESS] = Some c"
    using c first notify_inv_free_iff [OF inv]
    by (auto simp: find_Some_iff intro!: exI [of _ c])
  then have "ioctl_tsb_create_notify_queue priv s = (0, Some c, s')"
    by (simp add: ioctl_tsb_create_notify_queue_def q s'_def)
  moreover have closed: "\<not> test_bit c (queue_mask q)" "\<forall>it\<in>set (rq_items q). \<not> has_bit c it"
    using c ok [OF c(1)] by (auto simp: subscribers_def q chan_ok_def list_all_iff)
  then have "notify_inv s'"
  proof (intro notify_invI [of _ ?q])
    fix d assume d: "d < MAX_CONCURR_PROCESS"
    show "chan_ok (queue_mask ?q) (rq_items ?q) d (dev_list s' ! d)"
      using ok [OF d] c(1) d q(3) closed
      by (cases "d = c")
        (auto simp: chan_ok_def s'_def items suffix_closed_none pending_Nil_iff MAX_CONCURR_PROCESS_def)
  qed (simp_all add: s'_def items q)
  moreover have "pending c (rq_items q) = []"
    using closed by (simp add: pending_Nil_iff)
  then have "subscribers s' = (subscribers s)(c \<mapsto> [])"
    using c(1) by (auto simp: subscribers_def s'_def q items MAX_CONCURR_PROCESS_def)
  ultimately show ?thesis
    using that [of s'] by (simp add: capacity_def s'_def q)
qed

lemma destroy_channel_ok:
  assumes inv: "notify_inv s" and sub: "subscribers s c = Some xs"
  obtains s' where "tsb_destroy_notify_read_queue (Some c) s = Some (1, s')" "notify_inv s'"
    "subscribers s' = (subscribers s)(c := None)" "capacity s' = capacity s"
proof -
  obtain q where q: "queue s = Some q" and c: "c < MAX_CONCURR_PROCESS"
    and ident: "nh_ident (dev_list s ! c) = c"
    using subscribersD [OF inv sub] by metis
  from notify_invD [OF inv] q have wf: "rq_wf q" and dl: "length (dev_list s) = MAX_CONCURR_PROCESS"
    and ok: "\<And>c. c < MAX_CONCURR_PROCESS \<Longrightarrow> chan_ok (queue_mask q) (rq_items q) c (dev_list s ! c)"
    by auto
  let ?q = "q\<lparr>queue_mask := clear_bit c (queue_mask q)\<rparr>"
  have items: "rq_items ?q = rq_items q" "rq_wf ?q"
    using wf by (simp_all add: rq_items_def rq_slots_def rq_count_def rq_wf_def)
  obtain q' where q': "clear_queue_bit (Some ?q) (int c) = Some (Some q')" "rq_wf q'"
    "rq_items q' = map (fetched c) (rq_items q)" "queue_mask q' = clear_bit c (queue_mask q)"
    "queue_length q' = queue_length q"
    using clear_queue_bit_ok [OF items(2) c] unfolding items(1) by auto
  define s' where "s' = s\<lparr>queue := Some q', dev_list := (dev_list s)[c := (dev_list s ! c)
    \<lparr>nh_inuse := 0, notify_sum := 0\<rparr>]\<rparr>"
  have "exist_notify_head (Some c) = 1"
    using c by (simp add: exist_notify_head_def)
  then have "tsb_destroy_notify_read_queue (Some c) s = Some (1, s')"
    using q'(1) by (simp add: tsb_destroy_notify_read_queue_def q ident s'_def)
  moreover have pend: "pending d (map (fetched c) its) = (if d = c then [] else pending d its)" for d its
    by (induction its) (auto simp: pending_Nil_iff)
  have suf: "suffix_closed (has_bit d) (map (fetched c) its)" if "suffix_closed (has_bit d) its" for d its
    using that by (cases "d = c") (auto simp: suffix_closed_map comp_def intro: suffix_closed_none)
  have "notify_inv s'"
  proof (intro notify_invI [of _ q'])
    fix d assume d: "d < MAX_CONCURR_PROCESS"
    show "chan_ok (queue_mask q') (rq_items q') d (dev_list s' ! d)"
      using ok [OF d] d dl
      by (cases "d = c") (auto simp: chan_ok_def s'_def q' pend suf list_all_iff)
  qed (simp_all add: s'_def q' dl)
  moreover have "subscribers s' = (subscribers s)(c := None)"
    by (auto simp: subscribers_def s'_def q q' pend)
  ultimately show ?thesis
    using that [of s'] q' by (simp add: capacity_def s'_def q)
qed

lemma fold_recount:
  assumes "rq_wf q" "\<forall>p\<in>set ps. p < length hs"
  obtains hs' where "fold (\<lambda>pos hs. Option.bind hs (recount q pos)) ps (Some hs) = Some hs'"
    "length hs' = length hs"
    "\<And>i. i < length hs \<Longrightarrow> hs' ! i = (if i \<in> set ps
       then (hs ! i)\<lparr>notify_sum := int (length (pending i (rq_items q)))\<rparr> else hs ! i)"
  using assms
proof (induction ps arbitrary: hs thesis)
  case Nil
  then show ?case by simp
next
  case (Cons p ps)
  let ?h = "hs[p := (hs ! p)\<lparr>notify_sum := int (length (pending p (rq_items q)))\<rparr>]"
  have rc: "recount q p hs = Some ?h"
    using Cons.prems(2) by (simp add: recount_def get_channel_num_eq)
  obtain hs' where "fold (\<lambda>pos hs. Option.bind hs (recount q pos)) ps (Some ?h) = Some hs'"
    "length hs' = length ?h"
    "\<And>i. i < length ?h \<Longrightarrow> hs' ! i = (if i \<in> set ps
       then (?h ! i)\<lparr>notify_sum := int (length (pending i (rq_items q)))\<rparr> else ?h ! i)"
    by (rule Cons.IH [of ?h]) (use Cons.prems(2,3) in auto)
  then show ?case
    using Cons.prems(2,3)
    by (intro Cons.prems(1) [of hs'])
      (auto simp: rc nth_list_update)
qed

lemma resize_ok:
  assumes inv: "notify_inv s" and q: "queue s = Some q" and len: "len \<noteq> queue_length q"
    and new: "create_queue True (wrap32 len) = Some nq"
  obtains s' where "ioctl_tsb_set_queue_num True (Some len) s = Some (0, s')" "notify_inv s'"
    "capacity s' = queue_length nq - 1"
    "subscribers s' = (\<lambda>c. map_option (take_last (queue_length nq - 1)) (subscribers s c))"
proof -
  from notify_invD [OF inv] q have wf: "rq_wf q" and dl: "length (dev_list s) = MAX_CONCURR_PROCESS"
    and ok: "\<And>c. c < MAX_CONCURR_PROCESS \<Longrightarrow> chan_ok (queue_mask q) (rq_items q) c (dev_list s ! c)"
    by auto
  let ?n = "nq\<lparr>queue_mask := queue_mask q\<rparr>"
  note nq = create_queue_ok [OF new]
  have n: "rq_items ?n = []" "rq_wf ?n"
    using nq(1,2) by (simp_all add: rq_items_def rq_slots_def rq_count_def rq_wf_def)
  obtain q' where q': "copy_queue (Some q) (Some ?n) = Some (Some q')" "rq_wf q'"
    "rq_items q' = take_last (queue_length nq - 1) (rq_items q)" "queue_mask q' = queue_mask q"
    "queue_length q' = queue_length nq"
    by (rule copy_queue_ok [OF wf n(2)]) (simp_all add: n(1))
  have bits: "\<forall>p\<in>set (set_bits (queue_mask q') MAX_CONCURR_PROCESS). p < length (dev_list s)"
    using dl by simp
  obtain hs where hs: "fold (\<lambda>pos hs. Option.bind hs (recount q' pos))
      (set_bits (queue_mask q') MAX_CONCURR_PROCESS) (Some (dev_list s)) = Some hs"
    "length hs = MAX_CONCURR_PROCESS"
    "\<And>i. i < MAX_CONCURR_PROCESS \<Longrightarrow> hs ! i = (if test_bit i (queue_mask q)
       then (dev_list s ! i)\<lparr>notify_sum := int (length (pending i (rq_items q')))\<rparr> else dev_list s ! i)"
    by (rule fold_recount [OF q'(2) bits]) (simp_all add: dl q'(4))
  define s' where "s' = s\<lparr>queue := Some q', dev_list := hs\<rparr>"
  have "ioctl_tsb_set_queue_num True (Some len) s = Some (0, s')"
    using hs(1) q'(1) len new by (simp add: ioctl_tsb_set_queue_num_def q s'_def)
  moreover have suf: "suffix_closed (has_bit d) (rq_items q)" if "d < MAX_CONCURR_PROCESS" for d
    using ok [OF that] by (simp add: chan_ok_def)
  have sub: "set (rq_items q') \<subseteq> set (rq_items q)"
    by (auto simp: q' take_last_def dest: in_set_dropD)
  have "notify_inv s'"
  proof (intro notify_invI [of _ q'])
    fix d assume d: "d < MAX_CONCURR_PROCESS"
    have "\<forall>it\<in>set (rq_items q'). \<not> has_bit d it" if "\<forall>it\<in>set (rq_items q). \<not> has_bit d it"
      using sub that by blast
    moreover have "suffix_closed (has_bit d) (rq_items q')"
      using suf [OF d] by (simp add: q' suffix_closed_take_last)
    ultimately show "chan_ok (queue_mask q') (rq_items q') d (dev_list s' ! d)"
      using ok [OF d] d
      by (auto simp: chan_ok_def s'_def hs(3) q'(4) list_all_iff pending_Nil_iff [THEN iffD2])
  qed (simp_all add: s'_def q' hs)
  moreover have "subscribers s' c = map_option (take_last (queue_length nq - 1)) (subscribers s c)" for c
    using suf by (auto simp: subscribers_def s'_def q q' pending_take_last)
  ultimately show ?thesis
    using that [of s'] q' by (auto simp: capacity_def s'_def)
qed

section \<open>Every reachable state\<close>

lemma create_full:
  assumes inv: "notify_inv s" and full: "\<forall>c<MAX_CONCURR_PROCESS. subscribers s c \<noteq> None"
  shows "ioctl_tsb_create_notify_queue priv s = (-1, priv, s)"
proof -
  have "find (\<lambda>i. nh_inuse (dev_list s ! i) = 0) [0..<MAX_CONCURR_PROCESS] = None"
    using full notify_inv_free_iff [OF inv] by (auto simp: find_None_iff)
  then show ?thesis
    by (auto simp: ioctl_tsb_create_notify_queue_def split: option.splits)
qed

lemma create_cases:
  assumes "notify_inv s"
  obtains (full) "\<forall>c<MAX_CONCURR_PROCESS. subscribers s c \<noteq> None"
      "ioctl_tsb_create_notify_queue priv s = (-1, priv, s)"
  | (free) c s' where "c < MAX_CONCURR_PROCESS" "subscribers s c = None"
      "ioctl_tsb_create_notify_queue priv s = (0, Some c, s')" "notify_inv s'"
      "subscribers s' = (subscribers s)(c \<mapsto> [])" "capacity s' = capacity s"
proof (cases "\<forall>c<MAX_CONCURR_PROCESS. subscribers s c \<noteq> None")
  case True
  then show ?thesis using full create_full [OF assms] by blast
next
  case False
  then obtain c0 where c0: "c0 < MAX_CONCURR_PROCESS \<and> subscribers s c0 = None" by auto
  define c where "c = (LEAST c. c < MAX_CONCURR_PROCESS \<and> subscribers s c = None)"
  have c: "c < MAX_CONCURR_PROCESS" "subscribers s c = None"
    using LeastI [of "\<lambda>c. c < MAX_CONCURR_PROCESS \<and> subscribers s c = None", OF c0] by (auto simp: c_def)
  have "\<forall>d<c. subscribers s d \<noteq> None"
    using not_less_Least [of _ "\<lambda>c. c < MAX_CONCURR_PROCESS \<and> subscribers s c = None"] c(1)
    unfolding c_def [symmetric] by (meson order_less_trans)
  then show ?thesis
    using create_channel_ok [OF assms c] free c by metis
qed

lemma resize_cases:
  assumes "notify_inv s" "ioctl_tsb_set_queue_num alloc param s = Some (r, s')"
  shows "notify_inv s'" "subscribers s' c = None \<longleftrightarrow> subscribers s c = None"
proof -
  obtain q where q: "queue s = Some q"
    using notify_invD [OF assms(1)] by blast
  have "notify_inv s' \<and> (subscribers s' c = None \<longleftrightarrow> subscribers s c = None)"
  proof (cases "\<exists>len. alloc \<and> param = Some len \<and> len \<noteq> queue_length q")
    case False
    then show ?thesis
      using assms q by (auto simp: ioctl_tsb_set_queue_num_def create_queue_def split: option.splits if_splits)
  next
    case True
    then obtain len where len: "alloc = True" "param = Some len" "len \<noteq> queue_length q" by auto
    obtain nq where nq: "create_queue True (wrap32 len) = Some nq"
      by (simp add: create_queue_def Let_def)
    obtain s2 where "ioctl_tsb_set_queue_num True (Some len) s = Some (0, s2)" "notify_inv s2"
      "subscribers s2 = (\<lambda>c. map_option (take_last (queue_length nq - 1)) (subscribers s c))"
      using resize_ok [OF assms(1) q len(3) nq] by metis
    then show ?thesis using assms(2) len by simp
  qed
  then show "notify_inv s'" "subscribers s' c = None \<longleftrightarrow> subscribers s c = None" by auto
qed

lemma put_cases:
  assumes "notify_inv s" "tsb_put_notify n s = Some (r, s')"
  shows "notify_inv s'" "subscribers s' c = None \<longleftrightarrow> subscribers s c = None"
proof -
  have "notify_inv s' \<and> (subscribers s' c = None \<longleftrightarrow> subscribers s c = None)"
  proof (cases "n_length n \<le> MAX_NOTICE_SIZE")
    case True
    obtain s2 where "tsb_put_notify n s = Some (0, s2)" "notify_inv s2"
      "subscribers s2 = (\<lambda>c. map_option (\<lambda>xs. take_last (capacity s) (xs @ [n])) (subscribers s c))"
      using put_notify_ok [OF assms(1) True] by metis
    then show ?thesis using assms(2) by simp
  next
    case False
    then show ?thesis using assms by (simp add: tsb_put_notify_def)
  qed
  then show "notify_inv s'" "subscribers s' c = None \<longleftrightarrow> subscribers s c = None" by auto
qed

lemma get_noblock_ok:
  assumes inv: "notify_inv s" and sub: "subscribers s c = Some xs" and cp: "\<And>k. cp k"
  obtains s' where "ioctl_tsb_get_notify_noblock cp (Some c) s = Some (int (length xs), xs, s')"
    "notify_inv s'" "subscribers s' = (subscribers s)(c \<mapsto> [])" "capacity s' = capacity s"
proof -
  obtain q where q: "queue s = Some q" "c < MAX_CONCURR_PROCESS"
    "notify_sum (dev_list s ! c) = int (length xs)" "length xs < queue_length q"
    using subscribersD [OF inv sub] by metis
  have ex: "exist_notify_head (Some c) = 1"
    using q(2) by (simp add: exist_notify_head_def)
  show ?thesis
  proof (cases xs)
    case Nil
    then have "(subscribers s)(c \<mapsto> []) = subscribers s" using sub by auto
    with Nil show ?thesis
      using that [of s] inv q ex by (simp add: ioctl_tsb_get_notify_noblock_def)
  next
    case (Cons x ys)
    obtain s' where "notify_fetch (queue_length q) cp c 0 s = Some (int (0 + length xs), xs, s')"
      "notify_inv s'" "subscribers s' = (subscribers s)(c \<mapsto> [])" "capacity s' = capacity s"
      by (rule notify_fetch_ok [OF inv sub q(4) cp, where count = 0])
    with Cons show ?thesis
      using that [of s'] q ex by (simp add: ioctl_tsb_get_notify_noblock_def fetch_fuel_def)
  qed
qed

lemma get_noblock_cases:
  assumes inv: "notify_inv s"
    and ret: "ioctl_tsb_get_notify_noblock cp priv s = Some (r, out, s')"
    and priv: "\<And>p. priv = Some p \<Longrightarrow> subscribers s p \<noteq> None"
  shows "notify_inv s'" "subscribers s' c = None \<longleftrightarrow> subscribers s c = None"
proof -
  have "notify_inv s' \<and> (subscribers s' c = None \<longleftrightarrow> subscribers s c = None)"
  proof (cases "\<exists>p. priv = Some p \<and> notify_sum (dev_list s ! p) > 0")
    case False
    then show ?thesis
      using inv ret by (cases priv) (auto simp: ioctl_tsb_get_notify_noblock_def exist_notify_head_def split: if_splits)
  next
    case True
    then obtain p where p: "priv = Some p" "notify_sum (dev_list s ! p) > 0" by blast
    with priv obtain xs where xs: "subscribers s p = Some xs" by blast
    obtain q where q: "queue s = Some q" "p < MAX_CONCURR_PROCESS" "length xs < queue_length q"
      using subscribersD [OF inv xs] by metis
    obtain r2 out2 rest s2 where "notify_fetch (queue_length q) cp p 0 s = Some (r2, out2, s2)"
      "notify_inv s2" "subscribers s2 = (subscribers s)(p \<mapsto> rest)" "capacity s2 = capacity s"
      by (rule notify_fetch_any [OF inv xs q(3)])
    then show ?thesis
      using ret xs p q by (auto simp: ioctl_tsb_get_notify_noblock_def exist_notify_head_def fetch_fuel_def split: if_splits)
  qed
  then show "notify_inv s'" "subscribers s' c = None \<longleftrightarrow> subscribers s c = None" by auto
qed

lemma card_dom_insert:
  assumes "finite (dom m)" "m f = None"
  shows "int (card (insert f (dom m))) = int (card (dom m)) + 1"
  using assms by (simp add: card_insert_if domIff)

lemma card_dom_remove:
  assumes "finite (dom m)" "m f = Some v"
  shows "int (card (dom m - {f})) = int (card (dom m)) - 1"
proof -
  have "f \<in> dom m" using assms(2) by auto
  then show ?thesis
    using card_Suc_Diff1 [OF assms(1)] by fastforce
qed

lemma release_cases:
  assumes inv: "notify_inv (ns y)" "files_inv y" and rel: "httcsec_miscdev_release f y = Some (r, y')"
  shows "notify_inv (ns y') \<and> files_inv y'"
proof -
  obtain priv where f: "files y f = Some priv"
    using rel by (auto simp: httcsec_miscdev_release_def split: option.splits)
  show ?thesis
  proof (cases priv)
    case None
    then have "y' = y\<lparr>httcsec_num_miscdev_opens := httcsec_num_miscdev_opens y - 1, files := (files y)(f := None)\<rparr>"
      using rel f by (auto simp: httcsec_miscdev_release_def tsb_destroy_notify_read_queue_def)
    then show ?thesis using inv f by (auto simp: files_inv_def card_dom_remove)
  next
    case (Some p)
    with inv(2) f obtain xs where xs: "subscribers (ns y) p = Some xs"
      by (fastforce simp: files_inv_def)
    obtain s' where s': "tsb_destroy_notify_read_queue (Some p) (ns y) = Some (1, s')" "notify_inv s'"
      "subscribers s' = (subscribers (ns y))(p := None)" "capacity s' = capacity (ns y)"
      by (rule destroy_channel_ok [OF inv(1) xs])
    then have "y' = y\<lparr>httcsec_num_miscdev_opens := httcsec_num_miscdev_opens y - 1, ns := s', files := (files y)(f := None)\<rparr>"
      using rel f Some by (auto simp: httcsec_miscdev_release_def)
    then show ?thesis
      using inv(2) f Some s' by (auto simp: files_inv_def card_dom_remove)
  qed
qed

lemma files_inv_same_open:
  assumes "files_inv y" "\<And>c. subscribers s' c = None \<longleftrightarrow> subscribers (ns y) c = None"
  shows "files_inv (y\<lparr>ns := s'\<rparr>)"
  using assms by (simp add: files_inv_def)

lemma notify_step_inv:
  assumes "notify_step y y'" "notify_inv (ns y)" "files_inv y"
  shows "notify_inv (ns y') \<and> files_inv y'"
  using assms
proof (induction rule: notify_step.induct)
  case (step_open y f r y')
  then show ?case
    by (auto simp: httcsec_miscdev_open_def files_inv_def card_dom_insert split: if_splits)
next
  case (step_release f y r y')
  show ?case by (rule release_cases [OF step_release.prems step_release.hyps])
next
  case (step_create y f priv r priv' s')
  from step_create.prems(1) show ?case
  proof (cases rule: create_cases [where priv = priv])
    case full
    then show ?thesis
      using step_create by (auto simp: files_inv_def fun_upd_idem)
  next
    case (free c s2)
    have "files y g \<noteq> Some (Some c)" for g
      using free(2) step_create.prems(2) unfolding files_inv_def by blast
    then show ?thesis
      using free step_create by (auto simp: files_inv_def domIff insert_absorb)
  qed
next
  case (step_put n y r s')
  then show ?case
    using put_cases [OF step_put.prems(1) step_put.hyps] by (auto intro: files_inv_same_open)
next
  case (step_get y f priv cp r out s')
  have priv: "subscribers (ns y) p \<noteq> None" if "priv = Some p" for p
    using step_get that by (auto simp: files_inv_def)
  show ?case
    using get_noblock_cases [OF step_get.prems(1) step_get.hyps(2) priv] step_get.prems(2)
    by (auto intro: files_inv_same_open)
next
  case (step_resize alloc param y r s')
  then show ?case
    using resize_cases [OF step_resize.prems(1) step_resize.hyps] by (auto intro: files_inv_same_open)
qed

lemma notify_start_inv:
  assumes "notify_start y"
  shows "notify_inv (ns y) \<and> files_inv y"
proof -
  obtain q where q: "create_queue True DEFAULT_BUF_ITEMS_NUM = Some q"
    by (simp add: create_queue_def Let_def)
  note ok = create_queue_ok [OF q]
  have "notify_inv (ns y)"
    by (rule notify_invI [of _ q])
      (use assms q ok in \<open>auto simp: notify_start_def chan_ok_def zero_head_def pending_def\<close>)
  then show ?thesis
    using assms by (simp add: notify_start_def files_inv_def)
qed

lemma reachable_inv: "notify_reachable y \<Longrightarrow> notify_inv (ns y) \<and> files_inv y"
  by (induction rule: notify_reachable.induct) (auto dest: notify_start_inv notify_step_inv)

section \<open>Concrete states\<close>

text \<open>The state after initialisation, and after a first process has opened a channel.\<close>

definition notify_boot :: notify_state where
  "notify_boot = snd (snd (tsb_notify_init True (\<lambda>_. None)))"

definition notify_one :: notify_state where
  "notify_one = snd (snd (ioctl_tsb_create_notify_queue None notify_boot))"

lemma notify_boot_eq:
  "notify_boot = \<lparr>dev_list = replicate MAX_CONCURR_PROCESS zero_head,
     queue = create_queue True DEFAULT_BUF_ITEMS_NUM\<rparr>"
  by (simp add: notify_boot_def tsb_notify_init_def httcsec_io_command_register_def create_queue_def
      Let_def MAX_COMMAND_NR_def rq_bounds)

lemma notify_boot_start: "notify_start \<lparr>ns = notify_boot, httcsec_num_miscdev_opens = 0, files = (\<lambda>_. None)\<rparr>"
  by (simp add: notify_start_def notify_boot_eq)

lemma notify_boot_inv: "notify_inv notify_boot"
  using notify_start_inv [OF notify_boot_start] by simp

lemma notify_boot_closed: "subscribers notify_boot c = None"
  by (simp add: subscribers_def notify_boot_eq create_queue_def Let_def)

lemma notify_one_ok:
  "notify_inv notify_one" "subscribers notify_one = (\<lambda>_. None)(0 \<mapsto> [])" "capacity notify_one = 499"
proof -
  obtain s' where s': "ioctl_tsb_create_notify_queue None notify_boot = (0, Some 0, s')" "notify_inv s'"
    "subscribers s' = (subscribers notify_boot)(0 \<mapsto> [])" "capacity s' = capacity notify_boot"
    by (rule create_channel_ok [OF notify_boot_inv, of 0 None])
      (simp_all add: notify_boot_closed MAX_CONCURR_PROCESS_def)
  then have eq: "notify_one = s'" by (simp add: notify_one_def)
  show "notify_inv notify_one" "subscribers notify_one = (\<lambda>_. None)(0 \<mapsto> [])"
    using s' by (auto simp: eq notify_boot_closed)
  show "capacity notify_one = 499"
    using s' by (simp add: eq capacity_def notify_boot_eq create_queue_def Let_def rq_bounds)
qed

section \<open>Properties\<close>

text \<open>C6. Putting a notification never fails for an admissible length, and the shared ring with its
  bitmaps behaves as one bounded queue per open channel: every open channel gets the notification
  at the end of its queue and loses its oldest entry exactly when it was full; closed channels
  stay closed.\<close>

theorem put_notify_refines:
  assumes "notify_inv s" "n_length n \<le> MAX_NOTICE_SIZE"
  shows "\<exists>s'. tsb_put_notify n s = Some (0, s') \<and> notify_inv s' \<and> capacity s' = capacity s \<and>
    (\<forall>c. subscribers s' c = map_option (\<lambda>xs. take_last (capacity s) (xs @ [n])) (subscribers s c))"
  by (rule put_notify_ok [OF assms]) simp

theorem put_notify_refines_witness:
  "\<exists>s'. tsb_put_notify \<lparr>n_type = 10, n_length = 2, n_buf = []\<rparr> notify_one = Some (0, s') \<and>
     notify_inv s' \<and> subscribers s' 0 = Some [\<lparr>n_type = 10, n_length = 2, n_buf = []\<rparr>] \<and>
     subscribers s' 1 = None"
proof -
  let ?n = "\<lparr>n_type = 10, n_length = 2, n_buf = []\<rparr> :: notify"
  have "n_length ?n \<le> MAX_NOTICE_SIZE" by (simp add: MAX_NOTICE_SIZE_def)
  from put_notify_refines [OF notify_one_ok(1) this] show ?thesis
    by (auto simp: notify_one_ok)
qed

text \<open>C18. A reader whose copies to user space succeed gets exactly the notifications its channel has
  pending, oldest first, with their number as result; its queue is then empty, and no
  notification another channel still waits for is lost.\<close>

theorem get_notify_delivers:
  assumes "notify_inv s" "subscribers s c = Some xs" "\<And>k. cp k"
  shows "\<exists>s'. ioctl_tsb_get_notify_noblock cp (Some c) s = Some (int (length xs), xs, s') \<and>
    notify_inv s' \<and> subscribers s' = (subscribers s)(c \<mapsto> []) \<and> capacity s' = capacity s"
  by (rule get_noblock_ok [where cp = cp, OF assms]) simp

theorem get_notify_delivers_witness:
  "\<exists>s1 s2. tsb_put_notify \<lparr>n_type = 10, n_length = 2, n_buf = []\<rparr> notify_one = Some (0, s1) \<and>
     ioctl_tsb_get_notify_noblock (\<lambda>_. True) (Some 0) s1
       = Some (1, [\<lparr>n_type = 10, n_length = 2, n_buf = []\<rparr>], s2) \<and> subscribers s2 0 = Some []"
proof -
  let ?n = "\<lparr>n_type = 10, n_length = 2, n_buf = []\<rparr> :: notify"
  have len: "n_length ?n \<le> MAX_NOTICE_SIZE" by (simp add: MAX_NOTICE_SIZE_def)
  obtain s1 where s1: "tsb_put_notify ?n notify_one = Some (0, s1)" "notify_inv s1"
    "subscribers s1 0 = Some [?n]"
    by (rule put_notify_ok [OF notify_one_ok(1) len]) (simp add: notify_one_ok)
  from get_notify_delivers [OF s1(2,3), of "\<lambda>_. True"] s1(1) show ?thesis by auto
qed



text \<open>Resizing the ring keeps, for every open channel, the most recent pending notifications
  that fit the new length, in order, and leaves the counters right. Lengths outside 100 to 1000
  give the default length.\<close>

theorem set_queue_num_keeps_recent:
  assumes "notify_inv s" "queue s = Some q" "len \<noteq> queue_length q" "len < 2 ^ 32"
  shows "\<exists>s'. ioctl_tsb_set_queue_num True (Some len) s = Some (0, s') \<and> notify_inv s' \<and>
    capacity s' = (if MIN_BUF_ITEMS_NUM \<le> len \<and> len \<le> MAX_BUF_ITEMS_NUM then len
      else DEFAULT_BUF_ITEMS_NUM) - 1 \<and>
    (\<forall>c. subscribers s' c = map_option (take_last (capacity s')) (subscribers s c))"
proof -
  obtain nq where nq: "create_queue True (wrap32 len) = Some nq"
    by (simp add: create_queue_def Let_def)
  show ?thesis
    by (rule resize_ok [OF assms(1-3) nq]) (use create_queue_ok(4) [OF nq] assms(4) in auto)
qed

theorem set_queue_num_keeps_recent_witness:
  "\<exists>s'. ioctl_tsb_set_queue_num True (Some 200) notify_one = Some (0, s') \<and> capacity s' = 199 \<and>
     subscribers s' 0 = Some []"
proof -
  obtain q where q: "queue notify_one = Some q"
    using notify_invD [OF notify_one_ok(1)] by blast
  then have "200 \<noteq> queue_length q"
    using notify_one_ok(3) by (simp add: capacity_def)
  from set_queue_num_keeps_recent [OF notify_one_ok(1) q this] show ?thesis
    by (auto simp: notify_one_ok rq_bounds)
qed

end
