(* ===== verification/Feature_Conf.thy ===== *)
theory Feature_Conf
  imports Notify
begin

text \<open>
  The global control policy: tsb/kernel/platform/policy/feature_configure.c. The policy comes from the
  trusted module or from an administrator in network byte order, is kept in host byte order, and every
  feature that has registered a function is told about a change. Switching program control on puts
  a notification for the readers of the notification device. \<open>path_mkdir\<close> is not modelled: it only
  calls the file system, and nothing here uses it.
\<close>

section \<open>State\<close>

record global_control_policy =
  be_size :: u32
  be_boot_measure_on :: u32
  be_program_measure_on :: u32
  be_dynamic_measure_on :: u32
  be_boot_control :: u32
  be_program_control :: u32
  be_tsb_flag1 :: u32
  be_tsb_flag2 :: u32
  be_tsb_flag3 :: u32
  be_program_measure_mode :: u32
  be_measure_use_cache :: u32
  be_dmeasure_max_busy_delay :: u32
  be_process_dmeasure_ref_mode :: u32
  be_process_dmeasure_match_mode :: u32
  be_program_measure_match_mode :: u32
  be_process_dmeasure_lib_mode :: u32
  be_process_verify_lib_mode :: u32
  be_process_dmeasure_sub_process_mode :: u32
  be_process_dmeasure_old_process_mode :: u32
  be_process_dmeasure_interval :: u32

abbreviation (input) FEATURE_WHITELIST :: int where "FEATURE_WHITELIST \<equiv> 1"
abbreviation (input) FEATURE_DMEASURE :: int where "FEATURE_DMEASURE \<equiv> 2"
abbreviation (input) FEATURE_PROCESS_IDENTITY :: int where "FEATURE_PROCESS_IDENTITY \<equiv> 3"
abbreviation (input) FEATURE_PROTECTION :: int where "FEATURE_PROTECTION \<equiv> 5"
abbreviation (input) NOTICE_WHITELIST_UPDATE :: int where "NOTICE_WHITELIST_UPDATE \<equiv> 10"
definition FEATURE_MAX :: int where "FEATURE_MAX = 7"

text \<open>\<open>program_control\<close> is the static variable of \<open>update_global_policy\<close>.\<close>

record feature_state =
  global_policy :: global_control_policy
  g_tpcm_feature :: u32
  g_valid_license :: int
  global_feature_notify_func :: "int \<Rightarrow> fptr option"
  program_control :: u32
  fc_notify :: notify_state
  fc_commands :: cmd_table

text \<open>\<open>ntohl\<close> on a little-endian machine.\<close>

definition NTOHL :: "u32 \<Rightarrow> u32" where
  "NTOHL n = push_bit 24 n OR push_bit 8 (n AND 0xFF00) OR (drop_bit 8 n AND 0xFF00) OR drop_bit 24 n"

section \<open>Operations\<close>

definition get_global_feature_conf :: "feature_state \<Rightarrow> int \<times> global_control_policy \<times> u32 \<times> int" where
  "get_global_feature_conf s = (0, global_policy s, g_tpcm_feature s, g_valid_license s)"

text \<open>The callers pass constants from 1 to 6; a negative number is not tested for.\<close>

definition register_feature_conf_notify :: "int \<Rightarrow> fptr \<Rightarrow> feature_state \<Rightarrow> int \<times> feature_state" where
  "register_feature_conf_notify type func s =
     (if type \<ge> FEATURE_MAX then (-1, s)
      else (0, s\<lparr>global_feature_notify_func := (global_feature_notify_func s)(type \<mapsto> func)\<rparr>))"

definition unregister_feature_conf_notify :: "int \<Rightarrow> fptr \<Rightarrow> feature_state \<Rightarrow> int \<times> feature_state" where
  "unregister_feature_conf_notify type func s =
     (if type \<ge> FEATURE_MAX then (-1, s)
      else if global_feature_notify_func s type \<noteq> Some func then (-1, s)
      else (0, s\<lparr>global_feature_notify_func := (global_feature_notify_func s)(type := None)\<rparr>))"

text \<open>\<open>call\<close> runs a registered function; it acts on the state of its module and reads this one.\<close>

definition update_conf :: "(fptr \<Rightarrow> feature_state \<Rightarrow> 'm \<Rightarrow> 'm) \<Rightarrow> feature_state \<Rightarrow> 'm \<Rightarrow> 'm" where
  "update_conf call s m =
     fold (\<lambda>i m. case global_feature_notify_func s i of None \<Rightarrow> m | Some f \<Rightarrow> call f s m) [1..FEATURE_MAX - 1] m"

definition policy_ntoh :: "global_control_policy \<Rightarrow> global_control_policy" where
  "policy_ntoh p =
     \<lparr>be_size = NTOHL (be_size p),
      be_boot_measure_on = NTOHL (be_boot_measure_on p),
      be_program_measure_on = NTOHL (be_program_measure_on p),
      be_dynamic_measure_on = NTOHL (be_dynamic_measure_on p),
      be_boot_control = NTOHL (be_boot_control p),
      be_program_control = NTOHL (be_program_control p),
      be_tsb_flag1 = NTOHL (be_tsb_flag1 p),
      be_tsb_flag2 = NTOHL (be_tsb_flag2 p),
      be_tsb_flag3 = NTOHL (be_tsb_flag3 p),
      be_program_measure_mode = NTOHL (be_program_measure_mode p),
      be_measure_use_cache = NTOHL (be_measure_use_cache p),
      be_dmeasure_max_busy_delay = NTOHL (be_dmeasure_max_busy_delay p),
      be_process_dmeasure_ref_mode = NTOHL (be_process_dmeasure_ref_mode p),
      be_process_dmeasure_match_mode = NTOHL (be_process_dmeasure_match_mode p),
      be_program_measure_match_mode = NTOHL (be_program_measure_match_mode p),
      be_process_dmeasure_lib_mode = NTOHL (be_process_dmeasure_lib_mode p),
      be_process_verify_lib_mode = NTOHL (be_process_verify_lib_mode p),
      be_process_dmeasure_sub_process_mode = NTOHL (be_process_dmeasure_sub_process_mode p),
      be_process_dmeasure_old_process_mode = NTOHL (be_process_dmeasure_old_process_mode p),
      be_process_dmeasure_interval = NTOHL (be_process_dmeasure_interval p)\<rparr>"

definition whitelist_update_notice :: notify where
  "whitelist_update_notice = \<lparr>n_type = NOTICE_WHITELIST_UPDATE, n_length = 2, n_buf = replicate 48 0\<rparr>"

text \<open>A failed notification is only logged. \<open>None\<close>: the notification queue does not exist.\<close>

definition update_global_policy :: "global_control_policy \<Rightarrow> feature_state \<Rightarrow> (int \<times> feature_state) option" where
  "update_global_policy p s =
     (let p' = policy_ntoh p;
          s1 = s\<lparr>global_policy := p', program_control := be_program_control p'\<rparr>
      in if program_control s = 0 \<and> be_program_control p' = 1
         then map_option (\<lambda>(ret, n). (0, s1\<lparr>fc_notify := n\<rparr>)) (tsb_put_notify whitelist_update_notice (fc_notify s))
         else Some (0, s1))"

text \<open>\<open>tpcm\<close> is what \<open>get_global_control_policy\<close> answers: its result and the policy.\<close>

definition ioctl_reload_global_policy ::
  "(fptr \<Rightarrow> feature_state \<Rightarrow> 'm \<Rightarrow> 'm) \<Rightarrow> int \<times> global_control_policy \<Rightarrow> feature_state \<times> 'm \<Rightarrow> (int \<times> feature_state \<times> 'm) option" where
  "ioctl_reload_global_policy call tpcm sm =
     (case sm of (s, m) \<Rightarrow>
        if fst tpcm \<noteq> 0 then Some (-1, s, m)
        else map_option (\<lambda>(r, s'). (0, s', update_conf call s' m)) (update_global_policy (snd tpcm) s))"

text \<open>\<open>param\<close> is the policy the user passes, \<open>None\<close> if it cannot be copied.\<close>

definition ioctl_update_global_policy ::
  "(fptr \<Rightarrow> feature_state \<Rightarrow> 'm \<Rightarrow> 'm) \<Rightarrow> global_control_policy option \<Rightarrow> feature_state \<times> 'm \<Rightarrow> (int \<times> feature_state \<times> 'm) option" where
  "ioctl_update_global_policy call param sm =
     (case sm of (s, m) \<Rightarrow>
        case param of None \<Rightarrow> Some (-1, s, m)
        | Some p \<Rightarrow> map_option (\<lambda>(r, s'). (0, s', update_conf call s' m)) (update_global_policy p s))"

definition policy_linkage_init ::
  "(fptr \<Rightarrow> feature_state \<Rightarrow> 'm \<Rightarrow> 'm) \<Rightarrow> int \<times> u32 \<Rightarrow> int \<times> global_control_policy \<Rightarrow> feature_state \<times> 'm
   \<Rightarrow> (int \<times> feature_state \<times> 'm) option" where
  "policy_linkage_init call features tpcm sm =
     (case sm of (s, m) \<Rightarrow>
        if fst features \<noteq> 0 then Some (fst features, s\<lparr>g_tpcm_feature := snd features\<rparr>, m)
        else if fst tpcm \<noteq> 0 then Some (fst tpcm, s\<lparr>g_tpcm_feature := snd features\<rparr>, m)
        else (case update_global_policy (snd tpcm) (s\<lparr>g_tpcm_feature := snd features\<rparr>) of None \<Rightarrow> None
          | Some (r, s1) \<Rightarrow>
              let (r1, c1) = httcsec_io_command_register COMMAND_UPDATE_GLOBAL_POLICY ''ioctl_update_global_policy'' (fc_commands s1)
              in if r1 \<noteq> 0 then Some (0, s1, m)
                 else let (r2, c2) = httcsec_io_command_register COMMAND_RELOAD_GLOBAL_POLICY ''ioctl_reload_global_policy'' c1
                 in if r2 \<noteq> 0
                    then Some (0, s1\<lparr>fc_commands := snd (httcsec_io_command_unregister COMMAND_UPDATE_GLOBAL_POLICY ''ioctl_update_global_policy'' c1)\<rparr>, m)
                    else let s2 = s1\<lparr>fc_commands := c2\<rparr> in Some (0, s2, update_conf call s2 m)))"

definition policy_linkage_exit :: "feature_state \<Rightarrow> feature_state" where
  "policy_linkage_exit s =
     (let c1 = snd (httcsec_io_command_unregister COMMAND_RELOAD_GLOBAL_POLICY ''ioctl_reload_global_policy'' (fc_commands s));
          c2 = snd (httcsec_io_command_unregister COMMAND_UPDATE_GLOBAL_POLICY ''ioctl_update_global_policy'' c1)
      in s\<lparr>fc_commands := c2\<rparr>)"

section \<open>Byte order\<close>

lemma bit_NTOHL:
  "bit (NTOHL n) i \<longleftrightarrow> i < 32 \<and> bit n (8 * (3 - i div 8) + i mod 8)"
proof -
  have m: "bit (0xFF00 :: u32) j \<longleftrightarrow> 8 \<le> j \<and> j < 16" for j
  proof -
    have eq: "(0xFF00 :: u32) = push_bit 8 (mask 8)" by (simp add: mask_eq_exp_minus_1 push_bit_eq_mult)
    show ?thesis unfolding eq bit_push_bit_iff bit_mask_iff by auto
  qed
  consider "i < 8" | "8 \<le> i" "i < 16" | "16 \<le> i" "i < 24" | "24 \<le> i" "i < 32" | "32 \<le> i" by linarith
  then show ?thesis
  proof cases
    case 1
    then have "i div 8 = 0" "i mod 8 = i" by auto
    moreover have "\<not> bit (0xFF00 :: u32) i" unfolding m using 1 by simp
    moreover have "\<not> bit (push_bit 24 n) i" "\<not> bit (push_bit 8 (n AND 0xFF00)) i"
      unfolding bit_push_bit_iff using 1 by simp_all
    ultimately show ?thesis
      using 1 by (simp add: NTOHL_def bit_or_iff bit_and_iff bit_drop_bit_eq add.commute) blast
  next
    case 2
    then have d: "i div 8 = 1" by (simp add: div_nat_eqI)
    then have "i mod 8 = i - 8" using minus_div_mult_eq_mod [of i 8] by simp
    note d = d this
    with 2 show ?thesis
      unfolding NTOHL_def bit_or_iff bit_and_iff bit_push_bit_iff bit_drop_bit_eq m
      by (auto simp: algebra_simps dest: bit_imp_le_length)
  next
    case 3
    then have d: "i div 8 = 2" by (simp add: div_nat_eqI)
    then have "i mod 8 = i - 16" using minus_div_mult_eq_mod [of i 8] by simp
    note d = d this
    with 3 show ?thesis
      unfolding NTOHL_def bit_or_iff bit_and_iff bit_push_bit_iff bit_drop_bit_eq m
      by (auto simp: algebra_simps dest: bit_imp_le_length)
  next
    case 4
    then have d: "i div 8 = 3" by (simp add: div_nat_eqI)
    then have "i mod 8 = i - 24" using minus_div_mult_eq_mod [of i 8] by simp
    note d = d this
    with 4 show ?thesis
      unfolding NTOHL_def bit_or_iff bit_and_iff bit_push_bit_iff bit_drop_bit_eq m
      by (auto simp: algebra_simps dest: bit_imp_le_length)
  next
    case 5
    then show ?thesis by (auto dest: bit_imp_le_length)
  qed
qed

lemma NTOHL_NTOHL: "NTOHL (NTOHL n) = n"
proof (rule bit_word_eqI)
  fix i assume i: "i < LENGTH(32)"
  define j where "j = 8 * (3 - i div 8) + i mod 8"
  have d: "i div 8 < 4" "i mod 8 < 8" using i by auto
  then have "j div 8 = 3 - i div 8" "j mod 8 = i mod 8" unfolding j_def by auto
  with d have "8 * (3 - j div 8) + j mod 8 = i" "j < 32" by (auto simp: j_def)
  with i show "bit (NTOHL (NTOHL n)) i = bit n i" by (simp add: bit_NTOHL flip: j_def)
qed

section \<open>Properties\<close>

lemma policy_ntoh_ntoh: "policy_ntoh (policy_ntoh p) = p"
  by (simp add: policy_ntoh_def NTOHL_NTOHL)

text \<open>The functions that a change calls, in their order.\<close>

definition registered :: "feature_state \<Rightarrow> fptr list" where
  "registered s = map (\<lambda>i. the (global_feature_notify_func s i))
     (filter (\<lambda>i. global_feature_notify_func s i \<noteq> None) [1..FEATURE_MAX - 1])"

lemma update_conf_eq: "update_conf call s m = fold (\<lambda>f m. call f s m) (registered s) m"
proof -
  have "fold (\<lambda>i m. case global_feature_notify_func s i of None \<Rightarrow> m | Some f \<Rightarrow> call f s m) is m
    = fold (\<lambda>f m. call f s m) (map (\<lambda>i. the (global_feature_notify_func s i))
        (filter (\<lambda>i. global_feature_notify_func s i \<noteq> None) is)) m" for "is"
    by (induction "is" arbitrary: m) (auto split: option.splits)
  then show ?thesis by (simp add: update_conf_def registered_def)
qed

lemma update_global_policy_ok:
  assumes inv: "notify_inv (fc_notify s)"
  obtains s' where "update_global_policy p s = Some (0, s')" "global_policy s' = policy_ntoh p"
    "program_control s' = be_program_control (policy_ntoh p)" "notify_inv (fc_notify s')"
    "global_feature_notify_func s' = global_feature_notify_func s"
    "g_tpcm_feature s' = g_tpcm_feature s" "g_valid_license s' = g_valid_license s"
    "subscribers (fc_notify s') = (if program_control s = 0 \<and> be_program_control (policy_ntoh p) = 1
       then (\<lambda>c. map_option (\<lambda>xs. take_last (capacity (fc_notify s)) (xs @ [whitelist_update_notice])) (subscribers (fc_notify s) c))
       else subscribers (fc_notify s))"
proof (cases "program_control s = 0 \<and> be_program_control (policy_ntoh p) = 1")
  case True
  have "n_length whitelist_update_notice \<le> MAX_NOTICE_SIZE"
    by (simp add: whitelist_update_notice_def MAX_NOTICE_SIZE_def)
  then obtain n where n: "tsb_put_notify whitelist_update_notice (fc_notify s) = Some (0, n)" "notify_inv n"
    "subscribers n = (\<lambda>c. map_option (\<lambda>xs. take_last (capacity (fc_notify s)) (xs @ [whitelist_update_notice])) (subscribers (fc_notify s) c))"
    by (rule put_notify_ok [OF inv])
  show thesis
    by (rule that [of "s\<lparr>global_policy := policy_ntoh p, program_control := be_program_control (policy_ntoh p), fc_notify := n\<rparr>"])
       (use True n in \<open>simp_all add: update_global_policy_def Let_def\<close>)
next
  case False
  show thesis
    by (rule that [of "s\<lparr>global_policy := policy_ntoh p, program_control := be_program_control (policy_ntoh p)\<rparr>"])
       (use False inv in \<open>auto simp: update_global_policy_def Let_def\<close>)
qed

text \<open>Updating the global policy: the policy that the features read afterwards is the given one in
  host byte order, every registered function is called once and in order with the new policy in
  place, and the readers of the notification device get one notice exactly when program control goes
  from off to on.\<close>

theorem update_global_policy_propagates:
  assumes "notify_inv (fc_notify s)"
  shows "\<exists>s'. ioctl_update_global_policy call (Some p) (s, m) = Some (0, s', fold (\<lambda>f m. call f s' m) (registered s) m)
    \<and> get_global_feature_conf s' = (0, policy_ntoh p, g_tpcm_feature s, g_valid_license s)
    \<and> policy_ntoh (global_policy s') = p \<and> notify_inv (fc_notify s')
    \<and> subscribers (fc_notify s') = (if program_control s = 0 \<and> be_program_control (policy_ntoh p) = 1
        then (\<lambda>c. map_option (\<lambda>xs. take_last (capacity (fc_notify s)) (xs @ [whitelist_update_notice])) (subscribers (fc_notify s) c))
        else subscribers (fc_notify s))"
proof -
  obtain s' where s': "update_global_policy p s = Some (0, s')" "global_policy s' = policy_ntoh p"
    "program_control s' = be_program_control (policy_ntoh p)" "notify_inv (fc_notify s')"
    "global_feature_notify_func s' = global_feature_notify_func s"
    "g_tpcm_feature s' = g_tpcm_feature s" "g_valid_license s' = g_valid_license s"
    "subscribers (fc_notify s') = (if program_control s = 0 \<and> be_program_control (policy_ntoh p) = 1
       then (\<lambda>c. map_option (\<lambda>xs. take_last (capacity (fc_notify s)) (xs @ [whitelist_update_notice])) (subscribers (fc_notify s) c))
       else subscribers (fc_notify s))"
    by (rule update_global_policy_ok [OF assms])
  then have "registered s' = registered s" by (simp add: registered_def)
  with s' show ?thesis
    by (intro exI [of _ s'])
       (simp add: ioctl_update_global_policy_def update_conf_eq get_global_feature_conf_def policy_ntoh_ntoh)
qed

definition zero_policy :: global_control_policy where
  "zero_policy = \<lparr>be_size = 0, be_boot_measure_on = 0, be_program_measure_on = 0, be_dynamic_measure_on = 0,
     be_boot_control = 0, be_program_control = 0, be_tsb_flag1 = 0, be_tsb_flag2 = 0, be_tsb_flag3 = 0,
     be_program_measure_mode = 0, be_measure_use_cache = 0, be_dmeasure_max_busy_delay = 0,
     be_process_dmeasure_ref_mode = 0, be_process_dmeasure_match_mode = 0, be_program_measure_match_mode = 0,
     be_process_dmeasure_lib_mode = 0, be_process_verify_lib_mode = 0, be_process_dmeasure_sub_process_mode = 0,
     be_process_dmeasure_old_process_mode = 0, be_process_dmeasure_interval = 0\<rparr>"

definition feature_start :: "notify_state \<Rightarrow> feature_state" where
  "feature_start n = \<lparr>global_policy = zero_policy, g_tpcm_feature = 0, g_valid_license = 1,
     global_feature_notify_func = Map.empty, program_control = 0, fc_notify = n, fc_commands = Map.empty\<rparr>"

text \<open>An administrator switches program control on, in network byte order, while one reader is there.\<close>

theorem update_global_policy_propagates_witness:
  "\<exists>s'. ioctl_update_global_policy (\<lambda>f s m. m) (Some (zero_policy\<lparr>be_program_control := 0x01000000\<rparr>))
      (feature_start notify_one, ()) = Some (0, s', ())
    \<and> be_program_control (global_policy s') = 1 \<and> subscribers (fc_notify s') 0 = Some [whitelist_update_notice]"
proof -
  have on: "be_program_control (policy_ntoh (zero_policy\<lparr>be_program_control := 0x01000000\<rparr>)) = 1"
    by (simp add: policy_ntoh_def NTOHL_def push_bit_eq_mult drop_bit_eq_div)
  obtain s' where "ioctl_update_global_policy (\<lambda>f s m. m) (Some (zero_policy\<lparr>be_program_control := 0x01000000\<rparr>))
      (feature_start notify_one, ()) = Some (0, s', ())"
    "global_policy s' = policy_ntoh (zero_policy\<lparr>be_program_control := 0x01000000\<rparr>)"
    "subscribers (fc_notify s') = (\<lambda>c. map_option (\<lambda>xs. take_last (capacity notify_one) (xs @ [whitelist_update_notice])) (subscribers notify_one c))"
    using update_global_policy_propagates [of "feature_start notify_one" "\<lambda>f s m. m"
        "zero_policy\<lparr>be_program_control := 0x01000000\<rparr>" "()"] notify_one_ok(1) on
    by (auto simp: feature_start_def get_global_feature_conf_def registered_def)
  with on notify_one_ok show ?thesis by auto
qed

end
