(* ===== verification/Smeasure_Engine.thy ===== *)
theory Smeasure_Engine
  imports Critical_Confile Process_Protect Wqueue Script_Args Feature_Conf
begin

text \<open>
  The engine of static measurement: tsb/kernel/smeasure/engine/smeasure_engine.c for Linux 5.10 on x86_64,
  compiled as the makefile does, without LSM_UNLINK and WHITE_NOT_TPCM. The hooks for program
  execution, mapping, reading kernel modules, opening files and sending signals decide with the
  whitelist, its cache, the critical configuration files and the list of protected processes.

  What the hooks cause elsewhere is recorded as a list of effects: audit records, the trust status
  and the counters sent to the trusted module, and the messages for access control. The environment
  of one check collects what the kernel and the trusted module answer to it.
\<close>

section \<open>State\<close>

datatype effect =
    Audit int int int sec_domain
  | Trust_Status int
  | Process_Msg "byte list" "byte list" int
  | Exec_Count
  | Lib_Count
  | Module_Count

record engine_state =
  en_feature :: whitelist_feature_conf
  en_wl :: whitelist_state
  en_cc :: confile_state
  en_protect :: protect_state
  en_wq :: wqueue_mem
  en_effects :: "effect list"

text \<open>A file: its path (\<open>None\<close> if it cannot be built), its contents and the inode's attributes.\<close>

record kfile_obj =
  fo_path :: "byte list option"
  fo_kfile :: kfile
  fo_attr :: file_attr

text \<open>
  The task and its path, the allocations, the context on the stack, the answers of the trusted
  module, and what other threads do to the wait queue while this one waits or measures.
\<close>

record check_env =
  ce_sec_d :: bool
  ce_task :: "byte list option"
  ce_comm :: "byte list"
  ce_cache_check :: bool
  ce_cache_set :: bool
  ce_digest :: digest_env
  ce_arrays :: "bool \<times> bool"
  ce_pages :: "nat \<Rightarrow> bool"
  ce_tpcm :: "sec_domain \<Rightarrow> int \<Rightarrow> byte list list \<Rightarrow> nat \<Rightarrow> tpcm_reply"
  ce_simple :: "sec_domain \<Rightarrow> int \<Rightarrow> byte list \<Rightarrow> tpcm_reply"
  ce_rbi :: "addr \<Rightarrow> addr tree \<Rightarrow> addr tree"
  ce_rbe :: "addr \<Rightarrow> addr tree \<Rightarrow> addr tree"
  ce_alloc :: "addr option"
  ce_wait :: "addr \<Rightarrow> wqueue_mem \<Rightarrow> wqueue_mem"
  ce_during :: "wqueue_mem \<Rightarrow> wqueue_mem"

abbreviation (input) PROCESS_MEASURE_MODE_SOFT :: nat where "PROCESS_MEASURE_MODE_SOFT \<equiv> 0"
abbreviation (input) PROCESS_MEASURE_MODE_TCS_CHECK :: nat where "PROCESS_MEASURE_MODE_TCS_CHECK \<equiv> 1"
abbreviation (input) PROCESS_MEASURE_MODE_TCS_MEASURE :: nat where "PROCESS_MEASURE_MODE_TCS_MEASURE \<equiv> 2"
abbreviation (input) PROCESS_MEASURE_MODE_AUTO :: nat where "PROCESS_MEASURE_MODE_AUTO \<equiv> 3"
abbreviation (input) TYPE_WHITELIST :: int where "TYPE_WHITELIST \<equiv> 2"
abbreviation (input) WHITELIST_OPERATE_EXEC :: int where "WHITELIST_OPERATE_EXEC \<equiv> 1"
abbreviation (input) CRITICAL_FILE_OPEN :: int where "CRITICAL_FILE_OPEN \<equiv> 2"
abbreviation (input) RESULT_SUCCESS :: int where "RESULT_SUCCESS \<equiv> 1"
abbreviation (input) RESULT_FAIL :: int where "RESULT_FAIL \<equiv> 2"
abbreviation (input) ET_EXEC :: nat where "ET_EXEC \<equiv> 2"
abbreviation (input) ET_DYN :: nat where "ET_DYN \<equiv> 3"

definition effect :: "effect \<Rightarrow> engine_state \<Rightarrow> engine_state" where
  "effect e s = s\<lparr>en_effects := en_effects s @ [e]\<rparr>"

section \<open>Checking a file against the whitelist\<close>

definition prepare_sec_domain ::
  "byte list option \<Rightarrow> byte list \<Rightarrow> byte list option \<Rightarrow> sec_domain \<Rightarrow> int \<times> sec_domain" where
  "prepare_sec_domain task comm fullpath sec_d =
     (case fullpath of None \<Rightarrow> (- EINVAL, sec_d)
      | Some path \<Rightarrow>
          let taskpath = (case task of Some t \<Rightarrow> t | None \<Rightarrow> comm);
              sl = min (strlen taskpath) LEN_NAME_MAX
          in (0, sec_d\<lparr>sub_name := name_field taskpath, sub_len := int sl,
                       obj_name := name_field path @ le32_bytes sl, obj_len := int (min (strlen path) LEN_NAME_MAX)\<rparr>))"

text \<open>The label \<open>audit_log\<close> of the code and what follows it.\<close>

definition whitelist_audit_log :: "int \<Rightarrow> int \<Rightarrow> bool \<Rightarrow> sec_domain \<Rightarrow> engine_state \<Rightarrow> int \<times> engine_state" where
  "whitelist_audit_log operate ret skip sec_d s =
     (let off = (control_mode (en_feature s) = 0);
          s1 = (if off \<and> ret \<noteq> 0 then effect (Trust_Status 1) s else s);
          retval = (if ret < 0 then RESULT_FAIL else RESULT_SUCCESS)
      in (if skip \<or> off then 0 else ret, effect (Audit TYPE_WHITELIST operate retval sec_d) s1))"

definition set_process_msg :: "int \<Rightarrow> sec_domain \<Rightarrow> engine_state \<Rightarrow> engine_state" where
  "set_process_msg type sec_d s =
     (if type = EXEC_CTL \<or> type = SCRIPT_CTL then effect (Process_Msg (obj_name sec_d) (sub_hash sec_d) type) s else s)"

text \<open>The second \<open>switch\<close> on the verdict.\<close>

definition whitelist_conclude ::
  "jhash_fun \<Rightarrow> check_env \<Rightarrow> kfile_obj \<Rightarrow> int \<Rightarrow> int \<Rightarrow> int \<Rightarrow> sec_domain \<Rightarrow> engine_state \<Rightarrow> (int \<times> engine_state) option" where
  "whitelist_conclude jhash env f operate type ret sec_d s =
     (if ret = DC_PASS then
        let s1 = set_process_msg type sec_d s
        in if cache_mode (en_feature s) \<noteq> 0
           then (case set_whitelist_cache jhash (ce_cache_set env) (fo_attr f) (obj_name sec_d) (sub_hash sec_d) (wl_cache (en_wl s1)) of
                   None \<Rightarrow> None
                 | Some (r, w) \<Rightarrow> Some (whitelist_audit_log operate 0 False sec_d (s1\<lparr>en_wl := (en_wl s1)\<lparr>wl_cache := w\<rparr>\<rparr>)))
           else Some (whitelist_audit_log operate 0 False sec_d s1)
      else if ret = DC_FORBID then Some (whitelist_audit_log operate (- EACCES) False sec_d s)
      else if ret = DC_EAUDIT_PASS then Some (whitelist_audit_log operate (- EACCES) True sec_d s)
      else Some (0, s))"

text \<open>The verdict of a thread that waited for another one's measurement.\<close>

definition shared_verdict :: "int \<Rightarrow> int" where
  "shared_verdict ret =
     (if ret = DC_PASS then 0 else if ret = DC_FORBID then - EACCES else 0)"

definition whitelist_measure ::
  "jhash_fun \<Rightarrow> check_env \<Rightarrow> kfile_obj \<Rightarrow> int \<Rightarrow> int \<Rightarrow> int \<Rightarrow> sec_domain \<Rightarrow> engine_state \<Rightarrow> (int \<times> engine_state) option" where
  "whitelist_measure jhash env f operate type ret0 sec_d s =
     (let mode = measure_mode (en_feature s)
      in if mode = PROCESS_MEASURE_MODE_SOFT \<or> mode = PROCESS_MEASURE_MODE_AUTO then
           (let (ret, sec_d') = digest_check jhash (ce_digest env) (en_feature s) (en_wl s) (fo_kfile f) sec_d
            in whitelist_conclude jhash env f operate type ret sec_d' s)
         else if mode = PROCESS_MEASURE_MODE_TCS_CHECK then
           (let (ret, sec_d') = digest_check_tpcm_simple (ce_simple env) (ce_digest env) (fo_kfile f) sec_d type
            in whitelist_conclude jhash env f operate type ret sec_d' s)
         else if mode = PROCESS_MEASURE_MODE_TCS_MEASURE then
           (case smeasure_wqueue_handle (ce_rbi env) (ce_alloc env) (ce_wait env) (obj_name sec_d) ret0 0 (en_wq s) of
              None \<Rightarrow> None
            | Some (que, ret, flag, m1) \<Rightarrow>
                if que = None \<and> flag = 3 then Some (shared_verdict ret, s\<lparr>en_wq := m1\<rparr>)
                else (case digest_check_tpcm (ce_tpcm env) (ce_simple env) (ce_digest env) (ce_arrays env) (ce_pages env)
                             (fo_kfile f) sec_d type of
                        None \<Rightarrow> None
                      | Some (verdict, sec_d') \<Rightarrow>
                          (case que of
                             None \<Rightarrow> whitelist_conclude jhash env f operate type verdict sec_d' (s\<lparr>en_wq := m1\<rparr>)
                           | Some q \<Rightarrow>
                               (case smeasure_wqueue_wake_up (ce_rbe env) q verdict (ce_during env m1) of
                                  None \<Rightarrow> None
                                | Some m2 \<Rightarrow> whitelist_conclude jhash env f operate type verdict sec_d' (s\<lparr>en_wq := m2\<rparr>)))))
         else Some (0, s))"

definition whitelist_check ::
  "jhash_fun \<Rightarrow> check_env \<Rightarrow> kfile_obj \<Rightarrow> int \<Rightarrow> int \<Rightarrow> engine_state \<Rightarrow> (int \<times> engine_state) option" where
  "whitelist_check jhash env f operate type s =
     (if \<not> ce_sec_d env then Some (- ENOMEM, s)
      else case prepare_sec_domain (ce_task env) (ce_comm env) (fo_path f) zero_sec_domain of (ret, sec_d) \<Rightarrow>
        if ret \<noteq> 0 then Some (0, s)
        else if file_integrity_valid (en_wl s) = 0 then Some (whitelist_audit_log operate (- EACCES) False sec_d s)
        else if cache_mode (en_feature s) \<noteq> 0
        then (case check_whitelist_cache jhash (ce_cache_check env) (fo_attr f) (obj_name sec_d) (sub_hash sec_d) (wl_cache (en_wl s)) of
                None \<Rightarrow> None
              | Some (r, digest) \<Rightarrow>
                  if r = 0 then
                    let sec_d' = sec_d\<lparr>sub_hash := digest\<rparr>
                    in Some (whitelist_audit_log operate 0 False sec_d' (set_process_msg type sec_d' s))
                  else whitelist_measure jhash env f operate type r sec_d s)
        else whitelist_measure jhash env f operate type ret sec_d s)"

section \<open>Programs and scripts\<close>

text \<open>\<open>strrchr (interp, '/') + 1\<close>\<close>

fun after_last_slash :: "byte list \<Rightarrow> byte list option" where
  "after_last_slash [] = None"
| "after_last_slash (c # cs) =
     (if c = 0 then None
      else case after_last_slash cs of Some r \<Rightarrow> Some r | None \<Rightarrow> if c = 47 then Some cs else None)"

definition is_interpreter :: "byte list \<Rightarrow> bool" where
  "is_interpreter p \<longleftrightarrow> strcmp p (bytes_of ''bash'') = 0 \<or> strcmp p (bytes_of ''dash'') = 0
     \<or> strcmp p (bytes_of ''zsh'') = 0 \<or> strcmp p (bytes_of ''ash'') = 0 \<or> strcmp p (bytes_of ''csh'') = 0
     \<or> strcmp p (bytes_of ''tcsh'') = 0 \<or> strncmp p (bytes_of ''python'') 6 = 0
     \<or> strncmp p (bytes_of ''perl'') 4 = 0 \<or> strncmp p (bytes_of ''ruby'') 4 = 0 \<or> strcmp p (bytes_of ''sh'') = 0"

text \<open>\<open>filp_open\<close> opens a path; \<open>env2\<close> is the environment of the check of the script.\<close>

definition check_script_process ::
  "jhash_fun \<Rightarrow> check_env \<Rightarrow> (nat \<Rightarrow> byte list option) \<Rightarrow> bool \<Rightarrow> (byte list \<Rightarrow> kfile_obj option) \<Rightarrow> linux_binprm
   \<Rightarrow> engine_state \<Rightarrow> (int \<times> engine_state) option" where
  "check_script_process jhash env2 get_arg_page kz filp_open bprm s =
     (case after_last_slash (bp_interp bprm) of None \<Rightarrow> Some (0, s)
      | Some ptr \<Rightarrow>
          if \<not> is_interpreter ptr then Some (0, s)
          else if bp_argc bprm = 1 then Some (0, s)
          else (case valid_args_name_from_bprm get_arg_page kz (Some bprm) (replicate NAME_SIZE 0) of
                  None \<Rightarrow> None
                | Some Arg_Fault \<Rightarrow> None
                | Some (Arg r name) \<Rightarrow>
                    if r \<noteq> 1 then Some (0, s)
                    else if strlen name = 0 then Some (0, s)
                    else (case filp_open (cstr name) of None \<Rightarrow> Some (0, s)
                          | Some fp \<Rightarrow> whitelist_check jhash env2 fp WHITELIST_OPERATE_EXEC SCRIPT_CTL s)))"

text \<open>
  \<open>old\<close> is the result of the hook that was registered before this one, \<open>None\<close> if there is none.
  It is asked only while the whitelist is enabled.
\<close>

definition old_hook :: "int option \<Rightarrow> engine_state \<Rightarrow> (int \<times> engine_state) option \<Rightarrow> (int \<times> engine_state) option" where
  "old_hook old s rest =
     (if is_enabled (en_feature s) = 0 then Some (0, s)
      else case old of None \<Rightarrow> rest | Some r \<Rightarrow> if r \<noteq> 0 then Some (r, s) else rest)"

definition count_failure :: "effect \<Rightarrow> int \<times> engine_state \<Rightarrow> int \<times> engine_state" where
  "count_failure e rs = (case rs of (ret, s) \<Rightarrow> (ret, if ret \<noteq> 0 then effect e s else s))"

definition smeasure_bprm_check_security ::
  "jhash_fun \<Rightarrow> check_env \<Rightarrow> check_env \<Rightarrow> (nat \<Rightarrow> byte list option) \<Rightarrow> bool \<Rightarrow> (byte list \<Rightarrow> kfile_obj option) \<Rightarrow> int option
   \<Rightarrow> linux_binprm \<Rightarrow> kfile_obj option \<Rightarrow> engine_state \<Rightarrow> (int \<times> engine_state) option" where
  "smeasure_bprm_check_security jhash env env2 get_arg_page kz filp_open old bprm file s =
     old_hook old s (case file of None \<Rightarrow> Some (0, s)
      | Some f \<Rightarrow>
          map_option (count_failure Exec_Count)
            (if bp_e_type bprm \<noteq> ET_EXEC \<and> bp_e_type bprm \<noteq> ET_DYN
             then whitelist_check jhash env f WHITELIST_OPERATE_EXEC SCRIPT_CTL s
             else (case whitelist_check jhash env f WHITELIST_OPERATE_EXEC EXEC_CTL s of None \<Rightarrow> None
                   | Some (ret, s1) \<Rightarrow>
                       if ret = 0 \<and> bp_argc bprm \<ge> 2
                       then check_script_process jhash env2 get_arg_page kz filp_open bprm s1
                       else Some (ret, s1))))"

definition PROT_EXEC :: u32 where "PROT_EXEC = 4"
definition MAP_EXECUTABLE :: u32 where "MAP_EXECUTABLE = 0x1000"
definition ELF_HEADER_SIZE :: nat where "ELF_HEADER_SIZE = 64"

text \<open>\<open>e_type\<close> are the bytes 16 and 17 of the header.\<close>

definition elf_type :: "byte list \<Rightarrow> nat" where
  "elf_type h = unat (h ! 16) + 256 * unat (h ! 17)"

definition smeasure_mmap_file ::
  "jhash_fun \<Rightarrow> check_env \<Rightarrow> int option \<Rightarrow> kfile_obj option \<Rightarrow> u32 \<Rightarrow> u32 \<Rightarrow> engine_state \<Rightarrow> (int \<times> engine_state) option" where
  "smeasure_mmap_file jhash env old file prot flags s =
     old_hook old s (case file of None \<Rightarrow> Some (0, s)
      | Some f \<Rightarrow>
          if prot AND PROT_EXEC = 0 \<or> flags AND MAP_EXECUTABLE \<noteq> 0 then Some (0, s)
          else (case kernel_read (fo_kfile f) 0 ELF_HEADER_SIZE of Inl e \<Rightarrow> Some (0, s)
                | Inr h \<Rightarrow>
                    if length h \<noteq> ELF_HEADER_SIZE then Some (0, s)
                    else if elf_type h = ET_DYN
                    then map_option (count_failure Lib_Count) (whitelist_check jhash env f WHITELIST_OPERATE_EXEC DYN_CTL s)
                    else Some (0, s)))"

text \<open>\<open>reading_module\<close>: the id of the hook is READING_MODULE.\<close>

definition smeasure_kernel_read_file ::
  "jhash_fun \<Rightarrow> check_env \<Rightarrow> int option \<Rightarrow> kfile_obj \<Rightarrow> bool \<Rightarrow> engine_state \<Rightarrow> (int \<times> engine_state) option" where
  "smeasure_kernel_read_file jhash env old f reading_module s =
     old_hook old s
       (if reading_module
        then map_option (count_failure Module_Count) (whitelist_check jhash env f WHITELIST_OPERATE_EXEC MODULE_CTL s)
        else Some (0, s))"

section \<open>Critical files and protected processes\<close>

text \<open>The loop over the digests of the policy, 32 bytes each.\<close>

function digest_in :: "byte list \<Rightarrow> byte list \<Rightarrow> bool" where
  "digest_in ds d = (if ds = [] then False else if memeq ds d LEN_HASH then True else digest_in (drop LEN_HASH ds) d)"
  by pat_completeness auto

termination digest_in
  by (relation "measure (\<lambda>(ds, d). length ds)") (auto simp: LEN_HASH_def)

declare digest_in.simps [simp del]

text \<open>\<open>magic\<close>: the mark at the end of the task's stack tells that the open comes from the hook itself.\<close>

definition smeasure_file_open ::
  "jhash_fun \<Rightarrow> check_env \<Rightarrow> (byte list \<Rightarrow> kfile option) \<Rightarrow> int option \<Rightarrow> bool \<Rightarrow> kfile_obj \<Rightarrow> engine_state \<Rightarrow> (int \<times> engine_state) option" where
  "smeasure_file_open jhash env filp_open old magic f s =
     old_hook old s
       (if magic then Some (0, s)
        else if \<not> ce_sec_d env then Some (- ENOMEM, s)
        else case prepare_sec_domain (ce_task env) (ce_comm env) (fo_path f) zero_sec_domain of (r, sec_d) \<Rightarrow>
          if r \<noteq> 0 then Some (0, s)
          else case get_critical_confile_digest jhash (en_cc s) (obj_name sec_d) 256 of (hash_len, policy_digest) \<Rightarrow>
            if hash_len = 0 then Some (0, s)
            else (case filp_open (cstr (obj_name sec_d)) of None \<Rightarrow> Some (0, s)
                  | Some g \<Rightarrow>
                      let (ret, file_digest) = digest_cal (ce_digest env) g (replicate LEN_HASH 0)
                      in if ret < 0 then Some (0, s)
                         else let sec_d' = sec_d\<lparr>sub_hash := file_digest\<rparr>
                              in if digest_in policy_digest file_digest then Some (0, s)
                                 else Some (- EACCES, effect (Audit TYPE_WHITELIST CRITICAL_FILE_OPEN RESULT_FAIL sec_d') s)))"

definition smeasure_task_kill :: "int option \<Rightarrow> int \<Rightarrow> engine_state \<Rightarrow> int" where
  "smeasure_task_kill old pid s =
     (if is_protect_task (en_protect s) pid = 1 then - EAGAIN
      else case old of None \<Rightarrow> is_protect_task (en_protect s) pid | Some r \<Rightarrow> r)"

section \<open>Configuration\<close>

definition update_whitelist_conf :: "global_control_policy \<Rightarrow> u32 \<Rightarrow> int \<Rightarrow> whitelist_feature_conf \<Rightarrow> whitelist_feature_conf" where
  "update_whitelist_conf p tpcm_feature valid_license w =
     (let enabled = (if valid_license \<noteq> 0 then unat (be_program_measure_on p) else 0)
      in if is_enabled w \<noteq> enabled \<or> control_mode w \<noteq> unat (be_program_control p)
            \<or> cache_mode w \<noteq> unat (be_measure_use_cache p)
            \<or> match_mode w \<noteq> unat (be_program_measure_match_mode p)
            \<or> measure_mode w \<noteq> unat (be_program_measure_mode p)
         then let w1 = w\<lparr>is_enabled := enabled, control_mode := unat (be_program_control p),
                         cache_mode := unat (be_measure_use_cache p),
                         match_mode := unat (be_program_measure_match_mode p),
                         measure_mode := unat (be_program_measure_mode p)\<rparr>;
                  w2 = (if unat (be_program_measure_mode p) = PROCESS_MEASURE_MODE_TCS_MEASURE \<and> tpcm_feature AND 1 = 0
                        then w1\<lparr>measure_mode := PROCESS_MEASURE_MODE_SOFT\<rparr> else w1)
              in (if unat (be_program_measure_mode p) = PROCESS_MEASURE_MODE_TCS_CHECK \<and> tpcm_feature AND 0x40 = 0
                  then w2\<lparr>measure_mode := PROCESS_MEASURE_MODE_SOFT\<rparr> else w2)
         else w)"

definition whitelist_feature_conf_notify_func :: "feature_state \<Rightarrow> engine_state \<Rightarrow> engine_state" where
  "whitelist_feature_conf_notify_func fs s =
     (case get_global_feature_conf fs of (ret, policy, tpcm_feature, valid_license) \<Rightarrow>
        if ret \<noteq> 0 then s
        else s\<lparr>en_protect := process_protection_conf_notify_func (be_tsb_flag1 policy) (en_protect s),
               en_feature := update_whitelist_conf policy tpcm_feature valid_license (en_feature s)\<rparr>)"

definition get_whitelist_switch :: "engine_state \<Rightarrow> int \<times> nat" where
  "get_whitelist_switch s = (0, is_enabled (en_feature s))"

section \<open>Names and digests\<close>

text \<open>The security domain of a file whose path fits.\<close>

definition domain_of :: "check_env \<Rightarrow> byte list \<Rightarrow> sec_domain" where
  "domain_of env p = snd (prepare_sec_domain (ce_task env) (ce_comm env) (Some p) zero_sec_domain)"

lemma prepare_domain:
  "prepare_sec_domain (ce_task env) (ce_comm env) (Some p) zero_sec_domain = (0, domain_of env p)"
  by (simp add: domain_of_def prepare_sec_domain_def Let_def)

lemma obj_name_domain:
  assumes "strlen p < LEN_NAME_MAX"
  shows "cstr (obj_name (domain_of env p)) = cstr p"
  using cstr_name_field [OF assms] by (simp add: domain_of_def prepare_sec_domain_def Let_def)

lemma listed_cstr: "cstr p = cstr q \<Longrightarrow> listed jhash feature s h p = listed jhash feature s h q"
  by (simp add: listed_def)

lemma digest_check_listed:
  assumes "wl_inv jhash s" "env_ok env" "kfile_reads f c" "kfile_progress f" "i_size f = length c"
  shows "digest_check jhash env feature s f sec_d =
    (if listed jhash feature s (gb_sm3 c) (obj_name sec_d) then DC_PASS else DC_FORBID, sec_d\<lparr>sub_hash := gb_sm3 c\<rparr>)"
proof -
  have len: "length (gb_sm3 c) = LEN_HASH" by (simp add: length_gb_sm3 LEN_HASH_def)
  have "digest_cal env f (replicate LEN_HASH 0) = (0, gb_sm3 c)"
    using assms(2-5) by (intro digest_cal_sm3) (simp_all add: LEN_HASH_def)
  then show ?thesis
    using get_digest_iff [OF assms(1) len] by (simp add: digest_check_def Let_def)
qed

text \<open>The check of a file by the list alone.\<close>

definition soft_mode :: "whitelist_feature_conf \<Rightarrow> bool" where
  "soft_mode w \<longleftrightarrow> (measure_mode w = PROCESS_MEASURE_MODE_SOFT \<or> measure_mode w = PROCESS_MEASURE_MODE_AUTO) \<and> cache_mode w = 0"

lemma whitelist_check_soft:
  assumes "ce_sec_d env" "fo_path f = Some p" "strlen p < LEN_NAME_MAX" "file_integrity_valid (en_wl s) \<noteq> 0"
    and "soft_mode (en_feature s)" "wl_inv jhash (en_wl s)" "env_ok (ce_digest env)"
    and "kfile_reads (fo_kfile f) c" "kfile_progress (fo_kfile f)" "i_size (fo_kfile f) = length c"
  defines "d \<equiv> (domain_of env p)\<lparr>sub_hash := gb_sm3 c\<rparr>"
  shows "whitelist_check jhash env f operate type s = Some
    (if listed jhash (en_feature s) (en_wl s) (gb_sm3 c) p
     then whitelist_audit_log operate 0 False d (set_process_msg type d s)
     else whitelist_audit_log operate (- EACCES) False d s)"
proof -
  have "listed jhash (en_feature s) (en_wl s) (gb_sm3 c) (obj_name (domain_of env p))
      = listed jhash (en_feature s) (en_wl s) (gb_sm3 c) p"
    by (rule listed_cstr) (rule obj_name_domain [OF assms(3)])
  with digest_check_listed [OF assms(6-10), of "en_feature s" "domain_of env p"] assms(1,2,4,5)
  show ?thesis
    by (auto simp: whitelist_check_def prepare_domain whitelist_measure_def whitelist_conclude_def soft_mode_def d_def Let_def)
qed

section \<open>Properties\<close>

lemma exec_hook_soft:
  assumes "is_enabled (en_feature s) \<noteq> 0" "control_mode (en_feature s) \<noteq> 0" "soft_mode (en_feature s)"
    and "ce_sec_d env" "fo_path f = Some p" "strlen p < LEN_NAME_MAX" "file_integrity_valid (en_wl s) \<noteq> 0"
    and "wl_inv jhash (en_wl s)" "env_ok (ce_digest env)"
    and "kfile_reads (fo_kfile f) c" "kfile_progress (fo_kfile f)" "i_size (fo_kfile f) = length c"
    and "bp_e_type b = ET_EXEC \<or> bp_e_type b = ET_DYN" "bp_argc b < 2" "old = None \<or> old = Some 0"
  shows "let d = (domain_of env p)\<lparr>sub_hash := gb_sm3 c\<rparr> in
    smeasure_bprm_check_security jhash env env2 pages kz opn old b (Some f) s = Some
      (if listed jhash (en_feature s) (en_wl s) (gb_sm3 c) p
       then (0, s\<lparr>en_effects := en_effects s @ [Process_Msg (obj_name d) (gb_sm3 c) EXEC_CTL,
                                               Audit TYPE_WHITELIST WHITELIST_OPERATE_EXEC RESULT_SUCCESS d]\<rparr>)
       else (- EACCES, s\<lparr>en_effects := en_effects s @ [Audit TYPE_WHITELIST WHITELIST_OPERATE_EXEC RESULT_FAIL d, Exec_Count]\<rparr>))"
  using whitelist_check_soft [OF assms(4-7,3,8-12), of WHITELIST_OPERATE_EXEC EXEC_CTL] assms(1,2,13-15)
  by (auto simp: smeasure_bprm_check_security_def old_hook_def count_failure_def whitelist_audit_log_def
      set_process_msg_def effect_def Let_def)


lemma audit_log_denies:
  assumes "whitelist_audit_log operate ret skip d s = (r, s')" "r \<noteq> 0"
  shows "r = ret \<and> \<not> skip \<and> control_mode (en_feature s) \<noteq> 0
    \<and> en_effects s' = en_effects s @ [Audit TYPE_WHITELIST operate (if ret < 0 then RESULT_FAIL else RESULT_SUCCESS) d]"
  using assms by (auto simp: whitelist_audit_log_def effect_def Let_def split: if_splits)

lemma conclude_denies:
  assumes "whitelist_conclude jhash env f operate type ret d s = Some (r, s')" "r \<noteq> 0"
  shows "r = - EACCES \<and> control_mode (en_feature s) \<noteq> 0
    \<and> en_effects s' = en_effects s @ [Audit TYPE_WHITELIST operate RESULT_FAIL d]"
proof -
  have "ret \<noteq> DC_PASS"
    using assms by (auto simp: whitelist_conclude_def Let_def whitelist_audit_log_def split: if_splits option.splits)
  with assms have "\<exists>skip. whitelist_audit_log operate (- EACCES) skip d s = (r, s')"
    by (auto simp: whitelist_conclude_def split: if_splits)
  with audit_log_denies [OF _ assms(2)] show ?thesis by fastforce
qed

lemma measure_denies:
  assumes "whitelist_measure jhash env f operate type ret0 d s = Some (r, s')" "r \<noteq> 0"
  shows "r = - EACCES \<and> (control_mode (en_feature s) \<noteq> 0
      \<and> (\<exists>d'. en_effects s' = en_effects s @ [Audit TYPE_WHITELIST operate RESULT_FAIL d'])
    \<or> measure_mode (en_feature s) = PROCESS_MEASURE_MODE_TCS_MEASURE \<and> en_effects s' = en_effects s
      \<and> (\<exists>m. smeasure_wqueue_handle (ce_rbi env) (ce_alloc env) (ce_wait env) (obj_name d) ret0 0 (en_wq s)
            = Some (None, DC_FORBID, 3, m)))"
proof -
  have c: "whitelist_conclude jhash env f operate type ret d' t = Some (r, s') \<Longrightarrow> en_feature t = en_feature s \<Longrightarrow>
      en_effects t = en_effects s \<Longrightarrow> r = - EACCES \<and> control_mode (en_feature s) \<noteq> 0
      \<and> (\<exists>d'. en_effects s' = en_effects s @ [Audit TYPE_WHITELIST operate RESULT_FAIL d'])" for ret d' t
    using conclude_denies [OF _ assms(2)] by metis
  show ?thesis
    using assms c
    by (auto simp: whitelist_measure_def Let_def shared_verdict_def split: if_splits option.splits prod.splits)
qed

text \<open>A refusal is never silent: when the check of a file denies it, the allocation failed, or control
  is on and the last effect is the audit record of the failure, or the thread took over the verdict
  of another thread that measures a file with the same key.\<close>

theorem whitelist_check_denial_recorded:
  assumes "whitelist_check jhash env f operate type s = Some (r, s')" "r \<noteq> 0"
  shows "r = - ENOMEM \<and> \<not> ce_sec_d env
    \<or> r = - EACCES \<and> control_mode (en_feature s) \<noteq> 0
      \<and> (\<exists>d. en_effects s' = en_effects s @ [Audit TYPE_WHITELIST operate RESULT_FAIL d])
    \<or> r = - EACCES \<and> measure_mode (en_feature s) = PROCESS_MEASURE_MODE_TCS_MEASURE \<and> en_effects s' = en_effects s
      \<and> (\<exists>p m. smeasure_wqueue_handle (ce_rbi env) (ce_alloc env) (ce_wait env) (obj_name (domain_of env p))
            (if cache_mode (en_feature s) = 0 then 0 else - EINVAL) 0 (en_wq s) = Some (None, DC_FORBID, 3, m) \<and> fo_path f = Some p)"
proof (cases "ce_sec_d env")
  case False
  with assms show ?thesis by (simp add: whitelist_check_def)
next
  case True
  then obtain p where p: "fo_path f = Some p"
    using assms by (cases "fo_path f") (auto simp: whitelist_check_def prepare_sec_domain_def)
  have r0: "check_whitelist_cache jhash kz fa path dig w = Some (r, dg) \<Longrightarrow> r \<noteq> 0 \<Longrightarrow> r = - EINVAL" for kz fa path dig w r dg
    by (auto simp: check_whitelist_cache_def Let_def split: if_splits option.splits)
  show ?thesis
    using assms True p
    by (auto simp: whitelist_check_def prepare_domain whitelist_audit_log_def effect_def set_process_msg_def Let_def
        dest!: measure_denies r0 split: if_splits option.splits)
qed

text \<open>Two threads and one file: the node of the measurement in progress, and the answer of its owner.\<close>

definition wq_busy :: "byte list \<Rightarrow> wqueue_mem" where
  "wq_busy p = sched_mem True (Some (sched_node p 1 0 0))"

definition wq_answer :: "int \<Rightarrow> addr \<Rightarrow> wqueue_mem \<Rightarrow> wqueue_mem" where
  "wq_answer r q m = (case wake_up_mark q r (wake_up_pop chain_erase q m) of None \<Rightarrow> m | Some (w, m') \<Rightarrow> m')"

lemma handle_busy:
  "smeasure_wqueue_handle rbi alloc (wq_answer r) p ret0 t0 (wq_busy p) = Some (None, r, 3, sched_mem False None)"
proof -
  have "smeasure_wqueue_tree_compare p (snprintf_key p) = 0"
    using same_key_snprintf_self [of p] by (simp add: compare_0)
  then have "smeasure_wqueue_node_search rbi alloc p (wq_busy p) = (Some 0, 1, sched_mem True (Some (sched_node p 2 0 0)))"
    by (simp add: wq_busy_def sched_mem_def sched_node_def smeasure_wqueue_node_search_def smeasure_rbtree_search_def
        wq_key_of_def wrap32_def fun_eq_iff)
  moreover have "wq_answer r 0 (sched_mem True (Some (sched_node p 2 0 0))) = sched_mem False (Some (sched_node p 1 1 r))"
    using rb_lib_single [OF chain_lib_ok]
    by (simp add: wq_answer_def sched_mem_def sched_node_def wake_up_pop_def smeasure_rbtree_pop_def wake_up_mark_def dec32_pos fun_eq_iff)
  moreover have "smeasure_wqueue_node_clean 0 (sched_mem False (Some (sched_node p 1 1 r))) = Some (r, sched_mem False None)"
    by (simp add: sched_mem_def sched_node_def smeasure_wqueue_node_clean_def dec32_pos fun_eq_iff)
  ultimately show ?thesis by (simp add: smeasure_wqueue_handle_def)
qed

text \<open>With control switched off every refusal is meant to be recorded and let through. A thread that
  waited for the measurement of another one is denied all the same, without a record, while the
  thread that measured is let through.\<close>

theorem shared_denial_without_control:
  assumes "ce_sec_d env" "fo_path f = Some p" "file_integrity_valid (en_wl s) \<noteq> 0"
    and "measure_mode (en_feature s) = PROCESS_MEASURE_MODE_TCS_MEASURE" "cache_mode (en_feature s) = 0"
    and "control_mode (en_feature s) = 0"
    and "en_wq s = wq_busy (obj_name (domain_of env p))" "ce_wait env = wq_answer DC_FORBID"
  shows "whitelist_check jhash env f operate type s = Some (- EACCES, s\<lparr>en_wq := sched_mem False None\<rparr>)
    \<and> (\<forall>d. fst (whitelist_audit_log operate (- EACCES) False d s) = 0)"
  using assms
  by (simp add: whitelist_check_def prepare_domain whitelist_measure_def handle_busy shared_verdict_def
      whitelist_audit_log_def Let_def)

section \<open>Critical files\<close>

lemma digest_in_concat:
  assumes "\<forall>x\<in>set ds. length x = LEN_HASH" "length d = LEN_HASH"
  shows "digest_in (concat ds) d \<longleftrightarrow> d \<in> set ds"
  using assms
proof (induction ds)
  case Nil
  then show ?case by (simp add: digest_in.simps)
next
  case (Cons x ds)
  then have "x \<noteq> []" by (auto simp: LEN_HASH_def)
  with Cons show ?case by (subst digest_in.simps) (auto simp: memeq_def)
qed

definition confile_bucket :: "jhash_fun \<Rightarrow> confile_state \<Rightarrow> byte list \<Rightarrow> whitelist_digest list" where
  "confile_bucket jhash s path =
     hashtable (cc_table s) (critical_confile_path_hash_key jhash (critical_confile_hash_random s) [] path)"

lemma confile_digests:
  assumes "cc_inv jhash s" "length (confile_bucket jhash s path) \<le> 8"
  shows "get_critical_confile_digest jhash s path 256 =
      (LEN_HASH * length (confile_bucket jhash s path), concat (map wd_digest (confile_bucket jhash s path)))"
    and "\<forall>u\<in>set (confile_bucket jhash s path). length (wd_digest u) = LEN_HASH"
proof -
  show len: "\<forall>u\<in>set (confile_bucket jhash s path). length (wd_digest u) = LEN_HASH"
    using assms(1) by (auto simp: cc_inv_def tab_wf_def confile_bucket_def entry_wf_def)
  have "copy_digests 256 0 (confile_bucket jhash s path) = concat (map wd_digest (confile_bucket jhash s path))"
    using assms(2) by (intro copy_digests_all len) (simp add: LEN_HASH_def)
  moreover have "length (concat (map wd_digest (confile_bucket jhash s path))) = LEN_HASH * length (confile_bucket jhash s path)"
    using len by (simp add: length_concat_const [where k = LEN_HASH])
  ultimately show "get_critical_confile_digest jhash s path 256 =
      (LEN_HASH * length (confile_bucket jhash s path), concat (map wd_digest (confile_bucket jhash s path)))"
    by (simp add: get_critical_confile_digest_def confile_bucket_def)
qed

text \<open>C23. Opening a file whose path has reference digests: the open succeeds exactly when the SM3 hash of the
  file is one of the digests in the bucket of its path, and a refusal leaves an audit record; a path
  whose bucket is empty is opened unseen.\<close>

theorem critical_file_open_decides:
  assumes "is_enabled (en_feature s) \<noteq> 0" "old = None \<or> old = Some 0" "ce_sec_d env" "fo_path f = Some p"
    and "strlen p < LEN_NAME_MAX" "cc_inv jhash (en_cc s)" "length (confile_bucket jhash (en_cc s) p) \<le> 8"
    and "opn (cstr p) = Some g" "env_ok (ce_digest env)" "kfile_reads g c" "kfile_progress g" "i_size g = length c"
  shows "smeasure_file_open jhash env opn old False f s = Some
    (if confile_bucket jhash (en_cc s) p = [] \<or> gb_sm3 c \<in> wd_digest ` set (confile_bucket jhash (en_cc s) p) then (0, s)
     else (- EACCES, s\<lparr>en_effects := en_effects s @
       [Audit TYPE_WHITELIST CRITICAL_FILE_OPEN RESULT_FAIL ((domain_of env p)\<lparr>sub_hash := gb_sm3 c\<rparr>)]\<rparr>))"
proof -
  note name = obj_name_domain [OF assms(5), of env]
  have b: "confile_bucket jhash (en_cc s) (obj_name (domain_of env p)) = confile_bucket jhash (en_cc s) p"
    by (simp add: confile_bucket_def critical_confile_path_hash_key_def name)
  note get = confile_digests [OF assms(6), of "obj_name (domain_of env p)", unfolded b, OF assms(7)]
  have len: "length (gb_sm3 c) = LEN_HASH" by (simp add: length_gb_sm3 LEN_HASH_def)
  have cal: "digest_cal (ce_digest env) g (replicate LEN_HASH 0) = (0, gb_sm3 c)"
    using assms(9-12) by (intro digest_cal_sm3) (simp_all add: LEN_HASH_def)
  have d: "digest_in (concat (map wd_digest (confile_bucket jhash (en_cc s) p))) (gb_sm3 c)
      \<longleftrightarrow> gb_sm3 c \<in> wd_digest ` set (confile_bucket jhash (en_cc s) p)"
    using digest_in_concat [of "map wd_digest (confile_bucket jhash (en_cc s) p)" "gb_sm3 c"] get(2) len by simp
  have "LEN_HASH * length (confile_bucket jhash (en_cc s) p) = 0 \<longleftrightarrow> confile_bucket jhash (en_cc s) p = []"
    by (simp add: LEN_HASH_def)
  with get(1) cal d name assms(1-4,8) show ?thesis
    by (auto simp: smeasure_file_open_def old_hook_def prepare_domain effect_def Let_def)
qed

section \<open>The configuration of the engine\<close>

text \<open>What a policy asks for, given the features of the trusted module and the licence.\<close>

definition conf_of :: "global_control_policy \<Rightarrow> u32 \<Rightarrow> int \<Rightarrow> whitelist_feature_conf" where
  "conf_of p feature license =
     \<lparr>is_enabled = (if license \<noteq> 0 then unat (be_program_measure_on p) else 0),
      control_mode = unat (be_program_control p),
      measure_mode = (let m = unat (be_program_measure_mode p) in
        if m = PROCESS_MEASURE_MODE_TCS_MEASURE \<and> feature AND 1 = 0
           \<or> m = PROCESS_MEASURE_MODE_TCS_CHECK \<and> feature AND 0x40 = 0 then PROCESS_MEASURE_MODE_SOFT else m),
      cache_mode = unat (be_measure_use_cache p),
      match_mode = unat (be_program_measure_match_mode p)\<rparr>"

definition mode_supported :: "u32 \<Rightarrow> whitelist_feature_conf \<Rightarrow> bool" where
  "mode_supported feature w \<longleftrightarrow>
     (measure_mode w = PROCESS_MEASURE_MODE_TCS_MEASURE \<longrightarrow> feature AND 1 \<noteq> 0)
     \<and> (measure_mode w = PROCESS_MEASURE_MODE_TCS_CHECK \<longrightarrow> feature AND 0x40 \<noteq> 0)"

lemma conf_of_supported: "mode_supported feature (conf_of p feature license)"
  by (simp add: mode_supported_def conf_of_def Let_def)

lemma update_whitelist_conf_eq:
  assumes "mode_supported feature w"
  shows "update_whitelist_conf p feature license w = conf_of p feature license"
proof (cases "is_enabled w = (if license \<noteq> 0 then unat (be_program_measure_on p) else 0)
    \<and> control_mode w = unat (be_program_control p) \<and> cache_mode w = unat (be_measure_use_cache p)
    \<and> match_mode w = unat (be_program_measure_match_mode p) \<and> measure_mode w = unat (be_program_measure_mode p)")
  case True
  then have "update_whitelist_conf p feature license w = w" by (simp add: update_whitelist_conf_def)
  with True assms show ?thesis
    by (cases w) (auto simp: conf_of_def mode_supported_def Let_def)
next
  case False
  then show ?thesis
    by (cases w) (auto simp: update_whitelist_conf_def conf_of_def Let_def)
qed

text \<open>A change of the global policy reaches the engine: starting from a mode that the trusted module
  supports, the engine follows the new policy, falls back to measuring in software when the
  module cannot do what is asked, and stays in a supported mode; afterwards a signal to a
  process is refused exactly when the policy protects processes and the process is on the list.\<close>

theorem policy_reaches_engine:
  assumes "mode_supported (g_tpcm_feature fs) (en_feature s)" "protect_wf (protect_list (en_protect s))" "pid \<noteq> 0"
  shows "let s' = whitelist_feature_conf_notify_func fs s; p = global_policy fs in
    en_feature s' = conf_of p (g_tpcm_feature fs) (g_valid_license fs)
    \<and> mode_supported (g_tpcm_feature fs) (en_feature s')
    \<and> smeasure_task_kill None pid s' =
        (if be_tsb_flag1 p AND 2 = 2 \<and> pid \<in> protected (protect_list (en_protect s)) then - EAGAIN else 0)"
proof -
  let ?p = "global_policy fs"
  let ?s' = "whitelist_feature_conf_notify_func fs s"
  have s': "en_feature ?s' = conf_of ?p (g_tpcm_feature fs) (g_valid_license fs)"
    "en_protect ?s' = process_protection_conf_notify_func (be_tsb_flag1 ?p) (en_protect s)"
    using update_whitelist_conf_eq [OF assms(1)]
    by (simp_all add: whitelist_feature_conf_notify_func_def get_global_feature_conf_def)
  have bit: "w AND 2 = 0 \<or> w AND 2 = 2" for w :: u32
  proof (cases "bit w 1")
    case True
    then have "w AND 2 = 2" by (intro bit_word_eqI) (auto simp: bit_and_iff bit_2_iff)
    then show ?thesis by simp
  next
    case False
    then have "w AND 2 = 0" by (intro bit_word_eqI) (auto simp: bit_and_iff bit_2_iff)
    then show ?thesis by simp
  qed
  have "is_protect_task (en_protect ?s') pid =
      (if be_tsb_flag1 ?p AND 2 = 2 \<and> pid \<in> protected (protect_list (en_protect s)) then 1 else 0)"
    using bit [of "be_tsb_flag1 ?p"] is_exist_list_iff [OF assms(2,3)]
    by (auto simp: s'(2) process_protection_conf_notify_func_def is_protect_task_def
        HTTC_PROCESS_PROTECT_ON_def HTTC_PROCESS_PROTECT_OFF_def Let_def)
  then show ?thesis
    by (simp add: Let_def s'(1) conf_of_supported smeasure_task_kill_def)
qed

section \<open>A concrete engine\<close>

definition demo_env :: check_env where
  "demo_env = \<lparr>ce_sec_d = True, ce_task = None, ce_comm = [115, 104], ce_cache_check = True, ce_cache_set = True,
     ce_digest = stack_env, ce_arrays = (True, True), ce_pages = (\<lambda>_. True),
     ce_tpcm = (\<lambda>_ _ _ _. \<lparr>tr_ret = 0, tr_res = 0, tr_digest = []\<rparr>), ce_simple = (\<lambda>_ _ _. \<lparr>tr_ret = 0, tr_res = 0, tr_digest = []\<rparr>),
     ce_rbi = (\<lambda>a t. t), ce_rbe = chain_erase, ce_alloc = Some 0, ce_wait = wq_answer DC_FORBID, ce_during = (\<lambda>m. m)\<rparr>"

definition demo_file :: kfile_obj where
  "demo_file = \<lparr>fo_path = Some [47, 97], fo_kfile = short_file 2 [1, 2, 3], fo_attr = \<lparr>fa_mtime = [], fa_size = []\<rparr>\<rparr>"

definition demo_engine :: "nat \<Rightarrow> nat \<Rightarrow> wqueue_mem \<Rightarrow> confile_state \<Rightarrow> engine_state" where
  "demo_engine control mode m cc =
     \<lparr>en_feature = \<lparr>is_enabled = 1, control_mode = control, measure_mode = mode, cache_mode = 0, match_mode = 0\<rparr>,
      en_wl = wl_empty, en_cc = cc, en_protect = protect_initial Map.empty, en_wq = m, en_effects = []\<rparr>"

lemma demo_file_ok:
  "fo_path demo_file = Some [47, 97]" "strlen [47, 97] < LEN_NAME_MAX" "kfile_reads (fo_kfile demo_file) [1, 2, 3]"
  "kfile_progress (fo_kfile demo_file)" "i_size (fo_kfile demo_file) = length [1, 2, 3 :: byte]"
  using short_file_progress [of 2 "[1, 2, 3]"]
  by (simp_all add: demo_file_def strlen_def cstr_def LEN_NAME_MAX_def) (simp add: short_file_def)

lemma demo_env_ok: "ce_sec_d demo_env" "env_ok (ce_digest demo_env)"
  by (simp_all add: demo_env_def stack_env_ok)

lemma demo_engine_wl: "en_wl (demo_engine control mode m cc) = wl_empty" "file_integrity_valid wl_empty \<noteq> 0"
  by (simp_all add: demo_engine_def wl_empty_def)


theorem shared_denial_without_control_witness:
  "\<exists>s'. whitelist_check (\<lambda>_ _. 5) demo_env demo_file WHITELIST_OPERATE_EXEC EXEC_CTL
      (demo_engine 0 2 (wq_busy (obj_name (domain_of demo_env [47, 97]))) cc_empty) = Some (- EACCES, s')"
proof -
  let ?s = "demo_engine 0 2 (wq_busy (obj_name (domain_of demo_env [47, 97]))) cc_empty"
  have "measure_mode (en_feature ?s) = PROCESS_MEASURE_MODE_TCS_MEASURE" "cache_mode (en_feature ?s) = 0"
    "control_mode (en_feature ?s) = 0" "en_wq ?s = wq_busy (obj_name (domain_of demo_env [47, 97]))"
    "ce_wait demo_env = wq_answer DC_FORBID"
    by (simp_all add: demo_engine_def demo_env_def)
  with shared_denial_without_control [OF demo_env_ok(1) demo_file_ok(1)] demo_engine_wl show ?thesis by fastforce
qed

theorem whitelist_check_denial_recorded_witness:
  "\<exists>s' d. whitelist_check (\<lambda>_ _. 5) demo_env demo_file WHITELIST_OPERATE_EXEC EXEC_CTL (demo_engine 1 0 (sched_mem False None) cc_empty)
      = Some (- EACCES, s') \<and> en_effects s' = [Audit TYPE_WHITELIST WHITELIST_OPERATE_EXEC RESULT_FAIL d]"
proof -
  let ?s = "demo_engine 1 0 (sched_mem False None) cc_empty"
  have n: "\<not> listed (\<lambda>_ _. 5) (en_feature ?s) (en_wl ?s) (gb_sm3 [1, 2, 3]) [47, 97]"
    by (simp add: listed_def demo_engine_wl wl_empty_ok)
  have f: "soft_mode (en_feature ?s)" "control_mode (en_feature ?s) = 1" "measure_mode (en_feature ?s) = 0" "en_effects ?s = []"
    by (simp_all add: demo_engine_def soft_mode_def)
  have wl: "file_integrity_valid (en_wl ?s) \<noteq> 0" "wl_inv (\<lambda>_ _. 5) (en_wl ?s)"
    using demo_engine_wl wl_empty_ok(1) by simp_all
  obtain s' where run: "whitelist_check (\<lambda>_ _. 5) demo_env demo_file WHITELIST_OPERATE_EXEC EXEC_CTL ?s = Some (- EACCES, s')"
    using whitelist_check_soft [OF demo_env_ok(1) demo_file_ok(1,2) wl(1) f(1) wl(2) demo_env_ok(2) demo_file_ok(3-5)] n f(2)
    by (auto simp: whitelist_audit_log_def Let_def)
  with whitelist_check_denial_recorded [OF run] f demo_env_ok(1) show ?thesis by auto
qed

theorem critical_file_open_decides_witness:
  "smeasure_file_open (\<lambda>_ _. 5) demo_env (\<lambda>_. Some (short_file 2 [1, 2, 3])) None False demo_file
     (demo_engine 1 0 (sched_mem False None) cc_empty) = Some (0, demo_engine 1 0 (sched_mem False None) cc_empty)"
proof -
  let ?s = "demo_engine 1 0 (sched_mem False None) cc_empty"
  have en: "is_enabled (en_feature ?s) \<noteq> 0" and cc: "en_cc ?s = cc_empty" by (simp_all add: demo_engine_def)
  have b: "confile_bucket (\<lambda>_ _. 5) (en_cc ?s) [47, 97] = []"
    unfolding cc by (simp add: confile_bucket_def cc_empty_def tab_init_def)
  have inv: "cc_inv (\<lambda>_ _. 5) (en_cc ?s)" unfolding cc by (rule cc_empty_inv)
  have sz: "i_size (short_file 2 [1, 2, 3]) = length [1, 2, 3 :: byte]" by (simp add: short_file_def)
  have "length (confile_bucket (\<lambda>_ _. 5) (en_cc ?s) [47, 97]) \<le> 8" unfolding b by simp
  from critical_file_open_decides [where old = None and opn = "\<lambda>_. Some (short_file 2 [1, 2, 3])" and g = "short_file 2 [1, 2, 3]",
      OF en _ demo_env_ok(1) demo_file_ok(1,2) inv this _ demo_env_ok(2) short_file_reads short_file_progress sz]
  show ?thesis unfolding b by simp
qed

theorem policy_reaches_engine_witness:
  "measure_mode (en_feature (whitelist_feature_conf_notify_func
     ((feature_start notify_one)\<lparr>global_policy := zero_policy\<lparr>be_program_measure_mode := 2\<rparr>\<rparr>)
     (demo_engine 1 0 (sched_mem False None) cc_empty))) = PROCESS_MEASURE_MODE_SOFT"
proof -
  have "mode_supported 0 (en_feature (demo_engine 1 0 (sched_mem False None) cc_empty))"
    "protect_wf (protect_list (en_protect (demo_engine 1 0 (sched_mem False None) cc_empty)))"
    by (simp_all add: demo_engine_def mode_supported_def protect_initial_list initial_wf)
  with policy_reaches_engine [of "(feature_start notify_one)\<lparr>global_policy := zero_policy\<lparr>be_program_measure_mode := 2\<rparr>\<rparr>"
      "demo_engine 1 0 (sched_mem False None) cc_empty" 7] show ?thesis
    by (simp add: feature_start_def conf_of_def Let_def)
qed

end
