(* ===== verification/Fac_Policy.thy ===== *)
theory Fac_Policy
  imports Whitelist Command_Table
begin

text \<open>
  The rules of file access control: tsb/kernel/accessctl/policy/list_fac.c. A rule names protected files by
  a pattern and lists privileged processes by the digest of their program; a rule may ask for a
  measurement of the running process, which hashes the program file with its text segment taken
  from the memory of the process.

  Parameters: the files that filp_open returns, the regular expressions of regexp.c (a vendored
  library), the kernel measurement of the dynamic measurement module, the memory map of the current
  process and its pages. A result \<open>None\<close> is a run that reads outside a buffer or does not end.
  Locking is the atomicity of a step.
\<close>

section \<open>Data\<close>

record dac_policy =
  privi_type :: u32
  process_hash :: "byte list"
  dac_sub_name :: "byte list"

record mac_policy =
  list_dac :: "dac_policy list"
  measure_flags :: byte
  mac_type :: byte
  privileged_process_num :: nat
  mac_obj_name :: "byte list"

record fac_list =
  g_list_policy_fac :: "mac_policy list"
  fl_commands :: cmd_table

abbreviation (input) FILE_WRITE_PROTECT :: byte where "FILE_WRITE_PROTECT \<equiv> 0"
abbreviation (input) FILE_READ_PROTECT :: byte where "FILE_READ_PROTECT \<equiv> 1"
abbreviation (input) FILE_PROTECT_MEASURE_ENV :: byte where "FILE_PROTECT_MEASURE_ENV \<equiv> 1"
abbreviation (input) FILE_PROTECT_MEASURE_PROCESS :: byte where "FILE_PROTECT_MEASURE_PROCESS \<equiv> 2"
abbreviation (input) PRIVI_ALL :: u32 where "PRIVI_ALL \<equiv> 0"
abbreviation (input) PRIVI_READ_ONLY :: u32 where "PRIVI_READ_ONLY \<equiv> 1"
abbreviation (input) CONTROL_WRITE :: int where "CONTROL_WRITE \<equiv> 1"
abbreviation (input) CONTROL_READ :: int where "CONTROL_READ \<equiv> 2"
abbreviation (input) ORDINARY :: int where "ORDINARY \<equiv> 0"
abbreviation (input) WILDCARD :: int where "WILDCARD \<equiv> 1"

text \<open>A mapping of the current process, and what its pages hold.\<close>

record vm_area =
  vm_file :: bool
  vm_exec :: bool
  vm_write :: bool
  vm_start :: nat
  vm_end :: nat

text \<open>
  \<open>fe_open magic path\<close> is filp_open, called with the mark on the stack that keeps the open hook
  from checking it; \<open>fe_regexp pattern name\<close> is regexec after regcomp, \<open>None\<close> if the pattern does not
  compile; \<open>fe_mm\<close> is the memory map of the current task, if it has one, with the presence of its
  program file; \<open>fe_pages from n\<close> is the result of get_user_pages and the pages.
\<close>

record fac_env =
  fe_open :: "bool \<Rightarrow> byte list \<Rightarrow> kfile option"
  fe_digest :: digest_env
  fe_regexp :: "byte list \<Rightarrow> byte list \<Rightarrow> int option"
  fe_kernel_memory :: int
  fe_mm :: "(bool \<times> vm_area list) option"
  fe_kmalloc :: bool
  fe_page_array :: bool
  fe_pages :: "nat \<Rightarrow> nat \<Rightarrow> int \<times> byte list option list"

section \<open>Digests of the subject\<close>

definition calc_sub_hash :: "fac_env \<Rightarrow> byte list \<Rightarrow> byte list \<Rightarrow> bool \<Rightarrow> int \<times> byte list" where
  "calc_sub_hash env fullpath hash is_file_open =
     (case fe_open env is_file_open fullpath of None \<Rightarrow> (- EINVAL, hash)
      | Some fp \<Rightarrow> digest_cal (fe_digest env) fp hash)"

text \<open>The file before the text segment. A read that fails hands a negative length to SM3; a read of
  no bytes is repeated.\<close>

partial_function (option) hash_before :: "kfile \<Rightarrow> nat \<Rightarrow> nat \<Rightarrow> sm3_context option \<Rightarrow> (nat \<times> sm3_context option) option" where
  "hash_before f file_offset offset ctx =
     (if offset < file_offset
      then (case kernel_read f offset 4096 of Inl e \<Rightarrow> None
            | Inr d \<Rightarrow> hash_before f file_offset (offset + length d) (snd (sm3_update ctx (Some d))))
      else Some (offset, ctx))"

fun hash_pages :: "nat \<Rightarrow> nat \<Rightarrow> byte list list \<Rightarrow> sm3_context option \<Rightarrow> sm3_context option" where
  "hash_pages off len [] ctx = ctx"
| "hash_pages off len (page # pages) ctx =
     (let plen = min len (PAGE_SIZE - off)
      in hash_pages 0 (len - plen) pages (snd (sm3_update ctx (Some (take plen (drop off page))))))"

partial_function (option) hash_after :: "kfile \<Rightarrow> nat \<Rightarrow> sm3_context option \<Rightarrow> sm3_context option option" where
  "hash_after f offset ctx =
     (case kernel_read f offset 4096 of Inl e \<Rightarrow> Some ctx
      | Inr d \<Rightarrow> if d = [] then Some ctx else hash_after f (offset + length d) (snd (sm3_update ctx (Some d))))"

text \<open>
  The file with the mapping of \<open>len\<close> bytes at \<open>from\<close> in place of its bytes from \<open>file_offset\<close> on. The
  buffer from kmalloc is not tested: its failure is a fault.
\<close>

definition task_cal_mem_file_hash ::
  "fac_env \<Rightarrow> byte list \<Rightarrow> nat \<Rightarrow> nat \<Rightarrow> nat \<Rightarrow> byte list \<Rightarrow> bool \<Rightarrow> (int \<times> byte list) option" where
  "task_cal_mem_file_hash env fullpath from len file_offset hash is_file_open =
     (case fe_open env is_file_open fullpath of None \<Rightarrow> Some (- ENOMEM, hash)
      | Some f \<Rightarrow>
          if \<not> fe_kmalloc env then None
          else (case hash_before f file_offset 0 (snd (sm3_init (Some (stack_ctx (fe_digest env))))) of
                  None \<Rightarrow> None
                | Some (offset, ctx) \<Rightarrow>
                    let off = from mod PAGE_SIZE;
                        npages = (off + len + PAGE_SIZE - 1) div PAGE_SIZE
                    in if \<not> fe_page_array env then Some (- ENOMEM, hash)
                       else (case fe_pages env from npages of (ret, pages) \<Rightarrow>
                         if ret \<noteq> int npages then Some (- ENOMEM, hash)
                         else if None \<in> set pages then Some (- ENOMEM, hash)
                         else (case hash_after f (offset + len) (hash_pages off len (map the pages) ctx) of
                                 None \<Rightarrow> None
                               | Some ctx' \<Rightarrow> Some (0, fst (snd (sm3_finish ctx' hash)))))))"

section \<open>Measuring the current process\<close>

text \<open>
  The first executable mapping that is not writable is measured. The size of the last mapping before
  it that cannot be executed is taken for the offset of the text in the file. A size that does
  not fit an int is a fault.
\<close>

definition vm_size :: "vm_area \<Rightarrow> nat" where
  "vm_size v = vm_end v - vm_start v"

fun measure_vmas :: "fac_env \<Rightarrow> sec_domain \<Rightarrow> bool \<Rightarrow> nat \<Rightarrow> vm_area list \<Rightarrow> int option" where
  "measure_vmas env sec_d is_file_open file_offset [] = Some 0"
| "measure_vmas env sec_d is_file_open file_offset (v # vs) =
     (if \<not> vm_file v \<or> vm_exec v \<and> vm_write v then measure_vmas env sec_d is_file_open file_offset vs
      else if vm_size v \<ge> 2 ^ 31 then None
      else if vm_exec v
      then map_option (\<lambda>(ret, hash). if ret \<noteq> 0 \<or> \<not> memeq (sub_hash sec_d) hash LEN_HASH then -1 else 0)
             (task_cal_mem_file_hash env (sub_string sec_d) (vm_start v) (vm_size v) file_offset (replicate LEN_HASH 0) is_file_open)
      else measure_vmas env sec_d is_file_open (vm_size v) vs)"

definition measure_process :: "fac_env \<Rightarrow> sec_domain \<Rightarrow> bool \<Rightarrow> int option" where
  "measure_process env sec_d is_file_open =
     (case fe_mm env of None \<Rightarrow> Some (-1)
      | Some (exe, vmas) \<Rightarrow>
          if \<not> exe then Some (-1) else if vmas = [] then Some (-1)
          else measure_vmas env sec_d is_file_open 0 vmas)"

section \<open>Decisions\<close>

text \<open>A privileged process is found by the digest of its program.\<close>

definition dac_privilege :: "mac_policy \<Rightarrow> byte list \<Rightarrow> int" where
  "dac_privilege m h =
     (case find (\<lambda>d. memeq (process_hash d) h LEN_HASH) (list_dac m) of None \<Rightarrow> -1
      | Some d \<Rightarrow> if privi_type d = PRIVI_ALL then 0 else if privi_type d = PRIVI_READ_ONLY then CONTROL_WRITE else -1)"

definition query_dac_policy_state :: "fac_env \<Rightarrow> mac_policy \<Rightarrow> sec_domain \<Rightarrow> bool \<Rightarrow> int option" where
  "query_dac_policy_state env m sec_d is_file_open =
     (let ret = dac_privilege m (sub_hash sec_d)
      in if ret < 0 then Some ret
         else if measure_flags m AND FILE_PROTECT_MEASURE_ENV \<noteq> 0 \<and> fe_kernel_memory env \<noteq> 0 then Some (-1)
         else if measure_flags m AND FILE_PROTECT_MEASURE_PROCESS \<noteq> 0
         then map_option (\<lambda>r. if r < 0 then -1 else ret) (measure_process env sec_d is_file_open)
         else Some ret)"

definition mac_wildcard_cmp :: "fac_env \<Rightarrow> mac_policy \<Rightarrow> byte list \<Rightarrow> int \<Rightarrow> int" where
  "mac_wildcard_cmp env m name type =
     (if type = ORDINARY
      then (if memeq (cstr (mac_obj_name m)) name (strlen (mac_obj_name m)) then 0 else 1)
      else if type = WILDCARD
      then (case fe_regexp env (cstr (mac_obj_name m)) (cstr name) of None \<Rightarrow> -1 | Some r \<Rightarrow> if r \<noteq> 0 then 0 else -1)
      else -1)"

text \<open>What follows when a rule is found: the digest of the subject, its privileges, and the protection.\<close>

definition apply_rule :: "fac_env \<Rightarrow> mac_policy \<Rightarrow> sec_domain \<Rightarrow> bool \<Rightarrow> (int \<times> sec_domain) option" where
  "apply_rule env m sec_d is_file_open =
     (case calc_sub_hash env (sub_string sec_d) (replicate LEN_HASH 0) is_file_open of (ret, hash) \<Rightarrow>
        if ret < 0 then Some (0, sec_d)
        else let sec_d' = sec_d\<lparr>sub_hash := hash\<rparr>;
                 control = (if mac_type m = FILE_READ_PROTECT then CONTROL_READ else CONTROL_WRITE)
             in if privileged_process_num m > 0
                then map_option (\<lambda>r. (if r \<ge> 0 then r else control, sec_d')) (query_dac_policy_state env m sec_d' is_file_open)
                else Some (control, sec_d'))"

definition query_fac_policy_state :: "fac_env \<Rightarrow> sec_domain \<Rightarrow> bool \<Rightarrow> fac_list \<Rightarrow> (int \<times> sec_domain) option" where
  "query_fac_policy_state env sec_d is_file_open s =
     (case find (\<lambda>m. mac_wildcard_cmp env m (obj_name sec_d) WILDCARD = 0) (g_list_policy_fac s) of
        None \<Rightarrow> Some (0, sec_d)
      | Some m \<Rightarrow> apply_rule env m sec_d is_file_open)"

text \<open>A directory is protected by the rules for what lies below it. The pattern is compared without
  its first character.\<close>

definition dir_segment :: "sec_domain \<Rightarrow> byte list" where
  "dir_segment d =
     (let name = memcpy_at (replicate LEN_NAME_MAX 0) 0 (take (nat (obj_len d)) (obj_name d))
      in if obj_len d < int LEN_NAME_MAX then name[nat (obj_len d) := 47] else name)"

definition query_dir_segment_fac_policy_state :: "fac_env \<Rightarrow> sec_domain \<Rightarrow> bool \<Rightarrow> fac_list \<Rightarrow> (int \<times> sec_domain) option" where
  "query_dir_segment_fac_policy_state env sec_d is_file_open s =
     (let name = dir_segment sec_d
      in case find (\<lambda>m. strncmp (drop 1 (mac_obj_name m)) name (strlen name) = 0) (g_list_policy_fac s) of
           None \<Rightarrow> Some (0, sec_d)
         | Some m \<Rightarrow> apply_rule env m sec_d is_file_open)"

section \<open>The list of rules\<close>

definition is_exist_mac_policy :: "byte list \<Rightarrow> mac_policy list \<Rightarrow> int" where
  "is_exist_mac_policy name ms = (if list_ex (\<lambda>m. strcmp (mac_obj_name m) name = 0) ms then 1 else 0)"

definition is_empty_mac_policy :: "fac_list \<Rightarrow> int" where
  "is_empty_mac_policy s = (if g_list_policy_fac s \<noteq> [] then 0 else -1)"

text \<open>The policy file: a header of eight bytes, then the rules, each with its privileged processes.\<close>

definition ITEM_SIZE :: nat where "ITEM_SIZE = 260"
definition PROCESS_SIZE :: nat where "PROCESS_SIZE = 292"

definition item_process_num :: "byte list \<Rightarrow> nat" where
  "item_process_num p = be16 (p ! 2) (p ! 3)"

definition parse_process :: "byte list \<Rightarrow> dac_policy" where
  "parse_process p = \<lparr>privi_type = be32 p, process_hash = take LEN_HASH (drop 260 p), dac_sub_name = take 256 (drop 4 p)\<rparr>"

definition parse_processes :: "nat \<Rightarrow> byte list \<Rightarrow> dac_policy list" where
  "parse_processes n p = map (\<lambda>i. parse_process (drop (i * PROCESS_SIZE) p)) [0..<n]"

definition parse_item :: "byte list \<Rightarrow> mac_policy" where
  "parse_item p = \<lparr>list_dac = parse_processes (item_process_num p) (drop ITEM_SIZE p), measure_flags = p ! 0, mac_type = p ! 1,
     privileged_process_num = item_process_num p, mac_obj_name = take 256 (drop 4 p)\<rparr>"

text \<open>\<open>kz p\<close>: the allocations for the rule at \<open>p\<close> succeed; they are not tested.\<close>

function load_items :: "(byte list \<Rightarrow> bool) \<Rightarrow> byte list \<Rightarrow> mac_policy list \<Rightarrow> mac_policy list option" where
  "load_items kz p ms =
     (if p = [] then Some ms
      else if length p < ITEM_SIZE then None
      else let next = drop (ITEM_SIZE + item_process_num p * PROCESS_SIZE) p
           in if is_exist_mac_policy (drop 4 p) ms \<noteq> 0 then load_items kz next ms
              else if length p < ITEM_SIZE + item_process_num p * PROCESS_SIZE \<or> \<not> kz p then None
              else load_items kz next (ms @ [parse_item p]))"
  by pat_completeness auto

termination load_items
  by (relation "measure (\<lambda>(kz, p, ms). length p)") (auto simp: ITEM_SIZE_def)

declare load_items.simps [simp del]

definition load_fac_policy :: "(byte list \<Rightarrow> bool) \<Rightarrow> bool \<Rightarrow> kfile option \<Rightarrow> fac_list \<Rightarrow> (int \<times> fac_list) option" where
  "load_fac_policy kz vm f s =
     (case f of None \<Rightarrow> Some (-1, s)
      | Some f \<Rightarrow>
          if i_size f = 0 \<or> \<not> vm then Some (- ENOMEM, s)
          else (case kernel_read f 0 (i_size f) of Inl e \<Rightarrow> Some (- ENOMEM, s)
                | Inr d \<Rightarrow>
                    if length d \<noteq> i_size f then Some (- ENOMEM, s)
                    else map_option (\<lambda>ms. (0, s\<lparr>g_list_policy_fac := ms\<rparr>)) (load_items kz (drop 8 d) (g_list_policy_fac s))))"

definition clean_list_fac :: "fac_list \<Rightarrow> fac_list" where
  "clean_list_fac s = s\<lparr>g_list_policy_fac := []\<rparr>"

definition ioctl_reload_file_protect_policy ::
  "(byte list \<Rightarrow> bool) \<Rightarrow> bool \<Rightarrow> kfile option \<Rightarrow> fac_list \<Rightarrow> (int \<times> fac_list) option" where
  "ioctl_reload_file_protect_policy kz vm f s =
     map_option (\<lambda>(r, s'). (0, s')) (load_fac_policy kz vm f (clean_list_fac s))"

definition list_fac_init :: "(byte list \<Rightarrow> bool) \<Rightarrow> bool \<Rightarrow> kfile option \<Rightarrow> fac_list \<Rightarrow> fac_list option" where
  "list_fac_init kz vm f s =
     map_option (\<lambda>(r, s'). s'\<lparr>fl_commands := snd (httcsec_io_command_register COMMAND_RELOAD_FILE_PROTECT_POLICY
         ''ioctl_reload_file_protect_policy'' (fl_commands s'))\<rparr>)
       (load_fac_policy kz vm f s)"

definition list_fac_exit :: "fac_list \<Rightarrow> fac_list" where
  "list_fac_exit s =
     clean_list_fac (s\<lparr>fl_commands := snd (httcsec_io_command_unregister COMMAND_RELOAD_FILE_PROTECT_POLICY
         ''ioctl_reload_file_protect_policy'' (fl_commands s))\<rparr>)"

section \<open>Hashing a process\<close>

text \<open>A file whose reads return all that is there.\<close>

definition kfile_exact :: "kfile \<Rightarrow> byte list \<Rightarrow> bool" where
  "kfile_exact f c \<longleftrightarrow> (\<forall>off cnt. kernel_read f off cnt = Inr (take cnt (drop off c)))"

lemma sm3_feed:
  assumes "sm3_fed m c" "length d < 2 ^ 32"
  obtains c' where "snd (sm3_update (Some c) (Some d)) = Some c'" "sm3_fed (m @ d) c'"
proof (cases "d = []")
  case True
  then show ?thesis using assms(1) that [of c] by (simp add: sm3_update_def)
next
  case False
  then show ?thesis using sm3_update_ok [OF assms(1) False assms(2)] that by (metis snd_conv)
qed

lemma page_length [simp]: "length (take 4096 xs) < 2 ^ 32" "length (take (min n (PAGE_SIZE - k)) xs) < 2 ^ 32"
  by (simp_all add: PAGE_SIZE_def)

lemma hash_before_exact:
  assumes "kfile_exact f c" "fo \<le> length c" "4096 dvd fo" "4096 dvd off" "off \<le> fo" "sm3_fed (take off c) ctx"
  shows "\<exists>ctx'. hash_before f fo off (Some ctx) = Some (fo, Some ctx') \<and> sm3_fed (take fo c) ctx'"
  using assms(4-6)
proof (induction "fo - off" arbitrary: off ctx rule: less_induct)
  case less
  show ?case
  proof (cases "off < fo")
    case False
    with less.prems show ?thesis by (subst hash_before.simps) auto
  next
    case True
    have le: "off + 4096 \<le> fo"
      using True less.prems(1) assms(3) by (auto elim!: dvdE)
    then have d: "length (take 4096 (drop off c)) = 4096" using assms(2) by simp
    obtain ctx' where ctx': "snd (sm3_update (Some ctx) (Some (take 4096 (drop off c)))) = Some ctx'"
      "sm3_fed (take off c @ take 4096 (drop off c)) ctx'"
      by (rule sm3_feed [OF less.prems(3) page_length(1)])
    have "sm3_fed (take (off + 4096) c) ctx'" using ctx'(2) by (simp add: take_add)
    moreover have "4096 dvd off + 4096" using less.prems(1) by simp
    ultimately obtain x where "hash_before f fo (off + 4096) (Some ctx') = Some (fo, Some x)" "sm3_fed (take fo c) x"
      using less.hyps [of "off + 4096" ctx'] True le diff_less_mono2 [of off "off + 4096" fo] by auto
    moreover have "hash_before f fo off (Some ctx) = hash_before f fo (off + 4096) (Some ctx')"
      using True ctx'(1) d assms(1) by (subst hash_before.simps) (simp add: kfile_exact_def)
    ultimately show ?thesis by auto
  qed
qed

text \<open>A mapping that is larger than the file that is read for it: the first loop does not end.\<close>

lemma hash_before_stuck:
  assumes "kernel_read f off 4096 = Inr []" "off < fo"
  shows "hash_before f fo off ctx = None"
proof -
  have "\<not> (g = f \<and> off' = off \<and> off' < fo')" if "hash_before g fo' off' x = Some y" for g fo' off' x y
    using that
    by (rule hash_before.raw_induct [where P = "\<lambda>g fo' off' x y. \<not> (g = f \<and> off' = off \<and> off' < fo')", rotated])
       (use assms(1) in \<open>auto split: if_splits sum.splits\<close>)
  then show ?thesis using assms(2) by (metis not_None_eq)
qed

lemma hash_pages_fed:
  assumes "sm3_fed m ctx" "\<forall>p\<in>set pages. length p = PAGE_SIZE" "off < PAGE_SIZE" "off + len \<le> PAGE_SIZE * length pages"
  shows "\<exists>ctx'. hash_pages off len pages (Some ctx) = Some ctx' \<and> sm3_fed (m @ take len (drop off (concat pages))) ctx'"
  using assms
proof (induction pages arbitrary: off len m ctx)
  case Nil
  then show ?case by simp
next
  case (Cons p ps)
  let ?plen = "min len (PAGE_SIZE - off)"
  have p: "length p = PAGE_SIZE" using Cons.prems(2) by simp
  obtain c1 where c1: "snd (sm3_update (Some ctx) (Some (take ?plen (drop off p)))) = Some c1"
    "sm3_fed (m @ take ?plen (drop off p)) c1"
    by (rule sm3_feed [OF Cons.prems(1) page_length(2)])
  have le: "0 + (len - ?plen) \<le> PAGE_SIZE * length ps"
    using Cons.prems(3,4) by (simp add: min_def) linarith
  have ps: "\<forall>p\<in>set ps. length p = PAGE_SIZE" and pos: "0 < PAGE_SIZE"
    using Cons.prems(2) by (simp_all add: PAGE_SIZE_def)
  from Cons.IH [OF c1(2) ps pos le] obtain c2 where "hash_pages 0 (len - ?plen) ps (Some c1) = Some c2"
    "sm3_fed ((m @ take ?plen (drop off p)) @ take (len - ?plen) (drop 0 (concat ps))) c2" by blast
  moreover have "take len (drop off (concat (p # ps))) = take ?plen (drop off p) @ take (len - ?plen) (concat ps)"
    using p Cons.prems(3) by (auto simp: min_def)
  ultimately show ?case using c1(1) by (simp add: Let_def)
qed

lemma take_drop_length: "take n xs @ drop (length (take n xs)) xs = xs"
  by (cases "length xs \<le> n") simp_all

lemma hash_after_exact:
  assumes "kfile_exact f c" "sm3_fed m ctx"
  shows "\<exists>ctx'. hash_after f off (Some ctx) = Some (Some ctx') \<and> sm3_fed (m @ drop off c) ctx'"
  using assms(2)
proof (induction "length c - off" arbitrary: off m ctx rule: less_induct)
  case less
  let ?d = "take 4096 (drop off c)"
  have rd: "kernel_read f off 4096 = Inr ?d" using assms(1) by (simp add: kfile_exact_def)
  show ?case
  proof (cases "?d = []")
    case True
    with rd less.prems show ?thesis by (subst hash_after.simps) auto
  next
    case False
    then have lt: "off < length c" by auto
    obtain c1 where c1: "snd (sm3_update (Some ctx) (Some ?d)) = Some c1" "sm3_fed (m @ ?d) c1"
      by (rule sm3_feed [OF less.prems page_length(1)])
    have "length c - (off + length ?d) < length c - off" using lt by simp
    from less.hyps [OF this c1(2)]
    obtain c2 where "hash_after f (off + length ?d) (Some c1) = Some (Some c2)" "sm3_fed ((m @ ?d) @ drop (off + length ?d) c) c2"
      by blast
    moreover have "?d @ drop (off + length ?d) c = drop off c"
      using take_drop_length [of 4096 "drop off c"] by (simp add: add.commute)
    ultimately show ?thesis
      using False c1(1) rd by (subst hash_after.simps) auto
  qed
qed

text \<open>The file with the memory in place of its text.\<close>

definition mem_image :: "byte list \<Rightarrow> nat \<Rightarrow> nat \<Rightarrow> nat \<Rightarrow> byte list list \<Rightarrow> byte list" where
  "mem_image c fo from len pages = take fo c @ take len (drop (from mod PAGE_SIZE) (concat pages)) @ drop (fo + len) c"

definition pages_read :: "fac_env \<Rightarrow> nat \<Rightarrow> nat \<Rightarrow> byte list list \<Rightarrow> bool" where
  "pages_read env from len pages \<longleftrightarrow> fe_kmalloc env \<and> fe_page_array env \<and> env_ok (fe_digest env)
     \<and> (\<forall>p\<in>set pages. length p = PAGE_SIZE)
     \<and> length pages = (from mod PAGE_SIZE + len + PAGE_SIZE - 1) div PAGE_SIZE
     \<and> fe_pages env from (length pages) = (int (length pages), map Some pages)"

lemma task_cal_mem_file_hash_ok:
  assumes "fe_open env opn path = Some f" "kfile_exact f c" "fo \<le> length c" "4096 dvd fo" "pages_read env from len pages"
    and "length hash = 32"
  shows "task_cal_mem_file_hash env path from len fo hash opn = Some (0, gb_sm3 (mem_image c fo from len pages))"
proof -
  have e: "fe_kmalloc env" "fe_page_array env" "\<forall>p\<in>set pages. length p = PAGE_SIZE"
    and n: "(from mod PAGE_SIZE + len + PAGE_SIZE - 1) div PAGE_SIZE = length pages"
    and g: "fe_pages env from (length pages) = (int (length pages), map Some pages)"
    and b: "length (buffer (stack_ctx (fe_digest env))) = 64"
    using assms(5) by (auto simp: pages_read_def env_ok_def)
  obtain c0 where c0: "sm3_init (Some (stack_ctx (fe_digest env))) = (0, Some c0)" "sm3_fed [] c0"
    using sm3_init_fed [OF b] by blast
  obtain c1 where c1: "hash_before f fo 0 (Some c0) = Some (fo, Some c1)" "sm3_fed (take fo c) c1"
    using hash_before_exact [OF assms(2-4), of 0 c0] c0(2) by auto
  have off: "from mod PAGE_SIZE < PAGE_SIZE" by (simp add: PAGE_SIZE_def)
  have "from mod PAGE_SIZE + len \<le> PAGE_SIZE * length pages"
    using div_mult_mod_eq [of "from mod PAGE_SIZE + len + PAGE_SIZE - 1" PAGE_SIZE]
      mod_less_divisor [of PAGE_SIZE "from mod PAGE_SIZE + len + PAGE_SIZE - 1"]
    unfolding n by (simp add: PAGE_SIZE_def)
  from hash_pages_fed [OF c1(2) e(3) off this] obtain c2
    where c2: "hash_pages (from mod PAGE_SIZE) len pages (Some c1) = Some c2"
      "sm3_fed (take fo c @ take len (drop (from mod PAGE_SIZE) (concat pages))) c2" by blast
  obtain c3 where c3: "hash_after f (fo + len) (Some c2) = Some (Some c3)" "sm3_fed (mem_image c fo from len pages) c3"
    using hash_after_exact [OF assms(2) c2(2), of "fo + len"] by (auto simp: mem_image_def)
  obtain c4 where "sm3_finish (Some c3) hash = (0, gb_sm3 (mem_image c fo from len pages), Some c4)"
    by (rule sm3_finish_ok [OF c3(2) assms(6)])
  moreover have "map the (map Some pages) = pages" by (simp add: map_idI)
  ultimately show ?thesis
    using assms(1) c0(1) c1(1) c2(1) c3(1) e n g by (simp add: task_cal_mem_file_hash_def Let_def comp_def)
qed

text \<open>What the mappings before the text leave as its offset in the file.\<close>

definition text_offset :: "nat \<Rightarrow> vm_area list \<Rightarrow> nat" where
  "text_offset fo vs = fold (\<lambda>v fo. if vm_file v \<and> \<not> vm_exec v then vm_size v else fo) vs fo"

definition no_text :: "vm_area list \<Rightarrow> bool" where
  "no_text vs \<longleftrightarrow> (\<forall>v\<in>set vs. vm_file v \<longrightarrow> vm_exec v \<and> vm_write v \<or> \<not> vm_exec v \<and> vm_size v < 2 ^ 31)"

lemma measure_vmas_skip:
  "no_text pre \<Longrightarrow> measure_vmas env d opn fo (pre @ vs) = measure_vmas env d opn (text_offset fo pre) vs"
  by (induction pre arbitrary: fo) (auto simp: no_text_def text_offset_def)

lemma mem_image_intact:
  assumes "take len (drop (from mod PAGE_SIZE) (concat pages)) = take len (drop fo c)"
  shows "mem_image c fo from len pages = c"
  using assms by (simp add: mem_image_def add.commute [of fo] drop_drop [symmetric] del: drop_drop)

section \<open>What a rule decides\<close>

definition mac_wf :: "mac_policy \<Rightarrow> bool" where
  "mac_wf m \<longleftrightarrow> privileged_process_num m = length (list_dac m) \<and> length (list_dac m) < 2 ^ 16
     \<and> length (mac_obj_name m) = 256 \<and> 0 \<in> set (mac_obj_name m)
     \<and> (\<forall>d\<in>set (list_dac m). length (process_hash d) = LEN_HASH \<and> length (dac_sub_name d) = 256)"

text \<open>The measurements that a rule asks for: \<open>Some True\<close> if all of them pass.\<close>

definition measure_rule :: "fac_env \<Rightarrow> mac_policy \<Rightarrow> sec_domain \<Rightarrow> bool \<Rightarrow> bool option" where
  "measure_rule env m d opn =
     (if measure_flags m AND FILE_PROTECT_MEASURE_ENV \<noteq> 0 \<and> fe_kernel_memory env \<noteq> 0 then Some False
      else if measure_flags m AND FILE_PROTECT_MEASURE_PROCESS \<noteq> 0 then map_option (\<lambda>r. r \<ge> 0) (measure_process env d opn)
      else Some True)"

text \<open>The specification: the first privilege of the program, if the measurements pass, else the protection.\<close>

definition rule_verdict :: "mac_policy \<Rightarrow> byte list \<Rightarrow> bool \<Rightarrow> int" where
  "rule_verdict m h measured =
     (let control = (if mac_type m = FILE_READ_PROTECT then CONTROL_READ else CONTROL_WRITE)
      in case find (\<lambda>d. process_hash d = h) (list_dac m) of None \<Rightarrow> control
         | Some d \<Rightarrow> if \<not> measured then control else if privi_type d = PRIVI_ALL then 0
                     else if privi_type d = PRIVI_READ_ONLY then CONTROL_WRITE else control)"

lemma dac_privilege_find:
  assumes "mac_wf m" "length h = LEN_HASH"
  shows "dac_privilege m h = (case find (\<lambda>d. process_hash d = h) (list_dac m) of None \<Rightarrow> -1
    | Some d \<Rightarrow> if privi_type d = PRIVI_ALL then 0 else if privi_type d = PRIVI_READ_ONLY then CONTROL_WRITE else -1)"
proof -
  have "find (\<lambda>d. memeq (process_hash d) h LEN_HASH) (list_dac m) = find (\<lambda>d. process_hash d = h) (list_dac m)"
    by (rule find_cong) (use assms in \<open>auto simp: mac_wf_def memeq_def\<close>)
  then show ?thesis by (simp add: dac_privilege_def)
qed

lemma query_dac_measured:
  assumes "measure_rule env m d opn = Some ok"
  shows "query_dac_policy_state env m d opn =
    Some (if dac_privilege m (sub_hash d) \<ge> 0 \<and> ok then dac_privilege m (sub_hash d) else -1)"
proof -
  define p where "p = dac_privilege m (sub_hash d)"
  have "p = -1 \<or> 0 \<le> p"
    by (simp add: p_def dac_privilege_def split: option.splits)
  then show ?thesis
  proof
    assume "p = -1"
    then show ?thesis by (simp add: query_dac_policy_state_def Let_def p_def [symmetric])
  next
    assume "0 \<le> p"
    with assms show ?thesis
      unfolding query_dac_policy_state_def measure_rule_def Let_def p_def [symmetric]
      by (cases "measure_process env d opn") (auto split: if_splits)
  qed
qed

lemma apply_rule_verdict:
  assumes "mac_wf m" "fe_open env opn (sub_string d) = Some f"
    and "env_ok (fe_digest env)" "kfile_reads f c" "i_size f = length c" "kfile_progress f"
    and "measure_rule env m (d\<lparr>sub_hash := gb_sm3 c\<rparr>) opn = Some ok"
  shows "apply_rule env m d opn = Some (rule_verdict m (gb_sm3 c) ok, d\<lparr>sub_hash := gb_sm3 c\<rparr>)"
proof -
  have h: "length (gb_sm3 c) = LEN_HASH" by (simp add: length_gb_sm3 LEN_HASH_def)
  have cal: "calc_sub_hash env (sub_string d) (replicate LEN_HASH 0) opn = (0, gb_sm3 c)"
    using digest_cal_sm3 [OF assms(3-6)] assms(2) by (simp add: calc_sub_hash_def LEN_HASH_def)
  have "privileged_process_num m = 0 \<Longrightarrow> list_dac m = []" using assms(1) by (simp add: mac_wf_def)
  then show ?thesis
    using query_dac_measured [OF assms(7)] dac_privilege_find [OF assms(1) h] cal
    by (auto simp: apply_rule_def rule_verdict_def Let_def split: option.splits)
qed

lemma fac_query_cases:
  assumes "\<forall>m\<in>set (g_list_policy_fac s). mac_wf m"
    and "fe_open env opn (sub_string d) = Some f" "env_ok (fe_digest env)" "kfile_reads f c" "i_size f = length c" "kfile_progress f"
    and "\<forall>m\<in>set (g_list_policy_fac s). measure_rule env m (d\<lparr>sub_hash := gb_sm3 c\<rparr>) opn = Some (ok m)"
  shows "query_fac_policy_state env d opn s =
    (case find (\<lambda>m. mac_wildcard_cmp env m (obj_name d) WILDCARD = 0) (g_list_policy_fac s) of
       None \<Rightarrow> Some (0, d)
     | Some m \<Rightarrow> Some (rule_verdict m (gb_sm3 c) (ok m), d\<lparr>sub_hash := gb_sm3 c\<rparr>))"
proof (cases "find (\<lambda>m. mac_wildcard_cmp env m (obj_name d) WILDCARD = 0) (g_list_policy_fac s)")
  case None
  then show ?thesis by (simp add: query_fac_policy_state_def)
next
  case (Some m)
  then have "m \<in> set (g_list_policy_fac s)" by (auto simp: find_Some_iff)
  with apply_rule_verdict [OF _ assms(2-6), of m "ok m"] assms(1,7) Some show ?thesis
    by (simp add: query_fac_policy_state_def)
qed

section \<open>The policy file\<close>

definition encode_dac :: "dac_policy \<Rightarrow> byte list" where
  "encode_dac d = PUT_ULONG_BE (privi_type d) @ dac_sub_name d @ process_hash d"

definition encode_mac :: "mac_policy \<Rightarrow> byte list" where
  "encode_mac m = [measure_flags m, mac_type m, of_nat (length (list_dac m) div 256), of_nat (length (list_dac m))]
     @ mac_obj_name m @ concat (map encode_dac (list_dac m))"

text \<open>Of several rules for one name the first one counts.\<close>

definition add_rule :: "mac_policy list \<Rightarrow> mac_policy \<Rightarrow> mac_policy list" where
  "add_rule ms m = (if list_ex (\<lambda>x. cstr (mac_obj_name x) = cstr (mac_obj_name m)) ms then ms else ms @ [m])"

lemma cstr_append_terminated: "0 \<in> set b \<Longrightarrow> cstr (b @ r) = cstr b"
  by (induction b) (auto simp: cstr_Cons)

lemma parse_process_encode:
  assumes "length (process_hash d) = LEN_HASH" "length (dac_sub_name d) = 256"
  shows "parse_process (encode_dac d @ r) = d" "length (encode_dac d) = PROCESS_SIZE"
proof -
  have "length (PUT_ULONG_BE (privi_type d)) = 4" by (simp add: PUT_ULONG_BE_def)
  then show "length (encode_dac d) = PROCESS_SIZE" "parse_process (encode_dac d @ r) = d"
    using assms be32_bytes by (simp_all add: encode_dac_def parse_process_def PROCESS_SIZE_def LEN_HASH_def)
qed

lemma parse_processes_encode:
  assumes "\<forall>d\<in>set ds. length (process_hash d) = LEN_HASH \<and> length (dac_sub_name d) = 256"
  shows "parse_processes (length ds) (concat (map encode_dac ds) @ r) = ds"
    "length (concat (map encode_dac ds)) = length ds * PROCESS_SIZE"
proof -
  show "parse_processes (length ds) (concat (map encode_dac ds) @ r) = ds"
    using assms
  proof (induction ds)
    case Nil
    then show ?case by (simp add: parse_processes_def)
  next
    case (Cons d ds)
    note p = parse_process_encode [of d]
    have "drop (Suc i * PROCESS_SIZE) (encode_dac d @ q) = drop (i * PROCESS_SIZE) q" for i q
      using p(2) Cons.prems by simp
    with Cons p show ?case
      by (simp add: parse_processes_def map_upt_Suc del: upt_Suc)
  qed
  show "length (concat (map encode_dac ds)) = length ds * PROCESS_SIZE"
    using assms by (induction ds) (simp_all add: parse_process_encode)
qed

lemma parse_item_encode:
  assumes "mac_wf m"
  shows "parse_item (encode_mac m @ r) = m" "length (encode_mac m) = ITEM_SIZE + item_process_num (encode_mac m @ r) * PROCESS_SIZE"
    "item_process_num (encode_mac m @ r) = length (list_dac m)"
    "cstr (drop 4 (encode_mac m @ r)) = cstr (mac_obj_name m)"
proof -
  have wf: "privileged_process_num m = length (list_dac m)" "length (list_dac m) < 2 ^ 16" "length (mac_obj_name m) = 256"
    "0 \<in> set (mac_obj_name m)" "\<forall>d\<in>set (list_dac m). length (process_hash d) = LEN_HASH \<and> length (dac_sub_name d) = 256"
    using assms unfolding mac_wf_def by blast+
  show n: "item_process_num (encode_mac m @ r) = length (list_dac m)"
    using wf(2) by (simp add: item_process_num_def encode_mac_def be16_def unat_of_nat)
  show "length (encode_mac m) = ITEM_SIZE + item_process_num (encode_mac m @ r) * PROCESS_SIZE"
    unfolding n using wf(3) parse_processes_encode(2) [OF wf(5)] by (simp add: encode_mac_def ITEM_SIZE_def)
  show "cstr (drop 4 (encode_mac m @ r)) = cstr (mac_obj_name m)"
    using cstr_append_terminated [OF wf(4)] by (simp add: encode_mac_def)
  have "drop ITEM_SIZE (encode_mac m @ r) = concat (map encode_dac (list_dac m)) @ r"
    using wf(3) by (simp add: encode_mac_def ITEM_SIZE_def)
  then show "parse_item (encode_mac m @ r) = m"
    using wf n parse_processes_encode(1) [OF wf(5), of r]
    by (simp add: parse_item_def) (simp add: encode_mac_def)
qed

lemma load_items_step:
  assumes "ITEM_SIZE + item_process_num p * PROCESS_SIZE \<le> length p" "kz p"
  shows "load_items kz p ms = load_items kz (drop (ITEM_SIZE + item_process_num p * PROCESS_SIZE) p)
    (if is_exist_mac_policy (drop 4 p) ms \<noteq> 0 then ms else ms @ [parse_item p])"
proof -
  have "p \<noteq> []" "\<not> length p < ITEM_SIZE" using assms(1) by (auto simp: ITEM_SIZE_def)
  with assms show ?thesis by (subst load_items.simps) (simp add: Let_def)
qed

lemma load_fac_policy_ok:
  assumes "kernel_read f 0 (i_size f) = Inr c" "length c = i_size f" "c \<noteq> []" "load_items kz (drop 8 c) (g_list_policy_fac s) = Some ms"
  shows "load_fac_policy kz True (Some f) s = Some (0, s\<lparr>g_list_policy_fac := ms\<rparr>)"
proof -
  have "i_size f \<noteq> 0" using assms(2,3) by (metis length_0_conv)
  with assms show ?thesis by (simp add: load_fac_policy_def)
qed

lemma load_items_encode:
  assumes "\<forall>m\<in>set xs. mac_wf m" "\<And>p. kz p"
  shows "load_items kz (concat (map encode_mac xs)) ms = Some (foldl add_rule ms xs)"
  using assms(1)
proof (induction xs arbitrary: ms)
  case Nil
  then show ?case by (simp add: load_items.simps)
next
  case (Cons m xs)
  let ?p = "encode_mac m @ concat (map encode_mac xs)"
  have wf: "mac_wf m" using Cons.prems by simp
  note e = parse_item_encode [OF wf, of "concat (map encode_mac xs)"]
  have len: "ITEM_SIZE + item_process_num ?p * PROCESS_SIZE \<le> length ?p" using e(2) by simp
  have "is_exist_mac_policy (drop 4 ?p) ms \<noteq> 0 \<longleftrightarrow> list_ex (\<lambda>x. cstr (mac_obj_name x) = cstr (mac_obj_name m)) ms"
    unfolding is_exist_mac_policy_def strcmp_eq_0_iff e(4) by simp
  moreover have "drop (ITEM_SIZE + item_process_num ?p * PROCESS_SIZE) ?p = concat (map encode_mac xs)"
    using e(2) by simp
  ultimately have "load_items kz ?p ms = load_items kz (concat (map encode_mac xs)) (add_rule ms m)"
    unfolding load_items_step [OF len assms(2)] add_rule_def e(1) by simp
  with Cons show ?case by simp
qed

section \<open>Properties\<close>

text \<open>The decision on an access: the first rule whose pattern matches the name of the object decides.
  The subject is known by the SM3 hash of its program; its privilege counts if the measurements that
  the rule asks for pass, and otherwise the kind of protection is the answer. Without a matching
  rule the access is free.\<close>

theorem fac_query_decides:
  assumes "\<forall>m\<in>set (g_list_policy_fac s). mac_wf m"
    and "fe_open env opn (sub_string d) = Some f" "env_ok (fe_digest env)" "kfile_reads f c" "i_size f = length c" "kfile_progress f"
    and "\<forall>m\<in>set (g_list_policy_fac s). measure_rule env m (d\<lparr>sub_hash := gb_sm3 c\<rparr>) opn = Some (ok m)"
  shows "query_fac_policy_state env d opn s =
    (case find (\<lambda>m. mac_wildcard_cmp env m (obj_name d) WILDCARD = 0) (g_list_policy_fac s) of
       None \<Rightarrow> Some (0, d)
     | Some m \<Rightarrow> Some (rule_verdict m (gb_sm3 c) (ok m), d\<lparr>sub_hash := gb_sm3 c\<rparr>))"
  by (rule fac_query_cases [OF assms])

text \<open>C29. Measuring the running process: the program file is hashed with its text taken from memory, and the
  result is compared with the digest of the subject. A process whose text in memory is the text of
  its file passes, and with another hash it does not.\<close>

theorem measure_process_compares:
  assumes "fe_mm env = Some (True, pre @ v # post)" "no_text pre" "vm_file v" "vm_exec v" "\<not> vm_write v" "vm_size v < 2 ^ 31"
    and "fe_open env opn (sub_string d) = Some f" "kfile_exact f c" "text_offset 0 pre \<le> length c" "4096 dvd text_offset 0 pre"
    and "pages_read env (vm_start v) (vm_size v) pages" "length (sub_hash d) = LEN_HASH"
  shows "measure_process env d opn =
      Some (if gb_sm3 (mem_image c (text_offset 0 pre) (vm_start v) (vm_size v) pages) = sub_hash d then 0 else -1)
    \<and> (take (vm_size v) (drop (vm_start v mod PAGE_SIZE) (concat pages)) = take (vm_size v) (drop (text_offset 0 pre) c)
        \<longrightarrow> sub_hash d = gb_sm3 c \<longrightarrow> measure_process env d opn = Some 0)"
proof -
  let ?h = "gb_sm3 (mem_image c (text_offset 0 pre) (vm_start v) (vm_size v) pages)"
  have "task_cal_mem_file_hash env (sub_string d) (vm_start v) (vm_size v) (text_offset 0 pre) (replicate LEN_HASH 0) opn = Some (0, ?h)"
    by (rule task_cal_mem_file_hash_ok [OF assms(7-11)]) (simp add: LEN_HASH_def)
  then have m: "measure_process env d opn = Some (if ?h = sub_hash d then 0 else -1)"
    using assms(1,3-6,12) by (auto simp: measure_process_def measure_vmas_skip [OF assms(2)] memeq_def length_gb_sm3 LEN_HASH_def)
  then show ?thesis using mem_image_intact by auto
qed

text \<open>Reloading the rules: a policy file that encodes a list of rules leaves exactly these, of several for
  one name the first, and nothing of the old rules. When the file cannot be opened the old rules
  are gone as well, and the caller is told success.\<close>

theorem reload_file_protect_roundtrip:
  assumes "\<forall>m\<in>set xs. mac_wf m" "length hdr = 8" "kfile_exact f (hdr @ concat (map encode_mac xs))"
    and "i_size f = length (hdr @ concat (map encode_mac xs))"
  shows "ioctl_reload_file_protect_policy (\<lambda>_. True) True (Some f) s = Some (0, s\<lparr>g_list_policy_fac := foldl add_rule [] xs\<rparr>)
    \<and> ioctl_reload_file_protect_policy kz vm None s = Some (0, s\<lparr>g_list_policy_fac := []\<rparr>)"
proof -
  let ?c = "hdr @ concat (map encode_mac xs)"
  have "load_items (\<lambda>_. True) (drop 8 ?c) (g_list_policy_fac (clean_list_fac s)) = Some (foldl add_rule [] xs)"
    using load_items_encode [OF assms(1)] assms(2) by (simp add: clean_list_fac_def)
  moreover have "kernel_read f 0 (i_size f) = Inr ?c" "length ?c = i_size f" "?c \<noteq> []"
    using assms(2-4) by (auto simp: kfile_exact_def)
  ultimately have "load_fac_policy (\<lambda>_. True) True (Some f) (clean_list_fac s)
      = Some (0, (clean_list_fac s)\<lparr>g_list_policy_fac := foldl add_rule [] xs\<rparr>)"
    by (intro load_fac_policy_ok)
  then show ?thesis
    by (simp add: ioctl_reload_file_protect_policy_def clean_list_fac_def) (simp add: load_fac_policy_def)
qed

section \<open>A concrete policy\<close>

text \<open>One rule that protects every file below \<open>/etc/\<close> from writing, with one privileged program.\<close>

definition demo_rule :: mac_policy where
  "demo_rule = \<lparr>list_dac = [\<lparr>privi_type = PRIVI_ALL, process_hash = gb_sm3 [7], dac_sub_name = replicate 256 0\<rparr>],
     measure_flags = 0, mac_type = FILE_WRITE_PROTECT, privileged_process_num = 1,
     mac_obj_name = [94, 47, 101, 116, 99, 47] @ replicate 250 0\<rparr>"

definition exact_file :: "byte list \<Rightarrow> kfile" where
  "exact_file c = \<lparr>i_size = length c, kernel_read = (\<lambda>off cnt. Inr (take cnt (drop off c)))\<rparr>"

definition demo_fac_env :: fac_env where
  "demo_fac_env = \<lparr>fe_open = (\<lambda>_ _. Some (exact_file [7])), fe_digest = stack_env, fe_regexp = (\<lambda>_ _. Some 1), fe_kernel_memory = 0,
     fe_mm = Some (True, [\<lparr>vm_file = True, vm_exec = True, vm_write = False, vm_start = 4096, vm_end = 8192\<rparr>]),
     fe_kmalloc = True, fe_page_array = True, fe_pages = (\<lambda>_ n. (int n, replicate n (Some (7 # replicate 4095 0))))\<rparr>"

lemma demo_rule_wf: "mac_wf demo_rule"
  by (simp add: mac_wf_def demo_rule_def length_gb_sm3 LEN_HASH_def)

lemma exact_file_ok:
  "kfile_exact (exact_file c) c" "kfile_reads (exact_file c) c" "i_size (exact_file c) = length c" "kfile_progress (exact_file c)"
  by (auto simp: exact_file_def kfile_exact_def kfile_reads_def kfile_progress_def min_def)

lemma demo_fac_env_ok: "fe_open demo_fac_env opn p = Some (exact_file [7])" "env_ok (fe_digest demo_fac_env)"
  by (simp_all add: demo_fac_env_def stack_env_ok)

text \<open>The privileged program may do everything.\<close>

theorem fac_query_decides_witness:
  "query_fac_policy_state demo_fac_env zero_sec_domain True \<lparr>g_list_policy_fac = [demo_rule], fl_commands = Map.empty\<rparr>
     = Some (0, zero_sec_domain\<lparr>sub_hash := gb_sm3 [7]\<rparr>)"
proof -
  let ?s = "\<lparr>g_list_policy_fac = [demo_rule], fl_commands = Map.empty\<rparr>"
  have wf: "\<forall>m\<in>set (g_list_policy_fac ?s). mac_wf m" by (simp add: demo_rule_wf)
  have m: "\<forall>m\<in>set (g_list_policy_fac ?s). measure_rule demo_fac_env m (zero_sec_domain\<lparr>sub_hash := gb_sm3 [7]\<rparr>) True = Some True"
    by (simp add: measure_rule_def demo_rule_def)
  have "mac_wildcard_cmp demo_fac_env demo_rule (obj_name zero_sec_domain) WILDCARD = 0"
    by (simp add: mac_wildcard_cmp_def demo_fac_env_def)
  moreover have "rule_verdict demo_rule (gb_sm3 [7]) True = 0" by (simp add: rule_verdict_def demo_rule_def Let_def)
  ultimately show ?thesis
    using fac_query_decides [OF wf demo_fac_env_ok exact_file_ok(2-4) m] by simp
qed

text \<open>A page of text that is not the file's: the measurement fails.\<close>

theorem measure_process_compares_witness:
  "measure_process demo_fac_env (zero_sec_domain\<lparr>sub_hash := gb_sm3 [7]\<rparr>) True =
     Some (if gb_sm3 (7 # replicate 4095 0) = gb_sm3 [7] then 0 else -1)"
proof -
  let ?v = "\<lparr>vm_file = True, vm_exec = True, vm_write = False, vm_start = 4096, vm_end = 8192\<rparr>"
  let ?page = "7 # replicate 4095 0 :: byte list" and ?d = "zero_sec_domain\<lparr>sub_hash := gb_sm3 [7]\<rparr>"
  have p: "pages_read demo_fac_env (vm_start ?v) (vm_size ?v) [?page]"
    by (simp add: pages_read_def demo_fac_env_def stack_env_ok vm_size_def PAGE_SIZE_def)
  have "fe_mm demo_fac_env = Some (True, [] @ ?v # [])" by (simp add: demo_fac_env_def)
  from measure_process_compares [OF this, of True ?d, OF _ _ _ _ _ demo_fac_env_ok(1) exact_file_ok(1) _ _ p]
  have "measure_process demo_fac_env ?d True =
      Some (if gb_sm3 (mem_image [7] 0 (vm_start ?v) (vm_size ?v) [?page]) = gb_sm3 [7] then 0 else -1)"
    by (simp add: no_text_def text_offset_def vm_size_def length_gb_sm3 LEN_HASH_def)
  moreover have "mem_image [7] 0 (vm_start ?v) (vm_size ?v) [?page] = ?page"
    by (simp add: mem_image_def vm_size_def PAGE_SIZE_def)
  ultimately show ?thesis by simp
qed

theorem reload_file_protect_roundtrip_witness:
  "ioctl_reload_file_protect_policy (\<lambda>_. True) True (Some (exact_file (replicate 8 0 @ encode_mac demo_rule @ encode_mac demo_rule)))
     \<lparr>g_list_policy_fac = [], fl_commands = Map.empty\<rparr> = Some (0, \<lparr>g_list_policy_fac = [demo_rule], fl_commands = Map.empty\<rparr>)"
  using reload_file_protect_roundtrip [of "[demo_rule, demo_rule]" "replicate 8 0", OF _ _ exact_file_ok(1) exact_file_ok(3)]
  by (simp add: demo_rule_wf add_rule_def)

end
