(* ===== verification/Text_File.thy ===== *)
theory Text_File
  imports File_Digest
begin

text \<open>
  Reading a configuration file line by line: \<open>klib_fgets\<close> of
  tsb/kernel/platform/utils/klib_fileio.c. The lists of unwritable paths and of objects whose audit
  records are always kept are read with it.
\<close>

section \<open>The code\<close>

text \<open>\<open>klib_fgets\<close>: at most \<open>size - 1\<close> bytes, one by one, up to and with the newline. The result is the
  bytes that were read, \<open>None\<close> for NULL, and the new file position.\<close>

fun fgets_loop :: "kfile \<Rightarrow> nat \<Rightarrow> nat \<Rightarrow> byte list \<Rightarrow> byte list option \<times> nat" where
  "fgets_loop f 0 pos acc = (if acc = [] then None else Some acc, pos)"
| "fgets_loop f (Suc n) pos acc =
     (case kernel_read f pos 1 of Inl e \<Rightarrow> (None, pos)
      | Inr d \<Rightarrow> (case d of [] \<Rightarrow> (if acc = [] then None else Some acc, pos)
                | c # _ \<Rightarrow> if c = 10 then (Some (acc @ [c]), pos + 1) else fgets_loop f n (pos + 1) (acc @ [c])))"

definition klib_fgets :: "nat \<Rightarrow> kfile option \<Rightarrow> nat \<Rightarrow> byte list option \<times> nat" where
  "klib_fgets n fo pos = (case fo of None \<Rightarrow> (None, pos) | Some f \<Rightarrow> fgets_loop f (n - 1) pos [])"

section \<open>Lines\<close>

text \<open>A file that gives its bytes one by one.\<close>

definition kfile_bytes :: "kfile \<Rightarrow> byte list \<Rightarrow> bool" where
  "kfile_bytes f c \<longleftrightarrow> (\<forall>pos. kernel_read f pos 1 = Inr (take 1 (drop pos c)))"

lemma fgets_line:
  assumes "kfile_bytes f c" "10 \<notin> set p" "length p < n" "drop pos c = p @ 10 # rest"
  shows "fgets_loop f n pos acc = (Some (acc @ p @ [10]), pos + length p + 1)"
  using assms(2-4)
proof (induction p arbitrary: n pos acc)
  case Nil
  then obtain m where "n = Suc m" by (cases n) auto
  moreover have "kernel_read f pos 1 = Inr [10]" using Nil(3) assms(1) by (simp add: kfile_bytes_def)
  ultimately show ?case by simp
next
  case (Cons x p)
  then obtain m where m: "n = Suc m" by (cases n) auto
  have "kernel_read f pos 1 = Inr [x]" using Cons.prems(3) assms(1) by (simp add: kfile_bytes_def)
  moreover have "drop (pos + 1) c = p @ 10 # rest"
    using arg_cong [OF Cons.prems(3), of "drop 1"] by simp
  ultimately show ?case
    using Cons.IH [of m "pos + 1" "acc @ [x]"] Cons.prems m by simp
qed

lemma fgets_eof: "kfile_bytes f c \<Longrightarrow> drop pos c = [] \<Longrightarrow> fgets_loop f n pos [] = (None, pos)"
  by (cases n) (auto simp: kfile_bytes_def)

end
