(* ===== verification/Path_Table.thy ===== *)
theory Path_Table
  imports Whitelist Command_Table Text_File
begin

text \<open>
  The paths that nobody may write: tsb/kernel/accessctl/policy/hash_whitelist_path.c. A bucket table of
  paths, filled from the lines of a text file (read with \<open>klib_fgets\<close> of
  tsb/kernel/platform/utils/klib_fileio.c) and changed by ioctls. Removing a path and reloading also
  clean the whitelist cache.

  A result \<open>None\<close> is a run that touches memory outside a buffer or does not end. Each operation is one
  step; the addition looks under the read lock and links under the write lock, which are taken as one.
\<close>

section \<open>Definitions\<close>

record path_state =
  path_table :: "nat \<Rightarrow> byte list list"
  path_count :: int
  path_random :: u32
  path_cache :: cache_array
  path_commands :: cmd_table

definition whitelist_path_hash_key :: "jhash_fun \<Rightarrow> u32 \<Rightarrow> byte list \<Rightarrow> nat \<Rightarrow> nat" where
  "whitelist_path_hash_key jhash rnd path len = string_hash_key jhash rnd (take len path)"

text \<open>\<open>calc\<close> is the digest of the subject's program, \<open>None\<close> if it cannot be computed.\<close>

definition query_whitelist_path ::
  "jhash_fun \<Rightarrow> (sec_domain \<Rightarrow> byte list option) \<Rightarrow> sec_domain \<Rightarrow> path_state \<Rightarrow> int \<times> sec_domain" where
  "query_whitelist_path jhash calc sec_d s =
     (let i = whitelist_path_hash_key jhash (path_random s) (obj_name sec_d) (strlen (obj_name sec_d))
      in if list_ex (\<lambda>w. strcmp w (obj_name sec_d) = 0) (path_table s i)
         then (0, case calc sec_d of None \<Rightarrow> sec_d | Some h \<Rightarrow> sec_d\<lparr>sub_hash := h\<rparr>)
         else (-1, sec_d))"

text \<open>\<open>kz\<close>: kzalloc succeeds for the path.\<close>

definition whitelist_path_tmp_add ::
  "jhash_fun \<Rightarrow> u32 \<Rightarrow> (byte list \<Rightarrow> bool) \<Rightarrow> byte list \<Rightarrow> (nat \<Rightarrow> byte list list) \<times> int \<Rightarrow> int \<times> (nat \<Rightarrow> byte list list) \<times> int" where
  "whitelist_path_tmp_add jhash rnd kz path tn = (case tn of (t, n) \<Rightarrow>
     if \<not> kz path then (- ENOMEM, t, n)
     else let len = (if strlen path + 1 > PATH_LEN then PATH_LEN - 1 else strlen path);
              i = whitelist_path_hash_key jhash rnd path len
          in if list_ex (\<lambda>w. strcmp w path = 0) (t i) then (- EEXIST, t, n)
             else (0, t(i := take len path # t i), n + 1))"

definition whitelist_path_tmp_clean :: "(nat \<Rightarrow> byte list list) \<Rightarrow> int \<Rightarrow> (nat \<Rightarrow> byte list list) option" where
  "whitelist_path_tmp_clean = flush_buckets"

text \<open>The last byte of the line is cut off, whether or not it is a newline; for a line that
  starts with a zero byte the cut is before the buffer.\<close>

definition line_path :: "byte list \<Rightarrow> byte list option" where
  "line_path buff = (if cstr buff = [] then None else Some (take (PATH_LEN - 1) (butlast (cstr buff))))"

partial_function (option) load_lines ::
  "jhash_fun \<Rightarrow> u32 \<Rightarrow> (byte list \<Rightarrow> bool) \<Rightarrow> kfile \<Rightarrow> nat \<Rightarrow> (nat \<Rightarrow> byte list list) \<times> int
    \<Rightarrow> ((nat \<Rightarrow> byte list list) \<times> int) option" where
  "load_lines jhash rnd kz f pos tn =
     (case klib_fgets 1024 (Some f) pos of (None, pos') \<Rightarrow> Some tn
      | (Some buff, pos') \<Rightarrow>
          (case line_path buff of None \<Rightarrow> None
           | Some path \<Rightarrow> load_lines jhash rnd kz f pos' (snd (whitelist_path_tmp_add jhash rnd kz path tn))))"

definition load_whitelist_path ::
  "jhash_fun \<Rightarrow> (byte list \<Rightarrow> bool) \<Rightarrow> bool \<times> bool \<Rightarrow> kfile option \<Rightarrow> path_state \<Rightarrow> (int \<times> path_state) option" where
  "load_whitelist_path jhash kz vallocs f s =
     (case f of None \<Rightarrow> Some (-1, s)
      | Some f \<Rightarrow>
          if \<not> fst vallocs \<or> \<not> snd vallocs then Some (- ENOMEM, s)
          else (case load_lines jhash (path_random s) kz f 0 (\<lambda>_. [], 0) of None \<Rightarrow> None
                | Some (t, n) \<Rightarrow>
                    map_option (\<lambda>_. (0, s\<lparr>path_table := t, path_count := n\<rparr>))
                      (whitelist_path_tmp_clean (path_table s) (path_count s))))"

text \<open>
  The argument of the ioctls: \<open>None\<close> as for the whitelist. The buffer of the announced length must
  hold a terminated string. A length of more than 512 makes the code use 511 bytes, whatever
  the length of the string.
\<close>

definition policy_path :: "bool \<Rightarrow> general_policy option \<Rightarrow> (int + byte list \<times> nat) option" where
  "policy_path valloc param = (case param of None \<Rightarrow> Some (Inl (-1))
     | Some gp \<Rightarrow>
         if gp_length gp = 0 then Some (Inl (-1))
         else if \<not> valloc \<or> gp_length gp < 0 then Some (Inl (-1))
         else (case gp_data gp of None \<Rightarrow> Some (Inl (-1))
           | Some data \<Rightarrow>
               let p_buff = take (nat (gp_length gp)) data
               in if 0 \<notin> set p_buff then None
                  else Some (Inr (p_buff, if gp_length gp > int PATH_LEN then PATH_LEN - 1 else strlen p_buff))))"

definition ioctl_fac_whitelist_path_del_policy ::
  "jhash_fun \<Rightarrow> bool \<Rightarrow> general_policy option \<Rightarrow> path_state \<Rightarrow> (int \<times> path_state) option" where
  "ioctl_fac_whitelist_path_del_policy jhash valloc param s =
     (case policy_path valloc param of None \<Rightarrow> None
      | Some (Inl r) \<Rightarrow> Some (r, s)
      | Some (Inr (p_buff, len)) \<Rightarrow>
          let i = whitelist_path_hash_key jhash (path_random s) p_buff len
          in (case hlist_del_first (\<lambda>w. strcmp w p_buff = 0) (path_table s i) of
                Some b \<Rightarrow> Some (0, s\<lparr>path_table := (path_table s)(i := b), path_count := path_count s - 1,
                                     path_cache := policy_whitelist_cache_clean (path_cache s)\<rparr>)
              | None \<Rightarrow> Some (0, s)))"

definition ioctl_fac_whitelist_path_add_policy ::
  "jhash_fun \<Rightarrow> bool \<Rightarrow> bool \<Rightarrow> general_policy option \<Rightarrow> path_state \<Rightarrow> (int \<times> path_state) option" where
  "ioctl_fac_whitelist_path_add_policy jhash kz valloc param s =
     (case policy_path valloc param of None \<Rightarrow> None
      | Some (Inl r) \<Rightarrow> Some (r, s)
      | Some (Inr (p_buff, len)) \<Rightarrow>
          let i = whitelist_path_hash_key jhash (path_random s) p_buff len
          in if list_ex (\<lambda>w. strcmp w p_buff = 0) (path_table s i) then Some (0, s)
             else if \<not> kz then Some (0, s)
             else Some (0, s\<lparr>path_table := (path_table s)(i := take len p_buff # path_table s i), path_count := path_count s + 1\<rparr>))"

definition ioctl_fac_whitelist_path_reload_policy ::
  "jhash_fun \<Rightarrow> (byte list \<Rightarrow> bool) \<Rightarrow> bool \<times> bool \<Rightarrow> kfile option \<Rightarrow> path_state \<Rightarrow> (int \<times> path_state) option" where
  "ioctl_fac_whitelist_path_reload_policy jhash kz vallocs f s =
     map_option (\<lambda>(r, s'). (0, s'))
       (load_whitelist_path jhash kz vallocs f (s\<lparr>path_cache := policy_whitelist_cache_clean (path_cache s)\<rparr>))"

definition whitelist_path_init ::
  "jhash_fun \<Rightarrow> (byte list \<Rightarrow> bool) \<Rightarrow> bool \<Rightarrow> u32 \<Rightarrow> bool \<times> bool \<Rightarrow> kfile option \<Rightarrow> path_state \<Rightarrow> (int \<times> path_state) option" where
  "whitelist_path_init jhash kz valloc rnd vallocs f s =
     (if \<not> valloc then Some (- ENOMEM, s)
      else map_option (\<lambda>(r, s'). (0, s'\<lparr>path_commands :=
               snd (httcsec_io_command_register COMMAND_RELOAD_FAC_WHITELIST_PATH_POLICY ''ioctl_fac_whitelist_path_reload_policy''
              (snd (httcsec_io_command_register COMMAND_DELETE_FAC_WHITELIST_PATH_POLICY ''ioctl_fac_whitelist_path_del_policy''
              (snd (httcsec_io_command_register COMMAND_ADD_FAC_WHITELIST_PATH_POLICY ''ioctl_fac_whitelist_path_add_policy''
                 (path_commands s'))))))\<rparr>))
             (load_whitelist_path jhash kz vallocs f (s\<lparr>path_table := (\<lambda>_. []), path_count := 0, path_random := rnd\<rparr>)))"

definition whitelist_path_exit :: "path_state \<Rightarrow> path_state option" where
  "whitelist_path_exit s =
     map_option (\<lambda>b. s\<lparr>path_table := b, path_count := 0, path_commands :=
               snd (httcsec_io_command_unregister COMMAND_RELOAD_FAC_WHITELIST_PATH_POLICY ''ioctl_fac_whitelist_path_reload_policy''
              (snd (httcsec_io_command_unregister COMMAND_DELETE_FAC_WHITELIST_PATH_POLICY ''ioctl_fac_whitelist_path_del_policy''
              (snd (httcsec_io_command_unregister COMMAND_ADD_FAC_WHITELIST_PATH_POLICY ''ioctl_fac_whitelist_path_add_policy''
                 (path_commands s))))))\<rparr>)
       (flush_buckets (path_table s) (path_count s))"

section \<open>The table as a set of paths\<close>

text \<open>Every entry lies in the bucket of its bytes, no bucket has two entries that are equal as strings,
  and the counter counts.\<close>

definition path_inv :: "jhash_fun \<Rightarrow> u32 \<Rightarrow> (nat \<Rightarrow> byte list list) \<times> int \<Rightarrow> bool" where
  "path_inv jhash rnd tn \<longleftrightarrow> (\<forall>i w. w \<in> set (fst tn i) \<longrightarrow> i = string_hash_key jhash rnd w \<and> length w < PATH_LEN)
     \<and> (\<forall>i. distinct (map cstr (fst tn i))) \<and> snd tn = bucket_sum (fst tn)"

definition path_wf :: "jhash_fun \<Rightarrow> path_state \<Rightarrow> bool" where
  "path_wf jhash s \<longleftrightarrow> path_inv jhash (path_random s) (path_table s, path_count s)"

text \<open>The paths that a query finds.\<close>

definition table_paths :: "jhash_fun \<Rightarrow> u32 \<Rightarrow> (nat \<Rightarrow> byte list list) \<Rightarrow> byte list set" where
  "table_paths jhash rnd t = {p. no_nul p \<and> p \<in> cstr ` set (t (string_hash_key jhash rnd p))}"

definition paths :: "jhash_fun \<Rightarrow> path_state \<Rightarrow> byte list set" where
  "paths jhash s = table_paths jhash (path_random s) (path_table s)"

lemma query_iff: "fst (query_whitelist_path jhash calc d s) = 0 \<longleftrightarrow> cstr (obj_name d) \<in> paths jhash s"
proof -
  have "x \<in> cstr ` A \<longleftrightarrow> (\<exists>w\<in>A. cstr w = x)" for x A by auto
  then show ?thesis
    by (simp add: query_whitelist_path_def paths_def table_paths_def Let_def whitelist_path_hash_key_def take_strlen
        list_ex_iff strcmp_eq_0_iff)
qed

lemma link_path:
  assumes "path_inv jhash rnd (t, n)" "length w < PATH_LEN" "cstr w \<notin> cstr ` set (t (string_hash_key jhash rnd w))"
  shows "path_inv jhash rnd (t(string_hash_key jhash rnd w := w # t (string_hash_key jhash rnd w)), n + 1)"
proof -
  have "string_hash_key jhash rnd w < HASH_TAB_SIZE" by (rule string_hash_key_less)
  then show ?thesis
    using assms bucket_sum_upd [of "string_hash_key jhash rnd w" t] by (auto simp: path_inv_def)
qed

lemma table_paths_link:
  "table_paths jhash rnd (t(string_hash_key jhash rnd w := w # t (string_hash_key jhash rnd w)))
     = table_paths jhash rnd t \<union> (if string_hash_key jhash rnd (cstr w) = string_hash_key jhash rnd w then {cstr w} else {})"
  by (auto simp: table_paths_def)

lemma table_paths_mem:
  "no_nul p \<Longrightarrow> list_ex (\<lambda>w. strcmp w p = 0) (t (string_hash_key jhash rnd p)) \<longleftrightarrow> p \<in> table_paths jhash rnd t"
  by (auto simp: table_paths_def list_ex_iff strcmp_eq_0_iff cstr_no_nul)

lemma tmp_add_path:
  assumes "path_inv jhash rnd (t, n)" "no_nul p" "length p < PATH_LEN" "kz p"
  obtains r t' n' where "whitelist_path_tmp_add jhash rnd kz p (t, n) = (r, t', n')" "path_inv jhash rnd (t', n')"
    "table_paths jhash rnd t' = insert p (table_paths jhash rnd t)"
proof (cases "p \<in> table_paths jhash rnd t")
  case True
  then show ?thesis
    using assms that [of "- EEXIST" t n]
    by (auto simp: whitelist_path_tmp_add_def strlen_def cstr_no_nul whitelist_path_hash_key_def table_paths_mem)
next
  case False
  let ?i = "string_hash_key jhash rnd p"
  have "p \<notin> cstr ` set (t ?i)" using False assms(2) by (simp add: table_paths_def)
  then have "path_inv jhash rnd (t(?i := p # t ?i), n + 1)"
    using link_path [OF assms(1,3)] by (simp add: cstr_no_nul [OF assms(2)])
  moreover have "table_paths jhash rnd (t(?i := p # t ?i)) = insert p (table_paths jhash rnd t)"
    unfolding table_paths_link by (simp add: cstr_no_nul [OF assms(2)])
  moreover have "whitelist_path_tmp_add jhash rnd kz p (t, n) = (0, t(?i := p # t ?i), n + 1)"
    using False assms(2-4) by (simp add: whitelist_path_tmp_add_def strlen_def cstr_no_nul whitelist_path_hash_key_def table_paths_mem Let_def)
  ultimately show ?thesis using that by blast
qed

lemma flush_paths:
  assumes "path_inv jhash rnd (t, n)"
  shows "flush_buckets t n = Some (\<lambda>_. [])"
proof -
  have "t i = []" if "\<not> i < HASH_TAB_SIZE" for i
    using assms that string_hash_key_less unfolding path_inv_def fst_conv by (metis list.set_intros(1) neq_Nil_conv)
  then have "free_buckets t = (\<lambda>_. [])" by (auto simp: free_buckets_def)
  then show ?thesis using assms by (simp add: path_inv_def flush_buckets.simps)
qed

section \<open>Lines\<close>

definition path_line :: "byte list \<Rightarrow> bool" where
  "path_line p \<longleftrightarrow> no_nul p \<and> 10 \<notin> set p \<and> length p < PATH_LEN"

lemma load_lines_ok:
  assumes "kfile_bytes f c" "\<forall>p\<in>set ps. path_line p" "drop pos c = concat (map (\<lambda>p. p @ [10]) ps)" "path_inv jhash rnd (t, n)"
  shows "\<exists>t' n'. load_lines jhash rnd (\<lambda>_. True) f pos (t, n) = Some (t', n') \<and> path_inv jhash rnd (t', n')
    \<and> table_paths jhash rnd t' = table_paths jhash rnd t \<union> set ps"
  using assms(2-4)
proof (induction ps arbitrary: pos t n)
  case Nil
  then show ?case
    using fgets_eof [OF assms(1), of pos] by (subst load_lines.simps) (simp add: klib_fgets_def)
next
  case (Cons p ps)
  have p: "no_nul p" "10 \<notin> set p" "length p < PATH_LEN" using Cons.prems(1) by (simp_all add: path_line_def)
  have d: "drop pos c = p @ 10 # concat (map (\<lambda>p. p @ [10]) ps)" using Cons.prems(2) by simp
  have line: "klib_fgets 1024 (Some f) pos = (Some (p @ [10]), pos + length p + 1)"
    using fgets_line [OF assms(1) p(2) _ d, of 1023 "[]"] p(3) by (simp add: klib_fgets_def PATH_LEN_def)
  have "no_nul (p @ [10])" using p(1) by (simp add: no_nul_def)
  then have lp: "line_path (p @ [10]) = Some p"
    using p(3) by (simp add: line_path_def cstr_no_nul)
  obtain r t' n' where t': "whitelist_path_tmp_add jhash rnd (\<lambda>_. True) p (t, n) = (r, t', n')" "path_inv jhash rnd (t', n')"
    "table_paths jhash rnd t' = insert p (table_paths jhash rnd t)"
    by (rule tmp_add_path [OF Cons.prems(3) p(1,3)]) (rule TrueI)
  have "drop (pos + length p + 1) c = concat (map (\<lambda>p. p @ [10]) ps)"
    using arg_cong [OF d, of "drop (length p + 1)"] by (simp add: ac_simps)
  from Cons.IH [OF _ this t'(2)] Cons.prems(1) t'(3) show ?case
    by (subst load_lines.simps) (simp add: line lp t'(1))
qed

section \<open>Removal\<close>

lemma unlink_path:
  assumes "path_inv jhash rnd (t, n)" "hlist_del_first (\<lambda>w. strcmp w p = 0) (t i) = Some b" "i = string_hash_key jhash rnd p" "no_nul p"
  shows "path_inv jhash rnd (t(i := b), n - 1)" "table_paths jhash rnd (t(i := b)) = table_paths jhash rnd t - {p}"
proof -
  obtain as u bs where b: "t i = as @ u # bs" "b = as @ bs" "strcmp u p = 0"
    using hlist_del_first_Some [OF assms(2)] by blast
  have u: "cstr u = p" using b(3) assms(4) by (simp add: strcmp_eq_0_iff cstr_no_nul)
  have i: "i < HASH_TAB_SIZE" unfolding assms(3) by (rule string_hash_key_less)
  have dist: "distinct (map cstr (as @ u # bs))" using assms(1) b(1) by (metis path_inv_def fst_conv)
  have mem: "w \<in> set (t k) \<Longrightarrow> k = string_hash_key jhash rnd w \<and> length w < PATH_LEN" for k w
    using assms(1) by (simp add: path_inv_def)
  have "\<forall>w\<in>set b. i = string_hash_key jhash rnd w \<and> length w < PATH_LEN" using mem [of _ i] b by auto
  moreover have "bucket_sum (t(i := b)) = n - 1"
    using bucket_sum_upd [OF i, of t b] assms(1) b by (simp add: path_inv_def)
  ultimately show "path_inv jhash rnd (t(i := b), n - 1)"
    using assms(1) mem dist b(2) by (auto simp: path_inv_def)
  have "cstr ` set (t i) = insert p (cstr ` set b)" "p \<notin> cstr ` set b" using dist by (simp_all add: b u image_Un)
  then have "cstr ` set b = cstr ` set (t i) - {p}" by simp
  then show "table_paths jhash rnd (t(i := b)) = table_paths jhash rnd t - {p}"
    using assms(3) by (auto simp: table_paths_def)
qed

section \<open>Properties\<close>

text \<open>An argument of the ioctls: a terminated string in a buffer of at most 512 bytes.\<close>

definition path_arg :: "byte list \<Rightarrow> general_policy" where
  "path_arg p = \<lparr>gp_length = int (length p) + 1, gp_data = Some (p @ [0])\<rparr>"

lemma policy_path_arg:
  assumes "no_nul p" "length p < PATH_LEN"
  shows "policy_path True (Some (path_arg p)) = Some (Inr (p @ [0], length p))"
  using assms cstr_append_nul [OF assms(1), of "[]"] by (simp add: policy_path_def path_arg_def strlen_def nat_add_distrib)

text \<open>C26. The table is a set of paths: adding a path inserts it, removing it takes it out and cleans the
  cache, and a query finds exactly the paths of the set.\<close>

theorem path_policy_refines:
  assumes "path_wf jhash s" "no_nul p" "length p < PATH_LEN"
  shows "\<exists>s1 s2. ioctl_fac_whitelist_path_add_policy jhash True True (Some (path_arg p)) s = Some (0, s1)
    \<and> path_wf jhash s1 \<and> paths jhash s1 = insert p (paths jhash s)
    \<and> ioctl_fac_whitelist_path_del_policy jhash True (Some (path_arg p)) s = Some (0, s2)
    \<and> path_wf jhash s2 \<and> paths jhash s2 = paths jhash s - {p}
    \<and> (\<forall>calc d. fst (query_whitelist_path jhash calc d s) = 0 \<longleftrightarrow> cstr (obj_name d) \<in> paths jhash s)"
proof -
  let ?i = "string_hash_key jhash (path_random s) p" and ?t = "path_table s"
  have inv: "path_inv jhash (path_random s) (?t, path_count s)" using assms(1) by (simp add: path_wf_def)
  have key: "whitelist_path_hash_key jhash (path_random s) (p @ [0]) (length p) = ?i" by (simp add: whitelist_path_hash_key_def)
  have cmp: "strcmp w (p @ [0]) = 0 \<longleftrightarrow> strcmp w p = 0" for w
    using cstr_append_nul [OF assms(2), of "[]"] by (simp add: strcmp_eq_0_iff cstr_no_nul [OF assms(2)])
  have mem: "list_ex (\<lambda>w. strcmp w p = 0) (?t ?i) \<longleftrightarrow> p \<in> paths jhash s"
    using table_paths_mem [OF assms(2)] by (simp add: paths_def)
  have add: "\<exists>s1. ioctl_fac_whitelist_path_add_policy jhash True True (Some (path_arg p)) s = Some (0, s1)
    \<and> path_wf jhash s1 \<and> paths jhash s1 = insert p (paths jhash s)"
  proof (cases "p \<in> paths jhash s")
    case True
    with assms(1) mem show ?thesis
      by (auto simp: ioctl_fac_whitelist_path_add_policy_def policy_path_arg [OF assms(2,3)] key cmp Let_def)
  next
    case False
    then have "cstr p \<notin> cstr ` set (?t ?i)" using assms(2) by (simp add: paths_def table_paths_def cstr_no_nul)
    note l = link_path [OF inv assms(3) this] table_paths_link [of jhash "path_random s" ?t p]
    show ?thesis
      using False mem l
      by (simp add: ioctl_fac_whitelist_path_add_policy_def policy_path_arg [OF assms(2,3)] key cmp Let_def path_wf_def paths_def
          cstr_no_nul [OF assms(2)])
  qed
  have del: "\<exists>s2. ioctl_fac_whitelist_path_del_policy jhash True (Some (path_arg p)) s = Some (0, s2)
    \<and> path_wf jhash s2 \<and> paths jhash s2 = paths jhash s - {p}"
  proof (cases "hlist_del_first (\<lambda>w. strcmp w p = 0) (?t ?i)")
    case None
    then have "p \<notin> paths jhash s" using mem by (simp add: hlist_del_first_None)
    with assms(1) None show ?thesis
      by (simp add: ioctl_fac_whitelist_path_del_policy_def policy_path_arg [OF assms(2,3)] key cmp Let_def)
  next
    case (Some b)
    with unlink_path [OF inv Some refl assms(2)] show ?thesis
      by (simp add: ioctl_fac_whitelist_path_del_policy_def policy_path_arg [OF assms(2,3)] key cmp Let_def path_wf_def paths_def)
  qed
  from add obtain s1 where s1: "ioctl_fac_whitelist_path_add_policy jhash True True (Some (path_arg p)) s = Some (0, s1)"
    "path_wf jhash s1" "paths jhash s1 = insert p (paths jhash s)" by blast
  from del obtain s2 where s2: "ioctl_fac_whitelist_path_del_policy jhash True (Some (path_arg p)) s = Some (0, s2)"
    "path_wf jhash s2" "paths jhash s2 = paths jhash s - {p}" by blast
  show ?thesis by (rule exI [of _ s1], rule exI [of _ s2]) (simp add: s1 s2 query_iff)
qed

text \<open>Reloading the paths from a text file with one path per line leaves exactly these paths, and freeing
  the old table ends.\<close>

theorem load_whitelist_path_roundtrip:
  assumes "path_wf jhash s" "kfile_bytes f (concat (map (\<lambda>p. p @ [10]) ps))" "\<forall>p\<in>set ps. path_line p"
  shows "\<exists>s'. ioctl_fac_whitelist_path_reload_policy jhash (\<lambda>_. True) (True, True) (Some f) s = Some (0, s')
    \<and> path_wf jhash s' \<and> paths jhash s' = set ps"
proof -
  have e: "path_inv jhash (path_random s) (\<lambda>_. [], 0)"
    using bucket_sum_free [of "\<lambda>_. []"] by (simp add: path_inv_def free_buckets_def)
  obtain t n where t: "load_lines jhash (path_random s) (\<lambda>_. True) f 0 (\<lambda>_. [], 0) = Some (t, n)"
    "path_inv jhash (path_random s) (t, n)" "table_paths jhash (path_random s) t = table_paths jhash (path_random s) (\<lambda>_. []) \<union> set ps"
    using load_lines_ok [OF assms(2,3) _ e, of 0] by auto
  have "flush_buckets (path_table s) (path_count s) = Some (\<lambda>_. [])"
    using flush_paths assms(1) by (simp add: path_wf_def)
  with t show ?thesis
    by (simp add: ioctl_fac_whitelist_path_reload_policy_def load_whitelist_path_def whitelist_path_tmp_clean_def path_wf_def paths_def)
       (simp add: table_paths_def)
qed

text \<open>A buffer of more than 512 bytes is accepted, but the entry is then linked by the hash of its first
  511 bytes instead of that of the string: a query for the path that was announced as added does
  not find it.\<close>

lemma long_buffer_path_lost:
  assumes "gp_length gp > int PATH_LEN" "gp_data gp = Some (p @ 0 # r)" "no_nul p" "int (length p) < gp_length gp"
    and "p \<notin> paths jhash s"
    and "string_hash_key jhash (path_random s) (take 511 (take (nat (gp_length gp)) (p @ 0 # r))) \<noteq> string_hash_key jhash (path_random s) p"
  shows "\<exists>s'. ioctl_fac_whitelist_path_add_policy jhash True True (Some gp) s = Some (0, s') \<and> p \<notin> paths jhash s'"
proof -
  let ?b = "take (nat (gp_length gp)) (p @ 0 # r)"
  have "length p < nat (gp_length gp)" using assms(4) by linarith
  then obtain q where "?b = p @ 0 # q" by (cases "nat (gp_length gp) - length p") auto
  then have "0 \<in> set ?b" by simp
  moreover have "gp_length gp \<noteq> 0" "\<not> gp_length gp < 0" using assms(1) by auto
  moreover define b where "b = ?b"
  ultimately have arg: "policy_path True (Some gp) = Some (Inr (b, 511))"
    using assms(1,2) by (simp add: policy_path_def PATH_LEN_def)
  define w where "w = take 511 b"
  let ?i = "string_hash_key jhash (path_random s) w"
  let ?s = "s\<lparr>path_table := (path_table s)(?i := w # path_table s ?i), path_count := path_count s + 1\<rparr>"
  have "?i \<noteq> string_hash_key jhash (path_random s) p" using assms(6) unfolding w_def b_def .
  then have "p \<notin> paths jhash ?s"
    using assms(5) table_paths_link [of jhash "path_random s" "path_table s" w] by (auto simp: paths_def)
  moreover have "ioctl_fac_whitelist_path_add_policy jhash True True (Some gp) s =
      Some (0, if list_ex (\<lambda>w. strcmp w b = 0) (path_table s ?i) then s else ?s)"
    by (simp add: ioctl_fac_whitelist_path_add_policy_def arg whitelist_path_hash_key_def w_def [symmetric] Let_def)
  ultimately show ?thesis using assms(5) by simp
qed

section \<open>A concrete table\<close>

definition path_empty :: path_state where
  "path_empty = \<lparr>path_table = (\<lambda>_. []), path_count = 0, path_random = 0, path_cache = wl_cache wl_empty, path_commands = Map.empty\<rparr>"

lemma path_empty_wf: "path_wf jhash path_empty" "paths jhash path_empty = {}"
  using bucket_sum_free [of "\<lambda>_. []"]
  by (simp_all add: path_wf_def path_inv_def path_empty_def free_buckets_def paths_def table_paths_def)

theorem path_policy_refines_witness:
  "\<exists>s1 s2. ioctl_fac_whitelist_path_add_policy (\<lambda>_ _. 5) True True (Some (path_arg [47, 97])) path_empty = Some (0, s1)
    \<and> paths (\<lambda>_ _. 5) s1 = {[47, 97]}
    \<and> ioctl_fac_whitelist_path_del_policy (\<lambda>_ _. 5) True (Some (path_arg [47, 97])) path_empty = Some (0, s2) \<and> paths (\<lambda>_ _. 5) s2 = {}"
proof -
  have "no_nul [47, 97]" "length [47, 97 :: byte] < PATH_LEN" by (simp_all add: no_nul_def PATH_LEN_def)
  from path_policy_refines [OF path_empty_wf(1) this, of "\<lambda>_ _. 5"] show ?thesis unfolding path_empty_wf(2) by fastforce
qed

theorem load_whitelist_path_roundtrip_witness:
  "\<exists>s'. ioctl_fac_whitelist_path_reload_policy (\<lambda>_ _. 5) (\<lambda>_. True) (True, True) (Some (short_file 1 [47, 97, 10, 47, 98, 10])) path_empty
     = Some (0, s') \<and> paths (\<lambda>_ _. 5) s' = {[47, 97], [47, 98]}"
proof -
  have "kfile_bytes (short_file 1 [47, 97, 10, 47, 98, 10]) (concat (map (\<lambda>p. p @ [10]) [[47, 97], [47, 98]]))"
    by (simp add: kfile_bytes_def short_file_def)
  from load_whitelist_path_roundtrip [OF path_empty_wf(1) this, of "\<lambda>_ _. 5"] show ?thesis
    by (auto simp: path_line_def no_nul_def PATH_LEN_def)
qed

end
