(* ===== verification/Access_Control.thy ===== *)
theory Access_Control
  imports Fac_Policy Path_Table Feature_Conf
begin

text \<open>
  The hooks of file access control: tsb/kernel/accessctl/engine/access_control.c for Linux 5.10, compiled
  without SANXIA_PLC. Opening a file, and linking, unlinking, renaming and creating names, are decided
  by the list of unwritable paths and by the access rules; every decision is recorded in the audit
  log and refusals are counted.

  What the kernel knows of an object is a parameter: its full path, its inode and the mode of
  opening. \<open>None\<close> as a result is as in the policies.
\<close>

section \<open>State\<close>

datatype access_effect =
    Access_Log int int sec_domain
  | File_Access_Count

record access_state =
  ac_rules :: fac_list
  ac_paths :: path_state
  g_fac_switch :: int
  ac_effects :: "access_effect list"

text \<open>The mode bits of an inode and the name of its file system, if it has one.\<close>

record inode_obj =
  in_special :: bool
  in_dir :: bool
  in_fs :: "string option"

record dentry_obj =
  de_path :: "byte list option"
  de_inode :: "inode_obj option"

record file_obj =
  fi_path :: "byte list option"
  fi_inode :: "inode_obj option"
  fi_write :: bool

record access_env =
  ae_fac :: fac_env
  ae_sec_d :: bool
  ae_task :: "byte list option"

abbreviation (input) OPERATE_WRITE :: int where "OPERATE_WRITE \<equiv> 4"
abbreviation (input) OPERATE_READ :: int where "OPERATE_READ \<equiv> 8"
abbreviation (input) OPERATE_DELETE :: int where "OPERATE_DELETE \<equiv> 32"
abbreviation (input) OPERATE_CREATE :: int where "OPERATE_CREATE \<equiv> 64"
abbreviation (input) OPERATE_RENAME :: int where "OPERATE_RENAME \<equiv> 128"
abbreviation (input) LOG_SUCCESS :: int where "LOG_SUCCESS \<equiv> 1"
abbreviation (input) LOG_FAIL :: int where "LOG_FAIL \<equiv> 2"

definition access_effect :: "access_effect \<Rightarrow> access_state \<Rightarrow> access_state" where
  "access_effect e s = s\<lparr>ac_effects := ac_effects s @ [e]\<rparr>"

section \<open>Filters\<close>

definition SUPER_PATH :: "byte list" where
  "SUPER_PATH = map (\<lambda>c. of_nat (of_char c)) ''/usr/local/httcsec/''"

definition is_super_process :: "byte list \<Rightarrow> int" where
  "is_super_process fullpath = (if strncmp fullpath SUPER_PATH (length SUPER_PATH) = 0 then 1 else 0)"

definition special_type_filter :: "inode_obj \<Rightarrow> bool" where
  "special_type_filter i = (in_special i \<or>
     (case in_fs i of None \<Rightarrow> False | Some n \<Rightarrow> n \<in> set [''pipefs'', ''sockfs'', ''anon_inodefs'', ''inotifyfs'']))"

definition file_filter :: "file_obj \<Rightarrow> bool" where
  "file_filter f = (case fi_inode f of None \<Rightarrow> True | Some i \<Rightarrow> special_type_filter i)"

definition dentry_filter :: "dentry_obj \<Rightarrow> bool" where
  "dentry_filter d = (case de_inode d of None \<Rightarrow> True | Some i \<Rightarrow> special_type_filter i)"

section \<open>Decisions\<close>

text \<open>The names of subject and object, in the layout that the measurement engine uses too.\<close>

definition access_domain :: "byte list \<Rightarrow> byte list \<Rightarrow> sec_domain" where
  "access_domain taskpath filename =
     (let sl = min (strlen taskpath) LEN_NAME_MAX
      in zero_sec_domain\<lparr>sub_name := name_field taskpath, sub_len := int sl,
           obj_name := name_field filename @ le32_bytes sl, obj_len := int (min (strlen filename) LEN_NAME_MAX)\<rparr>)"

definition subject_hash :: "fac_env \<Rightarrow> bool \<Rightarrow> sec_domain \<Rightarrow> byte list option" where
  "subject_hash env is_file_open d =
     (case calc_sub_hash env (sub_string d) (replicate LEN_HASH 0) is_file_open of (r, h) \<Rightarrow> if r < 0 then None else Some h)"

text \<open>The label \<open>out\<close> of \<open>access_control\<close>.\<close>

definition access_out :: "int \<Rightarrow> int \<times> sec_domain \<Rightarrow> access_state \<Rightarrow> int \<times> access_state" where
  "access_out operate rd s = (case rd of (ret, sec_d) \<Rightarrow>
     (ret, access_effect (Access_Log operate (if ret = 0 then LOG_SUCCESS else LOG_FAIL) sec_d) s))"

definition access_control ::
  "jhash_fun \<Rightarrow> access_env \<Rightarrow> dentry_obj \<Rightarrow> int \<Rightarrow> access_state \<Rightarrow> (int \<times> access_state) option" where
  "access_control jhash env object operate s =
     (if is_empty_mac_policy (ac_rules s) = 0 then Some (0, s)
      else if \<not> ae_sec_d env then Some (0, s)
      else (case ae_task env of None \<Rightarrow> Some (0, s)
      | Some taskpath \<Rightarrow>
          if is_super_process taskpath \<noteq> 0 then Some (0, s)
          else (case de_path object of None \<Rightarrow> Some (0, s)
          | Some filename \<Rightarrow>
              (case query_whitelist_path jhash (subject_hash (ae_fac env) False) (access_domain taskpath filename) (ac_paths s) of
                 (ret, d1) \<Rightarrow>
                   if ret = 0 then Some (access_out operate (- EACCES, d1) s)
                   else (case query_fac_policy_state (ae_fac env) d1 False (ac_rules s) of None \<Rightarrow> None
                         | Some (ret, d2) \<Rightarrow>
                             if ret = 0 \<and> operate AND OPERATE_RENAME \<noteq> 0 \<and> (case de_inode object of Some i \<Rightarrow> in_dir i | None \<Rightarrow> False)
                             then map_option (\<lambda>rd. access_out operate rd s)
                                    (query_dir_segment_fac_policy_state (ae_fac env) d2 False (ac_rules s))
                             else Some (access_out operate (ret, d2) s))))))"

definition httc_verify_permission ::
  "jhash_fun \<Rightarrow> access_env \<Rightarrow> dentry_obj \<Rightarrow> int \<Rightarrow> access_state \<Rightarrow> (int \<times> access_state) option" where
  "httc_verify_permission jhash env object operate s =
     map_option (\<lambda>(ret, s'). if ret \<noteq> 0 then (- EACCES, access_effect File_Access_Count s') else (0, s'))
       (access_control jhash env object operate s)"

definition httc_dentry_permission ::
  "jhash_fun \<Rightarrow> access_env \<Rightarrow> dentry_obj \<Rightarrow> int \<Rightarrow> access_state \<Rightarrow> (int \<times> access_state) option" where
  "httc_dentry_permission jhash env dentry operate s =
     (if operate AND OPERATE_READ \<noteq> 0 then Some (0, s)
      else if operate AND OPERATE_CREATE = 0 \<and> dentry_filter dentry then Some (0, s)
      else httc_verify_permission jhash env dentry operate s)"

section \<open>Hooks\<close>

text \<open>The second check of a hook that has two is made when the first one passes.\<close>

definition both_permitted ::
  "(access_state \<Rightarrow> (int \<times> access_state) option) \<Rightarrow> (access_state \<Rightarrow> (int \<times> access_state) option) \<Rightarrow> access_state
    \<Rightarrow> (int \<times> access_state) option" where
  "both_permitted first second s = (case first s of None \<Rightarrow> None
     | Some (ret, s1) \<Rightarrow> if ret = 0 then second s1 else Some (ret, s1))"

definition smeasure_inode_link ::
  "jhash_fun \<Rightarrow> access_env \<Rightarrow> dentry_obj \<Rightarrow> dentry_obj \<Rightarrow> access_state \<Rightarrow> (int \<times> access_state) option" where
  "smeasure_inode_link jhash env old_dentry new_dentry s =
     (if g_fac_switch s = 0 then Some (0, s)
      else both_permitted (httc_dentry_permission jhash env old_dentry OPERATE_WRITE)
             (httc_dentry_permission jhash env new_dentry OPERATE_WRITE) s)"

text \<open>\<open>old\<close> is the result of the hook that was registered before this one, \<open>None\<close> if there is none.\<close>

definition smeasure_inode_unlink ::
  "jhash_fun \<Rightarrow> access_env \<Rightarrow> int option \<Rightarrow> dentry_obj \<Rightarrow> access_state \<Rightarrow> (int \<times> access_state) option" where
  "smeasure_inode_unlink jhash env old dentry s =
     (if g_fac_switch s = 0 then Some (0, s)
      else (case old of
              None \<Rightarrow> httc_dentry_permission jhash env dentry OPERATE_DELETE s
            | Some r \<Rightarrow> if r \<noteq> 0 then Some (r, s) else httc_dentry_permission jhash env dentry OPERATE_DELETE s))"

definition smeasure_inode_rename ::
  "jhash_fun \<Rightarrow> access_env \<Rightarrow> dentry_obj \<Rightarrow> dentry_obj \<Rightarrow> access_state \<Rightarrow> (int \<times> access_state) option" where
  "smeasure_inode_rename jhash env old_dentry new_dentry s =
     (if g_fac_switch s = 0 then Some (0, s)
      else both_permitted (httc_dentry_permission jhash env old_dentry OPERATE_RENAME)
             (httc_dentry_permission jhash env new_dentry OPERATE_CREATE) s)"

definition smeasure_inode_create :: "jhash_fun \<Rightarrow> access_env \<Rightarrow> dentry_obj \<Rightarrow> access_state \<Rightarrow> (int \<times> access_state) option" where
  "smeasure_inode_create jhash env dentry s =
     (if g_fac_switch s = 0 then Some (0, s) else httc_dentry_permission jhash env dentry OPERATE_CREATE s)"

definition smeasure_inode_rmdir :: "jhash_fun \<Rightarrow> access_env \<Rightarrow> dentry_obj \<Rightarrow> access_state \<Rightarrow> (int \<times> access_state) option" where
  "smeasure_inode_rmdir jhash env dentry s =
     (if g_fac_switch s = 0 then Some (0, s) else httc_dentry_permission jhash env dentry OPERATE_DELETE s)"

definition smeasure_inode_mkdir :: "jhash_fun \<Rightarrow> access_env \<Rightarrow> dentry_obj \<Rightarrow> access_state \<Rightarrow> (int \<times> access_state) option" where
  "smeasure_inode_mkdir jhash env dentry s =
     (if g_fac_switch s = 0 then Some (0, s) else httc_dentry_permission jhash env dentry OPERATE_CREATE s)"

definition open_out :: "int \<Rightarrow> int \<times> sec_domain \<Rightarrow> access_state \<Rightarrow> int \<times> access_state" where
  "open_out operate rd s = (case rd of (ret, sec_d) \<Rightarrow>
     if ret = 0 then (0, access_effect (Access_Log operate LOG_SUCCESS sec_d) s)
     else (ret, access_effect (Access_Log operate LOG_FAIL sec_d) (access_effect File_Access_Count s)))"

text \<open>\<open>magic\<close>: the mark on the stack that is set while the digest of a subject is computed.\<close>

definition smeasure_fac_file_open ::
  "jhash_fun \<Rightarrow> access_env \<Rightarrow> int option \<Rightarrow> bool \<Rightarrow> file_obj \<Rightarrow> access_state \<Rightarrow> (int \<times> access_state) option" where
  "smeasure_fac_file_open jhash env old magic f s =
     (if g_fac_switch s = 0 then Some (0, s)
      else if old \<noteq> None \<and> old \<noteq> Some 0 then Some (the old, s)
      else if file_filter f then Some (0, s)
      else if magic then Some (0, s)
      else if \<not> ae_sec_d env then Some (0, s)
      else (case ae_task env of None \<Rightarrow> Some (0, s)
      | Some taskpath \<Rightarrow>
          if is_super_process taskpath \<noteq> 0 then Some (0, s)
          else (case fi_path f of None \<Rightarrow> Some (0, s)
          | Some filename \<Rightarrow>
              let d = access_domain taskpath filename;
                  (listed, d1) = (if fi_write f then query_whitelist_path jhash (subject_hash (ae_fac env) True) d (ac_paths s) else (-1, d));
                  operate = (if fi_write f then OPERATE_WRITE else OPERATE_READ)
              in if listed = 0 then Some (open_out operate (- EACCES, d1) s)
                 else (case query_fac_policy_state (ae_fac env) d1 True (ac_rules s) of None \<Rightarrow> None
                       | Some (ret, d2) \<Rightarrow>
                           Some (open_out operate
                             (if ret = CONTROL_READ then - EACCES else if ret \<noteq> 0 \<and> fi_write f then - EACCES else 0, d2) s)))))"

section \<open>Configuration\<close>

definition update_fac_conf :: "global_control_policy \<Rightarrow> int \<Rightarrow> access_state \<Rightarrow> access_state" where
  "update_fac_conf p valid_license s = s\<lparr>g_fac_switch := valid_license\<rparr>"

definition fac_feature_conf_notify_func :: "feature_state \<Rightarrow> access_state \<Rightarrow> access_state" where
  "fac_feature_conf_notify_func fs s =
     (case get_global_feature_conf fs of (ret, p, tpcm_feature, valid_license) \<Rightarrow>
        if ret \<noteq> 0 then s else update_fac_conf p valid_license s)"

section \<open>Names\<close>

lemma access_domain_names:
  assumes "strlen t < LEN_NAME_MAX" "strlen p < LEN_NAME_MAX"
  shows "sub_string (access_domain t p) = cstr t" "cstr (obj_name (access_domain t p)) = cstr p"
  using cstr_name_field [OF assms(1)] cstr_name_field [OF assms(2)]
  by (simp_all add: access_domain_def sub_string_def Let_def)

text \<open>A rule matches when its pattern compiles and the matcher finds it in the name.\<close>

definition rule_matches :: "fac_env \<Rightarrow> byte list \<Rightarrow> mac_policy \<Rightarrow> bool" where
  "rule_matches env p m \<longleftrightarrow> (case fe_regexp env (cstr (mac_obj_name m)) (cstr p) of None \<Rightarrow> False | Some r \<Rightarrow> r \<noteq> 0)"

lemma wildcard_matches: "mac_wildcard_cmp env m name WILDCARD = 0 \<longleftrightarrow> rule_matches env name m"
  by (simp add: mac_wildcard_cmp_def rule_matches_def split: option.splits)

lemma rule_matches_cstr: "cstr p = cstr q \<Longrightarrow> rule_matches env p = rule_matches env q"
  by (simp add: rule_matches_def fun_eq_iff)

lemma query_misses: "fst (query_whitelist_path jhash calc d s) \<noteq> 0 \<Longrightarrow> snd (query_whitelist_path jhash calc d s) = d"
  by (simp add: query_whitelist_path_def Let_def split: if_splits)

section \<open>Properties\<close>

text \<open>What the rules answer to the opening of \<open>p\<close> by a program with the given digest.\<close>

definition open_denied :: "fac_env \<Rightarrow> (mac_policy \<Rightarrow> bool) \<Rightarrow> mac_policy list \<Rightarrow> byte list \<Rightarrow> byte list \<Rightarrow> bool \<Rightarrow> bool" where
  "open_denied env measured rules p h write \<longleftrightarrow>
     (case find (rule_matches env p) rules of None \<Rightarrow> False
      | Some m \<Rightarrow> rule_verdict m h (measured m) = CONTROL_READ \<or> rule_verdict m h (measured m) \<noteq> 0 \<and> write)"

text \<open>C4. Opening a file under access control: a path of the list cannot be opened for writing, and otherwise
  the first matching rule decides for the SM3 hash of the subject's program. Every decision is
  recorded once, and a refusal is also counted.\<close>

theorem fac_open_enforces_policy:
  assumes "g_fac_switch s \<noteq> 0" "old = None \<or> old = Some 0" "\<not> file_filter f" "ae_sec_d env"
    and "ae_task env = Some t" "is_super_process t = 0" "fi_path f = Some p" "strlen t < LEN_NAME_MAX" "strlen p < LEN_NAME_MAX"
    and "\<forall>m\<in>set (g_list_policy_fac (ac_rules s)). mac_wf m"
    and "fe_open (ae_fac env) True (cstr t) = Some g" "env_ok (fe_digest (ae_fac env))" "kfile_reads g c" "i_size g = length c" "kfile_progress g"
    and "\<forall>m\<in>set (g_list_policy_fac (ac_rules s)).
           measure_rule (ae_fac env) m ((access_domain t p)\<lparr>sub_hash := gb_sm3 c\<rparr>) True = Some (measured m)"
  shows "\<exists>r d. smeasure_fac_file_open jhash env old False f s = Some (r, s\<lparr>ac_effects := ac_effects s @
        (if r = 0 then [Access_Log (if fi_write f then OPERATE_WRITE else OPERATE_READ) LOG_SUCCESS d]
         else [File_Access_Count, Access_Log (if fi_write f then OPERATE_WRITE else OPERATE_READ) LOG_FAIL d])\<rparr>)
    \<and> r = (if fi_write f \<and> cstr p \<in> paths jhash (ac_paths s)
            \<or> open_denied (ae_fac env) measured (g_list_policy_fac (ac_rules s)) p (gb_sm3 c) (fi_write f) then - EACCES else 0)"
proof -
  let ?d = "access_domain t p" and ?rules = "g_list_policy_fac (ac_rules s)"
  let ?q = "query_whitelist_path jhash (subject_hash (ae_fac env) True) ?d (ac_paths s)"
  note names = access_domain_names [OF assms(8,9)]
  have q: "fst ?q = 0 \<longleftrightarrow> cstr p \<in> paths jhash (ac_paths s)" using query_iff names(2) by simp
  have opn: "fe_open (ae_fac env) True (sub_string ?d) = Some g" using assms(11) names(1) by simp
  have "(\<lambda>m. mac_wildcard_cmp (ae_fac env) m (obj_name ?d) WILDCARD = 0) = rule_matches (ae_fac env) p"
    using rule_matches_cstr [OF names(2)] by (simp add: wildcard_matches fun_eq_iff)
  note dec = fac_query_cases [OF assms(10) opn assms(12-16), unfolded this]
  show ?thesis
  proof (cases "fi_write f \<and> fst ?q = 0")
    case True
    obtain d1 where "?q = (0, d1)" using True by (cases ?q) simp
    with True q assms(1-9) show ?thesis
      by (intro exI [of _ "- EACCES"] exI [of _ d1]) (auto simp: smeasure_fac_file_open_def open_out_def access_effect_def Let_def)
  next
    case False
    define lq where "lq = (if fi_write f then ?q else (-1, ?d))"
    have lq: "fst lq \<noteq> 0" "snd lq = ?d" using False query_misses by (auto simp: lq_def)
    obtain v d2 where v: "query_fac_policy_state (ae_fac env) ?d True (ac_rules s) = Some (v, d2)"
      "open_denied (ae_fac env) measured ?rules p (gb_sm3 c) (fi_write f) \<longleftrightarrow> v = CONTROL_READ \<or> v \<noteq> 0 \<and> fi_write f"
      using dec by (cases "find (rule_matches (ae_fac env) p) ?rules") (auto simp: open_denied_def)
    have "smeasure_fac_file_open jhash env old False f s = Some (open_out (if fi_write f then OPERATE_WRITE else OPERATE_READ)
        (if v = CONTROL_READ then - EACCES else if v \<noteq> 0 \<and> fi_write f then - EACCES else 0, d2) s)"
      using assms(1-7) lq v(1) by (auto simp: smeasure_fac_file_open_def lq_def [symmetric] Let_def split: prod.splits)
    with False q v(2) show ?thesis
      by (intro exI [of _ "if v = CONTROL_READ \<or> v \<noteq> 0 \<and> fi_write f then - EACCES else 0"] exI [of _ d2])
         (auto simp: open_out_def access_effect_def)
  qed
qed

lemma access_control_rules: "g_list_policy_fac (ac_rules s) \<noteq> [] \<Longrightarrow> access_control jhash env d operate s = Some (0, s)"
  by (simp add: access_control_def is_empty_mac_policy_def)

lemma dentry_permission_rules:
  "g_list_policy_fac (ac_rules s) \<noteq> [] \<Longrightarrow> httc_dentry_permission jhash env d operate s = Some (0, s)"
  by (simp add: httc_dentry_permission_def httc_verify_permission_def access_control_rules)

text \<open>The test for an empty list of rules is the wrong way round: as soon as there is one rule, linking,
  renaming, creating and removing files and directories are all permitted and not recorded, for protected
  objects as well.\<close>

theorem rules_disable_name_checks:
  assumes "g_list_policy_fac (ac_rules s) \<noteq> []"
  shows "smeasure_inode_unlink jhash env None d s = Some (0, s) \<and> smeasure_inode_rename jhash env d d2 s = Some (0, s)
    \<and> smeasure_inode_link jhash env d d2 s = Some (0, s) \<and> smeasure_inode_create jhash env d s = Some (0, s)
    \<and> smeasure_inode_mkdir jhash env d s = Some (0, s) \<and> smeasure_inode_rmdir jhash env d s = Some (0, s)"
  using dentry_permission_rules [OF assms]
  by (simp add: smeasure_inode_unlink_def smeasure_inode_rename_def smeasure_inode_link_def smeasure_inode_create_def
      smeasure_inode_mkdir_def smeasure_inode_rmdir_def both_permitted_def)

text \<open>Without rules the list of unwritable paths decides: a file is removed unless its path is listed. The
  decision is recorded, and a refusal is counted.\<close>

theorem unlink_refuses_listed_paths:
  assumes "g_list_policy_fac (ac_rules s) = []" "g_fac_switch s \<noteq> 0" "old = None \<or> old = Some 0" "\<not> dentry_filter f" "ae_sec_d env"
    and "ae_task env = Some t" "is_super_process t = 0" "de_path f = Some p" "strlen t < LEN_NAME_MAX" "strlen p < LEN_NAME_MAX"
  shows "\<exists>d. smeasure_inode_unlink jhash env old f s = Some
    (if cstr p \<in> paths jhash (ac_paths s)
     then (- EACCES, s\<lparr>ac_effects := ac_effects s @ [Access_Log OPERATE_DELETE LOG_FAIL d, File_Access_Count]\<rparr>)
     else (0, s\<lparr>ac_effects := ac_effects s @ [Access_Log OPERATE_DELETE LOG_SUCCESS d]\<rparr>))"
proof -
  let ?q = "query_whitelist_path jhash (subject_hash (ae_fac env) False) (access_domain t p) (ac_paths s)"
  have q: "fst ?q = 0 \<longleftrightarrow> cstr p \<in> paths jhash (ac_paths s)"
    using query_iff access_domain_names(2) [OF assms(9,10)] by simp
  obtain r d where r: "?q = (r, d)" by fastforce
  have op: "OPERATE_DELETE AND OPERATE_RENAME = (0 :: int)" "OPERATE_DELETE AND OPERATE_READ = (0 :: int)"
    "OPERATE_DELETE AND OPERATE_CREATE = (0 :: int)" by simp_all
  have "access_control jhash env f OPERATE_DELETE s = Some (access_out OPERATE_DELETE (if r = 0 then - EACCES else 0, d) s)"
    using assms(1,5-8) r by (simp add: access_control_def is_empty_mac_policy_def query_fac_policy_state_def)
  with q r assms(2-4) show ?thesis
    by (intro exI [of _ d]) (auto simp: smeasure_inode_unlink_def httc_dentry_permission_def httc_verify_permission_def
        access_out_def access_effect_def)
qed

section \<open>A concrete state\<close>

text \<open>One unwritable path, \<open>/a\<close>, and no rules.\<close>

definition demo_access_env :: access_env where
  "demo_access_env = \<lparr>ae_fac = demo_fac_env, ae_sec_d = True, ae_task = Some [47, 98]\<rparr>"

definition demo_access :: access_state where
  "demo_access = \<lparr>ac_rules = \<lparr>g_list_policy_fac = [], fl_commands = Map.empty\<rparr>,
     ac_paths = path_empty\<lparr>path_table := (\<lambda>i. if i = 5 then [[47, 97]] else []), path_count := 1\<rparr>, g_fac_switch = 1, ac_effects = []\<rparr>"

definition demo_inode :: inode_obj where
  "demo_inode = \<lparr>in_special = False, in_dir = False, in_fs = Some ''ext4''\<rparr>"

lemma demo_access_ok:
  "cstr [47, 97] \<in> paths (\<lambda>_ _. 5) (ac_paths demo_access)" "is_super_process [47, 98] = 0"
  "strlen [47, 98] < LEN_NAME_MAX" "strlen [47, 97] < LEN_NAME_MAX" "g_fac_switch demo_access \<noteq> 0" "ac_effects demo_access = []"
  "g_list_policy_fac (ac_rules demo_access) = []"
  by (simp_all add: paths_def table_paths_def demo_access_def path_empty_def string_hash_key_def cstr_def no_nul_def
      is_super_process_def SUPER_PATH_def strlen_def LEN_NAME_MAX_def)

lemma demo_access_env_ok: "ae_sec_d demo_access_env" "ae_task demo_access_env = Some [47, 98]" "ae_fac demo_access_env = demo_fac_env"
  by (simp_all add: demo_access_env_def)

theorem fac_open_enforces_policy_witness:
  "\<exists>d. smeasure_fac_file_open (\<lambda>_ _. 5) demo_access_env None False \<lparr>fi_path = Some [47, 97], fi_inode = Some demo_inode, fi_write = True\<rparr>
      demo_access = Some (- EACCES, demo_access\<lparr>ac_effects := [File_Access_Count, Access_Log OPERATE_WRITE LOG_FAIL d]\<rparr>)"
proof -
  let ?f = "\<lparr>fi_path = Some [47, 97], fi_inode = Some demo_inode, fi_write = True\<rparr>"
  have f: "\<not> file_filter ?f" by (simp add: file_filter_def demo_inode_def special_type_filter_def)
  have e: "fe_open (ae_fac demo_access_env) True (cstr [47, 98]) = Some (exact_file [7])" "env_ok (fe_digest (ae_fac demo_access_env))"
    using demo_fac_env_ok by (simp_all add: demo_access_env_ok)
  from fac_open_enforces_policy [where old = None and f = ?f and p = "[47, 97]" and jhash = "\<lambda>_ _. 5",
      OF demo_access_ok(5) _ f demo_access_env_ok(1,2) demo_access_ok(2) _ demo_access_ok(3,4) _ e exact_file_ok(2-4)]
  show ?thesis using demo_access_ok(1,6,7) by auto
qed

theorem rules_disable_name_checks_witness:
  "smeasure_inode_unlink (\<lambda>_ _. 5) demo_access_env None \<lparr>de_path = Some [47, 97], de_inode = Some demo_inode\<rparr>
     (demo_access\<lparr>ac_rules := \<lparr>g_list_policy_fac = [demo_rule], fl_commands = Map.empty\<rparr>\<rparr>)
   = Some (0, demo_access\<lparr>ac_rules := \<lparr>g_list_policy_fac = [demo_rule], fl_commands = Map.empty\<rparr>\<rparr>)"
  using rules_disable_name_checks [of "demo_access\<lparr>ac_rules := \<lparr>g_list_policy_fac = [demo_rule], fl_commands = Map.empty\<rparr>\<rparr>"] by simp

theorem unlink_refuses_listed_paths_witness:
  "\<exists>d. smeasure_inode_unlink (\<lambda>_ _. 5) demo_access_env None \<lparr>de_path = Some [47, 97], de_inode = Some demo_inode\<rparr> demo_access
     = Some (- EACCES, demo_access\<lparr>ac_effects := [Access_Log OPERATE_DELETE LOG_FAIL d, File_Access_Count]\<rparr>)"
proof -
  let ?f = "\<lparr>de_path = Some [47, 97], de_inode = Some demo_inode\<rparr>"
  have "\<not> dentry_filter ?f" by (simp add: dentry_filter_def demo_inode_def special_type_filter_def)
  from unlink_refuses_listed_paths [where old = None and p = "[47, 97]" and jhash = "\<lambda>_ _. 5",
      OF demo_access_ok(7,5) _ this demo_access_env_ok(1,2) demo_access_ok(2) _ demo_access_ok(3,4)]
  show ?thesis using demo_access_ok(1,6) by simp
qed

end
