(* ===== verification/Mod_Protect.thy ===== *)
theory Mod_Protect
  imports Feature_Conf
begin

text \<open>
  Protection of the modules of the agent against being unloaded:
  tsb/kernel/platform/protection/mod_protect.c. A protected module holds one more reference of the
  kernel's module counter. The kernel's table of modules is the map \<open>modules\<close> from names to
  reference counts; \<open>get_ok\<close> tells whether \<open>try_module_get\<close> succeeds for a module.
  Finding the kernel's \<open>find_module\<close> through a kprobe is not modelled.
\<close>

section \<open>State and operations\<close>

abbreviation (input) HTTC_PROTECT_ON :: int where "HTTC_PROTECT_ON \<equiv> 1"
abbreviation (input) HTTC_PROTECT_OFF :: int where "HTTC_PROTECT_OFF \<equiv> 0"
definition PROTECT_MODS_ON :: u32 where "PROTECT_MODS_ON = 1"

record module_node =
  mn_name :: string
  mn_flag :: int

type_synonym modules = "string \<Rightarrow> nat option"

record mod_state =
  protect_modules :: "module_node list"
  kernel_modules :: modules

definition protect_modules_start :: "module_node list" where
  "protect_modules_start =
     map (\<lambda>n. \<lparr>mn_name = n, mn_flag = 0\<rparr>)
       [''platform'', ''httcsmeasure'', ''httcdmeasure'', ''httcfac'', ''httcnet'', ''httcudisk'']"

definition httc_mod_refcnt_inc :: "(string \<Rightarrow> bool) \<Rightarrow> string \<Rightarrow> modules \<Rightarrow> int \<times> modules" where
  "httc_mod_refcnt_inc get_ok name km =
     (case km name of None \<Rightarrow> (- ENOENT, km)
      | Some r \<Rightarrow> if \<not> get_ok name then (- ENODEV, km) else (0, km(name \<mapsto> r + 1)))"

definition httc_mod_refcnt_dec :: "string \<Rightarrow> modules \<Rightarrow> int \<times> modules" where
  "httc_mod_refcnt_dec name km =
     (case km name of None \<Rightarrow> (- ENOENT, km) | Some r \<Rightarrow> (0, km(name \<mapsto> r - 1)))"

definition protect_on :: "(string \<Rightarrow> bool) \<Rightarrow> u32 \<Rightarrow> module_node \<Rightarrow> modules \<Rightarrow> module_node \<times> modules" where
  "protect_on get_ok status m km =
     (if status AND PROTECT_MODS_ON \<noteq> 0 \<and> mn_flag m = HTTC_PROTECT_OFF
      then let (ret, km') = httc_mod_refcnt_inc get_ok (mn_name m) km
           in (if ret = 0 then m\<lparr>mn_flag := HTTC_PROTECT_ON\<rparr> else m, km')
      else (m, km))"

definition protect_off :: "u32 \<Rightarrow> module_node \<Rightarrow> modules \<Rightarrow> module_node \<times> modules" where
  "protect_off status m km =
     (if status AND PROTECT_MODS_ON = 0 \<and> mn_flag m = HTTC_PROTECT_ON
      then let (ret, km') = httc_mod_refcnt_dec (mn_name m) km
           in (if ret = 0 then m\<lparr>mn_flag := HTTC_PROTECT_OFF\<rparr> else m, km')
      else (m, km))"

fun protect_all :: "(string \<Rightarrow> bool) \<Rightarrow> u32 \<Rightarrow> module_node list \<Rightarrow> modules \<Rightarrow> module_node list \<times> modules" where
  "protect_all get_ok status [] km = ([], km)"
| "protect_all get_ok status (m # ms) km =
     (let (m1, km1) = protect_on get_ok status m km;
          (m2, km2) = protect_off status m1 km1;
          (ms', km') = protect_all get_ok status ms km2
      in (m2 # ms', km'))"

definition httc_all_module_protect_on :: "(string \<Rightarrow> bool) \<Rightarrow> u32 \<Rightarrow> mod_state \<Rightarrow> int \<times> mod_state" where
  "httc_all_module_protect_on get_ok status s =
     (let (ms, km) = protect_all get_ok status (protect_modules s) (kernel_modules s)
      in (0, \<lparr>protect_modules = ms, kernel_modules = km\<rparr>))"

definition protection_feature_conf_notify_func :: "(string \<Rightarrow> bool) \<Rightarrow> feature_state \<Rightarrow> mod_state \<Rightarrow> mod_state" where
  "protection_feature_conf_notify_func get_ok fs s =
     (case get_global_feature_conf fs of (ret, policy, feature, license) \<Rightarrow>
        if ret \<noteq> 0 then s else snd (httc_all_module_protect_on get_ok (be_tsb_flag1 policy) s))"

definition httc_module_protect_init :: "feature_state \<Rightarrow> int \<times> feature_state" where
  "httc_module_protect_init fs =
     (let (ret, fs') = register_feature_conf_notify FEATURE_PROTECTION ''protection_feature_conf_notify_func'' fs
      in if ret \<noteq> 0 then (-1, fs') else (0, fs'))"

definition httc_module_protect_exit :: "feature_state \<Rightarrow> feature_state" where
  "httc_module_protect_exit fs =
     snd (unregister_feature_conf_notify FEATURE_PROTECTION ''protection_feature_conf_notify_func'' fs)"

text \<open>Zero: the module is protected and must not be unloaded.\<close>

definition check_module_protect_status :: "string \<Rightarrow> mod_state \<Rightarrow> int" where
  "check_module_protect_status name s =
     (case find (\<lambda>m. mn_name m = name) (protect_modules s) of
        Some m \<Rightarrow> if mn_flag m = HTTC_PROTECT_ON then 0 else if mn_flag m = HTTC_PROTECT_OFF then 1 else -1
      | None \<Rightarrow> 1)"

fun protect_one :: "(string \<Rightarrow> bool) \<Rightarrow> u32 \<Rightarrow> string \<Rightarrow> module_node list \<Rightarrow> modules \<Rightarrow> (module_node list \<times> modules) option" where
  "protect_one get_ok status name [] km = None"
| "protect_one get_ok status name (m # ms) km =
     (if mn_name m = name then (let (m', km') = protect_on get_ok status m km in Some (m' # ms, km'))
      else map_option (\<lambda>(ms', km'). (m # ms', km')) (protect_one get_ok status name ms km))"

definition httc_protect_module_on :: "(string \<Rightarrow> bool) \<Rightarrow> string \<Rightarrow> feature_state \<Rightarrow> mod_state \<Rightarrow> int \<times> mod_state" where
  "httc_protect_module_on get_ok name fs s =
     (case get_global_feature_conf fs of (ret, policy, feature, license) \<Rightarrow>
        case protect_one get_ok (be_tsb_flag1 policy) name (protect_modules s) (kernel_modules s) of
          None \<Rightarrow> (-1, s)
        | Some (ms, km) \<Rightarrow> if ret \<noteq> 0 then (-1, s) else (0, \<lparr>protect_modules = ms, kernel_modules = km\<rparr>))"

section \<open>References\<close>

text \<open>
  A protected module is loaded and one of its references is the one taken here; what is left is
  held by others.
\<close>

definition node_held :: "modules \<Rightarrow> module_node \<Rightarrow> bool" where
  "node_held km m \<longleftrightarrow> mn_flag m = HTTC_PROTECT_OFF
     \<or> mn_flag m = HTTC_PROTECT_ON \<and> (\<exists>r. km (mn_name m) = Some (Suc r))"

definition held_inv :: "mod_state \<Rightarrow> bool" where
  "held_inv s \<longleftrightarrow> distinct (map mn_name (protect_modules s)) \<and> (\<forall>m\<in>set (protect_modules s). node_held (kernel_modules s) m)"

definition on_bit :: "u32 \<Rightarrow> bool" where
  "on_bit status \<longleftrightarrow> status AND PROTECT_MODS_ON \<noteq> 0"

text \<open>One module of the list.\<close>

definition protect_node :: "(string \<Rightarrow> bool) \<Rightarrow> u32 \<Rightarrow> module_node \<Rightarrow> modules \<Rightarrow> module_node \<times> modules" where
  "protect_node get_ok status m km = (let (m1, km1) = protect_on get_ok status m km in protect_off status m1 km1)"

lemma protect_all_Cons:
  "protect_all get_ok status (m # ms) km =
     (let (m', km1) = protect_node get_ok status m km; (ms', km') = protect_all get_ok status ms km1 in (m' # ms', km'))"
  by (simp add: protect_node_def Let_def split_beta)

lemma protect_node_eq:
  assumes "node_held km m"
  shows "protect_node get_ok status m km =
    (if on_bit status
     then if mn_flag m = 0 \<and> km (mn_name m) \<noteq> None \<and> get_ok (mn_name m)
          then (m\<lparr>mn_flag := 1\<rparr>, km(mn_name m \<mapsto> Suc (the (km (mn_name m))))) else (m, km)
     else if mn_flag m = 1 then (m\<lparr>mn_flag := 0\<rparr>, km(mn_name m \<mapsto> the (km (mn_name m)) - 1)) else (m, km))"
proof (cases "mn_flag m = 0")
  case True
  then show ?thesis
    by (cases "km (mn_name m)")
       (simp_all add: protect_node_def protect_on_def protect_off_def httc_mod_refcnt_inc_def on_bit_def)
next
  case False
  with assms obtain r where "mn_flag m = 1" "km (mn_name m) = Some (Suc r)" by (auto simp: node_held_def)
  then show ?thesis
    by (simp add: protect_node_def protect_on_def protect_off_def httc_mod_refcnt_dec_def on_bit_def)
qed

lemma protect_node_cases:
  assumes "node_held km m" "protect_node get_ok status m km = (m', km')"
  shows "mn_name m' = mn_name m" "\<forall>n. n \<noteq> mn_name m \<longrightarrow> km' n = km n" "node_held km' m'"
    "map_option (\<lambda>r. int r - mn_flag m') (km' (mn_name m)) = map_option (\<lambda>r. int r - mn_flag m) (km (mn_name m))"
    "mn_flag m' = (if on_bit status then
        (if mn_flag m = 1 \<or> km (mn_name m) \<noteq> None \<and> get_ok (mn_name m) then 1 else 0) else 0)"
proof -
  have f: "mn_flag m = 0 \<or> mn_flag m = 1 \<and> (\<exists>r. km (mn_name m) = Some (Suc r))"
    using assms(1) by (simp add: node_held_def)
  have eq: "(if on_bit status
     then if mn_flag m = 0 \<and> km (mn_name m) \<noteq> None \<and> get_ok (mn_name m)
          then (m\<lparr>mn_flag := 1\<rparr>, km(mn_name m \<mapsto> Suc (the (km (mn_name m))))) else (m, km)
     else if mn_flag m = 1 then (m\<lparr>mn_flag := 0\<rparr>, km(mn_name m \<mapsto> the (km (mn_name m)) - 1)) else (m, km)) = (m', km')"
    using assms(2) unfolding protect_node_eq [OF assms(1)] .
  show "mn_name m' = mn_name m" "\<forall>n. n \<noteq> mn_name m \<longrightarrow> km' n = km n"
    using eq by (auto split: if_splits)
  show "node_held km' m'" using eq f by (auto simp: node_held_def split: if_splits)
  show "map_option (\<lambda>r. int r - mn_flag m') (km' (mn_name m)) = map_option (\<lambda>r. int r - mn_flag m) (km (mn_name m))"
    using eq f by (auto split: if_splits)
  show "mn_flag m' = (if on_bit status then
        (if mn_flag m = 1 \<or> km (mn_name m) \<noteq> None \<and> get_ok (mn_name m) then 1 else 0) else 0)"
    using eq f by (auto split: if_splits)
qed

text \<open>What happens to one module: the references of others stay, and the flag follows the policy bit if
  the module is there and lets itself be referenced.\<close>

definition node_change :: "(string \<Rightarrow> bool) \<Rightarrow> u32 \<Rightarrow> modules \<Rightarrow> modules \<Rightarrow> module_node \<Rightarrow> module_node \<Rightarrow> bool" where
  "node_change get_ok status km km' m m' \<longleftrightarrow> mn_name m' = mn_name m
     \<and> map_option (\<lambda>r. int r - mn_flag m') (km' (mn_name m)) = map_option (\<lambda>r. int r - mn_flag m) (km (mn_name m))
     \<and> mn_flag m' = (if on_bit status then
          (if mn_flag m = 1 \<or> km (mn_name m) \<noteq> None \<and> get_ok (mn_name m) then 1 else 0) else 0)"

lemma protect_all_ok:
  assumes "protect_all get_ok status ms km = (ms', km')" "distinct (map mn_name ms)" "\<forall>m\<in>set ms. node_held km m"
  shows "(\<forall>m\<in>set ms'. node_held km' m) \<and> (\<forall>n. n \<notin> mn_name ` set ms \<longrightarrow> km' n = km n)
    \<and> list_all2 (node_change get_ok status km km') ms ms'"
  using assms
proof (induction ms arbitrary: km ms' km')
  case (Cons m ms)
  obtain m1 km1 where n: "protect_node get_ok status m km = (m1, km1)" by fastforce
  obtain ms1 where a: "protect_all get_ok status ms km1 = (ms1, km')" "ms' = m1 # ms1"
    using Cons.prems(1) n unfolding protect_all_Cons by (auto split: prod.splits)
  have held: "node_held km m" and new: "mn_name m \<notin> mn_name ` set ms" and dist: "distinct (map mn_name ms)"
    using Cons.prems by auto
  note node = protect_node_cases [OF held n]
  have same: "km1 (mn_name x) = km (mn_name x)" if "x \<in> set ms" for x
  proof -
    have "mn_name x \<noteq> mn_name m" using new that by (metis imageI)
    then show ?thesis using node(2) by blast
  qed
  then have "\<forall>x\<in>set ms. node_held km1 x"
    using Cons.prems(3) by (simp add: node_held_def)
  note IH = Cons.IH [OF a(1) dist this]
  then have m: "km' (mn_name m) = km1 (mn_name m)" using new by blast
  have tail: "list_all2 (node_change get_ok status km km') ms ms1"
  proof (rule list.rel_mono_strong [OF conjunct2 [OF conjunct2 [OF IH]]])
    fix z y assume z: "z \<in> set ms" and y: "node_change get_ok status km1 km' z y"
    show "node_change get_ok status km km' z y"
      using y unfolding node_change_def same [OF z] .
  qed
  have head: "node_change get_ok status km km' m m1"
    unfolding node_change_def m using node(1,4,5) by blast
  have first: "node_held km' m1" using node(1,3) m by (simp add: node_held_def)
  have others: "\<forall>n. n \<notin> mn_name ` set (m # ms) \<longrightarrow> km' n = km n"
    using IH node(2) by (metis image_insert insertCI list.simps(15))
  show ?case
    using tail head first others IH unfolding a(2) by simp
qed simp

lemma node_change_names:
  "list_all2 (node_change get_ok status km km') ms ms' \<Longrightarrow> map mn_name ms' = map mn_name ms"
  by (induction rule: list_all2_induct) (auto simp: node_change_def)

section \<open>Properties\<close>

text \<open>C39. Applying the policy bit to the modules of the list: every protected module is loaded and holds
  exactly one reference of the agent, the references of others and the modules that are not listed
  are left alone, and afterwards the flag of a module that is loaded and can be referenced
  is the policy bit.\<close>

theorem module_protection_follows_policy:
  assumes "held_inv s" "httc_all_module_protect_on get_ok status s = (r, s')"
  shows "r = 0 \<and> held_inv s'
    \<and> list_all2 (node_change get_ok status (kernel_modules s) (kernel_modules s')) (protect_modules s) (protect_modules s')
    \<and> (\<forall>n. n \<notin> mn_name ` set (protect_modules s) \<longrightarrow> kernel_modules s' n = kernel_modules s n)"
proof -
  obtain ms km where all: "protect_all get_ok status (protect_modules s) (kernel_modules s) = (ms, km)" by fastforce
  with assms(2) have s': "r = 0" "s' = \<lparr>protect_modules = ms, kernel_modules = km\<rparr>"
    by (simp_all add: httc_all_module_protect_on_def)
  have inv: "distinct (map mn_name (protect_modules s))" "\<forall>m\<in>set (protect_modules s). node_held (kernel_modules s) m"
    using assms(1) unfolding held_inv_def by blast+
  note ok = protect_all_ok [OF all inv]
  then have "distinct (map mn_name ms)" using node_change_names inv(1) by metis
  with ok s' show ?thesis by (simp add: held_inv_def)
qed

text \<open>A loaded platform module with one user, and the policy bit on.\<close>

definition mod_demo :: mod_state where
  "mod_demo = \<lparr>protect_modules = protect_modules_start, kernel_modules = [''platform'' \<mapsto> 1]\<rparr>"

lemma mod_demo_inv: "held_inv mod_demo"
  by (simp add: held_inv_def mod_demo_def protect_modules_start_def node_held_def)

theorem module_protection_follows_policy_witness:
  "case httc_all_module_protect_on (\<lambda>_. True) 1 mod_demo of (r, s') \<Rightarrow>
     held_inv s' \<and> kernel_modules s' ''platform'' = Some 2 \<and> check_module_protect_status ''platform'' s' = 0
     \<and> check_module_protect_status ''httcfac'' s' = 1"
proof -
  obtain r s' where s': "httc_all_module_protect_on (\<lambda>_. True) 1 mod_demo = (r, s')" by fastforce
  have "held_inv s'" using module_protection_follows_policy [OF mod_demo_inv s'] by blast
  moreover have "kernel_modules s' ''platform'' = Some 2 \<and> check_module_protect_status ''platform'' s' = 0
     \<and> check_module_protect_status ''httcfac'' s' = 1"
    using s' by (auto simp: mod_demo_def protect_modules_start_def httc_all_module_protect_on_def protect_on_def
        protect_off_def httc_mod_refcnt_inc_def check_module_protect_status_def PROTECT_MODS_ON_def)
  ultimately show ?thesis by (simp add: s')
qed

end
