(* ===== verification/Hooks.thy ===== *)
theory Hooks
  imports Command_Table
begin

text \<open>
  The chain of hook tables: tsb/kernel/platform/engine/engine.c. A module that wants to intercept takes the
  current table, copies it, replaces its own entries and registers the copy in place of the old one;
  its hooks call the old table's entries first. A reference on the module of the old table keeps
  it loaded as long as a table above it is in use.

  Tables are objects on a heap; pointers are addresses. \<open>None\<close> is an access to memory that is not
  allocated. Waiting for running hooks to drain is a parameter: \<open>drained\<close> says that they end.
\<close>

section \<open>Definitions\<close>

type_synonym hook_addr = nat

record httcsec_intercept_module =
  hk_funcs :: "string \<Rightarrow> fptr option"
  hk_module :: string

record hook_state =
  hk_heap :: "hook_addr \<Rightarrow> httcsec_intercept_module option"
  hookfunc :: "hook_addr option"
  hk_refs :: "string \<Rightarrow> int"

definition module_put :: "string \<Rightarrow> hook_state \<Rightarrow> hook_state" where
  "module_put m s = s\<lparr>hk_refs := (hk_refs s)(m := hk_refs s m - 1)\<rparr>"

definition module_get :: "string \<Rightarrow> hook_state \<Rightarrow> hook_state" where
  "module_get m s = s\<lparr>hk_refs := (hk_refs s)(m := hk_refs s m + 1)\<rparr>"

definition httcsec_register_hook :: "hook_addr option \<Rightarrow> hook_addr option \<Rightarrow> hook_state \<Rightarrow> (int \<times> hook_state) option" where
  "httcsec_register_hook old_hook new_hook s =
     (if old_hook \<noteq> hookfunc s
      then (case old_hook of None \<Rightarrow> None
            | Some a \<Rightarrow> map_option (\<lambda>h. (-1, module_put (hk_module h) s)) (hk_heap s a))
      else Some (0, if new_hook \<noteq> None then s\<lparr>hookfunc := new_hook\<rparr> else s))"

definition httcsec_unregister_hook :: "bool \<Rightarrow> hook_addr option \<Rightarrow> hook_addr option \<Rightarrow> hook_state \<Rightarrow> (int \<times> hook_state) option" where
  "httcsec_unregister_hook drained old_hook new_hook s =
     (let s1 = (if new_hook = hookfunc s
                then (case new_hook of None \<Rightarrow> None
                      | Some a \<Rightarrow> if hk_heap s a = None \<or> \<not> drained then None else Some (s\<lparr>hookfunc := old_hook\<rparr>))
                else Some s)
      in case s1 of None \<Rightarrow> None
         | Some s1 \<Rightarrow> (case old_hook of None \<Rightarrow> Some (0, s1)
             | Some a \<Rightarrow> map_option (\<lambda>h. (0, module_put (hk_module h) s1)) (hk_heap s1 a)))"

definition httcsec_get_hook :: "hook_state \<Rightarrow> (hook_addr option \<times> hook_state) option" where
  "httcsec_get_hook s = (case hookfunc s of None \<Rightarrow> Some (None, s)
     | Some a \<Rightarrow> map_option (\<lambda>h. (Some a, module_get (hk_module h) s)) (hk_heap s a))"

text \<open>
  How an engine installs its table: the new table at \<open>self\<close> (\<open>None\<close> if kzalloc fails, which is not
  tested), a copy of the old one with the engine's own functions.
\<close>

definition install_hook ::
  "(string \<rightharpoonup> fptr) \<Rightarrow> string \<Rightarrow> hook_addr option \<Rightarrow> hook_state \<Rightarrow> (int \<times> hook_addr option \<times> hook_state) option" where
  "install_hook funcs modname self s =
     (case httcsec_get_hook s of None \<Rightarrow> None
      | Some (old, s1) \<Rightarrow>
          (case self of None \<Rightarrow> None
           | Some a \<Rightarrow>
               (case (case old of None \<Rightarrow> Some Map.empty | Some b \<Rightarrow> map_option hk_funcs (hk_heap s1 b)) of None \<Rightarrow> None
                | Some fs \<Rightarrow>
                    map_option (\<lambda>(r, s2). (r, old, s2))
                      (httcsec_register_hook old (Some a)
                         (s1\<lparr>hk_heap := (hk_heap s1)(a \<mapsto> \<lparr>hk_funcs = fs ++ funcs, hk_module = modname\<rparr>)\<rparr>)))))"

text \<open>How it takes the table out again and frees it.\<close>

definition remove_hook :: "bool \<Rightarrow> hook_addr option \<Rightarrow> hook_addr option \<Rightarrow> hook_state \<Rightarrow> (int \<times> hook_state) option" where
  "remove_hook drained old self s =
     map_option (\<lambda>(r, s1). (r, case self of None \<Rightarrow> s1 | Some a \<Rightarrow> s1\<lparr>hk_heap := (hk_heap s1)(a := None)\<rparr>))
       (httcsec_unregister_hook drained old self s)"

section \<open>The chain\<close>

text \<open>The tables in use, the newest first, each with its module and the table below it.\<close>

datatype chain_entry = Entry (ce_addr: hook_addr) (ce_module: string)

definition chain_old :: "chain_entry list \<Rightarrow> hook_addr option" where
  "chain_old c = (case c of [] \<Rightarrow> None | e # _ \<Rightarrow> Some (ce_addr e))"

text \<open>
  The invariant: the current table is the newest of the chain, every table of the chain is allocated,
  and a module holds at least one reference for each of its tables that another one lies upon.
\<close>

definition pinned :: "chain_entry list \<Rightarrow> string \<Rightarrow> int" where
  "pinned c m = int (length (filter (\<lambda>e. ce_module e = m) (tl c)))"

definition chain_ok :: "(string \<Rightarrow> int) \<Rightarrow> chain_entry list \<Rightarrow> hook_state \<Rightarrow> bool" where
  "chain_ok base c s \<longleftrightarrow> distinct (map ce_addr c) \<and> hookfunc s = chain_old c
     \<and> (\<forall>e\<in>set c. \<exists>h. hk_heap s (ce_addr e) = Some h \<and> hk_module h = ce_module e)
     \<and> (\<forall>m. hk_refs s m = base m + pinned c m)"

lemma pinned_Cons: "pinned (e # c) m = (case c of [] \<Rightarrow> 0 | e' # _ \<Rightarrow> pinned c m + (if ce_module e' = m then 1 else 0))"
  by (simp add: pinned_def split: list.splits)

text \<open>The functions that the current table calls.\<close>

definition current_funcs :: "hook_state \<Rightarrow> string \<rightharpoonup> fptr" where
  "current_funcs s = (case hookfunc s of None \<Rightarrow> Map.empty | Some a \<Rightarrow> (case hk_heap s a of None \<Rightarrow> Map.empty | Some h \<Rightarrow> hk_funcs h))"

lemma install_ok:
  assumes "chain_ok base c s" "hk_heap s a = None"
  obtains s' where "install_hook funcs m (Some a) s = Some (0, chain_old c, s')" "chain_ok base (Entry a m # c) s'"
    "current_funcs s' = current_funcs s ++ funcs" "\<forall>b. b \<noteq> a \<longrightarrow> hk_heap s' b = hk_heap s b"
proof -
  have old: "hookfunc s = chain_old c" and ent: "\<And>e. e \<in> set c \<Longrightarrow> \<exists>h. hk_heap s (ce_addr e) = Some h \<and> hk_module h = ce_module e"
    and refs: "\<And>n. hk_refs s n = base n + pinned c n" and dist: "distinct (map ce_addr c)"
    using assms(1) by (auto simp: chain_ok_def)
  have fresh: "a \<notin> ce_addr ` set c" using ent assms(2) by fastforce
  show ?thesis
  proof (cases c)
    case Nil
    let ?s = "s\<lparr>hk_heap := (hk_heap s)(a \<mapsto> \<lparr>hk_funcs = funcs, hk_module = m\<rparr>), hookfunc := Some a\<rparr>"
    have "install_hook funcs m (Some a) s = Some (0, chain_old c, ?s)"
      using old Nil by (simp add: install_hook_def httcsec_get_hook_def httcsec_register_hook_def chain_old_def)
    moreover have "chain_ok base (Entry a m # c) ?s"
      using refs Nil by (simp add: chain_ok_def chain_old_def pinned_def)
    moreover have "current_funcs ?s = current_funcs s ++ funcs"
      using old Nil by (simp add: current_funcs_def chain_old_def)
    ultimately show ?thesis using that by fastforce
  next
    case (Cons e r)
    then obtain h where h: "hk_heap s (ce_addr e) = Some h" "hk_module h = ce_module e" using ent [of e] by auto
    let ?h = "\<lparr>hk_funcs = hk_funcs h ++ funcs, hk_module = m\<rparr>"
    let ?s = "(module_get (ce_module e) s)\<lparr>hk_heap := (hk_heap s)(a \<mapsto> ?h), hookfunc := Some a\<rparr>"
    have ne: "ce_addr e \<noteq> a" using fresh Cons by auto
    have "install_hook funcs m (Some a) s = Some (0, chain_old c, ?s)"
      using old Cons h by (simp add: install_hook_def httcsec_get_hook_def httcsec_register_hook_def chain_old_def module_get_def)
    moreover have "chain_ok base (Entry a m # c) ?s"
      using refs Cons fresh dist ent by (auto simp: chain_ok_def chain_old_def module_get_def pinned_Cons)
    moreover have "current_funcs ?s = current_funcs s ++ funcs"
      using old Cons h ne by (simp add: current_funcs_def chain_old_def)
    moreover have "\<forall>b. b \<noteq> a \<longrightarrow> hk_heap ?s b = hk_heap s b" by simp
    ultimately show ?thesis using that by blast
  qed
qed

lemma remove_ok:
  assumes "chain_ok base (Entry a m # c) s"
  obtains s' where "remove_hook True (chain_old c) (Some a) s = Some (0, s')" "chain_ok base c s'"
    "hk_heap s' a = None" "\<forall>b. b \<noteq> a \<longrightarrow> hk_heap s' b = hk_heap s b"
proof -
  have top: "hookfunc s = Some a" and ent: "\<And>e. e \<in> set (Entry a m # c) \<Longrightarrow> \<exists>h. hk_heap s (ce_addr e) = Some h \<and> hk_module h = ce_module e"
    and refs: "\<And>n. hk_refs s n = base n + pinned (Entry a m # c) n" and dist: "distinct (a # map ce_addr c)"
    using assms by (auto simp: chain_ok_def chain_old_def)
  have a: "hk_heap s a \<noteq> None" using ent [of "Entry a m"] by auto
  show ?thesis
  proof (cases c)
    case Nil
    let ?s = "s\<lparr>hk_heap := (hk_heap s)(a := None), hookfunc := None\<rparr>"
    have "remove_hook True (chain_old c) (Some a) s = Some (0, ?s)"
      using top a Nil by (simp add: remove_hook_def httcsec_unregister_hook_def chain_old_def)
    moreover have "chain_ok base c ?s"
      using refs Nil by (simp add: chain_ok_def chain_old_def pinned_def)
    ultimately show ?thesis using that by fastforce
  next
    case (Cons e r)
    then obtain h where h: "hk_heap s (ce_addr e) = Some h" "hk_module h = ce_module e" using ent [of e] by auto
    let ?s = "(module_put (ce_module e) s)\<lparr>hk_heap := (hk_heap s)(a := None), hookfunc := Some (ce_addr e)\<rparr>"
    have "remove_hook True (chain_old c) (Some a) s = Some (0, ?s)"
      using top a h Cons by (simp add: remove_hook_def httcsec_unregister_hook_def chain_old_def module_put_def)
    moreover have "chain_ok base c ?s"
      using refs Cons dist ent by (auto simp: chain_ok_def chain_old_def module_put_def pinned_Cons)
    moreover have "hk_heap ?s a = None" "\<forall>b. b \<noteq> a \<longrightarrow> hk_heap ?s b = hk_heap s b" by simp_all
    ultimately show ?thesis using that by blast
  qed
qed

end
