(* ===== verification/Engines.thy ===== *)
theory Engines
  imports Smeasure_Engine Access_Control Mod_Protect Hooks
begin

text \<open>
  How the two engines are put into the kernel: \<open>smeasure_engine_init\<close> and \<open>smeasure_engine_exit\<close>
  (tsb/kernel/smeasure/engine/smeasure_engine.c), \<open>accessctl_engine_init\<close> and \<open>accessctl_engine_exit\<close>
  (tsb/kernel/accessctl/engine/ac_engine.c), the modules' entry points (tsb/kernel/smeasure/smeasure.c and
  tsb/kernel/accessctl/fac.c), and the dispatch of the security hooks
  (tsb/kernel/platform/hook/lsm_version/lsm_4.17.c).

  Each engine registers for changes of the global policy and lays its table of hooks upon the
  current one; its own hooks ask the table below first.
\<close>

section \<open>The static measurement engine\<close>

definition smeasure_hooks :: "string \<rightharpoonup> fptr" where
  "smeasure_hooks = [''bprm_check_security'' \<mapsto> ''smeasure_bprm_check_security'', ''mmap_file'' \<mapsto> ''smeasure_mmap_file'',
     ''kernel_read_file'' \<mapsto> ''smeasure_kernel_read_file'', ''init_module'' \<mapsto> ''smeasure_init_module'',
     ''file_open'' \<mapsto> ''smeasure_file_open'', ''task_kill'' \<mapsto> ''smeasure_task_kill'']"

record smeasure_module =
  sm_engine :: engine_state
  sm_feature :: feature_state
  sm_mods :: mod_state
  sm_hooks :: hook_state
  sm_old :: "hook_addr option"

text \<open>\<open>self\<close> is the address that kzalloc returns for the table. The policy is read as it is when a change
  is announced.\<close>

definition smeasure_engine_init :: "hook_addr option \<Rightarrow> smeasure_module \<Rightarrow> (int \<times> smeasure_module) option" where
  "smeasure_engine_init self s =
     (let e1 = whitelist_feature_conf_notify_func (sm_feature s) (sm_engine s);
          f1 = snd (register_feature_conf_notify FEATURE_WHITELIST ''whitelist_feature_conf_notify_func'' (sm_feature s))
      in case install_hook smeasure_hooks ''httcsmeasure'' self (sm_hooks s) of None \<Rightarrow> None
         | Some (ret, old, h1) \<Rightarrow>
             Some (ret, s\<lparr>sm_engine := e1\<lparr>en_wq := smeasure_wqueue_init (en_wq e1)\<rparr>, sm_feature := f1, sm_hooks := h1, sm_old := old\<rparr>))"

definition smeasure_engine_exit :: "bool \<Rightarrow> hook_addr option \<Rightarrow> smeasure_module \<Rightarrow> (int \<times> smeasure_module) option" where
  "smeasure_engine_exit drained self s =
     map_option (\<lambda>(ret, h1). (ret, s\<lparr>sm_hooks := h1, sm_feature :=
         snd (unregister_feature_conf_notify FEATURE_WHITELIST ''whitelist_feature_conf_notify_func'' (sm_feature s))\<rparr>))
       (remove_hook drained (sm_old s) self (sm_hooks s))"

section \<open>Loading the static measurement module\<close>

text \<open>What the kernel, the trusted module and the files answer while the module is loaded; each policy file
  is opened twice.\<close>

record smeasure_boot =
  sb_flush :: int
  sb_jhash :: jhash_fun
  sb_kz :: "whitelist_digest \<Rightarrow> bool"
  sb_digest :: digest_env
  sb_vallocs :: "bool \<times> bool"
  sb_hash :: "byte list"
  sb_wl_alloc :: bool
  sb_wl_random :: u32
  sb_cache_alloc :: "nat \<Rightarrow> bool"
  sb_cache_random :: u32
  sb_wl_tpcm :: "int \<times> byte list \<times> nat"
  sb_wl_files :: "kfile option \<times> kfile option"
  sb_cc_alloc :: bool
  sb_cc_random :: u32
  sb_cc_tpcm :: "int \<times> byte list \<times> nat"
  sb_cc_files :: "kfile option \<times> kfile option"
  sb_get_ok :: "string \<Rightarrow> bool"
  sb_notifier :: int
  sb_self :: "hook_addr option"

definition set_wl :: "whitelist_state \<Rightarrow> smeasure_module \<Rightarrow> smeasure_module" where
  "set_wl w s = s\<lparr>sm_engine := (sm_engine s)\<lparr>en_wl := w\<rparr>\<rparr>"

definition set_cc :: "confile_state \<Rightarrow> smeasure_module \<Rightarrow> smeasure_module" where
  "set_cc c s = s\<lparr>sm_engine := (sm_engine s)\<lparr>en_cc := c\<rparr>\<rparr>"

definition sm_commands :: "smeasure_module \<Rightarrow> cmd_table" where
  "sm_commands s = fc_commands (sm_feature s)"

definition set_commands :: "cmd_table \<Rightarrow> smeasure_module \<Rightarrow> smeasure_module" where
  "set_commands c s = s\<lparr>sm_feature := (sm_feature s)\<lparr>fc_commands := c\<rparr>\<rparr>"

text \<open>The commands of the module. The first four must be free; the last one need not be.\<close>

definition smeasure_commands :: "(int \<times> fptr) list" where
  "smeasure_commands = [(COMMAND_ADD_WHITELIST_POLICY, ''ioctl_whitelist_add_policy''),
     (COMMAND_DELETE_WHITELIST_POLICY, ''ioctl_whitelist_del_policy''), (COMMAND_RELOAD_WHITELIST_POLICY, ''ioctl_whitelist_reload_policy''),
     (COMMAND_RELOAD_CRITICAL_CONFILE_POLICY, ''ioctl_critical_confile_reload_policy'')]"

text \<open>The labels \<open>whitelist_cache_init_err_out\<close> and \<open>whitelist_init_err_out\<close> of the code.\<close>

definition whitelist_init_err_out :: "int \<Rightarrow> smeasure_module \<Rightarrow> (int \<times> smeasure_module) option" where
  "whitelist_init_err_out ret s = map_option (\<lambda>w. (ret, set_wl w s)) (whitelist_exit (en_wl (sm_engine s)))"

definition whitelist_cache_init_err_out :: "int \<Rightarrow> smeasure_module \<Rightarrow> (int \<times> smeasure_module) option" where
  "whitelist_cache_init_err_out ret s =
     (let w = en_wl (sm_engine s)
      in whitelist_init_err_out ret (set_wl (w\<lparr>wl_cache := policy_whitelist_cache_exit (wl_cache w)\<rparr>) s))"

text \<open>From the policies on: module and process protection, the commands, the engine. The result so far is
  that of the last step, even where the code jumps away.\<close>

definition smeasure_start :: "smeasure_boot \<Rightarrow> smeasure_module \<Rightarrow> (int \<times> smeasure_module) option" where
  "smeasure_start b s =
     (let (r1, m1) = httc_protect_module_on (sb_get_ok b) ''httcsmeasure'' (sm_feature s) (sm_mods s);
          (ret, p1) = httc_process_protect_init (sb_notifier b) ((en_protect (sm_engine s))\<lparr>pp_commands := sm_commands s\<rparr>);
          s1 = set_commands (pp_commands p1) (s\<lparr>sm_mods := m1, sm_engine := (sm_engine s)\<lparr>en_protect := p1\<rparr>\<rparr>);
          (ok, c1) = register_all smeasure_commands (sm_commands s1);
          s2 = set_commands c1 s1
      in if \<not> ok then whitelist_cache_init_err_out ret s2
         else let s3 = set_commands (snd (httcsec_io_command_register COMMAND_WHITELIST_USER_INTERFACE
                         ''ioctl_whitelist_user_interface'' (sm_commands s2))) s2
              in case smeasure_engine_init (sb_self b) s3 of None \<Rightarrow> None
                 | Some (ret, s4) \<Rightarrow>
                     if ret = 0 then Some (ret, s4)
                     else (case smeasure_engine_exit True (sb_self b) s4 of None \<Rightarrow> None
                           | Some (r5, s5) \<Rightarrow>
                               let s6 = set_commands (fold (\<lambda>(nr, f) c. snd (httcsec_io_command_unregister nr f c))
                                          ((COMMAND_WHITELIST_USER_INTERFACE, ''ioctl_whitelist_user_interface'') # rev smeasure_commands)
                                          (sm_commands s5)) s5
                               in (case critical_confile_exit (en_cc (sm_engine s6)) of None \<Rightarrow> None
                                   | Some cc \<Rightarrow> whitelist_cache_init_err_out ret (set_cc cc s6))))"

definition httc_smeasure_init :: "smeasure_boot \<Rightarrow> smeasure_module \<Rightarrow> (int \<times> smeasure_module) option" where
  "httc_smeasure_init b s =
     (if sb_flush b \<noteq> 0 then Some (sb_flush b, s)
      else case whitelist_init (sb_wl_alloc b) (sb_wl_random b) (en_wl (sm_engine s)) of (r1, w1) \<Rightarrow>
        if r1 < 0 then Some (r1, s)
        else case policy_whitelist_cache_init (sb_cache_alloc b) (sb_cache_random b) (wl_cache w1) of (r2, c2) \<Rightarrow>
          if r2 < 0 then whitelist_init_err_out r2 (set_wl (w1\<lparr>wl_cache := c2\<rparr>) s)
          else (case load_whitelist (sb_jhash b) (sb_kz b) (sb_digest b) (sb_vallocs b) (sb_wl_tpcm b) (sb_hash b)
                       (fst (sb_wl_files b)) (snd (sb_wl_files b)) (w1\<lparr>wl_cache := c2\<rparr>) of
                  None \<Rightarrow> None
                | Some (r3, w3) \<Rightarrow>
                    (case critical_confile_init (sb_cc_alloc b) (sb_cc_random b) (en_cc (sm_engine s)) of (r4, cc4) \<Rightarrow>
                       if r4 < 0 then whitelist_cache_init_err_out r4 (set_wl w3 s)
                       else (case load_critical_confile (sb_jhash b) (sb_kz b) (sb_digest b) (sb_vallocs b) (sb_cc_tpcm b) (sb_hash b)
                                    (fst (sb_cc_files b)) (snd (sb_cc_files b)) cc4 of
                               None \<Rightarrow> None
                             | Some (r5, cc5) \<Rightarrow> smeasure_start b (set_cc cc5 (set_wl w3 s))))))"

text \<open>A protected module is not taken down.\<close>

definition httc_smeasure_exit :: "bool \<Rightarrow> hook_addr option \<Rightarrow> smeasure_module \<Rightarrow> smeasure_module option" where
  "httc_smeasure_exit drained self s =
     (if check_module_protect_status ''httcsmeasure'' (sm_mods s) = 0 then Some s
      else (case smeasure_engine_exit drained self s of None \<Rightarrow> None
            | Some (r1, s1) \<Rightarrow>
                let p2 = httc_process_protect_exit ((en_protect (sm_engine s1))\<lparr>pp_commands := sm_commands s1\<rparr>);
                    s2 = set_commands (pp_commands p2) (s1\<lparr>sm_engine := (sm_engine s1)\<lparr>en_protect := p2\<rparr>\<rparr>);
                    s3 = set_commands (fold (\<lambda>(nr, f) c. snd (httcsec_io_command_unregister nr f c))
                           ((COMMAND_WHITELIST_USER_INTERFACE, ''ioctl_whitelist_user_interface'') # rev smeasure_commands)
                           (sm_commands s2)) s2
                in (case critical_confile_exit (en_cc (sm_engine s3)) of None \<Rightarrow> None
                    | Some cc \<Rightarrow> map_option snd (whitelist_cache_init_err_out 0 (set_cc cc s3)))))"

section \<open>The access control module\<close>

definition fac_hooks :: "string \<rightharpoonup> fptr" where
  "fac_hooks = [''inode_link'' \<mapsto> ''smeasure_inode_link'', ''inode_unlink'' \<mapsto> ''smeasure_inode_unlink'',
     ''inode_rename'' \<mapsto> ''smeasure_inode_rename'', ''inode_create'' \<mapsto> ''smeasure_inode_create'',
     ''file_open'' \<mapsto> ''smeasure_fac_file_open'', ''inode_rmdir'' \<mapsto> ''smeasure_inode_rmdir'',
     ''inode_mkdir'' \<mapsto> ''smeasure_inode_mkdir'']"

abbreviation (input) FEATURE_FAC :: int where "FEATURE_FAC \<equiv> 6"

record access_module =
  am_access :: access_state
  am_feature :: feature_state
  am_mods :: mod_state
  am_hooks :: hook_state
  am_old :: "hook_addr option"

definition accessctl_engine_init :: "hook_addr option \<Rightarrow> access_module \<Rightarrow> (int \<times> access_module) option" where
  "accessctl_engine_init self s =
     (let a1 = fac_feature_conf_notify_func (am_feature s) (am_access s);
          f1 = snd (register_feature_conf_notify FEATURE_FAC ''fac_feature_conf_notify_func'' (am_feature s))
      in case install_hook fac_hooks ''httcfac'' self (am_hooks s) of None \<Rightarrow> None
         | Some (ret, old, h1) \<Rightarrow> Some (ret, s\<lparr>am_access := a1, am_feature := f1, am_hooks := h1, am_old := old\<rparr>))"

definition accessctl_engine_exit :: "bool \<Rightarrow> hook_addr option \<Rightarrow> access_module \<Rightarrow> (int \<times> access_module) option" where
  "accessctl_engine_exit drained self s =
     map_option (\<lambda>(ret, h1). (ret, s\<lparr>am_hooks := h1, am_feature :=
         snd (unregister_feature_conf_notify FEATURE_FAC ''fac_feature_conf_notify_func'' (am_feature s))\<rparr>))
       (remove_hook drained (am_old s) self (am_hooks s))"

text \<open>
  Loading the module. \<open>kz\<close> and \<open>vm\<close> are the allocations for the rules, \<open>path_alloc\<close>, \<open>random\<close> and \<open>vallocs\<close> those for
  the paths. A failure to allocate the table of paths is not noticed; the first look-up in it is a fault, which
  the model does not follow: it stops with \<open>None\<close>.
\<close>

record access_boot =
  ab_jhash :: jhash_fun
  ab_get_ok :: "string \<Rightarrow> bool"
  ab_kz :: "byte list \<Rightarrow> bool"
  ab_vm :: bool
  ab_rules_file :: "kfile option"
  ab_path_alloc :: bool
  ab_random :: u32
  ab_path_vallocs :: "bool \<times> bool"
  ab_path_file :: "kfile option"
  ab_self :: "hook_addr option"

definition httc_accessctl_init :: "access_boot \<Rightarrow> access_module \<Rightarrow> (int \<times> access_module) option" where
  "httc_accessctl_init b s =
     (let m1 = snd (httc_protect_module_on (ab_get_ok b) ''httcfac'' (am_feature s) (am_mods s))
      in case list_fac_init (ab_kz b) (ab_vm b) (ab_rules_file b)
               ((ac_rules (am_access s))\<lparr>fl_commands := fc_commands (am_feature s)\<rparr>) of None \<Rightarrow> None
         | Some rules \<Rightarrow>
             (case whitelist_path_init (ab_jhash b) (\<lambda>_. True) (ab_path_alloc b) (ab_random b) (ab_path_vallocs b) (ab_path_file b)
                     ((ac_paths (am_access s))\<lparr>path_commands := fl_commands rules\<rparr>) of None \<Rightarrow> None
              | Some (r2, pt) \<Rightarrow>
                  if r2 \<noteq> 0 then None
                  else accessctl_engine_init (ab_self b)
                         (s\<lparr>am_mods := m1, am_feature := (am_feature s)\<lparr>fc_commands := path_commands pt\<rparr>,
                            am_access := (am_access s)\<lparr>ac_rules := rules, ac_paths := pt\<rparr>\<rparr>)))"

definition httc_accessctl_exit :: "bool \<Rightarrow> hook_addr option \<Rightarrow> access_module \<Rightarrow> access_module option" where
  "httc_accessctl_exit drained self s =
     (case accessctl_engine_exit drained self s of None \<Rightarrow> None
      | Some (r1, s1) \<Rightarrow>
          (case whitelist_path_exit ((ac_paths (am_access s1))\<lparr>path_commands := fc_commands (am_feature s1)\<rparr>) of None \<Rightarrow> None
           | Some pt \<Rightarrow>
               let rules = list_fac_exit ((ac_rules (am_access s1))\<lparr>fl_commands := path_commands pt\<rparr>)
               in Some (s1\<lparr>am_access := (am_access s1)\<lparr>ac_rules := rules, ac_paths := pt\<rparr>,
                           am_feature := (am_feature s1)\<lparr>fc_commands := fl_commands rules\<rparr>\<rparr>)))"

section \<open>Dispatch\<close>

text \<open>
  Opening a file: the hook of the security framework calls the entry of the current table, and the entry
  of an engine asks the table below that engine first. The effects of both engines are kept. The reference
  counts that the dispatch takes are the subject of another theory.
\<close>

record system_state =
  sy_engine :: engine_state
  sy_access :: access_state
  sy_hooks :: hook_state
  sy_sm_old :: "hook_addr option"
  sy_fac_old :: "hook_addr option"

record open_env =
  oe_jhash :: jhash_fun
  oe_check :: check_env
  oe_open :: "byte list \<Rightarrow> kfile option"
  oe_access :: access_env
  oe_magic :: bool

definition hook_entry :: "hook_state \<Rightarrow> hook_addr option \<Rightarrow> string \<Rightarrow> fptr option" where
  "hook_entry hs a name = (case a of None \<Rightarrow> None
     | Some a \<Rightarrow> (case hk_heap hs a of None \<Rightarrow> None | Some h \<Rightarrow> hk_funcs h name))"

definition open_measured :: "open_env \<Rightarrow> int option \<Rightarrow> kfile_obj \<Rightarrow> system_state \<Rightarrow> (int \<times> system_state) option" where
  "open_measured env old f s =
     map_option (\<lambda>(r, e). (r, s\<lparr>sy_engine := e\<rparr>))
       (smeasure_file_open (oe_jhash env) (oe_check env) (oe_open env) old (oe_magic env) f (sy_engine s))"

definition open_accessed :: "open_env \<Rightarrow> int option \<Rightarrow> file_obj \<Rightarrow> system_state \<Rightarrow> (int \<times> system_state) option" where
  "open_accessed env old f s =
     map_option (\<lambda>(r, a). (r, s\<lparr>sy_access := a\<rparr>))
       (smeasure_fac_file_open (oe_jhash env) (oe_access env) old (oe_magic env) f (sy_access s))"

text \<open>A disabled engine does not ask the table below. The fuel is the depth of the chain of tables.\<close>

fun call_file_open :: "nat \<Rightarrow> open_env \<Rightarrow> kfile_obj \<Rightarrow> file_obj \<Rightarrow> hook_addr option \<Rightarrow> system_state \<Rightarrow> (int option \<times> system_state) option" where
  "call_file_open 0 env k f a s = None"
| "call_file_open (Suc n) env k f a s =
     (case hook_entry (sy_hooks s) a ''file_open'' of
        None \<Rightarrow> Some (None, s)
      | Some fn \<Rightarrow>
          if fn = ''smeasure_file_open''
          then (case (if is_enabled (en_feature (sy_engine s)) = 0 then Some (None, s) else call_file_open n env k f (sy_sm_old s) s) of
                  None \<Rightarrow> None
                | Some (old, s1) \<Rightarrow> map_option (\<lambda>(r, s2). (Some r, s2)) (open_measured env old k s1))
          else if fn = ''smeasure_fac_file_open''
          then (case (if g_fac_switch (sy_access s) = 0 then Some (None, s) else call_file_open n env k f (sy_fac_old s) s) of
                  None \<Rightarrow> None
                | Some (old, s1) \<Rightarrow> map_option (\<lambda>(r, s2). (Some r, s2)) (open_accessed env old f s1))
          else None)"

definition lsm_httc_file_open :: "open_env \<Rightarrow> kfile_obj \<Rightarrow> file_obj \<Rightarrow> system_state \<Rightarrow> (int \<times> system_state) option" where
  "lsm_httc_file_open env k f s =
     map_option (\<lambda>(r, s1). (case r of None \<Rightarrow> 0 | Some r \<Rightarrow> r, s1)) (call_file_open 3 env k f (hookfunc (sy_hooks s)) s)"

section \<open>Loading and unloading\<close>

text \<open>An engine on a chain of tables: loading it lays its entries over the current ones and pins the module
  below; unloading it afterwards brings back the chain, the references and the entries.\<close>

lemma engine_init_chain:
  assumes "chain_ok base c (sm_hooks s)" "hk_heap (sm_hooks s) a = None"
  obtains s1 where "smeasure_engine_init (Some a) s = Some (0, s1)" "chain_ok base (Entry a ''httcsmeasure'' # c) (sm_hooks s1)"
    "current_funcs (sm_hooks s1) = current_funcs (sm_hooks s) ++ smeasure_hooks" "sm_old s1 = chain_old c"
    "\<forall>b. b \<noteq> a \<longrightarrow> hk_heap (sm_hooks s1) b = hk_heap (sm_hooks s) b"
    "en_feature (sm_engine s1) = en_feature (whitelist_feature_conf_notify_func (sm_feature s) (sm_engine s))"
proof -
  obtain h where "install_hook smeasure_hooks ''httcsmeasure'' (Some a) (sm_hooks s) = Some (0, chain_old c, h)"
    "chain_ok base (Entry a ''httcsmeasure'' # c) h" "current_funcs h = current_funcs (sm_hooks s) ++ smeasure_hooks"
    "\<forall>b. b \<noteq> a \<longrightarrow> hk_heap h b = hk_heap (sm_hooks s) b"
    by (rule install_ok [OF assms])
  with that show ?thesis by (simp add: smeasure_engine_init_def Let_def)
qed

lemma engine_exit_chain:
  assumes "chain_ok base (Entry a m # c) (sm_hooks s)" "sm_old s = chain_old c"
  obtains s1 where "smeasure_engine_exit True (Some a) s = Some (0, s1)" "chain_ok base c (sm_hooks s1)" "hk_heap (sm_hooks s1) a = None"
    "\<forall>b. b \<noteq> a \<longrightarrow> hk_heap (sm_hooks s1) b = hk_heap (sm_hooks s) b"
proof -
  obtain h where "remove_hook True (chain_old c) (Some a) (sm_hooks s) = Some (0, h)" "chain_ok base c h" "hk_heap h a = None"
    "\<forall>b. b \<noteq> a \<longrightarrow> hk_heap h b = hk_heap (sm_hooks s) b"
    by (rule remove_ok [OF assms(1)])
  with that assms(2) show ?thesis by (simp add: smeasure_engine_exit_def)
qed

lemma current_entry: "current_funcs h name = hook_entry h (hookfunc h) name"
  by (simp add: current_funcs_def hook_entry_def split: option.splits)

text \<open>Both engines on an empty chain, in either order.\<close>

lemma two_engines:
  assumes "chain_ok base [] hs" "hk_heap hs a = None" "hk_heap hs b = None" "a \<noteq> b"
    and "install_hook f1 m1 (Some a) hs = Some (r1, o1, h1)" "install_hook f2 m2 (Some b) h1 = Some (r2, o2, h2)"
    and "f1 name = Some n1" "f2 name = Some n2"
  shows "hook_entry h2 (hookfunc h2) name = Some n2" "hook_entry h2 o2 name = Some n1" "hook_entry h2 o1 name = None" "chain_ok base [Entry b m2, Entry a m1] h2"
proof -
  obtain x where x: "install_hook f1 m1 (Some a) hs = Some (0, chain_old [], x)" "chain_ok base [Entry a m1] x"
    "current_funcs x = current_funcs hs ++ f1" "\<forall>b. b \<noteq> a \<longrightarrow> hk_heap x b = hk_heap hs b"
    by (rule install_ok [OF assms(1,2)])
  then have h1: "h1 = x" "o1 = None" using assms(5) by (simp_all add: chain_old_def)
  have "hk_heap x b = None" using x(4) assms(3,4) by simp
  from install_ok [OF x(2) this] obtain y where y: "install_hook f2 m2 (Some b) x = Some (0, chain_old [Entry a m1], y)"
    "chain_ok base [Entry b m2, Entry a m1] y" "current_funcs y = current_funcs x ++ f2" "\<forall>c. c \<noteq> b \<longrightarrow> hk_heap y c = hk_heap x c"
    by blast
  then have h2: "h2 = y" "o2 = Some a" using assms(6) h1 by (simp_all add: chain_old_def)
  show "hook_entry h2 (hookfunc h2) name = Some n2" using y(3) assms(8) unfolding h2 current_entry [symmetric] by simp
  have "hookfunc x = Some a" using x(2) by (simp add: chain_ok_def chain_old_def)
  then have "hook_entry x (Some a) name = Some n1" using x(3) assms(7) current_entry [of x name] by simp
  then show "hook_entry h2 o2 name = Some n1" using y(4) assms(4) by (simp add: h2 hook_entry_def)
  show "hook_entry h2 o1 name = None" by (simp add: h1 hook_entry_def)
  show "chain_ok base [Entry b m2, Entry a m1] h2" using y(2) h2 by simp
qed

lemma engine_hook_names:
  "smeasure_hooks ''file_open'' = Some ''smeasure_file_open''" "fac_hooks ''file_open'' = Some ''smeasure_fac_file_open''"
  by (simp_all add: smeasure_hooks_def fac_hooks_def)

section \<open>Properties\<close>

text \<open>C27. Loading the measurement engine lays its hooks over the current ones and takes a reference on the
  module below; unloading it afterwards restores the chain of tables exactly: the current table, the
  allocated tables and the reference counts.\<close>

theorem smeasure_engine_load_unload:
  assumes "chain_ok base c (sm_hooks s)" "hk_heap (sm_hooks s) a = None"
  shows "\<exists>s1 s2. smeasure_engine_init (Some a) s = Some (0, s1) \<and> chain_ok base (Entry a ''httcsmeasure'' # c) (sm_hooks s1)
    \<and> current_funcs (sm_hooks s1) = current_funcs (sm_hooks s) ++ smeasure_hooks
    \<and> smeasure_engine_exit True (Some a) s1 = Some (0, s2) \<and> sm_hooks s2 = sm_hooks s"
proof -
  obtain s1 where s1: "smeasure_engine_init (Some a) s = Some (0, s1)" "chain_ok base (Entry a ''httcsmeasure'' # c) (sm_hooks s1)"
    "current_funcs (sm_hooks s1) = current_funcs (sm_hooks s) ++ smeasure_hooks" "sm_old s1 = chain_old c"
    "\<forall>b. b \<noteq> a \<longrightarrow> hk_heap (sm_hooks s1) b = hk_heap (sm_hooks s) b"
    by (rule engine_init_chain [OF assms])
  obtain s2 where s2: "smeasure_engine_exit True (Some a) s1 = Some (0, s2)" "chain_ok base c (sm_hooks s2)" "hk_heap (sm_hooks s2) a = None"
    "\<forall>b. b \<noteq> a \<longrightarrow> hk_heap (sm_hooks s2) b = hk_heap (sm_hooks s1) b"
    by (rule engine_exit_chain [OF s1(2,4)])
  have "hk_heap (sm_hooks s2) b = hk_heap (sm_hooks s) b" for b
    using s1(5) s2(3,4) assms(2) by (cases "b = a") auto
  then have "hk_heap (sm_hooks s2) = hk_heap (sm_hooks s)" by blast
  moreover have "hookfunc (sm_hooks s2) = hookfunc (sm_hooks s)" "hk_refs (sm_hooks s2) = hk_refs (sm_hooks s)"
    using s2(2) assms(1) by (auto simp: chain_ok_def fun_eq_iff)
  ultimately have "sm_hooks s2 = sm_hooks s" by simp
  with s1 s2 show ?thesis by blast
qed

text \<open>C21. Opening a file with the measurement engine loaded first and access control on top of it, both
  switched on: the critical configuration files are checked first, and what they refuse is refused; otherwise
  access control decides.\<close>

theorem open_passes_both_engines:
  assumes "chain_ok base [] hs" "hk_heap hs a = None" "hk_heap hs b = None" "a \<noteq> b"
    and "install_hook smeasure_hooks ''httcsmeasure'' (Some a) hs = Some (r1, sy_sm_old s, h1)"
    and "install_hook fac_hooks ''httcfac'' (Some b) h1 = Some (r2, sy_fac_old s, sy_hooks s)"
    and "is_enabled (en_feature (sy_engine s)) \<noteq> 0" "g_fac_switch (sy_access s) \<noteq> 0"
    and "smeasure_file_open (oe_jhash env) (oe_check env) (oe_open env) None (oe_magic env) k (sy_engine s) = Some (r, e)"
    and "smeasure_fac_file_open (oe_jhash env) (oe_access env) (Some 0) (oe_magic env) f (sy_access s) = Some (q, ac)"
  shows "lsm_httc_file_open env k f s =
    Some (if r \<noteq> 0 then (r, s\<lparr>sy_engine := e\<rparr>) else (q, s\<lparr>sy_engine := e, sy_access := ac\<rparr>))"
proof -
  note two = two_engines [OF assms(1-6) engine_hook_names]
  have m: "open_measured env None k s = Some (r, s\<lparr>sy_engine := e\<rparr>)" using assms(9) by (simp add: open_measured_def)
  have "open_accessed env (Some r) f (s\<lparr>sy_engine := e\<rparr>) =
      Some (if r \<noteq> 0 then (r, s\<lparr>sy_engine := e\<rparr>) else (q, s\<lparr>sy_engine := e, sy_access := ac\<rparr>))"
    using assms(8,10) by (auto simp: open_accessed_def smeasure_fac_file_open_def)
  with two m assms(7,8) show ?thesis
    by (simp add: lsm_httc_file_open_def numeral_3_eq_3)
qed

text \<open>In the other order, with the measurement engine on top and switched off, its hook returns before it asks
  the table below: access control is switched off with it, whatever its rules say.\<close>

theorem disabled_measurement_skips_access_control:
  assumes "chain_ok base [] hs" "hk_heap hs a = None" "hk_heap hs b = None" "a \<noteq> b"
    and "install_hook fac_hooks ''httcfac'' (Some a) hs = Some (r1, sy_fac_old s, h1)"
    and "install_hook smeasure_hooks ''httcsmeasure'' (Some b) h1 = Some (r2, sy_sm_old s, sy_hooks s)"
    and "is_enabled (en_feature (sy_engine s)) = 0"
  shows "lsm_httc_file_open env k f s = Some (0, s)"
proof -
  note two = two_engines [OF assms(1-6) engine_hook_names(2,1)]
  have "open_measured env None k s = Some (0, s)" using assms(7) by (simp add: open_measured_def smeasure_file_open_def old_hook_def)
  with two assms(7) show ?thesis by (simp add: lsm_httc_file_open_def numeral_3_eq_3)
qed

lemma cache_err_out:
  assumes "wl_inv jhash (en_wl (sm_engine s))"
  obtains s' where "whitelist_cache_init_err_out ret s = Some (ret, s')" "sm_hooks s' = sm_hooks s" "wl_entries (en_wl (sm_engine s')) = {}"
proof -
  let ?w = "en_wl (sm_engine s)"
  have "flush_buckets (hashtable (wl_table ?w)) (obj_count (wl_table ?w)) = Some (\<lambda>_. [])"
    using assms wl.flush_wf [of jhash "whitelist_hash_random ?w" "wl_table ?w"] by (simp add: wl_inv_def)
  then show ?thesis
    using that by (simp add: whitelist_cache_init_err_out_def whitelist_init_err_out_def whitelist_exit_def set_wl_def
        wl_entries_def tab_entries_def Let_def)
qed

lemma protect_init_commands:
  assumes "httc_process_protect_init 0 p = (r, p')" "k < 29"
  shows "r = 0" "pp_commands p' k = pp_commands p k"
  using assms by (auto simp: httc_process_protect_init_def httcsec_io_command_register_def Let_def split: if_splits)

text \<open>When one of the command numbers of the module is taken, the start jumps to the error exit with the
  result of the step before it, which is 0: the module stays loaded and reports success, while its
  whitelist has been freed and no hook is installed.\<close>

theorem smeasure_start_failure_reported_as_success:
  assumes "sm_commands s (nat COMMAND_ADD_WHITELIST_POLICY) \<noteq> None" "sb_notifier b = 0" "wl_inv jhash (en_wl (sm_engine s))"
  shows "\<exists>s'. smeasure_start b s = Some (0, s') \<and> sm_hooks s' = sm_hooks s \<and> wl_entries (en_wl (sm_engine s')) = {}"
proof -
  obtain r1 m1 where m: "httc_protect_module_on (sb_get_ok b) ''httcsmeasure'' (sm_feature s) (sm_mods s) = (r1, m1)" by fastforce
  obtain r p where p: "httc_process_protect_init 0 ((en_protect (sm_engine s))\<lparr>pp_commands := sm_commands s\<rparr>) = (r, p)" by fastforce
  have c: "r = 0" "pp_commands p 4 \<noteq> None"
    using protect_init_commands [OF p, of 4] assms(1) by simp_all
  let ?s1 = "set_commands (pp_commands p) (s\<lparr>sm_mods := m1, sm_engine := (sm_engine s)\<lparr>en_protect := p\<rparr>\<rparr>)"
  have "register_all smeasure_commands (sm_commands ?s1) = (False, pp_commands p)"
    using c(2) by (simp add: smeasure_commands_def httcsec_io_command_register_def sm_commands_def set_commands_def MAX_COMMAND_NR_def)
  then have "smeasure_start b s = whitelist_cache_init_err_out 0 (set_commands (pp_commands p) ?s1)"
    using m p c(1) assms(2) by (simp add: smeasure_start_def Let_def)
  moreover have "wl_inv jhash (en_wl (sm_engine (set_commands (pp_commands p) ?s1)))" using assms(3) by (simp add: set_commands_def)
  from cache_err_out [OF this, of 0] obtain s' where "whitelist_cache_init_err_out 0 (set_commands (pp_commands p) ?s1) = Some (0, s')"
    "sm_hooks s' = sm_hooks (set_commands (pp_commands p) ?s1)" "wl_entries (en_wl (sm_engine s')) = {}" by blast
  ultimately show ?thesis by (simp add: set_commands_def)
qed

section \<open>Concrete modules\<close>

definition no_hooks :: hook_state where
  "no_hooks = \<lparr>hk_heap = (\<lambda>_. None), hookfunc = None, hk_refs = (\<lambda>_. 0)\<rparr>"

definition demo_module :: smeasure_module where
  "demo_module = \<lparr>sm_engine = demo_engine 1 0 (sched_mem False None) cc_empty, sm_feature = feature_start notify_one, sm_mods = mod_demo,
     sm_hooks = no_hooks, sm_old = None\<rparr>"

definition demo_boot :: smeasure_boot where
  "demo_boot = \<lparr>sb_flush = 0, sb_jhash = (\<lambda>_ _. 5), sb_kz = (\<lambda>_. True), sb_digest = stack_env, sb_vallocs = (True, True), sb_hash = replicate 32 0,
     sb_wl_alloc = True, sb_wl_random = 0, sb_cache_alloc = (\<lambda>_. True), sb_cache_random = 0, sb_wl_tpcm = (0, [], 0), sb_wl_files = (None, None),
     sb_cc_alloc = True, sb_cc_random = 0, sb_cc_tpcm = (0, [], 0), sb_cc_files = (None, None), sb_get_ok = (\<lambda>_. True), sb_notifier = 0,
     sb_self = Some 0\<rparr>"

lemma no_hooks_ok: "chain_ok (\<lambda>_. 0) [] no_hooks" "hk_heap no_hooks a = None"
  by (simp_all add: chain_ok_def no_hooks_def chain_old_def pinned_def)

theorem smeasure_engine_load_unload_witness:
  "\<exists>s1 s2. smeasure_engine_init (Some 0) demo_module = Some (0, s1) \<and> current_funcs (sm_hooks s1) = smeasure_hooks
    \<and> smeasure_engine_exit True (Some 0) s1 = Some (0, s2) \<and> sm_hooks s2 = no_hooks"
proof -
  have h: "sm_hooks demo_module = no_hooks" by (simp add: demo_module_def)
  have "current_funcs no_hooks = Map.empty" by (simp add: current_funcs_def no_hooks_def)
  then show ?thesis
    using smeasure_engine_load_unload [of "\<lambda>_. 0" "[]" demo_module 0] no_hooks_ok unfolding h by auto
qed

theorem smeasure_start_failure_reported_as_success_witness:
  "\<exists>s'. smeasure_start demo_boot (set_commands [4 \<mapsto> ''other''] demo_module) = Some (0, s') \<and> sm_hooks s' = no_hooks"
proof -
  let ?s = "set_commands [4 \<mapsto> ''other''] demo_module"
  have "sm_commands ?s (nat COMMAND_ADD_WHITELIST_POLICY) \<noteq> None" "sb_notifier demo_boot = 0" "sm_hooks ?s = no_hooks"
    by (simp_all add: sm_commands_def set_commands_def demo_boot_def demo_module_def)
  moreover have "wl_inv (\<lambda>_ _. 5) (en_wl (sm_engine ?s))"
    using wl_empty_ok(1) by (simp add: set_commands_def demo_module_def demo_engine_wl)
  ultimately show ?thesis using smeasure_start_failure_reported_as_success [of ?s demo_boot "\<lambda>_ _. 5"] by auto
qed

text \<open>Both engines loaded, in the given order of their hooks.\<close>

definition both_loaded :: "(string \<rightharpoonup> fptr) \<Rightarrow> string \<Rightarrow> (string \<rightharpoonup> fptr) \<Rightarrow> string \<Rightarrow> hook_state" where
  "both_loaded f1 m1 f2 m2 = \<lparr>hk_heap = [0 \<mapsto> \<lparr>hk_funcs = f1, hk_module = m1\<rparr>, 1 \<mapsto> \<lparr>hk_funcs = f1 ++ f2, hk_module = m2\<rparr>],
     hookfunc = Some 1, hk_refs = (\<lambda>_. 0)(m1 := 1)\<rparr>"

definition one_loaded :: "(string \<rightharpoonup> fptr) \<Rightarrow> string \<Rightarrow> hook_state" where
  "one_loaded f1 m1 = \<lparr>hk_heap = [0 \<mapsto> \<lparr>hk_funcs = f1, hk_module = m1\<rparr>], hookfunc = Some 0, hk_refs = (\<lambda>_. 0)\<rparr>"

lemma both_loaded_installs:
  "install_hook f1 m1 (Some 0) no_hooks = Some (0, None, one_loaded f1 m1)"
  "install_hook f2 m2 (Some 1) (one_loaded f1 m1) = Some (0, Some 0, both_loaded f1 m1 f2 m2)"
  by (simp_all add: install_hook_def httcsec_get_hook_def httcsec_register_hook_def no_hooks_def one_loaded_def both_loaded_def module_get_def)

definition demo_system :: "nat \<Rightarrow> hook_state \<Rightarrow> hook_addr option \<Rightarrow> hook_addr option \<Rightarrow> system_state" where
  "demo_system on h sm fac =
     \<lparr>sy_engine = (demo_engine 1 0 (sched_mem False None) cc_empty)
        \<lparr>en_feature := (en_feature (demo_engine 1 0 (sched_mem False None) cc_empty))\<lparr>is_enabled := on\<rparr>\<rparr>,
      sy_access = demo_access, sy_hooks = h, sy_sm_old = sm, sy_fac_old = fac\<rparr>"

definition demo_open :: open_env where
  "demo_open = \<lparr>oe_jhash = (\<lambda>_ _. 5), oe_check = demo_env, oe_open = (\<lambda>_. None), oe_access = demo_access_env, oe_magic = True\<rparr>"

lemma demo_system_simps:
  "sy_hooks (demo_system on h sm fac) = h" "sy_sm_old (demo_system on h sm fac) = sm" "sy_fac_old (demo_system on h sm fac) = fac"
  "sy_access (demo_system on h sm fac) = demo_access" "is_enabled (en_feature (sy_engine (demo_system on h sm fac))) = on"
  by (simp_all add: demo_system_def)

theorem open_passes_both_engines_witness:
  "lsm_httc_file_open demo_open demo_file \<lparr>fi_path = Some [47, 97], fi_inode = Some demo_inode, fi_write = True\<rparr>
     (demo_system 1 (both_loaded smeasure_hooks ''httcsmeasure'' fac_hooks ''httcfac'') None (Some 0))
   = Some (0, demo_system 1 (both_loaded smeasure_hooks ''httcsmeasure'' fac_hooks ''httcfac'') None (Some 0))"
proof -
  let ?f = "\<lparr>fi_path = Some [47, 97], fi_inode = Some demo_inode, fi_write = True\<rparr>"
  let ?s = "demo_system 1 (both_loaded smeasure_hooks ''httcsmeasure'' fac_hooks ''httcfac'') None (Some 0)"
  have m: "smeasure_file_open (oe_jhash demo_open) (oe_check demo_open) (oe_open demo_open) None (oe_magic demo_open) demo_file (sy_engine ?s)
      = Some (0, sy_engine ?s)"
    by (simp add: smeasure_file_open_def old_hook_def demo_open_def)
  have a: "smeasure_fac_file_open (oe_jhash demo_open) (oe_access demo_open) (Some 0) (oe_magic demo_open) ?f (sy_access ?s)
      = Some (0, demo_access)"
    by (simp add: smeasure_fac_file_open_def demo_open_def demo_system_simps)
  have "g_fac_switch (sy_access ?s) \<noteq> 0" "is_enabled (en_feature (sy_engine ?s)) \<noteq> 0"
    by (simp_all add: demo_system_simps demo_access_ok)
  note on = this
  have i: "install_hook smeasure_hooks ''httcsmeasure'' (Some 0) no_hooks = Some (0, sy_sm_old ?s, one_loaded smeasure_hooks ''httcsmeasure'')"
    "install_hook fac_hooks ''httcfac'' (Some 1) (one_loaded smeasure_hooks ''httcsmeasure'') = Some (0, sy_fac_old ?s, sy_hooks ?s)"
    unfolding demo_system_simps by (rule both_loaded_installs)+
  from open_passes_both_engines [OF no_hooks_ok no_hooks_ok(2) _ i on(2,1) m a]
  show ?thesis by (simp add: demo_system_simps demo_system_def)
qed

theorem disabled_measurement_skips_access_control_witness:
  "lsm_httc_file_open demo_open demo_file \<lparr>fi_path = Some [47, 97], fi_inode = Some demo_inode, fi_write = True\<rparr>
     (demo_system 0 (both_loaded fac_hooks ''httcfac'' smeasure_hooks ''httcsmeasure'') (Some 0) None)
   = Some (0, demo_system 0 (both_loaded fac_hooks ''httcfac'' smeasure_hooks ''httcsmeasure'') (Some 0) None)"
proof -
  let ?s = "demo_system 0 (both_loaded fac_hooks ''httcfac'' smeasure_hooks ''httcsmeasure'') (Some 0) None"
  have i: "install_hook fac_hooks ''httcfac'' (Some 0) no_hooks = Some (0, sy_fac_old ?s, one_loaded fac_hooks ''httcfac'')"
    "install_hook smeasure_hooks ''httcsmeasure'' (Some 1) (one_loaded fac_hooks ''httcfac'') = Some (0, sy_sm_old ?s, sy_hooks ?s)"
    unfolding demo_system_simps by (rule both_loaded_installs)+
  from disabled_measurement_skips_access_control [OF no_hooks_ok no_hooks_ok(2) _ i]
  show ?thesis by (simp add: demo_system_simps)
qed

end
