(* ===== verification/Log_Config.thy ===== *)
theory Log_Config
  imports Whitelist Command_Table Text_File
begin

text \<open>
  Which audit records are kept: tsb/kernel/platform/policy/log_config_policy.c. A log configuration sets
  a level for programs and one for dynamic measurement, and records on the objects listed in a text
  file are always kept.

  A result \<open>None\<close> is a run through a NULL pointer or one that does not end. The functions hold a read or
  a write lock over the configuration, so each is one step.
\<close>

section \<open>State\<close>

abbreviation (input) RECORD_SUCCESS :: int where "RECORD_SUCCESS \<equiv> 1"
abbreviation (input) RECORD_FAIL :: int where "RECORD_FAIL \<equiv> 2"
abbreviation (input) RECORD_NO :: int where "RECORD_NO \<equiv> 4"
abbreviation (input) RECORD_ALL :: int where "RECORD_ALL \<equiv> 8"
abbreviation (input) TYPE_BMEASURE :: int where "TYPE_BMEASURE \<equiv> 1"
abbreviation (input) LOG_WHITELIST :: int where "LOG_WHITELIST \<equiv> 2"
abbreviation (input) LOG_DMEASURE :: int where "LOG_DMEASURE \<equiv> 3"
abbreviation (input) LOG_CATEGRORY_ACCESS :: int where "LOG_CATEGRORY_ACCESS \<equiv> 6"
abbreviation (input) LOG_CATEGRORY_UDISK :: int where "LOG_CATEGRORY_UDISK \<equiv> 7"
abbreviation (input) LOG_CATEGRORY_USER_INFO :: int where "LOG_CATEGRORY_USER_INFO \<equiv> 9"
abbreviation (input) LOG_RESULT_SUCCESS :: int where "LOG_RESULT_SUCCESS \<equiv> 1"
abbreviation (input) LOG_RESULT_FAIL :: int where "LOG_RESULT_FAIL \<equiv> 2"
abbreviation (input) LOG_RESULT_BYPASS :: int where "LOG_RESULT_BYPASS \<equiv> 3"

record log_config =
  program_log_level :: int
  dmeasure_log_level :: int
  log_buffer_on :: int
  log_integrity_on :: int
  log_buffer_limit :: u32
  log_buffer_rotate_size :: u32
  log_buffer_rotate_time :: u32
  log_inmem_limit :: u32

record exception_log_config =
  ex_fullpath :: "byte list"
  ex_is_dir :: bool

record log_config_state =
  log_config_policy :: log_config
  g_list_policy_exception_log :: "exception_log_config list"
  lc_commands :: cmd_table

definition SIZEOF_LOG_CONFIG :: nat where "SIZEOF_LOG_CONFIG = 32"

text \<open>The structure in memory, little endian.\<close>

definition le32 :: "byte list \<Rightarrow> u32" where
  "le32 b = be32 (rev (take 4 b))"

definition decode_log_config :: "byte list \<Rightarrow> log_config" where
  "decode_log_config b =
     \<lparr>program_log_level = sint (le32 b), dmeasure_log_level = sint (le32 (drop 4 b)),
      log_buffer_on = sint (le32 (drop 8 b)), log_integrity_on = sint (le32 (drop 12 b)),
      log_buffer_limit = le32 (drop 16 b), log_buffer_rotate_size = le32 (drop 20 b),
      log_buffer_rotate_time = le32 (drop 24 b), log_inmem_limit = le32 (drop 28 b)\<rparr>"

section \<open>The decision\<close>

definition qurey_exception_log_policy :: "byte list \<Rightarrow> log_config_state \<Rightarrow> int" where
  "qurey_exception_log_policy fullpath s =
     (if list_ex (\<lambda>e. if ex_is_dir e then strncmp fullpath (ex_fullpath e) (strlen (ex_fullpath e)) = 0
                     else strcmp fullpath (ex_fullpath e) = 0) (g_list_policy_exception_log s)
      then 0 else -1)"

definition log_level :: "int \<Rightarrow> int \<Rightarrow> int" where
  "log_level aud_r result =
     (if aud_r = RECORD_SUCCESS then (if result = LOG_RESULT_SUCCESS then 1 else 0)
      else if aud_r = RECORD_FAIL then (if result = LOG_RESULT_FAIL then 1 else 0)
      else if aud_r = RECORD_NO then 0
      else if aud_r = RECORD_ALL then 1 else 0)"

definition get_log_config_policy :: "int \<Rightarrow> int \<Rightarrow> sec_domain \<Rightarrow> log_config_state \<Rightarrow> int" where
  "get_log_config_policy type result sec_d s =
     (if result = LOG_RESULT_BYPASS \<or> type = TYPE_BMEASURE then 1
      else if type = LOG_WHITELIST \<and> qurey_exception_log_policy (obj_name sec_d) s = 0 then 1
      else if type = LOG_WHITELIST then log_level (program_log_level (log_config_policy s)) result
      else if type = LOG_DMEASURE then log_level (dmeasure_log_level (log_config_policy s)) result
      else if type = LOG_CATEGRORY_ACCESS then log_level RECORD_FAIL result
      else if type = LOG_CATEGRORY_UDISK then log_level RECORD_ALL result
      else 0)"

section \<open>Loading\<close>

text \<open>\<open>None\<close> as the file: it cannot be opened. The file must have exactly the size of the structure.\<close>

definition load_log_config :: "kfile option \<Rightarrow> log_config_state \<Rightarrow> int \<times> log_config_state" where
  "load_log_config fo s = (case fo of None \<Rightarrow> (-1, s)
     | Some f \<Rightarrow> (case kernel_read f 0 128 of Inl e \<Rightarrow> (-1, s)
         | Inr buff \<Rightarrow> if length buff \<noteq> SIZEOF_LOG_CONFIG then (-1, s)
                      else (0, s\<lparr>log_config_policy := decode_log_config buff\<rparr>)))"

definition ioctl_reload_log_config_policy :: "kfile option \<Rightarrow> log_config_state \<Rightarrow> int \<times> log_config_state" where
  "ioctl_reload_log_config_policy fo s =
     (let (ret, s') = load_log_config fo s in if ret \<noteq> 0 then (-1, s') else (0, s'))"

definition ioctl_update_log_config_policy :: "log_config option \<Rightarrow> log_config_state \<Rightarrow> int \<times> log_config_state" where
  "ioctl_update_log_config_policy param s =
     (case param of None \<Rightarrow> (-1, s) | Some lc_policy \<Rightarrow> (0, s\<lparr>log_config_policy := lc_policy\<rparr>))"

text \<open>One line of the list of objects. An empty line ends the loading.\<close>

definition line_exception :: "byte list \<Rightarrow> exception_log_config option" where
  "line_exception buff =
     (let p_path = takeWhile (\<lambda>c. c \<noteq> 10) (cstr buff)
      in if p_path = [] then None else Some \<lparr>ex_fullpath = p_path, ex_is_dir = (last p_path = 47)\<rparr>)"

text \<open>\<open>kz\<close>: kzalloc succeeds for the entry; its result is not tested.\<close>

partial_function (option) load_exceptions ::
  "(exception_log_config \<Rightarrow> bool) \<Rightarrow> kfile \<Rightarrow> nat \<Rightarrow> exception_log_config list \<Rightarrow> exception_log_config list option" where
  "load_exceptions kz f pos es =
     (case klib_fgets 256 (Some f) pos of (None, pos') \<Rightarrow> Some es
      | (Some buff, pos') \<Rightarrow>
          (case line_exception buff of None \<Rightarrow> Some es
           | Some e \<Rightarrow> if \<not> kz e then None else load_exceptions kz f pos' (es @ [e])))"

definition load_exception_log_config ::
  "(exception_log_config \<Rightarrow> bool) \<Rightarrow> kfile option \<Rightarrow> log_config_state \<Rightarrow> log_config_state option" where
  "load_exception_log_config kz fo s = (case fo of None \<Rightarrow> Some s
     | Some f \<Rightarrow> map_option (\<lambda>es. s\<lparr>g_list_policy_exception_log := es\<rparr>) (load_exceptions kz f 0 (g_list_policy_exception_log s)))"

definition log_config_policy_init ::
  "(exception_log_config \<Rightarrow> bool) \<Rightarrow> kfile option \<Rightarrow> kfile option \<Rightarrow> log_config_state \<Rightarrow> (int \<times> log_config_state) option" where
  "log_config_policy_init kz config exceptions s =
     (let s1 = s\<lparr>log_config_policy := (log_config_policy s)\<lparr>program_log_level := RECORD_FAIL, dmeasure_log_level := RECORD_FAIL\<rparr>\<rparr>;
          s2 = snd (load_log_config config s1)
      in case load_exception_log_config kz exceptions s2 of None \<Rightarrow> None
         | Some s3 \<Rightarrow>
             let (r1, c1) = httcsec_io_command_register COMMAND_UPDATE_LOG_CONFIG_POLICY ''ioctl_update_log_config_policy'' (lc_commands s3)
             in if r1 \<noteq> 0 then Some (r1, s3\<lparr>lc_commands := c1\<rparr>)
                else let (r2, c2) = httcsec_io_command_register COMMAND_RELOAD_LOG_CONFIG_POLICY ''ioctl_reload_log_config_policy'' c1
                in if r2 \<noteq> 0
                   then Some (r2, s3\<lparr>lc_commands := snd (httcsec_io_command_unregister COMMAND_UPDATE_LOG_CONFIG_POLICY ''ioctl_update_log_config_policy'' c2)\<rparr>)
                   else Some (0, s3\<lparr>lc_commands := c2\<rparr>))"

definition log_config_policy_exit :: "log_config_state \<Rightarrow> log_config_state" where
  "log_config_policy_exit s =
     s\<lparr>g_list_policy_exception_log := [],
       lc_commands := unregister_all [(COMMAND_RELOAD_LOG_CONFIG_POLICY, ''ioctl_reload_log_config_policy''),
         (COMMAND_UPDATE_LOG_CONFIG_POLICY, ''ioctl_update_log_config_policy'')] (lc_commands s)\<rparr>"

section \<open>What is always kept\<close>

text \<open>An object is listed if its path is a line of the file, or lies under a line that ends with a slash.\<close>

definition object_listed :: "byte list list \<Rightarrow> byte list \<Rightarrow> bool" where
  "object_listed ls path \<longleftrightarrow> (\<exists>l\<in>set ls. if last l = 47 then take (length l) path = l else path = l)"

definition exception_of :: "byte list \<Rightarrow> exception_log_config" where
  "exception_of l = \<lparr>ex_fullpath = l, ex_is_dir = (last l = 47)\<rparr>"

definition exception_line :: "byte list \<Rightarrow> bool" where
  "exception_line l \<longleftrightarrow> l \<noteq> [] \<and> no_nul l \<and> 10 \<notin> set l \<and> length l < 255"

lemma query_listed:
  assumes "g_list_policy_exception_log s = map exception_of ls" "\<forall>l\<in>set ls. exception_line l"
  shows "qurey_exception_log_policy path s = 0 \<longleftrightarrow> object_listed ls (cstr path)"
proof -
  have eq: "(if ex_is_dir (exception_of l) then strncmp path (ex_fullpath (exception_of l)) (strlen (ex_fullpath (exception_of l))) = 0
      else strcmp path (ex_fullpath (exception_of l)) = 0) = (if last l = 47 then take (length l) (cstr path) = l else cstr path = l)"
    if "l \<in> set ls" for l
  proof -
    have "cstr l = l" using assms(2) that by (simp add: exception_line_def cstr_no_nul)
    then show ?thesis by (simp add: exception_of_def strlen_def strncmp_eq_0_iff strcmp_eq_0_iff)
  qed
  show ?thesis
    unfolding qurey_exception_log_policy_def assms(1) list_ex_iff set_map bex_simps object_listed_def using eq by auto
qed

lemma load_exceptions_lines:
  assumes "kfile_bytes f c" "\<forall>l\<in>set ls. exception_line l" "drop pos c = concat (map (\<lambda>l. l @ [10]) ls)" "\<forall>e. kz e"
  shows "load_exceptions kz f pos es = Some (es @ map exception_of ls)"
  using assms(2,3)
proof (induction ls arbitrary: pos es)
  case Nil
  then show ?case
    using fgets_eof [OF assms(1), of pos 255] by (subst load_exceptions.simps) (simp add: klib_fgets_def)
next
  case (Cons l ls)
  then have l: "l \<noteq> []" "no_nul l" "10 \<notin> set l" "length l < 255" by (simp_all add: exception_line_def)
  have "klib_fgets 256 (Some f) pos = (Some (l @ [10]), pos + length l + 1)"
    using fgets_line [OF assms(1) l(3,4), of pos "concat (map (\<lambda>l. l @ [10]) ls)" "[]"] Cons.prems(2) by (simp add: klib_fgets_def)
  moreover have "line_exception (l @ [10]) = Some (exception_of l)"
  proof -
    have "cstr (l @ [10]) = l @ [10]" using l(2) by (intro cstr_no_nul) (simp add: no_nul_def)
    then have "takeWhile (\<lambda>c. c \<noteq> 10) (cstr (l @ [10])) = l" using l(3) by (simp add: takeWhile_append)
    then show ?thesis using l(1) by (simp add: line_exception_def exception_of_def Let_def)
  qed
  moreover have "drop (pos + length l + 1) c = concat (map (\<lambda>l. l @ [10]) ls)"
    using arg_cong [OF Cons.prems(2), of "drop (length l + 1)"] by (simp add: ac_simps)
  then have "load_exceptions kz f (pos + length l + 1) (es @ [exception_of l]) = Some ((es @ [exception_of l]) @ map exception_of ls)"
    using Cons.prems(1) by (intro Cons.IH) auto
  ultimately show ?case using assms(4) by (subst load_exceptions.simps) simp
qed

lemma log_level_iff:
  "log_level lvl r \<noteq> 0 \<longleftrightarrow> lvl = RECORD_ALL \<or> lvl = RECORD_SUCCESS \<and> r = LOG_RESULT_SUCCESS \<or> lvl = RECORD_FAIL \<and> r = LOG_RESULT_FAIL"
  by (simp add: log_level_def)

text \<open>With the configuration and the list of objects of the two files, a record on a program is kept
  exactly if the run was let through in learning mode, or the object is in the list (as a path, or
  under a directory written with a slash at its end), or the level of programs covers the result. The
  list is read completely, whatever its length.
\<close>

theorem program_records_kept:
  assumes "kfile_bytes f (concat (map (\<lambda>l. l @ [10]) ls))" "\<forall>l\<in>set ls. exception_line l"
    and "config = Some g" "kernel_read g 0 128 = Inr b" "length b = 32"
    and "cmds 13 = None" "cmds 14 = None"
  shows "\<exists>s'. log_config_policy_init (\<lambda>e. True) config (Some f) \<lparr>log_config_policy = c0, g_list_policy_exception_log = [], lc_commands = cmds\<rparr> = Some (0, s')
    \<and> (\<forall>result d. get_log_config_policy LOG_WHITELIST result d s' \<noteq> 0 \<longleftrightarrow>
         result = LOG_RESULT_BYPASS \<or> object_listed ls (cstr (obj_name d))
         \<or> sint (le32 b) = RECORD_ALL \<or> sint (le32 b) = RECORD_SUCCESS \<and> result = LOG_RESULT_SUCCESS
         \<or> sint (le32 b) = RECORD_FAIL \<and> result = LOG_RESULT_FAIL)"
proof -
  let ?s = "\<lparr>log_config_policy = decode_log_config b, g_list_policy_exception_log = map exception_of ls,
     lc_commands = cmds(13 \<mapsto> ''ioctl_update_log_config_policy'', 14 \<mapsto> ''ioctl_reload_log_config_policy'')\<rparr>"
  have "load_exceptions (\<lambda>e. True) f 0 [] = Some ([] @ map exception_of ls)"
    by (rule load_exceptions_lines [OF assms(1,2)]) simp_all
  then have "log_config_policy_init (\<lambda>e. True) config (Some f) \<lparr>log_config_policy = c0, g_list_policy_exception_log = [], lc_commands = cmds\<rparr> = Some (0, ?s)"
    using assms(3-7) by (simp add: log_config_policy_init_def load_log_config_def SIZEOF_LOG_CONFIG_def load_exception_log_config_def
      httcsec_io_command_register_def MAX_COMMAND_NR_def Let_def)
  moreover have "get_log_config_policy LOG_WHITELIST result d ?s \<noteq> 0 \<longleftrightarrow>
         result = LOG_RESULT_BYPASS \<or> object_listed ls (cstr (obj_name d))
         \<or> sint (le32 b) = RECORD_ALL \<or> sint (le32 b) = RECORD_SUCCESS \<and> result = LOG_RESULT_SUCCESS
         \<or> sint (le32 b) = RECORD_FAIL \<and> result = LOG_RESULT_FAIL" for result d
  proof -
    have "qurey_exception_log_policy (obj_name d) ?s = 0 \<longleftrightarrow> object_listed ls (cstr (obj_name d))"
      by (rule query_listed [OF _ assms(2)]) simp
    then show ?thesis using log_level_iff [of "sint (le32 b)" result] by (auto simp: get_log_config_policy_def decode_log_config_def)
  qed
  ultimately show ?thesis by blast
qed

text \<open>Failures only, and everything below \<open>/a/\<close>.\<close>

definition text_file :: "byte list \<Rightarrow> kfile" where
  "text_file c = \<lparr>i_size = length c, kernel_read = (\<lambda>off cnt. Inr (take cnt (drop off c)))\<rparr>"

theorem program_records_kept_witness:
  "\<exists>s'. log_config_policy_init (\<lambda>e. True) (Some (text_file (2 # replicate 31 0))) (Some (text_file [47, 97, 47, 10]))
      \<lparr>log_config_policy = decode_log_config [], g_list_policy_exception_log = [], lc_commands = Map.empty\<rparr> = Some (0, s')
    \<and> get_log_config_policy LOG_WHITELIST LOG_RESULT_SUCCESS (zero_sec_domain\<lparr>obj_name := [47, 97, 47, 98, 0]\<rparr>) s' \<noteq> 0
    \<and> get_log_config_policy LOG_WHITELIST LOG_RESULT_SUCCESS (zero_sec_domain\<lparr>obj_name := [47, 98, 0]\<rparr>) s' = 0"
proof -
  let ?b = "2 # replicate 31 0 :: byte list" and ?c0 = "decode_log_config []"
  have kb: "kfile_bytes (text_file [47, 97, 47, 10]) (concat (map (\<lambda>l. l @ [10]) [[47, 97, 47]]))" by (simp add: kfile_bytes_def text_file_def)
  have ex: "\<forall>l\<in>set [[47, 97, 47 :: byte]]. exception_line l" by (simp add: exception_line_def no_nul_def)
  have rd: "kernel_read (text_file ?b) 0 128 = Inr ?b" by (simp add: text_file_def)
  note r = program_records_kept [OF kb ex refl rd, where cmds = Map.empty and ?c0.0 = ?c0]
  have "take 4 ?b = [2, 0, 0, 0]" by (simp add: numeral_eq_Suc)
  then have two: "sint (le32 ?b) = 2" by (simp add: le32_def be32_def CONCAT_4_BYTES_def)
  obtain s' where s': "log_config_policy_init (\<lambda>e. True) (Some (text_file ?b)) (Some (text_file [47, 97, 47, 10]))
      \<lparr>log_config_policy = ?c0, g_list_policy_exception_log = [], lc_commands = Map.empty\<rparr> = Some (0, s')"
    "\<forall>result d. get_log_config_policy LOG_WHITELIST result d s' \<noteq> 0 \<longleftrightarrow>
       result = LOG_RESULT_BYPASS \<or> object_listed [[47, 97, 47]] (cstr (obj_name d)) \<or> result = LOG_RESULT_FAIL"
    using r unfolding two by (simp del: replicate.simps) blast
  have "object_listed [[47, 97, 47]] (cstr [47, 97, 47, 98, 0])" "\<not> object_listed [[47, 97, 47]] (cstr [47, 98, 0])"
    by (simp_all add: object_listed_def cstr_def)
  moreover have "get_log_config_policy LOG_WHITELIST LOG_RESULT_SUCCESS (zero_sec_domain\<lparr>obj_name := n\<rparr>) s' \<noteq> 0 \<longleftrightarrow> object_listed [[47, 97, 47]] (cstr n)" for n
    using s'(2) by simp
  ultimately show ?thesis using s'(1) by (metis (no_types))
qed

end
