(* ===== verification/Trust_Status.thy ===== *)
theory Trust_Status
  imports Prelude
begin

text \<open>
  What the platform reports to the trusted module: tsb/kernel/platform/tpcm/tpcm_real.c. The trust status
  is reported once for each kind of failure, the failures are counted, and the areas of kernel memory to
  be measured are collected and handed over together.

  The calls of the trusted module (\<open>tcsk_sync_trust_status\<close>, \<open>tcsk_collection_and_measure\<close>) are recorded
  in \<open>ts_calls\<close> and \<open>tz_sent\<close>.
\<close>

section \<open>The trust status\<close>

text \<open>Type 0 is dynamic measurement, type 1 interception. A type outside the array is a run outside
  of memory.\<close>

record trust_state =
  trust_status_called :: "bool list"
  ts_calls :: "nat list"

definition trust_start :: trust_state where
  "trust_start = \<lparr>trust_status_called = [False, False], ts_calls = []\<rparr>"

definition sync_trust_status :: "nat \<Rightarrow> trust_state \<Rightarrow> (int \<times> trust_state) option" where
  "sync_trust_status type s =
     (if trust_status_called s ! 0 \<and> trust_status_called s ! 1 then Some (0, s)
      else if type \<ge> 2 then None
      else let s1 = (if \<not> trust_status_called s ! type then s\<lparr>ts_calls := ts_calls s @ [type]\<rparr> else s)
           in Some (0, s1\<lparr>trust_status_called := (trust_status_called s1)[type := True]\<rparr>))"

text \<open>The order of the reports is that of the first failures; nothing is reported twice.\<close>

definition trust_wf :: "trust_state \<Rightarrow> bool" where
  "trust_wf s \<longleftrightarrow> length (trust_status_called s) = 2 \<and> distinct (ts_calls s) \<and> set (ts_calls s) \<subseteq> {0, 1}
     \<and> (\<forall>t<2. trust_status_called s ! t \<longleftrightarrow> t \<in> set (ts_calls s))"

lemma trust_wf_start: "trust_wf trust_start"
  by (auto simp: trust_wf_def trust_start_def less_2_cases_iff)

lemma sync_trust_status_spec:
  assumes "trust_wf s" "t < 2"
  shows "\<exists>s'. sync_trust_status t s = Some (0, s') \<and> trust_wf s' \<and> ts_calls s' = (if t \<in> set (ts_calls s) then ts_calls s else ts_calls s @ [t])"
proof -
  have len: "length (trust_status_called s) = 2" and calls: "distinct (ts_calls s)" "set (ts_calls s) \<subseteq> {0, 1}"
    and iff: "trust_status_called s ! 0 \<longleftrightarrow> 0 \<in> set (ts_calls s)" "trust_status_called s ! 1 \<longleftrightarrow> 1 \<in> set (ts_calls s)"
    using assms(1) by (simp_all add: trust_wf_def)
  consider "t = 0" | "t = 1" using assms(2) by linarith
  then show ?thesis
    using len calls iff by cases (auto simp: sync_trust_status_def trust_wf_def less_2_cases_iff nth_list_update Let_def)
qed

lemma remdups_snoc: "remdups (xs @ [t]) = remdups (filter (\<lambda>x. x \<noteq> t) xs) @ [t]"
  by (induction xs) auto

fun sync_all :: "nat list \<Rightarrow> trust_state \<Rightarrow> trust_state option" where
  "sync_all [] s = Some s"
| "sync_all (t # ts) s = (case sync_trust_status t s of None \<Rightarrow> None | Some (r, s') \<Rightarrow> sync_all ts s')"

text \<open>However often and in whatever order failures are found, the trusted module is told of each of the two
  kinds exactly once, at its first failure.
\<close>

theorem trust_status_once:
  assumes "\<forall>t\<in>set ts. t < 2"
  shows "\<exists>s'. sync_all ts trust_start = Some s' \<and> ts_calls s' = rev (remdups (rev ts))"
proof -
  have "\<exists>s'. sync_all ts s = Some s' \<and> ts_calls s' = ts_calls s @ rev (remdups (rev (filter (\<lambda>t. t \<notin> set (ts_calls s)) ts)))"
    if "trust_wf s" "\<forall>t\<in>set ts. t < 2" for s ts
    using that
  proof (induction ts arbitrary: s)
    case (Cons t ts)
    then obtain s1 where s1: "sync_trust_status t s = Some (0, s1)" "trust_wf s1"
      "ts_calls s1 = (if t \<in> set (ts_calls s) then ts_calls s else ts_calls s @ [t])"
      using sync_trust_status_spec by (metis list.set_intros(1))
    obtain s' where "sync_all ts s1 = Some s'" "ts_calls s' = ts_calls s1 @ rev (remdups (rev (filter (\<lambda>t. t \<notin> set (ts_calls s1)) ts)))"
      using Cons.IH [OF s1(2)] Cons.prems(2) by auto
    moreover have "rev (remdups (rev (filter (\<lambda>t. t \<notin> A) (t # ts)))) =
        (if t \<in> A then rev (remdups (rev (filter (\<lambda>t. t \<notin> A) ts)))
         else t # rev (remdups (rev (filter (\<lambda>x. x \<notin> insert t A) ts))))" for A
      by (simp add: remdups_snoc rev_filter [symmetric] conj_commute)
    ultimately show ?case using s1 by auto
  qed simp
  from this [OF trust_wf_start assms] show ?thesis by (simp add: trust_start_def)
qed

lemma trust_status_once_witness:
  "\<exists>s'. sync_all [1, 1, 0, 1, 0] trust_start = Some s' \<and> ts_calls s' = [1, 0]"
  using trust_status_once [of "[1, 1, 0, 1, 0]"] by simp

section \<open>Counters\<close>

record credential_counts =
  ProcessExecCount :: int
  DynamicLibLoadCount :: int
  KernelModuleCount :: int
  FileAccessCount :: int
  SectionFailureCount :: int
  CriticalDataFailureCount :: int
  PorcessCodeFailureCount :: int

definition smeasure_credential_count_init :: "credential_counts \<Rightarrow> credential_counts" where
  "smeasure_credential_count_init c = c\<lparr>ProcessExecCount := 0, DynamicLibLoadCount := 0, KernelModuleCount := 0\<rparr>"

definition accessctl_credential_count_init :: "credential_counts \<Rightarrow> credential_counts" where
  "accessctl_credential_count_init c = c\<lparr>FileAccessCount := 0\<rparr>"

definition dmeasure_credential_count_init :: "credential_counts \<Rightarrow> credential_counts" where
  "dmeasure_credential_count_init c = c\<lparr>SectionFailureCount := 0, CriticalDataFailureCount := 0, PorcessCodeFailureCount := 0\<rparr>"

text \<open>\<open>atomic_inc\<close> on a signed 32 bit counter.\<close>

definition atomic_inc :: "int \<Rightarrow> int" where
  "atomic_inc n = (n + 1 + 2 ^ 31) mod 2 ^ 32 - 2 ^ 31"

definition ProcessExecCount_add :: "credential_counts \<Rightarrow> credential_counts" where
  "ProcessExecCount_add c = c\<lparr>ProcessExecCount := atomic_inc (ProcessExecCount c)\<rparr>"
definition DynamicLibLoadCount_add :: "credential_counts \<Rightarrow> credential_counts" where
  "DynamicLibLoadCount_add c = c\<lparr>DynamicLibLoadCount := atomic_inc (DynamicLibLoadCount c)\<rparr>"
definition KernelModuleCount_add :: "credential_counts \<Rightarrow> credential_counts" where
  "KernelModuleCount_add c = c\<lparr>KernelModuleCount := atomic_inc (KernelModuleCount c)\<rparr>"
definition FileAccessCount_add :: "credential_counts \<Rightarrow> credential_counts" where
  "FileAccessCount_add c = c\<lparr>FileAccessCount := atomic_inc (FileAccessCount c)\<rparr>"
definition SectionFailureCount_add :: "credential_counts \<Rightarrow> credential_counts" where
  "SectionFailureCount_add c = c\<lparr>SectionFailureCount := atomic_inc (SectionFailureCount c)\<rparr>"
definition CriticalDataFailureCount_add :: "credential_counts \<Rightarrow> credential_counts" where
  "CriticalDataFailureCount_add c = c\<lparr>CriticalDataFailureCount := atomic_inc (CriticalDataFailureCount c)\<rparr>"
definition ProcessCodeFailureCount_add :: "credential_counts \<Rightarrow> credential_counts" where
  "ProcessCodeFailureCount_add c = c\<lparr>PorcessCodeFailureCount := atomic_inc (PorcessCodeFailureCount c)\<rparr>"

record tsb_runtime_info =
  illegalProcessExecCount :: u32
  illegalDynamicLibLoadCount :: u32
  illegalKernelModuleLoadCount :: u32
  illegalFileAccessCount :: u32
  illegalDeviceAccessCount :: u32
  illegalNetworkVisitCount :: u32
  illegalNetworkRequestCount :: u32
  measureProcessCodeFailureCount :: u32
  measureKdataMeasureFailCount :: u32
  measureKcodeMeasureFailCount :: u32

definition get_tsb_runtime_info :: "credential_counts \<Rightarrow> tsb_runtime_info" where
  "get_tsb_runtime_info c =
     \<lparr>illegalProcessExecCount = of_int (ProcessExecCount c),
      illegalDynamicLibLoadCount = of_int (DynamicLibLoadCount c),
      illegalKernelModuleLoadCount = of_int (KernelModuleCount c),
      illegalFileAccessCount = of_int (FileAccessCount c),
      illegalDeviceAccessCount = 0, illegalNetworkVisitCount = 0, illegalNetworkRequestCount = 0,
      measureProcessCodeFailureCount = of_int (PorcessCodeFailureCount c),
      measureKdataMeasureFailCount = of_int (SectionFailureCount c),
      measureKcodeMeasureFailCount = of_int (CriticalDataFailureCount c)\<rparr>"

text \<open>A counter reports the number of its failures modulo \<open>2 ^ 32\<close>.\<close>

lemma of_int_atomic_inc: "(of_int (atomic_inc n) :: u32) = of_int n + 1"
proof -
  have "(of_int (k mod 2 ^ 32) :: u32) = of_int k" for k :: int
    by (rule word_of_int_eq_iff [THEN iffD2]) (simp add: take_bit_eq_mod)
  from this [of "n + 1 + 2 ^ 31"] show ?thesis by (simp add: atomic_inc_def)
qed

lemma exec_failures_counted:
  "illegalProcessExecCount (get_tsb_runtime_info ((ProcessExecCount_add ^^ n) c)) = of_int (ProcessExecCount c) + of_nat n"
proof -
  have "of_int (ProcessExecCount ((ProcessExecCount_add ^^ n) c)) = (of_int (ProcessExecCount c) + of_nat n :: u32)"
    by (induction n) (simp_all add: ProcessExecCount_add_def of_int_atomic_inc ac_simps)
  then show ?thesis by (simp add: get_tsb_runtime_info_def)
qed

text \<open>The two counters of kernel memory are exchanged: a failed measurement of the kernel's code section is
  reported as one of kernel data, and a failure of the system call table, of the modules, of the file
  systems or of the network as one of kernel code.\<close>

lemma kernel_counters_exchanged:
  "measureKdataMeasureFailCount (get_tsb_runtime_info (SectionFailureCount_add c)) = measureKdataMeasureFailCount (get_tsb_runtime_info c) + 1"
  "measureKcodeMeasureFailCount (get_tsb_runtime_info (SectionFailureCount_add c)) = measureKcodeMeasureFailCount (get_tsb_runtime_info c)"
  by (simp_all add: get_tsb_runtime_info_def SectionFailureCount_add_def of_int_atomic_inc)

section \<open>Measured areas\<close>

definition MAX_MEASURE_ZONE :: nat where "MAX_MEASURE_ZONE = 6"
definition MAX_DMEASURE_NAME_SIZE :: nat where "MAX_DMEASURE_NAME_SIZE = 32"

record collection_context =
  cc_name :: "byte list"
  cc_data_length :: int
  cc_data_address :: nat

record zone_state =
  ctx :: "collection_context list"
  tz_sent :: "collection_context list list"

text \<open>
  \<open>zone\<close> is the name, the address and the length, \<open>None\<close> if one of them is zero; \<open>phys\<close> is the physical
  address of an address and \<open>tcsk\<close> the answer of the trusted module. The number of entries is not
  tested, nor is the length of the name.
\<close>

definition set_measure_zone_to_tpcm ::
  "(nat \<Rightarrow> nat) \<Rightarrow> (collection_context list \<Rightarrow> int) \<Rightarrow> (byte list \<times> nat \<times> int) option \<Rightarrow> zone_state \<Rightarrow> (int \<times> zone_state) option" where
  "set_measure_zone_to_tpcm phys tcsk zone s = (case zone of
     Some (name, address, len) \<Rightarrow>
       if length (ctx s) \<ge> MAX_MEASURE_ZONE \<or> strlen name + 1 > MAX_DMEASURE_NAME_SIZE then None
       else Some (0, s\<lparr>ctx := ctx s @ [\<lparr>cc_name = cstr name, cc_data_length = len, cc_data_address = phys address\<rparr>]\<rparr>)
   | None \<Rightarrow> Some (tcsk (ctx s), s\<lparr>ctx := [], tz_sent := tz_sent s @ [ctx s]\<rparr>))"

fun set_zones :: "(nat \<Rightarrow> nat) \<Rightarrow> (collection_context list \<Rightarrow> int) \<Rightarrow> (byte list \<times> nat \<times> int) list \<Rightarrow> zone_state \<Rightarrow> zone_state option" where
  "set_zones phys tcsk [] s = map_option snd (set_measure_zone_to_tpcm phys tcsk None s)"
| "set_zones phys tcsk (z # zs) s =
     (case set_measure_zone_to_tpcm phys tcsk (Some z) s of None \<Rightarrow> None | Some (r, s') \<Rightarrow> set_zones phys tcsk zs s')"

text \<open>Up to six areas are handed over in one call, in their order; a seventh is written behind the array.\<close>

lemma set_zones_sent:
  assumes "length (ctx s) + length zs \<le> MAX_MEASURE_ZONE" "\<forall>(n, a, l)\<in>set zs. strlen n < 32"
  shows "set_zones phys tcsk zs s = Some (s\<lparr>ctx := [], tz_sent := tz_sent s @ [ctx s @
     map (\<lambda>(n, a, l). \<lparr>cc_name = cstr n, cc_data_length = l, cc_data_address = phys a\<rparr>) zs]\<rparr>)"
  using assms
proof (induction zs arbitrary: s)
  case Nil
  then show ?case by (simp add: set_measure_zone_to_tpcm_def)
next
  case (Cons z zs)
  obtain n a l where z: "z = (n, a, l)" by (cases z) auto
  then have "set_measure_zone_to_tpcm phys tcsk (Some z) s =
      Some (0, s\<lparr>ctx := ctx s @ [\<lparr>cc_name = cstr n, cc_data_length = l, cc_data_address = phys a\<rparr>]\<rparr>)"
    using Cons.prems by (simp add: set_measure_zone_to_tpcm_def MAX_DMEASURE_NAME_SIZE_def)
  then show ?case using Cons.prems Cons.IH z by simp
qed

lemma seventh_zone_outside: "length (ctx s) = 6 \<Longrightarrow> set_measure_zone_to_tpcm phys tcsk (Some z) s = None"
  by (cases z) (simp add: set_measure_zone_to_tpcm_def MAX_MEASURE_ZONE_def)

end
