(* ===== verification/Audit_Log.thy ===== *)
theory Audit_Log
  imports Log_Config Trust_Status
begin

text \<open>
  The audit log: tsb/kernel/platform/log/log.c and log_buff.c. Records are built in a page, put into the list
  of working records unless an equal record of the same second is in the cache, and a kernel thread
  moves them to the list of records to be flushed and writes them to the log file (or, with LOG_MEM, to a
  list in memory that a command reads).

  The cached copies are reached from a hash bucket and from the list of the cache; they live at
  addresses of \<open>cache_mem\<close>, and a result \<open>None\<close> of an operation on the buffer is an access to a copy that
  was freed. \<open>None\<close> is also a write or a read outside a page or a buffer. \<open>log_out\<close> are the bytes that have
  been written to the log files, in order. \<open>log_create\<close> and \<open>log_out\<close> of the sources have no caller
  and are not modelled.
\<close>

section \<open>Records\<close>

record log_data =
  repeats :: int
  ld_time :: int
  ld_id :: "64 word"
  ld_data :: "byte list"

record audit_msg =
  am_magic :: u32
  am_type :: u32
  am_operate :: u32
  am_result :: u32
  am_user :: u32
  am_pid :: u32
  am_repeat_num :: u32
  am_time :: "64 word"
  am_total_len :: u32
  am_len_sub :: u32
  am_len_obj :: u32
  am_sub_hash :: "byte list"
  am_data :: "byte list"

definition PAGE_SIZE :: nat where "PAGE_SIZE = 4096"
definition SIZEOF_LOG_DATA :: nat where "SIZEOF_LOG_DATA = 64"
definition SIZEOF_AUDIT_MSG :: nat where "SIZEOF_AUDIT_MSG = 80"
definition AUDIT_MAGIC :: u32 where "AUDIT_MAGIC = 0xCCA1B2DD"
definition CACHE_MAX_NUM :: int where "CACHE_MAX_NUM = 200"
definition WORKING_HASH_SIZE :: nat where "WORKING_HASH_SIZE = 1024"

text \<open>The packed structure in memory, little endian.\<close>

definition le32_word :: "u32 \<Rightarrow> byte list" where
  "le32_word w = rev (PUT_ULONG_BE w)"

definition le64_word :: "64 word \<Rightarrow> byte list" where
  "le64_word w = le32_word (ucast w) @ le32_word (ucast (drop_bit 32 w))"

definition audit_msg_bytes :: "audit_msg \<Rightarrow> byte list" where
  "audit_msg_bytes m =
     concat (map le32_word [am_magic m, am_type m, am_operate m, am_result m, am_user m, am_pid m, am_repeat_num m])
     @ le64_word (am_time m) @ concat (map le32_word [am_total_len m, am_len_sub m, am_len_obj m]) @ am_sub_hash m @ am_data m"

section \<open>The buffer\<close>

record log_buffer =
  working :: "log_data list"
  flushing :: "log_data list"
  working_number :: int
  cache_number :: int
  cache_hash :: "nat \<Rightarrow> nat list"
  log_cache :: "nat list"
  cache_mem :: "nat \<Rightarrow> log_data option"

definition log_buffer_init :: "(nat \<Rightarrow> nat list) \<Rightarrow> log_buffer" where
  "log_buffer_init hastable = \<lparr>working = [], flushing = [], working_number = 0, cache_number = 0, cache_hash = hastable,
     log_cache = [], cache_mem = Map.empty\<rparr>"

datatype log_fd = No_File | File_Open | File_Stale

text \<open>\<open>File_Stale\<close>: the variable still holds a file that has been closed.\<close>

record log_state =
  log_buf :: log_buffer
  cur_log_id :: "64 word"
  log_stopped :: bool
  log_file :: log_fd
  log_out :: "byte list"
  g_list_log_memory :: "byte list list"
  log_sum :: int
  ls_config :: log_config_state
  ls_trust :: trust_state

text \<open>\<open>opn\<close> is the answer of \<open>filp_open\<close>: an error or a file. Closing a file twice is a run outside of memory.\<close>

definition switch_log_file :: "int option \<Rightarrow> log_state \<Rightarrow> (int \<times> log_state) option" where
  "switch_log_file opn s =
     (if log_file s = File_Stale then None
      else if log_stopped s then Some (0, s\<lparr>log_file := (if log_file s = File_Open then File_Stale else log_file s)\<rparr>)
      else (case opn of Some e \<Rightarrow> Some (if e = 0 then -1 else e, s\<lparr>log_file := No_File\<rparr>)
            | None \<Rightarrow> Some (0, s\<lparr>log_file := File_Open\<rparr>)))"

definition hash_func :: "jhash_fun \<Rightarrow> byte list \<Rightarrow> nat" where
  "hash_func jhash d = unat (jhash d 0) mod 1024"

definition same_record :: "log_data \<Rightarrow> log_data \<Rightarrow> bool" where
  "same_record t d \<longleftrightarrow> ld_time t = ld_time d \<and> length (ld_data t) = length (ld_data d) \<and> ld_data d = ld_data t"

fun log_get_existed :: "(nat \<Rightarrow> log_data option) \<Rightarrow> log_data \<Rightarrow> nat list \<Rightarrow> nat option option" where
  "log_get_existed mem d [] = Some None"
| "log_get_existed mem d (a # as) =
     (case mem a of None \<Rightarrow> None | Some t \<Rightarrow> if same_record t d then Some (Some a) else log_get_existed mem d as)"

definition cache_drop :: "nat \<Rightarrow> nat \<Rightarrow> log_buffer \<Rightarrow> log_buffer" where
  "cache_drop i a b = b\<lparr>cache_hash := (cache_hash b)(i := remove1 a (cache_hash b i)), log_cache := remove1 a (log_cache b),
     cache_number := cache_number b - 1, cache_mem := (cache_mem b)(a := None)\<rparr>"

fun clean_chain :: "int \<Rightarrow> nat \<Rightarrow> nat list \<Rightarrow> log_buffer \<Rightarrow> log_buffer option" where
  "clean_chain cur i [] b = Some b"
| "clean_chain cur i (a # as) b =
     (case cache_mem b a of None \<Rightarrow> None
      | Some plog \<Rightarrow> clean_chain cur i as (if cur - ld_time plog > 2 then cache_drop i a b else b))"

fun clean_chains :: "int \<Rightarrow> nat list \<Rightarrow> log_buffer \<Rightarrow> log_buffer option" where
  "clean_chains cur [] b = Some b"
| "clean_chains cur (i # is) b = (case clean_chain cur i (cache_hash b i) b of None \<Rightarrow> None | Some b' \<Rightarrow> clean_chains cur is b')"

definition log_cache_clean :: "int \<Rightarrow> log_buffer \<Rightarrow> log_buffer option" where
  "log_cache_clean curtime b = clean_chains curtime [0..<WORKING_HASH_SIZE] b"

text \<open>The copy is put at the address \<open>a\<close> of the new allocation.\<close>

definition add_log_cache :: "log_data \<Rightarrow> nat \<Rightarrow> nat \<Rightarrow> log_buffer \<Rightarrow> log_buffer" where
  "add_log_cache d a hash b = b\<lparr>cache_mem := (cache_mem b)(a \<mapsto> d), cache_number := cache_number b + 1,
     cache_hash := (cache_hash b)(hash := a # cache_hash b hash), log_cache := log_cache b @ [a]\<rparr>"

text \<open>\<open>alloc\<close> is the address of the copy, \<open>None\<close> if kzalloc fails; \<open>now\<close> is the time when the cache is cleaned.
  On the two failures and while the log is stopped the record itself is not freed.\<close>

definition log_out_buffer ::
  "jhash_fun \<Rightarrow> nat option \<Rightarrow> int \<Rightarrow> log_data \<Rightarrow> log_state \<Rightarrow> (int \<times> log_state) option" where
  "log_out_buffer jhash alloc now d s =
     (let b = log_buf s; hash = hash_func jhash (ld_data d) in
      if length (ld_data d) > 4096 then Some (-1, s)
      else case alloc of None \<Rightarrow> Some (-1, s)
      | Some a \<Rightarrow>
         if log_stopped s then Some (0, s)
         else (case log_get_existed (cache_mem b) d (cache_hash b hash) of None \<Rightarrow> None
           | Some (Some e) \<Rightarrow>
               (case cache_mem b e of None \<Rightarrow> None
                | Some t \<Rightarrow> Some (0, s\<lparr>log_buf := b\<lparr>cache_mem := (cache_mem b)(e \<mapsto> t\<lparr>repeats := repeats t + 1\<rparr>)\<rparr>\<rparr>))
           | Some None \<Rightarrow>
               (let b1 = add_log_cache d a hash b;
                    b2 = b1\<lparr>working_number := working_number b1 + 1, working := working b1 @ [d\<lparr>ld_id := cur_log_id s\<rparr>]\<rparr>
                in map_option (\<lambda>b3. (0, s\<lparr>log_buf := b3, cur_log_id := cur_log_id s + 1\<rparr>))
                     (if cache_number b2 > CACHE_MAX_NUM then log_cache_clean now b2 else Some b2))))"

section \<open>The flushing thread\<close>

text \<open>\<open>kw\<close> is the part of the bytes that \<open>kernel_write\<close> writes; its result is ignored.\<close>

definition write_log :: "(byte list \<Rightarrow> byte list) \<Rightarrow> log_data \<Rightarrow> log_state \<Rightarrow> log_state option" where
  "write_log kw d s =
     (if log_stopped s then Some s
      else case log_file s of No_File \<Rightarrow> Some s | File_Stale \<Rightarrow> None
           | File_Open \<Rightarrow> Some (s\<lparr>log_out := log_out s @ kw (ld_data d)\<rparr>))"

text \<open>With LOG_MEM: at most 10000 records stay in memory. \<open>kz\<close>: kzalloc succeeds.\<close>

definition write_log_to_memory :: "bool \<Rightarrow> log_data \<Rightarrow> log_state \<Rightarrow> (int \<times> log_state) option" where
  "write_log_to_memory kz d s =
     (if log_stopped s then Some (0, s)
      else if \<not> kz then Some (-1, s)
      else if log_sum s + 1 > 10000
      then (case g_list_log_memory s of [] \<Rightarrow> None
            | _ # ms \<Rightarrow> Some (0, s\<lparr>g_list_log_memory := ms @ [ld_data d], log_sum := log_sum s + 1 - 1\<rparr>))
      else Some (0, s\<lparr>g_list_log_memory := g_list_log_memory s @ [ld_data d], log_sum := log_sum s + 1\<rparr>))"

definition clear_mem_log :: "log_state \<Rightarrow> log_state" where
  "clear_mem_log s = s\<lparr>g_list_log_memory := [], log_sum := log_sum s - int (length (g_list_log_memory s))\<rparr>"

datatype flusher = F_Wait | F_Flush | F_Done

definition flush_take :: "log_buffer \<Rightarrow> log_buffer" where
  "flush_take b = b\<lparr>flushing := working b @ flushing b, working := [], working_number := 0\<rparr>"

text \<open>One step of \<open>buffer_flush\<close>: the moment after the wait, one record, or the end of the inner loop.
  \<open>func\<close> is the function that the buffer was started with. The result is \<open>None\<close> if the thread waits,
  has ended, or crashes.\<close>

definition buffer_flush ::
  "(log_data \<Rightarrow> log_state \<Rightarrow> log_state option) \<Rightarrow> bool \<Rightarrow> flusher \<times> log_state \<Rightarrow> (flusher \<times> log_state) option" where
  "buffer_flush func log_buff_stop fs = (case fs of (pc, s) \<Rightarrow>
     (case pc of
        F_Wait \<Rightarrow> if working_number (log_buf s) > 0 then Some (F_Flush, s\<lparr>log_buf := flush_take (log_buf s)\<rparr>) else None
      | F_Flush \<Rightarrow>
          (case flushing (log_buf s) of
             d # ds \<Rightarrow> map_option (Pair F_Flush) (func d (s\<lparr>log_buf := (log_buf s)\<lparr>flushing := ds\<rparr>\<rparr>))
           | [] \<Rightarrow> Some (if log_buff_stop then F_Done else F_Wait, s))
      | F_Done \<Rightarrow> None))"

text \<open>Freeing everything: the records by their lists, the copies by the list of the cache.\<close>

fun free_all :: "nat list \<Rightarrow> (nat \<Rightarrow> log_data option) \<Rightarrow> (nat \<Rightarrow> log_data option) option" where
  "free_all [] mem = Some mem"
| "free_all (a # as) mem = (case mem a of None \<Rightarrow> None | Some d \<Rightarrow> free_all as (mem(a := None)))"

definition log_buffer_empty :: "log_buffer \<Rightarrow> log_buffer option" where
  "log_buffer_empty b =
     map_option (\<lambda>mem. b\<lparr>working := [], flushing := [], log_cache := [], cache_mem := mem,
         cache_hash := (\<lambda>i. if i < WORKING_HASH_SIZE then [] else cache_hash b i)\<rparr>) (free_all (log_cache b) (cache_mem b))"

section \<open>The cache\<close>

text \<open>Every copy is in the list of the cache and in the bucket of its bytes, once in each; nothing else is.\<close>

definition lcache_wf :: "jhash_fun \<Rightarrow> log_buffer \<Rightarrow> bool" where
  "lcache_wf jhash b \<longleftrightarrow> distinct (log_cache b) \<and> set (log_cache b) = dom (cache_mem b) \<and> cache_number b = int (length (log_cache b))
     \<and> (\<forall>i. distinct (cache_hash b i) \<and> set (cache_hash b i) = {a. \<exists>d. cache_mem b a = Some d \<and> hash_func jhash (ld_data d) = i})"

lemma lcache_wf_init: "lcache_wf jhash (log_buffer_init (\<lambda>i. []))"
  by (simp add: lcache_wf_def log_buffer_init_def)

lemma lcache_wf_chain:
  assumes "lcache_wf jhash b"
  shows "a \<in> set (cache_hash b i) \<longleftrightarrow> (\<exists>d. cache_mem b a = Some d \<and> hash_func jhash (ld_data d) = i)" "distinct (cache_hash b i)"
  using assms by (auto simp: lcache_wf_def)

lemma lcache_wf_cong:
  assumes "lcache_wf jhash b" "log_cache b' = log_cache b" "cache_mem b' = cache_mem b" "cache_number b' = cache_number b" "cache_hash b' = cache_hash b"
  shows "lcache_wf jhash b'"
  using assms by (simp add: lcache_wf_def)

lemma lcache_drop_wf:
  assumes "lcache_wf jhash b" "a \<in> set (cache_hash b i)"
  shows "lcache_wf jhash (cache_drop i a b)"
proof -
  obtain d where d: "cache_mem b a = Some d" "hash_func jhash (ld_data d) = i" using assms lcache_wf_chain(1) by blast
  then have a: "a \<in> set (log_cache b)" using assms(1) by (auto simp: lcache_wf_def)
  then have len: "int (length (remove1 a (log_cache b))) = int (length (log_cache b)) - 1"
    using length_pos_if_in_set [OF a] by (simp add: length_remove1 of_nat_diff Suc_leI)
  have sets: "set (remove1 a (cache_hash b i)) = set (cache_hash b i) - {a}" "set (remove1 a (log_cache b)) = set (log_cache b) - {a}"
    using assms(1) by (simp_all add: lcache_wf_def set_remove1_eq)
  have "set (((cache_hash b)(i := remove1 a (cache_hash b i))) j) = {x. \<exists>u. ((cache_mem b)(a := None)) x = Some u \<and> hash_func jhash (ld_data u) = j}" for j
    using lcache_wf_chain(1) [OF assms(1)] sets(1) d by (auto split: if_splits)
  moreover have "distinct (((cache_hash b)(i := remove1 a (cache_hash b i))) j)" for j using lcache_wf_chain(2) [OF assms(1)] by simp
  moreover have "set (remove1 a (log_cache b)) = dom ((cache_mem b)(a := None))" using sets(2) assms(1) by (simp add: lcache_wf_def)
  ultimately show ?thesis
    using assms(1) len unfolding lcache_wf_def cache_drop_def by simp
qed

lemma cache_drop_keeps [simp]:
  "working (cache_drop i a b) = working b" "flushing (cache_drop i a b) = flushing b" "working_number (cache_drop i a b) = working_number b"
  by (simp_all add: cache_drop_def)

definition mem_sub :: "log_buffer \<Rightarrow> log_buffer \<Rightarrow> bool" where
  "mem_sub b b' \<longleftrightarrow> cache_mem b \<subseteq>\<^sub>m cache_mem b' \<and> working b = working b' \<and> flushing b = flushing b' \<and> working_number b = working_number b'"

lemma mem_sub_trans: "mem_sub a b \<Longrightarrow> mem_sub b c \<Longrightarrow> mem_sub a c"
  by (auto simp: mem_sub_def intro: map_le_trans)

lemma clean_chain_wf:
  assumes "lcache_wf jhash b" "set as \<subseteq> set (cache_hash b i)" "distinct as"
  shows "\<exists>b'. clean_chain cur i as b = Some b' \<and> lcache_wf jhash b' \<and> mem_sub b' b"
  using assms
proof (induction as arbitrary: b)
  case Nil
  then show ?case by (simp add: mem_sub_def)
next
  case (Cons a as)
  then obtain d where d: "cache_mem b a = Some d" using lcache_wf_chain(1) by (metis list.set_intros(1) subsetD)
  let ?b = "if cur - ld_time d > 2 then cache_drop i a b else b"
  have wf: "lcache_wf jhash ?b" using Cons.prems lcache_drop_wf by auto
  have sub: "mem_sub ?b b" by (auto simp: mem_sub_def cache_drop_def map_le_def)
  have "set as \<subseteq> set (cache_hash ?b i)"
    using Cons.prems lcache_wf_chain(2) [OF Cons.prems(1), of i] by (auto simp: cache_drop_def set_remove1_eq)
  then obtain b' where "clean_chain cur i as ?b = Some b'" "lcache_wf jhash b'" "mem_sub b' ?b"
    using Cons.IH [OF wf] Cons.prems(3) by auto
  with d sub show ?case using mem_sub_trans by auto
qed

lemma clean_chains_wf:
  assumes "lcache_wf jhash b"
  shows "\<exists>b'. clean_chains cur is b = Some b' \<and> lcache_wf jhash b' \<and> mem_sub b' b"
  using assms
proof (induction "is" arbitrary: b)
  case Nil
  then show ?case by (simp add: mem_sub_def)
next
  case (Cons i "is")
  obtain b1 where b1: "clean_chain cur i (cache_hash b i) b = Some b1" "lcache_wf jhash b1" "mem_sub b1 b"
    using clean_chain_wf [OF Cons.prems order_refl lcache_wf_chain(2) [OF Cons.prems]] by blast
  then obtain b' where "clean_chains cur is b1 = Some b'" "lcache_wf jhash b'" "mem_sub b' b1" using Cons.IH by blast
  with b1 show ?case using mem_sub_trans by auto
qed

lemma get_existed_wf:
  assumes "\<forall>a\<in>set as. mem a \<noteq> None"
  shows "log_get_existed mem d as = Some (find (\<lambda>a. same_record (the (mem a)) d) as)"
  using assms by (induction as) auto

lemma add_log_cache_wf:
  assumes "lcache_wf jhash b" "cache_mem b a = None"
  shows "lcache_wf jhash (add_log_cache d a (hash_func jhash (ld_data d)) b)"
proof -
  let ?h = "hash_func jhash (ld_data d)"
  have new: "a \<notin> set (log_cache b)" "a \<notin> set (cache_hash b i)" for i
    using assms lcache_wf_chain(1) [OF assms(1)] by (auto simp: lcache_wf_def)
  have "{x. \<exists>t. ((cache_mem b)(a \<mapsto> d)) x = Some t \<and> hash_func jhash (ld_data t) = i} =
      (if i = ?h then insert a (set (cache_hash b i)) else set (cache_hash b i))" for i
    using assms lcache_wf_chain(1) [OF assms(1), of _ i] new(2) by (auto split: if_splits)
  then show ?thesis
    using assms(1) new lcache_wf_chain(2) [OF assms(1)] unfolding lcache_wf_def add_log_cache_def by simp
qed

lemma repeat_wf:
  assumes "lcache_wf jhash b" "cache_mem b e = Some t" "ld_data t' = ld_data t"
  shows "lcache_wf jhash (b\<lparr>cache_mem := (cache_mem b)(e \<mapsto> t')\<rparr>)"
proof -
  have "{x. \<exists>u. ((cache_mem b)(e \<mapsto> t')) x = Some u \<and> hash_func jhash (ld_data u) = i} =
      {x. \<exists>u. cache_mem b x = Some u \<and> hash_func jhash (ld_data u) = i}" for i
  proof (rule Collect_cong)
    fix x
    show "(\<exists>u. ((cache_mem b)(e \<mapsto> t')) x = Some u \<and> hash_func jhash (ld_data u) = i) =
        (\<exists>u. cache_mem b x = Some u \<and> hash_func jhash (ld_data u) = i)"
      using assms(2,3) by (cases "x = e") simp_all
  qed
  moreover have "dom ((cache_mem b)(e \<mapsto> t')) = dom (cache_mem b)" using assms(2) by auto
  ultimately show ?thesis using assms(1) unfolding lcache_wf_def by simp
qed

text \<open>
  The two outcomes of putting a record into the buffer: an equal record of the same second is in the cache
  and is counted there, or the record is appended and copied to the cache.
\<close>

definition cached :: "log_buffer \<Rightarrow> log_data \<Rightarrow> bool" where
  "cached b d \<longleftrightarrow> (\<exists>a t. cache_mem b a = Some t \<and> same_record t d)"

definition covered_by :: "log_data list \<Rightarrow> log_buffer \<Rightarrow> bool" where
  "covered_by ds b \<longleftrightarrow> (\<forall>a t. cache_mem b a = Some t \<longrightarrow> (\<exists>d\<in>set ds. same_record t d))"

lemma same_record_iff: "same_record t d \<longleftrightarrow> (ld_time t, ld_data t) = (ld_time d, ld_data d)"
proof
  assume "same_record t d"
  then show "(ld_time t, ld_data t) = (ld_time d, ld_data d)" by (simp add: same_record_def)
next
  assume "(ld_time t, ld_data t) = (ld_time d, ld_data d)"
  then show "same_record t d" by (simp add: same_record_def)
qed

lemma same_record_sym: "same_record a b \<longleftrightarrow> same_record b a"
  unfolding same_record_iff by (rule eq_commute)

lemma same_record_trans: "same_record a b \<Longrightarrow> same_record b c \<Longrightarrow> same_record a c"
  unfolding same_record_iff by (rule trans)

lemma log_out_buffer_cases:
  assumes "lcache_wf jhash (log_buf s)" "\<not> log_stopped s" "length (ld_data d) \<le> 4096" "cache_mem (log_buf s) a = None"
  obtains (repeat) e t where "cache_mem (log_buf s) e = Some t" "same_record t d"
      "log_out_buffer jhash (Some a) now d s = Some (0, s\<lparr>log_buf := (log_buf s)\<lparr>cache_mem := (cache_mem (log_buf s))(e \<mapsto> t\<lparr>repeats := repeats t + 1\<rparr>)\<rparr>\<rparr>)"
  | (accept) b where "\<not> cached (log_buf s) d"
      "log_out_buffer jhash (Some a) now d s = Some (0, s\<lparr>log_buf := b, cur_log_id := cur_log_id s + 1\<rparr>)"
      "lcache_wf jhash b" "working b = working (log_buf s) @ [d\<lparr>ld_id := cur_log_id s\<rparr>]" "flushing b = flushing (log_buf s)"
      "working_number b = working_number (log_buf s) + 1" "cache_mem b \<subseteq>\<^sub>m (cache_mem (log_buf s))(a \<mapsto> d)"
proof -
  define b where "b = log_buf s"
  define h where "h = hash_func jhash (ld_data d)"
  have wf: "lcache_wf jhash b" using assms(1) by (simp add: b_def)
  have "\<forall>a\<in>set (cache_hash b h). cache_mem b a \<noteq> None" using lcache_wf_chain(1) [OF wf] by auto
  note ge = get_existed_wf [OF this, of d]
  show ?thesis
  proof (cases "find (\<lambda>a. same_record (the (cache_mem b a)) d) (cache_hash b h)")
    case (Some e)
    then have "e \<in> set (cache_hash b h)" "same_record (the (cache_mem b e)) d" by (auto simp: find_Some_iff)
    then obtain t where t: "cache_mem b e = Some t" "same_record t d" using lcache_wf_chain(1) [OF wf] by auto
    have "log_out_buffer jhash (Some a) now d s = Some (0, s\<lparr>log_buf := b\<lparr>cache_mem := (cache_mem b)(e \<mapsto> t\<lparr>repeats := repeats t + 1\<rparr>)\<rparr>\<rparr>)"
      using assms(2,3) ge Some t by (simp add: log_out_buffer_def Let_def b_def h_def)
    with t repeat [of e t] show ?thesis by (simp add: b_def)
  next
    case None
    have nc: "\<not> cached b d"
    proof
      assume "cached b d"
      then obtain a' t where t: "cache_mem b a' = Some t" "same_record t d" by (auto simp: cached_def)
      then have "a' \<in> set (cache_hash b h)" using lcache_wf_chain(1) [OF wf] by (auto simp: same_record_def h_def)
      with None t show False by (force simp: find_None_iff)
    qed
    define b2 where "b2 = (add_log_cache d a h b)\<lparr>working_number := working_number (add_log_cache d a h b) + 1,
       working := working (add_log_cache d a h b) @ [d\<lparr>ld_id := cur_log_id s\<rparr>]\<rparr>"
    have "lcache_wf jhash (add_log_cache d a h b)" unfolding h_def using assms(4) by (intro add_log_cache_wf wf) (simp add: b_def)
    then have wf2: "lcache_wf jhash b2" by (rule lcache_wf_cong) (simp_all add: b2_def)
    obtain b3 where b3: "(if cache_number b2 > CACHE_MAX_NUM then log_cache_clean now b2 else Some b2) = Some b3" "lcache_wf jhash b3" "mem_sub b3 b2"
      using clean_chains_wf [OF wf2, of now "[0..<WORKING_HASH_SIZE]"] wf2 unfolding log_cache_clean_def
      by (cases "cache_number b2 > CACHE_MAX_NUM") (auto simp: mem_sub_def)
    have "log_out_buffer jhash (Some a) now d s =
        map_option (\<lambda>b3. (0, s\<lparr>log_buf := b3, cur_log_id := cur_log_id s + 1\<rparr>)) (if cache_number b2 > CACHE_MAX_NUM then log_cache_clean now b2 else Some b2)"
      using assms(2,3) ge None unfolding log_out_buffer_def Let_def b_def [symmetric] h_def [symmetric] b2_def by simp
    then have "log_out_buffer jhash (Some a) now d s = Some (0, s\<lparr>log_buf := b3, cur_log_id := cur_log_id s + 1\<rparr>)" unfolding b3(1) by simp
    then show ?thesis
      using accept [of b3] nc b3(2,3) by (simp add: b2_def b_def mem_sub_def add_log_cache_def)
  qed
qed

section \<open>The log while it runs\<close>

text \<open>
  Threads put records, the flushing thread takes and writes them, and an administrator rotates the file, in
  any order. \<open>lw_accepted\<close> remembers the records that were put into the list, and an allocation gives an address
  that is not in use.
\<close>

record log_world =
  lw_state :: log_state
  lw_pc :: flusher
  lw_accepted :: "log_data list"

inductive log_step :: "jhash_fun \<Rightarrow> (byte list \<Rightarrow> byte list) \<Rightarrow> log_world \<Rightarrow> log_world \<Rightarrow> bool" for jhash kw where
  log_put: "log_out_buffer jhash alloc now d (lw_state w) = Some (r, s') \<Longrightarrow>
    (\<forall>a. alloc = Some a \<longrightarrow> cache_mem (log_buf (lw_state w)) a = None) \<Longrightarrow>
    log_step jhash kw w (w\<lparr>lw_state := s', lw_accepted := lw_accepted w @ drop (length (working (log_buf (lw_state w)))) (working (log_buf s'))\<rparr>)"
| log_rotate: "switch_log_file None (lw_state w) = Some (r, s') \<Longrightarrow> log_step jhash kw w (w\<lparr>lw_state := s'\<rparr>)"
| log_flush: "buffer_flush (write_log kw) False (lw_pc w, lw_state w) = Some (pc', s') \<Longrightarrow>
    log_step jhash kw w (w\<lparr>lw_state := s', lw_pc := pc'\<rparr>)"

text \<open>A log that has just been started, with what earlier sessions have left in the file.\<close>

definition log_started :: "log_state \<Rightarrow> log_world \<Rightarrow> bool" where
  "log_started s w \<longleftrightarrow> w = \<lparr>lw_state = s, lw_pc = F_Wait, lw_accepted = []\<rparr> \<and> log_buf s = log_buffer_init (\<lambda>i. [])
     \<and> \<not> log_stopped s \<and> log_file s = File_Open"

definition log_inv :: "jhash_fun \<Rightarrow> byte list \<Rightarrow> log_world \<Rightarrow> bool" where
  "log_inv jhash out0 w \<longleftrightarrow> lcache_wf jhash (log_buf (lw_state w)) \<and> \<not> log_stopped (lw_state w) \<and> log_file (lw_state w) = File_Open
     \<and> working_number (log_buf (lw_state w)) = int (length (working (log_buf (lw_state w))))
     \<and> (lw_pc w = F_Wait \<longrightarrow> flushing (log_buf (lw_state w)) = []) \<and> lw_pc w \<noteq> F_Done
     \<and> covered_by (lw_accepted w) (log_buf (lw_state w))
     \<and> (\<exists>done. lw_accepted w = done @ flushing (log_buf (lw_state w)) @ working (log_buf (lw_state w))
          \<and> log_out (lw_state w) = out0 @ concat (map ld_data done))"

lemma log_inv_start: "log_started s w \<Longrightarrow> log_inv jhash (log_out s) w"
  using lcache_wf_init [of jhash] by (auto simp: log_started_def log_inv_def log_buffer_init_def covered_by_def)

lemma covered_mono: "covered_by ds b \<Longrightarrow> cache_mem b' \<subseteq>\<^sub>m cache_mem b \<Longrightarrow> set ds \<subseteq> set ds' \<Longrightarrow> covered_by ds' b'"
  unfolding covered_by_def map_le_def by (metis domI subsetD)

lemma log_put_inv:
  assumes "log_inv jhash out0 w" "log_out_buffer jhash alloc now d (lw_state w) = Some (r, s')"
    and "\<forall>a. alloc = Some a \<longrightarrow> cache_mem (log_buf (lw_state w)) a = None"
  shows "log_inv jhash out0 (w\<lparr>lw_state := s', lw_accepted := lw_accepted w @ drop (length (working (log_buf (lw_state w)))) (working (log_buf s'))\<rparr>)"
proof (cases "alloc = None \<or> length (ld_data d) > 4096")
  case True
  then have "s' = lw_state w" using assms(2) by (auto simp: log_out_buffer_def Let_def split: if_splits)
  with assms(1) show ?thesis by (simp add: log_inv_def)
next
  case False
  then obtain a where a: "alloc = Some a" "length (ld_data d) \<le> 4096" "cache_mem (log_buf (lw_state w)) a = None"
    using assms(3) by auto
  have wf: "lcache_wf jhash (log_buf (lw_state w))" and run: "\<not> log_stopped (lw_state w)" using assms(1) by (simp_all add: log_inv_def)
  obtain don where don: "lw_accepted w = don @ flushing (log_buf (lw_state w)) @ working (log_buf (lw_state w))"
    "log_out (lw_state w) = out0 @ concat (map ld_data don)" using assms(1) by (auto simp: log_inv_def)
  have cov: "covered_by (lw_accepted w) (log_buf (lw_state w))" using assms(1) by (simp add: log_inv_def)
  show ?thesis
  proof (cases rule: log_out_buffer_cases [OF wf run a(2,3), of now])
    case (1 e t)
    then have s': "s' = (lw_state w)\<lparr>log_buf := (log_buf (lw_state w))\<lparr>cache_mem := (cache_mem (log_buf (lw_state w)))(e \<mapsto> t\<lparr>repeats := repeats t + 1\<rparr>)\<rparr>\<rparr>"
      using assms(2) a(1) by simp
    have "lcache_wf jhash (log_buf s')" using repeat_wf [OF wf 1(1), of "t\<lparr>repeats := repeats t + 1\<rparr>"] by (simp add: s')
    moreover have "covered_by (lw_accepted w) (log_buf s')"
      using cov 1(1) by (auto simp: covered_by_def s' same_record_iff)
    ultimately show ?thesis using assms(1) don by (simp add: log_inv_def s')
  next
    case (2 b)
    then have s': "s' = (lw_state w)\<lparr>log_buf := b, cur_log_id := cur_log_id (lw_state w) + 1\<rparr>" using assms(2) a(1) by simp
    let ?d = "d\<lparr>ld_id := cur_log_id (lw_state w)\<rparr>"
    have "covered_by (lw_accepted w @ [?d]) (log_buf (lw_state w)\<lparr>cache_mem := (cache_mem (log_buf (lw_state w)))(a \<mapsto> d)\<rparr>)"
      using cov by (auto simp: covered_by_def same_record_iff)
    then have "covered_by (lw_accepted w @ [?d]) b" by (rule covered_mono) (use 2(7) in simp_all)
    then show ?thesis using assms(1) don 2(3-6) by (simp add: log_inv_def s')
  qed
qed

lemma log_flush_inv:
  assumes "log_inv jhash out0 w" "\<forall>b. kw b = b" "buffer_flush (write_log kw) False (lw_pc w, lw_state w) = Some (pc', s')"
  shows "log_inv jhash out0 (w\<lparr>lw_state := s', lw_pc := pc'\<rparr>)"
proof -
  define b where "b = log_buf (lw_state w)"
  obtain don where don: "lw_accepted w = don @ flushing b @ working b" "log_out (lw_state w) = out0 @ concat (map ld_data don)"
    using assms(1) by (auto simp: log_inv_def b_def)
  show ?thesis
  proof (cases "lw_pc w")
    case F_Wait
    then have "pc' = F_Flush" "s' = (lw_state w)\<lparr>log_buf := flush_take b\<rparr>"
      using assms(3) by (auto simp: buffer_flush_def b_def split: if_splits)
    moreover have "lcache_wf jhash (flush_take b)"
      using assms(1) by (auto simp: log_inv_def b_def flush_take_def intro: lcache_wf_cong)
    moreover have "flushing b = []" using assms(1) F_Wait by (simp add: log_inv_def b_def)
    ultimately show ?thesis
      using assms(1) don by (simp add: log_inv_def flush_take_def covered_by_def b_def [symmetric])
  next
    case F_Flush
    show ?thesis
    proof (cases "flushing b")
      case Nil
      then have "pc' = F_Wait" "s' = lw_state w" using assms(3) F_Flush by (auto simp: buffer_flush_def b_def)
      then show ?thesis using assms(1) Nil by (simp add: log_inv_def b_def)
    next
      case (Cons d ds)
      have s': "pc' = F_Flush" "s' = (lw_state w)\<lparr>log_buf := b\<lparr>flushing := ds\<rparr>, log_out := log_out (lw_state w) @ ld_data d\<rparr>"
        using assms F_Flush Cons by (auto simp: buffer_flush_def b_def write_log_def log_inv_def)
      moreover have "lcache_wf jhash (b\<lparr>flushing := ds\<rparr>)" using assms(1) by (auto simp: log_inv_def b_def intro: lcache_wf_cong)
      moreover have "\<exists>don. lw_accepted w = don @ ds @ working b \<and> log_out s' = out0 @ concat (map ld_data don)"
        using don Cons by (intro exI [of _ "don @ [d]"]) (simp add: s')
      ultimately show ?thesis
        using assms(1) by (simp add: log_inv_def covered_by_def b_def [symmetric])
    qed
  next
    case F_Done
    then show ?thesis using assms(1) by (simp add: log_inv_def)
  qed
qed

lemma log_step_inv:
  assumes "log_step jhash kw w w'" "log_inv jhash out0 w" "\<forall>b. kw b = b"
  shows "log_inv jhash out0 w'"
  using assms(1)
proof cases
  case (log_put alloc now d r s')
  then show ?thesis using log_put_inv [OF assms(2)] by simp
next
  case (log_rotate r s')
  then have "s' = lw_state w" using assms(2) by (auto simp: switch_log_file_def log_inv_def split: if_splits)
  then show ?thesis using assms(2) log_rotate by simp
next
  case (log_flush pc' s')
  then show ?thesis using log_flush_inv [OF assms(2,3)] by simp
qed

lemma log_reach_inv:
  assumes "log_started s w0" "(log_step jhash kw)\<^sup>*\<^sup>* w0 w" "\<forall>b. kw b = b"
  shows "log_inv jhash (log_out s) w"
  using assms(2)
proof (induction rule: rtranclp_induct)
  case base
  show ?case by (rule log_inv_start [OF assms(1)])
next
  case (step w w')
  then show ?case using log_step_inv assms(3) by blast
qed


text \<open>The steps of the flushing thread alone.\<close>

fun flush_run :: "(byte list \<Rightarrow> byte list) \<Rightarrow> nat \<Rightarrow> flusher \<times> log_state \<Rightarrow> (flusher \<times> log_state) option" where
  "flush_run kw 0 fs = Some fs"
| "flush_run kw (Suc n) fs = (case buffer_flush (write_log kw) False fs of None \<Rightarrow> None | Some fs' \<Rightarrow> flush_run kw n fs')"

lemma flush_run_add: "flush_run kw (m + n) fs = Option.bind (flush_run kw m fs) (flush_run kw n)"
  by (induction m arbitrary: fs) (auto split: option.split)

lemma flush_run_writes:
  assumes "\<forall>b. kw b = b" "\<not> log_stopped s" "log_file s = File_Open" "flushing (log_buf s) = ds"
  shows "flush_run kw (length ds) (F_Flush, s) = Some (F_Flush, s\<lparr>log_buf := (log_buf s)\<lparr>flushing := []\<rparr>, log_out := log_out s @ concat (map ld_data ds)\<rparr>)"
  using assms(2-4)
proof (induction ds arbitrary: s)
  case Nil
  then have "(log_buf s)\<lparr>flushing := []\<rparr> = log_buf s" by simp
  then show ?case by simp
next
  case (Cons d ds)
  let ?s = "s\<lparr>log_buf := (log_buf s)\<lparr>flushing := ds\<rparr>, log_out := log_out s @ ld_data d\<rparr>"
  have "buffer_flush (write_log kw) False (F_Flush, s) = Some (F_Flush, ?s)"
    using Cons.prems assms(1) by (simp add: buffer_flush_def write_log_def)
  moreover have "flush_run kw (length ds) (F_Flush, ?s) =
      Some (F_Flush, ?s\<lparr>log_buf := (log_buf ?s)\<lparr>flushing := []\<rparr>, log_out := log_out ?s @ concat (map ld_data ds)\<rparr>)"
    using Cons.prems by (intro Cons.IH) simp_all
  ultimately show ?case by simp
qed

lemma flush_run_from_wait:
  assumes "\<forall>b. kw b = b" "\<not> log_stopped s" "log_file s = File_Open" "flushing (log_buf s) = []"
    and "working_number (log_buf s) = int (length (working (log_buf s)))" "working (log_buf s) \<noteq> []"
  shows "\<exists>s'. flush_run kw (Suc (length (working (log_buf s)))) (F_Wait, s) = Some (F_Flush, s')
    \<and> log_out s' = log_out s @ concat (map ld_data (working (log_buf s))) \<and> working (log_buf s') = [] \<and> flushing (log_buf s') = []"
proof -
  let ?s = "s\<lparr>log_buf := flush_take (log_buf s)\<rparr>"
  have "buffer_flush (write_log kw) False (F_Wait, s) = Some (F_Flush, ?s)"
    using assms(5,6) by (simp add: buffer_flush_def)
  moreover have "flushing (log_buf ?s) = working (log_buf s)" using assms(4) by (simp add: flush_take_def)
  note flush_run_writes [OF assms(1) _ _ this]
  ultimately show ?thesis using assms(2,3) by (simp add: flush_take_def)
qed

lemma inv_eventually_written:
  assumes "log_inv jhash out0 w" "\<forall>b. kw b = b"
  shows "\<exists>n pc' s'. n \<le> length (flushing (log_buf (lw_state w))) + length (working (log_buf (lw_state w))) + 2
    \<and> flush_run kw n (lw_pc w, lw_state w) = Some (pc', s') \<and> pc' \<noteq> F_Done
    \<and> log_out s' = out0 @ concat (map ld_data (lw_accepted w))
    \<and> working (log_buf s') = [] \<and> flushing (log_buf s') = []"
proof -
  define t where "t = lw_state w"
  note inv = assms(1) [unfolded log_inv_def, folded t_def]
  then obtain don where don: "lw_accepted w = don @ flushing (log_buf t) @ working (log_buf t)" "log_out t = out0 @ concat (map ld_data don)" by blast
  have run: "\<not> log_stopped t" "log_file t = File_Open" "working_number (log_buf t) = int (length (working (log_buf t)))" using inv by auto
  have wait: "\<exists>n pc' s'. n \<le> length (working (log_buf u)) + 1 \<and> flush_run kw n (F_Wait, u) = Some (pc', s') \<and> pc' \<noteq> F_Done
      \<and> log_out s' = log_out u @ concat (map ld_data (working (log_buf u))) \<and> working (log_buf s') = [] \<and> flushing (log_buf s') = []"
    if "\<not> log_stopped u" "log_file u = File_Open" "flushing (log_buf u) = []" "working_number (log_buf u) = int (length (working (log_buf u)))" for u
  proof (cases "working (log_buf u) = []")
    case True
    with that show ?thesis by (intro exI [of _ 0] exI [of _ F_Wait] exI [of _ u]) simp
  next
    case False
    from flush_run_from_wait [OF assms(2) that False] show ?thesis
      by (metis Suc_eq_plus1 flusher.distinct(5) order_refl)
  qed
  show ?thesis
  proof (cases "lw_pc w")
    case F_Wait
    then have "flushing (log_buf t) = []" using inv by simp
    moreover obtain n pc' s' where "n \<le> length (working (log_buf t)) + 1" "flush_run kw n (F_Wait, t) = Some (pc', s')" "pc' \<noteq> F_Done"
      "log_out s' = log_out t @ concat (map ld_data (working (log_buf t)))" "working (log_buf s') = []" "flushing (log_buf s') = []"
      using wait [OF run(1,2) \<open>flushing (log_buf t) = []\<close> run(3)] by blast
    ultimately show ?thesis unfolding t_def [symmetric] F_Wait
      using don by (intro exI [of _ n] exI [of _ pc'] exI [of _ s']) simp
  next
    case F_Flush
    let ?u = "t\<lparr>log_buf := (log_buf t)\<lparr>flushing := []\<rparr>, log_out := log_out t @ concat (map ld_data (flushing (log_buf t)))\<rparr>"
    have "flush_run kw (length (flushing (log_buf t))) (F_Flush, t) = Some (F_Flush, ?u)"
      by (rule flush_run_writes [OF assms(2) run(1,2)]) simp
    moreover have "flush_run kw (Suc 0) (F_Flush, ?u) = Some (F_Wait, ?u)" by (simp add: buffer_flush_def)
    ultimately have u: "flush_run kw (length (flushing (log_buf t)) + Suc 0) (F_Flush, t) = Some (F_Wait, ?u)" by (simp only: flush_run_add Option.bind.bind_lunit)
    obtain n pc' s' where n: "n \<le> length (working (log_buf ?u)) + 1" "flush_run kw n (F_Wait, ?u) = Some (pc', s')" "pc' \<noteq> F_Done"
      "log_out s' = log_out ?u @ concat (map ld_data (working (log_buf ?u)))" "working (log_buf s') = []" "flushing (log_buf s') = []"
      using wait [of ?u] run by auto
    have "flush_run kw (length (flushing (log_buf t)) + Suc 0 + n) (F_Flush, t) = Some (pc', s')"
      using u n(2) by (simp only: flush_run_add Option.bind.bind_lunit)
    then show ?thesis unfolding t_def [symmetric] F_Flush
      using n don by (intro exI [of _ "length (flushing (log_buf t)) + Suc 0 + n"] exI [of _ pc'] exI [of _ s']) simp
  next
    case F_Done
    then show ?thesis using inv by simp
  qed
qed

text \<open>Every accepted record reaches the log file. From every moment of a run, the flushing thread alone,
  in at most as many steps as there are pending records and two more, brings all records accepted so
  far to the file, in their order: it never waits while a record is pending, and it never ends.
\<close>

theorem log_eventually_written:
  assumes "log_started s w0" "(log_step jhash kw)\<^sup>*\<^sup>* w0 w" "\<forall>b. kw b = b"
  shows "\<exists>n pc' s'. n \<le> length (flushing (log_buf (lw_state w))) + length (working (log_buf (lw_state w))) + 2
    \<and> flush_run kw n (lw_pc w, lw_state w) = Some (pc', s') \<and> pc' \<noteq> F_Done
    \<and> log_out s' = log_out s @ concat (map ld_data (lw_accepted w))
    \<and> working (log_buf s') = [] \<and> flushing (log_buf s') = []"
  by (rule inv_eventually_written [OF log_reach_inv [OF assms] assms(3)])

lemma inv_reported:
  assumes "log_inv jhash out0 w" "length (ld_data d) \<le> 4096" "cache_mem (log_buf (lw_state w)) a = None"
  shows "\<exists>s' e. log_out_buffer jhash (Some a) now d (lw_state w) = Some (0, s')
    \<and> e \<in> set (lw_accepted w @ drop (length (working (log_buf (lw_state w)))) (working (log_buf s')))
    \<and> ld_data e = ld_data d \<and> ld_time e = ld_time d"
proof -
  have wf: "lcache_wf jhash (log_buf (lw_state w))" "\<not> log_stopped (lw_state w)" "covered_by (lw_accepted w) (log_buf (lw_state w))"
    using assms(1) by (simp_all add: log_inv_def)
  show ?thesis
  proof (cases rule: log_out_buffer_cases [OF wf(1,2) assms(2,3), of now])
    case (1 e t)
    then obtain x where "x \<in> set (lw_accepted w)" "same_record t x" using wf(3) by (auto simp: covered_by_def)
    with 1 show ?thesis by (auto simp: same_record_iff)
  next
    case (2 b)
    then show ?thesis by auto
  qed
qed

text \<open>Nothing reported is lost. When a record is put while the log runs and the allocation succeeds, the
  result is zero and a record with the same bytes and the same second is among the accepted ones: the
  record itself, or the earlier one it repeats.
\<close>

theorem reported_is_accepted:
  assumes "log_started s w0" "(log_step jhash kw)\<^sup>*\<^sup>* w0 w" "\<forall>b. kw b = b"
    and "length (ld_data d) \<le> 4096" "cache_mem (log_buf (lw_state w)) a = None"
  shows "\<exists>s' e. log_out_buffer jhash (Some a) now d (lw_state w) = Some (0, s')
    \<and> e \<in> set (lw_accepted w @ drop (length (working (log_buf (lw_state w)))) (working (log_buf s')))
    \<and> ld_data e = ld_data d \<and> ld_time e = ld_time d"
  by (rule inv_reported [OF log_reach_inv [OF assms(1-3)] assms(4,5)])

text \<open>The repetitions are counted in the copy only: what is waiting for the file does not change, and the copy
  is freed with its count.\<close>

lemma repeat_not_delivered:
  assumes "lcache_wf jhash (log_buf s)" "\<not> log_stopped s" "length (ld_data d) \<le> 4096" "cache_mem (log_buf s) a = None" "cached (log_buf s) d"
  shows "\<exists>s'. log_out_buffer jhash (Some a) now d s = Some (0, s') \<and> working (log_buf s') = working (log_buf s)
    \<and> flushing (log_buf s') = flushing (log_buf s) \<and> log_out s' = log_out s"
  using assms(5) by (cases rule: log_out_buffer_cases [OF assms(1-4), of now]) auto

text \<open>At the end every copy is freed exactly once.\<close>

lemma free_all_dom:
  assumes "distinct as" "set as = dom mem"
  shows "free_all as mem = Some Map.empty"
  using assms
proof (induction as arbitrary: mem)
  case Nil
  then show ?case by (simp add: dom_eq_empty_conv [symmetric])
next
  case (Cons a as)
  then obtain d where "mem a = Some d" by auto
  moreover have "set as = dom (mem(a := None))" using Cons.prems by auto
  ultimately show ?case using Cons by simp
qed

lemma log_buffer_empty_frees_once:
  assumes "lcache_wf jhash b"
  shows "\<exists>b'. log_buffer_empty b = Some b' \<and> cache_mem b' = Map.empty \<and> working b' = [] \<and> flushing b' = []"
  using free_all_dom [of "log_cache b" "cache_mem b"] assms by (simp add: lcache_wf_def log_buffer_empty_def)

section \<open>A run\<close>

definition running_log :: log_state where
  "running_log = \<lparr>log_buf = log_buffer_init (\<lambda>i. []), cur_log_id = 1, log_stopped = False, log_file = File_Open, log_out = [1, 2],
     g_list_log_memory = [], log_sum = 0,
     ls_config = \<lparr>log_config_policy = \<lparr>program_log_level = 2, dmeasure_log_level = 2, log_buffer_on = 0, log_integrity_on = 0,
         log_buffer_limit = 0, log_buffer_rotate_size = 0, log_buffer_rotate_time = 0, log_inmem_limit = 0\<rparr>,
       g_list_policy_exception_log = [], lc_commands = Map.empty\<rparr>,
     ls_trust = trust_start\<rparr>"

definition one_record :: log_data where
  "one_record = \<lparr>repeats = 0, ld_time = 7, ld_id = 0, ld_data = [5, 6]\<rparr>"

definition running_world :: log_world where
  "running_world = \<lparr>lw_state = running_log, lw_pc = F_Wait, lw_accepted = []\<rparr>"

definition one_put :: log_world where
  "one_put = \<lparr>lw_state = running_log\<lparr>log_buf := (add_log_cache one_record 3 0 (log_buffer_init (\<lambda>i. [])))\<lparr>working := [one_record\<lparr>ld_id := 1\<rparr>],
       working_number := 1\<rparr>, cur_log_id := 2\<rparr>, lw_pc = F_Wait, lw_accepted = [one_record\<lparr>ld_id := 1\<rparr>]\<rparr>"

lemma running_world_started: "log_started running_log running_world"
  by (simp add: log_started_def running_world_def running_log_def)

lemma one_put_reached: "(log_step (\<lambda>b i. 0) (\<lambda>b. b))\<^sup>*\<^sup>* running_world one_put"
proof -
  have "log_out_buffer (\<lambda>b i. 0) (Some 3) 9 one_record (lw_state running_world) = Some (0, lw_state one_put)"
    by (simp add: log_out_buffer_def running_world_def running_log_def one_put_def one_record_def log_buffer_init_def add_log_cache_def
      hash_func_def CACHE_MAX_NUM_def)
  from log_put [of _ _ _ _ running_world, OF this, of "\<lambda>b. b"]
  have "log_step (\<lambda>b i. 0) (\<lambda>b. b) running_world one_put"
    by (simp add: running_world_def running_log_def one_put_def log_buffer_init_def add_log_cache_def)
  then show ?thesis by (rule r_into_rtranclp)
qed


lemma log_eventually_written_witness:
  "\<exists>n pc' s'. flush_run (\<lambda>b. b) n (F_Wait, lw_state one_put) = Some (pc', s') \<and> log_out s' = [1, 2, 5, 6]"
proof -
  have "lw_accepted one_put = [one_record\<lparr>ld_id := 1\<rparr>]" "lw_pc one_put = F_Wait" "log_out running_log = [1, 2]" "ld_data one_record = [5, 6]"
    by (simp_all add: one_put_def running_log_def one_record_def)
  with log_eventually_written [OF running_world_started one_put_reached] show ?thesis by fastforce
qed

lemma reported_is_accepted_witness:
  "\<exists>s' (e :: log_data). log_out_buffer (\<lambda>b i. 0) (Some 4) 9 one_record (lw_state one_put) = Some (0, s') \<and> ld_data e = [5, 6] \<and> ld_time e = 7"
proof -
  have "length (ld_data one_record) \<le> 4096" "ld_data one_record = [5, 6]" "ld_time one_record = 7" "cache_mem (log_buf (lw_state one_put)) 4 = None"
    by (simp_all add: one_put_def add_log_cache_def log_buffer_init_def one_record_def)
  then obtain s' and e :: log_data where "log_out_buffer (\<lambda>b i. 0) (Some 4) 9 one_record (lw_state one_put) = Some (0, s')" "ld_data e = [5, 6]" "ld_time e = 7"
    using reported_is_accepted [OF running_world_started one_put_reached, of one_record 4 9] by auto
  then show ?thesis by blast
qed

end
