(* ===== verification/Audit_Report.thy ===== *)
theory Audit_Report
  imports Audit_Log
begin

text \<open>
  Who writes to the audit log and who reads it from memory: the rest of tsb/kernel/platform/log/log.c. The
  engines, the trusted module and the users of the device report events; each report becomes one
  \<open>audit_msg\<close> in a page and goes through \<open>log_out_buffer\<close>. With LOG_MEM two commands read the records
  that are kept in memory.
\<close>

section \<open>Reports\<close>

text \<open>What a report finds: the allocations of the page and of the cached copy, the seconds of the record, the
  seconds written into the message, and the time when the cache is cleaned.\<close>

record report_env =
  re_kmalloc :: bool
  re_alloc :: "nat option"
  re_time :: int
  re_tv_sec :: int
  re_now :: int

definition name_len :: "byte list \<Rightarrow> nat" where
  "name_len n = (if strlen n > 0 then strlen n + 1 else 0)"

definition name_bytes :: "byte list \<Rightarrow> byte list" where
  "name_bytes n = (if strlen n > 0 then cstr n @ [0] else [])"

definition audit_message :: "int \<Rightarrow> int \<Rightarrow> int \<Rightarrow> int \<Rightarrow> sec_domain \<Rightarrow> u32 \<Rightarrow> int \<Rightarrow> audit_msg" where
  "audit_message type operate result tsec sec_d user pid =
     \<lparr>am_magic = AUDIT_MAGIC, am_type = of_int type, am_operate = of_int operate, am_result = of_int result, am_user = user,
      am_pid = of_int pid, am_repeat_num = 0, am_time = of_int tsec,
      am_total_len = of_nat (SIZEOF_AUDIT_MSG + name_len (sub_string sec_d) + name_len (obj_name sec_d)),
      am_len_sub = of_nat (name_len (sub_string sec_d)), am_len_obj = of_nat (name_len (obj_name sec_d)),
      am_sub_hash = sub_hash sec_d, am_data = name_bytes (sub_string sec_d) @ name_bytes (obj_name sec_d)\<rparr>"

text \<open>The part that \<open>keraudit_log\<close> and \<open>keraudit_log_from_tpcm\<close> have in common. The test of the length leaves
  out the header of the page.\<close>

definition report ::
  "jhash_fun \<Rightarrow> report_env \<Rightarrow> int \<Rightarrow> int \<Rightarrow> int \<Rightarrow> int \<Rightarrow> sec_domain \<Rightarrow> u32 \<Rightarrow> int \<Rightarrow> log_state \<Rightarrow> (int \<times> log_state) option" where
  "report jhash env type operate result tsec sec_d user pid s =
     (let total_len = SIZEOF_AUDIT_MSG + strlen (sub_string sec_d) + 1 + strlen (obj_name sec_d) + 1;
          msg = audit_msg_bytes (audit_message type operate result tsec sec_d user pid)
      in if total_len > PAGE_SIZE then Some (-1, s)
         else if \<not> re_kmalloc env then Some (-1, s)
         else if SIZEOF_LOG_DATA + length msg > PAGE_SIZE then None
         else log_out_buffer jhash (re_alloc env) (re_now env) \<lparr>repeats = 0, ld_time = re_time env, ld_id = 0, ld_data = msg\<rparr> s)"

definition keraudit_log ::
  "jhash_fun \<Rightarrow> report_env \<Rightarrow> int \<Rightarrow> int \<Rightarrow> int \<Rightarrow> sec_domain \<Rightarrow> u32 \<Rightarrow> int \<Rightarrow> log_state \<Rightarrow> (int \<times> log_state) option" where
  "keraudit_log jhash env type operate result sec_d user pid s =
     (if log_stopped s then Some (0, s)
      else case (if type = LOG_DMEASURE \<and> result = LOG_RESULT_FAIL then sync_trust_status 0 (ls_trust s) else Some (0, ls_trust s)) of
        None \<Rightarrow> None
      | Some (r, t) \<Rightarrow>
          if get_log_config_policy type result sec_d (ls_config s) = 0 then Some (0, s\<lparr>ls_trust := t\<rparr>)
          else report jhash env type operate result (re_tv_sec env) sec_d user pid (s\<lparr>ls_trust := t\<rparr>))"

record tpcm_audit_log =
  ta_t_sec :: int
  ta_type :: int
  ta_operate :: int
  ta_result :: int

definition keraudit_log_from_tpcm ::
  "jhash_fun \<Rightarrow> report_env \<Rightarrow> tpcm_audit_log \<Rightarrow> sec_domain \<Rightarrow> u32 \<Rightarrow> int \<Rightarrow> log_state \<Rightarrow> (int \<times> log_state) option" where
  "keraudit_log_from_tpcm jhash env ta sec_d user pid s =
     (if log_stopped s then Some (0, s)
      else if get_log_config_policy (ta_type ta) (ta_result ta) sec_d (ls_config s) = 0 then Some (0, s)
      else report jhash env (ta_type ta) (ta_operate ta) (ta_result ta) (ta_t_sec ta) sec_d user pid s)"

section \<open>Reports of users\<close>

definition le16 :: "byte list \<Rightarrow> nat" where
  "le16 b = be16 (b ! 1) (b ! 0)"

definition SIZEOF_LOG_N :: nat where "SIZEOF_LOG_N = 16"

definition user_message :: "int \<Rightarrow> nat \<Rightarrow> nat \<Rightarrow> byte list \<Rightarrow> audit_msg" where
  "user_message tsec category type d =
     \<lparr>am_magic = AUDIT_MAGIC, am_type = of_nat category, am_operate = 0, am_result = of_nat type, am_user = 0, am_pid = 0,
      am_repeat_num = 0, am_time = of_int tsec, am_total_len = of_nat (SIZEOF_AUDIT_MSG + length d), am_len_sub = 0,
      am_len_obj = 0, am_sub_hash = replicate LEN_HASH 0, am_data = d\<rparr>"

text \<open>\<open>p\<close> is the memory at the \<open>log_n\<close>: a length, a category and a type of two bytes each, and the text behind a
  header of 16 bytes.\<close>

definition kernel_audit_log :: "jhash_fun \<Rightarrow> report_env \<Rightarrow> byte list \<Rightarrow> log_state \<Rightarrow> (int \<times> log_state) option" where
  "kernel_audit_log jhash env p s =
     (if log_stopped s then Some (0, s)
      else if length p < 2 then None
      else if SIZEOF_AUDIT_MSG + le16 p > PAGE_SIZE then Some (-1, s)
      else if \<not> re_kmalloc env then Some (-1, s)
      else if length p < 6 \<or> (le16 p > 0 \<and> length p < SIZEOF_LOG_N + le16 p) then None
      else if SIZEOF_LOG_DATA + SIZEOF_AUDIT_MSG + le16 p > PAGE_SIZE then None
      else log_out_buffer jhash (re_alloc env) (re_now env)
             \<lparr>repeats = 0, ld_time = re_time env, ld_id = 0,
              ld_data = audit_msg_bytes (user_message (re_tv_sec env) (le16 (drop 2 p)) (le16 (drop 4 p)) (take (le16 p) (drop SIZEOF_LOG_N p)))\<rparr> s)"

definition ioctl_write_user_log ::
  "jhash_fun \<Rightarrow> report_env \<Rightarrow> bool \<Rightarrow> general_policy option \<Rightarrow> log_state \<Rightarrow> (int \<times> log_state) option" where
  "ioctl_write_user_log jhash env valloc param s = (case param of None \<Rightarrow> Some (-1, s)
     | Some gp \<Rightarrow>
         if gp_length gp = 0 then Some (-1, s)
         else if \<not> valloc \<or> gp_length gp < 0 then Some (-1, s)
         else (case gp_data gp of None \<Rightarrow> Some (-1, s)
           | Some data \<Rightarrow> map_option (\<lambda>(r, s'). (0, s')) (kernel_audit_log jhash env (take (nat (gp_length gp)) data) s)))"

definition le16_bytes :: "nat \<Rightarrow> byte list" where
  "le16_bytes n = [of_nat n, of_nat (n div 256)]"

text \<open>\<open>junk\<close> is what the allocated header holds; only the length and the category are set.\<close>

definition ioctl_write_user_info_log ::
  "jhash_fun \<Rightarrow> report_env \<Rightarrow> bool \<Rightarrow> byte list \<Rightarrow> general_policy option \<Rightarrow> log_state \<Rightarrow> (int \<times> log_state) option" where
  "ioctl_write_user_info_log jhash env valloc junk param s = (case param of None \<Rightarrow> Some (-1, s)
     | Some gp \<Rightarrow>
         if gp_length gp = 0 then Some (-1, s)
         else if \<not> valloc \<or> gp_length gp < 0 then Some (-1, s)
         else (case gp_data gp of None \<Rightarrow> Some (-1, s)
           | Some data \<Rightarrow> map_option (\<lambda>(r, s'). (0, s'))
               (kernel_audit_log jhash env (le16_bytes (nat (gp_length gp) mod 65536) @ le16_bytes (nat LOG_CATEGRORY_USER_INFO)
                  @ take 12 (drop 4 junk) @ take (nat (gp_length gp)) data) s)))"

section \<open>Reading the records in memory\<close>

text \<open>
  The user's parameter: whether the two copies from the user succeed, the length of the buffer, and which
  of the copies to the user succeed. The answer has the bytes in the user's buffer, and the length
  and the flag if they were written.
\<close>

record read_param =
  rp_copied :: bool
  rp_len :: "int option"
  rp_data_ok :: "nat \<Rightarrow> bool"
  rp_length_ok :: bool
  rp_hasmore_ok :: bool

record read_answer =
  ra_ret :: int
  ra_data :: "byte list"
  ra_length :: "int option"
  ra_hasmore :: "int option"

fun read_loop :: "int \<Rightarrow> (nat \<Rightarrow> bool) \<Rightarrow> byte list \<Rightarrow> byte list list \<Rightarrow> bool \<times> byte list \<times> byte list list \<times> int" where
  "read_loop len ok acc [] = (True, acc, [], 0)"
| "read_loop len ok acc (m # ms) =
     (if len < int (length acc + length m) then (True, acc, m # ms, 1)
      else if \<not> ok (length acc) then (False, acc, m # ms, 0)
      else read_loop len ok (acc @ m) ms)"

definition read_answer_of :: "read_param \<Rightarrow> byte list \<Rightarrow> int \<Rightarrow> read_answer" where
  "read_answer_of par acc hasmore =
     (if \<not> rp_length_ok par then \<lparr>ra_ret = -1, ra_data = acc, ra_length = None, ra_hasmore = None\<rparr>
      else if \<not> rp_hasmore_ok par then \<lparr>ra_ret = -1, ra_data = acc, ra_length = Some (int (length acc)), ra_hasmore = None\<rparr>
      else \<lparr>ra_ret = 0, ra_data = acc, ra_length = Some (int (length acc)), ra_hasmore = Some hasmore\<rparr>)"

definition read_records :: "read_param \<Rightarrow> int \<Rightarrow> log_state \<Rightarrow> read_answer \<times> log_state" where
  "read_records par len s =
     (case read_loop len (rp_data_ok par) [] (g_list_log_memory s) of (ok, acc, rest, hasmore) \<Rightarrow>
        let s' = s\<lparr>g_list_log_memory := rest, log_sum := log_sum s - int (length (g_list_log_memory s) - length rest)\<rparr>
        in if \<not> ok then (\<lparr>ra_ret = -1, ra_data = acc, ra_length = None, ra_hasmore = None\<rparr>, s')
           else (read_answer_of par acc hasmore, s'))"

text \<open>\<open>None\<close>: the caller still waits; \<open>signal\<close>: the wait is interrupted.\<close>

definition ioctl_tsb_read_inmem_log :: "bool \<Rightarrow> read_param \<Rightarrow> log_state \<Rightarrow> (read_answer \<times> log_state) option" where
  "ioctl_tsb_read_inmem_log signal par s =
     (if log_sum s \<le> 0 then (if signal then Some (\<lparr>ra_ret = - ERESTARTSYS, ra_data = [], ra_length = None, ra_hasmore = None\<rparr>, s) else None)
      else if \<not> rp_copied par then Some (\<lparr>ra_ret = -1, ra_data = [], ra_length = None, ra_hasmore = None\<rparr>, s)
      else (case rp_len par of None \<Rightarrow> Some (\<lparr>ra_ret = -1, ra_data = [], ra_length = None, ra_hasmore = None\<rparr>, s)
            | Some len \<Rightarrow> Some (read_records par len s)))"

definition ioctl_tsb_read_inmem_log_nonblock :: "read_param \<Rightarrow> log_state \<Rightarrow> read_answer \<times> log_state" where
  "ioctl_tsb_read_inmem_log_nonblock par s =
     (if \<not> rp_copied par then (\<lparr>ra_ret = -1, ra_data = [], ra_length = None, ra_hasmore = None\<rparr>, s)
      else (case rp_len par of None \<Rightarrow> (\<lparr>ra_ret = -1, ra_data = [], ra_length = None, ra_hasmore = None\<rparr>, s)
            | Some len \<Rightarrow> if log_sum s \<le> 0 then (read_answer_of par [] 0, s) else read_records par len s))"

section \<open>Messages in the file\<close>

definition le64 :: "byte list \<Rightarrow> 64 word" where
  "le64 b = ucast (le32 b) OR push_bit 32 (ucast (le32 (drop 4 b)))"

text \<open>Reading the stream of messages back: each starts with the magic number and says how long it is.\<close>

definition decode_header :: "byte list \<Rightarrow> audit_msg" where
  "decode_header b =
     \<lparr>am_magic = le32 b, am_type = le32 (drop 4 b), am_operate = le32 (drop 8 b), am_result = le32 (drop 12 b),
      am_user = le32 (drop 16 b), am_pid = le32 (drop 20 b), am_repeat_num = le32 (drop 24 b), am_time = le64 (drop 28 b),
      am_total_len = le32 (drop 36 b), am_len_sub = le32 (drop 40 b), am_len_obj = le32 (drop 44 b),
      am_sub_hash = take 32 (drop 48 b), am_data = take (unat (le32 (drop 36 b)) - 80) (drop 80 b)\<rparr>"

function decode_log :: "byte list \<Rightarrow> audit_msg list option" where
  "decode_log b =
     (if b = [] then Some []
      else if length b < SIZEOF_AUDIT_MSG then None
      else let m = decode_header b; n = unat (am_total_len m)
           in if am_magic m \<noteq> AUDIT_MAGIC \<or> n < SIZEOF_AUDIT_MSG \<or> length b < n then None
              else map_option (Cons m) (decode_log (drop n b)))"
  by pat_completeness auto
termination
  by (relation "measure length") (auto simp: SIZEOF_AUDIT_MSG_def Let_def)

declare decode_log.simps [simp del]

definition msg_valid :: "audit_msg \<Rightarrow> bool" where
  "msg_valid m \<longleftrightarrow> am_magic m = AUDIT_MAGIC \<and> length (am_sub_hash m) = 32 \<and> 80 + length (am_data m) < 2 ^ 32
     \<and> unat (am_total_len m) = 80 + length (am_data m)"

lemma le32_bytes_inverse [simp]: "le32 (le32_word w @ r) = w"
  using be32_bytes [of w "[]"] by (simp add: le32_def le32_word_def PUT_ULONG_BE_def)

lemma length_le32_word [simp]: "length (le32_word w) = 4"
  by (simp add: le32_word_def PUT_ULONG_BE_def)

lemma le64_bytes_inverse: "le64 (le64_word w @ r) = w"
proof -
  have "drop 4 (le64_word w @ r) = le32_word (ucast (drop_bit 32 w)) @ r" by (simp add: le64_word_def)
  then have "le64 (le64_word w @ r) = ucast (ucast w :: u32) OR push_bit 32 (ucast (ucast (drop_bit 32 w) :: u32))"
    by (simp add: le64_def) (simp add: le64_word_def)
  also have "\<dots> = w"
    by (rule bit_word_eqI) (auto simp: bit_simps)
  finally show ?thesis .
qed

lemma decode_header_bytes:
  assumes "msg_valid m"
  shows "decode_header (audit_msg_bytes m @ r) = m" "length (audit_msg_bytes m) = 80 + length (am_data m)"
proof -
  have l64: "length (le64_word w) = 8" for w by (simp add: le64_word_def)
  show "length (audit_msg_bytes m) = 80 + length (am_data m)"
    using assms by (simp add: audit_msg_bytes_def msg_valid_def l64)
  let ?tail = "concat (map le32_word [am_total_len m, am_len_sub m, am_len_obj m]) @ am_sub_hash m @ am_data m @ r"
  have b: "audit_msg_bytes m @ r = le32_word (am_magic m) @ le32_word (am_type m) @ le32_word (am_operate m) @ le32_word (am_result m)
      @ le32_word (am_user m) @ le32_word (am_pid m) @ le32_word (am_repeat_num m) @ le64_word (am_time m) @ le32_word (am_total_len m)
      @ le32_word (am_len_sub m) @ le32_word (am_len_obj m) @ am_sub_hash m @ am_data m @ r"
    by (simp add: audit_msg_bytes_def)
  show "decode_header (audit_msg_bytes m @ r) = m"
    unfolding b using assms by (simp add: decode_header_def l64 le64_bytes_inverse msg_valid_def)
qed

lemma decode_log_messages:
  assumes "\<forall>m\<in>set ms. msg_valid m"
  shows "decode_log (concat (map audit_msg_bytes ms)) = Some ms"
  using assms
proof (induction ms)
  case Nil
  then show ?case by (simp add: decode_log.simps)
next
  case (Cons m ms)
  let ?r = "concat (map audit_msg_bytes ms)"
  have v: "msg_valid m" using Cons.prems by simp
  note d = decode_header_bytes [OF v]
  have "audit_msg_bytes m @ ?r \<noteq> []" using d(2) by auto
  moreover have "drop (length (audit_msg_bytes m)) (audit_msg_bytes m @ ?r) = ?r" by simp
  ultimately show ?case
    using Cons v d by (subst decode_log.simps) (simp add: msg_valid_def SIZEOF_AUDIT_MSG_def)
qed

section \<open>Every report fits and is a message\<close>

text \<open>The engine keeps the four bytes that follow the name of the object in memory together with it.\<close>

definition domain_wf :: "sec_domain \<Rightarrow> bool" where
  "domain_wf d \<longleftrightarrow> length (sub_name d) = LEN_NAME_MAX \<and> length (obj_name d) \<le> LEN_NAME_MAX + 4 \<and> length (sub_hash d) = LEN_HASH"

lemma strlen_le: "strlen n \<le> length n"
  by (simp add: strlen_def cstr_def length_takeWhile_le)

lemma name_bytes_length [simp]: "length (name_bytes n) = name_len n"
  by (simp add: name_bytes_def name_len_def strlen_def)

lemma domain_names:
  assumes "domain_wf d"
  shows "strlen (sub_string d) \<le> 1028" "strlen (obj_name d) \<le> 516" "name_len (sub_string d) \<le> 1029" "name_len (obj_name d) \<le> 517"
proof -
  have "length (sub_name d @ obj_name d) \<le> 1028" "length (obj_name d) \<le> 516" using assms by (simp_all add: domain_wf_def LEN_NAME_MAX_def)
  moreover have "strlen (sub_string d) \<le> length (sub_name d @ obj_name d)"
    using strlen_le [of "sub_name d @ obj_name d"] by (simp add: sub_string_def strlen_def)
  ultimately show "strlen (sub_string d) \<le> 1028" "strlen (obj_name d) \<le> 516" using strlen_le [of "obj_name d"] by auto
  then show "name_len (sub_string d) \<le> 1029" "name_len (obj_name d) \<le> 517" by (simp_all add: name_len_def)
qed

lemma unat_of_nat_small: "n < 2 ^ 32 \<Longrightarrow> unat (of_nat n :: u32) = n"
  by (simp add: unat_of_nat)

lemma audit_message_valid:
  assumes "domain_wf d"
  shows "msg_valid (audit_message type operate result tsec d user pid)"
    "length (audit_msg_bytes (audit_message type operate result tsec d user pid)) \<le> 1626"
proof -
  have n: "name_len (sub_string d) + name_len (obj_name d) \<le> 1546" using domain_names(3,4) [OF assms] by simp
  then have "unat (of_nat (80 + (name_len (sub_string d) + name_len (obj_name d))) :: u32) = 80 + (name_len (sub_string d) + name_len (obj_name d))"
    by (intro unat_of_nat_small) simp
  then show v: "msg_valid (audit_message type operate result tsec d user pid)"
    using assms n by (simp add: msg_valid_def audit_message_def SIZEOF_AUDIT_MSG_def domain_wf_def LEN_HASH_def add.assoc)
  show "length (audit_msg_bytes (audit_message type operate result tsec d user pid)) \<le> 1626"
    using decode_header_bytes(2) [OF v] n by (simp add: audit_message_def)
qed

text \<open>
  What a report does to the log: nothing, or it puts one valid message; the trust status may change.
\<close>

definition puts :: "jhash_fun \<Rightarrow> report_env \<Rightarrow> log_state \<Rightarrow> log_state \<Rightarrow> bool" where
  "puts jhash env s s' \<longleftrightarrow> (\<exists>t. trust_wf t \<and> (s' = s\<lparr>ls_trust := t\<rparr> \<or>
     (\<exists>d m r. msg_valid m \<and> ld_data d = audit_msg_bytes m \<and> log_out_buffer jhash (re_alloc env) (re_now env) d (s\<lparr>ls_trust := t\<rparr>) = Some (r, s'))))"

lemma puts_refl: "trust_wf (ls_trust s) \<Longrightarrow> puts jhash env s s"
  unfolding puts_def by (rule exI [of _ "ls_trust s"]) simp

lemma report_puts:
  assumes "report jhash env type operate result tsec d user pid (s\<lparr>ls_trust := t\<rparr>) = Some (r, s')" "domain_wf d" "trust_wf t"
  shows "puts jhash env s s'"
proof -
  note v = audit_message_valid(1) [OF assms(2), of type operate result tsec user pid]
  show ?thesis
    using assms v unfolding puts_def report_def Let_def
    by (intro exI [of _ t]) (auto split: if_splits)
qed

lemma keraudit_log_puts:
  assumes "keraudit_log jhash env type operate result d user pid s = Some (r, s')" "domain_wf d" "trust_wf (ls_trust s)"
  shows "puts jhash env s s'"
proof (cases "log_stopped s")
  case True
  then show ?thesis using assms puts_refl by (simp add: keraudit_log_def)
next
  case False
  obtain t where t: "(if type = LOG_DMEASURE \<and> result = LOG_RESULT_FAIL then sync_trust_status 0 (ls_trust s) else Some (0, ls_trust s)) = Some (0, t)" "trust_wf t"
    using sync_trust_status_spec [OF assms(3), of 0] assms(3) by (cases "type = LOG_DMEASURE \<and> result = LOG_RESULT_FAIL") auto
  show ?thesis
  proof (cases "get_log_config_policy type result d (ls_config s) = 0")
    case True
    then have "s' = s\<lparr>ls_trust := t\<rparr>" using assms(1) False t(1) unfolding keraudit_log_def by simp
    then show ?thesis unfolding puts_def using t(2) by blast
  next
    case keep: False
    then have "report jhash env type operate result (re_tv_sec env) d user pid (s\<lparr>ls_trust := t\<rparr>) = Some (r, s')"
      using assms(1) False t(1) unfolding keraudit_log_def by simp
    then show ?thesis using report_puts assms(2) t(2) by blast
  qed
qed

lemma from_tpcm_puts:
  assumes "keraudit_log_from_tpcm jhash env ta d user pid s = Some (r, s')" "domain_wf d" "trust_wf (ls_trust s)"
  shows "puts jhash env s s'"
  using assms(1) puts_refl [OF assms(3), of jhash env] report_puts [where s = s and t = "ls_trust s" and env = env and jhash = jhash, OF _ assms(2,3)]
  by (auto simp: keraudit_log_from_tpcm_def split: if_splits)

lemma user_message_valid:
  assumes "length d < 65536"
  shows "msg_valid (user_message tsec category type d)"
proof -
  have "unat (of_nat (80 + length d) :: u32) = 80 + length d" using assms by (intro unat_of_nat_small) simp
  then show ?thesis using assms by (simp add: msg_valid_def user_message_def SIZEOF_AUDIT_MSG_def LEN_HASH_def)
qed

lemma kernel_audit_log_puts:
  assumes "kernel_audit_log jhash env p s = Some (r, s')" "trust_wf (ls_trust s)"
  shows "puts jhash env s s'"
proof -
  let ?d = "take (le16 p) (drop SIZEOF_LOG_N p)"
  have "length ?d < 65536" using be16_less [of "p ! 1" "p ! 0"] by (simp add: le16_def)
  note v = user_message_valid [OF this, of "re_tv_sec env" "le16 (drop 2 p)" "le16 (drop 4 p)"]
  show ?thesis
    using assms v puts_refl [OF assms(2), of jhash env] unfolding kernel_audit_log_def
    by (auto simp: puts_def split: if_splits intro!: exI [of _ "ls_trust s"])
qed

lemma user_log_puts:
  assumes "ioctl_write_user_log jhash env valloc param s = Some (r, s') \<or> ioctl_write_user_info_log jhash env valloc junk param s = Some (r, s')"
    and "trust_wf (ls_trust s)"
  shows "puts jhash env s s'"
  using assms kernel_audit_log_puts puts_refl [OF assms(2), of jhash env]
  by (auto simp: ioctl_write_user_log_def ioctl_write_user_info_log_def split: option.splits if_splits)

section \<open>From the report to the file\<close>

text \<open>The log with everybody who uses it: the engines, the trusted module, the users, the rotation of the file, the
  configuration and the flushing thread.\<close>

definition fresh :: "report_env \<Rightarrow> log_state \<Rightarrow> bool" where
  "fresh env s \<longleftrightarrow> (\<forall>a. re_alloc env = Some a \<longrightarrow> cache_mem (log_buf s) a = None)"

definition after_put :: "log_world \<Rightarrow> log_state \<Rightarrow> log_world" where
  "after_put w s' = w\<lparr>lw_state := s', lw_accepted := lw_accepted w @ drop (length (working (log_buf (lw_state w)))) (working (log_buf s'))\<rparr>"

inductive report_step :: "jhash_fun \<Rightarrow> (byte list \<Rightarrow> byte list) \<Rightarrow> log_world \<Rightarrow> log_world \<Rightarrow> bool" for jhash kw where
  rs_audit: "keraudit_log jhash env type operate result d user pid (lw_state w) = Some (r, s') \<Longrightarrow> domain_wf d \<Longrightarrow> fresh env (lw_state w) \<Longrightarrow>
    report_step jhash kw w (after_put w s')"
| rs_tpcm: "keraudit_log_from_tpcm jhash env ta d user pid (lw_state w) = Some (r, s') \<Longrightarrow> domain_wf d \<Longrightarrow> fresh env (lw_state w) \<Longrightarrow>
    report_step jhash kw w (after_put w s')"
| rs_user: "ioctl_write_user_log jhash env valloc param (lw_state w) = Some (r, s') \<Longrightarrow> fresh env (lw_state w) \<Longrightarrow>
    report_step jhash kw w (after_put w s')"
| rs_info: "ioctl_write_user_info_log jhash env valloc junk param (lw_state w) = Some (r, s') \<Longrightarrow> fresh env (lw_state w) \<Longrightarrow>
    report_step jhash kw w (after_put w s')"
| rs_config: "report_step jhash kw w (w\<lparr>lw_state := (lw_state w)\<lparr>ls_config := c\<rparr>\<rparr>)"
| rs_rotate: "switch_log_file None (lw_state w) = Some (r, s') \<Longrightarrow> report_step jhash kw w (w\<lparr>lw_state := s'\<rparr>)"
| rs_flush: "buffer_flush (write_log kw) False (lw_pc w, lw_state w) = Some (pc', s') \<Longrightarrow>
    report_step jhash kw w (w\<lparr>lw_state := s', lw_pc := pc'\<rparr>)"

definition messages :: "log_data list \<Rightarrow> bool" where
  "messages ds \<longleftrightarrow> (\<forall>d\<in>set ds. \<exists>m. msg_valid m \<and> ld_data d = audit_msg_bytes m)"

definition report_inv :: "jhash_fun \<Rightarrow> byte list \<Rightarrow> log_world \<Rightarrow> bool" where
  "report_inv jhash out0 w \<longleftrightarrow> log_inv jhash out0 w \<and> trust_wf (ls_trust (lw_state w)) \<and> messages (lw_accepted w)"

lemma log_inv_cong:
  assumes "log_inv jhash out0 w"
  shows "log_inv jhash out0 (w\<lparr>lw_state := (lw_state w)\<lparr>ls_trust := t\<rparr>\<rparr>)" "log_inv jhash out0 (w\<lparr>lw_state := (lw_state w)\<lparr>ls_config := c\<rparr>\<rparr>)"
  using assms by (simp_all add: log_inv_def)

lemma log_out_buffer_appends:
  assumes "log_out_buffer jhash alloc now d s = Some (r, s')" "lcache_wf jhash (log_buf s)" "\<forall>a. alloc = Some a \<longrightarrow> cache_mem (log_buf s) a = None"
  shows "ls_trust s' = ls_trust s"
    "drop (length (working (log_buf s))) (working (log_buf s')) = [] \<or> (\<exists>i. drop (length (working (log_buf s))) (working (log_buf s')) = [d\<lparr>ld_id := i\<rparr>])"
proof -
  have "ls_trust s' = ls_trust s \<and> (drop (length (working (log_buf s))) (working (log_buf s')) = []
    \<or> (\<exists>i. drop (length (working (log_buf s))) (working (log_buf s')) = [d\<lparr>ld_id := i\<rparr>]))"
  proof (cases "alloc = None \<or> length (ld_data d) > 4096 \<or> log_stopped s")
    case True
    then show ?thesis using assms(1) by (auto simp: log_out_buffer_def Let_def split: if_splits option.splits)
  next
    case False
    then obtain a where a: "alloc = Some a" "\<not> log_stopped s" "length (ld_data d) \<le> 4096" "cache_mem (log_buf s) a = None" using assms(3) by auto
    show ?thesis
      using assms(1) a(1) by (cases rule: log_out_buffer_cases [OF assms(2) a(2-4), of now]) auto
  qed
  then show "ls_trust s' = ls_trust s"
    "drop (length (working (log_buf s))) (working (log_buf s')) = [] \<or> (\<exists>i. drop (length (working (log_buf s))) (working (log_buf s')) = [d\<lparr>ld_id := i\<rparr>])"
    by auto
qed

lemma puts_inv:
  assumes "report_inv jhash out0 w" "puts jhash env (lw_state w) s'" "fresh env (lw_state w)"
  shows "report_inv jhash out0 (after_put w s')"
proof -
  obtain t where t: "trust_wf t" and or: "s' = (lw_state w)\<lparr>ls_trust := t\<rparr> \<or>
     (\<exists>d m r. msg_valid m \<and> ld_data d = audit_msg_bytes m \<and> log_out_buffer jhash (re_alloc env) (re_now env) d ((lw_state w)\<lparr>ls_trust := t\<rparr>) = Some (r, s'))"
    using assms(2) by (auto simp: puts_def)
  have inv: "log_inv jhash out0 w" "messages (lw_accepted w)" using assms(1) by (simp_all add: report_inv_def)
  define w1 where "w1 = w\<lparr>lw_state := (lw_state w)\<lparr>ls_trust := t\<rparr>\<rparr>"
  have inv1: "log_inv jhash out0 w1" unfolding w1_def by (rule log_inv_cong [OF inv(1)])
  from or show ?thesis
  proof
    assume "s' = (lw_state w)\<lparr>ls_trust := t\<rparr>"
    then show ?thesis using inv1 inv(2) t by (simp add: report_inv_def after_put_def w1_def)
  next
    assume "\<exists>d m r. msg_valid m \<and> ld_data d = audit_msg_bytes m \<and> log_out_buffer jhash (re_alloc env) (re_now env) d ((lw_state w)\<lparr>ls_trust := t\<rparr>) = Some (r, s')"
    then obtain d m r where d: "msg_valid m" "ld_data d = audit_msg_bytes m" "log_out_buffer jhash (re_alloc env) (re_now env) d (lw_state w1) = Some (r, s')"
      by (auto simp: w1_def)
    have fr: "\<forall>a. re_alloc env = Some a \<longrightarrow> cache_mem (log_buf (lw_state w1)) a = None" using assms(3) by (simp add: fresh_def w1_def)
    have "lcache_wf jhash (log_buf (lw_state w1))" using inv1 by (simp add: log_inv_def)
    note ap = log_out_buffer_appends [OF d(3) this fr]
    have eq: "after_put w s' = w1\<lparr>lw_state := s', lw_accepted := lw_accepted w1 @ drop (length (working (log_buf (lw_state w1)))) (working (log_buf s'))\<rparr>"
      by (simp add: after_put_def w1_def)
    have "log_inv jhash out0 (after_put w s')" unfolding eq by (rule log_put_inv [OF inv1 d(3) fr])
    moreover have "trust_wf (ls_trust s')" using ap(1) t by (simp add: w1_def)
    moreover have "messages (lw_accepted (after_put w s'))" using ap(2) inv(2) d(1,2) by (auto simp: messages_def after_put_def w1_def)
    ultimately show ?thesis by (simp add: report_inv_def after_put_def)
  qed
qed

lemma report_step_inv:
  assumes "report_step jhash kw w w'" "report_inv jhash out0 w" "\<forall>b. kw b = b"
  shows "report_inv jhash out0 w'"
proof -
  have inv: "log_inv jhash out0 w" "trust_wf (ls_trust (lw_state w))" "messages (lw_accepted w)" using assms(2) by (simp_all add: report_inv_def)
  from assms(1) show ?thesis
  proof cases
    case (rs_audit env type operate result d user pid r s')
    then show ?thesis using puts_inv [OF assms(2)] keraudit_log_puts inv(2) by blast
  next
    case (rs_tpcm env ta d user pid r s')
    then show ?thesis using puts_inv [OF assms(2)] from_tpcm_puts inv(2) by blast
  next
    case (rs_user env valloc param r s')
    then show ?thesis using puts_inv [OF assms(2)] user_log_puts inv(2) by blast
  next
    case (rs_info env valloc junk param r s')
    then show ?thesis using puts_inv [OF assms(2)] user_log_puts inv(2) by blast
  next
    case (rs_config c)
    then show ?thesis using log_inv_cong(2) [OF inv(1)] inv(2,3) by (simp add: report_inv_def)
  next
    case (rs_rotate r s')
    then have "s' = lw_state w" using inv(1) by (auto simp: switch_log_file_def log_inv_def split: if_splits)
    then show ?thesis using assms(2) rs_rotate by simp
  next
    case (rs_flush pc' s')
    moreover have "ls_trust s' = ls_trust (lw_state w)"
      using rs_flush(2) by (auto simp: buffer_flush_def write_log_def split: flusher.splits list.splits if_splits log_fd.splits)
    ultimately show ?thesis using log_flush_inv [OF inv(1) assms(3)] inv(2,3) by (simp add: report_inv_def)
  qed
qed

lemma report_reach_inv:
  assumes "log_started s w0" "trust_wf (ls_trust s)" "(report_step jhash kw)\<^sup>*\<^sup>* w0 w" "\<forall>b. kw b = b"
  shows "report_inv jhash (log_out s) w"
  using assms(3)
proof (induction rule: rtranclp_induct)
  case base
  then show ?case using log_inv_start [OF assms(1)] assms(1,2) by (auto simp: report_inv_def messages_def log_started_def)
next
  case (step w w')
  then show ?case using report_step_inv assms(4) by blast
qed

lemma decode_header_message: "msg_valid m \<Longrightarrow> ld_data d = audit_msg_bytes m \<Longrightarrow> decode_header (ld_data d) = m"
  using decode_header_bytes(1) [of m "[]"] by simp

lemma messages_decode:
  assumes "messages ds"
  shows "decode_log (concat (map ld_data ds)) = Some (map (decode_header \<circ> ld_data) ds)"
proof -
  have "\<forall>d\<in>set ds. msg_valid (decode_header (ld_data d)) \<and> audit_msg_bytes (decode_header (ld_data d)) = ld_data d"
    using assms decode_header_message unfolding messages_def by (metis (no_types, lifting))
  then have "concat (map ld_data ds) = concat (map audit_msg_bytes (map (decode_header \<circ> ld_data) ds))"
    "\<forall>m\<in>set (map (decode_header \<circ> ld_data) ds). msg_valid m"
    by (auto intro: arg_cong [where f = concat])
  then show ?thesis using decode_log_messages by metis
qed

lemma event_reaches_file:
  assumes "log_started s w0" "trust_wf (ls_trust s)" "(report_step jhash kw)\<^sup>*\<^sup>* w0 w" "\<forall>b. kw b = b"
    and "get_log_config_policy type result d (ls_config (lw_state w)) \<noteq> 0" "domain_wf d"
    and "re_kmalloc env" "re_alloc env = Some a" "cache_mem (log_buf (lw_state w)) a = None"
  shows "\<exists>s' n pc' s'' ms. keraudit_log jhash env type operate result d user pid (lw_state w) = Some (0, s')
    \<and> flush_run kw n (lw_pc w, s') = Some (pc', s'')
    \<and> decode_log (drop (length (log_out s)) (log_out s'')) = Some ms
    \<and> audit_message type operate result (re_tv_sec env) d user pid \<in> set ms"
proof -
  have inv: "report_inv jhash (log_out s) w" by (rule report_reach_inv [OF assms(1-4)])
  then have run: "\<not> log_stopped (lw_state w)" and tw: "trust_wf (ls_trust (lw_state w))" by (auto simp: report_inv_def log_inv_def)
  obtain t where t: "(if type = LOG_DMEASURE \<and> result = LOG_RESULT_FAIL then sync_trust_status 0 (ls_trust (lw_state w)) else Some (0, ls_trust (lw_state w))) = Some (0, t)"
    using sync_trust_status_spec [OF tw, of 0] by (cases "type = LOG_DMEASURE \<and> result = LOG_RESULT_FAIL") auto
  define m where "m = audit_message type operate result (re_tv_sec env) d user pid"
  define x where "x = \<lparr>repeats = 0, ld_time = re_time env, ld_id = 0, ld_data = audit_msg_bytes m\<rparr>"
  define w1 where "w1 = w\<lparr>lw_state := (lw_state w)\<lparr>ls_trust := t\<rparr>\<rparr>"
  note v = audit_message_valid [OF assms(6), of type operate result "re_tv_sec env" user pid, folded m_def]
  have inv1: "log_inv jhash (log_out s) w1" using inv log_inv_cong by (simp add: report_inv_def w1_def)
  have "length (ld_data x) \<le> 4096" using v(2) by (simp add: x_def)
  moreover have "cache_mem (log_buf (lw_state w1)) a = None" using assms(9) by (simp add: w1_def)
  ultimately obtain s' e where out: "log_out_buffer jhash (Some a) (re_now env) x (lw_state w1) = Some (0, s')"
    and e: "e \<in> set (lw_accepted w1 @ drop (length (working (log_buf (lw_state w1)))) (working (log_buf s')))" "ld_data e = ld_data x"
    using inv_reported [OF inv1] by blast
  have "keraudit_log jhash env type operate result d user pid (lw_state w) = report jhash env type operate result (re_tv_sec env) d user pid (lw_state w1)"
    using run t assms(5) unfolding keraudit_log_def w1_def by simp
  also have "\<dots> = log_out_buffer jhash (Some a) (re_now env) x (lw_state w1)"
    using v(2) domain_names(1,2) [OF assms(6)] assms(7,8)
    by (simp add: report_def Let_def m_def x_def SIZEOF_AUDIT_MSG_def SIZEOF_LOG_DATA_def PAGE_SIZE_def)
  finally have ker: "keraudit_log jhash env type operate result d user pid (lw_state w) = Some (0, s')" using out by simp
  define w' where "w' = after_put w s'"
  have "puts jhash env (lw_state w) s'" by (rule keraudit_log_puts [OF ker assms(6) tw])
  then have "report_inv jhash (log_out s) w'" unfolding w'_def
    using puts_inv [OF inv] assms(8,9) by (simp add: fresh_def)
  then have inv': "log_inv jhash (log_out s) w'" "messages (lw_accepted w')" by (simp_all add: report_inv_def)
  obtain n pc' s'' where fl: "flush_run kw n (lw_pc w', lw_state w') = Some (pc', s'')" "log_out s'' = log_out s @ concat (map ld_data (lw_accepted w'))"
    using inv_eventually_written [OF inv'(1) assms(4)] by blast
  have "e \<in> set (lw_accepted w')" using e(1) by (simp add: w'_def after_put_def w1_def)
  moreover have "decode_header (ld_data e) = m" using decode_header_message [OF v(1), of e] e(2) by (simp add: x_def)
  ultimately have "m \<in> set (map (decode_header \<circ> ld_data) (lw_accepted w'))" by force
  moreover have "decode_log (drop (length (log_out s)) (log_out s'')) = Some (map (decode_header \<circ> ld_data) (lw_accepted w'))"
    using messages_decode [OF inv'(2)] fl(2) by simp
  moreover have "flush_run kw n (lw_pc w, s') = Some (pc', s'')" using fl(1) by (simp add: w'_def after_put_def)
  ultimately show ?thesis using ker unfolding m_def by blast
qed


text \<open>
  At every moment the bytes written to the log since its start are whole messages, in the order of the
  reports: reading them gives the written records back.
\<close>

lemma log_file_decodes:
  assumes "log_started s w0" "trust_wf (ls_trust s)" "(report_step jhash kw)\<^sup>*\<^sup>* w0 w" "\<forall>b. kw b = b"
  shows "\<exists>written. decode_log (drop (length (log_out s)) (log_out (lw_state w))) = Some (map (decode_header \<circ> ld_data) written)
    \<and> lw_accepted w = written @ flushing (log_buf (lw_state w)) @ working (log_buf (lw_state w))"
proof -
  have inv: "report_inv jhash (log_out s) w" by (rule report_reach_inv [OF assms])
  then obtain written where w: "lw_accepted w = written @ flushing (log_buf (lw_state w)) @ working (log_buf (lw_state w))"
    "log_out (lw_state w) = log_out s @ concat (map ld_data written)" by (auto simp: report_inv_def log_inv_def)
  have "messages written" using inv w(1) by (auto simp: report_inv_def messages_def)
  then show ?thesis using messages_decode w by (intro exI [of _ written]) simp
qed

section \<open>What the tests of the lengths miss\<close>

text \<open>The length of a text is compared with a whole page, but the page also holds the header of the record: a
  text of 3953 to 4016 bytes is written over the end of the page.\<close>

lemma user_log_page_overflow:
  assumes "\<not> log_stopped s" "re_kmalloc env" "3953 \<le> n" "n \<le> 4016" "length d = n" "c < 65536" "t < 65536"
  shows "ioctl_write_user_log jhash env True (Some \<lparr>gp_length = 16 + int n,
      gp_data = Some (le16_bytes n @ le16_bytes c @ le16_bytes t @ replicate 10 0 @ d)\<rparr>) s = None"
proof -
  have "le16 (le16_bytes n @ r) = n" for r
    using assms(4) by (simp add: le16_def le16_bytes_def be16_def unat_of_nat)
  moreover have "nat (16 + int n) = 16 + n" by simp
  ultimately show ?thesis
    using assms(1-5) by (simp add: ioctl_write_user_log_def kernel_audit_log_def le16_bytes_def SIZEOF_AUDIT_MSG_def SIZEOF_LOG_DATA_def
      PAGE_SIZE_def SIZEOF_LOG_N_def)
qed

text \<open>The length in the header of the user's record is not compared with the length of the buffer.\<close>

lemma user_log_over_read:
  assumes "\<not> log_stopped s" "re_kmalloc env" "0 < n" "n < 4016"
  shows "ioctl_write_user_log jhash env True (Some \<lparr>gp_length = 16, gp_data = Some (le16_bytes n @ replicate 14 0)\<rparr>) s = None"
proof -
  have "le16 (le16_bytes n @ r) = n" for r
    using assms(4) by (simp add: le16_def le16_bytes_def be16_def unat_of_nat)
  then show ?thesis
    using assms by (simp add: ioctl_write_user_log_def kernel_audit_log_def le16_bytes_def SIZEOF_AUDIT_MSG_def SIZEOF_LOG_DATA_def
      PAGE_SIZE_def SIZEOF_LOG_N_def)
qed

section \<open>Records in memory\<close>

definition mem_wf :: "log_state \<Rightarrow> bool" where
  "mem_wf s \<longleftrightarrow> log_sum s = int (length (g_list_log_memory s)) \<and> length (g_list_log_memory s) \<le> 10000"

fun write_all :: "log_data list \<Rightarrow> log_state \<Rightarrow> log_state option" where
  "write_all [] s = Some s"
| "write_all (d # ds) s = (case write_log_to_memory True d s of None \<Rightarrow> None | Some (r, s') \<Rightarrow> write_all ds s')"

lemma write_one_memory:
  assumes "mem_wf s" "\<not> log_stopped s"
  shows "\<exists>s'. write_log_to_memory True d s = Some (0, s') \<and> mem_wf s' \<and> \<not> log_stopped s'
    \<and> g_list_log_memory s' = take_last 10000 (g_list_log_memory s @ [ld_data d])"
proof (cases "length (g_list_log_memory s) = 10000")
  case True
  then obtain m ms where ms: "g_list_log_memory s = m # ms" by (cases "g_list_log_memory s") auto
  have "take_last 10000 (g_list_log_memory s @ [ld_data d]) = ms @ [ld_data d]"
    using take_last_snoc [of 10000 "g_list_log_memory s" "ld_data d"] True ms by simp
  then show ?thesis using assms True ms by (simp add: write_log_to_memory_def mem_wf_def)
next
  case False
  then have "length (g_list_log_memory s) < 10000" using assms(1) by (simp add: mem_wf_def)
  then show ?thesis using assms by (simp add: write_log_to_memory_def mem_wf_def)
qed

lemma write_all_memory:
  assumes "mem_wf s" "\<not> log_stopped s"
  shows "\<exists>s'. write_all ds s = Some s' \<and> mem_wf s' \<and> g_list_log_memory s' = take_last 10000 (g_list_log_memory s @ map ld_data ds)"
  using assms
proof (induction ds arbitrary: s)
  case Nil
  then show ?case by (simp add: mem_wf_def)
next
  case (Cons d ds)
  obtain s1 where s1: "write_log_to_memory True d s = Some (0, s1)" "mem_wf s1" "\<not> log_stopped s1"
    "g_list_log_memory s1 = take_last 10000 (g_list_log_memory s @ [ld_data d])" using write_one_memory [OF Cons.prems] by blast
  obtain s' where "write_all ds s1 = Some s'" "mem_wf s'" "g_list_log_memory s' = take_last 10000 (g_list_log_memory s1 @ map ld_data ds)"
    using Cons.IH [OF s1(2,3)] by blast
  then show ?case using s1(1,4) take_last_append [of 10000 "g_list_log_memory s @ [ld_data d]"] by simp
qed

text \<open>C38. With LOG_MEM the memory holds the last 10000 records: writing records one after the other never
  fails while memory can be allocated, and keeps exactly the newest 10000 of the old and the new ones,
  in order, with the counter equal to their number.
\<close>

theorem memory_keeps_newest:
  assumes "mem_wf s" "\<not> log_stopped s"
  shows "\<exists>s'. write_all ds s = Some s' \<and> mem_wf s' \<and> g_list_log_memory s' = take_last 10000 (g_list_log_memory s @ map ld_data ds)"
  by (rule write_all_memory [OF assms])

lemma memory_keeps_newest_witness:
  "\<exists>s'. write_all [one_record] running_log = Some s' \<and> g_list_log_memory s' = [[5, 6]]"
proof -
  have "mem_wf running_log" "\<not> log_stopped running_log" "g_list_log_memory running_log = []" "ld_data one_record = [5, 6]"
    by (simp_all add: running_log_def mem_wf_def one_record_def)
  with memory_keeps_newest [of running_log "[one_record]"] show ?thesis by auto
qed

text \<open>The reader gets the longest sequence of whole records that fits, and the flag says whether records are left.\<close>

lemma read_loop_prefix:
  assumes "\<forall>i. ok i"
  shows "\<exists>as bs. ms = as @ bs \<and> read_loop len ok acc ms = (True, acc @ concat as, bs, if bs = [] then 0 else 1)
    \<and> (bs \<noteq> [] \<longrightarrow> len < int (length acc + length (concat as) + length (hd bs)))
    \<and> (as \<noteq> [] \<longrightarrow> int (length acc + length (concat as)) \<le> len)"
proof (induction ms arbitrary: acc)
  case Nil
  then show ?case by simp
next
  case (Cons m ms)
  show ?case
  proof (cases "len < int (length acc + length m)")
    case True
    then show ?thesis by (intro exI [of _ "[]"] exI [of _ "m # ms"]) simp
  next
    case False
    obtain as bs where ab: "ms = as @ bs" "read_loop len ok (acc @ m) ms = (True, (acc @ m) @ concat as, bs, if bs = [] then 0 else 1)"
      "bs \<noteq> [] \<longrightarrow> len < int (length (acc @ m) + length (concat as) + length (hd bs))"
      "as \<noteq> [] \<longrightarrow> int (length (acc @ m) + length (concat as)) \<le> len"
      using Cons.IH [of "acc @ m"] by blast
    have step: "read_loop len ok acc (m # ms) = read_loop len ok (acc @ m) ms" using False assms by simp
    have "int (length acc + length (concat (m # as))) \<le> len" using ab(4) False by (cases "as = []") simp_all
    moreover have "bs \<noteq> [] \<longrightarrow> len < int (length acc + length (concat (m # as)) + length (hd bs))" using ab(3) by (simp add: ac_simps)
    moreover have "m # ms = (m # as) @ bs" using ab(1) by simp
    moreover have "read_loop len ok acc (m # ms) = (True, acc @ concat (m # as), bs, if bs = [] then 0 else 1)" unfolding step ab(2) by simp
    ultimately show ?thesis by blast
  qed
qed

text \<open>A record that is longer than the reader's buffer is never delivered and blocks all later ones.\<close>

lemma long_record_blocks:
  assumes "g_list_log_memory s = m # ms" "log_sum s > 0" "int (length m) > len" "rp_copied par" "rp_len par = Some len" "rp_length_ok par" "rp_hasmore_ok par"
  shows "ioctl_tsb_read_inmem_log signal par s = Some (\<lparr>ra_ret = 0, ra_data = [], ra_length = Some 0, ra_hasmore = Some 1\<rparr>, s)"
  using assms by (simp add: ioctl_tsb_read_inmem_log_def read_records_def read_answer_of_def)

section \<open>A report\<close>

definition test_domain :: sec_domain where
  "test_domain = zero_sec_domain\<lparr>obj_name := bytes_of ''/bin/sh'' @ replicate 505 0\<rparr>"

definition test_report :: report_env where
  "test_report = \<lparr>re_kmalloc = True, re_alloc = Some 3, re_time = 7, re_tv_sec = 7, re_now = 7\<rparr>"

lemma test_domain_wf: "domain_wf test_domain"
  by (simp add: domain_wf_def test_domain_def zero_sec_domain_def LEN_NAME_MAX_def bytes_of_def)


end
