(* ===== verification/Platform_Log.thy ===== *)
theory Platform_Log
  imports Audit_Report Notify
begin

text \<open>
  Reports of the trusted module (tsb/kernel/platform/tpcm/tpcm_real.c) and the start and the end of the audit
  log (\<open>log_init\<close> and \<open>log_exit\<close> of tsb/kernel/platform/log/log.c, and \<open>log_buffer_start\<close> and \<open>log_buffer_stop\<close>
  of log_buff.c). The trusted module calls back with the records of boot measurement and of its own
  dynamic measurement, which become audit records, and with notifications, which go to the readers of
  the notification device.

  The callbacks are registered with the trusted module, whose answers are parameters. What is sent to it
  on a failed kernel section is kept in \<open>pl_sections\<close>. A result \<open>None\<close> is an access outside of memory.
\<close>

section \<open>State\<close>

record platform_log =
  pl_log :: log_state
  pl_notify :: notify_state
  pl_pc :: flusher
  pl_thread :: bool
  jump_entry_check_func :: "fptr option"
  tcsk_log_callback :: "fptr option"
  tcsk_runtime_info_getter :: "fptr option"
  tcsk_notify_callback :: "fptr option"
  pl_sections :: "(byte list \<times> u32) list"

definition TPCM_LOG_TYPE_BMEASURE :: int where "TPCM_LOG_TYPE_BMEASURE = 1"
definition TPCM_LOG_TYPE_DMEASURE :: int where "TPCM_LOG_TYPE_DMEASURE = 2"
definition LOG_RESULT_UNMEASURED :: int where "LOG_RESULT_UNMEASURED = 4"
definition DMEASURE_OPERATE_PERIODICITY :: int where "DMEASURE_OPERATE_PERIODICITY = 1"

text \<open>A record of the trusted module: its type, the seconds and the memory at its body.\<close>

record tpcm_log =
  tl_type :: int
  tl_sec :: int
  tl_log :: "byte list"

section \<open>Records of the trusted module\<close>

definition tpcm_domain :: "byte list \<Rightarrow> byte list \<Rightarrow> sec_domain" where
  "tpcm_domain name digest =
     zero_sec_domain\<lparr>sub_name := bytes_of ''TPCM'' @ replicate (LEN_NAME_MAX - 4) 0,
       obj_name := name @ replicate (LEN_NAME_MAX - length name) 0, sub_hash := digest\<rparr>"

definition bm_result :: "u32 \<Rightarrow> int" where
  "bm_result r = (if r = 0 then LOG_RESULT_SUCCESS else if r = 1 then LOG_RESULT_FAIL else if r = 2 then LOG_RESULT_UNMEASURED else 0)"

text \<open>\<open>kz\<close>: the allocation of the \<open>sec_domain\<close> succeeds. It is never freed.\<close>

definition format_bmeasure_log ::
  "jhash_fun \<Rightarrow> report_env \<Rightarrow> bool \<Rightarrow> u32 \<Rightarrow> int \<Rightarrow> tpcm_log \<Rightarrow> log_state \<Rightarrow> (int \<times> log_state) option" where
  "format_bmeasure_log jhash env kz user pid log s =
     (let b = tl_log log; name_len = unat (be32 (drop 56 b)); n = (if name_len < LEN_NAME_MAX then name_len else LEN_NAME_MAX - 1)
      in if \<not> kz then Some (- ENOMEM, s)
         else if length b < 60 + n then None
         else map_option (\<lambda>(r, s'). (0, s'))
                (keraudit_log_from_tpcm jhash env
                   \<lparr>ta_t_sec = tl_sec log, ta_type = TYPE_BMEASURE, ta_operate = sint (be32 (drop 16 b)), ta_result = bm_result (be32 (drop 20 b))\<rparr>
                   (tpcm_domain (take n (drop 60 b)) (take LEN_HASH (drop 24 b))) user pid s))"

text \<open>\<open>call\<close> runs the check of the jump entries behind a pointer. The result sent to the trusted module is the one it
  sent itself, in network byte order.\<close>

definition format_dmeasure_log ::
  "jhash_fun \<Rightarrow> report_env \<Rightarrow> (fptr \<Rightarrow> int) \<Rightarrow> bool \<Rightarrow> u32 \<Rightarrow> int \<Rightarrow> tpcm_log \<Rightarrow> platform_log \<Rightarrow> (int \<times> platform_log) option" where
  "format_dmeasure_log jhash env call kz user pid log s =
     (let b = tl_log log in
      if \<not> kz then Some (- ENOMEM, s)
      else if length b < 84 then None
      else let name = take 32 (drop 16 b); digest = take LEN_HASH (drop 52 b); result0 = be32 (drop 48 b);
               (result, sections) =
                 (case jump_entry_check_func s of
                    Some f \<Rightarrow> if result0 \<noteq> 0 \<and> strcmp name (bytes_of ''kernel_section'') = 0
                             then let r = (of_int (call f) :: u32)
                                  in (r, [(digest, if r \<noteq> 0 then le32 (drop 48 b) else 0)])
                             else (result0, [])
                  | None \<Rightarrow> (result0, []))
           in map_option (\<lambda>(r, l). (0, s\<lparr>pl_log := l, pl_sections := pl_sections s @ sections\<rparr>))
                (keraudit_log_from_tpcm jhash env
                   \<lparr>ta_t_sec = tl_sec log, ta_type = LOG_DMEASURE, ta_operate = DMEASURE_OPERATE_PERIODICITY,
                    ta_result = (if result \<noteq> 0 then LOG_RESULT_FAIL else LOG_RESULT_SUCCESS)\<rparr>
                   (tpcm_domain name digest) user pid (pl_log s)))"

definition tpcm_log_process ::
  "jhash_fun \<Rightarrow> report_env \<Rightarrow> (fptr \<Rightarrow> int) \<Rightarrow> bool \<Rightarrow> u32 \<Rightarrow> int \<Rightarrow> tpcm_log \<Rightarrow> platform_log \<Rightarrow> platform_log option" where
  "tpcm_log_process jhash env call kz user pid log s =
     (if tl_type log = TPCM_LOG_TYPE_BMEASURE
      then map_option (\<lambda>(r, l). s\<lparr>pl_log := l\<rparr>) (format_bmeasure_log jhash env kz user pid log (pl_log s))
      else if tl_type log = TPCM_LOG_TYPE_DMEASURE then map_option snd (format_dmeasure_log jhash env call kz user pid log s)
      else Some s)"

text \<open>A notification of the trusted module has a type, a length and 48 bytes.\<close>

definition tpcm_notify_call :: "int \<times> int \<times> byte list \<Rightarrow> platform_log \<Rightarrow> platform_log option" where
  "tpcm_notify_call log s = (case log of (type, len, buf) \<Rightarrow>
     map_option (\<lambda>(r, n). s\<lparr>pl_notify := n\<rparr>) (tsb_put_notify \<lparr>n_type = type, n_length = len, n_buf = take 48 buf\<rparr> (pl_notify s)))"

definition jump_entry_check_func_register :: "fptr \<Rightarrow> platform_log \<Rightarrow> platform_log" where
  "jump_entry_check_func_register func s = (if jump_entry_check_func s = None then s\<lparr>jump_entry_check_func := Some func\<rparr> else s)"

definition jump_entry_check_func_unregister :: "fptr \<Rightarrow> platform_log \<Rightarrow> platform_log" where
  "jump_entry_check_func_unregister func s = (if jump_entry_check_func s = Some func then s\<lparr>jump_entry_check_func := None\<rparr> else s)"

text \<open>The answers of the three registrations.\<close>

definition tpcm_log_init :: "int \<times> int \<times> int \<Rightarrow> platform_log \<Rightarrow> int \<times> platform_log" where
  "tpcm_log_init tcsk s = (case tcsk of (r1, r2, r3) \<Rightarrow>
     if r1 \<noteq> 0 then (r1, s)
     else if r2 \<noteq> 0 then (r2, s\<lparr>tcsk_log_callback := None\<rparr>)
     else if r3 \<noteq> 0 then (r3, s\<lparr>tcsk_log_callback := None, tcsk_runtime_info_getter := None\<rparr>)
     else (0, s\<lparr>tcsk_log_callback := Some ''tpcm_log_process'', tcsk_runtime_info_getter := Some ''get_tsb_runtime_info'',
            tcsk_notify_callback := Some ''tpcm_notify_call''\<rparr>))"

definition tpcm_log_exit :: "platform_log \<Rightarrow> platform_log" where
  "tpcm_log_exit s = s\<lparr>tcsk_notify_callback := None, tcsk_runtime_info_getter := None, tcsk_log_callback := None\<rparr>"

section \<open>Start and end of the log\<close>

record log_init_env =
  li_open :: "int option"
  li_kz :: "exception_log_config \<Rightarrow> bool"
  li_config :: "kfile option"
  li_exceptions :: "kfile option"
  li_tcsk :: "int \<times> int \<times> int"
  li_thread :: int

definition log_commands :: "(int \<times> fptr) list" where
  "log_commands = [(COMMAND_SWITCH_LOG_FILE, ''switch_log_file''), (COMMAND_WRITE_USER_LOG, ''ioctl_write_user_log''),
     (COMMAND_WRITE_USER_INFO_LOG, ''ioctl_write_user_info_log''), (COMMAND_READ_MEM_LOG, ''ioctl_tsb_read_inmem_log''),
     (COMMAND_READ_MEM_LOG_NONBLOCK, ''ioctl_tsb_read_inmem_log_nonblock'')]"

definition log_buffer_start :: "int \<Rightarrow> platform_log \<Rightarrow> int \<times> platform_log" where
  "log_buffer_start thread s = (if thread \<noteq> 0 then (thread, s\<lparr>pl_thread := False\<rparr>) else (0, s\<lparr>pl_thread := True, pl_pc := F_Wait\<rparr>))"

text \<open>The label \<open>out\<close>: the file is closed and the variable keeps it. The commands that were registered stay.\<close>

definition log_init_out :: "platform_log \<Rightarrow> platform_log" where
  "log_init_out s = (if log_file (pl_log s) = File_Open then s\<lparr>pl_log := (pl_log s)\<lparr>log_file := File_Stale\<rparr>\<rparr> else s)"

definition log_init :: "log_init_env \<Rightarrow> platform_log \<Rightarrow> (int \<times> platform_log) option" where
  "log_init env s =
     (case switch_log_file (li_open env) ((pl_log s)\<lparr>log_buf := log_buffer_init (\<lambda>i. [])\<rparr>) of None \<Rightarrow> None
      | Some (r, l) \<Rightarrow>
          if r \<noteq> 0 then Some (r, s\<lparr>pl_log := l\<rparr>)
          else let (ok, c) = register_all log_commands (lc_commands (ls_config l));
                   l1 = l\<lparr>log_sum := 0, ls_config := (ls_config l)\<lparr>lc_commands := c\<rparr>\<rparr>
               in if \<not> ok then Some (- EPERM, log_init_out (s\<lparr>pl_log := l1\<rparr>))
                  else (case log_config_policy_init (li_kz env) (li_config env) (li_exceptions env) (ls_config l1) of None \<Rightarrow> None
                    | Some (_, cfg) \<Rightarrow>
                        let (_, s2) = tpcm_log_init (li_tcsk env) (s\<lparr>pl_log := l1\<lparr>ls_config := cfg\<rparr>\<rparr>);
                            (r3, s3) = log_buffer_start (li_thread env) s2
                        in if r3 \<noteq> 0 then Some (r3, log_init_out s3) else Some (0, s3)))"

text \<open>The thread after it was told to stop, until it ends.\<close>

partial_function (option) run_to_end ::
  "(log_data \<Rightarrow> log_state \<Rightarrow> log_state option) \<Rightarrow> flusher \<times> log_state \<Rightarrow> log_state option" where
  "run_to_end func fs = (if fst fs = F_Done then Some (snd fs)
     else case buffer_flush func True fs of None \<Rightarrow> None | Some fs' \<Rightarrow> run_to_end func fs')"

definition log_buffer_stop :: "(byte list \<Rightarrow> byte list) \<Rightarrow> platform_log \<Rightarrow> platform_log option" where
  "log_buffer_stop kw s =
     (if \<not> pl_thread s then Some s
      else map_option (\<lambda>l. s\<lparr>pl_log := l, pl_pc := F_Done, pl_thread := False\<rparr>)
             (run_to_end (write_log kw) (pl_pc s, (pl_log s)\<lparr>log_buf := (log_buf (pl_log s))\<lparr>working_number := 1\<rparr>\<rparr>)))"

definition log_exit :: "(byte list \<Rightarrow> byte list) \<Rightarrow> platform_log \<Rightarrow> platform_log option" where
  "log_exit kw s0 =
     (let s1 = tpcm_log_exit (s0\<lparr>pl_log := (pl_log s0)\<lparr>log_stopped := True\<rparr>\<rparr>);
          cfg = log_config_policy_exit (ls_config (pl_log s1));
          s2 = s1\<lparr>pl_log := (pl_log s1)\<lparr>ls_config := cfg\<lparr>lc_commands := unregister_all log_commands (lc_commands cfg)\<rparr>\<rparr>\<rparr>
      in case log_buffer_stop kw s2 of None \<Rightarrow> None
         | Some s3 \<Rightarrow>
           (case log_buffer_empty (log_buf (pl_log s3)) of None \<Rightarrow> None
            | Some b \<Rightarrow> if log_file (pl_log s3) = File_Stale then None
                       else Some (s3\<lparr>pl_log := (pl_log s3)\<lparr>log_buf := b, log_file := No_File\<rparr>\<rparr>)))"

section \<open>The log starts\<close>

definition log_numbers :: "nat set" where
  "log_numbers = {1, 39, 46, 40, 41, 13, 14}"

text \<open>Loading the log. If the file can be opened, the thread can be created, the command numbers are free
  and the list of objects has the form of lines, \<open>log_init\<close> succeeds and leaves the log in the state in
  which records can be put and flushed, with its seven commands registered.
\<close>

theorem log_init_ok:
  assumes "li_open env = None" "li_thread env = 0" "\<forall>e. li_kz env e" "li_exceptions env = Some f"
    and "kfile_bytes f (concat (map (\<lambda>l. l @ [10]) ls))" "\<forall>l\<in>set ls. exception_line l"
    and "\<forall>n\<in>log_numbers. lc_commands (ls_config (pl_log s)) n = None" "\<not> log_stopped (pl_log s)" "log_file (pl_log s) = No_File"
  shows "\<exists>s'. log_init env s = Some (0, s') \<and> log_started (pl_log s') \<lparr>lw_state = pl_log s', lw_pc = pl_pc s', lw_accepted = []\<rparr>
    \<and> pl_thread s' \<and> log_out (pl_log s') = log_out (pl_log s) \<and> (\<forall>n\<in>log_numbers. lc_commands (ls_config (pl_log s')) n \<noteq> None)"
proof -
  let ?l = "(pl_log s)\<lparr>log_buf := log_buffer_init (\<lambda>i. []), log_file := File_Open\<rparr>"
  have sw: "switch_log_file (li_open env) ((pl_log s)\<lparr>log_buf := log_buffer_init (\<lambda>i. [])\<rparr>) = Some (0, ?l)"
    using assms(1,8,9) by (simp add: switch_log_file_def)
  define c0 where "c0 = lc_commands (ls_config (pl_log s))"
  define c where "c = c0 (1 \<mapsto> ''switch_log_file'', 39 \<mapsto> ''ioctl_write_user_log'', 46 \<mapsto> ''ioctl_write_user_info_log'',
     40 \<mapsto> ''ioctl_tsb_read_inmem_log'', 41 \<mapsto> ''ioctl_tsb_read_inmem_log_nonblock'')"
  have free: "\<forall>n\<in>log_numbers. c0 n = None" using assms(7) by (simp add: c0_def)
  have reg: "register_all log_commands c0 = (True, c)"
    using free by (simp add: log_commands_def httcsec_io_command_register_def MAX_COMMAND_NR_def log_numbers_def c_def)
  define cfg where "cfg = (ls_config (pl_log s))\<lparr>lc_commands := c\<rparr>"
  have c14: "lc_commands cfg 13 = None" "lc_commands cfg 14 = None" using free by (simp_all add: cfg_def c_def log_numbers_def)
  have load: "load_exceptions (li_kz env) f 0 es = Some (es @ map exception_of ls)" for es
    by (rule load_exceptions_lines [OF assms(5,6)]) (use assms(3) in simp_all)
  have keep: "lc_commands (snd (load_log_config fo x)) = lc_commands x" for fo x
    by (simp add: load_log_config_def split: option.split sum.split)
  obtain cfg' where cfg': "log_config_policy_init (li_kz env) (li_config env) (li_exceptions env) cfg = Some (0, cfg')"
    "lc_commands cfg' = c(13 \<mapsto> ''ioctl_update_log_config_policy'', 14 \<mapsto> ''ioctl_reload_log_config_policy'')"
    using c14 assms(4) load keep
    by (simp add: log_config_policy_init_def Let_def load_exception_log_config_def httcsec_io_command_register_def MAX_COMMAND_NR_def cfg_def)
  define s2 where "s2 = snd (tpcm_log_init (li_tcsk env) (s\<lparr>pl_log := ?l\<lparr>log_sum := 0, ls_config := cfg'\<rparr>\<rparr>))"
  have s2: "pl_log s2 = ?l\<lparr>log_sum := 0, ls_config := cfg'\<rparr>" by (simp add: s2_def tpcm_log_init_def split: prod.split)
  have cfg_l: "(ls_config ?l)\<lparr>lc_commands := c\<rparr> = cfg" "lc_commands (ls_config ?l) = c0" by (simp_all add: cfg_def c0_def)
  have "log_init env s = Some (0, s2\<lparr>pl_thread := True, pl_pc := F_Wait\<rparr>)"
    unfolding log_init_def sw using reg cfg'(1) cfg_l assms(2) by (simp add: log_buffer_start_def s2_def split: prod.split)
  moreover have "log_started (pl_log s2) \<lparr>lw_state = pl_log s2, lw_pc = F_Wait, lw_accepted = []\<rparr>"
    using assms(8) by (simp add: log_started_def s2)
  moreover have "\<forall>n\<in>log_numbers. lc_commands (ls_config (pl_log s2)) n \<noteq> None"
    by (simp add: s2 cfg'(2) log_numbers_def c_def)
  ultimately show ?thesis by (intro exI [of _ "s2\<lparr>pl_thread := True, pl_pc := F_Wait\<rparr>"]) (simp add: s2)
qed

section \<open>The log ends\<close>

lemma run_to_end_flush:
  assumes "log_stopped l" "flushing (log_buf l) = ds"
  shows "run_to_end (write_log kw) (F_Flush, l) = Some (l\<lparr>log_buf := (log_buf l)\<lparr>flushing := []\<rparr>\<rparr>)"
  using assms
proof (induction ds arbitrary: l)
  case Nil
  then have "(log_buf l)\<lparr>flushing := []\<rparr> = log_buf l" by simp
  then show ?case using Nil by (subst run_to_end.simps) (simp add: buffer_flush_def run_to_end.simps)
next
  case (Cons d ds)
  have "run_to_end (write_log kw) (F_Flush, l\<lparr>log_buf := (log_buf l)\<lparr>flushing := ds\<rparr>\<rparr>) =
      Some ((l\<lparr>log_buf := (log_buf l)\<lparr>flushing := ds\<rparr>\<rparr>)\<lparr>log_buf := (log_buf (l\<lparr>log_buf := (log_buf l)\<lparr>flushing := ds\<rparr>\<rparr>))\<lparr>flushing := []\<rparr>\<rparr>)"
    using Cons.prems by (intro Cons.IH) simp_all
  then show ?case using Cons.prems by (subst run_to_end.simps) (simp add: buffer_flush_def write_log_def)
qed

lemma run_to_end_stopped:
  assumes "log_stopped l" "pc \<noteq> F_Done" "pc = F_Wait \<longrightarrow> working_number (log_buf l) > 0"
  shows "\<exists>l'. run_to_end (write_log kw) (pc, l) = Some l' \<and> log_out l' = log_out l \<and> log_file l' = log_file l
    \<and> cache_mem (log_buf l') = cache_mem (log_buf l) \<and> log_cache (log_buf l') = log_cache (log_buf l)
    \<and> cache_hash (log_buf l') = cache_hash (log_buf l) \<and> cache_number (log_buf l') = cache_number (log_buf l)"
proof (cases pc)
  case F_Wait
  then have "run_to_end (write_log kw) (pc, l) = run_to_end (write_log kw) (F_Flush, l\<lparr>log_buf := flush_take (log_buf l)\<rparr>)"
    using assms(3) by (subst run_to_end.simps) (simp add: buffer_flush_def)
  moreover have "run_to_end (write_log kw) (F_Flush, l\<lparr>log_buf := flush_take (log_buf l)\<rparr>) =
      Some ((l\<lparr>log_buf := flush_take (log_buf l)\<rparr>)\<lparr>log_buf := (log_buf (l\<lparr>log_buf := flush_take (log_buf l)\<rparr>))\<lparr>flushing := []\<rparr>\<rparr>)"
    using assms(1) by (intro run_to_end_flush) simp_all
  ultimately show ?thesis by (simp add: flush_take_def)
next
  case F_Flush
  with run_to_end_flush [OF assms(1) refl] show ?thesis by simp
qed (use assms(2) in simp)

text \<open>C35. Unloading the log. From every state of a running log, \<open>log_exit\<close> comes to an end, whatever the
  flushing thread was doing; every cached copy is freed exactly once, the lists are empty and the file
  is closed. Nothing more is written: the records that were still waiting are dropped, because the log is
  marked as stopped before the thread is told to end.
\<close>

theorem log_exit_ends:
  assumes "log_inv jhash out0 \<lparr>lw_state = pl_log s, lw_pc = pl_pc s, lw_accepted = ds\<rparr>" "pl_thread s"
  shows "\<exists>s'. log_exit kw s = Some s' \<and> cache_mem (log_buf (pl_log s')) = Map.empty \<and> working (log_buf (pl_log s')) = []
    \<and> flushing (log_buf (pl_log s')) = [] \<and> log_file (pl_log s') = No_File \<and> log_out (pl_log s') = log_out (pl_log s)
    \<and> tcsk_log_callback s' = None \<and> \<not> pl_thread s'"
proof -
  define cfg where "cfg = log_config_policy_exit (ls_config (pl_log s))"
  define l where "l = (pl_log s)\<lparr>log_stopped := True, ls_config := cfg\<lparr>lc_commands := unregister_all log_commands (lc_commands cfg)\<rparr>,
     log_buf := (log_buf (pl_log s))\<lparr>working_number := 1\<rparr>\<rparr>"
  have l: "log_stopped l" "working_number (log_buf l) > 0" "log_file l = File_Open" "log_out l = log_out (pl_log s)" "pl_pc s \<noteq> F_Done"
    using assms(1) by (simp_all add: l_def log_inv_def)
  have wf: "lcache_wf jhash (log_buf l)" using assms(1) by (auto simp: l_def log_inv_def intro: lcache_wf_cong)
  obtain l' where l': "run_to_end (write_log kw) (pl_pc s, l) = Some l'" "log_out l' = log_out l" "log_file l' = log_file l"
    "cache_mem (log_buf l') = cache_mem (log_buf l)" "log_cache (log_buf l') = log_cache (log_buf l)"
    "cache_hash (log_buf l') = cache_hash (log_buf l)" "cache_number (log_buf l') = cache_number (log_buf l)"
    using run_to_end_stopped [OF l(1,5)] l(2) by blast
  have "lcache_wf jhash (log_buf l')" by (rule lcache_wf_cong [OF wf]) (use l' in simp_all)
  then obtain b where b: "log_buffer_empty (log_buf l') = Some b" "cache_mem b = Map.empty" "working b = []" "flushing b = []"
    using log_buffer_empty_frees_once by blast
  define s1 where "s1 = s\<lparr>tcsk_notify_callback := None, tcsk_runtime_info_getter := None, tcsk_log_callback := None,
     pl_log := (pl_log s)\<lparr>log_stopped := True, ls_config := cfg\<lparr>lc_commands := unregister_all log_commands (lc_commands cfg)\<rparr>\<rparr>\<rparr>"
  have "log_buffer_stop kw s1 = Some (s1\<lparr>pl_log := l', pl_pc := F_Done, pl_thread := False\<rparr>)"
    using assms(2) l'(1) by (simp add: log_buffer_stop_def s1_def l_def)
  then have "log_exit kw s = Some (s1\<lparr>pl_log := l'\<lparr>log_buf := b, log_file := No_File\<rparr>, pl_pc := F_Done, pl_thread := False\<rparr>)"
    using b(1) l'(3) l(3) by (simp add: log_exit_def tpcm_log_exit_def Let_def s1_def cfg_def)
  then show ?thesis using b l' l(4) by (simp add: s1_def)
qed

definition running_platform :: platform_log where
  "running_platform = \<lparr>pl_log = running_log, pl_notify = notify_one, pl_pc = F_Wait, pl_thread = True, jump_entry_check_func = None,
     tcsk_log_callback = Some ''tpcm_log_process'', tcsk_runtime_info_getter = Some ''get_tsb_runtime_info'',
     tcsk_notify_callback = Some ''tpcm_notify_call'', pl_sections = []\<rparr>"

theorem log_exit_ends_witness:
  "\<exists>s'. log_exit (\<lambda>b. b) running_platform = Some s' \<and> cache_mem (log_buf (pl_log s')) = Map.empty \<and> log_file (pl_log s') = No_File"
proof -
  have "log_inv (\<lambda>b i. 0) (log_out running_log) \<lparr>lw_state = pl_log running_platform, lw_pc = pl_pc running_platform, lw_accepted = []\<rparr>"
    using log_inv_start [OF running_world_started] by (simp add: running_platform_def running_world_def)
  from log_exit_ends [OF this, of "\<lambda>b. b"] show ?thesis by (auto simp: running_platform_def)
qed

text \<open>A command that switches the file after the log was stopped closes the file and keeps the variable, so the
  end of \<open>log_exit\<close> closes it a second time.\<close>

lemma switch_after_stop_closes_twice:
  assumes "log_stopped l" "log_file l = File_Open"
  shows "\<exists>l'. switch_log_file opn l = Some (0, l') \<and> log_file l' = File_Stale \<and> switch_log_file opn' l' = None"
  using assms by (simp add: switch_log_file_def)

text \<open>Boot measurement is always kept.\<close>

lemma boot_records_kept: "get_log_config_policy TYPE_BMEASURE result d c = 1"
  by (simp add: get_log_config_policy_def)

end
