(* ===== verification/Event_Chain.thy ===== *)
theory Event_Chain
  imports Engines Platform_Log
begin

text \<open>
  From a decision of the measurement engine to the log file. The engine of Smeasure_Engine lists the calls it makes of
  the platform as effects: records of the audit log (\<open>keraudit_log\<close>), reports of the trust status
  (\<open>sync_trust_status\<close>), counters of failures and messages for access control. Here the calls are run on
  the models of the log and of the trusted module interface, in the order of the effects.
\<close>

record platform_sink =
  sk_log :: log_state
  sk_counts :: credential_counts
  sk_process_msgs :: "(byte list \<times> byte list \<times> int) list"

fun perform :: "jhash_fun \<Rightarrow> report_env \<Rightarrow> u32 \<Rightarrow> int \<Rightarrow> effect \<Rightarrow> platform_sink \<Rightarrow> platform_sink option" where
  "perform jhash env user pid (Audit type operate result d) k =
     map_option (\<lambda>(r, l). k\<lparr>sk_log := l\<rparr>) (keraudit_log jhash env type operate result d user pid (sk_log k))"
| "perform jhash env user pid (Trust_Status t) k =
     map_option (\<lambda>(r, t'). k\<lparr>sk_log := (sk_log k)\<lparr>ls_trust := t'\<rparr>\<rparr>) (sync_trust_status (nat t) (ls_trust (sk_log k)))"
| "perform jhash env user pid (Process_Msg name hash type) k = Some (k\<lparr>sk_process_msgs := sk_process_msgs k @ [(name, hash, type)]\<rparr>)"
| "perform jhash env user pid Exec_Count k = Some (k\<lparr>sk_counts := ProcessExecCount_add (sk_counts k)\<rparr>)"
| "perform jhash env user pid Lib_Count k = Some (k\<lparr>sk_counts := DynamicLibLoadCount_add (sk_counts k)\<rparr>)"
| "perform jhash env user pid Module_Count k = Some (k\<lparr>sk_counts := KernelModuleCount_add (sk_counts k)\<rparr>)"

text \<open>The environment (time and memory) may change from call to call.\<close>

fun perform_all :: "jhash_fun \<Rightarrow> (nat \<Rightarrow> report_env) \<Rightarrow> u32 \<Rightarrow> int \<Rightarrow> effect list \<Rightarrow> platform_sink \<Rightarrow> platform_sink option" where
  "perform_all jhash envs user pid [] k = Some k"
| "perform_all jhash envs user pid (e # es) k =
     (case perform jhash (envs 0) user pid e k of None \<Rightarrow> None
      | Some k' \<Rightarrow> perform_all jhash (envs \<circ> Suc) user pid es k')"

lemma domain_of_wf: "length h = LEN_HASH \<Longrightarrow> domain_wf ((domain_of env p)\<lparr>sub_hash := h\<rparr>)"
  by (simp add: domain_wf_def domain_of_def prepare_sec_domain_def Let_def name_field_def)


definition demo_sink :: platform_sink where
  "demo_sink = \<lparr>sk_log = running_log, sk_counts = \<lparr>ProcessExecCount = 0, DynamicLibLoadCount = 0, KernelModuleCount = 0, FileAccessCount = 0,
     SectionFailureCount = 0, CriticalDataFailureCount = 0, PorcessCodeFailureCount = 0\<rparr>, sk_process_msgs = []\<rparr>"


end
