(* ===== verification/Hook_Drain.thy ===== *)
theory Hook_Drain
  imports Prelude
begin

text \<open>
  The counters that keep a table of hooks alive while it is called: the macro \<open>CALL_INTERCEPT_FUNC\<close>
  (tsb/kernel/platform/hook/lsm_version/engine_func.h) and the waiting loop of \<open>httcsec_unregister_hook\<close>
  (tsb/kernel/platform/engine/engine.c), as a system of threads that interleave at every atomic
  operation.

  A caller adds 2 to \<open>platform_refcnt\<close>, reads the pointer to the current table, increments the counter
  of that table, gives one of the two back, calls the hook, and gives the rest back. The loop waits
  while the table's counter is positive or the platform's exceeds 1; it reads the one and then
  the other. The table that is taken out is \<open>New_Table\<close>; every other one is \<open>Old_Table\<close>.
\<close>

section \<open>The system\<close>

datatype hook_table = New_Table | Old_Table

datatype call_pc =
    Idle
  | Added
  | Loaded "hook_table option"
  | Counted hook_table
  | Calling hook_table
  | Leaving

datatype drain_pc = Registered | Test_Table | Test_Platform | Drained | Freed

record drain_state =
  dr_platform :: int
  dr_refcnt :: int
  dr_hook :: "hook_table option"
  dr_calls :: "call_pc list"
  dr_pc :: drain_pc

definition set_call :: "nat \<Rightarrow> call_pc \<Rightarrow> drain_state \<Rightarrow> drain_state" where
  "set_call t pc s = s\<lparr>dr_calls := (dr_calls s)[t := pc]\<rparr>"

definition add_platform :: "int \<Rightarrow> drain_state \<Rightarrow> drain_state" where
  "add_platform k s = s\<lparr>dr_platform := dr_platform s + k\<rparr>"

definition add_refcnt :: "hook_table \<Rightarrow> int \<Rightarrow> drain_state \<Rightarrow> drain_state" where
  "add_refcnt a k s = (if a = New_Table then s\<lparr>dr_refcnt := dr_refcnt s + k\<rparr> else s)"

text \<open>One atomic operation of \<open>CALL_INTERCEPT_FUNC\<close>; \<open>has\<close> says whether the table has an entry for the hook.\<close>

definition CALL_INTERCEPT_FUNC :: "bool \<Rightarrow> nat \<Rightarrow> drain_state \<Rightarrow> drain_state" where
  "CALL_INTERCEPT_FUNC has t s = (case dr_calls s ! t of
     Idle \<Rightarrow> set_call t Added (add_platform 2 s)
   | Added \<Rightarrow> set_call t (Loaded (dr_hook s)) s
   | Loaded se \<Rightarrow> (case se of
         Some a \<Rightarrow> if has then set_call t (Counted a) (add_refcnt a 1 s) else set_call t Leaving (add_platform (-1) s)
       | None \<Rightarrow> set_call t Leaving (add_platform (-1) s))
   | Counted a \<Rightarrow> set_call t (Calling a) (add_platform (-1) s)
   | Calling a \<Rightarrow> set_call t Leaving (add_refcnt a (-1) s)
   | Leaving \<Rightarrow> set_call t Idle (add_platform (-1) s))"

text \<open>One operation of the removal: the pointer is set back, then the loop, then the memory is freed by the
  engine.\<close>

definition drain_hook :: "drain_state \<Rightarrow> drain_state" where
  "drain_hook s = (case dr_pc s of
     Registered \<Rightarrow> s\<lparr>dr_hook := Some Old_Table, dr_pc := Test_Table\<rparr>
   | Test_Table \<Rightarrow> if dr_refcnt s > 0 then s else s\<lparr>dr_pc := Test_Platform\<rparr>
   | Test_Platform \<Rightarrow> if dr_platform s > 1 then s\<lparr>dr_pc := Test_Table\<rparr> else s\<lparr>dr_pc := Drained\<rparr>
   | Drained \<Rightarrow> s\<lparr>dr_pc := Freed\<rparr>
   | Freed \<Rightarrow> s)"

inductive drain_step :: "drain_state \<Rightarrow> drain_state \<Rightarrow> bool" where
  call: "t < length (dr_calls s) \<Longrightarrow> drain_step s (CALL_INTERCEPT_FUNC has t s)"
| unregister: "drain_step s (drain_hook s)"

inductive_cases drain_stepE: "drain_step s s'"

definition drain_start :: "nat \<Rightarrow> drain_state" where
  "drain_start n = \<lparr>dr_platform = 0, dr_refcnt = 0, dr_hook = Some New_Table, dr_calls = replicate n Idle, dr_pc = Registered\<rparr>"

section \<open>The counters\<close>

fun platform_share :: "call_pc \<Rightarrow> int" where
  "platform_share Idle = 0"
| "platform_share Added = 2"
| "platform_share (Loaded _) = 2"
| "platform_share (Counted _) = 2"
| "platform_share (Calling _) = 1"
| "platform_share Leaving = 1"

fun table_share :: "call_pc \<Rightarrow> int" where
  "table_share (Counted New_Table) = 1"
| "table_share (Calling New_Table) = 1"
| "table_share _ = 0"

definition counters_exact :: "drain_state \<Rightarrow> bool" where
  "counters_exact s \<longleftrightarrow> dr_platform s = sum_list (map platform_share (dr_calls s)) \<and> dr_refcnt s = sum_list (map table_share (dr_calls s))"

lemma sum_list_set: "t < length xs \<Longrightarrow> sum_list (map f (xs[t := x])) = sum_list (map f xs) - f (xs ! t) + (f x :: int)"
  by (induction xs arbitrary: t) (auto split: nat.splits)

lemma call_exact:
  assumes "counters_exact s" "t < length (dr_calls s)"
  shows "counters_exact (CALL_INTERCEPT_FUNC has t s)"
proof -
  note sums = sum_list_set [OF assms(2), of platform_share] sum_list_set [OF assms(2), of table_share]
  have p: "dr_platform s = sum_list (map platform_share (dr_calls s))" "dr_refcnt s = sum_list (map table_share (dr_calls s))"
    using assms(1) by (simp_all add: counters_exact_def)
  have tab: "a = New_Table \<or> a = Old_Table" for a by (cases a) auto
  show ?thesis
  proof (cases "dr_calls s ! t")
    case (Loaded se)
    then show ?thesis
      using p sums tab [of "the se"]
      by (cases se) (auto simp: CALL_INTERCEPT_FUNC_def counters_exact_def set_call_def add_platform_def add_refcnt_def)
  next
    case (Counted a)
    then show ?thesis
      using p sums tab [of a] by (auto simp: CALL_INTERCEPT_FUNC_def counters_exact_def set_call_def add_platform_def)
  next
    case (Calling a)
    then show ?thesis
      using p sums tab [of a] by (auto simp: CALL_INTERCEPT_FUNC_def counters_exact_def set_call_def add_refcnt_def)
  qed (use p sums in \<open>auto simp: CALL_INTERCEPT_FUNC_def counters_exact_def set_call_def add_platform_def\<close>)
qed

lemma drain_hook_exact: "counters_exact s \<Longrightarrow> counters_exact (drain_hook s)"
  by (auto simp: drain_hook_def counters_exact_def split: drain_pc.splits)

lemma step_exact: "drain_step s s' \<Longrightarrow> counters_exact s \<Longrightarrow> counters_exact s'"
  by (erule drain_stepE) (auto intro: call_exact drain_hook_exact)

lemma reachable_exact: "drain_step\<^sup>*\<^sup>* (drain_start n) s \<Longrightarrow> counters_exact s"
proof (induction rule: rtranclp_induct)
  case base
  then show ?case by (simp add: counters_exact_def drain_start_def sum_list_replicate)
qed (rule step_exact)

section \<open>A drained table\<close>

text \<open>No caller is between reading the pointer and leaving the table, and no new one can get there.\<close>

fun near_table :: "call_pc \<Rightarrow> bool" where
  "near_table (Loaded (Some New_Table)) = True"
| "near_table (Counted New_Table) = True"
| "near_table (Calling New_Table) = True"
| "near_table _ = False"

definition table_unused :: "drain_state \<Rightarrow> bool" where
  "table_unused s \<longleftrightarrow> dr_hook s \<noteq> Some New_Table \<and> (\<forall>pc\<in>set (dr_calls s). \<not> near_table pc)"

lemma shares_nonneg: "0 \<le> platform_share pc" "0 \<le> table_share pc"
  by (cases pc rule: platform_share.cases; simp) (cases pc rule: table_share.cases; simp)

lemma share_le_sum:
  assumes "pc \<in> set xs" "\<And>x. (0 :: int) \<le> f x"
  shows "f pc \<le> sum_list (map f xs)"
  using assms(1)
proof (induction xs)
  case (Cons x xs)
  have "0 \<le> sum_list (map f xs)" by (rule sum_list_nonneg) (use assms(2) in auto)
  with Cons assms(2) [of x] show ?case by fastforce
qed simp

lemma drained_unused:
  assumes "counters_exact s" "dr_hook s \<noteq> Some New_Table" "dr_refcnt s \<le> 0" "dr_platform s \<le> 1"
  shows "table_unused s"
proof -
  have "\<not> near_table pc" if "pc \<in> set (dr_calls s)" for pc
  proof -
    have "platform_share pc \<le> 1" "table_share pc \<le> 0"
      using share_le_sum [OF that, of platform_share] share_le_sum [OF that, of table_share] shares_nonneg assms(1,3,4)
      by (auto simp: counters_exact_def)
    then show ?thesis by (cases pc rule: near_table.cases) auto
  qed
  with assms(2) show ?thesis by (simp add: table_unused_def)
qed

text \<open>Where a caller goes.\<close>

fun next_pc :: "bool \<Rightarrow> hook_table option \<Rightarrow> call_pc \<Rightarrow> call_pc" where
  "next_pc has hook Idle = Added"
| "next_pc has hook Added = Loaded hook"
| "next_pc has hook (Loaded None) = Leaving"
| "next_pc has hook (Loaded (Some a)) = (if has then Counted a else Leaving)"
| "next_pc has hook (Counted a) = Calling a"
| "next_pc has hook (Calling a) = Leaving"
| "next_pc has hook Leaving = Idle"

lemma call_moves:
  "dr_calls (CALL_INTERCEPT_FUNC has t s) = (dr_calls s)[t := next_pc has (dr_hook s) (dr_calls s ! t)]"
  "dr_hook (CALL_INTERCEPT_FUNC has t s) = dr_hook s" "dr_pc (CALL_INTERCEPT_FUNC has t s) = dr_pc s"
  by (simp_all add: CALL_INTERCEPT_FUNC_def set_call_def add_platform_def add_refcnt_def split: call_pc.splits option.splits)

lemma next_pc_away:
  assumes "\<not> near_table pc" "hook \<noteq> Some New_Table"
  shows "\<not> near_table (next_pc has hook pc)"
proof -
  have hook: "hook = None \<or> hook = Some Old_Table" using assms(2) by (metis hook_table.exhaust not_None_eq)
  have "\<not> near_table (Loaded hook)" using hook by auto
  moreover have "a = Old_Table" if "a \<noteq> New_Table" for a using that by (cases a) auto
  ultimately show ?thesis using assms(1) by (cases pc rule: near_table.cases) (auto split: if_splits)
qed

lemma unused_step:
  assumes "drain_step s s'" "table_unused s"
  shows "table_unused s'"
  using assms
proof cases
  case (call t has)
  have pc: "\<And>pc. pc \<in> set (dr_calls s) \<Longrightarrow> \<not> near_table pc" "dr_hook s \<noteq> Some New_Table"
    using assms(2) by (auto simp: table_unused_def)
  have "\<not> near_table (next_pc has (dr_hook s) (dr_calls s ! t))"
    using pc call(2) by (intro next_pc_away) auto
  then have "\<not> near_table pc" if "pc \<in> set ((dr_calls s)[t := next_pc has (dr_hook s) (dr_calls s ! t)])" for pc
    using that pc(1) set_update_subset_insert [of "dr_calls s"] by blast
  with pc(2) show ?thesis unfolding table_unused_def call(1) call_moves by blast
next
  case unregister
  then show ?thesis
    using assms(2) by (auto simp: drain_hook_def table_unused_def split: drain_pc.splits)
qed

lemma unused_reachable: "drain_step\<^sup>*\<^sup>* s s' \<Longrightarrow> table_unused s \<Longrightarrow> table_unused s'"
  by (induction rule: rtranclp_induct) (auto intro: unused_step)

section \<open>Properties\<close>

text \<open>C25. In every interleaving of any number of callers with a removal the two counters are exact; and once
  both tests hold at the same moment, with the pointer set back, no caller is near the table and none
  ever gets there again.\<close>

theorem drained_table_stays_unused:
  assumes "drain_step\<^sup>*\<^sup>* (drain_start n) s"
  shows "counters_exact s \<and> (dr_hook s \<noteq> Some New_Table \<and> dr_refcnt s \<le> 0 \<and> dr_platform s \<le> 1
    \<longrightarrow> (\<forall>s'. drain_step\<^sup>*\<^sup>* s s' \<longrightarrow> (\<forall>pc\<in>set (dr_calls s'). \<not> near_table pc)))"
proof (intro conjI impI allI)
  show e: "counters_exact s" by (rule reachable_exact [OF assms])
  fix s'
  assume "dr_hook s \<noteq> Some New_Table \<and> dr_refcnt s \<le> 0 \<and> dr_platform s \<le> 1" "drain_step\<^sup>*\<^sup>* s s'"
  then have "table_unused s'" using unused_reachable drained_unused [OF e] by blast
  then show "\<forall>pc\<in>set (dr_calls s'). \<not> near_table pc" by (simp add: table_unused_def)
qed

text \<open>The loop reads the counter of the table first and that of the platform afterwards. A caller that has read
  the pointer and moves between the two tests is missed: the table is freed while its hook is
  running.\<close>

theorem drain_misses_running_call:
  "\<exists>s. drain_step\<^sup>*\<^sup>* (drain_start 1) s \<and> dr_pc s = Freed \<and> dr_calls s = [Calling New_Table] \<and> dr_refcnt s = 1"
proof -
  define c where "c = CALL_INTERCEPT_FUNC True 0"
  let ?s = "(drain_hook \<circ> drain_hook \<circ> c \<circ> c \<circ> drain_hook \<circ> drain_hook \<circ> c \<circ> c) (drain_start 1)"
  have u: "drain_step\<^sup>*\<^sup>* x s \<Longrightarrow> drain_step\<^sup>*\<^sup>* x (drain_hook s)" for x s
    by (erule rtranclp.rtrancl_into_rtrancl) (rule unregister)
  have k: "drain_step\<^sup>*\<^sup>* x s \<Longrightarrow> length (dr_calls s) = 1 \<Longrightarrow> drain_step\<^sup>*\<^sup>* x (c s)" for x s
    unfolding c_def by (erule rtranclp.rtrancl_into_rtrancl) (rule call, simp)
  have len: "length (dr_calls (c s)) = length (dr_calls s)" "length (dr_calls (drain_hook s)) = length (dr_calls s)" for s
    by (simp add: c_def call_moves) (simp add: drain_hook_def split: drain_pc.splits)
  have "drain_step\<^sup>*\<^sup>* (drain_start 1) ?s"
    unfolding comp_apply by (intro u k) (simp_all add: len drain_start_def)
  moreover have "dr_pc ?s = Freed \<and> dr_calls ?s = [Calling New_Table] \<and> dr_refcnt ?s = 1"
    by (simp add: c_def drain_start_def CALL_INTERCEPT_FUNC_def drain_hook_def set_call_def add_platform_def add_refcnt_def)
  ultimately show ?thesis by blast
qed

theorem drained_table_stays_unused_witness:
  "counters_exact (drain_hook (drain_start 2))
    \<and> (\<exists>s'. drain_step\<^sup>*\<^sup>* (drain_hook (drain_start 2)) s' \<and> dr_calls s' = [Added, Idle] \<and> \<not> near_table (dr_calls s' ! 0))"
proof -
  let ?s = "drain_hook (drain_start 2)"
  let ?t = "CALL_INTERCEPT_FUNC True 0 ?s"
  have r: "drain_step\<^sup>*\<^sup>* (drain_start 2) ?s" using unregister by (rule r_into_rtranclp)
  have "drain_step ?s ?t" by (rule call) (simp add: drain_hook_def drain_start_def)
  then have t: "drain_step\<^sup>*\<^sup>* ?s ?t" by (rule r_into_rtranclp)
  have d: "dr_hook ?s \<noteq> Some New_Table \<and> dr_refcnt ?s \<le> 0 \<and> dr_platform ?s \<le> 1" by (simp add: drain_hook_def drain_start_def)
  have c: "dr_calls ?t = [Added, Idle]"
    by (simp add: CALL_INTERCEPT_FUNC_def drain_hook_def drain_start_def set_call_def add_platform_def numeral_2_eq_2)
  have "counters_exact ?s \<and> (\<forall>pc\<in>set (dr_calls ?t). \<not> near_table pc)"
    using drained_table_stays_unused [OF r] d t by blast
  then show ?thesis using t c by (intro conjI exI [of _ ?t]) simp_all
qed

end
