(* ===== verification/Dmeasure.thy ===== *)
theory Dmeasure
  imports Command_Table
begin

text \<open>
  The measurement actions on kernel memory: tsb/kernel/dmeasure/dmeasure/dmeasure.c. Six named actions
  have an interval, a status and a check function that their module registers; each runs as delayed
  work that measures and arms itself again, and the interfaces \<open>tsb_measure_kernel_memory\<close> and
  \<open>tsb_measure_kernel_memory_all\<close> run the checks on demand.

  A check function is a pointer; \<open>call\<close> runs it on the point that triggered it (\<open>None\<close> for the
  NULL of the periodic run) and on the state \<open>'m\<close> of what is measured. The result \<open>None\<close> of an
  operation is a call through a NULL pointer or an access outside the table.
\<close>

section \<open>State\<close>

definition ACTION_STATUS_ENABLED :: int where "ACTION_STATUS_ENABLED = 1"
definition ACTION_STATUS_DISABLED :: int where "ACTION_STATUS_DISABLED = 0"
definition DEFAULT_DMEASURE_PERIOD :: int where "DEFAULT_DMEASURE_PERIOD = 10000"
definition DMEASURE_MAX_ACTION :: nat where "DMEASURE_MAX_ACTION = 6"
definition DMEASURE_TRIGGER :: int where "DMEASURE_TRIGGER = 2"
definition TSB_MEASURE_FAILE :: int where "TSB_MEASURE_FAILE = 1"
definition TSB_ERROR_DMEASURE_POLICY_NOT_FOUND :: int where "TSB_ERROR_DMEASURE_POLICY_NOT_FOUND = 200"
definition TSB_ERROR_DMEASURE_NAME :: int where "TSB_ERROR_DMEASURE_NAME = 201"

abbreviation (input) DM_ACTION_KSECTION_NAME :: string where "DM_ACTION_KSECTION_NAME \<equiv> ''kernel_section''"
abbreviation (input) DM_ACTION_SYSCALLTABLE_NAME :: string where "DM_ACTION_SYSCALLTABLE_NAME \<equiv> ''syscall_table''"
abbreviation (input) DM_ACTION_IDTTABLE_NAME :: string where "DM_ACTION_IDTTABLE_NAME \<equiv> ''idt_table''"
abbreviation (input) DM_ACTION_MODULELIST_NAME :: string where "DM_ACTION_MODULELIST_NAME \<equiv> ''module_list''"
abbreviation (input) DM_ACTION_FILESYSTEM_NAME :: string where "DM_ACTION_FILESYSTEM_NAME \<equiv> ''filesystem''"
abbreviation (input) DM_ACTION_NETWORK_NAME :: string where "DM_ACTION_NETWORK_NAME \<equiv> ''network''"

text \<open>\<open>act_pending\<close>: the delayed work is queued.\<close>

record dmeasure_action =
  act_name :: "byte list"
  act_inuse :: bool
  act_interval :: int
  act_status :: int
  act_measure_mode :: int
  act_pending :: bool
  act_check :: "fptr option"

record dmeasure_node =
  dn_name :: "byte list"
  dn_check :: "fptr option"

record dmeasure_point =
  pt_name :: "byte list"
  pt_type :: int

definition start_action :: "string \<Rightarrow> dmeasure_action" where
  "start_action n = \<lparr>act_name = bytes_of n, act_inuse = False, act_interval = DEFAULT_DMEASURE_PERIOD,
     act_status = ACTION_STATUS_DISABLED, act_measure_mode = 0, act_pending = False, act_check = None\<rparr>"

definition dm_action :: "dmeasure_action list" where
  "dm_action = map start_action
     [DM_ACTION_KSECTION_NAME, DM_ACTION_SYSCALLTABLE_NAME, DM_ACTION_IDTTABLE_NAME,
      DM_ACTION_MODULELIST_NAME, DM_ACTION_FILESYSTEM_NAME, DM_ACTION_NETWORK_NAME]"

section \<open>Operations\<close>

text \<open>\<open>schedule_delayed_work\<close> queues the work unless it is queued already; \<open>cancel_delayed_work\<close> takes
  it from the queue but neither stops nor waits for a work function that is running.\<close>

definition schedule_delayed_work :: "dmeasure_action \<Rightarrow> bool \<times> dmeasure_action" where
  "schedule_delayed_work a = (\<not> act_pending a, a\<lparr>act_pending := True\<rparr>)"

definition dmeasure_register_action ::
  "nat \<Rightarrow> dmeasure_node \<Rightarrow> dmeasure_action list \<Rightarrow> (int \<times> dmeasure_action list) option" where
  "dmeasure_register_action index node acts =
     (if index \<ge> length acts then None
      else let a = acts ! index in
        if strncmp (act_name a) (dn_name node) (strlen (act_name a)) = 0
        then let (issuc, a') = schedule_delayed_work (a\<lparr>act_check := dn_check node, act_pending := False, act_inuse := True\<rparr>)
             in Some (if issuc then 0 else - EINVAL, acts[index := a'])
        else Some (- EINVAL, acts))"

definition dmeasure_unregister_action ::
  "nat \<Rightarrow> dmeasure_node \<Rightarrow> dmeasure_action list \<Rightarrow> (int \<times> dmeasure_action list) option" where
  "dmeasure_unregister_action index node acts =
     (if index \<ge> length acts then None
      else let a = acts ! index in
        if strncmp (act_name a) (dn_name node) (strlen (act_name a)) = 0
        then Some (0, acts[index := (if act_inuse a then a\<lparr>act_pending := False\<rparr> else a)\<lparr>act_check := None\<rparr>])
        else Some (- EINVAL, acts))"

definition action_enabled :: "dmeasure_action \<Rightarrow> bool" where
  "action_enabled a \<longleftrightarrow> act_status a AND ACTION_STATUS_ENABLED \<noteq> 0"

definition action_period :: "dmeasure_action \<Rightarrow> int" where
  "action_period a = (if act_interval a \<le> 0 then DEFAULT_DMEASURE_PERIOD else act_interval a)"

text \<open>The work function of an action, run once the timer has taken the work from the queue. \<open>on\<close>: dynamic
  measurement is enabled (\<open>dmeasure_feature->is_enabled\<close>). The result has the period until the next run.\<close>

definition dmeasure_actions ::
  "(fptr \<Rightarrow> dmeasure_point option \<Rightarrow> 'm \<Rightarrow> int \<times> 'm) \<Rightarrow> bool \<Rightarrow> nat \<Rightarrow> dmeasure_action list \<Rightarrow> 'm
   \<Rightarrow> (int \<times> dmeasure_action list \<times> 'm) option" where
  "dmeasure_actions call on i acts m =
     (let a = acts ! i;
          arm = (\<lambda>m. (action_period a, acts[i := snd (schedule_delayed_work a)], m))
      in if \<not> on then Some (arm m)
         else if action_enabled a \<and> act_measure_mode a = 0
         then (case act_check a of None \<Rightarrow> None | Some f \<Rightarrow> Some (arm (snd (call f None m))))
         else Some (arm m))"

fun modify_dmeasure_action :: "int \<Rightarrow> int \<Rightarrow> byte list \<Rightarrow> dmeasure_action list \<Rightarrow> dmeasure_action list" where
  "modify_dmeasure_action interval status name [] = []"
| "modify_dmeasure_action interval status name (a # acts) =
     (if strcmp (act_name a) name = 0 then a\<lparr>act_interval := interval, act_status := status\<rparr> # acts
      else a # modify_dmeasure_action interval status name acts)"

text \<open>\<open>mode\<close> is \<open>dmeasure_feature->measure_mode\<close>.\<close>

definition dmeasure_init :: "int \<Rightarrow> dmeasure_action list \<Rightarrow> int \<times> dmeasure_action list" where
  "dmeasure_init mode acts =
     (0, if mode \<noteq> 0 then map (\<lambda>a. a\<lparr>act_measure_mode := mode\<rparr>) (take 3 acts) @ drop 3 acts else acts)"

section \<open>Measuring on demand\<close>

definition trigger_point :: "dmeasure_action \<Rightarrow> dmeasure_point" where
  "trigger_point a = \<lparr>pt_name = act_name a, pt_type = DMEASURE_TRIGGER\<rparr>"

fun measure_named ::
  "(fptr \<Rightarrow> dmeasure_point option \<Rightarrow> 'm \<Rightarrow> int \<times> 'm) \<Rightarrow> byte list \<Rightarrow> int \<Rightarrow> dmeasure_action list \<Rightarrow> 'm \<Rightarrow> int \<times> 'm" where
  "measure_named call name ret [] m = (ret, m)"
| "measure_named call name ret (a # acts) m =
     (if strcmp (act_name a) name \<noteq> 0 then measure_named call name TSB_ERROR_DMEASURE_NAME acts m
      else if \<not> action_enabled a then (TSB_ERROR_DMEASURE_POLICY_NOT_FOUND, m)
      else (case act_check a of None \<Rightarrow> measure_named call name ret acts m
        | Some f \<Rightarrow> let (r, m') = call f (Some (trigger_point a)) m
                   in (if r \<noteq> 0 then TSB_MEASURE_FAILE else r, m')))"

definition tsb_measure_kernel_memory ::
  "(fptr \<Rightarrow> dmeasure_point option \<Rightarrow> 'm \<Rightarrow> int \<times> 'm) \<Rightarrow> byte list \<Rightarrow> dmeasure_action list \<Rightarrow> 'm \<Rightarrow> int \<times> 'm" where
  "tsb_measure_kernel_memory call name acts m = measure_named call name 0 acts m"

definition core_name :: "byte list \<Rightarrow> bool" where
  "core_name name \<longleftrightarrow> \<not> (strcmp name (bytes_of DM_ACTION_KSECTION_NAME) \<noteq> 0
     \<and> strcmp name (bytes_of DM_ACTION_SYSCALLTABLE_NAME) \<noteq> 0
     \<and> strcmp name (bytes_of DM_ACTION_IDTTABLE_NAME) \<noteq> 0)"

fun measure_core ::
  "(fptr \<Rightarrow> dmeasure_point option \<Rightarrow> 'm \<Rightarrow> int \<times> 'm) \<Rightarrow> int \<Rightarrow> int \<Rightarrow> dmeasure_action list \<Rightarrow> 'm \<Rightarrow> int \<times> 'm" where
  "measure_core call ret retval [] m = (ret, m)"
| "measure_core call ret retval (a # acts) m =
     (if \<not> core_name (act_name a) then (ret, m)
      else if \<not> action_enabled a then measure_core call ret retval acts m
      else let (retval', m') = (case act_check a of None \<Rightarrow> (retval, m) | Some f \<Rightarrow> call f (Some (trigger_point a)) m)
           in measure_core call (ret OR retval') retval' acts m')"

definition tsb_measure_kernel_memory_all ::
  "(fptr \<Rightarrow> dmeasure_point option \<Rightarrow> 'm \<Rightarrow> int \<times> 'm) \<Rightarrow> dmeasure_action list \<Rightarrow> 'm \<Rightarrow> int \<times> 'm" where
  "tsb_measure_kernel_memory_all call acts m =
     (let (ret, m') = measure_core call 0 0 acts m in (if ret \<noteq> 0 then TSB_MEASURE_FAILE else 0, m'))"

section \<open>The table\<close>

text \<open>The names of the table never change, so an action can be found by its name.\<close>

definition action_names :: "byte list list" where
  "action_names = map bytes_of
     [DM_ACTION_KSECTION_NAME, DM_ACTION_SYSCALLTABLE_NAME, DM_ACTION_IDTTABLE_NAME,
      DM_ACTION_MODULELIST_NAME, DM_ACTION_FILESYSTEM_NAME, DM_ACTION_NETWORK_NAME]"

definition table_wf :: "dmeasure_action list \<Rightarrow> bool" where
  "table_wf acts \<longleftrightarrow> map act_name acts = action_names"

lemma action_names_facts:
  "length action_names = 6" "distinct action_names" "\<forall>n\<in>set action_names. cstr n = n"
  by (simp_all add: action_names_def bytes_of_def cstr_def)

lemma table_wf_start: "table_wf dm_action"
  by (simp add: table_wf_def dm_action_def start_action_def action_names_def)

lemma table_wf_length: "table_wf acts \<Longrightarrow> length acts = 6"
  using action_names_facts(1) map_eq_imp_length_eq [of act_name acts "\<lambda>x. x" action_names] by (simp add: table_wf_def)

lemma table_wf_names:
  assumes "table_wf acts"
  shows "distinct (map act_name acts)" "\<forall>a\<in>set acts. cstr (act_name a) = act_name a"
proof -
  show "distinct (map act_name acts)" using assms action_names_facts(2) by (simp add: table_wf_def)
  have "act_name ` set acts = set action_names" using assms unfolding table_wf_def by (metis list.set_map)
  then show "\<forall>a\<in>set acts. cstr (act_name a) = act_name a" using action_names_facts(3) by blast
qed

lemma table_wf_update:
  assumes "table_wf acts" "act_name a' = act_name (acts ! i)"
  shows "table_wf (acts[i := a'])"
proof (cases "i < length acts")
  case True
  then have "map act_name (acts[i := a']) = map act_name acts"
    using assms(2) by (simp add: map_update list_update_same_conv)
  then show ?thesis using assms(1) by (simp add: table_wf_def)
qed (use assms in \<open>simp add: list_update_beyond\<close>)

lemma modify_names: "map act_name (modify_dmeasure_action i st n acts) = map act_name acts"
  by (induction acts) auto

lemma modify_keeps_checks: "map act_check (modify_dmeasure_action i st n acts) = map act_check acts"
  by (induction acts) auto

lemma modify_map:
  assumes "distinct (map act_name acts)" "\<forall>a\<in>set acts. cstr (act_name a) = act_name a"
  shows "modify_dmeasure_action i st n acts =
    map (\<lambda>a. if act_name a = cstr n then a\<lparr>act_interval := i, act_status := st\<rparr> else a) acts"
  using assms
proof (induction acts)
  case (Cons a acts)
  then have IH: "modify_dmeasure_action i st n acts =
      map (\<lambda>a. if act_name a = cstr n then a\<lparr>act_interval := i, act_status := st\<rparr> else a) acts" by simp
  show ?case
  proof (cases "act_name a = cstr n")
    case True
    then have "\<forall>b\<in>set acts. act_name b \<noteq> cstr n" using Cons.prems(1) by (metis distinct.simps(2) image_eqI list.set_map list.simps(9))
    then have "map (\<lambda>a. if act_name a = cstr n then a\<lparr>act_interval := i, act_status := st\<rparr> else a) acts = acts"
      by (simp add: map_idI)
    with True show ?thesis using Cons.prems(2) by (simp add: strcmp_eq_0_iff)
  qed (use IH Cons.prems(2) in \<open>simp add: strcmp_eq_0_iff\<close>)
qed simp

section \<open>Measuring on demand reports every failure\<close>

text \<open>Which checks a measurement of all kernel memory runs, in their order, and what they answer.\<close>

fun run_checks ::
  "(fptr \<Rightarrow> dmeasure_point option \<Rightarrow> 'm \<Rightarrow> int \<times> 'm) \<Rightarrow> (fptr \<times> dmeasure_point) list \<Rightarrow> 'm \<Rightarrow> int list \<times> 'm" where
  "run_checks call [] m = ([], m)"
| "run_checks call ((f, p) # fs) m =
     (let (r, m1) = call f (Some p) m; (rs, m2) = run_checks call fs m1 in (r # rs, m2))"

definition due_checks :: "dmeasure_action list \<Rightarrow> (fptr \<times> dmeasure_point) list" where
  "due_checks acts = concat (map (\<lambda>a. case act_check a of Some f \<Rightarrow> if action_enabled a then [(f, trigger_point a)] else []
     | None \<Rightarrow> []) acts)"

lemma or_eq_0_iff_int: "(a :: int) OR b = 0 \<longleftrightarrow> a = 0 \<and> b = 0"
  by (auto simp: bit_eq_iff bit_simps)

lemma measure_core_eq:
  assumes "takeWhile (\<lambda>a. core_name (act_name a)) acts = cs" "retval \<noteq> 0 \<longrightarrow> ret \<noteq> 0"
  shows "snd (measure_core call ret retval acts m) = snd (run_checks call (due_checks cs) m)
    \<and> (fst (measure_core call ret retval acts m) = 0 \<longleftrightarrow> ret = 0 \<and> list_all (\<lambda>r. r = 0) (fst (run_checks call (due_checks cs) m)))"
  using assms
proof (induction call ret retval acts m arbitrary: cs rule: measure_core.induct)
  case (1 call ret retval m)
  then show ?case by (auto simp: due_checks_def)
next
  case (2 call ret retval a acts m)
  show ?case
  proof (cases "core_name (act_name a)")
    case False
    with 2 show ?thesis by (auto simp: due_checks_def)
  next
    case core: True
    then obtain ds where cs: "cs = a # ds" "takeWhile (\<lambda>a. core_name (act_name a)) acts = ds" using 2(3) by auto
    show ?thesis
    proof (cases "action_enabled a")
      case False
      then have "due_checks cs = due_checks ds" by (simp add: due_checks_def cs(1) split: option.split)
      with False core 2(1) [OF _ _ cs(2) 2(4)] show ?thesis by simp
    next
      case en: True
      show ?thesis
      proof (cases "act_check a")
        case None
        then have "due_checks cs = due_checks ds" by (simp add: due_checks_def cs(1))
        moreover have "(ret OR retval = 0) = (ret = 0)" using 2(4) by (auto simp: or_eq_0_iff_int)
        moreover have "retval \<noteq> 0 \<longrightarrow> ret OR retval \<noteq> 0" by (simp add: or_eq_0_iff_int)
        ultimately show ?thesis
          using None core en 2(2) [OF _ _ _ _ cs(2), of "(retval, m)" retval m] by simp
      next
        case (Some f)
        obtain r m' where call: "call f (Some (trigger_point a)) m = (r, m')" by fastforce
        have "due_checks cs = (f, trigger_point a) # due_checks ds" using Some en by (simp add: due_checks_def cs(1))
        moreover have "r \<noteq> 0 \<longrightarrow> ret OR r \<noteq> 0" by (simp add: or_eq_0_iff_int)
        moreover note 2(2) [OF _ _ _ _ cs(2), of "(r, m')" r m']
        ultimately show ?thesis
          using Some core en call by (auto simp: or_eq_0_iff_int split: prod.split)
      qed
    qed
  qed
qed

lemma core_names: "takeWhile core_name action_names = take 3 action_names"
  by (simp add: action_names_def core_name_def strcmp_eq_0_iff bytes_of_def cstr_def)

lemma core_actions:
  assumes "table_wf acts"
  shows "takeWhile (\<lambda>a. core_name (act_name a)) acts = take 3 acts"
proof -
  have "length (takeWhile core_name (map act_name acts)) = length (take 3 action_names)"
    using assms core_names by (simp add: table_wf_def)
  then have "length (takeWhile (\<lambda>a. core_name (act_name a)) acts) = 3"
    using action_names_facts(1) by (simp add: takeWhile_map o_def)
  then show ?thesis by (metis takeWhile_eq_take)
qed

text \<open>A measurement of all kernel memory runs the registered checks of the enabled actions among the code
  section, the system call table and the interrupt table, each exactly once and in this order, and answers
  zero exactly if every one of them answered zero, otherwise with the failure code. The three other actions
  are not run, and a check that is not registered neither fails nor hides a failure.
\<close>

theorem measure_all_exact:
  assumes "table_wf acts"
  shows "snd (tsb_measure_kernel_memory_all call acts m) = snd (run_checks call (due_checks (take 3 acts)) m) \<and>
     fst (tsb_measure_kernel_memory_all call acts m) =
       (if list_all (\<lambda>r. r = 0) (fst (run_checks call (due_checks (take 3 acts)) m)) then 0 else TSB_MEASURE_FAILE)"
  using measure_core_eq [OF core_actions [OF assms], of 0 0 call m]
  by (auto simp: tsb_measure_kernel_memory_all_def TSB_MEASURE_FAILE_def split: prod.split)

lemma measure_all_exact_witness:
  "tsb_measure_kernel_memory_all (\<lambda>f p m. (if f = ''idt'' then 5 else 0, m @ [f]))
     (map (\<lambda>(a, f). a\<lparr>act_status := 1, act_check := f\<rparr>)
       (zip dm_action [Some ''ksection'', None, Some ''idt'', Some ''modules'', None, Some ''net''])) [] = (1, [''ksection'', ''idt''])"
proof -
  let ?acts = "map (\<lambda>(a, f). a\<lparr>act_status := 1, act_check := f\<rparr>)
       (zip dm_action [Some ''ksection'', None, Some ''idt'', Some ''modules'', None, Some ''net''])"
  let ?call = "\<lambda>f (p :: dmeasure_point option) m. (if f = ''idt'' then 5 :: int else 0, m @ [f])"
  have "table_wf ?acts" by (simp add: table_wf_def dm_action_def start_action_def action_names_def)
  moreover have "run_checks ?call (due_checks (take 3 ?acts)) [] = ([0, 5], [''ksection'', ''idt''])"
    by (simp add: dm_action_def due_checks_def action_enabled_def ACTION_STATUS_ENABLED_def)
  ultimately show ?thesis
    using measure_all_exact [of ?acts ?call "[]"] by (simp add: prod_eq_iff TSB_MEASURE_FAILE_def)
qed

text \<open>A measurement of one named area: unknown names, areas without a policy and areas without a check
  have their own answers, and otherwise the check decides.\<close>

lemma measure_named_unknown:
  assumes "\<forall>a\<in>set acts. cstr (act_name a) \<noteq> cstr name"
  shows "measure_named call name ret acts m = (if acts = [] then ret else TSB_ERROR_DMEASURE_NAME, m)"
  using assms by (induction acts arbitrary: ret) (auto simp: strcmp_eq_0_iff)

lemma measure_kernel_memory_found:
  assumes "distinct (map act_name acts)" "\<forall>a\<in>set acts. cstr (act_name a) = act_name a"
    and "a \<in> set acts" "act_name a = cstr name"
  shows "\<not> action_enabled a \<Longrightarrow> measure_named call name ret acts m = (TSB_ERROR_DMEASURE_POLICY_NOT_FOUND, m)"
    "action_enabled a \<Longrightarrow> act_check a = Some f \<Longrightarrow>
       measure_named call name ret acts m =
         (let (r, m') = call f (Some (trigger_point a)) m in (if r \<noteq> 0 then TSB_MEASURE_FAILE else 0, m'))"
  using assms
proof (induction acts arbitrary: ret)
  case (Cons b acts)
  {
    case 1
    show ?case
    proof (cases "b = a")
      case False
      then have "act_name b \<noteq> cstr name" using 1 by (metis distinct.simps(2) image_eqI list.set_map list.simps(9) set_ConsD)
      with 1 False Cons(1) show ?thesis by (simp add: strcmp_eq_0_iff)
    qed (use 1 in \<open>simp add: strcmp_eq_0_iff\<close>)
  next
    case 2
    show ?case
    proof (cases "b = a")
      case False
      then have "act_name b \<noteq> cstr name" using 2 by (metis distinct.simps(2) image_eqI list.set_map list.simps(9) set_ConsD)
      with 2 False Cons(2) show ?thesis by (simp add: strcmp_eq_0_iff)
    qed (use 2 in \<open>simp add: strcmp_eq_0_iff split: prod.split\<close>)
  }
qed simp_all

section \<open>The delayed work\<close>

text \<open>
  The modules and the timer. A registration and a change of the policy hold the mutex, the work function
  does not. \<open>running\<close> are the actions whose work function has been started by the timer and has not
  reached its call yet.
\<close>

record dm_world =
  dw_actions :: "dmeasure_action list"
  dw_running :: "nat set"
  dw_on :: bool
  dw_oops :: bool

datatype dm_event = Register nat | Unregister nat | Modify | Switch | Timer nat | Work nat

inductive dm_step :: "dm_event \<Rightarrow> dm_world \<Rightarrow> dm_world \<Rightarrow> bool" where
  dm_register: "dmeasure_register_action i node (dw_actions w) = Some (r, acts) \<Longrightarrow> dn_check node \<noteq> None \<Longrightarrow>
    dm_step (Register i) w (w\<lparr>dw_actions := acts\<rparr>)"
| dm_unregister: "dmeasure_unregister_action i node (dw_actions w) = Some (r, acts) \<Longrightarrow>
    dm_step (Unregister i) w (w\<lparr>dw_actions := acts\<rparr>)"
| dm_modify: "dm_step Modify w (w\<lparr>dw_actions := modify_dmeasure_action interval status name (dw_actions w)\<rparr>)"
| dm_switch: "dm_step Switch w (w\<lparr>dw_on := b\<rparr>)"
| dm_timer: "i < length (dw_actions w) \<Longrightarrow> act_pending (dw_actions w ! i) \<Longrightarrow>
    dm_step (Timer i) w (w\<lparr>dw_actions := (dw_actions w)[i := (dw_actions w ! i)\<lparr>act_pending := False\<rparr>], dw_running := insert i (dw_running w)\<rparr>)"
| dm_work: "i \<in> dw_running w \<Longrightarrow> dmeasure_actions call (dw_on w) i (dw_actions w) (m :: unit) = Some (period, acts, m') \<Longrightarrow>
    dm_step (Work i) w (w\<lparr>dw_actions := acts, dw_running := dw_running w - {i}\<rparr>)"
| dm_crash: "i \<in> dw_running w \<Longrightarrow> dmeasure_actions call (dw_on w) i (dw_actions w) (m :: unit) = None \<Longrightarrow>
    dm_step (Work i) w (w\<lparr>dw_oops := True\<rparr>)"

definition dm_start :: "bool \<Rightarrow> dm_world" where
  "dm_start b = \<lparr>dw_actions = dm_action, dw_running = {}, dw_on = b, dw_oops = False\<rparr>"

text \<open>A run in which no action is unregistered between the timer and the call of its check.\<close>

definition quiet_step :: "dm_world \<Rightarrow> dm_world \<Rightarrow> bool" where
  "quiet_step w w' \<longleftrightarrow> (\<exists>e. dm_step e w w' \<and> (\<forall>i. e = Unregister i \<longrightarrow> i \<notin> dw_running w))"

definition checks_present :: "dm_world \<Rightarrow> bool" where
  "checks_present w \<longleftrightarrow> \<not> dw_oops w \<and> (\<forall>i\<in>dw_running w. i < length (dw_actions w)) \<and>
     (\<forall>i < length (dw_actions w). act_pending (dw_actions w ! i) \<or> i \<in> dw_running w \<longrightarrow>
        act_inuse (dw_actions w ! i) \<and> act_check (dw_actions w ! i) \<noteq> None)"

lemma modify_nth:
  assumes "i < length acts"
  shows "act_check (modify_dmeasure_action iv st n acts ! i) = act_check (acts ! i)"
    "act_inuse (modify_dmeasure_action iv st n acts ! i) = act_inuse (acts ! i)"
    "act_pending (modify_dmeasure_action iv st n acts ! i) = act_pending (acts ! i)"
    "length (modify_dmeasure_action iv st n acts) = length acts"
proof -
  show "length (modify_dmeasure_action iv st n acts) = length acts" by (induction acts) auto
  show "act_check (modify_dmeasure_action iv st n acts ! i) = act_check (acts ! i)"
    using assms by (induction acts arbitrary: i) (auto simp: nth_Cons split: nat.split)
  show "act_inuse (modify_dmeasure_action iv st n acts ! i) = act_inuse (acts ! i)"
    using assms by (induction acts arbitrary: i) (auto simp: nth_Cons split: nat.split)
  show "act_pending (modify_dmeasure_action iv st n acts ! i) = act_pending (acts ! i)"
    using assms by (induction acts arbitrary: i) (auto simp: nth_Cons split: nat.split)
qed

lemma modify_length [simp]: "length (modify_dmeasure_action iv st n acts) = length acts"
  by (induction acts) auto

lemma quiet_step_checks:
  assumes "quiet_step w w'" "checks_present w"
  shows "checks_present w'"
proof -
  obtain e where e: "dm_step e w w'" "\<forall>i. e = Unregister i \<longrightarrow> i \<notin> dw_running w"
    using assms(1) by (auto simp: quiet_step_def)
  from e(1) show ?thesis
  proof cases
    case (dm_register i node r acts)
    then have "acts = dw_actions w \<or> i < length (dw_actions w) \<and> (\<exists>a. acts = (dw_actions w)[i := a] \<and> act_inuse a \<and> act_check a \<noteq> None)"
      by (auto simp: dmeasure_register_action_def schedule_delayed_work_def Let_def split: if_splits)
    with dm_register(2) assms(2) show ?thesis by (auto simp: checks_present_def nth_list_update)
  next
    case (dm_unregister i node r acts)
    then have "i \<notin> dw_running w" using e(2) by simp
    moreover have "acts = dw_actions w \<or> i < length (dw_actions w) \<and> (\<exists>a. acts = (dw_actions w)[i := a] \<and> (act_inuse (dw_actions w ! i) \<longrightarrow> \<not> act_pending a) \<and> act_pending a \<le> act_pending (dw_actions w ! i))"
      using dm_unregister(3) by (auto simp: dmeasure_unregister_action_def Let_def split: if_splits)
    ultimately show ?thesis using dm_unregister(2) assms(2) by (auto simp: checks_present_def nth_list_update)
  next
    case (dm_modify interval status name)
    with assms(2) show ?thesis by (auto simp: checks_present_def modify_nth)
  next
    case (dm_switch b)
    with assms(2) show ?thesis by (simp add: checks_present_def)
  next
    case (dm_timer i)
    with assms(2) show ?thesis by (auto simp: checks_present_def nth_list_update)
  next
    case (dm_work i call m period acts m')
    then have "acts = (dw_actions w)[i := (dw_actions w ! i)\<lparr>act_pending := True\<rparr>]"
      by (auto simp: dmeasure_actions_def schedule_delayed_work_def Let_def split: if_splits option.splits)
    with dm_work assms(2) show ?thesis by (auto simp: checks_present_def nth_list_update)
  next
    case (dm_crash i call m)
    then have "act_check (dw_actions w ! i) = None"
      by (auto simp: dmeasure_actions_def Let_def split: if_splits option.splits)
    with dm_crash(3) assms(2) show ?thesis by (auto simp: checks_present_def)
  qed
qed

lemma quiet_checks:
  assumes "quiet_step\<^sup>*\<^sup>* (dm_start b) w"
  shows "checks_present w"
  using assms
proof (induction rule: rtranclp_induct)
  case base
  show ?case by (auto simp: checks_present_def dm_start_def dm_action_def start_action_def nth_Cons split: nat.splits)
qed (rule quiet_step_checks)


definition idt_node :: dmeasure_node where
  "idt_node = \<lparr>dn_name = bytes_of DM_ACTION_IDTTABLE_NAME, dn_check = Some ''idt_check''\<rparr>"

definition idt_registered :: dmeasure_action where
  "idt_registered = (start_action DM_ACTION_IDTTABLE_NAME)\<lparr>act_check := Some ''idt_check'', act_inuse := True, act_pending := True\<rparr>"

lemma idt_action: "length dm_action = 6" "dm_action ! 2 = start_action DM_ACTION_IDTTABLE_NAME"
  "strncmp (act_name (start_action DM_ACTION_IDTTABLE_NAME)) (dn_name idt_node) n = 0"
  by (simp_all add: dm_action_def strncmp_eq_0_iff) (simp add: start_action_def idt_node_def)

lemma idt_register_step: "dm_step (Register 2) (dm_start True) ((dm_start True)\<lparr>dw_actions := dm_action[2 := idt_registered]\<rparr>)"
proof -
  have "dmeasure_register_action 2 idt_node (dw_actions (dm_start True)) = Some (0, dm_action[2 := idt_registered])"
    using idt_action(3) by (simp add: dmeasure_register_action_def dm_start_def idt_action(1,2) schedule_delayed_work_def Let_def idt_registered_def)
      (simp add: idt_node_def)
  then show ?thesis by (rule dm_register) (simp add: idt_node_def)
qed


text \<open>
  The unregistration does not wait for a work function that has started (\<open>cancel_delayed_work\<close>), so
  unloading a measuring module at that moment ends in a call through the NULL pointer it has left.
\<close>

lemma unregister_race:
  shows "\<exists>w1 w2 w3 w4 w5. dm_step (Register 2) (dm_start True) w1 \<and> dm_step Modify w1 w2 \<and> dm_step (Timer 2) w2 w3
    \<and> dm_step (Unregister 2) w3 w4 \<and> dm_step (Work 2) w4 w5 \<and> dw_oops w5"
proof -
  define a where "a = idt_registered"
  define w1 where "w1 = (dm_start True)\<lparr>dw_actions := dm_action[2 := a]\<rparr>"
  define a2 where "a2 = a\<lparr>act_interval := 500, act_status := 1\<rparr>"
  define w2 where "w2 = w1\<lparr>dw_actions := dm_action[2 := a2]\<rparr>"
  define w3 where "w3 = w2\<lparr>dw_actions := dm_action[2 := a2\<lparr>act_pending := False\<rparr>], dw_running := {2}\<rparr>"
  define w4 where "w4 = w3\<lparr>dw_actions := dm_action[2 := a2\<lparr>act_pending := False, act_check := None\<rparr>]\<rparr>"
  note len = idt_action(1)
  have upd: "dm_action[2 := x] = [start_action DM_ACTION_KSECTION_NAME, start_action DM_ACTION_SYSCALLTABLE_NAME, x,
      start_action DM_ACTION_MODULELIST_NAME, start_action DM_ACTION_FILESYSTEM_NAME, start_action DM_ACTION_NETWORK_NAME]" for x
    by (simp add: dm_action_def numeral_2_eq_2)
  have s1: "dm_step (Register 2) (dm_start True) w1" unfolding w1_def a_def by (rule idt_register_step)
  have "modify_dmeasure_action 500 1 (bytes_of DM_ACTION_IDTTABLE_NAME) (dw_actions w1) = dm_action[2 := a2]"
    by (simp add: w1_def upd a2_def a_def idt_registered_def start_action_def strcmp_eq_0_iff bytes_of_def cstr_def)
  then have s2: "dm_step Modify w1 w2" unfolding w2_def using dm_modify by metis
  have s3: "dm_step (Timer 2) w2 w3"
    using dm_timer [of 2 w2] by (simp add: w2_def w3_def w1_def dm_start_def len a2_def a_def idt_registered_def)
  have "dmeasure_unregister_action 2 idt_node (dw_actions w3) = Some (0, dm_action[2 := a2\<lparr>act_pending := False, act_check := None\<rparr>])"
    using idt_action(3) by (simp add: dmeasure_unregister_action_def w3_def len a2_def a_def idt_registered_def Let_def)
  then have s4: "dm_step (Unregister 2) w3 w4" unfolding w4_def by (rule dm_unregister)
  have "dmeasure_actions (\<lambda>f p m. (0, m)) (dw_on w4) 2 (dw_actions w4) () = None"
    by (simp add: dmeasure_actions_def w4_def w3_def w2_def w1_def dm_start_def len a2_def a_def idt_registered_def Let_def action_enabled_def
      ACTION_STATUS_ENABLED_def start_action_def)
  moreover have "2 \<in> dw_running w4" by (simp add: w4_def w3_def)
  ultimately have "dm_step (Work 2) w4 (w4\<lparr>dw_oops := True\<rparr>)" by (rule dm_crash [rotated])
  with s1 s2 s3 s4 show ?thesis by (intro exI [of _ w1] exI [of _ w2] exI [of _ w3] exI [of _ w4] exI [of _ "w4\<lparr>dw_oops := True\<rparr>"]) simp
qed

end
