(* ===== verification/Dmeasure_Policy.thy ===== *)
theory Dmeasure_Policy
  imports Dmeasure Feature_Conf Whitelist
begin

text \<open>
  The policies of dynamic measurement: tsb/kernel/dmeasure/policy/policy_dmeasure.c. Six switch policies
  set the interval and the status of the measurement actions, and a list of process policies says which
  processes are measured. Both come from the trusted module or from ioctls, and dynamic measurement as a
  whole is switched by the global control policy.

  A result \<open>None\<close> is a run that reads or writes outside a buffer or goes through a NULL pointer.
  Unlinked process policies that are not freed are kept in \<open>dp_unlinked\<close>: the measurement of processes
  (dmeasure/task) still refers to those whose \<open>obj_count\<close> is not zero. Each call of
  \<open>collect_existed_task_info\<close> is counted in \<open>dp_collects\<close>.
\<close>

section \<open>State\<close>

record dm_switch_policy =
  sp_interval :: int
  sp_status :: int

text \<open>The six structures \<open>policy_ksection\<close>, \<open>policy_idt\<close>, \<open>policy_syscall\<close>, \<open>policy_modules\<close>,
  \<open>policy_filesystem\<close> and \<open>policy_net\<close> have the same fields.\<close>

record switch_state =
  original_interval :: int
  original_status :: int
  sw_policy :: dm_switch_policy

definition PROCESS_DMEASURE_OBJECT_ID_FULL_PATH :: nat where "PROCESS_DMEASURE_OBJECT_ID_FULL_PATH = 0"
definition PROCESS_DMEASURE_OBJECT_ID_PROCESS :: nat where "PROCESS_DMEASURE_OBJECT_ID_PROCESS = 1"
definition PROCESS_DMEASURE_OBJECT_ID_HASH :: nat where "PROCESS_DMEASURE_OBJECT_ID_HASH = 2"
definition PROCESS_DMEASURE_MODE_MEASURE :: int where "PROCESS_DMEASURE_MODE_MEASURE = 1"
definition TSB_ERROR_SYSTEM :: int where "TSB_ERROR_SYSTEM = 3"

text \<open>\<open>object_id\<close> holds the \<open>be_object_id_length\<close> bytes of the identity; the allocation adds a zero byte.\<close>

record process_policy =
  obj_count :: nat
  process_switch :: int
  object_id_type :: nat
  sub_process_mode :: int
  old_process_mode :: int
  share_lib_mode :: int
  be_measure_interval :: int
  object_id :: "byte list"

record policy_process =
  pr_original_interval :: int
  pr_original_status :: int
  pr_interval :: int
  pr_status :: int
  pr_head :: "process_policy list"

record dmeasure_feature_conf =
  df_is_enabled :: u32
  df_measure_mode :: u32
  df_time_interval :: u32
  df_is_lib_measure :: u32
  df_is_child_measure :: u32
  df_is_exsited_process_measure :: u32

record dm_policy_state =
  ksection_p :: "switch_state option"
  idt_p :: "switch_state option"
  syscall_p :: "switch_state option"
  modules_po :: "switch_state option"
  filesystem_po :: "switch_state option"
  net_po :: "switch_state option"
  p_process :: "policy_process option"
  dmeasure_feature :: dmeasure_feature_conf
  dp_actions :: "dmeasure_action list"
  dp_unlinked :: "process_policy list"
  dp_collects :: nat
  dp_env_callback :: "fptr option"
  dp_commands :: cmd_table

text \<open>The static variables before loading.\<close>

definition dm_policy_start :: "cmd_table \<Rightarrow> dm_policy_state" where
  "dm_policy_start cmds =
     \<lparr>ksection_p = None, idt_p = None, syscall_p = None, modules_po = None, filesystem_po = None, net_po = None, p_process = None,
      dmeasure_feature = \<lparr>df_is_enabled = 0, df_measure_mode = 0, df_time_interval = 0, df_is_lib_measure = 0,
        df_is_child_measure = 0, df_is_exsited_process_measure = 0\<rparr>,
      dp_actions = dm_action, dp_unlinked = [], dp_collects = 0, dp_env_callback = None, dp_commands = cmds\<rparr>"

section \<open>Switch policies\<close>

definition zero_switch :: switch_state where
  "zero_switch = \<lparr>original_interval = 0, original_status = ACTION_STATUS_DISABLED,
     sw_policy = \<lparr>sp_interval = 0, sp_status = ACTION_STATUS_DISABLED\<rparr>\<rparr>"

text \<open>What the six functions \<open>*_policy_add\<close> do under their lock and after it.\<close>

definition switch_policy_add ::
  "string \<Rightarrow> dm_switch_policy \<Rightarrow> switch_state \<Rightarrow> dmeasure_action list \<Rightarrow> switch_state \<times> dmeasure_action list" where
  "switch_policy_add name policy p acts =
     (let interval = sp_interval policy; status = sp_status policy
      in (p\<lparr>sw_policy := policy, original_interval := interval, original_status := status\<rparr>,
          if original_interval p \<noteq> interval \<or> original_status p \<noteq> status
          then modify_dmeasure_action interval status (bytes_of name) acts else acts))"

definition ksection_policy_add :: "dm_switch_policy \<Rightarrow> dm_policy_state \<Rightarrow> int \<times> dm_policy_state" where
  "ksection_policy_add policy s = (case ksection_p s of None \<Rightarrow> (- EINVAL, s)
     | Some p \<Rightarrow> let (p', acts) = switch_policy_add DM_ACTION_KSECTION_NAME policy p (dp_actions s)
                in (0, s\<lparr>ksection_p := Some p', dp_actions := acts\<rparr>))"

definition idt_policy_add :: "dm_switch_policy \<Rightarrow> dm_policy_state \<Rightarrow> int \<times> dm_policy_state" where
  "idt_policy_add policy s = (case idt_p s of None \<Rightarrow> (- EINVAL, s)
     | Some p \<Rightarrow> let (p', acts) = switch_policy_add DM_ACTION_IDTTABLE_NAME policy p (dp_actions s)
                in (0, s\<lparr>idt_p := Some p', dp_actions := acts\<rparr>))"

definition syscall_policy_add :: "dm_switch_policy \<Rightarrow> dm_policy_state \<Rightarrow> int \<times> dm_policy_state" where
  "syscall_policy_add policy s = (case syscall_p s of None \<Rightarrow> (- EINVAL, s)
     | Some p \<Rightarrow> let (p', acts) = switch_policy_add DM_ACTION_SYSCALLTABLE_NAME policy p (dp_actions s)
                in (0, s\<lparr>syscall_p := Some p', dp_actions := acts\<rparr>))"

definition modules_policy_add :: "dm_switch_policy \<Rightarrow> dm_policy_state \<Rightarrow> int \<times> dm_policy_state" where
  "modules_policy_add policy s = (case modules_po s of None \<Rightarrow> (- EINVAL, s)
     | Some p \<Rightarrow> let (p', acts) = switch_policy_add DM_ACTION_MODULELIST_NAME policy p (dp_actions s)
                in (0, s\<lparr>modules_po := Some p', dp_actions := acts\<rparr>))"

definition filesystem_policy_add :: "dm_switch_policy \<Rightarrow> dm_policy_state \<Rightarrow> int \<times> dm_policy_state" where
  "filesystem_policy_add policy s = (case filesystem_po s of None \<Rightarrow> (- EINVAL, s)
     | Some p \<Rightarrow> let (p', acts) = switch_policy_add DM_ACTION_FILESYSTEM_NAME policy p (dp_actions s)
                in (0, s\<lparr>filesystem_po := Some p', dp_actions := acts\<rparr>))"

definition net_policy_add :: "dm_switch_policy \<Rightarrow> dm_policy_state \<Rightarrow> int \<times> dm_policy_state" where
  "net_policy_add policy s = (case net_po s of None \<Rightarrow> (- EINVAL, s)
     | Some p \<Rightarrow> let (p', acts) = switch_policy_add DM_ACTION_NETWORK_NAME policy p (dp_actions s)
                in (0, s\<lparr>net_po := Some p', dp_actions := acts\<rparr>))"

text \<open>\<open>kz\<close>: kzalloc succeeds.\<close>

definition ksection_policy_init :: "bool \<Rightarrow> dm_policy_state \<Rightarrow> int \<times> dm_policy_state" where
  "ksection_policy_init kz s = (if \<not> kz then (- ENOMEM, s\<lparr>ksection_p := None\<rparr>) else (0, s\<lparr>ksection_p := Some zero_switch\<rparr>))"

definition idt_policy_init :: "bool \<Rightarrow> dm_policy_state \<Rightarrow> int \<times> dm_policy_state" where
  "idt_policy_init kz s = (if \<not> kz then (- ENOMEM, s\<lparr>idt_p := None\<rparr>) else (0, s\<lparr>idt_p := Some zero_switch\<rparr>))"

definition syscall_policy_init :: "bool \<Rightarrow> dm_policy_state \<Rightarrow> int \<times> dm_policy_state" where
  "syscall_policy_init kz s = (if \<not> kz then (- ENOMEM, s\<lparr>syscall_p := None\<rparr>) else (0, s\<lparr>syscall_p := Some zero_switch\<rparr>))"

definition modules_policy_init :: "bool \<Rightarrow> dm_policy_state \<Rightarrow> int \<times> dm_policy_state" where
  "modules_policy_init kz s = (if \<not> kz then (- ENOMEM, s\<lparr>modules_po := None\<rparr>) else (0, s\<lparr>modules_po := Some zero_switch\<rparr>))"

definition filesystem_policy_init :: "bool \<Rightarrow> dm_policy_state \<Rightarrow> int \<times> dm_policy_state" where
  "filesystem_policy_init kz s = (if \<not> kz then (- ENOMEM, s\<lparr>filesystem_po := None\<rparr>) else (0, s\<lparr>filesystem_po := Some zero_switch\<rparr>))"

definition net_policy_init :: "bool \<Rightarrow> dm_policy_state \<Rightarrow> int \<times> dm_policy_state" where
  "net_policy_init kz s = (if \<not> kz then (- ENOMEM, s\<lparr>net_po := None\<rparr>) else (0, s\<lparr>net_po := Some zero_switch\<rparr>))"

definition ksection_policy_exit :: "dm_policy_state \<Rightarrow> dm_policy_state" where "ksection_policy_exit s = s\<lparr>ksection_p := None\<rparr>"
definition idt_policy_exit :: "dm_policy_state \<Rightarrow> dm_policy_state" where "idt_policy_exit s = s\<lparr>idt_p := None\<rparr>"
definition syscall_policy_exit :: "dm_policy_state \<Rightarrow> dm_policy_state" where "syscall_policy_exit s = s\<lparr>syscall_p := None\<rparr>"
definition modules_policy_exit :: "dm_policy_state \<Rightarrow> dm_policy_state" where "modules_policy_exit s = s\<lparr>modules_po := None\<rparr>"
definition filesystem_policy_exit :: "dm_policy_state \<Rightarrow> dm_policy_state" where "filesystem_policy_exit s = s\<lparr>filesystem_po := None\<rparr>"
definition net_policy_exit :: "dm_policy_state \<Rightarrow> dm_policy_state" where "net_policy_exit s = s\<lparr>net_po := None\<rparr>"

section \<open>Policy items for the switches\<close>

text \<open>A \<open>dmeasure_policy_item\<close> is a type, an interval and a name of 32 bytes. The names compared are
  shorter, so \<open>strcmp\<close> does not run past the field.\<close>

definition DMEASURE_POLICY_ITEM_SIZE :: nat where "DMEASURE_POLICY_ITEM_SIZE = 40"

definition item_switch :: "byte list \<Rightarrow> dm_switch_policy" where
  "item_switch p = \<lparr>sp_interval = sint (be32 (drop 4 p)), sp_status = 1\<rparr>"

definition item_object :: "byte list \<Rightarrow> byte list" where
  "item_object p = take 32 (drop 8 p)"

definition apply_item :: "byte list \<Rightarrow> dm_switch_policy \<Rightarrow> dm_policy_state \<Rightarrow> dm_policy_state" where
  "apply_item object dm_policy s =
     (if strcmp object (bytes_of ''syscall_table'') = 0 then snd (syscall_policy_add dm_policy s)
      else if strcmp object (bytes_of ''kernel_section'') = 0 then snd (ksection_policy_add dm_policy s)
      else if strcmp object (bytes_of ''idt_table'') = 0 then snd (idt_policy_add dm_policy s)
      else if strcmp object (bytes_of ''module_list'') = 0 then snd (modules_policy_add dm_policy s)
      else if strcmp object (bytes_of ''filesystem'') = 0 then snd (filesystem_policy_add dm_policy s)
      else if strcmp object (bytes_of ''network'') = 0 then snd (net_policy_add dm_policy s)
      else s)"

fun apply_items :: "nat \<Rightarrow> byte list \<Rightarrow> dm_policy_state \<Rightarrow> dm_policy_state option" where
  "apply_items 0 p s = Some s"
| "apply_items (Suc n) p s =
     (if length p < DMEASURE_POLICY_ITEM_SIZE then None
      else apply_items n (drop DMEASURE_POLICY_ITEM_SIZE p) (apply_item (item_object p) (item_switch p) s))"

text \<open>\<open>tcs\<close> is the answer of \<open>get_dmeasure_policy\<close>: its result, the items and their number.\<close>

definition policy_tcs_get_dmeasure_policy ::
  "int \<times> byte list \<times> int \<Rightarrow> dm_policy_state \<Rightarrow> (int \<times> dm_policy_state) option" where
  "policy_tcs_get_dmeasure_policy tcs s =
     (case tcs of (ret, p, item_count) \<Rightarrow>
        if ret \<noteq> 0 then Some (-1, s) else map_option (\<lambda>s'. (0, s')) (apply_items (nat item_count) p s))"

definition close_dmeasure :: "dm_policy_state \<Rightarrow> dm_policy_state" where
  "close_dmeasure s =
     (let off = \<lparr>sp_interval = 0, sp_status = ACTION_STATUS_DISABLED\<rparr>;
          s1 = snd (syscall_policy_add off s);
          s2 = snd (ksection_policy_add off s1);
          s3 = snd (idt_policy_add off s2);
          s4 = snd (modules_policy_add off s3);
          s5 = snd (filesystem_policy_add off s4)
      in snd (net_policy_add off s5))"

text \<open>\<open>param\<close> is the argument of the user, \<open>None\<close> if it cannot be copied.\<close>

definition ioctl_dmeasure_update_policy ::
  "bool \<Rightarrow> general_policy option \<Rightarrow> dm_policy_state \<Rightarrow> (int \<times> dm_policy_state) option" where
  "ioctl_dmeasure_update_policy valloc param s = (case param of None \<Rightarrow> Some (-1, s)
     | Some gp \<Rightarrow>
         if gp_length gp = 0 then Some (0, close_dmeasure s)
         else if \<not> valloc \<or> gp_length gp < 0 then Some (-1, s)
         else (case gp_data gp of None \<Rightarrow> Some (-1, s)
           | Some data \<Rightarrow>
               map_option (\<lambda>s'. (0, s'))
                 (apply_items (nat (gp_length gp) div DMEASURE_POLICY_ITEM_SIZE) (take (nat (gp_length gp)) data) (close_dmeasure s))))"

definition ioctl_dmeasure_reload_policy ::
  "int \<times> byte list \<times> int \<Rightarrow> dm_policy_state \<Rightarrow> (int \<times> dm_policy_state) option" where
  "ioctl_dmeasure_reload_policy tcs s =
     map_option (\<lambda>(r, s'). (0, s')) (policy_tcs_get_dmeasure_policy tcs (close_dmeasure s))"

section \<open>Process policies\<close>

definition no_processes :: policy_process where
  "no_processes = \<lparr>pr_original_interval = 0, pr_original_status = ACTION_STATUS_DISABLED, pr_interval = 0,
     pr_status = ACTION_STATUS_DISABLED, pr_head = []\<rparr>"

definition process_policy_init :: "bool \<Rightarrow> dm_policy_state \<Rightarrow> int \<times> dm_policy_state" where
  "process_policy_init kz s =
     (if \<not> kz then (- ENOMEM, s\<lparr>p_process := None\<rparr>)
      else (0, s\<lparr>p_process := Some no_processes\<rparr>))"

definition process_policy_exit :: "dm_policy_state \<Rightarrow> dm_policy_state" where
  "process_policy_exit s = s\<lparr>p_process := None\<rparr>"

definition policy_is_empty :: "dm_policy_state \<Rightarrow> int option" where
  "policy_is_empty s = map_option (\<lambda>p. if pr_head p = [] then 0 else -1) (p_process s)"

text \<open>A process is known by its full path, its name and the digest of its program.\<close>

definition policy_matches :: "byte list \<Rightarrow> byte list \<Rightarrow> byte list \<Rightarrow> process_policy \<Rightarrow> bool" where
  "policy_matches full_path process_name hash p \<longleftrightarrow>
     (if object_id_type p = PROCESS_DMEASURE_OBJECT_ID_FULL_PATH then strcmp full_path (object_id p) = 0
      else if object_id_type p = PROCESS_DMEASURE_OBJECT_ID_PROCESS then strcmp process_name (object_id p) = 0
      else if object_id_type p = PROCESS_DMEASURE_OBJECT_ID_HASH then length (object_id p) = length hash \<and> hash = object_id p
      else False)"

definition query_policy_dmeasure_process ::
  "byte list \<Rightarrow> byte list \<Rightarrow> byte list \<Rightarrow> dm_policy_state \<Rightarrow> process_policy option option" where
  "query_policy_dmeasure_process full_path process_name hash s =
     map_option (\<lambda>p. find (policy_matches full_path process_name hash) (pr_head p)) (p_process s)"

text \<open>
  The insertion of a full path walks to the first full path, and inserts behind it, or to the first
  process name. The cursor it stops at is the entry \<open>list_add\<close> and \<open>list_add_tail\<close> then use; after a walk
  to the end it is the last entry. \<open>seen\<close>: a digest was passed.
\<close>

fun add_path_policy :: "process_policy \<Rightarrow> bool \<Rightarrow> process_policy list \<Rightarrow> process_policy list" where
  "add_path_policy x seen [] = [x]"
| "add_path_policy x seen (p # ps) =
     (let seen' = (seen \<or> object_id_type p = PROCESS_DMEASURE_OBJECT_ID_HASH)
      in if object_id_type p = PROCESS_DMEASURE_OBJECT_ID_FULL_PATH then p # x # ps
         else if object_id_type p = PROCESS_DMEASURE_OBJECT_ID_PROCESS
         then (if seen' then p # x # ps else x # p # ps)
         else p # add_path_policy x seen' ps)"

definition add_process_policy :: "process_policy \<Rightarrow> process_policy list \<Rightarrow> process_policy list" where
  "add_process_policy x ps =
     (if object_id_type x = PROCESS_DMEASURE_OBJECT_ID_HASH then x # ps
      else if object_id_type x = PROCESS_DMEASURE_OBJECT_ID_PROCESS then ps @ [x]
      else add_path_policy x False ps)"

text \<open>A \<open>dmeasure_process_item\<close>: four bytes, an interval and a length in network byte order, the identity,
  padded to a multiple of four bytes.\<close>

definition DMEASURE_PROCESS_ITEM_SIZE :: nat where "DMEASURE_PROCESS_ITEM_SIZE = 10"

definition item_id_length :: "byte list \<Rightarrow> nat" where
  "item_id_length p = be16 (p ! 8) (p ! 9)"

definition item_id :: "byte list \<Rightarrow> byte list" where
  "item_id p = take (item_id_length p) (drop DMEASURE_PROCESS_ITEM_SIZE p)"

definition process_item_len :: "byte list \<Rightarrow> nat" where
  "process_item_len p = BYTE4_ALIGNMENT (DMEASURE_PROCESS_ITEM_SIZE + item_id_length p)"

definition item_readable :: "byte list \<Rightarrow> bool" where
  "item_readable p \<longleftrightarrow> DMEASURE_PROCESS_ITEM_SIZE \<le> length p \<and> DMEASURE_PROCESS_ITEM_SIZE + item_id_length p \<le> length p"

definition mode_or :: "byte \<Rightarrow> u32 \<Rightarrow> int" where
  "mode_or m d = (if m = 0 then sint d else uint m)"

definition new_process_policy :: "dmeasure_feature_conf \<Rightarrow> byte list \<Rightarrow> process_policy" where
  "new_process_policy conf p =
     \<lparr>obj_count = 0, process_switch = 1, object_id_type = unat (p ! 0),
      sub_process_mode = mode_or (p ! 1) (df_is_child_measure conf),
      old_process_mode = mode_or (p ! 2) (df_is_exsited_process_measure conf),
      share_lib_mode = mode_or (p ! 3) (df_is_lib_measure conf),
      be_measure_interval = sint (if be32 (drop 4 p) = 0 then df_time_interval conf else be32 (drop 4 p)),
      object_id = item_id p\<rparr>"

lemma process_item_len_pos: "0 < process_item_len p"
  using BYTE4_ALIGNMENT_ge [of "DMEASURE_PROCESS_ITEM_SIZE + item_id_length p"]
  by (simp add: process_item_len_def DMEASURE_PROCESS_ITEM_SIZE_def)

text \<open>\<open>kz\<close>: kzalloc succeeds for the item. A failed allocation ends the loop with -1.\<close>

function parse_add_policy_dmeasure_process ::
  "(byte list \<Rightarrow> bool) \<Rightarrow> bool \<Rightarrow> byte list \<Rightarrow> dm_policy_state \<Rightarrow> (int \<times> dm_policy_state) option" where
  "parse_add_policy_dmeasure_process kz is_start p s =
     (if p = [] then Some (0, s)
      else if \<not> item_readable p then None
      else if \<not> kz p then Some (-1, s)
      else let x = new_process_policy (dmeasure_feature s) p
           in case p_process s of None \<Rightarrow> None
              | Some pr \<Rightarrow>
                  parse_add_policy_dmeasure_process kz is_start (drop (process_item_len p) p)
                    (s\<lparr>p_process := Some (pr\<lparr>pr_head := add_process_policy x (pr_head pr)\<rparr>),
                       dp_collects := dp_collects s +
                         (if \<not> is_start \<and> old_process_mode x = PROCESS_DMEASURE_MODE_MEASURE then 1 else 0)\<rparr>))"
  by pat_completeness auto
termination
  by (relation "measure (\<lambda>(kz, is_start, p, s). length p)") (use process_item_len_pos in auto)

text \<open>Deletion: the first entry with the same identity, whatever its type. It is freed unless it is in use.\<close>

fun del_process_policy :: "byte list \<Rightarrow> process_policy list \<Rightarrow> process_policy list \<times> process_policy list" where
  "del_process_policy ident [] = ([], [])"
| "del_process_policy ident (p # ps) =
     (if object_id p = ident then (ps, if obj_count p \<noteq> 0 then [p\<lparr>process_switch := 0\<rparr>] else [])
      else (let (ps', u) = del_process_policy ident ps in (p # ps', u)))"

text \<open>The identity is also copied to a buffer of 512 bytes on the stack, without a test of its length.\<close>

function parse_del_policy_dmeasure_process :: "byte list \<Rightarrow> dm_policy_state \<Rightarrow> (int \<times> dm_policy_state) option" where
  "parse_del_policy_dmeasure_process p s =
     (if p = [] then Some (0, s)
      else if \<not> item_readable p \<or> item_id_length p > 512 then None
      else case p_process s of None \<Rightarrow> None
        | Some pr \<Rightarrow>
            let (ps, u) = del_process_policy (item_id p) (pr_head pr)
            in parse_del_policy_dmeasure_process (drop (process_item_len p) p)
                 (s\<lparr>p_process := Some (pr\<lparr>pr_head := ps\<rparr>), dp_unlinked := dp_unlinked s @ u\<rparr>))"
  by pat_completeness auto
termination
  by (relation "measure (\<lambda>(p, s). length p)") (use process_item_len_pos in auto)

declare parse_add_policy_dmeasure_process.simps [simp del] parse_del_policy_dmeasure_process.simps [simp del]

definition dmeasure_process_add_del_policy ::
  "(byte list \<Rightarrow> bool) \<Rightarrow> bool \<Rightarrow> int \<Rightarrow> general_policy option \<Rightarrow> dm_policy_state \<Rightarrow> (int \<times> dm_policy_state) option" where
  "dmeasure_process_add_del_policy kz valloc operate param s = (case param of None \<Rightarrow> Some (-1, s)
     | Some gp \<Rightarrow>
         if gp_length gp = 0 then Some (-1, s)
         else if \<not> valloc \<or> gp_length gp < 0 then Some (-1, s)
         else (case gp_data gp of None \<Rightarrow> Some (-1, s)
           | Some data \<Rightarrow>
               map_option (\<lambda>(r, s'). (0, s'))
                 (if operate = 1 then parse_add_policy_dmeasure_process kz False (take (nat (gp_length gp)) data) s
                  else parse_del_policy_dmeasure_process (take (nat (gp_length gp)) data) s)))"

definition ioctl_dmeasure_process_add_policy ::
  "(byte list \<Rightarrow> bool) \<Rightarrow> bool \<Rightarrow> general_policy option \<Rightarrow> dm_policy_state \<Rightarrow> (int \<times> dm_policy_state) option" where
  "ioctl_dmeasure_process_add_policy kz valloc param s =
     map_option (\<lambda>(r, s'). (0, s')) (dmeasure_process_add_del_policy kz valloc 1 param s)"

definition ioctl_dmeasure_process_del_policy ::
  "bool \<Rightarrow> general_policy option \<Rightarrow> dm_policy_state \<Rightarrow> (int \<times> dm_policy_state) option" where
  "ioctl_dmeasure_process_del_policy valloc param s =
     map_option (\<lambda>(r, s'). (0, s')) (dmeasure_process_add_del_policy (\<lambda>_. True) valloc 2 param s)"

definition clean_process_policy :: "dm_policy_state \<Rightarrow> dm_policy_state" where
  "clean_process_policy s = (case p_process s of None \<Rightarrow> s
     | Some pr \<Rightarrow> s\<lparr>p_process := Some no_processes,
         dp_unlinked := dp_unlinked s @ map (\<lambda>p. p\<lparr>process_switch := 0\<rparr>) (pr_head pr)\<rparr>)"

text \<open>\<open>tcs\<close> is the answer of \<open>get_dmeasure_process_policy\<close>: its result and the items.\<close>

definition policy_tcs_get_dmeasure_process_policy ::
  "(byte list \<Rightarrow> bool) \<Rightarrow> int \<times> byte list \<Rightarrow> bool \<Rightarrow> dm_policy_state \<Rightarrow> (int \<times> dm_policy_state) option" where
  "policy_tcs_get_dmeasure_process_policy kz tcs is_start s =
     (if fst tcs \<noteq> 0 then Some (-1, s)
      else map_option (\<lambda>(r, s'). (0, s')) (parse_add_policy_dmeasure_process kz is_start (snd tcs) s))"

definition ioctl_dmeasure_process_reload_policy ::
  "(byte list \<Rightarrow> bool) \<Rightarrow> int \<times> byte list \<Rightarrow> dm_policy_state \<Rightarrow> (int \<times> dm_policy_state) option" where
  "ioctl_dmeasure_process_reload_policy kz tcs s =
     map_option (\<lambda>(r, s'). (0, s')) (policy_tcs_get_dmeasure_process_policy kz tcs False (clean_process_policy s))"

section \<open>The user's interface\<close>

record user_interface_parameter =
  ui_type :: int
  ui_length :: int
  ui_data :: "byte list option"

definition TYPE_DMEASURE_KERNEL_MEMORY :: int where "TYPE_DMEASURE_KERNEL_MEMORY = 1"
definition TYPE_DMEASURE_KERNEL_MEMORY_ALL :: int where "TYPE_DMEASURE_KERNEL_MEMORY_ALL = 2"
definition TYPE_DMEASURE_PROCESS :: int where "TYPE_DMEASURE_PROCESS = 3"

text \<open>
  Copying the announced number of bytes to a local variable of \<open>n\<close> bytes: \<open>Inl\<close> if the copy fails (a
  negative length is a huge one), \<open>None\<close> if it runs over the variable, otherwise the variable, whose
  remaining bytes keep what they held.
\<close>

definition copy_to_local :: "user_interface_parameter \<Rightarrow> byte list \<Rightarrow> (unit + byte list) option" where
  "copy_to_local par var =
     (if ui_length par < 0 then Some (Inl ())
      else case ui_data par of None \<Rightarrow> Some (Inl ())
        | Some d \<Rightarrow> if nat (ui_length par) > length var then None
                   else Some (Inr (take (nat (ui_length par)) d @ drop (nat (ui_length par)) var)))"

text \<open>\<open>measure_process\<close> stands for \<open>tsb_measure_process\<close> of dmeasure/task; \<open>pid0\<close> is what the variable
  \<open>pid\<close> holds before the copy.\<close>

definition ioctl_dmeasure_user_interface ::
  "(fptr \<Rightarrow> dmeasure_point option \<Rightarrow> 'm \<Rightarrow> int \<times> 'm) \<Rightarrow> (byte list \<Rightarrow> 'm \<Rightarrow> int \<times> 'm) \<Rightarrow> byte list
   \<Rightarrow> user_interface_parameter option \<Rightarrow> dm_policy_state \<Rightarrow> 'm \<Rightarrow> (int \<times> 'm) option" where
  "ioctl_dmeasure_user_interface call measure_process pid0 param s m = (case param of None \<Rightarrow> Some (-1, m)
     | Some par \<Rightarrow>
         if ui_type par = TYPE_DMEASURE_KERNEL_MEMORY
         then (case copy_to_local par (replicate 512 0) of None \<Rightarrow> None
           | Some (Inl e) \<Rightarrow> Some (TSB_ERROR_SYSTEM, m)
           | Some (Inr name) \<Rightarrow> Some (tsb_measure_kernel_memory call name (dp_actions s) m))
         else if ui_type par = TYPE_DMEASURE_KERNEL_MEMORY_ALL then Some (tsb_measure_kernel_memory_all call (dp_actions s) m)
         else if ui_type par = TYPE_DMEASURE_PROCESS
         then (case copy_to_local par (take 4 pid0) of None \<Rightarrow> None
           | Some (Inl e) \<Rightarrow> Some (TSB_ERROR_SYSTEM, m)
           | Some (Inr pid) \<Rightarrow> Some (measure_process pid m))
         else Some (TSB_MEASURE_FAILE, m))"

section \<open>The global switch\<close>

definition update_dmeasure_conf ::
  "global_control_policy \<Rightarrow> u32 \<Rightarrow> int \<Rightarrow> dmeasure_feature_conf \<Rightarrow> dmeasure_feature_conf" where
  "update_dmeasure_conf gp tpcm_feature valid_license conf =
     (let on = (if valid_license \<noteq> 0 then be_dynamic_measure_on gp else 0);
          dm_feature = (if tpcm_feature AND 2 \<noteq> 0 then 1 else 0)
      in if df_is_enabled conf \<noteq> on \<or> df_measure_mode conf \<noteq> dm_feature
          \<or> df_time_interval conf \<noteq> be_process_dmeasure_interval gp
          \<or> df_is_lib_measure conf \<noteq> be_process_dmeasure_lib_mode gp
          \<or> df_is_child_measure conf \<noteq> be_process_dmeasure_sub_process_mode gp
          \<or> df_is_exsited_process_measure conf \<noteq> be_process_dmeasure_old_process_mode gp
         then \<lparr>df_is_enabled = on, df_measure_mode = dm_feature,
               df_time_interval = be_process_dmeasure_interval gp,
               df_is_lib_measure = be_process_dmeasure_lib_mode gp,
               df_is_child_measure = be_process_dmeasure_sub_process_mode gp,
               df_is_exsited_process_measure = be_process_dmeasure_old_process_mode gp\<rparr>
         else conf)"

definition dmeasure_feature_conf_notify_func :: "feature_state \<Rightarrow> dm_policy_state \<Rightarrow> dm_policy_state" where
  "dmeasure_feature_conf_notify_func fs s =
     (case get_global_feature_conf fs of (ret, gp, feature, license) \<Rightarrow>
        if ret \<noteq> 0 then s else s\<lparr>dmeasure_feature := update_dmeasure_conf gp feature license (dmeasure_feature s)\<rparr>)"

section \<open>Loading and unloading\<close>

text \<open>What loading asks of its environment: which allocations succeed and what the trusted module answers.\<close>

record dm_init_env =
  de_ksection :: bool
  de_idt :: bool
  de_syscall :: bool
  de_modules :: bool
  de_filesystem :: bool
  de_net :: bool
  de_process :: bool
  de_item :: "byte list \<Rightarrow> bool"
  de_policy :: "int \<times> byte list \<times> int"
  de_process_policy :: "int \<times> byte list"

abbreviation (input) DMEASURE_NOTIFY :: fptr where "DMEASURE_NOTIFY \<equiv> ''dmeasure_feature_conf_notify_func''"

text \<open>The chain of error exits: each label falls through to the next one.\<close>

definition ksection_out :: "feature_state \<times> dm_policy_state \<Rightarrow> feature_state \<times> dm_policy_state" where
  "ksection_out fs = (snd (unregister_feature_conf_notify FEATURE_DMEASURE DMEASURE_NOTIFY (fst fs)), snd fs)"
definition idt_out :: "feature_state \<times> dm_policy_state \<Rightarrow> feature_state \<times> dm_policy_state" where
  "idt_out fs = ksection_out (map_prod id ksection_policy_exit fs)"
definition syscall_out :: "feature_state \<times> dm_policy_state \<Rightarrow> feature_state \<times> dm_policy_state" where
  "syscall_out fs = idt_out (map_prod id idt_policy_exit fs)"
definition modules_out :: "feature_state \<times> dm_policy_state \<Rightarrow> feature_state \<times> dm_policy_state" where
  "modules_out fs = syscall_out (map_prod id syscall_policy_exit fs)"
definition filesystem_out :: "feature_state \<times> dm_policy_state \<Rightarrow> feature_state \<times> dm_policy_state" where
  "filesystem_out fs = modules_out (map_prod id modules_policy_exit fs)"
definition net_out :: "feature_state \<times> dm_policy_state \<Rightarrow> feature_state \<times> dm_policy_state" where
  "net_out fs = filesystem_out (map_prod id filesystem_policy_exit fs)"
definition process_out :: "feature_state \<times> dm_policy_state \<Rightarrow> feature_state \<times> dm_policy_state" where
  "process_out fs = net_out (map_prod id net_policy_exit fs)"
definition dmeasure_update_out :: "feature_state \<times> dm_policy_state \<Rightarrow> feature_state \<times> dm_policy_state" where
  "dmeasure_update_out fs = process_out (map_prod id process_policy_exit fs)"
definition dmeasure_reload_out :: "feature_state \<times> dm_policy_state \<Rightarrow> feature_state \<times> dm_policy_state" where
  "dmeasure_reload_out fs = dmeasure_update_out
     (map_prod id (\<lambda>s. s\<lparr>dp_commands := snd (httcsec_io_command_unregister COMMAND_UPDATE_DMEASURE_POLICY ''ioctl_dmeasure_update_policy'' (dp_commands s))\<rparr>) fs)"
definition dmeasure_process_out :: "feature_state \<times> dm_policy_state \<Rightarrow> feature_state \<times> dm_policy_state" where
  "dmeasure_process_out fs = dmeasure_reload_out
     (map_prod id (\<lambda>s. s\<lparr>dp_commands := snd (httcsec_io_command_unregister COMMAND_RELOAD_DMEASURE_POLICY ''ioctl_dmeasure_reload_policy'' (dp_commands s))\<rparr>) fs)"

text \<open>The registrations at the end. The error exits return the value \<open>ret\<close> that \<open>process_policy_init\<close> left,
  which is zero.\<close>

definition dmeasure_register_commands ::
  "int \<Rightarrow> feature_state \<Rightarrow> dm_policy_state \<Rightarrow> int \<times> feature_state \<times> dm_policy_state" where
  "dmeasure_register_commands ret fs s =
     (let (r1, c1) = httcsec_io_command_register COMMAND_UPDATE_DMEASURE_POLICY ''ioctl_dmeasure_update_policy'' (dp_commands s)
      in if r1 \<noteq> 0 then (ret, dmeasure_update_out (fs, s\<lparr>dp_commands := c1\<rparr>))
      else let (r2, c2) = httcsec_io_command_register COMMAND_RELOAD_DMEASURE_POLICY ''ioctl_dmeasure_reload_policy'' c1
      in if r2 \<noteq> 0 then (ret, dmeasure_reload_out (fs, s\<lparr>dp_commands := c2\<rparr>))
      else let (r3, c3) = register_all
             [(COMMAND_ADD_DMEASURE_PROCESS_POLICY, ''ioctl_dmeasure_process_add_policy''),
              (COMMAND_DELETE_DMEASURE_PROCESS_POLICY, ''ioctl_dmeasure_process_del_policy''),
              (COMMAND_RELOAD_DMEASURE_PROCESS_POLICY, ''ioctl_dmeasure_process_reload_policy'')] c2
      in if \<not> r3 then (ret, dmeasure_process_out (fs, s\<lparr>dp_commands := c3\<rparr>))
      else (ret, fs, s\<lparr>dp_commands := snd (httcsec_io_command_register COMMAND_DMEASURE_USER_INTERFACE ''ioctl_dmeasure_user_interface'' c3)\<rparr>))"

definition dmeasure_policy_init ::
  "dm_init_env \<Rightarrow> feature_state \<Rightarrow> dm_policy_state \<Rightarrow> (int \<times> feature_state \<times> dm_policy_state) option" where
  "dmeasure_policy_init env fs0 s0 =
     (let s = dmeasure_feature_conf_notify_func fs0 s0;
          fs = snd (register_feature_conf_notify FEATURE_DMEASURE DMEASURE_NOTIFY fs0);
          (r1, s1) = ksection_policy_init (de_ksection env) s in
      if r1 \<noteq> 0 then Some (r1, ksection_out (fs, s1)) else
      let (r2, s2) = idt_policy_init (de_idt env) s1 in
      if r2 \<noteq> 0 then Some (r2, idt_out (fs, s2)) else
      let (r3, s3) = syscall_policy_init (de_syscall env) s2 in
      if r3 \<noteq> 0 then Some (r3, syscall_out (fs, s3)) else
      let (r4, s4) = modules_policy_init (de_modules env) s3 in
      if r4 \<noteq> 0 then Some (r4, modules_out (fs, s4)) else
      let (r5, s5) = filesystem_policy_init (de_filesystem env) s4 in
      if r5 \<noteq> 0 then Some (r5, filesystem_out (fs, s5)) else
      let (r6, s6) = net_policy_init (de_net env) s5 in
      if r6 \<noteq> 0 then Some (r6, net_out (fs, s6)) else
      let (r7, s7) = process_policy_init (de_process env) s6 in
      if r7 \<noteq> 0 then Some (r7, process_out (fs, s7)) else
      case policy_tcs_get_dmeasure_policy (de_policy env) s7 of None \<Rightarrow> None
      | Some (_, s8) \<Rightarrow>
      (case policy_tcs_get_dmeasure_process_policy (de_item env) (de_process_policy env) True s8 of None \<Rightarrow> None
       | Some (_, s9) \<Rightarrow>
         Some (dmeasure_register_commands r7 fs (s9\<lparr>dp_env_callback := Some ''tsb_measure_kernel_memory_all''\<rparr>))))"

definition dmeasure_commands :: "(int \<times> fptr) list" where
  "dmeasure_commands =
     [(COMMAND_DMEASURE_USER_INTERFACE, ''ioctl_dmeasure_user_interface''),
      (COMMAND_RELOAD_DMEASURE_PROCESS_POLICY, ''ioctl_dmeasure_process_reload_policy''),
      (COMMAND_DELETE_DMEASURE_PROCESS_POLICY, ''ioctl_dmeasure_process_del_policy''),
      (COMMAND_ADD_DMEASURE_PROCESS_POLICY, ''ioctl_dmeasure_process_add_policy''),
      (COMMAND_RELOAD_DMEASURE_POLICY, ''ioctl_dmeasure_reload_policy''),
      (COMMAND_UPDATE_DMEASURE_POLICY, ''ioctl_dmeasure_update_policy'')]"

definition dmeasure_policy_exit :: "feature_state \<Rightarrow> dm_policy_state \<Rightarrow> feature_state \<times> dm_policy_state" where
  "dmeasure_policy_exit fs s =
     (let s1 = process_policy_exit (s\<lparr>dp_commands := unregister_all dmeasure_commands (dp_commands s), dp_env_callback := None\<rparr>);
          s2 = ksection_policy_exit (idt_policy_exit (syscall_policy_exit (modules_policy_exit (filesystem_policy_exit (net_policy_exit s1)))))
      in (snd (unregister_feature_conf_notify FEATURE_DMEASURE DMEASURE_NOTIFY fs), s2))"

section \<open>What the switch policies come to\<close>

text \<open>
  The abstract view: each action has a status and an effective period. An interval that is not positive
  means the default period.
\<close>

definition period_of :: "int \<Rightarrow> int" where
  "period_of i = (if i \<le> 0 then DEFAULT_DMEASURE_PERIOD else i)"

definition settings :: "dmeasure_action list \<Rightarrow> byte list \<rightharpoonup> int \<times> int" where
  "settings acts n = map_option (\<lambda>a. (act_status a, action_period a)) (find (\<lambda>a. act_name a = n) acts)"

definition switch_of :: "dm_policy_state \<Rightarrow> byte list \<Rightarrow> switch_state option" where
  "switch_of s n =
     (if n = bytes_of DM_ACTION_SYSCALLTABLE_NAME then syscall_p s
      else if n = bytes_of DM_ACTION_KSECTION_NAME then ksection_p s
      else if n = bytes_of DM_ACTION_IDTTABLE_NAME then idt_p s
      else if n = bytes_of DM_ACTION_MODULELIST_NAME then modules_po s
      else if n = bytes_of DM_ACTION_FILESYSTEM_NAME then filesystem_po s
      else if n = bytes_of DM_ACTION_NETWORK_NAME then net_po s else None)"

lemma switch_of_update [simp]:
  "switch_of (s\<lparr>dp_env_callback := cb\<rparr>) = switch_of s" "switch_of (s\<lparr>dp_commands := c\<rparr>) = switch_of s"
  "switch_of (s\<lparr>p_process := pr\<rparr>) = switch_of s" "switch_of (s\<lparr>dp_collects := k\<rparr>) = switch_of s"
  by (simp_all add: switch_of_def fun_eq_iff)

text \<open>Well-formed: the six policies exist and agree with the actions they control.\<close>

definition dm_wf :: "dm_policy_state \<Rightarrow> bool" where
  "dm_wf s \<longleftrightarrow> table_wf (dp_actions s) \<and>
     (\<forall>n\<in>set action_names. \<exists>p. switch_of s n = Some p \<and> settings (dp_actions s) n = Some (original_status p, period_of (original_interval p)))"

lemma find_map_other:
  "(\<And>a. a \<in> set xs \<Longrightarrow> P (f a) = P a) \<Longrightarrow> find P (map f xs) = map_option f (find P xs)"
  by (induction xs) auto

lemma settings_modify:
  assumes "table_wf acts" "n \<in> set action_names"
  shows "settings (modify_dmeasure_action i st n acts) = (settings acts)(n \<mapsto> (st, period_of i))"
proof
  fix k
  note names = table_wf_names [OF assms(1)]
  let ?f = "\<lambda>a. if act_name a = n then a\<lparr>act_interval := i, act_status := st\<rparr> else a"
  have "cstr n = n" using assms(2) action_names_facts(3) by blast
  then have eq: "modify_dmeasure_action i st n acts = map ?f acts" using modify_map [OF names, of i st n] by simp
  have find: "find (\<lambda>a. act_name a = k) (map ?f acts) = map_option ?f (find (\<lambda>a. act_name a = k) acts)"
    by (rule find_map_other) simp
  have "n \<in> act_name ` set acts" using assms unfolding table_wf_def by (metis list.set_map)
  then have some: "find (\<lambda>a. act_name a = n) acts \<noteq> None" by (auto simp: find_None_iff)
  show "settings (modify_dmeasure_action i st n acts) k = ((settings acts)(n \<mapsto> (st, period_of i))) k"
  proof (cases "find (\<lambda>a. act_name a = k) acts")
    case (Some a)
    then have "act_name a = k" by (auto simp: find_Some_iff)
    with Some find eq show ?thesis by (simp add: settings_def action_period_def period_of_def)
  qed (use find eq some in \<open>auto simp: settings_def\<close>)
qed

lemma switch_add_settings:
  assumes "table_wf acts" "bytes_of n \<in> set action_names"
    and "settings acts (bytes_of n) = Some (original_status p, period_of (original_interval p))"
    and "switch_policy_add n pol p acts = (p', acts')"
  shows "settings acts' = (settings acts)(bytes_of n \<mapsto> (sp_status pol, period_of (sp_interval pol)))"
    "table_wf acts'" "original_status p' = sp_status pol" "original_interval p' = sp_interval pol"
proof -
  show "settings acts' = (settings acts)(bytes_of n \<mapsto> (sp_status pol, period_of (sp_interval pol)))"
    using assms settings_modify [OF assms(1,2)]
    by (auto simp: switch_policy_add_def Let_def split: if_splits)
  show "table_wf acts'" "original_status p' = sp_status pol" "original_interval p' = sp_interval pol"
    using assms(1,4) by (auto simp: switch_policy_add_def Let_def table_wf_def modify_names split: if_splits)
qed

text \<open>Every one of the six additions acts on its own policy and its own action only.\<close>

definition adds :: "string \<Rightarrow> (dm_switch_policy \<Rightarrow> dm_policy_state \<Rightarrow> int \<times> dm_policy_state) \<Rightarrow> bool" where
  "adds n add \<longleftrightarrow> (\<forall>pol s p p' acts. switch_of s (bytes_of n) = Some p \<and> switch_policy_add n pol p (dp_actions s) = (p', acts) \<longrightarrow>
     fst (add pol s) = 0 \<and> dp_actions (snd (add pol s)) = acts \<and> switch_of (snd (add pol s)) = (switch_of s)(bytes_of n := Some p'))"

lemma distinct_names [simp]:
  "bytes_of ''syscall_table'' \<noteq> bytes_of ''kernel_section''" "bytes_of ''kernel_section'' \<noteq> bytes_of ''syscall_table''"
  "bytes_of ''syscall_table'' \<noteq> bytes_of ''idt_table''" "bytes_of ''idt_table'' \<noteq> bytes_of ''syscall_table''"
  "bytes_of ''syscall_table'' \<noteq> bytes_of ''module_list''" "bytes_of ''module_list'' \<noteq> bytes_of ''syscall_table''"
  "bytes_of ''syscall_table'' \<noteq> bytes_of ''filesystem''" "bytes_of ''filesystem'' \<noteq> bytes_of ''syscall_table''"
  "bytes_of ''syscall_table'' \<noteq> bytes_of ''network''" "bytes_of ''network'' \<noteq> bytes_of ''syscall_table''"
  "bytes_of ''kernel_section'' \<noteq> bytes_of ''idt_table''" "bytes_of ''idt_table'' \<noteq> bytes_of ''kernel_section''"
  "bytes_of ''kernel_section'' \<noteq> bytes_of ''module_list''" "bytes_of ''module_list'' \<noteq> bytes_of ''kernel_section''"
  "bytes_of ''kernel_section'' \<noteq> bytes_of ''filesystem''" "bytes_of ''filesystem'' \<noteq> bytes_of ''kernel_section''"
  "bytes_of ''kernel_section'' \<noteq> bytes_of ''network''" "bytes_of ''network'' \<noteq> bytes_of ''kernel_section''"
  "bytes_of ''idt_table'' \<noteq> bytes_of ''module_list''" "bytes_of ''module_list'' \<noteq> bytes_of ''idt_table''"
  "bytes_of ''idt_table'' \<noteq> bytes_of ''filesystem''" "bytes_of ''filesystem'' \<noteq> bytes_of ''idt_table''"
  "bytes_of ''idt_table'' \<noteq> bytes_of ''network''" "bytes_of ''network'' \<noteq> bytes_of ''idt_table''"
  "bytes_of ''module_list'' \<noteq> bytes_of ''filesystem''" "bytes_of ''filesystem'' \<noteq> bytes_of ''module_list''"
  "bytes_of ''module_list'' \<noteq> bytes_of ''network''" "bytes_of ''network'' \<noteq> bytes_of ''module_list''"
  "bytes_of ''filesystem'' \<noteq> bytes_of ''network''" "bytes_of ''network'' \<noteq> bytes_of ''filesystem''"
  by (simp_all add: bytes_of_def)

lemma adds_facts:
  "adds DM_ACTION_SYSCALLTABLE_NAME syscall_policy_add" "adds DM_ACTION_KSECTION_NAME ksection_policy_add"
  "adds DM_ACTION_IDTTABLE_NAME idt_policy_add" "adds DM_ACTION_MODULELIST_NAME modules_policy_add"
  "adds DM_ACTION_FILESYSTEM_NAME filesystem_policy_add" "adds DM_ACTION_NETWORK_NAME net_policy_add"
  by (auto simp: adds_def switch_of_def syscall_policy_add_def ksection_policy_add_def idt_policy_add_def
    modules_policy_add_def filesystem_policy_add_def net_policy_add_def fun_eq_iff)

lemma adds_refines:
  assumes "adds n add" "bytes_of n \<in> set action_names" "dm_wf s"
  shows "dm_wf (snd (add pol s))"
    "settings (dp_actions (snd (add pol s))) = (settings (dp_actions s))(bytes_of n \<mapsto> (sp_status pol, period_of (sp_interval pol)))"
    "fst (add pol s) = 0"
proof -
  obtain p where p: "switch_of s (bytes_of n) = Some p"
    "settings (dp_actions s) (bytes_of n) = Some (original_status p, period_of (original_interval p))"
    using assms(2,3) by (auto simp: dm_wf_def)
  have wf: "table_wf (dp_actions s)" using assms(3) by (simp add: dm_wf_def)
  obtain p' acts where a: "switch_policy_add n pol p (dp_actions s) = (p', acts)" by fastforce
  have add: "fst (add pol s) = 0" "dp_actions (snd (add pol s)) = acts" "switch_of (snd (add pol s)) = (switch_of s)(bytes_of n := Some p')"
    using assms(1) p(1) a unfolding adds_def by auto
  note st = switch_add_settings [OF wf assms(2) p(2) a]
  show "fst (add pol s) = 0" by (rule add(1))
  show "settings (dp_actions (snd (add pol s))) = (settings (dp_actions s))(bytes_of n \<mapsto> (sp_status pol, period_of (sp_interval pol)))"
    using st(1) add(2) by simp
  show "dm_wf (snd (add pol s))"
    using assms(3) st add(2,3) by (auto simp: dm_wf_def)
qed

lemma names_in [simp]:
  "bytes_of ''kernel_section'' \<in> set action_names" "bytes_of ''syscall_table'' \<in> set action_names"
  "bytes_of ''idt_table'' \<in> set action_names" "bytes_of ''module_list'' \<in> set action_names"
  "bytes_of ''filesystem'' \<in> set action_names" "bytes_of ''network'' \<in> set action_names"
  by (simp_all add: action_names_def)

lemma set_action_names:
  "set action_names = {bytes_of ''syscall_table'', bytes_of ''kernel_section'', bytes_of ''idt_table'', bytes_of ''module_list'',
     bytes_of ''filesystem'', bytes_of ''network''}"
  by (auto simp: action_names_def)

lemma strcmp_name: "n \<in> set action_names \<Longrightarrow> strcmp obj n = 0 \<longleftrightarrow> cstr obj = n"
  using action_names_facts(3) by (auto simp: strcmp_eq_0_iff)

lemmas adds_wf = adds_facts [THEN adds_refines(1)]
lemmas adds_settings = adds_facts [THEN adds_refines(2)]

lemma apply_item_refines:
  assumes "dm_wf s"
  shows "dm_wf (apply_item obj pol s)"
    "settings (dp_actions (apply_item obj pol s)) =
       (if cstr obj \<in> set action_names then (settings (dp_actions s))(cstr obj \<mapsto> (sp_status pol, period_of (sp_interval pol)))
        else settings (dp_actions s))"
proof -
  show "dm_wf (apply_item obj pol s)" using assms by (simp add: apply_item_def adds_wf)
  show "settings (dp_actions (apply_item obj pol s)) =
       (if cstr obj \<in> set action_names then (settings (dp_actions s))(cstr obj \<mapsto> (sp_status pol, period_of (sp_interval pol)))
        else settings (dp_actions s))"
    using assms by (simp add: apply_item_def strcmp_name adds_settings) (auto simp: set_action_names)
qed

lemma close_refines:
  assumes "dm_wf s"
  shows "dm_wf (close_dmeasure s)"
    "settings (dp_actions (close_dmeasure s)) =
       (\<lambda>n. if n \<in> set action_names then Some (ACTION_STATUS_DISABLED, DEFAULT_DMEASURE_PERIOD) else None)"
proof -
  show wf: "dm_wf (close_dmeasure s)" using assms by (simp add: close_dmeasure_def adds_wf Let_def)
  have dom: "settings (dp_actions s) n = None" if "n \<notin> set action_names" for n
  proof -
    have "act_name ` set (dp_actions s) = set action_names"
      using assms unfolding dm_wf_def table_wf_def by (metis list.set_map)
    then show ?thesis using that by (auto simp: settings_def find_None_iff)
  qed
  show "settings (dp_actions (close_dmeasure s)) =
       (\<lambda>n. if n \<in> set action_names then Some (ACTION_STATUS_DISABLED, DEFAULT_DMEASURE_PERIOD) else None)"
    using assms dom by (simp add: close_dmeasure_def period_of_def adds_settings adds_wf Let_def fun_eq_iff) (auto simp: set_action_names)
qed

text \<open>The settings a list of items asks for: the last item with a name wins, other names are ignored.\<close>

fun wanted :: "nat \<Rightarrow> byte list \<Rightarrow> (byte list \<rightharpoonup> int \<times> int) \<Rightarrow> (byte list \<rightharpoonup> int \<times> int)" where
  "wanted 0 p st = st"
| "wanted (Suc n) p st = wanted n (drop DMEASURE_POLICY_ITEM_SIZE p)
     (if cstr (item_object p) \<in> set action_names
      then st(cstr (item_object p) \<mapsto> (1, period_of (sint (be32 (drop 4 p))))) else st)"

lemma apply_items_refines:
  assumes "dm_wf s" "n * DMEASURE_POLICY_ITEM_SIZE \<le> length p"
  shows "\<exists>s'. apply_items n p s = Some s' \<and> dm_wf s' \<and> settings (dp_actions s') = wanted n p (settings (dp_actions s))"
  using assms
proof (induction n arbitrary: p s)
  case (Suc n)
  then have len: "DMEASURE_POLICY_ITEM_SIZE \<le> length p" "n * DMEASURE_POLICY_ITEM_SIZE \<le> length (drop DMEASURE_POLICY_ITEM_SIZE p)"
    by auto
  note r = apply_item_refines [OF Suc.prems(1), of "item_object p" "item_switch p"]
  obtain s' where "apply_items n (drop DMEASURE_POLICY_ITEM_SIZE p) (apply_item (item_object p) (item_switch p) s) = Some s'"
    "dm_wf s'" "settings (dp_actions s') = wanted n (drop DMEASURE_POLICY_ITEM_SIZE p) (settings (dp_actions (apply_item (item_object p) (item_switch p) s)))"
    using Suc.IH [OF r(1) len(2)] by blast
  with len(1) r(2) show ?case by (simp add: item_switch_def)
qed simp

definition all_off :: "byte list \<rightharpoonup> int \<times> int" where
  "all_off n = (if n \<in> set action_names then Some (ACTION_STATUS_DISABLED, DEFAULT_DMEASURE_PERIOD) else None)"

text \<open>C9. Updating the switch policies sets exactly what the items ask for. The update succeeds without reading
  outside the buffer, and afterwards each of the six actions is enabled with the period of the last item
  that names it (the default period where that is not positive), and disabled if no item names it; an item
  with an unknown name changes nothing. What was set before has no influence.
\<close>

theorem update_policy_refines:
  assumes "dm_wf s" "gp_length gp > 0" "gp_data gp = Some data" "length data = nat (gp_length gp)"
  shows "\<exists>s'. ioctl_dmeasure_update_policy True (Some gp) s = Some (0, s') \<and> dm_wf s'
    \<and> settings (dp_actions s') = wanted (length data div DMEASURE_POLICY_ITEM_SIZE) data all_off"
proof -
  have len: "length data div DMEASURE_POLICY_ITEM_SIZE * DMEASURE_POLICY_ITEM_SIZE \<le> length data" by simp
  obtain s' where s': "apply_items (length data div DMEASURE_POLICY_ITEM_SIZE) data (close_dmeasure s) = Some s'" "dm_wf s'"
    "settings (dp_actions s') = wanted (length data div DMEASURE_POLICY_ITEM_SIZE) data (settings (dp_actions (close_dmeasure s)))"
    using apply_items_refines [OF close_refines(1) [OF assms(1)] len] by blast
  moreover have "settings (dp_actions (close_dmeasure s)) = all_off"
    using close_refines(2) [OF assms(1)] by (simp add: all_off_def [abs_def])
  ultimately show ?thesis using assms(2-4) by (auto simp: ioctl_dmeasure_update_policy_def)
qed

lemma settings_start: "settings dm_action = all_off"
proof
  fix n
  have names: "map act_name dm_action = action_names" using table_wf_start by (simp add: table_wf_def)
  show "settings dm_action n = all_off n"
  proof (cases "find (\<lambda>a. act_name a = n) dm_action")
    case None
    then have "n \<notin> set action_names" unfolding names [symmetric] by (auto simp: find_None_iff)
    with None show ?thesis by (simp add: settings_def all_off_def)
  next
    case (Some a)
    then have a: "a \<in> set dm_action" "act_name a = n" by (auto simp: find_Some_iff)
    then have "n \<in> set action_names" unfolding names [symmetric] by auto
    moreover have "act_status a = ACTION_STATUS_DISABLED" "action_period a = DEFAULT_DMEASURE_PERIOD"
      using a(1) by (auto simp: dm_action_def start_action_def action_period_def)
    ultimately show ?thesis using Some by (simp add: settings_def all_off_def)
  qed
qed

definition six_ready :: "dm_policy_state \<Rightarrow> dm_policy_state" where
  "six_ready s = s\<lparr>ksection_p := Some zero_switch, idt_p := Some zero_switch, syscall_p := Some zero_switch,
     modules_po := Some zero_switch, filesystem_po := Some zero_switch, net_po := Some zero_switch, p_process := Some no_processes\<rparr>"

lemma six_ready_wf:
  assumes "dp_actions s = dm_action"
  shows "dm_wf (six_ready s)" "settings (dp_actions (six_ready s)) = all_off"
proof -
  show st: "settings (dp_actions (six_ready s)) = all_off" using settings_start assms by (simp add: six_ready_def)
  have "switch_of (six_ready s) n = Some zero_switch" if "n \<in> set action_names" for n
    using that by (auto simp: switch_of_def six_ready_def set_action_names)
  then show "dm_wf (six_ready s)"
    using st assms table_wf_start by (auto simp: dm_wf_def all_off_def zero_switch_def period_of_def) (simp add: six_ready_def)
qed

definition idt_item :: "byte list" where
  "idt_item = [0, 0, 0, 1, 0, 0, 3, 232] @ bytes_of ''idt_table'' @ replicate 23 0"

lemma idt_item_wanted: "wanted (length idt_item div DMEASURE_POLICY_ITEM_SIZE) idt_item st = st(bytes_of ''idt_table'' \<mapsto> (1, 1000))"
proof -
  have "length idt_item div DMEASURE_POLICY_ITEM_SIZE = Suc 0" by (simp add: idt_item_def DMEASURE_POLICY_ITEM_SIZE_def bytes_of_def)
  moreover have "cstr (item_object idt_item) = bytes_of ''idt_table''"
    by (simp add: idt_item_def item_object_def bytes_of_def cstr_def)
  moreover have "sint (be32 (drop 4 idt_item)) = 1000"
    by (simp add: idt_item_def be32_def CONCAT_4_BYTES_def push_bit_eq_mult)
  ultimately show ?thesis by (simp add: period_of_def)
qed

lemma update_policy_refines_witness:
  shows "\<exists>s'. ioctl_dmeasure_update_policy True (Some \<lparr>gp_length = 40, gp_data = Some idt_item\<rparr>) (six_ready (dm_policy_start Map.empty)) = Some (0, s')
    \<and> settings (dp_actions s') (bytes_of ''idt_table'') = Some (1, 1000)
    \<and> settings (dp_actions s') (bytes_of ''network'') = Some (0, 10000)"
proof -
  have "dm_wf (six_ready (dm_policy_start Map.empty))" by (rule six_ready_wf) (simp add: dm_policy_start_def)
  moreover have "length idt_item = 40" by (simp add: idt_item_def bytes_of_def)
  ultimately obtain s' where s': "ioctl_dmeasure_update_policy True (Some \<lparr>gp_length = 40, gp_data = Some idt_item\<rparr>) (six_ready (dm_policy_start Map.empty)) = Some (0, s')"
    "settings (dp_actions s') = wanted (length idt_item div DMEASURE_POLICY_ITEM_SIZE) idt_item all_off"
    using update_policy_refines [of "six_ready (dm_policy_start Map.empty)" "\<lparr>gp_length = 40, gp_data = Some idt_item\<rparr>" idt_item] by auto
  then show ?thesis
    by (intro exI [of _ s']) (simp add: idt_item_wanted all_off_def ACTION_STATUS_DISABLED_def DEFAULT_DMEASURE_PERIOD_def)
qed

section \<open>The order of the process policies\<close>

text \<open>
  A digest is meant to have priority over a full path, and a full path over a process name; the query takes
  the first match.
\<close>

definition rank :: "process_policy \<Rightarrow> nat" where
  "rank p = (if object_id_type p = PROCESS_DMEASURE_OBJECT_ID_HASH then 0
     else if object_id_type p = PROCESS_DMEASURE_OBJECT_ID_FULL_PATH then 1 else 2)"

definition known_type :: "process_policy \<Rightarrow> bool" where
  "known_type p \<longleftrightarrow> object_id_type p \<le> 2"

definition prioritised :: "process_policy list \<Rightarrow> bool" where
  "prioritised ps \<longleftrightarrow> sorted (map rank ps)"

lemma rank_types:
  "rank p = 0 \<longleftrightarrow> object_id_type p = PROCESS_DMEASURE_OBJECT_ID_HASH"
  "rank p = 1 \<longleftrightarrow> object_id_type p = PROCESS_DMEASURE_OBJECT_ID_FULL_PATH"
  "known_type p \<Longrightarrow> rank p = 2 \<longleftrightarrow> object_id_type p = PROCESS_DMEASURE_OBJECT_ID_PROCESS"
  "rank p \<le> 2"
  by (auto simp: rank_def known_type_def PROCESS_DMEASURE_OBJECT_ID_HASH_def PROCESS_DMEASURE_OBJECT_ID_FULL_PATH_def
    PROCESS_DMEASURE_OBJECT_ID_PROCESS_def)

lemma add_path_rank:
  assumes "list_all known_type ps" "rank x = 1" "sorted (map rank ps)"
  shows "sorted (map rank (add_path_policy x seen ps)) \<longleftrightarrow>
    1 \<in> rank ` set ps \<or> 2 \<notin> rank ` set ps \<or> (\<not> seen \<and> 0 \<notin> rank ` set ps)"
  using assms
proof (induction x seen ps rule: add_path_policy.induct)
  case (1 x seen)
  then show ?case by simp
next
  case (2 x seen p ps)
  have known: "known_type p" "list_all known_type ps" and sorted: "sorted (map rank ps)" "\<forall>q\<in>set ps. rank p \<le> rank q"
    using 2(2,4) by auto
  consider "rank p = 0" | "rank p = 1" | "rank p = 2" using rank_types(4) [of p] by linarith
  then show ?case
  proof cases
    case 1
    then have t: "object_id_type p = PROCESS_DMEASURE_OBJECT_ID_HASH" using rank_types(1) by blast
    then have "add_path_policy x seen (p # ps) = p # add_path_policy x True ps"
      by (simp add: PROCESS_DMEASURE_OBJECT_ID_HASH_def PROCESS_DMEASURE_OBJECT_ID_FULL_PATH_def PROCESS_DMEASURE_OBJECT_ID_PROCESS_def)
    moreover have "sorted (map rank (add_path_policy x True ps)) \<longleftrightarrow> 1 \<in> rank ` set ps \<or> 2 \<notin> rank ` set ps"
      using 2(1) [OF refl _ _ known(2) 2(3) sorted(1)] t
      by (simp add: PROCESS_DMEASURE_OBJECT_ID_HASH_def PROCESS_DMEASURE_OBJECT_ID_FULL_PATH_def PROCESS_DMEASURE_OBJECT_ID_PROCESS_def)
    ultimately show ?thesis using 1 by auto
  next
    case r1: 2
    then have "object_id_type p = PROCESS_DMEASURE_OBJECT_ID_FULL_PATH" using rank_types(2) by blast
    then have "add_path_policy x seen (p # ps) = p # x # ps"
      by (simp add: PROCESS_DMEASURE_OBJECT_ID_HASH_def PROCESS_DMEASURE_OBJECT_ID_FULL_PATH_def)
    then show ?thesis using r1 2(3) sorted by auto
  next
    case r2: 3
    then have "object_id_type p = PROCESS_DMEASURE_OBJECT_ID_PROCESS" using rank_types(3) [OF known(1)] by blast
    then have "add_path_policy x seen (p # ps) = (if seen then p # x # ps else x # p # ps)"
      by (simp add: PROCESS_DMEASURE_OBJECT_ID_HASH_def PROCESS_DMEASURE_OBJECT_ID_FULL_PATH_def PROCESS_DMEASURE_OBJECT_ID_PROCESS_def)
    then show ?thesis using r2 2(3) sorted by auto
  qed
qed

text \<open>When adding a process policy keeps the order of priority. For a list in order, the addition of a
  policy of a known type keeps it in order in every case but one: the first full path, added while there
  are both digests and process names, is linked behind the first process name instead of behind the last
  digest.
\<close>

theorem add_process_policy_order:
  assumes "prioritised ps" "list_all known_type ps" "known_type x"
  shows "prioritised (add_process_policy x ps) \<longleftrightarrow>
    \<not> (rank x = 1 \<and> 1 \<notin> rank ` set ps \<and> 0 \<in> rank ` set ps \<and> 2 \<in> rank ` set ps)"
proof -
  consider "rank x = 0" | "rank x = 1" | "rank x = 2" using rank_types(4) [of x] by linarith
  then show ?thesis
  proof cases
    case 1
    then have "add_process_policy x ps = x # ps" using rank_types(1) by (simp add: add_process_policy_def)
    then show ?thesis using 1 assms(1) by (simp add: prioritised_def)
  next
    case 2
    then have "add_process_policy x ps = add_path_policy x False ps"
      using rank_types(2) by (simp add: add_process_policy_def PROCESS_DMEASURE_OBJECT_ID_HASH_def
        PROCESS_DMEASURE_OBJECT_ID_FULL_PATH_def PROCESS_DMEASURE_OBJECT_ID_PROCESS_def)
    then show ?thesis using add_path_rank [OF assms(2) 2, of False] 2 assms(1) by (auto simp: prioritised_def)
  next
    case 3
    then have "object_id_type x = PROCESS_DMEASURE_OBJECT_ID_PROCESS" using rank_types(3) [OF assms(3)] by blast
    then have "add_process_policy x ps = ps @ [x]"
      by (simp add: add_process_policy_def PROCESS_DMEASURE_OBJECT_ID_HASH_def PROCESS_DMEASURE_OBJECT_ID_PROCESS_def)
    then show ?thesis using 3 assms(1) rank_types(4) by (simp add: prioritised_def sorted_append)
  qed
qed

text \<open>In a list in order the query answers with a match of the best rank.\<close>

lemma query_best:
  assumes "prioritised ps" "find (policy_matches path name hash) ps = Some p" "q \<in> set ps" "policy_matches path name hash q"
  shows "rank p \<le> rank q"
proof -
  obtain i where i: "i < length ps" "p = ps ! i" "\<forall>j<i. \<not> policy_matches path name hash (ps ! j)"
    using assms(2) by (auto simp: find_Some_iff)
  obtain j where j: "j < length ps" "q = ps ! j" using assms(3) by (auto simp: in_set_conv_nth)
  then have "i \<le> j" using i(3) assms(4) by (meson not_le)
  then show ?thesis using assms(1) i j by (simp add: prioritised_def sorted_iff_nth_mono)
qed

definition path_beaten_list :: "process_policy list" where
  "path_beaten_list =
     (let p = \<lparr>obj_count = 0, process_switch = 1, object_id_type = 0, sub_process_mode = 0, old_process_mode = 0,
               share_lib_mode = 0, be_measure_interval = 0, object_id = []\<rparr>
      in [p\<lparr>object_id_type := PROCESS_DMEASURE_OBJECT_ID_HASH, object_id := replicate 32 7\<rparr>,
          p\<lparr>object_id_type := PROCESS_DMEASURE_OBJECT_ID_PROCESS, object_id := bytes_of ''sshd''\<rparr>,
          p\<lparr>object_id_type := PROCESS_DMEASURE_OBJECT_ID_FULL_PATH, object_id := bytes_of ''/usr/sbin/sshd''\<rparr>])"

lemma add_process_policy_order_witness:
  "\<not> prioritised (add_process_policy (path_beaten_list ! 2) (take 2 path_beaten_list))"
proof -
  have "prioritised (take 2 path_beaten_list)" "list_all known_type (take 2 path_beaten_list)" "known_type (path_beaten_list ! 2)"
    "rank (path_beaten_list ! 2) = 1" "0 \<in> rank ` set (take 2 path_beaten_list)" "2 \<in> rank ` set (take 2 path_beaten_list)" "1 \<notin> rank ` set (take 2 path_beaten_list)"
    by (simp_all add: path_beaten_list_def prioritised_def known_type_def rank_def PROCESS_DMEASURE_OBJECT_ID_HASH_def
      PROCESS_DMEASURE_OBJECT_ID_FULL_PATH_def PROCESS_DMEASURE_OBJECT_ID_PROCESS_def Let_def)
  then show ?thesis using add_process_policy_order by simp
qed

lemma path_policy_beaten:
  "add_process_policy (path_beaten_list ! 2) (take 2 path_beaten_list) = path_beaten_list"
  "find (policy_matches (bytes_of ''/usr/sbin/sshd'') (bytes_of ''sshd'') (replicate 32 0)) path_beaten_list = Some (path_beaten_list ! 1)"
  by (simp_all add: path_beaten_list_def add_process_policy_def PROCESS_DMEASURE_OBJECT_ID_HASH_def policy_matches_def
      PROCESS_DMEASURE_OBJECT_ID_FULL_PATH_def PROCESS_DMEASURE_OBJECT_ID_PROCESS_def Let_def strcmp_eq_0_iff)

section \<open>Policies in use\<close>

text \<open>The process policies that still exist: linked, or unlinked and not freed.\<close>

definition linked :: "dm_policy_state \<Rightarrow> process_policy list" where
  "linked s = (case p_process s of None \<Rightarrow> [] | Some pr \<Rightarrow> pr_head pr)"

definition alive_after :: "dm_policy_state \<Rightarrow> dm_policy_state \<Rightarrow> bool" where
  "alive_after s s' \<longleftrightarrow> set (dp_unlinked s) \<subseteq> set (dp_unlinked s') \<and>
     (\<forall>p\<in>set (linked s). obj_count p \<noteq> 0 \<longrightarrow> p \<in> set (linked s') \<or> p\<lparr>process_switch := 0\<rparr> \<in> set (dp_unlinked s'))"

lemma alive_refl: "alive_after s s"
  by (simp add: alive_after_def)

lemma alive_trans: "alive_after s t \<Longrightarrow> alive_after t u \<Longrightarrow> alive_after s u"
  unfolding alive_after_def by (meson in_mono subset_trans)

lemma add_path_policy_set: "set (add_path_policy x seen ps) = insert x (set ps)"
  by (induction x seen ps rule: add_path_policy.induct) (auto simp: Let_def)

lemma add_process_policy_set: "set (add_process_policy x ps) = insert x (set ps)"
  by (simp add: add_process_policy_def add_path_policy_set)

lemma del_process_policy_alive:
  assumes "del_process_policy ident ps = (ps', u)" "p \<in> set ps" "obj_count p \<noteq> 0"
  shows "p \<in> set ps' \<or> p\<lparr>process_switch := 0\<rparr> \<in> set u"
  using assms by (induction ident ps arbitrary: ps' u rule: del_process_policy.induct) (auto split: if_splits prod.splits)

lemma parse_add_alive:
  assumes "parse_add_policy_dmeasure_process kz st p s = Some (r, s')"
  shows "alive_after s s'"
  using assms
proof (induction kz st p s arbitrary: r s' rule: parse_add_policy_dmeasure_process.induct)
  case (1 kz st p s)
  show ?case
  proof (cases "p = [] \<or> \<not> item_readable p \<or> \<not> kz p")
    case True
    then show ?thesis
      using 1(2) by (subst (asm) parse_add_policy_dmeasure_process.simps) (auto simp: alive_refl split: if_splits)
  next
    case False
    obtain pr where pr: "p_process s = Some pr"
      using 1(2) False by (subst (asm) parse_add_policy_dmeasure_process.simps) (auto simp: Let_def split: option.splits)
    define x where "x = new_process_policy (dmeasure_feature s) p"
    define t where "t = s\<lparr>p_process := Some (pr\<lparr>pr_head := add_process_policy x (pr_head pr)\<rparr>),
       dp_collects := dp_collects s + (if \<not> st \<and> old_process_mode x = PROCESS_DMEASURE_MODE_MEASURE then 1 else 0)\<rparr>"
    have "parse_add_policy_dmeasure_process kz st (drop (process_item_len p) p) t = Some (r, s')"
      using 1(2) False pr by (subst (asm) parse_add_policy_dmeasure_process.simps) (simp add: t_def x_def Let_def)
    then have "alive_after t s'" using 1(1) [OF _ _ _ x_def pr, of r s'] False by (simp add: t_def)
    moreover have "alive_after s t" using pr by (simp add: alive_after_def linked_def t_def add_process_policy_set)
    ultimately show ?thesis by (rule alive_trans [rotated])
  qed
qed

lemma parse_del_alive:
  assumes "parse_del_policy_dmeasure_process p s = Some (r, s')"
  shows "alive_after s s'"
  using assms
proof (induction p s arbitrary: r s' rule: parse_del_policy_dmeasure_process.induct)
  case (1 p s)
  show ?case
  proof (cases "p = [] \<or> \<not> item_readable p \<or> item_id_length p > 512")
    case True
    then show ?thesis
      using 1(2) by (subst (asm) parse_del_policy_dmeasure_process.simps) (auto simp: alive_refl split: if_splits)
  next
    case False
    obtain pr where pr: "p_process s = Some pr"
      using 1(2) False by (subst (asm) parse_del_policy_dmeasure_process.simps) (auto split: option.splits)
    obtain ps u where d: "del_process_policy (item_id p) (pr_head pr) = (ps, u)" by fastforce
    define t where "t = s\<lparr>p_process := Some (pr\<lparr>pr_head := ps\<rparr>), dp_unlinked := dp_unlinked s @ u\<rparr>"
    have "parse_del_policy_dmeasure_process (drop (process_item_len p) p) t = Some (r, s')"
      using 1(2) False pr d by (subst (asm) parse_del_policy_dmeasure_process.simps) (simp add: t_def)
    then have "alive_after t s'" using 1(1) [OF _ _ pr d [symmetric], of ps u r s'] False by (simp add: t_def)
    moreover have "alive_after s t"
      using pr del_process_policy_alive [OF d] by (auto simp: alive_after_def linked_def t_def)
    ultimately show ?thesis by (rule alive_trans [rotated])
  qed
qed

lemma clean_alive: "alive_after s (clean_process_policy s)"
  by (auto simp: alive_after_def linked_def clean_process_policy_def no_processes_def split: option.splits)



section \<open>Process items\<close>

record process_item =
  dmi_type :: byte
  dmi_sub :: byte
  dmi_old :: byte
  dmi_lib :: byte
  dmi_interval :: u32
  dmi_ident :: "byte list"

definition process_item_bytes :: "process_item \<Rightarrow> byte list" where
  "process_item_bytes x = [dmi_type x, dmi_sub x, dmi_old x, dmi_lib x] @ PUT_ULONG_BE (dmi_interval x)
     @ [of_nat (length (dmi_ident x) div 256), of_nat (length (dmi_ident x))] @ dmi_ident x"

definition encode_process_item :: "process_item \<Rightarrow> byte list" where
  "encode_process_item x =
     process_item_bytes x @ replicate (BYTE4_ALIGNMENT (length (process_item_bytes x)) - length (process_item_bytes x)) 0"

text \<open>The policy an item asks for: a zero takes the value of the global control policy.\<close>

definition policy_of_item :: "dmeasure_feature_conf \<Rightarrow> process_item \<Rightarrow> process_policy" where
  "policy_of_item conf x =
     \<lparr>obj_count = 0, process_switch = 1, object_id_type = unat (dmi_type x),
      sub_process_mode = mode_or (dmi_sub x) (df_is_child_measure conf),
      old_process_mode = mode_or (dmi_old x) (df_is_exsited_process_measure conf),
      share_lib_mode = mode_or (dmi_lib x) (df_is_lib_measure conf),
      be_measure_interval = sint (if dmi_interval x = 0 then df_time_interval conf else dmi_interval x),
      object_id = dmi_ident x\<rparr>"

lemma process_item_bytes_fields:
  assumes "length (dmi_ident x) < 65536"
  shows "item_id_length (process_item_bytes x @ b) = length (dmi_ident x)"
    "process_item_len (process_item_bytes x @ b) = BYTE4_ALIGNMENT (length (process_item_bytes x))"
    "item_readable (process_item_bytes x @ b)"
    "new_process_policy conf (process_item_bytes x @ b) = policy_of_item conf x"
proof -
  have be: "drop 4 (process_item_bytes x @ b) = PUT_ULONG_BE (dmi_interval x) @ drop 8 (process_item_bytes x @ b)"
    by (simp add: process_item_bytes_def PUT_ULONG_BE_def)
  have len: "length (process_item_bytes x) = DMEASURE_PROCESS_ITEM_SIZE + length (dmi_ident x)"
    by (simp add: process_item_bytes_def PUT_ULONG_BE_def DMEASURE_PROCESS_ITEM_SIZE_def)
  show l: "item_id_length (process_item_bytes x @ b) = length (dmi_ident x)"
    using assms by (simp add: item_id_length_def process_item_bytes_def PUT_ULONG_BE_def unat_of_nat be16_def)
  then show "process_item_len (process_item_bytes x @ b) = BYTE4_ALIGNMENT (length (process_item_bytes x))"
    by (simp add: process_item_len_def len)
  show "item_readable (process_item_bytes x @ b)" by (simp add: item_readable_def l len)
  have "item_id (process_item_bytes x @ b) = dmi_ident x"
    by (simp add: item_id_def l) (simp add: process_item_bytes_def PUT_ULONG_BE_def DMEASURE_PROCESS_ITEM_SIZE_def)
  moreover have "(process_item_bytes x @ b) ! 0 = dmi_type x" "(process_item_bytes x @ b) ! 1 = dmi_sub x"
    "(process_item_bytes x @ b) ! 2 = dmi_old x" "(process_item_bytes x @ b) ! 3 = dmi_lib x"
    by (simp_all add: process_item_bytes_def)
  moreover have "be32 (drop 4 (process_item_bytes x @ b)) = dmi_interval x" unfolding be by (rule be32_bytes)
  ultimately show "new_process_policy conf (process_item_bytes x @ b) = policy_of_item conf x"
    by (simp add: new_process_policy_def policy_of_item_def)
qed

lemma encode_process_item_fields:
  assumes "length (dmi_ident x) < 65536"
  shows "item_id_length (encode_process_item x @ b) = length (dmi_ident x)"
    "process_item_len (encode_process_item x @ b) = length (encode_process_item x)"
    "item_readable (encode_process_item x @ b)"
    "new_process_policy conf (encode_process_item x @ b) = policy_of_item conf x"
  using process_item_bytes_fields [OF assms] BYTE4_ALIGNMENT_ge [of "length (process_item_bytes x)"] by (simp_all add: encode_process_item_def)

lemma parse_add_items:
  assumes "\<forall>x\<in>set xs. length (dmi_ident x) < 65536" "p_process s = Some pr" "\<forall>b. kz b"
  shows "\<exists>s'. parse_add_policy_dmeasure_process kz st (concat (map encode_process_item xs)) s = Some (0, s')
    \<and> linked s' = fold add_process_policy (map (policy_of_item (dmeasure_feature s)) xs) (linked s)
    \<and> dp_unlinked s' = dp_unlinked s \<and> dp_actions s' = dp_actions s \<and> p_process s' \<noteq> None"
  using assms(1,2)
proof (induction xs arbitrary: s pr)
  case Nil
  then show ?case by (simp add: parse_add_policy_dmeasure_process.simps)
next
  case (Cons x xs)
  let ?b = "concat (map encode_process_item xs)"
  note f = encode_process_item_fields [where x = x and b = ?b]
  define y where "y = policy_of_item (dmeasure_feature s) x"
  define t where "t = s\<lparr>p_process := Some (pr\<lparr>pr_head := add_process_policy y (pr_head pr)\<rparr>),
     dp_collects := dp_collects s + (if \<not> st \<and> old_process_mode y = PROCESS_DMEASURE_MODE_MEASURE then 1 else 0)\<rparr>"
  have "encode_process_item x \<noteq> []" by (simp add: encode_process_item_def process_item_bytes_def)
  then have step: "parse_add_policy_dmeasure_process kz st (encode_process_item x @ ?b) s =
      parse_add_policy_dmeasure_process kz st ?b t"
    using f Cons.prems assms(3)
    by (subst parse_add_policy_dmeasure_process.simps) (simp add: t_def y_def Let_def)
  have t: "p_process t = Some (pr\<lparr>pr_head := add_process_policy y (pr_head pr)\<rparr>)"
    "linked t = add_process_policy y (linked s)" "dmeasure_feature t = dmeasure_feature s"
    "dp_unlinked t = dp_unlinked s" "dp_actions t = dp_actions s"
    using Cons.prems(2) by (simp_all add: t_def linked_def)
  have "\<forall>x\<in>set xs. length (dmi_ident x) < 65536" using Cons.prems(1) by simp
  from Cons.IH [OF this t(1)] t(2-) show ?case by (simp add: step y_def)
qed

text \<open>A list of process items in the format of the interface is read back as it was written: adding it links
  exactly one policy for each item, with the values of the item and those of the global control policy
  where the item leaves them open, in the order of \<open>add_process_policy\<close>, and changes no other policy.
\<close>

theorem process_items_roundtrip:
  assumes "\<forall>x\<in>set xs. length (dmi_ident x) < 65536" "xs \<noteq> []" "p_process s = Some pr"
    and "length (concat (map encode_process_item xs)) < 2 ^ 31"
  shows "\<exists>s'. ioctl_dmeasure_process_add_policy (\<lambda>b. True) True
      (Some \<lparr>gp_length = int (length (concat (map encode_process_item xs))), gp_data = Some (concat (map encode_process_item xs))\<rparr>) s = Some (0, s')
    \<and> linked s' = fold add_process_policy (map (policy_of_item (dmeasure_feature s)) xs) (linked s)
    \<and> dp_unlinked s' = dp_unlinked s \<and> dp_actions s' = dp_actions s"
proof -
  obtain s' where s': "parse_add_policy_dmeasure_process (\<lambda>b. True) False (concat (map encode_process_item xs)) s = Some (0, s')"
    "linked s' = fold add_process_policy (map (policy_of_item (dmeasure_feature s)) xs) (linked s)"
    "dp_unlinked s' = dp_unlinked s" "dp_actions s' = dp_actions s"
    using parse_add_items [OF assms(1,3), of "\<lambda>b. True" False] by auto
  define c where "c = concat (map encode_process_item xs)"
  have "encode_process_item (hd xs) \<noteq> []" by (simp add: encode_process_item_def process_item_bytes_def)
  then have "c \<noteq> []" using assms(2) unfolding c_def by (cases xs) auto
  then have "ioctl_dmeasure_process_add_policy (\<lambda>b. True) True (Some \<lparr>gp_length = int (length c), gp_data = Some c\<rparr>) s = Some (0, s')"
    using s'(1) unfolding c_def [symmetric] by (simp add: ioctl_dmeasure_process_add_policy_def dmeasure_process_add_del_policy_def)
  then have "ioctl_dmeasure_process_add_policy (\<lambda>b. True) True
      (Some \<lparr>gp_length = int (length (concat (map encode_process_item xs))), gp_data = Some (concat (map encode_process_item xs))\<rparr>) s = Some (0, s')"
    by (simp add: c_def)
  with s'(2-4) show ?thesis by blast
qed

lemma process_items_roundtrip_witness:
  shows "\<exists>s'. ioctl_dmeasure_process_add_policy (\<lambda>b. True) True
      (Some \<lparr>gp_length = int (length (encode_process_item \<lparr>dmi_type = 1, dmi_sub = 0, dmi_old = 2, dmi_lib = 1, dmi_interval = 700, dmi_ident = [115, 104]\<rparr>)),
        gp_data = Some (encode_process_item \<lparr>dmi_type = 1, dmi_sub = 0, dmi_old = 2, dmi_lib = 1, dmi_interval = 700, dmi_ident = [115, 104]\<rparr>)\<rparr>)
      ((dm_policy_start Map.empty)\<lparr>p_process := Some no_processes\<rparr>) = Some (0, s')
    \<and> map object_id (linked s') = [[115, 104]]"
proof -
  let ?x = "\<lparr>dmi_type = 1, dmi_sub = 0, dmi_old = 2, dmi_lib = 1, dmi_interval = 700, dmi_ident = [115, 104]\<rparr>"
  let ?s = "(dm_policy_start Map.empty)\<lparr>p_process := Some no_processes\<rparr>"
  have "length (concat (map encode_process_item [?x])) < 2 ^ 31"
    by (simp add: encode_process_item_def process_item_bytes_def PUT_ULONG_BE_def BYTE4_ALIGNMENT_def DMEASURE_PROCESS_ITEM_SIZE_def)
  then have "\<exists>s'. ioctl_dmeasure_process_add_policy (\<lambda>b. True) True
      (Some \<lparr>gp_length = int (length (concat (map encode_process_item [?x]))), gp_data = Some (concat (map encode_process_item [?x]))\<rparr>) ?s = Some (0, s')
    \<and> linked s' = fold add_process_policy (map (policy_of_item (dmeasure_feature ?s)) [?x]) (linked ?s)
    \<and> dp_unlinked s' = dp_unlinked ?s \<and> dp_actions s' = dp_actions ?s"
    using process_items_roundtrip [of "[?x]" ?s] by (auto simp del: concat.simps list.map)
  then obtain s' where s': "ioctl_dmeasure_process_add_policy (\<lambda>b. True) True
      (Some \<lparr>gp_length = int (length (concat (map encode_process_item [?x]))), gp_data = Some (concat (map encode_process_item [?x]))\<rparr>) ?s = Some (0, s')"
    "linked s' = fold add_process_policy (map (policy_of_item (dmeasure_feature ?s)) [?x]) (linked ?s)" by blast
  have "linked ?s = []" by (simp add: linked_def no_processes_def)
  then have "linked s' = [policy_of_item (dmeasure_feature ?s) ?x]"
    using s'(2) by (simp add: add_process_policy_def policy_of_item_def PROCESS_DMEASURE_OBJECT_ID_PROCESS_def PROCESS_DMEASURE_OBJECT_ID_HASH_def)
  with s'(1) show ?thesis by (intro exI [of _ s']) (simp add: policy_of_item_def)
qed

section \<open>Loading\<close>

text \<open>An environment in which every allocation succeeds and the trusted module answers with whole items.\<close>

definition env_ready :: "dm_init_env \<Rightarrow> process_item list \<Rightarrow> bool" where
  "env_ready env xs \<longleftrightarrow> de_ksection env \<and> de_idt env \<and> de_syscall env \<and> de_modules env \<and> de_filesystem env \<and> de_net env
     \<and> de_process env \<and> (\<forall>b. de_item env b) \<and> fst (de_policy env) = 0
     \<and> nat (snd (snd (de_policy env))) * DMEASURE_POLICY_ITEM_SIZE \<le> length (fst (snd (de_policy env)))
     \<and> de_process_policy env = (0, concat (map encode_process_item xs)) \<and> (\<forall>x\<in>set xs. length (dmi_ident x) < 65536)"

lemma switch_adds_keep:
  "p_process (snd (syscall_policy_add pol s)) = p_process s" "p_process (snd (ksection_policy_add pol s)) = p_process s"
  "p_process (snd (idt_policy_add pol s)) = p_process s" "p_process (snd (modules_policy_add pol s)) = p_process s"
  "p_process (snd (filesystem_policy_add pol s)) = p_process s" "p_process (snd (net_policy_add pol s)) = p_process s"
  "dmeasure_feature (snd (syscall_policy_add pol s)) = dmeasure_feature s" "dmeasure_feature (snd (ksection_policy_add pol s)) = dmeasure_feature s"
  "dmeasure_feature (snd (idt_policy_add pol s)) = dmeasure_feature s" "dmeasure_feature (snd (modules_policy_add pol s)) = dmeasure_feature s"
  "dmeasure_feature (snd (filesystem_policy_add pol s)) = dmeasure_feature s" "dmeasure_feature (snd (net_policy_add pol s)) = dmeasure_feature s"
  "dp_commands (snd (syscall_policy_add pol s)) = dp_commands s" "dp_commands (snd (ksection_policy_add pol s)) = dp_commands s"
  "dp_commands (snd (idt_policy_add pol s)) = dp_commands s" "dp_commands (snd (modules_policy_add pol s)) = dp_commands s"
  "dp_commands (snd (filesystem_policy_add pol s)) = dp_commands s" "dp_commands (snd (net_policy_add pol s)) = dp_commands s"
  by (simp_all add: syscall_policy_add_def ksection_policy_add_def idt_policy_add_def modules_policy_add_def
    filesystem_policy_add_def net_policy_add_def split: option.split prod.split)

lemma apply_item_keeps:
  "p_process (apply_item obj pol s) = p_process s" "dmeasure_feature (apply_item obj pol s) = dmeasure_feature s"
  "dp_commands (apply_item obj pol s) = dp_commands s"
  by (simp_all add: apply_item_def switch_adds_keep)

lemma apply_items_keeps:
  assumes "apply_items n p s = Some s'"
  shows "p_process s' = p_process s" "dmeasure_feature s' = dmeasure_feature s" "dp_commands s' = dp_commands s"
  using assms by (induction n p s rule: apply_items.induct) (auto simp: apply_item_keeps split: if_splits)

lemma parse_add_keeps:
  assumes "parse_add_policy_dmeasure_process kz st p s = Some (r, s')"
  shows "dp_actions s' = dp_actions s \<and> dp_commands s' = dp_commands s \<and> dmeasure_feature s' = dmeasure_feature s \<and> switch_of s' = switch_of s"
  using assms
proof (induction kz st p s arbitrary: r s' rule: parse_add_policy_dmeasure_process.induct)
  case (1 kz st p s)
  show ?case
  proof (cases "p = [] \<or> \<not> item_readable p \<or> \<not> kz p")
    case True
    then show ?thesis
      using 1(2) by (subst (asm) parse_add_policy_dmeasure_process.simps) (auto split: if_splits)
  next
    case False
    obtain pr where pr: "p_process s = Some pr"
      using 1(2) False by (subst (asm) parse_add_policy_dmeasure_process.simps) (auto simp: Let_def split: option.splits)
    define x where "x = new_process_policy (dmeasure_feature s) p"
    define t where "t = s\<lparr>p_process := Some (pr\<lparr>pr_head := add_process_policy x (pr_head pr)\<rparr>),
       dp_collects := dp_collects s + (if \<not> st \<and> old_process_mode x = PROCESS_DMEASURE_MODE_MEASURE then 1 else 0)\<rparr>"
    have "parse_add_policy_dmeasure_process kz st (drop (process_item_len p) p) t = Some (r, s')"
      using 1(2) False pr by (subst (asm) parse_add_policy_dmeasure_process.simps) (simp add: t_def x_def Let_def)
    then have "dp_actions s' = dp_actions t \<and> dp_commands s' = dp_commands t \<and> dmeasure_feature s' = dmeasure_feature t \<and> switch_of s' = switch_of t"
      using 1(1) [OF _ _ _ x_def pr, of r s'] False by (simp add: t_def)
    then show ?thesis by (simp add: t_def)
  qed
qed

lemma init_until_commands:
  assumes "env_ready env xs" "dp_actions s0 = dm_action"
  shows "\<exists>s. dmeasure_policy_init env fs s0 =
      Some (dmeasure_register_commands 0 (snd (register_feature_conf_notify FEATURE_DMEASURE DMEASURE_NOTIFY fs)) s)
    \<and> dm_wf s \<and> dp_commands s = dp_commands s0 \<and> p_process s \<noteq> None
    \<and> settings (dp_actions s) = wanted (nat (snd (snd (de_policy env)))) (fst (snd (de_policy env))) all_off
    \<and> linked s = fold add_process_policy (map (policy_of_item (dmeasure_feature s)) xs) []"
proof -
  define f where "f = dmeasure_feature_conf_notify_func fs s0"
  have f: "dp_actions f = dm_action" "dp_commands f = dp_commands s0"
    using assms(2) by (simp_all add: f_def dmeasure_feature_conf_notify_func_def split: prod.splits)
  define pr where "pr = no_processes"
  have [simp]: "pr_head pr = []" by (simp add: pr_def no_processes_def)
  define s7 where "s7 = six_ready f"
  have s7: "dm_wf s7" "settings (dp_actions s7) = all_off" "p_process s7 = Some pr" "linked s7 = []" "dp_commands s7 = dp_commands s0"
    "dmeasure_feature s7 = dmeasure_feature f"
    using six_ready_wf [OF f(1)] by (simp_all add: s7_def six_ready_def linked_def f pr_def no_processes_def)
  obtain ret p n where pol: "de_policy env = (ret, p, n)" by (cases "de_policy env") auto
  have ok: "ret = 0" "nat n * DMEASURE_POLICY_ITEM_SIZE \<le> length p" "de_process_policy env = (0, concat (map encode_process_item xs))"
    "\<forall>x\<in>set xs. length (dmi_ident x) < 65536" "\<forall>b. de_item env b"
    using assms(1) pol by (simp_all add: env_ready_def)
  obtain s8 where s8: "apply_items (nat n) p s7 = Some s8" "dm_wf s8" "settings (dp_actions s8) = wanted (nat n) p all_off"
    using apply_items_refines [OF s7(1) ok(2)] s7(2) by auto
  note k = apply_items_keeps [OF s8(1)]
  have "p_process s8 = Some pr" using k(1) s7(3) by simp
  from parse_add_items [OF ok(4) this ok(5), of True]
  obtain s9 where s9: "parse_add_policy_dmeasure_process (de_item env) True (concat (map encode_process_item xs)) s8 = Some (0, s9)"
    "linked s9 = fold add_process_policy (map (policy_of_item (dmeasure_feature f)) xs) []" "p_process s9 \<noteq> None"
    using k s7 by (auto simp: linked_def)
  note k9 = parse_add_keeps [OF s9(1)]
  have "dm_wf (s9\<lparr>dp_env_callback := Some ''tsb_measure_kernel_memory_all''\<rparr>)"
  proof -
    have "switch_of (s9\<lparr>dp_env_callback := Some ''tsb_measure_kernel_memory_all''\<rparr>) = switch_of s8" using k9 by simp
    then show ?thesis using s8(2) k9 by (simp add: dm_wf_def)
  qed
  moreover have "dmeasure_policy_init env fs s0 =
      Some (dmeasure_register_commands 0 (snd (register_feature_conf_notify FEATURE_DMEASURE DMEASURE_NOTIFY fs))
        (s9\<lparr>dp_env_callback := Some ''tsb_measure_kernel_memory_all''\<rparr>))"
    using assms(1) s8(1) s9(1) pol ok
    by (simp add: dmeasure_policy_init_def env_ready_def ksection_policy_init_def idt_policy_init_def syscall_policy_init_def
      modules_policy_init_def filesystem_policy_init_def net_policy_init_def process_policy_init_def policy_tcs_get_dmeasure_policy_def
      policy_tcs_get_dmeasure_process_policy_def Let_def s7_def six_ready_def f_def pr_def)
  ultimately show ?thesis
    using k9 k s7(5,6) s8(3) s9(2,3) pol by (intro exI [of _ "s9\<lparr>dp_env_callback := Some ''tsb_measure_kernel_memory_all''\<rparr>"]) (simp add: linked_def f_def)
qed

definition dm_numbers :: "nat set" where
  "dm_numbers = {7, 8, 19, 20, 21, 101}"

text \<open>Loading the policies. If every allocation succeeds, the trusted module answers with whole items and
  the six command numbers are free, loading succeeds, the six commands are registered, every action has
  the setting the items of the trusted module ask for, and the process policies are those of its process
  items.
\<close>

theorem dmeasure_policy_init_ok:
  assumes "env_ready env xs" "\<forall>n\<in>dm_numbers. cmds n = None"
  shows "\<exists>fs' s'. dmeasure_policy_init env fs (dm_policy_start cmds) = Some (0, fs', s') \<and> dm_wf s'
    \<and> settings (dp_actions s') = wanted (nat (snd (snd (de_policy env)))) (fst (snd (de_policy env))) all_off
    \<and> linked s' = fold add_process_policy (map (policy_of_item (dmeasure_feature s')) xs) []
    \<and> dp_commands s' = cmds (7 \<mapsto> ''ioctl_dmeasure_update_policy'', 8 \<mapsto> ''ioctl_dmeasure_reload_policy'',
        19 \<mapsto> ''ioctl_dmeasure_process_add_policy'', 20 \<mapsto> ''ioctl_dmeasure_process_del_policy'',
        21 \<mapsto> ''ioctl_dmeasure_process_reload_policy'', 101 \<mapsto> ''ioctl_dmeasure_user_interface'')"
proof -
  from init_until_commands [OF assms(1), of "dm_policy_start cmds" fs]
  obtain s where s: "dmeasure_policy_init env fs (dm_policy_start cmds) =
      Some (dmeasure_register_commands 0 (snd (register_feature_conf_notify FEATURE_DMEASURE DMEASURE_NOTIFY fs)) s)"
    "dm_wf s" "dp_commands s = cmds" "settings (dp_actions s) = wanted (nat (snd (snd (de_policy env)))) (fst (snd (de_policy env))) all_off"
    "linked s = fold add_process_policy (map (policy_of_item (dmeasure_feature s)) xs) []"
    by (auto simp: dm_policy_start_def)
  let ?c = "cmds (7 \<mapsto> ''ioctl_dmeasure_update_policy'', 8 \<mapsto> ''ioctl_dmeasure_reload_policy'',
        19 \<mapsto> ''ioctl_dmeasure_process_add_policy'', 20 \<mapsto> ''ioctl_dmeasure_process_del_policy'',
        21 \<mapsto> ''ioctl_dmeasure_process_reload_policy'', 101 \<mapsto> ''ioctl_dmeasure_user_interface'')"
  have "dmeasure_register_commands 0 fs1 s = (0, fs1, s\<lparr>dp_commands := ?c\<rparr>)" for fs1
    using assms(2) s(3) by (simp add: dmeasure_register_commands_def httcsec_io_command_register_def dm_numbers_def MAX_COMMAND_NR_def)
  moreover have "dm_wf (s\<lparr>dp_commands := ?c\<rparr>)" using s(2) by (simp add: dm_wf_def)
  ultimately show ?thesis
    using s(1,4,5) by (intro exI [of _ "snd (register_feature_conf_notify FEATURE_DMEASURE DMEASURE_NOTIFY fs)"] exI [of _ "s\<lparr>dp_commands := ?c\<rparr>"])
      (simp add: linked_def)
qed


definition test_env :: dm_init_env where
  "test_env = \<lparr>de_ksection = True, de_idt = True, de_syscall = True, de_modules = True, de_filesystem = True, de_net = True,
     de_process = True, de_item = (\<lambda>b. True), de_policy = (0, idt_item, 1), de_process_policy = (0, [])\<rparr>"

lemma test_env_ready: "env_ready test_env []"
  by (simp add: env_ready_def test_env_def idt_item_def bytes_of_def DMEASURE_POLICY_ITEM_SIZE_def)

lemma dmeasure_policy_init_ok_witness:
  "\<forall>fs. \<exists>fs' s'. dmeasure_policy_init test_env fs (dm_policy_start Map.empty) = Some (0, fs', s') \<and> dm_wf s' \<and> linked s' = []"
proof
  fix fs
  show "\<exists>fs' s'. dmeasure_policy_init test_env fs (dm_policy_start Map.empty) = Some (0, fs', s') \<and> dm_wf s' \<and> linked s' = []"
    using dmeasure_policy_init_ok [OF test_env_ready, of Map.empty fs] by fastforce
qed


end
