(* ===== verification/Process_Identity.thy ===== *)
theory Process_Identity
  imports Fac_Policy Dmeasure_Policy
begin

text \<open>
  The identity of processes: tsb/kernel/dmeasure/process_identity/process_identity.c. An identity is a name
  with the digest of a main program and of the libraries it may load; a role is a set of identities. The
  trusted module asks for the identity of the current process through two callbacks, other modules and
  user space verify that a process has a given identity. What is measured is every executable mapping of
  the process: the file with its text taken from memory, as in \<open>task_cal_mem_file_hash\<close> of list_fac.c.

  Parameters: the tasks with their mappings, the pages of the current task, the files, the whitelist of
  the measurement engine (for libraries) and the answers of the trusted module. A result \<open>None\<close> is a run
  that reads outside a buffer, goes through a NULL pointer or does not end. A name from user space that
  is not terminated counts as a read outside the buffer. A section under a lock is one step.
\<close>

section \<open>Data\<close>

record process_identity_user =
  pu_name :: "byte list"
  specific_libs :: nat
  hash_length :: nat
  lib_number :: nat
  pu_hash :: "byte list"

record process_role_user =
  role_name :: "byte list"
  role_members :: "byte list list"

text \<open>The cache of results: nothing is entered in it any more.\<close>

record ids_hash_cache =
  ic_pid :: int

record ids_state =
  g_list_policy_process_identity :: "process_identity_user list"
  g_list_policy_process_role :: "process_role_user list"
  process_verify_lib_mode :: u32
  process_identity_hashtable :: "nat \<Rightarrow> ids_hash_cache list"
  ids_commands :: cmd_table
  process_identity_callback :: bool

definition PROCESS_VERIFY_MODE_DEFAULT :: u32 where "PROCESS_VERIFY_MODE_DEFAULT = 0"
definition PROCESS_VERIFY_MODE_NO_LIB :: u32 where "PROCESS_VERIFY_MODE_NO_LIB = 1"
definition PROCESS_VERIFY_MODE_REF_LIB :: u32 where "PROCESS_VERIFY_MODE_REF_LIB = 2"
definition PROCESS_VERIFY_MODE_SPECIFIC_LIB :: u32 where "PROCESS_VERIFY_MODE_SPECIFIC_LIB = 3"
definition TSB_ERROR_CALC_HASH :: int where "TSB_ERROR_CALC_HASH = 2"
definition TSB_ERROR_PROCESS_IDENTITY_POLICY :: int where "TSB_ERROR_PROCESS_IDENTITY_POLICY = 300"

text \<open>\<open>iv_path\<close> is the result of vfs_get_fullpath for the file of the mapping. A task has a memory map, which
  says whether its program file is there and lists the mappings, or none.\<close>

record ids_vma =
  iv_area :: vm_area
  iv_path :: "byte list option"

type_synonym ids_mm = "(bool \<times> ids_vma list) option"

record ids_env =
  ie_current :: fac_env
  ie_self :: ids_mm
  ie_task :: "int \<Rightarrow> ids_mm option"
  ie_path_buffer :: bool
  ie_jhash :: jhash_fun
  ie_whitelist :: whitelist_state

section \<open>The list of identities\<close>

definition is_special_kernel_version :: int where
  "is_special_kernel_version = 0"

definition PROCESS_IDENTITY_SIZE :: nat where "PROCESS_IDENTITY_SIZE = 6"

definition id_name_length :: "byte list \<Rightarrow> nat" where "id_name_length p = unat (p ! 0)"
definition id_hash_length :: "byte list \<Rightarrow> nat" where "id_hash_length p = be16 (p ! 2) (p ! 3)"
definition id_lib_number :: "byte list \<Rightarrow> nat" where "id_lib_number p = be16 (p ! 4) (p ! 5)"
definition id_hash_len :: "byte list \<Rightarrow> nat" where "id_hash_len p = id_hash_length p * (id_lib_number p + 1)"

definition id_item_len :: "byte list \<Rightarrow> nat" where
  "id_item_len p = BYTE4_ALIGNMENT (PROCESS_IDENTITY_SIZE + id_name_length p + id_hash_len p)"

definition id_readable :: "byte list \<Rightarrow> bool" where
  "id_readable p \<longleftrightarrow> PROCESS_IDENTITY_SIZE \<le> length p \<and> PROCESS_IDENTITY_SIZE + id_hash_len p + id_name_length p \<le> length p"

definition new_identity :: "byte list \<Rightarrow> process_identity_user" where
  "new_identity p =
     \<lparr>pu_name = take (id_name_length p) (drop (PROCESS_IDENTITY_SIZE + id_hash_len p) p),
      specific_libs = unat (p ! 1), hash_length = id_hash_length p, lib_number = id_lib_number p,
      pu_hash = take (id_hash_len p) (drop PROCESS_IDENTITY_SIZE p)\<rparr>"

text \<open>An entry with the same main digest. The length is that of the new item, whatever the length of the entry.\<close>

fun check_policy_process_ids_repeat :: "byte list \<Rightarrow> nat \<Rightarrow> process_identity_user list \<Rightarrow> int option" where
  "check_policy_process_ids_repeat hash lenth [] = Some 0"
| "check_policy_process_ids_repeat hash lenth (p # ps) =
     (if length (pu_hash p) < lenth \<or> length hash < lenth then None
      else if memeq (pu_hash p) hash lenth then Some (-1)
      else check_policy_process_ids_repeat hash lenth ps)"

lemma id_item_len_pos: "0 < id_item_len p"
  using BYTE4_ALIGNMENT_ge [of "PROCESS_IDENTITY_SIZE + id_name_length p + id_hash_len p"]
  by (simp add: id_item_len_def PROCESS_IDENTITY_SIZE_def)

text \<open>
  \<open>p\<close> holds the \<open>length\<close> bytes that are left. That an entry is repeated is only logged. \<open>kz\<close>: the three
  allocations for the item succeed; otherwise the loop ends with -1 and what it has linked stays.
\<close>

function parse_policy_process_ids ::
  "(byte list \<Rightarrow> bool) \<Rightarrow> byte list \<Rightarrow> process_identity_user list \<Rightarrow> (int \<times> process_identity_user list) option" where
  "parse_policy_process_ids kz p ids =
     (if p = [] then Some (0, ids)
      else if \<not> id_readable p \<or> id_item_len p \<ge> 2 ^ 31 then None
      else if check_policy_process_ids_repeat (drop PROCESS_IDENTITY_SIZE p) (id_hash_length p) ids = None then None
      else if \<not> kz p then Some (-1, ids)
      else parse_policy_process_ids kz (drop (id_item_len p) p) (new_identity p # ids))"
  by pat_completeness auto
termination
  by (relation "measure (\<lambda>(kz, p, ids). length p)") (use id_item_len_pos in auto)

text \<open>\<open>tcs\<close> is the answer of get_process_ids. The result of the parser is not looked at.\<close>

definition policy_tcs_get_process_ids ::
  "(byte list \<Rightarrow> bool) \<Rightarrow> int \<times> byte list \<Rightarrow> ids_state \<Rightarrow> (int \<times> ids_state) option" where
  "policy_tcs_get_process_ids kz tcs s =
     (if fst tcs \<noteq> 0 then Some (-1, s)
      else map_option (\<lambda>(r, ids). (0, s\<lparr>g_list_policy_process_identity := ids\<rparr>))
             (parse_policy_process_ids kz (snd tcs) (g_list_policy_process_identity s)))"

definition clean_policy_list_process_ids :: "ids_state \<Rightarrow> ids_state" where
  "clean_policy_list_process_ids s = s\<lparr>g_list_policy_process_identity := []\<rparr>"

definition ioctl_process_ids_set_policy ::
  "(byte list \<Rightarrow> bool) \<Rightarrow> bool \<Rightarrow> general_policy option \<Rightarrow> ids_state \<Rightarrow> (int \<times> ids_state) option" where
  "ioctl_process_ids_set_policy kz valloc param s = (case param of None \<Rightarrow> Some (-1, s)
     | Some gp \<Rightarrow>
         if gp_length gp = 0 then Some (0, clean_policy_list_process_ids s)
         else if \<not> valloc \<or> gp_length gp < 0 then Some (-1, s)
         else (case gp_data gp of None \<Rightarrow> Some (-1, s)
           | Some data \<Rightarrow>
               map_option (\<lambda>(r, ids). (0, s\<lparr>g_list_policy_process_identity := ids\<rparr>))
                 (parse_policy_process_ids kz (take (nat (gp_length gp)) data)
                    (g_list_policy_process_identity (clean_policy_list_process_ids s)))))"

definition ioctl_process_ids_reload_policy ::
  "(byte list \<Rightarrow> bool) \<Rightarrow> int \<times> byte list \<Rightarrow> ids_state \<Rightarrow> (int \<times> ids_state) option" where
  "ioctl_process_ids_reload_policy kz tcs s =
     map_option (\<lambda>(r, s'). (0, s')) (policy_tcs_get_process_ids kz tcs (clean_policy_list_process_ids s))"

section \<open>The list of roles\<close>

definition PROCESS_ROLE_SIZE :: nat where "PROCESS_ROLE_SIZE = 12"

definition role_name_length :: "byte list \<Rightarrow> nat" where "role_name_length p = unat (be32 p)"
definition role_members_length :: "byte list \<Rightarrow> nat" where "role_members_length p = unat (be32 (drop 4 p))"
definition role_members_number :: "byte list \<Rightarrow> nat" where "role_members_number p = unat (be32 (drop 8 p))"

text \<open>The members follow each other, whatever \<open>be_members_length\<close> says.\<close>

fun read_members :: "nat \<Rightarrow> byte list \<Rightarrow> byte list list option" where
  "read_members 0 p = Some []"
| "read_members (Suc n) p =
     (if p = [] \<or> length p < Suc (unat (p ! 0)) then None
      else map_option ((#) (take (unat (p ! 0)) (drop 1 p))) (read_members n (drop (Suc (unat (p ! 0))) p)))"

text \<open>\<open>int item_len\<close> keeps the low 32 bits of the sum. If it is zero or negative the loop goes back
  in the buffer.\<close>

definition role_item_len :: "byte list \<Rightarrow> nat" where
  "role_item_len p = BYTE4_ALIGNMENT ((PROCESS_ROLE_SIZE + role_name_length p + role_members_length p) mod 2 ^ 32)"

function parse_policy_process_roles ::
  "(byte list \<Rightarrow> bool) \<Rightarrow> byte list \<Rightarrow> process_role_user list \<Rightarrow> (int \<times> process_role_user list) option" where
  "parse_policy_process_roles kz p roles =
     (if p = [] then Some (0, roles)
      else if length p < PROCESS_ROLE_SIZE then None
      else if \<not> kz p then Some (-1, roles)
      else if length p < PROCESS_ROLE_SIZE + role_name_length p then None
      else (case read_members (role_members_number p) (drop (PROCESS_ROLE_SIZE + role_name_length p) p) of None \<Rightarrow> None
        | Some ms \<Rightarrow>
            if role_item_len p = 0 \<or> role_item_len p \<ge> 2 ^ 31 then None
            else parse_policy_process_roles kz (drop (role_item_len p) p)
                   (\<lparr>role_name = take (role_name_length p) (drop PROCESS_ROLE_SIZE p), role_members = ms\<rparr> # roles)))"
  by pat_completeness auto
termination
  by (relation "measure (\<lambda>(kz, p, roles). length p)") auto

declare parse_policy_process_ids.simps [simp del] parse_policy_process_roles.simps [simp del]

definition policy_tcs_get_process_roles ::
  "(byte list \<Rightarrow> bool) \<Rightarrow> int \<times> byte list \<Rightarrow> ids_state \<Rightarrow> (int \<times> ids_state) option" where
  "policy_tcs_get_process_roles kz tcs s =
     (if fst tcs \<noteq> 0 then Some (-1, s)
      else map_option (\<lambda>(r, roles). (0, s\<lparr>g_list_policy_process_role := roles\<rparr>))
             (parse_policy_process_roles kz (snd tcs) (g_list_policy_process_role s)))"

definition clean_policy_list_process_roles :: "ids_state \<Rightarrow> ids_state" where
  "clean_policy_list_process_roles s = s\<lparr>g_list_policy_process_role := []\<rparr>"

definition ioctl_process_roles_set_policy ::
  "(byte list \<Rightarrow> bool) \<Rightarrow> bool \<Rightarrow> general_policy option \<Rightarrow> ids_state \<Rightarrow> (int \<times> ids_state) option" where
  "ioctl_process_roles_set_policy kz valloc param s = (case param of None \<Rightarrow> Some (-1, s)
     | Some gp \<Rightarrow>
         if gp_length gp = 0 then Some (0, clean_policy_list_process_roles s)
         else if \<not> valloc \<or> gp_length gp < 0 then Some (-1, s)
         else (case gp_data gp of None \<Rightarrow> Some (-1, s)
           | Some data \<Rightarrow>
               map_option (\<lambda>(r, roles). (0, s\<lparr>g_list_policy_process_role := roles\<rparr>))
                 (parse_policy_process_roles kz (take (nat (gp_length gp)) data)
                    (g_list_policy_process_role (clean_policy_list_process_roles s)))))"

definition ioctl_process_roles_reload_policy ::
  "(byte list \<Rightarrow> bool) \<Rightarrow> int \<times> byte list \<Rightarrow> ids_state \<Rightarrow> (int \<times> ids_state) option" where
  "ioctl_process_roles_reload_policy kz tcs s =
     map_option (\<lambda>(r, s'). (0, s')) (policy_tcs_get_process_roles kz tcs (clean_policy_list_process_roles s))"

section \<open>Digests\<close>

definition task_cal_file_hash :: "ids_env \<Rightarrow> byte list \<Rightarrow> byte list \<Rightarrow> int \<times> byte list" where
  "task_cal_file_hash env fullpath hash =
     (case fe_open (ie_current env) False fullpath of None \<Rightarrow> (- EINVAL, hash)
      | Some fp \<Rightarrow> digest_cal (fe_digest (ie_current env)) fp hash)"

text \<open>The same code as in list_fac.c, without the mark for the open hook. The pages are those of the current
  task, whichever task the mapping belongs to.\<close>

definition ids_task_cal_mem_file_hash ::
  "ids_env \<Rightarrow> byte list \<Rightarrow> nat \<Rightarrow> nat \<Rightarrow> nat \<Rightarrow> byte list \<Rightarrow> (int \<times> byte list) option" where
  "ids_task_cal_mem_file_hash env fullpath from len file_offset hash =
     task_cal_mem_file_hash (ie_current env) fullpath from len file_offset hash False"

text \<open>The digest of the program is first in \<open>pu_hash\<close>, those of the libraries follow. A digest has 32 bytes, a
  longer comparison leaves the buffer.\<close>

definition qurey_hash :: "byte list \<Rightarrow> process_identity_user \<Rightarrow> int option" where
  "qurey_hash hash p =
     (if hash_length p > LEN_HASH then None
      else if list_ex (\<lambda>i. memeq (drop (i * hash_length p) (pu_hash p)) hash (hash_length p)) [0..<Suc (lib_number p)]
      then Some 0 else Some (-1))"

fun qurey_hash_from_process_identity_policy ::
  "byte list \<Rightarrow> byte list \<Rightarrow> nat \<Rightarrow> process_identity_user list \<Rightarrow> (int + byte list) option" where
  "qurey_hash_from_process_identity_policy exe_hash lib_hash len [] = Some (Inl (-1))"
| "qurey_hash_from_process_identity_policy exe_hash lib_hash len (p # ps) =
     (if hash_length p > LEN_HASH then None
      else if \<not> memeq (pu_hash p) exe_hash (hash_length p)
        \<or> \<not> list_ex (\<lambda>i. memeq (drop (i * hash_length p) (pu_hash p)) lib_hash (hash_length p)) [0..<Suc (lib_number p)]
      then qurey_hash_from_process_identity_policy exe_hash lib_hash len ps
      else Some (Inr (take (len - 1) (cstr (pu_name p)))))"

definition cal_task_hash_func :: "nat \<Rightarrow> nat" where
  "cal_task_hash_func task = task mod 256"

definition remove_current_task_ids_cache :: "nat \<Rightarrow> int \<Rightarrow> ids_state \<Rightarrow> ids_state" where
  "remove_current_task_ids_cache task pid s =
     (let k = cal_task_hash_func task
      in s\<lparr>process_identity_hashtable := (process_identity_hashtable s)
             (k := filter (\<lambda>c. ic_pid c \<noteq> pid) (process_identity_hashtable s k))\<rparr>)"

section \<open>Walking the mappings\<close>

text \<open>
  The variables \<open>vma_idx\<close>, \<open>file_offset\<close> and \<open>fullpath_prev\<close> after the mapping of a file: the size of the first
  mapping of a file, if it is not executable, is taken for the offset of the text.
\<close>

record vma_place =
  vma_idx :: nat
  file_offset :: nat
  fullpath_prev :: "byte list"

definition start_place :: vma_place where
  "start_place = \<lparr>vma_idx = 0, file_offset = 0, fullpath_prev = []\<rparr>"

definition next_place :: "byte list \<Rightarrow> vm_area \<Rightarrow> vma_place \<Rightarrow> vma_place" where
  "next_place fullpath v pl =
     (let pl1 = pl\<lparr>vma_idx := vma_idx pl + 1\<rparr>;
          pl2 = (if fullpath_prev pl1 \<noteq> fullpath then \<lparr>vma_idx = 1, file_offset = 0, fullpath_prev = fullpath\<rparr> else pl1)
      in if vma_idx pl2 = 1 \<and> \<not> vm_exec v then pl2\<lparr>file_offset := vm_size v\<rparr> else pl2)"

definition is_text :: "vm_area \<Rightarrow> bool" where
  "is_text v \<longleftrightarrow> vm_exec v \<and> \<not> vm_write v"

text \<open>A size that is used and does not fit an int is a fault.\<close>

definition size_fits :: "vm_area \<Rightarrow> vma_place \<Rightarrow> bool" where
  "size_fits v pl \<longleftrightarrow> vm_size v < 2 ^ 31 \<or> \<not> is_text v \<and> \<not> (vma_idx pl = 1 \<and> \<not> vm_exec v)"

definition DOT_SO :: "byte list" where "DOT_SO = [46, 115, 111]"

record ids_loop =
  il_i :: nat
  il_exe_hash :: "byte list"
  il_hash :: "byte list"
  il_name :: "byte list"

text \<open>The digest of the first text is kept as that of the main program.\<close>

definition next_loop :: "byte list \<Rightarrow> ids_loop \<Rightarrow> ids_loop" where
  "next_loop hash l = l\<lparr>il_i := Suc (il_i l), il_hash := hash, il_exe_hash := (if il_i l = 0 then hash else il_exe_hash l)\<rparr>"

text \<open>
  Mappings of files that end in \<open>.so\<close> are skipped before the main program is found; the test reads three
  bytes before the end of the path. The result is -1 or the name.
\<close>

fun identity_vmas :: "ids_env \<Rightarrow> ids_state \<Rightarrow> ids_loop \<Rightarrow> vma_place \<Rightarrow> ids_vma list \<Rightarrow> (int + byte list) option" where
  "identity_vmas env s l pl [] = Some (Inr (il_name l))"
| "identity_vmas env s l pl (v # vs) =
     (if \<not> vm_file (iv_area v) then identity_vmas env s l pl vs
      else case iv_path v of None \<Rightarrow> Some (Inl (-1))
      | Some fullpath \<Rightarrow>
          if il_i l = 0 \<and> length fullpath < 3 then None
          else if il_i l = 0 \<and> drop (length fullpath - 3) fullpath = DOT_SO
          then identity_vmas env s l (pl\<lparr>vma_idx := vma_idx pl + 1\<rparr>) vs
          else let pl1 = next_place fullpath (iv_area v) pl in
            if \<not> size_fits (iv_area v) pl1 then None
            else if \<not> is_text (iv_area v) then identity_vmas env s l pl1 vs
            else (case (if is_special_kernel_version \<noteq> 0 then Some (task_cal_file_hash env fullpath (il_hash l))
                        else ids_task_cal_mem_file_hash env fullpath (vm_start (iv_area v)) (vm_size (iv_area v))
                               (file_offset pl1) (il_hash l)) of None \<Rightarrow> None
              | Some (ret, hash) \<Rightarrow>
                  if ret \<noteq> 0 then Some (Inl (-1))
                  else let l1 = next_loop hash l in
                    if il_i l1 > 1 \<and> process_verify_lib_mode s = PROCESS_VERIFY_MODE_REF_LIB
                    then (if query_process_identity_lib_hash (ie_jhash env) (ie_whitelist env) hash \<noteq> 0 then Some (Inl (-1))
                          else identity_vmas env s l1 pl1 vs)
                    else (case qurey_hash_from_process_identity_policy (il_exe_hash l1) hash 256 (g_list_policy_process_identity s) of
                            None \<Rightarrow> None
                          | Some (Inl e) \<Rightarrow> Some (Inl (-1))
                          | Some (Inr name) \<Rightarrow>
                              if process_verify_lib_mode s = PROCESS_VERIFY_MODE_NO_LIB then Some (Inr name)
                              else identity_vmas env s (l1\<lparr>il_name := name\<rparr>) pl1 vs)))"

definition get_process_identity :: "ids_env \<Rightarrow> ids_state \<Rightarrow> (int + byte list) option" where
  "get_process_identity env s = (case ie_self env of None \<Rightarrow> Some (Inl (-1))
     | Some (exe, vmas) \<Rightarrow>
         if \<not> exe then Some (Inl (-1))
         else if vmas = [] then Some (Inl (-1))
         else if \<not> ie_path_buffer env then None
         else identity_vmas env s \<lparr>il_i = 0, il_exe_hash = replicate LEN_HASH 0, il_hash = replicate LEN_HASH 0, il_name = []\<rparr>
                start_place vmas)"

definition is_role_member :: "ids_env \<Rightarrow> byte list \<Rightarrow> ids_state \<Rightarrow> int option" where
  "is_role_member env name s = (case get_process_identity env s of None \<Rightarrow> None
     | Some (Inl e) \<Rightarrow> Some 0
     | Some (Inr process_name) \<Rightarrow>
         if list_ex (\<lambda>r. strcmp (role_name r) name = 0 \<and> list_ex (\<lambda>m. strcmp m process_name = 0) (role_members r))
              (g_list_policy_process_role s)
         then Some 1 else Some 0)"

section \<open>Verifying a process\<close>

definition qurey_name :: "byte list \<Rightarrow> ids_state \<Rightarrow> process_identity_user option" where
  "qurey_name name s = find (\<lambda>p. strcmp name (pu_name p) = 0) (g_list_policy_process_identity s)"

fun verify_vmas ::
  "ids_env \<Rightarrow> ids_state \<Rightarrow> process_identity_user \<Rightarrow> nat \<Rightarrow> byte list \<Rightarrow> vma_place \<Rightarrow> ids_vma list \<Rightarrow> int option" where
  "verify_vmas env s p i hash pl [] = Some 0"
| "verify_vmas env s p i hash pl (v # vs) =
     (if \<not> vm_file (iv_area v) then verify_vmas env s p i hash pl vs
      else case iv_path v of None \<Rightarrow> Some TSB_ERROR_SYSTEM
      | Some fullpath \<Rightarrow>
          let pl1 = next_place fullpath (iv_area v) pl in
            if \<not> size_fits (iv_area v) pl1 then None
            else if \<not> is_text (iv_area v) then verify_vmas env s p i hash pl1 vs
            else (case ids_task_cal_mem_file_hash env fullpath (vm_start (iv_area v)) (vm_size (iv_area v))
                         (file_offset pl1) hash of None \<Rightarrow> None
              | Some (ret, hash1) \<Rightarrow>
                  if ret \<noteq> 0 then Some TSB_ERROR_CALC_HASH
                  else if i + 1 > 1 \<and> process_verify_lib_mode s = PROCESS_VERIFY_MODE_REF_LIB
                  then (if query_process_identity_lib_hash (ie_jhash env) (ie_whitelist env) hash1 \<noteq> 0 then Some TSB_MEASURE_FAILE
                        else verify_vmas env s p (i + 1) hash1 pl1 vs)
                  else (case qurey_hash hash1 p of None \<Rightarrow> None
                    | Some r \<Rightarrow>
                        if r \<noteq> 0 then Some TSB_MEASURE_FAILE
                        else if process_verify_lib_mode s = PROCESS_VERIFY_MODE_NO_LIB then Some 0
                        else verify_vmas env s p (i + 1) hash1 pl1 vs)))"

definition tsb_verify_process_taskp :: "ids_env \<Rightarrow> ids_mm \<Rightarrow> byte list \<Rightarrow> ids_state \<Rightarrow> int option" where
  "tsb_verify_process_taskp env task name s = (case qurey_name name s of None \<Rightarrow> Some TSB_ERROR_PROCESS_IDENTITY_POLICY
     | Some p \<Rightarrow> (case task of None \<Rightarrow> Some TSB_ERROR_SYSTEM
         | Some (exe, vmas) \<Rightarrow>
             if \<not> exe then Some TSB_ERROR_SYSTEM
             else if vmas = [] then Some (-1)
             else if \<not> ie_path_buffer env then None
             else verify_vmas env s p 0 (replicate LEN_HASH 0) start_place vmas))"

definition tsb_verify_process :: "ids_env \<Rightarrow> int \<Rightarrow> byte list \<Rightarrow> ids_state \<Rightarrow> int option" where
  "tsb_verify_process env pid name s =
     (if pid = 0 then tsb_verify_process_taskp env (ie_self env) name s
      else case ie_task env pid of None \<Rightarrow> Some TSB_ERROR_SYSTEM
        | Some task \<Rightarrow> tsb_verify_process_taskp env task name s)"

definition tsb_get_process_identity :: "ids_env \<Rightarrow> ids_state \<Rightarrow> (int + byte list) option" where
  "tsb_get_process_identity = get_process_identity"

definition tsb_is_role_member :: "ids_env \<Rightarrow> byte list \<Rightarrow> ids_state \<Rightarrow> int option" where
  "tsb_is_role_member = is_role_member"

section \<open>The user's interface of the identities\<close>

definition TYPE_PROCESS_IDENTITY_VERIFY :: int where "TYPE_PROCESS_IDENTITY_VERIFY = 1"
definition TYPE_PROCESS_IDENTITY_GET :: int where "TYPE_PROCESS_IDENTITY_GET = 2"
definition TYPE_PROCESS_IDENTITY_ROLE :: int where "TYPE_PROCESS_IDENTITY_ROLE = 3"

text \<open>
  The result and the bytes that are copied to \<open>parameter.data\<close>, however small the buffer of the caller is. The length
  is copied to \<open>&parameter.length\<close>, which is an address of the kernel: copy_to_user refuses it and
  the caller does not get the length.
\<close>

definition ioctl_process_identity_user_interface ::
  "ids_env \<Rightarrow> bool \<Rightarrow> user_interface_parameter option \<Rightarrow> ids_state \<Rightarrow> (int \<times> byte list) option" where
  "ioctl_process_identity_user_interface env valloc param s = (case param of None \<Rightarrow> Some (-1, [])
     | Some par \<Rightarrow>
         if ui_length par = 0 then Some (-1, [])
         else if \<not> valloc \<or> ui_length par < 0 then Some (-1, [])
         else (case ui_data par of None \<Rightarrow> Some (-1, [])
           | Some data \<Rightarrow>
               let p_buff = take (nat (ui_length par)) data in
               if ui_type par = TYPE_PROCESS_IDENTITY_VERIFY
               then (if length p_buff < 4 \<or> 0 \<notin> set (drop 4 p_buff) then None
                     else map_option (\<lambda>r. (r, [])) (tsb_verify_process env (le32_int p_buff) (drop 4 p_buff) s))
               else if ui_type par = TYPE_PROCESS_IDENTITY_GET
               then (case get_process_identity env s of None \<Rightarrow> None
                 | Some (Inl e) \<Rightarrow> Some (TSB_MEASURE_FAILE, [])
                 | Some (Inr name) \<Rightarrow> Some (0, name @ [0]))
               else if ui_type par = TYPE_PROCESS_IDENTITY_ROLE
               then (if 0 \<notin> set p_buff then None else map_option (\<lambda>r. (r, [])) (is_role_member env p_buff s))
               else Some (TSB_MEASURE_FAILE, [])))"

section \<open>Loading and unloading of the identities\<close>

definition clean_policy_list :: "ids_state \<Rightarrow> ids_state" where
  "clean_policy_list s = s\<lparr>g_list_policy_process_identity := [], g_list_policy_process_role := []\<rparr>"

definition update_process_identity_conf :: "global_control_policy \<Rightarrow> u32 \<Rightarrow> int \<Rightarrow> ids_state \<Rightarrow> ids_state" where
  "update_process_identity_conf gp tpcm_feature valid_license s =
     (if process_verify_lib_mode s \<noteq> be_process_verify_lib_mode gp
      then s\<lparr>process_verify_lib_mode := be_process_verify_lib_mode gp\<rparr> else s)"

definition process_identity_feature_conf_notify_func :: "feature_state \<Rightarrow> ids_state \<Rightarrow> ids_state" where
  "process_identity_feature_conf_notify_func fs s =
     (case get_global_feature_conf fs of (ret, gp, feature, license) \<Rightarrow>
        if ret \<noteq> 0 then s else update_process_identity_conf gp feature license s)"

abbreviation (input) IDS_NOTIFY :: fptr where "IDS_NOTIFY \<equiv> ''process_identity_feature_conf_notify_func''"

definition ids_command_list :: "(int \<times> fptr) list" where
  "ids_command_list = [(COMMAND_SET_PROCESS_IDS_POLICY, ''ioctl_process_ids_set_policy''),
     (COMMAND_RELOAD_PROCESS_IDS_POLICY, ''ioctl_process_ids_reload_policy''),
     (COMMAND_SET_PROCESS_ROLES_POLICY, ''ioctl_process_roles_set_policy''),
     (COMMAND_RELOAD_PROCESS_ROLES_POLICY, ''ioctl_process_roles_reload_policy'')]"

text \<open>The last label: the lists and the notification are given back.\<close>

definition process_ids_set_out :: "feature_state \<times> ids_state \<Rightarrow> feature_state \<times> ids_state" where
  "process_ids_set_out = (\<lambda>(fs, s). (snd (unregister_feature_conf_notify FEATURE_PROCESS_IDENTITY IDS_NOTIFY fs), clean_policy_list s))"

text \<open>The four commands are registered in turn. If one is taken, those before it are unregistered.\<close>

fun ids_register :: "(int \<times> fptr) list \<Rightarrow> (int \<times> fptr) list \<Rightarrow> cmd_table \<Rightarrow> bool \<times> cmd_table" where
  "ids_register don [] c = (True, c)"
| "ids_register don ((nr, f) # xs) c =
     (case httcsec_io_command_register nr f c of (r, c1) \<Rightarrow>
        if r \<noteq> 0 then (False, unregister_all don c1) else ids_register ((nr, f) # don) xs c1)"

record ids_init_env =
  ii_kz :: "byte list \<Rightarrow> bool"
  ii_ids :: "int \<times> byte list"
  ii_roles :: "int \<times> byte list"
  ii_callback :: int

text \<open>
  A command that is taken ends the function with the result of the registration of the notification, which is
  zero. The command of the user's interface is not unregistered when the callback is refused.
\<close>

definition process_identity_init ::
  "ids_init_env \<Rightarrow> feature_state \<Rightarrow> ids_state \<Rightarrow> (int \<times> feature_state \<times> ids_state) option" where
  "process_identity_init env fs0 s0 =
     (let s = process_identity_feature_conf_notify_func fs0 s0;
          (ret, fs) = register_feature_conf_notify FEATURE_PROCESS_IDENTITY IDS_NOTIFY fs0
      in case policy_tcs_get_process_ids (ii_kz env) (ii_ids env) s of None \<Rightarrow> None
      | Some (_, s1) \<Rightarrow> (case policy_tcs_get_process_roles (ii_kz env) (ii_roles env) s1 of None \<Rightarrow> None
        | Some (_, s2) \<Rightarrow>
            let (ok, c) = ids_register [] ids_command_list (ids_commands s2); s3 = s2\<lparr>ids_commands := c\<rparr> in
            if \<not> ok then Some (ret, process_ids_set_out (fs, s3))
            else let c1 = snd (httcsec_io_command_register COMMAND_PROCESS_IDENTITY_USER_INTERFACE ''ioctl_process_identity_user_interface'' c)
              in if ii_callback env \<noteq> 0
                 then Some (ii_callback env, process_ids_set_out (fs, s3\<lparr>ids_commands := unregister_all (rev ids_command_list) c1\<rparr>))
                 else Some (0, fs, s3\<lparr>ids_commands := c1, process_identity_callback := True\<rparr>)))"

definition process_identity_exit :: "feature_state \<Rightarrow> ids_state \<Rightarrow> feature_state \<times> ids_state" where
  "process_identity_exit fs s =
     (let c = unregister_all ((COMMAND_PROCESS_IDENTITY_USER_INTERFACE, ''ioctl_process_identity_user_interface'') # rev ids_command_list)
                (ids_commands s)
      in (snd (unregister_feature_conf_notify FEATURE_PROCESS_IDENTITY IDS_NOTIFY fs),
          clean_policy_list (s\<lparr>ids_commands := c, process_identity_callback := False\<rparr>)))"

section \<open>Encoded policies\<close>

text \<open>A well-formed identity: digests of 32 bytes, as many as it says, and a name that fits its length field.\<close>

definition identity_ok :: "process_identity_user \<Rightarrow> bool" where
  "identity_ok p \<longleftrightarrow> hash_length p = LEN_HASH \<and> lib_number p < 65536 \<and> specific_libs p < 256
     \<and> length (pu_hash p) = LEN_HASH * (lib_number p + 1) \<and> length (pu_name p) < 256 \<and> no_nul (pu_name p)"

text \<open>The bytes of an identity without the padding that follows them.\<close>

definition identity_bytes :: "process_identity_user \<Rightarrow> byte list" where
  "identity_bytes p =
     [of_nat (length (pu_name p)), of_nat (specific_libs p), of_nat (hash_length p div 256), of_nat (hash_length p),
      of_nat (lib_number p div 256), of_nat (lib_number p)] @ pu_hash p @ pu_name p"

definition encode_identity :: "process_identity_user \<Rightarrow> byte list" where
  "encode_identity p = identity_bytes p @ replicate (BYTE4_ALIGNMENT (length (identity_bytes p)) - length (identity_bytes p)) 0"

lemma BYTE4_ALIGNMENT_le: "BYTE4_ALIGNMENT n \<le> n + 3"
  unfolding BYTE4_ALIGNMENT_def by presburger

lemma identity_bytes_fields:
  assumes "identity_ok p"
  shows "id_readable (identity_bytes p @ b)" "id_item_len (identity_bytes p @ b) = BYTE4_ALIGNMENT (length (identity_bytes p))"
    "id_item_len (identity_bytes p @ b) < 2 ^ 31" "id_hash_length (identity_bytes p @ b) = LEN_HASH"
    "new_identity (identity_bytes p @ b) = p" "identity_bytes p \<noteq> []"
proof -
  note ok = assms [unfolded identity_ok_def]
  have n: "id_name_length (identity_bytes p @ b) = length (pu_name p)"
    using ok by (simp add: id_name_length_def identity_bytes_def unat_of_nat)
  show h: "id_hash_length (identity_bytes p @ b) = LEN_HASH"
    using ok by (simp add: id_hash_length_def identity_bytes_def LEN_HASH_def be16_def)
  have "lib_number p div 256 < 256" using ok by (intro less_mult_imp_div_less) simp
  then have l: "id_lib_number (identity_bytes p @ b) = lib_number p"
    by (simp add: id_lib_number_def identity_bytes_def unat_of_nat be16_def)
  have hl: "id_hash_len (identity_bytes p @ b) = length (pu_hash p)" using ok by (simp add: id_hash_len_def h l)
  have len: "length (identity_bytes p) = PROCESS_IDENTITY_SIZE + length (pu_name p) + length (pu_hash p)"
    by (simp add: identity_bytes_def PROCESS_IDENTITY_SIZE_def)
  show "id_readable (identity_bytes p @ b)" by (simp add: id_readable_def n hl len)
  show "id_item_len (identity_bytes p @ b) = BYTE4_ALIGNMENT (length (identity_bytes p))" unfolding id_item_len_def n hl len ..
  then show "id_item_len (identity_bytes p @ b) < 2 ^ 31"
    using BYTE4_ALIGNMENT_le [of "length (identity_bytes p)"] ok by (simp add: len PROCESS_IDENTITY_SIZE_def LEN_HASH_def)
  have d: "drop PROCESS_IDENTITY_SIZE (identity_bytes p @ b) = pu_hash p @ pu_name p @ b"
    by (simp add: identity_bytes_def PROCESS_IDENTITY_SIZE_def)
  have "drop (PROCESS_IDENTITY_SIZE + length (pu_hash p)) (identity_bytes p @ b) = drop (length (pu_hash p)) (pu_hash p @ pu_name p @ b)"
    unfolding d [symmetric] drop_drop by (simp only: add.commute)
  then have name: "take (length (pu_name p)) (drop (PROCESS_IDENTITY_SIZE + length (pu_hash p)) (identity_bytes p @ b)) = pu_name p"
    by simp
  have one: "(identity_bytes p @ b) ! 1 = of_nat (specific_libs p)" by (simp add: identity_bytes_def)
  show "new_identity (identity_bytes p @ b) = p"
    unfolding new_identity_def n h l hl d name one using ok by (simp add: unat_of_nat)
  show "identity_bytes p \<noteq> []" by (simp add: identity_bytes_def)
qed

lemma encode_identity_fields:
  assumes "identity_ok p"
  shows "id_readable (encode_identity p @ b)" "id_item_len (encode_identity p @ b) = length (encode_identity p)"
    "id_item_len (encode_identity p @ b) < 2 ^ 31" "id_hash_length (encode_identity p @ b) = LEN_HASH"
    "new_identity (encode_identity p @ b) = p" "encode_identity p \<noteq> []"
  using identity_bytes_fields [OF assms] BYTE4_ALIGNMENT_ge [of "length (identity_bytes p)"] by (simp_all add: encode_identity_def)

lemma repeat_check_in_bounds:
  "\<forall>p\<in>set ids. n \<le> length (pu_hash p) \<Longrightarrow> n \<le> length h \<Longrightarrow> check_policy_process_ids_repeat h n ids \<noteq> None"
  by (induction ids) auto

lemma identity_ok_hash: "identity_ok p \<Longrightarrow> LEN_HASH \<le> length (pu_hash p)"
  by (simp add: identity_ok_def)

lemma parse_encoded_ids:
  assumes "\<forall>p\<in>set xs. identity_ok p" "\<forall>p\<in>set ids. identity_ok p" "\<forall>b. kz b"
  shows "parse_policy_process_ids kz (concat (map encode_identity xs)) ids = Some (0, rev xs @ ids)"
  using assms(1,2)
proof (induction xs arbitrary: ids)
  case Nil
  show ?case by (simp add: parse_policy_process_ids.simps)
next
  case (Cons x xs)
  define b where "b = concat (map encode_identity xs)"
  have x: "identity_ok x" using Cons.prems(1) by simp
  note f = encode_identity_fields(1-5) [OF x, where b = b] encode_identity_fields(6) [OF x]
  have "LEN_HASH \<le> length (drop PROCESS_IDENTITY_SIZE (encode_identity x @ b))"
    using identity_ok_hash [OF x] by (simp add: encode_identity_def identity_bytes_def PROCESS_IDENTITY_SIZE_def)
  then have r: "check_policy_process_ids_repeat (drop PROCESS_IDENTITY_SIZE (encode_identity x @ b)) LEN_HASH ids \<noteq> None"
    using Cons.prems(2) identity_ok_hash by (intro repeat_check_in_bounds) auto
  have "encode_identity x @ b \<noteq> []" using f(6) by simp
  then have "parse_policy_process_ids kz (encode_identity x @ b) ids = parse_policy_process_ids kz b (x # ids)"
    using f(1-5) r assms(3) by (subst parse_policy_process_ids.simps) (simp del: append_is_Nil_conv not_None_eq)
  also have "\<dots> = Some (0, rev xs @ x # ids)" using Cons x by (simp add: b_def)
  finally show ?case by (simp add: b_def)
qed

definition role_ok :: "process_role_user \<Rightarrow> bool" where
  "role_ok r \<longleftrightarrow> (\<forall>m\<in>set (role_members r). length m < 256)
     \<and> PROCESS_ROLE_SIZE + length (role_name r) + length (concat (map (\<lambda>m. 0 # m) (role_members r))) + 3 < 2 ^ 31"

definition encode_member :: "byte list \<Rightarrow> byte list" where
  "encode_member m = of_nat (length m) # m"

definition role_bytes :: "process_role_user \<Rightarrow> byte list" where
  "role_bytes r =
     (let ms = concat (map encode_member (role_members r))
      in PUT_ULONG_BE (of_nat (length (role_name r))) @ PUT_ULONG_BE (of_nat (length ms))
         @ PUT_ULONG_BE (of_nat (length (role_members r))) @ role_name r @ ms)"

definition encode_role :: "process_role_user \<Rightarrow> byte list" where
  "encode_role r = role_bytes r @ replicate (BYTE4_ALIGNMENT (length (role_bytes r)) - length (role_bytes r)) 0"

lemma read_encoded_members:
  "\<forall>m\<in>set ms. length m < 256 \<Longrightarrow> read_members (length ms) (concat (map encode_member ms) @ b) = Some ms"
  by (induction ms) (simp_all add: encode_member_def unat_of_nat)

lemma encode_member_length: "length (concat (map encode_member ms)) = length (concat (map (\<lambda>m. 0 # m) ms))"
  by (induction ms) (simp_all add: encode_member_def)

lemma members_number_le: "length ms \<le> length (concat (map encode_member ms))"
  by (induction ms) (simp_all add: encode_member_def)

lemma role_bytes_fields:
  assumes "role_ok r"
  shows "role_name_length (role_bytes r @ b) = length (role_name r)"
    "role_members_length (role_bytes r @ b) = length (concat (map encode_member (role_members r)))"
    "role_members_number (role_bytes r @ b) = length (role_members r)"
    "role_item_len (role_bytes r @ b) = BYTE4_ALIGNMENT (length (role_bytes r))" "role_item_len (role_bytes r @ b) < 2 ^ 31"
    "PROCESS_ROLE_SIZE + length (role_name r) \<le> length (role_bytes r)" "role_bytes r \<noteq> []"
    "take (length (role_name r)) (drop PROCESS_ROLE_SIZE (role_bytes r @ b)) = role_name r"
    "read_members (length (role_members r)) (drop (PROCESS_ROLE_SIZE + length (role_name r)) (role_bytes r @ b)) = Some (role_members r)"
proof -
  define ms where "ms = concat (map encode_member (role_members r))"
  define n where "n = PROCESS_ROLE_SIZE + length (role_name r) + length ms"
  have small: "n + 3 < 2 ^ 31" using assms by (simp add: role_ok_def n_def ms_def encode_member_length)
  have num: "length (role_members r) \<le> length ms" unfolding ms_def by (rule members_number_le)
  have e: "role_bytes r = PUT_ULONG_BE (of_nat (length (role_name r))) @ PUT_ULONG_BE (of_nat (length ms))
      @ PUT_ULONG_BE (of_nat (length (role_members r))) @ role_name r @ ms"
    by (simp add: role_bytes_def Let_def ms_def)
  have put: "length (PUT_ULONG_BE w) = 4" for w by (simp add: PUT_ULONG_BE_def)
  have len: "length (role_bytes r) = n" by (simp add: e put n_def PROCESS_ROLE_SIZE_def)
  show 1: "role_name_length (role_bytes r @ b) = length (role_name r)"
    using small by (simp add: role_name_length_def e be32_bytes unat_of_nat n_def)
  show 2: "role_members_length (role_bytes r @ b) = length (concat (map encode_member (role_members r)))"
    using small by (simp add: role_members_length_def e be32_bytes unat_of_nat n_def put ms_def [symmetric])
  show "role_members_number (role_bytes r @ b) = length (role_members r)"
    using small num by (simp add: role_members_number_def e be32_bytes unat_of_nat n_def put)
  show il: "role_item_len (role_bytes r @ b) = BYTE4_ALIGNMENT (length (role_bytes r))"
    using small by (simp add: role_item_len_def 1 2 ms_def [symmetric] len n_def)
  show "role_item_len (role_bytes r @ b) < 2 ^ 31" using il BYTE4_ALIGNMENT_le [of n] small by (simp add: len)
  show "PROCESS_ROLE_SIZE + length (role_name r) \<le> length (role_bytes r)" by (simp add: len n_def)
  show "role_bytes r \<noteq> []" by (simp add: e PUT_ULONG_BE_def)
  show "take (length (role_name r)) (drop PROCESS_ROLE_SIZE (role_bytes r @ b)) = role_name r"
    by (simp add: e put PROCESS_ROLE_SIZE_def)
  have "drop (PROCESS_ROLE_SIZE + length (role_name r)) (role_bytes r @ b) = ms @ b"
    by (simp add: e put PROCESS_ROLE_SIZE_def)
  then show "read_members (length (role_members r)) (drop (PROCESS_ROLE_SIZE + length (role_name r)) (role_bytes r @ b)) = Some (role_members r)"
    using assms read_encoded_members [of "role_members r" b] by (simp add: role_ok_def ms_def)
qed

lemma encode_role_fields:
  assumes "role_ok r"
  shows "role_name_length (encode_role r @ b) = length (role_name r)"
    "role_members_length (encode_role r @ b) = length (concat (map encode_member (role_members r)))"
    "role_members_number (encode_role r @ b) = length (role_members r)"
    "role_item_len (encode_role r @ b) = length (encode_role r)" "role_item_len (encode_role r @ b) < 2 ^ 31"
    "PROCESS_ROLE_SIZE + length (role_name r) \<le> length (encode_role r)" "encode_role r \<noteq> []"
    "take (length (role_name r)) (drop PROCESS_ROLE_SIZE (encode_role r @ b)) = role_name r"
    "read_members (length (role_members r)) (drop (PROCESS_ROLE_SIZE + length (role_name r)) (encode_role r @ b)) = Some (role_members r)"
  using role_bytes_fields(1-5,8,9) [OF assms, where b = "replicate (BYTE4_ALIGNMENT (length (role_bytes r)) - length (role_bytes r)) 0 @ b"]
    role_bytes_fields(6,7) [OF assms] BYTE4_ALIGNMENT_ge [of "length (role_bytes r)"]
  unfolding encode_role_def append_assoc by (simp_all del: drop_append take_append)

lemma parse_encoded_roles:
  assumes "\<forall>r\<in>set xs. role_ok r" "\<forall>b. kz b"
  shows "parse_policy_process_roles kz (concat (map encode_role xs)) roles = Some (0, rev xs @ roles)"
  using assms(1)
proof (induction xs arbitrary: roles)
  case Nil
  show ?case by (simp add: parse_policy_process_roles.simps)
next
  case (Cons x xs)
  define b where "b = concat (map encode_role xs)"
  have x: "role_ok x" using Cons.prems by simp
  note f = encode_role_fields(1-5,8,9) [OF x, where b = b] encode_role_fields(6,7) [OF x]
  have ne: "encode_role x @ b \<noteq> []" "length (encode_role x) \<noteq> 0" using f(9) by simp_all
  have surj: "\<lparr>role_name = role_name x, role_members = role_members x\<rparr> = x" by simp
  from ne have "parse_policy_process_roles kz (encode_role x @ b) roles = parse_policy_process_roles kz b (x # roles)"
    using f(1-8) assms(2) by (subst parse_policy_process_roles.simps) (simp add: surj del: append_is_Nil_conv)
  also have "\<dots> = Some (0, rev xs @ x # roles)" using Cons by (simp add: b_def)
  finally show ?case by (simp add: b_def)
qed

text \<open>C32. The lists of identities and of roles are read back as they were written: setting an encoded list replaces the
  old one by exactly its items, newest first, and keeps the other list; an empty list of length 0 clears.
\<close>

theorem identity_policies_roundtrip:
  assumes "\<forall>p\<in>set ids. identity_ok p" "\<forall>r\<in>set roles. role_ok r"
    and "length (concat (map encode_identity ids)) < 2 ^ 31" "length (concat (map encode_role roles)) < 2 ^ 31"
  shows "ioctl_process_ids_set_policy (\<lambda>b. True) True
      (Some \<lparr>gp_length = int (length (concat (map encode_identity ids))), gp_data = Some (concat (map encode_identity ids))\<rparr>) s
        = Some (0, s\<lparr>g_list_policy_process_identity := rev ids\<rparr>)
    \<and> ioctl_process_roles_set_policy (\<lambda>b. True) True
      (Some \<lparr>gp_length = int (length (concat (map encode_role roles))), gp_data = Some (concat (map encode_role roles))\<rparr>) s
        = Some (0, s\<lparr>g_list_policy_process_role := rev roles\<rparr>)"
proof
  have ids: "concat (map encode_identity ids) = [] \<longleftrightarrow> ids = []" and roles: "concat (map encode_role roles) = [] \<longleftrightarrow> roles = []"
    using assms(1,2) encode_identity_fields(6) encode_role_fields(7) by (cases ids; cases roles; simp)+
  have p: "parse_policy_process_ids (\<lambda>b. True) (concat (map encode_identity ids)) [] = Some (0, rev ids)"
    using parse_encoded_ids [OF assms(1), of "[]" "\<lambda>b. True"] by simp
  have q: "parse_policy_process_roles (\<lambda>b. True) (concat (map encode_role roles)) [] = Some (0, rev roles)"
    using parse_encoded_roles [OF assms(2), of "\<lambda>b. True" "[]"] by simp
  show "ioctl_process_ids_set_policy (\<lambda>b. True) True
      (Some \<lparr>gp_length = int (length (concat (map encode_identity ids))), gp_data = Some (concat (map encode_identity ids))\<rparr>) s
        = Some (0, s\<lparr>g_list_policy_process_identity := rev ids\<rparr>)"
    unfolding ioctl_process_ids_set_policy_def clean_policy_list_process_ids_def using p ids
    by (simp del: concat_eq_Nil_conv length_concat)
  show "ioctl_process_roles_set_policy (\<lambda>b. True) True
      (Some \<lparr>gp_length = int (length (concat (map encode_role roles))), gp_data = Some (concat (map encode_role roles))\<rparr>) s
        = Some (0, s\<lparr>g_list_policy_process_role := rev roles\<rparr>)"
    unfolding ioctl_process_roles_set_policy_def clean_policy_list_process_roles_def using q roles
    by (simp del: concat_eq_Nil_conv length_concat)
qed

section \<open>What is measured\<close>

text \<open>The executable mappings with the path of their file and the offset that is used for their text. As long as
  \<open>skip\<close> holds, files that end in \<open>.so\<close> are left out. \<open>None\<close>: a path or a size cannot be used.\<close>

fun texts :: "bool \<Rightarrow> vma_place \<Rightarrow> ids_vma list \<Rightarrow> (byte list \<times> vm_area \<times> nat) list option" where
  "texts skip pl [] = Some []"
| "texts skip pl (v # vs) =
     (if \<not> vm_file (iv_area v) then texts skip pl vs
      else case iv_path v of None \<Rightarrow> None
      | Some path \<Rightarrow>
          if skip \<and> length path < 3 then None
          else if skip \<and> drop (length path - 3) path = DOT_SO then texts skip (pl\<lparr>vma_idx := vma_idx pl + 1\<rparr>) vs
          else let pl1 = next_place path (iv_area v) pl in
            if \<not> size_fits (iv_area v) pl1 then None
            else if \<not> is_text (iv_area v) then texts skip pl1 vs
            else map_option ((#) (path, iv_area v, file_offset pl1)) (texts False pl1 vs))"

text \<open>What the digest of a mapping is taken of: the file, with the pages of the current task in place of its text.\<close>

definition text_image :: "ids_env \<Rightarrow> byte list \<times> vm_area \<times> nat \<Rightarrow> byte list \<Rightarrow> bool" where
  "text_image env = (\<lambda>(path, v, fo) c. \<exists>f fc pages. fe_open (ie_current env) False path = Some f \<and> kfile_exact f fc
     \<and> fo \<le> length fc \<and> 4096 dvd fo \<and> pages_read (ie_current env) (vm_start v) (vm_size v) pages
     \<and> c = mem_image fc fo (vm_start v) (vm_size v) pages)"

lemma text_image_hash:
  assumes "text_image env (path, v, fo) c" "length hash = LEN_HASH"
  shows "ids_task_cal_mem_file_hash env path (vm_start v) (vm_size v) fo hash = Some (0, gb_sm3 c)"
proof -
  obtain f fc pages where "fe_open (ie_current env) False path = Some f" "kfile_exact f fc"
    "fo \<le> length fc" "4096 dvd fo" "pages_read (ie_current env) (vm_start v) (vm_size v) pages"
    and c: "c = mem_image fc fo (vm_start v) (vm_size v) pages"
    using assms(1) by (auto simp: text_image_def)
  from task_cal_mem_file_hash_ok [OF this(1-5)] show ?thesis
    unfolding ids_task_cal_mem_file_hash_def c using assms(2) by (simp add: LEN_HASH_def)
qed

text \<open>The decision over the digests in the order of the mappings.\<close>

fun decide :: "ids_env \<Rightarrow> ids_state \<Rightarrow> nat \<Rightarrow> byte list \<Rightarrow> byte list \<Rightarrow> byte list list \<Rightarrow> (int + byte list) option" where
  "decide env s i exe name [] = Some (Inr name)"
| "decide env s i exe name (h # hs) =
     (let exe1 = (if i = 0 then h else exe) in
      if i > 0 \<and> process_verify_lib_mode s = PROCESS_VERIFY_MODE_REF_LIB
      then (if query_process_identity_lib_hash (ie_jhash env) (ie_whitelist env) h \<noteq> 0 then Some (Inl (-1))
            else decide env s (Suc i) exe1 name hs)
      else (case qurey_hash_from_process_identity_policy exe1 h 256 (g_list_policy_process_identity s) of
              None \<Rightarrow> None
            | Some (Inl e) \<Rightarrow> Some (Inl (-1))
            | Some (Inr n) \<Rightarrow>
                if process_verify_lib_mode s = PROCESS_VERIFY_MODE_NO_LIB then Some (Inr n)
                else decide env s (Suc i) exe1 n hs))"

lemma gb_sm3_length [simp]: "length (gb_sm3 c) = LEN_HASH"
  by (simp add: length_gb_sm3 LEN_HASH_def)

lemma identity_vmas_decide:
  assumes "texts (il_i l = 0) pl vs = Some ts" "list_all2 (text_image env) ts cs" "length (il_hash l) = LEN_HASH"
  shows "identity_vmas env s l pl vs = decide env s (il_i l) (il_exe_hash l) (il_name l) (map gb_sm3 cs)"
  using assms
proof (induction vs arbitrary: l pl ts cs)
  case Nil
  then show ?case by simp
next
  case (Cons v vs)
  show ?case
  proof (cases "vm_file (iv_area v)")
    case False
    with Cons show ?thesis by simp
  next
    case True
    then obtain path where path: "iv_path v = Some path" using Cons.prems(1) by (auto split: option.splits)
    consider (so) "il_i l = 0" "drop (length path - 3) path = DOT_SO" "\<not> length path < 3"
      | (norm) "\<not> (il_i l = 0 \<and> length path < 3)" "\<not> (il_i l = 0 \<and> drop (length path - 3) path = DOT_SO)"
      using Cons.prems(1) True path by (auto split: if_splits)
    then show ?thesis
    proof cases
      case so
      with Cons True path show ?thesis by simp
    next
      case norm
      let ?pl = "next_place path (iv_area v) pl"
      have fits: "size_fits (iv_area v) ?pl" using Cons.prems(1) True path norm by (auto simp: Let_def split: if_splits)
      show ?thesis
      proof (cases "is_text (iv_area v)")
        case False
        with Cons True path norm fits show ?thesis by (auto simp: Let_def)
      next
        case exec: True
        obtain ts' where ts: "texts False ?pl vs = Some ts'" "ts = (path, iv_area v, file_offset ?pl) # ts'"
          using Cons.prems(1) True path norm fits exec by (auto simp: Let_def split: if_splits)
        then obtain c cs' where cs: "cs = c # cs'" "text_image env (path, iv_area v, file_offset ?pl) c" "list_all2 (text_image env) ts' cs'"
          using Cons.prems(2) by (auto simp: list_all2_Cons1)
        define l1 where "l1 = next_loop (gb_sm3 c) l"
        have l1: "il_i l1 = Suc (il_i l)" "il_exe_hash l1 = (if il_i l = 0 then gb_sm3 c else il_exe_hash l)" "il_name l1 = il_name l"
          "length (il_hash l1) = LEN_HASH" by (simp_all add: l1_def next_loop_def)
        have ih: "identity_vmas env s (l1\<lparr>il_name := n\<rparr>) ?pl vs = decide env s (Suc (il_i l)) (il_exe_hash l1) n (map gb_sm3 cs')" for n
          using Cons.IH [of "l1\<lparr>il_name := n\<rparr>" ?pl, OF _ cs(3)] ts(1) l1 by simp
        have ih0: "identity_vmas env s l1 ?pl vs = decide env s (Suc (il_i l)) (il_exe_hash l1) (il_name l) (map gb_sm3 cs')"
          using Cons.IH [of l1 ?pl, OF _ cs(3)] ts(1) l1 by simp
        have h: "ids_task_cal_mem_file_hash env path (vm_start (iv_area v)) (vm_size (iv_area v)) (file_offset ?pl) (il_hash l) = Some (0, gb_sm3 c)"
          by (rule text_image_hash [OF cs(2) Cons.prems(3)])
        have step: "identity_vmas env s l pl (v # vs) =
            (if il_i l1 > 1 \<and> process_verify_lib_mode s = PROCESS_VERIFY_MODE_REF_LIB
             then (if query_process_identity_lib_hash (ie_jhash env) (ie_whitelist env) (gb_sm3 c) \<noteq> 0 then Some (Inl (-1))
                   else identity_vmas env s l1 ?pl vs)
             else (case qurey_hash_from_process_identity_policy (il_exe_hash l1) (gb_sm3 c) 256 (g_list_policy_process_identity s) of
                     None \<Rightarrow> None
                   | Some (Inl e) \<Rightarrow> Some (Inl (-1))
                   | Some (Inr name) \<Rightarrow>
                       if process_verify_lib_mode s = PROCESS_VERIFY_MODE_NO_LIB then Some (Inr name)
                       else identity_vmas env s (l1\<lparr>il_name := name\<rparr>) ?pl vs))"
          unfolding l1_def using True path fits exec h by (simp add: norm Let_def is_special_kernel_version_def)
        show ?thesis unfolding step ih ih0 cs(1) by (simp add: l1 Let_def split: option.split sum.split)
      qed
    qed
  qed
qed

text \<open>The digests of an identity: that of the program, then those of the libraries.\<close>

definition digests_of :: "process_identity_user \<Rightarrow> byte list list" where
  "digests_of p = map (\<lambda>i. take LEN_HASH (drop (i * LEN_HASH) (pu_hash p))) [0..<Suc (lib_number p)]"

definition program_digest :: "process_identity_user \<Rightarrow> byte list" where
  "program_digest p = take LEN_HASH (pu_hash p)"

lemma qurey_hash_iff:
  assumes "identity_ok p" "length h = LEN_HASH"
  shows "qurey_hash h p = Some (if h \<in> set (digests_of p) then 0 else -1)"
  using assms by (auto simp: qurey_hash_def identity_ok_def digests_of_def memeq_def list_ex_iff image_iff)

lemma program_in_digests: "program_digest p \<in> set (digests_of p)"
  by (simp add: program_digest_def digests_of_def upt_conv_Cons del: upt_Suc)

lemma identity_query:
  assumes "\<forall>p\<in>set ids. identity_ok p" "length exe = LEN_HASH" "length h = LEN_HASH"
  shows "qurey_hash_from_process_identity_policy exe h 256 ids =
    Some (case find (\<lambda>p. program_digest p = exe \<and> h \<in> set (digests_of p)) ids of None \<Rightarrow> Inl (-1) | Some p \<Rightarrow> Inr (pu_name p))"
  using assms(1)
proof (induction ids)
  case (Cons p ps)
  then have ok: "identity_ok p" by simp
  have "memeq (pu_hash p) exe (hash_length p) \<longleftrightarrow> program_digest p = exe"
    using ok assms(2) by (simp add: identity_ok_def memeq_def program_digest_def)
  moreover have "list_ex (\<lambda>i. memeq (drop (i * hash_length p) (pu_hash p)) h (hash_length p)) [0..<Suc (lib_number p)] \<longleftrightarrow> h \<in> set (digests_of p)"
    using qurey_hash_iff [OF ok assms(3)] ok by (auto simp: qurey_hash_def identity_ok_def split: if_splits)
  moreover have "take 255 (cstr (pu_name p)) = pu_name p" "hash_length p = LEN_HASH" using ok by (simp_all add: identity_ok_def cstr_no_nul)
  ultimately show ?case using Cons by simp
qed simp

lemma find_unique:
  assumes "distinct (map program_digest ids)"
  shows "find (\<lambda>p. program_digest p = exe \<and> Q p) ids = (case find (\<lambda>p. program_digest p = exe) ids of None \<Rightarrow> None | Some p \<Rightarrow> if Q p then Some p else None)"
  using assms
proof (induction ids)
  case (Cons p ps)
  show ?case
  proof (cases "program_digest p = exe")
    case True
    then have "find (\<lambda>p. program_digest p = exe \<and> Q p) ps = None" using Cons.prems by (auto simp: find_None_iff image_iff)
    with True show ?thesis by simp
  next
    case False
    with Cons show ?thesis by simp
  qed
qed simp

text \<open>Whether the libraries of a process are those its identity allows.\<close>

definition libraries_ok :: "ids_env \<Rightarrow> ids_state \<Rightarrow> process_identity_user \<Rightarrow> byte list list \<Rightarrow> bool" where
  "libraries_ok env s p hs \<longleftrightarrow> process_verify_lib_mode s = PROCESS_VERIFY_MODE_NO_LIB
     \<or> (\<forall>h\<in>set hs. if process_verify_lib_mode s = PROCESS_VERIFY_MODE_REF_LIB
          then query_process_identity_lib_hash (ie_jhash env) (ie_whitelist env) h = 0 else h \<in> set (digests_of p))"

lemmas verify_modes = PROCESS_VERIFY_MODE_NO_LIB_def PROCESS_VERIFY_MODE_REF_LIB_def

lemma decide_libraries:
  assumes "\<forall>p\<in>set (g_list_policy_process_identity s). identity_ok p" "distinct (map program_digest (g_list_policy_process_identity s))"
    and "find (\<lambda>p. program_digest p = exe) (g_list_policy_process_identity s) = Some p" "\<forall>h\<in>set hs. length h = LEN_HASH" "length exe = LEN_HASH"
    and "process_verify_lib_mode s \<noteq> PROCESS_VERIFY_MODE_NO_LIB" "i > 0"
  shows "decide env s i exe (pu_name p) hs = Some (if libraries_ok env s p hs then Inr (pu_name p) else Inl (-1))"
  using assms(4,7)
proof (induction hs arbitrary: i)
  case Nil
  then show ?case by (simp add: libraries_ok_def)
next
  case (Cons h hs)
  have q: "qurey_hash_from_process_identity_policy exe h 256 (g_list_policy_process_identity s) =
      Some (if h \<in> set (digests_of p) then Inr (pu_name p) else Inl (-1))"
    using Cons.prems(1) assms(3) by (simp add: identity_query [OF assms(1,5)] find_unique [OF assms(2)])
  show ?case using Cons.IH [of "Suc i"] Cons.prems q assms(6) by (simp add: Let_def libraries_ok_def)
qed

text \<open>C5. The identity of the current process. Let the executable mappings of the process stand for the contents \<open>c\<close> (the
  main program) and \<open>cs\<close> (the libraries). The process gets the name of the identity whose program digest is the SM3
  hash of \<open>c\<close>, provided the mode of verification accepts its libraries: all of them, those whose
  hash is on the whitelist, or those whose hash the identity lists. Otherwise it has no identity. It has a role
  exactly if that name is among the members of a role of this name.
\<close>

theorem process_identity_decides:
  assumes "ie_self env = Some (True, vmas)" "ie_path_buffer env" "texts True start_place vmas = Some ts"
    and "list_all2 (text_image env) ts (c # cs)"
    and "\<forall>p\<in>set (g_list_policy_process_identity s). identity_ok p" "distinct (map program_digest (g_list_policy_process_identity s))"
  shows "get_process_identity env s =
      Some (case find (\<lambda>p. program_digest p = gb_sm3 c) (g_list_policy_process_identity s) of None \<Rightarrow> Inl (-1)
        | Some p \<Rightarrow> if libraries_ok env s p (map gb_sm3 cs) then Inr (pu_name p) else Inl (-1))
    \<and> (is_role_member env name s = Some 1 \<longleftrightarrow> (\<exists>n. get_process_identity env s = Some (Inr n)
        \<and> (\<exists>r\<in>set (g_list_policy_process_role s). cstr (role_name r) = cstr name \<and> n \<in> cstr ` set (role_members r))))"
proof
  let ?l = "\<lparr>il_i = 0, il_exe_hash = replicate LEN_HASH 0, il_hash = replicate LEN_HASH 0, il_name = []\<rparr> :: ids_loop"
  have "vmas \<noteq> []" using assms(3,4) by auto
  then have g: "get_process_identity env s = decide env s 0 (replicate LEN_HASH 0) [] (map gb_sm3 (c # cs))"
    using assms(1,2) identity_vmas_decide [of ?l start_place vmas ts env "c # cs" s] assms(3,4) by (simp add: get_process_identity_def)
  have q: "qurey_hash_from_process_identity_policy (gb_sm3 c) (gb_sm3 c) 256 (g_list_policy_process_identity s) =
      Some (case find (\<lambda>p. program_digest p = gb_sm3 c) (g_list_policy_process_identity s) of None \<Rightarrow> Inl (-1) | Some p \<Rightarrow> Inr (pu_name p))"
  proof -
    have "(\<lambda>p. program_digest p = gb_sm3 c \<and> gb_sm3 c \<in> set (digests_of p)) = (\<lambda>p. program_digest p = gb_sm3 c)"
      using program_in_digests by (metis (no_types))
    with identity_query [OF assms(5), of "gb_sm3 c" "gb_sm3 c"] show ?thesis by simp
  qed
  show d: "get_process_identity env s =
      Some (case find (\<lambda>p. program_digest p = gb_sm3 c) (g_list_policy_process_identity s) of None \<Rightarrow> Inl (-1)
        | Some p \<Rightarrow> if libraries_ok env s p (map gb_sm3 cs) then Inr (pu_name p) else Inl (-1))"
  proof (cases "find (\<lambda>p. program_digest p = gb_sm3 c) (g_list_policy_process_identity s)")
    case None
    with q show ?thesis by (simp add: g)
  next
    case (Some p)
    show ?thesis
    proof (cases "process_verify_lib_mode s = PROCESS_VERIFY_MODE_NO_LIB")
      case True
      with q Some show ?thesis by (simp add: g libraries_ok_def)
    next
      case False
      with decide_libraries [OF assms(5,6) Some, of "map gb_sm3 cs" 1 env] q Some show ?thesis by (simp add: g)
    qed
  qed
  show "is_role_member env name s = Some 1 \<longleftrightarrow> (\<exists>n. get_process_identity env s = Some (Inr n)
        \<and> (\<exists>r\<in>set (g_list_policy_process_role s). cstr (role_name r) = cstr name \<and> n \<in> cstr ` set (role_members r)))"
  proof (cases "get_process_identity env s")
    case (Some r)
    have nn: "cstr n = n" if "r = Inr n" for n
    proof -
      from that Some d obtain p where "find (\<lambda>p. program_digest p = gb_sm3 c) (g_list_policy_process_identity s) = Some p" "n = pu_name p"
        by (auto split: option.splits if_splits)
      then have "no_nul n" using assms(5) by (auto simp: find_Some_iff identity_ok_def)
      then show ?thesis by (rule cstr_no_nul)
    qed
    show ?thesis using Some nn by (cases r) (auto simp: is_role_member_def list_ex_iff strcmp_eq_0_iff)
  qed (simp add: is_role_member_def)
qed

lemma verify_vmas_decide:
  assumes "texts False pl vs = Some ts" "list_all2 (text_image env) ts cs" "length hash = LEN_HASH" "identity_ok p"
  shows "verify_vmas env s p i hash pl vs =
    Some (if (if i = 0 then cs = [] \<or> gb_sm3 (hd cs) \<in> set (digests_of p) \<and> libraries_ok env s p (map gb_sm3 (tl cs))
              else cs = [] \<or> process_verify_lib_mode s = PROCESS_VERIFY_MODE_NO_LIB \<and> gb_sm3 (hd cs) \<in> set (digests_of p)
                \<or> process_verify_lib_mode s \<noteq> PROCESS_VERIFY_MODE_NO_LIB \<and> libraries_ok env s p (map gb_sm3 cs)) then 0 else TSB_MEASURE_FAILE)"
  using assms(1-3)
proof (induction vs arbitrary: i hash pl ts cs)
  case Nil
  then show ?case by (simp add: libraries_ok_def)
next
  case (Cons v vs)
  show ?case
  proof (cases "vm_file (iv_area v)")
    case False
    with Cons show ?thesis by simp
  next
    case True
    then obtain path where path: "iv_path v = Some path" using Cons.prems(1) by (auto split: option.splits)
    let ?pl = "next_place path (iv_area v) pl"
    have fits: "size_fits (iv_area v) ?pl" using Cons.prems(1) True path by (auto simp: Let_def split: if_splits)
    show ?thesis
    proof (cases "is_text (iv_area v)")
      case False
      with Cons True path fits show ?thesis by (simp add: Let_def)
    next
      case exec: True
      obtain ts' where ts: "texts False ?pl vs = Some ts'" "ts = (path, iv_area v, file_offset ?pl) # ts'"
        using Cons.prems(1) True path fits exec by (auto simp: Let_def)
      then obtain c cs' where cs: "cs = c # cs'" "text_image env (path, iv_area v, file_offset ?pl) c" "list_all2 (text_image env) ts' cs'"
        using Cons.prems(2) by (auto simp: list_all2_Cons1)
      have h: "ids_task_cal_mem_file_hash env path (vm_start (iv_area v)) (vm_size (iv_area v)) (file_offset ?pl) hash = Some (0, gb_sm3 c)"
        by (rule text_image_hash [OF cs(2) Cons.prems(3)])
      note ih = Cons.IH [OF ts(1) cs(3) gb_sm3_length, of "i + 1" c]
      have q: "qurey_hash (gb_sm3 c) p = Some (if gb_sm3 c \<in> set (digests_of p) then 0 else -1)"
        by (rule qurey_hash_iff [OF assms(4) gb_sm3_length])
      show ?thesis
        using True path fits exec h ih q
        by (cases cs') (auto simp: Let_def cs(1) libraries_ok_def TSB_MEASURE_FAILE_def verify_modes)
    qed
  qed
qed


section \<open>A concrete process\<close>

text \<open>One process whose program occupies one page, with an identity that lists it as a library, and one that
  lists it as the program.\<close>

definition ids_page :: "byte list" where "ids_page = 7 # replicate 4095 0"

definition ids_demo_vma :: ids_vma where
  "ids_demo_vma = \<lparr>iv_area = \<lparr>vm_file = True, vm_exec = True, vm_write = False, vm_start = 4096, vm_end = 8192\<rparr>, iv_path = Some [47, 98, 47, 97]\<rparr>"

definition ids_demo_env :: ids_env where
  "ids_demo_env = \<lparr>ie_current = demo_fac_env, ie_self = Some (True, [ids_demo_vma]), ie_task = (\<lambda>pid. None), ie_path_buffer = True,
     ie_jhash = (\<lambda>_ _. 0), ie_whitelist = wl_empty\<rparr>"

definition ids_demo :: "byte list list \<Rightarrow> process_identity_user" where
  "ids_demo hs = \<lparr>pu_name = [97], specific_libs = 0, hash_length = LEN_HASH, lib_number = length hs - 1, pu_hash = concat hs\<rparr>"

definition ids_demo_state :: "process_identity_user list \<Rightarrow> ids_state" where
  "ids_demo_state ids = \<lparr>g_list_policy_process_identity = ids, g_list_policy_process_role = [\<lparr>role_name = [114], role_members = [[98], [97]]\<rparr>],
     process_verify_lib_mode = PROCESS_VERIFY_MODE_SPECIFIC_LIB, process_identity_hashtable = (\<lambda>_. []), ids_commands = Map.empty,
     process_identity_callback = False\<rparr>"

lemma ids_demo_text:
  "texts skip start_place [ids_demo_vma] = Some [([47, 98, 47, 97], iv_area ids_demo_vma, 0)]"
  "list_all2 (text_image ids_demo_env) [([47, 98, 47, 97], iv_area ids_demo_vma, 0)] [ids_page]"
proof -
  show "texts skip start_place [ids_demo_vma] = Some [([47, 98, 47, 97], iv_area ids_demo_vma, 0)]"
    by (simp add: ids_demo_vma_def DOT_SO_def next_place_def start_place_def size_fits_def is_text_def vm_size_def Let_def)
  have "pages_read demo_fac_env 4096 4096 [ids_page]"
    by (simp add: pages_read_def demo_fac_env_def stack_env_ok PAGE_SIZE_def ids_page_def)
  moreover have "mem_image [7] 0 4096 4096 [ids_page] = ids_page" by (simp add: mem_image_def PAGE_SIZE_def ids_page_def)
  ultimately show "list_all2 (text_image ids_demo_env) [([47, 98, 47, 97], iv_area ids_demo_vma, 0)] [ids_page]"
    using demo_fac_env_ok(1) [of False "[47, 98, 47, 97]"] exact_file_ok(1) [of "[7]"]
    by (simp add: text_image_def ids_demo_env_def ids_demo_vma_def vm_size_def)
      (intro exI [of _ "exact_file [7]"] exI [of _ "[7]"] conjI exI [of _ "[ids_page]"], simp_all)
qed

lemma ids_demo_ok: "identity_ok (ids_demo [gb_sm3 a, gb_sm3 b])" "identity_ok (ids_demo [gb_sm3 a])"
  by (simp_all add: identity_ok_def ids_demo_def LEN_HASH_def length_gb_sm3 no_nul_def)

theorem process_identity_decides_witness:
  "get_process_identity ids_demo_env (ids_demo_state [ids_demo [gb_sm3 ids_page]]) = Some (Inr [97])
    \<and> is_role_member ids_demo_env [114] (ids_demo_state [ids_demo [gb_sm3 ids_page]]) = Some 1"
proof -
  let ?s = "ids_demo_state [ids_demo [gb_sm3 ids_page]]"
  have "ie_self ids_demo_env = Some (True, [ids_demo_vma])" "ie_path_buffer ids_demo_env" by (simp_all add: ids_demo_env_def)
  note p = process_identity_decides [OF this ids_demo_text, of ?s "[114]"]
  have "program_digest (ids_demo [gb_sm3 ids_page]) = gb_sm3 ids_page" by (simp add: program_digest_def ids_demo_def)
  then have g: "get_process_identity ids_demo_env ?s = Some (Inr [97])" and
    r: "is_role_member ids_demo_env [114] ?s = Some 1 \<longleftrightarrow> (\<exists>n. get_process_identity ids_demo_env ?s = Some (Inr n)
        \<and> (\<exists>r\<in>set (g_list_policy_process_role ?s). cstr (role_name r) = cstr [114] \<and> n \<in> cstr ` set (role_members r)))"
    using p ids_demo_ok(2) by (simp_all add: ids_demo_state_def libraries_ok_def ids_demo_def)
  have roles: "g_list_policy_process_role ?s = [\<lparr>role_name = [114], role_members = [[98], [97]]\<rparr>]" by (simp add: ids_demo_state_def)
  show ?thesis using r unfolding g roles by (simp add: cstr_def)
qed


theorem identity_policies_roundtrip_witness:
  "ioctl_process_ids_set_policy (\<lambda>b. True) True
      (Some \<lparr>gp_length = int (length (encode_identity (ids_demo [gb_sm3 [1]]))), gp_data = Some (encode_identity (ids_demo [gb_sm3 [1]]))\<rparr>) (ids_demo_state [])
    = Some (0, ids_demo_state [ids_demo [gb_sm3 [1]]])"
proof -
  have "length (encode_identity (ids_demo [gb_sm3 [1]])) < 2 ^ 31"
    using encode_identity_fields(2,3) [OF ids_demo_ok(2), of "[1]" "[]"] by simp
  then show ?thesis
    using identity_policies_roundtrip [of "[ids_demo [gb_sm3 [1]]]" "[]" "ids_demo_state []"] ids_demo_ok(2) by (simp add: ids_demo_state_def)
qed

section \<open>Loading\<close>

text \<open>Loading with a command number that is taken: the function reports success, although it has unregistered the
  commands before that one, forgotten both policies and withdrawn its notification; the trusted module never
  gets the callbacks.
\<close>

theorem process_identity_init_taken:
  assumes "ii_ids env = (0, concat (map encode_identity ids))" "\<forall>p\<in>set ids. identity_ok p"
    and "ii_roles env = (0, concat (map encode_role roles))" "\<forall>r\<in>set roles. role_ok r" "\<forall>b. ii_kz env b"
    and "g_list_policy_process_identity s = []" "g_list_policy_process_role s = []"
    and "ids_commands s 18 = Some f" "\<forall>n\<in>{15, 16, 17}. ids_commands s n = None"
  shows "\<exists>fs' s'. process_identity_init env fs s = Some (0, fs', s') \<and> ids_commands s' = ids_commands s
    \<and> g_list_policy_process_identity s' = [] \<and> g_list_policy_process_role s' = []
    \<and> global_feature_notify_func fs' FEATURE_PROCESS_IDENTITY = None \<and> process_identity_callback s' = process_identity_callback s"
proof -
  define s0 where "s0 = process_identity_feature_conf_notify_func fs s"
  have s0: "g_list_policy_process_identity s0 = []" "g_list_policy_process_role s0 = []" "ids_commands s0 = ids_commands s"
    "process_identity_callback s0 = process_identity_callback s"
    using assms(6,7) by (simp_all add: s0_def process_identity_feature_conf_notify_func_def get_global_feature_conf_def update_process_identity_conf_def)
  have a: "policy_tcs_get_process_ids (ii_kz env) (ii_ids env) s0 = Some (0, s0\<lparr>g_list_policy_process_identity := rev ids\<rparr>)"
    using parse_encoded_ids [OF assms(2) _ assms(5), of "[]"] by (simp add: policy_tcs_get_process_ids_def assms(1) s0)
  have b: "policy_tcs_get_process_roles (ii_kz env) (ii_roles env) (s0\<lparr>g_list_policy_process_identity := rev ids\<rparr>)
      = Some (0, s0\<lparr>g_list_policy_process_identity := rev ids, g_list_policy_process_role := rev roles\<rparr>)"
    using parse_encoded_roles [OF assms(4,5), of "[]"] by (simp add: policy_tcs_get_process_roles_def assms(3) s0)
  have c: "ids_register [] ids_command_list (ids_commands s) = (False, ids_commands s)"
    using assms(8,9) by (simp add: ids_command_list_def httcsec_io_command_register_def httcsec_io_command_unregister_def
        unregister_all_def MAX_COMMAND_NR_def fun_eq_iff)
  show ?thesis
    unfolding process_identity_init_def s0_def [symmetric] Let_def using a b c s0
    by (simp add: register_feature_conf_notify_def process_ids_set_out_def unregister_feature_conf_notify_def clean_policy_list_def FEATURE_MAX_def)
qed

section \<open>The shape of the lists\<close>

text \<open>What every entry of the two lists satisfies, whatever bytes were parsed.\<close>

definition identity_typed :: "process_identity_user \<Rightarrow> bool" where
  "identity_typed p \<longleftrightarrow> length (pu_hash p) = hash_length p * (lib_number p + 1) \<and> hash_length p < 2 ^ 16 \<and> lib_number p < 2 ^ 16
     \<and> length (pu_name p) < 2 ^ 8 \<and> specific_libs p < 2 ^ 8"

definition role_typed :: "process_role_user \<Rightarrow> bool" where
  "role_typed r \<longleftrightarrow> length (role_name r) < 2 ^ 32 \<and> (\<forall>m\<in>set (role_members r). length m < 2 ^ 8)"

definition ids_typed :: "ids_state \<Rightarrow> bool" where
  "ids_typed s \<longleftrightarrow> (\<forall>p\<in>set (g_list_policy_process_identity s). identity_typed p) \<and> (\<forall>r\<in>set (g_list_policy_process_role s). role_typed r)"

lemma unat_byte_less: "unat (b :: byte) < 256"
  using unsigned_less [of b] by simp

lemma new_identity_typed: "id_readable p \<Longrightarrow> identity_typed (new_identity p)"
  using be16_less [of "p ! 2" "p ! 3"] be16_less [of "p ! 4" "p ! 5"] unat_byte_less [of "p ! 0"] unat_byte_less [of "p ! 1"]
  by (auto simp: identity_typed_def new_identity_def id_readable_def id_hash_len_def id_hash_length_def id_lib_number_def id_name_length_def)

lemma parse_ids_typed:
  "parse_policy_process_ids kz p ids = Some (r, ids') \<Longrightarrow> \<forall>p\<in>set ids. identity_typed p \<Longrightarrow> \<forall>p\<in>set ids'. identity_typed p"
proof (induction kz p ids arbitrary: ids' rule: parse_policy_process_ids.induct)
  case (1 kz p ids)
  show ?case
    using "1.prems" "1.IH" new_identity_typed [of p]
    by (subst (asm) parse_policy_process_ids.simps) (auto split: if_splits)
qed

lemma read_members_typed: "read_members n p = Some ms \<Longrightarrow> \<forall>m\<in>set ms. length m < 256"
  using unat_byte_less by (induction n p arbitrary: ms rule: read_members.induct) (fastforce split: if_splits)+

lemma parse_roles_typed:
  "parse_policy_process_roles kz p roles = Some (r, roles') \<Longrightarrow> \<forall>p\<in>set roles. role_typed p \<Longrightarrow> \<forall>p\<in>set roles'. role_typed p"
proof (induction kz p roles arbitrary: roles' rule: parse_policy_process_roles.induct)
  case (1 kz p roles)
  have "role_name_length p < 2 ^ 32" using unsigned_less [of "be32 p"] by (simp add: role_name_length_def)
  then show ?case
    using "1.prems" "1.IH" read_members_typed
    by (subst (asm) parse_policy_process_roles.simps) (auto simp: role_typed_def split: if_splits option.splits)
qed

inductive ids_step :: "ids_state \<Rightarrow> ids_state \<Rightarrow> bool" where
  is_set_ids: "ioctl_process_ids_set_policy kz va par s = Some (r, s') \<Longrightarrow> ids_step s s'"
| is_reload_ids: "ioctl_process_ids_reload_policy kz tcs s = Some (r, s') \<Longrightarrow> ids_step s s'"
| is_set_roles: "ioctl_process_roles_set_policy kz va par s = Some (r, s') \<Longrightarrow> ids_step s s'"
| is_reload_roles: "ioctl_process_roles_reload_policy kz tcs s = Some (r, s') \<Longrightarrow> ids_step s s'"
| is_init: "process_identity_init env fs s = Some (r, fs', s') \<Longrightarrow> ids_step s s'"
| is_exit: "process_identity_exit fs s = (fs', s') \<Longrightarrow> ids_step s s'"
| is_notify: "ids_step s (process_identity_feature_conf_notify_func fs s)"
| is_uncache: "ids_step s (remove_current_task_ids_cache task pid s)"

lemma tcs_ids_typed: "policy_tcs_get_process_ids kz tcs s = Some (r, s') \<Longrightarrow> ids_typed s \<Longrightarrow> ids_typed s'"
  using parse_ids_typed by (auto simp: policy_tcs_get_process_ids_def ids_typed_def split: if_splits)

lemma tcs_roles_typed: "policy_tcs_get_process_roles kz tcs s = Some (r, s') \<Longrightarrow> ids_typed s \<Longrightarrow> ids_typed s'"
  using parse_roles_typed by (auto simp: policy_tcs_get_process_roles_def ids_typed_def split: if_splits)

lemma clean_typed:
  "ids_typed s \<Longrightarrow> ids_typed (clean_policy_list_process_ids s)" "ids_typed s \<Longrightarrow> ids_typed (clean_policy_list_process_roles s)"
  "ids_typed (clean_policy_list s)"
  by (simp_all add: ids_typed_def clean_policy_list_process_ids_def clean_policy_list_process_roles_def clean_policy_list_def)

lemma set_ids_typed: "ioctl_process_ids_set_policy kz va par s = Some (r, s') \<Longrightarrow> ids_typed s \<Longrightarrow> ids_typed s'"
  using parse_ids_typed [of kz _ "[]"]
  by (fastforce simp: ioctl_process_ids_set_policy_def clean_policy_list_process_ids_def ids_typed_def split: option.splits if_splits)

lemma set_roles_typed: "ioctl_process_roles_set_policy kz va par s = Some (r, s') \<Longrightarrow> ids_typed s \<Longrightarrow> ids_typed s'"
  using parse_roles_typed [of kz _ "[]"]
  by (fastforce simp: ioctl_process_roles_set_policy_def clean_policy_list_process_roles_def ids_typed_def split: option.splits if_splits)

lemma notify_typed: "ids_typed (process_identity_feature_conf_notify_func fs s) \<longleftrightarrow> ids_typed s"
  by (simp add: process_identity_feature_conf_notify_func_def get_global_feature_conf_def update_process_identity_conf_def ids_typed_def)

lemma ids_typed_commands [simp]: "ids_typed (s\<lparr>ids_commands := c\<rparr>) = ids_typed s" "ids_typed (s\<lparr>process_identity_callback := b\<rparr>) = ids_typed s"
  by (simp_all add: ids_typed_def)

lemma init_typed:
  assumes "process_identity_init env fs s = Some (r, fs', s')" "ids_typed s"
  shows "ids_typed s'"
proof -
  define s0 where "s0 = process_identity_feature_conf_notify_func fs s"
  obtain ret fs1 where f: "register_feature_conf_notify FEATURE_PROCESS_IDENTITY IDS_NOTIFY fs = (ret, fs1)" by fastforce
  obtain r1 s1 where 1: "policy_tcs_get_process_ids (ii_kz env) (ii_ids env) s0 = Some (r1, s1)"
    using assms(1) f by (auto simp: process_identity_init_def s0_def [symmetric] split: option.splits)
  obtain r2 s2 where 2: "policy_tcs_get_process_roles (ii_kz env) (ii_roles env) s1 = Some (r2, s2)"
    using assms(1) f 1 by (auto simp: process_identity_init_def s0_def [symmetric] split: option.splits)
  have "ids_typed s2" using tcs_roles_typed [OF 2 tcs_ids_typed [OF 1]] assms(2) by (simp add: s0_def notify_typed)
  moreover obtain ok c where "ids_register [] ids_command_list (ids_commands s2) = (ok, c)" by fastforce
  ultimately show ?thesis
    using assms(1) f 1 2 unfolding process_identity_init_def Let_def s0_def [symmetric]
    by (auto simp: process_ids_set_out_def clean_typed split: if_splits)
qed

lemma ids_step_typed: "ids_step s s' \<Longrightarrow> ids_typed s \<Longrightarrow> ids_typed s'"
proof (induction rule: ids_step.induct)
  case (is_exit fs s fs' s')
  then show ?case by (auto simp: process_identity_exit_def Let_def clean_typed)
next
  case (is_uncache s task pid)
  then show ?case by (simp add: remove_current_task_ids_cache_def Let_def ids_typed_def)
qed (auto simp: ioctl_process_ids_reload_policy_def ioctl_process_roles_reload_policy_def notify_typed
    intro: set_ids_typed set_roles_typed init_typed dest: tcs_ids_typed [OF _ clean_typed(1)] tcs_roles_typed [OF _ clean_typed(2)])



end
