(* ===== verification/Kernel_Tables.thy ===== *)
theory Kernel_Tables
  imports Dmeasure Trust_Status Log_Config
begin

text \<open>
  The checks of fixed kernel tables: tsb/kernel/dmeasure/idt/idt.c and syscall/syscall_pub.c, and what all
  checks of kernel memory share. A check hashes the memory of its table and compares the hash with
  the one taken when the module was loaded; it writes a record for the audit log and counts
  failures.

  Kernel memory is a function from addresses to bytes, given at the moment of the call; the areas
  are assumed to be mapped. Calls of \<open>keraudit_log\<close> are listed with their operation, result and
  domain. A name that does not fit into the domain makes the field longer than its 512 bytes, which is
  a write outside of it; \<open>audit_domain_wf\<close> says when this does not happen. The result \<open>None\<close> is an
  access through a NULL pointer or to freed memory.
\<close>

section \<open>Memory, records and counters\<close>

abbreviation (input) TYPE_DMEASURE :: int where "TYPE_DMEASURE \<equiv> 3"
abbreviation (input) DMEASURE_OPERATE_PERIODICITY :: int where "DMEASURE_OPERATE_PERIODICITY \<equiv> 1"
abbreviation (input) RESULT_SUCCESS :: int where "RESULT_SUCCESS \<equiv> 1"
abbreviation (input) RESULT_FAIL :: int where "RESULT_FAIL \<equiv> 2"
definition INVALID_DATA_FULL_FF :: nat where "INVALID_DATA_FULL_FF = 0xffffffffffffffff"

text \<open>A pointer of a module: NULL, to a live object, or to an object that was freed.\<close>

datatype 'a kptr = Null | Live 'a | Freed

fun kfree_ptr :: "'a kptr \<Rightarrow> 'a kptr option" where
  "kfree_ptr Null = Some Null"
| "kfree_ptr (Live x) = Some Freed"
| "kfree_ptr Freed = None"

definition mem_bytes :: "(nat \<Rightarrow> byte) \<Rightarrow> nat \<Rightarrow> nat \<Rightarrow> byte list" where
  "mem_bytes m a n = map (\<lambda>i. m (a + i)) [0..<n]"

lemma length_mem_bytes [simp]: "length (mem_bytes m a n) = n"
  by (simp add: mem_bytes_def)

lemma mem_bytes_eq: "mem_bytes m a n = mem_bytes m' a n \<longleftrightarrow> (\<forall>i<n. m (a + i) = m' (a + i))"
  by (auto simp: mem_bytes_def)

text \<open>
  What a check sees and calls. \<open>me_ctx\<close>: the hash context on the stack before it is initialised; \<open>me_kz n\<close>: the
  allocation of the n-th domain succeeds; \<open>me_mode\<close>: \<open>dmeasure_feature->measure_mode\<close>; \<open>me_phys\<close> and
  \<open>me_tcsk\<close>: the trusted module.
\<close>

record measure_env =
  me_mem :: "nat \<Rightarrow> byte"
  me_ctx :: sm3_context
  me_kz :: "nat \<Rightarrow> bool"
  me_mode :: u32
  me_phys :: "nat \<Rightarrow> nat"
  me_tcsk :: "collection_context list \<Rightarrow> int"

record measure_out =
  mo_audit :: "(int \<times> int \<times> sec_domain) list"
  mo_counts :: credential_counts
  mo_allocs :: nat

text \<open>The hash of an area: \<open>sm3_init\<close>, \<open>sm3_update\<close> and \<open>sm3_finish\<close> on a zeroed result.\<close>

definition area_hash :: "measure_env \<Rightarrow> byte list \<Rightarrow> byte list" where
  "area_hash env b = sm3 (me_ctx env) b (replicate LEN_HASH 0)"

definition env_wf :: "measure_env \<Rightarrow> bool" where
  "env_wf env \<longleftrightarrow> length (buffer (me_ctx env)) = 64"

lemma area_hash_sm3: "env_wf env \<Longrightarrow> length b < 2 ^ 31 \<Longrightarrow> area_hash env b = gb_sm3 b"
  by (simp add: area_hash_def env_wf_def sm3_digest LEN_HASH_def)

definition audit_domain :: "byte list \<Rightarrow> byte list \<Rightarrow> byte list \<Rightarrow> sec_domain" where
  "audit_domain sub obj hash = zero_sec_domain\<lparr>sub_name := memcpy_at (replicate LEN_NAME_MAX 0) 0 (cstr sub),
     obj_name := memcpy_at (replicate LEN_NAME_MAX 0) 0 obj, sub_hash := memcpy_at (replicate LEN_HASH 0) 0 hash\<rparr>"

lemma audit_domain_wf:
  assumes "strlen sub \<le> LEN_NAME_MAX" "length obj \<le> LEN_NAME_MAX" "length hash = LEN_HASH"
  shows "length (sub_name (audit_domain sub obj hash)) = LEN_NAME_MAX" "length (obj_name (audit_domain sub obj hash)) = LEN_NAME_MAX"
    "sub_hash (audit_domain sub obj hash) = hash"
  using assms by (simp_all add: audit_domain_def memcpy_at_def strlen_def)

definition point_operate :: "dmeasure_point option \<Rightarrow> int" where
  "point_operate point = (case point of Some p \<Rightarrow> pt_type p | None \<Rightarrow> DMEASURE_OPERATE_PERIODICITY)"

text \<open>What the functions \<open>send_audit_log\<close> of the checks have in common: without memory there is no record.\<close>

definition audit_record :: "measure_env \<Rightarrow> dmeasure_point option \<Rightarrow> int \<Rightarrow> sec_domain \<Rightarrow> measure_out \<Rightarrow> measure_out" where
  "audit_record env point result d out =
     (let out1 = out\<lparr>mo_allocs := mo_allocs out + 1\<rparr>
      in if \<not> me_kz env (mo_allocs out) then out1
         else out1\<lparr>mo_audit := mo_audit out @ [(point_operate point, result, d)]\<rparr>)"

definition send_audit_log :: "measure_env \<Rightarrow> dmeasure_point option \<Rightarrow> byte list \<Rightarrow> int \<Rightarrow> byte list \<Rightarrow> measure_out \<Rightarrow> measure_out" where
  "send_audit_log env point name result hash = audit_record env point result (audit_domain (bytes_of ''TSB'') (cstr name) hash)"

definition critical_failure :: "measure_out \<Rightarrow> measure_out" where
  "critical_failure out = out\<lparr>mo_counts := CriticalDataFailureCount_add (mo_counts out)\<rparr>"

text \<open>\<open>set_measure_zone_to_tpcm\<close> with its test of the arguments, called if the trusted module measures.\<close>

definition measure_zone :: "measure_env \<Rightarrow> byte list \<Rightarrow> nat \<Rightarrow> nat \<Rightarrow> zone_state \<Rightarrow> (int \<times> zone_state) option" where
  "measure_zone env name addr len z =
     (if me_mode env \<noteq> 0
      then set_measure_zone_to_tpcm (me_phys env) (me_tcsk env) (if addr \<noteq> 0 \<and> len \<noteq> 0 then Some (name, addr, int len) else None) z
      else Some (0, z))"

lemma measure_zone_soft [simp]: "me_mode env = 0 \<Longrightarrow> measure_zone env name addr len z = Some (0, z)"
  by (simp add: measure_zone_def)

section \<open>The interrupt descriptor table\<close>

abbreviation (input) DMEASURE_SECTION_ACTION :: nat where "DMEASURE_SECTION_ACTION \<equiv> 0"
abbreviation (input) DMEASURE_SYSCALL_ACTION :: nat where "DMEASURE_SYSCALL_ACTION \<equiv> 1"
abbreviation (input) DMEASURE_IDT_ACTION :: nat where "DMEASURE_IDT_ACTION \<equiv> 2"

record idt_measure =
  im_addr :: nat
  im_len_base :: nat
  im_hash :: "byte list"

record idt_state =
  idt_addr :: nat
  idt_m :: "idt_measure kptr"

text \<open>\<open>idt_size\<close>: the field \<open>size\<close> of the descriptor that \<open>store_idt\<close> fills in; \<open>mem\<close>: the allocation succeeds.\<close>

definition backup_idt :: "measure_env \<Rightarrow> bool \<Rightarrow> nat \<Rightarrow> idt_state \<Rightarrow> zone_state \<Rightarrow> (int \<times> idt_state \<times> zone_state) option" where
  "backup_idt env mem idt_size s z =
     (case measure_zone env (bytes_of DM_ACTION_IDTTABLE_NAME) (idt_addr s) idt_size z of None \<Rightarrow> None
      | Some (ret, z') \<Rightarrow>
          if \<not> mem then Some (- ENOMEM, s\<lparr>idt_m := Null\<rparr>, z')
          else Some (ret, s\<lparr>idt_m := Live \<lparr>im_addr = idt_addr s, im_len_base = idt_size,
                 im_hash = area_hash env (mem_bytes (me_mem env) (idt_addr s) idt_size)\<rparr>\<rparr>, z'))"

definition idt_table_check :: "measure_env \<Rightarrow> dmeasure_point option \<Rightarrow> idt_state \<Rightarrow> measure_out \<Rightarrow> (int \<times> measure_out) option" where
  "idt_table_check env point s out = (case idt_m s of
     Live m \<Rightarrow>
       let hash = area_hash env (mem_bytes (me_mem env) (im_addr m) (im_len_base m))
       in if memeq hash (im_hash m) LEN_HASH
          then Some (0, send_audit_log env point (bytes_of DM_ACTION_IDTTABLE_NAME) RESULT_SUCCESS hash out)
          else Some (- EACCES, send_audit_log env point (bytes_of DM_ACTION_IDTTABLE_NAME) RESULT_FAIL hash out)
   | _ \<Rightarrow> None)"

definition didt_action :: dmeasure_node where
  "didt_action = \<lparr>dn_name = bytes_of DM_ACTION_IDTTABLE_NAME, dn_check = Some ''idt_table_check''\<rparr>"

definition idt_init ::
  "measure_env \<Rightarrow> bool \<Rightarrow> nat \<Rightarrow> idt_state \<Rightarrow> zone_state \<Rightarrow> dmeasure_action list \<Rightarrow> (int \<times> idt_state \<times> zone_state \<times> dmeasure_action list) option" where
  "idt_init env mem idt_size s z acts =
     (if idt_addr s = INVALID_DATA_FULL_FF \<or> idt_addr s = 0 then Some (- EINVAL, s, z, acts)
      else case backup_idt env mem idt_size s z of None \<Rightarrow> None
      | Some (ret, s', z') \<Rightarrow>
          if ret \<noteq> 0 then Some (ret, s', z', acts)
          else case dmeasure_register_action DMEASURE_IDT_ACTION didt_action acts of None \<Rightarrow> None
            | Some (r, acts') \<Rightarrow> Some (ret, s', z', acts'))"

definition idt_exit :: "idt_state \<Rightarrow> dmeasure_action list \<Rightarrow> (idt_state \<times> dmeasure_action list) option" where
  "idt_exit s acts = (case kfree_ptr (idt_m s) of None \<Rightarrow> None
     | Some p \<Rightarrow> (case dmeasure_unregister_action DMEASURE_IDT_ACTION didt_action acts of None \<Rightarrow> None
        | Some (r, acts') \<Rightarrow> Some (s\<lparr>idt_m := p\<rparr>, acts')))"

section \<open>The table of system calls\<close>

record syscall_measure =
  sm_addr :: nat
  sm_backup_syscall_table :: "nat list"
  sm_len_base :: nat
  sm_hash :: "byte list"

record syscall_state =
  syscall_table :: nat
  sys_m :: "syscall_measure kptr"

text \<open>The i-th entry of a table of 64 bit words.\<close>

definition mem_word :: "(nat \<Rightarrow> byte) \<Rightarrow> nat \<Rightarrow> nat" where
  "mem_word m a = fold (\<lambda>i n. n + 256 ^ i * unat (m (a + i))) [0..<8] 0"

definition update_syscall ::
  "measure_env \<Rightarrow> nat \<Rightarrow> nat \<Rightarrow> nat \<Rightarrow> syscall_measure \<Rightarrow> zone_state \<Rightarrow> (int \<times> syscall_measure \<times> zone_state) option" where
  "update_syscall env NR_syscalls sys_call data_len m z =
     (let m1 = m\<lparr>sm_addr := sys_call, sm_len_base := data_len,
               sm_backup_syscall_table := map (\<lambda>i. mem_word (me_mem env) (sys_call + 8 * i)) [0..<NR_syscalls]\<rparr>
      in case measure_zone env (bytes_of DM_ACTION_SYSCALLTABLE_NAME) sys_call data_len z of None \<Rightarrow> None
         | Some (ret, z') \<Rightarrow> Some (ret, m1\<lparr>sm_hash := area_hash env (mem_bytes (me_mem env) sys_call data_len)\<rparr>, z'))"

definition backup_syscall :: "measure_env \<Rightarrow> bool \<Rightarrow> nat \<Rightarrow> syscall_state \<Rightarrow> zone_state \<Rightarrow> (int \<times> syscall_state \<times> zone_state) option" where
  "backup_syscall env mem NR_syscalls s z =
     (if \<not> mem then Some (- ENOMEM, s\<lparr>sys_m := Null\<rparr>, z)
      else case update_syscall env NR_syscalls (syscall_table s) (NR_syscalls * 8)
                  \<lparr>sm_addr = 0, sm_backup_syscall_table = [], sm_len_base = 0, sm_hash = replicate LEN_HASH 0\<rparr> z of None \<Rightarrow> None
        | Some (ret, m, z') \<Rightarrow> Some (ret, s\<lparr>sys_m := Live m\<rparr>, z'))"

text \<open>After a failure the entries that changed are only named in debug messages.\<close>

definition syscall_table_check :: "measure_env \<Rightarrow> dmeasure_point option \<Rightarrow> syscall_state \<Rightarrow> measure_out \<Rightarrow> (int \<times> measure_out) option" where
  "syscall_table_check env point s out = (case sys_m s of
     Live m \<Rightarrow>
       let hash = area_hash env (mem_bytes (me_mem env) (sm_addr m) (sm_len_base m))
       in if memeq hash (sm_hash m) LEN_HASH
          then Some (0, send_audit_log env point (bytes_of DM_ACTION_SYSCALLTABLE_NAME) RESULT_SUCCESS hash out)
          else Some (- EINVAL, send_audit_log env point (bytes_of DM_ACTION_SYSCALLTABLE_NAME) RESULT_FAIL hash (critical_failure out))
   | _ \<Rightarrow> None)"

definition dsyscall_action :: dmeasure_node where
  "dsyscall_action = \<lparr>dn_name = bytes_of DM_ACTION_SYSCALLTABLE_NAME, dn_check = Some ''syscall_table_check''\<rparr>"

definition httc_syscall_init ::
  "measure_env \<Rightarrow> bool \<Rightarrow> nat \<Rightarrow> syscall_state \<Rightarrow> zone_state \<Rightarrow> dmeasure_action list
   \<Rightarrow> (int \<times> syscall_state \<times> zone_state \<times> dmeasure_action list) option" where
  "httc_syscall_init env mem NR_syscalls s z acts =
     (if syscall_table s = INVALID_DATA_FULL_FF \<or> syscall_table s = 0 then Some (- EINVAL, s, z, acts)
      else case backup_syscall env mem NR_syscalls s z of None \<Rightarrow> None
      | Some (ret, s', z') \<Rightarrow>
          if ret \<noteq> 0 then Some (ret, s', z', acts)
          else case dmeasure_register_action DMEASURE_SYSCALL_ACTION dsyscall_action acts of None \<Rightarrow> None
            | Some (r, acts') \<Rightarrow> Some (ret, s', z', acts'))"

definition httc_syscall_exit :: "syscall_state \<Rightarrow> dmeasure_action list \<Rightarrow> (syscall_state \<times> dmeasure_action list) option" where
  "httc_syscall_exit s acts = (case kfree_ptr (sys_m s) of None \<Rightarrow> None
     | Some p \<Rightarrow> (case dmeasure_unregister_action DMEASURE_SYSCALL_ACTION dsyscall_action acts of None \<Rightarrow> None
        | Some (r, acts') \<Rightarrow> Some (s\<lparr>sys_m := p\<rparr>, acts')))"

section \<open>What the checks of a table decide\<close>

text \<open>
  A measured table: \<open>inits env n s\<close> says that loading under \<open>env\<close> ended well in the state \<open>s\<close> with a table of \<open>n\<close>
  bytes; \<open>taken\<close> gives the address, length and hash that the state keeps. The check compares the hash
  now with the kept one.
\<close>

locale measured_table =
  fixes inits :: "measure_env \<Rightarrow> nat \<Rightarrow> 's \<Rightarrow> bool"
    and taken :: "'s \<Rightarrow> (nat \<times> nat \<times> byte list) option"
    and table_check :: "measure_env \<Rightarrow> dmeasure_point option \<Rightarrow> 's \<Rightarrow> measure_out \<Rightarrow> (int \<times> measure_out) option"
    and table_name :: "byte list"
    and failure :: int
    and count_failure :: "measure_out \<Rightarrow> measure_out"
  assumes inits_taken: "inits env n s \<Longrightarrow> \<exists>a. taken s = Some (a, n, area_hash env (mem_bytes (me_mem env) a n))"
    and check_compares: "taken s = Some (a, n, h) \<Longrightarrow> table_check env point s out =
      (let h' = area_hash env (mem_bytes (me_mem env) a n) in
       Some (if memeq h' h LEN_HASH then (0, send_audit_log env point table_name RESULT_SUCCESS h' out)
             else (failure, send_audit_log env point table_name RESULT_FAIL h' (count_failure out))))"
    and not_taken: "taken s = None \<Longrightarrow> table_check env point s out = None"
begin

lemma check_decides:
  assumes "inits env0 n s" "env_wf env0" "env_wf env" "n < 2 ^ 31"
  shows "\<exists>a. taken s = Some (a, n, gb_sm3 (mem_bytes (me_mem env0) a n)) \<and>
    (let now = gb_sm3 (mem_bytes (me_mem env) a n) in
     table_check env point s out = Some
       (if now = gb_sm3 (mem_bytes (me_mem env0) a n)
        then (0, send_audit_log env point table_name RESULT_SUCCESS now out)
        else (failure, send_audit_log env point table_name RESULT_FAIL now (count_failure out))))"
proof -
  obtain a where a: "taken s = Some (a, n, area_hash env0 (mem_bytes (me_mem env0) a n))" using inits_taken [OF assms(1)] by blast
  have h: "area_hash e (mem_bytes (me_mem e) a n) = gb_sm3 (mem_bytes (me_mem e) a n)" if "env_wf e" for e
    using that assms(4) by (simp add: area_hash_sm3)
  have "memeq (gb_sm3 x) (gb_sm3 y) LEN_HASH \<longleftrightarrow> gb_sm3 x = gb_sm3 y" for x y
    by (simp add: memeq_def length_gb_sm3 LEN_HASH_def)
  then show ?thesis using check_compares [OF a, of env point out] a h [OF assms(2)] h [OF assms(3)] by (simp add: Let_def)
qed

lemma intact_passes:
  assumes "inits env0 n s" "env_wf env0" "env_wf env" "n < 2 ^ 31" "taken s = Some (a, n', h)"
    and "\<forall>i<n. me_mem env (a + i) = me_mem env0 (a + i)"
  shows "\<exists>out'. table_check env point s out = Some (0, out')"
proof -
  obtain a' where a': "taken s = Some (a', n, gb_sm3 (mem_bytes (me_mem env0) a' n))"
    and c: "let now = gb_sm3 (mem_bytes (me_mem env) a' n) in table_check env point s out = Some
       (if now = gb_sm3 (mem_bytes (me_mem env0) a' n) then (0, send_audit_log env point table_name RESULT_SUCCESS now out)
        else (failure, send_audit_log env point table_name RESULT_FAIL now (count_failure out)))"
    using check_decides [OF assms(1-4)] by blast
  have "mem_bytes (me_mem env) a' n = mem_bytes (me_mem env0) a' n"
    using assms(5,6) a' by (simp add: mem_bytes_eq)
  then show ?thesis using c by (simp add: Let_def)
qed

end

definition idt_inits :: "measure_env \<Rightarrow> nat \<Rightarrow> idt_state \<Rightarrow> bool" where
  "idt_inits env n s' \<longleftrightarrow> (\<exists>mem s z z' acts acts'. idt_init env mem n s z acts = Some (0, s', z', acts'))"

definition idt_taken :: "idt_state \<Rightarrow> (nat \<times> nat \<times> byte list) option" where
  "idt_taken s = (case idt_m s of Live m \<Rightarrow> Some (im_addr m, im_len_base m, im_hash m) | _ \<Rightarrow> None)"

lemma idt_init_taken:
  assumes "idt_init env mem n s z acts = Some (0, s', z', acts')"
  shows "idt_m s' = Live \<lparr>im_addr = idt_addr s, im_len_base = n, im_hash = area_hash env (mem_bytes (me_mem env) (idt_addr s) n)\<rparr>"
  using assms by (auto simp: idt_init_def backup_idt_def split: if_splits option.splits)

interpretation idt: measured_table idt_inits idt_taken idt_table_check "bytes_of DM_ACTION_IDTTABLE_NAME" "- EACCES" "\<lambda>out. out"
proof
  show "idt_inits env n s \<Longrightarrow> \<exists>a. idt_taken s = Some (a, n, area_hash env (mem_bytes (me_mem env) a n))" for env n s
    unfolding idt_inits_def using idt_init_taken by (fastforce simp: idt_taken_def)
qed (auto simp: idt_taken_def idt_table_check_def Let_def split: kptr.splits)

definition syscall_inits :: "measure_env \<Rightarrow> nat \<Rightarrow> syscall_state \<Rightarrow> bool" where
  "syscall_inits env n s' \<longleftrightarrow> (\<exists>mem k s z z' acts acts'. n = k * 8 \<and> httc_syscall_init env mem k s z acts = Some (0, s', z', acts'))"

definition syscall_taken :: "syscall_state \<Rightarrow> (nat \<times> nat \<times> byte list) option" where
  "syscall_taken s = (case sys_m s of Live m \<Rightarrow> Some (sm_addr m, sm_len_base m, sm_hash m) | _ \<Rightarrow> None)"

lemma syscall_init_taken:
  assumes "httc_syscall_init env mem k s z acts = Some (0, s', z', acts')"
  shows "sys_m s' = Live \<lparr>sm_addr = syscall_table s, sm_backup_syscall_table = map (\<lambda>i. mem_word (me_mem env) (syscall_table s + 8 * i)) [0..<k],
    sm_len_base = k * 8, sm_hash = area_hash env (mem_bytes (me_mem env) (syscall_table s) (k * 8))\<rparr>"
  using assms by (auto simp: httc_syscall_init_def backup_syscall_def update_syscall_def Let_def split: if_splits option.splits)

interpretation syscall: measured_table syscall_inits syscall_taken syscall_table_check "bytes_of DM_ACTION_SYSCALLTABLE_NAME" "- EINVAL" critical_failure
proof
  show "syscall_inits env n s \<Longrightarrow> \<exists>a. syscall_taken s = Some (a, n, area_hash env (mem_bytes (me_mem env) a n))" for env n s
    unfolding syscall_inits_def using syscall_init_taken by (fastforce simp: syscall_taken_def)
qed (auto simp: syscall_taken_def syscall_table_check_def Let_def split: kptr.splits)

text \<open>The interrupt table and the table of system calls are measured. After they are loaded, a check passes exactly
  if the SM3 hash of the table is the one at the time of loading, and writes a record of its success; otherwise it
  fails with a record that holds the hash, and changed system calls are counted.\<close>

theorem fixed_tables_decided:
  assumes "env_wf env0" "env_wf env" "idt_size < 2 ^ 31" "NR_syscalls * 8 < 2 ^ 31"
    and "idt_init env0 mem idt_size si z acts = Some (0, si', z', acts')"
    and "httc_syscall_init env0 mem NR_syscalls ss z acts = Some (0, ss', zs, actss)"
  shows "let old = gb_sm3 (mem_bytes (me_mem env0) (idt_addr si) idt_size);
             now = gb_sm3 (mem_bytes (me_mem env) (idt_addr si) idt_size)
         in idt_table_check env point si' out = Some (if now = old
              then (0, send_audit_log env point (bytes_of DM_ACTION_IDTTABLE_NAME) RESULT_SUCCESS now out)
              else (- EACCES, send_audit_log env point (bytes_of DM_ACTION_IDTTABLE_NAME) RESULT_FAIL now out))"
    and "let old = gb_sm3 (mem_bytes (me_mem env0) (syscall_table ss) (NR_syscalls * 8));
             now = gb_sm3 (mem_bytes (me_mem env) (syscall_table ss) (NR_syscalls * 8))
         in syscall_table_check env point ss' out = Some (if now = old
              then (0, send_audit_log env point (bytes_of DM_ACTION_SYSCALLTABLE_NAME) RESULT_SUCCESS now out)
              else (- EINVAL, send_audit_log env point (bytes_of DM_ACTION_SYSCALLTABLE_NAME) RESULT_FAIL now
                      (out\<lparr>mo_counts := CriticalDataFailureCount_add (mo_counts out)\<rparr>)))"
proof -
  have "idt_inits env0 idt_size si'" "syscall_inits env0 (NR_syscalls * 8) ss'"
    using assms(5,6) unfolding idt_inits_def syscall_inits_def by blast+
  from idt.check_decides [OF this(1) assms(1-3), of point out] syscall.check_decides [OF this(2) assms(1,2,4), of point out]
  show "let old = gb_sm3 (mem_bytes (me_mem env0) (idt_addr si) idt_size);
             now = gb_sm3 (mem_bytes (me_mem env) (idt_addr si) idt_size)
         in idt_table_check env point si' out = Some (if now = old
              then (0, send_audit_log env point (bytes_of DM_ACTION_IDTTABLE_NAME) RESULT_SUCCESS now out)
              else (- EACCES, send_audit_log env point (bytes_of DM_ACTION_IDTTABLE_NAME) RESULT_FAIL now out))"
    "let old = gb_sm3 (mem_bytes (me_mem env0) (syscall_table ss) (NR_syscalls * 8));
             now = gb_sm3 (mem_bytes (me_mem env) (syscall_table ss) (NR_syscalls * 8))
         in syscall_table_check env point ss' out = Some (if now = old
              then (0, send_audit_log env point (bytes_of DM_ACTION_SYSCALLTABLE_NAME) RESULT_SUCCESS now out)
              else (- EINVAL, send_audit_log env point (bytes_of DM_ACTION_SYSCALLTABLE_NAME) RESULT_FAIL now
                      (out\<lparr>mo_counts := CriticalDataFailureCount_add (mo_counts out)\<rparr>)))"
    using idt_init_taken [OF assms(5)] syscall_init_taken [OF assms(6)]
    by (auto simp: idt_taken_def syscall_taken_def Let_def critical_failure_def)
qed

text \<open>
  The processor gives the limit of the interrupt table, its size less one, which the code takes as the
  size: the last byte of the table is not measured.
\<close>

lemma idt_last_byte_unmeasured:
  assumes "idt_init env0 mem limit s z acts = Some (0, s', z', acts')" "env_wf env0" "limit < 2 ^ 31"
  shows "\<exists>out'. idt_table_check (env0\<lparr>me_mem := (me_mem env0)(idt_addr s + limit := b)\<rparr>) point s' out = Some (0, out')"
proof -
  have i: "idt_inits env0 limit s'" using assms(1) unfolding idt_inits_def by blast
  have t: "idt_taken s' = Some (idt_addr s, limit, area_hash env0 (mem_bytes (me_mem env0) (idt_addr s) limit))"
    using idt_init_taken [OF assms(1)] by (simp add: idt_taken_def)
  show ?thesis
    by (rule idt.intact_passes [OF i assms(2) _ assms(3) t]) (use assms(2) in \<open>simp_all add: env_wf_def\<close>)
qed

text \<open>
  Unloading frees what the check reads before it takes the check out of the table of actions: a check that runs in
  between reads freed memory.
\<close>

lemma idt_exit_window:
  assumes "idt_exit s acts = Some (s', acts')" "idt_m s = Live m"
  shows "idt_table_check env point s' out = None" "\<exists>a. acts' = acts[DMEASURE_IDT_ACTION := a] \<or> acts' = acts"
  using assms by (auto simp: idt_exit_def idt_table_check_def dmeasure_unregister_action_def Let_def split: option.splits if_splits)

definition demo_env :: measure_env where
  "demo_env = \<lparr>me_mem = (\<lambda>a. of_nat (a mod 7)), me_ctx = \<lparr>total_bytes_High = 0, total_bytes_Low = 0, vector = [], buffer = replicate 64 0\<rparr>,
     me_kz = (\<lambda>n. True), me_mode = 0, me_phys = (\<lambda>a. a), me_tcsk = (\<lambda>c. 0)\<rparr>"

lemma demo_env_wf [simp]: "env_wf demo_env" "env_wf (demo_env\<lparr>me_mem := m\<rparr>)" "me_mode demo_env = 0"
  by (simp_all add: demo_env_def env_wf_def)

definition no_output :: measure_out where
  "no_output = \<lparr>mo_audit = [], mo_counts = \<lparr>ProcessExecCount = 0, DynamicLibLoadCount = 0, KernelModuleCount = 0, FileAccessCount = 0,
     SectionFailureCount = 0, CriticalDataFailureCount = 0, PorcessCodeFailureCount = 0\<rparr>, mo_allocs = 0\<rparr>"

lemma demo_registers:
  "dmeasure_register_action DMEASURE_IDT_ACTION didt_action dm_action \<noteq> None"
  "dmeasure_register_action DMEASURE_SYSCALL_ACTION dsyscall_action dm_action \<noteq> None"
  by (simp_all add: dmeasure_register_action_def dm_action_def Let_def schedule_delayed_work_def)

lemma fixed_tables_decided_witness:
  "\<exists>si' ss' z zs acts actss out out'.
     idt_init demo_env True 4095 \<lparr>idt_addr = 0x1000, idt_m = Null\<rparr> \<lparr>ctx = [], tz_sent = []\<rparr> dm_action = Some (0, si', z, acts)
   \<and> httc_syscall_init demo_env True 441 \<lparr>syscall_table = 0x9000, sys_m = Null\<rparr> \<lparr>ctx = [], tz_sent = []\<rparr> dm_action = Some (0, ss', zs, actss)
   \<and> idt_table_check demo_env None si' out = Some (0, out') \<and> fst (the (syscall_table_check demo_env None ss' out)) = 0"
proof -
  obtain si' z acts where i: "idt_init demo_env True 4095 \<lparr>idt_addr = 0x1000, idt_m = Null\<rparr> \<lparr>ctx = [], tz_sent = []\<rparr> dm_action = Some (0, si', z, acts)"
    using demo_registers(1) by (auto simp: idt_init_def backup_idt_def INVALID_DATA_FULL_FF_def)
  obtain ss' zs actss where s: "httc_syscall_init demo_env True 441 \<lparr>syscall_table = 0x9000, sys_m = Null\<rparr> \<lparr>ctx = [], tz_sent = []\<rparr> dm_action = Some (0, ss', zs, actss)"
    using demo_registers(2) by (auto simp: httc_syscall_init_def backup_syscall_def update_syscall_def Let_def INVALID_DATA_FULL_FF_def)
  show ?thesis
    using fixed_tables_decided [OF demo_env_wf(1) demo_env_wf(1) _ _ i s, of None] i s by (simp add: Let_def)
qed

end
