(* ===== verification/Kernel_Net.thy ===== *)
theory Kernel_Net
  imports Kernel_Tables
begin

text \<open>
  The measurement of network protocols: tsb/kernel/dmeasure/net/net.c. When the module is loaded it records every
  protocol family with its number and constructor, and the hash of the operations of every
  protocol; a check compares the kernel with these records. The locale \<open>list_check\<close> holds what this
  check and those of Kernel_Filesystem have in common: a loop over recorded entries that reports each bad
  one.

  The structures of the kernel are given by their addresses; their contents at the moment of a call are
  parameters. \<open>net_p\<close> is never set, and its release in \<open>net_exit\<close> is left out.
\<close>

section \<open>A loop that checks recorded entries\<close>

text \<open>
  The body gets the local variables, the result so far and the output. \<open>bad\<close> is the test of an entry, \<open>local_step\<close> what
  the body does to its variables and \<open>report\<close> what it sends for a bad entry.
\<close>

definition failure_records :: "measure_out \<Rightarrow> nat" where
  "failure_records out = length (filter (\<lambda>(oper, res, d). res = RESULT_FAIL) (mo_audit out))"

locale list_check =
  fixes body :: "'i \<Rightarrow> 'l \<times> int \<times> measure_out \<Rightarrow> 'l \<times> int \<times> measure_out"
    and bad :: "'i \<Rightarrow> bool"
    and local_step :: "'i \<Rightarrow> 'l \<Rightarrow> 'l"
    and report :: "'i \<Rightarrow> 'l \<Rightarrow> measure_out \<Rightarrow> measure_out"
    and alloc :: "nat \<Rightarrow> bool"
  assumes body_good: "\<not> bad i \<Longrightarrow> body i (l, r, out) = (local_step i l, r, out)"
    and body_bad: "bad i \<Longrightarrow> body i (l, r, out) = (local_step i l, - EINVAL, report i (local_step i l) out)"
    and report_counts: "mo_counts (report i l out) = CriticalDataFailureCount_add (mo_counts out)"
    and report_records: "\<forall>n. alloc n \<Longrightarrow> \<exists>oper d. mo_audit (report i l out) = mo_audit out @ [(oper, RESULT_FAIL, d)]"
begin

lemma loop_good: "\<forall>i\<in>set xs. \<not> bad i \<Longrightarrow> \<exists>l'. fold body xs (l, r, out) = (l', r, out)"
  by (induction xs arbitrary: l) (simp_all add: body_good)

lemma loop_result:
  assumes "fold body xs (l, r, out) = (l', r', out')"
  shows "r' = (if \<exists>i\<in>set xs. bad i then - EINVAL else r)"
    and "mo_counts out' = (CriticalDataFailureCount_add ^^ length (filter bad xs)) (mo_counts out)"
    and "\<forall>n. alloc n \<Longrightarrow> \<exists>new. mo_audit out' = mo_audit out @ new \<and> length new = length (filter bad xs) \<and> (\<forall>(oper, res, d)\<in>set new. res = RESULT_FAIL)"
proof -
  have "r' = (if \<exists>i\<in>set xs. bad i then - EINVAL else r)
    \<and> mo_counts out' = (CriticalDataFailureCount_add ^^ length (filter bad xs)) (mo_counts out)
    \<and> ((\<forall>n. alloc n) \<longrightarrow> (\<exists>new. mo_audit out' = mo_audit out @ new \<and> length new = length (filter bad xs) \<and> (\<forall>(oper, res, d)\<in>set new. res = RESULT_FAIL)))"
    using assms
  proof (induction xs arbitrary: l r out)
    case (Cons i xs)
    show ?case
    proof (cases "bad i")
      case True
      let ?o = "report i (local_step i l) out"
      have "fold body xs (local_step i l, - EINVAL, ?o) = (l', r', out')" using Cons.prems body_bad [OF True] by simp
      note ih = Cons.IH [OF this]
      have counts: "mo_counts out' = (CriticalDataFailureCount_add ^^ length (filter bad (i # xs))) (mo_counts out)"
        using ih True report_counts [of i "local_step i l" out] by (simp add: funpow_swap1)
      have "\<exists>new. mo_audit out' = mo_audit out @ new \<and> length new = length (filter bad (i # xs)) \<and> (\<forall>(oper, res, d)\<in>set new. res = RESULT_FAIL)"
        if a: "\<forall>n. alloc n"
      proof -
        obtain oper d where o: "mo_audit ?o = mo_audit out @ [(oper, RESULT_FAIL, d)]" using report_records [OF a] by blast
        obtain new where "mo_audit out' = mo_audit ?o @ new" "length new = length (filter bad xs)" "\<forall>(oper, res, d)\<in>set new. res = RESULT_FAIL"
          using ih a by blast
        then show ?thesis using o True by (intro exI [of _ "(oper, RESULT_FAIL, d) # new"]) simp
      qed
      then show ?thesis using counts ih True by auto
    next
      case False
      then show ?thesis using Cons body_good [OF False] by auto
    qed
  qed simp
  then show "r' = (if \<exists>i\<in>set xs. bad i then - EINVAL else r)"
    "mo_counts out' = (CriticalDataFailureCount_add ^^ length (filter bad xs)) (mo_counts out)"
    "\<forall>n. alloc n \<Longrightarrow> \<exists>new. mo_audit out' = mo_audit out @ new \<and> length new = length (filter bad xs) \<and> (\<forall>(oper, res, d)\<in>set new. res = RESULT_FAIL)"
    by blast+
qed

lemma loop_failures:
  assumes "fold body xs (l, r, out) = (l', r', out')" "\<forall>n. alloc n"
  shows "failure_records out' = failure_records out + length (filter bad xs)"
proof -
  obtain new where n: "mo_audit out' = mo_audit out @ new" "length new = length (filter bad xs)" "\<forall>(oper, res, d)\<in>set new. res = RESULT_FAIL"
    using loop_result(3) [OF assms] by blast
  then have "filter (\<lambda>(oper, res, d). res = RESULT_FAIL) new = new" by (auto intro: filter_True)
  then show ?thesis using n(1,2) by (simp add: failure_records_def)
qed

text \<open>A check: the loop, and a record of success if no entry was bad.\<close>

lemma check_result:
  assumes "(let (l', ret, out') = fold body xs (l, 0, out) in if ret = 0 then (ret, fin out') else (ret, out')) = (r, out2)"
    and fin: "\<And>x. mo_counts (fin x) = mo_counts x \<and> failure_records (fin x) = failure_records x"
  shows "r = (if filter bad xs = [] then 0 else - EINVAL)"
    "mo_counts out2 = (CriticalDataFailureCount_add ^^ length (filter bad xs)) (mo_counts out)"
    "\<forall>n. alloc n \<Longrightarrow> failure_records out2 = failure_records out + length (filter bad xs)"
proof -
  obtain l' r1 o1 where f: "fold body xs (l, 0, out) = (l', r1, o1)" by (metis prod_cases3)
  have "r = r1" "mo_counts out2 = mo_counts o1" "failure_records out2 = failure_records o1"
    using assms(1) fin f by (auto split: if_splits)
  then show "r = (if filter bad xs = [] then 0 else - EINVAL)"
    "mo_counts out2 = (CriticalDataFailureCount_add ^^ length (filter bad xs)) (mo_counts out)"
    "\<forall>n. alloc n \<Longrightarrow> failure_records out2 = failure_records out + length (filter bad xs)"
    using loop_result(1,2) [OF f] loop_failures [OF f] by (simp_all add: filter_empty_conv)
qed

end

text \<open>Taking the first entry with a key out of a list, as \<open>list_del\<close> in a loop that then stops.\<close>

fun remove_first :: "('i \<Rightarrow> 'k) \<Rightarrow> 'k \<Rightarrow> 'i list \<Rightarrow> 'i list" where
  "remove_first key k [] = []"
| "remove_first key k (x # xs) = (if key x = k then xs else x # remove_first key k xs)"

lemma remove_first_spec:
  assumes "distinct (map key xs)"
  shows "key ` set (remove_first key k xs) = key ` set xs - {k}" "distinct (map key (remove_first key k xs))"
    "k \<in> key ` set xs \<Longrightarrow> int (length (remove_first key k xs)) = int (length xs) - 1"
proof -
  have "set (remove_first key k xs) = {x \<in> set xs. key x \<noteq> k} \<and> distinct (map key (remove_first key k xs))
    \<and> (k \<in> key ` set xs \<longrightarrow> int (length (remove_first key k xs)) = int (length xs) - 1)"
    using assms by (induction xs) (auto, (metis imageI)+)
  then show "key ` set (remove_first key k xs) = key ` set xs - {k}" "distinct (map key (remove_first key k xs))"
    "k \<in> key ` set xs \<Longrightarrow> int (length (remove_first key k xs)) = int (length xs) - 1" by auto
qed

section \<open>State\<close>

record net_proto_family =
  pf_family :: int
  pf_create :: nat

record net_proto_family_info =
  pfi_pf :: nat
  pfi_family :: int
  pfi_create_func :: nat

record proto_info =
  pti_proto :: nat
  pti_opsmem_len :: nat
  pti_hash :: "byte list"

record net_state =
  netfamilies :: nat
  protolist :: nat
  net_proto_family_list :: "net_proto_family_info list"
  net_proto_list :: "proto_info list"
  net_proto_family_count :: int
  net_proto_count :: int

text \<open>
  The kernel: \<open>ne_families\<close> is the array \<open>net_families\<close> with its NULL entries, \<open>ne_family\<close> a family at its
  address, \<open>ne_protos\<close> the list of protocols, \<open>ne_ops_len\<close> the length of the operations from \<open>close\<close>
  to \<open>get_port\<close>. \<open>ne_mem n\<close>: the n-th allocation of an entry succeeds.
\<close>

record net_env =
  ne_families :: "nat option list"
  ne_family :: "nat \<Rightarrow> net_proto_family"
  ne_protos :: "nat list"
  ne_proto_name :: "nat \<Rightarrow> byte list"
  ne_ops_len :: nat
  ne_mem :: "nat \<Rightarrow> bool"

definition FAMILY_NAME_LEN :: nat where "FAMILY_NAME_LEN = 32"

text \<open>The names of the families by number; \<open>None\<close> where the \<open>switch\<close> has no case.\<close>

definition family_names :: "string option list" where
  "family_names = [Some ''AF_UNSPEC'', Some ''AF_LOCAL'', Some ''AF_INET'', Some ''AF_AX25'', Some ''AF_IPX'', Some ''AF_APPLETALK'',
     Some ''AF_NETROM'', Some ''AF_BRIDGE'', Some ''AF_ATMPVC'', Some ''AF_X25'', Some ''AF_INET6'', Some ''AF_ROSE'', Some ''AF_DECnet'',
     Some ''AF_NETBEUI'', Some ''AF_SECURITY'', Some ''AF_KEY'', Some ''AF_NETLINK'', Some ''AF_PACKET'', Some ''AF_ASH'', Some ''AF_ECONET'',
     Some ''AF_ATMSVC'', Some ''AF_RDS'', Some ''AF_SNA'', Some ''AF_IRDA'', Some ''AF_PPPOX'', Some ''AF_WANPIPE'', Some ''AF_LLC'',
     Some ''AF_IB'', Some ''AF_MPLS'', Some ''AF_CAN'', Some ''AF_TIPC'', Some ''AF_BLUETOOTH'', Some ''AF_IUCV'', Some ''AF_RXRPC'',
     Some ''AF_ISDN'', Some ''AF_PHONET'', Some ''AF_IEEE802154'', None, Some ''AF_ALG'', None, None, None, None, None, Some ''AF_XDP'',
     Some ''AF_MAX'']"

definition get_family_name :: "int \<Rightarrow> byte list \<Rightarrow> byte list" where
  "get_family_name numb name =
     (if 0 \<le> numb \<and> nat numb < length family_names
      then (case family_names ! nat numb of Some n \<Rightarrow> memcpy_at name 0 (bytes_of n @ [0]) | None \<Rightarrow> name)
      else name)"

section \<open>Recording\<close>

definition kernel_args_addr_init :: "net_state \<Rightarrow> int" where
  "kernel_args_addr_init s =
     (if netfamilies s = INVALID_DATA_FULL_FF \<or> netfamilies s = 0 \<or> protolist s = INVALID_DATA_FULL_FF \<or> protolist s = 0 then - EINVAL else 0)"

definition add_net_proto_family_info :: "net_env \<Rightarrow> bool \<Rightarrow> nat \<Rightarrow> net_state \<Rightarrow> int \<times> net_state" where
  "add_net_proto_family_info ne mem pf s =
     (if \<not> mem then (- ENOMEM, s)
      else (0, s\<lparr>net_proto_family_list := \<lparr>pfi_pf = pf, pfi_family = pf_family (ne_family ne pf), pfi_create_func = pf_create (ne_family ne pf)\<rparr> # net_proto_family_list s,
                 net_proto_family_count := net_proto_family_count s + 1\<rparr>))"

text \<open>The result of adding an entry is ignored.\<close>

definition add_all_net_proto_family_info :: "net_env \<Rightarrow> net_state \<Rightarrow> int \<times> net_state" where
  "add_all_net_proto_family_info ne s =
     (0, fold (\<lambda>i s. case ne_families ne ! i of None \<Rightarrow> s | Some pf \<Rightarrow> snd (add_net_proto_family_info ne (ne_mem ne i) pf s)) [0..<length (ne_families ne)] s)"

fun drop_families :: "net_proto_family_info list \<Rightarrow> net_state \<Rightarrow> net_state" where
  "drop_families [] s = s"
| "drop_families (i # is) s = drop_families is (s\<lparr>net_proto_family_list := is, net_proto_family_count := net_proto_family_count s - 1\<rparr>)"

definition remove_all_net_proto_family_info :: "net_state \<Rightarrow> net_state" where
  "remove_all_net_proto_family_info s = drop_families (net_proto_family_list s) s"

definition add_proto_info :: "measure_env \<Rightarrow> net_env \<Rightarrow> bool \<Rightarrow> nat \<Rightarrow> net_state \<Rightarrow> int \<times> net_state" where
  "add_proto_info env ne mem proto s =
     (if \<not> mem then (- ENOMEM, s)
      else (0, s\<lparr>net_proto_list := \<lparr>pti_proto = proto, pti_opsmem_len = ne_ops_len ne,
                   pti_hash = area_hash env (mem_bytes (me_mem env) proto (ne_ops_len ne))\<rparr> # net_proto_list s,
                 net_proto_count := net_proto_count s + 1\<rparr>))"

definition add_all_proto_info :: "measure_env \<Rightarrow> net_env \<Rightarrow> net_state \<Rightarrow> int \<times> net_state" where
  "add_all_proto_info env ne s =
     (0, fold (\<lambda>i s. snd (add_proto_info env ne (ne_mem ne (length (ne_families ne) + i)) (ne_protos ne ! i) s)) [0..<length (ne_protos ne)] s)"

fun drop_protos :: "proto_info list \<Rightarrow> net_state \<Rightarrow> net_state" where
  "drop_protos [] s = s"
| "drop_protos (i # is) s = drop_protos is (s\<lparr>net_proto_list := is, net_proto_count := net_proto_count s - 1\<rparr>)"

definition remove_all_proto_info :: "net_state \<Rightarrow> net_state" where
  "remove_all_proto_info s = drop_protos (net_proto_list s) s"

definition dnet_basedata_init :: "measure_env \<Rightarrow> net_env \<Rightarrow> net_state \<Rightarrow> int \<times> net_state" where
  "dnet_basedata_init env ne s =
     (let (ret, s1) = add_all_net_proto_family_info ne s
      in if ret \<noteq> 0 then (ret, s1)
         else let (ret, s2) = add_all_proto_info env ne s1
              in if ret \<noteq> 0 then (ret, remove_all_net_proto_family_info s2) else (ret, s2))"

definition dnet_basedata_exit :: "net_state \<Rightarrow> net_state" where
  "dnet_basedata_exit s = remove_all_proto_info (remove_all_net_proto_family_info s)"

section \<open>Checking\<close>

definition point_subject :: "dmeasure_point option \<Rightarrow> byte list" where
  "point_subject point = (case point of Some p \<Rightarrow> pt_name p | None \<Rightarrow> bytes_of ''TSB'')"

definition net_send_audit_log :: "measure_env \<Rightarrow> dmeasure_point option \<Rightarrow> byte list \<Rightarrow> int \<Rightarrow> byte list \<Rightarrow> measure_out \<Rightarrow> measure_out" where
  "net_send_audit_log env point name result hash =
     audit_record env point result (audit_domain (point_subject point) (bytes_of ''network('' @ cstr name @ bytes_of '')'') hash)"

text \<open>The hash in the report is that of the first eight bytes of the constructor's code.\<close>

definition family_body ::
  "measure_env \<Rightarrow> net_env \<Rightarrow> dmeasure_point option \<Rightarrow> net_proto_family_info \<Rightarrow> byte list \<times> int \<times> measure_out \<Rightarrow> byte list \<times> int \<times> measure_out" where
  "family_body env ne point pfi = (\<lambda>(name, ret, out).
     let pf = ne_family ne (pfi_pf pfi); name = get_family_name (pf_family pf) name
     in if pfi_family pfi = pf_family pf \<and> pfi_create_func pfi = pf_create pf then (name, ret, out)
        else (name, - EINVAL, net_send_audit_log env point name RESULT_FAIL (area_hash env (mem_bytes (me_mem env) (pf_create pf) 8)) (critical_failure out)))"

definition net_proto_family_list_check :: "measure_env \<Rightarrow> net_env \<Rightarrow> dmeasure_point option \<Rightarrow> net_state \<Rightarrow> measure_out \<Rightarrow> int \<times> measure_out" where
  "net_proto_family_list_check env ne point s out =
     (let (name, ret, out') = fold (family_body env ne point) (net_proto_family_list s) (replicate FAMILY_NAME_LEN 0, 0, out)
      in if ret = 0 then (ret, net_send_audit_log env point (bytes_of ''net_proto_family'') RESULT_SUCCESS (replicate LEN_HASH 0) out')
         else (ret, out'))"

definition proto_body ::
  "measure_env \<Rightarrow> net_env \<Rightarrow> dmeasure_point option \<Rightarrow> proto_info \<Rightarrow> unit \<times> int \<times> measure_out \<Rightarrow> unit \<times> int \<times> measure_out" where
  "proto_body env ne point protoi = (\<lambda>(u, ret, out).
     let hash = area_hash env (mem_bytes (me_mem env) (pti_proto protoi) (pti_opsmem_len protoi))
     in if memeq (pti_hash protoi) hash LEN_HASH then (u, ret, out)
        else (u, - EINVAL, net_send_audit_log env point (ne_proto_name ne (pti_proto protoi)) RESULT_FAIL hash (critical_failure out)))"

definition proto_list_check :: "measure_env \<Rightarrow> net_env \<Rightarrow> dmeasure_point option \<Rightarrow> net_state \<Rightarrow> measure_out \<Rightarrow> int \<times> measure_out" where
  "proto_list_check env ne point s out =
     (let (u, ret, out') = fold (proto_body env ne point) (net_proto_list s) ((), 0, out)
      in if ret = 0 then (ret, net_send_audit_log env point (bytes_of ''proto'') RESULT_SUCCESS (replicate LEN_HASH 0) out')
         else (ret, out'))"

definition net_dmeasure_check :: "measure_env \<Rightarrow> net_env \<Rightarrow> dmeasure_point option \<Rightarrow> net_state \<Rightarrow> measure_out \<Rightarrow> int \<times> measure_out" where
  "net_dmeasure_check env ne point s out =
     (let (ret1, out1) = net_proto_family_list_check env ne point s out;
          (ret2, out2) = proto_list_check env ne point s out1
      in (if ret1 \<noteq> 0 then ret1 else ret2, out2))"

section \<open>Loading and unloading\<close>

abbreviation (input) DMEASURE_MODULE_ACTION :: nat where "DMEASURE_MODULE_ACTION \<equiv> 3"
abbreviation (input) DMEASURE_FILESYSTEM_ACTION :: nat where "DMEASURE_FILESYSTEM_ACTION \<equiv> 4"
abbreviation (input) DMEASURE_NET_ACTION :: nat where "DMEASURE_NET_ACTION \<equiv> 5"

definition dnet_action :: dmeasure_node where
  "dnet_action = \<lparr>dn_name = bytes_of DM_ACTION_NETWORK_NAME, dn_check = Some ''net_dmeasure_check''\<rparr>"

definition net_init ::
  "measure_env \<Rightarrow> net_env \<Rightarrow> net_state \<Rightarrow> dmeasure_action list \<Rightarrow> (int \<times> net_state \<times> dmeasure_action list) option" where
  "net_init env ne s acts =
     (let ret = kernel_args_addr_init s
      in if ret \<noteq> 0 then Some (ret, s, acts)
         else let (ret, s1) = dnet_basedata_init env ne s
         in if ret \<noteq> 0 then Some (- EINVAL, s1, acts)
            else case dmeasure_register_action DMEASURE_NET_ACTION dnet_action acts of None \<Rightarrow> None
              | Some (r, acts') \<Rightarrow> if r \<noteq> 0 then Some (- EINVAL, dnet_basedata_exit s1, acts') else Some (r, s1, acts'))"

definition net_exit :: "net_state \<Rightarrow> dmeasure_action list \<Rightarrow> (net_state \<times> dmeasure_action list) option" where
  "net_exit s acts = (case dmeasure_unregister_action DMEASURE_NET_ACTION dnet_action acts of None \<Rightarrow> None
     | Some (r, acts') \<Rightarrow> Some (dnet_basedata_exit s, acts'))"

section \<open>What is recorded\<close>

definition family_info :: "net_env \<Rightarrow> nat \<Rightarrow> net_proto_family_info" where
  "family_info ne pf = \<lparr>pfi_pf = pf, pfi_family = pf_family (ne_family ne pf), pfi_create_func = pf_create (ne_family ne pf)\<rparr>"

definition proto_record :: "measure_env \<Rightarrow> net_env \<Rightarrow> nat \<Rightarrow> proto_info" where
  "proto_record env ne p = \<lparr>pti_proto = p, pti_opsmem_len = ne_ops_len ne, pti_hash = area_hash env (mem_bytes (me_mem env) p (ne_ops_len ne))\<rparr>"

definition kernel_families :: "net_env \<Rightarrow> nat list" where
  "kernel_families ne = map the (filter (\<lambda>x. x \<noteq> None) (ne_families ne))"

lemma upt_map_filter:
  "n \<le> length xs \<Longrightarrow> map the (filter (\<lambda>x. x \<noteq> None) (take n xs)) = map (\<lambda>i. the (xs ! i)) (filter (\<lambda>i. xs ! i \<noteq> None) [0..<n])"
  by (induction n) (auto simp: take_Suc_conv_app_nth)

lemma add_families:
  assumes "\<forall>n. ne_mem ne n"
  shows "snd (add_all_net_proto_family_info ne s) =
    s\<lparr>net_proto_family_list := rev (map (family_info ne) (kernel_families ne)) @ net_proto_family_list s,
      net_proto_family_count := net_proto_family_count s + int (length (kernel_families ne))\<rparr>"
proof -
  let ?f = "\<lambda>i s. case ne_families ne ! i of None \<Rightarrow> s | Some pf \<Rightarrow> snd (add_net_proto_family_info ne (ne_mem ne i) pf s)"
  have "fold ?f is s =
      s\<lparr>net_proto_family_list := rev (map (\<lambda>i. family_info ne (the (ne_families ne ! i))) (filter (\<lambda>i. ne_families ne ! i \<noteq> None) is)) @ net_proto_family_list s,
        net_proto_family_count := net_proto_family_count s + int (length (filter (\<lambda>i. ne_families ne ! i \<noteq> None) is))\<rparr>" for "is"
    using assms by (induction "is" arbitrary: s) (auto simp: add_net_proto_family_info_def family_info_def)
  then show ?thesis
    using upt_map_filter [of "length (ne_families ne)" "ne_families ne"]
    by (simp add: add_all_net_proto_family_info_def kernel_families_def rev_map comp_def)
qed

lemma add_protos:
  assumes "\<forall>n. ne_mem ne n"
  shows "snd (add_all_proto_info env ne s) =
    s\<lparr>net_proto_list := rev (map (proto_record env ne) (ne_protos ne)) @ net_proto_list s,
      net_proto_count := net_proto_count s + int (length (ne_protos ne))\<rparr>"
proof -
  let ?f = "\<lambda>i s. snd (add_proto_info env ne (ne_mem ne (length (ne_families ne) + i)) (ne_protos ne ! i) s)"
  have "fold ?f is s = s\<lparr>net_proto_list := rev (map (\<lambda>i. proto_record env ne (ne_protos ne ! i)) is) @ net_proto_list s,
        net_proto_count := net_proto_count s + int (length is)\<rparr>" for "is"
    using assms by (induction "is" arbitrary: s) (auto simp: add_proto_info_def proto_record_def)
  moreover have "map (\<lambda>i. proto_record env ne (ne_protos ne ! i)) [0..<length (ne_protos ne)] = map (proto_record env ne) (ne_protos ne)"
    by (rule nth_equalityI) simp_all
  ultimately show ?thesis by (simp add: add_all_proto_info_def)
qed

lemma net_init_records:
  assumes "net_init env ne s acts = Some (0, s', acts')" "\<forall>n. ne_mem ne n" "net_proto_family_list s = []" "net_proto_list s = []"
  shows "net_proto_family_list s' = rev (map (family_info ne) (kernel_families ne))"
    "net_proto_list s' = rev (map (proto_record env ne) (ne_protos ne))"
proof -
  have s': "s' = snd (add_all_proto_info env ne (snd (add_all_net_proto_family_info ne s)))"
    using assms(1) by (auto simp: net_init_def dnet_basedata_init_def add_all_net_proto_family_info_def add_all_proto_info_def Let_def
        split: if_splits option.splits)
  show "net_proto_family_list s' = rev (map (family_info ne) (kernel_families ne))"
    "net_proto_list s' = rev (map (proto_record env ne) (ne_protos ne))"
    using assms(3,4) unfolding s' add_protos [OF assms(2)] add_families [OF assms(2)] by simp_all
qed

lemma drop_families_all: "net_proto_family_list s = is \<Longrightarrow>
  drop_families is s = s\<lparr>net_proto_family_list := [], net_proto_family_count := net_proto_family_count s - int (length is)\<rparr>"
  by (induction "is" arbitrary: s) simp_all

lemma drop_protos_all: "net_proto_list s = is \<Longrightarrow>
  drop_protos is s = s\<lparr>net_proto_list := [], net_proto_count := net_proto_count s - int (length is)\<rparr>"
  by (induction "is" arbitrary: s) simp_all

text \<open>Unloading forgets every record and brings the counters back.\<close>

lemma net_unload:
  assumes "net_init env ne s acts = Some (0, s', acts')" "net_exit s' acts' = Some (s'', acts'')" "\<forall>n. ne_mem ne n"
    and "net_proto_family_list s = []" "net_proto_list s = []"
  shows "s'' = s"
proof -
  have s': "s' = snd (add_all_proto_info env ne (snd (add_all_net_proto_family_info ne s)))"
    using assms(1) by (auto simp: net_init_def dnet_basedata_init_def add_all_net_proto_family_info_def add_all_proto_info_def Let_def
        split: if_splits option.splits)
  have "s'' = dnet_basedata_exit s'" using assms(2) by (auto simp: net_exit_def split: option.splits)
  then show ?thesis
    using assms(4,5) unfolding s' add_protos [OF assms(3)] add_families [OF assms(3)]
    by (simp add: dnet_basedata_exit_def remove_all_net_proto_family_info_def remove_all_proto_info_def drop_families_all drop_protos_all)
qed

section \<open>What the checks decide\<close>

definition family_bad :: "net_env \<Rightarrow> net_proto_family_info \<Rightarrow> bool" where
  "family_bad ne pfi \<longleftrightarrow> \<not> (pfi_family pfi = pf_family (ne_family ne (pfi_pf pfi)) \<and> pfi_create_func pfi = pf_create (ne_family ne (pfi_pf pfi)))"

definition family_report :: "measure_env \<Rightarrow> net_env \<Rightarrow> dmeasure_point option \<Rightarrow> net_proto_family_info \<Rightarrow> byte list \<Rightarrow> measure_out \<Rightarrow> measure_out" where
  "family_report env ne point pfi name out =
     net_send_audit_log env point name RESULT_FAIL (area_hash env (mem_bytes (me_mem env) (pf_create (ne_family ne (pfi_pf pfi))) 8)) (critical_failure out)"

definition proto_bad :: "measure_env \<Rightarrow> proto_info \<Rightarrow> bool" where
  "proto_bad env i \<longleftrightarrow> \<not> memeq (pti_hash i) (area_hash env (mem_bytes (me_mem env) (pti_proto i) (pti_opsmem_len i))) LEN_HASH"

definition proto_report :: "measure_env \<Rightarrow> net_env \<Rightarrow> dmeasure_point option \<Rightarrow> proto_info \<Rightarrow> unit \<Rightarrow> measure_out \<Rightarrow> measure_out" where
  "proto_report env ne point i u out =
     net_send_audit_log env point (ne_proto_name ne (pti_proto i)) RESULT_FAIL
       (area_hash env (mem_bytes (me_mem env) (pti_proto i) (pti_opsmem_len i))) (critical_failure out)"

lemma audit_record_spec:
  "mo_counts (audit_record env point result d out) = mo_counts out"
  "\<forall>n. me_kz env n \<Longrightarrow> mo_audit (audit_record env point result d out) = mo_audit out @ [(point_operate point, result, d)]"
  by (simp_all add: audit_record_def Let_def)

lemma critical_failure_spec [simp]:
  "mo_counts (critical_failure out) = CriticalDataFailureCount_add (mo_counts out)" "mo_audit (critical_failure out) = mo_audit out"
  by (simp_all add: critical_failure_def)

interpretation families: list_check "family_body env ne point" "family_bad ne"
  "\<lambda>i. get_family_name (pf_family (ne_family ne (pfi_pf i)))" "family_report env ne point" "me_kz env" for env ne point
  by unfold_locales
    (auto simp: family_body_def family_bad_def family_report_def family_info_def net_send_audit_log_def audit_record_spec Let_def)

interpretation protos: list_check "proto_body env ne point" "proto_bad env" "\<lambda>i u. u" "proto_report env ne point" "me_kz env" for env ne point
  by unfold_locales
    (auto simp: proto_body_def proto_bad_def proto_report_def net_send_audit_log_def audit_record_spec Let_def)

lemma success_record:
  "mo_counts (audit_record env point RESULT_SUCCESS d out) = mo_counts out"
  "failure_records (audit_record env point RESULT_SUCCESS d out) = failure_records out"
  by (simp_all add: audit_record_def failure_records_def Let_def)

lemma family_check_result:
  assumes "net_proto_family_list_check env ne point s out = (r, out')"
  shows "r = (if filter (family_bad ne) (net_proto_family_list s) = [] then 0 else - EINVAL)"
    "mo_counts out' = (CriticalDataFailureCount_add ^^ length (filter (family_bad ne) (net_proto_family_list s))) (mo_counts out)"
    "\<forall>n. me_kz env n \<Longrightarrow> failure_records out' = failure_records out + length (filter (family_bad ne) (net_proto_family_list s))"
  by (rule families.check_result [OF assms [unfolded net_proto_family_list_check_def]]; simp add: net_send_audit_log_def success_record)+

lemma proto_check_result:
  assumes "proto_list_check env ne point s out = (r, out')"
  shows "r = (if filter (proto_bad env) (net_proto_list s) = [] then 0 else - EINVAL)"
    "mo_counts out' = (CriticalDataFailureCount_add ^^ length (filter (proto_bad env) (net_proto_list s))) (mo_counts out)"
    "\<forall>n. me_kz env n \<Longrightarrow> failure_records out' = failure_records out + length (filter (proto_bad env) (net_proto_list s))"
  by (rule protos.check_result [OF assms [unfolded proto_list_check_def]]; simp add: net_send_audit_log_def success_record)+

definition changed_families :: "net_env \<Rightarrow> net_env \<Rightarrow> nat list" where
  "changed_families ne0 ne = filter (\<lambda>pf. ne_family ne pf \<noteq> ne_family ne0 pf) (kernel_families ne0)"

definition changed_protos :: "measure_env \<Rightarrow> measure_env \<Rightarrow> net_env \<Rightarrow> nat list" where
  "changed_protos env0 env ne0 = filter (\<lambda>p. gb_sm3 (mem_bytes (me_mem env) p (ne_ops_len ne0)) \<noteq> gb_sm3 (mem_bytes (me_mem env0) p (ne_ops_len ne0))) (ne_protos ne0)"

lemma recorded_bad:
  assumes "env_wf env0" "env_wf env" "ne_ops_len ne0 < 2 ^ 31"
  shows "filter (family_bad ne) (rev (map (family_info ne0) (kernel_families ne0))) = rev (map (family_info ne0) (changed_families ne0 ne))"
    "filter (proto_bad env) (rev (map (proto_record env0 ne0) (ne_protos ne0))) = rev (map (proto_record env0 ne0) (changed_protos env0 env ne0))"
proof -
  have "family_bad ne (family_info ne0 pf) \<longleftrightarrow> ne_family ne pf \<noteq> ne_family ne0 pf" for pf
    by (cases "ne_family ne pf"; cases "ne_family ne0 pf") (auto simp: family_bad_def family_info_def)
  then show "filter (family_bad ne) (rev (map (family_info ne0) (kernel_families ne0))) = rev (map (family_info ne0) (changed_families ne0 ne))"
    by (simp add: changed_families_def filter_map comp_def flip: rev_filter)
  have "proto_bad env (proto_record env0 ne0 p) \<longleftrightarrow> gb_sm3 (mem_bytes (me_mem env) p (ne_ops_len ne0)) \<noteq> gb_sm3 (mem_bytes (me_mem env0) p (ne_ops_len ne0))" for p
    using assms by (auto simp: proto_bad_def proto_record_def area_hash_sm3 memeq_def length_gb_sm3 LEN_HASH_def)
  then show "filter (proto_bad env) (rev (map (proto_record env0 ne0) (ne_protos ne0))) = rev (map (proto_record env0 ne0) (changed_protos env0 env ne0))"
    by (simp add: changed_protos_def filter_map comp_def flip: rev_filter)
qed

text \<open>C13. The network protocols are measured. After loading, the check passes exactly if every family that the kernel had then
  has its number and constructor and the operations of every protocol their hash. Each changed
  family and protocol is counted and, while memory lasts, recorded.\<close>

theorem net_check_decides:
  assumes "net_init env0 ne0 s acts = Some (0, s', acts')" "\<forall>n. ne_mem ne0 n" "net_proto_family_list s = []" "net_proto_list s = []"
    and "env_wf env0" "env_wf env" "ne_ops_len ne0 < 2 ^ 31"
  shows "\<exists>out'. net_dmeasure_check env ne point s' out =
      (if changed_families ne0 ne = [] \<and> changed_protos env0 env ne0 = [] then 0 else - EINVAL, out')
    \<and> mo_counts out' = (CriticalDataFailureCount_add ^^ (length (changed_families ne0 ne) + length (changed_protos env0 env ne0))) (mo_counts out)
    \<and> ((\<forall>n. me_kz env n) \<longrightarrow>
        failure_records out' = failure_records out + length (changed_families ne0 ne) + length (changed_protos env0 env ne0))"
proof -
  note rec = net_init_records [OF assms(1-4)]
  obtain r1 o1 where f: "net_proto_family_list_check env ne point s' out = (r1, o1)" by fastforce
  obtain r2 o2 where p: "proto_list_check env ne point s' o1 = (r2, o2)" by fastforce
  note fr = family_check_result [OF f, unfolded rec recorded_bad [OF assms(5-7)]]
  note pr = proto_check_result [OF p, unfolded rec recorded_bad [OF assms(5-7)]]
  have "net_dmeasure_check env ne point s' out = (if changed_families ne0 ne = [] \<and> changed_protos env0 env ne0 = [] then 0 else - EINVAL, o2)"
    using f p fr(1) pr(1) by (simp add: net_dmeasure_check_def)
  moreover have "mo_counts o2 = (CriticalDataFailureCount_add ^^ (length (changed_families ne0 ne) + length (changed_protos env0 env ne0))) (mo_counts out)"
    using fr(2) pr(2) by (simp add: funpow_add add.commute [of "length (changed_families ne0 ne)"])
  ultimately show ?thesis using fr(3) pr(3) by simp
qed

definition demo_net :: net_env where
  "demo_net = \<lparr>ne_families = [None, Some 0x10, Some 0x20], ne_family = (\<lambda>a. \<lparr>pf_family = int a, pf_create = 0x8000\<rparr>), ne_protos = [0x900],
     ne_proto_name = (\<lambda>a. bytes_of ''TCP''), ne_ops_len = 16, ne_mem = (\<lambda>n. True)\<rparr>"

definition demo_net_state :: net_state where
  "demo_net_state = \<lparr>netfamilies = 1, protolist = 2, net_proto_family_list = [], net_proto_list = [], net_proto_family_count = 0, net_proto_count = 0\<rparr>"

lemma net_check_decides_witness:
  "\<exists>s' acts' out'. net_init demo_env demo_net demo_net_state dm_action = Some (0, s', acts')
   \<and> net_dmeasure_check demo_env (demo_net\<lparr>ne_family := (ne_family demo_net)(0x20 := \<lparr>pf_family = 32, pf_create = 7\<rparr>)\<rparr>) None s' no_output = (- EINVAL, out')
   \<and> failure_records out' = 1"
proof -
  have reg: "\<exists>acts'. dmeasure_register_action DMEASURE_NET_ACTION dnet_action dm_action = Some (0, acts')"
    by (simp add: dmeasure_register_action_def dm_action_def Let_def schedule_delayed_work_def dnet_action_def start_action_def strncmp_eq_0_iff)
  obtain s' acts' where i: "net_init demo_env demo_net demo_net_state dm_action = Some (0, s', acts')"
    using reg by (auto simp: net_init_def kernel_args_addr_init_def demo_net_state_def INVALID_DATA_FULL_FF_def dnet_basedata_init_def
        add_all_net_proto_family_info_def add_all_proto_info_def Let_def)
  let ?ne = "demo_net\<lparr>ne_family := (ne_family demo_net)(0x20 := \<lparr>pf_family = 32, pf_create = 7\<rparr>)\<rparr>"
  have "changed_families demo_net ?ne = [0x20]" "changed_protos demo_env demo_env demo_net = []" "\<forall>n. me_kz demo_env n"
    by (simp_all add: changed_families_def kernel_families_def demo_net_def changed_protos_def demo_env_def)
  moreover have "\<forall>n. ne_mem demo_net n" "net_proto_family_list demo_net_state = []" "net_proto_list demo_net_state = []" "ne_ops_len demo_net < 2 ^ 31"
    "failure_records no_output = 0"
    by (simp_all add: demo_net_def demo_net_state_def failure_records_def no_output_def)
  ultimately show ?thesis
    using net_check_decides [OF i _ _ _ demo_env_wf(1) demo_env_wf(1), of ?ne None no_output] i by auto
qed

end
