(* ===== verification/Kernel_Filesystem.thy ===== *)
theory Kernel_Filesystem
  imports Kernel_Net
begin

text \<open>
  The measurement of file systems: tsb/kernel/dmeasure/filesystem/filesystem.c. When the module is loaded it takes over
  the functions \<open>mount\<close> and \<open>kill_sb\<close> of every registered file system and records every super block
  with its operations; the taken-over functions keep the record up to date. A check looks whether
  the functions are still those of the module and the operations of each super block those recorded.

  The types of file systems are written by the module and belong to its state, by their addresses. The kernel's lists and
  super blocks are parameters, given at the moment of a call. \<open>filesystem_p\<close> is never set.
\<close>

section \<open>State\<close>

record file_system_type =
  ft_name :: "byte list"
  ft_mount :: nat
  ft_kill_sb :: nat

record super_block =
  sb_s_type :: nat
  sb_s_id :: "byte list"
  sb_s_op :: nat

record super_block_info =
  si_sb :: nat
  si_name :: "byte list"
  si_s_id :: "byte list"
  si_s_op :: nat

record file_system_info =
  fi_fs :: nat
  fi_name :: "byte list"
  fi_mount :: nat
  fi_kill_sb :: nat

record fs_world =
  filesystems :: nat
  superblocks :: nat
  sblock :: nat
  file_system_list :: "file_system_info list"
  super_block_list :: "super_block_info list"
  file_system_count :: int
  super_block_count :: int
  fw_types :: "nat \<Rightarrow> file_system_type"

text \<open>\<open>fe_chain\<close>: the registered types, along \<open>next\<close>; \<open>fe_super_blocks\<close>: the list of super blocks; \<open>fe_mem n\<close>: the n-th
  allocation of an entry succeeds; the last two are the addresses of the module's functions.\<close>

record fs_env =
  fe_chain :: "nat list"
  fe_super_blocks :: "nat list"
  fe_sb :: "nat \<Rightarrow> super_block"
  fe_mem :: "nat \<Rightarrow> bool"

record fs_hooks =
  fh_httc_mount :: nat
  fh_httc_kill_sb :: nat

definition MAX_FILE_SYSTEM_NAME :: nat where "MAX_FILE_SYSTEM_NAME = 64"

section \<open>Recording\<close>

definition fs_args_addr_init :: "fs_world \<Rightarrow> int" where
  "fs_args_addr_init w =
     (if filesystems w = INVALID_DATA_FULL_FF \<or> filesystems w = 0 \<or> superblocks w = INVALID_DATA_FULL_FF \<or> superblocks w = 0
       \<or> sblock w = INVALID_DATA_FULL_FF \<or> sblock w = 0 then - EINVAL else 0)"

definition fst_in_basedata :: "byte list \<Rightarrow> nat \<Rightarrow> fs_world \<Rightarrow> bool" where
  "fst_in_basedata name len w \<longleftrightarrow> (\<exists>fsi\<in>set (file_system_list w). strlen (fi_name fsi) = len \<and> strncmp (fi_name fsi) name len = 0)"

definition file_system_info_by_fs :: "nat \<Rightarrow> fs_world \<Rightarrow> file_system_info option" where
  "file_system_info_by_fs fs w = find (\<lambda>fsi. fi_fs fsi = fs) (file_system_list w)"

definition super_block_info_by_sb :: "nat \<Rightarrow> fs_world \<Rightarrow> super_block_info option" where
  "super_block_info_by_sb sb w = find (\<lambda>sbi. si_sb sbi = sb) (super_block_list w)"

definition add_super_block_info :: "fs_env \<Rightarrow> bool \<Rightarrow> nat \<Rightarrow> fs_world \<Rightarrow> int \<times> fs_world" where
  "add_super_block_info fe mem sb w =
     (if \<not> mem then (- ENOMEM, w)
      else (0, w\<lparr>super_block_list := \<lparr>si_sb = sb, si_name = take (MAX_FILE_SYSTEM_NAME - 1) (cstr (ft_name (fw_types w (sb_s_type (fe_sb fe sb))))),
                   si_s_id = take 31 (cstr (sb_s_id (fe_sb fe sb))), si_s_op = sb_s_op (fe_sb fe sb)\<rparr> # super_block_list w,
                 super_block_count := super_block_count w + 1\<rparr>))"

definition remove_super_block_info :: "nat \<Rightarrow> fs_world \<Rightarrow> fs_world" where
  "remove_super_block_info sb w =
     (case super_block_info_by_sb sb w of None \<Rightarrow> w
      | Some sbi \<Rightarrow> w\<lparr>super_block_list := remove_first si_sb sb (super_block_list w), super_block_count := super_block_count w - 1\<rparr>)"

text \<open>A super block pointer that is NULL or an error number is \<open>None\<close>. The result names the function that is called.\<close>

definition httc_kill_sb :: "fs_env \<Rightarrow> nat option \<Rightarrow> fs_world \<Rightarrow> nat option \<times> fs_world" where
  "httc_kill_sb fe sb w = (case sb of None \<Rightarrow> (None, w)
     | Some sb \<Rightarrow> (case file_system_info_by_fs (sb_s_type (fe_sb fe sb)) w of None \<Rightarrow> (None, w)
        | Some fsi \<Rightarrow> (Some (fi_kill_sb fsi), remove_super_block_info sb w)))"

text \<open>The loop behind a mount: the untracked super blocks of the type.\<close>

definition track :: "fs_env \<Rightarrow> (nat \<Rightarrow> bool) \<Rightarrow> fs_world \<Rightarrow> fs_world" where
  "track fe sel w = fold (\<lambda>i w. let sb = fe_super_blocks fe ! i in
     if sel sb \<and> super_block_info_by_sb sb w = None then snd (add_super_block_info fe (fe_mem fe i) sb w) else w) [0..<length (fe_super_blocks fe)] w"

text \<open>\<open>orig f\<close>: the result of calling the file system's own function \<open>f\<close>, where \<open>None\<close> stands for NULL or an error, and the kernel
  afterwards.\<close>

definition httc_mount :: "(nat \<Rightarrow> nat option \<times> fs_env) \<Rightarrow> nat \<Rightarrow> fs_world \<Rightarrow> nat option \<times> fs_world" where
  "httc_mount orig fs w = (case file_system_info_by_fs fs w of None \<Rightarrow> (None, w)
     | Some fsi \<Rightarrow> (case orig (fi_mount fsi) of
         (None, fe) \<Rightarrow> (None, w)
       | (Some ret, fe) \<Rightarrow> (Some ret, track fe (\<lambda>sb. sb_s_type (fe_sb fe sb) = fs) w)))"

definition add_file_system_info :: "fs_hooks \<Rightarrow> bool \<Rightarrow> nat \<Rightarrow> fs_world \<Rightarrow> int \<times> fs_world" where
  "add_file_system_info h mem fs w =
     (if \<not> mem then (- ENOMEM, w)
      else let t = fw_types w fs
           in (0, w\<lparr>file_system_list := \<lparr>fi_fs = fs, fi_name = take (MAX_FILE_SYSTEM_NAME - 1) (cstr (ft_name t)),
                        fi_mount = ft_mount t, fi_kill_sb = ft_kill_sb t\<rparr> # file_system_list w,
                    file_system_count := file_system_count w + 1,
                    fw_types := (fw_types w)(fs := t\<lparr>ft_mount := fh_httc_mount h, ft_kill_sb := fh_httc_kill_sb h\<rparr>)\<rparr>))"

definition add_all_filesystems_info :: "fs_hooks \<Rightarrow> fs_env \<Rightarrow> fs_world \<Rightarrow> int \<times> fs_world" where
  "add_all_filesystems_info h fe w =
     (0, fold (\<lambda>i w. let fs = fe_chain fe ! i; name = ft_name (fw_types w fs) in
        if \<not> fst_in_basedata name (strlen name) w then snd (add_file_system_info h (fe_mem fe i) fs w) else w) [0..<length (fe_chain fe)] w)"

fun drop_filesystems :: "file_system_info list \<Rightarrow> fs_world \<Rightarrow> fs_world" where
  "drop_filesystems [] w = w"
| "drop_filesystems (fsi # fsis) w = drop_filesystems fsis (w\<lparr>
     fw_types := (fw_types w)(fi_fs fsi := (fw_types w (fi_fs fsi))\<lparr>ft_mount := fi_mount fsi, ft_kill_sb := fi_kill_sb fsi\<rparr>),
     file_system_list := fsis, file_system_count := file_system_count w - 1\<rparr>)"

definition remove_all_filesystems_info :: "fs_world \<Rightarrow> fs_world" where
  "remove_all_filesystems_info w = drop_filesystems (file_system_list w) w"

definition add_all_superblocks_info :: "fs_env \<Rightarrow> fs_world \<Rightarrow> int \<times> fs_world" where
  "add_all_superblocks_info fe w = (0, track fe (\<lambda>sb. True) w)"

fun drop_superblocks :: "super_block_info list \<Rightarrow> fs_world \<Rightarrow> fs_world" where
  "drop_superblocks [] w = w"
| "drop_superblocks (sbi # sbis) w = drop_superblocks sbis (w\<lparr>super_block_list := sbis, super_block_count := super_block_count w - 1\<rparr>)"

definition remove_all_superblocks_info :: "fs_world \<Rightarrow> fs_world" where
  "remove_all_superblocks_info w = drop_superblocks (super_block_list w) w"

definition dfilesystem_basedata_init :: "fs_hooks \<Rightarrow> fs_env \<Rightarrow> fs_world \<Rightarrow> int \<times> fs_world" where
  "dfilesystem_basedata_init h fe w =
     (let (ret, w1) = add_all_filesystems_info h fe w
      in if ret \<noteq> 0 then (ret, w1)
         else let (ret, w2) = add_all_superblocks_info fe w1
              in if ret \<noteq> 0 then (ret, remove_all_filesystems_info w2) else (ret, w2))"

definition dfilesystem_basedata_exit :: "fs_world \<Rightarrow> fs_world" where
  "dfilesystem_basedata_exit w = remove_all_superblocks_info (remove_all_filesystems_info w)"

section \<open>Checking\<close>

definition fs_send_audit_log :: "measure_env \<Rightarrow> dmeasure_point option \<Rightarrow> byte list \<Rightarrow> int \<Rightarrow> byte list \<Rightarrow> measure_out \<Rightarrow> measure_out" where
  "fs_send_audit_log env point name result hash =
     audit_record env point result (audit_domain (point_subject point) (bytes_of ''filesystem('' @ cstr name @ bytes_of '')'') hash)"

definition file_system_body ::
  "measure_env \<Rightarrow> fs_hooks \<Rightarrow> fs_world \<Rightarrow> dmeasure_point option \<Rightarrow> file_system_info \<Rightarrow> unit \<times> int \<times> measure_out \<Rightarrow> unit \<times> int \<times> measure_out" where
  "file_system_body env h w point fsi = (\<lambda>(u, ret, out).
     let fs = fw_types w (fi_fs fsi)
     in if fh_httc_mount h = ft_mount fs \<and> fh_httc_kill_sb h = ft_kill_sb fs then (u, ret, out)
        else (u, - EINVAL, fs_send_audit_log env point (ft_name fs) RESULT_FAIL (area_hash env (mem_bytes (me_mem env) (ft_kill_sb fs) 8)) (critical_failure out)))"

definition file_system_list_check :: "measure_env \<Rightarrow> fs_hooks \<Rightarrow> dmeasure_point option \<Rightarrow> fs_world \<Rightarrow> measure_out \<Rightarrow> int \<times> measure_out" where
  "file_system_list_check env h point w out =
     (let (u, ret, out') = fold (file_system_body env h w point) (file_system_list w) ((), 0, out)
      in if ret = 0 then (ret, fs_send_audit_log env point (bytes_of ''file_system_type'') RESULT_SUCCESS (replicate LEN_HASH 0) out')
         else (ret, out'))"

definition super_block_body ::
  "measure_env \<Rightarrow> fs_env \<Rightarrow> fs_world \<Rightarrow> dmeasure_point option \<Rightarrow> super_block_info \<Rightarrow> unit \<times> int \<times> measure_out \<Rightarrow> unit \<times> int \<times> measure_out" where
  "super_block_body env fe w point sbi = (\<lambda>(u, ret, out).
     let sb = fe_sb fe (si_sb sbi)
     in if si_s_op sbi = sb_s_op sb then (u, ret, out)
        else (u, - EINVAL, fs_send_audit_log env point (ft_name (fw_types w (sb_s_type sb))) RESULT_FAIL
                (area_hash env (mem_bytes (me_mem env) (sb_s_op sb) 8)) (critical_failure out)))"

definition super_block_list_check :: "measure_env \<Rightarrow> fs_env \<Rightarrow> dmeasure_point option \<Rightarrow> fs_world \<Rightarrow> measure_out \<Rightarrow> int \<times> measure_out" where
  "super_block_list_check env fe point w out =
     (let (u, ret, out') = fold (super_block_body env fe w point) (super_block_list w) ((), 0, out)
      in if ret = 0 then (ret, fs_send_audit_log env point (bytes_of ''super_block'') RESULT_SUCCESS (replicate LEN_HASH 0) out')
         else (ret, out'))"

definition file_system_check :: "measure_env \<Rightarrow> fs_hooks \<Rightarrow> fs_env \<Rightarrow> dmeasure_point option \<Rightarrow> fs_world \<Rightarrow> measure_out \<Rightarrow> int \<times> measure_out" where
  "file_system_check env h fe point w out =
     (let (ret1, out1) = file_system_list_check env h point w out;
          (ret2, out2) = super_block_list_check env fe point w out1
      in (if ret1 \<noteq> 0 then ret1 else ret2, out2))"

section \<open>Loading and unloading\<close>

definition dfilesystem_action :: dmeasure_node where
  "dfilesystem_action = \<lparr>dn_name = bytes_of DM_ACTION_FILESYSTEM_NAME, dn_check = Some ''file_system_check''\<rparr>"

definition filesystem_init ::
  "fs_hooks \<Rightarrow> fs_env \<Rightarrow> fs_world \<Rightarrow> dmeasure_action list \<Rightarrow> (int \<times> fs_world \<times> dmeasure_action list) option" where
  "filesystem_init h fe w acts =
     (let ret = fs_args_addr_init w
      in if ret \<noteq> 0 then Some (ret, w, acts)
         else let (ret, w1) = dfilesystem_basedata_init h fe w
         in if ret \<noteq> 0 then Some (- EINVAL, w1, acts)
            else case dmeasure_register_action DMEASURE_FILESYSTEM_ACTION dfilesystem_action acts of None \<Rightarrow> None
              | Some (r, acts') \<Rightarrow> if r \<noteq> 0 then Some (- EINVAL, dfilesystem_basedata_exit w1, acts') else Some (r, w1, acts'))"

definition filesystem_exit :: "fs_world \<Rightarrow> dmeasure_action list \<Rightarrow> (fs_world \<times> dmeasure_action list) option" where
  "filesystem_exit w acts = (case dmeasure_unregister_action DMEASURE_FILESYSTEM_ACTION dfilesystem_action acts of None \<Rightarrow> None
     | Some (r, acts') \<Rightarrow> Some (dfilesystem_basedata_exit w, acts'))"

text \<open>Mounts and unmounts between loading and unloading, by the taken-over functions; the kernel may change in between.\<close>

inductive fs_step :: "fs_world \<Rightarrow> fs_world \<Rightarrow> bool" where
  mount: "fs_step w (snd (httc_mount orig fs w))"
| kill: "fs_step w (snd (httc_kill_sb fe sb w))"

section \<open>Super blocks as a set\<close>

definition tracked :: "fs_world \<Rightarrow> nat set" where
  "tracked w = si_sb ` set (super_block_list w)"

definition sb_inv :: "fs_world \<Rightarrow> bool" where
  "sb_inv w \<longleftrightarrow> distinct (map si_sb (super_block_list w)) \<and> super_block_count w = int (length (super_block_list w))"

lemma by_sb_None: "super_block_info_by_sb sb w = None \<longleftrightarrow> sb \<notin> tracked w"
  by (auto simp: super_block_info_by_sb_def tracked_def find_None_iff)

lemma remove_refines:
  assumes "sb_inv w"
  shows "tracked (remove_super_block_info sb w) = tracked w - {sb}" "sb_inv (remove_super_block_info sb w)"
proof -
  note t = remove_first_spec [of si_sb "super_block_list w" sb]
  have d: "distinct (map si_sb (super_block_list w))" and c: "super_block_count w = int (length (super_block_list w))"
    using assms by (simp_all add: sb_inv_def)
  show "tracked (remove_super_block_info sb w) = tracked w - {sb}" "sb_inv (remove_super_block_info sb w)"
  proof (atomize (full), cases "super_block_info_by_sb sb w")
    case None
    then have "sb \<notin> tracked w" by (simp add: by_sb_None)
    then show "tracked (remove_super_block_info sb w) = tracked w - {sb} \<and> sb_inv (remove_super_block_info sb w)"
      using assms None by (simp add: remove_super_block_info_def)
  next
    case (Some sbi)
    then have "sb \<in> tracked w" using by_sb_None [of sb w] by auto
    then show "tracked (remove_super_block_info sb w) = tracked w - {sb} \<and> sb_inv (remove_super_block_info sb w)"
      using Some t [OF d] c by (simp add: remove_super_block_info_def tracked_def sb_inv_def)
  qed
qed

definition super_blocks_only :: "fs_world \<Rightarrow> fs_world \<Rightarrow> bool" where
  "super_blocks_only w w' \<longleftrightarrow> w' = w\<lparr>super_block_list := super_block_list w', super_block_count := super_block_count w'\<rparr>"

lemma remove_frame: "super_blocks_only w (remove_super_block_info sb w)"
  by (simp add: super_blocks_only_def remove_super_block_info_def split: option.split)

lemma super_blocks_only_trans: "super_blocks_only w w' \<Longrightarrow> super_blocks_only w' w'' \<Longrightarrow> super_blocks_only w w''"
  by (metis super_blocks_only_def fs_world.surjective fs_world.update_convs(5,7))

lemma super_blocks_only_refl: "super_blocks_only w w"
  by (simp add: super_blocks_only_def)

lemma add_super_block_spec:
  assumes "sb_inv w" "sb \<notin> tracked w"
  shows "sb_inv (snd (add_super_block_info fe mem sb w))" "super_blocks_only w (snd (add_super_block_info fe mem sb w))"
    "tracked (snd (add_super_block_info fe mem sb w)) = (if mem then insert sb (tracked w) else tracked w)"
  using assms by (auto simp: add_super_block_info_def sb_inv_def super_blocks_only_def tracked_def)

text \<open>A mount tracks the super blocks of its type, as far as there is memory for them.\<close>

lemma track_refines:
  assumes "sb_inv w"
  shows "sb_inv (track fe sel w)" "super_blocks_only w (track fe sel w)"
    "\<forall>n. fe_mem fe n \<Longrightarrow> tracked (track fe sel w) = tracked w \<union> {sb \<in> set (fe_super_blocks fe). sel sb}"
proof -
  define f where "f = (\<lambda>i w. let sb = fe_super_blocks fe ! i in
     if sel sb \<and> super_block_info_by_sb sb w = None then snd (add_super_block_info fe (fe_mem fe i) sb w) else w)"
  have step: "sb_inv (f i w)" "super_blocks_only w (f i w)"
    "\<forall>n. fe_mem fe n \<Longrightarrow> tracked (f i w) = tracked w \<union> (if sel (fe_super_blocks fe ! i) then {fe_super_blocks fe ! i} else {})" if "sb_inv w" for i w
    using add_super_block_spec [OF that, of "fe_super_blocks fe ! i"] that
    by (auto simp: f_def Let_def by_sb_None super_blocks_only_refl)
  have "sb_inv (fold f is w) \<and> super_blocks_only w (fold f is w)
    \<and> ((\<forall>n. fe_mem fe n) \<longrightarrow> tracked (fold f is w) = tracked w \<union> {sb \<in> (\<lambda>i. fe_super_blocks fe ! i) ` set is. sel sb})" if "sb_inv w" for "is" w
    using that
  proof (induction "is" arbitrary: w)
    case Nil
    then show ?case by (simp add: super_blocks_only_refl)
  next
    case (Cons i "is")
    show ?case using Cons.IH [OF step(1) [OF Cons.prems, of i]] step(2,3) [OF Cons.prems, of i] super_blocks_only_trans by (auto split: if_splits)
  qed
  from this [OF assms, of "[0..<length (fe_super_blocks fe)]"]
  show "sb_inv (track fe sel w)" "super_blocks_only w (track fe sel w)"
    "\<forall>n. fe_mem fe n \<Longrightarrow> tracked (track fe sel w) = tracked w \<union> {sb \<in> set (fe_super_blocks fe). sel sb}"
    by (auto simp: track_def f_def set_conv_nth image_iff)
qed

lemma fs_step_keeps:
  assumes "fs_step w w'" "sb_inv w"
  shows "sb_inv w' \<and> super_blocks_only w w'"
  using assms
proof cases
  case (mount orig fs)
  then show ?thesis
    using track_refines(1,2) [OF assms(2)] assms(2) by (auto simp: httc_mount_def super_blocks_only_refl split: option.splits prod.splits)
next
  case (kill fe sb)
  then show ?thesis
    using remove_refines(2) [OF assms(2)] assms(2) remove_frame by (auto simp: httc_kill_sb_def super_blocks_only_refl split: option.splits)
qed

lemma fs_steps_keep:
  assumes "fs_step\<^sup>*\<^sup>* w w'" "sb_inv w"
  shows "sb_inv w' \<and> super_blocks_only w w'"
  using assms
proof (induction rule: rtranclp_induct)
  case base
  then show ?case by (simp add: super_blocks_only_refl)
next
  case (step v v')
  then show ?case using fs_step_keeps [OF step(2)] super_blocks_only_trans by blast
qed

section \<open>The functions of the file systems\<close>

text \<open>The records are those of the types before loading, and exactly the recorded types have the functions of the module.\<close>

definition hooked :: "fs_hooks \<Rightarrow> (nat \<Rightarrow> file_system_type) \<Rightarrow> fs_world \<Rightarrow> bool" where
  "hooked h types0 w \<longleftrightarrow> distinct (map fi_fs (file_system_list w)) \<and> file_system_count w = int (length (file_system_list w))
     \<and> (\<forall>fsi\<in>set (file_system_list w). fi_mount fsi = ft_mount (types0 (fi_fs fsi)) \<and> fi_kill_sb fsi = ft_kill_sb (types0 (fi_fs fsi)))
     \<and> (\<forall>a. fw_types w a = (if a \<in> fi_fs ` set (file_system_list w)
          then (types0 a)\<lparr>ft_mount := fh_httc_mount h, ft_kill_sb := fh_httc_kill_sb h\<rparr> else types0 a))"

lemma add_file_system_hooked:
  assumes "hooked h types0 w" "fs \<notin> fi_fs ` set (file_system_list w)"
  shows "hooked h types0 (snd (add_file_system_info h mem fs w))"
    "fi_fs ` set (file_system_list (snd (add_file_system_info h mem fs w))) \<subseteq> insert fs (fi_fs ` set (file_system_list w))"
  using assms by (auto simp: hooked_def add_file_system_info_def Let_def)

lemma add_file_system_frame:
  "\<exists>l c t. snd (add_file_system_info h mem fs (w\<lparr>file_system_list := l0, file_system_count := c0, fw_types := t0\<rparr>)) =
     w\<lparr>file_system_list := l, file_system_count := c, fw_types := t\<rparr>"
  by (cases mem; simp add: add_file_system_info_def Let_def; intro exI; rule refl)

lemma fs_fields_frame:
  assumes "w' = w\<lparr>file_system_list := l, file_system_count := c, fw_types := t\<rparr>"
  shows "sb_inv w' = sb_inv w" "tracked w' = tracked w"
  using assms by (simp_all add: sb_inv_def tracked_def)

lemma add_all_hooked:
  assumes "distinct (fe_chain fe)" "file_system_list w = []" "file_system_count w = 0"
  shows "hooked h (fw_types w) (snd (add_all_filesystems_info h fe w))"
    "\<exists>l c t. snd (add_all_filesystems_info h fe w) = w\<lparr>file_system_list := l, file_system_count := c, fw_types := t\<rparr>"
proof -
  define f where "f = (\<lambda>i w. let fs = fe_chain fe ! i; name = ft_name (fw_types w fs) in
        if \<not> fst_in_basedata name (strlen name) w then snd (add_file_system_info h (fe_mem fe i) fs w) else w)"
  have step: "hooked h (fw_types w) (fold f [0..<n] w) \<and> fi_fs ` set (file_system_list (fold f [0..<n] w)) \<subseteq> set (take n (fe_chain fe))
    \<and> (\<exists>l c t. fold f [0..<n] w = w\<lparr>file_system_list := l, file_system_count := c, fw_types := t\<rparr>)" if "n \<le> length (fe_chain fe)" for n
    using that
  proof (induction n)
    case 0
    have "\<exists>l c t. w = w\<lparr>file_system_list := l, file_system_count := c, fw_types := t\<rparr>"
      by (intro exI [of _ "file_system_list w"] exI [of _ "file_system_count w"] exI [of _ "fw_types w"]) simp
    moreover have "hooked h (fw_types w) w" using assms(2,3) by (auto simp: hooked_def)
    ultimately show ?case using assms(2) by simp
  next
    case (Suc n)
    let ?w = "fold f [0..<n] w" and ?fs = "fe_chain fe ! n"
    have ih: "hooked h (fw_types w) ?w" "fi_fs ` set (file_system_list ?w) \<subseteq> set (take n (fe_chain fe))"
      "\<exists>l c t. ?w = w\<lparr>file_system_list := l, file_system_count := c, fw_types := t\<rparr>" using Suc by simp_all
    have "?fs \<notin> set (take n (fe_chain fe))" using assms(1) Suc.prems by (auto simp: in_set_conv_nth nth_eq_iff_index_eq)
    then have new: "?fs \<notin> fi_fs ` set (file_system_list ?w)" using ih(2) by blast
    have tk: "set (take (Suc n) (fe_chain fe)) = insert ?fs (set (take n (fe_chain fe)))" using Suc.prems by (simp add: take_Suc_conv_app_nth)
    have "f n ?w = ?w \<or> f n ?w = snd (add_file_system_info h (fe_mem fe n) ?fs ?w)" by (simp add: f_def Let_def)
    then have "hooked h (fw_types w) (f n ?w) \<and> fi_fs ` set (file_system_list (f n ?w)) \<subseteq> set (take (Suc n) (fe_chain fe))
      \<and> (\<exists>l c t. f n ?w = w\<lparr>file_system_list := l, file_system_count := c, fw_types := t\<rparr>)"
    proof
      assume "f n ?w = ?w"
      then show ?thesis using ih tk by auto
    next
      assume f: "f n ?w = snd (add_file_system_info h (fe_mem fe n) ?fs ?w)"
      have "\<exists>l c t. f n ?w = w\<lparr>file_system_list := l, file_system_count := c, fw_types := t\<rparr>"
        unfolding f using ih(3) add_file_system_frame by metis
      then show ?thesis using add_file_system_hooked [OF ih(1) new, of "fe_mem fe n"] ih(2) tk unfolding f by auto
    qed
    then show ?case by simp
  qed
  show "hooked h (fw_types w) (snd (add_all_filesystems_info h fe w))"
    "\<exists>l c t. snd (add_all_filesystems_info h fe w) = w\<lparr>file_system_list := l, file_system_count := c, fw_types := t\<rparr>"
    using step [of "length (fe_chain fe)"] by (simp_all add: add_all_filesystems_info_def f_def)
qed

lemma drop_filesystems_restores:
  assumes "file_system_list w = fsis" "hooked h types0 w"
  shows "drop_filesystems fsis w = w\<lparr>file_system_list := [], file_system_count := 0, fw_types := types0\<rparr>"
  using assms
proof (induction fsis arbitrary: w)
  case Nil
  then have "file_system_count w = 0" "fw_types w = types0" by (auto simp: hooked_def)
  then show ?case using Nil.prems(1) by simp
next
  case (Cons fsi fsis)
  let ?w = "w\<lparr>fw_types := (fw_types w)(fi_fs fsi := (fw_types w (fi_fs fsi))\<lparr>ft_mount := fi_mount fsi, ft_kill_sb := fi_kill_sb fsi\<rparr>),
     file_system_list := fsis, file_system_count := file_system_count w - 1\<rparr>"
  have "(fw_types w (fi_fs fsi))\<lparr>ft_mount := fi_mount fsi, ft_kill_sb := fi_kill_sb fsi\<rparr> = types0 (fi_fs fsi)"
    using Cons.prems by (simp add: hooked_def)
  then have "hooked h types0 ?w" using Cons.prems by (auto simp: hooked_def)
  from Cons.IH [OF _ this] show ?case by simp
qed

lemma drop_superblocks_all: "super_block_list w = sbis \<Longrightarrow>
  drop_superblocks sbis w = w\<lparr>super_block_list := [], super_block_count := super_block_count w - int (length sbis)\<rparr>"
  by (induction sbis arbitrary: w) simp_all

definition unloaded :: "fs_world \<Rightarrow> bool" where
  "unloaded w \<longleftrightarrow> file_system_list w = [] \<and> super_block_list w = [] \<and> file_system_count w = 0 \<and> super_block_count w = 0"

lemma basedata_init_spec:
  assumes "unloaded w" "distinct (fe_chain fe)" "dfilesystem_basedata_init h fe w = (r, w1)"
  shows "r = 0" "hooked h (fw_types w) w1" "sb_inv w1"
    "\<exists>l c t sl sc. w1 = w\<lparr>file_system_list := l, file_system_count := c, fw_types := t, super_block_list := sl, super_block_count := sc\<rparr>"
proof -
  let ?a = "snd (add_all_filesystems_info h fe w)"
  have u: "file_system_list w = []" "file_system_count w = 0" "super_block_list w = []" "super_block_count w = 0" using assms(1) by (simp_all add: unloaded_def)
  note a = add_all_hooked [OF assms(2) u(1,2), of h]
  obtain l c t where a2: "?a = w\<lparr>file_system_list := l, file_system_count := c, fw_types := t\<rparr>" using a(2) by blast
  have "sb_inv w" using u by (simp add: sb_inv_def)
  then have i: "sb_inv ?a" using fs_fields_frame(1) [OF a2] by simp
  have w1: "r = 0" "w1 = track fe (\<lambda>sb. True) ?a"
    using assms(3) by (auto simp: dfilesystem_basedata_init_def add_all_filesystems_info_def add_all_superblocks_info_def)
  note t = track_refines(1,2) [OF i, of fe "\<lambda>sb. True", folded w1(2)]
  have f: "w1 = ?a\<lparr>super_block_list := super_block_list w1, super_block_count := super_block_count w1\<rparr>" using t(2) by (simp add: super_blocks_only_def)
  show "r = 0" "sb_inv w1" using w1(1) t(1) by simp_all
  show "hooked h (fw_types w) w1" using a(1) by (subst f) (simp add: hooked_def)
  show "\<exists>l c t sl sc. w1 = w\<lparr>file_system_list := l, file_system_count := c, fw_types := t, super_block_list := sl, super_block_count := sc\<rparr>"
    using f unfolding a2 by blast
qed

lemma basedata_exit_restores:
  assumes "unloaded w" "hooked h (fw_types w) w2" "sb_inv w2"
    and "w2 = w\<lparr>file_system_list := l, file_system_count := c, fw_types := t, super_block_list := sl, super_block_count := sc\<rparr>"
  shows "dfilesystem_basedata_exit w2 = w"
proof -
  have "remove_all_filesystems_info w2 = w2\<lparr>file_system_list := [], file_system_count := 0, fw_types := fw_types w\<rparr>"
    unfolding remove_all_filesystems_info_def by (rule drop_filesystems_restores [OF refl assms(2)])
  then have "dfilesystem_basedata_exit w2 = w2\<lparr>file_system_list := [], file_system_count := 0, fw_types := fw_types w, super_block_list := [], super_block_count := 0\<rparr>"
    using assms(3) by (simp add: dfilesystem_basedata_exit_def remove_all_superblocks_info_def drop_superblocks_all sb_inv_def)
  then show ?thesis using assms(1,4) by (simp add: unloaded_def)
qed

text \<open>C11. Loading and unloading the measurement of file systems. Whatever is mounted and unmounted in between, each type has
  the functions of the module exactly if it is recorded, no super block is recorded twice, and
  unloading gives every file system its own functions back and leaves no record. If loading fails
  it has changed nothing.\<close>

theorem filesystem_hooks_restored:
  assumes "filesystem_init h fe w acts = Some (r, w1, acts1)" "unloaded w" "distinct (fe_chain fe)"
  shows "(r = 0 \<longrightarrow> (\<forall>w2. fs_step\<^sup>*\<^sup>* w1 w2 \<longrightarrow> hooked h (fw_types w) w2 \<and> distinct (map si_sb (super_block_list w2))
      \<and> (\<forall>acts2 w3 acts3. filesystem_exit w2 acts2 = Some (w3, acts3) \<longrightarrow> w3 = w)))
    \<and> (r \<noteq> 0 \<longrightarrow> w1 = w)"
proof -
  obtain r0 w0 where b: "dfilesystem_basedata_init h fe w = (r0, w0)" by fastforce
  note s = basedata_init_spec [OF assms(2,3) b]
  obtain l c t sl sc where w0: "w0 = w\<lparr>file_system_list := l, file_system_count := c, fw_types := t, super_block_list := sl, super_block_count := sc\<rparr>"
    using s(4) by blast
  have cases: "r = 0 \<and> w1 = w0 \<or> r \<noteq> 0 \<and> (w1 = w \<or> w1 = dfilesystem_basedata_exit w0)"
    using assms(1) s(1) b by (auto simp: filesystem_init_def Let_def fs_args_addr_init_def split: if_splits option.splits)
  have "w1 = w" if "r \<noteq> 0" using cases that basedata_exit_restores [OF assms(2) s(2,3) w0] by auto
  moreover have "hooked h (fw_types w) w2 \<and> distinct (map si_sb (super_block_list w2))
      \<and> (\<forall>acts2 w3 acts3. filesystem_exit w2 acts2 = Some (w3, acts3) \<longrightarrow> w3 = w)" if "r = 0" "fs_step\<^sup>*\<^sup>* w1 w2" for w2
  proof -
    have k: "sb_inv w2" "w2 = w0\<lparr>super_block_list := super_block_list w2, super_block_count := super_block_count w2\<rparr>"
      using fs_steps_keep [OF that(2)] cases that(1) s(3) by (auto simp: super_blocks_only_def)
    have h: "hooked h (fw_types w) w2" using s(2) by (subst k(2)) (simp add: hooked_def)
    have f: "w2 = w\<lparr>file_system_list := l, file_system_count := c, fw_types := t, super_block_list := super_block_list w2, super_block_count := super_block_count w2\<rparr>"
      by (subst k(2)) (simp add: w0)
    have "dfilesystem_basedata_exit w2 = w" by (rule basedata_exit_restores [OF assms(2) h k(1) f])
    then show ?thesis using h k(1) by (auto simp: filesystem_exit_def sb_inv_def split: option.splits)
  qed
  ultimately show ?thesis by blast
qed

text \<open>The record of super blocks is a set. A successful mount adds every super block of the type that the kernel lists
  then, as far as there is memory; unmounting a super block of a recorded type calls the file system's
  own function and removes the super block; nothing else changes.\<close>

theorem super_blocks_refine_set:
  assumes "sb_inv w" "file_system_info_by_fs fs w = Some fsi"
  shows "(orig (fi_mount fsi) = (Some d, fe) \<and> (\<forall>n. fe_mem fe n) \<longrightarrow>
        (\<exists>w'. httc_mount orig fs w = (Some d, w') \<and> tracked w' = tracked w \<union> {sb \<in> set (fe_super_blocks fe). sb_s_type (fe_sb fe sb) = fs}
          \<and> sb_inv w' \<and> super_blocks_only w w'))
    \<and> (orig (fi_mount fsi) = (None, fe) \<longrightarrow> httc_mount orig fs w = (None, w))
    \<and> (sb_s_type (fe_sb fe sb) = fs \<longrightarrow>
        (\<exists>w'. httc_kill_sb fe (Some sb) w = (Some (fi_kill_sb fsi), w') \<and> tracked w' = tracked w - {sb} \<and> sb_inv w' \<and> super_blocks_only w w'))"
  using track_refines [OF assms(1)] remove_refines [OF assms(1)] remove_frame assms(2)
  by (auto simp: httc_mount_def httc_kill_sb_def)

section \<open>What the checks decide\<close>

definition type_bad :: "fs_hooks \<Rightarrow> fs_world \<Rightarrow> file_system_info \<Rightarrow> bool" where
  "type_bad h w fsi \<longleftrightarrow> \<not> (fh_httc_mount h = ft_mount (fw_types w (fi_fs fsi)) \<and> fh_httc_kill_sb h = ft_kill_sb (fw_types w (fi_fs fsi)))"

definition type_report :: "measure_env \<Rightarrow> fs_world \<Rightarrow> dmeasure_point option \<Rightarrow> file_system_info \<Rightarrow> unit \<Rightarrow> measure_out \<Rightarrow> measure_out" where
  "type_report env w point fsi u out = fs_send_audit_log env point (ft_name (fw_types w (fi_fs fsi))) RESULT_FAIL
     (area_hash env (mem_bytes (me_mem env) (ft_kill_sb (fw_types w (fi_fs fsi))) 8)) (critical_failure out)"

definition sb_bad :: "fs_env \<Rightarrow> super_block_info \<Rightarrow> bool" where
  "sb_bad fe sbi \<longleftrightarrow> si_s_op sbi \<noteq> sb_s_op (fe_sb fe (si_sb sbi))"

definition sb_report :: "measure_env \<Rightarrow> fs_env \<Rightarrow> fs_world \<Rightarrow> dmeasure_point option \<Rightarrow> super_block_info \<Rightarrow> unit \<Rightarrow> measure_out \<Rightarrow> measure_out" where
  "sb_report env fe w point sbi u out = fs_send_audit_log env point (ft_name (fw_types w (sb_s_type (fe_sb fe (si_sb sbi))))) RESULT_FAIL
     (area_hash env (mem_bytes (me_mem env) (sb_s_op (fe_sb fe (si_sb sbi))) 8)) (critical_failure out)"

interpretation types: list_check "file_system_body env h w point" "type_bad h w" "\<lambda>i u. u" "type_report env w point" "me_kz env" for env h w point
  by unfold_locales (auto simp: file_system_body_def type_bad_def type_report_def fs_send_audit_log_def audit_record_spec Let_def)

interpretation sbs: list_check "super_block_body env fe w point" "sb_bad fe" "\<lambda>i u. u" "sb_report env fe w point" "me_kz env" for env fe w point
  by unfold_locales (auto simp: super_block_body_def sb_bad_def sb_report_def fs_send_audit_log_def audit_record_spec Let_def)

lemma type_check_result:
  assumes "file_system_list_check env h point w out = (r, out')"
  shows "r = (if filter (type_bad h w) (file_system_list w) = [] then 0 else - EINVAL)"
    "mo_counts out' = (CriticalDataFailureCount_add ^^ length (filter (type_bad h w) (file_system_list w))) (mo_counts out)"
    "\<forall>n. me_kz env n \<Longrightarrow> failure_records out' = failure_records out + length (filter (type_bad h w) (file_system_list w))"
  by (rule types.check_result [OF assms [unfolded file_system_list_check_def]]; simp add: fs_send_audit_log_def success_record)+

lemma sb_check_result:
  assumes "super_block_list_check env fe point w out = (r, out')"
  shows "r = (if filter (sb_bad fe) (super_block_list w) = [] then 0 else - EINVAL)"
    "mo_counts out' = (CriticalDataFailureCount_add ^^ length (filter (sb_bad fe) (super_block_list w))) (mo_counts out)"
    "\<forall>n. me_kz env n \<Longrightarrow> failure_records out' = failure_records out + length (filter (sb_bad fe) (super_block_list w))"
  by (rule sbs.check_result [OF assms [unfolded super_block_list_check_def]]; simp add: fs_send_audit_log_def success_record)+

text \<open>
  The check passes exactly if every recorded type has the functions of the module and every recorded super
  block its operations; each deviation is counted and, while memory lasts, recorded.
\<close>

lemma file_system_check_decides:
  obtains out' where "file_system_check env h fe point w out =
      (if filter (type_bad h w) (file_system_list w) = [] \<and> filter (sb_bad fe) (super_block_list w) = [] then 0 else - EINVAL, out')"
    "mo_counts out' = (CriticalDataFailureCount_add ^^ (length (filter (type_bad h w) (file_system_list w)) + length (filter (sb_bad fe) (super_block_list w)))) (mo_counts out)"
    "\<forall>n. me_kz env n \<Longrightarrow> failure_records out' = failure_records out + length (filter (type_bad h w) (file_system_list w)) + length (filter (sb_bad fe) (super_block_list w))"
proof -
  obtain r1 o1 where t: "file_system_list_check env h point w out = (r1, o1)" by fastforce
  obtain r2 o2 where s: "super_block_list_check env fe point w o1 = (r2, o2)" by fastforce
  show ?thesis
  proof (rule that [of o2])
    show "file_system_check env h fe point w out =
      (if filter (type_bad h w) (file_system_list w) = [] \<and> filter (sb_bad fe) (super_block_list w) = [] then 0 else - EINVAL, o2)"
      using t s type_check_result(1) [OF t] sb_check_result(1) [OF s] by (simp add: file_system_check_def)
    show "mo_counts o2 = (CriticalDataFailureCount_add ^^ (length (filter (type_bad h w) (file_system_list w)) + length (filter (sb_bad fe) (super_block_list w)))) (mo_counts out)"
      using type_check_result(2) [OF t] sb_check_result(2) [OF s] by (simp add: funpow_add add.commute [of "length (filter (type_bad h w) (file_system_list w))"])
    show "failure_records o2 = failure_records out + length (filter (type_bad h w) (file_system_list w)) + length (filter (sb_bad fe) (super_block_list w))"
      if "\<forall>n. me_kz env n" using type_check_result(3) [OF t that] sb_check_result(3) [OF s that] by simp
  qed
qed

lemma file_system_check_ret:
  "fst (file_system_check env h fe point w out) =
     (if filter (type_bad h w) (file_system_list w) = [] \<and> filter (sb_bad fe) (super_block_list w) = [] then 0 else - EINVAL)"
  by (rule file_system_check_decides [of env h fe point w out]) simp

text \<open>A replaced function is found. While the module is loaded, if the functions of a recorded file system are
  replaced, the check of the file systems fails; if nothing is replaced and the super blocks have the operations
  they had when they were recorded, it passes.\<close>

theorem replaced_functions_found:
  assumes "hooked h types0 w" "fs \<in> fi_fs ` set (file_system_list w)"
  shows "ft_mount t \<noteq> fh_httc_mount h \<or> ft_kill_sb t \<noteq> fh_httc_kill_sb h \<Longrightarrow>
      fst (file_system_check env h fe point (w\<lparr>fw_types := (fw_types w)(fs := t)\<rparr>) out) = - EINVAL"
    and "\<forall>sbi\<in>set (super_block_list w). si_s_op sbi = sb_s_op (fe_sb fe (si_sb sbi)) \<Longrightarrow> fst (file_system_check env h fe point w out) = 0"
proof -
  show "fst (file_system_check env h fe point (w\<lparr>fw_types := (fw_types w)(fs := t)\<rparr>) out) = - EINVAL"
    if "ft_mount t \<noteq> fh_httc_mount h \<or> ft_kill_sb t \<noteq> fh_httc_kill_sb h"
  proof -
    let ?w = "w\<lparr>fw_types := (fw_types w)(fs := t)\<rparr>"
    obtain fsi where "fsi \<in> set (file_system_list ?w)" "fi_fs fsi = fs" using assms(2) by auto
    then have "type_bad h ?w fsi" "filter (type_bad h ?w) (file_system_list ?w) \<noteq> []" using that by (auto simp: type_bad_def filter_empty_conv)
    then show ?thesis by (simp only: file_system_check_ret) simp
  qed
  show "fst (file_system_check env h fe point w out) = 0" if "\<forall>sbi\<in>set (super_block_list w). si_s_op sbi = sb_s_op (fe_sb fe (si_sb sbi))"
  proof -
    have "filter (type_bad h w) (file_system_list w) = []" "filter (sb_bad fe) (super_block_list w) = []"
      using assms(1) that by (auto simp: filter_empty_conv hooked_def type_bad_def sb_bad_def)
    then show ?thesis by (simp only: file_system_check_ret) simp
  qed
qed

section \<open>Examples\<close>

definition demo_hooks :: fs_hooks where
  "demo_hooks = \<lparr>fh_httc_mount = 0x71, fh_httc_kill_sb = 0x72\<rparr>"

definition demo_fs_env :: fs_env where
  "demo_fs_env = \<lparr>fe_chain = [0x10, 0x20], fe_super_blocks = [0x500], fe_sb = (\<lambda>a. \<lparr>sb_s_type = 0x20, sb_s_id = bytes_of ''sda1'', sb_s_op = 0x99\<rparr>),
     fe_mem = (\<lambda>n. True)\<rparr>"

definition demo_fs_world :: fs_world where
  "demo_fs_world = \<lparr>filesystems = 1, superblocks = 2, sblock = 3, file_system_list = [], super_block_list = [], file_system_count = 0, super_block_count = 0,
     fw_types = (\<lambda>a. \<lparr>ft_name = bytes_of (if a = 0x10 then ''proc'' else ''ext4''), ft_mount = 0x30, ft_kill_sb = 0x31\<rparr>)\<rparr>"

lemma demo_unloaded: "unloaded demo_fs_world" "distinct (fe_chain demo_fs_env)"
  by (simp_all add: unloaded_def demo_fs_world_def demo_fs_env_def)

lemma demo_filesystem_init:
  "\<exists>w1 acts1. filesystem_init demo_hooks demo_fs_env demo_fs_world dm_action = Some (0, w1, acts1)"
proof -
  have reg: "\<exists>acts'. dmeasure_register_action DMEASURE_FILESYSTEM_ACTION dfilesystem_action dm_action = Some (0, acts')"
    by (simp add: dmeasure_register_action_def dm_action_def Let_def schedule_delayed_work_def dfilesystem_action_def start_action_def strncmp_eq_0_iff)
  obtain r w1 where b: "dfilesystem_basedata_init demo_hooks demo_fs_env demo_fs_world = (r, w1)" by fastforce
  then have "r = 0" using basedata_init_spec(1) [OF demo_unloaded] by blast
  then show ?thesis using reg b by (auto simp: filesystem_init_def fs_args_addr_init_def demo_fs_world_def INVALID_DATA_FULL_FF_def Let_def)
qed

lemma filesystem_hooks_restored_witness:
  "\<exists>w1 acts1. filesystem_init demo_hooks demo_fs_env demo_fs_world dm_action = Some (0, w1, acts1)
    \<and> hooked demo_hooks (fw_types demo_fs_world) (snd (httc_kill_sb demo_fs_env (Some 0x500) w1))"
proof -
  obtain w1 acts1 where i: "filesystem_init demo_hooks demo_fs_env demo_fs_world dm_action = Some (0, w1, acts1)" using demo_filesystem_init by blast
  have "fs_step\<^sup>*\<^sup>* w1 (snd (httc_kill_sb demo_fs_env (Some 0x500) w1))" using fs_step.kill by blast
  with filesystem_hooks_restored [OF i demo_unloaded] i show ?thesis by blast
qed

definition demo_tracked_world :: fs_world where
  "demo_tracked_world = demo_fs_world\<lparr>file_system_list := [\<lparr>fi_fs = 0x20, fi_name = bytes_of ''ext4'', fi_mount = 0x30, fi_kill_sb = 0x31\<rparr>],
     file_system_count := 1,
     fw_types := (fw_types demo_fs_world)(0x20 := (fw_types demo_fs_world 0x20)\<lparr>ft_mount := 0x71, ft_kill_sb := 0x72\<rparr>)\<rparr>"

lemma super_blocks_refine_set_witness:
  "\<exists>w'. httc_mount (\<lambda>f. (Some 0x800, demo_fs_env)) 0x20 demo_tracked_world = (Some 0x800, w') \<and> tracked w' = {0x500}"
proof -
  have f: "sb_inv demo_tracked_world" "tracked demo_tracked_world = {}" "\<forall>n. fe_mem demo_fs_env n"
    "file_system_info_by_fs 0x20 demo_tracked_world = Some \<lparr>fi_fs = 0x20, fi_name = bytes_of ''ext4'', fi_mount = 0x30, fi_kill_sb = 0x31\<rparr>"
    "{sb \<in> set (fe_super_blocks demo_fs_env). sb_s_type (fe_sb demo_fs_env sb) = 0x20} = {0x500}"
    by (auto simp: sb_inv_def tracked_def demo_tracked_world_def demo_fs_world_def demo_fs_env_def file_system_info_by_fs_def)
  show ?thesis
    using super_blocks_refine_set [OF f(1,4), where orig = "\<lambda>f. (Some 0x800, demo_fs_env)" and d = "0x800" and fe = demo_fs_env and sb = 0] f(2,3,5) by auto
qed

lemma replaced_functions_found_witness:
  "fst (file_system_check demo_env demo_hooks demo_fs_env None
     (demo_tracked_world\<lparr>fw_types := (fw_types demo_tracked_world)(0x20 := \<lparr>ft_name = [], ft_mount = 0x666, ft_kill_sb = 0x72\<rparr>)\<rparr>) no_output) = - EINVAL"
proof -
  have "hooked demo_hooks (fw_types demo_fs_world) demo_tracked_world" "0x20 \<in> fi_fs ` set (file_system_list demo_tracked_world)"
    by (auto simp: hooked_def demo_tracked_world_def demo_fs_world_def demo_hooks_def)
  then show ?thesis by (rule replaced_functions_found(1)) (simp add: demo_hooks_def)
qed

end
