(* ===== verification/Kernel_Section.thy ===== *)
theory Kernel_Section
  imports Kernel_Tables Platform_Log "HOL-Library.Multiset"
begin

text \<open>
  The measurement of the text of the kernel: tsb/kernel/dmeasure/section/section.c. The text is copied and hashed
  when the module is loaded. The kernel itself patches its text at the addresses of jump labels,
  which are collected into a sorted array; when the hash has changed, the check walks over the differences
  and fails if one of them is not at a jump label.

  \<open>kernel_lookup_symbol_name\<close>, the jump table (\<open>jump_entry_code\<close> of the entry at an address) and \<open>sort\<close> are
  code of the kernel and parameters. Text of 2 GiB and more does not fit the \<open>int\<close> that keeps its length and
  is outside of the model (the kernel is mapped into 1 GiB).
\<close>

section \<open>State and operations\<close>

definition KSYM_NAME_LEN :: nat where "KSYM_NAME_LEN = 128"
definition JUMP_LABEL_NOP_SIZE :: nat where "JUMP_LABEL_NOP_SIZE = 5"
definition SIZEOF_JUMP_ENTRY :: nat where "SIZEOF_JUMP_ENTRY = 16"

record ksection_measure =
  ks_addr :: nat
  ks_len_base :: nat
  ks_hash :: "byte list"
  ks_base :: "byte list"

record section_state =
  start_text :: nat
  end_text :: nat
  t_lookup_symbol_name :: nat
  t_kallsyms_lookup_name :: nat
  ksection_m :: "ksection_measure kptr"
  section_jump_entry :: "nat list kptr"

record section_env =
  se_lookup_symbol_name :: "nat \<Rightarrow> byte list option"
  se_kallsyms :: "byte list \<Rightarrow> nat"
  se_jump_entry_code :: "nat \<Rightarrow> nat"
  se_sort :: "(nat \<Rightarrow> nat \<Rightarrow> int) \<Rightarrow> nat list \<Rightarrow> nat list"

function search_between :: "nat list \<Rightarrow> nat \<Rightarrow> int \<Rightarrow> int \<Rightarrow> int" where
  "search_between entries code left right =
     (if left \<le> right then
        let mid = left + (right - left) div 2 in
        if entries ! nat mid < code then search_between entries code (mid + 1) right
        else if code < entries ! nat mid then search_between entries code left (mid - 1)
        else mid
      else - 1)"
  by auto

termination
  by (relation "measure (\<lambda>(entries, code, left, right). nat (right + 1 - left))") auto

declare search_between.simps [simp del]

definition section_jump_entry_binary_search :: "nat list \<Rightarrow> nat \<Rightarrow> int" where
  "section_jump_entry_binary_search entries code = search_between entries code 0 (int (length entries) - 1)"

definition section_jump_entry_cmp :: "nat \<Rightarrow> nat \<Rightarrow> int" where
  "section_jump_entry_cmp a b = (if a < b then - 1 else if a > b then 1 else 0)"

text \<open>\<open>httcsec_memcmp\<close> and its copy \<open>httcsec_mod_memcmp\<close>: the difference of the first bytes that differ, and the
  number of equal bytes before them.\<close>

fun httcsec_memcmp :: "byte list \<Rightarrow> byte list \<Rightarrow> int \<times> nat" where
  "httcsec_memcmp (x # xs) (y # ys) =
     (if x \<noteq> y then (int (unat x) - int (unat y), 0)
      else let (res, off) = httcsec_memcmp xs ys in (res, Suc off))"
| "httcsec_memcmp _ _ = (0, 0)"

text \<open>What the walk does at one difference. \<open>strncpy\<close> of \<open>strlen (symname)\<close> bytes leaves the rest of the old name in place.\<close>

definition abnormal_symbol :: "section_env \<Rightarrow> nat list \<Rightarrow> nat \<Rightarrow> byte list \<times> int \<Rightarrow> byte list \<times> int" where
  "abnormal_symbol senv entries addr = (\<lambda>(last_symname, section_error).
     case se_lookup_symbol_name senv addr of
       None \<Rightarrow> (last_symname, section_error)
     | Some symname \<Rightarrow>
         if strncmp last_symname symname (strlen symname) \<noteq> 0
         then (memcpy_at last_symname 0 (cstr symname),
               if section_jump_entry_binary_search entries addr \<ge> 0 then section_error else 1)
         else (last_symname, section_error))"

text \<open>The \<open>while\<close> loop; \<open>now\<close> is the text in memory.\<close>

function abnormal_loop ::
  "section_env \<Rightarrow> nat list \<Rightarrow> nat \<Rightarrow> byte list \<Rightarrow> byte list \<Rightarrow> nat \<Rightarrow> byte list \<times> int \<Rightarrow> int" where
  "abnormal_loop senv entries addr now base base_offset st =
     (let st' = abnormal_symbol senv entries (addr + base_offset) st;
          next = base_offset + JUMP_LABEL_NOP_SIZE;
          (res, offset) = httcsec_memcmp (drop next now) (drop next base)
      in if next \<ge> length base then snd st'
         else if res = 0 then snd st'
         else abnormal_loop senv entries addr now base (next + offset) st')"
  by auto

termination
  by (relation "measure (\<lambda>(senv, entries, addr, now, base, base_offset, st). length base - base_offset)")
    (auto simp: JUMP_LABEL_NOP_SIZE_def)

declare abnormal_loop.simps [simp del]

definition text_now :: "measure_env \<Rightarrow> ksection_measure \<Rightarrow> byte list" where
  "text_now env m = mem_bytes (me_mem env) (ks_addr m) (ks_len_base m)"

definition lookup_abnormal_symbol_name :: "measure_env \<Rightarrow> section_env \<Rightarrow> nat list \<Rightarrow> ksection_measure \<Rightarrow> nat \<Rightarrow> int" where
  "lookup_abnormal_symbol_name env senv entries m off =
     abnormal_loop senv entries (ks_addr m) (text_now env m) (ks_base m) off (replicate KSYM_NAME_LEN 0, 0)"

definition section_failure :: "measure_out \<Rightarrow> measure_out" where
  "section_failure out = out\<lparr>mo_counts := SectionFailureCount_add (mo_counts out)\<rparr>"

definition kernel_section_check ::
  "measure_env \<Rightarrow> section_env \<Rightarrow> dmeasure_point option \<Rightarrow> section_state \<Rightarrow> measure_out \<Rightarrow> (int \<times> measure_out) option" where
  "kernel_section_check env senv point s out = (case (ksection_m s, section_jump_entry s) of
     (Live m, Live entries) \<Rightarrow>
       let hash = area_hash env (text_now env m);
           name = bytes_of DM_ACTION_KSECTION_NAME
       in if memeq hash (ks_hash m) LEN_HASH then Some (0, send_audit_log env point name RESULT_SUCCESS hash out)
          else if lookup_abnormal_symbol_name env senv entries m (snd (httcsec_memcmp (text_now env m) (ks_base m))) \<noteq> 0
          then Some (- EACCES, send_audit_log env point name RESULT_FAIL hash (section_failure out))
          else Some (0, send_audit_log env point name RESULT_SUCCESS hash out)
   | _ \<Rightarrow> None)"

definition jump_entry_check :: "measure_env \<Rightarrow> section_env \<Rightarrow> section_state \<Rightarrow> int option" where
  "jump_entry_check env senv s = (case (ksection_m s, section_jump_entry s) of
     (Live m, Live entries) \<Rightarrow>
       Some (lookup_abnormal_symbol_name env senv entries m (snd (httcsec_memcmp (text_now env m) (ks_base m))))
   | _ \<Rightarrow> None)"

definition dksection_action :: dmeasure_node where
  "dksection_action = \<lparr>dn_name = bytes_of DM_ACTION_KSECTION_NAME, dn_check = Some ''kernel_section_check''\<rparr>"

text \<open>\<open>mem\<close>: \<open>vzalloc\<close> succeeds. The difference of the addresses wraps.\<close>

definition text_length :: "section_state \<Rightarrow> nat" where
  "text_length s = (end_text s + 2 ^ 64 - start_text s) mod 2 ^ 64"

definition backup_ksection :: "measure_env \<Rightarrow> bool \<Rightarrow> section_state \<Rightarrow> zone_state \<Rightarrow> (int \<times> section_state \<times> zone_state) option" where
  "backup_ksection env mem s z =
     (let data_len = text_length s; b = mem_bytes (me_mem env) (start_text s) data_len in
      if data_len \<ge> 2 ^ 31 then None
      else case measure_zone env (bytes_of DM_ACTION_KSECTION_NAME) (start_text s) data_len z of None \<Rightarrow> None
      | Some (ret, z') \<Rightarrow>
          if \<not> mem then Some (- ENOMEM, s\<lparr>ksection_m := Null\<rparr>, z')
          else Some (ret, s\<lparr>ksection_m := Live \<lparr>ks_addr = start_text s, ks_len_base = data_len, ks_hash = area_hash env b, ks_base = b\<rparr>\<rparr>, z'))"

text \<open>
  The array of jump labels. \<open>kmalloc\<close> is not tested; a table whose size is not a multiple of that of an entry is
  written behind the array, and the number of entries of a table that ends before it starts is meaningless.
\<close>

definition jump_entries :: "section_env \<Rightarrow> nat \<Rightarrow> nat \<Rightarrow> nat list" where
  "jump_entries senv start_adr stop_adr =
     map (\<lambda>i. se_jump_entry_code senv (start_adr + SIZEOF_JUMP_ENTRY * i)) [0..<(stop_adr - start_adr) div SIZEOF_JUMP_ENTRY]"

definition collect_jump_entries :: "section_env \<Rightarrow> bool \<Rightarrow> nat \<Rightarrow> nat \<Rightarrow> section_state \<Rightarrow> section_state option" where
  "collect_jump_entries senv kmem start_adr stop_adr s =
     (if stop_adr < start_adr \<or> (stop_adr - start_adr) mod SIZEOF_JUMP_ENTRY \<noteq> 0 \<or> \<not> kmem \<and> start_adr < stop_adr then None
      else Some (s\<lparr>section_jump_entry := Live (se_sort senv section_jump_entry_cmp (jump_entries senv start_adr stop_adr))\<rparr>))"

definition section_params_bad :: "section_state \<Rightarrow> bool" where
  "section_params_bad s \<longleftrightarrow> start_text s = INVALID_DATA_FULL_FF \<or> start_text s = 0 \<or> end_text s = INVALID_DATA_FULL_FF \<or> end_text s = 0
     \<or> t_lookup_symbol_name s = INVALID_DATA_FULL_FF \<or> t_lookup_symbol_name s = 0"

text \<open>The jump table is looked up through a parameter of the module before any parameter is tested.\<close>

definition section_init ::
  "measure_env \<Rightarrow> section_env \<Rightarrow> bool \<Rightarrow> bool \<Rightarrow> section_state \<Rightarrow> zone_state \<Rightarrow> platform_log \<Rightarrow> dmeasure_action list
   \<Rightarrow> (int \<times> section_state \<times> zone_state \<times> platform_log \<times> dmeasure_action list) option" where
  "section_init env senv kmem vmem s z p acts =
     (if t_kallsyms_lookup_name s = INVALID_DATA_FULL_FF \<or> t_kallsyms_lookup_name s = 0 then None
      else let start_adr = se_kallsyms senv (bytes_of ''__start___jump_table'');
               stop_adr = se_kallsyms senv (bytes_of ''__stop___jump_table'')
      in if section_params_bad s then Some (- EINVAL, s, z, p, acts)
         else if start_adr = 0 \<or> stop_adr = 0 then Some (- EINVAL, s, z, p, acts)
         else case collect_jump_entries senv kmem start_adr stop_adr s of None \<Rightarrow> None
         | Some s1 \<Rightarrow> (case backup_ksection env vmem s1 z of None \<Rightarrow> None
            | Some (ret, s2, z') \<Rightarrow>
                if ret \<noteq> 0 then Some (ret, s2, z', p, acts)
                else (case dmeasure_register_action DMEASURE_SECTION_ACTION dksection_action acts of None \<Rightarrow> None
                   | Some (r, acts') \<Rightarrow> Some (r, s2, z', jump_entry_check_func_register ''jump_entry_check'' p, acts'))))"

definition section_exit ::
  "section_state \<Rightarrow> platform_log \<Rightarrow> dmeasure_action list \<Rightarrow> (section_state \<times> platform_log \<times> dmeasure_action list) option" where
  "section_exit s p acts =
     (case kfree_ptr (ksection_m s) of None \<Rightarrow> None
      | Some m \<Rightarrow> (case dmeasure_unregister_action DMEASURE_SECTION_ACTION dksection_action acts of None \<Rightarrow> None
         | Some (r, acts') \<Rightarrow> (case kfree_ptr (section_jump_entry s) of None \<Rightarrow> None
            | Some q \<Rightarrow> Some (s\<lparr>ksection_m := m, section_jump_entry := q\<rparr>, jump_entry_check_func_unregister ''jump_entry_check'' p, acts'))))"

section \<open>The binary search\<close>

lemma search_between_finds:
  assumes "sorted entries" "0 \<le> left" "right < int (length entries)"
    and "\<And>i. i < length entries \<Longrightarrow> entries ! i = code \<Longrightarrow> left \<le> int i \<and> int i \<le> right"
  shows "(search_between entries code left right \<ge> 0 \<longleftrightarrow> code \<in> set entries)
    \<and> (search_between entries code left right \<ge> 0 \<longrightarrow> entries ! nat (search_between entries code left right) = code)
    \<and> search_between entries code left right < int (length entries)"
  using assms
proof (induction entries code left right rule: search_between.induct)
  case (1 entries code left right)
  define mid where "mid = left + (right - left) div 2"
  show ?case
  proof (cases "left \<le> right")
    case True
    then have mid: "left \<le> mid" "mid \<le> right" "nat mid < length entries" using 1(4,5) unfolding mid_def by auto
    have mono: "entries ! i \<le> entries ! j" if "i \<le> j" "j < length entries" for i j using sorted_nth_mono [OF 1(3)] that by blast
    consider (less) "entries ! nat mid < code" | (greater) "code < entries ! nat mid" | (found) "entries ! nat mid = code" by linarith
    then show ?thesis
    proof cases
      case less
      have "mid + 1 \<le> int i \<and> int i \<le> right" if "i < length entries" "entries ! i = code" for i
      proof -
        have "\<not> i \<le> nat mid" using mono [of i "nat mid"] mid(3) less that(2) by auto
        then show ?thesis using 1(6) [OF that] mid by linarith
      qed
      moreover have "search_between entries code left right = search_between entries code (mid + 1) right"
        using True less by (subst search_between.simps) (simp add: Let_def flip: mid_def)
      ultimately show ?thesis using 1(1) [OF True mid_def less 1(3) _ 1(5)] mid(1) 1(4) by simp
    next
      case greater
      have "left \<le> int i \<and> int i \<le> mid - 1" if "i < length entries" "entries ! i = code" for i
      proof -
        have "\<not> nat mid \<le> i" using mono [of "nat mid" i] that greater by auto
        then show ?thesis using 1(6) [OF that] mid by linarith
      qed
      moreover have "search_between entries code left right = search_between entries code left (mid - 1)"
        using True greater by (subst search_between.simps) (simp add: Let_def flip: mid_def)
      ultimately show ?thesis using 1(2) [OF True mid_def _ greater 1(3) 1(4)] mid(2) 1(5) greater by simp
    next
      case found
      then have "code \<in> set entries" using mid(3) by (metis nth_mem)
      moreover have "search_between entries code left right = mid"
        using True found by (subst search_between.simps) (simp add: Let_def flip: mid_def)
      ultimately show ?thesis using found mid 1(4) by auto
    qed
  next
    case False
    then have "search_between entries code left right = - 1" by (simp add: search_between.simps)
    moreover have "code \<notin> set entries"
    proof
      assume "code \<in> set entries"
      then obtain i where "i < length entries" "entries ! i = code" by (auto simp: in_set_conv_nth)
      then show False using 1(6) [of i] False by linarith
    qed
    ultimately show ?thesis by simp
  qed
qed

lemma binary_search_finds:
  assumes "sorted entries"
  shows "section_jump_entry_binary_search entries code \<ge> 0 \<longleftrightarrow> code \<in> set entries"
  using search_between_finds [OF assms, of 0 "int (length entries) - 1" code] unfolding section_jump_entry_binary_search_def by force

section \<open>The walk over the differences\<close>

lemma httcsec_memcmp_spec:
  assumes "length xs = length ys" "httcsec_memcmp xs ys = (res, off)"
  shows "res = 0 \<longleftrightarrow> xs = ys" "take off xs = take off ys" "res \<noteq> 0 \<Longrightarrow> off < length xs \<and> xs ! off \<noteq> ys ! off" "res = 0 \<Longrightarrow> off = length xs"
  using assms by (induction xs ys arbitrary: res off rule: httcsec_memcmp.induct)
    (auto split: if_splits prod.splits dest: word_uint_eq_iff [THEN iffD2])

text \<open>The offsets at which the walk stops, and their relation to the text: each but the first is a difference, and every
  difference behind the first lies in the instruction at one of them.\<close>

function abnormal_offsets :: "byte list \<Rightarrow> byte list \<Rightarrow> nat \<Rightarrow> nat list" where
  "abnormal_offsets now base b =
     (let next = b + JUMP_LABEL_NOP_SIZE; (res, offset) = httcsec_memcmp (drop next now) (drop next base)
      in b # (if next \<ge> length base \<or> res = 0 then [] else abnormal_offsets now base (next + offset)))"
  by auto

termination
  by (relation "measure (\<lambda>(now, base, b). length base - b)") (auto simp: JUMP_LABEL_NOP_SIZE_def)

declare abnormal_offsets.simps [simp del]

lemma abnormal_loop_fold:
  "abnormal_loop senv entries addr now base b st =
     snd (fold (\<lambda>v. abnormal_symbol senv entries (addr + v)) (abnormal_offsets now base b) st)"
proof (induction senv entries addr now base b st rule: abnormal_loop.induct)
  case (1 senv entries addr now base b st)
  show ?case
    by (subst abnormal_loop.simps, subst abnormal_offsets.simps) (auto simp: Let_def 1 split: prod.split)
qed

lemma next_difference:
  assumes "length now = length base" "n < length base" "httcsec_memcmp (drop n now) (drop n base) = (res, off)"
  shows "res = 0 \<Longrightarrow> \<forall>i. n \<le> i \<and> i < length base \<longrightarrow> now ! i = base ! i"
    and "res \<noteq> 0 \<Longrightarrow> n + off < length base \<and> now ! (n + off) \<noteq> base ! (n + off) \<and> (\<forall>i. n \<le> i \<and> i < n + off \<longrightarrow> now ! i = base ! i)"
proof -
  have l: "length (drop n now) = length (drop n base)" using assms(1) by simp
  note m = httcsec_memcmp_spec [OF l assms(3)]
  have nth: "now ! i = drop n now ! (i - n)" "base ! i = drop n base ! (i - n)" if "n \<le> i" "i < length base" for i
    using that assms(1) by simp_all
  show "\<forall>i. n \<le> i \<and> i < length base \<longrightarrow> now ! i = base ! i" if "res = 0"
    using m(1) that nth by metis
  show "n + off < length base \<and> now ! (n + off) \<noteq> base ! (n + off) \<and> (\<forall>i. n \<le> i \<and> i < n + off \<longrightarrow> now ! i = base ! i)" if "res \<noteq> 0"
  proof (intro conjI allI impI)
    show off: "n + off < length base" "now ! (n + off) \<noteq> base ! (n + off)" using m(3) [OF that] assms(1,2) by auto
    fix i assume i: "n \<le> i \<and> i < n + off"
    have "take off (drop n now) ! (i - n) = take off (drop n base) ! (i - n)" using m(2) by simp
    moreover have "i - n < off" using i by linarith
    ultimately have "drop n now ! (i - n) = drop n base ! (i - n)" by simp
    then show "now ! i = base ! i"
      using i off(1) by (simp only: nth [of i, OF conjunct1 [OF i] less_trans [OF conjunct2 [OF i] off(1)]])
  qed
qed

lemma abnormal_offsets_covers:
  assumes "length now = length base" "b \<le> i" "i < length base" "now ! i \<noteq> base ! i"
  shows "\<exists>v\<in>set (abnormal_offsets now base b). v \<le> i \<and> i < v + JUMP_LABEL_NOP_SIZE"
  using assms
proof (induction now base b rule: abnormal_offsets.induct)
  case (1 now base b)
  let ?n = "b + JUMP_LABEL_NOP_SIZE"
  obtain res off where m: "httcsec_memcmp (drop ?n now) (drop ?n base) = (res, off)" by fastforce
  have b: "b \<in> set (abnormal_offsets now base b)" by (subst abnormal_offsets.simps) (simp add: m Let_def)
  show ?case
  proof (cases "i < ?n")
    case True
    then show ?thesis using b 1(3) by blast
  next
    case False
    then have n: "?n < length base" using 1(4) by simp
    have res: "res \<noteq> 0" using next_difference(1) [OF 1(2) n m] False 1(4,5) by auto
    have "?n + off \<le> i" using next_difference(2) [OF 1(2) n m res] False 1(5) by (meson not_le)
    then have "\<exists>v\<in>set (abnormal_offsets now base (?n + off)). v \<le> i \<and> i < v + JUMP_LABEL_NOP_SIZE"
      using 1(1) [OF refl m [symmetric] refl] n res 1(2,4,5) by auto
    moreover have "set (abnormal_offsets now base (?n + off)) \<subseteq> set (abnormal_offsets now base b)"
      using n res by (subst (2) abnormal_offsets.simps) (auto simp: m Let_def)
    ultimately show ?thesis by blast
  qed
qed

text \<open>If every difference is inside a patched jump label and labels do not overlap, the walk stops at labels only.\<close>

lemma abnormal_offsets_labels:
  assumes "length now = length base" "b < length base" "b \<in> L" "now ! b \<noteq> base ! b"
    and "\<And>i. i < length base \<Longrightarrow> now ! i \<noteq> base ! i \<Longrightarrow> \<exists>l\<in>L. l \<le> i \<and> i < l + JUMP_LABEL_NOP_SIZE \<and> now ! l \<noteq> base ! l"
    and "\<And>l l'. l \<in> L \<Longrightarrow> l' \<in> L \<Longrightarrow> l < l' \<Longrightarrow> l + JUMP_LABEL_NOP_SIZE \<le> l'"
  shows "set (abnormal_offsets now base b) \<subseteq> L"
  using assms
proof (induction now base b rule: abnormal_offsets.induct)
  case (1 now base b)
  let ?n = "b + JUMP_LABEL_NOP_SIZE"
  obtain res off where m: "httcsec_memcmp (drop ?n now) (drop ?n base) = (res, off)" by fastforce
  show ?case
  proof (cases "?n \<ge> length base \<or> res = 0")
    case True
    then have "abnormal_offsets now base b = [b]" by (subst abnormal_offsets.simps) (simp add: m Let_def)
    then show ?thesis using 1(4) by simp
  next
    case False
    then have n: "?n < length base" and res: "res \<noteq> 0" by simp_all
    note d = next_difference(2) [OF 1(2) n m res]
    obtain l where l: "l \<in> L" "l \<le> ?n + off" "?n + off < l + JUMP_LABEL_NOP_SIZE" "now ! l \<noteq> base ! l"
      using 1(6) [of "?n + off"] d by auto
    have "b < l" using l(3) by linarith
    then have "?n \<le> l" using 1(7) [OF 1(4) l(1)] by simp
    then have "l = ?n + off" using d l(2,4) by (metis le_neq_implies_less)
    then have "set (abnormal_offsets now base (?n + off)) \<subseteq> L"
      using 1(1) [OF refl m [symmetric] refl] False d l(1) 1(2,6,7) by auto
    moreover have "abnormal_offsets now base b = b # abnormal_offsets now base (?n + off)"
      using False by (subst abnormal_offsets.simps) (simp add: m Let_def)
    ultimately show ?thesis using 1(4) by simp
  qed
qed

text \<open>\<open>sort\<close> of the kernel gives a permutation that is ordered by the comparison.\<close>

definition sort_lib_ok :: "section_env \<Rightarrow> bool" where
  "sort_lib_ok senv \<longleftrightarrow> (\<forall>xs. mset (se_sort senv section_jump_entry_cmp xs) = mset xs
     \<and> sorted_wrt (\<lambda>a b. section_jump_entry_cmp a b \<le> 0) (se_sort senv section_jump_entry_cmp xs))"

lemma sort_lib_sorted:
  assumes "sort_lib_ok senv"
  shows "sorted (se_sort senv section_jump_entry_cmp xs)" "set (se_sort senv section_jump_entry_cmp xs) = set xs"
proof -
  have "(\<lambda>a b. section_jump_entry_cmp a b \<le> 0) = (\<le>)" by (auto simp: section_jump_entry_cmp_def fun_eq_iff)
  then show "sorted (se_sort senv section_jump_entry_cmp xs)" using assms by (simp add: sort_lib_ok_def)
  show "set (se_sort senv section_jump_entry_cmp xs) = set xs" using assms by (metis sort_lib_ok_def mset_eq_setD)
qed

text \<open>The array that loading leaves, and the labels in it.\<close>

definition jump_labels :: "section_env \<Rightarrow> nat set" where
  "jump_labels senv = set (jump_entries senv (se_kallsyms senv (bytes_of ''__start___jump_table'')) (se_kallsyms senv (bytes_of ''__stop___jump_table'')))"

lemma section_init_taken:
  assumes "section_init env senv kmem vmem s z p acts = Some (0, s', z', p', acts')" "sort_lib_ok senv"
  obtains entries where "section_jump_entry s' = Live entries" "sorted entries" "set entries = jump_labels senv"
    "ksection_m s' = Live \<lparr>ks_addr = start_text s, ks_len_base = text_length s,
       ks_hash = area_hash env (mem_bytes (me_mem env) (start_text s) (text_length s)), ks_base = mem_bytes (me_mem env) (start_text s) (text_length s)\<rparr>"
    "text_length s < 2 ^ 31"
proof -
  let ?e = "se_sort senv section_jump_entry_cmp (jump_entries senv (se_kallsyms senv (bytes_of ''__start___jump_table'')) (se_kallsyms senv (bytes_of ''__stop___jump_table'')))"
  obtain s1 s2 z2 where c: "collect_jump_entries senv kmem (se_kallsyms senv (bytes_of ''__start___jump_table'')) (se_kallsyms senv (bytes_of ''__stop___jump_table'')) s = Some s1"
    "backup_ksection env vmem s1 z = Some (0, s2, z2)" "s' = s2"
    using assms(1) by (auto simp: section_init_def Let_def split: if_splits option.splits)
  have s1: "s1 = s\<lparr>section_jump_entry := Live ?e\<rparr>" using c(1) by (simp add: collect_jump_entries_def split: if_splits)
  have l: "text_length s1 = text_length s" by (simp add: s1 text_length_def)
  have "section_jump_entry s' = Live ?e"
    using c(2,3) by (auto simp: backup_ksection_def s1 Let_def split: if_splits option.splits)
  moreover have "ksection_m s' = Live \<lparr>ks_addr = start_text s, ks_len_base = text_length s,
       ks_hash = area_hash env (mem_bytes (me_mem env) (start_text s) (text_length s)), ks_base = mem_bytes (me_mem env) (start_text s) (text_length s)\<rparr>"
    "text_length s < 2 ^ 31"
    using c(2,3) by (auto simp: backup_ksection_def l Let_def split: if_splits option.splits) (simp_all add: s1)
  ultimately show ?thesis using that sort_lib_sorted [OF assms(2)] unfolding jump_labels_def by blast
qed

section \<open>What the check finds\<close>

lemma labels_only_no_error:
  assumes "sorted entries" "\<forall>v\<in>set vs. addr + v \<in> set entries"
  shows "snd (fold (\<lambda>v. abnormal_symbol senv entries (addr + v)) vs st) = snd st"
  using assms(2)
proof (induction vs arbitrary: st)
  case (Cons v vs)
  have "snd (abnormal_symbol senv entries (addr + v) st) = snd st"
    using Cons.prems binary_search_finds [OF assms(1)] by (auto simp: abnormal_symbol_def split: option.splits prod.splits)
  then show ?case using Cons by simp
qed simp

lemma error_stays:
  "snd st = 1 \<Longrightarrow> snd (fold (\<lambda>v. abnormal_symbol senv entries (addr + v)) vs st) = 1"
proof (induction vs arbitrary: st)
  case (Cons v vs)
  have "snd (abnormal_symbol senv entries (addr + v) st) = 1"
    using Cons.prems by (auto simp: abnormal_symbol_def split: option.splits prod.splits)
  then show ?case using Cons.IH by simp
qed simp

lemma zero_name_differs: "cstr nm \<noteq> [] \<Longrightarrow> strncmp (replicate KSYM_NAME_LEN 0) nm (strlen nm) \<noteq> 0"
  by (cases nm) (auto simp: strlen_def cstr_def KSYM_NAME_LEN_def numeral_eq_Suc Let_def split: if_splits)

lemma first_patch_error:
  assumes "sorted entries" "addr + b \<notin> set entries" "se_lookup_symbol_name senv (addr + b) = Some nm" "cstr nm \<noteq> []"
  shows "abnormal_loop senv entries addr now base b (replicate KSYM_NAME_LEN 0, 0) = 1"
proof -
  obtain vs where vs: "abnormal_offsets now base b = b # vs" using abnormal_offsets.simps [of now base b] by (auto simp: Let_def split: prod.splits)
  have "snd (abnormal_symbol senv entries (addr + b) (replicate KSYM_NAME_LEN 0, 0)) = 1"
    using assms(2,3) zero_name_differs [OF assms(4)] binary_search_finds [OF assms(1), of "addr + b"]
    by (simp add: abnormal_symbol_def)
  then show ?thesis using error_stays by (simp add: abnormal_loop_fold vs)
qed

text \<open>The walk from the first difference, for patched labels only and for a patch elsewhere.\<close>

lemma walk_labels_only:
  assumes "length now = length base" "now \<noteq> base" "sorted entries" "httcsec_memcmp now base = (res, f)"
    and disjoint: "\<forall>l\<in>set entries. \<forall>l'\<in>set entries. l < l' \<longrightarrow> l + JUMP_LABEL_NOP_SIZE \<le> l'"
    and inside: "\<forall>i<length base. now ! i \<noteq> base ! i \<longrightarrow>
      (\<exists>l. a + l \<in> set entries \<and> l \<le> i \<and> i < l + JUMP_LABEL_NOP_SIZE \<and> now ! l \<noteq> base ! l)"
  shows "abnormal_loop senv entries a now base f (name, 0) = 0"
proof -
  define L where "L = {l. a + l \<in> set entries}"
  note m = httcsec_memcmp_spec [OF assms(1,4)]
  have f: "f < length base" "now ! f \<noteq> base ! f" using m(1,3) assms(1,2) by auto
  have cover: "\<exists>l\<in>L. l \<le> i \<and> i < l + JUMP_LABEL_NOP_SIZE \<and> now ! l \<noteq> base ! l" if "i < length base" "now ! i \<noteq> base ! i" for i
    using inside that by (auto simp: L_def)
  have spaced: "l + JUMP_LABEL_NOP_SIZE \<le> l'" if "l \<in> L" "l' \<in> L" "l < l'" for l l'
    using disjoint that by (fastforce simp: L_def)
  obtain l where l: "l \<in> L" "l \<le> f" "now ! l \<noteq> base ! l" using cover f by metis
  have "l = f" using m(2) l(2,3) by (metis le_neq_implies_less nth_take)
  then have "set (abnormal_offsets now base f) \<subseteq> L"
    using abnormal_offsets_labels [OF assms(1) f(1) _ f(2) cover spaced] l(1) by blast
  then show ?thesis
    using labels_only_no_error [OF assms(3), of "abnormal_offsets now base f" a senv "(name, 0)"]
    by (auto simp: abnormal_loop_fold L_def)
qed

lemma walk_first_patch:
  assumes "length now = length base" "sorted entries" "httcsec_memcmp now base = (res, f)"
    and "g < length base" "now ! g \<noteq> base ! g" "\<forall>i<g. now ! i = base ! i"
    and "a + g \<notin> set entries" "se_lookup_symbol_name senv (a + g) = Some nm" "cstr nm \<noteq> []"
  shows "abnormal_loop senv entries a now base f (replicate KSYM_NAME_LEN 0, 0) = 1"
proof -
  note m = httcsec_memcmp_spec [OF assms(1,3)]
  have "res \<noteq> 0" using m(1) assms(5) by auto
  then have "now ! f \<noteq> base ! f" using m(3) by simp
  then have "g = f" using m(2) assms(5,6) by (metis linorder_neqE_nat nth_take)
  then show ?thesis using first_patch_error [OF assms(2)] assms(7-9) by simp
qed

text \<open>C10. The text of the kernel is measured. After loading, the check of the text passes if its hash is unchanged. It also
  passes if every changed byte lies in a patched jump label. If the first changed byte is not a
  jump label and is in a known symbol, the check fails, is counted and recorded. The walk over
  the differences always ends.\<close>

theorem kernel_text_decided:
  assumes "section_init env0 senv kmem vmem s z p acts = Some (0, s', z', p', acts')" "sort_lib_ok senv" "env_wf env0" "env_wf env"
    and a: "a = start_text s" and n: "n = text_length s"
  shows "\<exists>r. kernel_section_check env senv point s' out = Some (r,
      let hash = gb_sm3 (mem_bytes (me_mem env) a n); name = bytes_of DM_ACTION_KSECTION_NAME in
      if r = 0 then send_audit_log env point name RESULT_SUCCESS hash out
      else send_audit_log env point name RESULT_FAIL hash (out\<lparr>mo_counts := SectionFailureCount_add (mo_counts out)\<rparr>))
    \<and> (r = 0 \<or> r = - EACCES)
    \<and> (gb_sm3 (mem_bytes (me_mem env) a n) = gb_sm3 (mem_bytes (me_mem env0) a n) \<longrightarrow> r = 0)
    \<and> ((\<forall>l\<in>jump_labels senv. \<forall>l'\<in>jump_labels senv. l < l' \<longrightarrow> l + 5 \<le> l')
       \<and> (\<forall>i<n. me_mem env (a + i) \<noteq> me_mem env0 (a + i) \<longrightarrow>
            (\<exists>l\<in>jump_labels senv. a \<le> l \<and> l \<le> a + i \<and> a + i < l + 5 \<and> me_mem env l \<noteq> me_mem env0 l))
       \<longrightarrow> r = 0)
    \<and> (gb_sm3 (mem_bytes (me_mem env) a n) \<noteq> gb_sm3 (mem_bytes (me_mem env0) a n)
       \<and> (\<exists>f nm. (\<forall>i<f. me_mem env (a + i) = me_mem env0 (a + i)) \<and> f < n \<and> me_mem env (a + f) \<noteq> me_mem env0 (a + f)
            \<and> a + f \<notin> jump_labels senv \<and> se_lookup_symbol_name senv (a + f) = Some nm \<and> cstr nm \<noteq> [])
       \<longrightarrow> r = - EACCES)"
proof -
  define now where "now = mem_bytes (me_mem env) a n"
  define base where "base = mem_bytes (me_mem env0) a n"
  obtain entries where e: "section_jump_entry s' = Live entries" "sorted entries" "set entries = jump_labels senv"
    "ksection_m s' = Live \<lparr>ks_addr = a, ks_len_base = n, ks_hash = area_hash env0 base, ks_base = base\<rparr>" "n < 2 ^ 31"
    using section_init_taken [OF assms(1,2)] unfolding a n base_def by metis
  have len: "length now = n" "length base = n" "length now = length base" by (simp_all add: now_def base_def)
  have hash: "area_hash env0 base = gb_sm3 base" "area_hash env now = gb_sm3 now" using assms(3,4) e(5) len by (simp_all add: area_hash_sm3)
  have nth: "now ! i = me_mem env (a + i)" "base ! i = me_mem env0 (a + i)" if "i < n" for i
    using that by (simp_all add: now_def base_def mem_bytes_def)
  obtain res f where m: "httcsec_memcmp now base = (res, f)" by fastforce
  define err where "err = abnormal_loop senv entries a now base f (replicate KSYM_NAME_LEN 0, 0)"
  define r where "r = (if gb_sm3 now = gb_sm3 base \<or> err = 0 then 0 else - EACCES)"
  have check: "kernel_section_check env senv point s' out = Some (r,
      let hash = gb_sm3 (mem_bytes (me_mem env) a n); name = bytes_of DM_ACTION_KSECTION_NAME in
      if r = 0 then send_audit_log env point name RESULT_SUCCESS hash out
      else send_audit_log env point name RESULT_FAIL hash (out\<lparr>mo_counts := SectionFailureCount_add (mo_counts out)\<rparr>))"
    by (simp add: kernel_section_check_def e(1,4) text_now_def lookup_abnormal_symbol_name_def hash m memeq_def length_gb_sm3 LEN_HASH_def
        Let_def r_def err_def section_failure_def flip: now_def)
  have labels: "err = 0" if h: "\<forall>l\<in>jump_labels senv. \<forall>l'\<in>jump_labels senv. l < l' \<longrightarrow> l + 5 \<le> l'"
    "\<forall>i<n. me_mem env (a + i) \<noteq> me_mem env0 (a + i) \<longrightarrow>
       (\<exists>l\<in>jump_labels senv. a \<le> l \<and> l \<le> a + i \<and> a + i < l + 5 \<and> me_mem env l \<noteq> me_mem env0 l)" and ne: "gb_sm3 now \<noteq> gb_sm3 base"
  proof -
    have "\<exists>l. a + l \<in> set entries \<and> l \<le> i \<and> i < l + JUMP_LABEL_NOP_SIZE \<and> now ! l \<noteq> base ! l" if i: "i < length base" "now ! i \<noteq> base ! i" for i
    proof -
      obtain l where "l \<in> jump_labels senv" "a \<le> l" "l \<le> a + i" "a + i < l + 5" "me_mem env l \<noteq> me_mem env0 l"
        using h(2) i nth len by metis
      then show ?thesis using i(1) len nth [of "l - a"] by (intro exI [of _ "l - a"]) (auto simp: e(3) JUMP_LABEL_NOP_SIZE_def)
    qed
    then show ?thesis unfolding err_def
      using walk_labels_only [OF len(3) _ e(2) m] ne h(1) e(3) by (auto simp: JUMP_LABEL_NOP_SIZE_def)
  qed
  have first: "err = 1" if "\<forall>i<g. me_mem env (a + i) = me_mem env0 (a + i)" "g < n" "me_mem env (a + g) \<noteq> me_mem env0 (a + g)"
    "a + g \<notin> jump_labels senv" "se_lookup_symbol_name senv (a + g) = Some nm" "cstr nm \<noteq> []" for g nm
    unfolding err_def using walk_first_patch [OF len(3) e(2) m, of g a senv nm] that nth len e(3) by simp
  have "r = 0 \<or> r = - EACCES" "gb_sm3 now = gb_sm3 base \<Longrightarrow> r = 0" "err = 0 \<Longrightarrow> r = 0"
    "err = 1 \<Longrightarrow> gb_sm3 now \<noteq> gb_sm3 base \<Longrightarrow> r = - EACCES" by (simp_all add: r_def)
  then show ?thesis using check labels first unfolding now_def base_def by blast
qed

section \<open>What the check misses\<close>

text \<open>
  The name of the last symbol suppresses further looks at the same symbol even if that first look found a
  legitimate label: once a label of a function is patched, any other change of the function passes.
\<close>

lemma same_name_skipped:
  assumes "no_nul nm" "length nm \<le> length old"
  shows "strncmp (memcpy_at old 0 nm) nm (length nm) = 0"
proof -
  have "strncmp (ys @ rest) ys (length ys) = 0" if "no_nul ys" for ys rest
    using that by (induction ys) (auto simp: no_nul_def)
  then show ?thesis using assms(1) by (simp add: memcpy_at_def)
qed

lemma label_hides_symbol:
  assumes "sorted entries" "abnormal_offsets now base b = b # vs" "a + b \<in> set entries"
    and "\<forall>v\<in>set (b # vs). se_lookup_symbol_name senv (a + v) = Some nm" "no_nul nm" "length nm \<le> KSYM_NAME_LEN"
  shows "abnormal_loop senv entries a now base b (replicate KSYM_NAME_LEN 0, 0) = 0"
proof -
  have nm: "cstr nm = nm" "strlen nm = length nm" using assms(5) by (simp_all add: cstr_no_nul strlen_def)
  let ?st = "abnormal_symbol senv entries (a + b) (replicate KSYM_NAME_LEN 0, 0)"
  have "snd ?st = 0" "strncmp (fst ?st) nm (length nm) = 0"
    using assms(3,4) binary_search_finds [OF assms(1)] same_name_skipped [OF assms(5), of "replicate KSYM_NAME_LEN 0"] assms(6) nm
    by (auto simp: abnormal_symbol_def)
  moreover have "fold (\<lambda>v. abnormal_symbol senv entries (a + v)) ws st = st"
    if "\<forall>v\<in>set ws. se_lookup_symbol_name senv (a + v) = Some nm" "strncmp (fst st) nm (length nm) = 0" for ws st
    using that by (induction ws) (auto simp: abnormal_symbol_def nm split: prod.split)
  ultimately show ?thesis using assms(2,4) by (simp add: abnormal_loop_fold)
qed

text \<open>
  The check that the trusted module asks for starts its walk at the end of the text if nothing has changed, and
  calls the symbol there abnormal.
\<close>

lemma jump_entry_check_intact:
  assumes "section_jump_entry s = Live entries" "ksection_m s = Live m" "sorted entries" "text_now env m = ks_base m"
    and "length (ks_base m) = ks_len_base m" "ks_addr m + ks_len_base m \<notin> set entries"
    and "se_lookup_symbol_name senv (ks_addr m + ks_len_base m) = Some nm" "cstr nm \<noteq> []"
  shows "jump_entry_check env senv s = Some 1"
proof -
  have "httcsec_memcmp xs xs = (0, length xs)" for xs by (induction xs) auto
  then show ?thesis
    using first_patch_error [OF assms(3,6-8), of "ks_base m" "ks_base m"] assms(1,2,4,5)
    by (simp add: jump_entry_check_def lookup_abnormal_symbol_name_def)
qed

definition demo_section_env :: section_env where
  "demo_section_env = \<lparr>se_lookup_symbol_name = (\<lambda>a. Some [102]),
     se_kallsyms = (\<lambda>n. if n = bytes_of ''__start___jump_table'' then 0x100 else 0x110),
     se_jump_entry_code = (\<lambda>a. 0x1003), se_sort = (\<lambda>cmp xs. sort xs)\<rparr>"

definition demo_section :: section_state where
  "demo_section = \<lparr>start_text = 0x1000, end_text = 0x1020, t_lookup_symbol_name = 1, t_kallsyms_lookup_name = 1,
     ksection_m = Null, section_jump_entry = Null\<rparr>"

lemma demo_section_facts:
  "sort_lib_ok demo_section_env" "jump_labels demo_section_env = {0x1003}" "text_length demo_section = 32" "start_text demo_section = 0x1000"
proof -
  have "bytes_of ''__stop___jump_table'' \<noteq> bytes_of ''__start___jump_table''" by (simp add: bytes_of_def)
  then show "jump_labels demo_section_env = {0x1003}"
    by (simp add: jump_labels_def demo_section_env_def jump_entries_def SIZEOF_JUMP_ENTRY_def)
  have "sorted_wrt (\<lambda>a b. section_jump_entry_cmp a b \<le> 0) (sort xs)" for xs
    by (rule sorted_wrt_mono_rel [OF _ sorted_sort [of xs]]) (simp add: section_jump_entry_cmp_def)
  then show "sort_lib_ok demo_section_env" by (simp add: sort_lib_ok_def demo_section_env_def)
qed (simp_all add: text_length_def demo_section_def)

lemma kernel_text_decided_witness:
  "\<exists>s' z' p' acts' out'. section_init demo_env demo_section_env True True demo_section \<lparr>ctx = [], tz_sent = []\<rparr> running_platform dm_action = Some (0, s', z', p', acts')
   \<and> kernel_section_check (demo_env\<lparr>me_mem := (me_mem demo_env)(0x1003 := 0xe9)\<rparr>) demo_section_env None s' no_output = Some (0, out')"
proof -
  let ?env = "demo_env\<lparr>me_mem := (me_mem demo_env)(0x1003 := 0xe9)\<rparr>"
  have reg: "\<exists>acts'. dmeasure_register_action DMEASURE_SECTION_ACTION dksection_action dm_action = Some (0, acts')"
    by (simp add: dmeasure_register_action_def dm_action_def Let_def schedule_delayed_work_def dksection_action_def start_action_def strncmp_eq_0_iff)
  have ne: "bytes_of ''__stop___jump_table'' \<noteq> bytes_of ''__start___jump_table''" by (simp add: bytes_of_def)
  obtain s' z' p' acts' where i: "section_init demo_env demo_section_env True True demo_section \<lparr>ctx = [], tz_sent = []\<rparr> running_platform dm_action = Some (0, s', z', p', acts')"
    using reg ne by (auto simp: section_init_def demo_section_def demo_section_env_def section_params_bad_def INVALID_DATA_FULL_FF_def
        collect_jump_entries_def SIZEOF_JUMP_ENTRY_def backup_ksection_def text_length_def Let_def)
  define cond where "cond \<longleftrightarrow> (\<forall>l\<in>jump_labels demo_section_env. \<forall>l'\<in>jump_labels demo_section_env. l < l' \<longrightarrow> l + 5 \<le> l')
     \<and> (\<forall>i<32. me_mem ?env (0x1000 + i) \<noteq> me_mem demo_env (0x1000 + i) \<longrightarrow>
          (\<exists>l\<in>jump_labels demo_section_env. 0x1000 \<le> l \<and> l \<le> 0x1000 + i \<and> 0x1000 + i < l + 5 \<and> me_mem ?env l \<noteq> me_mem demo_env l))"
  have cond by (simp add: cond_def demo_section_facts(2) demo_env_def)
  note t = kernel_text_decided [OF i demo_section_facts(1) demo_env_wf(1) demo_env_wf(2) demo_section_facts(4) [symmetric] demo_section_facts(3) [symmetric],
        of "(me_mem demo_env)(0x1003 := 0xe9)" None no_output, folded cond_def]
  from t obtain r out' where "kernel_section_check ?env demo_section_env None s' no_output = Some (r, out')" "cond \<longrightarrow> r = 0"
    by (elim exE conjE) blast
  with \<open>cond\<close> i show ?thesis by blast
qed

end
