(* ===== verification/Kernel_Modules.thy ===== *)
theory Kernel_Modules
  imports Kernel_Section Kernel_Net
begin

text \<open>
  The measurement of kernel modules: tsb/kernel/dmeasure/modules/modules/modules.c. A copy and the hash of the text of
  every module are recorded when the measurement is loaded and when a module becomes live, and forgotten when
  it goes. A check hashes the text of each live module; for a module with jump labels it walks over the
  differences.

  Modules are given by their addresses; their contents at the moment of a call are a parameter. \<open>cal_module_code_segment_size\<close> returns
  the size that the kernel keeps, and the rest of it is not reached. The comparison of the walk is given the whole
  length of the text also when it starts inside of it: it reads behind the copy unless it finds a
  difference, and then the result of the check is \<open>None\<close>.
\<close>

section \<open>State\<close>

abbreviation (input) MODULE_STATE_LIVE :: nat where "MODULE_STATE_LIVE \<equiv> 0"
abbreviation (input) MODULE_STATE_COMING :: nat where "MODULE_STATE_COMING \<equiv> 1"
abbreviation (input) MODULE_STATE_GOING :: nat where "MODULE_STATE_GOING \<equiv> 2"

text \<open>\<open>km_jump_codes\<close>: the addresses (\<open>jump_entry_code\<close>) of the jump labels, empty if the module has none.\<close>

record kmodule =
  km_name :: "byte list"
  km_state :: nat
  km_base :: nat
  km_text_size :: nat
  km_jump_codes :: "nat list"

record module_info =
  mi_mod :: nat
  mi_name :: "byte list"
  mi_sm3_hash :: "byte list"
  mi_len_base :: nat
  mi_base :: "byte list"

record mod_world =
  modules_addr :: nat
  modules_p :: "unit kptr"
  module_list :: "module_info list"
  dmodule_count :: int
  module_notifier :: bool

text \<open>\<open>mv_sys_modules\<close>: the list of the kernel's modules; \<open>mv_mem n\<close>: the n-th allocation of an entry succeeds.\<close>

record mod_env =
  mv_module :: "nat \<Rightarrow> kmodule"
  mv_sys_modules :: "nat list"
  mv_mem :: "nat \<Rightarrow> bool"

section \<open>Recording\<close>

definition mod_args_addr_init :: "mod_world \<Rightarrow> int" where
  "mod_args_addr_init w = (if modules_addr w = INVALID_DATA_FULL_FF \<or> modules_addr w = 0 then - EINVAL else 0)"

definition cal_module_code_segment_size :: "kmodule \<Rightarrow> nat" where
  "cal_module_code_segment_size m = km_text_size m"

definition is_httcsec_module :: "byte list \<Rightarrow> bool" where
  "is_httcsec_module name \<longleftrightarrow> strcmp name (bytes_of ''platform'') = 0 \<or> strcmp name (bytes_of ''httcdmeasure'') = 0
     \<or> strcmp name (bytes_of ''httcsmeasure'') = 0 \<or> strcmp name (bytes_of ''httcfac'') = 0"

definition module_in_basedata :: "nat \<Rightarrow> mod_world \<Rightarrow> bool" where
  "module_in_basedata m w \<longleftrightarrow> m \<in> mi_mod ` set (module_list w)"

definition module_text :: "measure_env \<Rightarrow> kmodule \<Rightarrow> nat \<Rightarrow> byte list" where
  "module_text env m n = mem_bytes (me_mem env) (km_base m) n"

definition add_module_dmeasure :: "measure_env \<Rightarrow> mod_env \<Rightarrow> bool \<Rightarrow> nat \<Rightarrow> mod_world \<Rightarrow> int \<times> mod_world" where
  "add_module_dmeasure env mv mem a w =
     (let m = mv_module mv a; n = cal_module_code_segment_size m
      in if is_httcsec_module (km_name m) then (0, w)
         else if n = 0 then (- EINVAL, w)
         else if \<not> mem then (- ENOMEM, w)
         else (0, w\<lparr>module_list := \<lparr>mi_mod = a, mi_name = cstr (km_name m), mi_sm3_hash = area_hash env (module_text env m n), mi_len_base = n,
                      mi_base = module_text env m n\<rparr> # module_list w,
                    dmodule_count := dmodule_count w + 1\<rparr>))"

definition add_all_module_info :: "measure_env \<Rightarrow> mod_env \<Rightarrow> mod_world \<Rightarrow> int \<times> mod_world" where
  "add_all_module_info env mv w =
     (0, fold (\<lambda>i w. let a = mv_sys_modules mv ! i in
        if km_state (mv_module mv a) \<noteq> MODULE_STATE_GOING \<and> \<not> module_in_basedata a w
        then snd (add_module_dmeasure env mv (mv_mem mv i) a w) else w) [0..<length (mv_sys_modules mv)] w)"

fun drop_modules :: "module_info list \<Rightarrow> mod_world \<Rightarrow> mod_world" where
  "drop_modules [] w = w"
| "drop_modules (mi # mis) w = drop_modules mis (w\<lparr>module_list := mis, dmodule_count := dmodule_count w - 1\<rparr>)"

definition remove_all_module_info :: "mod_world \<Rightarrow> mod_world" where
  "remove_all_module_info w = drop_modules (module_list w) w"

definition del_module_dmeasure :: "nat \<Rightarrow> mod_world \<Rightarrow> mod_world" where
  "del_module_dmeasure a w =
     (if module_in_basedata a w then w\<lparr>module_list := remove_first mi_mod a (module_list w), dmodule_count := dmodule_count w - 1\<rparr> else w)"

definition handle_module_notifier :: "measure_env \<Rightarrow> mod_env \<Rightarrow> bool \<Rightarrow> nat \<Rightarrow> nat \<Rightarrow> mod_world \<Rightarrow> int \<times> mod_world" where
  "handle_module_notifier env mv mem val a w =
     (if val = MODULE_STATE_LIVE then (0, snd (add_module_dmeasure env mv mem a w))
      else if val = MODULE_STATE_GOING then (0, del_module_dmeasure a w)
      else (0, w))"

section \<open>Checking\<close>

definition mod_send_audit_log :: "measure_env \<Rightarrow> dmeasure_point option \<Rightarrow> byte list \<Rightarrow> int \<Rightarrow> byte list \<Rightarrow> measure_out \<Rightarrow> measure_out" where
  "mod_send_audit_log env point name result hash =
     audit_record env point result (audit_domain (point_subject point)
       (if result = RESULT_FAIL then bytes_of ''module_list('' @ cstr name @ bytes_of '')'' else cstr name) hash)"

definition match_jumplable_code :: "nat \<Rightarrow> nat list \<Rightarrow> int" where
  "match_jumplable_code addr entries = (if entries = [] then - 1 else if addr \<in> set entries then 1 else 0)"

text \<open>The \<open>while\<close> loop: 0 if it leaves the text, \<open>-EINVAL\<close> at a difference that is not a label.\<close>

function label_loop :: "nat list \<Rightarrow> nat \<Rightarrow> byte list \<Rightarrow> byte list \<Rightarrow> nat \<Rightarrow> int option" where
  "label_loop entries addr now base base_offset =
     (let (res, offset) = httcsec_memcmp (drop base_offset now) (drop base_offset base);
          next = base_offset + offset + JUMP_LABEL_NOP_SIZE
      in if res = 0 \<and> base_offset > 0 then None
         else if match_jumplable_code (addr + base_offset + offset) entries = 1
         then (if next \<ge> length base then Some 0 else label_loop entries addr now base next)
         else Some (- EINVAL))"
  by auto

termination
  by (relation "measure (\<lambda>(entries, addr, now, base, b). length base - b)") (auto simp: JUMP_LABEL_NOP_SIZE_def)

declare label_loop.simps [simp del]

definition module_body ::
  "measure_env \<Rightarrow> mod_env \<Rightarrow> dmeasure_point option \<Rightarrow> module_info \<Rightarrow> int \<times> measure_out \<Rightarrow> (int \<times> measure_out) option" where
  "module_body env mv point mi = (\<lambda>(ret, out).
     let m = mv_module mv (mi_mod mi); now = module_text env m (mi_len_base mi); hash = area_hash env now
     in if km_state m \<noteq> MODULE_STATE_LIVE \<or> memeq hash (mi_sm3_hash mi) 32 then Some (ret, out)
        else if km_jump_codes m = [] then Some (- EINVAL, mod_send_audit_log env point (km_name m) RESULT_FAIL hash (critical_failure out))
        else case label_loop (km_jump_codes m) (km_base m) now (mi_base mi) 0 of None \<Rightarrow> None
          | Some r \<Rightarrow> Some (if r \<noteq> 0 then r else ret, out))"

fun check_modules ::
  "measure_env \<Rightarrow> mod_env \<Rightarrow> dmeasure_point option \<Rightarrow> module_info list \<Rightarrow> int \<times> measure_out \<Rightarrow> (int \<times> measure_out) option" where
  "check_modules env mv point [] st = Some st"
| "check_modules env mv point (mi # mis) st =
     (case module_body env mv point mi st of None \<Rightarrow> None | Some st' \<Rightarrow> check_modules env mv point mis st')"

definition module_list_check :: "measure_env \<Rightarrow> mod_env \<Rightarrow> dmeasure_point option \<Rightarrow> mod_world \<Rightarrow> measure_out \<Rightarrow> (int \<times> measure_out) option" where
  "module_list_check env mv point w out = (case check_modules env mv point (module_list w) (0, out) of None \<Rightarrow> None
     | Some (ret, out') \<Rightarrow>
         if ret = 0 then Some (ret, mod_send_audit_log env point (bytes_of ''module_list'') RESULT_SUCCESS (replicate LEN_HASH 0) out')
         else Some (ret, out'))"

section \<open>Loading and unloading\<close>

definition dmodule_action :: dmeasure_node where
  "dmodule_action = \<lparr>dn_name = bytes_of DM_ACTION_MODULELIST_NAME, dn_check = Some ''module_list_check''\<rparr>"

text \<open>The labels of the error exits of \<open>modules_init\<close>.\<close>

definition out_module_info :: "mod_world \<Rightarrow> mod_world option" where
  "out_module_info w = map_option (\<lambda>p. w\<lparr>modules_p := p\<rparr>) (kfree_ptr (modules_p w))"

definition out_register :: "mod_world \<Rightarrow> mod_world option" where
  "out_register w = out_module_info (remove_all_module_info w)"

definition out_action :: "mod_world \<Rightarrow> mod_world option" where
  "out_action w = out_register (w\<lparr>module_notifier := False\<rparr>)"

text \<open>\<open>kz\<close>: \<open>kzalloc\<close> of the policy succeeds; \<open>reg\<close>: the result of \<open>register_module_notifier\<close>.\<close>

definition modules_init ::
  "measure_env \<Rightarrow> mod_env \<Rightarrow> bool \<Rightarrow> int \<Rightarrow> mod_world \<Rightarrow> dmeasure_action list \<Rightarrow> (int \<times> mod_world \<times> dmeasure_action list) option" where
  "modules_init env mv kz reg w acts =
     (let ret = mod_args_addr_init w
      in if ret \<noteq> 0 then Some (ret, w, acts)
         else if \<not> kz then Some (- ENOMEM, w\<lparr>modules_p := Null\<rparr>, acts)
         else let (ret, w1) = add_all_module_info env mv (w\<lparr>modules_p := Live ()\<rparr>)
         in if ret \<noteq> 0 then map_option (\<lambda>w. (- EINVAL, w, acts)) (out_module_info w1)
            else if reg \<noteq> 0 then map_option (\<lambda>w. (- EINVAL, w, acts)) (out_register w1)
            else let w2 = w1\<lparr>module_notifier := True\<rparr>
            in case dmeasure_register_action DMEASURE_MODULE_ACTION dmodule_action acts of None \<Rightarrow> None
               | Some (r, acts') \<Rightarrow>
                   if r \<noteq> 0 then map_option (\<lambda>w. (- EINVAL, w, acts')) (out_action w2) else Some (r, w2, acts'))"

definition modules_exit :: "mod_world \<Rightarrow> dmeasure_action list \<Rightarrow> (mod_world \<times> dmeasure_action list) option" where
  "modules_exit w acts = (case kfree_ptr (modules_p w) of None \<Rightarrow> None
     | Some p \<Rightarrow> (case dmeasure_unregister_action DMEASURE_MODULE_ACTION dmodule_action acts of None \<Rightarrow> None
        | Some (r, acts') \<Rightarrow> Some (remove_all_module_info (w\<lparr>modules_p := p, module_notifier := False\<rparr>), acts')))"

section \<open>The recorded modules\<close>

definition recorded :: "mod_world \<Rightarrow> nat set" where
  "recorded w = mi_mod ` set (module_list w)"

definition list_inv :: "mod_world \<Rightarrow> bool" where
  "list_inv w \<longleftrightarrow> distinct (map mi_mod (module_list w)) \<and> dmodule_count w = int (length (module_list w))"

text \<open>Modules that are measured at all.\<close>

definition measurable :: "kmodule \<Rightarrow> bool" where
  "measurable m \<longleftrightarrow> \<not> is_httcsec_module (km_name m) \<and> km_text_size m \<noteq> 0"

lemma add_module_spec:
  assumes "list_inv w" "a \<notin> recorded w"
  shows "recorded (snd (add_module_dmeasure env mv mem a w)) = recorded w \<union> (if measurable (mv_module mv a) \<and> mem then {a} else {})"
    "list_inv (snd (add_module_dmeasure env mv mem a w))"
  using assms by (auto simp: add_module_dmeasure_def Let_def recorded_def list_inv_def measurable_def cal_module_code_segment_size_def)

lemma del_module_spec:
  assumes "list_inv w"
  shows "recorded (del_module_dmeasure a w) = recorded w - {a}" "list_inv (del_module_dmeasure a w)"
  using assms remove_first_spec [of mi_mod "module_list w" a]
  by (auto simp: del_module_dmeasure_def recorded_def list_inv_def module_in_basedata_def)

text \<open>The modules of the kernel and the notifications while the measurement is loaded: a module becomes live or goes.\<close>

inductive mod_step :: "(nat \<Rightarrow> kmodule) \<Rightarrow> nat set \<times> mod_world \<Rightarrow> nat set \<times> mod_world \<Rightarrow> bool" for kind :: "nat \<Rightarrow> kmodule" where
  live: "a \<notin> ms \<Longrightarrow> measurable (mv_module mv a) = measurable (kind a) \<Longrightarrow>
    mod_step kind (ms, w) (insert a ms, snd (handle_module_notifier env mv True MODULE_STATE_LIVE a w))"
| going: "a \<in> ms \<Longrightarrow> mod_step kind (ms, w) (ms - {a}, snd (handle_module_notifier env mv mem MODULE_STATE_GOING a w))"
| other: "val \<noteq> MODULE_STATE_LIVE \<Longrightarrow> val \<noteq> MODULE_STATE_GOING \<Longrightarrow>
    mod_step kind (ms, w) (ms, snd (handle_module_notifier env mv mem val a w))"

lemma mod_step_tracks:
  assumes "mod_step kind (ms, w) (ms', w')" "list_inv w" "recorded w = {a \<in> ms. measurable (kind a)}"
  shows "list_inv w' \<and> recorded w' = {a \<in> ms'. measurable (kind a)}"
  using assms(1)
proof cases
  case (live a mv env)
  then have "a \<notin> recorded w" using assms(3) by auto
  then show ?thesis using live add_module_spec [OF assms(2), of a env mv True] assms(3) by (auto simp: handle_module_notifier_def)
next
  case (going a env mv mem)
  then show ?thesis using del_module_spec [OF assms(2), of a] assms(3) by (auto simp: handle_module_notifier_def)
next
  case (other val env mv mem a)
  then show ?thesis using assms(2,3) by (simp add: handle_module_notifier_def)
qed

lemma mod_steps_track:
  assumes "(mod_step kind)\<^sup>*\<^sup>* p q" "list_inv (snd p)" "recorded (snd p) = {a \<in> fst p. measurable (kind a)}"
  shows "list_inv (snd q) \<and> recorded (snd q) = {a \<in> fst q. measurable (kind a)}"
  using assms
proof (induction rule: rtranclp_induct)
  case (step y z)
  then show ?case using mod_step_tracks [of kind "fst y" "snd y" "fst z" "snd z"] by simp
qed simp

lemma add_all_spec:
  assumes "module_list w = []" "dmodule_count w = 0" "\<forall>n. mv_mem mv n"
  shows "list_inv (snd (add_all_module_info env mv w))"
    "recorded (snd (add_all_module_info env mv w)) = {a \<in> set (mv_sys_modules mv). km_state (mv_module mv a) \<noteq> MODULE_STATE_GOING \<and> measurable (mv_module mv a)}"
proof -
  define f where "f = (\<lambda>i w. let a = mv_sys_modules mv ! i in
        if km_state (mv_module mv a) \<noteq> MODULE_STATE_GOING \<and> \<not> module_in_basedata a w
        then snd (add_module_dmeasure env mv (mv_mem mv i) a w) else w)"
  let ?ok = "\<lambda>a. km_state (mv_module mv a) \<noteq> MODULE_STATE_GOING \<and> measurable (mv_module mv a)"
  have step: "list_inv (f i w) \<and> recorded (f i w) = recorded w \<union> (if ?ok (mv_sys_modules mv ! i) then {mv_sys_modules mv ! i} else {})"
    if "list_inv w" "\<forall>a\<in>recorded w. ?ok a" for i w
    using that add_module_spec [OF that(1), of "mv_sys_modules mv ! i" env mv True] assms(3)
    by (auto simp: f_def Let_def module_in_basedata_def simp flip: recorded_def split: if_splits)
  have "list_inv (fold f is w) \<and> recorded (fold f is w) = recorded w \<union> {a \<in> (\<lambda>i. mv_sys_modules mv ! i) ` set is. ?ok a}"
    if "list_inv w" "\<forall>a\<in>recorded w. ?ok a" for "is" w
    using that
  proof (induction "is" arbitrary: w)
    case (Cons i "is")
    note s = step [OF Cons.prems, of i]
    then have "list_inv (f i w)" "\<forall>a\<in>recorded (f i w). ?ok a" using Cons.prems(2) by (auto split: if_splits)
    from Cons.IH [OF this] s show ?case by (auto split: if_splits)
  qed simp
  moreover have "list_inv w" "\<forall>a\<in>recorded w. ?ok a" using assms(1,2) by (simp_all add: list_inv_def recorded_def)
  ultimately have "list_inv (fold f [0..<length (mv_sys_modules mv)] w) \<and>
     recorded (fold f [0..<length (mv_sys_modules mv)] w) = recorded w \<union> {a \<in> (\<lambda>i. mv_sys_modules mv ! i) ` set [0..<length (mv_sys_modules mv)]. ?ok a}" by blast
  moreover have "(\<lambda>i. mv_sys_modules mv ! i) ` set [0..<length (mv_sys_modules mv)] = set (mv_sys_modules mv)"
    using map_nth [of "mv_sys_modules mv"] by (metis list.set_map)
  moreover have "recorded w = {}" using assms(1) by (simp add: recorded_def)
  ultimately show "list_inv (snd (add_all_module_info env mv w))"
    "recorded (snd (add_all_module_info env mv w)) = {a \<in> set (mv_sys_modules mv). km_state (mv_module mv a) \<noteq> MODULE_STATE_GOING \<and> measurable (mv_module mv a)}"
    by (simp_all add: add_all_module_info_def f_def)
qed


text \<open>
  A module that is still being loaded then is recorded at once and again when it becomes live. When it goes only one of the
  records is removed: the other one points to the freed module, and every later check reads it.
\<close>

lemma coming_module_stays:
  assumes "list_inv w" "a \<in> recorded w" "measurable (mv_module mv a)"
  shows "a \<in> recorded (snd (handle_module_notifier env' mv' mem' MODULE_STATE_GOING a (snd (handle_module_notifier env mv True MODULE_STATE_LIVE a w))))"
  using assms by (auto simp: handle_module_notifier_def add_module_dmeasure_def del_module_dmeasure_def recorded_def module_in_basedata_def
      measurable_def cal_module_code_segment_size_def Let_def)

section \<open>What the check decides\<close>

definition module_bad :: "measure_env \<Rightarrow> mod_env \<Rightarrow> module_info \<Rightarrow> bool" where
  "module_bad env mv mi \<longleftrightarrow> km_state (mv_module mv (mi_mod mi)) = MODULE_STATE_LIVE
     \<and> \<not> memeq (area_hash env (module_text env (mv_module mv (mi_mod mi)) (mi_len_base mi))) (mi_sm3_hash mi) 32"

definition module_report :: "measure_env \<Rightarrow> mod_env \<Rightarrow> dmeasure_point option \<Rightarrow> module_info \<Rightarrow> unit \<Rightarrow> measure_out \<Rightarrow> measure_out" where
  "module_report env mv point mi u out = mod_send_audit_log env point (km_name (mv_module mv (mi_mod mi))) RESULT_FAIL
     (area_hash env (module_text env (mv_module mv (mi_mod mi)) (mi_len_base mi))) (critical_failure out)"

definition plain_body :: "measure_env \<Rightarrow> mod_env \<Rightarrow> dmeasure_point option \<Rightarrow> module_info \<Rightarrow> unit \<times> int \<times> measure_out \<Rightarrow> unit \<times> int \<times> measure_out" where
  "plain_body env mv point mi = (\<lambda>(u, ret, out). if module_bad env mv mi then (u, - EINVAL, module_report env mv point mi u out) else (u, ret, out))"

interpretation plain: list_check "plain_body env mv point" "module_bad env mv" "\<lambda>i u. u" "module_report env mv point" "me_kz env" for env mv point
  by unfold_locales (auto simp: plain_body_def module_report_def mod_send_audit_log_def audit_record_spec)

text \<open>As long as no module with jump labels has changed, the check is such a loop.\<close>

definition no_patched_labels :: "measure_env \<Rightarrow> mod_env \<Rightarrow> mod_world \<Rightarrow> bool" where
  "no_patched_labels env mv w \<longleftrightarrow> (\<forall>mi\<in>set (module_list w). module_bad env mv mi \<longrightarrow> km_jump_codes (mv_module mv (mi_mod mi)) = [])"

lemma check_modules_plain:
  assumes "\<forall>mi\<in>set mis. module_bad env mv mi \<longrightarrow> km_jump_codes (mv_module mv (mi_mod mi)) = []"
  shows "check_modules env mv point mis (ret, out) = Some (snd (fold (plain_body env mv point) mis ((), ret, out)))"
  using assms
proof (induction mis arbitrary: ret out)
  case (Cons mi mis)
  have "module_body env mv point mi (ret, out) = Some (snd (plain_body env mv point mi ((), ret, out)))"
    using Cons.prems by (simp add: module_body_def plain_body_def module_bad_def module_report_def Let_def)
  then show ?case using Cons by (cases "plain_body env mv point mi ((), ret, out)") auto
qed simp

lemma module_check_result:
  assumes "no_patched_labels env mv w"
  obtains out' where "module_list_check env mv point w out = Some (if filter (module_bad env mv) (module_list w) = [] then 0 else - EINVAL, out')"
    "mo_counts out' = (CriticalDataFailureCount_add ^^ length (filter (module_bad env mv) (module_list w))) (mo_counts out)"
    "(\<forall>n. me_kz env n) \<longrightarrow> failure_records out' = failure_records out + length (filter (module_bad env mv) (module_list w))"
proof -
  let ?fin = "mod_send_audit_log env point (bytes_of ''module_list'') RESULT_SUCCESS (replicate LEN_HASH 0)"
  obtain r out' where c: "(let (u, ret, out') = fold (plain_body env mv point) (module_list w) ((), 0, out) in if ret = 0 then (ret, ?fin out') else (ret, out')) = (r, out')"
    by fastforce
  have "\<And>x. mo_counts (?fin x) = mo_counts x \<and> failure_records (?fin x) = failure_records x" by (simp add: mod_send_audit_log_def success_record)
  note r = plain.check_result [OF c this]
  have "module_list_check env mv point w out = Some (r, out')"
    using c check_modules_plain [of "module_list w" env mv point 0 out] assms
    by (auto simp: module_list_check_def no_patched_labels_def split: prod.splits if_splits)
  then show ?thesis using that [of out'] r by simp
qed

text \<open>Records as the module makes them.\<close>

definition record_wf :: "module_info \<Rightarrow> bool" where
  "record_wf mi \<longleftrightarrow> mi_sm3_hash mi = gb_sm3 (mi_base mi) \<and> length (mi_base mi) = mi_len_base mi \<and> mi_len_base mi < 2 ^ 31"

lemma add_module_record_wf:
  assumes "\<forall>mi\<in>set (module_list w). record_wf mi" "env_wf env" "\<forall>a. km_text_size (mv_module mv a) < 2 ^ 31"
  shows "\<forall>mi\<in>set (module_list (snd (add_module_dmeasure env mv mem a w))). record_wf mi"
  using assms by (auto simp: add_module_dmeasure_def record_wf_def cal_module_code_segment_size_def module_text_def area_hash_sm3 Let_def)

definition text_changed :: "measure_env \<Rightarrow> mod_env \<Rightarrow> module_info \<Rightarrow> bool" where
  "text_changed env mv mi \<longleftrightarrow> km_state (mv_module mv (mi_mod mi)) = MODULE_STATE_LIVE
     \<and> gb_sm3 (mem_bytes (me_mem env) (km_base (mv_module mv (mi_mod mi))) (mi_len_base mi)) \<noteq> gb_sm3 (mi_base mi)"

lemma module_bad_text:
  assumes "record_wf mi" "env_wf env"
  shows "module_bad env mv mi = text_changed env mv mi"
  using assms by (simp add: module_bad_def text_changed_def record_wf_def module_text_def area_hash_sm3 memeq_def length_gb_sm3)

text \<open>C28. The text of modules is measured. As long as no module with jump labels has changed, the check passes exactly if the
  hash of the text of every recorded live module is that of the recorded copy; every changed module is
  counted and, while memory lasts, recorded.\<close>

theorem module_check_decides:
  assumes "\<forall>mi\<in>set (module_list w). record_wf mi" "env_wf env"
    and "\<forall>mi\<in>set (module_list w). text_changed env mv mi \<longrightarrow> km_jump_codes (mv_module mv (mi_mod mi)) = []"
  shows "\<exists>out'. module_list_check env mv point w out = Some (if filter (text_changed env mv) (module_list w) = [] then 0 else - EINVAL, out')
    \<and> mo_counts out' = (CriticalDataFailureCount_add ^^ length (filter (text_changed env mv) (module_list w))) (mo_counts out)
    \<and> ((\<forall>n. me_kz env n) \<longrightarrow> failure_records out' = failure_records out + length (filter (text_changed env mv) (module_list w)))"
proof -
  have "filter (module_bad env mv) (module_list w) = filter (text_changed env mv) (module_list w)"
    using assms(1,2) module_bad_text by (intro filter_cong) auto
  moreover have "no_patched_labels env mv w" using assms module_bad_text by (auto simp: no_patched_labels_def)
  ultimately show ?thesis using module_check_result [of env mv w point out] by metis
qed

section \<open>Modules with jump labels\<close>

text \<open>
  A change of a module with jump labels leaves neither a record nor a count. The walk can only accept
  it if the last five bytes of the text have changed: after any other change it goes on and takes the place behind
  the text for a difference, so that patching a label makes the check fail or read behind the copy.
\<close>

lemma labelled_change_unrecorded:
  assumes "module_bad env mv mi" "km_jump_codes (mv_module mv (mi_mod mi)) \<noteq> []"
  shows "module_body env mv point mi (ret, out) = None \<or> (\<exists>r. module_body env mv point mi (ret, out) = Some (r, out))"
  using assms by (auto simp: module_body_def module_bad_def Let_def split: option.split)

lemma label_loop_accepts:
  assumes "length now = length base" "b < length base" "label_loop entries addr now base b = Some 0" "0 < b \<or> now \<noteq> base"
  shows "\<exists>i<length base. length base \<le> i + JUMP_LABEL_NOP_SIZE \<and> now ! i \<noteq> base ! i \<and> addr + i \<in> set entries"
  using assms
proof (induction entries addr now base b rule: label_loop.induct)
  case (1 entries addr now base b)
  obtain res off where m: "httcsec_memcmp (drop b now) (drop b base) = (res, off)" by fastforce
  have res: "res \<noteq> 0"
  proof
    assume "res = 0"
    then have "b = 0" using 1(4) by (subst (asm) label_loop.simps) (auto simp: m Let_def split: if_splits)
    then show False using \<open>res = 0\<close> httcsec_memcmp_spec(1) [OF _ m] 1(2,5) by simp
  qed
  note d = next_difference(2) [OF 1(2,3) m res]
  have match: "match_jumplable_code (addr + b + off) entries = 1"
    and rest: "length base \<le> b + off + JUMP_LABEL_NOP_SIZE \<or> label_loop entries addr now base (b + off + JUMP_LABEL_NOP_SIZE) = Some 0"
    using 1(4) res by (subst (asm) label_loop.simps; auto simp: m Let_def split: if_splits)+
  show ?case
  proof (cases "length base \<le> b + off + JUMP_LABEL_NOP_SIZE")
    case True
    then show ?thesis using d match by (intro exI [of _ "b + off"]) (auto simp: match_jumplable_code_def add.assoc split: if_splits)
  next
    case False
    then show ?thesis using 1(1) [OF refl m [symmetric] refl] res match rest 1(2) by (auto simp: JUMP_LABEL_NOP_SIZE_def)
  qed
qed

lemma patched_module_not_accepted:
  assumes "length now = length base" "now \<noteq> base" "base \<noteq> []" "\<forall>i<length base. length base \<le> i + JUMP_LABEL_NOP_SIZE \<longrightarrow> now ! i = base ! i"
  shows "label_loop entries addr now base 0 \<noteq> Some 0"
  using label_loop_accepts [OF assms(1), of 0 entries addr] assms(2-4) by auto

section \<open>Examples\<close>

definition demo_mod_env :: mod_env where
  "demo_mod_env = \<lparr>mv_module = (\<lambda>a. \<lparr>km_name = bytes_of ''nfs'', km_state = MODULE_STATE_LIVE, km_base = a, km_text_size = 8, km_jump_codes = []\<rparr>),
     mv_sys_modules = [0x100, 0x200], mv_mem = (\<lambda>n. True)\<rparr>"

definition demo_mod_world :: mod_world where
  "demo_mod_world = \<lparr>modules_addr = 1, modules_p = Null, module_list = [], dmodule_count = 0, module_notifier = False\<rparr>"

lemma demo_measurable: "measurable (mv_module demo_mod_env a)"
  by (simp add: measurable_def demo_mod_env_def is_httcsec_module_def strcmp_def strncmp_eq_0_iff bytes_of_def cstr_def strlen_def)


definition demo_record :: module_info where
  "demo_record = \<lparr>mi_mod = 0x100, mi_name = bytes_of ''nfs'', mi_sm3_hash = gb_sm3 (mem_bytes (me_mem demo_env) 0x100 8), mi_len_base = 8,
     mi_base = mem_bytes (me_mem demo_env) 0x100 8\<rparr>"

lemma module_check_decides_witness:
  "\<exists>out'. module_list_check demo_env demo_mod_env None (demo_mod_world\<lparr>module_list := [demo_record]\<rparr>) no_output = Some (0, out') \<and> failure_records out' = 0"
proof -
  let ?w = "demo_mod_world\<lparr>module_list := [demo_record]\<rparr>"
  have "\<forall>mi\<in>set (module_list ?w). record_wf mi" "filter (text_changed demo_env demo_mod_env) (module_list ?w) = []"
    "\<forall>mi\<in>set (module_list ?w). text_changed demo_env demo_mod_env mi \<longrightarrow> km_jump_codes (mv_module demo_mod_env (mi_mod mi)) = []"
    "failure_records no_output = 0" "\<forall>n. me_kz demo_env n"
    by (simp_all add: record_wf_def demo_record_def text_changed_def demo_mod_env_def failure_records_def no_output_def demo_env_def)
  then show ?thesis using module_check_decides [OF _ demo_env_wf(1), of ?w demo_mod_env None no_output] by auto
qed

end
