(* ===== verification/File_Hash_Cache.thy ===== *)
theory File_Hash_Cache
  imports Whitelist_Cache
begin

text \<open>
  The cache of program digests for the measurement of processes:
  tsb/kernel/dmeasure/task/file_hash_cache.c. It has the layout of the cache of the static measurement, but
  the slot is chosen by the path alone and the modification time and the size are compared. Each slot has
  its own lock, taken and released by every operation, so an operation is one step.
\<close>

section \<open>State and operations\<close>

record file_hash_entry =
  fh_path :: "byte list"
  fh_digest :: "byte list"
  fh_path_len :: nat
  fh_attr :: file_attr
  fh_flag :: int

record file_hash_cache =
  fh_wc :: "nat \<Rightarrow> file_hash_entry option"
  fh_random :: u32

definition zero_entry :: file_hash_entry where
  "zero_entry = \<lparr>fh_path = replicate PATH_LEN 0, fh_digest = replicate LEN_HASH 0, fh_path_len = 0,
     fh_attr = \<lparr>fa_mtime = replicate 16 0, fa_size = replicate 8 0\<rparr>, fh_flag = 0\<rparr>"

definition fh_hash_key :: "jhash_fun \<Rightarrow> u32 \<Rightarrow> byte list \<Rightarrow> nat" where
  "fh_hash_key jhash random p = unat (jhash p random AND of_nat (MAX_CACHE_NUMBER - 1))"

definition check_file_hash_cache ::
  "jhash_fun \<Rightarrow> file_attr \<Rightarrow> byte list \<Rightarrow> byte list \<Rightarrow> file_hash_cache \<Rightarrow> int \<times> byte list" where
  "check_file_hash_cache jhash fa path digest w =
     (let len = (if strlen path > PATH_LEN then PATH_LEN else strlen path);
          hash = fh_hash_key jhash (fh_random w) (take len path)
      in case fh_wc w hash of None \<Rightarrow> (- EINVAL, digest)
         | Some e \<Rightarrow>
             if fh_flag e = 0 \<or> fh_path_len e \<noteq> len \<or> \<not> memeq (fh_path e) path len
               \<or> fa_mtime (fh_attr e) \<noteq> fa_mtime fa \<or> fa_size (fh_attr e) \<noteq> fa_size fa
             then (- EINVAL, digest) else (0, take LEN_HASH (fh_digest e)))"

text \<open>The slot is chosen by the whole path here, by at most 512 bytes of it in the search.\<close>

definition set_file_hash_cache ::
  "jhash_fun \<Rightarrow> file_attr \<Rightarrow> byte list \<Rightarrow> byte list \<Rightarrow> file_hash_cache \<Rightarrow> int \<times> file_hash_cache" where
  "set_file_hash_cache jhash fa path digest w =
     (let len = strlen path; hash = fh_hash_key jhash (fh_random w) (take len path)
      in case fh_wc w hash of None \<Rightarrow> (- EINVAL, w)
         | Some e \<Rightarrow>
             let e1 = (if fh_flag e \<noteq> 0 then zero_entry else e);
                 e2 = (if len < PATH_LEN
                       then e1\<lparr>fh_path := memcpy_at (fh_path e1) 0 (take len path), fh_path_len := len\<rparr>
                       else e1\<lparr>fh_path := memcpy_at (fh_path e1) 0 (take PATH_LEN path), fh_path_len := PATH_LEN\<rparr>);
                 e3 = e2\<lparr>fh_digest := memcpy_at (fh_digest e2) 0 (take LEN_HASH digest), fh_attr := fa, fh_flag := 1\<rparr>
             in (0, w\<lparr>fh_wc := (fh_wc w)(hash \<mapsto> e3)\<rparr>))"

definition file_hash_cache_free :: "file_hash_cache \<Rightarrow> file_hash_cache" where
  "file_hash_cache_free w = w\<lparr>fh_wc := (\<lambda>i. if i < MAX_CACHE_NUMBER then None else fh_wc w i)\<rparr>"

text \<open>\<open>alloc i\<close>: the i-th allocation succeeds; \<open>rnd\<close>: the random seed.\<close>

definition file_hash_cache_init :: "(nat \<Rightarrow> bool) \<Rightarrow> u32 \<Rightarrow> file_hash_cache \<Rightarrow> int \<times> file_hash_cache" where
  "file_hash_cache_init alloc rnd w =
     (case find (\<lambda>i. \<not> alloc i) [0..<MAX_CACHE_NUMBER] of
        Some k \<Rightarrow> (- ENOMEM, file_hash_cache_free w)
      | None \<Rightarrow> (0, \<lparr>fh_wc = (\<lambda>i. if i < MAX_CACHE_NUMBER then Some zero_entry else None), fh_random = rnd\<rparr>))"

definition file_hash_cache_exit :: "file_hash_cache \<Rightarrow> file_hash_cache" where
  "file_hash_cache_exit w = w\<lparr>fh_wc := (\<lambda>i. if i < MAX_CACHE_NUMBER then None else fh_wc w i)\<rparr>"

section \<open>What a slot holds\<close>

definition fh_slot :: "jhash_fun \<Rightarrow> byte list \<Rightarrow> file_hash_cache \<Rightarrow> nat" where
  "fh_slot jhash path w = fh_hash_key jhash (fh_random w) (cstr path)"

definition fh_wf :: "file_hash_cache \<Rightarrow> bool" where
  "fh_wf w \<longleftrightarrow> (\<forall>i<MAX_CACHE_NUMBER. case fh_wc w i of None \<Rightarrow> False | Some e \<Rightarrow>
     length (fh_path e) = PATH_LEN \<and> length (fh_digest e) = LEN_HASH)"

definition fh_cached :: "jhash_fun \<Rightarrow> file_attr \<Rightarrow> byte list \<Rightarrow> file_hash_cache \<Rightarrow> byte list option" where
  "fh_cached jhash fa path w = (case fh_wc w (fh_slot jhash path w) of None \<Rightarrow> None
     | Some e \<Rightarrow> if fh_flag e \<noteq> 0 \<and> fh_path_len e = strlen path \<and> take (strlen path) (fh_path e) = cstr path
                   \<and> fa_mtime (fh_attr e) = fa_mtime fa \<and> fa_size (fh_attr e) = fa_size fa
                 then Some (fh_digest e) else None)"

lemma fh_hash_key_less: "fh_hash_key jhash random p < MAX_CACHE_NUMBER"
  using cache_hash_key_less [of jhash random p] unfolding fh_hash_key_def cache_hash_key_def .

lemma fh_wfD:
  assumes "fh_wf w"
  obtains e where "fh_wc w (fh_slot jhash path w) = Some e" "length (fh_path e) = PATH_LEN" "length (fh_digest e) = LEN_HASH"
  using assms fh_hash_key_less [of jhash "fh_random w" "cstr path"]
  by (fastforce simp: fh_wf_def fh_slot_def split: option.splits)

lemma check_file_hash_eq:
  assumes "fh_wf w" "strlen path \<le> PATH_LEN"
  shows "check_file_hash_cache jhash fa path digest w =
    (case fh_cached jhash fa path w of None \<Rightarrow> (- EINVAL, digest) | Some d \<Rightarrow> (0, d))"
proof -
  obtain e where "fh_wc w (fh_slot jhash path w) = Some e" "length (fh_digest e) = LEN_HASH"
    by (rule fh_wfD [OF assms(1)])
  then show ?thesis
    using assms(2) by (auto simp: check_file_hash_cache_def fh_cached_def fh_slot_def memeq_def Let_def)
qed

lemma set_file_hash_eq:
  assumes "fh_wf w" "strlen path < PATH_LEN" "length digest = LEN_HASH"
  obtains e where "set_file_hash_cache jhash fa path digest w = (0, w\<lparr>fh_wc := (fh_wc w)(fh_slot jhash path w \<mapsto> e)\<rparr>)"
    "length (fh_path e) = PATH_LEN" "fh_digest e = digest" "fh_flag e = 1" "fh_path_len e = strlen path"
    "take (strlen path) (fh_path e) = cstr path" "fh_attr e = fa"
proof -
  obtain e where e: "fh_wc w (fh_slot jhash path w) = Some e" "length (fh_path e) = PATH_LEN" "length (fh_digest e) = LEN_HASH"
    by (rule fh_wfD [OF assms(1)])
  define e1 where "e1 = (if fh_flag e \<noteq> 0 then zero_entry else e)"
  have e1: "length (fh_path e1) = PATH_LEN" "length (fh_digest e1) = LEN_HASH"
    using e by (simp_all add: e1_def zero_entry_def)
  let ?e = "e1\<lparr>fh_path := memcpy_at (fh_path e1) 0 (cstr path), fh_path_len := strlen path, fh_digest := digest, fh_attr := fa, fh_flag := 1\<rparr>"
  show thesis
  proof (rule that [of ?e])
    show "set_file_hash_cache jhash fa path digest w = (0, w\<lparr>fh_wc := (fh_wc w)(fh_slot jhash path w \<mapsto> ?e)\<rparr>)"
      using e(1) e1 assms(2,3) by (simp add: set_file_hash_cache_def Let_def e1_def memcpy_at_def fh_slot_def)
  qed (use e1 assms(2) in \<open>simp_all add: memcpy_at_def strlen_def\<close>)
qed

section \<open>What a hit means\<close>

text \<open>
  The cache keeps the contract of \<open>digest_cache\<close> with the path, the time and the size together as the
  name of an entry. The only flush is a new start of the measurement.
\<close>

definition fh_name :: "file_attr \<times> byte list \<Rightarrow> byte list \<times> byte list \<times> byte list" where
  "fh_name q = (fa_mtime (fst q), fa_size (fst q), cstr (snd q))"

definition fh_ok :: "file_attr \<times> byte list \<Rightarrow> byte list \<Rightarrow> bool" where
  "fh_ok q digest \<longleftrightarrow> strlen (snd q) < PATH_LEN \<and> length digest = LEN_HASH"

definition fh_lookup :: "jhash_fun \<Rightarrow> unit \<Rightarrow> file_attr \<times> byte list \<Rightarrow> file_hash_cache \<Rightarrow> byte list option" where
  "fh_lookup jhash u q = fh_cached jhash (fst q) (snd q)"

definition fh_store :: "jhash_fun \<Rightarrow> unit \<Rightarrow> file_attr \<times> byte list \<Rightarrow> byte list \<Rightarrow> file_hash_cache \<Rightarrow> file_hash_cache" where
  "fh_store jhash u q digest w = snd (set_file_hash_cache jhash (fst q) (snd q) digest w)"

definition fh_restart :: "u32 \<Rightarrow> file_hash_cache \<Rightarrow> file_hash_cache" where
  "fh_restart rnd w = snd (file_hash_cache_init (\<lambda>_. True) rnd (file_hash_cache_exit w))"

lemma fh_start:
  assumes "file_hash_cache_init alloc rnd w = (0, w')"
  shows "fh_wf w'" "fh_cached jhash fa path w' = None"
  using assms
  by (auto simp: file_hash_cache_init_def fh_wf_def fh_cached_def zero_entry_def split: option.splits if_splits)

lemma fh_restart_ok: "fh_wf (fh_restart rnd w)" "fh_cached jhash fa path (fh_restart rnd w) = None"
proof -
  have "file_hash_cache_init (\<lambda>_. True) rnd (file_hash_cache_exit w) = (0, fh_restart rnd w)"
    using find_None_iff [of "\<lambda>i. False" "[0..<MAX_CACHE_NUMBER]"] by (simp add: fh_restart_def file_hash_cache_init_def)
  then show "fh_wf (fh_restart rnd w)" "fh_cached jhash fa path (fh_restart rnd w) = None"
    by (rule fh_start)+
qed

lemma fh_store_ok:
  assumes "fh_wf w" "fh_ok q d"
  shows "fh_wf (fh_store jhash u q d w)" "fh_lookup jhash v q (fh_store jhash u q d w) = Some d"
    "fh_lookup jhash v q' (fh_store jhash u q d w) = Some e \<Longrightarrow> fh_name q' = fh_name q \<and> e = d \<or> fh_lookup jhash v q' w = Some e"
proof -
  let ?p = "snd q"
  have len: "strlen ?p < PATH_LEN" "length d = LEN_HASH" using assms(2) by (simp_all add: fh_ok_def)
  obtain x where x: "set_file_hash_cache jhash (fst q) ?p d w = (0, w\<lparr>fh_wc := (fh_wc w)(fh_slot jhash ?p w \<mapsto> x)\<rparr>)"
    "length (fh_path x) = PATH_LEN" "fh_digest x = d" "fh_flag x = 1" "fh_path_len x = strlen ?p"
    "take (strlen ?p) (fh_path x) = cstr ?p" "fh_attr x = fst q"
    by (rule set_file_hash_eq [OF assms(1) len])
  have st: "fh_store jhash () q d w = w\<lparr>fh_wc := (fh_wc w)(fh_slot jhash ?p w \<mapsto> x)\<rparr>" using x(1) by (simp add: fh_store_def)
  show "fh_wf (fh_store jhash u q d w)"
    using assms(1) x(2,3) len(2) by (auto simp: st fh_wf_def)
  show "fh_lookup jhash v q (fh_store jhash u q d w) = Some d"
    using x by (simp add: st fh_lookup_def fh_cached_def fh_slot_def)
  assume e: "fh_lookup jhash v q' (fh_store jhash u q d w) = Some e"
  show "fh_name q' = fh_name q \<and> e = d \<or> fh_lookup jhash v q' w = Some e"
  proof (cases "fh_slot jhash (snd q') w = fh_slot jhash ?p w")
    case True
    with e x have "strlen (snd q') = strlen ?p" "cstr (snd q') = cstr ?p" "fa_mtime (fst q') = fa_mtime (fst q)"
      "fa_size (fst q') = fa_size (fst q)" "e = d"
      by (auto simp: st fh_lookup_def fh_cached_def fh_slot_def split: if_splits)
    then show ?thesis by (simp add: fh_name_def)
  next
    case False
    with e show ?thesis by (simp add: st fh_lookup_def fh_cached_def fh_slot_def)
  qed
qed

interpretation fcache: digest_cache fh_wf fh_ok fh_name "fh_lookup jhash" "fh_store jhash" "fh_restart rnd" for jhash rnd
proof unfold_locales
  show "fh_lookup jhash g q (fh_store jhash f p d c) = Some e \<Longrightarrow> fh_name q = fh_name p \<and> e = d \<or> fh_lookup jhash g q c = Some e"
    if "fh_wf c" "fh_ok p d" for c p d g q f e
    by (rule fh_store_ok(3) [OF that])
qed (simp_all add: fh_store_ok(1,2) fh_restart_ok(1), simp add: fh_lookup_def fh_restart_ok(2))

fun fh_step :: "jhash_fun \<Rightarrow> u32 \<Rightarrow> (unit, file_attr \<times> byte list, byte list) cache_op \<Rightarrow> file_hash_cache \<Rightarrow> file_hash_cache" where
  "fh_step jhash rnd (Store u q d) w = fh_store jhash u q d w"
| "fh_step jhash rnd Flush w = fh_restart rnd w"

fun fh_op_ok :: "(unit, file_attr \<times> byte list, byte list) cache_op \<Rightarrow> bool" where
  "fh_op_ok (Store u q d) = fh_ok q d"
| "fh_op_ok Flush = True"

lemma fh_step_exec: "fh_step jhash rnd x w = fcache.exec jhash rnd x w"
  by (cases x) (simp_all add: fcache.exec.simps)

lemma fh_op_ok_eq: "fh_op_ok x = fcache.op_ok x"
  by (cases x) (simp_all add: fcache.op_ok.simps)

text \<open>A digest from the cache was stored, since the measurement was last started, under the same path for a file
  of the same modification time and size.\<close>

theorem file_hash_hit_current:
  assumes "file_hash_cache_init alloc rnd0 w0 = (0, w)" "list_all fh_op_ok ops"
    and "strlen path \<le> PATH_LEN" "check_file_hash_cache jhash fa path digest (fold (fh_step jhash rnd) ops w) = (0, d)"
  shows "\<exists>fa' path'. Store () (fa', path') d \<in> set (since_flush ops) \<and> cstr path' = cstr path
    \<and> fa_mtime fa' = fa_mtime fa \<and> fa_size fa' = fa_size fa"
proof -
  have ops: "list_all fcache.op_ok ops" using assms(2) by (simp add: list_all_iff fh_op_ok_eq)
  have ex: "fold (fh_step jhash rnd) ops w = fold (fcache.exec jhash rnd) ops w"
    by (rule fold_cong) (simp_all add: fun_eq_iff fh_step_exec)
  have wf: "fh_wf (fold (fh_step jhash rnd) ops w)"
    using fcache.exec_inv [OF fh_start(1) [OF assms(1)] ops] by (simp add: ex)
  have "fh_cached jhash fa path (fold (fh_step jhash rnd) ops w) = Some d"
    using assms(4) unfolding check_file_hash_eq [OF wf assms(3)] by (simp split: option.splits)
  then have "fh_lookup jhash () (fa, path) (fold (fcache.exec jhash rnd) ops w) = Some d" by (simp add: fh_lookup_def ex)
  from fcache.hit_stored [OF fh_start(1) [OF assms(1)] _ ops this]
  obtain f q where "Store f q d \<in> set (since_flush ops)" "fh_name q = fh_name (fa, path)"
    using fh_start(2) [OF assms(1)] by (auto simp: fh_lookup_def)
  then show ?thesis by (cases q) (auto simp: fh_name_def)
qed

text \<open>A path of more than 512 bytes is stored in the slot of the whole path and searched in the slot of its first
  512 bytes.\<close>

lemma long_path_missed:
  assumes "file_hash_cache_init alloc rnd w0 = (0, w)" "strlen path > PATH_LEN"
    and "fh_hash_key jhash rnd (take PATH_LEN path) \<noteq> fh_hash_key jhash rnd (cstr path)"
  shows "check_file_hash_cache jhash fa path digest (snd (set_file_hash_cache jhash fa path d w)) = (- EINVAL, digest)"
proof -
  have w: "w = \<lparr>fh_wc = (\<lambda>i. if i < MAX_CACHE_NUMBER then Some zero_entry else None), fh_random = rnd\<rparr>"
    using assms(1) by (auto simp: file_hash_cache_init_def split: option.splits)
  show ?thesis
    using assms(2,3) fh_hash_key_less [of jhash rnd]
    by (simp add: check_file_hash_cache_def set_file_hash_cache_def w Let_def zero_entry_def)
qed

end
