(* ===== verification/Task_Measure.thy ===== *)
theory Task_Measure
  imports File_Hash_Cache Process_Identity Kernel_Tables
begin

text \<open>
  The measurement of processes: tsb/kernel/dmeasure/task/task.c, and the replacement of system calls it uses
  (hook_replace_system_call of tsb/kernel/platform/hook/syscall.c). A process for which there is a policy gets an entry
  in a hash table when it maps a file, and the hash of every executable mapping is recorded when it calls mprotect;
  processes that run already are recorded when the measurement starts or a policy arrives. Each entry has a delayed
  work that hashes the mappings again, compares, writes a record for the audit log and arms itself.

  Entries and policies live at addresses of two heaps; addresses are not reused, so that a result \<open>None\<close> shows every access to
  freed memory. \<open>None\<close> is also a run through a NULL pointer or outside a buffer, and a reference count below
  zero. The list of policies is a list of addresses here; \<open>policy_view\<close> is the list of Dmeasure_Policy.

  Sections under \<open>dmeasure_task_mutex\<close> are one step. The list \<open>tmp_maps\<close> is always empty, and \<open>private_data\<close> is never
  set, so that the records have no measurement point; both are left out. The files and tasks are parameters, given at the moment
  of a call.
\<close>

section \<open>System calls\<close>

record syscall_hooks =
  sh_flag :: "nat \<Rightarrow> int"
  sh_table :: "nat \<Rightarrow> fptr"

definition hook_replace_system_call :: "nat \<Rightarrow> fptr \<Rightarrow> fptr option \<Rightarrow> syscall_hooks \<Rightarrow> int \<times> fptr option \<times> syscall_hooks" where
  "hook_replace_system_call num new_call old_call h =
     (if sh_flag h num = 1 then (- EINVAL, old_call, h)
      else (0, Some (sh_table h num), h\<lparr>sh_table := (sh_table h)(num := new_call), sh_flag := (sh_flag h)(num := 1)\<rparr>))"

definition hook_restore_system_call :: "nat \<Rightarrow> fptr \<Rightarrow> syscall_hooks \<Rightarrow> int \<times> syscall_hooks" where
  "hook_restore_system_call num old_call h =
     (if sh_flag h num = 0 then (- EINVAL, h)
      else (0, h\<lparr>sh_table := (sh_table h)(num := old_call), sh_flag := (sh_flag h)(num := 0)\<rparr>))"

definition NR_mmap :: nat where "NR_mmap = 9"
definition NR_mprotect :: nat where "NR_mprotect = 10"

section \<open>State\<close>

definition MEASURE_HASH_LENGTH :: nat where "MEASURE_HASH_LENGTH = 4096"
definition PROCESS_DMEASURE_MODE_NON_MEASURE :: int where "PROCESS_DMEASURE_MODE_NON_MEASURE = 2"

record mmap_reference =
  mr_addr :: nat
  mr_len :: nat
  mr_sm3_value :: "byte list"
  mr_vm_file :: nat
  mr_file_type :: nat

text \<open>\<open>dt_work\<close>: the period of the delayed work if it is pending.\<close>

record dtask_info =
  dt_maps :: "mmap_reference list"
  dt_map_count :: int
  dt_pid :: int
  dt_task :: nat
  dt_work :: "int option"
  dt_policy :: nat
  dt_path :: "byte list"

text \<open>\<open>tk_audit\<close>: the calls of keraudit_log with result, domain and process; \<open>tk_mm_refs\<close>: references taken on the memory map of a task
  less those given back.\<close>

record task_state =
  task_hashtable :: "nat \<Rightarrow> nat list"
  task_info_count :: int
  dt_heap :: "nat \<rightharpoonup> dtask_info"
  pol_heap :: "nat \<rightharpoonup> process_policy"
  pol_head :: "nat list option"
  tk_next :: nat
  tk_cache :: file_hash_cache
  tk_ids :: ids_state
  tk_audit :: "(int \<times> sec_domain \<times> int) list"
  tk_counts :: credential_counts
  tk_mm_refs :: "nat \<Rightarrow> int"

text \<open>What the kernel gives: mappings, memory maps with the program file and \<open>get_user_pages_remote\<close>, tasks.\<close>

record task_vma =
  tv_file :: "nat option"
  tv_exec :: bool
  tv_write :: bool
  tv_start :: nat
  tv_end :: nat

record task_mm =
  tm_exe :: "nat option"
  tm_mmap :: "task_vma list"
  tm_pages :: "nat \<Rightarrow> nat \<Rightarrow> int \<times> byte list option list"

record task_struct =
  ts_pid :: int
  ts_comm :: "byte list"
  ts_real_parent :: nat
  ts_children :: "nat list"
  ts_leader :: bool
  ts_mm :: "task_mm option"

text \<open>
  \<open>te_iname\<close>: the name of the file if the file is still there; \<open>te_junk\<close>: what the variable \<open>ret\<close> of
  \<open>calc_hash_from_file\<close> holds before it is set; the outcomes of allocations are \<open>te_kz_info\<close> (an entry for a
  task), \<open>te_kz_map\<close> (a reference for the mapping at an address), \<open>te_kz_pages\<close>, \<open>te_kz_path\<close> and \<open>te_kz_audit\<close>.
\<close>

record task_env =
  te_current :: nat
  te_task :: "nat \<Rightarrow> task_struct"
  te_processes :: "nat list"
  te_pid_task :: "int \<Rightarrow> nat option"
  te_file :: "nat \<Rightarrow> kfile"
  te_attr :: "nat \<Rightarrow> file_attr"
  te_iname :: "nat \<Rightarrow> byte list option"
  te_d_path :: "nat \<Rightarrow> byte list option"
  te_digest :: digest_env
  te_junk :: int
  te_jhash :: jhash_fun
  te_kz_info :: "nat \<Rightarrow> bool"
  te_kz_map :: "nat \<Rightarrow> bool"
  te_kz_pages :: bool
  te_kz_path :: bool
  te_kz_audit :: bool

section \<open>Records, digests and entries\<close>

text \<open>The name is put into a field of 512 bytes between ``task\_list('' and ``)'' without a test of its length.\<close>

definition task_send_audit_log :: "task_env \<Rightarrow> byte list \<Rightarrow> int \<Rightarrow> byte list \<Rightarrow> int \<Rightarrow> task_state \<Rightarrow> task_state option" where
  "task_send_audit_log env name result hash pid s =
     (let obj = bytes_of ''task_list('' @ cstr name @ bytes_of '')''
      in if \<not> te_kz_audit env then Some s
         else if length obj > LEN_NAME_MAX then None
         else Some (s\<lparr>tk_audit := tk_audit s @ [(result, audit_domain (bytes_of ''TSB'') obj hash, pid)]\<rparr>))"

definition calc_hash_from_file :: "task_env \<Rightarrow> kfile \<Rightarrow> byte list \<Rightarrow> int \<times> byte list" where
  "calc_hash_from_file env f digest = digest_cal_from (te_junk env) 0 (te_digest env) f digest"

text \<open>The length is passed as an int; a mapping that does not fit is outside of the model.\<close>

definition task_cal_mem_sm3 :: "task_env \<Rightarrow> task_mm \<Rightarrow> nat \<Rightarrow> nat \<Rightarrow> byte list \<Rightarrow> (int \<times> byte list) option" where
  "task_cal_mem_sm3 env mm from len sm3_hash =
     (let off = from mod PAGE_SIZE;
          npages = (off + len + PAGE_SIZE - 1) div PAGE_SIZE
      in if len \<ge> 2 ^ 31 then None
         else if \<not> te_kz_pages env then Some (- ENOMEM, sm3_hash)
         else (case tm_pages mm from npages of (ret, pages) \<Rightarrow>
           if ret \<noteq> int npages \<or> None \<in> set pages then Some (- ENOMEM, sm3_hash)
           else let ctx = hash_pages off len (map the pages) (snd (sm3_init (Some (stack_ctx (te_digest env)))))
                in Some (0, fst (snd (sm3_finish ctx sm3_hash)))))"

definition task_cal_proc_mem_sm3 :: "task_env \<Rightarrow> nat \<Rightarrow> nat \<Rightarrow> nat \<Rightarrow> byte list \<Rightarrow> (int \<times> byte list) option" where
  "task_cal_proc_mem_sm3 env task from len sm3_hash =
     (case ts_mm (te_task env task) of None \<Rightarrow> Some (- EINVAL, sm3_hash)
      | Some mm \<Rightarrow> task_cal_mem_sm3 env mm from len sm3_hash)"

definition work_period :: "process_policy \<Rightarrow> int" where
  "work_period p = (if be_measure_interval p \<le> 0 then 10000 else be_measure_interval p)"

definition task_hash_func :: "nat \<Rightarrow> nat" where
  "task_hash_func task = task mod MEASURE_HASH_LENGTH"

definition init_dtask_info :: "task_env \<Rightarrow> nat \<Rightarrow> byte list \<Rightarrow> nat \<Rightarrow> task_state \<Rightarrow> (nat option \<times> task_state) option" where
  "init_dtask_info env task path pol s =
     (if \<not> te_kz_info env task then Some (None, s)
      else case pol_heap s pol of None \<Rightarrow> None
      | Some p \<Rightarrow>
          let a = tk_next s;
              d = \<lparr>dt_maps = [], dt_map_count = 0, dt_pid = ts_pid (te_task env task), dt_task = task,
                   dt_work = Some (work_period p), dt_policy = pol, dt_path = cstr path\<rparr>
          in Some (Some a, s\<lparr>dt_heap := (dt_heap s)(a \<mapsto> d), tk_next := a + 1,
                             pol_heap := (pol_heap s)(pol \<mapsto> p\<lparr>obj_count := obj_count p + 1\<rparr>)\<rparr>))"

fun find_info :: "task_state \<Rightarrow> nat \<Rightarrow> int \<Rightarrow> nat list \<Rightarrow> nat option option" where
  "find_info s task pid [] = Some None"
| "find_info s task pid (a # as) =
     (case dt_heap s a of None \<Rightarrow> None
      | Some d \<Rightarrow>
          if dt_task d = task \<and> dt_pid d = pid
          then (case pol_heap s (dt_policy d) of None \<Rightarrow> None
                | Some p \<Rightarrow> if process_switch p \<noteq> 0 then Some (Some a) else find_info s task pid as)
          else find_info s task pid as)"

definition check_dtask_info :: "task_env \<Rightarrow> nat \<Rightarrow> task_state \<Rightarrow> nat option option" where
  "check_dtask_info env task s = find_info s task (ts_pid (te_task env task)) (task_hashtable s (task_hash_func task))"

definition add_to_table :: "nat \<Rightarrow> nat \<Rightarrow> task_state \<Rightarrow> task_state" where
  "add_to_table task a s =
     s\<lparr>task_hashtable := (task_hashtable s)(task_hash_func task := a # task_hashtable s (task_hash_func task)),
       task_info_count := task_info_count s + 1\<rparr>"

text \<open>The search for a policy, over the addresses of the list.\<close>

fun find_policy :: "task_state \<Rightarrow> (process_policy \<Rightarrow> bool) \<Rightarrow> nat list \<Rightarrow> nat option option" where
  "find_policy s P [] = Some None"
| "find_policy s P (a # as) =
     (case pol_heap s a of None \<Rightarrow> None | Some p \<Rightarrow> if P p then Some (Some a) else find_policy s P as)"

definition query_policy :: "byte list \<Rightarrow> byte list \<Rightarrow> byte list \<Rightarrow> task_state \<Rightarrow> nat option option" where
  "query_policy full_path process_name hash s =
     (case pol_head s of None \<Rightarrow> None | Some as \<Rightarrow> find_policy s (policy_matches full_path process_name hash) as)"

text \<open>The digest of a program, from the cache or from the file.\<close>

definition cached_file_hash :: "task_env \<Rightarrow> nat \<Rightarrow> byte list \<Rightarrow> task_state \<Rightarrow> int \<times> byte list \<times> task_state" where
  "cached_file_hash env f path s =
     (let (r0, h0) = check_file_hash_cache (te_jhash env) (te_attr env f) path (replicate LEN_HASH 0) (tk_cache s)
      in if r0 = 0 then (0, h0, s)
         else let (r1, h1) = calc_hash_from_file env (te_file env f) h0
              in if r1 \<noteq> 0 then (r1, h1, s)
                 else (0, h1, s\<lparr>tk_cache := snd (set_file_hash_cache (te_jhash env) (te_attr env f) path h1 (tk_cache s))\<rparr>))"

section \<open>Recording mappings\<close>

text \<open>The type in the header of an ELF file of 64 bits, if it is a program or a library.\<close>

definition elf_file_type :: "kfile \<Rightarrow> nat option" where
  "elf_file_type f = (case kernel_read f 0 64 of Inl e \<Rightarrow> None
     | Inr d \<Rightarrow> let t = unat (d ! 16) + 256 * unat (d ! 17)
               in if length d = 64 \<and> (t = 2 \<or> t = 3) then Some t else None)"

definition add_reference :: "mmap_reference \<Rightarrow> dtask_info \<Rightarrow> dtask_info" where
  "add_reference m d = d\<lparr>dt_maps := dt_maps d @ [m], dt_map_count := dt_map_count d + 1\<rparr>"

text \<open>A reference for one mapping: \<open>Inl\<close> without memory; a mapping that cannot be hashed is left out.\<close>

definition record_vma :: "task_env \<Rightarrow> task_mm \<Rightarrow> task_vma \<Rightarrow> nat \<Rightarrow> nat \<Rightarrow> dtask_info \<Rightarrow> (int + dtask_info) option" where
  "record_vma env mm v f t d =
     (if \<not> te_kz_map env (tv_start v) then Some (Inl (- ENOMEM))
      else case task_cal_mem_sm3 env mm (tv_start v) (tv_end v - tv_start v) (replicate LEN_HASH 0) of None \<Rightarrow> None
      | Some (ret, h) \<Rightarrow>
          if ret \<noteq> 0 then Some (Inr d)
          else Some (Inr (add_reference \<lparr>mr_addr = tv_start v, mr_len = tv_end v - tv_start v, mr_sm3_value = h,
                                         mr_vm_file = f, mr_file_type = t\<rparr> d)))"

fun collect_exsited_mmap :: "task_env \<Rightarrow> task_mm \<Rightarrow> task_vma list \<Rightarrow> dtask_info \<Rightarrow> (int \<times> dtask_info) option" where
  "collect_exsited_mmap env mm [] d = Some (0, d)"
| "collect_exsited_mmap env mm (v # vs) d =
     (case tv_file v of None \<Rightarrow> collect_exsited_mmap env mm vs d
      | Some f \<Rightarrow>
          if \<not> tv_exec v \<or> f \<in> mr_vm_file ` set (dt_maps d) then collect_exsited_mmap env mm vs d
          else (case elf_file_type (te_file env f) of None \<Rightarrow> collect_exsited_mmap env mm vs d
            | Some t \<Rightarrow>
                (case record_vma env mm v f t d of None \<Rightarrow> None
                 | Some (Inl e) \<Rightarrow> Some (e, d)
                 | Some (Inr d') \<Rightarrow> collect_exsited_mmap env mm vs d')))"

text \<open>For a process that runs already: mappings that can also be written are left out. \<open>Inl\<close>: out of memory.\<close>

fun exist_vmas :: "task_env \<Rightarrow> task_mm \<Rightarrow> task_vma list \<Rightarrow> dtask_info \<Rightarrow> (int + dtask_info) option" where
  "exist_vmas env mm [] d = Some (Inr d)"
| "exist_vmas env mm (v # vs) d =
     (case tv_file v of None \<Rightarrow> exist_vmas env mm vs d
      | Some f \<Rightarrow>
          if \<not> tv_exec v \<or> tv_write v then exist_vmas env mm vs d
          else (case elf_file_type (te_file env f) of None \<Rightarrow> exist_vmas env mm vs d
            | Some t \<Rightarrow>
                (case record_vma env mm v f t d of None \<Rightarrow> None
                 | Some (Inl e) \<Rightarrow> Some (Inl e)
                 | Some (Inr d') \<Rightarrow> exist_vmas env mm vs d')))"

text \<open>On the error exit the entry is freed, but the count of its policy is not taken back.\<close>

definition add_exist_task_info :: "task_env \<Rightarrow> nat \<Rightarrow> task_mm \<Rightarrow> byte list \<Rightarrow> nat \<Rightarrow> task_state \<Rightarrow> (int \<times> task_state) option" where
  "add_exist_task_info env task mm path pol s =
     (if tm_mmap mm = [] then Some (- EINVAL, s)
      else case init_dtask_info env task path pol s of None \<Rightarrow> None
      | Some (None, s') \<Rightarrow> Some (- ENOMEM, s')
      | Some (Some a, s') \<Rightarrow>
          (case dt_heap s' a of None \<Rightarrow> None
           | Some d \<Rightarrow>
               (case exist_vmas env mm (tm_mmap mm) d of None \<Rightarrow> None
                | Some (Inl e) \<Rightarrow> Some (e, s'\<lparr>dt_heap := (dt_heap s')(a := None)\<rparr>)
                | Some (Inr d') \<Rightarrow> Some (0, add_to_table task a (s'\<lparr>dt_heap := (dt_heap s')(a \<mapsto> d')\<rparr>)))))"

section \<open>The hooks\<close>

text \<open>
  The policy for a new process: the one found for it, unless it has the path of its parent; or that of its parent, if
  the children of the parent are to be measured. \<open>Some None\<close>: the process is not measured.
\<close>

definition choose_policy :: "byte list \<Rightarrow> nat option \<Rightarrow> nat option \<Rightarrow> task_state \<Rightarrow> nat option option" where
  "choose_policy path parent pol s =
     (case pol of
        None \<Rightarrow>
          (case parent of None \<Rightarrow> Some None
           | Some b \<Rightarrow>
               (case dt_heap s b of None \<Rightarrow> None
                | Some d \<Rightarrow>
                    (case pol_heap s (dt_policy d) of None \<Rightarrow> None
                     | Some p \<Rightarrow> if sub_process_mode p \<noteq> PROCESS_DMEASURE_MODE_MEASURE then Some None else Some (Some (dt_policy d)))))
      | Some q \<Rightarrow>
          (case parent of None \<Rightarrow> Some (Some q)
           | Some b \<Rightarrow>
               (case dt_heap s b of None \<Rightarrow> None
                | Some d \<Rightarrow> if strcmp path (dt_path d) = 0 then Some None else Some (Some q))))"

text \<open>If the program file is missing the memory map is given back twice.\<close>

definition add_tmp_mem_map :: "task_env \<Rightarrow> nat \<Rightarrow> byte list \<Rightarrow> task_state \<Rightarrow> (int \<times> task_state) option" where
  "add_tmp_mem_map env task path s =
     (case check_dtask_info env task s of None \<Rightarrow> None
      | Some (Some a) \<Rightarrow> Some (0, s)
      | Some None \<Rightarrow>
          (case ts_mm (te_task env task) of None \<Rightarrow> Some (- ENOMEM, s)
           | Some mm \<Rightarrow>
               (case tm_exe mm of None \<Rightarrow> Some (- ENOMEM, s\<lparr>tk_mm_refs := (tk_mm_refs s)(task := tk_mm_refs s task - 1)\<rparr>)
                | Some f \<Rightarrow>
                    let (ret, file_hash, s1) = cached_file_hash env f path s in
                    if ret \<noteq> 0 then Some (- ENOMEM, s1)
                    else case check_dtask_info env (ts_real_parent (te_task env task)) s1 of None \<Rightarrow> None
                    | Some parent \<Rightarrow>
                        (case query_policy path (ts_comm (te_task env task)) file_hash s1 of None \<Rightarrow> None
                         | Some pol \<Rightarrow>
                             (case choose_policy path parent pol s1 of None \<Rightarrow> None
                              | Some None \<Rightarrow> Some (- ENOMEM, s1)
                              | Some (Some q) \<Rightarrow>
                                  (case init_dtask_info env task path q s1 of None \<Rightarrow> None
                                   | Some (None, s2) \<Rightarrow> Some (- ENOMEM, s2)
                                   | Some (Some a, s2) \<Rightarrow> Some (0, add_to_table task a s2)))))))"

definition convert_tmp_mem_map :: "task_env \<Rightarrow> nat \<Rightarrow> task_state \<Rightarrow> task_state option" where
  "convert_tmp_mem_map env task s =
     (case check_dtask_info env task s of None \<Rightarrow> None
      | Some None \<Rightarrow> Some s
      | Some (Some a) \<Rightarrow>
          (case dt_heap s a of None \<Rightarrow> None
           | Some d \<Rightarrow>
               (case ts_mm (te_task env (dt_task d)) of None \<Rightarrow> None
                | Some mm \<Rightarrow>
                    (case collect_exsited_mmap env mm (tm_mmap mm) d of None \<Rightarrow> None
                     | Some (r, d') \<Rightarrow> Some (s\<lparr>dt_heap := (dt_heap s)(a \<mapsto> d')\<rparr>)))))"

definition forget_ids :: "task_env \<Rightarrow> nat \<Rightarrow> task_state \<Rightarrow> task_state" where
  "forget_ids env task s = s\<lparr>tk_ids := remove_current_task_ids_cache task (ts_pid (te_task env task)) (tk_ids s)\<rparr>"

text \<open>\<open>ret\<close>: the result of the original call; \<open>leader\<close>: \<open>current->group_leader\<close>; \<open>path\<close>: \<open>vfs_get_fullpath\<close>.\<close>

definition new_sys_mmap :: "task_env \<Rightarrow> int \<Rightarrow> int \<Rightarrow> nat \<Rightarrow> byte list option \<Rightarrow> task_state \<Rightarrow> (int \<times> task_state) option" where
  "new_sys_mmap env ret fd leader path s =
     map_option (\<lambda>s'. (ret, forget_ids env (te_current env) s'))
       (if ret < 0 then Some s
        else case pol_head s of None \<Rightarrow> None
        | Some as \<Rightarrow>
            if as = [] \<or> fd < 0 then Some s
            else (case path of None \<Rightarrow> Some s
                  | Some p \<Rightarrow> map_option snd (add_tmp_mem_map env leader p s)))"

definition new_sys_mprotect :: "task_env \<Rightarrow> int \<Rightarrow> nat \<Rightarrow> task_state \<Rightarrow> (int \<times> task_state) option" where
  "new_sys_mprotect env ret leader s =
     map_option (\<lambda>s'. (ret, forget_ids env (te_current env) s'))
       (if ret \<noteq> 0 then Some s
        else case pol_head s of None \<Rightarrow> None
        | Some as \<Rightarrow> if as = [] then Some s else convert_tmp_mem_map env leader s)"

section \<open>Removing entries\<close>

definition remove_task_info :: "nat \<Rightarrow> task_state \<Rightarrow> task_state option" where
  "remove_task_info a s =
     (case dt_heap s a of None \<Rightarrow> None
      | Some d \<Rightarrow>
          (case pol_heap s (dt_policy d) of None \<Rightarrow> None
           | Some p \<Rightarrow>
               if obj_count p = 0 then None
               else let p' = p\<lparr>obj_count := obj_count p - 1\<rparr>; k = task_hash_func (dt_task d)
                    in Some (s\<lparr>task_hashtable := (task_hashtable s)(k := remove1 a (task_hashtable s k)),
                               pol_heap := (pol_heap s)(dt_policy d := if process_switch p = 0 \<and> obj_count p' = 0 then None else Some p'),
                               task_info_count := task_info_count s - 1,
                               dt_heap := (dt_heap s)(a := None)\<rparr>)))"

fun remove_infos :: "nat list \<Rightarrow> task_state \<Rightarrow> task_state option" where
  "remove_infos [] s = Some s"
| "remove_infos (a # as) s = (case remove_task_info a s of None \<Rightarrow> None | Some s' \<Rightarrow> remove_infos as s')"

fun remove_buckets :: "nat list \<Rightarrow> task_state \<Rightarrow> task_state option" where
  "remove_buckets [] s = Some s"
| "remove_buckets (i # is) s = (case remove_infos (task_hashtable s i) s of None \<Rightarrow> None | Some s' \<Rightarrow> remove_buckets is s')"

definition remove_all_task_info :: "task_state \<Rightarrow> task_state option" where
  "remove_all_task_info s = remove_buckets [0..<MEASURE_HASH_LENGTH] s"

definition remove_task_info_of_task :: "task_env \<Rightarrow> nat \<Rightarrow> task_state \<Rightarrow> task_state option" where
  "remove_task_info_of_task env task s =
     (case check_dtask_info env task s of None \<Rightarrow> None
      | Some None \<Rightarrow> Some s
      | Some (Some a) \<Rightarrow> remove_task_info a s)"

definition dtask_exit_handler :: "task_env \<Rightarrow> nat option \<Rightarrow> task_state \<Rightarrow> (int \<times> task_state) option" where
  "dtask_exit_handler env data s = (case data of None \<Rightarrow> Some (0, s)
     | Some tsk \<Rightarrow>
         if ts_leader (te_task env tsk)
         then map_option (\<lambda>s'. (0, forget_ids env tsk s')) (remove_task_info_of_task env tsk s)
         else Some (0, s))"

section \<open>The check of a process\<close>

text \<open>The test whether a name ends in ``.so'' starts three bytes before its end.\<close>

definition is_so_file :: "byte list \<Rightarrow> bool option" where
  "is_so_file name = (if strlen name < 3 then None else Some (drop (strlen name - 3) (cstr name) = bytes_of ''.so''))"

text \<open>
  The loop over the references: \<open>ret\<close> and the last hash. A mapping that cannot be hashed ends the loop with 0. The
  name of the file is read only if libraries are not measured.
\<close>

fun measure_maps :: "task_env \<Rightarrow> process_policy \<Rightarrow> nat \<Rightarrow> byte list \<Rightarrow> mmap_reference list \<Rightarrow> (int \<times> byte list) option" where
  "measure_maps env p task hash [] = Some (0, hash)"
| "measure_maps env p task hash (m # ms) =
     (case (if share_lib_mode p = PROCESS_DMEASURE_MODE_NON_MEASURE
            then (case te_iname env (mr_vm_file m) of None \<Rightarrow> None | Some n \<Rightarrow> is_so_file n) else Some False) of
        None \<Rightarrow> None
      | Some True \<Rightarrow> measure_maps env p task hash ms
      | Some False \<Rightarrow>
          (case task_cal_proc_mem_sm3 env task (mr_addr m) (mr_len m) hash of None \<Rightarrow> None
           | Some (r, h) \<Rightarrow>
               if r \<noteq> 0 then Some (0, h)
               else if \<not> memeq (mr_sm3_value m) h LEN_HASH then Some (- EACCES, h)
               else measure_maps env p task h ms))"

datatype check_result = Entry_removed | Check_skipped | Check_done int

text \<open>
  The delayed work of the entry at \<open>a\<close>, up to the release of the mutex and after it. When it runs it is no longer
  pending. \<open>enabled\<close>: dynamic measurement is switched on.
\<close>

definition check_first :: "task_env \<Rightarrow> bool \<Rightarrow> nat \<Rightarrow> task_state \<Rightarrow> (check_result \<times> task_state) option" where
  "check_first env enabled a s0 =
     (case dt_heap s0 a of None \<Rightarrow> None
      | Some d0 \<Rightarrow>
          let d = d0\<lparr>dt_work := None\<rparr>; s = s0\<lparr>dt_heap := (dt_heap s0)(a \<mapsto> d)\<rparr> in
          if \<not> enabled then Some (Check_skipped, s)
          else case pol_heap s (dt_policy d) of None \<Rightarrow> None
          | Some p \<Rightarrow>
              if process_switch p = 0 \<or> te_pid_task env (dt_pid d) \<noteq> Some (dt_task d)
              then map_option (\<lambda>s'. (Entry_removed, s')) (remove_task_info a s)
              else (case measure_maps env p (dt_task d) (replicate LEN_HASH 0) (dt_maps d) of None \<Rightarrow> None
                | Some (ret, hash) \<Rightarrow>
                    if ret = 0 then Some (Check_done 0, s)
                    else map_option (\<lambda>s'. (Check_done ret, s'))
                           (task_send_audit_log env (dt_path d) RESULT_FAIL hash (dt_pid d)
                              (s\<lparr>tk_counts := ProcessCodeFailureCount_add (tk_counts s)\<rparr>))))"

definition check_second :: "task_env \<Rightarrow> nat \<Rightarrow> check_result \<Rightarrow> task_state \<Rightarrow> task_state option" where
  "check_second env a r s =
     (if r = Entry_removed then Some s
      else case dt_heap s a of None \<Rightarrow> None
      | Some d \<Rightarrow>
          (case (if r = Check_done 0 then task_send_audit_log env (dt_path d) RESULT_SUCCESS (replicate LEN_HASH 0) (dt_pid d) s
                 else Some s) of None \<Rightarrow> None
           | Some s1 \<Rightarrow>
               (case pol_heap s1 (dt_policy d) of None \<Rightarrow> None
                | Some p \<Rightarrow> Some (s1\<lparr>dt_heap := (dt_heap s1)(a \<mapsto> d\<lparr>dt_work := Some (work_period p)\<rparr>)\<rparr>))))"

definition task_dmeasure_check :: "task_env \<Rightarrow> bool \<Rightarrow> nat \<Rightarrow> task_state \<Rightarrow> task_state option" where
  "task_dmeasure_check env enabled a s =
     (case check_first env enabled a s of None \<Rightarrow> None | Some (r, s') \<Rightarrow> check_second env a r s')"

text \<open>The measurement on request looks at the first mapping only if libraries are not measured.\<close>

fun request_maps :: "task_env \<Rightarrow> process_policy \<Rightarrow> nat \<Rightarrow> byte list \<Rightarrow> mmap_reference list \<Rightarrow> int option" where
  "request_maps env p task hash [] = Some 0"
| "request_maps env p task hash (m # ms) =
     (case task_cal_proc_mem_sm3 env task (mr_addr m) (mr_len m) hash of None \<Rightarrow> None
      | Some (r, h) \<Rightarrow>
          if r \<noteq> 0 then Some TSB_ERROR_CALC_HASH
          else if \<not> memeq (mr_sm3_value m) h LEN_HASH then Some TSB_MEASURE_FAILE
          else if share_lib_mode p = PROCESS_DMEASURE_MODE_NON_MEASURE then Some 0
          else request_maps env p task h ms)"

definition tsb_measure_process_taskp :: "task_env \<Rightarrow> nat \<Rightarrow> task_state \<Rightarrow> int option" where
  "tsb_measure_process_taskp env task s =
     (case check_dtask_info env task s of None \<Rightarrow> None
      | Some None \<Rightarrow> Some TSB_ERROR_DMEASURE_POLICY_NOT_FOUND
      | Some (Some a) \<Rightarrow>
          (case dt_heap s a of None \<Rightarrow> None
           | Some d \<Rightarrow>
               (case pol_heap s (dt_policy d) of None \<Rightarrow> None
                | Some p \<Rightarrow> if process_switch p = 0 then Some TSB_ERROR_DMEASURE_POLICY_NOT_FOUND
                           else request_maps env p (dt_task d) (replicate LEN_HASH 0) (dt_maps d))))"

definition tsb_measure_process :: "task_env \<Rightarrow> int \<Rightarrow> task_state \<Rightarrow> int option" where
  "tsb_measure_process env pid s =
     (if pid = 0 then tsb_measure_process_taskp env (te_current env) s
      else case te_pid_task env pid of None \<Rightarrow> Some TSB_ERROR_SYSTEM
      | Some task \<Rightarrow> tsb_measure_process_taskp env task s)"

section \<open>Processes that run already\<close>

fun collect_children :: "task_env \<Rightarrow> nat \<Rightarrow> nat list \<Rightarrow> task_state \<Rightarrow> task_state option" where
  "collect_children env pol [] s = Some s"
| "collect_children env pol (tsk # ts) s =
     (case ts_mm (te_task env tsk) of None \<Rightarrow> collect_children env pol ts s
      | Some mm \<Rightarrow>
          (case tm_exe mm of None \<Rightarrow> collect_children env pol ts s
           | Some f \<Rightarrow>
               (case check_dtask_info env tsk s of None \<Rightarrow> None
                | Some (Some a) \<Rightarrow> collect_children env pol ts s
                | Some None \<Rightarrow>
                    (case te_d_path env f of None \<Rightarrow> collect_children env pol ts s
                     | Some p \<Rightarrow>
                         (case add_exist_task_info env tsk mm p pol s of None \<Rightarrow> None
                          | Some (r, s') \<Rightarrow> collect_children env pol ts s')))))"

definition collect_child_task_info :: "task_env \<Rightarrow> nat \<Rightarrow> nat \<Rightarrow> task_state \<Rightarrow> task_state option" where
  "collect_child_task_info env task pol s =
     (if \<not> te_kz_path env then Some s else collect_children env pol (ts_children (te_task env task)) s)"

text \<open>One process of the walk. The policy found is read again after the entry has been made.\<close>

definition collect_process :: "task_env \<Rightarrow> nat \<Rightarrow> task_state \<Rightarrow> task_state option" where
  "collect_process env tsk s =
     (case ts_mm (te_task env tsk) of None \<Rightarrow> Some s
      | Some mm \<Rightarrow>
          (case tm_exe mm of None \<Rightarrow> Some s
           | Some f \<Rightarrow>
               (case check_dtask_info env tsk s of None \<Rightarrow> None
                | Some (Some a) \<Rightarrow> Some s
                | Some None \<Rightarrow>
                    (case te_d_path env f of None \<Rightarrow> Some s
                     | Some p \<Rightarrow>
                         let (ret, file_hash, s1) = cached_file_hash env f p s in
                         if ret \<noteq> 0 then Some s1
                         else case query_policy p (ts_comm (te_task env tsk)) file_hash s1 of None \<Rightarrow> None
                         | Some None \<Rightarrow> Some s1
                         | Some (Some q) \<Rightarrow>
                             (case add_exist_task_info env tsk mm p q s1 of None \<Rightarrow> None
                              | Some (r, s2) \<Rightarrow>
                                  (case pol_heap s2 q of None \<Rightarrow> None
                                   | Some pp \<Rightarrow> if sub_process_mode pp = PROCESS_DMEASURE_MODE_MEASURE
                                               then collect_child_task_info env tsk q s2 else Some s2))))))"

fun collect_processes :: "task_env \<Rightarrow> nat list \<Rightarrow> task_state \<Rightarrow> task_state option" where
  "collect_processes env [] s = Some s"
| "collect_processes env (t # ts) s = (case collect_process env t s of None \<Rightarrow> None | Some s' \<Rightarrow> collect_processes env ts s')"

definition collect_existed_task_info :: "task_env \<Rightarrow> task_state \<Rightarrow> task_state option" where
  "collect_existed_task_info env s = (if \<not> te_kz_path env then Some s else collect_processes env (te_processes env) s)"

section \<open>Loading and unloading\<close>

record task_module =
  tm_state :: task_state
  tm_hooks :: syscall_hooks
  tm_exit_notifier :: bool
  origin_sys_mmap :: "fptr option"
  origin_sys_mprotect :: "fptr option"
  tasklistlock :: nat

text \<open>\<open>alloc\<close> and \<open>rnd\<close> are for the cache; \<open>reg\<close> is the result of profile_event_register.\<close>

definition task_init :: "task_env \<Rightarrow> (nat \<Rightarrow> bool) \<Rightarrow> u32 \<Rightarrow> int \<Rightarrow> task_module \<Rightarrow> (int \<times> task_module) option" where
  "task_init env alloc rnd reg t =
     (if tasklistlock t = INVALID_DATA_FULL_FF \<or> tasklistlock t = 0 then Some (- EINVAL, t)
      else let (r1, w) = file_hash_cache_init alloc rnd (tk_cache (tm_state t)); s1 = (tm_state t)\<lparr>tk_cache := w\<rparr> in
      if r1 < 0 then Some (r1, t\<lparr>tm_state := s1\<rparr>)
      else case collect_existed_task_info env s1 of None \<Rightarrow> None
      | Some s2 \<Rightarrow>
          if reg \<noteq> 0 then map_option (\<lambda>s3. (- EINVAL, t\<lparr>tm_state := s3\<rparr>)) (remove_all_task_info s2)
          else let (r2, o1, h1) = hook_replace_system_call NR_mmap ''new_sys_mmap'' (origin_sys_mmap t) (tm_hooks t) in
          if r2 \<noteq> 0 then map_option (\<lambda>s3. (- EINVAL, t\<lparr>tm_state := s3, tm_exit_notifier := False\<rparr>)) (remove_all_task_info s2)
          else let (r3, o2, h2) = hook_replace_system_call NR_mprotect ''new_sys_mprotect'' (origin_sys_mprotect t) h1 in
          if r3 \<noteq> 0
          then map_option (\<lambda>s3. (- EINVAL, t\<lparr>tm_state := s3, tm_exit_notifier := False, origin_sys_mmap := o1,
                                    tm_hooks := snd (hook_restore_system_call NR_mmap (the o1) h2)\<rparr>)) (remove_all_task_info s2)
          else Some (0, t\<lparr>tm_state := s2, tm_exit_notifier := True, origin_sys_mmap := o1, origin_sys_mprotect := o2, tm_hooks := h2\<rparr>))"

definition task_exit :: "task_module \<Rightarrow> task_module option" where
  "task_exit t =
     (let h1 = (case origin_sys_mmap t of None \<Rightarrow> tm_hooks t | Some f \<Rightarrow> snd (hook_restore_system_call NR_mmap f (tm_hooks t)));
          h2 = (case origin_sys_mprotect t of None \<Rightarrow> h1 | Some f \<Rightarrow> snd (hook_restore_system_call NR_mprotect f h1))
      in map_option (\<lambda>s. t\<lparr>tm_state := s\<lparr>tk_cache := file_hash_cache_exit (tk_cache s)\<rparr>, tm_hooks := h2, tm_exit_notifier := False\<rparr>)
           (remove_all_task_info (tm_state t)))"

section \<open>The policies seen from here\<close>

text \<open>
  Deleting a policy and cleaning the list, on addresses (\<open>parse_del_policy_dmeasure_process\<close> and \<open>clean_process_policy\<close> of
  policy\_dmeasure.c): a policy in use is switched off and stays in memory, an unused one is freed by the deletion.
\<close>

definition policy_view :: "task_state \<Rightarrow> process_policy list" where
  "policy_view s = (case pol_head s of None \<Rightarrow> [] | Some as \<Rightarrow> map (\<lambda>a. the (pol_heap s a)) as)"

fun unlink_policy :: "task_state \<Rightarrow> byte list \<Rightarrow> nat list \<Rightarrow> (nat list \<times> nat option) option" where
  "unlink_policy s ident [] = Some ([], None)"
| "unlink_policy s ident (a # as) =
     (case pol_heap s a of None \<Rightarrow> None
      | Some p \<Rightarrow> if object_id p = ident then Some (as, Some a)
                 else map_option (\<lambda>(r, q). (a # r, q)) (unlink_policy s ident as))"

definition switch_off :: "process_policy \<Rightarrow> process_policy" where
  "switch_off p = p\<lparr>process_switch := 0\<rparr>"

definition delete_policy :: "byte list \<Rightarrow> task_state \<Rightarrow> task_state option" where
  "delete_policy ident s =
     (case pol_head s of None \<Rightarrow> None
      | Some as \<Rightarrow>
          (case unlink_policy s ident as of None \<Rightarrow> None
           | Some (r, None) \<Rightarrow> Some s
           | Some (r, Some a) \<Rightarrow>
               (case pol_heap s a of None \<Rightarrow> None
                | Some p \<Rightarrow> Some (s\<lparr>pol_head := Some r,
                     pol_heap := (pol_heap s)(a := if obj_count p \<noteq> 0 then Some (switch_off p) else None)\<rparr>))))"

definition clean_policies :: "task_state \<Rightarrow> task_state" where
  "clean_policies s = (case pol_head s of None \<Rightarrow> s
     | Some as \<Rightarrow> s\<lparr>pol_head := Some [], pol_heap := (\<lambda>a. if a \<in> set as then map_option switch_off (pol_heap s a) else pol_heap s a)\<rparr>)"

text \<open>A new policy at the next address, linked between \<open>pre\<close> and \<open>post\<close>.\<close>

definition link_policy :: "process_policy \<Rightarrow> nat list \<Rightarrow> nat list \<Rightarrow> task_state \<Rightarrow> task_state" where
  "link_policy x pre post s = s\<lparr>pol_head := Some (pre @ tk_next s # post), pol_heap := (pol_heap s)(tk_next s \<mapsto> x), tk_next := tk_next s + 1\<rparr>"

end
