(* ===== verification/Task_Safety.thy ===== *)
theory Task_Safety
  imports Task_Measure
begin

text \<open>
  The measurement of processes keeps its data in order: an invariant of the table, the entries and the policies that every operation of
  Task_Measure keeps, also when the delayed works, the hooks and the changes of the policies are interleaved; loading and unloading; and
  the faults of the code.
\<close>

section \<open>The invariant\<close>

definition users :: "(nat \<rightharpoonup> dtask_info) \<Rightarrow> nat \<Rightarrow> nat" where
  "users h q = card {a. \<exists>d. h a = Some d \<and> dt_policy d = q}"

text \<open>
  The table lists exactly the entries, each in its bucket; the count of a policy is at least the number of entries
  that use it; exactly the linked policies are switched on; the work of each entry is pending unless it is running (\<open>W\<close>).
\<close>

definition table_ok :: "task_state \<Rightarrow> bool" where
  "table_ok s \<longleftrightarrow> finite (dom (dt_heap s)) \<and> task_info_count s = int (card (dom (dt_heap s))) \<and>
     (\<forall>i. distinct (task_hashtable s i) \<and>
        set (task_hashtable s i) = {a. \<exists>d. dt_heap s a = Some d \<and> task_hash_func (dt_task d) = i})"

definition head_ok :: "nat list option \<Rightarrow> (nat \<rightharpoonup> process_policy) \<Rightarrow> bool" where
  "head_ok head h = (case head of None \<Rightarrow> (\<forall>q p. h q = Some p \<longrightarrow> process_switch p = 0)
      | Some as \<Rightarrow> distinct as \<and> set as = {q. \<exists>p. h q = Some p \<and> process_switch p \<noteq> 0})"

definition policies_ok :: "task_state \<Rightarrow> bool" where
  "policies_ok s \<longleftrightarrow> (\<forall>q. users (dt_heap s) q \<le> (case pol_heap s q of None \<Rightarrow> 0 | Some p \<Rightarrow> obj_count p))
     \<and> head_ok (pol_head s) (pol_heap s)"

lemma head_ok_cong:
  assumes "\<And>q. (\<exists>p. h' q = Some p \<and> process_switch p \<noteq> 0) = (\<exists>p. h q = Some p \<and> process_switch p \<noteq> 0)"
  shows "head_ok head h' = head_ok head h"
proof -
  have "{q. \<exists>p. h' q = Some p \<and> process_switch p \<noteq> 0} = {q. \<exists>p. h q = Some p \<and> process_switch p \<noteq> 0}" using assms by simp
  moreover have "(\<forall>q p. h' q = Some p \<longrightarrow> process_switch p = 0) = (\<forall>q p. h q = Some p \<longrightarrow> process_switch p = 0)"
    using assms by blast
  ultimately show ?thesis by (simp add: head_ok_def split: option.split)
qed

definition entries_ok :: "nat set \<Rightarrow> task_state \<Rightarrow> bool" where
  "entries_ok W s \<longleftrightarrow> (\<forall>a d. dt_heap s a = Some d \<longrightarrow> a < tk_next s \<and> dt_map_count d = int (length (dt_maps d)) \<and> (dt_work d = None \<longrightarrow> a \<in> W))
     \<and> (\<forall>q p. pol_heap s q = Some p \<longrightarrow> q < tk_next s)"

definition task_wf :: "nat set \<Rightarrow> task_state \<Rightarrow> bool" where
  "task_wf W s \<longleftrightarrow> table_ok s \<and> policies_ok s \<and> entries_ok W s"

lemma users_change:
  assumes "finite (dom h)"
  shows "h a = Some d \<Longrightarrow> dt_policy d' = dt_policy d \<Longrightarrow> users (h(a \<mapsto> d')) q = users h q"
    and "h a = None \<Longrightarrow> users (h(a \<mapsto> d)) q = users h q + (if q = dt_policy d then 1 else 0)"
    and "h a = Some d \<Longrightarrow> users (h(a := None)) q = users h q - (if q = dt_policy d then 1 else 0)"
proof -
  let ?U = "\<lambda>h. {a. \<exists>d. h a = Some d \<and> dt_policy d = q}"
  have fin: "finite (?U h)" by (rule finite_subset [OF _ assms]) auto
  show "users (h(a \<mapsto> d')) q = users h q" if "h a = Some d" "dt_policy d' = dt_policy d"
  proof -
    have "?U (h(a \<mapsto> d')) = ?U h" using that by auto
    then show ?thesis by (simp only: users_def)
  qed
  show "users (h(a \<mapsto> d)) q = users h q + (if q = dt_policy d then 1 else 0)" if "h a = None"
  proof -
    have eq: "?U (h(a \<mapsto> d)) = (if q = dt_policy d then insert a (?U h) else ?U h)" and a: "a \<notin> ?U h" using that by auto
    show ?thesis unfolding users_def eq using card_insert_disjoint [OF fin a] by (cases "q = dt_policy d") simp_all
  qed
  show "users (h(a := None)) q = users h q - (if q = dt_policy d then 1 else 0)" if "h a = Some d"
  proof -
    have "?U (h(a := None)) = (if q = dt_policy d then ?U h - {a} else ?U h)" "q = dt_policy d \<Longrightarrow> a \<in> ?U h" using that by auto
    then show ?thesis using fin by (auto simp only: users_def card_Diff_singleton split: if_splits)
  qed
qed

lemma users_pos:
  assumes "finite (dom h)" "h a = Some d"
  shows "0 < users h (dt_policy d)"
proof -
  have "finite {b. \<exists>e. h b = Some e \<and> dt_policy e = dt_policy d}" by (rule finite_subset [OF _ assms(1)]) auto
  then show ?thesis using assms(2) by (auto simp: users_def card_gt_0_iff)
qed

text \<open>In an ordered state every entry has its policy, with a count that is not zero.\<close>

lemma policy_live:
  assumes "task_wf W s" "dt_heap s a = Some d"
  obtains p where "pol_heap s (dt_policy d) = Some p" "0 < obj_count p" "users (dt_heap s) (dt_policy d) \<le> obj_count p"
proof -
  have "0 < users (dt_heap s) (dt_policy d)" using assms by (intro users_pos) (auto simp: task_wf_def table_ok_def)
  moreover have "users (dt_heap s) (dt_policy d) \<le> (case pol_heap s (dt_policy d) of None \<Rightarrow> 0 | Some p \<Rightarrow> obj_count p)"
    using assms(1) by (auto simp: task_wf_def policies_ok_def)
  ultimately show thesis using that by (auto split: option.splits)
qed

lemma wf_update_entry:
  assumes "task_wf W s" "dt_heap s a = Some d" "dt_policy d' = dt_policy d" "dt_task d' = dt_task d"
    and "dt_map_count d' = int (length (dt_maps d'))" "dt_work d' = None \<longrightarrow> a \<in> W'" "W - {a} \<subseteq> W'"
  shows "task_wf W' (s\<lparr>dt_heap := (dt_heap s)(a \<mapsto> d')\<rparr>)"
proof -
  have fin: "finite (dom (dt_heap s))" and dom: "dom ((dt_heap s)(a \<mapsto> d')) = dom (dt_heap s)"
    using assms(1,2) by (auto simp: task_wf_def table_ok_def)
  have "{b. \<exists>e. ((dt_heap s)(a \<mapsto> d')) b = Some e \<and> task_hash_func (dt_task e) = i} = {b. \<exists>e. dt_heap s b = Some e \<and> task_hash_func (dt_task e) = i}" for i
    using assms(2,4) by auto
  then have "table_ok (s\<lparr>dt_heap := (dt_heap s)(a \<mapsto> d')\<rparr>)"
    using assms(1) dom by (simp add: task_wf_def table_ok_def)
  moreover have "policies_ok (s\<lparr>dt_heap := (dt_heap s)(a \<mapsto> d')\<rparr>)"
    using assms(1) users_change(1) [where h = "dt_heap s", OF fin assms(2,3)] by (simp add: task_wf_def policies_ok_def)
  moreover have "entries_ok W' (s\<lparr>dt_heap := (dt_heap s)(a \<mapsto> d')\<rparr>)"
    using assms by (auto simp: task_wf_def entries_ok_def)
  ultimately show ?thesis by (simp add: task_wf_def)
qed

lemma remove_entry_ok:
  assumes "task_wf W s" "dt_heap s a = Some d"
  obtains s' where "remove_task_info a s = Some s'" "task_wf (W - {a}) s'" "dt_heap s' = (dt_heap s)(a := None)"
    "task_hashtable s' = (task_hashtable s)(task_hash_func (dt_task d) := remove1 a (task_hashtable s (task_hash_func (dt_task d))))"
    "pol_head s' = pol_head s"
proof -
  obtain p where p: "pol_heap s (dt_policy d) = Some p" "0 < obj_count p" "users (dt_heap s) (dt_policy d) \<le> obj_count p"
    by (rule policy_live [OF assms])
  let ?k = "task_hash_func (dt_task d)" and ?p = "p\<lparr>obj_count := obj_count p - 1\<rparr>"
  let ?pols = "(pol_heap s)(dt_policy d := if process_switch p = 0 \<and> obj_count ?p = 0 then None else Some ?p)"
  let ?s = "s\<lparr>task_hashtable := (task_hashtable s)(?k := remove1 a (task_hashtable s ?k)), pol_heap := ?pols,
     task_info_count := task_info_count s - 1, dt_heap := (dt_heap s)(a := None)\<rparr>"
  have fin: "finite (dom (dt_heap s))" and t: "table_ok s" using assms(1) by (auto simp: task_wf_def table_ok_def)
  have cd: "card (dom (dt_heap s)) = card (dom (dt_heap s) - {a}) + 1"
    unfolding Suc_eq_plus1 [symmetric] by (rule card.remove [OF fin]) (use assms(2) in auto)
  have "table_ok ?s"
    using t cd assms(2) by (auto simp: table_ok_def set_remove1_eq)
  moreover have "policies_ok ?s"
  proof -
    have po: "policies_ok s" using assms(1) by (simp add: task_wf_def)
    then have u: "users (dt_heap s) q \<le> (case pol_heap s q of None \<Rightarrow> 0 | Some p \<Rightarrow> obj_count p)" for q by (simp add: policies_ok_def)
    have "users ((dt_heap s)(a := None)) q \<le> (case ?pols q of None \<Rightarrow> 0 | Some p \<Rightarrow> obj_count p)" for q
      using users_change(3) [where h = "dt_heap s", OF fin assms(2), of q] u [of q] p by auto
    moreover have "head_ok (pol_head s) ?pols = head_ok (pol_head s) (pol_heap s)"
      by (rule head_ok_cong) (use p(1) in auto)
    ultimately show ?thesis
      using po by (simp add: policies_ok_def)
  qed
  moreover have "entries_ok (W - {a}) ?s"
    using assms(1) p(1) by (auto simp: task_wf_def entries_ok_def)
  ultimately have "task_wf (W - {a}) ?s" by (simp add: task_wf_def)
  moreover have "remove_task_info a s = Some ?s" using assms(2) p(1,2) by (simp add: remove_task_info_def Let_def)
  ultimately show thesis using that [of ?s] by simp
qed

lemma wf_weaken: "task_wf W s \<Longrightarrow> W \<subseteq> W' \<Longrightarrow> task_wf W' s"
  by (auto simp: task_wf_def entries_ok_def)

text \<open>A new entry: with it the count of its policy grows. The entry may be dropped again, then the count is too large.\<close>

definition count_up :: "nat \<Rightarrow> process_policy \<Rightarrow> task_state \<Rightarrow> task_state" where
  "count_up q p s = s\<lparr>tk_next := tk_next s + 1, pol_heap := (pol_heap s)(q \<mapsto> p\<lparr>obj_count := obj_count p + 1\<rparr>)\<rparr>"

lemma count_up_wf:
  assumes "task_wf W s" "pol_heap s q = Some p"
  shows "task_wf W (count_up q p s)"
proof -
  let ?h = "(pol_heap s)(q \<mapsto> p\<lparr>obj_count := obj_count p + 1\<rparr>)"
  have po: "policies_ok s" using assms(1) by (simp add: task_wf_def)
  then have "users (dt_heap s) r \<le> (case pol_heap s r of None \<Rightarrow> 0 | Some p \<Rightarrow> obj_count p)" for r by (simp add: policies_ok_def)
  then have "users (dt_heap s) r \<le> (case ?h r of None \<Rightarrow> 0 | Some p \<Rightarrow> obj_count p)" for r
    using assms(2) by (cases "r = q") (auto intro: le_SucI dest: meta_spec [of _ q])
  moreover have "head_ok (pol_head s) ?h = head_ok (pol_head s) (pol_heap s)"
    by (rule head_ok_cong) (use assms(2) in auto)
  ultimately have "policies_ok (count_up q p s)" using po by (simp add: policies_ok_def count_up_def)
  moreover have "table_ok (count_up q p s)" using assms(1) by (simp add: task_wf_def table_ok_def count_up_def)
  moreover have "entries_ok W (count_up q p s)"
    using assms by (fastforce simp: task_wf_def entries_ok_def count_up_def)
  ultimately show ?thesis by (simp add: task_wf_def)
qed

lemma new_entry_wf:
  assumes "task_wf W s" "pol_heap s q = Some p" "dt_policy d = q" "dt_task d = task"
    and "dt_map_count d = int (length (dt_maps d))" "dt_work d \<noteq> None"
  shows "task_wf W (add_to_table task (tk_next s) ((count_up q p s)\<lparr>dt_heap := (dt_heap s)(tk_next s \<mapsto> d)\<rparr>))"
proof -
  let ?h = "(pol_heap s)(q \<mapsto> p\<lparr>obj_count := obj_count p + 1\<rparr>)" and ?a = "tk_next s"
  let ?s = "add_to_table task ?a ((count_up q p s)\<lparr>dt_heap := (dt_heap s)(?a \<mapsto> d)\<rparr>)"
  have wf: "table_ok s" "policies_ok s" "entries_ok W s" and fin: "finite (dom (dt_heap s))"
    using assms(1) by (auto simp: task_wf_def table_ok_def)
  have new: "dt_heap s ?a = None" "pol_heap s ?a = None" using wf(3) by (fastforce simp: entries_ok_def)+
  have u: "users (dt_heap s) r \<le> (case pol_heap s r of None \<Rightarrow> 0 | Some p \<Rightarrow> obj_count p)" for r
    using wf(2) by (simp add: policies_ok_def)
  have "users ((dt_heap s)(?a \<mapsto> d)) r \<le> (case ?h r of None \<Rightarrow> 0 | Some p \<Rightarrow> obj_count p)" for r
    using users_change(2) [where h = "dt_heap s", OF fin new(1), of d r] u [of r] assms(2,3) by auto
  moreover have "head_ok (pol_head s) ?h = head_ok (pol_head s) (pol_heap s)"
    by (rule head_ok_cong) (use assms(2) in auto)
  ultimately have "policies_ok ?s" using wf(2) by (simp add: policies_ok_def count_up_def add_to_table_def)
  moreover have "table_ok ?s"
  proof -
    have t: "distinct (task_hashtable s i)" "set (task_hashtable s i) = {a. \<exists>d. dt_heap s a = Some d \<and> task_hash_func (dt_task d) = i}" for i
      using wf(1) by (simp_all add: table_ok_def)
    have "distinct (task_hashtable ?s i) \<and> set (task_hashtable ?s i) = {a. \<exists>d. dt_heap ?s a = Some d \<and> task_hash_func (dt_task d) = i}" for i
      using t [of i] new(1) assms(4) by (auto simp: count_up_def add_to_table_def)
    moreover have "card (dom (dt_heap ?s)) = card (dom (dt_heap s)) + 1" using fin new(1) by (simp add: count_up_def add_to_table_def domIff)
    ultimately show ?thesis using wf(1) by (simp add: table_ok_def) (simp add: count_up_def add_to_table_def)
  qed
  moreover have "entries_ok W ?s"
    using wf(3) assms by (fastforce simp: entries_ok_def count_up_def add_to_table_def)
  ultimately show ?thesis by (simp add: task_wf_def)
qed

lemma init_dtask_info_eq:
  assumes "te_kz_info env task" "pol_heap s q = Some p"
  shows "init_dtask_info env task path q s = Some (Some (tk_next s), (count_up q p s)\<lparr>dt_heap := (dt_heap s)
    (tk_next s \<mapsto> \<lparr>dt_maps = [], dt_map_count = 0, dt_pid = ts_pid (te_task env task), dt_task = task,
                   dt_work = Some (work_period p), dt_policy = q, dt_path = cstr path\<rparr>)\<rparr>)"
  using assms by (simp add: init_dtask_info_def count_up_def Let_def)

section \<open>The operations keep the invariant\<close>

text \<open>What recording mappings leaves of an entry.\<close>

definition same_entry :: "dtask_info \<Rightarrow> dtask_info \<Rightarrow> bool" where
  "same_entry d d' \<longleftrightarrow> dt_pid d' = dt_pid d \<and> dt_task d' = dt_task d \<and> dt_work d' = dt_work d \<and> dt_policy d' = dt_policy d
     \<and> dt_path d' = dt_path d \<and> dt_map_count d' - int (length (dt_maps d')) = dt_map_count d - int (length (dt_maps d))"

lemma same_entry_refl [simp]: "same_entry d d" by (simp add: same_entry_def)

lemma same_entry_trans: "same_entry d e \<Longrightarrow> same_entry e f \<Longrightarrow> same_entry d f" by (simp add: same_entry_def)

lemma record_vma_same: "record_vma env mm v f t d = Some (Inr d') \<Longrightarrow> same_entry d d'"
  by (auto simp: record_vma_def same_entry_def add_reference_def split: if_splits option.splits)

lemma collect_same: "collect_exsited_mmap env mm vs d = Some (r, d') \<Longrightarrow> same_entry d d'"
proof (induction vs arbitrary: d)
  case (Cons v vs)
  then show ?case
    by (auto split: option.splits sum.splits if_splits dest: record_vma_same intro: same_entry_trans)
qed simp

lemma exist_vmas_same: "exist_vmas env mm vs d = Some (Inr d') \<Longrightarrow> same_entry d d'"
proof (induction vs arbitrary: d)
  case (Cons v vs)
  then show ?case
    by (auto split: option.splits sum.splits if_splits dest: record_vma_same intro: same_entry_trans)
qed simp

text \<open>Entries are looked up without a fault, and the one found belongs to the task and has its policy switched on.\<close>

lemma find_info_ok:
  assumes "task_wf W s" "\<forall>a\<in>set as. dt_heap s a \<noteq> None"
  shows "\<exists>r. find_info s task pid as = Some r \<and> (case r of
      None \<Rightarrow> \<forall>a\<in>set as. \<forall>d p. dt_heap s a = Some d \<longrightarrow> pol_heap s (dt_policy d) = Some p \<longrightarrow> dt_task d = task \<longrightarrow> dt_pid d = pid \<longrightarrow> process_switch p = 0
    | Some a \<Rightarrow> a \<in> set as \<and> (\<exists>d p. dt_heap s a = Some d \<and> dt_task d = task \<and> dt_pid d = pid
        \<and> pol_heap s (dt_policy d) = Some p \<and> process_switch p \<noteq> 0))"
  using assms(2)
proof (induction as)
  case (Cons a as)
  then obtain d where d: "dt_heap s a = Some d" by auto
  obtain p where p: "pol_heap s (dt_policy d) = Some p" by (rule policy_live [OF assms(1) d])
  obtain r where r: "find_info s task pid as = Some r" using Cons by auto
  show ?case using Cons.IH Cons.prems d p r by (auto split: option.splits)
qed simp

lemma check_dtask_info_ok:
  assumes "task_wf W s"
  shows "\<exists>r. check_dtask_info env task s = Some r \<and> (case r of
      None \<Rightarrow> \<forall>a d p. dt_heap s a = Some d \<longrightarrow> pol_heap s (dt_policy d) = Some p \<longrightarrow> dt_task d = task
        \<longrightarrow> dt_pid d = ts_pid (te_task env task) \<longrightarrow> process_switch p = 0
    | Some a \<Rightarrow> \<exists>d p. dt_heap s a = Some d \<and> dt_task d = task \<and> dt_pid d = ts_pid (te_task env task)
        \<and> pol_heap s (dt_policy d) = Some p \<and> process_switch p \<noteq> 0)"
proof -
  have set: "set (task_hashtable s (task_hash_func task)) = {a. \<exists>d. dt_heap s a = Some d \<and> task_hash_func (dt_task d) = task_hash_func task}"
    using assms by (simp add: task_wf_def table_ok_def)
  then have "\<forall>a\<in>set (task_hashtable s (task_hash_func task)). dt_heap s a \<noteq> None" by auto
  from find_info_ok [OF assms this, of task "ts_pid (te_task env task)"]
  obtain r where r: "find_info s task (ts_pid (te_task env task)) (task_hashtable s (task_hash_func task)) = Some r"
    and c: "case r of None \<Rightarrow> \<forall>a\<in>set (task_hashtable s (task_hash_func task)). \<forall>d p. dt_heap s a = Some d \<longrightarrow> pol_heap s (dt_policy d) = Some p
        \<longrightarrow> dt_task d = task \<longrightarrow> dt_pid d = ts_pid (te_task env task) \<longrightarrow> process_switch p = 0
      | Some a \<Rightarrow> a \<in> set (task_hashtable s (task_hash_func task)) \<and> (\<exists>d p. dt_heap s a = Some d \<and> dt_task d = task
        \<and> dt_pid d = ts_pid (te_task env task) \<and> pol_heap s (dt_policy d) = Some p \<and> process_switch p \<noteq> 0)" by blast
  show ?thesis
    unfolding check_dtask_info_def r using c by (cases r) (auto simp: set)
qed

lemma task_wf_other [simp]:
  "task_wf W (s\<lparr>tk_cache := c\<rparr>) = task_wf W s" "task_wf W (s\<lparr>tk_ids := i\<rparr>) = task_wf W s" "task_wf W (s\<lparr>tk_audit := u\<rparr>) = task_wf W s"
  "task_wf W (s\<lparr>tk_counts := n\<rparr>) = task_wf W s" "task_wf W (s\<lparr>tk_mm_refs := r\<rparr>) = task_wf W s" "task_wf W (forget_ids env t s) = task_wf W s"
  by (simp_all add: task_wf_def table_ok_def policies_ok_def entries_ok_def forget_ids_def)

lemma cached_file_hash_state:
  assumes "cached_file_hash env f path s = (ret, h, s')"
  shows "\<exists>c. s' = s\<lparr>tk_cache := c\<rparr>"
proof -
  have "\<exists>c. s = s\<lparr>tk_cache := c\<rparr>" by (rule exI [of _ "tk_cache s"]) simp
  then show ?thesis using assms by (auto simp: cached_file_hash_def Let_def split: prod.splits if_splits)
qed

lemma send_audit_state:
  assumes "task_send_audit_log env name r h pid s = Some s'"
  shows "\<exists>u. s' = s\<lparr>tk_audit := u\<rparr>"
proof -
  have "\<exists>u. s = s\<lparr>tk_audit := u\<rparr>" by (rule exI [of _ "tk_audit s"]) simp
  then show ?thesis using assms by (auto simp: task_send_audit_log_def Let_def split: if_splits)
qed

lemma init_dtask_info_cases:
  assumes "init_dtask_info env task path q s = Some (x, s')"
  obtains (full) "x = None" "s' = s"
  | (made) p d where "pol_heap s q = Some p" "x = Some (tk_next s)" "s' = (count_up q p s)\<lparr>dt_heap := (dt_heap s)(tk_next s \<mapsto> d)\<rparr>"
      "dt_policy d = q" "dt_task d = task" "dt_map_count d = int (length (dt_maps d))" "dt_work d \<noteq> None" "dt_maps d = []"
proof (cases "te_kz_info env task")
  case True
  then obtain p where p: "pol_heap s q = Some p" using assms by (auto simp: init_dtask_info_def split: option.splits)
  let ?d = "\<lparr>dt_maps = [], dt_map_count = 0, dt_pid = ts_pid (te_task env task), dt_task = task,
     dt_work = Some (work_period p), dt_policy = q, dt_path = cstr path\<rparr>"
  show thesis
    by (rule made [OF p, of ?d]) (use init_dtask_info_eq [OF True p, of path] assms in simp_all)
next
  case False
  then have "x = None" "s' = s" using assms by (simp_all add: init_dtask_info_def)
  then show thesis by (rule full)
qed

lemma init_add_wf:
  assumes "task_wf W s" "init_dtask_info env task path q s = Some (x, s')"
  shows "task_wf W (case x of None \<Rightarrow> s' | Some a \<Rightarrow> add_to_table task a s')"
  using assms(2)
proof (cases rule: init_dtask_info_cases)
  case (made p d)
  then show ?thesis using new_entry_wf [OF assms(1) made(1,4,5,6,7)] by simp
qed (use assms(1) in simp)

lemma add_tmp_mem_map_wf:
  assumes "task_wf W s" "add_tmp_mem_map env task path s = Some (r, s')"
  shows "task_wf W s'"
proof (cases "check_dtask_info env task s")
  case None
  with assms show ?thesis by (simp add: add_tmp_mem_map_def)
next
  case (Some x)
  note ck = Some
  show ?thesis
  proof (cases "x \<noteq> None \<or> ts_mm (te_task env task) = None \<or> tm_exe (the (ts_mm (te_task env task))) = None")
    case True
    then show ?thesis
      using assms ck by (cases x; cases "ts_mm (te_task env task)"; cases "tm_exe (the (ts_mm (te_task env task)))")
        (auto simp: add_tmp_mem_map_def)
  next
    case False
    then obtain mm f where m: "x = None" "ts_mm (te_task env task) = Some mm" "tm_exe mm = Some f" by auto
    obtain ret h s1 where c: "cached_file_hash env f path s = (ret, h, s1)" by (cases "cached_file_hash env f path s")
    have wf: "task_wf W s1" using cached_file_hash_state [OF c] assms(1) by auto
    show ?thesis
    proof (cases "ret = 0")
      case False
      then show ?thesis using assms(2) ck m c wf by (simp add: add_tmp_mem_map_def)
    next
      case True
      obtain parent where p: "check_dtask_info env (ts_real_parent (te_task env task)) s1 = Some parent"
        using assms(2) ck m c True by (cases "check_dtask_info env (ts_real_parent (te_task env task)) s1") (simp_all add: add_tmp_mem_map_def)
      obtain pol where q: "query_policy path (ts_comm (te_task env task)) h s1 = Some pol"
        using assms(2) ck m c True p by (cases "query_policy path (ts_comm (te_task env task)) h s1") (simp_all add: add_tmp_mem_map_def)
      obtain y where y: "choose_policy path parent pol s1 = Some y"
        using assms(2) ck m c True p q by (cases "choose_policy path parent pol s1") (simp_all add: add_tmp_mem_map_def)
      show ?thesis
      proof (cases y)
        case None
        then show ?thesis using assms(2) ck m c True p q y wf by (simp add: add_tmp_mem_map_def)
      next
        case (Some k)
        obtain z s2 where z: "init_dtask_info env task path k s1 = Some (z, s2)"
          using assms(2) ck m c True p q y Some by (cases "init_dtask_info env task path k s1") (auto simp: add_tmp_mem_map_def)
        have "s' = (case z of None \<Rightarrow> s2 | Some a \<Rightarrow> add_to_table task a s2)"
          using assms(2) ck m c True p q y Some z by (cases z) (simp_all add: add_tmp_mem_map_def)
        with init_add_wf [OF wf z] show ?thesis by simp
      qed
    qed
  qed
qed

lemma new_sys_mmap_wf:
  "task_wf W s \<Longrightarrow> new_sys_mmap env ret fd leader path s = Some (r, s') \<Longrightarrow> task_wf W s'"
  by (auto simp: new_sys_mmap_def split: if_splits option.splits dest: add_tmp_mem_map_wf)

lemma convert_wf:
  assumes "task_wf W s" "convert_tmp_mem_map env task s = Some s'"
  shows "task_wf W s'"
proof -
  obtain x where x: "check_dtask_info env task s = Some x"
    using assms(2) by (cases "check_dtask_info env task s") (simp_all add: convert_tmp_mem_map_def)
  show ?thesis
  proof (cases x)
    case None
    then show ?thesis using assms x by (simp add: convert_tmp_mem_map_def)
  next
    case (Some a)
    obtain d where d: "dt_heap s a = Some d" using assms(2) x Some by (cases "dt_heap s a") (simp_all add: convert_tmp_mem_map_def)
    obtain mm where mm: "ts_mm (te_task env (dt_task d)) = Some mm"
      using assms(2) x Some d by (cases "ts_mm (te_task env (dt_task d))") (simp_all add: convert_tmp_mem_map_def)
    obtain r d' where d': "collect_exsited_mmap env mm (tm_mmap mm) d = Some (r, d')"
      using assms(2) x Some d mm by (cases "collect_exsited_mmap env mm (tm_mmap mm) d") (auto simp: convert_tmp_mem_map_def)
    have s': "s' = s\<lparr>dt_heap := (dt_heap s)(a \<mapsto> d')\<rparr>" using assms(2) x Some d mm d' by (simp add: convert_tmp_mem_map_def)
    have "same_entry d d'" by (rule collect_same [OF d'])
    then show ?thesis
      unfolding s' using assms(1) d by (intro wf_update_entry [OF assms(1) d]) (auto simp: same_entry_def task_wf_def entries_ok_def)
  qed
qed

lemma new_sys_mprotect_wf:
  "task_wf W s \<Longrightarrow> new_sys_mprotect env ret leader s = Some (r, s') \<Longrightarrow> task_wf W s'"
  by (auto simp: new_sys_mprotect_def split: if_splits option.splits dest: convert_wf)

lemma remove_wf:
  assumes "task_wf W s" "remove_task_info a s = Some s'"
  shows "task_wf (W - {a}) s'"
proof -
  obtain d where d: "dt_heap s a = Some d" using assms(2) by (auto simp: remove_task_info_def split: option.splits)
  show ?thesis by (rule remove_entry_ok [OF assms(1) d]) (use assms(2) in simp)
qed

lemma dtask_exit_handler_wf:
  assumes "task_wf W s" "dtask_exit_handler env data s = Some (r, s')"
  shows "task_wf W s'"
proof -
  have "task_wf W t" if "remove_task_info_of_task env tsk s = Some t" for tsk t
  proof -
    have "t = s \<or> (\<exists>a. remove_task_info a s = Some t)" using that by (auto simp: remove_task_info_of_task_def split: option.splits)
    then show ?thesis using assms(1) wf_weaken [OF remove_wf [OF assms(1)] Diff_subset] by blast
  qed
  then show ?thesis using assms by (cases data) (auto simp: dtask_exit_handler_def split: if_splits)
qed

lemma add_exist_wf:
  assumes "task_wf W s" "add_exist_task_info env task mm path q s = Some (r, s')"
  shows "task_wf W s'"
proof (cases "tm_mmap mm = []")
  case True
  then show ?thesis using assms by (simp add: add_exist_task_info_def)
next
  case False
  then obtain x s1 where i: "init_dtask_info env task path q s = Some (x, s1)"
    using assms(2) by (auto simp: add_exist_task_info_def split: option.splits)
  from i show ?thesis
  proof (cases rule: init_dtask_info_cases)
    case full
    then show ?thesis using assms False i by (simp add: add_exist_task_info_def)
  next
    case (made p d)
    let ?a = "tk_next s" and ?h = "dt_heap s"
    have new: "?h ?a = None" using assms(1) by (fastforce simp: task_wf_def entries_ok_def)
    have s1: "dt_heap s1 = ?h(?a \<mapsto> d)" using made(3) by (simp add: count_up_def)
    have "s1\<lparr>dt_heap := (dt_heap s1)(?a := None)\<rparr> = count_up q p s" using made(3) new by (simp add: count_up_def fun_upd_idem)
    moreover have "s1\<lparr>dt_heap := (dt_heap s1)(?a \<mapsto> d')\<rparr> = (count_up q p s)\<lparr>dt_heap := ?h(?a \<mapsto> d')\<rparr>" for d'
      using made(3) by (simp add: count_up_def)
    ultimately have "s' = count_up q p s \<or> (\<exists>d'. exist_vmas env mm (tm_mmap mm) d = Some (Inr d')
        \<and> s' = add_to_table task ?a ((count_up q p s)\<lparr>dt_heap := ?h(?a \<mapsto> d')\<rparr>))"
      using assms(2) False i made(2) s1 by (auto simp: add_exist_task_info_def split: option.splits sum.splits)
    then show ?thesis
    proof
      assume "\<exists>d'. exist_vmas env mm (tm_mmap mm) d = Some (Inr d') \<and> s' = add_to_table task ?a ((count_up q p s)\<lparr>dt_heap := ?h(?a \<mapsto> d')\<rparr>)"
      then obtain d' where d': "exist_vmas env mm (tm_mmap mm) d = Some (Inr d')"
        "s' = add_to_table task ?a ((count_up q p s)\<lparr>dt_heap := ?h(?a \<mapsto> d')\<rparr>)" by blast
      have "same_entry d d'" by (rule exist_vmas_same [OF d'(1)])
      then show ?thesis
        unfolding d'(2) using made by (intro new_entry_wf [OF assms(1)]) (auto simp: same_entry_def)
    qed (use count_up_wf [OF assms(1) made(1)] in simp)
  qed
qed

lemma collect_children_wf:
  "task_wf W s \<Longrightarrow> collect_children env q ts s = Some s' \<Longrightarrow> task_wf W s'"
proof (induction ts arbitrary: s)
  case (Cons t ts)
  then show ?case by (auto split: option.splits dest: add_exist_wf)
qed simp

lemma collect_process_wf:
  assumes "task_wf W s" "collect_process env t s = Some s'"
  shows "task_wf W s'"
proof (cases "ts_mm (te_task env t) = None \<or> tm_exe (the (ts_mm (te_task env t))) = None")
  case True
  then show ?thesis using assms by (cases "ts_mm (te_task env t)") (simp_all add: collect_process_def)
next
  case False
  then obtain mm f where m: "ts_mm (te_task env t) = Some mm" "tm_exe mm = Some f" by auto
  obtain x where x: "check_dtask_info env t s = Some x" using assms(2) m by (cases "check_dtask_info env t s") (simp_all add: collect_process_def)
  show ?thesis
  proof (cases "x \<noteq> None \<or> te_d_path env f = None")
    case True
    then show ?thesis using assms m x by (cases x) (auto simp: collect_process_def)
  next
    case False
    then obtain p where p: "x = None" "te_d_path env f = Some p" by auto
    obtain ret h s1 where c: "cached_file_hash env f p s = (ret, h, s1)" by (cases "cached_file_hash env f p s")
    have wf: "task_wf W s1" using cached_file_hash_state [OF c] assms(1) by auto
    have res: "(if ret \<noteq> 0 then Some s1
        else case query_policy p (ts_comm (te_task env t)) h s1 of None \<Rightarrow> None | Some None \<Rightarrow> Some s1
        | Some (Some q) \<Rightarrow> (case add_exist_task_info env t mm p q s1 of None \<Rightarrow> None
            | Some (r, s2) \<Rightarrow> (case pol_heap s2 q of None \<Rightarrow> None
                | Some pp \<Rightarrow> if sub_process_mode pp = PROCESS_DMEASURE_MODE_MEASURE then collect_child_task_info env t q s2 else Some s2))) = Some s'"
      using assms(2) m x p c by (simp add: collect_process_def)
    have child: "task_wf W s2" "collect_child_task_info env t q s2 = Some s' \<Longrightarrow> task_wf W s'"
      if "add_exist_task_info env t mm p q s1 = Some (r, s2)" for q r s2
      using add_exist_wf [OF wf that] by (auto simp: collect_child_task_info_def split: if_splits dest: collect_children_wf)
    show ?thesis using res wf child by (auto split: if_splits option.splits)
  qed
qed

lemma collect_existed_wf:
  assumes "task_wf W s" "collect_existed_task_info env s = Some s'"
  shows "task_wf W s'"
proof -
  have "task_wf W s \<Longrightarrow> collect_processes env ts s = Some s' \<Longrightarrow> task_wf W s'" for ts s s'
    by (induction ts arbitrary: s) (auto split: option.splits dest: collect_process_wf)
  then show ?thesis using assms by (auto simp: collect_existed_task_info_def split: if_splits)
qed

lemma check_first_wf:
  assumes "task_wf W s" "check_first env en a s = Some (c, s')"
  shows "task_wf (if c = Entry_removed then W else insert a W) s'" "c = Entry_removed \<Longrightarrow> dt_heap s' a = None"
proof -
  obtain d where d: "dt_heap s a = Some d" using assms(2) by (cases "dt_heap s a") (simp_all add: check_first_def)
  let ?d = "d\<lparr>dt_work := None\<rparr>" and ?s = "s\<lparr>dt_heap := (dt_heap s)(a \<mapsto> d\<lparr>dt_work := None\<rparr>)\<rparr>"
  have wf: "task_wf (insert a W) ?s"
    using assms(1) d by (intro wf_update_entry [OF assms(1) d]) (auto simp: task_wf_def entries_ok_def)
  obtain p where p: "pol_heap s (dt_policy d) = Some p" by (rule policy_live [OF assms(1) d])
  have "task_wf (if c = Entry_removed then W else insert a W) s' \<and> (c = Entry_removed \<longrightarrow> dt_heap s' a = None)"
  proof (cases "en \<and> (process_switch p = 0 \<or> te_pid_task env (dt_pid d) \<noteq> Some (dt_task d))")
    case True
    have "dt_heap ?s a = Some ?d" by simp
    then obtain s2 where s2: "remove_task_info a ?s = Some s2" "task_wf (insert a W - {a}) s2" "dt_heap s2 = (dt_heap ?s)(a := None)"
      by (rule remove_entry_ok [OF wf])
    have "c = Entry_removed \<and> s' = s2"
      using True assms(2) d p s2(1) by (simp add: check_first_def Let_def)
    moreover have "task_wf W s2" by (rule wf_weaken [OF s2(2)]) auto
    ultimately show ?thesis using s2(3) by simp
  next
    case False
    have "c \<noteq> Entry_removed \<and> (s' = ?s \<or> (\<exists>u. s' = (?s\<lparr>tk_counts := ProcessCodeFailureCount_add (tk_counts ?s)\<rparr>)\<lparr>tk_audit := u\<rparr>))"
      using False assms(2) d p
      by (auto simp: check_first_def Let_def split: if_splits option.splits dest!: send_audit_state)
    then show ?thesis using wf by auto
  qed
  then show "task_wf (if c = Entry_removed then W else insert a W) s'" "c = Entry_removed \<Longrightarrow> dt_heap s' a = None" by simp_all
qed

lemma check_second_wf:
  assumes "task_wf W s" "check_second env a c s = Some s'" "c \<noteq> Entry_removed"
  shows "task_wf (W - {a}) s'"
proof -
  obtain d where d: "dt_heap s a = Some d" using assms(2,3) by (cases "dt_heap s a") (simp_all add: check_second_def)
  obtain s1 where s1: "(if c = Check_done 0 then task_send_audit_log env (dt_path d) RESULT_SUCCESS (replicate LEN_HASH 0) (dt_pid d) s else Some s) = Some s1"
    using assms(2,3) d by (cases "if c = Check_done 0 then task_send_audit_log env (dt_path d) RESULT_SUCCESS (replicate LEN_HASH 0) (dt_pid d) s else Some s")
      (simp_all add: check_second_def)
  have "s1 = s \<or> (\<exists>u. s1 = s\<lparr>tk_audit := u\<rparr>)" using s1 by (auto split: if_splits dest: send_audit_state)
  then have wf: "task_wf W s1" and h: "dt_heap s1 = dt_heap s" using assms(1) by auto
  obtain p where p: "pol_heap s1 (dt_policy d) = Some p"
    using assms(2,3) d s1 by (cases "pol_heap s1 (dt_policy d)") (simp_all add: check_second_def)
  have s': "s' = s1\<lparr>dt_heap := (dt_heap s1)(a \<mapsto> d\<lparr>dt_work := Some (work_period p)\<rparr>)\<rparr>"
    using assms(2,3) d s1 p by (simp add: check_second_def)
  have "dt_heap s1 a = Some d" using d h by simp
  then show ?thesis
    unfolding s' using wf by (intro wf_update_entry [OF wf]) (auto simp: task_wf_def entries_ok_def)
qed

lemma unlink_split:
  assumes "unlink_policy s ident as = Some (r, Some a)"
  shows "\<exists>pre post. as = pre @ a # post \<and> r = pre @ post"
  using assms
proof (induction as arbitrary: r)
  case (Cons b as)
  show ?case
  proof (cases "\<exists>p. pol_heap s b = Some p \<and> object_id p = ident")
    case True
    then have "as = r" "b = a" using Cons.prems by auto
    then show ?thesis by (intro exI [of _ "[]"] exI [of _ as]) simp
  next
    case False
    then obtain r' where r': "unlink_policy s ident as = Some (r', Some a)" "r = b # r'" using Cons.prems by (auto split: option.splits if_splits)
    from Cons.IH [OF r'(1)] obtain pre post where "as = pre @ a # post" "r' = pre @ post" by blast
    then show ?thesis using r'(2) by (intro exI [of _ "b # pre"] exI [of _ post]) simp
  qed
qed simp

lemma delete_policy_cases:
  assumes "delete_policy ident s = Some s'"
  obtains (kept) "s' = s"
  | (deleted) as r a p where "pol_head s = Some as" "unlink_policy s ident as = Some (r, Some a)" "pol_heap s a = Some p"
      "s' = s\<lparr>pol_head := Some r, pol_heap := (pol_heap s)(a := if obj_count p \<noteq> 0 then Some (switch_off p) else None)\<rparr>"
proof -
  obtain as where as: "pol_head s = Some as" using assms by (cases "pol_head s") (simp_all add: delete_policy_def)
  obtain r x where u: "unlink_policy s ident as = Some (r, x)" using assms as by (cases "unlink_policy s ident as") (auto simp: delete_policy_def)
  show thesis
  proof (cases x)
    case None
    then have "s' = s" using assms as u by (simp add: delete_policy_def)
    then show thesis by (rule kept)
  next
    case (Some a)
    then obtain p where p: "pol_heap s a = Some p" using assms as u by (cases "pol_heap s a") (simp_all add: delete_policy_def)
    have "s' = s\<lparr>pol_head := Some r, pol_heap := (pol_heap s)(a := if obj_count p \<noteq> 0 then Some (switch_off p) else None)\<rparr>"
      using assms as u Some p by (simp add: delete_policy_def)
    with as u p Some show thesis by (intro deleted) simp_all
  qed
qed

lemma delete_policy_wf:
  assumes "task_wf W s" "delete_policy ident s = Some s'"
  shows "task_wf W s'"
proof -
  have po: "policies_ok s" using assms(1) by (simp add: task_wf_def)
  from assms(2) show ?thesis
  proof (cases rule: delete_policy_cases)
    case 2: (deleted as r a p)
    let ?h = "(pol_heap s)(a := if obj_count p \<noteq> 0 then Some (switch_off p) else None)"
    obtain pre post where as: "as = pre @ a # post" "r = pre @ post" using unlink_split [OF 2(2)] by blast
    have hd: "distinct as" "set as = {q. \<exists>p. pol_heap s q = Some p \<and> process_switch p \<noteq> 0}" using po 2(1) by (auto simp: policies_ok_def head_ok_def)
    have "set r = set as - {a}" "distinct r" using as hd(1) by auto
    then have "head_ok (Some r) ?h" using hd(2) by (auto simp: head_ok_def switch_off_def)
    moreover have "users (dt_heap s) q \<le> (case ?h q of None \<Rightarrow> 0 | Some p \<Rightarrow> obj_count p)" for q
    proof -
      have "users (dt_heap s) q \<le> (case pol_heap s q of None \<Rightarrow> 0 | Some p \<Rightarrow> obj_count p)" using po by (simp add: policies_ok_def)
      then show ?thesis using 2(3) by (cases "q = a") (simp_all add: switch_off_def)
    qed
    ultimately show ?thesis
      using assms(1) 2(3) unfolding 2(4) by (auto simp: task_wf_def table_ok_def policies_ok_def entries_ok_def)
  qed (use assms(1) in simp)
qed

lemma clean_policies_wf:
  assumes "task_wf W s"
  shows "task_wf W (clean_policies s)"
proof (cases "pol_head s")
  case (Some as)
  let ?h = "\<lambda>a. if a \<in> set as then map_option switch_off (pol_heap s a) else pol_heap s a"
  have po: "policies_ok s" using assms by (simp add: task_wf_def)
  then have "set as = {q. \<exists>p. pol_heap s q = Some p \<and> process_switch p \<noteq> 0}" using Some by (simp add: policies_ok_def head_ok_def)
  then have "head_ok (Some []) ?h" by (auto simp: head_ok_def switch_off_def split: if_splits)
  moreover have "users (dt_heap s) q \<le> (case ?h q of None \<Rightarrow> 0 | Some p \<Rightarrow> obj_count p)" for q
  proof -
    have "(case ?h q of None \<Rightarrow> 0 | Some p \<Rightarrow> obj_count p) = (case pol_heap s q of None \<Rightarrow> 0 | Some p \<Rightarrow> obj_count p)"
      by (simp add: switch_off_def split: option.split)
    then show ?thesis using po by (simp add: policies_ok_def)
  qed
  ultimately have "policies_ok (clean_policies s)" using Some by (simp add: policies_ok_def clean_policies_def)
  moreover have "q < tk_next s" if "?h q = Some p" for q p
    using that assms by (auto simp: task_wf_def entries_ok_def split: if_splits)
  ultimately show ?thesis
    using assms Some by (auto simp: task_wf_def table_ok_def entries_ok_def clean_policies_def)
qed (use assms in \<open>simp add: clean_policies_def\<close>)

lemma link_policy_wf:
  assumes "task_wf W s" "pol_head s = Some (pre @ post)" "process_switch x \<noteq> 0"
  shows "task_wf W (link_policy x pre post s)"
proof -
  have po: "policies_ok s" and en: "entries_ok W s" and fin: "finite (dom (dt_heap s))" using assms(1) by (auto simp: task_wf_def table_ok_def)
  have new: "pol_heap s (tk_next s) = None" using en by (fastforce simp: entries_ok_def)
  have hd: "distinct (pre @ post)" "set (pre @ post) = {q. \<exists>p. pol_heap s q = Some p \<and> process_switch p \<noteq> 0}"
    using po assms(2) by (auto simp: policies_ok_def head_ok_def)
  have "tk_next s \<notin> set (pre @ post)" using hd(2) new by auto
  then have "head_ok (Some (pre @ tk_next s # post)) ((pol_heap s)(tk_next s \<mapsto> x))"
    using hd assms(3) new by (auto simp: head_ok_def)
  moreover have "users (dt_heap s) q \<le> (case ((pol_heap s)(tk_next s \<mapsto> x)) q of None \<Rightarrow> 0 | Some p \<Rightarrow> obj_count p)" for q
  proof (cases "q = tk_next s")
    case True
    have "users (dt_heap s) q \<le> (case pol_heap s q of None \<Rightarrow> 0 | Some p \<Rightarrow> obj_count p)" using po by (simp add: policies_ok_def)
    then show ?thesis using True new by simp
  qed (use po in \<open>simp add: policies_ok_def\<close>)
  ultimately have "policies_ok (link_policy x pre post s)" by (simp add: policies_ok_def link_policy_def)
  moreover have "table_ok (link_policy x pre post s)" using assms(1) by (simp add: task_wf_def table_ok_def link_policy_def)
  moreover have "entries_ok W (link_policy x pre post s)" using en by (fastforce simp: entries_ok_def link_policy_def)
  ultimately show ?thesis by (simp add: task_wf_def)
qed

section \<open>The operations do not fault\<close>

lemma check_dtask_info_live:
  assumes "task_wf W s"
  shows "\<exists>x. check_dtask_info env task s = Some x \<and> (\<forall>a. x = Some a \<longrightarrow> dt_heap s a \<noteq> None)"
  using check_dtask_info_ok [OF assms, of env task]
proof (elim exE conjE)
  fix r
  assume "check_dtask_info env task s = Some r"
    and "case r of None \<Rightarrow> \<forall>a d p. dt_heap s a = Some d \<longrightarrow> pol_heap s (dt_policy d) = Some p \<longrightarrow> dt_task d = task
        \<longrightarrow> dt_pid d = ts_pid (te_task env task) \<longrightarrow> process_switch p = 0
      | Some a \<Rightarrow> \<exists>d p. dt_heap s a = Some d \<and> dt_task d = task \<and> dt_pid d = ts_pid (te_task env task)
        \<and> pol_heap s (dt_policy d) = Some p \<and> process_switch p \<noteq> 0"
  then show ?thesis by (cases r) auto
qed

lemma find_policy_ok:
  assumes "\<forall>a\<in>set as. pol_heap s a \<noteq> None"
  shows "\<exists>r. find_policy s P as = Some r \<and> map_option (\<lambda>a. the (pol_heap s a)) r = find P (map (\<lambda>a. the (pol_heap s a)) as)
    \<and> (\<forall>a. r = Some a \<longrightarrow> a \<in> set as)"
  using assms by (induction as) auto

lemma head_live:
  assumes "task_wf W s" "pol_head s = Some as" "a \<in> set as"
  obtains p where "pol_heap s a = Some p" "process_switch p \<noteq> 0"
  using assms by (auto simp: task_wf_def policies_ok_def head_ok_def)

text \<open>The search gives the policy that \<open>query_policy_dmeasure_process\<close> of Dmeasure_Policy finds in the list.\<close>

lemma query_policy_ok:
  assumes "task_wf W s" "pol_head s \<noteq> None"
  shows "\<exists>r. query_policy path comm hash s = Some r \<and> map_option (\<lambda>a. the (pol_heap s a)) r = find (policy_matches path comm hash) (policy_view s)
    \<and> (\<forall>a. r = Some a \<longrightarrow> (\<exists>p. pol_heap s a = Some p \<and> process_switch p \<noteq> 0))"
proof -
  obtain as where as: "pol_head s = Some as" using assms(2) by auto
  have live: "\<forall>a\<in>set as. pol_heap s a \<noteq> None" by (metis head_live [OF assms(1) as] option.distinct(1))
  from find_policy_ok [OF live] obtain r where "find_policy s (policy_matches path comm hash) as = Some r"
    "map_option (\<lambda>a. the (pol_heap s a)) r = find (policy_matches path comm hash) (map (\<lambda>a. the (pol_heap s a)) as)" "\<forall>a. r = Some a \<longrightarrow> a \<in> set as"
    by blast
  moreover have "\<exists>p. pol_heap s a = Some p \<and> process_switch p \<noteq> 0" if "a \<in> set as" for a by (metis head_live [OF assms(1) as that])
  ultimately show ?thesis using as by (simp add: query_policy_def policy_view_def)
qed

lemma choose_policy_ok:
  assumes "task_wf W s" "\<forall>b. parent = Some b \<longrightarrow> dt_heap s b \<noteq> None" "\<forall>q. pol = Some q \<longrightarrow> pol_heap s q \<noteq> None"
  shows "\<exists>r. choose_policy path parent pol s = Some r \<and> (\<forall>q. r = Some q \<longrightarrow> pol_heap s q \<noteq> None)"
proof (cases parent)
  case None
  then show ?thesis using assms(3) by (cases pol) (simp_all add: choose_policy_def)
next
  case (Some b)
  then obtain d where d: "dt_heap s b = Some d" using assms(2) by auto
  obtain p where p: "pol_heap s (dt_policy d) = Some p" by (rule policy_live [OF assms(1) d])
  show ?thesis using Some d p assms(3) by (cases pol) (simp_all add: choose_policy_def)
qed

lemma add_tmp_mem_map_total:
  assumes "task_wf W s" "pol_head s \<noteq> None"
  shows "\<exists>r s'. add_tmp_mem_map env task path s = Some (r, s')"
proof -
  obtain x where x: "check_dtask_info env task s = Some x" using check_dtask_info_ok [OF assms(1)] by blast
  show ?thesis
  proof (cases "x \<noteq> None \<or> ts_mm (te_task env task) = None \<or> tm_exe (the (ts_mm (te_task env task))) = None")
    case True
    then show ?thesis using x by (cases x; cases "ts_mm (te_task env task)") (auto simp: add_tmp_mem_map_def)
  next
    case False
    then obtain mm f where m: "x = None" "ts_mm (te_task env task) = Some mm" "tm_exe mm = Some f" by auto
    obtain ret h s1 where c: "cached_file_hash env f path s = (ret, h, s1)" by (cases "cached_file_hash env f path s")
    have wf: "task_wf W s1" and hd: "pol_head s1 \<noteq> None" using cached_file_hash_state [OF c] assms by auto
    obtain parent where p: "check_dtask_info env (ts_real_parent (te_task env task)) s1 = Some parent"
      "\<forall>b. parent = Some b \<longrightarrow> dt_heap s1 b \<noteq> None"
      using check_dtask_info_live [OF wf] by blast
    obtain pol where q: "query_policy path (ts_comm (te_task env task)) h s1 = Some pol" "\<forall>q. pol = Some q \<longrightarrow> pol_heap s1 q \<noteq> None"
      using query_policy_ok [OF wf hd] by (metis option.distinct(1))
    obtain y where y: "choose_policy path parent pol s1 = Some y" "\<forall>q. y = Some q \<longrightarrow> pol_heap s1 q \<noteq> None"
      using choose_policy_ok [OF wf p(2) q(2)] by blast
    show ?thesis
    proof (cases y)
      case None
      then show ?thesis using x m c p(1) q(1) y(1) by (simp add: add_tmp_mem_map_def)
    next
      case (Some k)
      have "\<exists>z s2. init_dtask_info env task path k s1 = Some (z, s2)"
        using y(2) Some by (cases "te_kz_info env task") (auto simp: init_dtask_info_def Let_def)
      then obtain z s2 where z: "init_dtask_info env task path k s1 = Some (z, s2)" by blast
      show ?thesis using x m c p(1) q(1) y(1) Some z by (cases z) (simp_all add: add_tmp_mem_map_def)
    qed
  qed
qed

lemma new_sys_mmap_total:
  assumes "task_wf W s" "pol_head s \<noteq> None"
  shows "\<exists>s'. new_sys_mmap env ret fd leader path s = Some (ret, s')"
proof -
  obtain as where as: "pol_head s = Some as" using assms(2) by auto
  show ?thesis
  proof (cases path)
    case (Some p)
    obtain r s' where "add_tmp_mem_map env leader p s = Some (r, s')" using add_tmp_mem_map_total [OF assms] by blast
    then show ?thesis using as Some by (simp add: new_sys_mmap_def)
  qed (use as in \<open>simp add: new_sys_mmap_def\<close>)
qed

lemma dtask_exit_handler_total:
  assumes "task_wf W s"
  shows "\<exists>s'. dtask_exit_handler env data s = Some (0, s')"
proof -
  have "\<exists>s'. remove_task_info_of_task env tsk s = Some s'" for tsk
  proof -
    obtain x where x: "check_dtask_info env tsk s = Some x" "\<forall>a. x = Some a \<longrightarrow> dt_heap s a \<noteq> None"
      using check_dtask_info_live [OF assms] by blast
    show ?thesis
    proof (cases x)
      case (Some a)
      with x(2) obtain d where d: "dt_heap s a = Some d" by auto
      obtain s' where "remove_task_info a s = Some s'" by (rule remove_entry_ok [OF assms d])
      then show ?thesis using x(1) Some by (simp add: remove_task_info_of_task_def)
    qed (use x(1) in \<open>simp add: remove_task_info_of_task_def\<close>)
  qed
  then show ?thesis by (cases data) (auto simp: dtask_exit_handler_def)
qed

lemma remove_infos_ok:
  assumes "task_wf W s" "distinct as" "\<forall>a\<in>set as. dt_heap s a \<noteq> None"
  obtains s' where "remove_infos as s = Some s'" "task_wf W s'" "dt_heap s' = (dt_heap s) |` (- set as)"
  using assms
proof (induction as arbitrary: s thesis)
  case Nil
  then show ?case by simp
next
  case (Cons a as)
  then obtain d where d: "dt_heap s a = Some d" by auto
  obtain s1 where s1: "remove_task_info a s = Some s1" "task_wf (W - {a}) s1" "dt_heap s1 = (dt_heap s)(a := None)"
    by (rule remove_entry_ok [OF Cons.prems(2) d])
  have wf: "task_wf W s1" by (rule wf_weaken [OF s1(2) Diff_subset])
  have live: "\<forall>b\<in>set as. dt_heap s1 b \<noteq> None" using Cons.prems(3,4) s1(3) by auto
  have di: "distinct as" using Cons.prems(3) by simp
  obtain s2 where s2: "remove_infos as s1 = Some s2" "task_wf W s2" "dt_heap s2 = (dt_heap s1) |` (- set as)"
    by (rule Cons.IH [OF _ wf di live])
  have "dt_heap s2 = (dt_heap s) |` (- set (a # as))" unfolding s2(3) s1(3) by (auto simp: fun_eq_iff restrict_map_def)
  then show ?case using Cons.prems(1) [of s2] s1(1) s2 by simp
qed

lemma remove_buckets_ok:
  assumes "task_wf W s"
  obtains s' where "remove_buckets is s = Some s'" "task_wf W s'" "dt_heap s' = (\<lambda>a. case dt_heap s a of None \<Rightarrow> None
    | Some d \<Rightarrow> if task_hash_func (dt_task d) \<in> set is then None else Some d)"
  using assms
proof (induction "is" arbitrary: s thesis)
  case Nil
  then show ?case by (simp add: fun_eq_iff split: option.split)
next
  case (Cons i "is")
  let ?as = "task_hashtable s i"
  have t: "distinct ?as" "set ?as = {a. \<exists>d. dt_heap s a = Some d \<and> task_hash_func (dt_task d) = i}"
    using Cons.prems(2) by (simp_all add: task_wf_def table_ok_def)
  then have "\<forall>a\<in>set ?as. dt_heap s a \<noteq> None" by auto
  then obtain s1 where s1: "remove_infos ?as s = Some s1" "task_wf W s1" "dt_heap s1 = (dt_heap s) |` (- set ?as)"
    by (rule remove_infos_ok [OF Cons.prems(2) t(1)])
  obtain s2 where s2: "remove_buckets is s1 = Some s2" "task_wf W s2" "dt_heap s2 = (\<lambda>a. case dt_heap s1 a of None \<Rightarrow> None
      | Some d \<Rightarrow> if task_hash_func (dt_task d) \<in> set is then None else Some d)"
    by (rule Cons.IH [OF _ s1(2)])
  have "dt_heap s2 = (\<lambda>a. case dt_heap s a of None \<Rightarrow> None | Some d \<Rightarrow> if task_hash_func (dt_task d) \<in> set (i # is) then None else Some d)"
    unfolding s2(3) s1(3) using t(2) by (auto simp: fun_eq_iff restrict_map_def split: option.splits)
  then show ?case using Cons.prems(1) [of s2] s1(1) s2 by simp
qed

lemma remove_all_ok:
  assumes "task_wf W s"
  obtains s' where "remove_all_task_info s = Some s'" "task_wf W s'" "dt_heap s' = Map.empty" "task_info_count s' = 0" "\<And>i. task_hashtable s' i = []"
proof -
  have less: "task_hash_func t \<in> set [0..<MEASURE_HASH_LENGTH]" for t by (simp add: task_hash_func_def MEASURE_HASH_LENGTH_def)
  obtain s' where s': "remove_buckets [0..<MEASURE_HASH_LENGTH] s = Some s'" "task_wf W s'" "dt_heap s' = (\<lambda>a. case dt_heap s a of None \<Rightarrow> None
      | Some d \<Rightarrow> if task_hash_func (dt_task d) \<in> set [0..<MEASURE_HASH_LENGTH] then None else Some d)"
    by (rule remove_buckets_ok [OF assms])
  have e: "dt_heap s' = Map.empty" unfolding s'(3) using less by (simp add: fun_eq_iff split: option.split)
  have "table_ok s'" using s'(2) by (simp add: task_wf_def)
  then have "task_info_count s' = 0" "task_hashtable s' i = []" for i using e by (auto simp: table_ok_def)
  then show thesis using that [of s'] s'(1,2) e by (simp add: remove_all_task_info_def)
qed

section \<open>Interleaving\<close>

text \<open>
  The hooks, the end of tasks, the changes of the policies and the two sections of the delayed works, in any order. \<open>R\<close>: the
  works between their sections. A work is not run twice at the same time.
\<close>

type_synonym task_world = "(nat \<rightharpoonup> check_result) \<times> task_state"

inductive task_step :: "task_world \<Rightarrow> task_world \<Rightarrow> bool" where
  Step_mmap: "new_sys_mmap env ret fd leader path s = Some (r, s') \<Longrightarrow> task_step (R, s) (R, s')"
| Step_mprotect: "new_sys_mprotect env ret leader s = Some (r, s') \<Longrightarrow> task_step (R, s) (R, s')"
| Step_exit: "dtask_exit_handler env data s = Some (r, s') \<Longrightarrow> task_step (R, s) (R, s')"
| Step_collect: "collect_existed_task_info env s = Some s' \<Longrightarrow> task_step (R, s) (R, s')"
| Step_first: "dt_heap s a = Some d \<Longrightarrow> dt_work d \<noteq> None \<Longrightarrow> R a = None \<Longrightarrow> check_first env en a s = Some (c, s') \<Longrightarrow>
    task_step (R, s) (if c = Entry_removed then R else R(a \<mapsto> c), s')"
| Step_second: "R a = Some c \<Longrightarrow> c \<noteq> Entry_removed \<Longrightarrow> check_second env a c s = Some s' \<Longrightarrow> task_step (R, s) (R(a := None), s')"
| Step_link: "pol_head s = Some (pre @ post) \<Longrightarrow> process_switch x \<noteq> 0 \<Longrightarrow> obj_count x = 0 \<Longrightarrow>
    add_process_policy x (policy_view s) = map (\<lambda>a. the (pol_heap s a)) pre @ x # map (\<lambda>a. the (pol_heap s a)) post \<Longrightarrow>
    task_step (R, s) (R, link_policy x pre post s)"
| Step_delete: "delete_policy ident s = Some s' \<Longrightarrow> task_step (R, s) (R, s')"
| Step_clean: "task_step (R, s) (R, clean_policies s)"

lemma task_step_wf:
  assumes "task_step (R, s) (R', s')" "task_wf (dom R) s"
  shows "task_wf (dom R') s'"
  using assms
proof (cases rule: task_step.cases)
  case (Step_first a d env en c)
  then show ?thesis using check_first_wf(1) [OF assms(2) Step_first(5)] by (simp split: if_splits)
next
  case (Step_second a c env)
  then show ?thesis using check_second_wf [OF assms(2) Step_second(4,3)] by simp
qed (use assms(2) in \<open>auto intro: new_sys_mmap_wf new_sys_mprotect_wf dtask_exit_handler_wf collect_existed_wf delete_policy_wf clean_policies_wf link_policy_wf\<close>)

definition task_start :: "file_hash_cache \<Rightarrow> ids_state \<Rightarrow> credential_counts \<Rightarrow> nat \<Rightarrow> task_state" where
  "task_start w ids counts next =
     \<lparr>task_hashtable = (\<lambda>_. []), task_info_count = 0, dt_heap = Map.empty, pol_heap = Map.empty, pol_head = Some [],
      tk_next = next, tk_cache = w, tk_ids = ids, tk_audit = [], tk_counts = counts, tk_mm_refs = (\<lambda>_. 0)\<rparr>"

lemma task_start_wf: "task_wf {} (task_start w ids counts next)"
  by (simp add: task_start_def task_wf_def table_ok_def policies_ok_def entries_ok_def head_ok_def users_def)


section \<open>Loading and unloading\<close>

lemma task_load_unload:
  assumes "task_init env alloc rnd reg t = Some (r, t1)" "task_wf {} (tm_state t)" "dt_heap (tm_state t) = Map.empty"
    and "\<not> tm_exit_notifier t" "\<forall>n. sh_flag (tm_hooks t) n \<in> {0, 1}"
  shows "(r \<noteq> 0 \<longrightarrow> tm_hooks t1 = tm_hooks t \<and> \<not> tm_exit_notifier t1 \<and> dt_heap (tm_state t1) = Map.empty)
    \<and> (r = 0 \<longrightarrow> sh_table (tm_hooks t1) NR_mmap = ''new_sys_mmap'' \<and> sh_table (tm_hooks t1) NR_mprotect = ''new_sys_mprotect''
        \<and> (\<forall>R s. task_step\<^sup>*\<^sup>* (Map.empty, tm_state t1) (R, s) \<longrightarrow> (\<exists>t2. task_exit (t1\<lparr>tm_state := s\<rparr>) = Some t2
            \<and> tm_hooks t2 = tm_hooks t \<and> \<not> tm_exit_notifier t2 \<and> dt_heap (tm_state t2) = Map.empty
            \<and> (\<forall>i<MAX_CACHE_NUMBER. fh_wc (tk_cache (tm_state t2)) i = None))))"
proof (cases "(tasklistlock t = INVALID_DATA_FULL_FF \<or> tasklistlock t = 0) \<or> fst (file_hash_cache_init alloc rnd (tk_cache (tm_state t))) < 0")
  case True
  then show ?thesis using assms(1,3,4) by (auto simp: task_init_def Let_def split: prod.splits if_splits)
next
  case False
  obtain r1 w where w: "file_hash_cache_init alloc rnd (tk_cache (tm_state t)) = (r1, w)" by fastforce
  let ?s1 = "(tm_state t)\<lparr>tk_cache := w\<rparr>" and ?h = "tm_hooks t"
  have go: "\<not> (tasklistlock t = INVALID_DATA_FULL_FF \<or> tasklistlock t = 0)" "\<not> r1 < 0" using False w by simp_all
  obtain s2 where s2: "collect_existed_task_info env ?s1 = Some s2"
    using assms(1) w go by (cases "collect_existed_task_info env ?s1") (simp_all add: task_init_def)
  have wf: "task_wf {} s2" using collect_existed_wf [OF _ s2] assms(2) by simp
  obtain s3 where s3: "remove_all_task_info s2 = Some s3" "dt_heap s3 = Map.empty" by (rule remove_all_ok [OF wf])
  have res: "(if reg \<noteq> 0 then map_option (\<lambda>s3. (- EINVAL, t\<lparr>tm_state := s3\<rparr>)) (remove_all_task_info s2)
      else let (r2, o1, h1) = hook_replace_system_call NR_mmap ''new_sys_mmap'' (origin_sys_mmap t) (tm_hooks t) in
      if r2 \<noteq> 0 then map_option (\<lambda>s3. (- EINVAL, t\<lparr>tm_state := s3, tm_exit_notifier := False\<rparr>)) (remove_all_task_info s2)
      else let (r3, o2, h2) = hook_replace_system_call NR_mprotect ''new_sys_mprotect'' (origin_sys_mprotect t) h1 in
      if r3 \<noteq> 0
      then map_option (\<lambda>s3. (- EINVAL, t\<lparr>tm_state := s3, tm_exit_notifier := False, origin_sys_mmap := o1,
                                tm_hooks := snd (hook_restore_system_call NR_mmap (the o1) h2)\<rparr>)) (remove_all_task_info s2)
      else Some (0, t\<lparr>tm_state := s2, tm_exit_notifier := True, origin_sys_mmap := o1, origin_sys_mprotect := o2, tm_hooks := h2\<rparr>)) = Some (r, t1)"
    using assms(1) w go s2 by (simp add: task_init_def)
  have ne: "NR_mmap \<noteq> NR_mprotect" "NR_mprotect \<noteq> NR_mmap" by (simp_all add: NR_mmap_def NR_mprotect_def)
  show ?thesis
  proof (cases "reg = 0 \<and> sh_flag ?h NR_mmap = 0 \<and> sh_flag ?h NR_mprotect = 0")
    case False
    have fl: "sh_flag ?h NR_mmap = 0 \<or> sh_flag ?h NR_mmap = 1" "sh_flag ?h NR_mprotect = 0 \<or> sh_flag ?h NR_mprotect = 1" using assms(5) by auto
    have "r = - EINVAL \<and> tm_hooks t1 = ?h \<and> \<not> tm_exit_notifier t1 \<and> tm_state t1 = s3"
    proof (cases "reg = 0")
      case reg: True
      show ?thesis
      proof (cases "sh_flag ?h NR_mmap = 1")
        case True
        then show ?thesis using res s3(1) assms(4) reg by (auto simp: hook_replace_system_call_def)
      next
        case mm: False
        then have "sh_flag ?h NR_mmap = 0" "sh_flag ?h NR_mprotect = 1" using fl False reg by auto
        then show ?thesis
          using res s3(1) assms(4) reg ne by (auto simp: hook_replace_system_call_def hook_restore_system_call_def fun_upd_idem)
      qed
    qed (use res s3(1) assms(4) in auto)
    then show ?thesis using s3(2) by simp
  next
    case True
    then have t1: "r = 0" "t1 = t\<lparr>tm_state := s2, tm_exit_notifier := True, origin_sys_mmap := Some (sh_table ?h NR_mmap),
        origin_sys_mprotect := Some (sh_table ?h NR_mprotect),
        tm_hooks := ?h\<lparr>sh_table := (sh_table ?h)(NR_mmap := ''new_sys_mmap'', NR_mprotect := ''new_sys_mprotect''),
                      sh_flag := (sh_flag ?h)(NR_mmap := 1, NR_mprotect := 1)\<rparr>\<rparr>"
      using res ne by (auto simp: hook_replace_system_call_def)
    have "\<exists>t2. task_exit (t1\<lparr>tm_state := s\<rparr>) = Some t2 \<and> tm_hooks t2 = ?h \<and> \<not> tm_exit_notifier t2 \<and> dt_heap (tm_state t2) = Map.empty
        \<and> (\<forall>i<MAX_CACHE_NUMBER. fh_wc (tk_cache (tm_state t2)) i = None)"
      if "task_step\<^sup>*\<^sup>* (Map.empty, tm_state t1) (R, s)" for R s
    proof -
      have "task_wf (dom R) s"
        using that
      proof (induction "(R, s)" arbitrary: R s rule: rtranclp_induct)
        case base
        then show ?case using wf t1(2) by simp
      next
        case (step y)
        then show ?case by (cases y) (auto intro: task_step_wf)
      qed
      then obtain s4 where s4: "remove_all_task_info s = Some s4" "dt_heap s4 = Map.empty" by (rule remove_all_ok)
      have tb: "((sh_table ?h)(NR_mmap := ''new_sys_mmap'', NR_mprotect := ''new_sys_mprotect''))(NR_mmap := sh_table ?h NR_mmap, NR_mprotect := sh_table ?h NR_mprotect) = sh_table ?h"
        "((sh_flag ?h)(NR_mmap := 1, NR_mprotect := 1))(NR_mmap := 0, NR_mprotect := 0) = sh_flag ?h"
        using True ne by (auto simp: fun_eq_iff)
      show ?thesis
        using s4 ne tb unfolding t1(2)
        by (simp add: task_exit_def hook_restore_system_call_def Let_def file_hash_cache_exit_def)
    qed
    then show ?thesis using t1 ne by simp
  qed
qed

text \<open>
  If loading fails, the system call table and the notifier are as before and no entry is left. If it succeeds, then after any sequence of
  steps unloading ends, puts the system calls back, removes every entry and frees the cache.
\<close>

theorem process_measurement_load_unload:
  assumes "task_init env alloc rnd reg t = Some (r, t1)" "task_wf {} (tm_state t)" "dt_heap (tm_state t) = Map.empty"
    and "\<not> tm_exit_notifier t" "\<forall>n. sh_flag (tm_hooks t) n \<in> {0, 1}"
  shows "(r \<noteq> 0 \<longrightarrow> tm_hooks t1 = tm_hooks t \<and> \<not> tm_exit_notifier t1 \<and> dt_heap (tm_state t1) = Map.empty)
    \<and> (r = 0 \<longrightarrow> sh_table (tm_hooks t1) NR_mmap = ''new_sys_mmap'' \<and> sh_table (tm_hooks t1) NR_mprotect = ''new_sys_mprotect''
        \<and> (\<forall>R s. task_step\<^sup>*\<^sup>* (Map.empty, tm_state t1) (R, s) \<longrightarrow> (\<exists>t2. task_exit (t1\<lparr>tm_state := s\<rparr>) = Some t2
            \<and> tm_hooks t2 = tm_hooks t \<and> \<not> tm_exit_notifier t2 \<and> dt_heap (tm_state t2) = Map.empty
            \<and> (\<forall>i<MAX_CACHE_NUMBER. fh_wc (tk_cache (tm_state t2)) i = None))))"
  by (rule task_load_unload [OF assms])

section \<open>What the code does not do\<close>

text \<open>A mapping whose pages cannot be read ends the measurement, and success is recorded.\<close>

lemma unreadable_mapping_passes:
  assumes "share_lib_mode p \<noteq> PROCESS_DMEASURE_MODE_NON_MEASURE" "task_cal_proc_mem_sm3 env task (mr_addr m) (mr_len m) hash = Some (r, h)" "r \<noteq> 0"
  shows "measure_maps env p task hash (m # ms) = Some (0, h)"
  using assms by simp

text \<open>
  A task that ends between the two sections of its work takes the entry with it: cancel\_delayed\_work does not wait, and the
  second section reads the freed entry.
\<close>

lemma exit_during_check_faults:
  assumes "task_wf W s" "check_first env en a s = Some (c, s1)" "c \<noteq> Entry_removed"
    and "check_dtask_info env' task s1 = Some (Some a)" "ts_leader (te_task env' task)"
  shows "\<exists>s2. dtask_exit_handler env' (Some task) s1 = Some (0, s2) \<and> check_second env a c s2 = None"
proof -
  have wf: "task_wf (insert a W) s1" using check_first_wf(1) [OF assms(1,2)] assms(3) by simp
  obtain d where d: "dt_heap s1 a = Some d" using check_dtask_info_ok [OF wf, of env' task] assms(4) by auto
  obtain s2 where s2: "remove_task_info a s1 = Some s2" "dt_heap s2 = (dt_heap s1)(a := None)" by (rule remove_entry_ok [OF wf d])
  have "dtask_exit_handler env' (Some task) s1 = Some (0, forget_ids env' task s2)"
    using assms(4,5) s2(1) by (simp add: dtask_exit_handler_def remove_task_info_of_task_def)
  moreover have "check_second env a c (forget_ids env' task s2) = None"
    using assms(3) s2(2) by (simp add: check_second_def forget_ids_def)
  ultimately show ?thesis by blast
qed

text \<open>Without memory for a reference the entry is dropped, but its policy still counts it and is never freed.\<close>

lemma dropped_entry_counted:
  assumes "te_kz_info env task" "pol_heap s q = Some p" "tm_mmap mm \<noteq> []" "dt_heap s (tk_next s) = None"
    and "\<And>d. dt_maps d = [] \<Longrightarrow> exist_vmas env mm (tm_mmap mm) d = Some (Inl e)"
  shows "\<exists>s'. add_exist_task_info env task mm path q s = Some (e, s') \<and> dt_heap s' = dt_heap s
    \<and> pol_heap s' q = Some (p\<lparr>obj_count := obj_count p + 1\<rparr>)"
  using assms init_dtask_info_eq [OF assms(1,2), of path] by (simp add: add_exist_task_info_def count_up_def fun_upd_idem)

text \<open>The hook does not hold the lock of the policies: a policy deleted after the search and before it is counted is freed.\<close>

lemma policy_deleted_before_use:
  assumes "pol_head s = Some as" "unlink_policy s ident as = Some (r, Some q)" "pol_heap s q = Some p" "obj_count p = 0" "te_kz_info env task"
  shows "\<exists>s'. delete_policy ident s = Some s' \<and> init_dtask_info env task path q s' = None"
  using assms by (simp add: delete_policy_def init_dtask_info_def)

text \<open>A process without a program file gives its memory map back twice.\<close>

lemma map_put_twice:
  assumes "check_dtask_info env task s = Some None" "ts_mm (te_task env task) = Some mm" "tm_exe mm = None"
  shows "\<exists>s'. add_tmp_mem_map env task path s = Some (- ENOMEM, s') \<and> tk_mm_refs s' task = tk_mm_refs s task - 1"
  using assms by (simp add: add_tmp_mem_map_def)

text \<open>On request only the first mapping is looked at where the policy leaves libraries out.\<close>

lemma request_first_only:
  assumes "share_lib_mode p = PROCESS_DMEASURE_MODE_NON_MEASURE"
  shows "request_maps env p task hash (m # ms) = request_maps env p task hash [m]"
  using assms by (simp split: option.split)

text \<open>A file that ends before its recorded size gives whatever the variable held: with zero there, a zero digest is taken for
  the digest of the program and stored in the cache.\<close>

lemma short_file_zero_digest:
  assumes "kzalloc (te_digest env)" "te_junk env = 0" "0 < i_size f" "kernel_read f 0 PAGE_SIZE = Inr []"
  shows "calc_hash_from_file env f (replicate LEN_HASH 0) = (0, replicate LEN_HASH 0)"
  using assms digest_loop_stop [of 0 f] by (simp add: calc_hash_from_file_def digest_cal_from_def)

text \<open>The list of addresses shows the list of Dmeasure_Policy: deletion is the same function on both.\<close>

lemma unlink_view:
  assumes "\<forall>a\<in>set as. pol_heap s a \<noteq> None"
  shows "\<exists>r q. unlink_policy s ident as = Some (r, q) \<and>
    del_process_policy ident (map (\<lambda>a. the (pol_heap s a)) as) =
      (map (\<lambda>a. the (pol_heap s a)) r, case q of None \<Rightarrow> [] | Some a \<Rightarrow> if obj_count (the (pol_heap s a)) \<noteq> 0 then [switch_off (the (pol_heap s a))] else [])"
  using assms
proof (induction as)
  case (Cons b as)
  then obtain p where p: "pol_heap s b = Some p" by auto
  show ?case
  proof (cases "object_id p = ident")
    case True
    with p show ?thesis by (simp add: switch_off_def)
  next
    case False
    obtain r q where "unlink_policy s ident as = Some (r, q)" "del_process_policy ident (map (\<lambda>a. the (pol_heap s a)) as) =
      (map (\<lambda>a. the (pol_heap s a)) r, case q of None \<Rightarrow> [] | Some a \<Rightarrow> if obj_count (the (pol_heap s a)) \<noteq> 0 then [switch_off (the (pol_heap s a))] else [])"
      using Cons by auto
    then show ?thesis using p False by simp
  qed
qed simp

lemma delete_policy_view:
  assumes "task_wf W s" "pol_head s \<noteq> None"
  shows "\<exists>s'. delete_policy ident s = Some s' \<and> policy_view s' = fst (del_process_policy ident (policy_view s))"
proof -
  obtain as where as: "pol_head s = Some as" using assms(2) by auto
  have live: "\<forall>a\<in>set as. pol_heap s a \<noteq> None" by (metis head_live [OF assms(1) as] option.distinct(1))
  have dist: "distinct as" using assms(1) as by (simp add: task_wf_def policies_ok_def head_ok_def)
  obtain r q where u: "unlink_policy s ident as = Some (r, q)"
    "fst (del_process_policy ident (map (\<lambda>a. the (pol_heap s a)) as)) = map (\<lambda>a. the (pol_heap s a)) r"
    using unlink_view [OF live, of ident] by auto
  show ?thesis
  proof (cases q)
    case None
    have "r = as" using u(1) None live
    proof (induction as arbitrary: r)
      case (Cons b as)
      then show ?case by (auto split: option.splits if_splits)
    qed simp
    then show ?thesis using as u None by (simp add: delete_policy_def policy_view_def)
  next
    case (Some a)
    obtain pre post where sp: "as = pre @ a # post" "r = pre @ post" using unlink_split u(1) Some by blast
    then have "a \<notin> set r" using dist by auto
    obtain p where p: "pol_heap s a = Some p" using live sp by auto
    have "map (\<lambda>b. the (((pol_heap s)(a := if obj_count p \<noteq> 0 then Some (switch_off p) else None)) b)) r = map (\<lambda>b. the (pol_heap s b)) r"
      using \<open>a \<notin> set r\<close> by auto
    then show ?thesis using as u Some p by (simp add: delete_policy_def policy_view_def)
  qed
qed

section \<open>An example\<close>

text \<open>One task with one executable mapping of four bytes, measured under one policy.\<close>

definition proc_policy :: process_policy where
  "proc_policy = \<lparr>obj_count = 0, process_switch = 1, object_id_type = 1, sub_process_mode = 1, old_process_mode = 1,
     share_lib_mode = 1, be_measure_interval = 500, object_id = [97]\<rparr>"

definition proc_vma :: task_vma where
  "proc_vma = \<lparr>tv_file = Some 7, tv_exec = True, tv_write = False, tv_start = 4096, tv_end = 4100\<rparr>"

definition proc_mm :: "byte list \<Rightarrow> task_mm" where
  "proc_mm b = \<lparr>tm_exe = Some 7, tm_mmap = [proc_vma], tm_pages = (\<lambda>from n. (int n, replicate n (Some (b @ replicate (4096 - length b) 0))))\<rparr>"

definition proc_env :: "byte list \<Rightarrow> task_env" where
  "proc_env b = \<lparr>te_current = 5,
     te_task = (\<lambda>_. \<lparr>ts_pid = 42, ts_comm = [97], ts_real_parent = 1, ts_children = [], ts_leader = True, ts_mm = Some (proc_mm b)\<rparr>),
     te_processes = [5], te_pid_task = (\<lambda>_. Some 5), te_file = (\<lambda>_. short_file 64 (replicate 16 0 @ [3, 0] @ replicate 46 0)),
     te_attr = (\<lambda>_. \<lparr>fa_mtime = [], fa_size = []\<rparr>), te_iname = (\<lambda>_. Some [97, 98, 99]), te_d_path = (\<lambda>_. Some [47, 97]),
     te_digest = \<lparr>stack_ctx = \<lparr>total_bytes_High = 0, total_bytes_Low = 0, vector = [], buffer = replicate 64 0\<rparr>, kzalloc = True\<rparr>,
     te_junk = 0, te_jhash = (\<lambda>_ _. 0), te_kz_info = (\<lambda>_. True), te_kz_map = (\<lambda>_. True), te_kz_pages = True, te_kz_path = True, te_kz_audit = True\<rparr>"

definition proc_entry :: dtask_info where
  "proc_entry = \<lparr>dt_maps = [], dt_map_count = 0, dt_pid = 42, dt_task = 5, dt_work = Some 500, dt_policy = 0, dt_path = [47, 97]\<rparr>"

definition proc_start :: task_state where
  "proc_start = task_start \<lparr>fh_wc = Map.empty, fh_random = 0\<rparr>
     \<lparr>g_list_policy_process_identity = [], g_list_policy_process_role = [], process_verify_lib_mode = 0,
      process_identity_hashtable = (\<lambda>_. []), ids_commands = (\<lambda>_. None), process_identity_callback = False\<rparr>
     \<lparr>ProcessExecCount = 0, DynamicLibLoadCount = 0, KernelModuleCount = 0, FileAccessCount = 0, SectionFailureCount = 0,
      CriticalDataFailureCount = 0, PorcessCodeFailureCount = 0\<rparr> 0"

definition proc_linked :: task_state where
  "proc_linked = link_policy proc_policy [] [] proc_start"

definition proc_state :: task_state where
  "proc_state = add_to_table 5 (tk_next proc_linked) ((count_up 0 proc_policy proc_linked)
     \<lparr>dt_heap := (dt_heap proc_linked)(tk_next proc_linked \<mapsto> proc_entry)\<rparr>)"

lemmas proc_defs = proc_state_def proc_linked_def proc_start_def link_policy_def task_start_def count_up_def add_to_table_def
  proc_entry_def proc_policy_def

lemma proc_state_wf: "task_wf {} proc_state"
proof -
  have "task_wf {} proc_linked"
    unfolding proc_linked_def by (rule link_policy_wf) (simp_all add: proc_start_def task_start_wf, simp_all add: task_start_def proc_policy_def)
  then show ?thesis
    unfolding proc_state_def by (rule new_entry_wf) (simp_all add: proc_defs)
qed


lemma process_measurement_load_unload_witness:
  "\<exists>t1 t2. task_init ((proc_env [1, 2, 3, 4])\<lparr>te_processes := []\<rparr>) (\<lambda>_. True) 7 0
      \<lparr>tm_state = proc_start, tm_hooks = \<lparr>sh_flag = (\<lambda>_. 0), sh_table = (\<lambda>_. ''sys'')\<rparr>, tm_exit_notifier = False,
       origin_sys_mmap = None, origin_sys_mprotect = None, tasklistlock = 8\<rparr> = Some (0, t1)
    \<and> task_exit t1 = Some t2 \<and> tm_hooks t2 = \<lparr>sh_flag = (\<lambda>_. 0), sh_table = (\<lambda>_. ''sys'')\<rparr>"
proof -
  let ?t = "\<lparr>tm_state = proc_start, tm_hooks = \<lparr>sh_flag = (\<lambda>_. 0), sh_table = (\<lambda>_. ''sys'')\<rparr>, tm_exit_notifier = False,
    origin_sys_mmap = None, origin_sys_mprotect = None, tasklistlock = 8\<rparr>"
  let ?env = "(proc_env [1, 2, 3, 4])\<lparr>te_processes := []\<rparr>"
  obtain w where w: "file_hash_cache_init (\<lambda>_. True) 7 (tk_cache proc_start) = (0, w)"
    using find_None_iff [of "\<lambda>i. False" "[0..<MAX_CACHE_NUMBER]"] by (simp add: file_hash_cache_init_def)
  have "\<exists>t1. task_init ?env (\<lambda>_. True) 7 0 ?t = Some (0, t1)"
    using w by (simp add: task_init_def collect_existed_task_info_def hook_replace_system_call_def INVALID_DATA_FULL_FF_def proc_env_def
        NR_mmap_def NR_mprotect_def Let_def)
  then obtain t1 where t1: "task_init ?env (\<lambda>_. True) 7 0 ?t = Some (0, t1)" by blast
  have "task_wf {} (tm_state ?t)" "dt_heap (tm_state ?t) = Map.empty" "\<not> tm_exit_notifier ?t" "\<forall>n. sh_flag (tm_hooks ?t) n \<in> {0, 1}"
    by (simp_all add: proc_start_def task_start_wf) (simp add: task_start_def)
  note p = process_measurement_load_unload [OF t1 this]
  have "t1\<lparr>tm_state := tm_state t1\<rparr> = t1" by simp
  then show ?thesis using p t1 rtranclp.rtrancl_refl [of task_step "(Map.empty, tm_state t1)"] by (metis task_module.select_convs(2))
qed

end
