(* ===== verification/Task_Detection.thy ===== *)
theory Task_Detection
  imports Task_Safety
begin

text \<open>
  What the periodic check of a process finds: the hashes that the mprotect hook records are those of the mappings, and the
  check compares them with the mappings at the time it runs.
\<close>

section \<open>What the check decides\<close>

text \<open>The pages of the mapping at \<open>from\<close> are there and hold the bytes \<open>b\<close>.\<close>

definition mm_holds :: "task_mm \<Rightarrow> nat \<Rightarrow> byte list \<Rightarrow> bool" where
  "mm_holds mm from b \<longleftrightarrow> length b < 2 ^ 31 \<and> (\<exists>pages. length pages = (from mod PAGE_SIZE + length b + PAGE_SIZE - 1) div PAGE_SIZE
     \<and> tm_pages mm from (length pages) = (int (length pages), map Some pages) \<and> (\<forall>p\<in>set pages. length p = PAGE_SIZE)
     \<and> b = take (length b) (drop (from mod PAGE_SIZE) (concat pages)))"

definition task_env_ok :: "task_env \<Rightarrow> bool" where
  "task_env_ok env \<longleftrightarrow> length (buffer (stack_ctx (te_digest env))) = 64 \<and> te_kz_pages env \<and> te_kz_audit env \<and> (\<forall>x. te_kz_map env x)"

lemma task_cal_mem_sm3_ok:
  assumes "task_env_ok env" "mm_holds mm from b" "length hash = LEN_HASH"
  shows "task_cal_mem_sm3 env mm from (length b) hash = Some (0, gb_sm3 b)"
proof -
  obtain pages where pg: "length pages = (from mod PAGE_SIZE + length b + PAGE_SIZE - 1) div PAGE_SIZE"
    "tm_pages mm from (length pages) = (int (length pages), map Some pages)" "\<forall>p\<in>set pages. length p = PAGE_SIZE"
    "b = take (length b) (drop (from mod PAGE_SIZE) (concat pages))"
    using assms(2) unfolding mm_holds_def by blast
  have e: "length (buffer (stack_ctx (te_digest env))) = 64" "te_kz_pages env" using assms(1) by (simp_all add: task_env_ok_def)
  obtain c0 where c0: "sm3_init (Some (stack_ctx (te_digest env))) = (0, Some c0)" "sm3_fed [] c0" using sm3_init_fed [OF e(1)] by blast
  have off: "from mod PAGE_SIZE < PAGE_SIZE" by (simp add: PAGE_SIZE_def)
  have "from mod PAGE_SIZE + length b \<le> PAGE_SIZE * length pages"
    using div_mult_mod_eq [of "from mod PAGE_SIZE + length b + PAGE_SIZE - 1" PAGE_SIZE]
      mod_less_divisor [of PAGE_SIZE "from mod PAGE_SIZE + length b + PAGE_SIZE - 1"]
    unfolding pg(1) [symmetric] by (simp add: PAGE_SIZE_def)
  from hash_pages_fed [OF c0(2) pg(3) off this] obtain c1
    where c1: "hash_pages (from mod PAGE_SIZE) (length b) pages (Some c0) = Some c1" "sm3_fed b c1"
    using pg(4) by auto
  have h32: "length hash = 32" using assms(3) by (simp add: LEN_HASH_def)
  obtain c2 where "sm3_finish (Some c1) hash = (0, gb_sm3 b, Some c2)" by (rule sm3_finish_ok [OF c1(2) h32])
  moreover have "map the (map Some pages) = pages" by (simp add: map_idI)
  ultimately show ?thesis
    using e(2) c0(1) c1(1) pg(1,2) assms(2) by (simp add: task_cal_mem_sm3_def Let_def mm_holds_def comp_def)
qed

text \<open>A file that the check leaves out.\<close>

definition skipped :: "task_env \<Rightarrow> process_policy \<Rightarrow> nat \<Rightarrow> bool" where
  "skipped env p f \<longleftrightarrow> share_lib_mode p = PROCESS_DMEASURE_MODE_NON_MEASURE \<and> (case te_iname env f of None \<Rightarrow> False | Some n \<Rightarrow> is_so_file n = Some True)"

definition names_ok :: "task_env \<Rightarrow> process_policy \<Rightarrow> nat set \<Rightarrow> bool" where
  "names_ok env p fs \<longleftrightarrow> (share_lib_mode p = PROCESS_DMEASURE_MODE_NON_MEASURE \<longrightarrow> (\<forall>f\<in>fs. \<exists>n. te_iname env f = Some n \<and> 3 \<le> strlen n))"

lemma measure_maps_decides:
  assumes "task_env_ok env" "ts_mm (te_task env task) = Some mm"
    and "\<forall>m\<in>set ms. mm_holds mm (mr_addr m) (c (mr_addr m)) \<and> length (c (mr_addr m)) = mr_len m \<and> length (mr_sm3_value m) = LEN_HASH"
    and "names_ok env p (mr_vm_file ` set ms)" "length hash = LEN_HASH"
  shows "\<exists>h. measure_maps env p task hash ms =
    (case filter (\<lambda>m. \<not> skipped env p (mr_vm_file m) \<and> mr_sm3_value m \<noteq> gb_sm3 (c (mr_addr m))) ms of [] \<Rightarrow> Some (0, h)
     | m # _ \<Rightarrow> Some (- EACCES, gb_sm3 (c (mr_addr m))))"
  using assms(3-5)
proof (induction ms arbitrary: hash)
  case (Cons m ms)
  have m: "mm_holds mm (mr_addr m) (c (mr_addr m))" "length (c (mr_addr m)) = mr_len m" "length (mr_sm3_value m) = LEN_HASH"
    using Cons.prems(1) by simp_all
  have nm: "names_ok env p (mr_vm_file ` set ms)" using Cons.prems(2) by (simp add: names_ok_def)
  note IH = Cons.IH [OF _ nm]
  have sk: "(if share_lib_mode p = PROCESS_DMEASURE_MODE_NON_MEASURE
      then (case te_iname env (mr_vm_file m) of None \<Rightarrow> None | Some n \<Rightarrow> is_so_file n) else Some False) = Some (skipped env p (mr_vm_file m))"
    using Cons.prems(2) by (auto simp: names_ok_def skipped_def is_so_file_def)
  have h: "task_cal_proc_mem_sm3 env task (mr_addr m) (mr_len m) hash = Some (0, gb_sm3 (c (mr_addr m)))"
    using task_cal_mem_sm3_ok [OF assms(1) m(1) Cons.prems(3)] m(2) assms(2) by (simp add: task_cal_proc_mem_sm3_def)
  have l: "length (gb_sm3 (c (mr_addr m))) = LEN_HASH" by (simp add: LEN_HASH_def)
  show ?case
  proof (cases "skipped env p (mr_vm_file m)")
    case True
    then show ?thesis using IH [OF _ Cons.prems(3)] Cons.prems(1) sk by simp
  next
    case False
    then show ?thesis using IH [OF _ l] Cons.prems(1) sk h m(3) l by (auto simp: memeq_def)
  qed
qed simp

lemma process_check:
  assumes "task_wf W s" "dt_heap s a = Some d" "pol_heap s (dt_policy d) = Some p" "process_switch p \<noteq> 0"
    and "task_env_ok env" "te_pid_task env (dt_pid d) = Some (dt_task d)" "ts_mm (te_task env (dt_task d)) = Some mm"
    and "\<forall>m\<in>set (dt_maps d). mm_holds mm (mr_addr m) (c (mr_addr m)) \<and> length (c (mr_addr m)) = mr_len m \<and> length (mr_sm3_value m) = LEN_HASH"
    and "names_ok env p (mr_vm_file ` set (dt_maps d))" "strlen (dt_path d) \<le> 501"
  shows "task_dmeasure_check env True a s = Some (s\<lparr>dt_heap := (dt_heap s)(a \<mapsto> d\<lparr>dt_work := Some (work_period p)\<rparr>),
    tk_audit := tk_audit s @ [case filter (\<lambda>m. \<not> skipped env p (mr_vm_file m) \<and> mr_sm3_value m \<noteq> gb_sm3 (c (mr_addr m))) (dt_maps d) of
       [] \<Rightarrow> (RESULT_SUCCESS, audit_domain (bytes_of ''TSB'') (bytes_of ''task_list('' @ cstr (dt_path d) @ bytes_of '')'') (replicate LEN_HASH 0), dt_pid d)
     | m # _ \<Rightarrow> (RESULT_FAIL, audit_domain (bytes_of ''TSB'') (bytes_of ''task_list('' @ cstr (dt_path d) @ bytes_of '')'') (gb_sm3 (c (mr_addr m))), dt_pid d)],
    tk_counts := if filter (\<lambda>m. \<not> skipped env p (mr_vm_file m) \<and> mr_sm3_value m \<noteq> gb_sm3 (c (mr_addr m))) (dt_maps d) = [] then tk_counts s
      else ProcessCodeFailureCount_add (tk_counts s)\<rparr>)"
proof -
  let ?bad = "filter (\<lambda>m. \<not> skipped env p (mr_vm_file m) \<and> mr_sm3_value m \<noteq> gb_sm3 (c (mr_addr m))) (dt_maps d)"
  have len: "length (bytes_of ''task_list('' @ cstr (dt_path d) @ bytes_of '')'') \<le> LEN_NAME_MAX"
    using assms(10) by (simp add: bytes_of_def strlen_def LEN_NAME_MAX_def)
  have kz: "te_kz_audit env" using assms(5) by (simp add: task_env_ok_def)
  have z: "length (replicate LEN_HASH (0::byte)) = LEN_HASH" by simp
  obtain h where mm: "measure_maps env p (dt_task d) (replicate LEN_HASH 0) (dt_maps d) =
      (case ?bad of [] \<Rightarrow> Some (0, h) | m # _ \<Rightarrow> Some (- EACCES, gb_sm3 (c (mr_addr m))))"
    using measure_maps_decides [where hash = "replicate LEN_HASH 0", OF assms(5,7,8,9) z] by blast
  show ?thesis
  proof (cases ?bad)
    case Nil
    then have "check_first env True a s = Some (Check_done 0, s\<lparr>dt_heap := (dt_heap s)(a \<mapsto> d\<lparr>dt_work := None\<rparr>)\<rparr>)"
      using assms(2-4,6) mm by (simp add: check_first_def Let_def)
    then show ?thesis
      unfolding Nil using assms(3) kz len by (simp add: task_dmeasure_check_def check_second_def task_send_audit_log_def Let_def)
  next
    case (Cons m ms)
    then have "check_first env True a s = Some (Check_done (- EACCES), s\<lparr>dt_heap := (dt_heap s)(a \<mapsto> d\<lparr>dt_work := None\<rparr>),
        tk_counts := ProcessCodeFailureCount_add (tk_counts s),
        tk_audit := tk_audit s @ [(RESULT_FAIL, audit_domain (bytes_of ''TSB'') (bytes_of ''task_list('' @ cstr (dt_path d) @ bytes_of '')'') (gb_sm3 (c (mr_addr m))), dt_pid d)]\<rparr>)"
      using assms(2-4,6) mm kz len by (simp add: check_first_def task_send_audit_log_def Let_def)
    then show ?thesis
      unfolding Cons using assms(3) by (simp add: task_dmeasure_check_def check_second_def)
  qed
qed

section \<open>From the record to the check\<close>

text \<open>The mappings that the mprotect hook records: the first executable one of each program or library.\<close>

fun fresh_vmas :: "task_env \<Rightarrow> nat set \<Rightarrow> task_vma list \<Rightarrow> (task_vma \<times> nat \<times> nat) list" where
  "fresh_vmas env seen [] = []"
| "fresh_vmas env seen (v # vs) =
     (case tv_file v of None \<Rightarrow> fresh_vmas env seen vs
      | Some f \<Rightarrow>
          if \<not> tv_exec v \<or> f \<in> seen then fresh_vmas env seen vs
          else (case elf_file_type (te_file env f) of None \<Rightarrow> fresh_vmas env seen vs
            | Some t \<Rightarrow> (v, f, t) # fresh_vmas env (insert f seen) vs))"

definition readable :: "task_mm \<Rightarrow> (nat \<Rightarrow> byte list) \<Rightarrow> task_vma \<Rightarrow> bool" where
  "readable mm c v \<longleftrightarrow> mm_holds mm (tv_start v) (c (tv_start v)) \<and> length (c (tv_start v)) = tv_end v - tv_start v"

definition ref_of :: "(nat \<Rightarrow> byte list) \<Rightarrow> task_vma \<times> nat \<times> nat \<Rightarrow> mmap_reference" where
  "ref_of c x = (case x of (v, f, t) \<Rightarrow> \<lparr>mr_addr = tv_start v, mr_len = tv_end v - tv_start v, mr_sm3_value = gb_sm3 (c (tv_start v)),
     mr_vm_file = f, mr_file_type = t\<rparr>)"

lemma fresh_vmas_sub: "(v, f, t) \<in> set (fresh_vmas env seen vs) \<Longrightarrow> v \<in> set vs"
  by (induction vs arbitrary: seen) (auto split: option.splits if_splits)

lemma collect_records:
  assumes "task_env_ok env" "\<forall>v\<in>set vs. readable mm c v"
  shows "\<exists>d'. collect_exsited_mmap env mm vs d = Some (0, d') \<and> same_entry d d'
    \<and> dt_maps d' = dt_maps d @ map (ref_of c) (fresh_vmas env (mr_vm_file ` set (dt_maps d)) vs)"
  using assms(2)
proof (induction vs arbitrary: d)
  case (Cons v vs)
  have vs: "\<forall>v\<in>set vs. readable mm c v" and r: "readable mm c v" using Cons.prems by simp_all
  note IH = Cons.IH [OF vs]
  show ?case
  proof (cases "\<exists>f t. tv_file v = Some f \<and> tv_exec v \<and> f \<notin> mr_vm_file ` set (dt_maps d) \<and> elf_file_type (te_file env f) = Some t")
    case False
    have "collect_exsited_mmap env mm (v # vs) d = collect_exsited_mmap env mm vs d"
      "fresh_vmas env (mr_vm_file ` set (dt_maps d)) (v # vs) = fresh_vmas env (mr_vm_file ` set (dt_maps d)) vs"
      using False by (auto split: option.splits)
    then show ?thesis using IH by simp
  next
    case True
    then obtain f t where f: "tv_file v = Some f" "tv_exec v" "f \<notin> mr_vm_file ` set (dt_maps d)" "elf_file_type (te_file env f) = Some t" by blast
    have kz: "te_kz_map env (tv_start v)" using assms(1) by (simp add: task_env_ok_def)
    have "mm_holds mm (tv_start v) (c (tv_start v))" and l: "length (c (tv_start v)) = tv_end v - tv_start v" using r by (simp_all add: readable_def)
    then have "task_cal_mem_sm3 env mm (tv_start v) (tv_end v - tv_start v) (replicate LEN_HASH 0) = Some (0, gb_sm3 (c (tv_start v)))"
      using task_cal_mem_sm3_ok [OF assms(1), of mm "tv_start v" "c (tv_start v)" "replicate LEN_HASH 0"] by simp
    then have rec: "record_vma env mm v f t d = Some (Inr (add_reference (ref_of c (v, f, t)) d))"
      using kz by (simp add: record_vma_def ref_of_def)
    let ?d = "add_reference (ref_of c (v, f, t)) d"
    have maps: "dt_maps ?d = dt_maps d @ [ref_of c (v, f, t)]" "mr_vm_file ` set (dt_maps ?d) = insert f (mr_vm_file ` set (dt_maps d))"
      by (auto simp: add_reference_def ref_of_def)
    have col: "collect_exsited_mmap env mm (v # vs) d = collect_exsited_mmap env mm vs ?d" using f rec by simp
    have fr: "fresh_vmas env (mr_vm_file ` set (dt_maps d)) (v # vs) = (v, f, t) # fresh_vmas env (insert f (mr_vm_file ` set (dt_maps d))) vs"
      using f by simp
    obtain d' where d': "collect_exsited_mmap env mm vs ?d = Some (0, d')" "same_entry ?d d'"
      "dt_maps d' = dt_maps ?d @ map (ref_of c) (fresh_vmas env (mr_vm_file ` set (dt_maps ?d)) vs)" using IH [of ?d] by blast
    have "same_entry d d'" by (rule same_entry_trans [OF record_vma_same [OF rec] d'(2)])
    moreover have "dt_maps d' = dt_maps d @ map (ref_of c) (fresh_vmas env (mr_vm_file ` set (dt_maps d)) (v # vs))"
      unfolding d'(3) maps fr by (simp add: ref_of_def)
    ultimately show ?thesis unfolding col using d'(1) by blast
  qed
qed simp

text \<open>C14. A process that is to be measured calls mprotect, and later the work of its entry runs. The hook records the
  SM3 hash of the first executable mapping of each program and library. The check reads these mappings again: if no hash has changed,
  libraries left out where the policy says so, it records success; otherwise it counts a failure and records the hash of the first
  changed mapping. In both cases the work is pending again with the period of the policy.
\<close>

theorem process_change_detected:
  assumes "task_wf W s" "check_dtask_info env1 task s = Some (Some a)" "dt_heap s a = Some d" "dt_maps d = []" "pol_heap s (dt_policy d) = Some p"
    and "pol_head s = Some as" "as \<noteq> []" "task_env_ok env1" "task_env_ok env2"
    and "ts_mm (te_task env1 task) = Some mm1" "\<forall>v\<in>set (tm_mmap mm1). readable mm1 c1 v"
    and "te_pid_task env2 (dt_pid d) = Some task" "ts_mm (te_task env2 task) = Some mm2" "\<forall>v\<in>set (tm_mmap mm1). readable mm2 c2 v"
    and "names_ok env2 p UNIV" "strlen (dt_path d) \<le> 501"
    and bad: "bad = filter (\<lambda>(v, f, t). \<not> skipped env2 p f \<and> gb_sm3 (c1 (tv_start v)) \<noteq> gb_sm3 (c2 (tv_start v))) (fresh_vmas env1 {} (tm_mmap mm1))"
  shows "\<exists>s1 s2 d2. new_sys_mprotect env1 0 task s = Some (0, s1) \<and> task_dmeasure_check env2 True a s1 = Some s2
    \<and> tk_counts s2 = (if bad = [] then tk_counts s else ProcessCodeFailureCount_add (tk_counts s))
    \<and> tk_audit s2 = tk_audit s @ [(if bad = [] then RESULT_SUCCESS else RESULT_FAIL,
        audit_domain (bytes_of ''TSB'') (bytes_of ''task_list('' @ cstr (dt_path d) @ bytes_of '')'')
          (if bad = [] then replicate LEN_HASH 0 else gb_sm3 (c2 (tv_start (fst (hd bad))))), dt_pid d)]
    \<and> dt_heap s2 a = Some d2 \<and> dt_work d2 = Some (work_period p) \<and> dt_maps d2 = map (ref_of c1) (fresh_vmas env1 {} (tm_mmap mm1))"
proof -
  have task: "dt_task d = task" and sw: "process_switch p \<noteq> 0" using check_dtask_info_ok [OF assms(1), of env1 task] assms(2,3,5) by auto
  obtain d' where d': "collect_exsited_mmap env1 mm1 (tm_mmap mm1) d = Some (0, d')" "same_entry d d'"
    "dt_maps d' = map (ref_of c1) (fresh_vmas env1 {} (tm_mmap mm1))"
    using collect_records [OF assms(8,11), of d] assms(4) by auto
  have same: "dt_policy d' = dt_policy d" "dt_task d' = task" "dt_pid d' = dt_pid d" "dt_path d' = dt_path d"
    using d'(2) task by (simp_all add: same_entry_def)
  let ?s = "s\<lparr>dt_heap := (dt_heap s)(a \<mapsto> d')\<rparr>" and ?s1 = "forget_ids env1 (te_current env1) (s\<lparr>dt_heap := (dt_heap s)(a \<mapsto> d')\<rparr>)"
  have conv: "convert_tmp_mem_map env1 task s = Some ?s"
    using assms(2,3,10) task d'(1) by (simp add: convert_tmp_mem_map_def)
  then have hook: "new_sys_mprotect env1 0 task s = Some (0, ?s1)" using assms(6,7) by (simp add: new_sys_mprotect_def)
  have wf: "task_wf W ?s1" using convert_wf [OF assms(1) conv] by simp
  have maps: "\<forall>m\<in>set (dt_maps d'). mm_holds mm2 (mr_addr m) (c2 (mr_addr m)) \<and> length (c2 (mr_addr m)) = mr_len m \<and> length (mr_sm3_value m) = LEN_HASH"
    unfolding d'(3) using assms(14) by (auto simp: ref_of_def readable_def dest: fresh_vmas_sub)
  let ?bad = "filter (\<lambda>m. \<not> skipped env2 p (mr_vm_file m) \<and> mr_sm3_value m \<noteq> gb_sm3 (c2 (mr_addr m))) (dt_maps d')"
  have "(\<lambda>m. \<not> skipped env2 p (mr_vm_file m) \<and> mr_sm3_value m \<noteq> gb_sm3 (c2 (mr_addr m))) \<circ> ref_of c1
      = (\<lambda>(v, f, t). \<not> skipped env2 p f \<and> gb_sm3 (c1 (tv_start v)) \<noteq> gb_sm3 (c2 (tv_start v)))"
    by (auto simp: fun_eq_iff ref_of_def)
  then have fb: "?bad = map (ref_of c1) bad" unfolding d'(3) bad by (simp only: filter_map)
  have heap: "dt_heap ?s1 a = Some d'" "pol_heap ?s1 (dt_policy d') = Some p" using assms(5) same(1) by (simp_all add: forget_ids_def)
  have e2: "te_pid_task env2 (dt_pid d') = Some (dt_task d')" "ts_mm (te_task env2 (dt_task d')) = Some mm2"
    "names_ok env2 p (mr_vm_file ` set (dt_maps d'))" "strlen (dt_path d') \<le> 501"
    using assms(12,13,15,16) same by (simp_all add: names_ok_def)
  note chk = process_check [OF wf heap sw assms(9) e2(1,2) maps e2(3,4), unfolded fb]
  show ?thesis
    by (intro exI conjI, rule hook, rule chk)
       (use same d'(3) in \<open>cases bad; auto simp: forget_ids_def ref_of_def\<close>)+
qed

section \<open>The example\<close>

lemma proc_mm_holds:
  assumes "length b = 4"
  shows "mm_holds (proc_mm b) 4096 b"
  unfolding mm_holds_def
  by (intro conjI exI [of _ "[b @ replicate (4096 - length b) 0]"]) (use assms in \<open>simp_all add: proc_mm_def PAGE_SIZE_def\<close>)

lemma proc_env_ok: "task_env_ok (proc_env b)"
  by (simp add: task_env_ok_def proc_env_def)

lemma proc_readable: "length b = 4 \<Longrightarrow> v \<in> set (tm_mmap (proc_mm b')) \<Longrightarrow> readable (proc_mm b) (\<lambda>_. b) v"
  using proc_mm_holds [of b] by (simp add: readable_def proc_mm_def proc_vma_def)

lemma proc_elf: "elf_file_type (te_file (proc_env b) f) = Some 3"
proof -
  let ?d = "replicate 16 0 @ [3, 0] @ replicate 46 0 :: byte list"
  have "kernel_read (te_file (proc_env b) f) 0 64 = Inr ?d" by (simp add: proc_env_def short_file_def)
  moreover have "?d ! 16 = 3" "?d ! 17 = 0" "length ?d = 64" by (simp_all add: nth_append)
  ultimately show ?thesis unfolding elf_file_type_def by (simp only: sum.case Let_def) simp
qed

lemma proc_fresh: "fresh_vmas (proc_env b) {} (tm_mmap (proc_mm b)) = [(proc_vma, 7, 3)]"
proof -
  have "tv_file proc_vma = Some 7" "tv_exec proc_vma" "tm_mmap (proc_mm b) = [proc_vma]" by (simp_all add: proc_mm_def proc_vma_def)
  then show ?thesis by (simp add: proc_elf)
qed

lemma process_change_detected_witness:
  "\<exists>s1 s2. new_sys_mprotect (proc_env [1, 2, 3, 4]) 0 5 proc_state = Some (0, s1)
    \<and> task_dmeasure_check (proc_env [1, 2, 3, 5]) True 1 s1 = Some s2
    \<and> map fst (tk_audit s2) = [if gb_sm3 [1, 2, 3, 4] = gb_sm3 [1, 2, 3, 5] then RESULT_SUCCESS else RESULT_FAIL]"
proof -
  let ?e1 = "proc_env [1, 2, 3, 4]" and ?e2 = "proc_env [1, 2, 3, 5]"
  have st: "check_dtask_info ?e1 5 proc_state = Some (Some 1)" "dt_heap proc_state 1 = Some proc_entry" "dt_maps proc_entry = []"
    "pol_heap proc_state (dt_policy proc_entry) = Some (proc_policy\<lparr>obj_count := 1\<rparr>)" "pol_head proc_state = Some [0]" "[0::nat] \<noteq> []"
    by (simp_all add: proc_defs check_dtask_info_def task_hash_func_def MEASURE_HASH_LENGTH_def proc_env_def)
  have mm: "ts_mm (te_task ?e1 5) = Some (proc_mm [1, 2, 3, 4])" "\<forall>v\<in>set (tm_mmap (proc_mm [1, 2, 3, 4])). readable (proc_mm [1, 2, 3, 4]) (\<lambda>_. [1, 2, 3, 4]) v"
    "te_pid_task ?e2 (dt_pid proc_entry) = Some 5" "ts_mm (te_task ?e2 5) = Some (proc_mm [1, 2, 3, 5])"
    "\<forall>v\<in>set (tm_mmap (proc_mm [1, 2, 3, 4])). readable (proc_mm [1, 2, 3, 5]) (\<lambda>_. [1, 2, 3, 5]) v"
    by (simp_all add: proc_readable) (simp_all add: proc_env_def)
  have nm: "names_ok ?e2 (proc_policy\<lparr>obj_count := 1\<rparr>) UNIV" "strlen (dt_path proc_entry) \<le> 501"
    by (simp_all add: names_ok_def proc_env_def strlen_def cstr_def proc_entry_def)
  have sk: "\<not> skipped ?e2 (proc_policy\<lparr>obj_count := 1\<rparr>) f" for f by (simp add: skipped_def proc_policy_def PROCESS_DMEASURE_MODE_NON_MEASURE_def)
  have au: "tk_audit proc_state = []" by (simp add: proc_defs)
  show ?thesis
    using process_change_detected [OF proc_state_wf st proc_env_ok proc_env_ok mm nm refl] sk unfolding proc_fresh au by auto
qed

end
