(* ===== verification/Dmeasure_Load.thy ===== *)
theory Dmeasure_Load
  imports Kernel_Filesystem Kernel_Modules Task_Safety Mod_Protect
begin

text \<open>
  Loading and unloading of dynamic measurement as a whole: tsb/kernel/dmeasure/dmeasure_integration.c. The policies come first, then
  the parts, each of which sets a flag if its start succeeded, then the identities of processes. A part that fails is left out.

  The state joins those of the parts. The list of process policies is that of Dmeasure_Policy until it is loaded; then Task_Measure
  holds it at addresses.
\<close>

section \<open>State\<close>

record dmeasure_world =
  dw_policy :: dm_policy_state
  dw_feature :: feature_state
  dw_idt :: idt_state
  dw_net :: net_state
  dw_fs :: fs_world
  dw_mod :: mod_world
  dw_task :: task_module
  dw_section :: section_state
  dw_syscall :: syscall_state
  dw_zone :: zone_state
  dw_log :: platform_log
  dw_protect :: mod_state
  idt_flag :: int
  net_flag :: int
  filesystem_flag :: int
  modules_flag :: int
  task_flag :: int
  section_flag :: int
  syscall_flag :: int

text \<open>What the parts ask of their environment.\<close>

record load_env =
  le_env :: measure_env
  le_policy :: dm_init_env
  le_mode :: int
  le_idt_mem :: bool
  le_idt_size :: nat
  le_net :: net_env
  le_hooks :: fs_hooks
  le_fs :: fs_env
  le_mod :: mod_env
  le_mod_kz :: bool
  le_mod_reg :: int
  le_task :: task_env
  le_cache :: "nat \<Rightarrow> bool"
  le_random :: u32
  le_task_reg :: int
  le_section :: section_env
  le_kmem :: bool
  le_vmem :: bool
  le_sys_mem :: bool
  le_NR_syscalls :: nat
  le_get_ok :: "string \<Rightarrow> bool"
  le_ids :: ids_init_env

section \<open>The parts\<close>

definition set_actions :: "dmeasure_action list \<Rightarrow> dmeasure_world \<Rightarrow> dmeasure_world" where
  "set_actions acts w = w\<lparr>dw_policy := (dw_policy w)\<lparr>dp_actions := acts\<rparr>\<rparr>"

definition load_idt :: "load_env \<Rightarrow> dmeasure_world \<Rightarrow> dmeasure_world option" where
  "load_idt le w = map_option (\<lambda>(ret, s, z, acts). set_actions acts (w\<lparr>dw_idt := s, dw_zone := z, idt_flag := if ret = 0 then 1 else idt_flag w\<rparr>))
     (idt_init (le_env le) (le_idt_mem le) (le_idt_size le) (dw_idt w) (dw_zone w) (dp_actions (dw_policy w)))"

definition load_net :: "load_env \<Rightarrow> dmeasure_world \<Rightarrow> dmeasure_world option" where
  "load_net le w = map_option (\<lambda>(ret, s, acts). set_actions acts (w\<lparr>dw_net := s, net_flag := if ret = 0 then 1 else net_flag w\<rparr>))
     (net_init (le_env le) (le_net le) (dw_net w) (dp_actions (dw_policy w)))"

definition load_filesystem :: "load_env \<Rightarrow> dmeasure_world \<Rightarrow> dmeasure_world option" where
  "load_filesystem le w = map_option (\<lambda>(ret, s, acts). set_actions acts (w\<lparr>dw_fs := s, filesystem_flag := if ret = 0 then 1 else filesystem_flag w\<rparr>))
     (filesystem_init (le_hooks le) (le_fs le) (dw_fs w) (dp_actions (dw_policy w)))"

definition load_modules :: "load_env \<Rightarrow> dmeasure_world \<Rightarrow> dmeasure_world option" where
  "load_modules le w = map_option (\<lambda>(ret, s, acts). set_actions acts (w\<lparr>dw_mod := s, modules_flag := if ret = 0 then 1 else modules_flag w\<rparr>))
     (modules_init (le_env le) (le_mod le) (le_mod_kz le) (le_mod_reg le) (dw_mod w) (dp_actions (dw_policy w)))"

definition load_task :: "load_env \<Rightarrow> dmeasure_world \<Rightarrow> dmeasure_world option" where
  "load_task le w = map_option (\<lambda>(ret, t). w\<lparr>dw_task := t, task_flag := if ret = 0 then 1 else task_flag w\<rparr>)
     (task_init (le_task le) (le_cache le) (le_random le) (le_task_reg le) (dw_task w))"

definition load_section :: "load_env \<Rightarrow> dmeasure_world \<Rightarrow> dmeasure_world option" where
  "load_section le w = map_option (\<lambda>(ret, s, z, p, acts). set_actions acts (w\<lparr>dw_section := s, dw_zone := z, dw_log := p,
       section_flag := if ret = 0 then 1 else section_flag w\<rparr>))
     (section_init (le_env le) (le_section le) (le_kmem le) (le_vmem le) (dw_section w) (dw_zone w) (dw_log w) (dp_actions (dw_policy w)))"

definition load_syscall :: "load_env \<Rightarrow> dmeasure_world \<Rightarrow> dmeasure_world option" where
  "load_syscall le w = map_option (\<lambda>(ret, s, z, acts). set_actions acts (w\<lparr>dw_syscall := s, dw_zone := z,
       syscall_flag := if ret = 0 then 1 else syscall_flag w\<rparr>))
     (httc_syscall_init (le_env le) (le_sys_mem le) (le_NR_syscalls le) (dw_syscall w) (dw_zone w) (dp_actions (dw_policy w)))"

text \<open>The results of handing over the areas and of protecting the module are not looked at.\<close>

definition send_zones :: "load_env \<Rightarrow> dmeasure_world \<Rightarrow> dmeasure_world option" where
  "send_zones le w =
     (if df_measure_mode (dmeasure_feature (dw_policy w)) \<noteq> 0
      then map_option (\<lambda>(r, z). w\<lparr>dw_zone := z\<rparr>) (set_measure_zone_to_tpcm (me_phys (le_env le)) (me_tcsk (le_env le)) None (dw_zone w))
      else Some w)"

definition reset_counts :: "dmeasure_world \<Rightarrow> dmeasure_world" where
  "reset_counts w = w\<lparr>dw_task := (dw_task w)\<lparr>tm_state := (tm_state (dw_task w))
     \<lparr>tk_counts := dmeasure_credential_count_init (tk_counts (tm_state (dw_task w)))\<rparr>\<rparr>\<rparr>"

definition protect_this :: "load_env \<Rightarrow> dmeasure_world \<Rightarrow> dmeasure_world" where
  "protect_this le w = w\<lparr>dw_protect := snd (httc_protect_module_on (le_get_ok le) ''httcdmeasure'' (dw_feature w) (dw_protect w))\<rparr>"

fun run_all :: "('w \<Rightarrow> 'w option) list \<Rightarrow> 'w \<Rightarrow> 'w option" where
  "run_all [] w = Some w"
| "run_all (f # fs) w = (case f w of None \<Rightarrow> None | Some w' \<Rightarrow> run_all fs w')"

definition dmeasure_all_modules_init :: "load_env \<Rightarrow> dmeasure_world \<Rightarrow> (int \<times> dmeasure_world) option" where
  "dmeasure_all_modules_init le w =
     map_option (\<lambda>w'. (0, protect_this le w'))
       (run_all [load_idt le, load_net le, load_filesystem le, load_modules le, load_task le, load_section le, load_syscall le, send_zones le]
          (reset_counts w))"

section \<open>Unloading\<close>

definition unload_idt :: "dmeasure_world \<Rightarrow> dmeasure_world option" where
  "unload_idt w = (if idt_flag w = 0 then Some w
     else map_option (\<lambda>(s, acts). set_actions acts (w\<lparr>dw_idt := s\<rparr>)) (idt_exit (dw_idt w) (dp_actions (dw_policy w))))"

definition unload_net :: "dmeasure_world \<Rightarrow> dmeasure_world option" where
  "unload_net w = (if net_flag w = 0 then Some w
     else map_option (\<lambda>(s, acts). set_actions acts (w\<lparr>dw_net := s\<rparr>)) (net_exit (dw_net w) (dp_actions (dw_policy w))))"

definition unload_filesystem :: "dmeasure_world \<Rightarrow> dmeasure_world option" where
  "unload_filesystem w = (if filesystem_flag w = 0 then Some w
     else map_option (\<lambda>(s, acts). set_actions acts (w\<lparr>dw_fs := s\<rparr>)) (filesystem_exit (dw_fs w) (dp_actions (dw_policy w))))"

definition unload_modules :: "dmeasure_world \<Rightarrow> dmeasure_world option" where
  "unload_modules w = (if modules_flag w = 0 then Some w
     else map_option (\<lambda>(s, acts). set_actions acts (w\<lparr>dw_mod := s\<rparr>)) (modules_exit (dw_mod w) (dp_actions (dw_policy w))))"

definition unload_task :: "dmeasure_world \<Rightarrow> dmeasure_world option" where
  "unload_task w = (if task_flag w = 0 then Some w else map_option (\<lambda>t. w\<lparr>dw_task := t\<rparr>) (task_exit (dw_task w)))"

definition unload_section :: "dmeasure_world \<Rightarrow> dmeasure_world option" where
  "unload_section w = (if section_flag w = 0 then Some w
     else map_option (\<lambda>(s, p, acts). set_actions acts (w\<lparr>dw_section := s, dw_log := p\<rparr>)) (section_exit (dw_section w) (dw_log w) (dp_actions (dw_policy w))))"

definition unload_syscall :: "dmeasure_world \<Rightarrow> dmeasure_world option" where
  "unload_syscall w = (if syscall_flag w = 0 then Some w
     else map_option (\<lambda>(s, acts). set_actions acts (w\<lparr>dw_syscall := s\<rparr>)) (httc_syscall_exit (dw_syscall w) (dp_actions (dw_policy w))))"

definition dmeasure_all_modules_exit :: "dmeasure_world \<Rightarrow> dmeasure_world option" where
  "dmeasure_all_modules_exit =
     run_all [unload_idt, unload_net, unload_filesystem, unload_modules, unload_task, unload_section, unload_syscall]"

section \<open>The module\<close>

text \<open>The process policies that loading has read, at addresses from the next free one on.\<close>

definition hold_policies :: "dmeasure_world \<Rightarrow> dmeasure_world" where
  "hold_policies w =
     (let s = tm_state (dw_task w); n = tk_next s in
      case p_process (dw_policy w) of
        None \<Rightarrow> w\<lparr>dw_task := (dw_task w)\<lparr>tm_state := s\<lparr>pol_head := None\<rparr>\<rparr>\<rparr>
      | Some pr \<Rightarrow> w\<lparr>dw_task := (dw_task w)\<lparr>tm_state := s\<lparr>pol_head := Some [n..<n + length (pr_head pr)],
            pol_heap := (\<lambda>a. if n \<le> a \<and> a < n + length (pr_head pr) then Some (pr_head pr ! (a - n)) else pol_heap s a),
            tk_next := n + length (pr_head pr)\<rparr>\<rparr>\<rparr>)"

text \<open>The identities of processes use the same table of commands.\<close>

definition ids_view :: "dmeasure_world \<Rightarrow> ids_state" where
  "ids_view w = (tk_ids (tm_state (dw_task w)))\<lparr>ids_commands := dp_commands (dw_policy w)\<rparr>"

definition set_ids :: "feature_state \<Rightarrow> ids_state \<Rightarrow> dmeasure_world \<Rightarrow> dmeasure_world" where
  "set_ids fs ids w = w\<lparr>dw_feature := fs, dw_policy := (dw_policy w)\<lparr>dp_commands := ids_commands ids\<rparr>,
     dw_task := (dw_task w)\<lparr>tm_state := (tm_state (dw_task w))\<lparr>tk_ids := ids\<rparr>\<rparr>\<rparr>"

definition policy_exit :: "dmeasure_world \<Rightarrow> dmeasure_world" where
  "policy_exit w = (let (fs, pol) = dmeasure_policy_exit (dw_feature w) (dw_policy w) in w\<lparr>dw_feature := fs, dw_policy := pol\<rparr>)"

text \<open>The result of the last step is returned as it is; the code that would undo the loading cannot be reached.\<close>

definition httc_dmeasure_init :: "load_env \<Rightarrow> dmeasure_world \<Rightarrow> (int \<times> dmeasure_world) option" where
  "httc_dmeasure_init le w =
     (case dmeasure_policy_init (le_policy le) (dw_feature w) (dw_policy w) of None \<Rightarrow> None
      | Some (r1, fs, pol) \<Rightarrow>
          let w0 = w\<lparr>dw_feature := fs, dw_policy := pol\<rparr> in
          if r1 \<noteq> 0 then Some (r1, w0)
          else let (r2, acts) = dmeasure_init (le_mode le) (dp_actions pol); w1 = set_actions acts (hold_policies w0) in
          if r2 \<noteq> 0 then Some (r2, policy_exit w1)
          else case dmeasure_all_modules_init le w1 of None \<Rightarrow> None
          | Some (r3, w2) \<Rightarrow>
              if r3 \<noteq> 0 then Some (r3, policy_exit w2)
              else map_option (\<lambda>(r4, fs', ids). (r4, set_ids fs' ids w2)) (process_identity_init (le_ids le) (dw_feature w2) (ids_view w2)))"

text \<open>The wait until no hook is running is left out: the hooks are one step each.\<close>

definition httc_dmeasure_exit :: "dmeasure_world \<Rightarrow> dmeasure_world option" where
  "httc_dmeasure_exit w =
     (let (fs, ids) = process_identity_exit (dw_feature w) (ids_view w)
      in map_option policy_exit (dmeasure_all_modules_exit (set_ids fs ids w)))"

section \<open>What a part promises\<close>

definition idle :: "nat \<Rightarrow> dmeasure_action list \<Rightarrow> bool" where
  "idle i acts \<longleftrightarrow> act_check (acts ! i) = None \<and> \<not> act_pending (acts ! i)"

definition registered :: "nat \<Rightarrow> dmeasure_node \<Rightarrow> dmeasure_action list \<Rightarrow> dmeasure_action list" where
  "registered i node acts = acts[i := (acts ! i)\<lparr>act_check := dn_check node, act_inuse := True, act_pending := True\<rparr>]"

definition unregistered :: "nat \<Rightarrow> dmeasure_action list \<Rightarrow> dmeasure_action list" where
  "unregistered i acts = acts[i := (if act_inuse (acts ! i) then (acts ! i)\<lparr>act_pending := False\<rparr> else acts ! i)\<lparr>act_check := None\<rparr>]"

lemma name_nth: "table_wf acts \<Longrightarrow> i < 6 \<Longrightarrow> act_name (acts ! i) = action_names ! i"
  using table_wf_length [of acts] by (metis nth_map table_wf_def)

lemma register_ok:
  assumes "table_wf acts" "i < 6" "dn_name node = action_names ! i"
  shows "dmeasure_register_action i node acts = Some (0, registered i node acts)"
    and "dmeasure_unregister_action i node acts = Some (0, unregistered i acts)"
  using assms name_nth [OF assms(1,2)] table_wf_length [OF assms(1)]
  by (simp_all add: dmeasure_register_action_def dmeasure_unregister_action_def schedule_delayed_work_def strncmp_eq_0_iff Let_def
      registered_def unregistered_def)

text \<open>
  A part keeps a state and owns one action. Its start either succeeds, registers the check of the action and leaves a
  state that can be stopped, or fails and leaves the actions alone; its stop removes the check.
\<close>

locale action_part =
  fixes start :: "'s \<Rightarrow> dmeasure_action list \<Rightarrow> (int \<times> 's \<times> dmeasure_action list) option"
    and stop :: "'s \<Rightarrow> dmeasure_action list \<Rightarrow> ('s \<times> dmeasure_action list) option"
    and stoppable :: "'s \<Rightarrow> bool"
    and i :: nat
    and node :: dmeasure_node
  assumes index: "i < 6"
    and start_result: "table_wf acts \<Longrightarrow> start s acts = Some (r, s', acts') \<Longrightarrow>
      r = 0 \<and> acts' = registered i node acts \<and> stoppable s' \<or> r \<noteq> 0 \<and> acts' = acts"
    and stop_result: "table_wf acts \<Longrightarrow> stoppable s \<Longrightarrow> \<exists>s'. stop s acts = Some (s', unregistered i acts)"
begin

lemma start_wf:
  assumes "table_wf acts" "start s acts = Some (r, s', acts')"
  shows "table_wf acts'" "r = 0 \<Longrightarrow> stoppable s'" "act_check (acts' ! i) = (if r = 0 then dn_check node else act_check (acts ! i))"
    "j \<noteq> i \<Longrightarrow> acts' ! j = acts ! j" "r = 0 \<Longrightarrow> act_inuse (acts' ! i)" "r \<noteq> 0 \<Longrightarrow> acts' = acts"
  using start_result [OF assms] assms(1) index table_wf_length [OF assms(1)] by (auto simp: registered_def intro: table_wf_update)

lemma stop_wf:
  assumes "table_wf acts" "stoppable s" "act_inuse (acts ! i)"
  shows "\<exists>s' acts'. stop s acts = Some (s', acts') \<and> table_wf acts' \<and> idle i acts' \<and> (\<forall>j. j \<noteq> i \<longrightarrow> acts' ! j = acts ! j)"
proof -
  obtain s' where "stop s acts = Some (s', unregistered i acts)" using stop_result [OF assms(1,2)] by blast
  moreover have "table_wf (unregistered i acts)" unfolding unregistered_def by (rule table_wf_update [OF assms(1)]) simp
  moreover have "idle i (unregistered i acts)" using assms(3) index table_wf_length [OF assms(1)] by (simp add: idle_def unregistered_def)
  ultimately show ?thesis by (auto simp: unregistered_def)
qed

end

text \<open>The six parts that own an action; the areas for the trusted module belong to the state of a part.\<close>

definition start_idt :: "load_env \<Rightarrow> idt_state \<times> zone_state \<Rightarrow> dmeasure_action list \<Rightarrow> (int \<times> (idt_state \<times> zone_state) \<times> dmeasure_action list) option" where
  "start_idt le x acts = map_option (\<lambda>(r, s, z, a). (r, (s, z), a)) (idt_init (le_env le) (le_idt_mem le) (le_idt_size le) (fst x) (snd x) acts)"

definition start_syscall :: "load_env \<Rightarrow> syscall_state \<times> zone_state \<Rightarrow> dmeasure_action list \<Rightarrow> (int \<times> (syscall_state \<times> zone_state) \<times> dmeasure_action list) option" where
  "start_syscall le x acts = map_option (\<lambda>(r, s, z, a). (r, (s, z), a)) (httc_syscall_init (le_env le) (le_sys_mem le) (le_NR_syscalls le) (fst x) (snd x) acts)"

definition start_section :: "load_env \<Rightarrow> section_state \<times> zone_state \<times> platform_log \<Rightarrow> dmeasure_action list
    \<Rightarrow> (int \<times> (section_state \<times> zone_state \<times> platform_log) \<times> dmeasure_action list) option" where
  "start_section le x acts = map_option (\<lambda>(r, s, z, p, a). (r, (s, z, p), a))
     (section_init (le_env le) (le_section le) (le_kmem le) (le_vmem le) (fst x) (fst (snd x)) (snd (snd x)) acts)"

definition stop_section :: "section_state \<times> zone_state \<times> platform_log \<Rightarrow> dmeasure_action list
    \<Rightarrow> ((section_state \<times> zone_state \<times> platform_log) \<times> dmeasure_action list) option" where
  "stop_section x acts = map_option (\<lambda>(s, p, a). ((s, fst (snd x), p), a)) (section_exit (fst x) (snd (snd x)) acts)"

definition with_zone :: "('s \<Rightarrow> dmeasure_action list \<Rightarrow> ('s \<times> dmeasure_action list) option)
    \<Rightarrow> 's \<times> zone_state \<Rightarrow> dmeasure_action list \<Rightarrow> (('s \<times> zone_state) \<times> dmeasure_action list) option" where
  "with_zone f x acts = map_option (\<lambda>(s, a). ((s, snd x), a)) (f (fst x) acts)"

lemma action_name_nth:
  "action_names ! 0 = bytes_of DM_ACTION_KSECTION_NAME" "action_names ! 1 = bytes_of DM_ACTION_SYSCALLTABLE_NAME"
  "action_names ! 2 = bytes_of DM_ACTION_IDTTABLE_NAME" "action_names ! 3 = bytes_of DM_ACTION_MODULELIST_NAME"
  "action_names ! 4 = bytes_of DM_ACTION_FILESYSTEM_NAME" "action_names ! 5 = bytes_of DM_ACTION_NETWORK_NAME"
  by (simp_all add: action_names_def)

lemma register_nodes:
  assumes "table_wf acts"
  shows "dmeasure_register_action 0 dksection_action acts = Some (0, registered 0 dksection_action acts)"
    "dmeasure_register_action 1 dsyscall_action acts = Some (0, registered 1 dsyscall_action acts)"
    "dmeasure_register_action 2 didt_action acts = Some (0, registered 2 didt_action acts)"
    "dmeasure_register_action 3 dmodule_action acts = Some (0, registered 3 dmodule_action acts)"
    "dmeasure_register_action 4 dfilesystem_action acts = Some (0, registered 4 dfilesystem_action acts)"
    "dmeasure_register_action 5 dnet_action acts = Some (0, registered 5 dnet_action acts)"
  by (rule register_ok(1) [OF assms]; simp add: action_names_def dksection_action_def dsyscall_action_def didt_action_def dmodule_action_def
      dfilesystem_action_def dnet_action_def)+

lemma unregister_nodes:
  assumes "table_wf acts"
  shows "dmeasure_unregister_action 0 dksection_action acts = Some (0, unregistered 0 acts)"
    "dmeasure_unregister_action 1 dsyscall_action acts = Some (0, unregistered 1 acts)"
    "dmeasure_unregister_action 2 didt_action acts = Some (0, unregistered 2 acts)"
    "dmeasure_unregister_action 3 dmodule_action acts = Some (0, unregistered 3 acts)"
    "dmeasure_unregister_action 4 dfilesystem_action acts = Some (0, unregistered 4 acts)"
    "dmeasure_unregister_action 5 dnet_action acts = Some (0, unregistered 5 acts)"
  by (rule register_ok(2) [OF assms]; simp add: action_names_def dksection_action_def dsyscall_action_def didt_action_def dmodule_action_def
      dfilesystem_action_def dnet_action_def)+

interpretation idt_part: action_part "start_idt le" "with_zone idt_exit" "\<lambda>x. idt_m (fst x) \<noteq> Freed" 2 didt_action for le
proof
  fix acts s r s' acts'
  assume wf: "table_wf acts"
  show "r = 0 \<and> acts' = registered 2 didt_action acts \<and> idt_m (fst s') \<noteq> Freed \<or> r \<noteq> 0 \<and> acts' = acts"
    if "start_idt le s acts = Some (r, s', acts')"
    using that register_nodes [OF wf] by (auto simp: start_idt_def idt_init_def backup_idt_def split: if_splits option.splits)
  show "\<exists>s'. with_zone idt_exit s acts = Some (s', unregistered 2 acts)" if "idt_m (fst s) \<noteq> Freed"
    using that unregister_nodes [OF wf] by (cases "idt_m (fst s)") (auto simp: with_zone_def idt_exit_def)
qed simp

interpretation syscall_part: action_part "start_syscall le" "with_zone httc_syscall_exit" "\<lambda>x. sys_m (fst x) \<noteq> Freed" 1 dsyscall_action for le
proof
  fix acts s r s' acts'
  assume wf: "table_wf acts"
  show "r = 0 \<and> acts' = registered 1 dsyscall_action acts \<and> sys_m (fst s') \<noteq> Freed \<or> r \<noteq> 0 \<and> acts' = acts"
    if "start_syscall le s acts = Some (r, s', acts')"
    using that register_nodes [OF wf] by (auto simp: start_syscall_def httc_syscall_init_def backup_syscall_def split: if_splits option.splits)
  show "\<exists>s'. with_zone httc_syscall_exit s acts = Some (s', unregistered 1 acts)" if "sys_m (fst s) \<noteq> Freed"
    using that unregister_nodes [OF wf] by (cases "sys_m (fst s)") (auto simp: with_zone_def httc_syscall_exit_def)
qed simp

interpretation section_part: action_part "start_section le" stop_section
  "\<lambda>x. ksection_m (fst x) \<noteq> Freed \<and> section_jump_entry (fst x) \<noteq> Freed" 0 dksection_action for le
proof
  fix acts s r s' acts'
  assume wf: "table_wf acts"
  show "r = 0 \<and> acts' = registered 0 dksection_action acts \<and> ksection_m (fst s') \<noteq> Freed \<and> section_jump_entry (fst s') \<noteq> Freed \<or> r \<noteq> 0 \<and> acts' = acts"
    if "start_section le s acts = Some (r, s', acts')"
    using that register_nodes [OF wf]
    by (auto simp: start_section_def section_init_def collect_jump_entries_def backup_ksection_def Let_def split: if_splits option.splits)
  show "\<exists>s'. stop_section s acts = Some (s', unregistered 0 acts)" if "ksection_m (fst s) \<noteq> Freed \<and> section_jump_entry (fst s) \<noteq> Freed"
    using that unregister_nodes [OF wf] by (cases "ksection_m (fst s)"; cases "section_jump_entry (fst s)") (auto simp: stop_section_def section_exit_def)
qed simp

interpretation net_part: action_part "net_init (le_env le) (le_net le)" net_exit "\<lambda>_. True" 5 dnet_action for le
proof
  fix acts s r s' acts'
  assume wf: "table_wf acts"
  show "r = 0 \<and> acts' = registered 5 dnet_action acts \<and> True \<or> r \<noteq> 0 \<and> acts' = acts"
    if "net_init (le_env le) (le_net le) s acts = Some (r, s', acts')"
    using that register_nodes [OF wf] by (auto simp: net_init_def Let_def split: if_splits option.splits prod.splits)
  show "\<exists>s'. net_exit s acts = Some (s', unregistered 5 acts)" using unregister_nodes [OF wf] by (simp add: net_exit_def)
qed simp

interpretation fs_part: action_part "filesystem_init (le_hooks le) (le_fs le)" filesystem_exit "\<lambda>_. True" 4 dfilesystem_action for le
proof
  fix acts s r s' acts'
  assume wf: "table_wf acts"
  show "r = 0 \<and> acts' = registered 4 dfilesystem_action acts \<and> True \<or> r \<noteq> 0 \<and> acts' = acts"
    if "filesystem_init (le_hooks le) (le_fs le) s acts = Some (r, s', acts')"
    using that register_nodes [OF wf] by (auto simp: filesystem_init_def Let_def split: if_splits option.splits prod.splits)
  show "\<exists>s'. filesystem_exit s acts = Some (s', unregistered 4 acts)" using unregister_nodes [OF wf] by (simp add: filesystem_exit_def)
qed simp

lemma add_module_pointer: "modules_p (snd (add_module_dmeasure env mv k a w)) = modules_p w"
  by (simp add: add_module_dmeasure_def Let_def split: prod.splits)

lemma add_all_pointer: "modules_p (snd (add_all_module_info env mv w)) = modules_p w"
proof -
  have "modules_p (fold (\<lambda>i w. let a = mv_sys_modules mv ! i in
        if km_state (mv_module mv a) \<noteq> MODULE_STATE_GOING \<and> \<not> module_in_basedata a w
        then snd (add_module_dmeasure env mv (mv_mem mv i) a w) else w) is w) = modules_p w" for "is"
    by (induction "is" arbitrary: w) (simp_all add: add_module_pointer Let_def)
  then show ?thesis by (simp add: add_all_module_info_def)
qed

interpretation mod_part: action_part "modules_init (le_env le) (le_mod le) (le_mod_kz le) (le_mod_reg le)" modules_exit
  "\<lambda>w. modules_p w \<noteq> Freed" 3 dmodule_action for le
proof
  fix acts s r s' acts'
  assume wf: "table_wf acts"
  show "r = 0 \<and> acts' = registered 3 dmodule_action acts \<and> modules_p s' \<noteq> Freed \<or> r \<noteq> 0 \<and> acts' = acts"
    if "modules_init (le_env le) (le_mod le) (le_mod_kz le) (le_mod_reg le) s acts = Some (r, s', acts')"
    using that register_nodes [OF wf] add_all_pointer [of "le_env le" "le_mod le" "s\<lparr>modules_p := Live ()\<rparr>"]
    by (auto simp: modules_init_def Let_def split: if_splits option.splits prod.splits)
  show "\<exists>s'. modules_exit s acts = Some (s', unregistered 3 acts)" if "modules_p s \<noteq> Freed"
    using that unregister_nodes [OF wf] by (cases "modules_p s") (auto simp: modules_exit_def)
qed simp

section \<open>All parts together\<close>

text \<open>The actions in their order: the flag, the node and the condition for unloading of each.\<close>

definition flag_of :: "dmeasure_world \<Rightarrow> nat \<Rightarrow> int" where
  "flag_of w i = (if i = 0 then section_flag w else if i = 1 then syscall_flag w else if i = 2 then idt_flag w
     else if i = 3 then modules_flag w else if i = 4 then filesystem_flag w else net_flag w)"

definition node_of :: "nat \<Rightarrow> dmeasure_node" where
  "node_of i = (if i = 0 then dksection_action else if i = 1 then dsyscall_action else if i = 2 then didt_action
     else if i = 3 then dmodule_action else if i = 4 then dfilesystem_action else dnet_action)"

definition part_good :: "dmeasure_world \<Rightarrow> nat \<Rightarrow> bool" where
  "part_good w i = (if i = 0 then ksection_m (dw_section w) \<noteq> Freed \<and> section_jump_entry (dw_section w) \<noteq> Freed
     else if i = 1 then sys_m (dw_syscall w) \<noteq> Freed else if i = 2 then idt_m (dw_idt w) \<noteq> Freed
     else if i = 3 then modules_p (dw_mod w) \<noteq> Freed else True)"

abbreviation (input) acts_of :: "dmeasure_world \<Rightarrow> dmeasure_action list" where
  "acts_of w \<equiv> dp_actions (dw_policy w)"

definition load_inv :: "dmeasure_world \<Rightarrow> bool" where
  "load_inv w \<longleftrightarrow> table_wf (acts_of w) \<and> (\<forall>i<6. flag_of w i = 0 \<and> idle i (acts_of w)
     \<or> flag_of w i = 1 \<and> act_check (acts_of w ! i) = dn_check (node_of i) \<and> act_inuse (acts_of w ! i) \<and> part_good w i)"

text \<open>The step of one part: it changes its own action, flag and state only.\<close>

lemma load_step:
  assumes "load_inv w" "flag_of w k = 0" "k < 6" "table_wf (acts_of w')" "\<forall>j. j \<noteq> k \<longrightarrow> acts_of w' ! j = acts_of w ! j"
    and "r = 0 \<longrightarrow> act_check (acts_of w' ! k) = dn_check (node_of k) \<and> act_inuse (acts_of w' ! k) \<and> part_good w' k"
    and "r \<noteq> 0 \<longrightarrow> acts_of w' = acts_of w" "flag_of w' k = (if r = (0::int) then 1 else 0)"
    and "\<forall>j<6. j \<noteq> k \<longrightarrow> flag_of w' j = flag_of w j \<and> part_good w' j = part_good w j"
  shows "load_inv w'"
proof -
  have "flag_of w' i = 0 \<and> idle i (acts_of w')
      \<or> flag_of w' i = 1 \<and> act_check (acts_of w' ! i) = dn_check (node_of i) \<and> act_inuse (acts_of w' ! i) \<and> part_good w' i" if "i < 6" for i
  proof (cases "i = k")
    case True
    have "idle k (acts_of w)" using assms(1-3) by (fastforce simp: load_inv_def)
    then show ?thesis using True assms(6-8) by auto
  next
    case False
    have "flag_of w i = 0 \<and> idle i (acts_of w)
      \<or> flag_of w i = 1 \<and> act_check (acts_of w ! i) = dn_check (node_of i) \<and> act_inuse (acts_of w ! i) \<and> part_good w i"
      using assms(1) that by (simp add: load_inv_def)
    then show ?thesis using False assms(5,9) that by (simp add: idle_def)
  qed
  then show ?thesis using assms(4) by (simp add: load_inv_def)
qed

text \<open>What the step of one part keeps: the flags and states of the other parts, and the measurement of processes.\<close>

definition kept :: "nat \<Rightarrow> dmeasure_world \<Rightarrow> dmeasure_world \<Rightarrow> bool" where
  "kept k w w' \<longleftrightarrow> (\<forall>j<6. j \<noteq> k \<longrightarrow> flag_of w' j = flag_of w j \<and> part_good w' j = part_good w j)
     \<and> dw_task w' = dw_task w \<and> task_flag w' = task_flag w"

text \<open>The condition during unloading: what was unloaded (\<open>D\<close>) or never loaded is idle, the rest can be unloaded.\<close>

definition unload_inv :: "nat set \<Rightarrow> dmeasure_world \<Rightarrow> bool" where
  "unload_inv D w \<longleftrightarrow> table_wf (acts_of w) \<and> (\<forall>i<6. if i \<in> D \<or> flag_of w i = 0 then idle i (acts_of w)
     else act_inuse (acts_of w ! i) \<and> part_good w i)"

lemma load_unload_inv: "load_inv w \<Longrightarrow> unload_inv {} w"
  by (fastforce simp: load_inv_def unload_inv_def)

text \<open>A part in the world: its load and unload functions pass its state and the actions through the start and the stop.\<close>

locale world_part = action_part start stop stoppable i node
  for start :: "'s \<Rightarrow> dmeasure_action list \<Rightarrow> (int \<times> 's \<times> dmeasure_action list) option"
    and stop :: "'s \<Rightarrow> dmeasure_action list \<Rightarrow> ('s \<times> dmeasure_action list) option"
    and stoppable :: "'s \<Rightarrow> bool" and i :: nat and node :: dmeasure_node +
  fixes load :: "dmeasure_world \<Rightarrow> dmeasure_world option"
    and unload :: "dmeasure_world \<Rightarrow> dmeasure_world option"
    and get :: "dmeasure_world \<Rightarrow> 's"
  assumes node: "node_of i = node"
    and good: "part_good w i = stoppable (get w)"
    and load_result: "load w = Some w' \<Longrightarrow> \<exists>r s'. start (get w) (acts_of w) = Some (r, s', acts_of w') \<and> get w' = s'
      \<and> flag_of w' i = (if r = 0 then 1 else flag_of w i) \<and> kept i w w'"
    and unload_none: "flag_of w i = 0 \<Longrightarrow> unload w = Some w"
    and unload_result: "flag_of w i \<noteq> 0 \<Longrightarrow> stop (get w) (acts_of w) = Some (s', acts') \<Longrightarrow>
      \<exists>w'. unload w = Some w' \<and> acts_of w' = acts' \<and> flag_of w' i = flag_of w i \<and> kept i w w'"
begin

lemma load_keeps:
  assumes "load_inv w" "flag_of w i = 0" "load w = Some w'"
  shows "load_inv w'" "kept i w w'"
proof -
  have wf: "table_wf (acts_of w)" using assms(1) by (simp add: load_inv_def)
  obtain r where r: "start (get w) (acts_of w) = Some (r, get w', acts_of w')" "flag_of w' i = (if r = 0 then 1 else flag_of w i)" "kept i w w'"
    using load_result [OF assms(3)] by auto
  note st = start_wf [OF wf r(1)]
  show "kept i w w'" by (rule r(3))
  show "load_inv w'"
    by (rule load_step [OF assms(1,2) index, where r = r])
      (use st r assms(2) good [of w'] node in \<open>auto simp: kept_def\<close>)
qed

lemma unload_keeps:
  assumes "unload_inv D w" "i \<notin> D"
  shows "\<exists>w'. unload w = Some w' \<and> unload_inv (insert i D) w' \<and> dw_task w' = dw_task w \<and> task_flag w' = task_flag w"
proof (cases "flag_of w i = 0")
  case True
  then show ?thesis using unload_none assms by (auto simp: unload_inv_def)
next
  case False
  have wf: "table_wf (acts_of w)" using assms(1) by (simp add: unload_inv_def)
  have g: "stoppable (get w)" "act_inuse (acts_of w ! i)" using assms False index good [of w] by (auto simp: unload_inv_def)
  obtain s' acts' where st: "stop (get w) (acts_of w) = Some (s', acts')" "table_wf acts'" "idle i acts'" "\<forall>j. j \<noteq> i \<longrightarrow> acts' ! j = acts_of w ! j"
    using stop_wf [OF wf g] by blast
  obtain w' where w': "unload w = Some w'" "acts_of w' = acts'" "flag_of w' i = flag_of w i" "kept i w w'"
    using unload_result [OF False st(1)] by blast
  have "if j \<in> insert i D \<or> flag_of w' j = 0 then idle j (acts_of w') else act_inuse (acts_of w' ! j) \<and> part_good w' j" if "j < 6" for j
  proof (cases "j = i")
    case True
    then show ?thesis using st(3) w'(2) by simp
  next
    case False
    have "if j \<in> D \<or> flag_of w j = 0 then idle j (acts_of w) else act_inuse (acts_of w ! j) \<and> part_good w j"
      using assms(1) that by (simp add: unload_inv_def)
    moreover have "acts_of w' ! j = acts_of w ! j" "flag_of w' j = flag_of w j" "part_good w' j = part_good w j"
      using False st(4) w'(2,4) that by (simp_all add: kept_def)
    ultimately show ?thesis using False by (simp add: idle_def split: if_splits)
  qed
  then have "\<forall>j<6. if j \<in> insert i D \<or> flag_of w' j = 0 then idle j (acts_of w') else act_inuse (acts_of w' ! j) \<and> part_good w' j" by blast
  moreover have "table_wf (acts_of w')" using st(2) w'(2) by simp
  ultimately have "unload_inv (insert i D) w'" unfolding unload_inv_def by (intro conjI)
  then show ?thesis using w' by (auto simp: kept_def)
qed

end

lemmas world_defs = flag_of_def part_good_def kept_def set_actions_def node_of_def

interpretation idt_world: world_part "start_idt le" "with_zone idt_exit" "\<lambda>x. idt_m (fst x) \<noteq> Freed" 2 didt_action
  "load_idt le" unload_idt "\<lambda>w. (dw_idt w, dw_zone w)" for le
  by unfold_locales (auto simp: world_defs load_idt_def start_idt_def unload_idt_def with_zone_def)

interpretation syscall_world: world_part "start_syscall le" "with_zone httc_syscall_exit" "\<lambda>x. sys_m (fst x) \<noteq> Freed" 1 dsyscall_action
  "load_syscall le" unload_syscall "\<lambda>w. (dw_syscall w, dw_zone w)" for le
  by unfold_locales (auto simp: world_defs load_syscall_def start_syscall_def unload_syscall_def with_zone_def)

interpretation section_world: world_part "start_section le" stop_section "\<lambda>x. ksection_m (fst x) \<noteq> Freed \<and> section_jump_entry (fst x) \<noteq> Freed" 0 dksection_action
  "load_section le" unload_section "\<lambda>w. (dw_section w, dw_zone w, dw_log w)" for le
  by unfold_locales (auto simp: world_defs load_section_def start_section_def unload_section_def stop_section_def)

interpretation mod_world: world_part "modules_init (le_env le) (le_mod le) (le_mod_kz le) (le_mod_reg le)" modules_exit "\<lambda>w. modules_p w \<noteq> Freed" 3 dmodule_action
  "load_modules le" unload_modules dw_mod for le
  by unfold_locales (auto simp: world_defs load_modules_def unload_modules_def)

interpretation fs_world: world_part "filesystem_init (le_hooks le) (le_fs le)" filesystem_exit "\<lambda>_. True" 4 dfilesystem_action
  "load_filesystem le" unload_filesystem dw_fs for le
  by unfold_locales (auto simp: world_defs load_filesystem_def unload_filesystem_def)

interpretation net_world: world_part "net_init (le_env le) (le_net le)" net_exit "\<lambda>_. True" 5 dnet_action
  "load_net le" unload_net dw_net for le
  by unfold_locales (auto simp: world_defs load_net_def unload_net_def)

lemma run_all_Cons: "run_all (f # fs) w = Some w' \<longleftrightarrow> (\<exists>v. f w = Some v \<and> run_all fs v = Some w')"
  by (simp split: option.split)

lemma inv_cong:
  assumes "acts_of w' = acts_of w" "\<And>j. flag_of w' j = flag_of w j" "\<And>j. part_good w' j = part_good w j"
  shows "load_inv w' = load_inv w" "unload_inv D w' = unload_inv D w"
  using assms by (simp_all add: load_inv_def unload_inv_def)

lemma unload_inv_task: "unload_inv D (w\<lparr>dw_task := t\<rparr>) = unload_inv D w"
  by (rule inv_cong(2)) (simp_all add: flag_of_def part_good_def)

lemma load_task_other:
  assumes "load_task le w = Some w'"
  shows "acts_of w' = acts_of w" "flag_of w' j = flag_of w j" "part_good w' j = part_good w j"
  using assms by (auto simp: load_task_def flag_of_def part_good_def)

lemma send_zones_other:
  assumes "send_zones le w = Some w'"
  shows "acts_of w' = acts_of w" "flag_of w' j = flag_of w j" "part_good w' j = part_good w j" "dw_task w' = dw_task w" "task_flag w' = task_flag w"
  using assms by (auto simp: send_zones_def flag_of_def part_good_def split: if_splits)

lemma all_modules_init_ok:
  assumes "dmeasure_all_modules_init le w = Some (r, w1)" "load_inv w" "\<forall>i<6. flag_of w i = 0"
  shows "r = 0" "load_inv w1" "\<exists>ret. task_init (le_task le) (le_cache le) (le_random le) (le_task_reg le) (dw_task (reset_counts w)) = Some (ret, dw_task w1)
    \<and> task_flag w1 = (if ret = 0 then 1 else task_flag w)"
proof -
  let ?w = "reset_counts w"
  have other: "acts_of ?w = acts_of w" "flag_of ?w j = flag_of w j" "part_good ?w j = part_good w j" "task_flag ?w = task_flag w" for j
    by (simp_all add: reset_counts_def flag_of_def part_good_def)
  have w0: "load_inv ?w" "\<forall>i<6. flag_of ?w i = 0" using assms(2,3) inv_cong(1) [OF other(1-3)] other(2) by simp_all
  obtain w2 where w2: "run_all [load_idt le, load_net le, load_filesystem le, load_modules le, load_task le, load_section le, load_syscall le, send_zones le] ?w = Some w2"
    and w1: "r = 0" "w1 = protect_this le w2"
    using assms(1) by (auto simp: dmeasure_all_modules_init_def simp del: run_all.simps)
  from w2 obtain a b c d e f g where st: "load_idt le ?w = Some a" "load_net le a = Some b" "load_filesystem le b = Some c" "load_modules le c = Some d"
    "load_task le d = Some e" "load_section le e = Some f" "load_syscall le f = Some g" "send_zones le g = Some w2"
    unfolding run_all_Cons run_all.simps(1) by auto
  note A = idt_world.load_keeps [OF w0(1) _ st(1)]
  have a: "load_inv a" "kept 2 ?w a" using A w0(2) by simp_all
  have "flag_of a 5 = 0" using a(2) w0(2) by (simp add: kept_def)
  note b = net_world.load_keeps [OF a(1) this st(2)]
  have "flag_of b 4 = 0" using a(2) b(2) w0(2) by (simp add: kept_def)
  note c = fs_world.load_keeps [OF b(1) this st(3)]
  have "flag_of c 3 = 0" using a(2) b(2) c(2) w0(2) by (simp add: kept_def)
  note d = mod_world.load_keeps [OF c(1) this st(4)]
  note eo = load_task_other [OF st(5)]
  have e: "load_inv e" using d(1) inv_cong(1) [OF eo] by simp
  have "flag_of e 0 = 0" using a(2) b(2) c(2) d(2) w0(2) eo(2) by (simp add: kept_def)
  note f = section_world.load_keeps [OF e this st(6)]
  have "flag_of f 1 = 0" using a(2) b(2) c(2) d(2) f(2) w0(2) eo(2) by (simp add: kept_def)
  note g = syscall_world.load_keeps [OF f(1) this st(7)]
  note zo = send_zones_other [OF st(8)]
  have p: "acts_of w1 = acts_of w2" "flag_of w1 j = flag_of w2 j" "part_good w1 j = part_good w2 j" "dw_task w1 = dw_task w2" "task_flag w1 = task_flag w2" for j
    by (simp_all add: w1(2) protect_this_def flag_of_def part_good_def)
  show "r = 0" by (rule w1(1))
  show "load_inv w1" using g(1) inv_cong(1) [OF zo(1-3)] inv_cong(1) [OF p(1-3)] by simp
  have td: "dw_task d = dw_task ?w" "task_flag d = task_flag w" using a(2) b(2) c(2) d(2) other(4) by (simp_all add: kept_def)
  have te: "dw_task w1 = dw_task e" "task_flag w1 = task_flag e" using f(2) g(2) zo p(4,5) by (simp_all add: kept_def)
  show "\<exists>ret. task_init (le_task le) (le_cache le) (le_random le) (le_task_reg le) (dw_task ?w) = Some (ret, dw_task w1)
    \<and> task_flag w1 = (if ret = 0 then 1 else task_flag w)"
    using st(5) unfolding td(1) [symmetric] te by (auto simp: load_task_def td(2))
qed

lemma all_modules_exit_ok:
  assumes "unload_inv {} w" "task_flag w = 0 \<or> task_exit (dw_task w) = Some t"
  shows "\<exists>w'. dmeasure_all_modules_exit w = Some w' \<and> (\<forall>a\<in>set (acts_of w'). act_check a = None \<and> \<not> act_pending a)
    \<and> dw_task w' = (if task_flag w = 0 then dw_task w else t)"
proof -
  obtain a where a: "unload_idt w = Some a" "unload_inv {2} a" "dw_task a = dw_task w" "task_flag a = task_flag w"
    using idt_world.unload_keeps [OF assms(1)] by auto
  obtain b where b: "unload_net a = Some b" "unload_inv {5, 2} b" "dw_task b = dw_task a" "task_flag b = task_flag a"
    using net_world.unload_keeps [OF a(2)] by auto
  obtain c where c: "unload_filesystem b = Some c" "unload_inv {4, 5, 2} c" "dw_task c = dw_task b" "task_flag c = task_flag b"
    using fs_world.unload_keeps [OF b(2)] by auto
  obtain d where d: "unload_modules c = Some d" "unload_inv {3, 4, 5, 2} d" "dw_task d = dw_task c" "task_flag d = task_flag c"
    using mod_world.unload_keeps [OF c(2)] by auto
  let ?e = "if task_flag w = 0 then d else d\<lparr>dw_task := t\<rparr>"
  have td: "dw_task d = dw_task w" "task_flag d = task_flag w" using a b c d by simp_all
  have e: "unload_task d = Some ?e" using assms(2) td by (auto simp: unload_task_def)
  have ei: "unload_inv {3, 4, 5, 2} ?e" using d(2) by (simp add: unload_inv_task)
  obtain f where f: "unload_section ?e = Some f" "unload_inv {0, 3, 4, 5, 2} f" "dw_task f = dw_task ?e"
    using section_world.unload_keeps [OF ei] by auto
  obtain g where g: "unload_syscall f = Some g" "unload_inv {1, 0, 3, 4, 5, 2} g" "dw_task g = dw_task f"
    using syscall_world.unload_keeps [OF f(2)] by auto
  have "dmeasure_all_modules_exit w = Some g" using a(1) b(1) c(1) d(1) e f(1) g(1) by (simp add: dmeasure_all_modules_exit_def)
  moreover have "\<forall>i<6. idle i (acts_of g)"
  proof (intro allI impI)
    fix i :: nat assume "i < 6"
    then have "i \<in> {1, 0, 3, 4, 5, 2}" by auto
    then show "idle i (acts_of g)" using g(2) \<open>i < 6\<close> unfolding unload_inv_def by fastforce
  qed
  moreover have "length (acts_of g) = 6" using g(2) table_wf_length by (simp add: unload_inv_def)
  ultimately show ?thesis using f(3) g(3) td(1) by (auto simp: idle_def in_set_conv_nth)
qed


text \<open>
  If the identities of processes cannot be started, the result is refused, but nothing is undone: the checks stay
  registered and the system calls replaced, while the kernel frees the module.
\<close>

lemma refused_load_keeps_hooks:
  assumes "dmeasure_policy_init (le_policy le) (dw_feature w) (dw_policy w) = Some (0, fs, pol)"
    and "w1 = set_actions (snd (dmeasure_init (le_mode le) (dp_actions pol))) (hold_policies (w\<lparr>dw_feature := fs, dw_policy := pol\<rparr>))"
    and "dmeasure_all_modules_init le w1 = Some (0, w2)" "process_identity_init (le_ids le) (dw_feature w2) (ids_view w2) = Some (r, fs', ids)" "r \<noteq> 0"
  shows "\<exists>w'. httc_dmeasure_init le w = Some (r, w') \<and> acts_of w' = acts_of w2 \<and> tm_hooks (dw_task w') = tm_hooks (dw_task w2)
    \<and> tm_exit_notifier (dw_task w') = tm_exit_notifier (dw_task w2)"
  using assms by (simp add: httc_dmeasure_init_def dmeasure_init_def set_ids_def Let_def)

text \<open>
  If a command number is taken, the policies are freed, but loading goes on with the result 0 (Dmeasure_Policy); then there is no list of
  policies, and the next mmap of any process goes through a NULL pointer.
\<close>

lemma mmap_without_policies:
  assumes "p_process (dw_policy w) = None" "0 \<le> ret"
  shows "new_sys_mmap env ret fd leader path (tm_state (dw_task (hold_policies w))) = None"
  using assms by (simp add: hold_policies_def new_sys_mmap_def)

section \<open>An example\<close>

definition demo_load :: load_env where
  "demo_load = \<lparr>le_env = demo_env, le_policy = test_env, le_mode = 0, le_idt_mem = True, le_idt_size = 4095, le_net = demo_net, le_hooks = demo_hooks,
     le_fs = demo_fs_env, le_mod = demo_mod_env, le_mod_kz = True, le_mod_reg = 0, le_task = (proc_env [1, 2, 3, 4])\<lparr>te_processes := []\<rparr>,
     le_cache = (\<lambda>_. True), le_random = 7, le_task_reg = 0, le_section = demo_section_env, le_kmem = True, le_vmem = True, le_sys_mem = True,
     le_NR_syscalls = 441, le_get_ok = (\<lambda>_. True), le_ids = \<lparr>ii_kz = (\<lambda>_. True), ii_ids = (0, []), ii_roles = (0, []), ii_callback = 0\<rparr>\<rparr>"

definition demo_dmeasure :: "feature_state \<Rightarrow> dmeasure_world" where
  "demo_dmeasure fs = \<lparr>dw_policy = dm_policy_start Map.empty, dw_feature = fs, dw_idt = \<lparr>idt_addr = 0x1000, idt_m = Null\<rparr>, dw_net = demo_net_state,
     dw_fs = demo_fs_world, dw_mod = demo_mod_world,
     dw_task = \<lparr>tm_state = proc_start, tm_hooks = \<lparr>sh_flag = (\<lambda>_. 0), sh_table = (\<lambda>_. ''sys'')\<rparr>, tm_exit_notifier = False,
       origin_sys_mmap = None, origin_sys_mprotect = None, tasklistlock = 8\<rparr>,
     dw_section = demo_section, dw_syscall = \<lparr>syscall_table = 0x9000, sys_m = Null\<rparr>, dw_zone = \<lparr>ctx = [], tz_sent = []\<rparr>, dw_log = running_platform,
     dw_protect = mod_demo, idt_flag = 0, net_flag = 0, filesystem_flag = 0, modules_flag = 0, task_flag = 0, section_flag = 0, syscall_flag = 0\<rparr>"

text \<open>The states of the parts that are still to be loaded.\<close>

definition rest :: "dmeasure_world \<Rightarrow> net_state \<times> fs_world \<times> mod_world \<times> task_module \<times> section_state \<times> syscall_state \<times> dmeasure_feature_conf" where
  "rest w = (dw_net w, dw_fs w, dw_mod w, dw_task w, dw_section w, dw_syscall w, dmeasure_feature (dw_policy w))"

lemma demo_parts_start:
  assumes "table_wf acts"
  shows "idt_init demo_env True 4095 \<lparr>idt_addr = 0x1000, idt_m = Null\<rparr> z acts \<noteq> None"
    "net_init demo_env demo_net demo_net_state acts \<noteq> None"
    "filesystem_init demo_hooks demo_fs_env demo_fs_world acts \<noteq> None"
    "modules_init demo_env demo_mod_env True 0 demo_mod_world acts \<noteq> None"
    "section_init demo_env demo_section_env True True demo_section z p acts \<noteq> None"
    "httc_syscall_init demo_env True 441 \<lparr>syscall_table = 0x9000, sys_m = Null\<rparr> z acts \<noteq> None"
proof -
  note reg = register_nodes [OF assms]
  show "idt_init demo_env True 4095 \<lparr>idt_addr = 0x1000, idt_m = Null\<rparr> z acts \<noteq> None"
    using reg by (simp add: idt_init_def backup_idt_def INVALID_DATA_FULL_FF_def)
  show "net_init demo_env demo_net demo_net_state acts \<noteq> None"
    using reg by (simp add: net_init_def Let_def split: prod.split)
  show "filesystem_init demo_hooks demo_fs_env demo_fs_world acts \<noteq> None"
    using reg by (simp add: filesystem_init_def Let_def split: prod.split)
  show "modules_init demo_env demo_mod_env True 0 demo_mod_world acts \<noteq> None"
    using reg by (simp add: modules_init_def add_all_module_info_def Let_def)
  have "bytes_of ''__stop___jump_table'' \<noteq> bytes_of ''__start___jump_table''" by (simp add: bytes_of_def)
  then show "section_init demo_env demo_section_env True True demo_section z p acts \<noteq> None"
    using reg by (simp add: section_init_def demo_section_def demo_section_env_def section_params_bad_def INVALID_DATA_FULL_FF_def
        collect_jump_entries_def SIZEOF_JUMP_ENTRY_def backup_ksection_def text_length_def Let_def)
  show "httc_syscall_init demo_env True 441 \<lparr>syscall_table = 0x9000, sys_m = Null\<rparr> z acts \<noteq> None"
    using reg by (simp add: httc_syscall_init_def backup_syscall_def update_syscall_def Let_def INVALID_DATA_FULL_FF_def)
qed

lemma demo_task_start:
  "\<exists>t1. task_init (le_task demo_load) (le_cache demo_load) (le_random demo_load) (le_task_reg demo_load) (dw_task (reset_counts (demo_dmeasure fs))) = Some (0, t1)"
proof -
  obtain w where w: "file_hash_cache_init (\<lambda>_. True) 7 (tk_cache proc_start) = (0, w)"
    using find_None_iff [of "\<lambda>i. False" "[0..<MAX_CACHE_NUMBER]"] by (simp add: file_hash_cache_init_def)
  then show ?thesis
    by (simp add: demo_load_def demo_dmeasure_def reset_counts_def task_init_def collect_existed_task_info_def hook_replace_system_call_def
        INVALID_DATA_FULL_FF_def proc_env_def NR_mmap_def NR_mprotect_def Let_def)
qed

lemma demo_all_loaded: "\<exists>w1. dmeasure_all_modules_init demo_load (demo_dmeasure fs) = Some (0, w1)"
proof -
  let ?le = demo_load and ?w = "reset_counts (demo_dmeasure fs)"
  have fl: "flag_of ?w i = 0" for i by (simp add: flag_of_def reset_counts_def demo_dmeasure_def)
  have "\<forall>i<6. idle i dm_action" by (auto simp: idle_def dm_action_def start_action_def nth_Cons' less_Suc_eq numeral_eq_Suc)
  then have w: "load_inv ?w" using table_wf_start by (simp add: load_inv_def fl) (simp add: reset_counts_def demo_dmeasure_def dm_policy_start_def)
  have wfD: "table_wf (acts_of v)" if "load_inv v" for v using that by (simp add: load_inv_def)
  have d0: "rest ?w = (demo_net_state, demo_fs_world, demo_mod_world, dw_task ?w, demo_section, \<lparr>syscall_table = 0x9000, sys_m = Null\<rparr>, dmeasure_feature (dm_policy_start Map.empty))"
    by (simp add: rest_def reset_counts_def demo_dmeasure_def)
  have "dw_idt ?w = \<lparr>idt_addr = 0x1000, idt_m = Null\<rparr>" by (simp add: reset_counts_def demo_dmeasure_def)
  then obtain a where a: "load_idt ?le ?w = Some a" "rest a = rest ?w"
    using demo_parts_start(1) [OF wfD [OF w], of "dw_zone ?w"] by (auto simp: load_idt_def demo_load_def set_actions_def rest_def)
  note ai = idt_world.load_keeps [OF w fl a(1)]
  obtain b where b: "load_net ?le a = Some b" "snd (rest b) = snd (rest ?w)"
    using demo_parts_start(2) [OF wfD [OF ai(1)]] a(2) d0 by (auto simp: load_net_def demo_load_def set_actions_def rest_def)
  have "flag_of a 5 = 0" using ai(2) fl by (simp add: kept_def)
  note bi = net_world.load_keeps [OF ai(1) this b(1)]
  obtain c where c: "load_filesystem ?le b = Some c" "snd (snd (rest c)) = snd (snd (rest ?w))"
    using demo_parts_start(3) [OF wfD [OF bi(1)]] b(2) d0 by (auto simp: load_filesystem_def demo_load_def set_actions_def rest_def)
  have "flag_of b 4 = 0" using ai(2) bi(2) fl by (simp add: kept_def)
  note ci = fs_world.load_keeps [OF bi(1) this c(1)]
  obtain d where d: "load_modules ?le c = Some d" "snd (snd (snd (rest d))) = snd (snd (snd (rest ?w)))"
    using demo_parts_start(4) [OF wfD [OF ci(1)]] c(2) d0 by (auto simp: load_modules_def demo_load_def set_actions_def rest_def)
  have "flag_of c 3 = 0" using ai(2) bi(2) ci(2) fl by (simp add: kept_def)
  note di = mod_world.load_keeps [OF ci(1) this d(1)]
  obtain t1 where t1: "task_init (le_task ?le) (le_cache ?le) (le_random ?le) (le_task_reg ?le) (dw_task d) = Some (0, t1)"
    using demo_task_start [of fs] d(2) by (auto simp: rest_def)
  then obtain e where e: "load_task ?le d = Some e" "snd (snd (snd (snd (rest e)))) = snd (snd (snd (snd (rest ?w))))"
    using d(2) by (auto simp: load_task_def rest_def)
  note eo = load_task_other [OF e(1)]
  have ei: "load_inv e" using di(1) inv_cong(1) [OF eo] by simp
  obtain f where f: "load_section ?le e = Some f" "snd (snd (snd (snd (snd (rest f))))) = snd (snd (snd (snd (snd (rest ?w)))))"
    using demo_parts_start(5) [OF wfD [OF ei], of "dw_zone e" "dw_log e"] e(2) d0 by (auto simp: load_section_def demo_load_def set_actions_def rest_def)
  have "flag_of e 0 = 0" using ai(2) bi(2) ci(2) di(2) fl eo(2) by (simp add: kept_def)
  note fi = section_world.load_keeps [OF ei this f(1)]
  obtain g where g: "load_syscall ?le f = Some g" "dmeasure_feature (dw_policy g) = dmeasure_feature (dm_policy_start Map.empty)"
    using demo_parts_start(6) [OF wfD [OF fi(1)], of "dw_zone f"] f(2) d0 by (auto simp: load_syscall_def demo_load_def set_actions_def rest_def)
  have "send_zones ?le g = Some g" using g(2) by (simp add: send_zones_def dm_policy_start_def)
  then show ?thesis using a(1) b(1) c(1) d(1) e(1) f(1) g(1) by (simp add: dmeasure_all_modules_init_def)
qed


end
