(* ===== verification/Device_Client.thy ===== *)
theory Device_Client
  imports Command_Table
begin

text \<open>
  The way from user space to the command table of the device: tsb/user/ioctl.c and the command numbers of tsb/user/tsb_admin.c. The
  library repeats the enumeration of tsb/kernel/platform/msg/command.h.
\<close>

section \<open>The device\<close>

text \<open>The macro \<open>_IOWR (HTTCSEC_MISC_DEVICE_TYPE, nr, unsigned long)\<close>: direction, size, type and number, which do not overlap.\<close>

definition IOWR :: "int \<Rightarrow> u32" where
  "IOWR nr = 0xC008AF00 + of_nat (nat nr)"

text \<open>
  \<open>dev\<close>: the device can be opened. \<open>call\<close> runs the handler behind a pointer, which may have no result. The C library turns a negative
  result into -1.
\<close>

definition httcsec_ioctl ::
  "bool \<Rightarrow> (fptr \<Rightarrow> 's \<Rightarrow> (int \<times> 's) option) \<Rightarrow> cmd_table \<Rightarrow> u32 \<Rightarrow> 's \<Rightarrow> (int \<times> 's) option" where
  "httcsec_ioctl dev call cmds cmd s =
     (if \<not> dev then Some (-100, s)
      else case httcsec_miscdev_ioctl (\<lambda>f _. case call f s of None \<Rightarrow> (0, None) | Some (r, s') \<Rightarrow> (r, Some s')) cmds cmd (Some s) of
        (r, None) \<Rightarrow> None
      | (r, Some s') \<Rightarrow> Some (if r < 0 then -1 else r, s'))"

lemma IOWR_fields:
  assumes "0 \<le> nr" "nr < 256"
  shows "IOC_TYPE (IOWR nr) = HTTCSEC_MISC_DEVICE_TYPE" "IOC_NR (IOWR nr) = nat nr"
proof -
  have n: "nat nr < 256" using assms by simp
  have u: "unat (IOWR nr) = 3221794560 + nat nr"
    using n by (simp add: IOWR_def unat_word_ariths unat_of_nat)
  have d: "(3221794560 + nat nr) div 256 = 12585135" using n by (intro div_nat_eqI) simp_all
  have e: "(3221794560 + nat nr) mod 256 = nat nr" using d minus_div_mult_eq_mod [of "3221794560 + nat nr" 256] by simp
  have m: "(w :: u32) AND 0xFF = take_bit 8 w" for w
    by (simp add: take_bit_eq_mask mask_eq_exp_minus_1)
  have "unat (IOC_TYPE (IOWR nr)) = unat HTTCSEC_MISC_DEVICE_TYPE"
    unfolding IOC_TYPE_def m using n by (simp add: unsigned_take_bit_eq unat_drop_bit_eq u HTTCSEC_MISC_DEVICE_TYPE_def)
      (simp add: drop_bit_eq_div take_bit_eq_mod d)
  then show "IOC_TYPE (IOWR nr) = HTTCSEC_MISC_DEVICE_TYPE" by (rule unsigned_word_eqI)
  show "IOC_NR (IOWR nr) = nat nr"
    unfolding IOC_NR_def m by (simp add: unsigned_take_bit_eq u) (simp add: take_bit_eq_mod e)
qed

lemma httcsec_ioctl_runs:
  assumes "0 \<le> nr" "nr < 256" "cmds (nat nr) = Some f" "call f s = Some (r, s')"
  shows "httcsec_ioctl True call cmds (IOWR nr) s = Some (if r < 0 then -1 else r, s')"
  using assms by (simp add: httcsec_ioctl_def httcsec_miscdev_ioctl_def IOWR_fields MAX_COMMAND_NR_def nat_less_iff)

lemma httcsec_ioctl_unknown:
  assumes "0 \<le> nr" "nr < 256" "cmds (nat nr) = None"
  shows "httcsec_ioctl True call cmds (IOWR nr) s = Some (-1, s)"
  using assms by (simp add: httcsec_ioctl_def httcsec_miscdev_ioctl_def IOWR_fields MAX_COMMAND_NR_def)

section \<open>The trust score\<close>

text \<open>
  tsb/kernel/platform/trust_score/trust_score.c: a score that user space sets and the kernel reads. \<open>copy\<close> is what the copy
  from user space gives; if it fails, the number of bytes that are missing is returned and the score is set to 0.
\<close>

record trust_score =
  ts_score :: u32
  ts_commands :: cmd_table

definition ioctl_set_trust_score :: "u32 option \<Rightarrow> trust_score \<Rightarrow> int \<times> trust_score" where
  "ioctl_set_trust_score copy s = (case copy of None \<Rightarrow> (4, s\<lparr>ts_score := 0\<rparr>) | Some n \<Rightarrow> (0, s\<lparr>ts_score := n\<rparr>))"

definition tsb_get_trust_state :: "trust_score \<Rightarrow> int" where
  "tsb_get_trust_state s = sint (ts_score s)"

definition trust_score_init :: "trust_score \<Rightarrow> int \<times> trust_score" where
  "trust_score_init s =
     (let (r, c) = httcsec_io_command_register COMMAND_SET_TRUST_SCORE ''ioctl_set_trust_score'' (ts_commands s)
      in (r, s\<lparr>ts_score := 0, ts_commands := c\<rparr>))"

definition trust_score_exit :: "trust_score \<Rightarrow> trust_score" where
  "trust_score_exit s =
     s\<lparr>ts_commands := snd (httcsec_io_command_unregister COMMAND_SET_TRUST_SCORE ''ioctl_set_trust_score'' (ts_commands s))\<rparr>"

text \<open>
  The library has eight numbers between COMMAND_PROCESS_IDENTITY_USER_INTERFACE and COMMAND_SET_TRUST_SCORE that the kernel does
  not have.
\<close>

definition USER_WRITE_TSB_LICENSE :: int where "USER_WRITE_TSB_LICENSE = 103"
definition USER_SET_TRUST_SCORE :: int where "USER_SET_TRUST_SCORE = 111"
definition PARAM_ERR :: int where "PARAM_ERR = 1"

text \<open>The device as the score sees it: one handler, with the argument that user space passes.\<close>

definition score_call :: "u32 option \<Rightarrow> fptr \<Rightarrow> trust_score \<Rightarrow> (int \<times> trust_score) option" where
  "score_call copy f s = (if f = ''ioctl_set_trust_score'' then Some (ioctl_set_trust_score copy s) else None)"

definition tsb_set_trust_score :: "bool \<Rightarrow> u32 \<Rightarrow> trust_score \<Rightarrow> (int \<times> trust_score) option" where
  "tsb_set_trust_score dev score s =
     httcsec_ioctl dev (score_call (Some score)) (ts_commands s) (IOWR USER_SET_TRUST_SCORE) s"

text \<open>The first word of the parameter block, its type, is left 0.\<close>

definition tsb_write_license :: "bool \<Rightarrow> u32 \<Rightarrow> byte list option \<Rightarrow> trust_score \<Rightarrow> (int \<times> trust_score) option" where
  "tsb_write_license dev uiDataLen pcData s =
     (if uiDataLen = 0 \<or> pcData = None then Some (PARAM_ERR, s)
      else httcsec_ioctl dev (score_call (Some 0)) (ts_commands s) (IOWR USER_WRITE_TSB_LICENSE) s)"

text \<open>
  So the function that sets the score never does: it reports -1. Writing a licence, for which the kernel has no
  command, reports success, writes nothing and clears the score.
\<close>

lemma trust_score_unreachable:
  assumes "trust_score_init s = (0, s1)" "ts_commands s 111 = None" "len \<noteq> 0"
  shows "tsb_set_trust_score True n (s1\<lparr>ts_score := m\<rparr>) = Some (-1, s1\<lparr>ts_score := m\<rparr>)
    \<and> tsb_write_license True len (Some d) (s1\<lparr>ts_score := m\<rparr>) = Some (0, s1\<lparr>ts_score := 0\<rparr>)"
proof
  let ?s = "s1\<lparr>ts_score := m\<rparr>"
  have c: "ts_commands ?s = (ts_commands s)(103 \<mapsto> ''ioctl_set_trust_score'')"
    using assms(1) by (auto simp: trust_score_init_def httcsec_io_command_register_def Let_def MAX_COMMAND_NR_def split: if_splits)
  show "tsb_set_trust_score True n ?s = Some (-1, ?s)"
    using assms(2) c unfolding tsb_set_trust_score_def by (intro httcsec_ioctl_unknown) (simp_all add: USER_SET_TRUST_SCORE_def)
  have "httcsec_ioctl True (score_call (Some 0)) (ts_commands ?s) (IOWR USER_WRITE_TSB_LICENSE) ?s
      = Some (if (0::int) < 0 then -1 else 0, s1\<lparr>ts_score := 0\<rparr>)"
    using c by (intro httcsec_ioctl_runs [where f = "''ioctl_set_trust_score''"])
      (simp_all add: USER_WRITE_TSB_LICENSE_def score_call_def ioctl_set_trust_score_def)
  then show "tsb_write_license True len (Some d) ?s = Some (0, s1\<lparr>ts_score := 0\<rparr>)"
    using assms(3) by (simp add: tsb_write_license_def)
qed

end
