(* ===== verification/Policy_File.thy ===== *)
theory Policy_File
  imports Device_Client Fac_Policy Audit_Report
begin

text \<open>
  The way of the access rules from the management library to the kernel: tss-main/tcf/src/tcf_file_protect.c (rules are put into the
  format of the interface), the counter of tss-main/tcf/src/tcf_dev_version.c, tss-main/tcs/tcsapi/tcsu/tcs_file_protect.c (the
  policy file), tss-main/httcutils/src/file.c, and the reload command of tsb/user/tsb_admin.c, which ends in
  \<open>ioctl_reload_file_protect_policy\<close> of Fac_Policy.

  Parameters: memory, opening and writing of files, semaphores, the identity of the trusted module, certificates and
  signatures, and how the kernel reads a file. The fields with network byte order of an update are given by their values. A result
  \<open>None\<close> is a run that reads outside a buffer or overflows an \<open>int\<close>.
\<close>

section \<open>Files\<close>

text \<open>A missing file is \<open>None\<close>. \<open>ok\<close>: memory is there and everything can be read.\<close>

definition httc_util_file_read_full :: "bool \<Rightarrow> byte list option \<Rightarrow> byte list option" where
  "httc_util_file_read_full ok f =
     (case f of None \<Rightarrow> None | Some c \<Rightarrow> if length c > 1024 * 1024 * 100 \<or> c = [] \<or> \<not> ok then None else Some c)"

text \<open>\<open>w\<close> is \<open>None\<close> if the file cannot be opened, otherwise the number of bytes that can be written. Opening for writing empties the file.\<close>

definition httc_util_file_write :: "nat option \<Rightarrow> byte list \<Rightarrow> byte list option \<Rightarrow> int \<times> byte list option" where
  "httc_util_file_write w buf f =
     (case w of None \<Rightarrow> (-1, f) | Some n \<Rightarrow> (int (length (take n buf)), Some (take n buf)))"

text \<open>Writing behind the end fills the gap with zeros.\<close>

definition write_at :: "byte list \<Rightarrow> nat \<Rightarrow> byte list \<Rightarrow> byte list" where
  "write_at c off b = (if b = [] then c else take off (c @ replicate (off - length c) 0) @ b @ drop (off + length b) c)"

definition httc_util_file_write_offset :: "nat option \<Rightarrow> nat \<Rightarrow> byte list \<Rightarrow> byte list option \<Rightarrow> int \<times> byte list option" where
  "httc_util_file_write_offset w off buf f =
     (case (f, w) of (Some c, Some n) \<Rightarrow> (int (length (take n buf)), Some (write_at c off (take n buf))) | _ \<Rightarrow> (0, f))"

text \<open>Several writes, up to the first that is short; \<open>None\<close> as offset stands for writing the file anew.\<close>

fun write_all :: "(nat \<Rightarrow> nat option) \<Rightarrow> (nat option \<times> byte list) list \<Rightarrow> byte list option \<Rightarrow> bool \<times> byte list option" where
  "write_all w [] f = (True, f)"
| "write_all w ((off, b) # ps) f =
     (let (r, f') = (case off of None \<Rightarrow> httc_util_file_write (w 0) b f | Some n \<Rightarrow> httc_util_file_write_offset (w 0) n b f)
      in if r \<noteq> int (length b) then (False, f') else write_all (\<lambda>k. w (Suc k)) ps f')"

section \<open>Rules of the caller\<close>

record privileged_user =
  pv_type :: u32
  pv_path :: "byte list option"
  pv_hash :: "byte list option"

record rule_user =
  ru_type :: u32
  ru_measure_flags :: u32
  ru_path :: "byte list option"
  ru_processes :: "privileged_user option list"

record policy_update =
  up_size :: u32
  up_action :: u32
  up_replay_counter :: "64 word"
  up_item_number :: u32
  up_data_length :: u32
  up_tpcm_id :: "byte list"
  up_data :: "byte list"

definition TCF_ERR_PARAMETER :: int where "TCF_ERR_PARAMETER = 4096"
definition TCF_ERR_FILE :: int where "TCF_ERR_FILE = 4098"
definition TCF_ERR_NOMEM :: int where "TCF_ERR_NOMEM = 4099"
definition TCF_ERR_BAD_DATA :: int where "TCF_ERR_BAD_DATA = 4100"
definition TCF_ERR_INPUT_EXCEED :: int where "TCF_ERR_INPUT_EXCEED = 4104"
definition TCF_ERR_OUTPUT_EXCEED :: int where "TCF_ERR_OUTPUT_EXCEED = 4105"
definition TCF_ERR_VERSION :: int where "TCF_ERR_VERSION = 4111"
definition TSS_ERR_PARAMETER :: int where "TSS_ERR_PARAMETER = 1024"
definition TSS_ERR_NOMEM :: int where "TSS_ERR_NOMEM = 1025"
definition TSS_ERR_READ :: int where "TSS_ERR_READ = 1035"
definition TSS_ERR_WRITE :: int where "TSS_ERR_WRITE = 1036"
definition TSS_ERR_NOT_SUPPORT :: int where "TSS_ERR_NOT_SUPPORT = 1039"

abbreviation (input) POLICY_ACTION_SET :: u32 where "POLICY_ACTION_SET \<equiv> 0"
abbreviation (input) POLICY_ACTION_ADD :: u32 where "POLICY_ACTION_ADD \<equiv> 1"
abbreviation (input) POLICY_ACTION_DELETE :: u32 where "POLICY_ACTION_DELETE \<equiv> 2"
definition POLICY_UPDATE_SIZE :: nat where "POLICY_UPDATE_SIZE = 56"
definition MAX_TPCM_ID_SIZE :: nat where "MAX_TPCM_ID_SIZE = 32"

text \<open>A field of 256 bytes that is cleared before the string is copied.\<close>

definition path_field :: "byte list \<Rightarrow> byte list" where
  "path_field p = cstr p @ replicate (256 - strlen p) 0"

fun privileged_bytes :: "privileged_user option list \<Rightarrow> (int + byte list) option" where
  "privileged_bytes [] = Some (Inr [])"
| "privileged_bytes (None # ps) = Some (Inl TCF_ERR_PARAMETER)"
| "privileged_bytes (Some v # ps) =
     (case pv_path v of None \<Rightarrow> Some (Inl TCF_ERR_PARAMETER)
      | Some p \<Rightarrow>
          if strlen p + 1 > 256 then Some (Inl TCF_ERR_INPUT_EXCEED)
          else (case pv_hash v of None \<Rightarrow> None
            | Some h \<Rightarrow>
                if length h < 32 then None
                else (case privileged_bytes ps of
                        Some (Inr r) \<Rightarrow> Some (Inr (PUT_ULONG_BE (pv_type v) @ path_field p @ take 32 h @ r))
                      | e \<Rightarrow> e)))"

definition rule_bytes :: "rule_user \<Rightarrow> (int + byte list) option" where
  "rule_bytes u =
     (case ru_path u of None \<Rightarrow> Some (Inl TCF_ERR_PARAMETER)
      | Some p \<Rightarrow>
          if strlen p + 1 > 256 then Some (Inl TCF_ERR_INPUT_EXCEED)
          else (case privileged_bytes (ru_processes u) of
                  Some (Inr r) \<Rightarrow> Some (Inr ([ucast (ru_measure_flags u), ucast (ru_type u), of_nat (length (ru_processes u) div 256),
                                             of_nat (length (ru_processes u))] @ path_field p @ r))
                | e \<Rightarrow> e))"

fun rules_bytes :: "rule_user list \<Rightarrow> (int + byte list) option" where
  "rules_bytes [] = Some (Inr [])"
| "rules_bytes (u # us) =
     (case rule_bytes u of
        Some (Inr b) \<Rightarrow> (case rules_bytes us of Some (Inr r) \<Rightarrow> Some (Inr (b @ r)) | e \<Rightarrow> e)
      | e \<Rightarrow> e)"

text \<open>
  The sizes of an item and of a process are multiples of four, so that the alignments change nothing and every byte of the buffer is
  written. The last test of the code compares a part of the sum with the sum.
\<close>

definition serialize_length :: "rule_user list \<Rightarrow> nat" where
  "serialize_length us = sum_list (map (\<lambda>u. ITEM_SIZE + length (ru_processes u) * PROCESS_SIZE) us)"

definition tcf_util_file_protect_policy_serialize :: "bool \<Rightarrow> rule_user list \<Rightarrow> (int + byte list) option" where
  "tcf_util_file_protect_policy_serialize mem us =
     (if serialize_length us \<ge> 2 ^ 31 then None else if \<not> mem then Some (Inl TCF_ERR_NOMEM) else rules_bytes us)"

text \<open>\<open>out\<close>: the pointers for the results are not NULL.\<close>

definition tcf_prepare_update_file_protect_policy ::
  "(nat \<Rightarrow> bool) \<Rightarrow> rule_user list \<Rightarrow> byte list option \<Rightarrow> nat \<Rightarrow> u32 \<Rightarrow> 64 word \<Rightarrow> bool \<Rightarrow> (int + policy_update) option" where
  "tcf_prepare_update_file_protect_policy mem us tpcm_id tpcm_id_length action replay_counter out =
     (if tpcm_id_length \<noteq> MAX_TPCM_ID_SIZE \<or> \<not> out then Some (Inl TCF_ERR_PARAMETER)
      else case tpcm_id of None \<Rightarrow> Some (Inl TCF_ERR_PARAMETER)
      | Some ident \<Rightarrow>
          (case tcf_util_file_protect_policy_serialize (mem 0) us of None \<Rightarrow> None
           | Some (Inl e) \<Rightarrow> Some (Inl e)
           | Some (Inr data) \<Rightarrow>
               if \<not> mem 1 then Some (Inl TCF_ERR_NOMEM)
               else if length ident < tpcm_id_length then None
               else Some (Inr \<lparr>up_size = of_nat POLICY_UPDATE_SIZE, up_action = action, up_replay_counter = replay_counter,
                      up_item_number = of_nat (length us), up_data_length = of_nat (length data),
                      up_tpcm_id = take tpcm_id_length ident, up_data = data\<rparr>)))"

section \<open>The store\<close>

text \<open>The file of the counter, the policy file, the rules of the kernel and the notices that were written.\<close>

record rule_store =
  rs_version :: "byte list option"
  rs_file :: "byte list option"
  rs_fac :: fac_list
  rs_notices :: "(64 word \<times> int) list"

record store_env =
  se_mkdir :: bool
  se_sem :: int
  se_read_version :: bool
  se_write_version :: "nat option"
  se_tpcm_id :: "int \<times> byte list"
  se_cert :: int
  se_verify :: "policy_update \<Rightarrow> int"
  se_read :: bool
  se_write :: "nat \<Rightarrow> nat option"
  se_mem :: bool
  se_dev :: bool
  se_kfile :: "byte list \<Rightarrow> kfile"
  se_kz :: "byte list \<Rightarrow> bool"
  se_vm :: bool

definition POLICY_TYPE_FILE_PROTECT :: int where "POLICY_TYPE_FILE_PROTECT = 15"

text \<open>A file of the counter that cannot be read is written anew.\<close>

definition tcf_set_file_protect_version :: "store_env \<Rightarrow> 64 word \<Rightarrow> rule_store \<Rightarrow> int \<times> rule_store" where
  "tcf_set_file_protect_version env version s =
     (if \<not> se_mkdir env then (TCF_ERR_FILE, s)
      else if se_sem env \<noteq> 0 then (se_sem env, s)
      else let old = httc_util_file_read_full (se_read_version env) (rs_version s);
               (r, f) = httc_util_file_write (se_write_version env) (le64_word version) (rs_version s);
               new = (if r \<noteq> 8 then TCF_ERR_FILE else 0, s\<lparr>rs_version := f\<rparr>)
           in case old of None \<Rightarrow> new
              | Some c \<Rightarrow> if length c \<noteq> 8 then (TCF_ERR_FILE, s)
                          else if version \<le> le64 c then (TCF_ERR_VERSION, s) else new)"

fun get_file_protect_date_len :: "nat \<Rightarrow> byte list \<Rightarrow> nat option" where
  "get_file_protect_date_len 0 items = Some 0"
| "get_file_protect_date_len (Suc n) items =
     (if length items < 4 then None
      else let k = ITEM_SIZE + item_process_num items * PROCESS_SIZE
           in map_option (\<lambda>len. k + len) (get_file_protect_date_len n (drop k items)))"

definition tcf_util_check_file_protect_update :: "store_env \<Rightarrow> policy_update \<Rightarrow> rule_store \<Rightarrow> (int \<times> rule_store) option" where
  "tcf_util_check_file_protect_update env up s =
     (if up_size up \<noteq> of_nat POLICY_UPDATE_SIZE then Some (TCF_ERR_NOMEM, s)
      else let (r, s1) = tcf_set_file_protect_version env (up_replay_counter up) s
           in if r \<noteq> 0 then Some (TCF_ERR_VERSION, s1)
              else if fst (se_tpcm_id env) \<noteq> 0 then Some (TCF_ERR_BAD_DATA, s1)
              else if \<not> memeq (up_tpcm_id up) (snd (se_tpcm_id env)) MAX_TPCM_ID_SIZE then Some (TCF_ERR_BAD_DATA, s1)
              else map_option (\<lambda>len. (if wrap32 len \<noteq> unat (up_data_length up) then TCF_ERR_BAD_DATA else 0, s1))
                     (get_file_protect_date_len (unat (up_item_number up)) (up_data up)))"

section \<open>The policy file\<close>

text \<open>The items must fill the buffer exactly; \<open>len\<close> is what is left of the announced length.\<close>

fun check_items :: "nat \<Rightarrow> byte list \<Rightarrow> int \<Rightarrow> bool option" where
  "check_items 0 buf len = Some (len = 0)"
| "check_items (Suc n) buf len =
     (if len < int ITEM_SIZE then Some False
      else if length buf < 4 then None
      else let k = ITEM_SIZE + item_process_num buf * PROCESS_SIZE
           in if len < int k then Some False else check_items n (drop k buf) (len - int k))"

definition check_buffer :: "byte list \<Rightarrow> int \<Rightarrow> int \<Rightarrow> bool option" where
  "check_buffer buf len num = check_items (nat num) buf len"

text \<open>The buffer from each item on.\<close>

fun item_pointers :: "nat \<Rightarrow> byte list \<Rightarrow> byte list list" where
  "item_pointers 0 b = []"
| "item_pointers (Suc n) b = b # item_pointers n (drop (ITEM_SIZE + item_process_num b * PROCESS_SIZE) b)"

definition item_of :: "byte list \<Rightarrow> byte list" where
  "item_of p = take (ITEM_SIZE + item_process_num p * PROCESS_SIZE) p"

definition same_item :: "byte list \<Rightarrow> byte list \<Rightarrow> bool" where
  "same_item p q \<longleftrightarrow> strcmp (drop 4 p) (drop 4 q) = 0 \<and> (p ! 0 = q ! 0 \<or> p ! 1 = q ! 1)"

text \<open>
  The number of items in the header and the items, if the file can be read and its items fill it: \<open>Inl\<close> is the error that is
  returned. The first word of the header, the length, is not looked at.
\<close>

definition policy_items :: "byte list \<Rightarrow> (int + byte list \<times> int) option" where
  "policy_items c =
     (if length c < 8 then None
      else let number = sint (le32 (drop 4 c))
           in map_option (\<lambda>ok. if ok then Inr (c, number) else Inl TSS_ERR_PARAMETER) (check_buffer (drop 8 c) (int (length c) - 8) number))"

definition old_policy :: "store_env \<Rightarrow> rule_store \<Rightarrow> (int + byte list \<times> int) option" where
  "old_policy env s =
     (case httc_util_file_read_full (se_read env) (rs_file s) of None \<Rightarrow> Some (Inl TSS_ERR_READ) | Some c \<Rightarrow> policy_items c)"

definition store_file :: "store_env \<Rightarrow> int \<Rightarrow> int \<Rightarrow> (nat \<times> byte list) list \<Rightarrow> rule_store \<Rightarrow> int \<times> rule_store" where
  "store_file env len num parts s =
     (let (ok, f) = write_all (se_write env)
        ((None, le32_word (of_int len)) # (Some 4, le32_word (of_int num)) # map (map_prod Some id) parts) (rs_file s)
      in (if ok then 0 else TSS_ERR_WRITE, s\<lparr>rs_file := f\<rparr>))"

definition httc_set_file_protect_policy :: "store_env \<Rightarrow> byte list \<Rightarrow> int \<Rightarrow> int \<Rightarrow> rule_store \<Rightarrow> (int \<times> rule_store) option" where
  "httc_set_file_protect_policy env item len num s =
     (case check_buffer item len num of None \<Rightarrow> None
      | Some False \<Rightarrow> Some (TSS_ERR_PARAMETER, s)
      | Some True \<Rightarrow> if length item < nat len then None else Some (store_file env len num [(8, take (nat len) item)] s))"

text \<open>The new length counts the header of the old file.\<close>

definition httc_add_file_protect_policy :: "store_env \<Rightarrow> byte list \<Rightarrow> int \<Rightarrow> int \<Rightarrow> rule_store \<Rightarrow> (int \<times> rule_store) option" where
  "httc_add_file_protect_policy env item len num s =
     (if num = 0 then Some (0, s)
      else case check_buffer item len num of None \<Rightarrow> None
      | Some False \<Rightarrow> Some (TSS_ERR_PARAMETER, s)
      | Some True \<Rightarrow>
          (case old_policy env s of None \<Rightarrow> None
            | Some (Inl e) \<Rightarrow> Some (e, s)
            | Some (Inr (c, number)) \<Rightarrow>
                if length item < nat len then None
                else if list_ex (\<lambda>p. list_ex (same_item p) (item_pointers (nat num) item)) (item_pointers (nat number) (drop 8 c))
                then Some (TSS_ERR_PARAMETER, s)
                else Some (store_file env (int (length c) + len) (number + num)
                       [(8, drop 8 c), (length c, take (nat len) item)] s)))"

definition httc_delete_file_protect_policy :: "store_env \<Rightarrow> byte list \<Rightarrow> int \<Rightarrow> int \<Rightarrow> rule_store \<Rightarrow> (int \<times> rule_store) option" where
  "httc_delete_file_protect_policy env item len num s =
     (if num = 0 then Some (0, s)
      else case check_buffer item len num of None \<Rightarrow> None
      | Some False \<Rightarrow> Some (TSS_ERR_PARAMETER, s)
      | Some True \<Rightarrow>
          (case httc_util_file_read_full (se_read env) (rs_file s) of None \<Rightarrow> Some (TSS_ERR_READ, s)
           | Some c \<Rightarrow>
               if \<not> se_mem env then Some (TSS_ERR_NOMEM, s)
               else (case policy_items c of None \<Rightarrow> None
                 | Some (Inl e) \<Rightarrow> Some (e, s)
                 | Some (Inr (c, number)) \<Rightarrow>
                     let old = item_pointers (nat number) (drop 8 c);
                         kept = filter (\<lambda>p. \<not> list_ex (same_item p) (item_pointers (nat num) item)) old;
                         data = concat (map item_of kept)
                     in Some (store_file env (int (length data)) (number - int (length old - length kept)) [(8, data)] s))))"

definition tcs_update_file_protect_policy :: "store_env \<Rightarrow> policy_update \<Rightarrow> rule_store \<Rightarrow> (int \<times> rule_store) option" where
  "tcs_update_file_protect_policy env up s =
     (if up_size up \<noteq> of_nat POLICY_UPDATE_SIZE then Some (TSS_ERR_PARAMETER, s)
      else if se_cert env \<noteq> 0 then Some (se_cert env, s)
      else if se_verify env up \<noteq> 0 then Some (se_verify env up, s)
      else let item = up_data up; len = sint (up_data_length up); num = sint (up_item_number up)
           in if up_action up = POLICY_ACTION_SET then httc_set_file_protect_policy env item len num s
              else if up_action up = POLICY_ACTION_ADD then httc_add_file_protect_policy env item len num s
              else if up_action up = POLICY_ACTION_DELETE then httc_delete_file_protect_policy env item len num s
              else Some (TSS_ERR_NOT_SUPPORT, s))"

section \<open>Telling the kernel\<close>

definition rule_call :: "store_env \<Rightarrow> byte list option \<Rightarrow> fptr \<Rightarrow> fac_list \<Rightarrow> (int \<times> fac_list) option" where
  "rule_call env f h fac =
     (if h = ''ioctl_reload_file_protect_policy''
      then ioctl_reload_file_protect_policy (se_kz env) (se_vm env) (map_option (se_kfile env) f) fac else None)"

definition tsb_reload_file_protect_policy :: "store_env \<Rightarrow> rule_store \<Rightarrow> (int \<times> rule_store) option" where
  "tsb_reload_file_protect_policy env s =
     map_option (\<lambda>(r, fac). (r, s\<lparr>rs_fac := fac\<rparr>))
       (httcsec_ioctl (se_dev env) (rule_call env (rs_file s)) (fl_commands (rs_fac s)) (IOWR COMMAND_RELOAD_FILE_PROTECT_POLICY) (rs_fac s))"

text \<open>The result of the reload is only logged.\<close>

definition tcf_update_file_protect_policy :: "store_env \<Rightarrow> policy_update \<Rightarrow> rule_store \<Rightarrow> (int \<times> rule_store) option" where
  "tcf_update_file_protect_policy env up s =
     (case tcf_util_check_file_protect_update env up s of None \<Rightarrow> None
      | Some (r, s1) \<Rightarrow>
          if r \<noteq> 0 then Some (r, s1)
          else (case tcs_update_file_protect_policy env up s1 of None \<Rightarrow> None
            | Some (r, s2) \<Rightarrow>
                if r \<noteq> 0 then Some (r, s2)
                else map_option (\<lambda>(r, s3). (0, s3\<lparr>rs_notices := rs_notices s3 @ [(up_replay_counter up, POLICY_TYPE_FILE_PROTECT)]\<rparr>))
                       (tsb_reload_file_protect_policy env s2)))"

section \<open>Reading the rules back\<close>

definition tcs_get_file_protect_policy :: "store_env \<Rightarrow> rule_store \<Rightarrow> (int \<times> byte list \<times> int) option" where
  "tcs_get_file_protect_policy env s =
     (if rs_file s = None \<or> rs_file s = Some [] then Some (0, [], 0)
      else case old_policy env s of None \<Rightarrow> None
        | Some (Inl e) \<Rightarrow> Some (e, [], 0)
        | Some (Inr (c, number)) \<Rightarrow> if \<not> se_mem env then Some (TSS_ERR_NOMEM, [], number) else Some (0, drop 8 c, number))"

definition extract_process :: "byte list \<Rightarrow> privileged_user option" where
  "extract_process p = Some \<lparr>pv_type = be32 p, pv_path = Some (cstr (drop 4 p)), pv_hash = Some (take 32 (drop 260 p))\<rparr>"

definition extract_rule :: "byte list \<Rightarrow> rule_user" where
  "extract_rule b = \<lparr>ru_type = ucast (b ! 1), ru_measure_flags = ucast (b ! 0), ru_path = Some (cstr (drop 4 b)),
     ru_processes = map (\<lambda>j. extract_process (drop (ITEM_SIZE + j * PROCESS_SIZE) b)) [0..<item_process_num b]\<rparr>"

text \<open>\<open>mem b\<close>: the allocations for the item at \<open>b\<close> succeed. The length is tested after the item was read.\<close>

fun extract_rules :: "(byte list \<Rightarrow> bool) \<Rightarrow> nat \<Rightarrow> byte list \<Rightarrow> int \<Rightarrow> (int + rule_user list) option" where
  "extract_rules mem 0 b len = Some (Inr [])"
| "extract_rules mem (Suc n) b len =
     (let k = ITEM_SIZE + item_process_num b * PROCESS_SIZE
      in if length b < 4 \<or> length b < k then None
         else if \<not> mem b then Some (Inl TCF_ERR_NOMEM)
         else if len < int k then Some (Inl TCF_ERR_OUTPUT_EXCEED)
         else (case extract_rules mem n (drop k b) (len - int k) of Some (Inr us) \<Rightarrow> Some (Inr (extract_rule b # us)) | e \<Rightarrow> e))"

definition tcf_util_file_protect_policy_extract ::
  "bool \<Rightarrow> (byte list \<Rightarrow> bool) \<Rightarrow> byte list \<Rightarrow> int \<Rightarrow> int \<Rightarrow> (int + rule_user list) option" where
  "tcf_util_file_protect_policy_extract mem mem_item items len num =
     (if \<not> mem then Some (Inl TCF_ERR_NOMEM) else extract_rules mem_item (nat num) items len)"

definition tcf_get_file_protect_policy :: "store_env \<Rightarrow> (byte list \<Rightarrow> bool) \<Rightarrow> rule_store \<Rightarrow> (int + rule_user list) option" where
  "tcf_get_file_protect_policy env mem_item s =
     (case tcs_get_file_protect_policy env s of None \<Rightarrow> None
      | Some (r, items, num) \<Rightarrow>
          if r \<noteq> 0 then Some (Inl r)
          else tcf_util_file_protect_policy_extract (se_mem env) mem_item items (int (length items)) num)"

section \<open>What the bytes mean\<close>

definition process_ok :: "privileged_user option \<Rightarrow> bool" where
  "process_ok pv = (case pv of None \<Rightarrow> False
     | Some v \<Rightarrow> (case (pv_path v, pv_hash v) of (Some p, Some h) \<Rightarrow> strlen p \<le> 255 \<and> 32 \<le> length h | _ \<Rightarrow> False))"

definition rule_ok :: "rule_user \<Rightarrow> bool" where
  "rule_ok u \<longleftrightarrow> (case ru_path u of None \<Rightarrow> False | Some p \<Rightarrow> strlen p \<le> 255)
     \<and> list_all process_ok (ru_processes u) \<and> length (ru_processes u) < 65536"

definition dac_of :: "privileged_user option \<Rightarrow> dac_policy" where
  "dac_of pv = (let v = the pv in \<lparr>privi_type = pv_type v, process_hash = take 32 (the (pv_hash v)), dac_sub_name = path_field (the (pv_path v))\<rparr>)"

definition rule_of :: "rule_user \<Rightarrow> mac_policy" where
  "rule_of u = \<lparr>list_dac = map dac_of (ru_processes u), measure_flags = ucast (ru_measure_flags u), mac_type = ucast (ru_type u),
     privileged_process_num = length (ru_processes u), mac_obj_name = path_field (the (ru_path u))\<rparr>"

definition encode_rules :: "mac_policy list \<Rightarrow> byte list" where
  "encode_rules ms = concat (map encode_mac ms)"

lemma encode_rules_simps [simp]: "encode_rules [] = []" "encode_rules (m # ms) = encode_mac m @ encode_rules ms"
  "encode_rules (ms @ ns) = encode_rules ms @ encode_rules ns"
  by (simp_all add: encode_rules_def)

lemma path_field_ok:
  assumes "strlen p \<le> 255"
  shows "length (path_field p) = 256" "0 \<in> set (path_field p)" "cstr (path_field p @ r) = cstr p"
proof -
  have r: "replicate (256 - strlen p) (0 :: byte) = 0 # replicate (255 - strlen p) 0"
    using assms by (simp add: Suc_diff_le flip: replicate_Suc)
  show "length (path_field p) = 256" using assms by (simp add: path_field_def strlen_def)
  show "0 \<in> set (path_field p)" using assms by (simp add: path_field_def)
  show "cstr (path_field p @ r) = cstr p" unfolding path_field_def r by (simp add: cstr_append_nul)
qed

lemma privileged_bytes_encode:
  "list_all process_ok ps \<Longrightarrow> privileged_bytes ps = Some (Inr (concat (map encode_dac (map dac_of ps))))"
proof (induction ps)
  case (Cons pv ps)
  then obtain v p h where "pv = Some v" "pv_path v = Some p" "pv_hash v = Some h" "strlen p \<le> 255" "32 \<le> length h"
    by (auto simp: process_ok_def split: option.splits)
  with Cons show ?case by (simp add: dac_of_def encode_dac_def)
qed simp

lemma rule_bytes_encode:
  assumes "rule_ok u"
  shows "rule_bytes u = Some (Inr (encode_mac (rule_of u)))" "mac_wf (rule_of u)"
proof -
  obtain p where p: "ru_path u = Some p" "strlen p \<le> 255" "list_all process_ok (ru_processes u)" "length (ru_processes u) < 65536"
    using assms by (auto simp: rule_ok_def split: option.splits)
  show "rule_bytes u = Some (Inr (encode_mac (rule_of u)))"
    using p by (simp add: rule_bytes_def privileged_bytes_encode encode_mac_def rule_of_def)
  have "length (process_hash (dac_of pv)) = LEN_HASH \<and> length (dac_sub_name (dac_of pv)) = 256" if "process_ok pv" for pv
    using that by (auto simp: process_ok_def dac_of_def LEN_HASH_def path_field_ok split: option.splits)
  then show "mac_wf (rule_of u)"
    using p by (auto simp: mac_wf_def rule_of_def path_field_ok list_all_iff)
qed

lemma rules_bytes_encode: "list_all rule_ok us \<Longrightarrow> rules_bytes us = Some (Inr (encode_rules (map rule_of us)))"
  by (induction us) (simp_all add: rule_bytes_encode)

lemma serialize_length_encode:
  "list_all rule_ok us \<Longrightarrow> serialize_length us = length (encode_rules (map rule_of us))"
proof (induction us)
  case (Cons u us)
  then have wf: "mac_wf (rule_of u)" by (simp add: rule_bytes_encode)
  have "length (encode_mac (rule_of u)) = ITEM_SIZE + length (ru_processes u) * PROCESS_SIZE"
    using parse_item_encode(2,3) [OF wf, of "[]"] by (simp add: rule_of_def)
  with Cons show ?case by (simp add: serialize_length_def)
qed (simp add: serialize_length_def)

text \<open>A pointer into a list of items is at the item \<open>m\<close>.\<close>

definition points :: "byte list \<Rightarrow> mac_policy \<Rightarrow> bool" where
  "points p m \<longleftrightarrow> mac_wf m \<and> (\<exists>r. p = encode_mac m @ r)"

definition same_rule :: "mac_policy \<Rightarrow> mac_policy \<Rightarrow> bool" where
  "same_rule m n \<longleftrightarrow> cstr (mac_obj_name m) = cstr (mac_obj_name n) \<and> (measure_flags m = measure_flags n \<or> mac_type m = mac_type n)"

lemma encode_mac_head: "(encode_mac m @ r) ! 0 = measure_flags m" "(encode_mac m @ r) ! Suc 0 = mac_type m" "4 \<le> length (encode_mac m)"
  by (simp_all add: encode_mac_def)

lemma item_size_encode:
  assumes "mac_wf m"
  shows "ITEM_SIZE + item_process_num (encode_mac m @ r) * PROCESS_SIZE = length (encode_mac m)"
  using parse_item_encode(2) [OF assms, of r] by simp

lemma points_fields:
  "points p m \<Longrightarrow> p ! 0 = measure_flags m" "points p m \<Longrightarrow> p ! Suc 0 = mac_type m" "points p m \<Longrightarrow> cstr (drop 4 p) = cstr (mac_obj_name m)"
  using parse_item_encode(4) by (auto simp: points_def encode_mac_head simp del: drop_append)

lemma same_item_points: "points p m \<Longrightarrow> points q n \<Longrightarrow> same_item p q \<longleftrightarrow> same_rule m n"
  by (simp add: same_item_def same_rule_def strcmp_eq_0_iff points_fields)

lemma item_of_points: "points p m \<Longrightarrow> item_of p = encode_mac m"
  by (auto simp: points_def item_of_def item_size_encode)

lemma item_pointers_encode:
  "list_all mac_wf ms \<Longrightarrow> list_all2 points (item_pointers (length ms) (encode_rules ms @ r)) ms"
  by (induction ms) (auto simp: item_size_encode points_def)

lemma check_items_encode:
  "list_all mac_wf ms \<Longrightarrow> check_items (length ms) (encode_rules ms @ r) (int (length (encode_rules ms))) = Some True"
proof (induction ms)
  case (Cons m ms)
  then have wf: "mac_wf m" by simp
  have "ITEM_SIZE \<le> length (encode_mac m)" using item_size_encode [OF wf, of "[]"] by simp
  then show ?case using Cons encode_mac_head(3) [of m] by (simp add: item_size_encode [OF wf] Let_def)
qed simp

lemma date_len_encode:
  "list_all mac_wf ms \<Longrightarrow> get_file_protect_date_len (length ms) (encode_rules ms @ r) = Some (length (encode_rules ms))"
proof (induction ms)
  case (Cons m ms)
  then have wf: "mac_wf m" by simp
  show ?case using Cons encode_mac_head(3) [of m] by (simp add: item_size_encode [OF wf] Let_def)
qed simp

lemma all2_list_ex:
  "list_all2 R ps ms \<Longrightarrow> (\<And>p m. R p m \<Longrightarrow> P p = Q m) \<Longrightarrow> list_ex P ps = list_ex Q ms"
  by (induction rule: list_all2_induct) auto

lemma all2_filter:
  "list_all2 R ps ms \<Longrightarrow> (\<And>p m. R p m \<Longrightarrow> P p = Q m) \<Longrightarrow> list_all2 R (filter P ps) (filter Q ms)"
  by (induction rule: list_all2_induct) auto

lemma concat_items: "list_all2 points ps ms \<Longrightarrow> concat (map item_of ps) = encode_rules ms"
  by (induction rule: list_all2_induct) (simp_all add: item_of_points)

lemma rules_number_le: "list_all mac_wf ms \<Longrightarrow> length ms \<le> length (encode_rules ms)"
proof (induction ms)
  case (Cons m ms)
  then show ?case using encode_mac_head(3) [of m] by simp
qed simp

lemma sint_of_nat_small: "n < 2 ^ 31 \<Longrightarrow> sint (of_nat n :: u32) = int n"
  by (simp add: signed_of_nat signed_take_bit_int_eq_self)

section \<open>The policy file refines a list of rules\<close>

definition full_writes :: "(nat \<Rightarrow> nat option) \<Rightarrow> bool" where
  "full_writes w \<longleftrightarrow> (\<forall>k. case w k of None \<Rightarrow> False | Some n \<Rightarrow> 2 ^ 31 \<le> n)"

lemma write_at_end: "write_at c (length c) b = c @ b"
  by (simp add: write_at_def)

lemma write_all_append:
  assumes "full_writes w" "length b \<le> 2 ^ 31"
  shows "write_all w ((Some (length c), b) # ps) (Some c) = write_all (\<lambda>k. w (Suc k)) ps (Some (c @ b))" "full_writes (\<lambda>k. w (Suc k))"
    "write_all w ((None, b) # ps) f = write_all (\<lambda>k. w (Suc k)) ps (Some b)"
proof -
  obtain n where n: "w 0 = Some n" "2 ^ 31 \<le> n" using assms(1) unfolding full_writes_def by (auto split: option.splits)
  then show "write_all w ((Some (length c), b) # ps) (Some c) = write_all (\<lambda>k. w (Suc k)) ps (Some (c @ b))"
    "write_all w ((None, b) # ps) f = write_all (\<lambda>k. w (Suc k)) ps (Some b)"
    using assms(2) by (simp_all add: httc_util_file_write_offset_def httc_util_file_write_def write_at_end)
  show "full_writes (\<lambda>k. w (Suc k))" using assms(1) by (simp add: full_writes_def)
qed

lemma store_file_parts:
  assumes "full_writes (se_write env)" "length d \<le> 2 ^ 31" "length e \<le> 2 ^ 31"
  shows "store_file env len num [(8, d)] s = (0, s\<lparr>rs_file := Some (le32_word (of_int len) @ le32_word (of_int num) @ d)\<rparr>)"
    "store_file env len num [(8, d), (8 + length d, e)] s
      = (0, s\<lparr>rs_file := Some (le32_word (of_int len) @ le32_word (of_int num) @ d @ e)\<rparr>)"
proof -
  define w where "w = se_write env"
  define a where "a = le32_word (of_int len)"
  define b where "b = le32_word (of_int num)"
  have l: "length a = 4" "length (a @ b) = 8" "length ((a @ b) @ d) = 8 + length d" by (simp_all add: a_def b_def)
  have s: "length a \<le> 2 ^ 31" "length b \<le> 2 ^ 31" by (simp_all add: a_def b_def)
  note w = assms(1) [folded w_def]
  note w1 = write_all_append(2) [OF w s(1)]
  note w2 = write_all_append(2) [OF w1 s(2)]
  note w3 = write_all_append(2) [OF w2 assms(2)]
  have two: "write_all w ((None, a) # (Some 4, b) # ps) f = write_all (\<lambda>k. w (Suc (Suc k))) ps (Some (a @ b))" for ps f
    unfolding write_all_append(3) [OF w s(1)] using write_all_append(1) [OF w1 s(2), of a ps] unfolding l by simp
  have three: "write_all (\<lambda>k. w (Suc (Suc k))) ((Some 8, d) # ps) (Some (a @ b)) = write_all (\<lambda>k. w (Suc (Suc (Suc k)))) ps (Some ((a @ b) @ d))" for ps
    using write_all_append(1) [OF w2 assms(2), of "a @ b" ps] unfolding l by simp
  have four: "write_all (\<lambda>k. w (Suc (Suc (Suc k)))) [(Some (8 + length d), e)] (Some ((a @ b) @ d)) = (True, Some (((a @ b) @ d) @ e))"
    using write_all_append(1) [OF w3 assms(3), of "(a @ b) @ d" "[]"] unfolding l by simp
  show "store_file env len num [(8, d)] s = (0, s\<lparr>rs_file := Some (le32_word (of_int len) @ le32_word (of_int num) @ d)\<rparr>)"
    unfolding store_file_def w_def [symmetric] a_def [symmetric] b_def [symmetric] by (simp add: two three del: write_all.simps(2))
  show "store_file env len num [(8, d), (8 + length d, e)] s
      = (0, s\<lparr>rs_file := Some (le32_word (of_int len) @ le32_word (of_int num) @ d @ e)\<rparr>)"
    unfolding store_file_def w_def [symmetric] a_def [symmetric] b_def [symmetric] using four by (simp add: two three del: write_all.simps(2))
qed

text \<open>The file holds the rules \<open>ms\<close>; the first word of its header is not looked at.\<close>

definition file_holds :: "byte list \<Rightarrow> mac_policy list \<Rightarrow> bool" where
  "file_holds c ms \<longleftrightarrow> drop 4 c = le32_word (of_nat (length ms)) @ encode_rules ms \<and> list_all mac_wf ms \<and> length c \<le> 1024 * 1024 * 100"

definition apply_action :: "u32 \<Rightarrow> mac_policy list \<Rightarrow> mac_policy list \<Rightarrow> mac_policy list option" where
  "apply_action action new ms =
     (if action = POLICY_ACTION_SET then Some new
      else if action = POLICY_ACTION_ADD then (if list_ex (\<lambda>m. list_ex (same_rule m) new) ms then None else Some (ms @ new))
      else Some (filter (\<lambda>m. \<not> list_ex (same_rule m) new) ms))"

lemma file_holds_parts:
  assumes "file_holds c ms"
  shows "drop 8 c = encode_rules ms" "length c = 8 + length (encode_rules ms)" "sint (le32 (drop 4 c)) = int (length ms)"
    "httc_util_file_read_full True (Some c) = Some c" "policy_items c = Some (Inr (c, int (length ms)))"
proof -
  note h = assms [unfolded file_holds_def]
  have "drop 8 c = drop 4 (drop 4 c)" by simp
  then show d: "drop 8 c = encode_rules ms" using h by simp
  have "length (drop 4 c) = 4 + length (encode_rules ms)" using h by simp
  then show l: "length c = 8 + length (encode_rules ms)" by simp
  have "length ms < 2 ^ 31" using rules_number_le [of ms] h l by simp
  then show n: "sint (le32 (drop 4 c)) = int (length ms)" using h by (simp add: sint_of_nat_small)
  have "c \<noteq> []" using l by auto
  then show "httc_util_file_read_full True (Some c) = Some c" using h by (simp add: httc_util_file_read_full_def)
  show "policy_items c = Some (Inr (c, int (length ms)))"
    using check_items_encode [of ms "[]"] conjunct1 [OF conjunct2 [OF h]] by (simp add: policy_items_def l n d check_buffer_def)
qed

lemma file_holds_new:
  assumes "list_all mac_wf ms" "8 + length (encode_rules ms) \<le> 1024 * 1024 * 100"
  shows "file_holds (le32_word a @ le32_word (of_nat (length ms)) @ encode_rules ms) ms"
  using assms by (simp add: file_holds_def)

text \<open>The three actions on the policy file, for items that the library has encoded.\<close>

lemma set_policy_holds:
  assumes "full_writes (se_write env)" "list_all mac_wf new" "8 + length (encode_rules new) \<le> 1024 * 1024 * 100"
  shows "\<exists>c. httc_set_file_protect_policy env (encode_rules new) (int (length (encode_rules new))) (int (length new)) s = Some (0, s\<lparr>rs_file := Some c\<rparr>)
    \<and> file_holds c new"
proof -
  have "check_buffer (encode_rules new) (int (length (encode_rules new))) (int (length new)) = Some True"
    using check_items_encode [OF assms(2), of "[]"] by (simp add: check_buffer_def)
  moreover have "store_file env len num [(8, encode_rules new)] s
      = (0, s\<lparr>rs_file := Some (le32_word (of_int len) @ le32_word (of_int num) @ encode_rules new)\<rparr>)" for len num
    using assms(3) by (intro store_file_parts(1) [OF assms(1), where e = "[]"]) simp_all
  ultimately show ?thesis
    using file_holds_new [OF assms(2,3)] by (simp add: httc_set_file_protect_policy_def) blast
qed

lemma old_policy_holds: "rs_file s = Some c \<Longrightarrow> file_holds c ms \<Longrightarrow> se_read env \<Longrightarrow> old_policy env s = Some (Inr (c, int (length ms)))"
  by (simp add: old_policy_def file_holds_parts)

lemma check_buffer_encode:
  "list_all mac_wf new \<Longrightarrow> check_buffer (encode_rules new) (int (length (encode_rules new))) (int (length new)) = Some True"
  using check_items_encode [of new "[]"] by (simp add: check_buffer_def)

lemma clash_encode:
  assumes "list_all mac_wf ms" "list_all mac_wf new"
  shows "list_ex (\<lambda>p. list_ex (same_item p) (item_pointers (length new) (encode_rules new))) (item_pointers (length ms) (encode_rules ms))
    = list_ex (\<lambda>m. list_ex (same_rule m) new) ms"
  using item_pointers_encode [OF assms(1), of "[]"] item_pointers_encode [OF assms(2), of "[]"]
  by (auto intro!: all2_list_ex [where R = points] simp: same_item_points)

lemma add_policy_step:
  assumes "list_all mac_wf new" "rs_file s = Some c" "file_holds c ms" "se_read env" "new \<noteq> []"
  shows "httc_add_file_protect_policy env (encode_rules new) (int (length (encode_rules new))) (int (length new)) s
    = (if list_ex (\<lambda>m. list_ex (same_rule m) new) ms then Some (TSS_ERR_PARAMETER, s)
       else Some (store_file env (int (length c) + int (length (encode_rules new))) (int (length ms) + int (length new))
              [(8, encode_rules ms), (8 + length (encode_rules ms), encode_rules new)] s))"
proof -
  note h = file_holds_parts [OF assms(3)]
  have "list_all mac_wf ms" using assms(3) by (simp add: file_holds_def)
  with assms show ?thesis
    by (simp add: httc_add_file_protect_policy_def h old_policy_holds check_buffer_encode clash_encode)
qed

lemma add_policy_holds:
  assumes "full_writes (se_write env)" "list_all mac_wf new" "8 + length (encode_rules (ms @ new)) \<le> 1024 * 1024 * 100"
    and "rs_file s = Some c" "file_holds c ms" "se_read env" "\<not> list_ex (\<lambda>m. list_ex (same_rule m) new) ms"
  shows "\<exists>c'. httc_add_file_protect_policy env (encode_rules new) (int (length (encode_rules new))) (int (length new)) s
      = Some (0, s\<lparr>rs_file := Some c'\<rparr>) \<and> file_holds c' (ms @ new)"
proof (cases "new = []")
  case True
  then show ?thesis using assms(4,5) by (intro exI [of _ c]) (simp add: httc_add_file_protect_policy_def)
next
  case False
  have wf: "list_all mac_wf (ms @ new)" using assms(2,5) by (simp add: file_holds_def)
  have "store_file env len num [(8, encode_rules ms), (8 + length (encode_rules ms), encode_rules new)] s
      = (0, s\<lparr>rs_file := Some (le32_word (of_int len) @ le32_word (of_int num) @ encode_rules ms @ encode_rules new)\<rparr>)" for len num
    using assms(3) by (intro store_file_parts(2) [OF assms(1)]) simp_all
  then show ?thesis
    using assms(7) file_holds_new [OF wf assms(3)] add_policy_step [OF assms(2,4-6) False] by simp blast
qed

lemma delete_policy_holds:
  assumes "full_writes (se_write env)" "list_all mac_wf new" "rs_file s = Some c" "file_holds c ms" "se_read env" "se_mem env"
  shows "\<exists>c'. httc_delete_file_protect_policy env (encode_rules new) (int (length (encode_rules new))) (int (length new)) s
      = Some (0, s\<lparr>rs_file := Some c'\<rparr>)
    \<and> file_holds c' (filter (\<lambda>m. \<not> list_ex (same_rule m) new) ms)"
proof (cases "new = []")
  case True
  then show ?thesis using assms(3,4) by (intro exI [of _ c]) (simp add: httc_delete_file_protect_policy_def)
next
  case False
  note h = file_holds_parts [OF assms(4)]
  let ?ks = "filter (\<lambda>m. \<not> list_ex (same_rule m) new) ms"
  let ?ps = "item_pointers (length ms) (encode_rules ms)"
  let ?kept = "filter (\<lambda>p. \<not> list_ex (same_item p) (item_pointers (length new) (encode_rules new))) ?ps"
  have wf: "list_all mac_wf ms" "list_all mac_wf ?ks" using assms(4) by (auto simp: file_holds_def list_all_iff)
  have chk: "check_buffer (encode_rules new) (int (length (encode_rules new))) (int (length new)) = Some True"
    using check_items_encode [OF assms(2), of "[]"] by (simp add: check_buffer_def)
  have all: "list_all2 points ?ps ms" using item_pointers_encode [OF wf(1), of "[]"] by simp
  have kept: "list_all2 points ?kept ?ks"
    using item_pointers_encode [OF assms(2), of "[]"]
    by (intro all2_filter [OF all]) (auto intro!: all2_list_ex [where R = points] simp: same_item_points)
  have len: "length ?ps = length ms" "length ?kept = length ?ks" "concat (map item_of ?kept) = encode_rules ?ks"
    using all kept by (simp_all add: list_all2_lengthD concat_items)
  have "length (encode_rules ?ks) \<le> length (encode_rules ms)"
    by (induction ms) auto
  then have bound: "8 + length (encode_rules ?ks) \<le> 1024 * 1024 * 100" using h(2) assms(4) by (simp add: file_holds_def)
  have num: "int (length ms) - int (length ms - length ?ks) = int (length ?ks)" by (simp add: of_nat_diff)
  have "store_file env len num [(8, encode_rules ?ks)] s
      = (0, s\<lparr>rs_file := Some (le32_word (of_int len) @ le32_word (of_int num) @ encode_rules ?ks)\<rparr>)" for len num
    using bound by (intro store_file_parts(1) [OF assms(1), where e = "[]"]) simp_all
  then have "httc_delete_file_protect_policy env (encode_rules new) (int (length (encode_rules new))) (int (length new)) s
      = Some (0, s\<lparr>rs_file := Some (le32_word (of_int (int (length (encode_rules ?ks)))) @ le32_word (of_int (int (length ?ks))) @ encode_rules ?ks)\<rparr>)"
    using False assms(3,5,6) chk by (simp add: httc_delete_file_protect_policy_def h len num Let_def)
  then show ?thesis using file_holds_new [OF wf(2) bound] by auto
qed

section \<open>From the caller to the kernel\<close>

definition store_env_ok :: "store_env \<Rightarrow> bool" where
  "store_env_ok env \<longleftrightarrow> se_mkdir env \<and> se_sem env = 0 \<and> se_read_version env \<and> (case se_write_version env of None \<Rightarrow> False | Some n \<Rightarrow> 8 \<le> n)
     \<and> fst (se_tpcm_id env) = 0 \<and> se_cert env = 0 \<and> se_read env \<and> full_writes (se_write env) \<and> se_mem env \<and> se_dev env \<and> se_vm env
     \<and> (\<forall>b. se_kz env b) \<and> (\<forall>c. kfile_exact (se_kfile env c) c \<and> i_size (se_kfile env c) = length c)"

definition update_of :: "u32 \<Rightarrow> 64 word \<Rightarrow> byte list \<Rightarrow> mac_policy list \<Rightarrow> policy_update" where
  "update_of action replay ident new =
     \<lparr>up_size = of_nat POLICY_UPDATE_SIZE, up_action = action, up_replay_counter = replay, up_item_number = of_nat (length new),
      up_data_length = of_nat (length (encode_rules new)), up_tpcm_id = ident, up_data = encode_rules new\<rparr>"

lemma prepare_update_of:
  assumes "list_all rule_ok us" "length (encode_rules (map rule_of us)) < 2 ^ 31" "MAX_TPCM_ID_SIZE \<le> length ident" "mem 0" "mem 1"
  shows "tcf_prepare_update_file_protect_policy mem us (Some ident) MAX_TPCM_ID_SIZE action replay True
    = Some (Inr (update_of action replay (take MAX_TPCM_ID_SIZE ident) (map rule_of us)))"
  using assms
  by (simp add: tcf_prepare_update_file_protect_policy_def tcf_util_file_protect_policy_serialize_def serialize_length_encode
    rules_bytes_encode update_of_def)

lemma length_le64_word: "length (le64_word w) = 8"
  by (simp add: le64_word_def)

lemma version_step:
  assumes "store_env_ok env" "rs_version s = Some (le64_word v)"
  shows "tcf_set_file_protect_version env n s
    = (if n \<le> v then (TCF_ERR_VERSION, s) else (0, s\<lparr>rs_version := Some (le64_word n)\<rparr>))"
proof -
  obtain k where "se_write_version env = Some k" "8 \<le> k" using assms(1) by (auto simp: store_env_ok_def split: option.splits)
  moreover have "le64_word v \<noteq> []" "le64 (le64_word v) = v"
    using length_le64_word [of v] le64_bytes_inverse [of v "[]"] by auto
  ultimately show ?thesis
    using assms by (simp add: tcf_set_file_protect_version_def store_env_ok_def httc_util_file_read_full_def httc_util_file_write_def
      length_le64_word Let_def)
qed

lemma check_update_of:
  assumes "store_env_ok env" "rs_version s = Some (le64_word v)" "list_all mac_wf new" "length (encode_rules new) < 2 ^ 31"
    and "memeq ident (snd (se_tpcm_id env)) MAX_TPCM_ID_SIZE"
  shows "tcf_util_check_file_protect_update env (update_of action n ident new) s
    = Some (if n \<le> v then (TCF_ERR_VERSION, s) else (0, s\<lparr>rs_version := Some (le64_word n)\<rparr>))"
proof -
  have "unat (of_nat (length new) :: u32) = length new" "unat (of_nat (length (encode_rules new)) :: u32) = length (encode_rules new)"
    "wrap32 (length (encode_rules new)) = length (encode_rules new)"
    using assms(4) rules_number_le [OF assms(3)] by (simp_all add: unat_of_nat)
  then show ?thesis
    using assms(1,5) date_len_encode [OF assms(3), of "[]"] version_step [OF assms(1,2), of n]
    by (simp add: tcf_util_check_file_protect_update_def update_of_def store_env_ok_def TCF_ERR_VERSION_def)
qed

text \<open>The trusted store refines the list of rules: an update that is accepted performs its action, one that clashes changes nothing.\<close>

lemma update_refines:
  assumes "store_env_ok env" "list_all mac_wf new" "length (encode_rules new) < 2 ^ 31" "se_verify env (update_of action n ident new) = 0"
    and "rs_file s = Some c" "file_holds c ms" "action \<in> {0, 1, 2}"
    and "\<forall>ms'. apply_action action new ms = Some ms' \<longrightarrow> 8 + length (encode_rules ms') \<le> 1024 * 1024 * 100"
  shows "\<exists>c'. tcs_update_file_protect_policy env (update_of action n ident new) s
      = (case apply_action action new ms of None \<Rightarrow> Some (TSS_ERR_PARAMETER, s) | Some ms' \<Rightarrow> Some (0, s\<lparr>rs_file := Some c'\<rparr>))
    \<and> (\<forall>ms'. apply_action action new ms = Some ms' \<longrightarrow> file_holds c' ms')"
proof -
  have env: "full_writes (se_write env)" "se_cert env = 0" "se_read env" "se_mem env" using assms(1) by (simp_all add: store_env_ok_def)
  have n: "sint (of_nat (length new) :: u32) = int (length new)"
    "sint (of_nat (length (encode_rules new)) :: u32) = int (length (encode_rules new))"
    using assms(3) rules_number_le [OF assms(2)] by (simp_all add: sint_of_nat_small)
  consider "action = 0" | "action = 1" | "action = 2" using assms(7) by auto
  then show ?thesis
  proof cases
    case 1
    then show ?thesis
      using set_policy_holds [OF env(1) assms(2), of s] assms(4,8) env(2)
      by (simp add: tcs_update_file_protect_policy_def update_of_def n apply_action_def)
  next
    case 2
    show ?thesis
    proof (cases "list_ex (\<lambda>m. list_ex (same_rule m) new) ms")
      case True
      then have "new \<noteq> []" by (auto simp: list_ex_iff)
      with True show ?thesis
        using 2 add_policy_step [OF assms(2,5,6) env(3)] assms(4) env(2)
        by (simp add: tcs_update_file_protect_policy_def update_of_def n apply_action_def)
    next
      case False
      then show ?thesis
        using 2 add_policy_holds [OF env(1) assms(2) _ assms(5,6) env(3)] assms(4,8) env(2)
        by (simp add: tcs_update_file_protect_policy_def update_of_def n apply_action_def)
    qed
  next
    case 3
    then show ?thesis
      using delete_policy_holds [OF env(1) assms(2,5,6) env(3,4)] assms(4) env(2)
      by (simp add: tcs_update_file_protect_policy_def update_of_def n apply_action_def)
  qed
qed

lemma reload_holds:
  assumes "store_env_ok env" "rs_file s = Some c" "file_holds c ms"
    and "fl_commands (rs_fac s) 42 = Some ''ioctl_reload_file_protect_policy''"
  shows "tsb_reload_file_protect_policy env s = Some (0, s\<lparr>rs_fac := (rs_fac s)\<lparr>g_list_policy_fac := foldl add_rule [] ms\<rparr>\<rparr>)"
proof -
  have env: "se_dev env" "se_vm env" "se_kz env = (\<lambda>_. True)" "kfile_exact (se_kfile env c) c" "i_size (se_kfile env c) = length c"
    using assms(1) by (auto simp: store_env_ok_def)
  have c: "c = take 8 c @ concat (map encode_mac ms)" "length (take 8 c) = 8"
    using append_take_drop_id [of 8 c] file_holds_parts(1,2) [OF assms(3)] by (simp_all add: encode_rules_def)
  have "load_items (\<lambda>_. True) (drop 8 c) [] = Some (foldl add_rule [] ms)"
    using load_items_encode [of ms "\<lambda>_. True" "[]"] assms(3) file_holds_parts(1) [OF assms(3)]
    by (simp add: file_holds_def list_all_iff encode_rules_def)
  then have "load_fac_policy (\<lambda>_. True) True (Some (se_kfile env c)) (clean_list_fac (rs_fac s))
      = Some (0, (clean_list_fac (rs_fac s))\<lparr>g_list_policy_fac := foldl add_rule [] ms\<rparr>)"
    using env c file_holds_parts(2) [OF assms(3)] by (intro load_fac_policy_ok) (auto simp: kfile_exact_def clean_list_fac_def)
  then have call: "rule_call env (Some c) ''ioctl_reload_file_protect_policy'' (rs_fac s)
      = Some (0, (rs_fac s)\<lparr>g_list_policy_fac := foldl add_rule [] ms\<rparr>)"
    by (simp add: rule_call_def env ioctl_reload_file_protect_policy_def clean_list_fac_def)
  have "httcsec_ioctl True (rule_call env (Some c)) (fl_commands (rs_fac s)) (IOWR COMMAND_RELOAD_FILE_PROTECT_POLICY) (rs_fac s)
      = Some (if (0 :: int) < 0 then -1 else 0, (rs_fac s)\<lparr>g_list_policy_fac := foldl add_rule [] ms\<rparr>)"
    using assms(4) call by (intro httcsec_ioctl_runs) simp_all
  then show ?thesis
    using assms(2) env(1) by (simp add: tsb_reload_file_protect_policy_def)
qed


section \<open>Reading the rules back\<close>

text \<open>A rule as it comes back: numbers cut to a byte, strings up to their end, digests of 32 bytes.\<close>

definition stored_process :: "privileged_user option \<Rightarrow> privileged_user option" where
  "stored_process pv = Some \<lparr>pv_type = pv_type (the pv), pv_path = Some (cstr (the (pv_path (the pv)))), pv_hash = Some (take 32 (the (pv_hash (the pv))))\<rparr>"

definition stored_rule :: "rule_user \<Rightarrow> rule_user" where
  "stored_rule u = \<lparr>ru_type = ucast (ucast (ru_type u) :: byte), ru_measure_flags = ucast (ucast (ru_measure_flags u) :: byte),
     ru_path = Some (cstr (the (ru_path u))), ru_processes = map stored_process (ru_processes u)\<rparr>"

lemma extract_process_encode:
  assumes "process_ok pv"
  shows "extract_process (encode_dac (dac_of pv) @ r) = stored_process pv" "length (encode_dac (dac_of pv)) = PROCESS_SIZE"
proof -
  obtain v p h where v: "pv = Some v" "pv_path v = Some p" "pv_hash v = Some h" "strlen p \<le> 255" "32 \<le> length h"
    using assms by (auto simp: process_ok_def split: option.splits)
  have l: "length (PUT_ULONG_BE w) = 4" for w by (simp add: PUT_ULONG_BE_def)
  note pf = path_field_ok [OF v(4)]
  show "length (encode_dac (dac_of pv)) = PROCESS_SIZE"
    using v pf(1) by (simp add: encode_dac_def dac_of_def l PROCESS_SIZE_def)
  have e: "encode_dac (dac_of pv) @ r = PUT_ULONG_BE (pv_type v) @ path_field p @ take 32 h @ r"
    using v by (simp add: encode_dac_def dac_of_def)
  have "drop 4 (encode_dac (dac_of pv) @ r) = path_field p @ take 32 h @ r" "drop 260 (encode_dac (dac_of pv) @ r) = take 32 h @ r"
    unfolding e using pf(1) by (simp_all add: l)
  moreover have "be32 (encode_dac (dac_of pv) @ r) = pv_type v" unfolding e by (rule be32_bytes)
  ultimately show "extract_process (encode_dac (dac_of pv) @ r) = stored_process pv"
    unfolding extract_process_def stored_process_def using v pf(3) by (simp del: drop_append)
qed

lemma extract_processes_encode:
  assumes "list_all process_ok ps"
  shows "map (\<lambda>j. extract_process (drop (j * PROCESS_SIZE) (concat (map encode_dac (map dac_of ps)) @ r))) [0..<length ps] = map stored_process ps"
  using assms
proof (induction ps)
  case (Cons pv ps)
  then have p: "process_ok pv" by simp
  have "drop (Suc j * PROCESS_SIZE) (encode_dac (dac_of pv) @ q) = drop (j * PROCESS_SIZE) q" for j q
    using extract_process_encode(2) [OF p] by simp
  with Cons extract_process_encode(1) [OF p] show ?case
    by (simp add: map_upt_Suc del: upt_Suc drop_append)
qed simp

lemma extract_rule_encode:
  assumes "rule_ok u"
  shows "extract_rule (encode_mac (rule_of u) @ r) = stored_rule u"
proof -
  obtain p where p: "ru_path u = Some p" "strlen p \<le> 255" "list_all process_ok (ru_processes u)"
    using assms by (auto simp: rule_ok_def split: option.splits)
  note wf = rule_bytes_encode(2) [OF assms]
  let ?b = "encode_mac (rule_of u) @ r"
  have name: "cstr (drop 4 ?b) = cstr p"
    using parse_item_encode(4) [OF wf, of r] path_field_ok(3) [OF p(2), of "[]"] p(1) by (simp add: rule_of_def del: drop_append)
  have num: "item_process_num ?b = length (ru_processes u)" using parse_item_encode(3) [OF wf, of r] by (simp add: rule_of_def)
  have "drop ITEM_SIZE ?b = concat (map encode_dac (map dac_of (ru_processes u))) @ r"
    using path_field_ok(1) [OF p(2)] p(1) by (simp add: encode_mac_def rule_of_def ITEM_SIZE_def)
  then have d: "drop (ITEM_SIZE + j * PROCESS_SIZE) ?b = drop (j * PROCESS_SIZE) (concat (map encode_dac (map dac_of (ru_processes u))) @ r)" for j
    by (metis drop_drop add.commute)
  show ?thesis
    unfolding extract_rule_def stored_rule_def name num d extract_processes_encode [OF p(3)] using p(1)
    by (simp add: encode_mac_head) (simp add: rule_of_def)
qed

lemma extract_rules_encode:
  assumes "list_all rule_ok us" "\<forall>b. mem b"
  shows "extract_rules mem (length us) (encode_rules (map rule_of us)) (int (length (encode_rules (map rule_of us)))) = Some (Inr (map stored_rule us))"
  using assms(1)
proof (induction us)
  case (Cons u us)
  then have u: "rule_ok u" by simp
  note wf = rule_bytes_encode(2) [OF u]
  show ?case
    using Cons assms(2) encode_mac_head(3) [of "rule_of u"]
    by (simp add: item_size_encode [OF wf] extract_rule_encode [OF u] Let_def)
qed simp

text \<open>What the caller stored is what it reads back.\<close>

lemma access_rules_read_back:
  assumes "list_all rule_ok us" "rs_file s = Some c" "file_holds c (map rule_of us)" "se_read env" "se_mem env" "\<forall>b. mem b"
  shows "tcf_get_file_protect_policy env mem s = Some (Inr (map stored_rule us))"
proof -
  have "c \<noteq> []" using file_holds_parts(2) [OF assms(3)] by auto
  then show ?thesis
    using assms(5) old_policy_holds [OF assms(2,3,4)] extract_rules_encode [OF assms(1,6)] assms(2)
    by (simp add: tcf_get_file_protect_policy_def tcs_get_file_protect_policy_def file_holds_parts(1) [OF assms(3)]
      tcf_util_file_protect_policy_extract_def)
qed

section \<open>What the code does not do\<close>

text \<open>
  The counter is stored before the signature is verified: an update that nobody signed, with the largest counter, is refused, and after
  it every signed update is.
\<close>

lemma unsigned_update_blocks:
  assumes "store_env_ok env" "rs_version s = Some (le64_word v)" "list_all mac_wf new" "length (encode_rules new) < 2 ^ 31"
    and "memeq ident (snd (se_tpcm_id env)) MAX_TPCM_ID_SIZE" "v < -1" "se_verify env (update_of action (-1) ident new) = 5"
    and "store_env_ok env'" "list_all mac_wf new'" "length (encode_rules new') < 2 ^ 31" "memeq ident' (snd (se_tpcm_id env')) MAX_TPCM_ID_SIZE"
  shows "\<exists>s'. tcf_update_file_protect_policy env (update_of action (-1) ident new) s = Some (5, s')
    \<and> tcf_update_file_protect_policy env' (update_of action' n ident' new') s' = Some (TCF_ERR_VERSION, s')"
proof -
  let ?s = "s\<lparr>rs_version := Some (le64_word (-1))\<rparr>"
  have "tcf_util_check_file_protect_update env (update_of action (-1) ident new) s = Some (0, ?s)"
    using check_update_of [OF assms(1-5), of action "-1"] leD [of "-1" v] assms(6) by auto
  then have "tcf_update_file_protect_policy env (update_of action (-1) ident new) s = Some (5, ?s)"
    using assms(1,7) by (simp add: tcf_update_file_protect_policy_def tcs_update_file_protect_policy_def store_env_ok_def update_of_def)
  moreover have "tcf_util_check_file_protect_update env' (update_of action' n ident' new') ?s = Some (TCF_ERR_VERSION, ?s)"
    using check_update_of [OF assms(8) _ assms(9-11), of ?s "-1" action' n] by (simp add: word_order.extremum)
  ultimately show ?thesis by (auto simp: tcf_update_file_protect_policy_def TCF_ERR_VERSION_def)
qed

text \<open>A file of the counter that cannot be read, or that a failed write has emptied, lets an old update pass.\<close>

lemma lost_counter_replays:
  assumes "store_env_ok env" "rs_version s = Some []"
  shows "tcf_set_file_protect_version env n s = (0, s\<lparr>rs_version := Some (le64_word n)\<rparr>)"
proof -
  obtain k where "se_write_version env = Some k" "8 \<le> k" using assms(1) by (auto simp: store_env_ok_def split: option.splits)
  with assms show ?thesis
    by (simp add: tcf_set_file_protect_version_def store_env_ok_def httc_util_file_read_full_def httc_util_file_write_def length_le64_word)
qed

text \<open>
  Two rules for one path are taken for the same if they agree in their measurements or in their kind: deleting the rule against writing
  also deletes the one against reading, and neither can be added next to the other.
\<close>

lemma delete_removes_other_kind:
  assumes "mac_obj_name m = mac_obj_name n" "measure_flags m = measure_flags n"
  shows "apply_action POLICY_ACTION_DELETE [n] [m] = Some [] \<and> apply_action POLICY_ACTION_ADD [n] [m] = None"
  using assms by (simp add: apply_action_def same_rule_def)

section \<open>A concrete update\<close>

definition demo_rule_user :: rule_user where
  "demo_rule_user = \<lparr>ru_type = 0, ru_measure_flags = 2, ru_path = Some [47, 97],
     ru_processes = [Some \<lparr>pv_type = 1, pv_path = Some [47, 98], pv_hash = Some (replicate 32 7)\<rparr>]\<rparr>"

definition demo_store_env :: store_env where
  "demo_store_env = \<lparr>se_mkdir = True, se_sem = 0, se_read_version = True, se_write_version = Some 8, se_tpcm_id = (0, replicate 32 1), se_cert = 0,
     se_verify = (\<lambda>_. 0), se_read = True, se_write = (\<lambda>_. Some (2 ^ 31)), se_mem = True, se_dev = True, se_kfile = exact_file,
     se_kz = (\<lambda>_. True), se_vm = True\<rparr>"

definition demo_store :: rule_store where
  "demo_store = \<lparr>rs_version = Some (le64_word 3), rs_file = Some (le32_word 0 @ le32_word 0),
     rs_fac = \<lparr>g_list_policy_fac = [], fl_commands = [42 \<mapsto> ''ioctl_reload_file_protect_policy'']\<rparr>, rs_notices = []\<rparr>"

lemma demo_store_ok: "store_env_ok demo_store_env" "rule_ok demo_rule_user" "file_holds (le32_word 0 @ le32_word 0) []"
  "length (encode_rules [rule_of demo_rule_user]) = 552"
proof -
  show "store_env_ok demo_store_env"
    by (simp add: store_env_ok_def demo_store_env_def full_writes_def exact_file_ok)
  show ok: "rule_ok demo_rule_user"
    by (simp add: rule_ok_def demo_rule_user_def process_ok_def strlen_def cstr_def)
  show "file_holds (le32_word 0 @ le32_word 0) []" by (simp add: file_holds_def)
  have "serialize_length [demo_rule_user] = 552"
    by (simp add: serialize_length_def demo_rule_user_def ITEM_SIZE_def PROCESS_SIZE_def)
  then show "length (encode_rules [rule_of demo_rule_user]) = 552"
    using serialize_length_encode [of "[demo_rule_user]"] ok by simp
qed


end
