(* ===== verification/Spec2Isabelle.thy ===== *)
theory Spec2Isabelle
  imports Event_Chain Hook_Drain Process_Identity Kernel_Filesystem Kernel_Modules
    Task_Detection Dmeasure_Load Policy_File
begin

text \<open>
  A verification library for the kernel half of tsb-agent, the trusted software base: the modules
  under src/tsb/kernel that decide which programs run and which files are opened, and for the way of the access
  rules to it through the libraries of user space. Paths below are relative to src/tsb/kernel; those that begin
  with tsb/user or tss-main are relative to src. The code is read as it is compiled for Linux 5.10 on x86_64 without
  LSM_UNLINK, WHITE_NOT_TPCM and SANXIA_PLC.

  \<^bold>\<open>The program.\<close> The platform module keeps a pointer to the current table of security
  hooks (platform/engine), a table of ioctl commands on the device httcsec (platform/msg), the global
  policy with its callbacks (platform/policy), a ring of notifications for user space
  (platform/notify) and reference counts that keep the agent's modules loaded
  (platform/protection). Two engines lay their hooks over the table. The static measurement engine
  (smeasure) hashes a program, library, module or script with SM3 and looks the digest up in a
  whitelist, or asks the trusted platform module; it compares critical configuration files with
  their digests when they are opened, and refuses signals to protected processes. The access
  control engine (accessctl) refuses writing to listed paths and applies rules that match the path
  of a file and give privileges to programs by their digests. Dynamic measurement (dmeasure) repeats checks of
  kernel memory at intervals that its policies set: the interrupt and system call tables, the text of the kernel and
  of its modules, the functions of network protocols and of file systems, and the executable mappings of the
  processes that its policies name. It also knows the identity of processes. All parts report to the audit log (platform/log), which a log configuration filters, and to the trusted
  module (platform/tpcm).

  \<^bold>\<open>The theories\<close>, in the order of their dependencies:

  \<^item> Prelude: machine types, error codes, C strings as byte lists, byte order, bitmaps, lists.
  \<^item> Ring_Queue (platform/notify/ring_array.c) and Notify (platform/notify/notify.c, the open and
    release of platform/msg/miscdev.c). The state is the ring with its slots and bitmaps and the array of
    channel heads. The locale \<open>bounded_queue\<close> states what a channel promises, a queue that drops its
    oldest entries; it is interpreted on the ring. Put, fetch and resize refine it, and an invariant holds in
    every reachable state.
  \<^item> Command_Table (platform/msg/ioctl.c): registration, removal and dispatch by number.
  \<^item> Sm3 (encryption/sm3/sm3.c): the streaming routines on 32 bit words, equal to the standard's hash for
    every message of fewer than 2^61 bytes, fed in any pieces; File_Digest: the hash of a file read page by page.
  \<^item> Digest_Table: what hash_whitelist.c and hash_critical_confile.c share, bucket lists, policy items and their
    parser; the locale \<open>keyed_table\<close> gives the table as a set of entries for every hash key, and is interpreted
    for both. Whitelist_Cache (smeasure/policy/policy_whitelist_cache.c) with the locale
    \<open>digest_cache\<close>. Whitelist (smeasure/policy/hash_whitelist.c): the decisions, adding, removing, loading and
    the ioctls, refinement to a set, round trip of the policy file, invariant of every reachable
    table. Critical_Confile (smeasure/policy/hash_critical_confile.c).
  \<^item> Process_Protect (smeasure/protection/process_protect.c): the list of protected processes refines a bounded
    set; its sections are interleaved by an inductive step relation.
  \<^item> Wqueue (smeasure/engine/smeasure_wqueue.c and smeasure_rbtree.c): threads that share one measurement, with nodes in
    a heap and exact reference counts under every interleaving; the locale \<open>key_order\<close> is the
    order of the search tree.
  \<^item> Script_Args: the script behind an interpreter, from the argument pages of a new program.
  \<^item> Feature_Conf (platform/policy/feature_configure.c) and Mod_Protect (platform/protection/mod_protect.c): the global
    policy reaches the engines and the reference counts on modules.
  \<^item> Smeasure_Engine (smeasure/engine/smeasure_engine.c): the hooks on programs, mappings, modules, opening and
    signals. With the lemmas of Whitelist and Sm3: a program runs exactly when the SM3 hash of its
    contents is listed.
  \<^item> Fac_Policy (accessctl/policy/list_fac.c): the rules, their parser, the matching, the digest of the subject and the
    measurement of the running process. Path_Table (accessctl/policy/hash_whitelist_path.c and
    klib_fgets of platform/utils/klib_fileio.c). Access_Control (accessctl/engine/access_control.c): the
    hooks.
  \<^item> Hooks (platform/engine/engine.c): the chain of tables with the references on their modules. Engines
    (smeasure/smeasure.c, accessctl/fac.c, accessctl/engine/ac_engine.c, the initialisation of both engines, and the
    dispatch of platform/hook/lsm_version/lsm_4.17.c): loading and unloading with all error exits, and an
    open that passes both engines. Hook_Drain (platform/hook/lsm_version/engine_func.h and the loop of
    engine.c): the counters that keep a table alive while it is called, at the grain of atomic
    operations.

  \<^item> Text_File: lines of a configuration file. Log_Config (platform/policy/log_config_policy.c): which records are
    kept. Trust_Status and Platform_Log (platform/tpcm/tpcm_real.c, and the start and end of platform/log/log.c):
    the reports to the trusted module. Audit_Log and Audit_Report (platform/log/log.c and log_buff.c): the buffered
    log, with the cached records in a heap; a record that the configuration keeps reaches the
    file once per second of equal records. Event_Chain: a refused program has its record in the log file and its report
    to the trusted module.
  \<^item> Dmeasure (dmeasure/dmeasure/dmeasure.c): the actions, their delayed work and the intervals, with an invariant of
    every schedule. Dmeasure_Policy (dmeasure/policy/policy_dmeasure.c): the policies of the actions and of processes,
    their parsers, ioctls and the switch of the whole. Process_Identity
    (dmeasure/process_identity/process_identity.c): identities and roles, the cache by process number and the measurement of
    the executable mappings.
  \<^item> Kernel_Tables (dmeasure/idt/idt.c and dmeasure/syscall/syscall_pub.c): the locale \<open>measured_table\<close> is a
    table with a fixed place and a hash taken at the start, and is interpreted for both. Kernel_Section
    (dmeasure/section/section.c): the text of the kernel with its jump labels, the binary search and the walk over
    the differences. Kernel_Net (dmeasure/net/net.c): the locale \<open>list_check\<close> is a check that compares each object
    of a kernel list with the recorded one; it is interpreted for the families, the protocols, the file system types, the super
    blocks and the modules without jump labels. Kernel_Filesystem
    (dmeasure/filesystem/filesystem.c): the hooks on mount and kill_sb are put back at the end, and the recorded super blocks
    refine the set of the mounted ones. Kernel_Modules (dmeasure/modules/modules/modules.c): modules are tracked as they come and
    go, and a check accepts a module whose text differs from the recorded one at jump labels only.
  \<^item> File_Hash_Cache (dmeasure/task/file_hash_cache.c): the digests of mapped files, a second interpretation of
    \<open>digest_cache\<close>. Task_Measure (dmeasure/task/task.c, the replacement of system calls of
    platform/hook/syscall.c, and what task.c needs of the process policies): the entries of processes and the policies
    that they count on are heaps, whose addresses are never given out twice, so that a use after the release is a run
    without a meaning. Task_Safety: an inductive step relation interleaves system calls, the exit of tasks, the two
    sections of a periodic check and the changes of the policies; tables, lists and counts agree with the heaps in every
    reachable state, and unloading gives everything back. Task_Detection: a changed page of a recorded mapping is
    found by the next check and sent as a record.
  \<^item> Dmeasure_Load (dmeasure/dmeasure_integration.c): loading and unloading of all the parts above. The locales
    \<open>action_part\<close> and \<open>world_part\<close> state what a part promises to the rest, that it registers its own action only and
    that it leaves the kernel as it found it; each is interpreted for the six parts that measure the kernel.
  \<^item> Device_Client (tsb/user/ioctl.c, the command numbers of tsb/user/tsb_admin.c, platform/trust_score/trust_score.c): the
    call of a command through the device. Policy_File (tss-main/tcf/src/tcf_file_protect.c, the counter of
    tss-main/tcf/src/tcf_dev_version.c, tss-main/tcs/tcsapi/tcsu/tcs_file_protect.c, tss-main/httcutils/src/file.c): the
    policy file refines a list of rules under setting, adding and deleting, and a signed update with a fresh counter
    gives the kernel of Fac_Policy exactly these rules.

  \<^bold>\<open>Conventions.\<close> A C function is a function of the same name that takes and returns the
  state of its component as a record. A pointer that the code tests is an \<open>option\<close>. A result
  \<open>None\<close> of an operation is a run that the C standard or the kernel gives no meaning (a NULL
  dereference, a copy outside a buffer, an unlock of a lock that is not held) or a loop that does
  not end; every theorem about a result excludes it by stating the result. Allocation, copying
  from user space and reading of files can fail: their outcomes are parameters. Audit records, counters and
  messages to other modules are a list of effects in the state.

  \<^bold>\<open>Parameters\<close> for code outside the repository: the kernel's jhash, random numbers, kernel_read
  (\<open>kfile_exact\<close> and \<open>kfile_reads\<close> say that a file gives its bytes), the balancing of red-black trees (\<open>rb_lib_ok\<close>
  keeps the order of the nodes), get_arg_page, the memory map of a process and its pages, kernel_write and the time,
  the tasks with their mappings and the files behind them, the contents of kernel memory, of the kernel's lists and of its jump table at the moment of a check, its symbol lookup and sort,
  the answers of the trusted platform module, certificates and signatures, the writing of files in user space, and the regular expressions of Henry Spencer in accessctl/policy. Theorems
  that assume something about them have witnesses with concrete functions.

  \<^bold>\<open>Loops and fuel.\<close> Loops over lists are structural. The walk around the ring is bounded by its
  length and the fetch loop by \<open>fetch_fuel\<close>; the theorems give the result, so the bounds are enough. The
  chain of file_open hooks is followed for three tables, one more than the two engines lay.
  Loops that may not end are partial functions into \<open>option\<close>: the flush of a table, the repeated call of
  the trusted module, and the reading before the text of a process; that they end is part of the
  theorems, and two theorems state when they do not. The parsers of Dmeasure_Policy and Process_Identity, the binary search and the
  walks over differences of text end by a measure.

  \<^bold>\<open>What the code does not do.\<close> Several theorems state faults: digests compared as strings, keys
  of shared measurements cut to 31 bytes, a wake-up after the lock, lost protection requests, a
  count that is out of date when a table is freed, an inverted test that turns the checks on
  names off as soon as there is a rule, counters that are read one after the other, a last byte of the
  interrupt table that is not measured, a jump label that hides a changed symbol, a change at a label of
  a module that no record shows, a process that ends during its check and whose entry is used after it was freed, a mapping
  that cannot be read and is recorded as a success, a count that an error exit does not take back, a memory map
  that is given back twice, a refused load of dynamic measurement that leaves its hooks in place, a replay
  counter that is stored before the signature is verified, command numbers on which library and kernel disagree, and
  rules that are taken for the same if they agree in their kind or in their measurements.

  \<^bold>\<open>Not modelled.\<close> smeasure_init_module (the image of a module in memory); the tables of platform/procfs; the installation of hooks into
  kernel memory (platform/hook, platform/intercept) apart from the replacement of a system call; ciphers that the measurement does not use (platform/sm); the
  vendored regular expressions; the daemons, libraries and tools in user space (src/proxy, src/tss-main, src/ttm,
  src/tsb/user) apart from the way of the access rules, which marshal commands for a device or call third-party
  libraries.
\<close>

end
